(* ===== verification/Prelude.thy ===== *)
theory Prelude
  imports Main "HOL-Library.List_Lexorder" "HOL-Library.Char_ord"
begin

text \<open>
  The Go runtime as the rest of the development uses it: error values, 64-bit signed
  integers with their wrap-around, and instants, with the simplification rules that read
  a chain of checks as the conjunction of what it requires.
\<close>

section \<open>Errors\<close>

text \<open>
  A Go \<^verbatim>\<open>error\<close> result is \<open>go_error option\<close> (None is \<^verbatim>\<open>nil\<close>); a result pair
  \<^verbatim>\<open>(T, error)\<close>, or a method that mutates its receiver and returns an error, is a sum with
  the error on the left. An error carries the sentinel that \<^verbatim>\<open>errors.Is\<close> sees and the
  constant part of its message, without formatted arguments.
\<close>

datatype go_error =
    ErrValidation string
  | ErrTransition string string string \<comment> \<open>TransitionError: entity, from, to\<close>
  | ErrStateConflict string
  | ErrVersionConflict
  | ErrIdempotencyConflict
  | ErrWakeupNotQueued
  | ErrWorkItemLocked string \<comment> \<open>the run that holds the lock\<close>
  | ErrNotFound
  | ErrOther string

text \<open>The chain \<open>if err := c; err != nil { return err }\<close>: the first error wins.\<close>

fun first_error :: "go_error option list \<Rightarrow> go_error option" where
  "first_error [] = None"
| "first_error (None # cs) = first_error cs"
| "first_error (Some e # cs) = Some e"

definition require :: "bool \<Rightarrow> go_error \<Rightarrow> go_error option" where
  "require b e = (if b then None else Some e)"

lemma require_None [simp]: "require b e = None \<longleftrightarrow> b"
  by (simp add: require_def)

lemma require_simps [simp]: "require True e = None" "require False e = Some e"
  by (simp_all add: require_def)

lemma first_error_None_Cons [simp]:
  "first_error (c # cs) = None \<longleftrightarrow> c = None \<and> first_error cs = None"
  by (cases c) auto

lemma first_error_append:
  "first_error (xs @ ys) = (case first_error xs of None \<Rightarrow> first_error ys | Some e \<Rightarrow> Some e)"
  by (induction xs rule: first_error.induct) auto

lemma first_error_append_None [simp]:
  "first_error (xs @ ys) = None \<longleftrightarrow> first_error xs = None \<and> first_error ys = None"
  by (simp add: first_error_append split: option.splits)

lemma first_error_None_iff: "first_error cs = None \<longleftrightarrow> (\<forall>c\<in>set cs. c = None)"
  by (induction cs rule: first_error.induct) auto

lemma first_error_map_None [simp]:
  "first_error (map f xs) = None \<longleftrightarrow> (\<forall>x\<in>set xs. f x = None)"
  by (simp add: first_error_None_iff)

lemma first_error_in: "first_error cs = Some e \<Longrightarrow> Some e \<in> set cs"
  by (induction cs rule: first_error.induct) auto

text \<open>Run a mutation only when its guard reports no error.\<close>

definition guarded :: "go_error option \<Rightarrow> 'a \<Rightarrow> go_error + 'a" where
  "guarded c x = (case c of None \<Rightarrow> Inr x | Some e \<Rightarrow> Inl e)"

lemma guarded_Inr [simp]: "guarded c x = Inr y \<longleftrightarrow> c = None \<and> x = y"
  by (auto simp: guarded_def split: option.splits)

lemma guarded_Inl [simp]: "guarded c x = Inl e \<longleftrightarrow> c = Some e"
  by (auto simp: guarded_def split: option.splits)

lemma guarded_simps [simp]: "guarded None x = Inr x" "guarded (Some e) x = Inl e"
  by (simp_all add: guarded_def)

text \<open>A caller that meets an error keeps the aggregate it had.\<close>

definition keep :: "'e \<Rightarrow> go_error + 'e \<Rightarrow> 'e" where
  "keep e r = (case r of Inl _ \<Rightarrow> e | Inr e' \<Rightarrow> e')"

lemma keep_simps [simp]: "keep e (Inl x) = e" "keep e (Inr e') = e'"
  by (simp_all add: keep_def)

lemma keepI: "P e \<Longrightarrow> (\<And>e'. r = Inr e' \<Longrightarrow> P e') \<Longrightarrow> P (keep e r)"
  by (cases r) auto

lemma option_case_None_iff [simp]:
  "(case x of None \<Rightarrow> None | Some y \<Rightarrow> f y) = None \<longleftrightarrow> (\<forall>y. x = Some y \<longrightarrow> f y = None)"
  by (cases x) auto

section \<open>Integers and instants\<close>

text \<open>
  Go's \<^verbatim>\<open>int64\<close> (and \<^verbatim>\<open>int\<close> on the 64-bit targets) as \<open>int\<close> with the two's
  complement wrap-around written out wherever the code adds, subtracts or multiplies.
\<close>

definition in64 :: "int \<Rightarrow> bool" where
  "in64 x \<longleftrightarrow> - 9223372036854775808 \<le> x \<and> x \<le> 9223372036854775807"

definition wrap64 :: "int \<Rightarrow> int" where
  "wrap64 x = (x + 9223372036854775808) mod 18446744073709551616 - 9223372036854775808"

definition maxInt64 :: int where
  "maxInt64 = 9223372036854775807"

definition inc64 :: "int \<Rightarrow> int" where
  "inc64 x = wrap64 (x + 1)"

lemma in64_wrap64 [simp]: "in64 (wrap64 x)"
proof -
  have "0 \<le> (x + 9223372036854775808) mod 18446744073709551616"
    and "(x + 9223372036854775808) mod 18446744073709551616 < 18446744073709551616"
    by simp_all
  then show ?thesis by (simp add: in64_def wrap64_def)
qed

lemma wrap64_id [simp]: "in64 x \<Longrightarrow> wrap64 x = x"
  by (simp add: in64_def wrap64_def)

lemma in64_inc64 [simp]: "in64 (inc64 x)"
  by (simp add: inc64_def)

lemma inc64_eq: "in64 x \<Longrightarrow> x < maxInt64 \<Longrightarrow> inc64 x = x + 1"
  by (simp add: inc64_def in64_def maxInt64_def)

lemma inc64_max: "inc64 maxInt64 = - 9223372036854775808"
  by (simp add: inc64_def maxInt64_def wrap64_def)

lemma inc64_ge1: "1 \<le> x \<Longrightarrow> x < maxInt64 \<Longrightarrow> inc64 x = x + 1"
  by (rule inc64_eq) (auto simp: in64_def maxInt64_def)

text \<open>
  \<^verbatim>\<open>time.Time\<close>: nanoseconds since Go's zero instant (year 1, UTC). \<^verbatim>\<open>UTC()\<close> changes the
  location only and is the identity on instants; \<^verbatim>\<open>After\<close> and \<^verbatim>\<open>Before\<close> are the order.
\<close>

type_synonym time = int

definition IsZero :: "time \<Rightarrow> bool" where
  "IsZero t \<longleftrightarrow> t = 0"

end
