(* ===== verification/GoText.thy ===== *)
theory GoText
  imports Prelude
begin

text \<open>
  Byte strings: the parts of \<^verbatim>\<open>strings\<close>, \<^verbatim>\<open>unicode/utf8\<close> and \<^verbatim>\<open>path\<close> the domain code
  calls, and the field validators at the end of \<^verbatim>\<open>internal/domain/governance.go\<close>
  (\<^verbatim>\<open>validateTypedID\<close>, \<^verbatim>\<open>validateText\<close>, \<^verbatim>\<open>validateWriteScope\<close> and their kin) which every
  aggregate uses. A Go string is a list of bytes, and \<open>char\<close> is a byte.
\<close>

section \<open>strings: prefixes, splitting, trimming\<close>

definition HasPrefix :: "string \<Rightarrow> string \<Rightarrow> bool" where
  "HasPrefix s p \<longleftrightarrow> take (length p) s = p"

fun splitOn :: "char \<Rightarrow> string \<Rightarrow> string list" where
  "splitOn c [] = [[]]"
| "splitOn c (x # xs) =
     (if x = c then [] # splitOn c xs
      else (case splitOn c xs of [] \<Rightarrow> [[x]] | y # ys \<Rightarrow> (x # y) # ys))"

fun joinWith :: "string \<Rightarrow> string list \<Rightarrow> string" where
  "joinWith sep [] = []"
| "joinWith sep [x] = x"
| "joinWith sep (x # xs) = x @ sep @ joinWith sep xs"

text \<open>UTF-8 encodings of the runes of \<^verbatim>\<open>unicode.IsSpace\<close>.\<close>

definition space_runes :: "string list" where
  "space_runes =
    [[CHR 0x20], [CHR 0x0A], [CHR 0x09], [CHR 0x0B], [CHR 0x0C], [CHR 0x0D],
     [CHR 0xC2, CHR 0x85], [CHR 0xC2, CHR 0xA0], [CHR 0xE1, CHR 0x9A, CHR 0x80],
     [CHR 0xE2, CHR 0x80, CHR 0x80], [CHR 0xE2, CHR 0x80, CHR 0x81],
     [CHR 0xE2, CHR 0x80, CHR 0x82], [CHR 0xE2, CHR 0x80, CHR 0x83],
     [CHR 0xE2, CHR 0x80, CHR 0x84], [CHR 0xE2, CHR 0x80, CHR 0x85],
     [CHR 0xE2, CHR 0x80, CHR 0x86], [CHR 0xE2, CHR 0x80, CHR 0x87],
     [CHR 0xE2, CHR 0x80, CHR 0x88], [CHR 0xE2, CHR 0x80, CHR 0x89],
     [CHR 0xE2, CHR 0x80, CHR 0x8A], [CHR 0xE2, CHR 0x80, CHR 0xA8],
     [CHR 0xE2, CHR 0x80, CHR 0xA9], [CHR 0xE2, CHR 0x80, CHR 0xAF],
     [CHR 0xE2, CHR 0x81, CHR 0x9F], [CHR 0xE3, CHR 0x80, CHR 0x80]]"

text \<open>
  Drop encodings of the list from the front. \<^verbatim>\<open>TrimSpace\<close> does it on the string and then
  on the reversed string: a space rune at the end, as \<^verbatim>\<open>DecodeLastRune\<close> finds it, is one
  of the encodings as a suffix, because its continuation bytes start no rune.
\<close>

function trim_front :: "string list \<Rightarrow> string \<Rightarrow> string" where
  "trim_front encs s =
     (case List.find (\<lambda>e. e \<noteq> [] \<and> HasPrefix s e) encs of
        None \<Rightarrow> s
      | Some e \<Rightarrow> trim_front encs (drop (length e) s))"
  by pat_completeness auto
termination
proof (relation "measure (\<lambda>(encs, s). length s)")
  fix encs s e
  assume "List.find (\<lambda>e. e \<noteq> [] \<and> HasPrefix s e) encs = Some e"
  then have "e \<noteq> []" and "take (length e) s = e"
    by (auto simp: find_Some_iff HasPrefix_def)
  then have "0 < length e" and "s \<noteq> []"
    by auto
  then show "((encs, drop (length e) s), encs, s) \<in> measure (\<lambda>(encs, s). length s)"
    by simp
qed simp

declare trim_front.simps [simp del]

definition TrimSpace :: "string \<Rightarrow> string" where
  "TrimSpace s = rev (trim_front (map rev space_runes) (rev (trim_front space_runes s)))"

definition graphic :: "char \<Rightarrow> bool" where
  "graphic c \<longleftrightarrow> (33::nat) \<le> of_char c \<and> of_char c \<le> (126::nat)"

text \<open>\<open>graphic\<close> is decided by comparing codes; a string of them is its own trimming.\<close>

lemma graphic_not_space: "graphic c \<Longrightarrow> e \<in> set space_runes \<Longrightarrow> hd e \<noteq> c \<and> last e \<noteq> c"
  by (auto simp: space_runes_def graphic_def)

lemma space_runes_nonempty: "e \<in> set space_runes \<Longrightarrow> e \<noteq> []"
  by (auto simp: space_runes_def)

lemma trim_front_Nil [simp]: "trim_front encs [] = []"
  by (subst trim_front.simps)
     (auto simp: HasPrefix_def find_Some_iff find_None_iff split: option.splits)

lemma trim_front_keep:
  assumes "\<And>e. e \<in> set encs \<Longrightarrow> e \<noteq> [] \<and> hd e \<noteq> hd s" and "s \<noteq> []"
  shows "trim_front encs s = s"
proof -
  have "List.find (\<lambda>e. e \<noteq> [] \<and> HasPrefix s e) encs = None"
    using assms by (cases s) (fastforce simp: find_None_iff HasPrefix_def neq_Nil_conv)+
  then show ?thesis by (subst trim_front.simps) simp
qed

lemma TrimSpace_Nil [simp]: "TrimSpace [] = []"
  by (simp add: TrimSpace_def)

lemma TrimSpace_graphic:
  assumes "s \<noteq> []" and "graphic (hd s)" and "graphic (last s)"
  shows "TrimSpace s = s"
proof -
  have l: "trim_front space_runes s = s"
    using assms graphic_not_space space_runes_nonempty by (intro trim_front_keep) auto
  have r: "trim_front (map rev space_runes) (rev s) = rev s"
    using assms graphic_not_space space_runes_nonempty
    by (intro trim_front_keep) (auto simp: hd_rev)
  show ?thesis by (simp add: TrimSpace_def l r)
qed

text \<open>Trimming only drops bytes at the two ends.\<close>

lemma trim_front_suffix: "\<exists>pre. s = pre @ trim_front encs s"
proof (induction encs s rule: trim_front.induct)
  case (1 encs s)
  show ?case
  proof (cases "List.find (\<lambda>e. e \<noteq> [] \<and> HasPrefix s e) encs")
    case None
    then show ?thesis by (subst trim_front.simps) simp
  next
    case (Some e)
    with "1.IH" obtain pre where
      "drop (length e) s = pre @ trim_front encs (drop (length e) s)" by blast
    then have "s = (take (length e) s @ pre) @ trim_front encs (drop (length e) s)"
      by (metis append_assoc append_take_drop_id)
    moreover have "trim_front encs s = trim_front encs (drop (length e) s)"
      using Some by (subst trim_front.simps) simp
    ultimately show ?thesis by metis
  qed
qed

lemma length_trim_front: "length (trim_front encs s) \<le> length s"
  using trim_front_suffix [of s encs] by (metis le_add2 length_append)

lemma length_TrimSpace: "length (TrimSpace s) \<le> length s"
  using length_trim_front [of "map rev space_runes" "rev (trim_front space_runes s)"]
    length_trim_front [of space_runes s]
  by (simp add: TrimSpace_def)

section \<open>unicode/utf8\<close>

text \<open>
  The number of bytes of the well-formed encoding at the head of a byte sequence (0 when
  there is none), by the ranges of the UTF-8 table: no overlong forms, no surrogates,
  nothing above U+10FFFF.
\<close>

definition cont_byte :: "nat \<Rightarrow> bool" where
  "cont_byte b \<longleftrightarrow> 128 \<le> b \<and> b \<le> 191"

fun rune_width :: "nat list \<Rightarrow> nat" where
  "rune_width [] = 0"
| "rune_width (a # r) =
     (if a < 128 then 1
      else if 194 \<le> a \<and> a \<le> 223 then
        (case r of b # _ \<Rightarrow> if cont_byte b then 2 else 0 | [] \<Rightarrow> 0)
      else if 224 \<le> a \<and> a \<le> 239 then
        (case r of b # c # _ \<Rightarrow>
           if (if a = 224 then 160 else 128) \<le> b \<and> b \<le> (if a = 237 then 159 else 191)
              \<and> cont_byte c then 3 else 0
         | _ \<Rightarrow> 0)
      else if 240 \<le> a \<and> a \<le> 244 then
        (case r of b # c # d # _ \<Rightarrow>
           if (if a = 240 then 144 else 128) \<le> b \<and> b \<le> (if a = 244 then 143 else 191)
              \<and> cont_byte c \<and> cont_byte d then 4 else 0
         | _ \<Rightarrow> 0)
      else 0)"

function valid_runes :: "nat list \<Rightarrow> bool" where
  "valid_runes bs =
     (if bs = [] then True
      else if rune_width bs = 0 then False
      else valid_runes (drop (rune_width bs) bs))"
  by pat_completeness auto
termination
  by (relation "measure length") auto

function count_runes :: "nat list \<Rightarrow> nat" where
  "count_runes bs =
     (if bs = [] then 0 else Suc (count_runes (drop (max 1 (rune_width bs)) bs)))"
  by pat_completeness auto
termination
  by (relation "measure length") auto

declare valid_runes.simps [simp del] count_runes.simps [simp del]

definition bytes :: "string \<Rightarrow> nat list" where
  "bytes s = map of_char s"

definition ValidString :: "string \<Rightarrow> bool" where
  "ValidString s = valid_runes (bytes s)"

definition RuneCountInString :: "string \<Rightarrow> nat" where
  "RuneCountInString s = count_runes (bytes s)"

lemma valid_runes_Nil [simp]: "valid_runes []"
  by (simp add: valid_runes.simps)

lemma valid_runes_ascii_Cons [simp]: "a < 128 \<Longrightarrow> valid_runes (a # bs) = valid_runes bs"
  by (subst valid_runes.simps) simp

lemma count_runes_Nil [simp]: "count_runes [] = 0"
  by (simp add: count_runes.simps)

lemma count_runes_ascii_Cons [simp]: "a < 128 \<Longrightarrow> count_runes (a # bs) = Suc (count_runes bs)"
  by (subst count_runes.simps) simp

lemma count_runes_le: "count_runes bs \<le> length bs"
proof (induction bs rule: count_runes.induct)
  case (1 bs)
  show ?case
  proof (cases "bs = []")
    case True
    then show ?thesis by simp
  next
    case False
    with "1.IH" have "count_runes (drop (max 1 (rune_width bs)) bs) \<le> length bs - 1"
      by (smt (verit, best) diff_le_mono2 le_trans length_drop max.cobounded1)
    with False show ?thesis
      by (subst count_runes.simps) (cases bs, auto)
  qed
qed

lemma RuneCount_le_length: "RuneCountInString s \<le> length s"
  using count_runes_le [of "bytes s"] by (simp add: RuneCountInString_def bytes_def)

definition ascii :: "string \<Rightarrow> bool" where
  "ascii s \<longleftrightarrow> (\<forall>c\<in>set s. of_char c < (128::nat))"

lemma ValidString_ascii: "ascii s \<Longrightarrow> ValidString s"
  by (induction s) (auto simp: ascii_def ValidString_def bytes_def)

lemma RuneCount_ascii: "ascii s \<Longrightarrow> RuneCountInString s = length s"
  by (induction s) (auto simp: ascii_def RuneCountInString_def bytes_def)

section \<open>path.Clean\<close>

text \<open>
  The lexical cleaning of a path, element by element: empty and \<^verbatim>\<open>.\<close> elements vanish,
  \<^verbatim>\<open>..\<close> removes the element before it, and is kept where there is none to remove and the
  path is not rooted. The stack holds the kept elements, last first.
\<close>

definition clean_elem :: "bool \<Rightarrow> string list \<Rightarrow> string \<Rightarrow> string list" where
  "clean_elem rooted st x =
     (if x = '''' \<or> x = ''.'' then st
      else if x = ''..'' then
        (case st of
           [] \<Rightarrow> (if rooted then [] else [''..''])
         | y # ys \<Rightarrow> (if y = ''..'' then ''..'' # st else ys))
      else x # st)"

definition clean_stack :: "bool \<Rightarrow> string list \<Rightarrow> string list" where
  "clean_stack rooted xs = foldl (clean_elem rooted) [] xs"

definition path_Clean :: "string \<Rightarrow> string" where
  "path_Clean p =
     (if p = '''' then ''.''
      else let rooted = HasPrefix p ''/'';
               body = joinWith ''/'' (rev (clean_stack rooted (splitOn (CHR ''/'') p)))
           in if rooted then ''/'' @ body else if body = '''' then ''.'' else body)"

section \<open>Field validators (internal/domain/governance.go)\<close>

definition validateTypedID :: "string \<Rightarrow> string \<Rightarrow> string \<Rightarrow> go_error option" where
  "validateTypedID field id0 pfx =
     require (\<not> (id0 = '''' \<or> TrimSpace id0 \<noteq> id0 \<or> \<not> HasPrefix id0 pfx
                \<or> length id0 = length pfx))
       (ErrValidation (field @ '' must be a non-empty id''))"

definition validateOptionalTypedID :: "string \<Rightarrow> string \<Rightarrow> string \<Rightarrow> go_error option" where
  "validateOptionalTypedID field id0 pfx =
     (if id0 = '''' then None else validateTypedID field id0 pfx)"

fun firstDuplicate_from :: "string list \<Rightarrow> string list \<Rightarrow> string" where
  "firstDuplicate_from seen [] = ''''"
| "firstDuplicate_from seen (v # vs) =
     (if v \<in> set seen then v else firstDuplicate_from (v # seen) vs)"

definition firstDuplicate :: "string list \<Rightarrow> string" where
  "firstDuplicate vs = firstDuplicate_from [] vs"

fun containsString :: "string list \<Rightarrow> string \<Rightarrow> bool" where
  "containsString [] want = False"
| "containsString (v # vs) want = (if v = want then True else containsString vs want)"

definition validateTypedIDList ::
    "string \<Rightarrow> string list \<Rightarrow> nat \<Rightarrow> nat \<Rightarrow> string \<Rightarrow> go_error option" where
  "validateTypedIDList field ids lo hi pfx =
     first_error
       ([require (\<not> (length ids < lo \<or> length ids > hi))
           (ErrValidation (field @ '' must contain a bounded number of items'')),
         require (firstDuplicate ids = '''') (ErrValidation (''duplicate item in '' @ field))]
        @ map (\<lambda>i. validateTypedID field i pfx) ids)"

definition validateText :: "string \<Rightarrow> string \<Rightarrow> nat \<Rightarrow> go_error option" where
  "validateText field v maxRunes =
     (if \<not> ValidString v \<or> TrimSpace v = '''' then
        Some (ErrValidation (field @ '' must be non-empty UTF-8 text''))
      else if RuneCountInString v > maxRunes then
        Some (ErrValidation (field @ '' exceeds its maximal length''))
      else None)"

definition isWindowsDrivePath :: "string \<Rightarrow> bool" where
  "isWindowsDrivePath v =
     (case v of
        c # d # _ \<Rightarrow>
          d = CHR '':'' \<and>
          ((CHR ''a'' \<le> c \<and> c \<le> CHR ''z'') \<or> (CHR ''A'' \<le> c \<and> c \<le> CHR ''Z''))
      | _ \<Rightarrow> False)"

definition validateWriteScope :: "string \<Rightarrow> go_error option" where
  "validateWriteScope v =
     (case validateText ''write scope'' v 1024 of
        Some e \<Rightarrow> Some e
      | None \<Rightarrow>
          if CHR 0x00 \<in> set v \<or> CHR 0x5C \<in> set v \<or> HasPrefix v ''/'' \<or> isWindowsDrivePath v
          then Some (ErrValidation ''write scope must be relative'')
          else let c = path_Clean v
               in if c = ''.'' \<or> c = ''..'' \<or> HasPrefix c ''../''
                  then Some (ErrValidation ''write scope escapes its context'')
                  else None)"

text \<open>The sets the validators accept, which the component proofs use.\<close>

definition isTypedID :: "string \<Rightarrow> string \<Rightarrow> bool" where
  "isTypedID pfx x \<longleftrightarrow> validateTypedID '''' x pfx = None"

definition isText :: "nat \<Rightarrow> string \<Rightarrow> bool" where
  "isText n v \<longleftrightarrow> validateText '''' v n = None"

lemma validateTypedID_None [simp]: "validateTypedID f x pfx = None \<longleftrightarrow> isTypedID pfx x"
  by (simp add: validateTypedID_def isTypedID_def)

lemma validateText_None [simp]: "validateText f v n = None \<longleftrightarrow> isText n v"
  by (simp add: validateText_def isText_def)

lemma isTypedID_nonempty: "isTypedID pfx x \<Longrightarrow> x \<noteq> ''''"
  by (auto simp: isTypedID_def validateTypedID_def)

lemma isText_nonempty: "isText n v \<Longrightarrow> v \<noteq> ''''"
  by (auto simp: isText_def validateText_def split: if_splits)

lemma isText_trim: "isText n v \<Longrightarrow> TrimSpace v \<noteq> ''''"
  by (auto simp: isText_def validateText_def split: if_splits)

lemma not_isText_Nil [simp]: "\<not> isText n ''''"
  using isText_nonempty by blast

lemma not_isTypedID_Nil [simp]: "\<not> isTypedID pfx ''''"
  using isTypedID_nonempty by blast

lemma validateOptionalTypedID_None [simp]:
  "validateOptionalTypedID f x pfx = None \<longleftrightarrow> x = '''' \<or> isTypedID pfx x"
  by (simp add: validateOptionalTypedID_def)

lemma isTypedID_graphic:
  "x \<noteq> '''' \<Longrightarrow> graphic (hd x) \<Longrightarrow> graphic (last x) \<Longrightarrow> HasPrefix x pfx \<Longrightarrow>
   length pfx < length x \<Longrightarrow> isTypedID pfx x"
  by (simp add: isTypedID_def validateTypedID_def TrimSpace_graphic)

lemma isText_ascii:
  "v \<noteq> '''' \<Longrightarrow> graphic (hd v) \<Longrightarrow> graphic (last v) \<Longrightarrow> ascii v \<Longrightarrow> length v \<le> n \<Longrightarrow> isText n v"
  by (simp add: isText_def validateText_def TrimSpace_graphic ValidString_ascii RuneCount_ascii)

lemma validate_eval:
  "isTypedID pfx x \<Longrightarrow> validateTypedID f x pfx = None"
  "isText n v \<Longrightarrow> validateText f v n = None"
  by simp_all

lemmas text_eval = validate_eval isTypedID_graphic isText_ascii graphic_def ascii_def HasPrefix_def

lemma containsString_iff [simp]: "containsString vs w \<longleftrightarrow> w \<in> set vs"
  by (induction vs) auto

lemma firstDuplicate_from_distinct:
  "'''' \<notin> set vs \<Longrightarrow>
   firstDuplicate_from seen vs = '''' \<longleftrightarrow> distinct vs \<and> set vs \<inter> set seen = {}"
  by (induction vs arbitrary: seen) auto

lemma firstDuplicate_distinct:
  "'''' \<notin> set vs \<Longrightarrow> firstDuplicate vs = '''' \<longleftrightarrow> distinct vs"
  by (simp add: firstDuplicate_def firstDuplicate_from_distinct)

lemma firstDuplicate_of_distinct: "distinct vs \<Longrightarrow> firstDuplicate vs = ''''"
proof -
  have "distinct vs \<Longrightarrow> set vs \<inter> set seen = {} \<Longrightarrow> firstDuplicate_from seen vs = ''''" for seen
    by (induction vs arbitrary: seen) auto
  then show "distinct vs \<Longrightarrow> ?thesis" by (simp add: firstDuplicate_def)
qed

lemma validateTypedIDList_None [simp]:
  "validateTypedIDList f ids lo hi pfx = None \<longleftrightarrow>
     lo \<le> length ids \<and> length ids \<le> hi \<and> distinct ids \<and> (\<forall>i\<in>set ids. isTypedID pfx i)"
proof -
  have "(\<forall>i\<in>set ids. isTypedID pfx i) \<Longrightarrow> firstDuplicate ids = '''' \<longleftrightarrow> distinct ids"
    by (rule firstDuplicate_distinct) (use isTypedID_nonempty in blast)
  then show ?thesis
    by (auto simp: validateTypedIDList_def not_less)
qed

section \<open>Write scopes stay inside their context\<close>

text \<open>
  The specification: walk down the directories, element by element, keeping the path below
  the context directory; climbing above it is an escape (None).
\<close>

fun walk :: "string list \<Rightarrow> string list \<Rightarrow> string list option" where
  "walk st [] = Some st"
| "walk st (x # xs) =
     (if x = '''' \<or> x = ''.'' then walk st xs
      else if x = ''..'' then (case st of [] \<Rightarrow> None | _ # st' \<Rightarrow> walk st' xs)
      else walk (x # st) xs)"

text \<open>A cleaned stack holds its \<^verbatim>\<open>..\<close> elements at the bottom, and once there they stay.\<close>

lemma clean_dotdot_stays:
  "st \<noteq> [] \<Longrightarrow> last st = ''..'' \<Longrightarrow>
   foldl (clean_elem False) st xs \<noteq> [] \<and> last (foldl (clean_elem False) st xs) = ''..''"
proof (induction xs arbitrary: st)
  case Nil
  then show ?case by simp
next
  case (Cons x xs)
  then have "clean_elem False st x \<noteq> [] \<and> last (clean_elem False st x) = ''..''"
    by (cases st) (auto simp: clean_elem_def split: if_splits)
  with Cons.IH show ?case by simp
qed

lemma walk_clean:
  assumes "''..'' \<notin> set st"
  shows "(case walk st xs of
            Some st' \<Rightarrow> foldl (clean_elem False) st xs = st' \<and> ''..'' \<notin> set st'
          | None \<Rightarrow> foldl (clean_elem False) st xs \<noteq> [] \<and>
                    last (foldl (clean_elem False) st xs) = ''..'')"
  using assms
proof (induction st xs rule: walk.induct)
  case (1 st)
  then show ?case by simp
next
  case (2 st x xs)
  consider "x = '''' \<or> x = ''.''" | "x = ''..''" "st = []" | y st' where "x = ''..''" "st = y # st'"
    | "x \<noteq> ''''" "x \<noteq> ''.''" "x \<noteq> ''..''"
    by (cases st) auto
  then show ?case
  proof cases
    case 2
    then show ?thesis
      using clean_dotdot_stays [of "[''..'']" xs] by (simp add: clean_elem_def)
  qed (use "2.IH" "2.prems" in \<open>auto simp: clean_elem_def split: option.splits\<close>)
qed

lemma joinWith_dotdot:
  assumes "st \<noteq> []" and "last st = ''..''"
  shows "joinWith ''/'' (rev st) = ''..'' \<or> HasPrefix (joinWith ''/'' (rev st)) ''../''"
proof -
  from assms obtain ys where "st = ys @ [''..'']"
    by (metis append_butlast_last_id)
  then have "rev st = ''..'' # rev ys" by simp
  then show ?thesis by (cases "rev ys") (auto simp: HasPrefix_def)
qed

text \<open>An accepted scope names something strictly below its context and never climbs above it.\<close>

lemma validateWriteScope_walk:
  assumes "validateWriteScope v = None"
  shows "\<exists>st. walk [] (splitOn (CHR ''/'') v) = Some st \<and> st \<noteq> [] \<and> ''..'' \<notin> set st"
proof -
  let ?xs = "splitOn (CHR ''/'') v"
  let ?st = "foldl (clean_elem False) [] ?xs"
  let ?body = "joinWith ''/'' (rev ?st)"
  from assms have nr: "\<not> HasPrefix v ''/''" and c: "path_Clean v \<noteq> ''.''" "path_Clean v \<noteq> ''..''"
    "\<not> HasPrefix (path_Clean v) ''../''"
    by (auto simp: validateWriteScope_def Let_def split: option.splits if_splits)
  from c(1) have "v \<noteq> ''''" by (auto simp: path_Clean_def)
  with nr c have pc: "path_Clean v = ?body" and ne: "?body \<noteq> ''''"
    by (auto simp: path_Clean_def clean_stack_def Let_def split: if_splits)
  have "walk [] ?xs \<noteq> None"
  proof
    assume "walk [] ?xs = None"
    with walk_clean [of "[]" ?xs] have "?st \<noteq> []" and "last ?st = ''..''" by auto
    then have "?body = ''..'' \<or> HasPrefix ?body ''../''" by (rule joinWith_dotdot)
    with c pc show False by simp
  qed
  then obtain st where w: "walk [] ?xs = Some st" by auto
  with walk_clean [of "[]" ?xs] have "?st = st" and "''..'' \<notin> set st" by auto
  moreover from ne \<open>?st = st\<close> have "st \<noteq> []" by auto
  ultimately show ?thesis using w by blast
qed

section \<open>strconv and fmt for integers\<close>

fun nat_digits :: "nat \<Rightarrow> string" where
  "nat_digits n = (if n < 10 then [char_of (48 + n)] else nat_digits (n div 10) @ [char_of (48 + n mod 10)])"

declare nat_digits.simps [simp del]

definition itoa :: "int \<Rightarrow> string" where
  "itoa n = (if n < 0 then ''-'' @ nat_digits (nat (- n)) else nat_digits (nat n))"

lemma nat_digits_chars: "c \<in> set (nat_digits n) \<Longrightarrow> graphic c \<and> of_char c < (128::nat)"
proof (induction n rule: nat_digits.induct)
  case (1 n)
  have digit: "graphic (char_of (48 + m))" "of_char (char_of (48 + m) :: char) < (128::nat)"
    if "m < 10" for m :: nat
    using that by (auto simp: graphic_def)
  show ?case
  proof (cases "n < 10")
    case True
    then show ?thesis using "1.prems" digit by (subst (asm) nat_digits.simps) auto
  next
    case False
    then have "c \<in> set (nat_digits (n div 10)) \<or> c = char_of (48 + n mod 10)"
      using "1.prems" by (subst (asm) nat_digits.simps) auto
    then show ?thesis using "1.IH" [OF False] digit by auto
  qed
qed

lemma length_nat_digits: "n < 10 ^ Suc k \<Longrightarrow> length (nat_digits n) \<le> Suc k"
proof (induction k arbitrary: n)
  case 0
  then show ?case by (subst nat_digits.simps) simp
next
  case (Suc k)
  have "n div 10 < 10 ^ Suc k" using Suc.prems by (simp add: less_mult_imp_div_less)
  from Suc.IH [OF this] show ?case by (subst nat_digits.simps) simp
qed

lemma nat_digits_nonempty: "nat_digits n \<noteq> []"
  by (subst nat_digits.simps) simp

lemma itoa_text:
  assumes "0 \<le> n" and "n \<le> maxInt64"
  shows "itoa n \<noteq> []" and "length (itoa n) \<le> 19" and "\<forall>c\<in>set (itoa n). graphic c \<and> of_char c < (128::nat)"
proof -
  have "nat n < 10 ^ Suc 18" using assms by (simp add: maxInt64_def)
  from length_nat_digits [OF this] show "length (itoa n) \<le> 19" using assms(1) by (simp add: itoa_def)
  show "itoa n \<noteq> []" using assms(1) nat_digits_nonempty by (simp add: itoa_def)
  show "\<forall>c\<in>set (itoa n). graphic c \<and> of_char c < (128::nat)"
    using assms(1) nat_digits_chars by (simp add: itoa_def)
qed

section \<open>Dynamically typed values\<close>

text \<open>
  The values of \<^verbatim>\<open>any\<close> in \<^verbatim>\<open>map[string]any\<close>. A finite float is its exact value, an
  integer times a power of two; a map is an association list with distinct keys.
\<close>

datatype goval =
    VNil
  | VBool bool
  | VInt int
  | VInt64 int
  | VFloat int int \<comment> \<open>\<open>VFloat m e\<close> is the finite float64 of value \<open>m * 2 powr e\<close>\<close>
  | VFloatNonFinite
  | VStr string
  | VList "goval list"
  | VMap "(string \<times> goval) list"

type_synonym gomap = "(string \<times> goval) list"

text \<open>The checked type assertions \<^verbatim>\<open>m[k].(string)\<close> and \<^verbatim>\<open>m[k].(bool)\<close>.\<close>

definition get_string :: "gomap \<Rightarrow> string \<Rightarrow> string option" where
  "get_string m k = (case map_of m k of Some (VStr s) \<Rightarrow> Some s | _ \<Rightarrow> None)"

definition get_bool :: "gomap \<Rightarrow> string \<Rightarrow> bool option" where
  "get_bool m k = (case map_of m k of Some (VBool b) \<Rightarrow> Some b | _ \<Rightarrow> None)"

text \<open>The zero value where the assertion fails: \<^verbatim>\<open>s, _ := m[k].(string)\<close>.\<close>

definition string_or_empty :: "gomap \<Rightarrow> string \<Rightarrow> string" where
  "string_or_empty m k = (case get_string m k of Some s \<Rightarrow> s | None \<Rightarrow> '''')"

section \<open>Properties\<close>

text \<open>
  An accepted write scope cannot leave its context directory: it is not absolute, and walking
  it element by element (skipping empty and \<^verbatim>\<open>.\<close> elements, going up on \<^verbatim>\<open>..\<close>) never climbs above
  the directory and ends strictly below it.
\<close>

theorem write_scope_contained:
  assumes "validateWriteScope v = None"
  shows "\<not> HasPrefix v ''/'' \<and>
    (\<exists>st. walk [] (splitOn (CHR ''/'') v) = Some st \<and> st \<noteq> [] \<and> ''..'' \<notin> set st)"
  using validateWriteScope_walk [OF assms] assms
  by (auto simp: validateWriteScope_def Let_def split: option.splits if_splits)

theorem write_scope_contained_witness:
  "validateWriteScope ''src/app/../lib'' = None \<and>
   (\<exists>st. walk [] (splitOn (CHR ''/'') ''src/app/../lib'') = Some st \<and> st \<noteq> [] \<and> ''..'' \<notin> set st)"
proof -
  have "validateWriteScope ''src/app/../lib'' = None"
    by (simp add: validateWriteScope_def text_eval path_Clean_def clean_stack_def clean_elem_def
        isWindowsDrivePath_def Let_def)
  with write_scope_contained show ?thesis by blast
qed

end
