(* ===== verification/Lifecycle.thy ===== *)
theory Lifecycle
  imports GoText
begin

text \<open>
  The contracts the aggregates of \<^verbatim>\<open>internal/domain\<close> share, as interfaces. A \<open>lifecycle\<close> is
  an aggregate whose status moves along a transition table and never leaves a terminal
  status; a \<open>versioned_lifecycle\<close> also bumps the optimistic-lock version on every success;
  an \<open>aggregate\<close> is a set of operations that keep a validity predicate. The client lemmas
  (about whole histories of calls) are proved here once and used through the
  interpretations in the component theories.
\<close>

section \<open>Histories of calls\<close>

text \<open>A history of status changes; a refused call leaves the aggregate as it was.\<close>

fun run_steps :: "('e \<Rightarrow> 's \<Rightarrow> time \<Rightarrow> go_error + 'e) \<Rightarrow> 'e \<Rightarrow> ('s \<times> time) list \<Rightarrow> 'e" where
  "run_steps f e [] = e"
| "run_steps f e ((s, t) # xs) = run_steps f (keep e (f e s t)) xs"

text \<open>A history of arbitrary operations, with the same treatment of refused calls.\<close>

fun run_ops :: "('op \<Rightarrow> 'e \<Rightarrow> go_error + 'e) \<Rightarrow> 'e \<Rightarrow> 'op list \<Rightarrow> 'e" where
  "run_ops f e [] = e"
| "run_ops f e (x # xs) = run_ops f (keep e (f x e)) xs"

text \<open>Every call of a history meets a side condition in the state it is made in.\<close>

fun ok_run :: "('op \<Rightarrow> 'e \<Rightarrow> bool) \<Rightarrow> ('op \<Rightarrow> 'e \<Rightarrow> go_error + 'e) \<Rightarrow> 'e \<Rightarrow> 'op list \<Rightarrow> bool" where
  "ok_run ok f e [] = True"
| "ok_run ok f e (x # xs) = (ok x e \<and> ok_run ok f (keep e (f x e)) xs)"

text \<open>\<^verbatim>\<open>CheckVersion\<close>: an expected version of 0 skips the check.\<close>

definition check_version :: "int \<Rightarrow> int \<Rightarrow> go_error option" where
  "check_version expected actual =
     (if expected \<noteq> 0 \<and> expected \<noteq> actual then Some ErrVersionConflict else None)"

lemma check_version_None [simp]:
  "check_version v w = None \<longleftrightarrow> v = 0 \<or> v = w"
  by (auto simp: check_version_def)

section \<open>Life cycles\<close>

locale lifecycle =
  fixes status :: "'e \<Rightarrow> 's" and terminal :: "'s \<Rightarrow> bool" and can :: "'s \<Rightarrow> 's \<Rightarrow> bool"
    and step :: "'e \<Rightarrow> 's \<Rightarrow> time \<Rightarrow> go_error + 'e" and frame :: "'e \<Rightarrow> 'f"
  assumes step_sound:
      "step e s now = Inr e' \<Longrightarrow> \<not> terminal (status e) \<and> can (status e) s \<and> status e' = s"
    and step_frame: "step e s now = Inr e' \<Longrightarrow> frame e' = frame e"
begin

lemma terminal_refuses: "terminal (status e) \<Longrightarrow> \<exists>x. step e s now = Inl x"
  using step_sound by (cases "step e s now") auto

lemma terminal_absorbing: "terminal (status e) \<Longrightarrow> run_steps step e xs = e"
proof (induction xs)
  case Nil
  then show ?case by simp
next
  case (Cons x xs)
  obtain s t where x: "x = (s, t)" by (cases x)
  from Cons.prems obtain r where "step e s t = Inl r" using terminal_refuses by blast
  with Cons x show ?case by simp
qed

lemma keep_step_path: "can\<^sup>*\<^sup>* (status e) (status (keep e (step e s t)))"
  using step_sound [of e s t] by (cases "step e s t") auto

lemma status_path: "can\<^sup>*\<^sup>* (status e) (status (run_steps step e xs))"
proof (induction xs arbitrary: e)
  case Nil
  then show ?case by simp
next
  case (Cons x xs)
  obtain s t where x: "x = (s, t)" by (cases x)
  have "can\<^sup>*\<^sup>* (status e) (status (keep e (step e s t)))" by (rule keep_step_path)
  also have "can\<^sup>*\<^sup>* \<dots> (status (run_steps step (keep e (step e s t)) xs))" by (rule Cons.IH)
  finally show ?case using x by simp
qed

lemma frame_kept: "frame (run_steps step e xs) = frame e"
proof (induction xs arbitrary: e)
  case Nil
  then show ?case by simp
next
  case (Cons x xs)
  obtain s t where x: "x = (s, t)" by (cases x)
  have "frame (keep e (step e s t)) = frame e"
    using step_frame by (cases "step e s t") auto
  with Cons.IH x show ?case by simp
qed

text \<open>The statuses a history can reach are inside every set closed under the table.\<close>

lemma closed_statuses:
  assumes "status e \<in> S" and "\<And>s t. s \<in> S \<Longrightarrow> can s t \<Longrightarrow> t \<in> S"
  shows "status (run_steps step e xs) \<in> S"
  using status_path [of e xs] assms(1)
  by (induction rule: rtranclp_induct) (auto intro: assms(2))

end

text \<open>
  With a version that every success increments. The law is stated with the wrap-around of
  Go's \<^verbatim>\<open>int\<close>; the lemmas about orders assume that the counter does not reach its maximum.
\<close>

locale versioned_lifecycle = lifecycle status terminal can step frame
  for status :: "'e \<Rightarrow> 's" and terminal :: "'s \<Rightarrow> bool" and can :: "'s \<Rightarrow> 's \<Rightarrow> bool"
    and step :: "'e \<Rightarrow> 's \<Rightarrow> time \<Rightarrow> go_error + 'e" and frame :: "'e \<Rightarrow> 'f" +
  fixes version :: "'e \<Rightarrow> int"
  assumes step_version: "step e s now = Inr e' \<Longrightarrow> version e' = inc64 (version e)"
begin

lemma version_window:
  assumes "1 \<le> version e" and "version e + int (length xs) \<le> maxInt64"
  shows "version e \<le> version (run_steps step e xs) \<and>
         version (run_steps step e xs) \<le> version e + int (length xs) \<and>
         (run_steps step e xs = e \<or> version e < version (run_steps step e xs))"
  using assms
proof (induction xs arbitrary: e)
  case Nil
  then show ?case by simp
next
  case (Cons x xs)
  obtain s t where x: "x = (s, t)" by (cases x)
  show ?case
  proof (cases "step e s t")
    case (Inl r)
    then have "run_steps step e (x # xs) = run_steps step e xs" by (simp add: x)
    moreover have "version e + int (length xs) \<le> maxInt64" using Cons.prems by simp
    ultimately show ?thesis using Cons.IH [of e] Cons.prems(1) by auto
  next
    case (Inr e')
    have lt: "version e < maxInt64" using Cons.prems(2) by simp
    have v: "version e' = version e + 1"
      using step_version [OF Inr] inc64_ge1 [OF Cons.prems(1) lt] by simp
    have "run_steps step e (x # xs) = run_steps step e' xs" by (simp add: x Inr)
    moreover have "1 \<le> version e'" "version e' + int (length xs) \<le> maxInt64"
      using Cons.prems v by auto
    ultimately show ?thesis using Cons.IH [of e'] v by auto
  qed
qed

text \<open>The optimistic lock: whoever read the aggregate before a change is refused after it.\<close>

lemma stale_version_refused:
  assumes "1 \<le> version e" and "version e + int (length xs) \<le> maxInt64"
    and "run_steps step e xs \<noteq> e"
  shows "check_version (version e) (version (run_steps step e xs)) = Some ErrVersionConflict"
  using version_window [OF assms(1,2)] assms(1,3) by (auto simp: check_version_def)

end

section \<open>Operations that keep a validity predicate\<close>

text \<open>
  \<open>ok\<close> is what the environment owes an operation (a clock that is not the zero instant, a
  version counter below its maximum); under it every success keeps \<open>valid\<close>.
\<close>

locale aggregate =
  fixes valid :: "'e \<Rightarrow> bool" and ok :: "'op \<Rightarrow> 'e \<Rightarrow> bool"
    and apply_op :: "'op \<Rightarrow> 'e \<Rightarrow> go_error + 'e"
  assumes op_valid: "valid e \<Longrightarrow> ok x e \<Longrightarrow> apply_op x e = Inr e' \<Longrightarrow> valid e'"
begin

lemma keep_valid: "valid e \<Longrightarrow> ok x e \<Longrightarrow> valid (keep e (apply_op x e))"
  using op_valid by (cases "apply_op x e") auto

lemma run_valid: "valid e \<Longrightarrow> ok_run ok apply_op e xs \<Longrightarrow> valid (run_ops apply_op e xs)"
  by (induction xs arbitrary: e) (auto intro: keep_valid)

end

end
