(* ===== verification/GovernanceTypes.thy ===== *)
theory GovernanceTypes
  imports Lifecycle
begin

text \<open>
  The value types the governance aggregates share: the ID prefixes of
  \<^verbatim>\<open>internal/domain/ids.go\<close>, the turn identity and digest shape of
  \<^verbatim>\<open>turn_receipt.go\<close>, and the quota kinds, policies, error codes and evidence items of
  \<^verbatim>\<open>governance.go\<close>, each with its validator. A string-typed enumeration of the source is
  a datatype with one constructor per constant and one for every other string, so that
  \<^verbatim>\<open>Valid()\<close> stays a check.
\<close>

section \<open>ID prefixes (ids.go)\<close>

definition PrefixWorkspace :: string where "PrefixWorkspace = ''ws_''"
definition PrefixAgent :: string where "PrefixAgent = ''agent_''"
definition PrefixWorkItem :: string where "PrefixWorkItem = ''wi_''"
definition PrefixPlan :: string where "PrefixPlan = ''plan_''"
definition PrefixRun :: string where "PrefixRun = ''run_''"
definition PrefixApproval :: string where "PrefixApproval = ''approval_''"
definition PrefixArtifact :: string where "PrefixArtifact = ''artifact_''"
definition PrefixGoal :: string where "PrefixGoal = ''goal_''"
definition PrefixTodo :: string where "PrefixTodo = ''todo_''"
definition PrefixHandoff :: string where "PrefixHandoff = ''handoff_''"
definition PrefixValidationResult :: string where "PrefixValidationResult = ''validation_''"
definition PrefixDeliveryBriefSnapshot :: string where "PrefixDeliveryBriefSnapshot = ''brief_''"
definition PrefixQuotaGapResolution :: string where "PrefixQuotaGapResolution = ''qgap_''"

lemmas prefix_defs = PrefixWorkspace_def PrefixAgent_def PrefixWorkItem_def PrefixPlan_def
  PrefixRun_def PrefixApproval_def PrefixArtifact_def PrefixGoal_def PrefixTodo_def
  PrefixHandoff_def PrefixValidationResult_def PrefixDeliveryBriefSnapshot_def
  PrefixQuotaGapResolution_def

section \<open>Turn identity and digests (turn_receipt.go)\<close>

record TurnKey =
  tk_GoalID :: string
  tk_TodoID :: string
  tk_TurnSeq :: int

definition TurnKey_Validate :: "TurnKey \<Rightarrow> go_error option" where
  "TurnKey_Validate k = first_error
     [validateTypedID ''turn_key.goal_id'' (tk_GoalID k) PrefixGoal,
      validateTypedID ''turn_key.todo_id'' (tk_TodoID k) PrefixTodo,
      require (\<not> tk_TurnSeq k < 1) (ErrValidation ''turn_key.turn_seq must be >= 1'')]"

definition TurnKey_Equal :: "TurnKey \<Rightarrow> TurnKey \<Rightarrow> bool" where
  "TurnKey_Equal k l \<longleftrightarrow>
     tk_GoalID k = tk_GoalID l \<and> tk_TodoID k = tk_TodoID l \<and> tk_TurnSeq k = tk_TurnSeq l"

lemma TurnKey_Equal_iff [simp]: "TurnKey_Equal k l \<longleftrightarrow> k = l"
  by (cases k; cases l) (simp add: TurnKey_Equal_def)

definition isLowerHex :: "string \<Rightarrow> bool" where
  "isLowerHex v \<longleftrightarrow>
     (\<forall>c\<in>set v. \<not> ((c < CHR ''0'' \<or> CHR ''9'' < c) \<and> (c < CHR ''a'' \<or> CHR ''f'' < c)))"

definition ValidCanonicalDigest :: "string \<Rightarrow> bool" where
  "ValidCanonicalDigest v \<longleftrightarrow>
     length v = length ''sha256:'' + 64 \<and> HasPrefix v ''sha256:'' \<and>
     isLowerHex (drop (length ''sha256:'') v)"

definition ValidateCanonicalDigest :: "string \<Rightarrow> go_error option" where
  "ValidateCanonicalDigest v =
     (if \<not> ValidCanonicalDigest v
      then Some (ErrOther ''canonical digest must match sha256:<64 lowercase hexadecimal digits>'')
      else None)"

lemma ValidateCanonicalDigest_None [simp]:
  "ValidateCanonicalDigest v = None \<longleftrightarrow> ValidCanonicalDigest v"
  by (simp add: ValidateCanonicalDigest_def)

text \<open>\<open>fmt.Errorf("%w: field: %v", ErrValidation, err)\<close> around an inner error.\<close>

definition wrapV :: "string \<Rightarrow> go_error option \<Rightarrow> go_error option" where
  "wrapV field c = (case c of None \<Rightarrow> None | Some _ \<Rightarrow> Some (ErrValidation field))"

lemma wrapV_None [simp]: "wrapV f c = None \<longleftrightarrow> c = None"
  by (simp add: wrapV_def split: option.splits)

section \<open>Priority (workitem.go, governance.go)\<close>

datatype Priority = PriorityLow | PriorityMedium | PriorityHigh | PriorityUrgent
  | PriorityOther string

definition Priority_Valid :: "Priority \<Rightarrow> bool" where
  "Priority_Valid p \<longleftrightarrow>
     p = PriorityLow \<or> p = PriorityMedium \<or> p = PriorityHigh \<or> p = PriorityUrgent"

section \<open>Quota kinds and policies (governance.go)\<close>

datatype QuotaKind = QuotaTurnCount | QuotaActiveWorker | QuotaInputTokensTotal
  | QuotaInputUncachedTokens | QuotaCacheReadTokens | QuotaCacheWriteTokens
  | QuotaOutputTokens | QuotaCostMicroUSD | QuotaKindOther string

fun QuotaKind_text :: "QuotaKind \<Rightarrow> string" where
  "QuotaKind_text QuotaTurnCount = ''turn_count''"
| "QuotaKind_text QuotaActiveWorker = ''active_worker''"
| "QuotaKind_text QuotaInputTokensTotal = ''input_tokens_total''"
| "QuotaKind_text QuotaInputUncachedTokens = ''input_uncached_tokens''"
| "QuotaKind_text QuotaCacheReadTokens = ''cache_read_tokens''"
| "QuotaKind_text QuotaCacheWriteTokens = ''cache_write_tokens''"
| "QuotaKind_text QuotaOutputTokens = ''output_tokens''"
| "QuotaKind_text QuotaCostMicroUSD = ''cost_microusd''"
| "QuotaKind_text (QuotaKindOther s) = s"

fun QuotaKind_Valid :: "QuotaKind \<Rightarrow> bool" where
  "QuotaKind_Valid (QuotaKindOther _) = False"
| "QuotaKind_Valid _ = True"

datatype QuotaEnforcement = QuotaEnforcementAudit | QuotaEnforcementEnforce
  | QuotaEnforcementOther string

definition QuotaEnforcement_Valid :: "QuotaEnforcement \<Rightarrow> bool" where
  "QuotaEnforcement_Valid e \<longleftrightarrow> e = QuotaEnforcementAudit \<or> e = QuotaEnforcementEnforce"

record QuotaPolicy =
  qp_Kind :: QuotaKind
  qp_Limit :: int
  qp_Enforcement :: QuotaEnforcement

definition QuotaPolicy_Validate :: "QuotaPolicy \<Rightarrow> go_error option" where
  "QuotaPolicy_Validate p = first_error
     [require (QuotaKind_Valid (qp_Kind p)) (ErrValidation ''quota policy kind''),
      require (\<not> qp_Limit p < 0) (ErrValidation ''quota policy limit must be >= 0''),
      require (QuotaEnforcement_Valid (qp_Enforcement p))
        (ErrValidation ''quota policy enforcement'')]"

section \<open>Governance error codes (governance.go)\<close>

datatype GovernanceErrorCode = GovernanceErrorPlanJSONSyntax
  | GovernanceErrorPlanSchemaValidation | GovernanceErrorPlanSemanticValidation
  | GovernanceErrorPlanAuthorityDenied | GovernanceErrorPlanQuotaDenied
  | GovernanceErrorPlanExecutionFailed | GovernanceErrorCostPriceUnavailable
  | GovernanceErrorUsageUnresolved | GovernanceErrorOther string

fun GovernanceErrorCode_Valid :: "GovernanceErrorCode \<Rightarrow> bool" where
  "GovernanceErrorCode_Valid (GovernanceErrorOther _) = False"
| "GovernanceErrorCode_Valid _ = True"

text \<open>The conversion \<^verbatim>\<open>GovernanceErrorCode(code)\<close> of a string.\<close>

definition GovernanceErrorCode_of :: "string \<Rightarrow> GovernanceErrorCode" where
  "GovernanceErrorCode_of s =
     (if s = ''plan_json_syntax'' then GovernanceErrorPlanJSONSyntax
      else if s = ''plan_schema_validation'' then GovernanceErrorPlanSchemaValidation
      else if s = ''plan_semantic_validation'' then GovernanceErrorPlanSemanticValidation
      else if s = ''plan_authority_denied'' then GovernanceErrorPlanAuthorityDenied
      else if s = ''plan_quota_denied'' then GovernanceErrorPlanQuotaDenied
      else if s = ''plan_execution_failed'' then GovernanceErrorPlanExecutionFailed
      else if s = ''cost_price_unavailable'' then GovernanceErrorCostPriceUnavailable
      else if s = ''usage_unresolved'' then GovernanceErrorUsageUnresolved
      else GovernanceErrorOther s)"

record GovernanceValidationError =
  gve_Code :: GovernanceErrorCode
  gve_Message :: string
  gve_Path :: string

definition GovernanceValidationError_Validate :: "GovernanceValidationError \<Rightarrow> go_error option" where
  "GovernanceValidationError_Validate e = first_error
     [require (GovernanceErrorCode_Valid (gve_Code e))
        (ErrValidation ''governance validation error code''),
      validateText ''governance validation error.message'' (gve_Message e) 4000,
      validateText ''governance validation error.path'' (gve_Path e) 1024]"

section \<open>Evidence items (governance.go)\<close>

datatype EvidenceSourceKind = EvidenceSourceWorkItem | EvidenceSourcePlan | EvidenceSourceRun
  | EvidenceSourceArtifact | EvidenceSourceApproval | EvidenceSourceValidationResult
  | EvidenceSourceDeliveryBrief | EvidenceSourceOther string

fun EvidenceSourceKind_Valid :: "EvidenceSourceKind \<Rightarrow> bool" where
  "EvidenceSourceKind_Valid (EvidenceSourceOther _) = False"
| "EvidenceSourceKind_Valid _ = True"

datatype EvidenceVerification = EvidenceVerificationObserved | EvidenceVerificationPassed
  | EvidenceVerificationFailed | EvidenceVerificationAccepted | EvidenceVerificationOther string

definition EvidenceVerification_Valid :: "EvidenceVerification \<Rightarrow> bool" where
  "EvidenceVerification_Valid v \<longleftrightarrow>
     v = EvidenceVerificationObserved \<or> v = EvidenceVerificationPassed \<or>
     v = EvidenceVerificationFailed \<or> v = EvidenceVerificationAccepted"

fun validateEvidenceSourceID :: "EvidenceSourceKind \<Rightarrow> string \<Rightarrow> go_error option" where
  "validateEvidenceSourceID EvidenceSourceWorkItem i =
     validateTypedID ''evidence.source_id'' i PrefixWorkItem"
| "validateEvidenceSourceID EvidenceSourcePlan i =
     validateTypedID ''evidence.source_id'' i PrefixPlan"
| "validateEvidenceSourceID EvidenceSourceRun i =
     validateTypedID ''evidence.source_id'' i PrefixRun"
| "validateEvidenceSourceID EvidenceSourceArtifact i =
     validateTypedID ''evidence.source_id'' i PrefixArtifact"
| "validateEvidenceSourceID EvidenceSourceApproval i =
     validateTypedID ''evidence.source_id'' i PrefixApproval"
| "validateEvidenceSourceID EvidenceSourceValidationResult i =
     validateTypedID ''evidence.source_id'' i PrefixValidationResult"
| "validateEvidenceSourceID EvidenceSourceDeliveryBrief i =
     validateTypedID ''evidence.source_id'' i PrefixDeliveryBriefSnapshot"
| "validateEvidenceSourceID (EvidenceSourceOther _) i =
     require (\<not> (i = '''' \<or> TrimSpace i \<noteq> i))
       (ErrValidation ''evidence.source_id must be non-empty'')"

record GovernanceEvidenceItem =
  ev_SourceKind :: EvidenceSourceKind
  ev_SourceID :: string
  ev_Verification :: EvidenceVerification
  ev_Summary :: string
  ev_RecordedAt :: time

definition GovernanceEvidenceItem_Validate :: "GovernanceEvidenceItem \<Rightarrow> go_error option" where
  "GovernanceEvidenceItem_Validate e = first_error
     [require (EvidenceSourceKind_Valid (ev_SourceKind e)) (ErrValidation ''evidence source_kind''),
      validateEvidenceSourceID (ev_SourceKind e) (ev_SourceID e),
      require (EvidenceVerification_Valid (ev_Verification e))
        (ErrValidation ''evidence verification''),
      validateText ''evidence.summary'' (ev_Summary e) 4000,
      require (\<not> IsZero (ev_RecordedAt e)) (ErrValidation ''evidence.recorded_at is required'')]"

end
