(* ===== verification/Digest.thy ===== *)
theory Digest
  imports GovernanceTypes "HOL-Library.Word"
begin

text \<open>
  Content digests. Every sealed document of \<^verbatim>\<open>internal/domain\<close> computes its digest as
  \<^verbatim>\<open>"sha256:" + hex.EncodeToString(sum)\<close> where \<^verbatim>\<open>sum\<close> is the \<^verbatim>\<open>[32]byte\<close> SHA-256 of the
  RFC 8785 canonical JSON of the fields other than the digest. The JSON canonicalizer is
  a third-party package: the composition marshal, canonicalize and hash is a parameter of
  the model, a function from the digested fields to a 256-bit word, or \<open>None\<close> when
  marshalling or canonicalizing reports an error. Nothing is assumed about it; in
  particular it may collide, and the tamper lemmas say so.

  The interface \<open>sealed_document\<close> states what the Validate, ComputeDigest, Seal and
  VerifyDigest methods of a document promise each other.
\<close>

section \<open>Hexadecimal digests\<close>

definition hex_digit :: "nat \<Rightarrow> char" where
  "hex_digit n = ''0123456789abcdef'' ! n"

definition nibble :: "256 word \<Rightarrow> nat \<Rightarrow> nat" where
  "nibble w i = unat (take_bit 4 (drop_bit (4 * i) w))"

text \<open>\<^verbatim>\<open>hex.EncodeToString\<close>: most significant nibble first.\<close>

definition hex_encode :: "256 word \<Rightarrow> string" where
  "hex_encode w = map (\<lambda>i. hex_digit (nibble w i)) (rev [0..<64])"

definition canonical_digest :: "256 word \<Rightarrow> string" where
  "canonical_digest w = ''sha256:'' @ hex_encode w"

lemma nibble_less: "nibble w i < 16"
proof -
  have "take_bit 4 (drop_bit (4 * i) w) < 2 ^ 4"
    by (simp add: take_bit_eq_mod word_mod_less_divisor)
  then have "unat (take_bit 4 (drop_bit (4 * i) w)) < unat (2 ^ 4 :: 256 word)"
    by (rule unat_mono)
  then show ?thesis by (simp add: nibble_def)
qed

lemma hex_digit_in: "n < 16 \<Longrightarrow> hex_digit n \<in> set ''0123456789abcdef''"
  unfolding hex_digit_def by (rule nth_mem) simp

lemma hex_digit_inj: "m < 16 \<Longrightarrow> n < 16 \<Longrightarrow> hex_digit m = hex_digit n \<longleftrightarrow> m = n"
  unfolding hex_digit_def by (rule nth_eq_iff_index_eq) simp_all

lemma length_hex_encode [simp]: "length (hex_encode w) = 64"
  by (simp add: hex_encode_def)

lemma isLowerHex_digits: "set v \<subseteq> set ''0123456789abcdef'' \<Longrightarrow> isLowerHex v"
  unfolding isLowerHex_def by (auto simp: less_char_def less_eq_char_def dest!: subsetD)

lemma canonical_digest_valid [simp]: "ValidCanonicalDigest (canonical_digest w)"
proof -
  have "set (hex_encode w) \<subseteq> set ''0123456789abcdef''"
    using nibble_less hex_digit_in by (auto simp: hex_encode_def)
  then have "isLowerHex (hex_encode w)" by (rule isLowerHex_digits)
  then show ?thesis
    by (simp add: ValidCanonicalDigest_def canonical_digest_def HasPrefix_def)
qed

lemma canonical_digest_nonempty [simp]: "canonical_digest w \<noteq> ''''"
  by (simp add: canonical_digest_def)

lemma nibble_eq_bits:
  assumes "\<And>i. i < 64 \<Longrightarrow> nibble v i = nibble w i"
  shows "v = w"
proof (rule bit_word_eqI)
  fix n assume n: "n < LENGTH(256)"
  let ?i = "n div 4" and ?j = "n mod 4"
  have "?i < 64" using n by simp
  from assms [OF this] have "take_bit 4 (drop_bit (4 * ?i) v) = take_bit 4 (drop_bit (4 * ?i) w)"
    by (simp only: nibble_def word_unat_eq_iff)
  then have "bit (take_bit 4 (drop_bit (4 * ?i) v)) ?j = bit (take_bit 4 (drop_bit (4 * ?i) w)) ?j"
    by simp
  then show "bit v n = bit w n" by (simp add: bit_take_bit_iff bit_drop_bit_eq)
qed

text \<open>The text form loses nothing of the hash.\<close>

lemma canonical_digest_inj [simp]: "canonical_digest v = canonical_digest w \<longleftrightarrow> v = w"
proof
  assume eq: "canonical_digest v = canonical_digest w"
  show "v = w"
  proof (rule nibble_eq_bits)
    fix i :: nat assume i: "i < 64"
    have idx: "rev [0..<64] ! (63 - i) = i"
      using i by (subst rev_nth) (auto simp del: upt_rec_numeral)
    have "hex_encode v = hex_encode w" using eq by (simp add: canonical_digest_def)
    then have "hex_encode v ! (63 - i) = hex_encode w ! (63 - i)" by simp
    then have "hex_digit (nibble v (rev [0..<64] ! (63 - i))) =
        hex_digit (nibble w (rev [0..<64] ! (63 - i)))"
      using i by (simp add: hex_encode_def del: upt_rec_numeral)
    then have "hex_digit (nibble v i) = hex_digit (nibble w i)" unfolding idx .
    then show "nibble v i = nibble w i" by (simp add: hex_digit_inj nibble_less)
  qed
qed simp

section \<open>Sealed documents\<close>

type_synonym 'p hasher = "'p \<Rightarrow> 256 word option"

text \<open>The tail of every ComputeDigest: marshal, canonicalize, hash, format.\<close>

definition digest_of :: "'p hasher \<Rightarrow> 'p \<Rightarrow> go_error + string" where
  "digest_of H p =
     (case H p of None \<Rightarrow> Inl (ErrValidation ''canonicalize'') | Some w \<Rightarrow> Inr (canonical_digest w))"

lemma digest_of_Inr: "digest_of H p = Inr d \<longleftrightarrow> (\<exists>w. H p = Some w \<and> d = canonical_digest w)"
  by (auto simp: digest_of_def split: option.splits)

text \<open>
  \<open>shape\<close> is validateShape without the digest requirement, \<open>content\<close> the digested fields,
  \<open>digest\<close> and \<open>put\<close> read and install the digest. The laws are those the methods rely on;
  a document may keep sealing apart from verification as long as they hold.
\<close>

locale sealed_document =
  fixes shape :: "'d \<Rightarrow> bool" and content :: "'d \<Rightarrow> 'p" and digest :: "'d \<Rightarrow> string"
    and put :: "string \<Rightarrow> 'd \<Rightarrow> 'd"
    and seal :: "'p hasher \<Rightarrow> 'd \<Rightarrow> go_error + 'd" and verify :: "'p hasher \<Rightarrow> 'd \<Rightarrow> go_error option"
  assumes put_put: "put a (put b d) = put a d" and put_digest: "put (digest d) d = d"
    and digest_put: "digest (put a d) = a"
    and shape_put: "shape (put a d) = shape d" and content_put: "content (put a d) = content d"
    and seal_Inr: "seal H d = Inr d' \<longleftrightarrow>
      shape d \<and> (\<exists>w. H (content d) = Some w \<and> d' = put (canonical_digest w) d)"
    and verify_None: "verify H d = None \<longleftrightarrow>
      shape d \<and> (\<exists>w. H (content d) = Some w \<and> digest d = canonical_digest w)"
begin

lemma seal_verifies: "seal H d = Inr d' \<Longrightarrow> verify H d' = None"
  by (auto simp: seal_Inr verify_None shape_put content_put digest_put)

lemma seal_keeps_content: "seal H d = Inr d' \<Longrightarrow> content d' = content d"
  by (auto simp: seal_Inr content_put)

lemma verify_iff_seal_fixpoint: "verify H d = None \<longleftrightarrow> seal H d = Inr d"
  by (metis seal_Inr verify_None put_digest digest_put)

lemma seal_idempotent: "seal H d = Inr d' \<Longrightarrow> seal H d' = Inr d'"
  using seal_verifies verify_iff_seal_fixpoint by blast

text \<open>Two verified documents with one digest have contents that hash alike.\<close>

lemma same_digest_same_hash:
  "verify H d = None \<Longrightarrow> verify H e = None \<Longrightarrow> digest d = digest e \<Longrightarrow>
   H (content d) = H (content e)"
  by (auto simp: verify_None)

text \<open>A change of the content under the old digest is seen, unless the two contents collide.\<close>

lemma tampering_seen:
  "verify H d = None \<Longrightarrow> digest e = digest d \<Longrightarrow> H (content e) \<noteq> H (content d) \<Longrightarrow>
   \<exists>x. verify H e = Some x"
  using same_digest_same_hash by (cases "verify H e") auto

end

end
