(* ===== verification/Pricing.thy ===== *)
theory Pricing
  imports Digest "HOL-Library.Signed_Division"
begin

text \<open>
  Token counters, price snapshots and the cost of a run: \<^verbatim>\<open>UsageCountersV1\<close> of
  \<^verbatim>\<open>internal/domain/canonical_usage.go\<close>, \<^verbatim>\<open>PriceSnapshotRef\<close> of \<^verbatim>\<open>quota.go\<close> and \<^verbatim>\<open>price.go\<close>,
  and \<^verbatim>\<open>ComputeCostMicroUSD\<close> of \<^verbatim>\<open>cost.go\<close>. A nil counter is \<open>None\<close>: unknown, not zero.
  Checks made by ranging over a Go map run in an unspecified order, so they are one check
  here. The cost theorems say that the checked integer arithmetic computes the exact
  half-up rounding and fails exactly when the exact numerator leaves the int64 range.
\<close>

section \<open>Counters (canonical_usage.go)\<close>

record UsageCountersV1 =
  uc_InputTokensTotal :: "int option"
  uc_InputUncachedTokens :: "int option"
  uc_CacheReadTokens :: "int option"
  uc_CacheWriteTokens :: "int option"
  uc_OutputTokens :: "int option"

definition counter_list :: "UsageCountersV1 \<Rightarrow> int option list" where
  "counter_list c = [uc_InputTokensTotal c, uc_InputUncachedTokens c, uc_CacheReadTokens c,
     uc_CacheWriteTokens c, uc_OutputTokens c]"

definition CheckedAddNonNegative :: "int \<Rightarrow> int \<Rightarrow> go_error + int" where
  "CheckedAddNonNegative left right =
     (if left < 0 \<or> right < 0 \<or> left > wrap64 (maxInt64 - right)
      then Inl (ErrValidation ''non-negative int64 addition overflow'')
      else Inr (wrap64 (left + right)))"

definition CheckedSubNonNegative :: "int \<Rightarrow> int \<Rightarrow> go_error + int" where
  "CheckedSubNonNegative left right =
     (if left < 0 \<or> right < 0 \<or> right > left
      then Inl (ErrValidation ''non-negative int64 subtraction underflow'')
      else Inr (wrap64 (left - right)))"

text \<open>The loop that adds up the components that are known.\<close>

fun known_sum :: "int \<Rightarrow> int option list \<Rightarrow> go_error + int" where
  "known_sum acc [] = Inr acc"
| "known_sum acc (None # cs) = known_sum acc cs"
| "known_sum acc (Some v # cs) =
     (case CheckedAddNonNegative acc v of
        Inl _ \<Rightarrow> Inl (ErrValidation ''input counter decomposition overflow'')
      | Inr s \<Rightarrow> known_sum s cs)"

definition input_components :: "UsageCountersV1 \<Rightarrow> int option list" where
  "input_components c = [uc_InputUncachedTokens c, uc_CacheReadTokens c, uc_CacheWriteTokens c]"

definition UsageCounters_Validate :: "UsageCountersV1 \<Rightarrow> go_error option" where
  "UsageCounters_Validate c = first_error
     [require (\<not> (\<exists>v\<in>set (counter_list c). case v of None \<Rightarrow> False | Some n \<Rightarrow> n < 0))
        (ErrValidation ''usage counter must be >= 0''),
      (case uc_InputTokensTotal c of
         None \<Rightarrow> None
       | Some tot \<Rightarrow>
           (case known_sum 0 (input_components c) of
              Inl e \<Rightarrow> Some e
            | Inr s \<Rightarrow> require (\<not> s > tot)
                (ErrValidation ''known input components exceed input_tokens_total''))),
      (case (uc_InputTokensTotal c, uc_InputUncachedTokens c, uc_CacheReadTokens c,
             uc_CacheWriteTokens c) of
         (Some tot, Some u, Some r, Some w) \<Rightarrow>
           (case CheckedAddNonNegative u r of
              Inl _ \<Rightarrow> Some (ErrValidation ''input counter decomposition overflow'')
            | Inr s \<Rightarrow>
                (case CheckedAddNonNegative s w of
                   Inl _ \<Rightarrow> Some (ErrValidation ''input counter decomposition overflow'')
                 | Inr s' \<Rightarrow> require (\<not> s' \<noteq> tot)
                     (ErrValidation ''input counter decomposition does not equal total'')))
       | _ \<Rightarrow> None)]"

definition cloneUsageCounter :: "int option \<Rightarrow> int option" where
  "cloneUsageCounter v = (case v of None \<Rightarrow> None | Some n \<Rightarrow> Some n)"

definition UsageCounters_Clone :: "UsageCountersV1 \<Rightarrow> UsageCountersV1" where
  "UsageCounters_Clone c = \<lparr>uc_InputTokensTotal = cloneUsageCounter (uc_InputTokensTotal c),
     uc_InputUncachedTokens = cloneUsageCounter (uc_InputUncachedTokens c),
     uc_CacheReadTokens = cloneUsageCounter (uc_CacheReadTokens c),
     uc_CacheWriteTokens = cloneUsageCounter (uc_CacheWriteTokens c),
     uc_OutputTokens = cloneUsageCounter (uc_OutputTokens c)\<rparr>"

fun usageCounterEqual :: "int option \<Rightarrow> int option \<Rightarrow> bool" where
  "usageCounterEqual (Some l) (Some r) \<longleftrightarrow> l = r"
| "usageCounterEqual l r \<longleftrightarrow> l = None \<and> r = None"

definition UsageCounters_Equal :: "UsageCountersV1 \<Rightarrow> UsageCountersV1 \<Rightarrow> bool" where
  "UsageCounters_Equal c d \<longleftrightarrow>
     usageCounterEqual (uc_InputTokensTotal c) (uc_InputTokensTotal d) \<and>
     usageCounterEqual (uc_InputUncachedTokens c) (uc_InputUncachedTokens d) \<and>
     usageCounterEqual (uc_CacheReadTokens c) (uc_CacheReadTokens d) \<and>
     usageCounterEqual (uc_CacheWriteTokens c) (uc_CacheWriteTokens d) \<and>
     usageCounterEqual (uc_OutputTokens c) (uc_OutputTokens d)"

definition UsageCounters_AnyKnown :: "UsageCountersV1 \<Rightarrow> bool" where
  "UsageCounters_AnyKnown c \<longleftrightarrow> uc_InputTokensTotal c \<noteq> None \<or> uc_InputUncachedTokens c \<noteq> None \<or>
     uc_CacheReadTokens c \<noteq> None \<or> uc_CacheWriteTokens c \<noteq> None \<or> uc_OutputTokens c \<noteq> None"

definition UsageCounters_AllUnknown :: "UsageCountersV1 \<Rightarrow> bool" where
  "UsageCounters_AllUnknown c \<longleftrightarrow> \<not> UsageCounters_AnyKnown c"

section \<open>Price snapshots (quota.go, price.go)\<close>

record PriceSnapshotRef =
  pr_ModelRef :: string
  pr_Currency :: string
  pr_InputUncached :: int
  pr_CacheRead :: int
  pr_CacheWrite :: int
  pr_Output :: int
  pr_EffectiveAt :: time
  pr_PriceVersion :: string
  pr_Digest :: string

definition PriceSnapshot_Equal :: "PriceSnapshotRef option \<Rightarrow> PriceSnapshotRef option \<Rightarrow> bool" where
  "PriceSnapshot_Equal mp mq =
     (case (mp, mq) of
        (Some p, Some q) \<Rightarrow> pr_ModelRef p = pr_ModelRef q \<and> pr_Currency p = pr_Currency q \<and>
          pr_InputUncached p = pr_InputUncached q \<and> pr_CacheRead p = pr_CacheRead q \<and>
          pr_CacheWrite p = pr_CacheWrite q \<and> pr_Output p = pr_Output q \<and>
          pr_EffectiveAt p = pr_EffectiveAt q \<and> pr_PriceVersion p = pr_PriceVersion q \<and>
          pr_Digest p = pr_Digest q
      | _ \<Rightarrow> mp = None \<and> mq = None)"

fun validatePriceSnapshotFields :: "PriceSnapshotRef option \<Rightarrow> go_error option" where
  "validatePriceSnapshotFields None = Some (ErrValidation ''nil price snapshot'')"
| "validatePriceSnapshotFields (Some p) = first_error
     [validateText ''price_snapshot.model_ref'' (pr_ModelRef p) 256,
      require (\<not> pr_Currency p \<noteq> ''USD'') (ErrValidation ''price_snapshot.currency must be USD''),
      require (\<not> (pr_InputUncached p < 0 \<or> pr_CacheRead p < 0 \<or> pr_CacheWrite p < 0 \<or>
                 pr_Output p < 0)) (ErrValidation ''price_snapshot prices must be >= 0''),
      validateText ''price_snapshot.price_version'' (pr_PriceVersion p) 128,
      require (\<not> IsZero (pr_EffectiveAt p)) (ErrValidation ''price_snapshot.effective_at is required'')]"

text \<open>The digested payload: every field but the digest.\<close>

record priceSnapshotDigestPayload =
  pp_ModelRef :: string
  pp_Currency :: string
  pp_InputUncached :: int
  pp_CacheRead :: int
  pp_CacheWrite :: int
  pp_Output :: int
  pp_EffectiveAt :: time
  pp_PriceVersion :: string

definition price_payload :: "PriceSnapshotRef \<Rightarrow> priceSnapshotDigestPayload" where
  "price_payload p = \<lparr>pp_ModelRef = pr_ModelRef p, pp_Currency = pr_Currency p,
     pp_InputUncached = pr_InputUncached p, pp_CacheRead = pr_CacheRead p,
     pp_CacheWrite = pr_CacheWrite p, pp_Output = pr_Output p,
     pp_EffectiveAt = pr_EffectiveAt p, pp_PriceVersion = pr_PriceVersion p\<rparr>"

fun ComputePriceSnapshotDigest ::
    "priceSnapshotDigestPayload hasher \<Rightarrow> PriceSnapshotRef option \<Rightarrow> go_error + string" where
  "ComputePriceSnapshotDigest H None = Inl (ErrValidation ''nil price snapshot'')"
| "ComputePriceSnapshotDigest H (Some p) =
     (case validatePriceSnapshotFields (Some p) of
        Some e \<Rightarrow> Inl e
      | None \<Rightarrow> digest_of H (price_payload p))"

fun VerifyPriceSnapshotDigest ::
    "priceSnapshotDigestPayload hasher \<Rightarrow> PriceSnapshotRef option \<Rightarrow> go_error option" where
  "VerifyPriceSnapshotDigest H None = Some (ErrValidation ''nil price snapshot'')"
| "VerifyPriceSnapshotDigest H (Some p) = first_error
     [validatePriceSnapshotFields (Some p),
      require (ValidCanonicalDigest (pr_Digest p))
        (ErrValidation ''price_snapshot.digest must be a canonical sha256 digest''),
      (case ComputePriceSnapshotDigest H (Some p) of
         Inl e \<Rightarrow> Some e
       | Inr expected \<Rightarrow> require (\<not> pr_Digest p \<noteq> expected)
           (ErrValidation ''price_snapshot.digest does not match canonical content''))]"

definition PriceSnapshot_Validate ::
    "priceSnapshotDigestPayload hasher \<Rightarrow> PriceSnapshotRef option \<Rightarrow> go_error option" where
  "PriceSnapshot_Validate H p = VerifyPriceSnapshotDigest H p"

text \<open>Normalize fills a missing digest and refuses a wrong one.\<close>

fun PriceSnapshot_Normalize ::
    "priceSnapshotDigestPayload hasher \<Rightarrow> PriceSnapshotRef option \<Rightarrow> go_error + PriceSnapshotRef" where
  "PriceSnapshot_Normalize H None = Inl (ErrValidation ''nil price snapshot'')"
| "PriceSnapshot_Normalize H (Some p) =
     (case validatePriceSnapshotFields (Some p) of
        Some e \<Rightarrow> Inl e
      | None \<Rightarrow>
          (case ComputePriceSnapshotDigest H (Some p) of
             Inl e \<Rightarrow> Inl e
           | Inr expected \<Rightarrow>
               if pr_Digest p \<noteq> '''' \<and> pr_Digest p \<noteq> expected
               then Inl (ErrValidation ''price_snapshot.digest does not match canonical content'')
               else Inr (p\<lparr>pr_Digest := expected\<rparr>)))"

text \<open>
  The price frozen in a run's input; \<open>decode\<close> stands for the JSON round trip of
  \<^verbatim>\<open>encoding/json\<close> into the struct, \<open>None\<close> for its error.
\<close>

definition PriceSnapshotFromRunInput ::
    "priceSnapshotDigestPayload hasher \<Rightarrow> (goval \<Rightarrow> PriceSnapshotRef option) \<Rightarrow> gomap \<Rightarrow>
     go_error + PriceSnapshotRef option" where
  "PriceSnapshotFromRunInput H decode input =
     (case map_of input ''price_snapshot'' of
        None \<Rightarrow> Inr None
      | Some value \<Rightarrow>
          if value = VNil then Inr None
          else
            (case decode value of
               None \<Rightarrow> Inl (ErrValidation ''decode Run price snapshot'')
             | Some p \<Rightarrow>
                 (case PriceSnapshot_Validate H (Some p) of
                    Some e \<Rightarrow> Inl e
                  | None \<Rightarrow> Inr (Some p))))"

section \<open>Cost (cost.go)\<close>

datatype CostUnresolvedReason = CostUnresolvedPriceUnavailable | CostUnresolvedMissingCounter
  | CostUnresolvedCacheSplit | CostUnresolvedCounterContradiction

datatype CostArithmeticOperation = CostArithmeticMultiply | CostArithmeticAdd | CostArithmeticRound

text \<open>What \<^verbatim>\<open>errors.As\<close> tells apart; all of them unwrap to ErrValidation.\<close>

datatype cost_error = CostInvalid go_error
  | CostUnresolvedError CostUnresolvedReason string
  | CostArithmeticError CostArithmeticOperation string

fun cost_error_unwrap :: "cost_error \<Rightarrow> go_error" where
  "cost_error_unwrap (CostInvalid e) = e"
| "cost_error_unwrap (CostUnresolvedError r m) = ErrValidation m"
| "cost_error_unwrap (CostArithmeticError ope m) = ErrValidation m"

definition checkedCostMultiply :: "int \<Rightarrow> int \<Rightarrow> cost_error + int" where
  "checkedCostMultiply left right =
     (if left < 0 \<or> right < 0 then Inl (CostArithmeticError CostArithmeticMultiply ''negative operand'')
      else if left \<noteq> 0 \<and> right > maxInt64 sdiv left then
        Inl (CostArithmeticError CostArithmeticMultiply ''non-negative int64 multiplication overflow'')
      else Inr (wrap64 (left * right)))"

definition checkedCostAdd :: "int \<Rightarrow> int \<Rightarrow> cost_error + int" where
  "checkedCostAdd left right =
     (if left < 0 \<or> right < 0 \<or> left > wrap64 (maxInt64 - right)
      then Inl (CostArithmeticError CostArithmeticAdd ''non-negative int64 addition overflow'')
      else Inr (wrap64 (left + right)))"

definition checkedCostSubtract :: "int \<Rightarrow> int \<Rightarrow> cost_error + int" where
  "checkedCostSubtract left right =
     (if left < 0 \<or> right < 0 \<or> right > left
      then Inl (CostArithmeticError CostArithmeticAdd ''non-negative int64 subtraction underflow'')
      else Inr (wrap64 (left - right)))"

definition roundCostHalfUp :: "int \<Rightarrow> cost_error + int" where
  "roundCostHalfUp numerator =
     (let million = 1000000; quotient = numerator sdiv million; remainder = numerator smod million
      in if remainder \<ge> million sdiv 2 then
           if quotient = maxInt64
           then Inl (CostArithmeticError CostArithmeticRound ''rounded quotient overflow'')
           else Inr (inc64 quotient)
         else Inr quotient)"

fun cost_terms :: "int \<Rightarrow> (int \<times> int) list \<Rightarrow> cost_error + int" where
  "cost_terms numerator [] = Inr numerator"
| "cost_terms numerator ((token, rate) # ts) =
     (case checkedCostMultiply token rate of
        Inl e \<Rightarrow> Inl e
      | Inr product \<Rightarrow>
          (case checkedCostAdd numerator product of
             Inl e \<Rightarrow> Inl e
           | Inr n \<Rightarrow> cost_terms n ts))"

definition computeCostBuckets ::
    "int \<Rightarrow> int \<Rightarrow> int \<Rightarrow> int \<Rightarrow> PriceSnapshotRef \<Rightarrow> cost_error + int" where
  "computeCostBuckets uncached read write out price =
     (case cost_terms 0 [(uncached, pr_InputUncached price), (read, pr_CacheRead price),
            (write, pr_CacheWrite price), (out, pr_Output price)] of
        Inl e \<Rightarrow> Inl e
      | Inr numerator \<Rightarrow> roundCostHalfUp numerator)"

definition validateCostCounters :: "UsageCountersV1 \<Rightarrow> go_error option" where
  "validateCostCounters c =
     require (\<not> (\<exists>v\<in>set (counter_list c). case v of None \<Rightarrow> False | Some n \<Rightarrow> n < 0))
       (ErrValidation ''cost usage counter must be >= 0'')"

definition exceeds :: "int option \<Rightarrow> int \<Rightarrow> bool" where
  "exceeds v n = (case v of None \<Rightarrow> False | Some m \<Rightarrow> m > n)"

text \<open>The branch with both cache counters known, and the one without.\<close>

definition cost_full :: "int option \<Rightarrow> int \<Rightarrow> int \<Rightarrow> int \<Rightarrow> int \<Rightarrow> PriceSnapshotRef \<Rightarrow> cost_error + int" where
  "cost_full tot uncached read write out price =
     (case tot of
        None \<Rightarrow> computeCostBuckets uncached read write out price
      | Some t \<Rightarrow>
          (case checkedCostAdd uncached read of
             Inl e \<Rightarrow> Inl e
           | Inr s \<Rightarrow>
               (case checkedCostAdd s write of
                  Inl e \<Rightarrow> Inl e
                | Inr inputSum \<Rightarrow>
                    if inputSum \<noteq> t then
                      Inl (CostUnresolvedError CostUnresolvedCounterContradiction
                        ''input_tokens_total differs from uncached+cache_read+cache_write'')
                    else computeCostBuckets uncached read write out price)))"

definition cost_combined ::
    "int option \<Rightarrow> int \<Rightarrow> int option \<Rightarrow> int option \<Rightarrow> int \<Rightarrow> PriceSnapshotRef \<Rightarrow> cost_error + int" where
  "cost_combined tot uncached read write out price =
     (case tot of
        None \<Rightarrow> Inl (CostUnresolvedError CostUnresolvedMissingCounter
          ''input_tokens_total is required when cache counters are incomplete'')
      | Some t \<Rightarrow>
          (case checkedCostSubtract t uncached of
             Inl _ \<Rightarrow> Inl (CostUnresolvedError CostUnresolvedCounterContradiction
               ''input_tokens_total is below input_uncached_tokens'')
           | Inr combined \<Rightarrow>
               if exceeds read combined then
                 Inl (CostUnresolvedError CostUnresolvedCounterContradiction
                   ''cache_read_tokens exceeds combined cached input'')
               else if exceeds write combined then
                 Inl (CostUnresolvedError CostUnresolvedCounterContradiction
                   ''cache_write_tokens exceeds combined cached input'')
               else if pr_CacheRead price \<noteq> pr_CacheWrite price then
                 Inl (CostUnresolvedError CostUnresolvedCacheSplit
                   ''cache read/write prices differ while the provider exposed no complete split'')
               else computeCostBuckets uncached combined 0 out price))"

fun ComputeCostMicroUSD :: "priceSnapshotDigestPayload hasher \<Rightarrow> UsageCountersV1 \<Rightarrow>
    PriceSnapshotRef option \<Rightarrow> cost_error + int" where
  "ComputeCostMicroUSD H c None =
     Inl (CostUnresolvedError CostUnresolvedPriceUnavailable ''price snapshot is absent'')"
| "ComputeCostMicroUSD H c (Some price) =
     (case first_error [PriceSnapshot_Validate H (Some price), validateCostCounters c] of
        Some e \<Rightarrow> Inl (CostInvalid e)
      | None \<Rightarrow>
          (case (uc_InputUncachedTokens c, uc_OutputTokens c) of
             (None, _) \<Rightarrow> Inl (CostUnresolvedError CostUnresolvedMissingCounter
               ''input_uncached_tokens is unknown'')
           | (_, None) \<Rightarrow> Inl (CostUnresolvedError CostUnresolvedMissingCounter
               ''output_tokens is unknown'')
           | (Some uncached, Some out) \<Rightarrow>
               (case (uc_CacheReadTokens c, uc_CacheWriteTokens c) of
                  (Some read, Some write) \<Rightarrow>
                    cost_full (uc_InputTokensTotal c) uncached read write out price
                | (read, write) \<Rightarrow>
                    cost_combined (uc_InputTokensTotal c) uncached read write out price)))"



section \<open>Facts about the checked arithmetic\<close>

lemma sdiv_nonneg: "0 \<le> (a::int) \<Longrightarrow> 0 < b \<Longrightarrow> a sdiv b = a div b"
  by (simp add: signed_divide_int_def sgn_if)

lemma smod_nonneg: "0 \<le> (a::int) \<Longrightarrow> 0 < b \<Longrightarrow> a smod b = a mod b"
  by (cases "a = 0") (simp_all add: signed_modulo_int_def)

lemma wrap64_fits: "0 \<le> x \<Longrightarrow> x \<le> maxInt64 \<Longrightarrow> wrap64 x = x"
  by (rule wrap64_id) (simp add: in64_def maxInt64_def)

lemma CheckedAdd_Inr:
  "CheckedAddNonNegative x y = Inr z \<longleftrightarrow> 0 \<le> x \<and> 0 \<le> y \<and> x + y \<le> maxInt64 \<and> z = x + y"
  if "y \<le> maxInt64"
  using that by (auto simp: CheckedAddNonNegative_def wrap64_fits not_less)

lemma CheckedSub_Inr:
  "CheckedSubNonNegative x y = Inr z \<longleftrightarrow> 0 \<le> y \<and> y \<le> x \<and> z = x - y" if "x \<le> maxInt64"
  using that by (auto simp: CheckedSubNonNegative_def wrap64_fits not_less)

lemma checkedCostAdd_Inr:
  "checkedCostAdd x y = Inr z \<longleftrightarrow> 0 \<le> x \<and> 0 \<le> y \<and> x + y \<le> maxInt64 \<and> z = x + y"
  if "y \<le> maxInt64"
  using that by (auto simp: checkedCostAdd_def wrap64_fits not_less)

lemma checkedCostSubtract_Inr:
  "checkedCostSubtract x y = Inr z \<longleftrightarrow> 0 \<le> y \<and> y \<le> x \<and> z = x - y" if "x \<le> maxInt64"
  using that by (auto simp: checkedCostSubtract_def wrap64_fits not_less)

text \<open>The division test refuses exactly the products that leave the range.\<close>

lemma mult_guard:
  assumes "0 < (x::int)"
  shows "y \<le> m div x \<longleftrightarrow> x * y \<le> m"
proof
  have "x * (m div x) \<le> m" using mult_div_mod_eq [of x m] pos_mod_sign [OF assms, of m] by linarith
  moreover assume "y \<le> m div x"
  then have "x * y \<le> x * (m div x)" using assms by simp
  ultimately show "x * y \<le> m" by linarith
next
  assume "x * y \<le> m"
  then have "(x * y) div x \<le> m div x" using assms by (rule zdiv_mono1)
  then show "y \<le> m div x" using assms by simp
qed

lemma checkedCostMultiply_Inr:
  "checkedCostMultiply x y = Inr z \<longleftrightarrow> 0 \<le> x \<and> 0 \<le> y \<and> x * y \<le> maxInt64 \<and> z = x * y"
proof (cases "x = 0")
  case True
  then show ?thesis by (auto simp: checkedCostMultiply_def maxInt64_def wrap64_def)
next
  case False
  then show ?thesis
    using mult_guard [of x y maxInt64]
    by (auto simp: checkedCostMultiply_def sdiv_nonneg maxInt64_def wrap64_fits not_less)
qed

text \<open>The rounding is the exact half-up one, and its overflow branch is dead.\<close>

definition half_up :: "int \<Rightarrow> int" where
  "half_up n = (n + 500000) div 1000000"

lemma roundCostHalfUp_exact:
  assumes "0 \<le> n" and "n \<le> maxInt64"
  shows "roundCostHalfUp n = Inr (half_up n)"
proof -
  have n: "n = 1000000 * (n div 1000000) + n mod 1000000" by simp
  have r: "0 \<le> n mod 1000000" "n mod 1000000 < 1000000" by simp_all
  have q: "0 \<le> n div 1000000" "n div 1000000 < 9223372036855"
    using assms by (auto simp: maxInt64_def pos_imp_zdiv_nonneg_iff)
  have inc: "inc64 (n div 1000000) = n div 1000000 + 1"
    using q by (intro inc64_eq) (auto simp: in64_def maxInt64_def)
  have "half_up (1000000 * q + r) = (if r \<ge> 500000 then q + 1 else q)"
    if "0 \<le> r" and "r < 1000000" for q r
    unfolding half_up_def using that
    by (cases "r \<ge> 500000")
       (auto intro: int_div_pos_eq [where r = "r - 500000"] int_div_pos_eq [where r = "r + 500000"])
  from this [OF r, of "n div 1000000"] n
  have "half_up n = (if n mod 1000000 \<ge> 500000 then n div 1000000 + 1 else n div 1000000)"
    by simp
  then show ?thesis
    using assms q inc
    by (simp add: roundCostHalfUp_def Let_def sdiv_nonneg smod_nonneg maxInt64_def)
qed

definition cost_sum :: "(int \<times> int) list \<Rightarrow> int" where
  "cost_sum ts = sum_list (map (\<lambda>(t, r). t * r) ts)"

lemma cost_sum_simps [simp]:
  "cost_sum [] = 0" "cost_sum ((t, r) # ts) = t * r + cost_sum ts"
  by (simp_all add: cost_sum_def)

definition nonneg_terms :: "(int \<times> int) list \<Rightarrow> bool" where
  "nonneg_terms ts \<longleftrightarrow> (\<forall>(t, r)\<in>set ts. 0 \<le> t \<and> 0 \<le> r)"

lemma nonneg_terms_simps [simp]:
  "nonneg_terms []" "nonneg_terms ((t, r) # ts) \<longleftrightarrow> 0 \<le> t \<and> 0 \<le> r \<and> nonneg_terms ts"
  by (auto simp: nonneg_terms_def)

lemma cost_sum_nonneg: "nonneg_terms ts \<Longrightarrow> 0 \<le> cost_sum ts"
  by (induction ts) auto

lemma cost_terms_Inr:
  assumes "nonneg_terms ts" and "0 \<le> n"
  shows "cost_terms n ts = Inr m \<longleftrightarrow> n + cost_sum ts \<le> maxInt64 \<and> m = n + cost_sum ts \<or>
    ts = [] \<and> m = n"
  using assms
proof (induction ts arbitrary: n)
  case Nil
  then show ?case by auto
next
  case (Cons x ts)
  obtain t r where x: "x = (t, r)" by (cases x)
  have nn: "0 \<le> t * r" "0 \<le> cost_sum ts" "nonneg_terms ts" "0 \<le> t" "0 \<le> r"
    using Cons.prems cost_sum_nonneg by (auto simp: x)
  show ?case
  proof (cases "n + t * r \<le> maxInt64")
    case True
    have "t * r \<le> maxInt64" using True Cons.prems(2) by simp
    then have "checkedCostMultiply t r = Inr (t * r)"
      and "checkedCostAdd n (t * r) = Inr (n + t * r)"
      using True Cons.prems(2) nn by (auto simp: checkedCostMultiply_Inr checkedCostAdd_Inr)
    then have "cost_terms n (x # ts) = cost_terms (n + t * r) ts" by (simp add: x)
    with Cons.IH [of "n + t * r"] True nn Cons.prems(2) show ?thesis by (auto simp: x)
  next
    case False
    have "cost_terms n (x # ts) \<noteq> Inr m"
    proof (cases "t * r \<le> maxInt64")
      case True
      then have "checkedCostMultiply t r = Inr (t * r)" and "\<And>z. checkedCostAdd n (t * r) \<noteq> Inr z"
        using False nn by (auto simp: checkedCostMultiply_Inr checkedCostAdd_Inr)
      then show ?thesis by (cases "checkedCostAdd n (t * r)") (auto simp: x)
    next
      case False
      then have "\<And>z. checkedCostMultiply t r \<noteq> Inr z" by (auto simp: checkedCostMultiply_Inr)
      then show ?thesis by (cases "checkedCostMultiply t r") (auto simp: x)
    qed
    with False nn show ?thesis by (auto simp: x)
  qed
qed

definition numerator :: "int \<Rightarrow> int \<Rightarrow> int \<Rightarrow> int \<Rightarrow> PriceSnapshotRef \<Rightarrow> int" where
  "numerator u r w ou p = u * pr_InputUncached p + r * pr_CacheRead p + w * pr_CacheWrite p +
     ou * pr_Output p"

definition price_nonneg :: "PriceSnapshotRef \<Rightarrow> bool" where
  "price_nonneg p \<longleftrightarrow> 0 \<le> pr_InputUncached p \<and> 0 \<le> pr_CacheRead p \<and> 0 \<le> pr_CacheWrite p \<and>
     0 \<le> pr_Output p"

lemma computeCostBuckets_Inr:
  assumes "0 \<le> u" and "0 \<le> r" and "0 \<le> w" and "0 \<le> ou" and "price_nonneg p"
  shows "computeCostBuckets u r w ou p = Inr v \<longleftrightarrow>
    numerator u r w ou p \<le> maxInt64 \<and> v = half_up (numerator u r w ou p)"
proof -
  let ?ts = "[(u, pr_InputUncached p), (r, pr_CacheRead p), (w, pr_CacheWrite p), (ou, pr_Output p)]"
  have nn: "nonneg_terms ?ts" using assms by (simp add: price_nonneg_def)
  have sum: "cost_sum ?ts = numerator u r w ou p" by (simp add: numerator_def)
  have "0 \<le> numerator u r w ou p" using cost_sum_nonneg [OF nn] sum by simp
  then have round: "roundCostHalfUp (numerator u r w ou p) = Inr (half_up (numerator u r w ou p))"
    if "numerator u r w ou p \<le> maxInt64" using that by (rule roundCostHalfUp_exact)
  have terms: "cost_terms 0 ?ts = Inr m \<longleftrightarrow>
      numerator u r w ou p \<le> maxInt64 \<and> m = numerator u r w ou p" for m
    using cost_terms_Inr [OF nn, of 0 m] sum by (simp del: cost_terms.simps cost_sum_simps)
  show ?thesis
  proof (cases "numerator u r w ou p \<le> maxInt64")
    case True
    with terms have "cost_terms 0 ?ts = Inr (numerator u r w ou p)" by blast
    with True round show ?thesis
      by (auto simp: computeCostBuckets_def simp del: cost_terms.simps)
  next
    case False
    with terms have "cost_terms 0 ?ts \<noteq> Inr m" for m by blast
    then obtain e where "cost_terms 0 ?ts = Inl e" by (cases "cost_terms 0 ?ts") auto
    with False show ?thesis by (simp add: computeCostBuckets_def del: cost_terms.simps)
  qed
qed

lemma PriceSnapshot_Validate_nonneg:
  "PriceSnapshot_Validate H (Some p) = None \<Longrightarrow> price_nonneg p"
  by (auto simp: PriceSnapshot_Validate_def price_nonneg_def)

text \<open>The shares of the cached input that a counter set leaves open.\<close>

definition split_ok :: "UsageCountersV1 \<Rightarrow> int \<Rightarrow> int \<Rightarrow> bool" where
  "split_ok c r w \<longleftrightarrow> 0 \<le> r \<and> 0 \<le> w \<and>
     (\<forall>x. uc_CacheReadTokens c = Some x \<longrightarrow> r = x) \<and>
     (\<forall>x. uc_CacheWriteTokens c = Some x \<longrightarrow> w = x) \<and>
     (\<forall>t u. uc_InputTokensTotal c = Some t \<and> uc_InputUncachedTokens c = Some u \<longrightarrow> u + r + w = t)"

definition counters_in64 :: "UsageCountersV1 \<Rightarrow> bool" where
  "counters_in64 c \<longleftrightarrow> (\<forall>n. Some n \<in> set (counter_list c) \<longrightarrow> n \<le> maxInt64)"

lemma numerator_same_rate:
  assumes "pr_CacheRead p = pr_CacheWrite p" and "r + w = s"
  shows "numerator u r w ou p = numerator u s 0 ou p"
proof -
  have "r * pr_CacheWrite p + w * pr_CacheWrite p = s * pr_CacheWrite p"
    using assms(2) by (simp flip: distrib_right)
  then show ?thesis using assms(1) by (simp add: numerator_def)
qed

lemma cost_full_Inr:
  assumes "cost_full tot u r w ou p = Inr v" and "r \<le> maxInt64" and "w \<le> maxInt64"
  shows "computeCostBuckets u r w ou p = Inr v \<and> (\<forall>t. tot = Some t \<longrightarrow> u + r + w = t)"
  using assms
  by (auto simp: cost_full_def checkedCostAdd_Inr split: option.splits sum.splits if_splits)

lemma cost_combined_Inr:
  assumes "cost_combined tot u r w ou p = Inr v" and "\<And>t. tot = Some t \<Longrightarrow> t \<le> maxInt64"
  shows "\<exists>t. tot = Some t \<and> 0 \<le> u \<and> u \<le> t \<and> \<not> exceeds r (t - u) \<and> \<not> exceeds w (t - u) \<and>
    pr_CacheRead p = pr_CacheWrite p \<and> computeCostBuckets u (t - u) 0 ou p = Inr v"
  using assms
  by (auto simp: cost_combined_def checkedCostSubtract_Inr split: option.splits sum.splits if_splits)

lemma ComputeCost_Inr:
  assumes "ComputeCostMicroUSD H c (Some p) = Inr v"
  obtains u ou where "uc_InputUncachedTokens c = Some u" and "uc_OutputTokens c = Some ou"
    and "price_nonneg p" and "\<forall>n. Some n \<in> set (counter_list c) \<longrightarrow> 0 \<le> n"
    and "(\<exists>r w. uc_CacheReadTokens c = Some r \<and> uc_CacheWriteTokens c = Some w \<and>
            cost_full (uc_InputTokensTotal c) u r w ou p = Inr v) \<or>
         ((uc_CacheReadTokens c = None \<or> uc_CacheWriteTokens c = None) \<and>
            cost_combined (uc_InputTokensTotal c) u (uc_CacheReadTokens c)
              (uc_CacheWriteTokens c) ou p = Inr v)"
proof -
  have checks: "first_error [PriceSnapshot_Validate H (Some p), validateCostCounters c] = None"
    using assms by (cases "first_error [PriceSnapshot_Validate H (Some p), validateCostCounters c]")
      (auto simp del: first_error.simps)
  then have "price_nonneg p" and "\<forall>n. Some n \<in> set (counter_list c) \<longrightarrow> 0 \<le> n"
    using PriceSnapshot_Validate_nonneg by (fastforce simp: validateCostCounters_def)+
  moreover obtain u ou where "uc_InputUncachedTokens c = Some u" "uc_OutputTokens c = Some ou"
    using assms checks by (auto split: option.splits simp del: first_error.simps)
  ultimately show ?thesis
    using assms checks by (intro that) (auto split: option.splits simp del: first_error.simps)
qed

text \<open>What a computed cost says about the splits, in either branch.\<close>

definition exact_for :: "UsageCountersV1 \<Rightarrow> int \<Rightarrow> int \<Rightarrow> PriceSnapshotRef \<Rightarrow> int \<Rightarrow> bool" where
  "exact_for c u ou p v \<longleftrightarrow> (\<exists>r w. split_ok c r w) \<and> (\<forall>r w. split_ok c r w \<longrightarrow>
      numerator u r w ou p \<le> maxInt64 \<and> v = half_up (numerator u r w ou p))"

lemma cost_full_exact:
  assumes "cost_full (uc_InputTokensTotal c) u r w ou p = Inr v"
    and "uc_CacheReadTokens c = Some r" and "uc_CacheWriteTokens c = Some w"
    and "uc_InputUncachedTokens c = Some u" and "counters_in64 c" and "price_nonneg p"
    and "0 \<le> u" and "0 \<le> r" and "0 \<le> w" and "0 \<le> ou"
  shows "exact_for c u ou p v"
proof -
  have "r \<le> maxInt64" "w \<le> maxInt64"
    using assms(2,3,5) by (auto simp: counters_in64_def counter_list_def)
  from cost_full_Inr [OF assms(1) this] have "computeCostBuckets u r w ou p = Inr v"
    and "split_ok c r w" using assms by (auto simp: split_ok_def)
  moreover have "split_ok c r' w' \<Longrightarrow> r' = r \<and> w' = w" for r' w'
    using assms(2,3) by (simp add: split_ok_def)
  ultimately show ?thesis
    using computeCostBuckets_Inr [OF assms(7-10,6)] unfolding exact_for_def by blast
qed

lemma open_split_exists:
  assumes "uc_CacheReadTokens c = None \<or> uc_CacheWriteTokens c = None"
    and "uc_InputTokensTotal c = Some t" and "uc_InputUncachedTokens c = Some u" and "u \<le> t"
    and "\<not> exceeds (uc_CacheReadTokens c) (t - u)" and "\<not> exceeds (uc_CacheWriteTokens c) (t - u)"
    and "\<forall>n. Some n \<in> set (counter_list c) \<longrightarrow> 0 \<le> n"
  shows "\<exists>r w. split_ok c r w"
proof (cases "uc_CacheReadTokens c")
  case (Some r)
  then have "split_ok c r (t - u - r)"
    using assms by (auto simp: split_ok_def exceeds_def counter_list_def)
  then show ?thesis by blast
next
  case None
  then have "split_ok c (t - u - (case uc_CacheWriteTokens c of None \<Rightarrow> 0 | Some w \<Rightarrow> w))
      (case uc_CacheWriteTokens c of None \<Rightarrow> 0 | Some w \<Rightarrow> w)"
    using assms by (auto simp: split_ok_def exceeds_def counter_list_def split: option.splits)
  then show ?thesis by blast
qed

lemma cost_combined_exact:
  assumes "cost_combined (uc_InputTokensTotal c) u (uc_CacheReadTokens c)
      (uc_CacheWriteTokens c) ou p = Inr v"
    and "uc_CacheReadTokens c = None \<or> uc_CacheWriteTokens c = None"
    and "uc_InputUncachedTokens c = Some u" and "counters_in64 c" and "price_nonneg p"
    and "\<forall>n. Some n \<in> set (counter_list c) \<longrightarrow> 0 \<le> n" and "0 \<le> ou"
  shows "exact_for c u ou p v"
proof -
  have "\<And>t. uc_InputTokensTotal c = Some t \<Longrightarrow> t \<le> maxInt64"
    using assms(4) by (simp add: counters_in64_def counter_list_def)
  from cost_combined_Inr [OF assms(1) this] obtain t where t: "uc_InputTokensTotal c = Some t"
    and u: "0 \<le> u" "u \<le> t" and ex: "\<not> exceeds (uc_CacheReadTokens c) (t - u)"
      "\<not> exceeds (uc_CacheWriteTokens c) (t - u)"
    and same: "pr_CacheRead p = pr_CacheWrite p"
    and run: "computeCostBuckets u (t - u) 0 ou p = Inr v" by blast
  have "numerator u (t - u) 0 ou p \<le> maxInt64 \<and> v = half_up (numerator u (t - u) 0 ou p)"
    using computeCostBuckets_Inr [OF u(1) _ _ assms(7,5)] run u by simp
  moreover have "numerator u r w ou p = numerator u (t - u) 0 ou p" if "split_ok c r w" for r w
  proof (rule numerator_same_rate [OF same])
    show "r + w = t - u" using that t assms(3) by (auto simp: split_ok_def)
  qed
  ultimately show ?thesis
    using open_split_exists [OF assms(2) t assms(3) u(2) ex assms(6)] by (simp add: exact_for_def)
qed

section \<open>Price snapshots are sealed documents\<close>

definition price_seal :: "priceSnapshotDigestPayload hasher \<Rightarrow> PriceSnapshotRef \<Rightarrow>
    go_error + PriceSnapshotRef" where
  "price_seal H p = PriceSnapshot_Normalize H (Some (p\<lparr>pr_Digest := ''''\<rparr>))"

lemma price_fields_put [simp]:
  "validatePriceSnapshotFields (Some (p\<lparr>pr_Digest := d\<rparr>)) = validatePriceSnapshotFields (Some p)"
  "price_payload (p\<lparr>pr_Digest := d\<rparr>) = price_payload p"
  by (simp_all add: price_payload_def)

interpretation price: sealed_document "\<lambda>p. validatePriceSnapshotFields (Some p) = None"
  price_payload pr_Digest "\<lambda>d p. p\<lparr>pr_Digest := d\<rparr>" price_seal
  "\<lambda>H p. PriceSnapshot_Validate H (Some p)"
  by unfold_locales
     (auto simp: price_seal_def PriceSnapshot_Validate_def digest_of_def
        simp del: validatePriceSnapshotFields.simps split: option.splits if_splits)

section \<open>Properties\<close>

text \<open>
  C23. Exact cost. When a cost is computed, the uncached and output counters are known, some
  split of the cached input agrees with the counters, and for every such split the cost is
  the exact total of tokens times rates, rounded half up to whole micro-dollars, with the
  total inside the int64 range: nothing wraps, and an unknown split cannot change it.
\<close>

theorem cost_exact:
  assumes "ComputeCostMicroUSD H c (Some p) = Inr v" and "counters_in64 c"
  shows "\<exists>u ou. uc_InputUncachedTokens c = Some u \<and> uc_OutputTokens c = Some ou \<and>
    (\<exists>r w. split_ok c r w) \<and>
    (\<forall>r w. split_ok c r w \<longrightarrow>
       numerator u r w ou p \<le> maxInt64 \<and> v = (numerator u r w ou p + 500000) div 1000000)"
proof -
  obtain u ou where known: "uc_InputUncachedTokens c = Some u" "uc_OutputTokens c = Some ou"
    and price: "price_nonneg p" and nn: "\<forall>n. Some n \<in> set (counter_list c) \<longrightarrow> 0 \<le> n"
    and run: "(\<exists>r w. uc_CacheReadTokens c = Some r \<and> uc_CacheWriteTokens c = Some w \<and>
            cost_full (uc_InputTokensTotal c) u r w ou p = Inr v) \<or>
         ((uc_CacheReadTokens c = None \<or> uc_CacheWriteTokens c = None) \<and>
            cost_combined (uc_InputTokensTotal c) u (uc_CacheReadTokens c)
              (uc_CacheWriteTokens c) ou p = Inr v)"
    using assms(1) by (rule ComputeCost_Inr)
  have u: "0 \<le> u" "0 \<le> ou" using nn known by (auto simp: counter_list_def)
  from run have "exact_for c u ou p v"
  proof
    assume "\<exists>r w. uc_CacheReadTokens c = Some r \<and> uc_CacheWriteTokens c = Some w \<and>
      cost_full (uc_InputTokensTotal c) u r w ou p = Inr v"
    then show ?thesis
      using nn known u price assms(2) by (elim exE) (auto simp: counter_list_def intro: cost_full_exact)
  qed (use nn known u price assms(2) in \<open>auto intro: cost_combined_exact\<close>)
  with known show ?thesis by (simp add: exact_for_def half_up_def)
qed

lemma cost_terms_error: "cost_terms n ts = Inl e \<Longrightarrow> \<exists>op m. e = CostArithmeticError op m"
  by (induction n ts rule: cost_terms.induct)
     (auto simp: checkedCostMultiply_def checkedCostAdd_def split: sum.splits if_splits)

lemma computeCostBuckets_error:
  "computeCostBuckets u r w ou p = Inl e \<Longrightarrow> \<exists>op m. e = CostArithmeticError op m"
  using cost_terms_error
  by (auto simp: computeCostBuckets_def roundCostHalfUp_def Let_def simp del: cost_terms.simps
      split: sum.splits if_splits)

text \<open>Concrete values, at which the properties are applied.\<close>

definition sample_hash :: "'p hasher" where
  "sample_hash p = Some 0"

definition sample_price :: PriceSnapshotRef where
  "sample_price = \<lparr>pr_ModelRef = ''m1'', pr_Currency = ''USD'', pr_InputUncached = 3000000,
     pr_CacheRead = 300000, pr_CacheWrite = 300000, pr_Output = 15000000, pr_EffectiveAt = 1,
     pr_PriceVersion = ''v1'', pr_Digest = canonical_digest 0\<rparr>"

definition sample_counters :: UsageCountersV1 where
  "sample_counters = \<lparr>uc_InputTokensTotal = Some 120, uc_InputUncachedTokens = Some 100,
     uc_CacheReadTokens = None, uc_CacheWriteTokens = Some 5, uc_OutputTokens = Some 10\<rparr>"

lemmas price_eval = sample_price_def sample_hash_def PriceSnapshot_Validate_def digest_of_def
  price_payload_def text_eval IsZero_def

lemma sample_price_valid: "PriceSnapshot_Validate sample_hash (Some sample_price) = None"
  by (simp add: price_eval)

lemma sample_cost: "ComputeCostMicroUSD sample_hash sample_counters (Some sample_price) = Inr 456"
  using sample_price_valid
  by (simp add: sample_counters_def validateCostCounters_def counter_list_def cost_combined_def
      checkedCostSubtract_def wrap64_def exceeds_def computeCostBuckets_def checkedCostMultiply_def
      checkedCostAdd_def maxInt64_def sdiv_nonneg smod_nonneg roundCostHalfUp_def)
     (simp add: sample_price_def sdiv_nonneg smod_nonneg)

theorem cost_exact_witness:
  "split_ok sample_counters 15 5 \<and> numerator 100 15 5 10 sample_price \<le> maxInt64 \<and>
   456 = (numerator 100 15 5 10 sample_price + 500000) div 1000000"
proof -
  have "counters_in64 sample_counters"
    by (auto simp: counters_in64_def sample_counters_def counter_list_def maxInt64_def)
  moreover have "split_ok sample_counters 15 5" by (simp add: split_ok_def sample_counters_def)
  ultimately show ?thesis using cost_exact [OF sample_cost] by (simp add: sample_counters_def)
qed

text \<open>
  Completeness of the cost: with a valid price and all billable counters known, not
  negative, and consistent with the reported total when there is one, the cost is computed
  whenever the exact total fits in an int64, and is an arithmetic error otherwise, never a
  wrapped number.
\<close>

theorem cost_complete:
  assumes "PriceSnapshot_Validate H (Some p) = None"
    and "0 \<le> u" and "0 \<le> r" and "0 \<le> w" and "0 \<le> ou" and "u + r + w \<le> maxInt64"
    and "tot = None \<or> tot = Some (u + r + w)"
  shows "let n = numerator u r w ou p;
             res = ComputeCostMicroUSD H \<lparr>uc_InputTokensTotal = tot, uc_InputUncachedTokens = Some u,
               uc_CacheReadTokens = Some r, uc_CacheWriteTokens = Some w,
               uc_OutputTokens = Some ou\<rparr> (Some p)
         in if n \<le> maxInt64 then res = Inr ((n + 500000) div 1000000)
            else \<exists>op m. res = Inl (CostArithmeticError op m)"
proof -
  let ?c = "\<lparr>uc_InputTokensTotal = tot, uc_InputUncachedTokens = Some u,
    uc_CacheReadTokens = Some r, uc_CacheWriteTokens = Some w, uc_OutputTokens = Some ou\<rparr>"
  have "validateCostCounters ?c = None"
    using assms(2-7) by (auto simp: validateCostCounters_def counter_list_def)
  then have res: "ComputeCostMicroUSD H ?c (Some p) = cost_full tot u r w ou p"
    using assms(1) by simp
  have "checkedCostAdd u r = Inr (u + r)" and "checkedCostAdd (u + r) w = Inr (u + r + w)"
    using assms(2-6) by (auto simp: checkedCostAdd_Inr)
  then have "cost_full tot u r w ou p = computeCostBuckets u r w ou p"
    using assms(7) by (auto simp: cost_full_def)
  then show ?thesis
    using computeCostBuckets_Inr [OF assms(2-5) PriceSnapshot_Validate_nonneg [OF assms(1)]]
      computeCostBuckets_error
    by (cases "computeCostBuckets u r w ou p") (auto simp: res Let_def half_up_def simp del: ComputeCostMicroUSD.simps)
qed

theorem cost_complete_witness:
  "\<exists>op m. ComputeCostMicroUSD sample_hash \<lparr>uc_InputTokensTotal = None,
      uc_InputUncachedTokens = Some 9223372036854775807, uc_CacheReadTokens = Some 0,
      uc_CacheWriteTokens = Some 0, uc_OutputTokens = Some 1\<rparr> (Some sample_price) =
    Inl (CostArithmeticError op m)"
  using cost_complete [OF sample_price_valid, of 9223372036854775807 0 0 1 None]
  by (simp add: numerator_def maxInt64_def Let_def sample_price_def)

text \<open>
  C28. A normalized price snapshot verifies, keeps its content and is left alone by another
  Normalize; and Normalize never accepts changed content under the digest of a valid
  snapshot, unless the two contents have the same hash.
\<close>

theorem price_normalize_sealed:
  assumes "PriceSnapshot_Normalize H (Some p) = Inr q"
  shows "PriceSnapshot_Validate H (Some q) = None \<and> price_payload q = price_payload p \<and>
    PriceSnapshot_Normalize H (Some q) = Inr q \<and>
    (\<forall>x. H (price_payload x) \<noteq> H (price_payload q) \<longrightarrow>
       (\<exists>e. PriceSnapshot_Normalize H (Some (x\<lparr>pr_Digest := pr_Digest q\<rparr>)) = Inl e))"
proof -
  have q: "PriceSnapshot_Validate H (Some q) = None" "price_payload q = price_payload p"
      "PriceSnapshot_Normalize H (Some q) = Inr q"
    using assms
    by (auto simp: PriceSnapshot_Validate_def digest_of_def
        simp del: validatePriceSnapshotFields.simps split: option.splits sum.splits if_splits)
  have "\<exists>e. PriceSnapshot_Normalize H (Some (x\<lparr>pr_Digest := pr_Digest q\<rparr>)) = Inl e"
    if "H (price_payload x) \<noteq> H (price_payload q)" for x
    using that q(1)
    by (auto simp: PriceSnapshot_Validate_def digest_of_def
        simp del: validatePriceSnapshotFields.simps split: option.splits sum.splits if_splits)
  with q show ?thesis by blast
qed

theorem price_normalize_sealed_witness:
  "PriceSnapshot_Validate sample_hash (Some sample_price) = None \<and>
   PriceSnapshot_Normalize sample_hash (Some sample_price) = Inr sample_price"
proof -
  have "PriceSnapshot_Normalize sample_hash (Some (sample_price\<lparr>pr_Digest := ''''\<rparr>)) =
      Inr sample_price"
    by (simp add: price_eval)
  from price_normalize_sealed [OF this] show ?thesis by blast
qed

end
