(* ===== verification/Usage.thy ===== *)
theory Usage
  imports Pricing
begin

text \<open>
  Provider usage reports, canonical per-run usage and the provider anchor:
  \<^verbatim>\<open>internal/domain/canonical_usage.go\<close> and \<^verbatim>\<open>task_session.go\<close>, and the canonicalization of
  a cumulative report against the anchor in \<^verbatim>\<open>internal/application/canonical_usage.go\<close>. The
  digest of a document is taken by a hasher parameter (theory Digest). A pointer copied by
  Clone is the value; the unspecified order of \<^verbatim>\<open>sort.Slice\<close> on equal keys does not matter
  since no kind occurs twice.
\<close>

section \<open>Anchors and provenance\<close>

definition validateProviderUsageAnchorCounters :: "UsageCountersV1 \<Rightarrow> go_error option" where
  "validateProviderUsageAnchorCounters c =
     require (\<not> (\<exists>v\<in>set (counter_list c). case v of None \<Rightarrow> False | Some n \<Rightarrow> n < 0))
       (ErrValidation ''usage counter must be >= 0'')"

datatype ProviderUsageAnchorState = ProviderUsageAnchorReady | ProviderUsageAnchorInvalidated
  | ProviderUsageAnchorOther string

record ProviderUsageAnchorV1 =
  an_SchemaVersion :: string
  an_State :: ProviderUsageAnchorState
  an_AdapterID :: string
  an_SessionRef :: string
  an_ContextGeneration :: int
  an_SegmentSeq :: int
  an_Counters :: UsageCountersV1
  an_SourceRunID :: string
  an_ObservedAt :: time
  an_InvalidationReason :: string

definition ProviderUsageAnchorSchemaVersionV1 :: string where
  "ProviderUsageAnchorSchemaVersionV1 = ''provider-usage-anchor/v1''"

fun ProviderUsageAnchor_Validate :: "ProviderUsageAnchorV1 option \<Rightarrow> go_error option" where
  "ProviderUsageAnchor_Validate None = Some (ErrValidation ''nil provider usage anchor'')"
| "ProviderUsageAnchor_Validate (Some a) = first_error
     ([require (\<not> an_SchemaVersion a \<noteq> ProviderUsageAnchorSchemaVersionV1)
         (ErrValidation ''provider usage anchor schema_version''),
       require (\<not> (an_State a \<noteq> ProviderUsageAnchorReady \<and>
                  an_State a \<noteq> ProviderUsageAnchorInvalidated))
         (ErrValidation ''provider usage anchor state''),
       validateText ''provider usage anchor.adapter_id'' (an_AdapterID a) 512,
       if an_SessionRef a \<noteq> ''''
       then validateText ''provider usage anchor.session_ref'' (an_SessionRef a) 1024 else None,
       require (\<not> an_ContextGeneration a < 0)
         (ErrValidation ''provider usage anchor.context_generation must be >= 0''),
       require (\<not> an_SegmentSeq a < 1)
         (ErrValidation ''provider usage anchor.segment_seq must be >= 1''),
       wrapV ''provider usage anchor.counters''
         (validateProviderUsageAnchorCounters (an_Counters a)),
       validateTypedID ''provider usage anchor.source_run_id'' (an_SourceRunID a) PrefixRun,
       require (\<not> IsZero (an_ObservedAt a))
         (ErrValidation ''provider usage anchor.observed_at is required'')]
      @ (if an_State a = ProviderUsageAnchorReady then
           [require (\<not> an_SessionRef a = '''')
              (ErrValidation ''ready provider usage anchor requires session_ref''),
            require (UsageCounters_AnyKnown (an_Counters a))
              (ErrValidation ''ready provider usage anchor requires a known counter''),
            require (\<not> an_InvalidationReason a \<noteq> '''')
              (ErrValidation ''ready provider usage anchor cannot carry invalidation_reason'')]
         else
           [require (\<not> UsageCounters_AnyKnown (an_Counters a))
              (ErrValidation ''invalidated provider usage anchor counters must be unknown''),
            validateText ''provider usage anchor.invalidation_reason'' (an_InvalidationReason a)
              2000]))"

definition UsageBasisPerRun :: string where "UsageBasisPerRun = ''per_run''"
definition UsageBasisSessionCumulative :: string where
  "UsageBasisSessionCumulative = ''session_cumulative''"
definition ProviderUsageReportSchemaVersionV1 :: string where
  "ProviderUsageReportSchemaVersionV1 = ''provider-usage/v1''"
definition CanonicalUsageSchemaVersionV1 :: string where
  "CanonicalUsageSchemaVersionV1 = ''canonical-usage/v1''"

lemmas usage_consts = UsageBasisPerRun_def UsageBasisSessionCumulative_def
  ProviderUsageReportSchemaVersionV1_def CanonicalUsageSchemaVersionV1_def
  ProviderUsageAnchorSchemaVersionV1_def

record UsageProvenanceV1 =
  pv_AdapterID :: string
  pv_Protocol :: string
  pv_ProtocolVersion :: string
  pv_Source :: string
  pv_ReportedBasis :: string
  pv_AgentID :: string
  pv_SessionRef :: string
  pv_Mapping :: string
  pv_AnchorBefore :: "UsageCountersV1 option"
  pv_AnchorAfter :: "UsageCountersV1 option"
  pv_AnchorGeneration :: int
  pv_AnchorSequence :: int
  pv_AnchorObservedAt :: time

definition UsageProvenance_Validate :: "UsageProvenanceV1 \<Rightarrow> go_error option" where
  "UsageProvenance_Validate p = first_error
     (map (\<lambda>v. validateText ''usage provenance'' v 512)
        [pv_AdapterID p, pv_Protocol p, pv_ProtocolVersion p, pv_Source p, pv_ReportedBasis p,
         pv_AgentID p, pv_Mapping p]
      @ [require (\<not> (pv_ReportedBasis p \<noteq> UsageBasisPerRun \<and>
                    pv_ReportedBasis p \<noteq> UsageBasisSessionCumulative))
           (ErrValidation ''usage provenance reported_basis''),
         if pv_SessionRef p \<noteq> ''''
         then validateText ''usage provenance.session_ref'' (pv_SessionRef p) 1024 else None,
         require (\<not> (pv_AnchorGeneration p < 0 \<or> pv_AnchorSequence p < 0))
           (ErrValidation ''usage provenance anchor coordinates must be >= 0''),
         (case pv_AnchorBefore p of
            None \<Rightarrow> None
          | Some c \<Rightarrow> wrapV ''usage provenance.anchor_before'' (validateProviderUsageAnchorCounters c)),
         (case pv_AnchorAfter p of
            None \<Rightarrow> None
          | Some c \<Rightarrow> wrapV ''usage provenance.anchor_after'' (validateProviderUsageAnchorCounters c))])"

section \<open>Provider usage reports\<close>

record ProviderUsageReportV1 =
  ur_SchemaVersion :: string
  ur_RunID :: string
  ur_Basis :: string
  ur_Counters :: UsageCountersV1
  ur_Provenance :: UsageProvenanceV1
  ur_Digest :: string

fun ProviderUsageReport_validateShape ::
    "bool \<Rightarrow> ProviderUsageReportV1 option \<Rightarrow> go_error option" where
  "ProviderUsageReport_validateShape requireDigest None =
     Some (ErrValidation ''nil provider usage report'')"
| "ProviderUsageReport_validateShape requireDigest (Some r) = first_error
     [require (\<not> ur_SchemaVersion r \<noteq> ProviderUsageReportSchemaVersionV1)
        (ErrValidation ''provider usage report schema_version''),
      validateTypedID ''provider usage report.run_id'' (ur_RunID r) PrefixRun,
      require (\<not> (ur_Basis r \<noteq> UsageBasisPerRun \<and> ur_Basis r \<noteq> UsageBasisSessionCumulative))
        (ErrValidation ''provider usage report basis''),
      UsageCounters_Validate (ur_Counters r),
      UsageProvenance_Validate (ur_Provenance r),
      require (\<not> pv_ReportedBasis (ur_Provenance r) \<noteq> ur_Basis r)
        (ErrValidation ''provider usage report basis/provenance mismatch''),
      if requireDigest
      then wrapV ''provider usage report.digest'' (ValidateCanonicalDigest (ur_Digest r)) else None]"

record providerUsageReportDigestPayload =
  up_SchemaVersion :: string
  up_RunID :: string
  up_Basis :: string
  up_Counters :: UsageCountersV1
  up_Provenance :: UsageProvenanceV1

definition report_payload :: "ProviderUsageReportV1 \<Rightarrow> providerUsageReportDigestPayload" where
  "report_payload r = \<lparr>up_SchemaVersion = ur_SchemaVersion r, up_RunID = ur_RunID r,
     up_Basis = ur_Basis r, up_Counters = ur_Counters r, up_Provenance = ur_Provenance r\<rparr>"

definition ProviderUsageReport_ComputeDigest :: "providerUsageReportDigestPayload hasher \<Rightarrow>
    ProviderUsageReportV1 option \<Rightarrow> go_error + string" where
  "ProviderUsageReport_ComputeDigest H mr =
     (case mr of
        None \<Rightarrow> Inl (ErrValidation ''nil provider usage report'')
      | Some r \<Rightarrow>
          (case ProviderUsageReport_validateShape False (Some r) of
             Some e \<Rightarrow> Inl e
           | None \<Rightarrow> digest_of H (report_payload r)))"

definition ProviderUsageReport_Seal :: "providerUsageReportDigestPayload hasher \<Rightarrow>
    ProviderUsageReportV1 \<Rightarrow> go_error + ProviderUsageReportV1" where
  "ProviderUsageReport_Seal H r =
     (case ProviderUsageReport_validateShape False (Some r) of
        Some e \<Rightarrow> Inl e
      | None \<Rightarrow>
          (case ProviderUsageReport_ComputeDigest H (Some r) of
             Inl e \<Rightarrow> Inl e
           | Inr d \<Rightarrow> Inr (r\<lparr>ur_Digest := d\<rparr>)))"

definition ProviderUsageReport_VerifyDigest :: "providerUsageReportDigestPayload hasher \<Rightarrow>
    ProviderUsageReportV1 option \<Rightarrow> go_error option" where
  "ProviderUsageReport_VerifyDigest H mr =
     (case ProviderUsageReport_validateShape True mr of
        Some e \<Rightarrow> Some e
      | None \<Rightarrow>
          (case ProviderUsageReport_ComputeDigest H mr of
             Inl e \<Rightarrow> Some e
           | Inr want \<Rightarrow> require (\<not> Some want \<noteq> map_option ur_Digest mr)
               (ErrValidation ''provider usage report digest mismatch'')))"

definition ProviderUsageReport_Validate :: "providerUsageReportDigestPayload hasher \<Rightarrow>
    ProviderUsageReportV1 option \<Rightarrow> go_error option" where
  "ProviderUsageReport_Validate H mr =
     (case ProviderUsageReport_validateShape False mr of
        Some e \<Rightarrow> Some e
      | None \<Rightarrow>
          (case mr of
             None \<Rightarrow> None
           | Some r \<Rightarrow> if ur_Digest r \<noteq> '''' then ProviderUsageReport_VerifyDigest H (Some r)
                       else None))"

section \<open>Canonical usage\<close>

record CanonicalUsageV1 =
  cu_SchemaVersion :: string
  cu_RunID :: string
  cu_Basis :: string
  cu_Counters :: UsageCountersV1
  cu_CostMicroUSD :: "int option"
  cu_PriceDigest :: string
  cu_ResolvedKinds :: "QuotaKind list"
  cu_UnresolvedKinds :: "QuotaKind list"
  cu_UnresolvedReason :: string
  cu_Provenance :: UsageProvenanceV1
  cu_Digest :: string

fun isUsageQuotaKind :: "QuotaKind \<Rightarrow> bool" where
  "isUsageQuotaKind QuotaInputTokensTotal = True"
| "isUsageQuotaKind QuotaInputUncachedTokens = True"
| "isUsageQuotaKind QuotaCacheReadTokens = True"
| "isUsageQuotaKind QuotaCacheWriteTokens = True"
| "isUsageQuotaKind QuotaOutputTokens = True"
| "isUsageQuotaKind QuotaCostMicroUSD = True"
| "isUsageQuotaKind _ = False"

text \<open>\<open>first\<close> is the loop's \<open>i = 0\<close>; Go compares the byte strings lexicographically.\<close>

fun check_usage_kinds :: "bool \<Rightarrow> string \<Rightarrow> QuotaKind list \<Rightarrow> bool" where
  "check_usage_kinds first previous [] = True"
| "check_usage_kinds first previous (k # ks) =
     (if \<not> isUsageQuotaKind k then False
      else if \<not> first \<and> QuotaKind_text k \<le> previous then False
      else check_usage_kinds False (QuotaKind_text k) ks)"

definition sortAndValidateUsageKinds :: "QuotaKind list \<Rightarrow> bool" where
  "sortAndValidateUsageKinds values = check_usage_kinds True '''' values"

definition containsQuotaKind :: "QuotaKind list \<Rightarrow> QuotaKind \<Rightarrow> bool" where
  "containsQuotaKind values wanted \<longleftrightarrow> list_ex (\<lambda>v. v = wanted) values"

definition usage_counters_map :: "CanonicalUsageV1 \<Rightarrow> (QuotaKind \<times> int option) list" where
  "usage_counters_map u =
     [(QuotaInputTokensTotal, uc_InputTokensTotal (cu_Counters u)),
      (QuotaInputUncachedTokens, uc_InputUncachedTokens (cu_Counters u)),
      (QuotaCacheReadTokens, uc_CacheReadTokens (cu_Counters u)),
      (QuotaCacheWriteTokens, uc_CacheWriteTokens (cu_Counters u)),
      (QuotaOutputTokens, uc_OutputTokens (cu_Counters u)),
      (QuotaCostMicroUSD, cu_CostMicroUSD u)]"

definition check_counter_kind :: "CanonicalUsageV1 \<Rightarrow> QuotaKind \<times> int option \<Rightarrow> go_error option" where
  "check_counter_kind u kv =
     (let kind = fst kv; known = snd kv \<noteq> None;
          resolved = containsQuotaKind (cu_ResolvedKinds u) kind;
          unresolved = containsQuotaKind (cu_UnresolvedKinds u) kind
      in if kind = QuotaCostMicroUSD \<and> \<not> known \<and> \<not> resolved \<and> \<not> unresolved then None
         else if known \<and> \<not> resolved then
           Some (ErrValidation ''canonical usage counter lacks resolved kind'')
         else if \<not> known \<and> resolved then
           Some (ErrValidation ''canonical usage resolved kind lacks counter'')
         else if \<not> known \<and> \<not> unresolved then
           Some (ErrValidation ''canonical usage counter must be resolved or unresolved'')
         else None)"

definition validateUsageKindLists :: "CanonicalUsageV1 \<Rightarrow> go_error option" where
  "validateUsageKindLists u = first_error
     ([require (sortAndValidateUsageKinds (cu_ResolvedKinds u))
         (ErrValidation ''canonical usage.resolved_kinds must be sorted, unique usage kinds''),
       require (sortAndValidateUsageKinds (cu_UnresolvedKinds u))
         (ErrValidation ''canonical usage.unresolved_kinds must be sorted, unique usage kinds'')]
      @ map (\<lambda>k. require (\<not> containsQuotaKind (cu_UnresolvedKinds u) k)
               (ErrValidation ''canonical usage kind is both resolved and unresolved''))
          (cu_ResolvedKinds u)
      @ [require (\<not> (length (cu_UnresolvedKinds u) > 0 \<and> TrimSpace (cu_UnresolvedReason u) = ''''))
           (ErrValidation ''unresolved usage requires unresolved_reason''),
         require (\<not> (length (cu_UnresolvedKinds u) = 0 \<and> cu_UnresolvedReason u \<noteq> ''''))
           (ErrValidation ''unresolved_reason requires unresolved kinds'')]
      @ map (check_counter_kind u) (usage_counters_map u))"

definition cost_negative :: "int option \<Rightarrow> bool" where
  "cost_negative v = (case v of None \<Rightarrow> False | Some n \<Rightarrow> n < 0)"

fun CanonicalUsage_validateShape :: "bool \<Rightarrow> CanonicalUsageV1 option \<Rightarrow> go_error option" where
  "CanonicalUsage_validateShape requireDigest None = Some (ErrValidation ''nil canonical usage'')"
| "CanonicalUsage_validateShape requireDigest (Some u) = first_error
     [require (\<not> cu_SchemaVersion u \<noteq> CanonicalUsageSchemaVersionV1)
        (ErrValidation ''canonical usage schema_version''),
      validateTypedID ''canonical usage.run_id'' (cu_RunID u) PrefixRun,
      require (\<not> cu_Basis u \<noteq> UsageBasisPerRun)
        (ErrValidation ''canonical usage basis must be per_run''),
      UsageCounters_Validate (cu_Counters u),
      require (\<not> cost_negative (cu_CostMicroUSD u))
        (ErrValidation ''canonical usage cost_microusd must be >= 0''),
      if cu_PriceDigest u \<noteq> ''''
      then wrapV ''canonical usage.price_digest'' (ValidateCanonicalDigest (cu_PriceDigest u))
      else None,
      require (\<not> (cu_CostMicroUSD u \<noteq> None \<and> cu_PriceDigest u = ''''))
        (ErrValidation ''resolved cost requires price_digest''),
      validateUsageKindLists u,
      UsageProvenance_Validate (cu_Provenance u),
      if requireDigest
      then wrapV ''canonical usage.digest'' (ValidateCanonicalDigest (cu_Digest u)) else None]"

record canonicalUsageDigestPayload =
  cp_SchemaVersion :: string
  cp_RunID :: string
  cp_Basis :: string
  cp_Counters :: UsageCountersV1
  cp_CostMicroUSD :: "int option"
  cp_PriceDigest :: string
  cp_ResolvedKinds :: "QuotaKind list"
  cp_UnresolvedKinds :: "QuotaKind list"
  cp_UnresolvedReason :: string
  cp_Provenance :: UsageProvenanceV1

definition usage_payload :: "CanonicalUsageV1 \<Rightarrow> canonicalUsageDigestPayload" where
  "usage_payload u = \<lparr>cp_SchemaVersion = cu_SchemaVersion u, cp_RunID = cu_RunID u,
     cp_Basis = cu_Basis u, cp_Counters = cu_Counters u, cp_CostMicroUSD = cu_CostMicroUSD u,
     cp_PriceDigest = cu_PriceDigest u, cp_ResolvedKinds = cu_ResolvedKinds u,
     cp_UnresolvedKinds = cu_UnresolvedKinds u, cp_UnresolvedReason = cu_UnresolvedReason u,
     cp_Provenance = cu_Provenance u\<rparr>"

definition CanonicalUsage_ComputeDigest :: "canonicalUsageDigestPayload hasher \<Rightarrow>
    CanonicalUsageV1 option \<Rightarrow> go_error + string" where
  "CanonicalUsage_ComputeDigest H mu =
     (case mu of
        None \<Rightarrow> Inl (ErrValidation ''nil canonical usage'')
      | Some u \<Rightarrow>
          (case CanonicalUsage_validateShape False (Some u) of
             Some e \<Rightarrow> Inl e
           | None \<Rightarrow> digest_of H (usage_payload u)))"

definition CanonicalUsage_Seal :: "canonicalUsageDigestPayload hasher \<Rightarrow>
    CanonicalUsageV1 \<Rightarrow> go_error + CanonicalUsageV1" where
  "CanonicalUsage_Seal H u =
     (case CanonicalUsage_validateShape False (Some u) of
        Some e \<Rightarrow> Inl e
      | None \<Rightarrow>
          (case CanonicalUsage_ComputeDigest H (Some u) of
             Inl e \<Rightarrow> Inl e
           | Inr d \<Rightarrow> Inr (u\<lparr>cu_Digest := d\<rparr>)))"

definition CanonicalUsage_VerifyDigest :: "canonicalUsageDigestPayload hasher \<Rightarrow>
    CanonicalUsageV1 option \<Rightarrow> go_error option" where
  "CanonicalUsage_VerifyDigest H mu =
     (case CanonicalUsage_validateShape True mu of
        Some e \<Rightarrow> Some e
      | None \<Rightarrow>
          (case CanonicalUsage_ComputeDigest H mu of
             Inl e \<Rightarrow> Some e
           | Inr want \<Rightarrow> require (\<not> Some want \<noteq> map_option cu_Digest mu)
               (ErrValidation ''canonical usage digest mismatch'')))"

definition CanonicalUsage_Validate :: "canonicalUsageDigestPayload hasher \<Rightarrow>
    CanonicalUsageV1 option \<Rightarrow> go_error option" where
  "CanonicalUsage_Validate H mu =
     (case CanonicalUsage_validateShape True mu of
        Some e \<Rightarrow> Some e
      | None \<Rightarrow> CanonicalUsage_VerifyDigest H mu)"

section \<open>Per-run reports (CanonicalizeProviderUsageReport)\<close>

definition sort_kinds :: "QuotaKind list \<Rightarrow> QuotaKind list" where
  "sort_kinds ks = sort_key QuotaKind_text ks"

definition usage_entries :: "UsageCountersV1 \<Rightarrow> (QuotaKind \<times> int option \<times> string) list" where
  "usage_entries c =
     [(QuotaInputTokensTotal, uc_InputTokensTotal c, ''input_tokens_total''),
      (QuotaInputUncachedTokens, uc_InputUncachedTokens c, ''input_uncached_tokens''),
      (QuotaCacheReadTokens, uc_CacheReadTokens c, ''cache_read_tokens''),
      (QuotaCacheWriteTokens, uc_CacheWriteTokens c, ''cache_write_tokens''),
      (QuotaOutputTokens, uc_OutputTokens c, ''output_tokens'')]"

definition CanonicalizeProviderUsageReport :: "providerUsageReportDigestPayload hasher \<Rightarrow>
    canonicalUsageDigestPayload hasher \<Rightarrow> ProviderUsageReportV1 option \<Rightarrow>
    go_error + CanonicalUsageV1" where
  "CanonicalizeProviderUsageReport HR HU mr =
     (case ProviderUsageReport_Validate HR mr of
        Some e \<Rightarrow> Inl e
      | None \<Rightarrow>
          (case mr of
             None \<Rightarrow> Inl (ErrValidation ''nil provider usage report'')
           | Some r \<Rightarrow>
               if ur_Basis r \<noteq> UsageBasisPerRun then Inl (ErrValidation
                 ''session cumulative usage requires a persistent anchor before canonicalization'')
               else
                 (let counters = UsageCounters_Clone (ur_Counters r);
                      es = usage_entries counters;
                      resolved = map fst (filter (\<lambda>e. fst (snd e) \<noteq> None) es);
                      unresolved = map fst (filter (\<lambda>e. fst (snd e) = None) es);
                      missing = map (snd \<circ> snd) (filter (\<lambda>e. fst (snd e) = None) es)
                  in CanonicalUsage_Seal HU
                       \<lparr>cu_SchemaVersion = CanonicalUsageSchemaVersionV1, cu_RunID = ur_RunID r,
                        cu_Basis = UsageBasisPerRun, cu_Counters = counters,
                        cu_CostMicroUSD = None, cu_PriceDigest = '''',
                        cu_ResolvedKinds = sort_kinds resolved,
                        cu_UnresolvedKinds = sort_kinds unresolved,
                        cu_UnresolvedReason =
                          (if length missing > 0
                           then ''provider usage did not expose: '' @ joinWith '', '' missing
                           else ''''),
                        cu_Provenance = ur_Provenance r, cu_Digest = ''''\<rparr>)))"

section \<open>Cumulative reports (internal/application/canonical_usage.go)\<close>

record CanonicalUsageRequestV1 =
  rq_Report :: "ProviderUsageReportV1 option"
  rq_Anchor :: "ProviderUsageAnchorV1 option"
  rq_RunID :: string
  rq_AgentID :: string
  rq_AdapterID :: string
  rq_SessionRef :: string
  rq_ContextGeneration :: int
  rq_SegmentSeq :: int
  rq_AnchorOwnershipKnown :: bool
  rq_AnchorOwnerRunID :: string
  rq_AnchorOwnerSequence :: int
  rq_FreshProviderSession :: bool
  rq_ObservedAt :: time

record CanonicalUsageResultV1 =
  rs_Canonical :: CanonicalUsageV1
  rs_NextAnchor :: "ProviderUsageAnchorV1 option"

definition validateCanonicalUsageRequest :: "CanonicalUsageRequestV1 \<Rightarrow> go_error option" where
  "validateCanonicalUsageRequest req = first_error
     [require (\<not> rq_Report req = None) (ErrValidation ''provider usage report is required''),
      require (\<not> (TrimSpace (rq_RunID req) = '''' \<or> \<not> HasPrefix (rq_RunID req) PrefixRun))
        (ErrValidation ''canonical usage run_id must be a run id''),
      require (\<not> TrimSpace (rq_AgentID req) = '''')
        (ErrValidation ''canonical usage agent_id is required''),
      require (\<not> TrimSpace (rq_AdapterID req) = '''')
        (ErrValidation ''canonical usage adapter_id is required''),
      require (\<not> rq_ContextGeneration req < 0)
        (ErrValidation ''canonical usage context_generation must be >= 0''),
      require (\<not> rq_SegmentSeq req < 1)
        (ErrValidation ''canonical usage segment_seq must be >= 1''),
      require (\<not> (rq_SessionRef req \<noteq> '''' \<and> TrimSpace (rq_SessionRef req) = ''''))
        (ErrValidation ''canonical usage session_ref must not be blank'')]"

definition validateReportIdentity ::
    "CanonicalUsageRequestV1 \<Rightarrow> ProviderUsageReportV1 \<Rightarrow> go_error option" where
  "validateReportIdentity req report = first_error
     [require (\<not> ur_RunID report \<noteq> rq_RunID req)
        (ErrValidation ''provider usage report run identity mismatch''),
      require (\<not> pv_AgentID (ur_Provenance report) \<noteq> rq_AgentID req)
        (ErrValidation ''provider usage report agent identity mismatch''),
      require (\<not> pv_AdapterID (ur_Provenance report) \<noteq> rq_AdapterID req)
        (ErrValidation ''provider usage report adapter identity mismatch''),
      require (\<not> (rq_SessionRef req \<noteq> '''' \<and>
                 pv_SessionRef (ur_Provenance report) \<noteq> rq_SessionRef req))
        (ErrValidation ''provider usage report session identity mismatch'')]"

definition compatibleProviderUsageAnchor ::
    "CanonicalUsageRequestV1 \<Rightarrow> ProviderUsageReportV1 \<Rightarrow> bool" where
  "compatibleProviderUsageAnchor req report =
     (case rq_Anchor req of
        None \<Rightarrow> False
      | Some a \<Rightarrow> an_State a = ProviderUsageAnchorReady \<and> an_AdapterID a = rq_AdapterID req \<and>
          an_SessionRef a \<noteq> '''' \<and> an_SessionRef a = pv_SessionRef (ur_Provenance report) \<and>
          an_ContextGeneration a = rq_ContextGeneration req \<and>
          an_SegmentSeq a = rq_SegmentSeq req)"

definition cumulativeBaselineReason :: "CanonicalUsageRequestV1 \<Rightarrow> string \<Rightarrow> string" where
  "cumulativeBaselineReason req reportRef =
     (if reportRef = '''' then ''provider session_ref is missing''
      else
        (case rq_Anchor req of
           None \<Rightarrow> ''provider usage anchor is unavailable''
         | Some a \<Rightarrow>
             if an_State a = ProviderUsageAnchorInvalidated
             then ''provider usage anchor is invalidated''
             else if an_AdapterID a \<noteq> rq_AdapterID req \<or> an_SessionRef a \<noteq> reportRef
             then ''provider usage session identity changed''
             else if an_ContextGeneration a \<noteq> rq_ContextGeneration req
             then ''provider usage context generation changed''
             else if an_SegmentSeq a \<noteq> rq_SegmentSeq req
             then ''provider usage segment changed''
             else ''provider usage anchor is not comparable''))"

text \<open>The five counters with their accessors, and the reason of an unresolved one.\<close>

type_synonym usage_reason = "QuotaKind \<times> string"

definition usage_fields :: "(QuotaKind \<times> (UsageCountersV1 \<Rightarrow> int option) \<times>
    (int option \<Rightarrow> UsageCountersV1 \<Rightarrow> UsageCountersV1)) list" where
  "usage_fields =
     [(QuotaInputTokensTotal, uc_InputTokensTotal, \<lambda>v c. c\<lparr>uc_InputTokensTotal := v\<rparr>),
      (QuotaInputUncachedTokens, uc_InputUncachedTokens, \<lambda>v c. c\<lparr>uc_InputUncachedTokens := v\<rparr>),
      (QuotaCacheReadTokens, uc_CacheReadTokens, \<lambda>v c. c\<lparr>uc_CacheReadTokens := v\<rparr>),
      (QuotaCacheWriteTokens, uc_CacheWriteTokens, \<lambda>v c. c\<lparr>uc_CacheWriteTokens := v\<rparr>),
      (QuotaOutputTokens, uc_OutputTokens, \<lambda>v c. c\<lparr>uc_OutputTokens := v\<rparr>)]"

definition no_counters :: UsageCountersV1 where
  "no_counters = \<lparr>uc_InputTokensTotal = None, uc_InputUncachedTokens = None,
     uc_CacheReadTokens = None, uc_CacheWriteTokens = None, uc_OutputTokens = None\<rparr>"

text \<open>One iteration: the delta of a counter, or why it is unresolved.\<close>

definition counter_delta ::
    "int option \<Rightarrow> int option option \<Rightarrow> string \<Rightarrow> string + int" where
  "counter_delta reportValue baselineValue baselineReason =
     (case reportValue of
        None \<Rightarrow> Inl ''provider counter is unknown''
      | Some n \<Rightarrow>
          (case baselineValue of
             None \<Rightarrow> Inl baselineReason
           | Some None \<Rightarrow> Inl ''anchor counter is unknown''
           | Some (Some b) \<Rightarrow>
               (case CheckedSubNonNegative n b of
                  Inl _ \<Rightarrow> Inl ''provider counter regressed or delta underflowed''
                | Inr d \<Rightarrow> Inr d)))"

type_synonym delta_state =
  "UsageCountersV1 \<times> QuotaKind list \<times> QuotaKind list \<times> usage_reason list"

fun delta_loop :: "UsageCountersV1 \<Rightarrow> UsageCountersV1 option \<Rightarrow> string \<Rightarrow>
    (QuotaKind \<times> (UsageCountersV1 \<Rightarrow> int option) \<times>
      (int option \<Rightarrow> UsageCountersV1 \<Rightarrow> UsageCountersV1)) list \<Rightarrow> delta_state \<Rightarrow> delta_state" where
  "delta_loop report baseline reason [] st = st"
| "delta_loop report baseline reason ((kind, rd, wr) # fs) (delta, resolved, unresolved, reasons) =
     (case counter_delta (rd report) (map_option rd baseline) reason of
        Inl r \<Rightarrow> delta_loop report baseline reason fs
          (delta, resolved, unresolved @ [kind], reasons @ [(kind, r)])
      | Inr v \<Rightarrow> delta_loop report baseline reason fs
          (wr (Some v) delta, resolved @ [kind], unresolved, reasons))"

definition inputDeltaDecompositionValid :: "UsageCountersV1 \<Rightarrow> bool" where
  "inputDeltaDecompositionValid delta =
     (case uc_InputTokensTotal delta of
        None \<Rightarrow> True
      | Some tot \<Rightarrow>
          (case known_sum 0 (input_components delta) of
             Inl _ \<Rightarrow> False
           | Inr s \<Rightarrow>
               if list_all (\<lambda>v. v \<noteq> None) (input_components delta) \<and> s \<noteq> tot then False
               else s \<le> tot))"

definition removeUsageKind :: "QuotaKind list \<Rightarrow> QuotaKind \<Rightarrow> QuotaKind list" where
  "removeUsageKind kinds wanted = filter (\<lambda>k. k \<noteq> wanted) kinds"

definition cumulativeDelta :: "UsageCountersV1 \<Rightarrow> UsageCountersV1 option \<Rightarrow> string \<Rightarrow> delta_state" where
  "cumulativeDelta report baseline baselineReason =
     (case delta_loop report baseline baselineReason usage_fields (no_counters, [], [], []) of
        (delta, resolved, unresolved, reasons) \<Rightarrow>
          let (delta, resolved, unresolved, reasons) =
            (if uc_InputTokensTotal delta \<noteq> None \<and> \<not> inputDeltaDecompositionValid delta
             then (delta\<lparr>uc_InputTokensTotal := None\<rparr>,
                   removeUsageKind resolved QuotaInputTokensTotal,
                   unresolved @ [QuotaInputTokensTotal],
                   reasons @ [(QuotaInputTokensTotal,
                     ''input delta decomposition is not provable after per-kind anchor merge'')])
             else (delta, resolved, unresolved, reasons))
          in (delta, sort_kinds resolved, sort_kinds unresolved,
              sort_key (\<lambda>r. QuotaKind_text (fst r)) reasons))"

definition zeroKnownCounters :: "UsageCountersV1 \<Rightarrow> UsageCountersV1" where
  "zeroKnownCounters c = \<lparr>uc_InputTokensTotal = map_option (\<lambda>_. 0) (uc_InputTokensTotal c),
     uc_InputUncachedTokens = map_option (\<lambda>_. 0) (uc_InputUncachedTokens c),
     uc_CacheReadTokens = map_option (\<lambda>_. 0) (uc_CacheReadTokens c),
     uc_CacheWriteTokens = map_option (\<lambda>_. 0) (uc_CacheWriteTokens c),
     uc_OutputTokens = map_option (\<lambda>_. 0) (uc_OutputTokens c)\<rparr>"

definition merge_counter :: "int option \<Rightarrow> int option \<Rightarrow> int option" where
  "merge_counter oldValue reportValue =
     (case reportValue of
        None \<Rightarrow> cloneUsageCounter oldValue
      | Some n \<Rightarrow>
          (case oldValue of
             None \<Rightarrow> cloneUsageCounter reportValue
           | Some m \<Rightarrow> if n \<ge> m then cloneUsageCounter reportValue else cloneUsageCounter oldValue))"

definition mergeProviderUsageAnchorCounters ::
    "UsageCountersV1 \<Rightarrow> UsageCountersV1 \<Rightarrow> UsageCountersV1" where
  "mergeProviderUsageAnchorCounters anchor report =
     \<lparr>uc_InputTokensTotal = merge_counter (uc_InputTokensTotal anchor) (uc_InputTokensTotal report),
      uc_InputUncachedTokens =
        merge_counter (uc_InputUncachedTokens anchor) (uc_InputUncachedTokens report),
      uc_CacheReadTokens = merge_counter (uc_CacheReadTokens anchor) (uc_CacheReadTokens report),
      uc_CacheWriteTokens = merge_counter (uc_CacheWriteTokens anchor) (uc_CacheWriteTokens report),
      uc_OutputTokens = merge_counter (uc_OutputTokens anchor) (uc_OutputTokens report)\<rparr>"

definition buildNextProviderUsageAnchor ::
    "CanonicalUsageRequestV1 \<Rightarrow> string \<Rightarrow> UsageCountersV1 \<Rightarrow> ProviderUsageAnchorV1 option" where
  "buildNextProviderUsageAnchor req sessionRef counters =
     (if sessionRef = '''' \<or> \<not> UsageCounters_AnyKnown counters then None
      else
        (let anchor = \<lparr>an_SchemaVersion = ProviderUsageAnchorSchemaVersionV1,
               an_State = ProviderUsageAnchorReady, an_AdapterID = rq_AdapterID req,
               an_SessionRef = sessionRef, an_ContextGeneration = rq_ContextGeneration req,
               an_SegmentSeq = rq_SegmentSeq req, an_Counters = UsageCounters_Clone counters,
               an_SourceRunID = rq_RunID req, an_ObservedAt = rq_ObservedAt req,
               an_InvalidationReason = ''''\<rparr>
         in case ProviderUsageAnchor_Validate (Some anchor) of
              Some _ \<Rightarrow> None
            | None \<Rightarrow> Some anchor))"

definition nextProviderUsageAnchor :: "CanonicalUsageRequestV1 \<Rightarrow> ProviderUsageReportV1 \<Rightarrow>
    string \<Rightarrow> bool \<Rightarrow> bool \<Rightarrow> bool \<Rightarrow> ProviderUsageAnchorV1 option" where
  "nextProviderUsageAnchor req report sessionRef ownerMatch compatible zeroBaseline =
     (if \<not> ownerMatch then None
      else if zeroBaseline then
        buildNextProviderUsageAnchor req sessionRef (UsageCounters_Clone (ur_Counters report))
      else
        (case rq_Anchor req of
           None \<Rightarrow>
             buildNextProviderUsageAnchor req sessionRef (UsageCounters_Clone (ur_Counters report))
         | Some a \<Rightarrow>
             if compatible then
               buildNextProviderUsageAnchor req sessionRef
                 (mergeProviderUsageAnchorCounters (an_Counters a) (ur_Counters report))
             else None))"

definition joinUsageReasons :: "usage_reason list \<Rightarrow> string" where
  "joinUsageReasons reasons =
     (if length reasons = 0 then ''''
      else joinWith ''; '' (map (\<lambda>r. QuotaKind_text (fst r) @ '': '' @ snd r) reasons))"

definition owner_match :: "CanonicalUsageRequestV1 \<Rightarrow> bool" where
  "owner_match req \<longleftrightarrow> (\<not> rq_AnchorOwnershipKnown req \<and> rq_AnchorOwnerRunID req = '''') \<or>
     (rq_AnchorOwnerRunID req = rq_RunID req \<and> rq_AnchorOwnerSequence req \<ge> 1)"

text \<open>The baseline of the delta, and the reason when there is none.\<close>

definition cumulative_baseline :: "CanonicalUsageRequestV1 \<Rightarrow> ProviderUsageReportV1 \<Rightarrow> string \<Rightarrow>
    UsageCountersV1 option \<times> string" where
  "cumulative_baseline req report reportRef =
     (let ownerMatch = owner_match req;
          zeroBaseline = (ownerMatch \<and> rq_FreshProviderSession req \<and> reportRef \<noteq> '''');
          (baseline, reason) =
            (if zeroBaseline then (Some (zeroKnownCounters (ur_Counters report)), '''')
             else
               (case rq_Anchor req of
                  None \<Rightarrow> (None, cumulativeBaselineReason req reportRef)
                | Some a \<Rightarrow>
                    if ownerMatch \<and> compatibleProviderUsageAnchor req report
                    then (Some (UsageCounters_Clone (an_Counters a)), '''')
                    else (None, cumulativeBaselineReason req reportRef)))
      in (baseline,
          if \<not> ownerMatch then ''provider usage Run is no longer the current anchor owner''
          else reason))"

text \<open>The cumulative branch, after the checks.\<close>

definition canonicalize_cumulative :: "canonicalUsageDigestPayload hasher \<Rightarrow>
    CanonicalUsageRequestV1 \<Rightarrow> ProviderUsageReportV1 \<Rightarrow> go_error + CanonicalUsageResultV1" where
  "canonicalize_cumulative HU req report =
     (let reportRef = TrimSpace (pv_SessionRef (ur_Provenance report));
          ownerMatch = owner_match req;
          compatible = (ownerMatch \<and> compatibleProviderUsageAnchor req report);
          zeroBaseline = (ownerMatch \<and> rq_FreshProviderSession req \<and> reportRef \<noteq> '''');
          (baseline, baselineReason) = cumulative_baseline req report reportRef;
          (delta, resolved, unresolved, reasons) =
            cumulativeDelta (ur_Counters report) baseline baselineReason;
          nextAnchor = nextProviderUsageAnchor req report reportRef ownerMatch compatible zeroBaseline;
          p1 = (case baseline of
                  None \<Rightarrow> ur_Provenance report
                | Some b \<Rightarrow> (ur_Provenance report)\<lparr>pv_AnchorBefore := Some (UsageCounters_Clone b)\<rparr>);
          p2 = (case nextAnchor of
                  None \<Rightarrow> p1
                | Some a \<Rightarrow> p1\<lparr>pv_AnchorAfter := Some (UsageCounters_Clone (an_Counters a))\<rparr>);
          provenance = p2\<lparr>pv_AnchorGeneration := rq_ContextGeneration req,
                          pv_AnchorSequence := rq_SegmentSeq req,
                          pv_AnchorObservedAt := rq_ObservedAt req\<rparr>
      in case CanonicalUsage_Seal HU
           \<lparr>cu_SchemaVersion = CanonicalUsageSchemaVersionV1, cu_RunID = rq_RunID req,
            cu_Basis = UsageBasisPerRun, cu_Counters = delta, cu_CostMicroUSD = None,
            cu_PriceDigest = '''', cu_ResolvedKinds = resolved, cu_UnresolvedKinds = unresolved,
            cu_UnresolvedReason = joinUsageReasons reasons, cu_Provenance = provenance,
            cu_Digest = ''''\<rparr> of
           Inl e \<Rightarrow> Inl e
         | Inr u \<Rightarrow> Inr \<lparr>rs_Canonical = u, rs_NextAnchor = nextAnchor\<rparr>)"

definition CanonicalizeProviderUsageV1 :: "providerUsageReportDigestPayload hasher \<Rightarrow>
    canonicalUsageDigestPayload hasher \<Rightarrow> CanonicalUsageRequestV1 \<Rightarrow>
    go_error + CanonicalUsageResultV1" where
  "CanonicalizeProviderUsageV1 HR HU req =
     (case validateCanonicalUsageRequest req of
        Some e \<Rightarrow> Inl e
      | None \<Rightarrow>
          (case rq_Report req of
             None \<Rightarrow> Inl (ErrValidation ''provider usage report is required'')
           | Some report \<Rightarrow>
               (case first_error
                  [wrapV ''provider usage report digest''
                     (ProviderUsageReport_VerifyDigest HR (Some report)),
                   validateReportIdentity req report] of
                  Some e \<Rightarrow> Inl e
                | None \<Rightarrow>
                    if ur_Basis report = UsageBasisPerRun then
                      (case CanonicalizeProviderUsageReport HR HU (Some report) of
                         Inl e \<Rightarrow> Inl e
                       | Inr u \<Rightarrow> Inr \<lparr>rs_Canonical = u, rs_NextAnchor = None\<rparr>)
                    else
                      (case first_error
                         [require (\<not> IsZero (rq_ObservedAt req))
                            (ErrValidation ''cumulative usage requires observed_at''),
                          (case rq_Anchor req of
                             None \<Rightarrow> None
                           | Some a \<Rightarrow> wrapV ''provider usage anchor''
                               (ProviderUsageAnchor_Validate (Some a)))] of
                         Some e \<Rightarrow> Inl e
                       | None \<Rightarrow> canonicalize_cumulative HU req report))))"



section \<open>Facts about trimming and sorting\<close>

lemma trim_front_keeps_char:
  assumes "c \<in> set s" and "\<And>e. e \<in> set encs \<Longrightarrow> c \<notin> set e"
  shows "c \<in> set (trim_front encs s)"
  using assms
proof (induction encs s rule: trim_front.induct)
  case (1 encs s)
  show ?case
  proof (cases "List.find (\<lambda>e. e \<noteq> [] \<and> HasPrefix s e) encs")
    case None
    then show ?thesis using 1 by (subst trim_front.simps) simp
  next
    case (Some e)
    then have e: "e \<in> set encs" "take (length e) s = e"
      by (auto simp: find_Some_iff HasPrefix_def)
    have "c \<in> set (take (length e) s @ drop (length e) s)" using "1.prems"(1) by simp
    then have "c \<in> set (drop (length e) s)"
      unfolding set_append using e "1.prems"(2) [OF e(1)] by auto
    from "1.IH" [OF Some this "1.prems"(2)] Some show ?thesis
      by (subst trim_front.simps) simp
  qed
qed

lemma TrimSpace_nonblank:
  assumes "c \<in> set s" and "graphic c"
  shows "TrimSpace s \<noteq> ''''"
proof -
  have g: "\<And>e. e \<in> set space_runes \<Longrightarrow> c \<notin> set e"
    using assms(2) by (auto simp: space_runes_def graphic_def)
  have "c \<in> set (trim_front space_runes s)"
    using trim_front_keeps_char assms(1) g by blast
  then have "c \<in> set (trim_front (map rev space_runes) (rev (trim_front space_runes s)))"
    using g by (intro trim_front_keeps_char) auto
  then show ?thesis by (auto simp: TrimSpace_def)
qed

section \<open>Counter sets\<close>

definition usage_kinds :: "QuotaKind list" where
  "usage_kinds = [QuotaInputTokensTotal, QuotaInputUncachedTokens, QuotaCacheReadTokens,
     QuotaCacheWriteTokens, QuotaOutputTokens]"

lemma UsageCounters_Clone_id [simp]: "UsageCounters_Clone c = c"
  by (cases c) (simp add: UsageCounters_Clone_def cloneUsageCounter_def split: option.splits)

lemma cloneUsageCounter_id [simp]: "cloneUsageCounter v = v"
  by (simp add: cloneUsageCounter_def split: option.splits)

lemma usageCounterEqual_iff: "usageCounterEqual v w \<longleftrightarrow> v = w"
  by (cases v; cases w) auto

lemma UsageCounters_Equal_iff: "UsageCounters_Equal c d \<longleftrightarrow> c = d"
  by (cases c; cases d) (simp add: UsageCounters_Equal_def usageCounterEqual_iff)

lemma counters_nonneg_iff:
  "(\<exists>v\<in>set (counter_list c). case v of None \<Rightarrow> False | Some n \<Rightarrow> n < 0) \<longleftrightarrow>
   \<not> (\<forall>n. Some n \<in> set (counter_list c) \<longrightarrow> 0 \<le> n)"
  by (force split: option.splits)

text \<open>The application's decomposition test is the domain's validation of counters.\<close>

lemma known_sum3:
  "known_sum 0 [Some u, Some r, Some w] =
     (case CheckedAddNonNegative 0 u of
        Inl _ \<Rightarrow> Inl (ErrValidation ''input counter decomposition overflow'')
      | Inr a \<Rightarrow>
          (case CheckedAddNonNegative a r of
             Inl _ \<Rightarrow> Inl (ErrValidation ''input counter decomposition overflow'')
           | Inr b \<Rightarrow>
               (case CheckedAddNonNegative b w of
                  Inl _ \<Rightarrow> Inl (ErrValidation ''input counter decomposition overflow'')
                | Inr s \<Rightarrow> Inr s)))"
  by (simp split: sum.splits)

lemma CheckedAdd_zero: "0 \<le> u \<Longrightarrow> u \<le> maxInt64 \<Longrightarrow> CheckedAddNonNegative 0 u = Inr u"
  by (simp add: CheckedAdd_Inr)

lemma UsageCounters_Validate_iff:
  assumes "counters_in64 c"
  shows "UsageCounters_Validate c = None \<longleftrightarrow>
    (\<forall>n. Some n \<in> set (counter_list c) \<longrightarrow> 0 \<le> n) \<and> inputDeltaDecompositionValid c"
proof (cases "\<forall>n. Some n \<in> set (counter_list c) \<longrightarrow> 0 \<le> n")
  case False
  then show ?thesis by (auto simp: UsageCounters_Validate_def counters_nonneg_iff)
next
  case True
  have in64: "\<And>n. Some n \<in> set (counter_list c) \<Longrightarrow> n \<le> maxInt64"
    using assms by (simp add: counters_in64_def)
  show ?thesis
  proof (cases "uc_InputTokensTotal c")
    case None
    then show ?thesis using True
      by (auto simp: UsageCounters_Validate_def counters_nonneg_iff inputDeltaDecompositionValid_def)
  next
    case (Some t)
    show ?thesis
    proof (cases "\<exists>u r w. uc_InputUncachedTokens c = Some u \<and> uc_CacheReadTokens c = Some r \<and>
        uc_CacheWriteTokens c = Some w")
      case False
      then have "\<not> list_all (\<lambda>v. v \<noteq> None) (input_components c)"
        by (auto simp: input_components_def)
      then show ?thesis using True Some False
        by (auto simp: UsageCounters_Validate_def counters_nonneg_iff inputDeltaDecompositionValid_def
            split: sum.splits option.splits)
    next
      case all: True
      then obtain u r w where k: "uc_InputUncachedTokens c = Some u" "uc_CacheReadTokens c = Some r"
        "uc_CacheWriteTokens c = Some w" by blast
      have "CheckedAddNonNegative 0 u = Inr u"
        using True in64 k by (intro CheckedAdd_zero) (auto simp: counter_list_def)
      then show ?thesis using True Some k
        by (auto simp: UsageCounters_Validate_def counters_nonneg_iff inputDeltaDecompositionValid_def
            input_components_def known_sum3 simp del: known_sum.simps split: sum.splits)
    qed
  qed
qed

section \<open>The delta of a cumulative report\<close>

definition delta_opt :: "string + int \<Rightarrow> int option" where
  "delta_opt d = (case d of Inl _ \<Rightarrow> None | Inr v \<Rightarrow> Some v)"

lemma delta_opt_simps [simp]: "delta_opt (Inl r) = None" "delta_opt (Inr v) = Some v"
  by (simp_all add: delta_opt_def)

lemma delta_loop_lists:
  "delta_loop report base reason fs (d, re, un, rs) =
     (fst (delta_loop report base reason fs (d, re, un, rs)),
      re @ map fst (filter (\<lambda>(k, rd, wr).
        delta_opt (counter_delta (rd report) (map_option rd base) reason) \<noteq> None) fs),
      un @ map fst (filter (\<lambda>(k, rd, wr).
        delta_opt (counter_delta (rd report) (map_option rd base) reason) = None) fs),
      rs @ map (\<lambda>(k, rd, wr). (k, projl (counter_delta (rd report) (map_option rd base) reason)))
        (filter (\<lambda>(k, rd, wr).
          delta_opt (counter_delta (rd report) (map_option rd base) reason) = None) fs))"
  by (induction report base reason fs "(d, re, un, rs)" arbitrary: d re un rs
      rule: delta_loop.induct)
     (auto split: sum.splits)

lemma delta_loop_counters:
  "fst (delta_loop report base reason usage_fields (no_counters, [], [], [])) =
     \<lparr>uc_InputTokensTotal = delta_opt (counter_delta (uc_InputTokensTotal report)
        (map_option uc_InputTokensTotal base) reason),
      uc_InputUncachedTokens = delta_opt (counter_delta (uc_InputUncachedTokens report)
        (map_option uc_InputUncachedTokens base) reason),
      uc_CacheReadTokens = delta_opt (counter_delta (uc_CacheReadTokens report)
        (map_option uc_CacheReadTokens base) reason),
      uc_CacheWriteTokens = delta_opt (counter_delta (uc_CacheWriteTokens report)
        (map_option uc_CacheWriteTokens base) reason),
      uc_OutputTokens = delta_opt (counter_delta (uc_OutputTokens report)
        (map_option uc_OutputTokens base) reason)\<rparr>"
  unfolding usage_fields_def no_counters_def
  by (simp split: sum.split)



definition raw_delta :: "UsageCountersV1 \<Rightarrow> UsageCountersV1 option \<Rightarrow> string \<Rightarrow> UsageCountersV1" where
  "raw_delta report base reason =
     \<lparr>uc_InputTokensTotal = delta_opt (counter_delta (uc_InputTokensTotal report)
        (map_option uc_InputTokensTotal base) reason),
      uc_InputUncachedTokens = delta_opt (counter_delta (uc_InputUncachedTokens report)
        (map_option uc_InputUncachedTokens base) reason),
      uc_CacheReadTokens = delta_opt (counter_delta (uc_CacheReadTokens report)
        (map_option uc_CacheReadTokens base) reason),
      uc_CacheWriteTokens = delta_opt (counter_delta (uc_CacheWriteTokens report)
        (map_option uc_CacheWriteTokens base) reason),
      uc_OutputTokens = delta_opt (counter_delta (uc_OutputTokens report)
        (map_option uc_OutputTokens base) reason)\<rparr>"

definition final_delta :: "UsageCountersV1 \<Rightarrow> UsageCountersV1 option \<Rightarrow> string \<Rightarrow> UsageCountersV1" where
  "final_delta report base reason =
     (let d = raw_delta report base reason
      in if inputDeltaDecompositionValid d then d else d\<lparr>uc_InputTokensTotal := None\<rparr>)"

lemma inputDelta_no_total: "uc_InputTokensTotal d = None \<Longrightarrow> inputDeltaDecompositionValid d"
  by (simp add: inputDeltaDecompositionValid_def)

lemma final_delta_valid: "inputDeltaDecompositionValid (final_delta report base reason)"
  by (simp add: final_delta_def Let_def inputDelta_no_total)

lemma final_delta_components:
  "uc_InputUncachedTokens (final_delta report base reason) =
     uc_InputUncachedTokens (raw_delta report base reason)"
  "uc_CacheReadTokens (final_delta report base reason) =
     uc_CacheReadTokens (raw_delta report base reason)"
  "uc_CacheWriteTokens (final_delta report base reason) =
     uc_CacheWriteTokens (raw_delta report base reason)"
  "uc_OutputTokens (final_delta report base reason) = uc_OutputTokens (raw_delta report base reason)"
  by (simp_all add: final_delta_def Let_def)

text \<open>The kinds of a counter set that are known, and those that are not.\<close>

definition kind_value :: "QuotaKind \<Rightarrow> UsageCountersV1 \<Rightarrow> int option" where
  "kind_value k c =
     (case map_of usage_fields k of None \<Rightarrow> None | Some (rd, wr) \<Rightarrow> rd c)"

lemma kind_value_simps [simp]:
  "kind_value QuotaInputTokensTotal c = uc_InputTokensTotal c"
  "kind_value QuotaInputUncachedTokens c = uc_InputUncachedTokens c"
  "kind_value QuotaCacheReadTokens c = uc_CacheReadTokens c"
  "kind_value QuotaCacheWriteTokens c = uc_CacheWriteTokens c"
  "kind_value QuotaOutputTokens c = uc_OutputTokens c"
  by (simp_all add: kind_value_def usage_fields_def)

lemma kind_value_final:
  assumes "k \<in> set usage_kinds"
  shows "kind_value k (final_delta report base reason) =
    (if k = QuotaInputTokensTotal \<and> \<not> inputDeltaDecompositionValid (raw_delta report base reason)
     then None
     else delta_opt (counter_delta (kind_value k report) (map_option (kind_value k) base) reason))"
proof -
  have "k = QuotaInputTokensTotal \<or> k = QuotaInputUncachedTokens \<or> k = QuotaCacheReadTokens \<or>
      k = QuotaCacheWriteTokens \<or> k = QuotaOutputTokens"
    using assms by (auto simp: usage_kinds_def)
  then show ?thesis
    by (elim disjE; cases base) (auto simp: final_delta_def raw_delta_def Let_def)
qed

lemma usage_fields_kind: "(k, rd, wr) \<in> set usage_fields \<Longrightarrow> k \<in> set usage_kinds \<and> rd = kind_value k"
  by (auto simp: usage_fields_def usage_kinds_def fun_eq_iff)

lemma usage_kinds_field: "k \<in> set usage_kinds \<Longrightarrow> \<exists>wr. (k, kind_value k, wr) \<in> set usage_fields"
  by (auto simp: usage_fields_def usage_kinds_def fun_eq_iff)

lemma distinct_usage_fields: "distinct (map fst usage_fields)"
  by (simp add: usage_fields_def)

text \<open>The lists and the reasons that go with the delta.\<close>

definition delta_lists :: "UsageCountersV1 \<Rightarrow> QuotaKind list \<Rightarrow> QuotaKind list \<Rightarrow> usage_reason list \<Rightarrow>
    bool" where
  "delta_lists d re un rs \<longleftrightarrow> distinct re \<and> distinct un \<and> length rs = length un \<and>
     set re = {k \<in> set usage_kinds. kind_value k d \<noteq> None} \<and>
     set un = {k \<in> set usage_kinds. kind_value k d = None}"

lemma delta_loop_correct:
  "\<exists>re un rs. delta_loop report base reason usage_fields (no_counters, [], [], []) =
     (raw_delta report base reason, re, un, rs) \<and> delta_lists (raw_delta report base reason) re un rs"
proof -
  let ?P = "\<lambda>(k, rd, wr). delta_opt (counter_delta (rd report) (map_option rd base) reason) \<noteq> None"
  let ?N = "\<lambda>(k, rd, wr). delta_opt (counter_delta (rd report) (map_option rd base) reason) = None"
  let ?R = "\<lambda>(k, rd, wr). (k, projl (counter_delta (rd report) (map_option rd base) reason))"
  let ?re = "map fst (filter ?P usage_fields)" and ?un = "map fst (filter ?N usage_fields)"
  let ?rs = "map ?R (filter ?N usage_fields)"
  have raw: "kind_value k (raw_delta report base reason) =
      delta_opt (counter_delta (kind_value k report) (map_option (kind_value k) base) reason)"
    if "k \<in> set usage_kinds" for k
    using that by (cases base) (auto simp: usage_kinds_def raw_delta_def)
  have "delta_loop report base reason usage_fields (no_counters, [], [], []) =
      (raw_delta report base reason, ?re, ?un, ?rs)"
    by (subst delta_loop_lists) (simp only: delta_loop_counters raw_delta_def append_Nil)
  moreover have "length ?rs = length ?un" by simp
  moreover have "distinct ?re" "distinct ?un"
    using distinct_usage_fields by (rule distinct_map_filter)+
  moreover have "set ?re = {k \<in> set usage_kinds. kind_value k (raw_delta report base reason) \<noteq> None}"
    using usage_kinds_field by (auto simp: raw dest!: usage_fields_kind) (force simp: raw)+
  moreover have "set ?un = {k \<in> set usage_kinds. kind_value k (raw_delta report base reason) = None}"
    using usage_kinds_field by (auto simp: raw dest!: usage_fields_kind) (force simp: raw)+
  ultimately show ?thesis unfolding delta_lists_def by blast
qed

lemma set_sort_kinds [simp]: "set (sort_kinds ks) = set ks"
  by (simp add: sort_kinds_def)

lemma distinct_sort_kinds [simp]: "distinct (sort_kinds ks) = distinct ks"
  by (simp add: sort_kinds_def)

lemma length_sort_kinds [simp]: "length (sort_kinds ks) = length ks"
  by (simp add: sort_kinds_def)

lemma delta_lists_sorted:
  "delta_lists d re un rs \<Longrightarrow>
   delta_lists d (sort_kinds re) (sort_kinds un) (sort_key (\<lambda>r. QuotaKind_text (fst r)) rs)"
  by (simp add: delta_lists_def)

lemma delta_lists_drop_total:
  assumes "delta_lists d re un rs" and "uc_InputTokensTotal d \<noteq> None"
  shows "delta_lists (d\<lparr>uc_InputTokensTotal := None\<rparr>) (removeUsageKind re QuotaInputTokensTotal)
    (un @ [QuotaInputTokensTotal]) (rs @ [(QuotaInputTokensTotal, r)])"
proof -
  have kv: "kind_value k (d\<lparr>uc_InputTokensTotal := None\<rparr>) =
      (if k = QuotaInputTokensTotal then None else kind_value k d)" if "k \<in> set usage_kinds" for k
    using that by (auto simp: usage_kinds_def)
  have "QuotaInputTokensTotal \<in> set usage_kinds" by (simp add: usage_kinds_def)
  then show ?thesis
    using assms by (auto simp: delta_lists_def removeUsageKind_def kv split: if_splits)
qed

lemma cumulativeDelta_correct:
  "\<exists>re un rs. cumulativeDelta report base reason =
       (final_delta report base reason, sort_kinds re, sort_kinds un, rs) \<and>
     delta_lists (final_delta report base reason) (sort_kinds re) (sort_kinds un) rs"
proof -
  let ?raw = "raw_delta report base reason"
  obtain re un rs where run: "delta_loop report base reason usage_fields (no_counters, [], [], []) =
      (?raw, re, un, rs)" and lists: "delta_lists ?raw re un rs"
    using delta_loop_correct by blast
  show ?thesis
  proof (cases "inputDeltaDecompositionValid ?raw")
    case True
    then show ?thesis using run delta_lists_sorted [OF lists]
      by (auto simp: cumulativeDelta_def final_delta_def Let_def)
  next
    case False
    then have "uc_InputTokensTotal ?raw \<noteq> None" using inputDelta_no_total by blast
    from delta_lists_sorted [OF delta_lists_drop_total [OF lists this]] False this run
    show ?thesis by (simp add: cumulativeDelta_def final_delta_def Let_def) blast
  qed
qed

text \<open>The accounting kinds are ordered by their names, which are distinct.\<close>

lemma check_usage_kinds_iff:
  "check_usage_kinds first prev ks \<longleftrightarrow>
     (\<forall>k\<in>set ks. isUsageQuotaKind k) \<and>
     sorted_wrt (<) ((if first then [] else [prev]) @ map QuotaKind_text ks)"
  by (induction first prev ks rule: check_usage_kinds.induct) (auto simp: not_le)

lemma QuotaKind_text_inj:
  "isUsageQuotaKind k \<Longrightarrow> isUsageQuotaKind l \<Longrightarrow> QuotaKind_text k = QuotaKind_text l \<Longrightarrow> k = l"
  by (cases k; cases l) auto

lemma sortAndValidate_sort_kinds:
  assumes "distinct ks" and "\<And>k. k \<in> set ks \<Longrightarrow> isUsageQuotaKind k"
  shows "sortAndValidateUsageKinds (sort_kinds ks)"
proof -
  have "inj_on QuotaKind_text (set (sort_kinds ks))"
    using assms(2) by (auto intro: inj_onI QuotaKind_text_inj)
  then have "distinct (map QuotaKind_text (sort_kinds ks))"
    using assms(1) by (simp add: distinct_map)
  moreover have "sorted (map QuotaKind_text (sort_kinds ks))"
    by (simp add: sort_kinds_def)
  ultimately have "sorted_wrt (<) (map QuotaKind_text (sort_kinds ks))"
    by (simp add: strict_sorted_iff)
  then show ?thesis using assms(2) by (auto simp: sortAndValidateUsageKinds_def check_usage_kinds_iff)
qed

lemma containsQuotaKind_iff [simp]: "containsQuotaKind ks k \<longleftrightarrow> k \<in> set ks"
  by (auto simp: containsQuotaKind_def list_ex_iff)

lemma usage_kinds_are_usage: "k \<in> set usage_kinds \<Longrightarrow> isUsageQuotaKind k \<and> k \<noteq> QuotaCostMicroUSD"
  by (auto simp: usage_kinds_def)

lemma validateUsageKindLists_delta:
  assumes "delta_lists (cu_Counters u) (sort_kinds re) (sort_kinds un) rs"
    and "cu_ResolvedKinds u = sort_kinds re" and "cu_UnresolvedKinds u = sort_kinds un"
    and "cu_CostMicroUSD u = None"
    and "un \<noteq> [] \<Longrightarrow> TrimSpace (cu_UnresolvedReason u) \<noteq> ''''"
    and "un = [] \<Longrightarrow> cu_UnresolvedReason u = ''''"
  shows "validateUsageKindLists u = None"
proof -
  have lists: "distinct re" "distinct un"
      "set re = {k \<in> set usage_kinds. kind_value k (cu_Counters u) \<noteq> None}"
      "set un = {k \<in> set usage_kinds. kind_value k (cu_Counters u) = None}"
    using assms(1) by (auto simp: delta_lists_def)
  have "sortAndValidateUsageKinds (sort_kinds re)" "sortAndValidateUsageKinds (sort_kinds un)"
    using lists usage_kinds_are_usage by (auto intro: sortAndValidate_sort_kinds)
  moreover have "check_counter_kind u kv = None" if "kv \<in> set (usage_counters_map u)" for kv
  proof -
    have re: "k \<in> set re \<longleftrightarrow> k \<in> set usage_kinds \<and> kind_value k (cu_Counters u) \<noteq> None"
      and un: "k \<in> set un \<longleftrightarrow> k \<in> set usage_kinds \<and> kind_value k (cu_Counters u) = None" for k
      using lists(3,4) by auto
    have "kv = (QuotaCostMicroUSD, None) \<or>
        (\<exists>k\<in>set usage_kinds. kv = (k, kind_value k (cu_Counters u)))"
      using that assms(4) by (auto simp: usage_counters_map_def usage_kinds_def)
    then show ?thesis
    proof
      assume "kv = (QuotaCostMicroUSD, None)"
      then show ?thesis
        using usage_kinds_are_usage [of QuotaCostMicroUSD]
        by (auto simp: check_counter_kind_def Let_def assms(2,3) re un)
    next
      assume "\<exists>k\<in>set usage_kinds. kv = (k, kind_value k (cu_Counters u))"
      then show ?thesis by (auto simp: check_counter_kind_def Let_def assms(2,3) re un)
    qed
  qed
  moreover have "set re \<inter> set un = {}" using lists by auto
  moreover have "length (sort_kinds un) = 0 \<longleftrightarrow> un = []" by simp
  ultimately show ?thesis
    using assms by (auto simp: validateUsageKindLists_def)
qed



section \<open>Reports and usages are sealed documents\<close>

lemma report_shape_digest:
  "ProviderUsageReport_validateShape True (Some r) = None \<longleftrightarrow>
     ProviderUsageReport_validateShape False (Some r) = None \<and> ValidCanonicalDigest (ur_Digest r)"
  by auto

lemma usage_shape_digest:
  "CanonicalUsage_validateShape True (Some u) = None \<longleftrightarrow>
     CanonicalUsage_validateShape False (Some u) = None \<and> ValidCanonicalDigest (cu_Digest u)"
  by auto

lemma report_put [simp]:
  "ProviderUsageReport_validateShape False (Some (r\<lparr>ur_Digest := d\<rparr>)) =
     ProviderUsageReport_validateShape False (Some r)"
  "report_payload (r\<lparr>ur_Digest := d\<rparr>) = report_payload r"
  by (simp_all add: report_payload_def)

lemma validateUsageKindLists_put [simp]:
  "validateUsageKindLists (u\<lparr>cu_Digest := d\<rparr>) = validateUsageKindLists u"
proof -
  have "check_counter_kind (u\<lparr>cu_Digest := d\<rparr>) = check_counter_kind u"
    by (simp add: check_counter_kind_def fun_eq_iff)
  moreover have "usage_counters_map (u\<lparr>cu_Digest := d\<rparr>) = usage_counters_map u"
    by (simp add: usage_counters_map_def)
  ultimately show ?thesis by (simp add: validateUsageKindLists_def)
qed

lemma usage_put [simp]:
  "CanonicalUsage_validateShape False (Some (u\<lparr>cu_Digest := d\<rparr>)) =
     CanonicalUsage_validateShape False (Some u)"
  "usage_payload (u\<lparr>cu_Digest := d\<rparr>) = usage_payload u"
  by (simp_all add: usage_payload_def)

declare ProviderUsageReport_validateShape.simps(2) [simp del]
  CanonicalUsage_validateShape.simps(2) [simp del]

lemma report_verify_None:
  "ProviderUsageReport_VerifyDigest H (Some r) = None \<longleftrightarrow>
     ProviderUsageReport_validateShape False (Some r) = None \<and>
     (\<exists>w. H (report_payload r) = Some w \<and> ur_Digest r = canonical_digest w)"
proof (cases "ProviderUsageReport_validateShape True (Some r) = None")
  case True
  moreover have "ProviderUsageReport_validateShape False (Some r) = None"
    using True by (simp add: report_shape_digest)
  ultimately show ?thesis
    by (auto simp: ProviderUsageReport_VerifyDigest_def ProviderUsageReport_ComputeDigest_def
        digest_of_def split: option.splits)
next
  case False
  then have "\<not> (ProviderUsageReport_validateShape False (Some r) = None \<and>
      ValidCanonicalDigest (ur_Digest r))" by (simp add: report_shape_digest)
  with False show ?thesis by (auto simp: ProviderUsageReport_VerifyDigest_def)
qed

lemma usage_verify_None:
  "CanonicalUsage_VerifyDigest H (Some u) = None \<longleftrightarrow>
     CanonicalUsage_validateShape False (Some u) = None \<and>
     (\<exists>w. H (usage_payload u) = Some w \<and> cu_Digest u = canonical_digest w)"
proof (cases "CanonicalUsage_validateShape True (Some u) = None")
  case True
  moreover have "CanonicalUsage_validateShape False (Some u) = None"
    using True by (simp add: usage_shape_digest)
  ultimately show ?thesis
    by (auto simp: CanonicalUsage_VerifyDigest_def CanonicalUsage_ComputeDigest_def
        digest_of_def split: option.splits)
next
  case False
  then have "\<not> (CanonicalUsage_validateShape False (Some u) = None \<and>
      ValidCanonicalDigest (cu_Digest u))" by (simp add: usage_shape_digest)
  with False show ?thesis by (auto simp: CanonicalUsage_VerifyDigest_def)
qed

interpretation report: sealed_document
  "\<lambda>r. ProviderUsageReport_validateShape False (Some r) = None" report_payload ur_Digest
  "\<lambda>d r. r\<lparr>ur_Digest := d\<rparr>" ProviderUsageReport_Seal
  "\<lambda>H r. ProviderUsageReport_VerifyDigest H (Some r)"
  by unfold_locales
     (auto simp: ProviderUsageReport_Seal_def report_verify_None
        ProviderUsageReport_ComputeDigest_def digest_of_def split: option.splits)

interpretation usage: sealed_document
  "\<lambda>u. CanonicalUsage_validateShape False (Some u) = None" usage_payload cu_Digest
  "\<lambda>d u. u\<lparr>cu_Digest := d\<rparr>" CanonicalUsage_Seal
  "\<lambda>H u. CanonicalUsage_VerifyDigest H (Some u)"
  by unfold_locales
     (auto simp: CanonicalUsage_Seal_def usage_verify_None CanonicalUsage_ComputeDigest_def
        digest_of_def split: option.splits)

lemma CanonicalUsage_Validate_None:
  "CanonicalUsage_Validate H (Some u) = None \<longleftrightarrow> CanonicalUsage_VerifyDigest H (Some u) = None"
  by (auto simp: CanonicalUsage_Validate_def CanonicalUsage_VerifyDigest_def split: option.splits)

lemma CanonicalUsage_Seal_ok:
  assumes "CanonicalUsage_validateShape False (Some u) = None" and "H (usage_payload u) \<noteq> None"
  shows "\<exists>d. CanonicalUsage_Seal H u = Inr (u\<lparr>cu_Digest := d\<rparr>) \<and>
    CanonicalUsage_Validate H (Some (u\<lparr>cu_Digest := d\<rparr>)) = None"
  using assms usage.seal_Inr [of H u] usage.seal_verifies [of H u]
  by (auto simp: CanonicalUsage_Validate_None)

section \<open>The canonical usage passes its own validation\<close>

lemma joinWith_first: "set x \<subseteq> set (joinWith sep (x # xs))"
  by (cases xs) auto

lemma joinUsageReasons_nonblank: "rs \<noteq> [] \<Longrightarrow> TrimSpace (joinUsageReasons rs) \<noteq> ''''"
proof -
  assume "rs \<noteq> []"
  then obtain r rs' where rs: "rs = r # rs'" by (cases rs) auto
  have "CHR '':'' \<in> set (QuotaKind_text (fst r) @ '': '' @ snd r)" by simp
  then have "CHR '':'' \<in> set (joinUsageReasons rs)"
    using joinWith_first unfolding rs joinUsageReasons_def by fastforce
  then show ?thesis by (rule TrimSpace_nonblank) (simp add: graphic_def)
qed

lemma counter_delta_Inr:
  assumes "counter_delta rv bv reason = Inr v" and "\<And>n. rv = Some n \<Longrightarrow> n \<le> maxInt64"
  shows "\<exists>n b. rv = Some n \<and> bv = Some (Some b) \<and> 0 \<le> b \<and> b \<le> n \<and> v = n - b"
  using assms
  by (auto simp: counter_delta_def CheckedSub_Inr split: option.splits sum.splits)

lemma delta_opt_Some: "delta_opt d = Some v \<longleftrightarrow> d = Inr v"
  by (cases d) auto

lemma counter_list_kinds: "Some n \<in> set (counter_list c) \<longleftrightarrow>
    (\<exists>k\<in>set usage_kinds. kind_value k c = Some n)"
  by (auto simp: counter_list_def usage_kinds_def)

lemma counters_in64_kind:
  "counters_in64 c \<Longrightarrow> k \<in> set usage_kinds \<Longrightarrow> kind_value k c = Some n \<Longrightarrow> n \<le> maxInt64"
  by (auto simp: counters_in64_def counter_list_kinds)

text \<open>A delta is known only as the exact difference of two known observations.\<close>

lemma final_delta_Some:
  assumes "counters_in64 report" and "k \<in> set usage_kinds"
    and "kind_value k (final_delta report base reason) = Some v"
  shows "\<exists>n b c. kind_value k report = Some n \<and> base = Some c \<and> kind_value k c = Some b \<and>
    0 \<le> b \<and> b \<le> n \<and> v = n - b"
proof -
  have "counter_delta (kind_value k report) (map_option (kind_value k) base) reason = Inr v"
    using assms(2,3) by (auto simp: kind_value_final delta_opt_Some split: if_splits)
  from counter_delta_Inr [OF this counters_in64_kind [OF assms(1,2)]] show ?thesis by auto
qed

lemma final_delta_validates:
  assumes "counters_in64 report"
  shows "UsageCounters_Validate (final_delta report base reason) = None"
proof -
  have "\<forall>n. Some n \<in> set (counter_list (final_delta report base reason)) \<longrightarrow> 0 \<le> n \<and> n \<le> maxInt64"
    using final_delta_Some [OF assms] counters_in64_kind [OF assms]
    by (fastforce simp: counter_list_kinds)
  then show ?thesis
    using final_delta_valid by (subst UsageCounters_Validate_iff) (auto simp: counters_in64_def)
qed

lemma anchor_counters_None:
  "validateProviderUsageAnchorCounters c = None \<longleftrightarrow>
     (\<forall>n. Some n \<in> set (counter_list c) \<longrightarrow> 0 \<le> n)"
  by (simp add: validateProviderUsageAnchorCounters_def counters_nonneg_iff)

lemma buildNext_valid:
  "buildNextProviderUsageAnchor req ref c = Some a \<Longrightarrow> ProviderUsageAnchor_Validate (Some a) = None"
  by (auto simp: buildNextProviderUsageAnchor_def Let_def simp del: ProviderUsageAnchor_Validate.simps
      split: if_splits option.splits)

lemma nextAnchor_valid:
  "nextProviderUsageAnchor req report ref om cm zb = Some a \<Longrightarrow>
   ProviderUsageAnchor_Validate (Some a) = None"
  by (auto simp: nextProviderUsageAnchor_def simp del: ProviderUsageAnchor_Validate.simps
      intro: buildNext_valid split: if_splits option.splits)

lemma anchor_valid_counters:
  "ProviderUsageAnchor_Validate (Some a) = None \<Longrightarrow>
   validateProviderUsageAnchorCounters (an_Counters a) = None"
  by simp

declare ProviderUsageAnchor_Validate.simps(2) [simp del]

lemma provenance_update_valid:
  assumes "UsageProvenance_Validate p = None"
    and "\<And>c. before = Some c \<Longrightarrow> validateProviderUsageAnchorCounters c = None"
    and "\<And>c. after = Some c \<Longrightarrow> validateProviderUsageAnchorCounters c = None"
    and "0 \<le> g" and "0 \<le> s"
  shows "UsageProvenance_Validate (p\<lparr>pv_AnchorBefore := before, pv_AnchorAfter := after,
    pv_AnchorGeneration := g, pv_AnchorSequence := s, pv_AnchorObservedAt := t\<rparr>) = None"
  using assms by (auto simp: UsageProvenance_Validate_def)

text \<open>A canonical usage built from a delta and its lists passes the shape check.\<close>

lemma canonical_shape_ok:
  assumes "isTypedID PrefixRun run" and "UsageCounters_Validate d = None"
    and "delta_lists d (sort_kinds re) (sort_kinds un) rs"
    and "un \<noteq> [] \<Longrightarrow> TrimSpace why \<noteq> ''''" and "un = [] \<Longrightarrow> why = ''''"
    and "UsageProvenance_Validate p = None"
  shows "CanonicalUsage_validateShape False (Some
    \<lparr>cu_SchemaVersion = CanonicalUsageSchemaVersionV1, cu_RunID = run, cu_Basis = UsageBasisPerRun,
     cu_Counters = d, cu_CostMicroUSD = None, cu_PriceDigest = '''',
     cu_ResolvedKinds = sort_kinds re, cu_UnresolvedKinds = sort_kinds un,
     cu_UnresolvedReason = why, cu_Provenance = p, cu_Digest = g\<rparr>) = None"
proof -
  let ?u = "\<lparr>cu_SchemaVersion = CanonicalUsageSchemaVersionV1, cu_RunID = run,
     cu_Basis = UsageBasisPerRun, cu_Counters = d, cu_CostMicroUSD = None, cu_PriceDigest = '''',
     cu_ResolvedKinds = sort_kinds re, cu_UnresolvedKinds = sort_kinds un,
     cu_UnresolvedReason = why, cu_Provenance = p, cu_Digest = g\<rparr>"
  have "validateUsageKindLists ?u = None"
    using assms(3-5) by (intro validateUsageKindLists_delta) simp_all
  then show ?thesis
    using assms by (simp add: CanonicalUsage_validateShape.simps(2) cost_negative_def)
qed

lemma report_shape_facts:
  assumes "ProviderUsageReport_validateShape False (Some r) = None"
  shows "isTypedID PrefixRun (ur_RunID r)" and "UsageCounters_Validate (ur_Counters r) = None"
    and "UsageProvenance_Validate (ur_Provenance r) = None"
    and "ur_Basis r = UsageBasisPerRun \<or> ur_Basis r = UsageBasisSessionCumulative"
  using assms by (auto simp: ProviderUsageReport_validateShape.simps(2))

text \<open>Which counters are the baseline, and that they are not negative.\<close>

lemma zero_option: "Some n = map_option (\<lambda>_. 0 :: int) v \<Longrightarrow> n = 0"
  by (cases v) auto

lemma baseline_nonneg:
  assumes "cumulative_baseline req report ref = (Some b, why)"
    and "\<And>a. rq_Anchor req = Some a \<Longrightarrow> ProviderUsageAnchor_Validate (Some a) = None"
  shows "validateProviderUsageAnchorCounters b = None"
proof -
  have "b = zeroKnownCounters (ur_Counters report) \<or> (\<exists>a. rq_Anchor req = Some a \<and> b = an_Counters a)"
    using assms(1) by (auto simp: cumulative_baseline_def Let_def split: if_splits option.splits)
  then show ?thesis
  proof
    assume "b = zeroKnownCounters (ur_Counters report)"
    then show ?thesis
      by (auto simp: anchor_counters_None counter_list_def zeroKnownCounters_def
          dest!: zero_option)
  next
    assume "\<exists>a. rq_Anchor req = Some a \<and> b = an_Counters a"
    then obtain a where "rq_Anchor req = Some a" "b = an_Counters a" by blast
    then show ?thesis using anchor_valid_counters [OF assms(2)] by simp
  qed
qed

lemma canonicalize_cumulative_ok:
  assumes "ProviderUsageReport_validateShape False (Some report) = None"
    and "counters_in64 (ur_Counters report)" and "isTypedID PrefixRun (rq_RunID req)"
    and "\<And>a. rq_Anchor req = Some a \<Longrightarrow> ProviderUsageAnchor_Validate (Some a) = None"
    and "0 \<le> rq_ContextGeneration req" and "1 \<le> rq_SegmentSeq req" and "\<And>p. HU p \<noteq> None"
  shows "\<exists>res. canonicalize_cumulative HU req report = Inr res \<and>
    CanonicalUsage_Validate HU (Some (rs_Canonical res)) = None \<and>
    cu_RunID (rs_Canonical res) = rq_RunID req"
proof -
  let ?ref = "TrimSpace (pv_SessionRef (ur_Provenance report))"
  let ?om = "owner_match req"
  let ?next = "nextProviderUsageAnchor req report ?ref ?om
      (?om \<and> compatibleProviderUsageAnchor req report)
      (?om \<and> rq_FreshProviderSession req \<and> ?ref \<noteq> '''')"
  obtain base why where base: "cumulative_baseline req report ?ref = (base, why)" by fastforce
  obtain re un rs where delta: "cumulativeDelta (ur_Counters report) base why =
      (final_delta (ur_Counters report) base why, sort_kinds re, sort_kinds un, rs)"
    and lists: "delta_lists (final_delta (ur_Counters report) base why) (sort_kinds re)
      (sort_kinds un) rs"
    using cumulativeDelta_correct by blast
  define p where "p = (ur_Provenance report)
      \<lparr>pv_AnchorBefore := (case base of None \<Rightarrow> pv_AnchorBefore (ur_Provenance report) | Some b \<Rightarrow> Some b),
       pv_AnchorAfter := (case ?next of None \<Rightarrow> pv_AnchorAfter (ur_Provenance report)
                          | Some a \<Rightarrow> Some (an_Counters a)),
       pv_AnchorGeneration := rq_ContextGeneration req, pv_AnchorSequence := rq_SegmentSeq req,
       pv_AnchorObservedAt := rq_ObservedAt req\<rparr>"
  have prov: "UsageProvenance_Validate (ur_Provenance report) = None"
    using report_shape_facts [OF assms(1)] by simp
  then have orig: "\<And>c. pv_AnchorBefore (ur_Provenance report) = Some c \<Longrightarrow>
        validateProviderUsageAnchorCounters c = None"
      "\<And>c. pv_AnchorAfter (ur_Provenance report) = Some c \<Longrightarrow>
        validateProviderUsageAnchorCounters c = None"
    by (auto simp: UsageProvenance_Validate_def)
  have "UsageProvenance_Validate p = None"
    unfolding p_def using prov orig assms(4-6) base baseline_nonneg nextAnchor_valid
      anchor_valid_counters
    by (intro provenance_update_valid) (auto split: option.splits)
  moreover have "length rs = length un" using lists by (simp add: delta_lists_def)
  then have "un \<noteq> [] \<Longrightarrow> TrimSpace (joinUsageReasons rs) \<noteq> ''''"
      and "un = [] \<Longrightarrow> joinUsageReasons rs = ''''"
    using joinUsageReasons_nonblank [of rs] by (cases rs; auto simp: joinUsageReasons_def)+
  ultimately have shape: "CanonicalUsage_validateShape False (Some
      \<lparr>cu_SchemaVersion = CanonicalUsageSchemaVersionV1, cu_RunID = rq_RunID req,
       cu_Basis = UsageBasisPerRun, cu_Counters = final_delta (ur_Counters report) base why,
       cu_CostMicroUSD = None, cu_PriceDigest = '''', cu_ResolvedKinds = sort_kinds re,
       cu_UnresolvedKinds = sort_kinds un, cu_UnresolvedReason = joinUsageReasons rs,
       cu_Provenance = p, cu_Digest = ''''\<rparr>) = None"
    using assms(2,3) lists by (intro canonical_shape_ok final_delta_validates) simp_all
  have p: "p = (case ?next of
        None \<Rightarrow> (case base of None \<Rightarrow> ur_Provenance report
          | Some b \<Rightarrow> (ur_Provenance report)\<lparr>pv_AnchorBefore := Some (UsageCounters_Clone b)\<rparr>)
      | Some a \<Rightarrow> (case base of None \<Rightarrow> ur_Provenance report
          | Some b \<Rightarrow> (ur_Provenance report)\<lparr>pv_AnchorBefore := Some (UsageCounters_Clone b)\<rparr>)
          \<lparr>pv_AnchorAfter := Some (UsageCounters_Clone (an_Counters a))\<rparr>)
      \<lparr>pv_AnchorGeneration := rq_ContextGeneration req, pv_AnchorSequence := rq_SegmentSeq req,
       pv_AnchorObservedAt := rq_ObservedAt req\<rparr>"
    unfolding p_def by (cases "ur_Provenance report") (simp split: option.split)
  from CanonicalUsage_Seal_ok [where H = HU, OF shape] assms(7) show ?thesis
    unfolding p by (auto simp: canonicalize_cumulative_def Let_def base delta)
qed



lemma report_known_lists:
  "delta_lists c (sort_kinds (map fst (filter (\<lambda>e. fst (snd e) \<noteq> None) (usage_entries c))))
     (sort_kinds (map fst (filter (\<lambda>e. fst (snd e) = None) (usage_entries c))))
     (map (\<lambda>e. (fst e, '''')) (filter (\<lambda>e. fst (snd e) = None) (usage_entries c)))"
proof -
  have "distinct (map fst (usage_entries c))" by (simp add: usage_entries_def)
  moreover have "(k, v, s) \<in> set (usage_entries c) \<Longrightarrow> k \<in> set usage_kinds \<and> v = kind_value k c" for k v s
    by (auto simp: usage_entries_def usage_kinds_def)
  moreover have "k \<in> set usage_kinds \<Longrightarrow> \<exists>s. (k, kind_value k c, s) \<in> set (usage_entries c)" for k
    by (auto simp: usage_entries_def usage_kinds_def)
  ultimately show ?thesis
    by (auto simp: delta_lists_def distinct_map_filter image_iff) (metis fst_conv snd_conv)+
qed

lemma CanonicalizeProviderUsageReport_ok:
  assumes "ProviderUsageReport_VerifyDigest HR (Some r) = None" and "ur_Basis r = UsageBasisPerRun"
    and "\<And>p. HU p \<noteq> None"
  shows "\<exists>u. CanonicalizeProviderUsageReport HR HU (Some r) = Inr u \<and>
    CanonicalUsage_Validate HU (Some u) = None \<and> cu_RunID u = ur_RunID r \<and>
    cu_Counters u = ur_Counters r"
proof -
  have shape: "ProviderUsageReport_validateShape False (Some r) = None"
    using assms(1) by (simp add: report_verify_None)
  then have valid: "ProviderUsageReport_Validate HR (Some r) = None"
    using assms(1) by (simp add: ProviderUsageReport_Validate_def)
  note facts = report_shape_facts [OF shape]
  let ?c = "ur_Counters r"
  let ?missing = "map (snd \<circ> snd) (filter (\<lambda>e. fst (snd e) = None) (usage_entries ?c))"
  let ?why = "if length ?missing > 0
    then ''provider usage did not expose: '' @ joinWith '', '' ?missing else ''''"
  have "TrimSpace (''provider usage did not expose: '' @ s) \<noteq> ''''" for s
    by (rule TrimSpace_nonblank [of "CHR ''p''"]) (simp_all add: graphic_def)
  then have "CanonicalUsage_validateShape False (Some
      \<lparr>cu_SchemaVersion = CanonicalUsageSchemaVersionV1, cu_RunID = ur_RunID r,
       cu_Basis = UsageBasisPerRun, cu_Counters = ?c, cu_CostMicroUSD = None, cu_PriceDigest = '''',
       cu_ResolvedKinds = sort_kinds (map fst (filter (\<lambda>e. fst (snd e) \<noteq> None) (usage_entries ?c))),
       cu_UnresolvedKinds = sort_kinds (map fst (filter (\<lambda>e. fst (snd e) = None) (usage_entries ?c))),
       cu_UnresolvedReason = ?why, cu_Provenance = ur_Provenance r, cu_Digest = ''''\<rparr>) = None"
    using facts by (intro canonical_shape_ok [OF _ _ report_known_lists]) auto
  from CanonicalUsage_Seal_ok [where H = HU, OF this] assms(3) valid assms(2) show ?thesis
    by (auto simp: CanonicalizeProviderUsageReport_def Let_def)
qed

section \<open>Watermarks\<close>

lemma merge_counter_max:
  "merge_counter v w = (case w of None \<Rightarrow> v | Some n \<Rightarrow>
     (case v of None \<Rightarrow> w | Some m \<Rightarrow> Some (max m n)))"
  by (auto simp: merge_counter_def split: option.split)

lemma kind_value_merge:
  "k \<in> set usage_kinds \<Longrightarrow> kind_value k (mergeProviderUsageAnchorCounters a r) =
     merge_counter (kind_value k a) (kind_value k r)"
  by (auto simp: usage_kinds_def mergeProviderUsageAnchorCounters_def)

text \<open>Growth of one watermark equals what is charged for it, by one report.\<close>

lemma charge_is_growth:
  assumes "k \<in> set usage_kinds" and "k \<noteq> QuotaInputTokensTotal" and "counters_in64 report"
    and "kind_value k wm = Some m" and "0 \<le> m"
  shows "\<exists>m'. kind_value k (mergeProviderUsageAnchorCounters wm report) = Some m' \<and> m \<le> m' \<and>
    (case kind_value k (final_delta report (Some wm) why) of None \<Rightarrow> 0 | Some d \<Rightarrow> d) = m' - m"
proof (cases "kind_value k report")
  case None
  then show ?thesis using assms
    by (auto simp: kind_value_merge kind_value_final merge_counter_max counter_delta_def)
next
  case (Some n)
  have n: "n \<le> maxInt64" using counters_in64_kind [OF assms(3,1) Some] .
  show ?thesis
  proof (cases "m \<le> n")
    case True
    then have "CheckedSubNonNegative n m = Inr (n - m)" using n assms(5) by (simp add: CheckedSub_Inr)
    then show ?thesis using assms Some True
      by (auto simp: kind_value_merge kind_value_final merge_counter_max counter_delta_def)
  next
    case False
    then have "\<exists>e. CheckedSubNonNegative n m = Inl e" by (simp add: CheckedSubNonNegative_def)
    then show ?thesis using assms Some False
      by (auto simp: kind_value_merge kind_value_final merge_counter_max counter_delta_def)
  qed
qed

text \<open>
  One report settled against the stored anchor: what it charges, and the anchor after it
  (the old one when no next anchor is returned, or when the report is refused).
\<close>

definition settle_report :: "providerUsageReportDigestPayload hasher \<Rightarrow>
    canonicalUsageDigestPayload hasher \<Rightarrow> ProviderUsageAnchorV1 \<Rightarrow> CanonicalUsageRequestV1 \<Rightarrow>
    UsageCountersV1 \<times> ProviderUsageAnchorV1" where
  "settle_report HR HU a req =
     (case CanonicalizeProviderUsageV1 HR HU (req\<lparr>rq_Anchor := Some a\<rparr>) of
        Inl _ \<Rightarrow> (no_counters, a)
      | Inr res \<Rightarrow> (cu_Counters (rs_Canonical res),
                   case rs_NextAnchor res of None \<Rightarrow> a | Some b \<Rightarrow> b))"

fun settle_reports :: "providerUsageReportDigestPayload hasher \<Rightarrow>
    canonicalUsageDigestPayload hasher \<Rightarrow> ProviderUsageAnchorV1 \<Rightarrow> CanonicalUsageRequestV1 list \<Rightarrow>
    UsageCountersV1 list \<times> ProviderUsageAnchorV1" where
  "settle_reports HR HU a [] = ([], a)"
| "settle_reports HR HU a (req # reqs) =
     (let (c, b) = settle_report HR HU a req; (cs, d) = settle_reports HR HU b reqs
      in (c # cs, d))"

definition charged :: "QuotaKind \<Rightarrow> UsageCountersV1 \<Rightarrow> int" where
  "charged k c = (case kind_value k c of None \<Rightarrow> 0 | Some d \<Rightarrow> d)"

text \<open>A request of a running session: cumulative, with counters in range, not fresh.\<close>

definition session_request :: "CanonicalUsageRequestV1 \<Rightarrow> bool" where
  "session_request req \<longleftrightarrow> \<not> rq_FreshProviderSession req \<and>
     (\<forall>r. rq_Report req = Some r \<longrightarrow> ur_Basis r \<noteq> UsageBasisPerRun \<and> counters_in64 (ur_Counters r))"

definition ready_anchor :: "ProviderUsageAnchorV1 \<Rightarrow> bool" where
  "ready_anchor a \<longleftrightarrow> ProviderUsageAnchor_Validate (Some a) = None \<and>
     TrimSpace (an_SessionRef a) = an_SessionRef a"

lemma kind_value_no_counters [simp]: "k \<in> set usage_kinds \<Longrightarrow> kind_value k no_counters = None"
  by (auto simp: usage_kinds_def no_counters_def)

text \<open>What a successful cumulative canonicalization did.\<close>

lemma canonicalize_cumulative_Inr:
  assumes "canonicalize_cumulative HU req report = Inr res"
    and "cumulative_baseline req report (TrimSpace (pv_SessionRef (ur_Provenance report))) = (base, why)"
  shows "cu_Counters (rs_Canonical res) = final_delta (ur_Counters report) base why"
    and "rs_NextAnchor res = nextProviderUsageAnchor req report
      (TrimSpace (pv_SessionRef (ur_Provenance report))) (owner_match req)
      (owner_match req \<and> compatibleProviderUsageAnchor req report)
      (owner_match req \<and> rq_FreshProviderSession req \<and>
       TrimSpace (pv_SessionRef (ur_Provenance report)) \<noteq> '''')"
proof -
  obtain re un rs where delta: "cumulativeDelta (ur_Counters report) base why =
      (final_delta (ur_Counters report) base why, sort_kinds re, sort_kinds un, rs)"
    using cumulativeDelta_correct by blast
  from assms(1) show "cu_Counters (rs_Canonical res) = final_delta (ur_Counters report) base why"
    by (auto simp: canonicalize_cumulative_def Let_def assms(2) delta
        dest!: usage.seal_keeps_content split: sum.splits) (simp add: usage_payload_def)
  from assms(1) show "rs_NextAnchor res = nextProviderUsageAnchor req report
      (TrimSpace (pv_SessionRef (ur_Provenance report))) (owner_match req)
      (owner_match req \<and> compatibleProviderUsageAnchor req report)
      (owner_match req \<and> rq_FreshProviderSession req \<and>
       TrimSpace (pv_SessionRef (ur_Provenance report)) \<noteq> '''')"
    by (auto simp: canonicalize_cumulative_def Let_def assms(2) delta split: sum.splits)
qed



lemma CanonicalizeV1_cumulative:
  assumes "CanonicalizeProviderUsageV1 HR HU req = Inr res"
    and "\<And>r. rq_Report req = Some r \<Longrightarrow> ur_Basis r \<noteq> UsageBasisPerRun"
  obtains report where "rq_Report req = Some report" and "validateCanonicalUsageRequest req = None"
    and "ProviderUsageReport_validateShape False (Some report) = None"
    and "validateReportIdentity req report = None" and "rq_ObservedAt req \<noteq> 0"
    and "canonicalize_cumulative HU req report = Inr res"
proof -
  obtain report where r: "rq_Report req = Some report" "validateCanonicalUsageRequest req = None"
    using assms(1) by (auto simp: CanonicalizeProviderUsageV1_def split: option.splits)
  let ?c1 = "first_error [wrapV ''provider usage report digest''
      (ProviderUsageReport_VerifyDigest HR (Some report)), validateReportIdentity req report]"
  let ?c2 = "first_error [require (\<not> IsZero (rq_ObservedAt req))
      (ErrValidation ''cumulative usage requires observed_at''),
      (case rq_Anchor req of None \<Rightarrow> None | Some a \<Rightarrow> wrapV ''provider usage anchor''
         (ProviderUsageAnchor_Validate (Some a)))]"
  have c1: "?c1 = None"
    using assms(1) r by (cases ?c1) (simp_all add: CanonicalizeProviderUsageV1_def del: first_error.simps)
  have c2: "?c2 = None" and run: "canonicalize_cumulative HU req report = Inr res"
    using assms(1) assms(2) [OF r(1)] r c1
    by (cases ?c2; simp add: CanonicalizeProviderUsageV1_def del: first_error.simps)+
  from c1 c2 run r show ?thesis
    by (intro that) (auto simp: report_verify_None IsZero_def)
qed

lemma AnyKnown_kind:
  "UsageCounters_AnyKnown c \<longleftrightarrow> (\<exists>k\<in>set usage_kinds. kind_value k c \<noteq> None)"
  by (auto simp: UsageCounters_AnyKnown_def usage_kinds_def)

lemma merge_nonneg:
  assumes "validateProviderUsageAnchorCounters a = None" and "UsageCounters_Validate r = None"
  shows "validateProviderUsageAnchorCounters (mergeProviderUsageAnchorCounters a r) = None"
proof -
  have r: "\<And>n k. k \<in> set usage_kinds \<Longrightarrow> kind_value k r = Some n \<Longrightarrow> 0 \<le> n"
    using assms(2) by (auto simp: UsageCounters_Validate_def counters_nonneg_iff counter_list_kinds)
  have a: "\<And>n k. k \<in> set usage_kinds \<Longrightarrow> kind_value k a = Some n \<Longrightarrow> 0 \<le> n"
    using assms(1) by (auto simp: anchor_counters_None counter_list_kinds)
  show ?thesis
    using r a by (fastforce simp: anchor_counters_None counter_list_kinds kind_value_merge
        merge_counter_max split: option.splits)
qed

lemma build_compatible:
  assumes "ready_anchor a" and "compatibleProviderUsageAnchor (req\<lparr>rq_Anchor := Some a\<rparr>) report"
    and "validateCanonicalUsageRequest (req\<lparr>rq_Anchor := Some a\<rparr>) = None"
    and "ProviderUsageReport_validateShape False (Some report) = None"
    and "validateReportIdentity (req\<lparr>rq_Anchor := Some a\<rparr>) report = None"
    and "rq_ObservedAt req \<noteq> 0"
    and "c = mergeProviderUsageAnchorCounters (an_Counters a) (ur_Counters report)"
    and "UsageCounters_AnyKnown c"
  shows "\<exists>b. buildNextProviderUsageAnchor (req\<lparr>rq_Anchor := Some a\<rparr>)
      (TrimSpace (pv_SessionRef (ur_Provenance report))) c = Some b \<and> an_Counters b = c \<and> ready_anchor b"
proof -
  have a: "isText 1024 (an_SessionRef a)" "an_SessionRef a \<noteq> ''''"
      "TrimSpace (an_SessionRef a) = an_SessionRef a"
      "validateProviderUsageAnchorCounters (an_Counters a) = None"
    using assms(1,2) by (auto simp: ready_anchor_def ProviderUsageAnchor_Validate.simps(2)
        compatibleProviderUsageAnchor_def)
  have ref: "TrimSpace (pv_SessionRef (ur_Provenance report)) = an_SessionRef a"
    using assms(2) a(3) by (simp add: compatibleProviderUsageAnchor_def)
  note shape = report_shape_facts [OF assms(4)]
  let ?b = "\<lparr>an_SchemaVersion = ProviderUsageAnchorSchemaVersionV1,
      an_State = ProviderUsageAnchorReady, an_AdapterID = rq_AdapterID req,
      an_SessionRef = an_SessionRef a, an_ContextGeneration = rq_ContextGeneration req,
      an_SegmentSeq = rq_SegmentSeq req, an_Counters = c, an_SourceRunID = rq_RunID req,
      an_ObservedAt = rq_ObservedAt req, an_InvalidationReason = ''''\<rparr>"
  have "isText 512 (rq_AdapterID req)" "isTypedID PrefixRun (rq_RunID req)"
    using shape assms(5) by (auto simp: validateReportIdentity_def UsageProvenance_Validate_def)
  moreover have "validateProviderUsageAnchorCounters c = None"
    using merge_nonneg [OF a(4) shape(2)] assms(7) by simp
  ultimately have valid: "ProviderUsageAnchor_Validate (Some ?b) = None"
    using assms(3,6,8) a
    by (auto simp: ProviderUsageAnchor_Validate.simps(2) validateCanonicalUsageRequest_def IsZero_def)
  then have "buildNextProviderUsageAnchor (req\<lparr>rq_Anchor := Some a\<rparr>)
      (TrimSpace (pv_SessionRef (ur_Provenance report))) c = Some ?b"
    using assms(8) a(2) by (simp add: buildNextProviderUsageAnchor_def ref Let_def)
  with valid a(3) show ?thesis by (simp add: ready_anchor_def)
qed

lemma settle_report_growth:
  assumes "ready_anchor a" and "session_request req" and "k \<in> set usage_kinds"
    and "k \<noteq> QuotaInputTokensTotal" and "kind_value k (an_Counters a) = Some m"
    and "settle_report HR HU a req = (c, b)"
  shows "ready_anchor b \<and> (\<exists>m'. kind_value k (an_Counters b) = Some m' \<and> m \<le> m' \<and> charged k c = m' - m)"
proof (cases "CanonicalizeProviderUsageV1 HR HU (req\<lparr>rq_Anchor := Some a\<rparr>)")
  case (Inl e)
  then show ?thesis using assms by (simp add: settle_report_def charged_def)
next
  case (Inr res)
  let ?req = "req\<lparr>rq_Anchor := Some a\<rparr>"
  obtain report where r: "rq_Report ?req = Some report" "validateCanonicalUsageRequest ?req = None"
      "ProviderUsageReport_validateShape False (Some report) = None"
      "validateReportIdentity ?req report = None" "rq_ObservedAt ?req \<noteq> 0"
      "canonicalize_cumulative HU ?req report = Inr res"
    using assms(2) by (auto intro: CanonicalizeV1_cumulative [OF Inr] simp: session_request_def)
  have in64: "counters_in64 (ur_Counters report)" and fresh: "\<not> rq_FreshProviderSession req"
    using assms(2) r(1) by (auto simp: session_request_def)
  have cb: "c = cu_Counters (rs_Canonical res)"
      "b = (case rs_NextAnchor res of None \<Rightarrow> a | Some b \<Rightarrow> b)"
    using assms(6) Inr by (auto simp: settle_report_def)
  let ?ref = "TrimSpace (pv_SessionRef (ur_Provenance report))"
  show ?thesis
  proof (cases "owner_match ?req \<and> compatibleProviderUsageAnchor ?req report")
    case False
    then obtain why where base: "cumulative_baseline ?req report ?ref = (None, why)"
      using fresh by (auto simp: cumulative_baseline_def Let_def owner_match_def)
    note fin = canonicalize_cumulative_Inr [OF r(6) base]
    have "charged k c = 0"
      using assms(3) by (auto simp: cb fin charged_def kind_value_final counter_delta_def
          split: option.splits)
    moreover have "rs_NextAnchor res = None"
      using False fresh by (auto simp: fin nextProviderUsageAnchor_def)
    ultimately show ?thesis using assms(1,5) by (simp add: cb)
  next
    case True
    then have base: "cumulative_baseline ?req report ?ref = (Some (an_Counters a), '''')"
      using fresh by (auto simp: cumulative_baseline_def Let_def)
    note fin = canonicalize_cumulative_Inr [OF r(6) base]
    have "0 \<le> m" using assms(1,3,5) anchor_valid_counters [of a]
      by (auto simp: ready_anchor_def anchor_counters_None counter_list_kinds)
    from charge_is_growth [OF assms(3,4) in64 assms(5) this] obtain m' where
      m': "kind_value k (mergeProviderUsageAnchorCounters (an_Counters a) (ur_Counters report)) = Some m'"
        "m \<le> m'" "charged k c = m' - m"
      by (auto simp: cb fin charged_def)
    have "UsageCounters_AnyKnown (mergeProviderUsageAnchorCounters (an_Counters a) (ur_Counters report))"
      using m'(1) assms(3) by (auto simp: AnyKnown_kind)
    from build_compatible [OF assms(1) _ r(2-4) _ refl this] True r(5) obtain b' where
      b': "buildNextProviderUsageAnchor ?req ?ref
          (mergeProviderUsageAnchorCounters (an_Counters a) (ur_Counters report)) = Some b'"
        "an_Counters b' = mergeProviderUsageAnchorCounters (an_Counters a) (ur_Counters report)"
        "ready_anchor b'" by auto
    have "rs_NextAnchor res = Some b'"
      using True fresh b'(1) by (auto simp: fin nextProviderUsageAnchor_def)
    with b' m' show ?thesis by (simp add: cb)
  qed
qed



lemma settle_reports_growth:
  assumes "ready_anchor a" and "\<forall>req\<in>set reqs. session_request req" and "k \<in> set usage_kinds"
    and "k \<noteq> QuotaInputTokensTotal" and "kind_value k (an_Counters a) = Some m"
    and "settle_reports HR HU a reqs = (cs, b)"
  shows "\<exists>m'. kind_value k (an_Counters b) = Some m' \<and> m \<le> m' \<and> sum_list (map (charged k) cs) = m' - m"
  using assms
proof (induction reqs arbitrary: a m cs)
  case Nil
  then show ?case by simp
next
  case (Cons req reqs)
  obtain c d where one: "settle_report HR HU a req = (c, d)" by fastforce
  obtain es where es: "settle_reports HR HU d reqs = (es, b)" "cs = c # es"
    using Cons.prems(6) one by (auto simp: Let_def split: prod.splits)
  have "session_request req" using Cons.prems(2) by simp
  from settle_report_growth [OF Cons.prems(1) this Cons.prems(3-5) one] obtain m1 where
    d: "ready_anchor d" "kind_value k (an_Counters d) = Some m1" "m \<le> m1" "charged k c = m1 - m"
    by blast
  from Cons.IH [OF d(1) _ Cons.prems(3,4) d(2) es(1)] Cons.prems(2) d es(2) show ?case by auto
qed

text \<open>
  The first report of a fresh provider session that is accepted: the baseline is zero, whatever the
  stored anchor was, and the counters of the report become the watermark.
\<close>

definition opening_request :: "QuotaKind \<Rightarrow> CanonicalUsageRequestV1 \<Rightarrow> bool" where
  "opening_request k req \<longleftrightarrow> rq_FreshProviderSession req \<and> owner_match req \<and>
     (case rq_Report req of
        None \<Rightarrow> False
      | Some r \<Rightarrow> ur_Basis r \<noteq> UsageBasisPerRun \<and> counters_in64 (ur_Counters r) \<and> kind_value k (ur_Counters r) \<noteq> None \<and>
          pv_SessionRef (ur_Provenance r) \<noteq> '''' \<and> TrimSpace (pv_SessionRef (ur_Provenance r)) = pv_SessionRef (ur_Provenance r))"

lemma kind_value_zero: "k \<in> set usage_kinds \<Longrightarrow> kind_value k (zeroKnownCounters c) = map_option (\<lambda>_. 0) (kind_value k c)"
  by (auto simp: usage_kinds_def zeroKnownCounters_def)

lemma build_fresh:
  assumes "validateCanonicalUsageRequest req = None" and shape: "ProviderUsageReport_validateShape False (Some report) = None"
    and "validateReportIdentity req report = None" and "rq_ObservedAt req \<noteq> 0"
    and ref: "ref = pv_SessionRef (ur_Provenance report)" "ref \<noteq> ''''" "TrimSpace ref = ref"
    and known: "UsageCounters_AnyKnown (ur_Counters report)"
  shows "\<exists>b. buildNextProviderUsageAnchor req ref (ur_Counters report) = Some b \<and> an_Counters b = ur_Counters report \<and> ready_anchor b"
proof -
  note sh = report_shape_facts [OF shape]
  let ?b = "\<lparr>an_SchemaVersion = ProviderUsageAnchorSchemaVersionV1,
      an_State = ProviderUsageAnchorReady, an_AdapterID = rq_AdapterID req,
      an_SessionRef = ref, an_ContextGeneration = rq_ContextGeneration req,
      an_SegmentSeq = rq_SegmentSeq req, an_Counters = ur_Counters report, an_SourceRunID = rq_RunID req,
      an_ObservedAt = rq_ObservedAt req, an_InvalidationReason = ''''\<rparr>"
  have "isText 1024 ref" using sh(3) ref by (auto simp: UsageProvenance_Validate_def)
  moreover have "isText 512 (rq_AdapterID req)" "isTypedID PrefixRun (rq_RunID req)"
    using sh assms(3) by (auto simp: validateReportIdentity_def UsageProvenance_Validate_def)
  moreover have "validateProviderUsageAnchorCounters (ur_Counters report) = None"
    using sh(2) by (simp add: UsageCounters_Validate_def anchor_counters_None counters_nonneg_iff)
  ultimately have valid: "ProviderUsageAnchor_Validate (Some ?b) = None"
    using assms(1,4) ref known
    by (auto simp: ProviderUsageAnchor_Validate.simps(2) validateCanonicalUsageRequest_def IsZero_def)
  then have "buildNextProviderUsageAnchor req ref (ur_Counters report) = Some ?b"
    using known ref by (simp add: buildNextProviderUsageAnchor_def Let_def)
  with valid ref(3) show ?thesis by (simp add: ready_anchor_def)
qed

lemma opening_report_charges:
  assumes k: "k \<in> set usage_kinds" "k \<noteq> QuotaInputTokensTotal" and fresh: "opening_request k req"
    and ok: "CanonicalizeProviderUsageV1 HR HU (req\<lparr>rq_Anchor := Some a\<rparr>) = Inr res"
    and one: "settle_report HR HU a req = (c, b)"
  shows "ready_anchor b \<and> (\<exists>m'. kind_value k (an_Counters b) = Some m' \<and> 0 \<le> m' \<and> charged k c = m')"
proof -
  let ?req = "req\<lparr>rq_Anchor := Some a\<rparr>"
  obtain report where r: "rq_Report ?req = Some report" "validateCanonicalUsageRequest ?req = None"
      "ProviderUsageReport_validateShape False (Some report) = None"
      "validateReportIdentity ?req report = None" "rq_ObservedAt ?req \<noteq> 0"
      "canonicalize_cumulative HU ?req report = Inr res"
    using fresh by (auto intro: CanonicalizeV1_cumulative [OF ok] simp: opening_request_def)
  let ?ref = "pv_SessionRef (ur_Provenance report)"
  obtain n where f: "counters_in64 (ur_Counters report)" "kind_value k (ur_Counters report) = Some n" "?ref \<noteq> ''''" "TrimSpace ?ref = ?ref"
    using fresh r(1) by (auto simp: opening_request_def)
  have owner: "owner_match ?req" "rq_FreshProviderSession ?req" using fresh by (simp_all add: opening_request_def owner_match_def)
  have base: "cumulative_baseline ?req report ?ref = (Some (zeroKnownCounters (ur_Counters report)), '''')"
    using owner f(3) by (simp add: cumulative_baseline_def Let_def)
  note fin = canonicalize_cumulative_Inr [OF r(6), unfolded f(4), OF base]
  have n: "n \<le> maxInt64" "0 \<le> n"
    using counters_in64_kind [OF f(1) k(1) f(2)] report_shape_facts(2) [OF r(3)] k(1) f(2)
    by (auto simp: UsageCounters_Validate_def counters_nonneg_iff counter_list_kinds)
  then have "CheckedSubNonNegative n 0 = Inr n" by (simp add: CheckedSub_Inr)
  then have charge: "charged k (cu_Counters (rs_Canonical res)) = n"
    using k f(2) by (simp add: fin(1) charged_def kind_value_final kind_value_zero counter_delta_def)
  have "UsageCounters_AnyKnown (ur_Counters report)" using f(2) k(1) by (auto simp: AnyKnown_kind)
  from build_fresh [OF r(2-5) refl f(3,4) this] obtain b' where
    b': "buildNextProviderUsageAnchor ?req ?ref (ur_Counters report) = Some b'" "an_Counters b' = ur_Counters report" "ready_anchor b'"
    by blast
  have "rs_NextAnchor res = Some b'"
    using owner f(3) b'(1) by (simp add: fin(2) nextProviderUsageAnchor_def)
  then have "c = cu_Counters (rs_Canonical res)" "b = b'" using one ok by (simp_all add: settle_report_def)
  then show ?thesis using b' charge f(2) n(2) by simp
qed

text \<open>A report that checks out is canonicalized.\<close>

lemma canonicalize_ok:
  assumes "validateCanonicalUsageRequest req = None" and "rq_Report req = Some report"
    and "ProviderUsageReport_VerifyDigest HR (Some report) = None"
    and "validateReportIdentity req report = None" and "rq_ObservedAt req \<noteq> 0"
    and "\<And>a. rq_Anchor req = Some a \<Longrightarrow> ProviderUsageAnchor_Validate (Some a) = None"
    and "counters_in64 (ur_Counters report)" and "\<And>p. HU p \<noteq> None"
  shows "\<exists>res. CanonicalizeProviderUsageV1 HR HU req = Inr res \<and>
    CanonicalUsage_Validate HU (Some (rs_Canonical res)) = None \<and>
    cu_RunID (rs_Canonical res) = rq_RunID req"
proof -
  have shape: "ProviderUsageReport_validateShape False (Some report) = None"
    using assms(3) by (simp add: report_verify_None)
  have run: "ur_RunID report = rq_RunID req" using assms(4) by (simp add: validateReportIdentity_def)
  have checks: "first_error [wrapV ''provider usage report digest''
      (ProviderUsageReport_VerifyDigest HR (Some report)), validateReportIdentity req report] = None"
    using assms(3,4) by simp
  show ?thesis
  proof (cases "ur_Basis report = UsageBasisPerRun")
    case True
    obtain u where "CanonicalizeProviderUsageReport HR HU (Some report) = Inr u"
        "CanonicalUsage_Validate HU (Some u) = None" "cu_RunID u = ur_RunID report"
      using CanonicalizeProviderUsageReport_ok [OF assms(3) True, where HU = HU] assms(8) by blast
    then show ?thesis
      by (simp add: CanonicalizeProviderUsageV1_def assms(1,2) checks True run del: first_error.simps)
  next
    case False
    have "0 \<le> rq_ContextGeneration req" "1 \<le> rq_SegmentSeq req"
      using assms(1) by (auto simp: validateCanonicalUsageRequest_def)
    moreover have "isTypedID PrefixRun (rq_RunID req)"
      using report_shape_facts(1) [OF shape] run by simp
    moreover have late: "first_error [require (\<not> IsZero (rq_ObservedAt req))
        (ErrValidation ''cumulative usage requires observed_at''),
        (case rq_Anchor req of None \<Rightarrow> None | Some a \<Rightarrow> wrapV ''provider usage anchor''
          (ProviderUsageAnchor_Validate (Some a)))] = None"
      using assms(5,6) by (auto simp: IsZero_def)
    moreover have "CanonicalizeProviderUsageV1 HR HU req = canonicalize_cumulative HU req report"
      by (simp add: CanonicalizeProviderUsageV1_def assms(1,2) checks False late del: first_error.simps)
    ultimately show ?thesis
      using canonicalize_cumulative_ok [OF shape assms(7) _ assms(6) _ _ assms(8)] by simp
  qed
qed

text \<open>Concrete values, at which the properties are applied.\<close>

definition sample_provenance :: UsageProvenanceV1 where
  "sample_provenance = \<lparr>pv_AdapterID = ''codex'', pv_Protocol = ''rpc'', pv_ProtocolVersion = ''1'',
     pv_Source = ''turn'', pv_ReportedBasis = ''session_cumulative'', pv_AgentID = ''agent_1'',
     pv_SessionRef = ''s1'', pv_Mapping = ''m'', pv_AnchorBefore = None, pv_AnchorAfter = None,
     pv_AnchorGeneration = 0, pv_AnchorSequence = 0, pv_AnchorObservedAt = 0\<rparr>"

definition sample_report :: "int \<Rightarrow> ProviderUsageReportV1" where
  "sample_report n = \<lparr>ur_SchemaVersion = ''provider-usage/v1'', ur_RunID = ''run_1'',
     ur_Basis = ''session_cumulative'',
     ur_Counters = \<lparr>uc_InputTokensTotal = None, uc_InputUncachedTokens = None,
       uc_CacheReadTokens = None, uc_CacheWriteTokens = None, uc_OutputTokens = Some n\<rparr>,
     ur_Provenance = sample_provenance, ur_Digest = canonical_digest 0\<rparr>"

definition sample_anchor :: ProviderUsageAnchorV1 where
  "sample_anchor = \<lparr>an_SchemaVersion = ''provider-usage-anchor/v1'',
     an_State = ProviderUsageAnchorReady, an_AdapterID = ''codex'', an_SessionRef = ''s1'',
     an_ContextGeneration = 0, an_SegmentSeq = 1,
     an_Counters = \<lparr>uc_InputTokensTotal = None, uc_InputUncachedTokens = None,
       uc_CacheReadTokens = None, uc_CacheWriteTokens = None, uc_OutputTokens = Some 100\<rparr>,
     an_SourceRunID = ''run_0'', an_ObservedAt = 5, an_InvalidationReason = ''''\<rparr>"

definition sample_request :: "int \<Rightarrow> CanonicalUsageRequestV1" where
  "sample_request n = \<lparr>rq_Report = Some (sample_report n), rq_Anchor = Some sample_anchor,
     rq_RunID = ''run_1'', rq_AgentID = ''agent_1'', rq_AdapterID = ''codex'', rq_SessionRef = '''',
     rq_ContextGeneration = 0, rq_SegmentSeq = 1, rq_AnchorOwnershipKnown = True,
     rq_AnchorOwnerRunID = ''run_1'', rq_AnchorOwnerSequence = 3, rq_FreshProviderSession = False,
     rq_ObservedAt = 9\<rparr>"

lemmas usage_eval = usage_consts text_eval prefix_defs IsZero_def TrimSpace_graphic

lemma sample_anchor_ready: "ready_anchor sample_anchor"
  by (simp add: ready_anchor_def sample_anchor_def ProviderUsageAnchor_Validate.simps(2) usage_eval
      anchor_counters_None counter_list_def UsageCounters_AnyKnown_def)

lemma sample_report_shape:
  "0 \<le> n \<Longrightarrow> ProviderUsageReport_validateShape False (Some (sample_report n)) = None"
  by (simp add: sample_report_def sample_provenance_def ProviderUsageReport_validateShape.simps(2)
      UsageCounters_Validate_def counter_list_def UsageProvenance_Validate_def usage_eval)

lemma sample_in64: "n \<le> maxInt64 \<Longrightarrow> counters_in64 (ur_Counters (sample_report n))"
  by (simp add: counters_in64_def sample_report_def counter_list_def)

lemma sample_request_checks:
  "validateCanonicalUsageRequest (sample_request n) = None"
  "rq_Report (sample_request n) = Some (sample_report n)"
  "validateReportIdentity (sample_request n) (sample_report n) = None"
  "rq_ObservedAt (sample_request n) \<noteq> 0"
  by (simp_all add: validateCanonicalUsageRequest_def validateReportIdentity_def sample_request_def
      sample_report_def sample_provenance_def usage_eval)

lemma sample_report_verifies:
  "0 \<le> n \<Longrightarrow> ProviderUsageReport_VerifyDigest sample_hash (Some (sample_report n)) = None"
  by (simp add: report_verify_None sample_report_shape sample_hash_def) (simp add: sample_report_def)

section \<open>Properties\<close>

text \<open>
  C11. No double charging. Over any sequence of cumulative reports of a running provider session,
  settled against the stored anchor (refused, incompatible, stale and regressed ones included), the
  deltas charged for uncached input, cache reads, cache writes or output add up to exactly the growth
  of the watermark of that kind, which never goes down. When an accepted report that knows the kind
  opens a fresh provider session before them, which has the baseline zero, the charges with its own add
  up to the whole watermark. The input total is not covered: it is charged only as far as it agrees
  with its parts. Nor is a fresh session in the middle of the sequence, which starts a new account.
\<close>

theorem usage_charges_watermark_growth:
  assumes "ready_anchor a" and "\<forall>req\<in>set reqs. session_request req"
    and "k \<in> {QuotaInputUncachedTokens, QuotaCacheReadTokens, QuotaCacheWriteTokens, QuotaOutputTokens}"
    and "start = [] \<and> kind_value k (an_Counters a) = Some m \<or>
      (\<exists>req res. start = [req] \<and> opening_request k req \<and> CanonicalizeProviderUsageV1 HR HU (req\<lparr>rq_Anchor := Some a\<rparr>) = Inr res \<and> m = 0)"
    and "settle_reports HR HU a (start @ reqs) = (cs, b)"
  shows "\<exists>m'. kind_value k (an_Counters b) = Some m' \<and> m \<le> m' \<and> sum_list (map (charged k) cs) = m' - m"
  using assms(4)
proof (elim disjE exE conjE)
  have k: "k \<in> set usage_kinds" "k \<noteq> QuotaInputTokensTotal" using assms(3) by (auto simp: usage_kinds_def)
  show ?thesis if "start = []" "kind_value k (an_Counters a) = Some m"
    using settle_reports_growth [OF assms(1,2) k that(2)] assms(5) that(1) by simp
  fix req res
  assume start: "start = [req]" and fresh: "opening_request k req" and m: "m = 0"
    and ok: "CanonicalizeProviderUsageV1 HR HU (req\<lparr>rq_Anchor := Some a\<rparr>) = Inr res"
  obtain c d where one: "settle_report HR HU a req = (c, d)" by fastforce
  obtain es where es: "settle_reports HR HU d reqs = (es, b)" "cs = c # es"
    using assms(5) one start by (auto simp: Let_def split: prod.splits)
  from opening_report_charges [OF k fresh ok one] obtain m1 where d: "ready_anchor d" "kind_value k (an_Counters d) = Some m1"
    "0 \<le> m1" "charged k c = m1" by blast
  from settle_reports_growth [OF d(1) assms(2) k d(2) es(1)] show ?thesis using d(3,4) es(2) m by auto
qed

theorem usage_charges_watermark_growth_witness:
  "\<exists>cs b m'. settle_reports sample_hash sample_hash sample_anchor
       [(sample_request 60)\<lparr>rq_FreshProviderSession := True\<rparr>, sample_request 50, sample_request 170] = (cs, b) \<and>
     kind_value QuotaOutputTokens (an_Counters b) = Some m' \<and> 0 \<le> m' \<and>
     sum_list (map (charged QuotaOutputTokens) cs) = m'"
proof -
  let ?fresh = "(sample_request 60)\<lparr>rq_FreshProviderSession := True\<rparr>"
  obtain cs b where run: "settle_reports sample_hash sample_hash sample_anchor ([?fresh] @ [sample_request 50, sample_request 170]) = (cs, b)"
    by fastforce
  have req: "session_request (sample_request n)" if "n \<le> maxInt64" for n
    using sample_in64 [OF that]
    by (simp add: session_request_def sample_request_def) (simp add: sample_report_def usage_consts)
  have all: "\<forall>req\<in>set [sample_request 50, sample_request 170]. session_request req"
    using req by (simp add: maxInt64_def)
  have fresh: "opening_request QuotaOutputTokens ?fresh"
    using sample_in64 [of 60]
    by (simp add: opening_request_def sample_request_def owner_match_def maxInt64_def)
      (simp add: sample_report_def sample_provenance_def usage_eval)
  have "ProviderUsageAnchor_Validate (Some sample_anchor) = None" using sample_anchor_ready by (simp add: ready_anchor_def)
  then have anchor: "\<And>a. rq_Anchor ?fresh = Some a \<Longrightarrow> ProviderUsageAnchor_Validate (Some a) = None"
    by (simp add: sample_request_def)
  have checks: "validateCanonicalUsageRequest ?fresh = None" "rq_Report ?fresh = Some (sample_report 60)"
    "validateReportIdentity ?fresh (sample_report 60) = None" "rq_ObservedAt ?fresh \<noteq> 0"
    using sample_request_checks [of 60] by (simp_all add: validateCanonicalUsageRequest_def validateReportIdentity_def)
  have "?fresh\<lparr>rq_Anchor := Some sample_anchor\<rparr> = ?fresh" by (simp add: sample_request_def)
  then obtain res where ok: "CanonicalizeProviderUsageV1 sample_hash sample_hash (?fresh\<lparr>rq_Anchor := Some sample_anchor\<rparr>) = Inr res"
    using canonicalize_ok [OF checks(1,2) sample_report_verifies checks(3,4) anchor sample_in64, where HU = sample_hash]
    by (auto simp: sample_hash_def maxInt64_def)
  have start: "[?fresh] = [] \<and> kind_value QuotaOutputTokens (an_Counters sample_anchor) = Some 0 \<or>
      (\<exists>req res. [?fresh] = [req] \<and> opening_request QuotaOutputTokens req \<and>
        CanonicalizeProviderUsageV1 sample_hash sample_hash (req\<lparr>rq_Anchor := Some sample_anchor\<rparr>) = Inr res \<and> (0::int) = 0)"
    using fresh ok by blast
  from usage_charges_watermark_growth [OF sample_anchor_ready all _ start run] run
  show ?thesis by auto
qed

text \<open>
  C26. Canonicalization of a verified report never fails and never produces an invalid
  usage: when the request, the identities, the report digest and the stored anchor check
  out, the result validates, digest included, and is about the requested run.
\<close>

theorem canonicalize_total:
  assumes "validateCanonicalUsageRequest req = None" and "rq_Report req = Some report"
    and "ProviderUsageReport_VerifyDigest HR (Some report) = None"
    and "validateReportIdentity req report = None" and "rq_ObservedAt req \<noteq> 0"
    and "\<And>a. rq_Anchor req = Some a \<Longrightarrow> ProviderUsageAnchor_Validate (Some a) = None"
    and "counters_in64 (ur_Counters report)" and "\<And>p. HU p \<noteq> None"
  shows "\<exists>res. CanonicalizeProviderUsageV1 HR HU req = Inr res \<and>
    CanonicalUsage_Validate HU (Some (rs_Canonical res)) = None \<and>
    cu_RunID (rs_Canonical res) = rq_RunID req"
  using assms by (rule canonicalize_ok)

theorem canonicalize_total_witness:
  "\<exists>res. CanonicalizeProviderUsageV1 sample_hash sample_hash (sample_request 150) = Inr res \<and>
     CanonicalUsage_Validate sample_hash (Some (rs_Canonical res)) = None"
proof -
  have "\<And>a. rq_Anchor (sample_request 150) = Some a \<Longrightarrow> ProviderUsageAnchor_Validate (Some a) = None"
    using sample_anchor_ready by (simp add: sample_request_def ready_anchor_def)
  from canonicalize_total [OF sample_request_checks(1,2) [of 150] sample_report_verifies
      sample_request_checks(3,4) this sample_in64, where HU = sample_hash]
  show ?thesis by (auto simp: sample_hash_def maxInt64_def)
qed

text \<open>
  C27. Unknown is never zero. A counter of the canonical usage of a cumulative report is known
  only if the report observed it and the baseline did, and then it is their difference; the
  baseline is zero for a fresh provider session and the stored anchor otherwise, and the
  stored anchor must be ready, of the same adapter, session, generation and segment, with
  the Run its current owner.
\<close>

theorem cumulative_usage_proven:
  assumes "CanonicalizeProviderUsageV1 HR HU req = Inr res" and "rq_Report req = Some report"
    and "ur_Basis report \<noteq> UsageBasisPerRun" and "counters_in64 (ur_Counters report)"
    and "k \<in> set usage_kinds" and "kind_value k (cu_Counters (rs_Canonical res)) = Some v"
  shows "owner_match req \<and> (\<exists>n b. kind_value k (ur_Counters report) = Some n \<and> b \<le> n \<and> v = n - b \<and>
    (if rq_FreshProviderSession req \<and> TrimSpace (pv_SessionRef (ur_Provenance report)) \<noteq> ''''
     then b = 0
     else \<exists>a. rq_Anchor req = Some a \<and> kind_value k (an_Counters a) = Some b \<and>
       compatibleProviderUsageAnchor req report))"
proof -
  have basis: "\<And>r. rq_Report req = Some r \<Longrightarrow> ur_Basis r \<noteq> UsageBasisPerRun"
    using assms(2,3) by simp
  obtain report' where "rq_Report req = Some report'"
    and "canonicalize_cumulative HU req report' = Inr res"
    by (rule CanonicalizeV1_cumulative [OF assms(1) basis])
  then have run: "canonicalize_cumulative HU req report = Inr res" using assms(2) by simp
  obtain base why where base: "cumulative_baseline req report
      (TrimSpace (pv_SessionRef (ur_Provenance report))) = (base, why)" by fastforce
  have "kind_value k (final_delta (ur_Counters report) base why) = Some v"
    using assms(6) canonicalize_cumulative_Inr(1) [OF run base] by simp
  from final_delta_Some [OF assms(4,5) this] obtain n b c where nb:
    "kind_value k (ur_Counters report) = Some n" "base = Some c" "kind_value k c = Some b"
    "b \<le> n" "v = n - b" by blast
  moreover have "kind_value k (zeroKnownCounters (ur_Counters report)) = Some b \<Longrightarrow> b = 0"
    using assms(5) by (auto simp: usage_kinds_def zeroKnownCounters_def)
  ultimately show ?thesis
    using base by (auto simp: cumulative_baseline_def Let_def split: if_splits option.splits)
qed

theorem cumulative_usage_proven_witness:
  "\<exists>res. CanonicalizeProviderUsageV1 sample_hash sample_hash (sample_request 150) = Inr res \<and>
     (\<forall>v. kind_value QuotaOutputTokens (cu_Counters (rs_Canonical res)) = Some v \<longrightarrow> v = 50)"
proof -
  have anchor: "\<And>a. rq_Anchor (sample_request 150) = Some a \<Longrightarrow>
      ProviderUsageAnchor_Validate (Some a) = None"
    using sample_anchor_ready by (simp add: sample_request_def ready_anchor_def)
  have in64: "counters_in64 (ur_Counters (sample_report 150))"
    by (rule sample_in64) (simp add: maxInt64_def)
  have basis: "ur_Basis (sample_report 150) \<noteq> UsageBasisPerRun"
    by (simp add: sample_report_def usage_consts)
  have checks: "first_error [wrapV ''provider usage report digest''
        (ProviderUsageReport_VerifyDigest sample_hash (Some (sample_report 150))),
        validateReportIdentity (sample_request 150) (sample_report 150)] = None"
      "first_error [require (\<not> IsZero (rq_ObservedAt (sample_request 150)))
        (ErrValidation ''cumulative usage requires observed_at''),
        (case rq_Anchor (sample_request 150) of None \<Rightarrow> None
         | Some a \<Rightarrow> wrapV ''provider usage anchor'' (ProviderUsageAnchor_Validate (Some a)))] = None"
    using sample_report_verifies [of 150] sample_request_checks [of 150] anchor
    by (auto simp: IsZero_def)
  have "\<exists>res. canonicalize_cumulative sample_hash (sample_request 150) (sample_report 150) = Inr res"
  proof -
    have "isTypedID PrefixRun (rq_RunID (sample_request 150))"
        "0 \<le> rq_ContextGeneration (sample_request 150)" "1 \<le> rq_SegmentSeq (sample_request 150)"
      by (simp_all add: sample_request_def usage_eval)
    from canonicalize_cumulative_ok [OF sample_report_shape in64 this(1) anchor this(2,3),
        where HU = sample_hash]
    show ?thesis by (auto simp: sample_hash_def)
  qed
  then obtain res where res: "CanonicalizeProviderUsageV1 sample_hash sample_hash (sample_request 150) = Inr res"
    by (auto simp: CanonicalizeProviderUsageV1_def sample_request_checks(1,2) checks basis
        simp del: first_error.simps)
  have "v = 50" if "kind_value QuotaOutputTokens (cu_Counters (rs_Canonical res)) = Some v" for v
    using cumulative_usage_proven [OF res sample_request_checks(2) basis in64 _ that]
    by (simp add: usage_kinds_def) (simp add: sample_request_def sample_report_def sample_anchor_def)
  with res show ?thesis by blast
qed

end
