(* ===== verification/Ledger.thy ===== *)
theory Ledger
  imports Usage
begin

text \<open>
  The quota ledger: reservations and spend entries of \<^verbatim>\<open>internal/domain/quota.go\<close> and the
  repository \<^verbatim>\<open>internal/persistence/sqlstore/quota.go\<close> that keeps them. The two tables are
  lists of rows in insertion order; a call runs inside one serial transaction, so the
  branches of the code that resolve a race between its read and its INSERT do not occur.
  The rows the spend check reads from other tables (goals, work items, runs) are the
  environment \<open>LedgerEnv\<close>. The triggers of the SQL migrations are not modelled.
\<close>

section \<open>Reservations (domain/quota.go)\<close>

datatype QuotaReservationStatus = QuotaReservationReserved | QuotaReservationCommitted
  | QuotaReservationReleased | QuotaReservationExpired | QuotaReservationStatusOther string

fun QuotaReservationStatus_text :: "QuotaReservationStatus \<Rightarrow> string" where
  "QuotaReservationStatus_text QuotaReservationReserved = ''reserved''"
| "QuotaReservationStatus_text QuotaReservationCommitted = ''committed''"
| "QuotaReservationStatus_text QuotaReservationReleased = ''released''"
| "QuotaReservationStatus_text QuotaReservationExpired = ''expired''"
| "QuotaReservationStatus_text (QuotaReservationStatusOther s) = s"

fun QuotaReservationStatus_Valid :: "QuotaReservationStatus \<Rightarrow> bool" where
  "QuotaReservationStatus_Valid (QuotaReservationStatusOther _) = False"
| "QuotaReservationStatus_Valid _ = True"

definition QuotaReservationStatus_IsTerminal :: "QuotaReservationStatus \<Rightarrow> bool" where
  "QuotaReservationStatus_IsTerminal s \<longleftrightarrow> s = QuotaReservationCommitted \<or>
     s = QuotaReservationReleased \<or> s = QuotaReservationExpired"

definition QuotaReservationStatus_CanTransitionTo ::
    "QuotaReservationStatus \<Rightarrow> QuotaReservationStatus \<Rightarrow> bool" where
  "QuotaReservationStatus_CanTransitionTo s to \<longleftrightarrow> s = QuotaReservationReserved \<and>
     (to = QuotaReservationCommitted \<or> to = QuotaReservationReleased \<or> to = QuotaReservationExpired)"

record QuotaReservationKey =
  qk_TurnKey :: TurnKey
  qk_Kind :: QuotaKind

definition QuotaReservationKey_Validate :: "QuotaReservationKey \<Rightarrow> go_error option" where
  "QuotaReservationKey_Validate k = first_error
     [TurnKey_Validate (qk_TurnKey k),
      require (QuotaKind_Valid (qk_Kind k)) (ErrValidation ''quota reservation kind'')]"

definition QuotaReservationKey_Equal :: "QuotaReservationKey \<Rightarrow> QuotaReservationKey \<Rightarrow> bool" where
  "QuotaReservationKey_Equal k l \<longleftrightarrow>
     TurnKey_Equal (qk_TurnKey k) (qk_TurnKey l) \<and> qk_Kind k = qk_Kind l"

record QuotaReservation =
  qr_Key :: QuotaReservationKey
  qr_Status :: QuotaReservationStatus
  qr_ReservedAmount :: int
  qr_CommittedAmount :: int
  qr_ReleasedAmount :: int
  qr_PolicyLimit :: int
  qr_PolicyEnforcement :: QuotaEnforcement
  qr_PolicyDigest :: string
  qr_Version :: int
  qr_CreatedAt :: time
  qr_UpdatedAt :: time

fun QuotaReservation_Validate :: "QuotaReservation option \<Rightarrow> go_error option" where
  "QuotaReservation_Validate None = Some (ErrValidation ''nil quota reservation'')"
| "QuotaReservation_Validate (Some r) = first_error
     [QuotaReservationKey_Validate (qr_Key r),
      require (QuotaReservationStatus_Valid (qr_Status r)) (ErrValidation ''quota reservation status''),
      require (\<not> (qr_ReservedAmount r < 0 \<or> qr_CommittedAmount r < 0 \<or> qr_ReleasedAmount r < 0 \<or>
                 qr_PolicyLimit r < 0)) (ErrValidation ''quota reservation amounts must be >= 0''),
      require (\<not> (qr_CommittedAmount r > wrap64 (maxInt64 - qr_ReleasedAmount r) \<or>
                 wrap64 (qr_CommittedAmount r + qr_ReleasedAmount r) > qr_ReservedAmount r))
        (ErrValidation ''quota reservation committed+released exceeds reserved''),
      require (\<not> (QuotaReservationStatus_IsTerminal (qr_Status r) \<and>
                 wrap64 (qr_CommittedAmount r + qr_ReleasedAmount r) \<noteq> qr_ReservedAmount r))
        (ErrValidation ''terminal quota reservation must settle all reserved amount''),
      require (QuotaEnforcement_Valid (qr_PolicyEnforcement r))
        (ErrValidation ''quota reservation policy enforcement''),
      wrapV ''quota reservation.policy_digest'' (ValidateCanonicalDigest (qr_PolicyDigest r)),
      require (\<not> qr_Version r < 1) (ErrValidation ''quota reservation.version must be >= 1''),
      require (\<not> (IsZero (qr_CreatedAt r) \<or> IsZero (qr_UpdatedAt r)))
        (ErrValidation ''quota reservation timestamps are required'')]"

fun QuotaReservation_Transition ::
    "QuotaReservation option \<Rightarrow> QuotaReservationStatus \<Rightarrow> time \<Rightarrow> go_error + QuotaReservation" where
  "QuotaReservation_Transition None to now = Inl (ErrValidation ''nil quota reservation'')"
| "QuotaReservation_Transition (Some r) to now =
     (if \<not> QuotaReservationStatus_CanTransitionTo (qr_Status r) to then
        Inl (ErrTransition ''quota_reservation'' (QuotaReservationStatus_text (qr_Status r))
          (QuotaReservationStatus_text to))
      else Inr (r\<lparr>qr_Status := to, qr_Version := inc64 (qr_Version r), qr_UpdatedAt := now\<rparr>))"

section \<open>Spend entries (domain/quota.go)\<close>

datatype QuotaSpendStatus = QuotaSpendCommitted | QuotaSpendUnresolved
  | QuotaSpendStatusOther string

definition QuotaSpendStatus_Valid :: "QuotaSpendStatus \<Rightarrow> bool" where
  "QuotaSpendStatus_Valid s \<longleftrightarrow> s = QuotaSpendCommitted \<or> s = QuotaSpendUnresolved"

definition QuotaUsageBasisPerRun :: string where "QuotaUsageBasisPerRun = ''per_run''"

record QuotaSpendKey =
  sk_TurnKey :: TurnKey
  sk_Kind :: QuotaKind
  sk_RunID :: string

definition QuotaSpendKey_Validate :: "QuotaSpendKey \<Rightarrow> go_error option" where
  "QuotaSpendKey_Validate k = first_error
     [TurnKey_Validate (sk_TurnKey k),
      require (QuotaKind_Valid (sk_Kind k)) (ErrValidation ''quota spend kind''),
      require (\<not> (sk_Kind k = QuotaTurnCount \<or> sk_Kind k = QuotaActiveWorker))
        (ErrValidation ''has no spend entry''),
      validateTypedID ''quota spend.run_id'' (sk_RunID k) PrefixRun]"

definition QuotaSpendKey_Equal :: "QuotaSpendKey \<Rightarrow> QuotaSpendKey \<Rightarrow> bool" where
  "QuotaSpendKey_Equal k l \<longleftrightarrow> TurnKey_Equal (sk_TurnKey k) (sk_TurnKey l) \<and>
     sk_Kind k = sk_Kind l \<and> sk_RunID k = sk_RunID l"

record QuotaSpendEntry =
  se_Key :: QuotaSpendKey
  se_Amount :: int
  se_UsageBasis :: string
  se_UsageDigest :: string
  se_PolicyDigest :: string
  se_PriceDigest :: string
  se_Status :: QuotaSpendStatus
  se_Reason :: string
  se_CreatedAt :: time

fun QuotaSpendEntry_Validate :: "QuotaSpendEntry option \<Rightarrow> go_error option" where
  "QuotaSpendEntry_Validate None = Some (ErrValidation ''nil quota spend entry'')"
| "QuotaSpendEntry_Validate (Some e) = first_error
     ([QuotaSpendKey_Validate (se_Key e),
       require (\<not> se_Amount e < 0) (ErrValidation ''quota spend.amount must be >= 0''),
       require (\<not> se_UsageBasis e \<noteq> QuotaUsageBasisPerRun)
         (ErrValidation ''quota spend.usage_basis must be per_run''),
       wrapV ''quota spend.usage_digest'' (ValidateCanonicalDigest (se_UsageDigest e)),
       wrapV ''quota spend.policy_digest'' (ValidateCanonicalDigest (se_PolicyDigest e)),
       require (QuotaSpendStatus_Valid (se_Status e)) (ErrValidation ''quota spend.status'')]
      @ (if se_Status e = QuotaSpendUnresolved then
           [require (\<not> se_Amount e \<noteq> 0)
              (ErrValidation ''unresolved quota spend amount must be zero''),
            validateText ''quota spend.reason'' (se_Reason e) 2000]
         else if se_Reason e \<noteq> '''' then [validateText ''quota spend.reason'' (se_Reason e) 2000]
         else [])
      @ [if sk_Kind (se_Key e) = QuotaCostMicroUSD
         then wrapV ''quota spend.price_digest'' (ValidateCanonicalDigest (se_PriceDigest e))
         else require (\<not> se_PriceDigest e \<noteq> '''')
           (ErrValidation ''price_digest is only valid for cost_microusd''),
         require (\<not> IsZero (se_CreatedAt e)) (ErrValidation ''quota spend.created_at is required'')])"

section \<open>The tables, and what the spend check reads from others\<close>

record Ledger =
  lg_Reservations :: "QuotaReservation list"
  lg_Spends :: "QuotaSpendEntry list"

datatype SpendRunStatus = SpendRunActive | SpendRunTerminal

record SpendRun =
  sr_WorkspaceID :: string
  sr_WorkItemID :: string
  sr_Status :: SpendRunStatus \<comment> \<open>whether the status is in the query's terminal list\<close>
  sr_CanonicalUsage :: "CanonicalUsageV1 option"
  sr_CanonicalUsageDigest :: string
  sr_Input :: gomap

record LedgerEnv =
  le_Goals :: "(string \<times> string \<times> string) list" \<comment> \<open>id, root work item, workspace\<close>
  le_Items :: "(string \<times> string option \<times> bool) list" \<comment> \<open>id, parent, record_kind is task\<close>
  le_Runs :: "(string \<times> SpendRun) list"

text \<open>
  The recursive query over the work items: children that are tasks, to a fixpoint; the
  length of the table bounds the depth.
\<close>

definition subtree_step :: "(string \<times> string option \<times> bool) list \<Rightarrow> string list \<Rightarrow> string list" where
  "subtree_step items ids = ids @
     map fst (filter (\<lambda>(i, parent, task). i \<notin> set ids \<and> task \<and>
       (case parent of None \<Rightarrow> False | Some p \<Rightarrow> p \<in> set ids)) items)"

definition subtree :: "(string \<times> string option \<times> bool) list \<Rightarrow> string \<Rightarrow> string list" where
  "subtree items root = (subtree_step items ^^ length items) [root]"

definition runInScope :: "LedgerEnv \<Rightarrow> string \<Rightarrow> string \<Rightarrow> bool" where
  "runInScope env goalID runID =
     (case (map_of (le_Goals env) goalID, map_of (le_Runs env) runID) of
        (Some (root, workspace), Some run) \<Rightarrow>
          sr_WorkItemID run \<in> set (subtree (le_Items env) root) \<and>
          sr_WorkspaceID run = workspace \<and> sr_Status run = SpendRunTerminal
      | _ \<Rightarrow> False)"

section \<open>The repository (sqlstore/quota.go)\<close>

definition scanReservation :: "QuotaReservation \<Rightarrow> go_error + QuotaReservation" where
  "scanReservation r = guarded (QuotaReservation_Validate (Some r)) r"

definition QuotaRepo_Get :: "Ledger \<Rightarrow> QuotaReservationKey \<Rightarrow> go_error + QuotaReservation" where
  "QuotaRepo_Get lg key =
     (case QuotaReservationKey_Validate key of
        Some e \<Rightarrow> Inl e
      | None \<Rightarrow>
          (case List.find (\<lambda>r. qr_Key r = key) (lg_Reservations lg) of
             None \<Rightarrow> Inl ErrNotFound
           | Some r \<Rightarrow> scanReservation r))"

definition sameReservationIntent :: "QuotaReservation \<Rightarrow> QuotaReservation \<Rightarrow> bool" where
  "sameReservationIntent existing incoming \<longleftrightarrow>
     QuotaReservationKey_Equal (qr_Key existing) (qr_Key incoming) \<and>
     qr_ReservedAmount existing = qr_ReservedAmount incoming \<and>
     qr_PolicyLimit existing = qr_PolicyLimit incoming \<and>
     qr_PolicyEnforcement existing = qr_PolicyEnforcement incoming \<and>
     qr_PolicyDigest existing = qr_PolicyDigest incoming"

fun QuotaRepo_Reserve :: "Ledger \<Rightarrow> QuotaReservation option \<Rightarrow> go_error + bool \<times> Ledger" where
  "QuotaRepo_Reserve lg None = Inl (ErrValidation ''quota reservation required'')"
| "QuotaRepo_Reserve lg (Some r) =
     (if qr_Status r \<noteq> QuotaReservationReserved then
        Inl (ErrValidation ''quota reservation must start reserved'')
      else
        (case QuotaReservation_Validate (Some r) of
           Some e \<Rightarrow> Inl e
         | None \<Rightarrow>
             (case QuotaRepo_Get lg (qr_Key r) of
                Inr existing \<Rightarrow>
                  if sameReservationIntent existing r then Inr (False, lg)
                  else Inl ErrIdempotencyConflict
              | Inl e \<Rightarrow>
                  if e \<noteq> ErrNotFound then Inl e
                  else Inr (True, lg\<lparr>lg_Reservations := lg_Reservations lg @ [r]\<rparr>))))"

text \<open>The CAS update of one row; \<open>now\<close> is the store's clock.\<close>

definition update_row :: "QuotaReservation \<Rightarrow> int \<Rightarrow> QuotaReservation \<Rightarrow> QuotaReservation" where
  "update_row candidate expectedVersion row =
     (if qr_Key row = qr_Key candidate \<and> qr_Version row = expectedVersion
      then row\<lparr>qr_Status := qr_Status candidate, qr_CommittedAmount := qr_CommittedAmount candidate,
               qr_ReleasedAmount := qr_ReleasedAmount candidate,
               qr_Version := qr_Version candidate, qr_UpdatedAt := qr_UpdatedAt candidate\<rparr>
      else row)"

definition affected :: "Ledger \<Rightarrow> QuotaReservation \<Rightarrow> int \<Rightarrow> nat" where
  "affected lg candidate expectedVersion =
     length (filter (\<lambda>row. qr_Key row = qr_Key candidate \<and> qr_Version row = expectedVersion)
       (lg_Reservations lg))"

fun QuotaRepo_transition :: "Ledger \<Rightarrow> QuotaReservation option \<Rightarrow> int \<Rightarrow> QuotaReservationStatus \<Rightarrow>
    time \<Rightarrow> go_error + Ledger" where
  "QuotaRepo_transition lg None expectedVersion target now =
     Inl (ErrValidation ''quota reservation required'')"
| "QuotaRepo_transition lg (Some candidate) expectedVersion target now =
     (if expectedVersion < 1 \<or> expectedVersion = maxInt64 \<or>
         qr_Version candidate \<noteq> inc64 expectedVersion then Inl ErrVersionConflict
      else
        (case QuotaRepo_Get lg (qr_Key candidate) of
           Inl e \<Rightarrow> Inl e
         | Inr existing \<Rightarrow>
             if qr_Version existing \<noteq> expectedVersion then Inl ErrVersionConflict
             else if qr_Status candidate \<noteq> target then
               Inl (ErrValidation ''quota reservation transition target'')
             else if \<not> sameReservationIntent existing candidate then
               Inl (ErrValidation ''quota reservation identity/policy is immutable'')
             else if \<not> QuotaReservationStatus_CanTransitionTo (qr_Status existing) target then
               Inl (ErrTransition ''quota_reservation''
                 (QuotaReservationStatus_text (qr_Status existing)) (QuotaReservationStatus_text target))
             else
               (let c1 = (if IsZero (qr_CreatedAt candidate)
                          then candidate\<lparr>qr_CreatedAt := qr_CreatedAt existing\<rparr> else candidate);
                    c2 = (if IsZero (qr_UpdatedAt c1) then c1\<lparr>qr_UpdatedAt := now\<rparr> else c1)
                in case QuotaReservation_Validate (Some c2) of
                     Some e \<Rightarrow> Inl e
                   | None \<Rightarrow>
                       if affected lg c2 expectedVersion \<noteq> 1 then Inl ErrVersionConflict
                       else Inr (lg\<lparr>lg_Reservations :=
                              map (update_row c2 expectedVersion) (lg_Reservations lg)\<rparr>))))"

definition QuotaRepo_Commit :: "Ledger \<Rightarrow> QuotaReservation option \<Rightarrow> int \<Rightarrow> time \<Rightarrow> go_error + Ledger" where
  "QuotaRepo_Commit lg r v now = QuotaRepo_transition lg r v QuotaReservationCommitted now"

definition QuotaRepo_Release :: "Ledger \<Rightarrow> QuotaReservation option \<Rightarrow> int \<Rightarrow> time \<Rightarrow> go_error + Ledger" where
  "QuotaRepo_Release lg r v now = QuotaRepo_transition lg r v QuotaReservationReleased now"

definition QuotaRepo_Expire :: "Ledger \<Rightarrow> QuotaReservation option \<Rightarrow> int \<Rightarrow> time \<Rightarrow> go_error + Ledger" where
  "QuotaRepo_Expire lg r v now = QuotaRepo_transition lg r v QuotaReservationExpired now"

definition scanSpend :: "QuotaSpendEntry \<Rightarrow> go_error + QuotaSpendEntry" where
  "scanSpend e = guarded (QuotaSpendEntry_Validate (Some e)) e"

definition QuotaRepo_GetSpend :: "Ledger \<Rightarrow> QuotaSpendKey \<Rightarrow> go_error + QuotaSpendEntry" where
  "QuotaRepo_GetSpend lg key =
     (case QuotaSpendKey_Validate key of
        Some e \<Rightarrow> Inl e
      | None \<Rightarrow>
          (case List.find (\<lambda>s. se_Key s = key) (lg_Spends lg) of
             None \<Rightarrow> Inl ErrNotFound
           | Some s \<Rightarrow> scanSpend s))"

definition sameSpendPayload :: "QuotaSpendEntry \<Rightarrow> QuotaSpendEntry \<Rightarrow> bool" where
  "sameSpendPayload existing incoming \<longleftrightarrow>
     QuotaSpendKey_Equal (se_Key existing) (se_Key incoming) \<and>
     se_Amount existing = se_Amount incoming \<and> se_UsageBasis existing = se_UsageBasis incoming \<and>
     se_UsageDigest existing = se_UsageDigest incoming \<and>
     se_PolicyDigest existing = se_PolicyDigest incoming \<and>
     se_PriceDigest existing = se_PriceDigest incoming \<and> se_Status existing = se_Status incoming \<and>
     se_Reason existing = se_Reason incoming"

fun usage_amount :: "CanonicalUsageV1 \<Rightarrow> QuotaKind \<Rightarrow> int option" where
  "usage_amount u QuotaInputTokensTotal = uc_InputTokensTotal (cu_Counters u)"
| "usage_amount u QuotaInputUncachedTokens = uc_InputUncachedTokens (cu_Counters u)"
| "usage_amount u QuotaCacheReadTokens = uc_CacheReadTokens (cu_Counters u)"
| "usage_amount u QuotaCacheWriteTokens = uc_CacheWriteTokens (cu_Counters u)"
| "usage_amount u QuotaOutputTokens = uc_OutputTokens (cu_Counters u)"
| "usage_amount u QuotaCostMicroUSD = cu_CostMicroUSD u"
| "usage_amount u _ = None"

definition canonicalQuotaAmount :: "CanonicalUsageV1 option \<Rightarrow> QuotaKind \<Rightarrow> int \<times> bool" where
  "canonicalQuotaAmount usage kind =
     (case usage of
        None \<Rightarrow> (0, False)
      | Some u \<Rightarrow> (case usage_amount u kind of None \<Rightarrow> (0, False) | Some v \<Rightarrow> (v, True)))"

text \<open>\<^verbatim>\<open>SELECT COALESCE(SUM(amount), 0)\<close> over the entries of one reservation.\<close>

definition spent_on :: "Ledger \<Rightarrow> QuotaReservationKey \<Rightarrow> int" where
  "spent_on lg key = sum_list (map se_Amount (filter (\<lambda>s. sk_TurnKey (se_Key s) = qk_TurnKey key \<and>
     sk_Kind (se_Key s) = qk_Kind key) (lg_Spends lg)))"

definition validateSpendScopeAndCapacity :: "priceSnapshotDigestPayload hasher \<Rightarrow>
    (goval \<Rightarrow> PriceSnapshotRef option) \<Rightarrow> LedgerEnv \<Rightarrow> Ledger \<Rightarrow> QuotaSpendEntry \<Rightarrow>
    QuotaReservation \<Rightarrow> go_error option" where
  "validateSpendScopeAndCapacity H decode env lg e r =
     (if \<not> runInScope env (tk_GoalID (sk_TurnKey (se_Key e))) (sk_RunID (se_Key e)) then
        Some (ErrValidation ''quota spend Run is not terminal in the Goal Task subtree'')
      else
        (case map_of (le_Runs env) (sk_RunID (se_Key e)) of
           None \<Rightarrow> Some ErrNotFound
         | Some run \<Rightarrow>
             if sr_CanonicalUsage run = None \<or> sr_CanonicalUsageDigest run \<noteq> se_UsageDigest e then
               Some (ErrValidation ''quota spend usage digest differs from Run canonical usage'')
             else
               (let spent = spent_on lg (qr_Key r);
                    (amount, resolved) = canonicalQuotaAmount (sr_CanonicalUsage run) (sk_Kind (se_Key e))
                in first_error
                  [if \<not> resolved then
                     require (\<not> (se_Status e \<noteq> QuotaSpendUnresolved \<or> se_Amount e \<noteq> 0))
                       (ErrValidation ''unresolved canonical usage cannot produce committed spend'')
                   else if se_Status e = QuotaSpendUnresolved then first_error
                     [require (\<not> se_Amount e \<noteq> 0)
                        (ErrValidation ''unresolved quota spend amount must be zero''),
                      require (\<not> amount \<le> wrap64 (qr_ReservedAmount r - spent))
                        (ErrValidation
                          ''resolved canonical usage fits the reservation and must be committed'')]
                   else require (\<not> (se_Status e \<noteq> QuotaSpendCommitted \<or> se_Amount e \<noteq> amount))
                     (ErrValidation ''quota spend amount differs from Run canonical usage''),
                   if sk_Kind (se_Key e) = QuotaCostMicroUSD then
                     (case PriceSnapshotFromRunInput H decode (sr_Input run) of
                        Inl err \<Rightarrow> Some err
                      | Inr None \<Rightarrow> Some (ErrValidation ''cost spend Run lacks price snapshot'')
                      | Inr (Some price) \<Rightarrow>
                          require (\<not> (se_PriceDigest e \<noteq> pr_Digest price \<or>
                              map_option cu_PriceDigest (sr_CanonicalUsage run) \<noteq> Some (pr_Digest price)))
                            (ErrValidation ''quota spend price digest differs from Run snapshot''))
                   else None,
                   require (\<not> (spent > qr_ReservedAmount r \<or>
                              se_Amount e > wrap64 (qr_ReservedAmount r - spent)))
                     (ErrValidation ''quota spend exceeds reserved amount'')])))"

fun QuotaRepo_AppendSpend :: "priceSnapshotDigestPayload hasher \<Rightarrow>
    (goval \<Rightarrow> PriceSnapshotRef option) \<Rightarrow> LedgerEnv \<Rightarrow> Ledger \<Rightarrow> QuotaSpendEntry option \<Rightarrow>
    go_error + bool \<times> Ledger" where
  "QuotaRepo_AppendSpend H decode env lg None = Inl (ErrValidation ''quota spend entry required'')"
| "QuotaRepo_AppendSpend H decode env lg (Some e) =
     (case QuotaSpendEntry_Validate (Some e) of
        Some err \<Rightarrow> Inl err
      | None \<Rightarrow>
          (case QuotaRepo_GetSpend lg (se_Key e) of
             Inr existing \<Rightarrow>
               if sameSpendPayload existing e then Inr (False, lg) else Inl ErrIdempotencyConflict
           | Inl err \<Rightarrow>
               if err \<noteq> ErrNotFound then Inl err
               else
                 (case QuotaRepo_Get lg
                    \<lparr>qk_TurnKey = sk_TurnKey (se_Key e), qk_Kind = sk_Kind (se_Key e)\<rparr> of
                    Inl err \<Rightarrow> Inl err
                  | Inr r \<Rightarrow>
                      if se_PolicyDigest e \<noteq> qr_PolicyDigest r then
                        Inl (ErrValidation ''quota spend policy digest differs from reservation'')
                      else if qr_Status r \<noteq> QuotaReservationReserved then
                        Inl (ErrStateConflict ''quota reservation is already settled'')
                      else
                        (case validateSpendScopeAndCapacity H decode env lg e r of
                           Some err \<Rightarrow> Inl err
                         | None \<Rightarrow> Inr (True, lg\<lparr>lg_Spends := lg_Spends lg @ [e]\<rparr>)))))"

text \<open>The sums over the ledger; the gap resolutions read by SumCommitted are a list of rows.\<close>

record GapResolutionRow =
  gr_GoalID :: string
  gr_SpendKey :: QuotaSpendKey
  gr_Reconciled :: bool
  gr_Amount :: int

definition QuotaRepo_ListSpendByTurn :: "Ledger \<Rightarrow> TurnKey \<Rightarrow> go_error + QuotaSpendEntry list" where
  "QuotaRepo_ListSpendByTurn lg key =
     (case TurnKey_Validate key of
        Some e \<Rightarrow> Inl e
      | None \<Rightarrow>
          (let rows = sort_key (\<lambda>s. QuotaKind_text (sk_Kind (se_Key s)))
                 (sort_key (\<lambda>s. sk_RunID (se_Key s))
                   (filter (\<lambda>s. sk_TurnKey (se_Key s) = key) (lg_Spends lg)))
           in case first_error (map (\<lambda>s. QuotaSpendEntry_Validate (Some s)) rows) of
                Some e \<Rightarrow> Inl e
              | None \<Rightarrow> Inr rows))"

definition sumCommittedSpend :: "Ledger \<Rightarrow> GapResolutionRow list \<Rightarrow> string \<Rightarrow> QuotaKind option \<Rightarrow> int" where
  "sumCommittedSpend lg gaps goalID kind =
     sum_list (map se_Amount (filter (\<lambda>s. tk_GoalID (sk_TurnKey (se_Key s)) = goalID \<and>
       se_Status s = QuotaSpendCommitted \<and>
       (case kind of None \<Rightarrow> True | Some k \<Rightarrow> sk_Kind (se_Key s) = k)) (lg_Spends lg))) +
     sum_list (map gr_Amount (filter (\<lambda>g. gr_GoalID g = goalID \<and> gr_Reconciled g \<and>
       (case kind of None \<Rightarrow> True | Some k \<Rightarrow> sk_Kind (gr_SpendKey g) = k)) gaps))"

definition sumCommittedTurnReservations :: "Ledger \<Rightarrow> string \<Rightarrow> int" where
  "sumCommittedTurnReservations lg goalID =
     sum_list (map qr_CommittedAmount (filter (\<lambda>r. tk_GoalID (qk_TurnKey (qr_Key r)) = goalID \<and>
       qk_Kind (qr_Key r) = QuotaTurnCount \<and> qr_Status r = QuotaReservationCommitted)
       (lg_Reservations lg)))"

fun sum_kinds :: "Ledger \<Rightarrow> GapResolutionRow list \<Rightarrow> string \<Rightarrow> QuotaKind list \<Rightarrow> QuotaKind list \<Rightarrow> int \<Rightarrow>
    go_error + int" where
  "sum_kinds lg gaps goalID seen [] tot = Inr tot"
| "sum_kinds lg gaps goalID seen (k # ks) tot =
     (if \<not> QuotaKind_Valid k then Inl (ErrValidation ''quota kind'')
      else if k \<in> set seen then Inl (ErrValidation ''duplicate quota kind'')
      else if k = QuotaActiveWorker then
        Inl (ErrValidation ''active_worker is a gauge; use ActiveWorkerCount'')
      else
        (let amount = (if k = QuotaTurnCount then sumCommittedTurnReservations lg goalID
                       else sumCommittedSpend lg gaps goalID (Some k))
         in if amount > wrap64 (maxInt64 - tot) then
              Inl (ErrValidation ''committed quota sum overflow'')
            else sum_kinds lg gaps goalID (k # seen) ks (wrap64 (tot + amount))))"

definition QuotaRepo_SumCommitted :: "Ledger \<Rightarrow> GapResolutionRow list \<Rightarrow> string \<Rightarrow> QuotaKind list \<Rightarrow>
    go_error + int" where
  "QuotaRepo_SumCommitted lg gaps goalID kinds =
     (if TrimSpace goalID = '''' then Inl (ErrValidation ''goal id required'')
      else if length kinds = 0 then
        (let spend = sumCommittedSpend lg gaps goalID None;
             turns = sumCommittedTurnReservations lg goalID
         in if turns > wrap64 (maxInt64 - spend) then
              Inl (ErrValidation ''committed quota sum overflow'')
            else Inr (wrap64 (spend + turns)))
      else sum_kinds lg gaps goalID [] kinds 0)"

definition QuotaRepo_SumActiveReserved :: "Ledger \<Rightarrow> string \<Rightarrow> QuotaKind \<Rightarrow> go_error + int" where
  "QuotaRepo_SumActiveReserved lg goalID kind =
     (if TrimSpace goalID = '''' then Inl (ErrValidation ''goal id required'')
      else if \<not> QuotaKind_Valid kind then Inl (ErrValidation ''quota kind'')
      else Inr (sum_list (map qr_ReservedAmount
        (filter (\<lambda>r. tk_GoalID (qk_TurnKey (qr_Key r)) = goalID \<and> qk_Kind (qr_Key r) = kind \<and>
          qr_Status r = QuotaReservationReserved) (lg_Reservations lg)))))"



section \<open>The ledger invariant\<close>

definition row_of :: "QuotaSpendEntry \<Rightarrow> QuotaReservationKey" where
  "row_of e = \<lparr>qk_TurnKey = sk_TurnKey (se_Key e), qk_Kind = sk_Kind (se_Key e)\<rparr>"

definition reservations_ok :: "QuotaReservation list \<Rightarrow> bool" where
  "reservations_ok rs \<longleftrightarrow> distinct (map qr_Key rs) \<and> (\<forall>r\<in>set rs. QuotaReservation_Validate (Some r) = None)"

definition spends_ok :: "QuotaSpendEntry list \<Rightarrow> bool" where
  "spends_ok ss \<longleftrightarrow> distinct (map se_Key ss) \<and> (\<forall>s\<in>set ss. QuotaSpendEntry_Validate (Some s) = None)"

text \<open>Every spend is against a reservation under its policy, and fits in it.\<close>

definition covered :: "Ledger \<Rightarrow> bool" where
  "covered lg \<longleftrightarrow>
     (\<forall>s\<in>set (lg_Spends lg). \<exists>r\<in>set (lg_Reservations lg).
        qr_Key r = row_of s \<and> qr_PolicyDigest r = se_PolicyDigest s) \<and>
     (\<forall>r\<in>set (lg_Reservations lg). spent_on lg (qr_Key r) \<le> qr_ReservedAmount r)"

definition ledger_ok :: "Ledger \<Rightarrow> bool" where
  "ledger_ok lg \<longleftrightarrow> reservations_ok (lg_Reservations lg) \<and> spends_ok (lg_Spends lg) \<and> covered lg"

lemma row_of_eq: "row_of s = key \<longleftrightarrow>
    sk_TurnKey (se_Key s) = qk_TurnKey key \<and> sk_Kind (se_Key s) = qk_Kind key"
  by (cases key) (auto simp: row_of_def)

lemma spent_on_row: "spent_on lg key = sum_list (map se_Amount (filter (\<lambda>s. row_of s = key) (lg_Spends lg)))"
  by (simp add: spent_on_def row_of_eq)

lemma spent_on_append:
  "spent_on (lg\<lparr>lg_Spends := lg_Spends lg @ [e]\<rparr>) key =
     spent_on lg key + (if row_of e = key then se_Amount e else 0)"
  by (simp add: spent_on_row)

lemma spent_on_reservations [simp]: "spent_on (lg\<lparr>lg_Reservations := rs\<rparr>) key = spent_on lg key"
  by (simp add: spent_on_def)

lemma spent_on_nonneg: "spends_ok (lg_Spends lg) \<Longrightarrow> 0 \<le> spent_on lg key"
  unfolding spent_on_row
  by (rule sum_list_nonneg) (auto simp: spends_ok_def)

declare QuotaReservation_Validate.simps(2) [simp del] QuotaSpendEntry_Validate.simps(2) [simp del]

lemma reservation_key_valid:
  "QuotaReservation_Validate (Some r) = None \<Longrightarrow> QuotaReservationKey_Validate (qr_Key r) = None"
  by (simp add: QuotaReservation_Validate.simps(2))

lemma find_key: "distinct (map f rs) \<Longrightarrow> r \<in> set rs \<Longrightarrow> List.find (\<lambda>x. f x = f r) rs = Some r"
  by (induction rs) auto

lemma find_key_Some: "List.find (\<lambda>x. f x = k) rs = Some r \<Longrightarrow> r \<in> set rs \<and> f r = k"
  by (auto simp: find_Some_iff)

lemma QuotaRepo_Get_Inr:
  assumes "reservations_ok (lg_Reservations lg)"
  shows "QuotaRepo_Get lg key = Inr r \<longleftrightarrow> r \<in> set (lg_Reservations lg) \<and> qr_Key r = key"
proof
  assume "QuotaRepo_Get lg key = Inr r"
  then show "r \<in> set (lg_Reservations lg) \<and> qr_Key r = key"
    by (auto simp: QuotaRepo_Get_def scanReservation_def dest: find_key_Some split: option.splits)
next
  assume r: "r \<in> set (lg_Reservations lg) \<and> qr_Key r = key"
  then have "List.find (\<lambda>r. qr_Key r = key) (lg_Reservations lg) = Some r"
    using assms find_key [of qr_Key "lg_Reservations lg" r] by (auto simp: reservations_ok_def)
  then show "QuotaRepo_Get lg key = Inr r"
    using assms r reservation_key_valid
    by (auto simp: QuotaRepo_Get_def scanReservation_def reservations_ok_def)
qed

lemma QuotaRepo_Get_NotFound:
  assumes "QuotaRepo_Get lg key = Inl ErrNotFound" and "reservations_ok (lg_Reservations lg)"
  shows "key \<notin> qr_Key ` set (lg_Reservations lg)"
  using assms(1) QuotaRepo_Get_Inr [OF assms(2), of key] by auto

lemma QuotaRepo_GetSpend_NotFound:
  assumes "QuotaRepo_GetSpend lg key = Inl ErrNotFound" and "spends_ok (lg_Spends lg)"
  shows "key \<notin> se_Key ` set (lg_Spends lg)"
proof
  assume "key \<in> se_Key ` set (lg_Spends lg)"
  then obtain s where s: "s \<in> set (lg_Spends lg)" "se_Key s = key" by blast
  then have "List.find (\<lambda>s. se_Key s = key) (lg_Spends lg) = Some s"
    using assms(2) find_key [of se_Key "lg_Spends lg" s] by (auto simp: spends_ok_def)
  moreover have "QuotaSpendEntry_Validate (Some s) = None" using s assms(2) by (simp add: spends_ok_def)
  moreover from this have "QuotaSpendKey_Validate (se_Key s) = None"
    by (simp add: QuotaSpendEntry_Validate.simps(2))
  ultimately show False using assms(1) s by (simp add: QuotaRepo_GetSpend_def scanSpend_def)
qed

subsection \<open>What each write does\<close>

lemma Reserve_Inr:
  assumes "QuotaRepo_Reserve lg (Some r) = Inr (created, lg')"
  shows "(\<not> created \<and> lg' = lg \<and> (\<exists>x. QuotaRepo_Get lg (qr_Key r) = Inr x \<and> sameReservationIntent x r)) \<or>
    (created \<and> lg' = lg\<lparr>lg_Reservations := lg_Reservations lg @ [r]\<rparr> \<and>
     qr_Status r = QuotaReservationReserved \<and> QuotaReservation_Validate (Some r) = None \<and>
     QuotaRepo_Get lg (qr_Key r) = Inl ErrNotFound)"
  using assms by (auto split: if_splits option.splits sum.splits)

lemma AppendSpend_Inr:
  assumes "QuotaRepo_AppendSpend H decode env lg (Some e) = Inr (created, lg')"
  shows "(\<not> created \<and> lg' = lg \<and> (\<exists>x. QuotaRepo_GetSpend lg (se_Key e) = Inr x \<and> sameSpendPayload x e)) \<or>
    (created \<and> lg' = lg\<lparr>lg_Spends := lg_Spends lg @ [e]\<rparr> \<and>
     QuotaSpendEntry_Validate (Some e) = None \<and> QuotaRepo_GetSpend lg (se_Key e) = Inl ErrNotFound \<and>
     (\<exists>r. QuotaRepo_Get lg (row_of e) = Inr r \<and> se_PolicyDigest e = qr_PolicyDigest r \<and>
        qr_Status r = QuotaReservationReserved \<and>
        validateSpendScopeAndCapacity H decode env lg e r = None))"
  using assms unfolding row_of_def by (auto split: if_splits option.splits sum.splits)

lemma spend_fits:
  assumes "validateSpendScopeAndCapacity H decode env lg e r = None" and "0 \<le> spent_on lg (qr_Key r)"
    and "spent_on lg (qr_Key r) \<le> qr_ReservedAmount r" and "qr_ReservedAmount r \<le> maxInt64"
  shows "spent_on lg (qr_Key r) + se_Amount e \<le> qr_ReservedAmount r"
proof -
  have "wrap64 (qr_ReservedAmount r - spent_on lg (qr_Key r)) =
      qr_ReservedAmount r - spent_on lg (qr_Key r)"
    using assms(2-4) by (intro wrap64_fits) auto
  then show ?thesis using assms(1)
    by (auto simp: validateSpendScopeAndCapacity_def Let_def split: if_splits option.splits prod.splits)
qed

text \<open>Rows hold int64 amounts.\<close>

definition ledger_in64 :: "Ledger \<Rightarrow> bool" where
  "ledger_in64 lg \<longleftrightarrow> (\<forall>r\<in>set (lg_Reservations lg). qr_ReservedAmount r \<le> maxInt64)"

lemma update_row_same:
  "qr_Key (update_row c v row) = qr_Key row"
  "qr_ReservedAmount (update_row c v row) = qr_ReservedAmount row"
  "qr_PolicyDigest (update_row c v row) = qr_PolicyDigest row"
  by (simp_all add: update_row_def)

text \<open>The row after a settlement, and the table: only the settled row changes.\<close>

definition settled_row :: "QuotaReservation \<Rightarrow> QuotaReservation \<Rightarrow> QuotaReservation \<Rightarrow> bool" where
  "settled_row x c y \<longleftrightarrow> (\<exists>t. y = x\<lparr>qr_Status := qr_Status c, qr_CommittedAmount := qr_CommittedAmount c,
     qr_ReleasedAmount := qr_ReleasedAmount c, qr_Version := qr_Version c, qr_UpdatedAt := t\<rparr>)"

lemma update_row_table:
  assumes "distinct (map qr_Key rs)" and "x \<in> set rs" and "qr_Key x = qr_Key c" and "qr_Version x = v"
  shows "map (update_row c v) rs = map (\<lambda>r. if r = x then update_row c v x else r) rs"
proof (rule map_cong [OF refl])
  fix r assume r: "r \<in> set rs"
  show "update_row c v r = (if r = x then update_row c v x else r)"
  proof (cases "r = x")
    case False
    then have "qr_Key r \<noteq> qr_Key x" using assms(1,2) r by (auto simp: distinct_map dest: inj_onD)
    then show ?thesis using assms(3) False by (simp add: update_row_def)
  qed simp
qed

lemma settled_row_valid:
  assumes "QuotaReservation_Validate (Some x) = None" and "QuotaReservation_Validate (Some c) = None"
    and "sameReservationIntent x c"
  shows "QuotaReservation_Validate (Some (x\<lparr>qr_Status := qr_Status c,
      qr_CommittedAmount := qr_CommittedAmount c, qr_ReleasedAmount := qr_ReleasedAmount c,
      qr_Version := qr_Version c, qr_UpdatedAt := qr_UpdatedAt c\<rparr>)) = None"
  using assms by (simp add: QuotaReservation_Validate.simps(2) sameReservationIntent_def)

lemma transition_Inr:
  assumes "QuotaRepo_transition lg (Some c) v target now = Inr lg'"
    and "reservations_ok (lg_Reservations lg)"
  shows "\<exists>x y. x \<in> set (lg_Reservations lg) \<and> qr_Key x = qr_Key c \<and> qr_Version x = v \<and>
    sameReservationIntent x c \<and> qr_Status x = QuotaReservationReserved \<and> qr_Status c = target \<and>
    QuotaReservationStatus_IsTerminal target \<and> settled_row x c y \<and>
    QuotaReservation_Validate (Some y) = None \<and>
    lg' = lg\<lparr>lg_Reservations := map (\<lambda>r. if r = x then y else r) (lg_Reservations lg)\<rparr>"
proof -
  obtain x where x: "QuotaRepo_Get lg (qr_Key c) = Inr x"
    using assms(1) by (auto split: if_splits sum.splits)
  then have x': "x \<in> set (lg_Reservations lg)" "qr_Key x = qr_Key c"
    using QuotaRepo_Get_Inr [OF assms(2)] by auto
  define c1 where "c1 = (if IsZero (qr_CreatedAt c) then c\<lparr>qr_CreatedAt := qr_CreatedAt x\<rparr> else c)"
  define c2 where "c2 = (if IsZero (qr_UpdatedAt c1) then c1\<lparr>qr_UpdatedAt := now\<rparr> else c1)"
  have c2: "qr_Key c2 = qr_Key c" "qr_Status c2 = qr_Status c"
    "qr_CommittedAmount c2 = qr_CommittedAmount c" "qr_ReleasedAmount c2 = qr_ReleasedAmount c"
    "qr_Version c2 = qr_Version c" "sameReservationIntent x c2 = sameReservationIntent x c"
    by (simp_all add: c1_def c2_def sameReservationIntent_def)
  have run: "qr_Version x = v" "qr_Status c = target" "sameReservationIntent x c"
      "QuotaReservationStatus_CanTransitionTo (qr_Status x) target"
      "QuotaReservation_Validate (Some c2) = None"
      "lg' = lg\<lparr>lg_Reservations := map (update_row c2 v) (lg_Reservations lg)\<rparr>"
    using assms(1) x unfolding c2_def c1_def
    by (auto simp: Let_def split: if_splits option.splits)
  let ?y = "update_row c2 v x"
  have upd: "?y = x\<lparr>qr_Status := qr_Status c2, qr_CommittedAmount := qr_CommittedAmount c2,
      qr_ReleasedAmount := qr_ReleasedAmount c2, qr_Version := qr_Version c2,
      qr_UpdatedAt := qr_UpdatedAt c2\<rparr>"
    using x'(2) run(1) c2(1) by (simp add: update_row_def)
  have "QuotaReservation_Validate (Some x) = None"
    using x'(1) assms(2) by (simp add: reservations_ok_def)
  then have "QuotaReservation_Validate (Some ?y) = None"
    unfolding upd using run(3,5) c2(6) by (intro settled_row_valid) simp_all
  moreover have "settled_row x c ?y" unfolding settled_row_def upd using c2 by auto
  moreover have "map (update_row c2 v) (lg_Reservations lg) =
      map (\<lambda>r. if r = x then ?y else r) (lg_Reservations lg)"
    using assms(2) x' run(1) c2(1) by (intro update_row_table) (simp_all add: reservations_ok_def)
  then have "lg' = lg\<lparr>lg_Reservations := map (\<lambda>r. if r = x then ?y else r) (lg_Reservations lg)\<rparr>"
    using run(6) by (simp only:)
  moreover have "qr_Status x = QuotaReservationReserved" "QuotaReservationStatus_IsTerminal target"
    using run(4) by (auto simp: QuotaReservationStatus_CanTransitionTo_def
        QuotaReservationStatus_IsTerminal_def)
  ultimately show ?thesis
    using x' run(1-3) by blast
qed

subsection \<open>Every operation keeps the invariant\<close>

datatype ledger_op = LReserve "QuotaReservation option"
  | LSettle "QuotaReservation option" int QuotaReservationStatus time
  | LSpend LedgerEnv "QuotaSpendEntry option"

fun ledger_apply :: "priceSnapshotDigestPayload hasher \<Rightarrow> (goval \<Rightarrow> PriceSnapshotRef option) \<Rightarrow>
    ledger_op \<Rightarrow> Ledger \<Rightarrow> go_error + Ledger" where
  "ledger_apply H decode (LReserve r) lg = map_sum id snd (QuotaRepo_Reserve lg r)"
| "ledger_apply H decode (LSettle r v target now) lg = QuotaRepo_transition lg r v target now"
| "ledger_apply H decode (LSpend env e) lg = map_sum id snd (QuotaRepo_AppendSpend H decode env lg e)"

lemma covered_settled:
  assumes "covered lg" and "settled_row x c y"
  shows "covered (lg\<lparr>lg_Reservations := map (\<lambda>r. if r = x then y else r) (lg_Reservations lg)\<rparr>)"
    (is "covered ?lg")
proof -
  let ?f = "\<lambda>r. if r = x then y else r"
  have y: "qr_Key (?f r) = qr_Key r" "qr_ReservedAmount (?f r) = qr_ReservedAmount r"
      "qr_PolicyDigest (?f r) = qr_PolicyDigest r" for r
    using assms(2) by (auto simp: settled_row_def)
  show ?thesis
    unfolding covered_def
  proof
    show "\<forall>s\<in>set (lg_Spends ?lg). \<exists>r\<in>set (lg_Reservations ?lg).
        qr_Key r = row_of s \<and> qr_PolicyDigest r = se_PolicyDigest s"
    proof
      fix s assume "s \<in> set (lg_Spends ?lg)"
      then obtain r where "r \<in> set (lg_Reservations lg)" "qr_Key r = row_of s"
          "qr_PolicyDigest r = se_PolicyDigest s" using assms(1) by (auto simp: covered_def)
      then have "?f r \<in> set (lg_Reservations ?lg) \<and> qr_Key (?f r) = row_of s \<and>
          qr_PolicyDigest (?f r) = se_PolicyDigest s" using y(1,3) [of r] by (simp del: if_image_distrib)
      then show "\<exists>r\<in>set (lg_Reservations ?lg). qr_Key r = row_of s \<and>
          qr_PolicyDigest r = se_PolicyDigest s" by blast
    qed
    show "\<forall>r\<in>set (lg_Reservations ?lg). spent_on ?lg (qr_Key r) \<le> qr_ReservedAmount r"
    proof
      fix r assume "r \<in> set (lg_Reservations ?lg)"
      then obtain r0 where "r0 \<in> set (lg_Reservations lg)" "r = ?f r0" by auto
      then show "spent_on ?lg (qr_Key r) \<le> qr_ReservedAmount r"
        using assms(1) y(1,2) [of r0] by (simp add: covered_def)
    qed
  qed
qed

lemma reservations_ok_settled:
  assumes "reservations_ok rs" and "settled_row x c y" and "QuotaReservation_Validate (Some y) = None"
  shows "reservations_ok (map (\<lambda>r. if r = x then y else r) rs)"
proof -
  have "map qr_Key (map (\<lambda>r. if r = x then y else r) rs) = map qr_Key rs"
    using assms(2) by (auto simp: settled_row_def)
  then have "distinct (map qr_Key (map (\<lambda>r. if r = x then y else r) rs))"
    using assms(1) by (simp only: reservations_ok_def)
  moreover have "\<forall>r\<in>set (map (\<lambda>r. if r = x then y else r) rs). QuotaReservation_Validate (Some r) = None"
    using assms(1,3) by (auto simp: reservations_ok_def)
  ultimately show ?thesis by (simp only: reservations_ok_def)
qed

lemma ledger_reserve_ok:
  assumes "ledger_ok lg" and "QuotaRepo_Reserve lg (Some r) = Inr (created, lg')"
  shows "ledger_ok lg'"
  using Reserve_Inr [OF assms(2)]
proof (elim disjE conjE)
  assume new: "lg' = lg\<lparr>lg_Reservations := lg_Reservations lg @ [r]\<rparr>"
    "QuotaReservation_Validate (Some r) = None" "QuotaRepo_Get lg (qr_Key r) = Inl ErrNotFound"
  have fresh: "qr_Key r \<notin> qr_Key ` set (lg_Reservations lg)"
    using QuotaRepo_Get_NotFound [OF new(3)] assms(1) by (simp add: ledger_ok_def)
  have "filter (\<lambda>s. row_of s = qr_Key r) (lg_Spends lg) = []"
    unfolding filter_empty_conv
  proof
    fix s assume "s \<in> set (lg_Spends lg)"
    then obtain x where "x \<in> set (lg_Reservations lg)" "qr_Key x = row_of s"
      using assms(1) unfolding ledger_ok_def covered_def by blast
    then show "row_of s \<noteq> qr_Key r" using fresh by (metis imageI)
  qed
  then have "spent_on lg (qr_Key r) = 0" by (simp add: spent_on_row)
  moreover have "0 \<le> qr_ReservedAmount r" using new(2) by (simp add: QuotaReservation_Validate.simps(2))
  ultimately show ?thesis
    using assms(1) new(1,2) fresh by (auto simp: ledger_ok_def reservations_ok_def covered_def)
qed (use assms(1) in simp)

lemma ledger_spend_ok:
  assumes "ledger_ok lg" and "ledger_in64 lg"
    and "QuotaRepo_AppendSpend H decode env lg (Some e) = Inr (created, lg')"
  shows "ledger_ok lg'"
  using AppendSpend_Inr [OF assms(3)]
proof (elim disjE conjE exE)
  fix r assume new: "lg' = lg\<lparr>lg_Spends := lg_Spends lg @ [e]\<rparr>"
    "QuotaSpendEntry_Validate (Some e) = None" "QuotaRepo_GetSpend lg (se_Key e) = Inl ErrNotFound"
    "QuotaRepo_Get lg (row_of e) = Inr r" "se_PolicyDigest e = qr_PolicyDigest r"
    "validateSpendScopeAndCapacity H decode env lg e r = None"
  have ok: "reservations_ok (lg_Reservations lg)" "spends_ok (lg_Spends lg)" "covered lg"
    using assms(1) by (simp_all add: ledger_ok_def)
  have r: "r \<in> set (lg_Reservations lg)" "qr_Key r = row_of e"
    using new(4) QuotaRepo_Get_Inr [OF ok(1)] by auto
  have "spent_on lg (qr_Key r) + se_Amount e \<le> qr_ReservedAmount r"
    using new(6) ok r assms(2) spent_on_nonneg
    by (intro spend_fits) (auto simp: covered_def ledger_in64_def)
  moreover have "x = r" if "x \<in> set (lg_Reservations lg)" "qr_Key x = row_of e" for x
    using inj_onD [of qr_Key "set (lg_Reservations lg)" x r] that r ok(1)
    by (simp add: reservations_ok_def distinct_map)
  ultimately have cap: "\<forall>x\<in>set (lg_Reservations lg). spent_on lg' (qr_Key x) \<le> qr_ReservedAmount x"
    using ok(3) unfolding covered_def new(1) spent_on_append by fastforce
  have "covered lg'"
    unfolding covered_def
  proof
    show "\<forall>s\<in>set (lg_Spends lg'). \<exists>r\<in>set (lg_Reservations lg').
        qr_Key r = row_of s \<and> qr_PolicyDigest r = se_PolicyDigest s"
      using ok(3) r new(5) unfolding covered_def new(1) by auto
    show "\<forall>r\<in>set (lg_Reservations lg'). spent_on lg' (qr_Key r) \<le> qr_ReservedAmount r"
      using cap by (simp add: new(1))
  qed
  moreover have "spends_ok (lg_Spends lg')"
    using ok(2) new QuotaRepo_GetSpend_NotFound [OF new(3) ok(2)] by (auto simp: spends_ok_def)
  ultimately show ?thesis using ok(1) new(1) by (simp add: ledger_ok_def)
qed (use assms(1) in simp_all)

lemma ledger_settle_ok:
  assumes "ledger_ok lg" and "QuotaRepo_transition lg (Some c) v target now = Inr lg'"
  shows "ledger_ok lg'"
proof -
  have ok: "reservations_ok (lg_Reservations lg)" "spends_ok (lg_Spends lg)" "covered lg"
    using assms(1) by (simp_all add: ledger_ok_def)
  from transition_Inr [OF assms(2) ok(1)] obtain x y where
    xy: "x \<in> set (lg_Reservations lg)" "settled_row x c y" "QuotaReservation_Validate (Some y) = None"
    "lg' = lg\<lparr>lg_Reservations := map (\<lambda>r. if r = x then y else r) (lg_Reservations lg)\<rparr>" by blast
  show ?thesis
    using reservations_ok_settled [OF ok(1) xy(2,3)] covered_settled [OF ok(3) xy(2)] ok(2)
    by (simp add: ledger_ok_def xy(4))
qed

interpretation ledger: aggregate ledger_ok "\<lambda>x lg. ledger_in64 lg" "ledger_apply H decode" for H decode
proof (unfold_locales, goal_cases)
  case (1 lg x lg')
  then show ?case
  proof (cases x)
    case (LReserve r)
    with 1 show ?thesis by (cases r) (auto simp: map_sum_def split: sum.splits intro: ledger_reserve_ok simp del: QuotaRepo_Reserve.simps(2))
  next
    case (LSettle r v target now)
    with 1 show ?thesis by (cases r) (auto intro: ledger_settle_ok simp del: QuotaRepo_transition.simps(2))
  next
    case (LSpend env e)
    with 1 show ?thesis by (cases e) (auto simp: map_sum_def split: sum.splits intro: ledger_spend_ok simp del: QuotaRepo_AppendSpend.simps(2))
  qed
qed



declare QuotaRepo_AppendSpend.simps(2) [simp del] QuotaRepo_Reserve.simps(2) [simp del]
  QuotaRepo_transition.simps(2) [simp del]

section \<open>Histories\<close>

fun op_in64 :: "ledger_op \<Rightarrow> bool" where
  "op_in64 (LReserve (Some r)) = (qr_ReservedAmount r \<le> maxInt64)"
| "op_in64 _ = True"

text \<open>What one accepted operation does to the two tables.\<close>

lemma ledger_apply_tables:
  assumes "ledger_apply H decode x lg = Inr lg'" and "reservations_ok (lg_Reservations lg)"
  shows "(\<exists>es. lg_Spends lg' = lg_Spends lg @ es) \<and>
    (\<forall>r\<in>set (lg_Reservations lg). QuotaReservationStatus_IsTerminal (qr_Status r) \<longrightarrow>
      r \<in> set (lg_Reservations lg')) \<and>
    (op_in64 x \<and> ledger_in64 lg \<longrightarrow> ledger_in64 lg')"
proof (cases x)
  case (LReserve r)
  with assms(1) obtain r' c where r: "r = Some r'" and run: "QuotaRepo_Reserve lg (Some r') = Inr (c, lg')"
    by (cases r) (auto simp: map_sum_def split: sum.splits)
  from Reserve_Inr [OF run] LReserve r show ?thesis by (auto simp: ledger_in64_def)
next
  case (LSettle c v target now)
  with assms(1) obtain c' where run: "QuotaRepo_transition lg (Some c') v target now = Inr lg'"
    by (cases c) auto
  from transition_Inr [OF run assms(2)] obtain z y where z: "z \<in> set (lg_Reservations lg)"
      "qr_Status z = QuotaReservationReserved" "settled_row z c' y"
      "lg' = lg\<lparr>lg_Reservations := map (\<lambda>r. if r = z then y else r) (lg_Reservations lg)\<rparr>" by blast
  have "r \<in> set (lg_Reservations lg')"
    if "r \<in> set (lg_Reservations lg)" "QuotaReservationStatus_IsTerminal (qr_Status r)" for r
    using that z(2,4) by (force simp: QuotaReservationStatus_IsTerminal_def)
  moreover have "ledger_in64 lg \<Longrightarrow> ledger_in64 lg'"
    using z(1,3,4) by (auto simp: ledger_in64_def settled_row_def)
  ultimately show ?thesis using z(4) LSettle by simp
next
  case (LSpend env e)
  with assms(1) obtain e' c where run: "QuotaRepo_AppendSpend H decode env lg (Some e') = Inr (c, lg')"
    by (cases e) (auto simp: map_sum_def split: sum.splits)
  from AppendSpend_Inr [OF run] LSpend show ?thesis by (auto simp: ledger_in64_def)
qed

lemma ledger_ok_reservations: "ledger_ok lg \<Longrightarrow> reservations_ok (lg_Reservations lg)"
  by (simp add: ledger_ok_def)

lemma ledger_ok_run:
  assumes "list_all op_in64 ops" and "ledger_ok lg" and "ledger_in64 lg"
  shows "ok_run (\<lambda>x lg. ledger_in64 lg) (ledger_apply H decode) lg ops"
  using assms
proof (induction ops arbitrary: lg)
  case (Cons x ops)
  show ?case
  proof (cases "ledger_apply H decode x lg")
    case (Inr lg')
    then have "ledger_ok lg'" "ledger_in64 lg'"
      using ledger.op_valid [OF _ _ Inr] Cons.prems
        ledger_apply_tables [OF Inr ledger_ok_reservations] by auto
    then show ?thesis using Cons Inr by simp
  qed (use Cons in simp)
qed simp

lemma ledger_run_tables:
  assumes "list_all op_in64 ops" and "ledger_ok lg" and "ledger_in64 lg"
  shows "(\<exists>es. lg_Spends (run_ops (ledger_apply H decode) lg ops) = lg_Spends lg @ es) \<and>
    (\<forall>r\<in>set (lg_Reservations lg). QuotaReservationStatus_IsTerminal (qr_Status r) \<longrightarrow>
      r \<in> set (lg_Reservations (run_ops (ledger_apply H decode) lg ops)))"
  using assms
proof (induction ops arbitrary: lg)
  case (Cons x ops)
  show ?case
  proof (cases "ledger_apply H decode x lg")
    case (Inr lg')
    note step = ledger_apply_tables [OF Inr ledger_ok_reservations [OF Cons.prems(2)]]
    have "ledger_ok lg'" "ledger_in64 lg'"
      using ledger.op_valid [OF _ _ Inr] Cons.prems step by auto
    from Cons.IH [OF _ this] Cons.prems(1) step Inr show ?thesis by auto
  qed (use Cons in simp)
qed simp

section \<open>Properties\<close>

definition empty_ledger :: Ledger where
  "empty_ledger = \<lparr>lg_Reservations = [], lg_Spends = []\<rparr>"

lemma empty_ledger_ok [simp]: "ledger_ok empty_ledger" "ledger_in64 empty_ledger"
  by (simp_all add: empty_ledger_def ledger_ok_def reservations_ok_def spends_ok_def covered_def ledger_in64_def)

text \<open>
  C8. Along any history of reserve, commit, release, expire and spend calls from an empty
  ledger, refused calls included: reservation keys and spend keys stay unique, every row is
  valid, every spend is against a reservation under the policy digest of that reservation, and
  no reservation is ever overspent.
\<close>

theorem ledger_never_overspent:
  assumes "list_all op_in64 ops"
    and "lg = run_ops (ledger_apply H decode) empty_ledger ops"
  shows "distinct (map qr_Key (lg_Reservations lg)) \<and> distinct (map se_Key (lg_Spends lg)) \<and>
    (\<forall>r\<in>set (lg_Reservations lg). QuotaReservation_Validate (Some r) = None \<and>
       0 \<le> spent_on lg (qr_Key r) \<and> spent_on lg (qr_Key r) \<le> qr_ReservedAmount r) \<and>
    (\<forall>s\<in>set (lg_Spends lg). QuotaSpendEntry_Validate (Some s) = None \<and>
       (\<exists>r\<in>set (lg_Reservations lg). qr_Key r = row_of s \<and> qr_PolicyDigest r = se_PolicyDigest s))"
proof -
  have "ledger_ok lg"
    unfolding assms(2) using ledger.run_valid ledger_ok_run [OF assms(1)] by simp
  then show ?thesis
    using spent_on_nonneg [of lg] by (auto simp: ledger_ok_def reservations_ok_def spends_ok_def covered_def)
qed

definition sample_open_row :: QuotaReservation where
  "sample_open_row = \<lparr>qr_Key = \<lparr>qk_TurnKey = \<lparr>tk_GoalID = ''goal_1'', tk_TodoID = ''todo_1'',
       tk_TurnSeq = 1\<rparr>, qk_Kind = QuotaTurnCount\<rparr>,
     qr_Status = QuotaReservationReserved, qr_ReservedAmount = 1, qr_CommittedAmount = 0,
     qr_ReleasedAmount = 0, qr_PolicyLimit = 3, qr_PolicyEnforcement = QuotaEnforcementEnforce,
     qr_PolicyDigest = canonical_digest 2, qr_Version = 1, qr_CreatedAt = 1, qr_UpdatedAt = 1\<rparr>"

definition sample_ledger_ops :: "ledger_op list" where
  "sample_ledger_ops = [LReserve (Some sample_open_row),
     LSettle (Some (sample_open_row\<lparr>qr_Status := QuotaReservationCommitted, qr_CommittedAmount := 1,
       qr_Version := 2, qr_UpdatedAt := 2\<rparr>)) 1 QuotaReservationCommitted 2]"

lemmas row_eval = QuotaReservation_Validate.simps(2) QuotaReservationKey_Validate_def
  TurnKey_Validate_def text_eval prefix_defs QuotaReservationStatus_IsTerminal_def IsZero_def
  QuotaEnforcement_Valid_def maxInt64_def wrap64_def inc64_def

definition sample_settled_row :: QuotaReservation where
  "sample_settled_row = sample_open_row\<lparr>qr_Status := QuotaReservationCommitted,
     qr_CommittedAmount := 1, qr_Version := 2, qr_UpdatedAt := 2\<rparr>"

lemma sample_row_valid:
  "QuotaReservation_Validate (Some sample_open_row) = None"
  "QuotaReservation_Validate (Some sample_settled_row) = None"
  by (simp_all add: sample_settled_row_def) (simp_all add: sample_open_row_def row_eval)

lemma sample_ledger_run:
  "run_ops (ledger_apply H decode) empty_ledger sample_ledger_ops =
     \<lparr>lg_Reservations = [sample_settled_row], lg_Spends = []\<rparr>"
proof -
  have key: "QuotaReservationKey_Validate (qr_Key sample_open_row) = None"
    using reservation_key_valid [OF sample_row_valid(1)] .
  have "ledger_apply H decode (LReserve (Some sample_open_row)) empty_ledger =
      Inr \<lparr>lg_Reservations = [sample_open_row], lg_Spends = []\<rparr>"
    using sample_row_valid(1) key
    by (simp add: QuotaRepo_Reserve.simps(2) empty_ledger_def QuotaRepo_Get_def)
      (simp add: sample_open_row_def)
  moreover have "QuotaRepo_Get \<lparr>lg_Reservations = [sample_open_row], lg_Spends = []\<rparr> (qr_Key sample_open_row) =
      Inr sample_open_row"
    using sample_row_valid(1) key by (simp add: QuotaRepo_Get_def scanReservation_def)
  then have "ledger_apply H decode (LSettle (Some sample_settled_row) 1 QuotaReservationCommitted 2)
      \<lparr>lg_Reservations = [sample_open_row], lg_Spends = []\<rparr> =
      Inr \<lparr>lg_Reservations = [sample_settled_row], lg_Spends = []\<rparr>"
    using sample_row_valid(2)
    by (simp add: QuotaRepo_transition.simps(2) sample_settled_row_def)
      (simp add: sample_open_row_def inc64_def wrap64_def maxInt64_def sameReservationIntent_def
        QuotaReservationStatus_CanTransitionTo_def affected_def update_row_def IsZero_def
        QuotaReservationKey_Equal_def TurnKey_Equal_def)
  ultimately show ?thesis
    by (simp add: sample_ledger_ops_def flip: sample_settled_row_def)
qed

theorem ledger_never_overspent_witness:
  "run_ops (ledger_apply sample_hash (\<lambda>_. None)) empty_ledger sample_ledger_ops =
     \<lparr>lg_Reservations = [sample_settled_row], lg_Spends = []\<rparr> \<and>
   QuotaReservation_Validate (Some sample_settled_row) = None"
  using ledger_never_overspent [of sample_ledger_ops _ sample_hash "\<lambda>_. None", OF _ refl] sample_ledger_run [of sample_hash "\<lambda>_. None"]
  by (simp add: sample_ledger_ops_def sample_open_row_def maxInt64_def)

text \<open>
  C25. The ledger is append-only: no later history removes or changes a spend row, and a
  reservation that is committed, released or expired never changes again.
\<close>

theorem ledger_append_only:
  assumes "list_all op_in64 ops" and "ledger_ok lg" and "ledger_in64 lg"
  shows "(\<exists>es. lg_Spends (run_ops (ledger_apply H decode) lg ops) = lg_Spends lg @ es) \<and>
    (\<forall>r\<in>set (lg_Reservations lg). QuotaReservationStatus_IsTerminal (qr_Status r) \<longrightarrow>
      r \<in> set (lg_Reservations (run_ops (ledger_apply H decode) lg ops)))"
  by (rule ledger_run_tables [OF assms])

theorem ledger_append_only_witness:
  "sample_settled_row \<in> set (lg_Reservations (run_ops (ledger_apply sample_hash (\<lambda>_. None))
     \<lparr>lg_Reservations = [sample_settled_row], lg_Spends = []\<rparr> [LReserve (Some sample_open_row)]))"
proof -
  let ?lg = "\<lparr>lg_Reservations = [sample_settled_row], lg_Spends = []\<rparr>"
  have "ledger_ok ?lg" "ledger_in64 ?lg"
    using sample_row_valid(2)
    by (simp_all add: ledger_ok_def reservations_ok_def spends_ok_def covered_def ledger_in64_def spent_on_def)
      (simp_all add: sample_settled_row_def sample_open_row_def maxInt64_def)
  from ledger_append_only [of "[LReserve (Some sample_open_row)]", OF _ this, of sample_hash "\<lambda>_. None"]
  show ?thesis
    by (simp add: QuotaReservationStatus_IsTerminal_def maxInt64_def sample_settled_row_def sample_open_row_def
        del: run_ops.simps)
qed

end
