(* ===== verification/Plans.thy ===== *)
theory Plans
  imports GovernanceTypes
begin

text \<open>
  \<^verbatim>\<open>internal/domain/plan.go\<close>: a plan is an ordered batch of steps with a status machine
  (active, waiting, finished, cancelled, failed) and an optimistic-lock version; and the
  decoded step types of \<^verbatim>\<open>internal/domain/plan_decision.go\<close> (their JSON syntax is not
  modelled).
\<close>

section \<open>Statuses, verbs and steps\<close>

datatype PlanStatus = PlanActive | PlanWaiting | PlanFinished | PlanCancelled | PlanFailed
  | PlanStatusOther string

fun PlanStatus_text :: "PlanStatus \<Rightarrow> string" where
  "PlanStatus_text PlanActive = ''active''"
| "PlanStatus_text PlanWaiting = ''waiting''"
| "PlanStatus_text PlanFinished = ''finished''"
| "PlanStatus_text PlanCancelled = ''cancelled''"
| "PlanStatus_text PlanFailed = ''failed''"
| "PlanStatus_text (PlanStatusOther s) = s"

fun planTransitions :: "PlanStatus \<Rightarrow> PlanStatus list" where
  "planTransitions PlanActive = [PlanWaiting, PlanFinished, PlanCancelled, PlanFailed]"
| "planTransitions PlanWaiting = [PlanActive, PlanFinished, PlanCancelled, PlanFailed]"
| "planTransitions _ = []"

definition PlanStatus_IsTerminal :: "PlanStatus \<Rightarrow> bool" where
  "PlanStatus_IsTerminal s \<longleftrightarrow> s = PlanFinished \<or> s = PlanCancelled \<or> s = PlanFailed"

definition PlanStatus_CanTransitionTo :: "PlanStatus \<Rightarrow> PlanStatus \<Rightarrow> bool" where
  "PlanStatus_CanTransitionTo s to \<longleftrightarrow> list_ex (\<lambda>ok. ok = to) (planTransitions s)"

datatype PlanVerb = PlanVerbDispatch | PlanVerbDefer | PlanVerbFinish | PlanVerbConsultKnowledge
  | PlanVerbJoin | PlanVerbOther string

fun ValidPlanVerb :: "PlanVerb \<Rightarrow> bool" where
  "ValidPlanVerb (PlanVerbOther _) = False"
| "ValidPlanVerb _ = True"

datatype PlanStepStatus = PlanStepPending | PlanStepExecuted | PlanStepSkipped | PlanStepFailed
  | PlanStepStatusOther string

record PlanStep =
  ps_PlanID :: string
  ps_Seq :: int
  ps_Verb :: PlanVerb
  ps_Payload :: gomap
  ps_Status :: PlanStepStatus
  ps_ResultWorkItemID :: string
  ps_ResultRunID :: string
  ps_Error :: string
  ps_CreatedAt :: time
  ps_ExecutedAt :: "time option"

record PlanGuardrails =
  pg_MaxDispatch :: "int option"
  pg_MaxTokens :: "int option"

record Plan =
  pl_ID :: string
  pl_WorkspaceID :: string
  pl_WorkItemID :: string
  pl_AgentProfileID :: string
  pl_SourceRunID :: string
  pl_ClientKey :: string
  pl_GovernanceTurnKey :: "TurnKey option"
  pl_DecisionSchemaVersion :: string
  pl_DecisionSchemaDigest :: string
  pl_DecisionDigest :: string
  pl_ContextSnapshotID :: string
  pl_ContextGeneration :: int
  pl_Status :: PlanStatus
  pl_SupersededBy :: string
  pl_Steps :: "PlanStep list"
  pl_Guardrails :: PlanGuardrails
  pl_Error :: string
  pl_Version :: int
  pl_CreatedAt :: time
  pl_UpdatedAt :: time

section \<open>Operations\<close>

definition Plan_Transition :: "Plan \<Rightarrow> PlanStatus \<Rightarrow> time \<Rightarrow> go_error + Plan" where
  "Plan_Transition p to now =
     (let err = ErrTransition ''plan'' (PlanStatus_text (pl_Status p)) (PlanStatus_text to)
      in if PlanStatus_IsTerminal (pl_Status p) then Inl err
         else if \<not> PlanStatus_CanTransitionTo (pl_Status p) to then Inl err
         else Inr (p\<lparr>pl_Status := to, pl_Version := inc64 (pl_Version p), pl_UpdatedAt := now\<rparr>))"

definition Plan_MarkWaiting :: "Plan \<Rightarrow> time \<Rightarrow> go_error + Plan" where
  "Plan_MarkWaiting p now = Plan_Transition p PlanWaiting now"

definition Plan_MarkActive :: "Plan \<Rightarrow> time \<Rightarrow> go_error + Plan" where
  "Plan_MarkActive p now = Plan_Transition p PlanActive now"

definition Plan_Finish :: "Plan \<Rightarrow> time \<Rightarrow> string \<Rightarrow> go_error + Plan" where
  "Plan_Finish p now supersededBy =
     (case Plan_Transition p PlanFinished now of
        Inl e \<Rightarrow> Inl e
      | Inr p' \<Rightarrow> Inr (p'\<lparr>pl_SupersededBy := supersededBy\<rparr>))"

definition Plan_CheckVersion :: "Plan \<Rightarrow> int \<Rightarrow> go_error option" where
  "Plan_CheckVersion p expected =
     (if expected \<noteq> 0 \<and> expected \<noteq> pl_Version p then Some ErrVersionConflict else None)"

definition Plan_Step :: "Plan \<Rightarrow> int \<Rightarrow> PlanStep option" where
  "Plan_Step p sq = List.find (\<lambda>s. ps_Seq s = sq) (pl_Steps p)"

section \<open>Decoded plan decisions (plan_decision.go)\<close>

record PlanDispatchStepV2 =
  pd_AgentID :: string
  pd_Title :: string
  pd_Instruction :: string
  pd_Acceptance :: "string list"
  pd_Priority :: "Priority option"
  pd_KnowledgeFrom :: "int option"

record PlanConsultKnowledgeStepV2 =
  pc_Corpus :: string
  pc_Terms :: "string list"
  pc_Limit :: "int option"

record JoinChildren =
  jc_All :: bool
  jc_IDs :: "string list"

record PlanDecisionStepV2 =
  ds_Verb :: PlanVerb
  ds_Dispatch :: "PlanDispatchStepV2 option"
  ds_ConsultKnowledge :: "PlanConsultKnowledgeStepV2 option"
  ds_Defer :: "time option option" \<comment> \<open>the defer branch with its optional wake_at\<close>
  ds_Join :: "(JoinChildren \<times> time option) option"
  ds_Finish :: "bool option option" \<comment> \<open>the finish branch with its optional evaluation\<close>

record PlanDecisionV2 =
  pv_SchemaVersion :: string
  pv_Kind :: string
  pv_Reason :: string
  pv_NextAction :: string
  pv_Steps :: "PlanDecisionStepV2 list"

section \<open>The status machine\<close>

lemma PlanStatus_CanTransitionTo_iff [simp]:
  "PlanStatus_CanTransitionTo s to \<longleftrightarrow> to \<in> set (planTransitions s)"
  by (auto simp: PlanStatus_CanTransitionTo_def list_ex_iff)

lemma Plan_Transition_Inr [simp]:
  "Plan_Transition p to now = Inr p' \<longleftrightarrow>
     to \<in> set (planTransitions (pl_Status p)) \<and>
     p' = p\<lparr>pl_Status := to, pl_Version := inc64 (pl_Version p), pl_UpdatedAt := now\<rparr>"
  by (cases "pl_Status p") (auto simp: Plan_Transition_def Let_def PlanStatus_IsTerminal_def)

text \<open>What a status change leaves alone: everything but status, version and update time.\<close>

definition Plan_frame :: "Plan \<Rightarrow> Plan" where
  "Plan_frame p = p\<lparr>pl_Status := PlanActive, pl_Version := 0, pl_UpdatedAt := 0\<rparr>"

interpretation plan: versioned_lifecycle pl_Status PlanStatus_IsTerminal PlanStatus_CanTransitionTo
  Plan_Transition Plan_frame pl_Version
proof (unfold_locales, goal_cases)
  case (1 e s now e')
  then show ?case by (cases "pl_Status e") (auto simp: PlanStatus_IsTerminal_def)
qed (auto simp: Plan_frame_def)

end
