(* ===== verification/Goals.thy ===== *)
theory Goals
  imports Plans
begin

text \<open>
  The Goal aggregate of \<^verbatim>\<open>internal/domain/governance.go\<close>: the Goal with its evidence
  gate. A nil receiver is the
  \<open>None\<close> case of each method.
\<close>

section \<open>Goal\<close>

datatype GoalStatus = GoalDraft | GoalActive | GoalWaiting | GoalBlocked | GoalCompleted
  | GoalCancelled | GoalStatusOther string

fun GoalStatus_text :: "GoalStatus \<Rightarrow> string" where
  "GoalStatus_text GoalDraft = ''draft''"
| "GoalStatus_text GoalActive = ''active''"
| "GoalStatus_text GoalWaiting = ''waiting''"
| "GoalStatus_text GoalBlocked = ''blocked''"
| "GoalStatus_text GoalCompleted = ''completed''"
| "GoalStatus_text GoalCancelled = ''cancelled''"
| "GoalStatus_text (GoalStatusOther s) = s"

fun GoalStatus_Valid :: "GoalStatus \<Rightarrow> bool" where
  "GoalStatus_Valid (GoalStatusOther _) = False"
| "GoalStatus_Valid _ = True"

definition GoalStatus_IsTerminal :: "GoalStatus \<Rightarrow> bool" where
  "GoalStatus_IsTerminal s \<longleftrightarrow> s = GoalCompleted \<or> s = GoalCancelled"

fun goalTransitions :: "GoalStatus \<Rightarrow> GoalStatus list" where
  "goalTransitions GoalDraft = [GoalActive, GoalBlocked, GoalCancelled]"
| "goalTransitions GoalActive = [GoalWaiting, GoalBlocked, GoalCompleted, GoalCancelled]"
| "goalTransitions GoalWaiting = [GoalActive, GoalBlocked, GoalCompleted, GoalCancelled]"
| "goalTransitions GoalBlocked = [GoalActive, GoalWaiting, GoalCancelled]"
| "goalTransitions _ = []"

definition GoalStatus_CanTransitionTo :: "GoalStatus \<Rightarrow> GoalStatus \<Rightarrow> bool" where
  "GoalStatus_CanTransitionTo s to \<longleftrightarrow> list_ex (\<lambda>c. c = to) (goalTransitions s)"

record Goal =
  go_ID :: string
  go_WorkspaceID :: string
  go_RootWorkItemID :: string
  go_Objective :: string
  go_AcceptanceContract :: "string list"
  go_Status :: GoalStatus
  go_Phase :: string
  go_CurrentTodoID :: string
  go_QuotaPolicies :: "QuotaPolicy list"
  go_CompletionEvidenceSummary :: "GovernanceEvidenceItem list"
  go_Version :: int
  go_CreatedAt :: time
  go_UpdatedAt :: time

definition Goal_CompletionReady :: "Goal option \<Rightarrow> bool" where
  "Goal_CompletionReady mg =
     (case mg of
        None \<Rightarrow> False
      | Some g \<Rightarrow>
          if go_CompletionEvidenceSummary g = [] then False
          else foldl (\<lambda>accepted e.
                 if ev_Verification e = EvidenceVerificationAccepted \<and>
                    ev_SourceKind e = EvidenceSourceWorkItem \<and>
                    ev_SourceID e = go_RootWorkItemID g then True else accepted)
               False (go_CompletionEvidenceSummary g))"

text \<open>The loop over the quota policies, with the kinds seen so far.\<close>

fun check_policies :: "QuotaKind list \<Rightarrow> QuotaPolicy list \<Rightarrow> go_error option" where
  "check_policies seen [] = None"
| "check_policies seen (p # ps) = first_error
     [wrapV ''goal.quota_policies'' (QuotaPolicy_Validate p),
      require (qp_Kind p \<notin> set seen) (ErrValidation ''duplicate quota policy''),
      check_policies (qp_Kind p # seen) ps]"

fun Goal_Validate :: "Goal option \<Rightarrow> go_error option" where
  "Goal_Validate None = Some (ErrValidation ''nil goal'')"
| "Goal_Validate (Some g) = first_error
     ([validateTypedID ''goal.id'' (go_ID g) PrefixGoal,
       validateTypedID ''goal.workspace_id'' (go_WorkspaceID g) PrefixWorkspace,
       validateTypedID ''goal.root_work_item_id'' (go_RootWorkItemID g) PrefixWorkItem,
       validateText ''goal.objective'' (go_Objective g) 20000,
       require (\<not> (length (go_AcceptanceContract g) = 0 \<or> length (go_AcceptanceContract g) > 64))
         (ErrValidation ''goal.acceptance_contract must contain 1..64 items'')]
      @ map (\<lambda>x. validateText ''goal.acceptance_contract'' x 2000) (go_AcceptanceContract g)
      @ [require (GoalStatus_Valid (go_Status g)) (ErrValidation ''goal.status''),
         validateText ''goal.phase'' (go_Phase g) 128,
         validateOptionalTypedID ''goal.current_todo_id'' (go_CurrentTodoID g) PrefixTodo,
         require (\<not> length (go_QuotaPolicies g) > 8)
           (ErrValidation ''goal.quota_policies exceeds 8 items''),
         check_policies [] (go_QuotaPolicies g),
         require (\<not> length (go_CompletionEvidenceSummary g) > 128)
           (ErrValidation ''goal.completion_evidence_summary exceeds 128 items'')]
      @ map (\<lambda>e. wrapV ''goal.completion_evidence_summary'' (GovernanceEvidenceItem_Validate e))
          (go_CompletionEvidenceSummary g)
      @ [require (\<not> go_Version g < 1) (ErrValidation ''goal.version must be >= 1''),
         require (\<not> (IsZero (go_CreatedAt g) \<or> IsZero (go_UpdatedAt g)))
           (ErrValidation ''goal timestamps are required''),
         require (\<not> (go_Status g = GoalCompleted \<and> \<not> Goal_CompletionReady (Some g)))
           (ErrValidation ''completed goal requires completion evidence'')])"

fun Goal_Transition :: "Goal option \<Rightarrow> GoalStatus \<Rightarrow> time \<Rightarrow> go_error + Goal" where
  "Goal_Transition None to now = Inl (ErrValidation ''nil goal'')"
| "Goal_Transition (Some g) to now =
     (if GoalStatus_IsTerminal (go_Status g) \<or> \<not> GoalStatus_CanTransitionTo (go_Status g) to then
        Inl (ErrTransition ''goal'' (GoalStatus_text (go_Status g)) (GoalStatus_text to))
      else if to = GoalCompleted \<and> \<not> Goal_CompletionReady (Some g) then
        Inl (ErrValidation ''goal completion requires authoritative evidence'')
      else Inr (g\<lparr>go_Status := to, go_Version := inc64 (go_Version g), go_UpdatedAt := now\<rparr>))"

definition Goal_Start :: "Goal option \<Rightarrow> time \<Rightarrow> go_error + Goal" where
  "Goal_Start g now = Goal_Transition g GoalActive now"

definition Goal_Pause :: "Goal option \<Rightarrow> time \<Rightarrow> go_error + Goal" where
  "Goal_Pause g now = Goal_Transition g GoalWaiting now"

definition Goal_Resume :: "Goal option \<Rightarrow> time \<Rightarrow> go_error + Goal" where
  "Goal_Resume g now = Goal_Transition g GoalActive now"

definition Goal_Complete :: "Goal option \<Rightarrow> time \<Rightarrow> go_error + Goal" where
  "Goal_Complete g now = Goal_Transition g GoalCompleted now"

definition Goal_Cancel :: "Goal option \<Rightarrow> time \<Rightarrow> go_error + Goal" where
  "Goal_Cancel g now = Goal_Transition g GoalCancelled now"

fun Goal_CheckVersion :: "Goal option \<Rightarrow> int \<Rightarrow> go_error option" where
  "Goal_CheckVersion None expected = Some (ErrValidation ''nil goal'')"
| "Goal_CheckVersion (Some g) expected =
     (if expected \<noteq> 0 \<and> expected \<noteq> go_Version g then Some ErrVersionConflict else None)"

section \<open>Facts about goals\<close>

lemma check_policies_None [simp]:
  "check_policies seen ps = None \<longleftrightarrow>
     (\<forall>p\<in>set ps. QuotaPolicy_Validate p = None) \<and> distinct (map qp_Kind ps) \<and>
     set (map qp_Kind ps) \<inter> set seen = {}"
  by (induction seen ps rule: check_policies.induct) auto

lemma CompletionReady_fold:
  "foldl (\<lambda>acc e. if P e then True else acc) b es \<longleftrightarrow> b \<or> (\<exists>e\<in>set es. P e)"
  by (induction es arbitrary: b) auto

lemma Goal_CompletionReady_iff:
  "Goal_CompletionReady (Some g) \<longleftrightarrow>
     (\<exists>e\<in>set (go_CompletionEvidenceSummary g).
        ev_Verification e = EvidenceVerificationAccepted \<and>
        ev_SourceKind e = EvidenceSourceWorkItem \<and> ev_SourceID e = go_RootWorkItemID g)"
  by (auto simp: Goal_CompletionReady_def CompletionReady_fold)

lemma GoalStatus_CanTransitionTo_iff [simp]:
  "GoalStatus_CanTransitionTo s to \<longleftrightarrow> to \<in> set (goalTransitions s)"
  by (auto simp: GoalStatus_CanTransitionTo_def list_ex_iff)

lemma goalTransitions_valid: "to \<in> set (goalTransitions s) \<Longrightarrow> GoalStatus_Valid to"
  by (cases s) auto

lemma Goal_Transition_Inr:
  "Goal_Transition (Some g) to now = Inr g' \<longleftrightarrow>
     to \<in> set (goalTransitions (go_Status g)) \<and>
     (to = GoalCompleted \<longrightarrow> Goal_CompletionReady (Some g)) \<and>
     g' = g\<lparr>go_Status := to, go_Version := inc64 (go_Version g), go_UpdatedAt := now\<rparr>"
  by (cases "go_Status g") (auto simp: GoalStatus_IsTerminal_def Goal_Transition.simps)

declare Goal_Transition.simps [simp del] Goal_Validate.simps [simp del]
lemmas goal_defs = Goal_Transition.simps Goal_Validate.simps

definition Goal_frame :: "Goal \<Rightarrow> Goal" where
  "Goal_frame g = g\<lparr>go_Status := GoalDraft, go_Version := 0, go_UpdatedAt := 0\<rparr>"

definition Goal_step :: "Goal \<Rightarrow> GoalStatus \<Rightarrow> time \<Rightarrow> go_error + Goal" where
  "Goal_step g to now = Goal_Transition (Some g) to now"

interpretation goal: versioned_lifecycle go_Status GoalStatus_IsTerminal GoalStatus_CanTransitionTo
  Goal_step Goal_frame go_Version
proof (unfold_locales, goal_cases)
  case (1 e s now e')
  then show ?case
    by (cases "go_Status e") (auto simp: Goal_step_def Goal_Transition_Inr GoalStatus_IsTerminal_def)
qed (auto simp: Goal_step_def Goal_Transition_Inr Goal_frame_def)

lemma Goal_step_ready:
  "Goal_CompletionReady (Some (keep g (Goal_step g to now))) = Goal_CompletionReady (Some g)"
  by (rule keepI) (auto simp: Goal_step_def Goal_Transition_Inr Goal_CompletionReady_iff)

lemma Goal_completed_ready:
  "(go_Status g = GoalCompleted \<longrightarrow> Goal_CompletionReady (Some g)) \<Longrightarrow>
   go_Status (run_steps Goal_step g xs) = GoalCompleted \<longrightarrow> Goal_CompletionReady (Some g)"
proof (induction xs arbitrary: g)
  case Nil
  then show ?case by simp
next
  case (Cons x xs)
  obtain to now where x: "x = (to, now)" by (cases x)
  let ?g = "keep g (Goal_step g to now)"
  have "go_Status ?g = GoalCompleted \<longrightarrow> Goal_CompletionReady (Some ?g)"
    using Cons.prems
    by (rule keepI) (auto simp: Goal_step_def Goal_Transition_Inr Goal_CompletionReady_iff)
  from Cons.IH [OF this] show ?case by (simp add: x Goal_step_ready)
qed

lemma Goal_Transition_valid:
  assumes "Goal_Validate (Some g) = None" and "\<not> IsZero now" and "go_Version g < maxInt64"
    and "Goal_Transition (Some g) to now = Inr g'"
  shows "Goal_Validate (Some g') = None"
proof -
  have "1 \<le> go_Version g" using assms(1) by (auto simp: Goal_Validate.simps)
  with assms(3) have "inc64 (go_Version g) = go_Version g + 1" by (intro inc64_ge1) auto
  with assms show ?thesis
    by (auto simp: Goal_Transition_Inr Goal_CompletionReady_iff Goal_Validate.simps dest: goalTransitions_valid)
qed

interpretation goal_agg: aggregate "\<lambda>g. Goal_Validate (Some g) = None"
  "\<lambda>(to, now) g. \<not> IsZero now \<and> go_Version g < maxInt64" "\<lambda>(to, now) g. Goal_step g to now"
  by unfold_locales (use Goal_Transition_valid in \<open>auto simp: Goal_step_def\<close>)

text \<open>Concrete values, at which the properties are applied.\<close>

definition sample_goal :: Goal where
  "sample_goal = \<lparr>go_ID = ''goal_1'', go_WorkspaceID = ''ws_1'', go_RootWorkItemID = ''wi_1'',
     go_Objective = ''ship'', go_AcceptanceContract = [''tests pass''], go_Status = GoalActive,
     go_Phase = ''build'', go_CurrentTodoID = '''', go_QuotaPolicies = [],
     go_CompletionEvidenceSummary =
       [\<lparr>ev_SourceKind = EvidenceSourceWorkItem, ev_SourceID = ''wi_1'',
         ev_Verification = EvidenceVerificationAccepted, ev_Summary = ''done'', ev_RecordedAt = 1\<rparr>],
     go_Version = 1, go_CreatedAt = 1, go_UpdatedAt = 1\<rparr>"

lemma sample_goal_valid: "Goal_Validate (Some sample_goal) = None"
  by (simp add: sample_goal_def Goal_Validate.simps text_eval prefix_defs IsZero_def
      GovernanceEvidenceItem_Validate_def EvidenceVerification_Valid_def)

section \<open>Properties\<close>

text \<open>
  C24. A Goal reaches completed, along any history of transitions (refused ones included),
  only if it carries an accepted item of work-item evidence about its own root work item.
\<close>

theorem goal_completed_has_evidence:
  assumes "Goal_Validate (Some g) = None"
    and "go_Status (run_steps Goal_step g xs) = GoalCompleted"
  shows "\<exists>e\<in>set (go_CompletionEvidenceSummary g).
     ev_Verification e = EvidenceVerificationAccepted \<and>
     ev_SourceKind e = EvidenceSourceWorkItem \<and> ev_SourceID e = go_RootWorkItemID g"
proof -
  have "go_Status g = GoalCompleted \<longrightarrow> Goal_CompletionReady (Some g)"
    using assms(1) by (simp add: Goal_Validate.simps)
  from Goal_completed_ready [OF this] assms(2) show ?thesis
    by (simp add: Goal_CompletionReady_iff)
qed

theorem goal_completed_has_evidence_witness:
  "\<exists>e\<in>set (go_CompletionEvidenceSummary sample_goal). ev_SourceID e = ''wi_1''"
  using goal_completed_has_evidence
    [OF sample_goal_valid, of "[(GoalDraft, 2), (GoalWaiting, 3), (GoalCompleted, 4)]"]
  by (simp add: sample_goal_def Goal_step_def Goal_Transition.simps GoalStatus_IsTerminal_def
      Goal_CompletionReady_iff)

text \<open>
  A Goal that has reached completed or cancelled never changes again, and a writer that
  read a Goal before some accepted transition is refused by the optimistic lock after it.
\<close>

theorem goal_terminal_and_lock:
  "(GoalStatus_IsTerminal (go_Status g) \<longrightarrow> run_steps Goal_step g xs = g) \<and>
   (1 \<le> go_Version g \<and> go_Version g + int (length xs) \<le> maxInt64 \<and> run_steps Goal_step g xs \<noteq> g \<longrightarrow>
    Goal_CheckVersion (Some (run_steps Goal_step g xs)) (go_Version g) = Some ErrVersionConflict)"
  using goal.terminal_absorbing [of g xs] goal.stale_version_refused [of g xs]
  by (auto simp: check_version_def split: if_splits)

theorem goal_terminal_and_lock_witness:
  "Goal_CheckVersion (Some (run_steps Goal_step sample_goal [(GoalWaiting, 3)])) 1 =
     Some ErrVersionConflict"
proof -
  have "run_steps Goal_step sample_goal [(GoalWaiting, 3)] \<noteq> sample_goal"
    by (simp add: sample_goal_def Goal_step_def Goal_Transition.simps GoalStatus_IsTerminal_def)
  then show ?thesis
    using goal_terminal_and_lock [of sample_goal "[(GoalWaiting, 3)]"]
    by (simp add: sample_goal_def maxInt64_def del: run_steps.simps Goal_CheckVersion.simps)
qed

end
