(* ===== verification/Todos.thy ===== *)
theory Todos
  imports Goals
begin

text \<open>
  The Todo of \<^verbatim>\<open>internal/domain/governance.go\<close> with its decision scope, its claim (owner,
  generation, expiry) and its completion evidence, and the recorded turn decision. The
  claim generation only grows, which is what fences an owner that lost its claim. When
  ReleaseClaim reports the counter overflow the Go code may already have raised the
  counter of the (invalid) Todo to the claim's; the model returns the error alone.
\<close>

section \<open>Todo (governance.go)\<close>

datatype TodoClass = TodoAdvancement | TodoMonitor | TodoUserGate | TodoBlocker | TodoValidation
  | TodoClassOther string

fun TodoClass_Valid :: "TodoClass \<Rightarrow> bool" where
  "TodoClass_Valid (TodoClassOther _) = False"
| "TodoClass_Valid _ = True"

datatype TodoStatus = TodoPending | TodoClaimed | TodoRunning | TodoWaiting | TodoCompleted
  | TodoBlocked | TodoCancelled | TodoStatusOther string

fun TodoStatus_text :: "TodoStatus \<Rightarrow> string" where
  "TodoStatus_text TodoPending = ''pending''"
| "TodoStatus_text TodoClaimed = ''claimed''"
| "TodoStatus_text TodoRunning = ''running''"
| "TodoStatus_text TodoWaiting = ''waiting''"
| "TodoStatus_text TodoCompleted = ''completed''"
| "TodoStatus_text TodoBlocked = ''blocked''"
| "TodoStatus_text TodoCancelled = ''cancelled''"
| "TodoStatus_text (TodoStatusOther s) = s"

fun TodoStatus_Valid :: "TodoStatus \<Rightarrow> bool" where
  "TodoStatus_Valid (TodoStatusOther _) = False"
| "TodoStatus_Valid _ = True"

definition TodoStatus_IsTerminal :: "TodoStatus \<Rightarrow> bool" where
  "TodoStatus_IsTerminal s \<longleftrightarrow> s = TodoCompleted \<or> s = TodoCancelled"

fun todoTransitions :: "TodoStatus \<Rightarrow> TodoStatus list" where
  "todoTransitions TodoPending = [TodoClaimed, TodoWaiting, TodoBlocked, TodoCancelled]"
| "todoTransitions TodoClaimed =
     [TodoRunning, TodoPending, TodoWaiting, TodoBlocked, TodoCancelled]"
| "todoTransitions TodoRunning = [TodoWaiting, TodoCompleted, TodoBlocked, TodoCancelled]"
| "todoTransitions TodoWaiting =
     [TodoPending, TodoClaimed, TodoCompleted, TodoBlocked, TodoCancelled]"
| "todoTransitions TodoBlocked = [TodoPending, TodoClaimed, TodoWaiting, TodoCancelled]"
| "todoTransitions _ = []"

definition TodoStatus_CanTransitionTo :: "TodoStatus \<Rightarrow> TodoStatus \<Rightarrow> bool" where
  "TodoStatus_CanTransitionTo s to \<longleftrightarrow> list_ex (\<lambda>c. c = to) (todoTransitions s)"

record TodoClaim =
  tc_OwnerAgentID :: string
  tc_Version :: int
  tc_ClaimedAt :: time
  tc_ExpiresAt :: time

fun TodoClaim_Validate :: "TodoClaim option \<Rightarrow> go_error option" where
  "TodoClaim_Validate None = Some (ErrValidation ''nil todo claim'')"
| "TodoClaim_Validate (Some c) = first_error
     [validateTypedID ''todo.claim.owner_agent_id'' (tc_OwnerAgentID c) PrefixAgent,
      require (\<not> tc_Version c < 1) (ErrValidation ''todo.claim.version must be >= 1''),
      require (\<not> (IsZero (tc_ClaimedAt c) \<or> IsZero (tc_ExpiresAt c) \<or>
                 \<not> tc_ExpiresAt c > tc_ClaimedAt c))
        (ErrValidation ''todo.claim expiry must be after claimed_at'')]"

definition ValidRuntimeCapability :: "string \<Rightarrow> bool" where
  "ValidRuntimeCapability c \<longleftrightarrow>
     c = ''structured_transport'' \<or> c = ''schema_constrained_output'' \<or> c = ''control_tool_call''"

record DecisionScope =
  sc_WorkItemIDs :: "string list"
  sc_AgentIDs :: "string list"
  sc_RuntimeCapabilities :: "string list"
  sc_WriteScopes :: "string list"
  sc_MaxDispatch :: int

fun DecisionScope_Validate :: "DecisionScope option \<Rightarrow> go_error option" where
  "DecisionScope_Validate None = Some (ErrValidation ''nil decision scope'')"
| "DecisionScope_Validate (Some s) = first_error
     ([validateTypedIDList ''decision_scope.work_item_ids'' (sc_WorkItemIDs s) 1 128 PrefixWorkItem,
       validateTypedIDList ''decision_scope.agent_ids'' (sc_AgentIDs s) 1 128 PrefixAgent,
       require (\<not> length (sc_RuntimeCapabilities s) > 3)
         (ErrValidation ''decision_scope.runtime_capabilities exceeds 3 items''),
       require (firstDuplicate (sc_RuntimeCapabilities s) = '''')
         (ErrValidation ''duplicate runtime capability'')]
      @ map (\<lambda>c. require (ValidRuntimeCapability c)
                 (ErrValidation ''decision_scope.runtime_capabilities''))
          (sc_RuntimeCapabilities s)
      @ [require (\<not> length (sc_WriteScopes s) > 128)
           (ErrValidation ''decision_scope.write_scopes exceeds 128 items''),
         require (firstDuplicate (sc_WriteScopes s) = '''') (ErrValidation ''duplicate write scope'')]
      @ map (\<lambda>w. wrapV ''decision_scope.write_scopes'' (validateWriteScope w)) (sc_WriteScopes s)
      @ [require (\<not> (sc_MaxDispatch s < 0 \<or> sc_MaxDispatch s > 64))
           (ErrValidation ''decision_scope.max_dispatch must be in 0..64'')])"

record Todo =
  td_ID :: string
  td_GoalID :: string
  td_Class :: TodoClass
  td_Status :: TodoStatus
  td_Instruction :: string
  td_Acceptance :: "string list"
  td_ResumeCondition :: string
  td_Priority :: Priority
  td_Predecessors :: "string list"
  td_Successors :: "string list"
  td_DecisionScope :: DecisionScope
  td_Claim :: "TodoClaim option"
  td_ClaimVersion :: int
  td_LastTurnSeq :: int
  td_CompletionTurnKey :: "TurnKey option"
  td_CompletionEvidenceID :: string
  td_Version :: int
  td_CreatedAt :: time
  td_UpdatedAt :: time

fun Todo_Validate :: "Todo option \<Rightarrow> go_error option" where
  "Todo_Validate None = Some (ErrValidation ''nil todo'')"
| "Todo_Validate (Some t) = first_error
     ([validateTypedID ''todo.id'' (td_ID t) PrefixTodo,
       validateTypedID ''todo.goal_id'' (td_GoalID t) PrefixGoal,
       require (TodoClass_Valid (td_Class t)) (ErrValidation ''todo.class''),
       require (TodoStatus_Valid (td_Status t)) (ErrValidation ''todo.status''),
       validateText ''todo.instruction'' (td_Instruction t) 20000,
       require (\<not> (length (td_Acceptance t) = 0 \<or> length (td_Acceptance t) > 64))
         (ErrValidation ''todo.acceptance must contain 1..64 items'')]
      @ map (\<lambda>x. validateText ''todo.acceptance'' x 2000) (td_Acceptance t)
      @ [if td_ResumeCondition t \<noteq> ''''
         then validateText ''todo.resume_condition'' (td_ResumeCondition t) 4000 else None,
         require (Priority_Valid (td_Priority t)) (ErrValidation ''todo.priority''),
         validateTypedIDList ''todo.predecessors'' (td_Predecessors t) 0 128 PrefixTodo,
         validateTypedIDList ''todo.successors'' (td_Successors t) 0 128 PrefixTodo,
         DecisionScope_Validate (Some (td_DecisionScope t)),
         (case td_Claim t of
            None \<Rightarrow> None
          | Some c \<Rightarrow> first_error
              [TodoClaim_Validate (Some c),
               require (\<not> (td_ClaimVersion t < 1 \<or> tc_Version c \<noteq> td_ClaimVersion t))
                 (ErrValidation ''todo.claim.version must equal claim_version''),
               require (containsString (sc_AgentIDs (td_DecisionScope t)) (tc_OwnerAgentID c))
                 (ErrValidation ''todo.claim.owner_agent_id is outside decision scope'')]),
         require (\<not> ((td_Status t = TodoClaimed \<or> td_Status t = TodoRunning) \<and> td_Claim t = None))
           (ErrValidation ''todo status requires a governance claim''),
         require (\<not> td_LastTurnSeq t < 0) (ErrValidation ''todo.last_turn_seq must be >= 0''),
         (case td_CompletionTurnKey t of
            None \<Rightarrow> None
          | Some k \<Rightarrow> first_error
              [TurnKey_Validate k,
               require (\<not> (tk_GoalID k \<noteq> td_GoalID t \<or> tk_TodoID k \<noteq> td_ID t \<or>
                          tk_TurnSeq k \<noteq> td_LastTurnSeq t))
                 (ErrValidation ''todo completion turn key does not match Todo watermark'')]),
         if td_CompletionEvidenceID t \<noteq> ''''
         then validateText ''todo.completion_evidence_id'' (td_CompletionEvidenceID t) 256 else None,
         require (\<not> (td_Status t \<noteq> TodoCompleted \<and>
                    (td_CompletionTurnKey t \<noteq> None \<or> td_CompletionEvidenceID t \<noteq> '''')))
           (ErrValidation ''non-completed Todo must not retain completion identity''),
         require (\<not> (td_Status t = TodoCompleted \<and>
                    (td_CompletionTurnKey t = None \<or> td_CompletionEvidenceID t = '''')))
           (ErrValidation ''completed Todo requires completion turn key and evidence''),
         require (\<not> td_ClaimVersion t < 0) (ErrValidation ''todo.claim_version must be >= 0''),
         require (\<not> td_Version t < 1) (ErrValidation ''todo.version must be >= 1''),
         require (\<not> (IsZero (td_CreatedAt t) \<or> IsZero (td_UpdatedAt t)))
           (ErrValidation ''todo timestamps are required'')])"

fun Todo_Transition :: "Todo option \<Rightarrow> TodoStatus \<Rightarrow> time \<Rightarrow> go_error + Todo" where
  "Todo_Transition None to now = Inl (ErrValidation ''nil todo'')"
| "Todo_Transition (Some t) to now = guarded
     (first_error
       [require (\<not> (TodoStatus_IsTerminal (td_Status t) \<or>
                   \<not> TodoStatus_CanTransitionTo (td_Status t) to))
          (ErrTransition ''todo'' (TodoStatus_text (td_Status t)) (TodoStatus_text to)),
        if to = TodoRunning then
          (case td_Claim t of
             None \<Rightarrow> Some (ErrValidation ''todo.running requires an active governance claim'')
           | Some c \<Rightarrow> first_error
               [TodoClaim_Validate (Some c),
                require (\<not> (td_ClaimVersion t < 1 \<or> tc_Version c \<noteq> td_ClaimVersion t))
                  (ErrValidation ''todo.running requires claim_version to match claim'')])
        else None])
     (t\<lparr>td_Status := to, td_Version := inc64 (td_Version t), td_UpdatedAt := now\<rparr>)"

fun Todo_CompleteWithEvidence ::
    "Todo option \<Rightarrow> TurnKey \<Rightarrow> string \<Rightarrow> time \<Rightarrow> go_error + Todo" where
  "Todo_CompleteWithEvidence None key evidenceID now = Inl (ErrValidation ''nil todo'')"
| "Todo_CompleteWithEvidence (Some t) key evidenceID now =
     (case first_error
        [TurnKey_Validate key,
         require (\<not> (tk_GoalID key \<noteq> td_GoalID t \<or> tk_TodoID key \<noteq> td_ID t \<or>
                    tk_TurnSeq key < 1 \<or> tk_TurnSeq key \<noteq> td_LastTurnSeq t))
           (ErrStateConflict ''Todo completion turn key does not match Todo''),
         validateText ''todo.completion_evidence_id'' evidenceID 256] of
        Some e \<Rightarrow> Inl e
      | None \<Rightarrow>
          if td_Status t = TodoCompleted then
            (case td_CompletionTurnKey t of
               Some k \<Rightarrow> if TurnKey_Equal k key \<and> td_CompletionEvidenceID t = evidenceID
                         then Inr t else Inl ErrIdempotencyConflict
             | None \<Rightarrow> Inl ErrIdempotencyConflict)
          else if td_Status t \<noteq> TodoWaiting \<and> td_Status t \<noteq> TodoRunning then
            Inl (ErrTransition ''todo'' (TodoStatus_text (td_Status t)) (TodoStatus_text TodoCompleted))
          else if td_ClaimVersion t = maxInt64 then
            Inl (ErrValidation ''todo.claim_version overflow'')
          else Inr (t\<lparr>td_Status := TodoCompleted, td_Claim := None,
                     td_ClaimVersion := inc64 (td_ClaimVersion t),
                     td_CompletionTurnKey := Some key, td_CompletionEvidenceID := evidenceID,
                     td_Version := inc64 (td_Version t), td_UpdatedAt := now\<rparr>))"

fun Todo_ClaimBy :: "Todo option \<Rightarrow> string \<Rightarrow> time \<Rightarrow> time \<Rightarrow> go_error + Todo" where
  "Todo_ClaimBy None owner claimedAt expiresAt = Inl (ErrValidation ''nil todo'')"
| "Todo_ClaimBy (Some t) owner claimedAt expiresAt =
     (let claim = \<lparr>tc_OwnerAgentID = owner, tc_Version = inc64 (td_ClaimVersion t),
                   tc_ClaimedAt = claimedAt, tc_ExpiresAt = expiresAt\<rparr>
      in guarded
        (first_error
          [require (\<not> tc_Version claim < 1) (ErrValidation ''todo.claim_version overflow''),
           TodoClaim_Validate (Some claim),
           require (containsString (sc_AgentIDs (td_DecisionScope t)) owner)
             (ErrValidation ''claim owner is outside decision scope''),
           require (\<not> TodoStatus_IsTerminal (td_Status t))
             (ErrTransition ''todo'' (TodoStatus_text (td_Status t)) (TodoStatus_text TodoClaimed)),
           (case td_Claim t of
              None \<Rightarrow> None
            | Some c \<Rightarrow> require (\<not> (tc_OwnerAgentID c \<noteq> owner \<and> tc_ExpiresAt c > claimedAt))
                          (ErrStateConflict '''')) ])
        (t\<lparr>td_ClaimVersion := tc_Version claim, td_Claim := Some claim,
           td_Status := (if td_Status t = TodoPending \<or> td_Status t = TodoWaiting \<or>
                            td_Status t = TodoBlocked then TodoClaimed else td_Status t),
           td_Version := inc64 (td_Version t), td_UpdatedAt := claimedAt\<rparr>))"

fun Todo_ReleaseClaim :: "Todo option \<Rightarrow> time \<Rightarrow> go_error + Todo" where
  "Todo_ReleaseClaim None now = Inl (ErrValidation ''nil todo'')"
| "Todo_ReleaseClaim (Some t) now =
     (case td_Claim t of
        None \<Rightarrow> Inr t
      | Some c \<Rightarrow>
          if td_Status t = TodoRunning then Inl (ErrStateConflict '''')
          else
            (let cv = (if td_ClaimVersion t < tc_Version c then tc_Version c else td_ClaimVersion t)
             in if cv = maxInt64 then Inl (ErrValidation ''todo.claim_version overflow'')
                else Inr (t\<lparr>td_ClaimVersion := inc64 cv, td_Claim := None,
                     td_Status := (if td_Status t = TodoClaimed then TodoPending else td_Status t),
                     td_Version := inc64 (td_Version t), td_UpdatedAt := now\<rparr>)))"

fun Todo_RenewClaim :: "Todo option \<Rightarrow> string \<Rightarrow> int \<Rightarrow> time \<Rightarrow> time \<Rightarrow> go_error + Todo" where
  "Todo_RenewClaim None owner cv renewedAt expiresAt = Inl (ErrValidation ''nil todo'')"
| "Todo_RenewClaim (Some t) owner cv renewedAt expiresAt =
     (if owner = '''' \<or> cv < 1 \<or> \<not> expiresAt > renewedAt then
        Inl (ErrValidation ''invalid Todo claim renewal'')
      else
        (case td_Claim t of
           None \<Rightarrow> Inl (ErrStateConflict '''')
         | Some c \<Rightarrow>
             if TodoStatus_IsTerminal (td_Status t) \<or> tc_OwnerAgentID c \<noteq> owner \<or>
                td_ClaimVersion t \<noteq> cv \<or> tc_Version c \<noteq> cv then Inl (ErrStateConflict '''')
             else if \<not> expiresAt > tc_ExpiresAt c then
               Inl (ErrValidation ''Todo claim renewal must extend expiry'')
             else Inr (t\<lparr>td_Claim := Some (c\<lparr>tc_ExpiresAt := expiresAt\<rparr>),
                        td_Version := inc64 (td_Version t), td_UpdatedAt := renewedAt\<rparr>)))"

section \<open>Turn decisions (governance.go)\<close>

datatype TurnDecisionKind = TurnDecisionExecute | TurnDecisionRepair | TurnDecisionReplan
  | TurnDecisionWait | TurnDecisionUserAction | TurnDecisionFinish | TurnDecisionOther string

fun TurnDecisionKind_Valid :: "TurnDecisionKind \<Rightarrow> bool" where
  "TurnDecisionKind_Valid (TurnDecisionOther _) = False"
| "TurnDecisionKind_Valid _ = True"

record TurnDecision =
  dc_TurnKey :: TurnKey
  dc_Decision :: TurnDecisionKind
  dc_Reason :: string
  dc_NextAction :: string
  dc_SchemaVersion :: string
  dc_PlanDecision :: "PlanDecisionV2 option"
  dc_ValidationErrors :: "GovernanceValidationError list"
  dc_RecordedAt :: time

fun TurnDecision_Validate :: "TurnDecision option \<Rightarrow> go_error option" where
  "TurnDecision_Validate None = Some (ErrValidation ''nil turn decision'')"
| "TurnDecision_Validate (Some d) = first_error
     ([TurnKey_Validate (dc_TurnKey d),
       require (TurnDecisionKind_Valid (dc_Decision d)) (ErrValidation ''turn decision''),
       validateText ''turn_decision.reason'' (dc_Reason d) 4000,
       validateText ''turn_decision.next_action'' (dc_NextAction d) 2000,
       validateText ''turn_decision.schema_version'' (dc_SchemaVersion d) 128,
       require (\<not> length (dc_ValidationErrors d) > 128)
         (ErrValidation ''turn_decision.validation_errors exceeds 128 items'')]
      @ map (\<lambda>e. wrapV ''turn_decision.validation_errors'' (GovernanceValidationError_Validate e))
          (dc_ValidationErrors d)
      @ [require (\<not> IsZero (dc_RecordedAt d))
           (ErrValidation ''turn_decision.recorded_at is required'')])"

section \<open>Facts about todos\<close>

lemma TodoStatus_CanTransitionTo_iff [simp]:
  "TodoStatus_CanTransitionTo s to \<longleftrightarrow> to \<in> set (todoTransitions s)"
  by (auto simp: TodoStatus_CanTransitionTo_def list_ex_iff)

lemma todoTransitions_valid: "to \<in> set (todoTransitions s) \<Longrightarrow> TodoStatus_Valid to"
  by (cases s) auto

lemma todoTransitions_not_terminal:
  "to \<in> set (todoTransitions s) \<Longrightarrow> \<not> TodoStatus_IsTerminal s"
  by (cases s) (auto simp: TodoStatus_IsTerminal_def)

text \<open>A claim that the Todo around it can carry.\<close>

definition claim_ok :: "Todo \<Rightarrow> TodoClaim \<Rightarrow> bool" where
  "claim_ok t c \<longleftrightarrow> TodoClaim_Validate (Some c) = None \<and> 1 \<le> td_ClaimVersion t \<and>
     tc_Version c = td_ClaimVersion t \<and> tc_OwnerAgentID c \<in> set (sc_AgentIDs (td_DecisionScope t))"

text \<open>The part of validity that no operation of the claim protocol touches.\<close>

definition Todo_static :: "Todo \<Rightarrow> bool" where
  "Todo_static t \<longleftrightarrow>
     isTypedID PrefixTodo (td_ID t) \<and> isTypedID PrefixGoal (td_GoalID t) \<and>
     TodoClass_Valid (td_Class t) \<and> isText 20000 (td_Instruction t) \<and>
     1 \<le> length (td_Acceptance t) \<and> length (td_Acceptance t) \<le> 64 \<and>
     (\<forall>x\<in>set (td_Acceptance t). isText 2000 x) \<and>
     (td_ResumeCondition t \<noteq> '''' \<longrightarrow> isText 4000 (td_ResumeCondition t)) \<and>
     Priority_Valid (td_Priority t) \<and>
     validateTypedIDList ''todo.predecessors'' (td_Predecessors t) 0 128 PrefixTodo = None \<and>
     validateTypedIDList ''todo.successors'' (td_Successors t) 0 128 PrefixTodo = None \<and>
     DecisionScope_Validate (Some (td_DecisionScope t)) = None \<and>
     0 \<le> td_LastTurnSeq t \<and> \<not> IsZero (td_CreatedAt t)"

text \<open>The part that it does touch.\<close>

definition Todo_dynamic :: "Todo \<Rightarrow> bool" where
  "Todo_dynamic t \<longleftrightarrow>
     TodoStatus_Valid (td_Status t) \<and> (\<forall>c. td_Claim t = Some c \<longrightarrow> claim_ok t c) \<and>
     (td_Status t = TodoClaimed \<or> td_Status t = TodoRunning \<longrightarrow> td_Claim t \<noteq> None) \<and>
     (\<forall>k. td_CompletionTurnKey t = Some k \<longrightarrow>
        TurnKey_Validate k = None \<and> tk_GoalID k = td_GoalID t \<and> tk_TodoID k = td_ID t \<and>
        tk_TurnSeq k = td_LastTurnSeq t) \<and>
     (td_CompletionEvidenceID t \<noteq> '''' \<longrightarrow> isText 256 (td_CompletionEvidenceID t)) \<and>
     (td_Status t = TodoCompleted \<longleftrightarrow> td_CompletionTurnKey t \<noteq> None) \<and>
     (td_Status t = TodoCompleted \<longleftrightarrow> td_CompletionEvidenceID t \<noteq> '''') \<and>
     0 \<le> td_ClaimVersion t \<and> 1 \<le> td_Version t \<and> \<not> IsZero (td_UpdatedAt t)"

lemma Todo_Validate_iff:
  "Todo_Validate (Some t) = None \<longleftrightarrow> Todo_static t \<and> Todo_dynamic t"
  unfolding Todo_static_def Todo_dynamic_def claim_ok_def
  by (cases "td_Claim t"; cases "td_CompletionTurnKey t")
     (auto simp: not_less Suc_le_eq simp del: TodoClaim_Validate.simps
        DecisionScope_Validate.simps validateTypedIDList_None)

declare Todo_Validate.simps [simp del] Todo_Transition.simps [simp del]
  Todo_CompleteWithEvidence.simps [simp del] Todo_ClaimBy.simps [simp del]
  Todo_ReleaseClaim.simps [simp del] Todo_RenewClaim.simps [simp del]
  TodoClaim_Validate.simps [simp del]
lemmas todo_defs = Todo_Validate.simps Todo_Transition.simps
  Todo_CompleteWithEvidence.simps Todo_ClaimBy.simps Todo_ReleaseClaim.simps
  Todo_RenewClaim.simps TodoClaim_Validate.simps

subsection \<open>What each operation does when it succeeds\<close>

lemma TodoClaim_ok_iff:
  "TodoClaim_Validate (Some c) = None \<longleftrightarrow>
     isTypedID PrefixAgent (tc_OwnerAgentID c) \<and> 1 \<le> tc_Version c \<and> tc_ClaimedAt c \<noteq> 0 \<and>
     tc_ExpiresAt c \<noteq> 0 \<and> tc_ClaimedAt c < tc_ExpiresAt c"
  by (auto simp: TodoClaim_Validate.simps IsZero_def)

lemma Todo_Transition_Inr:
  "Todo_Transition (Some t) to now = Inr t' \<longleftrightarrow>
     to \<in> set (todoTransitions (td_Status t)) \<and>
     (to = TodoRunning \<longrightarrow> (\<exists>c. td_Claim t = Some c \<and> TodoClaim_Validate (Some c) = None \<and>
        1 \<le> td_ClaimVersion t \<and> tc_Version c = td_ClaimVersion t)) \<and>
     t' = t\<lparr>td_Status := to, td_Version := inc64 (td_Version t), td_UpdatedAt := now\<rparr>"
  by (cases "td_Claim t") (auto simp: Todo_Transition.simps dest: todoTransitions_not_terminal)

lemma Todo_ClaimBy_Inr:
  assumes "Todo_ClaimBy (Some t) owner now exp = Inr t'"
  shows "isTypedID PrefixAgent owner" and "owner \<in> set (sc_AgentIDs (td_DecisionScope t))"
    and "now \<noteq> 0" and "exp \<noteq> 0" and "now < exp" and "1 \<le> inc64 (td_ClaimVersion t)"
    and "\<not> TodoStatus_IsTerminal (td_Status t)"
    and "\<And>c. td_Claim t = Some c \<Longrightarrow> tc_OwnerAgentID c = owner \<or> tc_ExpiresAt c \<le> now"
    and "t' = t\<lparr>td_ClaimVersion := inc64 (td_ClaimVersion t),
           td_Claim := Some \<lparr>tc_OwnerAgentID = owner, tc_Version = inc64 (td_ClaimVersion t),
                            tc_ClaimedAt = now, tc_ExpiresAt = exp\<rparr>,
           td_Status := (if td_Status t = TodoPending \<or> td_Status t = TodoWaiting \<or>
                            td_Status t = TodoBlocked then TodoClaimed else td_Status t),
           td_Version := inc64 (td_Version t), td_UpdatedAt := now\<rparr>"
  using assms by (auto simp: Todo_ClaimBy.simps Let_def TodoClaim_ok_iff not_less)

lemma Todo_ReleaseClaim_Inr:
  "Todo_ReleaseClaim (Some t) now = Inr t' \<longleftrightarrow>
     (td_Claim t = None \<and> t' = t) \<or>
     (\<exists>c. td_Claim t = Some c \<and> td_Status t \<noteq> TodoRunning \<and>
        max (td_ClaimVersion t) (tc_Version c) \<noteq> maxInt64 \<and>
        t' = t\<lparr>td_ClaimVersion := inc64 (max (td_ClaimVersion t) (tc_Version c)),
           td_Claim := None,
           td_Status := (if td_Status t = TodoClaimed then TodoPending else td_Status t),
           td_Version := inc64 (td_Version t), td_UpdatedAt := now\<rparr>)"
  by (cases "td_Claim t") (auto simp: Todo_ReleaseClaim.simps Let_def max_def)

lemma Todo_RenewClaim_Inr:
  "Todo_RenewClaim (Some t) owner cv now exp = Inr t' \<longleftrightarrow>
     (\<exists>c. td_Claim t = Some c \<and> owner \<noteq> '''' \<and> 1 \<le> cv \<and> now < exp \<and>
        \<not> TodoStatus_IsTerminal (td_Status t) \<and> tc_OwnerAgentID c = owner \<and>
        td_ClaimVersion t = cv \<and> tc_Version c = cv \<and> tc_ExpiresAt c < exp \<and>
        t' = t\<lparr>td_Claim := Some (c\<lparr>tc_ExpiresAt := exp\<rparr>),
               td_Version := inc64 (td_Version t), td_UpdatedAt := now\<rparr>)"
  by (cases "td_Claim t") (auto simp: Todo_RenewClaim.simps)

lemma Todo_Complete_Inr:
  assumes "Todo_CompleteWithEvidence (Some t) key ev now = Inr t'"
  shows "TurnKey_Validate key = None" and "tk_GoalID key = td_GoalID t"
    and "tk_TodoID key = td_ID t" and "tk_TurnSeq key = td_LastTurnSeq t" and "isText 256 ev"
    and "(t' = t \<and> td_Status t = TodoCompleted) \<or>
         ((td_Status t = TodoWaiting \<or> td_Status t = TodoRunning) \<and>
          td_ClaimVersion t \<noteq> maxInt64 \<and>
          t' = t\<lparr>td_Status := TodoCompleted, td_Claim := None,
                 td_ClaimVersion := inc64 (td_ClaimVersion t),
                 td_CompletionTurnKey := Some key, td_CompletionEvidenceID := ev,
                 td_Version := inc64 (td_Version t), td_UpdatedAt := now\<rparr>)"
  using assms
  by (auto simp: Todo_CompleteWithEvidence.simps split: option.splits if_splits)

subsection \<open>The claim protocol\<close>

datatype todo_op = OpTransition TodoStatus time | OpComplete TurnKey string time
  | OpClaim string time time | OpRelease time | OpRenew string int time time

fun todo_apply :: "todo_op \<Rightarrow> Todo \<Rightarrow> go_error + Todo" where
  "todo_apply (OpTransition to now) t = Todo_Transition (Some t) to now"
| "todo_apply (OpComplete key ev now) t = Todo_CompleteWithEvidence (Some t) key ev now"
| "todo_apply (OpClaim owner now exp) t = Todo_ClaimBy (Some t) owner now exp"
| "todo_apply (OpRelease now) t = Todo_ReleaseClaim (Some t) now"
| "todo_apply (OpRenew owner cv now exp) t = Todo_RenewClaim (Some t) owner cv now exp"

text \<open>
  What the callers owe an operation: a clock after the zero instant, counters below their
  maximum, completion through the operation that records the evidence, and no change to
  the status claimed without a claim.
\<close>

fun todo_op_now :: "todo_op \<Rightarrow> time" where
  "todo_op_now (OpTransition _ now) = now"
| "todo_op_now (OpComplete _ _ now) = now"
| "todo_op_now (OpClaim _ now _) = now"
| "todo_op_now (OpRelease now) = now"
| "todo_op_now (OpRenew _ _ now _) = now"

fun todo_op_shape :: "todo_op \<Rightarrow> Todo \<Rightarrow> bool" where
  "todo_op_shape (OpTransition to _) t \<longleftrightarrow>
     to \<noteq> TodoCompleted \<and> (to = TodoClaimed \<longrightarrow> td_Claim t \<noteq> None)"
| "todo_op_shape _ t \<longleftrightarrow> True"

definition todo_op_ok :: "todo_op \<Rightarrow> Todo \<Rightarrow> bool" where
  "todo_op_ok x t \<longleftrightarrow> 0 < todo_op_now x \<and> td_Version t < maxInt64 \<and>
     td_ClaimVersion t < maxInt64 \<and> todo_op_shape x t"

definition Todo_valid :: "Todo \<Rightarrow> bool" where
  "Todo_valid t \<longleftrightarrow> Todo_Validate (Some t) = None"

lemma inc64_ge0: "0 \<le> x \<Longrightarrow> x < maxInt64 \<Longrightarrow> inc64 x = x + 1"
  by (rule inc64_eq) (auto simp: in64_def maxInt64_def)

lemma todo_transition_dynamic:
  assumes "Todo_dynamic t" and "td_Version t < maxInt64" and "0 < now"
    and "to \<noteq> TodoCompleted" and "to = TodoClaimed \<longrightarrow> td_Claim t \<noteq> None"
    and "Todo_Transition (Some t) to now = Inr t'"
  shows "Todo_dynamic t'"
proof -
  have "inc64 (td_Version t) = td_Version t + 1"
    using assms(1,2) by (intro inc64_ge1) (auto simp: Todo_dynamic_def)
  moreover have "td_Status t \<noteq> TodoCompleted" and "TodoStatus_Valid to"
    using assms(6) todoTransitions_valid todoTransitions_not_terminal
    by (auto simp: Todo_Transition_Inr TodoStatus_IsTerminal_def)
  ultimately show ?thesis
    using assms unfolding Todo_Transition_Inr Todo_dynamic_def claim_ok_def
    by (auto simp: IsZero_def)
qed

lemma todo_claim_dynamic:
  assumes "Todo_dynamic t" and "td_Version t < maxInt64" and "td_ClaimVersion t < maxInt64"
    and "Todo_ClaimBy (Some t) owner now exp = Inr t'"
  shows "Todo_dynamic t'"
proof -
  note facts = Todo_ClaimBy_Inr [OF assms(4)]
  have "inc64 (td_Version t) = td_Version t + 1"
    using assms(1,2) by (intro inc64_ge1) (auto simp: Todo_dynamic_def)
  moreover have "inc64 (td_ClaimVersion t) = td_ClaimVersion t + 1" and "0 \<le> td_ClaimVersion t"
    using assms(1,3) by (auto simp: Todo_dynamic_def intro!: inc64_ge0)
  ultimately show ?thesis
    using assms(1) facts(1-7) unfolding facts(9) Todo_dynamic_def claim_ok_def TodoClaim_ok_iff
    by (auto simp: IsZero_def TodoStatus_IsTerminal_def)
qed

lemma todo_release_dynamic:
  assumes "Todo_dynamic t" and "td_Version t < maxInt64" and "td_ClaimVersion t < maxInt64"
    and "0 < now" and "Todo_ReleaseClaim (Some t) now = Inr t'"
  shows "Todo_dynamic t'"
proof (cases "td_Claim t")
  case None
  then show ?thesis using assms(1,5) by (simp add: Todo_ReleaseClaim.simps)
next
  case (Some c)
  have v: "inc64 (td_Version t) = td_Version t + 1"
    using assms(1,2) by (intro inc64_ge1) (auto simp: Todo_dynamic_def)
  have cv: "inc64 (td_ClaimVersion t) = td_ClaimVersion t + 1"
    using assms(1,3) by (auto simp: Todo_dynamic_def intro!: inc64_ge0)
  have "tc_Version c = td_ClaimVersion t"
    using assms(1) Some by (auto simp: Todo_dynamic_def claim_ok_def)
  then have "t' = t\<lparr>td_ClaimVersion := td_ClaimVersion t + 1, td_Claim := None,
      td_Status := (if td_Status t = TodoClaimed then TodoPending else td_Status t),
      td_Version := td_Version t + 1, td_UpdatedAt := now\<rparr>" and "td_Status t \<noteq> TodoRunning"
    using assms(5) Some v cv by (auto simp: Todo_ReleaseClaim_Inr)
  then show ?thesis
    using assms(1,4) by (auto simp: Todo_dynamic_def IsZero_def)
qed

lemma todo_renew_dynamic:
  assumes "Todo_dynamic t" and "td_Version t < maxInt64" and "0 < now"
    and "Todo_RenewClaim (Some t) owner cv now exp = Inr t'"
  shows "Todo_dynamic t'"
proof -
  from assms(4) obtain c where c: "td_Claim t = Some c" "now < exp" "tc_ExpiresAt c < exp"
    and t': "t' = t\<lparr>td_Claim := Some (c\<lparr>tc_ExpiresAt := exp\<rparr>),
               td_Version := inc64 (td_Version t), td_UpdatedAt := now\<rparr>"
    by (auto simp only: Todo_RenewClaim_Inr)
  have v: "inc64 (td_Version t) = td_Version t + 1"
    using assms(1,2) by (intro inc64_ge1) (auto simp: Todo_dynamic_def)
  have "claim_ok t c" using assms(1) c(1) by (simp add: Todo_dynamic_def)
  then have "claim_ok t' (c\<lparr>tc_ExpiresAt := exp\<rparr>)"
    using c assms(3) by (simp add: claim_ok_def TodoClaim_ok_iff t')
  then show ?thesis
    using assms(1,3) c v by (auto simp: Todo_dynamic_def IsZero_def t')
qed

lemma todo_complete_dynamic:
  assumes "Todo_dynamic t" and "td_Version t < maxInt64" and "td_ClaimVersion t < maxInt64"
    and "0 < now" and "Todo_CompleteWithEvidence (Some t) key ev now = Inr t'"
  shows "Todo_dynamic t'"
proof -
  note facts = Todo_Complete_Inr [OF assms(5)]
  have "inc64 (td_Version t) = td_Version t + 1"
    using assms(1,2) by (intro inc64_ge1) (auto simp: Todo_dynamic_def)
  moreover have "inc64 (td_ClaimVersion t) = td_ClaimVersion t + 1" and "0 \<le> td_ClaimVersion t"
    using assms(1,3) by (auto simp: Todo_dynamic_def intro!: inc64_ge0)
  moreover have "ev \<noteq> ''''" using facts(5) isText_nonempty by blast
  ultimately show ?thesis
    using facts(6) assms(1,4) facts(1-5)
    by (elim disjE) (auto simp: Todo_dynamic_def IsZero_def)
qed

lemma todo_op_static:
  assumes "todo_apply x t = Inr t'"
  shows "Todo_static t' = Todo_static t"
proof (cases x)
  case (OpTransition to now)
  then show ?thesis using assms by (auto simp: Todo_Transition_Inr Todo_static_def)
next
  case (OpComplete key ev now)
  then have "Todo_CompleteWithEvidence (Some t) key ev now = Inr t'" using assms by simp
  from Todo_Complete_Inr(6) [OF this] show ?thesis by (elim disjE) (auto simp: Todo_static_def)
next
  case (OpClaim owner now exp)
  then have "Todo_ClaimBy (Some t) owner now exp = Inr t'" using assms by simp
  from Todo_ClaimBy_Inr(9) [OF this] show ?thesis by (simp add: Todo_static_def)
next
  case (OpRelease now)
  then have "Todo_ReleaseClaim (Some t) now = Inr t'" using assms by simp
  then show ?thesis unfolding Todo_ReleaseClaim_Inr by (elim disjE exE) (simp_all add: Todo_static_def)
next
  case (OpRenew owner cv now exp)
  then have "Todo_RenewClaim (Some t) owner cv now exp = Inr t'" using assms by simp
  then show ?thesis unfolding Todo_RenewClaim_Inr by (elim exE) (simp add: Todo_static_def)
qed

interpretation todo: aggregate Todo_valid todo_op_ok todo_apply
proof (unfold_locales, goal_cases)
  case (1 t x t')
  have "Todo_dynamic t'"
    using 1 by (cases x)
      (auto simp: Todo_valid_def Todo_Validate_iff todo_op_ok_def
         simp del: not_None_eq
         intro: todo_transition_dynamic todo_claim_dynamic todo_release_dynamic
           todo_renew_dynamic todo_complete_dynamic)
  with 1 show ?case by (simp add: Todo_valid_def Todo_Validate_iff todo_op_static)
qed

text \<open>
  A generation of the claim identifies one grant: while the generation is unchanged the
  claim is the same one, at most extended.
\<close>

definition same_grant :: "TodoClaim \<Rightarrow> TodoClaim \<Rightarrow> bool" where
  "same_grant c d \<longleftrightarrow> d = c\<lparr>tc_ExpiresAt := tc_ExpiresAt d\<rparr> \<and> tc_ExpiresAt c \<le> tc_ExpiresAt d"

definition later_generation :: "Todo \<Rightarrow> Todo \<Rightarrow> bool" where
  "later_generation t u \<longleftrightarrow> td_ClaimVersion t < td_ClaimVersion u \<or>
     (td_ClaimVersion t = td_ClaimVersion u \<and>
      (\<forall>c. td_Claim t = Some c \<longrightarrow> (\<exists>d. td_Claim u = Some d \<and> same_grant c d)))"

lemma same_grant_refl [simp]: "same_grant c c"
  by (simp add: same_grant_def)

lemma same_grant_trans: "same_grant c d \<Longrightarrow> same_grant d e \<Longrightarrow> same_grant c e"
  unfolding same_grant_def by (cases c; cases d; cases e) auto

lemma later_generation_refl: "later_generation t t"
  by (auto simp: later_generation_def intro: same_grant_refl)

lemma later_generation_trans:
  "later_generation t u \<Longrightarrow> later_generation u v \<Longrightarrow> later_generation t v"
  unfolding later_generation_def by (force intro: same_grant_trans)

lemma later_generation_same:
  "td_ClaimVersion u = td_ClaimVersion t \<Longrightarrow> td_Claim u = td_Claim t \<Longrightarrow> later_generation t u"
  by (auto simp: later_generation_def intro: same_grant_refl)

lemma todo_op_later:
  assumes "Todo_dynamic t" and "todo_op_ok x t" and "todo_apply x t = Inr t'"
  shows "later_generation t t'"
proof -
  have inc: "inc64 (td_ClaimVersion t) = td_ClaimVersion t + 1"
    using assms(1,2) by (auto simp: Todo_dynamic_def todo_op_ok_def intro!: inc64_ge0)
  have cv: "\<And>c. td_Claim t = Some c \<Longrightarrow> tc_Version c = td_ClaimVersion t"
    using assms(1) by (auto simp: Todo_dynamic_def claim_ok_def)
  show ?thesis
  proof (cases x)
    case (OpTransition to now)
    then show ?thesis using assms(3) by (auto simp: Todo_Transition_Inr intro: later_generation_same)
  next
    case (OpComplete key ev now)
    then have "Todo_CompleteWithEvidence (Some t) key ev now = Inr t'" using assms(3) by simp
    from Todo_Complete_Inr(6) [OF this] inc show ?thesis
      by (elim disjE) (auto intro: later_generation_refl simp: later_generation_def)
  next
    case (OpClaim owner now exp)
    then have "Todo_ClaimBy (Some t) owner now exp = Inr t'" using assms(3) by simp
    from Todo_ClaimBy_Inr(9) [OF this] inc show ?thesis by (simp add: later_generation_def)
  next
    case (OpRelease now)
    then have "Todo_ReleaseClaim (Some t) now = Inr t'" using assms(3) by simp
    then show ?thesis unfolding Todo_ReleaseClaim_Inr using inc cv
      by (elim disjE exE) (auto intro: later_generation_refl simp: later_generation_def)
  next
    case (OpRenew owner v now exp)
    then have "Todo_RenewClaim (Some t) owner v now exp = Inr t'" using assms(3) by simp
    then show ?thesis unfolding Todo_RenewClaim_Inr
      by (elim exE) (simp add: later_generation_def same_grant_def)
  qed
qed

lemma todo_run_later:
  assumes "Todo_valid t" and "ok_run todo_op_ok todo_apply t xs"
  shows "later_generation t (run_ops todo_apply t xs)"
  using assms
proof (induction xs arbitrary: t)
  case Nil
  then show ?case by (simp add: later_generation_refl)
next
  case (Cons x xs)
  let ?u = "keep t (todo_apply x t)"
  have ok: "todo_op_ok x t" and dyn: "Todo_dynamic t"
    using Cons.prems by (auto simp: Todo_valid_def Todo_Validate_iff)
  have "later_generation t ?u"
    by (rule keepI) (auto intro: later_generation_refl todo_op_later [OF dyn ok])
  moreover have "Todo_valid ?u" using Cons.prems ok by (auto intro: todo.keep_valid)
  ultimately show ?case using Cons by (auto intro: later_generation_trans)
qed

text \<open>Concrete values, at which the properties are applied.\<close>

definition sample_todo :: Todo where
  "sample_todo = \<lparr>td_ID = ''todo_1'', td_GoalID = ''goal_1'', td_Class = TodoAdvancement,
     td_Status = TodoPending, td_Instruction = ''do it'', td_Acceptance = [''done''],
     td_ResumeCondition = '''', td_Priority = PriorityMedium, td_Predecessors = [],
     td_Successors = [],
     td_DecisionScope = \<lparr>sc_WorkItemIDs = [''wi_1''], sc_AgentIDs = [''agent_1'', ''agent_2''],
       sc_RuntimeCapabilities = [], sc_WriteScopes = [], sc_MaxDispatch = 1\<rparr>,
     td_Claim = None, td_ClaimVersion = 0, td_LastTurnSeq = 0, td_CompletionTurnKey = None,
     td_CompletionEvidenceID = '''', td_Version = 1, td_CreatedAt = 1, td_UpdatedAt = 1\<rparr>"

lemma sample_todo_valid: "Todo_valid sample_todo"
  by (simp add: sample_todo_def Todo_valid_def Todo_Validate.simps text_eval prefix_defs IsZero_def
      firstDuplicate_def Priority_Valid_def)

section \<open>Properties\<close>

text \<open>
  C21. A Todo that passes Validate passes it after any history of its operations (transition, claim,
  renew, release, completion with evidence; refused ones included) in which the plain transition is
  never used to complete it, nor to call it claimed when it has no claim, calls carry a time and the
  versions stay below the largest int64. The restriction is needed: \<^verbatim>\<open>Transition\<close> accepts a running or
  waiting Todo for completed, and the result is one that Validate refuses (see
  \<open>todo_plain_completion_invalid\<close> below).
\<close>

theorem todo_history_valid:
  assumes "Todo_Validate (Some t) = None" and "ok_run todo_op_ok todo_apply t xs"
  shows "Todo_Validate (Some (run_ops todo_apply t xs)) = None"
  using todo.run_valid [of t xs] assms by (simp add: Todo_valid_def)

definition sample_todo_ops :: "todo_op list" where
  "sample_todo_ops = [OpClaim ''agent_1'' 10 20, OpTransition TodoRunning 11,
     OpRenew ''agent_1'' 1 12 30, OpClaim ''agent_2'' 13 40, OpTransition TodoWaiting 14,
     OpRelease 15, OpClaim ''agent_2'' 16 50]"

lemmas todo_eval = sample_todo_def sample_todo_ops_def todo_op_ok_def todo_defs Let_def
  TodoStatus_IsTerminal_def text_eval prefix_defs IsZero_def inc64_def wrap64_def maxInt64_def

lemma sample_todo_ops_ok: "ok_run todo_op_ok todo_apply sample_todo sample_todo_ops"
  by (simp add: todo_eval)

theorem todo_history_valid_witness:
  "Todo_Validate (Some (run_ops todo_apply sample_todo sample_todo_ops)) = None"
  by (rule todo_history_valid [OF sample_todo_valid [unfolded Todo_valid_def] sample_todo_ops_ok])

text \<open>
  Claim generations fence stale owners: if, after any history of operations, a renewal
  with the generation of an old claim is accepted, then the Todo has been under that very
  claim (same owner, same generation, same start, expiry at most extended) all along.
\<close>

theorem todo_renew_fenced:
  assumes "Todo_Validate (Some t) = None" and "ok_run todo_op_ok todo_apply t xs"
    and "td_Claim t = Some c"
    and "Todo_RenewClaim (Some (run_ops todo_apply t xs)) owner (tc_Version c) now exp = Inr u"
  shows "owner = tc_OwnerAgentID c \<and>
    (\<exists>d. td_Claim (run_ops todo_apply t xs) = Some d \<and>
       d = c\<lparr>tc_ExpiresAt := tc_ExpiresAt d\<rparr> \<and> tc_ExpiresAt c \<le> tc_ExpiresAt d)"
proof -
  have "tc_Version c = td_ClaimVersion t"
    using assms(1,3) by (auto simp: Todo_Validate_iff Todo_dynamic_def claim_ok_def)
  then have "td_ClaimVersion (run_ops todo_apply t xs) = td_ClaimVersion t"
    using assms(4) by (auto simp: Todo_RenewClaim_Inr)
  then obtain d where d: "td_Claim (run_ops todo_apply t xs) = Some d" "same_grant c d"
    using todo_run_later [of t xs] assms(1-3) by (auto simp: Todo_valid_def later_generation_def)
  then have "tc_OwnerAgentID d = tc_OwnerAgentID c"
    unfolding same_grant_def by (cases c; cases d) auto
  then show ?thesis using d assms(4) by (auto simp: Todo_RenewClaim_Inr same_grant_def)
qed

definition claimed_todo :: Todo where
  "claimed_todo = keep sample_todo (Todo_ClaimBy (Some sample_todo) ''agent_1'' 10 20)"

lemma claimed_todo_valid: "Todo_Validate (Some claimed_todo) = None"
  by (simp add: claimed_todo_def todo_eval firstDuplicate_def Priority_Valid_def)

theorem todo_renew_fenced_witness:
  "\<exists>u d. Todo_RenewClaim (Some (run_ops todo_apply claimed_todo [OpTransition TodoRunning 11]))
           ''agent_1'' 1 12 30 = Inr u \<and>
         td_Claim (run_ops todo_apply claimed_todo [OpTransition TodoRunning 11]) = Some d \<and>
         tc_OwnerAgentID d = ''agent_1''"
proof -
  let ?u = "run_ops todo_apply claimed_todo [OpTransition TodoRunning 11]"
  have ok: "ok_run todo_op_ok todo_apply claimed_todo [OpTransition TodoRunning 11]"
    and claim: "td_Claim claimed_todo = Some \<lparr>tc_OwnerAgentID = ''agent_1'', tc_Version = 1,
      tc_ClaimedAt = 10, tc_ExpiresAt = 20\<rparr>"
    by (simp_all add: claimed_todo_def todo_eval)
  obtain u where u: "Todo_RenewClaim (Some ?u) ''agent_1'' 1 12 30 = Inr u"
    by (simp add: claimed_todo_def todo_eval)
  then obtain d where "td_Claim ?u = Some d" and "d = \<lparr>tc_OwnerAgentID = ''agent_1'', tc_Version = 1,
      tc_ClaimedAt = 10, tc_ExpiresAt = 20\<rparr>\<lparr>tc_ExpiresAt := tc_ExpiresAt d\<rparr>"
    using todo_renew_fenced [OF claimed_todo_valid ok claim, of "''agent_1''" 12 30 u] by auto
  with u show ?thesis by (metis TodoClaim.select_convs(1) TodoClaim.update_convs(4))
qed

text \<open>
  An unexpired claim excludes every other agent: ClaimBy by another owner before the
  expiry is an error whatever the status, and the Todo is left as it was.
\<close>

theorem todo_claim_exclusive:
  assumes "td_Claim t = Some c" and "tc_OwnerAgentID c \<noteq> owner" and "now < tc_ExpiresAt c"
  shows "\<exists>e. Todo_ClaimBy (Some t) owner now exp = Inl e"
proof (cases "Todo_ClaimBy (Some t) owner now exp")
  case (Inl e)
  then show ?thesis by blast
next
  case (Inr t')
  from Todo_ClaimBy_Inr(8) [OF this assms(1)] assms(2,3) show ?thesis by simp
qed

theorem todo_claim_exclusive_witness:
  "\<exists>e. Todo_ClaimBy (Some claimed_todo) ''agent_2'' 15 40 = Inl e"
  by (rule todo_claim_exclusive
        [where c = "\<lparr>tc_OwnerAgentID = ''agent_1'', tc_Version = 1, tc_ClaimedAt = 10, tc_ExpiresAt = 20\<rparr>"])
     (simp_all add: claimed_todo_def todo_eval)

text \<open>
  The transition table lets Transition take a running or waiting Todo to completed, but
  the result is never a Todo that Validate accepts: only CompleteWithEvidence records the
  turn key and the evidence that a completed Todo must carry.
\<close>

theorem todo_plain_completion_invalid:
  assumes "Todo_Validate (Some t) = None" and "td_Status t = TodoRunning \<or> td_Status t = TodoWaiting"
  shows "\<exists>t'. Todo_Transition (Some t) TodoCompleted now = Inr t' \<and> Todo_Validate (Some t') \<noteq> None"
proof -
  have "td_CompletionTurnKey t = None"
    using assms by (auto simp: Todo_Validate_iff Todo_dynamic_def)
  moreover have "Todo_Transition (Some t) TodoCompleted now =
      Inr (t\<lparr>td_Status := TodoCompleted, td_Version := inc64 (td_Version t), td_UpdatedAt := now\<rparr>)"
    using assms(2) by (auto simp: Todo_Transition_Inr)
  ultimately show ?thesis by (simp add: Todo_Validate_iff Todo_dynamic_def del: not_None_eq)
qed

theorem todo_plain_completion_invalid_witness:
  "\<exists>t'. Todo_Transition (Some (claimed_todo\<lparr>td_Status := TodoRunning\<rparr>)) TodoCompleted 12 = Inr t'
        \<and> Todo_Validate (Some t') \<noteq> None"
proof (rule todo_plain_completion_invalid)
  show "Todo_Validate (Some (claimed_todo\<lparr>td_Status := TodoRunning\<rparr>)) = None"
    by (simp add: claimed_todo_def todo_eval firstDuplicate_def Priority_Valid_def)
qed simp

end
