(* ===== verification/Settlement.thy ===== *)
theory Settlement
  imports Ledger Todos "HOL-Library.Multiset"
begin

text \<open>
  The settlement of a governance turn's usage budget:
  \<^verbatim>\<open>internal/application/quota_settlement.go\<close>. One call is one transaction, so an error
  leaves the ledger as it was. What the sweep reads from other repositories is the record
  \<open>TurnWorld\<close> (each field the result of the read at that point of the code); writing a
  run's canonical usage (canonicalizeRunUsageLocked) is a parameter \<open>canon\<close> that maps the
  ledger's environment to the environment after it. Event emission, the per-turn lock and
  the phase-6 receipt payload are not modelled; whether phase 6 is due is part of the result.
\<close>

section \<open>Keys as text\<close>

definition QuotaReservationKey_String :: "QuotaReservationKey \<Rightarrow> string" where
  "QuotaReservationKey_String k = joinWith '':''
     [tk_GoalID (qk_TurnKey k), tk_TodoID (qk_TurnKey k), itoa (tk_TurnSeq (qk_TurnKey k)),
      QuotaKind_text (qk_Kind k)]"

definition QuotaSpendKey_String :: "QuotaSpendKey \<Rightarrow> string" where
  "QuotaSpendKey_String k = joinWith '':''
     [tk_GoalID (sk_TurnKey k), tk_TodoID (sk_TurnKey k), itoa (tk_TurnSeq (sk_TurnKey k)),
      QuotaKind_text (sk_Kind k), sk_RunID k]"

section \<open>Settling one run against one reservation\<close>

text \<open>The application's reading of a usage kind agrees with the repository's.\<close>

definition canonicalQuotaAmountFor :: "CanonicalUsageV1 option \<Rightarrow> QuotaKind \<Rightarrow> int \<times> bool" where
  "canonicalQuotaAmountFor usage kind =
     (case usage of
        None \<Rightarrow> (0, False)
      | Some u \<Rightarrow> (case usage_amount u kind of None \<Rightarrow> (0, False) | Some v \<Rightarrow> (v, True)))"

definition committedSpendTotal :: "QuotaSpendEntry list \<Rightarrow> QuotaKind \<Rightarrow> int" where
  "committedSpendTotal spend kind =
     foldl (\<lambda>tot e. if sk_Kind (se_Key e) = kind \<and> se_Status e = QuotaSpendCommitted
                    then wrap64 (tot + se_Amount e) else tot) 0 spend"

text \<open>The entry; dereferencing a nil canonical usage is the Go panic.\<close>

definition spend_entry :: "TurnKey \<Rightarrow> string \<Rightarrow> SpendRun \<Rightarrow> QuotaReservation \<Rightarrow>
    QuotaSpendEntry list \<Rightarrow> time \<Rightarrow> go_error + QuotaSpendEntry" where
  "spend_entry key runID run r spend now =
     (let kind = qk_Kind (qr_Key r);
          (amount, resolved) = canonicalQuotaAmountFor (sr_CanonicalUsage run) kind;
          base = \<lparr>se_Key = \<lparr>sk_TurnKey = key, sk_Kind = kind, sk_RunID = runID\<rparr>, se_Amount = 0,
                  se_UsageBasis = QuotaUsageBasisPerRun,
                  se_UsageDigest = sr_CanonicalUsageDigest run, se_PolicyDigest = qr_PolicyDigest r,
                  se_PriceDigest = '''', se_Status = QuotaSpendUnresolved, se_Reason = '''',
                  se_CreatedAt = now\<rparr>
      in if resolved then
           (let remaining = wrap64 (qr_ReservedAmount r - committedSpendTotal spend kind)
            in if amount > remaining
               then Inr (base\<lparr>se_Reason := ''actual '' @ itoa amount @
                      '' exceeds remaining reservation '' @ itoa remaining\<rparr>)
               else Inr (base\<lparr>se_Status := QuotaSpendCommitted, se_Amount := amount\<rparr>))
         else
           (case sr_CanonicalUsage run of
              None \<Rightarrow> Inl (ErrOther ''nil pointer dereference'')
            | Some u \<Rightarrow> Inr (base\<lparr>se_Reason := (if cu_UnresolvedReason u = ''''
                        then ''canonical usage kind unresolved'' else cu_UnresolvedReason u)\<rparr>)))"

definition appendTurnRunSpendLocked :: "priceSnapshotDigestPayload hasher \<Rightarrow>
    (goval \<Rightarrow> PriceSnapshotRef option) \<Rightarrow> LedgerEnv \<Rightarrow> Ledger \<Rightarrow> TurnKey \<Rightarrow> string \<Rightarrow>
    SpendRun \<Rightarrow> QuotaReservation \<Rightarrow> QuotaSpendEntry list \<Rightarrow> time \<Rightarrow>
    go_error + QuotaSpendEntry list \<times> bool \<times> Ledger" where
  "appendTurnRunSpendLocked H decode env lg key runID run r spend now =
     (case spend_entry key runID run r spend now of
        Inl e \<Rightarrow> Inl e
      | Inr entry \<Rightarrow>
          (let price = (case sr_CanonicalUsage run of None \<Rightarrow> '''' | Some u \<Rightarrow> cu_PriceDigest u);
               cost = (qk_Kind (qr_Key r) = QuotaCostMicroUSD)
           in if cost \<and> price = '''' then Inr (spend, False, lg)
              else
                (let entry = (if cost then entry\<lparr>se_PriceDigest := price\<rparr> else entry)
                 in case QuotaRepo_AppendSpend H decode env lg (Some entry) of
                      Inl e \<Rightarrow> Inl e
                    | Inr (created, lg') \<Rightarrow> Inr (if created then spend @ [entry] else spend, True, lg'))))"

section \<open>Closing the reservations of a turn\<close>

definition close_reservation :: "Ledger \<Rightarrow> QuotaSpendEntry list \<Rightarrow> QuotaReservation \<Rightarrow> time \<Rightarrow>
    go_error + Ledger" where
  "close_reservation lg spend r now =
     (if qr_Status r \<noteq> QuotaReservationReserved then Inr lg
      else
        (let committed = committedSpendTotal spend (qk_Kind (qr_Key r));
             expected = qr_Version r;
             target = (if committed > 0 then QuotaReservationCommitted else QuotaReservationReleased);
             r1 = r\<lparr>qr_CommittedAmount := committed,
                     qr_ReleasedAmount := wrap64 (qr_ReservedAmount r - committed)\<rparr>
         in case QuotaReservation_Transition (Some r1) target now of
              Inl e \<Rightarrow> Inl e
            | Inr r2 \<Rightarrow>
                if target = QuotaReservationCommitted
                then QuotaRepo_Commit lg (Some r2) expected now
                else QuotaRepo_Release lg (Some r2) expected now))"

fun close_reservations :: "Ledger \<Rightarrow> QuotaSpendEntry list \<Rightarrow> QuotaReservation list \<Rightarrow> time \<Rightarrow>
    go_error + Ledger" where
  "close_reservations lg spend [] now = Inr lg"
| "close_reservations lg spend (r # rs) now =
     (case close_reservation lg spend r now of
        Inl e \<Rightarrow> Inl e
      | Inr lg' \<Rightarrow> close_reservations lg' spend rs now)"

section \<open>The sweep (settleGovernanceTurnQuotaLocked)\<close>

definition usageQuotaKinds :: "QuotaKind list" where
  "usageQuotaKinds = [QuotaInputTokensTotal, QuotaInputUncachedTokens, QuotaCacheReadTokens,
     QuotaCacheWriteTokens, QuotaOutputTokens, QuotaCostMicroUSD]"

text \<open>The reservations of the turn, one read per usage kind; not found is skipped.\<close>

fun turn_reservations :: "Ledger \<Rightarrow> TurnKey \<Rightarrow> QuotaKind list \<Rightarrow> go_error + QuotaReservation list" where
  "turn_reservations lg key [] = Inr []"
| "turn_reservations lg key (k # ks) =
     (case QuotaRepo_Get lg \<lparr>qk_TurnKey = key, qk_Kind = k\<rparr> of
        Inl e \<Rightarrow> if e = ErrNotFound then turn_reservations lg key ks else Inl e
      | Inr r \<Rightarrow> map_sum id ((#) r) (turn_reservations lg key ks))"

type_synonym sweep_state = "QuotaSpendEntry list \<times> bool \<times> Ledger"

text \<open>One run against every reservation; an entry that exists already is skipped.\<close>

fun settle_run :: "priceSnapshotDigestPayload hasher \<Rightarrow> (goval \<Rightarrow> PriceSnapshotRef option) \<Rightarrow>
    LedgerEnv \<Rightarrow> TurnKey \<Rightarrow> string \<Rightarrow> SpendRun \<Rightarrow> time \<Rightarrow> QuotaReservation list \<Rightarrow> sweep_state \<Rightarrow>
    go_error + sweep_state" where
  "settle_run H decode env key runID run now [] st = Inr st"
| "settle_run H decode env key runID run now (r # rs) (spend, allSettled, lg) =
     (case QuotaRepo_GetSpend lg \<lparr>sk_TurnKey = key, sk_Kind = qk_Kind (qr_Key r), sk_RunID = runID\<rparr> of
        Inr _ \<Rightarrow> settle_run H decode env key runID run now rs (spend, allSettled, lg)
      | Inl e \<Rightarrow>
          if e \<noteq> ErrNotFound then Inl e
          else
            (case appendTurnRunSpendLocked H decode env lg key runID run r spend now of
               Inl e \<Rightarrow> Inl e
             | Inr (spend', settled, lg') \<Rightarrow>
                 settle_run H decode env key runID run now rs (spend', allSettled \<and> settled, lg')))"

type_synonym canonicalizer = "LedgerEnv \<Rightarrow> string \<Rightarrow> bool \<Rightarrow> go_error + bool \<times> LedgerEnv"

text \<open>The progressive pass: terminal runs with a canonical usage are settled at once.\<close>

fun settle_runs :: "priceSnapshotDigestPayload hasher \<Rightarrow> (goval \<Rightarrow> PriceSnapshotRef option) \<Rightarrow>
    canonicalizer \<Rightarrow> TurnKey \<Rightarrow> time \<Rightarrow> QuotaReservation list \<Rightarrow> string list \<Rightarrow>
    LedgerEnv \<times> bool \<times> string list \<times> sweep_state \<Rightarrow>
    go_error + LedgerEnv \<times> bool \<times> string list \<times> sweep_state" where
  "settle_runs H decode canon key now rs [] st = Inr st"
| "settle_runs H decode canon key now rs (i # is) (env, allTerminal, absent, st) =
     (case map_of (le_Runs env) i of
        None \<Rightarrow> Inl ErrNotFound
      | Some run \<Rightarrow>
          if sr_Status run \<noteq> SpendRunTerminal then
            settle_runs H decode canon key now rs is (env, False, absent, st)
          else
            (case canon env i False of
               Inl e \<Rightarrow> Inl e
             | Inr (_, env') \<Rightarrow>
                 (case map_of (le_Runs env') i of
                    None \<Rightarrow> Inl ErrNotFound
                  | Some run' \<Rightarrow>
                      if sr_CanonicalUsage run' = None then
                        settle_runs H decode canon key now rs is (env', allTerminal, absent @ [i], st)
                      else
                        (case settle_run H decode env' key i run' now rs st of
                           Inl e \<Rightarrow> Inl e
                         | Inr st' \<Rightarrow>
                             settle_runs H decode canon key now rs is (env', allTerminal, absent, st')))))"

text \<open>The closing pass over the runs without a report: absent evidence, then their entries.\<close>

fun settle_absent :: "priceSnapshotDigestPayload hasher \<Rightarrow> (goval \<Rightarrow> PriceSnapshotRef option) \<Rightarrow>
    canonicalizer \<Rightarrow> TurnKey \<Rightarrow> time \<Rightarrow> QuotaReservation list \<Rightarrow> string list \<Rightarrow>
    LedgerEnv \<times> QuotaSpendEntry list \<times> Ledger \<Rightarrow>
    go_error + LedgerEnv \<times> QuotaSpendEntry list \<times> Ledger" where
  "settle_absent H decode canon key now rs [] st = Inr st"
| "settle_absent H decode canon key now rs (i # is) (env, spend, lg) =
     (case canon env i True of
        Inl e \<Rightarrow> Inl e
      | Inr (written, env') \<Rightarrow>
          if \<not> written then
            Inl (ErrStateConflict ''absent evidence synthesis raced a concurrent freeze'')
          else
            (case map_of (le_Runs env') i of
               None \<Rightarrow> Inl ErrNotFound
             | Some run \<Rightarrow>
                 (case settle_run H decode env' key i run now rs (spend, True, lg) of
                    Inl e \<Rightarrow> Inl e
                  | Inr (spend', settled, lg') \<Rightarrow>
                      if \<not> settled then Inl (ErrValidation ''cost spend lacks price digest'')
                      else settle_absent H decode canon key now rs is (env', spend', lg'))))"

record TurnWorld =
  tw_Phase6 :: "go_error + unit"
  tw_Goal :: "go_error + Goal"
  tw_Phase1 :: "go_error + string" \<comment> \<open>source_run_id of the payload, or empty\<close>
  tw_HeaderSource :: "go_error + string" \<comment> \<open>GovernedSourceRunID of the header\<close>
  tw_TurnRuns :: "go_error + string list"
  tw_Phase5 :: "go_error + unit"
  tw_Todo :: "go_error + Todo"
  tw_Plan :: "go_error + Plan option"
  tw_Coordinator :: "go_error + bool \<times> string" \<comment> \<open>action is retry_worker, its run id or empty\<close>
  tw_RetryKey :: "string \<Rightarrow> go_error + TurnKey option" \<comment> \<open>governance key of a run\<close>

text \<open>The source run: from phase 1, or from the header of a cancelled goal; \<open>None\<close> returns.\<close>

definition source_run :: "TurnWorld \<Rightarrow> Goal \<Rightarrow> go_error + string option" where
  "source_run w goal =
     (case tw_Phase1 w of
        Inr i \<Rightarrow> Inr (Some i)
      | Inl e \<Rightarrow>
          if e \<noteq> ErrNotFound then Inl e
          else if go_Status goal \<noteq> GoalCancelled then Inr None
          else
            (case tw_HeaderSource w of
               Inl e \<Rightarrow> Inl e
             | Inr i \<Rightarrow> Inr (if i = '''' then None else Some i)))"

definition ordered_runs :: "string \<Rightarrow> string list \<Rightarrow> string list" where
  "ordered_runs source runs =
     (if source \<noteq> '''' then [source] else []) @ filter (\<lambda>i. i \<noteq> source) runs"

text \<open>Whether the turn may close: phase 5, the Todo, the Plan and the worker retry.\<close>

definition todo_closed :: "TurnKey \<Rightarrow> Todo \<Rightarrow> bool" where
  "todo_closed key t \<longleftrightarrow> td_LastTurnSeq t = tk_TurnSeq key \<and>
     (td_Status t = TodoBlocked \<or> td_Status t = TodoCancelled \<or> td_Status t = TodoCompleted)"

definition closable :: "TurnWorld \<Rightarrow> TurnKey \<Rightarrow> go_error + bool" where
  "closable w key =
     (let todo_part =
        (case tw_Phase5 w of
           Inr _ \<Rightarrow> Inr True
         | Inl e \<Rightarrow>
             if e \<noteq> ErrNotFound then Inl e
             else
               (case tw_Todo w of
                  Inl e \<Rightarrow> if e = ErrNotFound then Inr False else Inl e
                | Inr t \<Rightarrow> Inr (todo_closed key t)))
      in case todo_part of
           Inl e \<Rightarrow> Inl e
         | Inr False \<Rightarrow> Inr False
         | Inr True \<Rightarrow>
             (case tw_Plan w of
                Inl e \<Rightarrow> Inl e
              | Inr plan \<Rightarrow>
                  if (case plan of None \<Rightarrow> False
                      | Some p \<Rightarrow> \<not> PlanStatus_IsTerminal (pl_Status p) \<and>
                          list_ex (\<lambda>s. ps_Status s = PlanStepPending) (pl_Steps p))
                  then Inr False
                  else
                    (case tw_Coordinator w of
                       Inl e \<Rightarrow> if e = ErrNotFound then Inr True else Inl e
                     | Inr (retry, runID) \<Rightarrow>
                         if retry \<and> runID \<noteq> '''' then
                           (case tw_RetryKey w runID of
                              Inl e \<Rightarrow> if e = ErrNotFound then Inr True else Inl e
                            | Inr rk \<Rightarrow> Inr (rk \<noteq> Some key))
                         else Inr True)))"

definition settleGovernanceTurnQuotaLocked :: "priceSnapshotDigestPayload hasher \<Rightarrow>
    (goval \<Rightarrow> PriceSnapshotRef option) \<Rightarrow> canonicalizer \<Rightarrow> TurnWorld \<Rightarrow> LedgerEnv \<Rightarrow> Ledger \<Rightarrow>
    TurnKey \<Rightarrow> bool \<Rightarrow> time \<Rightarrow> go_error + LedgerEnv \<times> Ledger \<times> bool" where
  "settleGovernanceTurnQuotaLocked H decode canon w env lg key allowAbsentClose now =
     (case tw_Phase6 w of
        Inr _ \<Rightarrow> Inr (env, lg, False)
      | Inl e \<Rightarrow>
          if e \<noteq> ErrNotFound then Inl e
          else
            (case turn_reservations lg key usageQuotaKinds of
               Inl e \<Rightarrow> Inl e
             | Inr [] \<Rightarrow> Inr (env, lg, False)
             | Inr rs \<Rightarrow>
                 (case tw_Goal w of
                    Inl e \<Rightarrow> Inl e
                  | Inr goal \<Rightarrow>
                      (case source_run w goal of
                         Inl e \<Rightarrow> Inl e
                       | Inr None \<Rightarrow> Inr (env, lg, False)
                       | Inr (Some source) \<Rightarrow>
                           (case (tw_TurnRuns w, QuotaRepo_ListSpendByTurn lg key) of
                              (Inl e, _) \<Rightarrow> Inl e
                            | (_, Inl e) \<Rightarrow> Inl e
                            | (Inr runs, Inr spend) \<Rightarrow>
                                (case settle_runs H decode canon key now rs (ordered_runs source runs)
                                    (env, True, [], spend, True, lg) of
                                   Inl e \<Rightarrow> Inl e
                                 | Inr (env1, allTerminal, absent, spend1, allSettled, lg1) \<Rightarrow>
                                     if \<not> allTerminal \<or> \<not> allSettled then Inr (env1, lg1, False)
                                     else if length absent > 0 \<and> \<not> allowAbsentClose then
                                       Inr (env1, lg1, False)
                                     else
                                       (case closable w key of
                                          Inl e \<Rightarrow> Inl e
                                        | Inr False \<Rightarrow> Inr (env1, lg1, False)
                                        | Inr True \<Rightarrow>
                                            (case settle_absent H decode canon key now rs absent
                                                (env1, spend1, lg1) of
                                               Inl e \<Rightarrow> Inl e
                                             | Inr (env2, spend2, lg2) \<Rightarrow>
                                                 (case close_reservations lg2 spend2 rs now of
                                                    Inl e \<Rightarrow> Inl e
                                                  | Inr lg3 \<Rightarrow>
                                                      Inr (env2, lg3, (case tw_Phase5 w of Inr _ \<Rightarrow> True | Inl _ \<Rightarrow> False)))))))))))"



section \<open>The committed total of a snapshot is the sum over the ledger\<close>

definition snapshot_of :: "Ledger \<Rightarrow> TurnKey \<Rightarrow> QuotaSpendEntry list \<Rightarrow> bool" where
  "snapshot_of lg key spend \<longleftrightarrow>
     mset spend = mset (filter (\<lambda>s. sk_TurnKey (se_Key s) = key) (lg_Spends lg))"

lemma committed_fold:
  assumes "\<forall>e\<in>set es. 0 \<le> se_Amount e" and "0 \<le> acc"
    and "acc + sum_list (map se_Amount (filter (\<lambda>e. sk_Kind (se_Key e) = k \<and> se_Status e = QuotaSpendCommitted) es))
      \<le> maxInt64"
  shows "foldl (\<lambda>tot e. if sk_Kind (se_Key e) = k \<and> se_Status e = QuotaSpendCommitted
      then wrap64 (tot + se_Amount e) else tot) acc es =
    acc + sum_list (map se_Amount (filter (\<lambda>e. sk_Kind (se_Key e) = k \<and> se_Status e = QuotaSpendCommitted) es))"
  using assms
proof (induction es arbitrary: acc)
  case Nil
  then show ?case by simp
next
  case (Cons e es)
  let ?P = "\<lambda>e. sk_Kind (se_Key e) = k \<and> se_Status e = QuotaSpendCommitted"
  have rest: "0 \<le> sum_list (map se_Amount (filter ?P es))"
    using Cons.prems(1) by (intro sum_list_nonneg) auto
  show ?case
  proof (cases "?P e")
    case True
    then have "acc + se_Amount e \<le> maxInt64" using Cons.prems(3) rest by simp
    then have "wrap64 (acc + se_Amount e) = acc + se_Amount e"
      using Cons.prems(1,2) by (intro wrap64_fits) auto
    then show ?thesis using True Cons by simp
  next
    case False
    have "acc + sum_list (map se_Amount (filter ?P es)) \<le> maxInt64" using Cons.prems(3) False by auto
    from Cons.IH [OF _ Cons.prems(2) this] Cons.prems(1) False show ?thesis by auto
  qed
qed

lemma spend_amount_facts:
  assumes "QuotaSpendEntry_Validate (Some e) = None"
  shows "0 \<le> se_Amount e" and "se_Status e \<noteq> QuotaSpendCommitted \<Longrightarrow> se_Amount e = 0"
  using assms by (auto simp: QuotaSpendEntry_Validate.simps(2) QuotaSpendStatus_Valid_def)

lemma committed_filter_sum:
  assumes "\<forall>e\<in>set es. QuotaSpendEntry_Validate (Some e) = None"
  shows "sum_list (map se_Amount (filter (\<lambda>e. P e \<and> se_Status e = QuotaSpendCommitted) es)) =
    sum_list (map se_Amount (filter P es))"
  using assms by (induction es) (auto dest: spend_amount_facts(2))

lemma spent_on_turn:
  "spent_on lg \<lparr>qk_TurnKey = key, qk_Kind = k\<rparr> = sum_list (map se_Amount
     (filter (\<lambda>s. sk_Kind (se_Key s) = k) (filter (\<lambda>s. sk_TurnKey (se_Key s) = key) (lg_Spends lg))))"
  by (simp add: spent_on_def conj_commute)

lemma sum_list_mset_filter:
  "mset xs = mset ys \<Longrightarrow> sum_list (map f (filter P xs)) = (sum_list (map f (filter P ys)) :: int)"
  by (metis mset_filter mset_map sum_mset_sum_list)

lemma committedSpendTotal_spent:
  assumes "snapshot_of lg key spend" and "spends_ok (lg_Spends lg)"
    and "spent_on lg \<lparr>qk_TurnKey = key, qk_Kind = k\<rparr> \<le> maxInt64"
  shows "committedSpendTotal spend k = spent_on lg \<lparr>qk_TurnKey = key, qk_Kind = k\<rparr>"
proof -
  have "set spend \<subseteq> set (lg_Spends lg)"
    using assms(1) unfolding snapshot_of_def by (metis filter_is_subset set_mset_mset)
  then have valid: "\<forall>e\<in>set spend. QuotaSpendEntry_Validate (Some e) = None"
    using assms(2) by (auto simp: spends_ok_def)
  have sum: "sum_list (map se_Amount (filter (\<lambda>e. sk_Kind (se_Key e) = k \<and>
      se_Status e = QuotaSpendCommitted) spend)) = spent_on lg \<lparr>qk_TurnKey = key, qk_Kind = k\<rparr>"
    unfolding spent_on_turn committed_filter_sum [OF valid]
    by (rule sum_list_mset_filter) (use assms(1) in \<open>simp add: snapshot_of_def\<close>)
  then show ?thesis
    using committed_fold [of spend 0 k] valid spend_amount_facts(1) assms(3)
    by (auto simp: committedSpendTotal_def)
qed

section \<open>The invariant of the sweep\<close>

text \<open>
  A settled reservation whose key is in \<open>P\<close> commits exactly what was spent on it. (The turn counters are
  reservations too; they are committed with one and have no spends, so not every key is in \<open>P\<close>.)
\<close>

definition settled_exact :: "(QuotaReservationKey \<Rightarrow> bool) \<Rightarrow> Ledger \<Rightarrow> bool" where
  "settled_exact P lg \<longleftrightarrow> (\<forall>r\<in>set (lg_Reservations lg).
     P (qr_Key r) \<longrightarrow> QuotaReservationStatus_IsTerminal (qr_Status r) \<longrightarrow>
       qr_CommittedAmount r = spent_on lg (qr_Key r) \<and>
       qr_ReleasedAmount r = qr_ReservedAmount r - spent_on lg (qr_Key r))"

definition sweep_ok :: "(QuotaReservationKey \<Rightarrow> bool) \<Rightarrow> TurnKey \<Rightarrow> Ledger \<Rightarrow> QuotaSpendEntry list \<Rightarrow> bool" where
  "sweep_ok P key lg spend \<longleftrightarrow> ledger_ok lg \<and> ledger_in64 lg \<and> settled_exact P lg \<and> snapshot_of lg key spend"

text \<open>What the spends of a sweep do to the ledger: rows are appended, nothing else.\<close>

definition only_spends :: "Ledger \<Rightarrow> Ledger \<Rightarrow> bool" where
  "only_spends lg lg' \<longleftrightarrow> lg_Reservations lg' = lg_Reservations lg \<and>
     (\<exists>es. lg_Spends lg' = lg_Spends lg @ es)"

lemma only_spends_refl [simp]: "only_spends lg lg"
  by (simp add: only_spends_def)

lemma only_spends_trans: "only_spends a b \<Longrightarrow> only_spends b c \<Longrightarrow> only_spends a c"
  by (auto simp: only_spends_def)

lemma spend_entry_key:
  "spend_entry key i run r spend now = Inr e \<Longrightarrow>
   se_Key e = \<lparr>sk_TurnKey = key, sk_Kind = qk_Kind (qr_Key r), sk_RunID = i\<rparr>"
  by (auto simp: spend_entry_def Let_def split: prod.splits if_splits option.splits)

lemma append_spend_sweep:
  assumes "sweep_ok P key lg spend" and "sk_TurnKey (se_Key e) = key"
    and "QuotaRepo_AppendSpend H decode env lg (Some e) = Inr (created, lg')"
  shows "sweep_ok P key lg' (if created then spend @ [e] else spend) \<and> only_spends lg lg'"
proof -
  have ok: "ledger_ok lg" "ledger_in64 lg" "settled_exact P lg" "snapshot_of lg key spend"
    using assms(1) by (simp_all add: sweep_ok_def)
  have "ledger_ok lg'" using ledger_spend_ok [OF ok(1,2) assms(3)] .
  moreover have "settled_exact P lg' \<and> ledger_in64 lg' \<and> only_spends lg lg' \<and>
      snapshot_of lg' key (if created then spend @ [e] else spend)"
  proof (cases created)
    case False
    then have "lg' = lg" using AppendSpend_Inr [OF assms(3)] by blast
    then show ?thesis using ok False by simp
  next
    case True
    then obtain r where lg': "lg' = lg\<lparr>lg_Spends := lg_Spends lg @ [e]\<rparr>"
      and get: "QuotaRepo_Get lg (row_of e) = Inr r" and open_r: "qr_Status r = QuotaReservationReserved"
      using AppendSpend_Inr [OF assms(3)] by blast
    have r: "r \<in> set (lg_Reservations lg)" "qr_Key r = row_of e"
      using get QuotaRepo_Get_Inr ok(1) by (auto simp: ledger_ok_def)
    have uniq: "x = r" if "x \<in> set (lg_Reservations lg)" "qr_Key x = row_of e" for x
      using inj_onD [of qr_Key "set (lg_Reservations lg)" x r] that r ok(1)
      by (simp add: ledger_ok_def reservations_ok_def distinct_map)
    have "settled_exact P lg'"
      unfolding settled_exact_def lg' spent_on_append
    proof (intro ballI impI)
      fix x assume x: "x \<in> set (lg_Reservations (lg\<lparr>lg_Spends := lg_Spends lg @ [e]\<rparr>))" "P (qr_Key x)"
        "QuotaReservationStatus_IsTerminal (qr_Status x)"
      then have "row_of e \<noteq> qr_Key x"
        using uniq [of x] open_r by (auto simp: QuotaReservationStatus_IsTerminal_def)
      with x ok(3) show "qr_CommittedAmount x = spent_on lg (qr_Key x) +
            (if row_of e = qr_Key x then se_Amount e else 0) \<and>
          qr_ReleasedAmount x = qr_ReservedAmount x - (spent_on lg (qr_Key x) +
            (if row_of e = qr_Key x then se_Amount e else 0))"
        by (simp add: settled_exact_def)
    qed
    then show ?thesis
      using ok(2,4) True assms(2) by (simp add: lg' ledger_in64_def only_spends_def snapshot_of_def)
  qed
  ultimately show ?thesis by (simp add: sweep_ok_def)
qed

lemma appendTurnRunSpend_sweep:
  assumes "sweep_ok P key lg spend"
    and "appendTurnRunSpendLocked H decode env lg key i run r spend now = Inr (spend', settled, lg')"
  shows "sweep_ok P key lg' spend' \<and> only_spends lg lg'"
proof -
  obtain e where e: "spend_entry key i run r spend now = Inr e"
    using assms(2) by (auto simp: appendTurnRunSpendLocked_def split: sum.splits)
  have "(spend' = spend \<and> lg' = lg) \<or> (\<exists>e' created. se_Key e' = se_Key e \<and>
      QuotaRepo_AppendSpend H decode env lg (Some e') = Inr (created, lg') \<and>
      spend' = (if created then spend @ [e'] else spend))"
  proof -
    define price where "price = (case sr_CanonicalUsage run of None \<Rightarrow> '''' | Some u \<Rightarrow> cu_PriceDigest u)"
    define e' where "e' = (if qk_Kind (qr_Key r) = QuotaCostMicroUSD
      then e\<lparr>se_PriceDigest := price\<rparr> else e)"
    have "se_Key e' = se_Key e" by (simp add: e'_def)
    moreover have "(spend' = spend \<and> lg' = lg) \<or>
        (\<exists>created. QuotaRepo_AppendSpend H decode env lg (Some e') = Inr (created, lg') \<and>
          spend' = (if created then spend @ [e'] else spend))"
      using assms(2) e unfolding e'_def price_def appendTurnRunSpendLocked_def Let_def
      by (simp split: if_splits sum.splits prod.splits) blast+
    ultimately show ?thesis by blast
  qed
  then show ?thesis
  proof
    assume "spend' = spend \<and> lg' = lg"
    then show ?thesis using assms(1) by simp
  next
    assume "\<exists>e' created. se_Key e' = se_Key e \<and>
      QuotaRepo_AppendSpend H decode env lg (Some e') = Inr (created, lg') \<and>
      spend' = (if created then spend @ [e'] else spend)"
    then obtain e' created where "se_Key e' = se_Key e"
      "QuotaRepo_AppendSpend H decode env lg (Some e') = Inr (created, lg')"
      "spend' = (if created then spend @ [e'] else spend)" by blast
    then show ?thesis
      using append_spend_sweep [OF assms(1), of e' H decode env created lg'] spend_entry_key [OF e] by simp
  qed
qed

lemma settle_run_sweep:
  assumes "settle_run H decode env key i run now rs (spend, b, lg) = Inr (spend', b', lg')"
    and "sweep_ok P key lg spend"
  shows "sweep_ok P key lg' spend' \<and> only_spends lg lg'"
  using assms
proof (induction rs arbitrary: spend b lg)
  case Nil
  then show ?case by simp
next
  case (Cons r rs)
  show ?case
  proof (cases "QuotaRepo_GetSpend lg \<lparr>sk_TurnKey = key, sk_Kind = qk_Kind (qr_Key r), sk_RunID = i\<rparr>")
    case (Inr x)
    then show ?thesis using Cons by auto
  next
    case (Inl x)
    then obtain s1 b1 lg1 where step: "appendTurnRunSpendLocked H decode env lg key i run r spend now =
        Inr (s1, b1, lg1)"
      and rest: "settle_run H decode env key i run now rs (s1, b \<and> b1, lg1) = Inr (spend', b', lg')"
      using Cons.prems(1) by (auto split: if_splits sum.splits)
    from appendTurnRunSpend_sweep [OF Cons.prems(2) step] Cons.IH [OF rest] show ?thesis
      by (auto intro: only_spends_trans)
  qed
qed

lemma settle_runs_sweep:
  assumes "settle_runs H decode canon key now rs is (env, t, ab, spend, b, lg) =
      Inr (env', t', ab', spend', b', lg')" and "sweep_ok P key lg spend"
  shows "sweep_ok P key lg' spend' \<and> only_spends lg lg'"
  using assms
proof (induction "is" arbitrary: env t ab spend b lg)
  case Nil
  then show ?case by simp
next
  case (Cons i "is")
  from Cons.prems(1) obtain run where "map_of (le_Runs env) i = Some run"
    by (auto split: option.splits)
  with Cons.prems(1) consider
      (skip) env1 t1 ab1 where "settle_runs H decode canon key now rs is (env1, t1, ab1, spend, b, lg) =
        Inr (env', t', ab', spend', b', lg')"
    | (run) env1 run1 s1 b1 lg1 where
        "settle_run H decode env1 key i run1 now rs (spend, b, lg) = Inr (s1, b1, lg1)"
        "settle_runs H decode canon key now rs is (env1, t, ab, s1, b1, lg1) =
          Inr (env', t', ab', spend', b', lg')"
    by (auto split: if_splits sum.splits option.splits)
  then show ?case
  proof cases
    case skip
    then show ?thesis using Cons.IH Cons.prems(2) by blast
  next
    case run
    from settle_run_sweep [OF run(1) Cons.prems(2)] Cons.IH [OF run(2)] show ?thesis
      by (auto intro: only_spends_trans)
  qed
qed

lemma settle_absent_sweep:
  assumes "settle_absent H decode canon key now rs is (env, spend, lg) = Inr (env', spend', lg')"
    and "sweep_ok P key lg spend"
  shows "sweep_ok P key lg' spend' \<and> only_spends lg lg'"
  using assms
proof (induction "is" arbitrary: env spend lg)
  case Nil
  then show ?case by simp
next
  case (Cons i "is")
  from Cons.prems(1) obtain env1 run1 s1 b1 lg1 where
      "settle_run H decode env1 key i run1 now rs (spend, True, lg) = Inr (s1, b1, lg1)"
      "settle_absent H decode canon key now rs is (env1, s1, lg1) = Inr (env', spend', lg')"
    by (auto split: if_splits sum.splits option.splits)
  from settle_run_sweep [OF this(1) Cons.prems(2)] Cons.IH [OF this(2)] show ?case
    by (auto intro: only_spends_trans)
qed

section \<open>Closing\<close>

definition row_closes :: "QuotaReservation \<Rightarrow> QuotaReservation \<Rightarrow> bool" where
  "row_closes r r' \<longleftrightarrow> r' = r \<or>
     (qr_Status r = QuotaReservationReserved \<and> QuotaReservationStatus_IsTerminal (qr_Status r') \<and>
      qr_Key r' = qr_Key r \<and> qr_ReservedAmount r' = qr_ReservedAmount r)"

definition only_closes :: "Ledger \<Rightarrow> Ledger \<Rightarrow> bool" where
  "only_closes lg lg' \<longleftrightarrow> lg_Spends lg' = lg_Spends lg \<and>
     list_all2 row_closes (lg_Reservations lg) (lg_Reservations lg')"

lemma row_closes_refl: "row_closes r r"
  by (simp add: row_closes_def)

lemma row_closes_trans: "row_closes a b \<Longrightarrow> row_closes b c \<Longrightarrow> row_closes a c"
  by (auto simp: row_closes_def QuotaReservationStatus_IsTerminal_def)

lemma only_closes_refl [simp]: "only_closes lg lg"
  by (simp add: only_closes_def list_all2_refl row_closes_refl)

lemma only_closes_trans: "only_closes a b \<Longrightarrow> only_closes b c \<Longrightarrow> only_closes a c"
  unfolding only_closes_def
  using list_all2_trans [of row_closes row_closes row_closes "lg_Reservations a" "lg_Reservations b"
      "lg_Reservations c"] row_closes_trans by auto

lemma only_closes_row:
  "only_closes lg lg' \<Longrightarrow> r \<in> set (lg_Reservations lg) \<Longrightarrow> \<exists>r'\<in>set (lg_Reservations lg'). row_closes r r'"
  unfolding only_closes_def by (metis in_set_conv_nth list_all2_conv_all_nth)

lemma close_transition:
  assumes "sweep_ok P key lg spend" and "qk_TurnKey (qr_Key r) = key"
    and "QuotaRepo_transition lg (Some c) v target now = Inr lg'"
    and "qr_Key c = qr_Key r" and "qr_CommittedAmount c = committedSpendTotal spend (qk_Kind (qr_Key r))"
    and "qr_ReleasedAmount c = wrap64 (qr_ReservedAmount r - qr_CommittedAmount c)"
    and "qr_ReservedAmount c = qr_ReservedAmount r"
  shows "sweep_ok P key lg' spend \<and> only_closes lg lg' \<and>
    (\<exists>y\<in>set (lg_Reservations lg'). qr_Key y = qr_Key r \<and> QuotaReservationStatus_IsTerminal (qr_Status y))"
proof -
  have ok: "ledger_ok lg" "ledger_in64 lg" "settled_exact P lg" "snapshot_of lg key spend"
      "reservations_ok (lg_Reservations lg)" "spends_ok (lg_Spends lg)" "covered lg"
    using assms(1) by (simp_all add: sweep_ok_def ledger_ok_def)
  from transition_Inr [OF assms(3) ok(5)] obtain x y where
    x: "x \<in> set (lg_Reservations lg)" "qr_Key x = qr_Key c" "sameReservationIntent x c"
      "qr_Status x = QuotaReservationReserved" "qr_Status c = target"
      "QuotaReservationStatus_IsTerminal target" "settled_row x c y"
    and lg': "lg' = lg\<lparr>lg_Reservations := map (\<lambda>r. if r = x then y else r) (lg_Reservations lg)\<rparr>"
    by blast
  have y: "qr_Key y = qr_Key x" "qr_ReservedAmount y = qr_ReservedAmount x"
      "qr_CommittedAmount y = qr_CommittedAmount c" "qr_ReleasedAmount y = qr_ReleasedAmount c"
      "qr_Status y = target"
    using x(5,7) by (auto simp: settled_row_def)
  have rkey: "qr_Key r = \<lparr>qk_TurnKey = key, qk_Kind = qk_Kind (qr_Key r)\<rparr>"
    using assms(2) by (cases "qr_Key r") simp
  have res: "qr_ReservedAmount x = qr_ReservedAmount r"
    using x(3) assms(7) by (simp add: sameReservationIntent_def)
  have spent: "0 \<le> spent_on lg (qr_Key r)" "spent_on lg (qr_Key r) \<le> qr_ReservedAmount x"
      "qr_ReservedAmount x \<le> maxInt64"
    using ok(2,6,7) x(1,2) assms(4) spent_on_nonneg
    by (auto simp: covered_def ledger_in64_def)
  have "committedSpendTotal spend (qk_Kind (qr_Key r)) = spent_on lg (qr_Key r)"
    using committedSpendTotal_spent [OF ok(4,6), of "qk_Kind (qr_Key r)"] spent rkey by simp
  then have cy: "qr_CommittedAmount y = spent_on lg (qr_Key y)"
      "qr_ReleasedAmount y = qr_ReservedAmount y - spent_on lg (qr_Key y)"
    using assms(4-6) x(2) y res spent by (auto simp: wrap64_fits)
  have set': "r' \<in> set (lg_Reservations lg') \<Longrightarrow> r' = y \<or> r' \<in> set (lg_Reservations lg)" for r'
    by (auto simp: lg')
  have "settled_exact P lg'"
    unfolding settled_exact_def
  proof (intro ballI impI)
    fix r' assume "r' \<in> set (lg_Reservations lg')" "P (qr_Key r')" "QuotaReservationStatus_IsTerminal (qr_Status r')"
    then show "qr_CommittedAmount r' = spent_on lg' (qr_Key r') \<and>
        qr_ReleasedAmount r' = qr_ReservedAmount r' - spent_on lg' (qr_Key r')"
      using set' cy ok(3) by (auto simp: lg' settled_exact_def)
  qed
  moreover have "ledger_in64 lg'"
    using ok(2) set' y(2) x(1) unfolding ledger_in64_def by metis
  moreover have "ledger_ok lg'" using ledger_settle_ok [OF ok(1) assms(3)] .
  moreover have "snapshot_of lg' key spend" using ok(4) by (simp add: snapshot_of_def lg')
  moreover have "only_closes lg lg'"
    unfolding only_closes_def list_all2_conv_all_nth
    using x(4,6) y by (simp add: lg' row_closes_def)
  moreover have "y \<in> set (lg_Reservations lg')" using x(1) by (auto simp: lg')
  ultimately show ?thesis using y x(2,6) assms(4) by (auto simp: sweep_ok_def)
qed

lemma close_reservation_sweep:
  assumes "sweep_ok P key lg spend" and "qk_TurnKey (qr_Key r) = key"
    and "close_reservation lg spend r now = Inr lg'"
  shows "sweep_ok P key lg' spend \<and> only_closes lg lg' \<and> (qr_Status r = QuotaReservationReserved \<longrightarrow>
    (\<exists>y\<in>set (lg_Reservations lg'). qr_Key y = qr_Key r \<and> QuotaReservationStatus_IsTerminal (qr_Status y)))"
proof (cases "qr_Status r = QuotaReservationReserved")
  case False
  then show ?thesis using assms by (simp add: close_reservation_def)
next
  case True
  let ?cm = "committedSpendTotal spend (qk_Kind (qr_Key r))"
  let ?target = "if ?cm > 0 then QuotaReservationCommitted else QuotaReservationReleased"
  let ?c = "r\<lparr>qr_CommittedAmount := ?cm, qr_ReleasedAmount := wrap64 (qr_ReservedAmount r - ?cm),
    qr_Status := ?target, qr_Version := inc64 (qr_Version r), qr_UpdatedAt := now\<rparr>"
  have "QuotaRepo_transition lg (Some ?c) (qr_Version r) ?target now = Inr lg'"
    using assms(3) True
    by (auto simp: close_reservation_def Let_def QuotaReservationStatus_CanTransitionTo_def
        QuotaRepo_Commit_def QuotaRepo_Release_def split: if_splits)
  from close_transition [OF assms(1,2) this] show ?thesis by simp
qed

lemma close_reservations_sweep:
  assumes "close_reservations lg spend rs now = Inr lg'" and "sweep_ok P key lg spend"
    and "\<forall>r\<in>set rs. qk_TurnKey (qr_Key r) = key"
  shows "sweep_ok P key lg' spend \<and> only_closes lg lg' \<and>
    (\<forall>r\<in>set rs. qr_Status r = QuotaReservationReserved \<longrightarrow>
      (\<exists>y\<in>set (lg_Reservations lg'). qr_Key y = qr_Key r \<and> QuotaReservationStatus_IsTerminal (qr_Status y)))"
  using assms
proof (induction rs arbitrary: lg)
  case Nil
  then show ?case by simp
next
  case (Cons r rs)
  obtain lg1 where one: "close_reservation lg spend r now = Inr lg1"
    and rest: "close_reservations lg1 spend rs now = Inr lg'"
    using Cons.prems(1) by (auto split: sum.splits)
  have "qk_TurnKey (qr_Key r) = key" using Cons.prems(3) by simp
  note a = close_reservation_sweep [OF Cons.prems(2) this one]
  from a have b: "sweep_ok P key lg' spend" "only_closes lg1 lg'"
      "\<forall>r\<in>set rs. qr_Status r = QuotaReservationReserved \<longrightarrow>
        (\<exists>y\<in>set (lg_Reservations lg'). qr_Key y = qr_Key r \<and> QuotaReservationStatus_IsTerminal (qr_Status y))"
    using Cons.IH [OF rest] Cons.prems(3) by auto
  have "\<exists>y\<in>set (lg_Reservations lg'). qr_Key y = qr_Key r \<and> QuotaReservationStatus_IsTerminal (qr_Status y)"
    if "qr_Status r = QuotaReservationReserved"
  proof -
    from a that have "\<exists>y\<in>set (lg_Reservations lg1). qr_Key y = qr_Key r \<and>
        QuotaReservationStatus_IsTerminal (qr_Status y)" by simp
    then obtain y where y: "y \<in> set (lg_Reservations lg1)" "qr_Key y = qr_Key r"
        "QuotaReservationStatus_IsTerminal (qr_Status y)" by blast
    from only_closes_row [OF b(2) y(1)] obtain y' where "y' \<in> set (lg_Reservations lg')" "row_closes y y'"
      by blast
    with y show ?thesis by (auto simp: row_closes_def QuotaReservationStatus_IsTerminal_def)
  qed
  with a b show ?case by (auto intro: only_closes_trans)
qed

lemma turn_reservations_Inr:
  assumes "turn_reservations lg key ks = Inr rs" and "reservations_ok (lg_Reservations lg)"
  shows "\<forall>r. r \<in> set rs \<longleftrightarrow> r \<in> set (lg_Reservations lg) \<and> qk_TurnKey (qr_Key r) = key \<and>
    qk_Kind (qr_Key r) \<in> set ks"
  using assms(1)
proof (induction ks arbitrary: rs)
  case Nil
  then show ?case by simp
next
  case (Cons k ks)
  have key: "qr_Key r = \<lparr>qk_TurnKey = key, qk_Kind = k\<rparr> \<longleftrightarrow> qk_TurnKey (qr_Key r) = key \<and> qk_Kind (qr_Key r) = k" for r
    by (cases "qr_Key r") auto
  show ?case
  proof (cases "QuotaRepo_Get lg \<lparr>qk_TurnKey = key, qk_Kind = k\<rparr>")
    case (Inl e)
    then have "e = ErrNotFound" and "turn_reservations lg key ks = Inr rs"
      using Cons.prems by (auto split: if_splits)
    moreover have "\<not> (r \<in> set (lg_Reservations lg) \<and> qk_TurnKey (qr_Key r) = key \<and> qk_Kind (qr_Key r) = k)" for r
      using QuotaRepo_Get_Inr [OF assms(2), of "\<lparr>qk_TurnKey = key, qk_Kind = k\<rparr>" r] Inl key [of r] by auto
    ultimately show ?thesis using Cons.IH by auto
  next
    case (Inr x)
    then obtain rs' where rs': "turn_reservations lg key ks = Inr rs'" "rs = x # rs'"
      using Cons.prems by (cases "turn_reservations lg key ks") auto
    have "r = x \<longleftrightarrow> r \<in> set (lg_Reservations lg) \<and> qk_TurnKey (qr_Key r) = key \<and> qk_Kind (qr_Key r) = k" for r
      using QuotaRepo_Get_Inr [OF assms(2), of "\<lparr>qk_TurnKey = key, qk_Kind = k\<rparr>" r] Inr key [of r] by auto
    with Cons.IH [OF rs'(1)] rs'(2) show ?thesis by auto
  qed
qed

lemma ListSpendByTurn_snapshot:
  "QuotaRepo_ListSpendByTurn lg key = Inr spend \<Longrightarrow> snapshot_of lg key spend"
  by (auto simp: QuotaRepo_ListSpendByTurn_def Let_def snapshot_of_def split: option.splits)



section \<open>The application's check and the repository's agree\<close>

lemma overflow_reason_text:
  assumes "0 \<le> a" "a \<le> maxInt64" "0 \<le> b" "b \<le> maxInt64"
  shows "isText 2000 (''actual '' @ itoa a @ '' exceeds remaining reservation '' @ itoa b)"
proof (rule isText_ascii)
  note ta = itoa_text [OF assms(1,2)] and tb = itoa_text [OF assms(3,4)]
  show "graphic (last (''actual '' @ itoa a @ '' exceeds remaining reservation '' @ itoa b))"
    using tb(1,3) by simp
  show "ascii (''actual '' @ itoa a @ '' exceeds remaining reservation '' @ itoa b)"
    using ta(3) tb(3) by (auto simp: ascii_def)
  show "length (''actual '' @ itoa a @ '' exceeds remaining reservation '' @ itoa b) \<le> 2000"
    using ta(2) tb(2) by simp
qed (simp_all add: graphic_def)

text \<open>What the settlement relies on about a run: in scope, sealed usage, price of the run.\<close>

definition settleable :: "priceSnapshotDigestPayload hasher \<Rightarrow> (goval \<Rightarrow> PriceSnapshotRef option) \<Rightarrow>
    LedgerEnv \<Rightarrow> TurnKey \<Rightarrow> string \<Rightarrow> SpendRun \<Rightarrow> QuotaKind \<Rightarrow> bool" where
  "settleable H decode env key i run kind \<longleftrightarrow>
     isTypedID PrefixRun i \<and> runInScope env (tk_GoalID key) i \<and> map_of (le_Runs env) i = Some run \<and>
     ValidCanonicalDigest (sr_CanonicalUsageDigest run) \<and>
     (\<exists>u. sr_CanonicalUsage run = Some u \<and>
        (\<forall>n. usage_amount u kind = Some n \<longrightarrow> 0 \<le> n \<and> n \<le> maxInt64) \<and>
        (cu_UnresolvedReason u = '''' \<or> isText 2000 (cu_UnresolvedReason u)) \<and>
        (kind = QuotaCostMicroUSD \<longrightarrow> ValidCanonicalDigest (cu_PriceDigest u) \<and>
           (\<exists>p. PriceSnapshotFromRunInput H decode (sr_Input run) = Inr (Some p) \<and>
              pr_Digest p = cu_PriceDigest u)))"

definition expected_entry :: "TurnKey \<Rightarrow> string \<Rightarrow> SpendRun \<Rightarrow> QuotaReservation \<Rightarrow> Ledger \<Rightarrow>
    QuotaSpendEntry \<Rightarrow> bool" where
  "expected_entry key i run r lg e \<longleftrightarrow>
     se_Key e = \<lparr>sk_TurnKey = key, sk_Kind = qk_Kind (qr_Key r), sk_RunID = i\<rparr> \<and>
     (\<exists>u. sr_CanonicalUsage run = Some u \<and>
       (case usage_amount u (qk_Kind (qr_Key r)) of
          None \<Rightarrow> se_Status e = QuotaSpendUnresolved \<and> se_Amount e = 0
        | Some n \<Rightarrow>
            if spent_on lg (qr_Key r) + n \<le> qr_ReservedAmount r
            then se_Status e = QuotaSpendCommitted \<and> se_Amount e = n
            else se_Status e = QuotaSpendUnresolved \<and> se_Amount e = 0))"

lemma usage_kind_cases:
  assumes "k \<in> set usageQuotaKinds"
  shows "QuotaKind_Valid k" and "k \<noteq> QuotaTurnCount" and "k \<noteq> QuotaActiveWorker"
  using assms by (auto simp: usageQuotaKinds_def)

lemma ValidCanonicalDigest_nonempty: "ValidCanonicalDigest d \<Longrightarrow> d \<noteq> ''''"
  by (auto simp: ValidCanonicalDigest_def)

lemma reservation_facts:
  assumes "sweep_ok P key lg spend" and "r \<in> set (lg_Reservations lg)" and "qk_TurnKey (qr_Key r) = key"
  shows "TurnKey_Validate key = None" and "ValidCanonicalDigest (qr_PolicyDigest r)"
    and "committedSpendTotal spend (qk_Kind (qr_Key r)) = spent_on lg (qr_Key r)"
    and "0 \<le> spent_on lg (qr_Key r)" and "spent_on lg (qr_Key r) \<le> qr_ReservedAmount r"
    and "qr_ReservedAmount r \<le> maxInt64"
    and "QuotaRepo_Get lg \<lparr>qk_TurnKey = key, qk_Kind = qk_Kind (qr_Key r)\<rparr> = Inr r"
proof -
  have ok: "ledger_in64 lg" "snapshot_of lg key spend" "reservations_ok (lg_Reservations lg)"
      "spends_ok (lg_Spends lg)" "covered lg"
    using assms(1) by (simp_all add: sweep_ok_def ledger_ok_def)
  have valid: "QuotaReservation_Validate (Some r) = None"
    using ok(3) assms(2) by (simp add: reservations_ok_def)
  then show "TurnKey_Validate key = None" "ValidCanonicalDigest (qr_PolicyDigest r)"
    using assms(3) by (auto simp: QuotaReservation_Validate.simps(2) QuotaReservationKey_Validate_def)
  show s: "0 \<le> spent_on lg (qr_Key r)" "spent_on lg (qr_Key r) \<le> qr_ReservedAmount r"
      "qr_ReservedAmount r \<le> maxInt64"
    using ok assms(2) spent_on_nonneg by (auto simp: covered_def ledger_in64_def)
  have rkey: "\<lparr>qk_TurnKey = key, qk_Kind = qk_Kind (qr_Key r)\<rparr> = qr_Key r"
    using assms(3) by (cases "qr_Key r") simp
  show "committedSpendTotal spend (qk_Kind (qr_Key r)) = spent_on lg (qr_Key r)"
    using committedSpendTotal_spent [OF ok(2,4), of "qk_Kind (qr_Key r)"] s by (simp add: rkey)
  show "QuotaRepo_Get lg \<lparr>qk_TurnKey = key, qk_Kind = qk_Kind (qr_Key r)\<rparr> = Inr r"
    unfolding rkey using QuotaRepo_Get_Inr [OF ok(3)] assms(2) by simp
qed

text \<open>The entry before the price, by cases on what the canonical usage knows.\<close>

lemma spend_entry_expected:
  assumes "sweep_ok P key lg spend" and "r \<in> set (lg_Reservations lg)" and "qk_TurnKey (qr_Key r) = key"
    and "settleable H decode env key i run (qk_Kind (qr_Key r))" and "now \<noteq> 0"
  shows "\<exists>e. spend_entry key i run r spend now = Inr e \<and> expected_entry key i run r lg e \<and>
    se_UsageBasis e = QuotaUsageBasisPerRun \<and> se_UsageDigest e = sr_CanonicalUsageDigest run \<and>
    se_PolicyDigest e = qr_PolicyDigest r \<and> se_PriceDigest e = '''' \<and> se_CreatedAt e = now \<and>
    (se_Status e = QuotaSpendUnresolved \<longrightarrow> isText 2000 (se_Reason e)) \<and>
    (se_Status e = QuotaSpendCommitted \<longrightarrow> se_Reason e = '''')"
proof -
  note r = reservation_facts [OF assms(1-3)]
  let ?rem = "qr_ReservedAmount r - spent_on lg (qr_Key r)"
  have rem: "wrap64 ?rem = ?rem" "0 \<le> ?rem" "?rem \<le> maxInt64"
    using r(4-6) by (auto simp: wrap64_fits)
  obtain u where u: "sr_CanonicalUsage run = Some u"
      "\<And>n. usage_amount u (qk_Kind (qr_Key r)) = Some n \<Longrightarrow> 0 \<le> n \<and> n \<le> maxInt64"
      "cu_UnresolvedReason u = '''' \<or> isText 2000 (cu_UnresolvedReason u)"
    using assms(4) by (auto simp: settleable_def)
  have default: "isText 2000 ''canonical usage kind unresolved''"
    by (simp add: text_eval)
  show ?thesis
  proof (cases "usage_amount u (qk_Kind (qr_Key r))")
    case None
    then show ?thesis using u default
      by (auto simp: spend_entry_def canonicalQuotaAmountFor_def Let_def expected_entry_def)
  next
    case (Some n)
    then have n: "0 \<le> n" "n \<le> maxInt64" using u(2) by auto
    show ?thesis
    proof (cases "n > ?rem")
      case True
      then show ?thesis
        using u(1) Some rem r(3) overflow_reason_text [OF n rem(2,3)]
        by (auto simp: spend_entry_def canonicalQuotaAmountFor_def Let_def expected_entry_def)
    next
      case False
      then show ?thesis
        using u(1) Some rem r(3)
        by (auto simp: spend_entry_def canonicalQuotaAmountFor_def Let_def expected_entry_def)
    qed
  qed
qed



lemma spend_scope_ok:
  assumes "sweep_ok P key lg spend" and "r \<in> set (lg_Reservations lg)" and "qk_TurnKey (qr_Key r) = key"
    and "settleable H decode env key i run (qk_Kind (qr_Key r))"
    and "expected_entry key i run r lg e" and "se_UsageDigest e = sr_CanonicalUsageDigest run"
    and "qk_Kind (qr_Key r) = QuotaCostMicroUSD \<Longrightarrow>
      Some (se_PriceDigest e) = map_option cu_PriceDigest (sr_CanonicalUsage run)"
  shows "validateSpendScopeAndCapacity H decode env lg e r = None"
proof -
  note r = reservation_facts [OF assms(1-3)]
  have rem: "wrap64 (qr_ReservedAmount r - spent_on lg (qr_Key r)) =
      qr_ReservedAmount r - spent_on lg (qr_Key r)"
    using r(4-6) by (intro wrap64_fits) auto
  obtain u where u: "sr_CanonicalUsage run = Some u" "map_of (le_Runs env) i = Some run"
      "runInScope env (tk_GoalID key) i"
      "qk_Kind (qr_Key r) = QuotaCostMicroUSD \<Longrightarrow>
        \<exists>p. PriceSnapshotFromRunInput H decode (sr_Input run) = Inr (Some p) \<and> pr_Digest p = cu_PriceDigest u"
    using assms(4) by (auto simp: settleable_def)
  have key: "se_Key e = \<lparr>sk_TurnKey = key, sk_Kind = qk_Kind (qr_Key r), sk_RunID = i\<rparr>"
    using assms(5) by (simp add: expected_entry_def)
  show ?thesis
  proof (cases "usage_amount u (qk_Kind (qr_Key r))")
    case None
    then have "se_Status e = QuotaSpendUnresolved" "se_Amount e = 0"
      using assms(5) u(1) by (auto simp: expected_entry_def)
    then show ?thesis
      using u assms(6,7) key r(5) None
      by (auto simp: validateSpendScopeAndCapacity_def canonicalQuotaAmount_def Let_def rem)
  next
    case (Some n)
    show ?thesis
    proof (cases "spent_on lg (qr_Key r) + n \<le> qr_ReservedAmount r")
      case True
      then have "se_Status e = QuotaSpendCommitted" "se_Amount e = n"
        using assms(5) u(1) Some by (auto simp: expected_entry_def)
      then show ?thesis
        using u assms(6,7) key r(5) Some True
        by (auto simp: validateSpendScopeAndCapacity_def canonicalQuotaAmount_def Let_def rem)
    next
      case False
      then have "se_Status e = QuotaSpendUnresolved" "se_Amount e = 0"
        using assms(5) u(1) Some by (auto simp: expected_entry_def)
      then show ?thesis
        using u assms(6,7) key r(5) Some False
        by (auto simp: validateSpendScopeAndCapacity_def canonicalQuotaAmount_def Let_def rem)
    qed
  qed
qed

lemma expected_entry_price:
  "expected_entry key i run r lg (e\<lparr>se_PriceDigest := d\<rparr>) = expected_entry key i run r lg e"
  by (simp add: expected_entry_def split: option.split)

lemma expected_entry_key:
  "expected_entry key i run r lg e \<Longrightarrow>
   se_Key e = \<lparr>sk_TurnKey = key, sk_Kind = qk_Kind (qr_Key r), sk_RunID = i\<rparr>"
  by (simp add: expected_entry_def)

lemma settle_entry_accepted:
  assumes "sweep_ok P key lg spend" and "r \<in> set (lg_Reservations lg)" and "qk_TurnKey (qr_Key r) = key"
    and "qr_Status r = QuotaReservationReserved" and "qk_Kind (qr_Key r) \<in> set usageQuotaKinds"
    and "settleable H decode env key i run (qk_Kind (qr_Key r))" and "now \<noteq> 0"
    and "QuotaRepo_GetSpend lg \<lparr>sk_TurnKey = key, sk_Kind = qk_Kind (qr_Key r), sk_RunID = i\<rparr> = Inl ErrNotFound"
  shows "\<exists>e. appendTurnRunSpendLocked H decode env lg key i run r spend now =
      Inr (spend @ [e], True, lg\<lparr>lg_Spends := lg_Spends lg @ [e]\<rparr>) \<and> expected_entry key i run r lg e"
proof -
  note r = reservation_facts [OF assms(1-3)] and kind = usage_kind_cases [OF assms(5)]
  obtain e where e: "spend_entry key i run r spend now = Inr e" "expected_entry key i run r lg e"
      "se_UsageBasis e = QuotaUsageBasisPerRun" "se_UsageDigest e = sr_CanonicalUsageDigest run"
      "se_PolicyDigest e = qr_PolicyDigest r" "se_PriceDigest e = ''''" "se_CreatedAt e = now"
      "se_Status e = QuotaSpendUnresolved \<longrightarrow> isText 2000 (se_Reason e)"
      "se_Status e = QuotaSpendCommitted \<longrightarrow> se_Reason e = ''''"
    using spend_entry_expected [OF assms(1-3,6,7)] by blast
  obtain u where u: "sr_CanonicalUsage run = Some u" "isTypedID PrefixRun i"
      "ValidCanonicalDigest (sr_CanonicalUsageDigest run)"
      "qk_Kind (qr_Key r) = QuotaCostMicroUSD \<Longrightarrow> ValidCanonicalDigest (cu_PriceDigest u)"
      "\<And>n. usage_amount u (qk_Kind (qr_Key r)) = Some n \<Longrightarrow> 0 \<le> n"
    using assms(6) by (auto simp: settleable_def)
  define e' where "e' = (if qk_Kind (qr_Key r) = QuotaCostMicroUSD
    then e\<lparr>se_PriceDigest := cu_PriceDigest u\<rparr> else e)"
  have e': "expected_entry key i run r lg e'" "se_UsageDigest e' = sr_CanonicalUsageDigest run"
      "se_PolicyDigest e' = qr_PolicyDigest r"
      "se_Key e' = \<lparr>sk_TurnKey = key, sk_Kind = qk_Kind (qr_Key r), sk_RunID = i\<rparr>"
    using e(2,4,5) expected_entry_key [OF e(2)] by (auto simp: e'_def expected_entry_price)
  have amount: "0 \<le> se_Amount e" "se_Status e = QuotaSpendCommitted \<or> se_Status e = QuotaSpendUnresolved"
      "se_Status e = QuotaSpendUnresolved \<Longrightarrow> se_Amount e = 0"
    using e(2) u(1,5) by (auto simp: expected_entry_def split: option.splits if_splits)
  have key: "se_Key e = \<lparr>sk_TurnKey = key, sk_Kind = qk_Kind (qr_Key r), sk_RunID = i\<rparr>"
    using e(2) by (simp add: expected_entry_def)
  have "QuotaSpendEntry_Validate (Some e') = None"
    using e(3-9) amount key r(1,2) kind u(2-4) assms(7)
    by (auto simp: e'_def QuotaSpendEntry_Validate.simps(2) QuotaSpendKey_Validate_def
        QuotaSpendStatus_Valid_def IsZero_def)
  moreover have "validateSpendScopeAndCapacity H decode env lg e' r = None"
    using u(1) by (intro spend_scope_ok [OF assms(1-3,6) e'(1,2)]) (simp add: e'_def)
  ultimately have "QuotaRepo_AppendSpend H decode env lg (Some e') =
      Inr (True, lg\<lparr>lg_Spends := lg_Spends lg @ [e']\<rparr>)"
    using assms(4,8) r(7) e'(3,4) by (simp add: QuotaRepo_AppendSpend.simps(2))
  then have "appendTurnRunSpendLocked H decode env lg key i run r spend now =
      Inr (spend @ [e'], True, lg\<lparr>lg_Spends := lg_Spends lg @ [e']\<rparr>)"
    using e(1) u(1,4) ValidCanonicalDigest_nonempty
    by (auto simp: appendTurnRunSpendLocked_def Let_def e'_def)
  with e'(1) show ?thesis by blast
qed

section \<open>The whole sweep\<close>

lemma settle_sweep_cases:
  assumes "settleGovernanceTurnQuotaLocked H decode canon w env lg key allow now = Inr (env', lg', ph6)"
  shows "(lg' = lg \<and> \<not> ph6) \<or> (\<exists>rs spend is t ab env1 spend1 b lg1.
    turn_reservations lg key usageQuotaKinds = Inr rs \<and> QuotaRepo_ListSpendByTurn lg key = Inr spend \<and>
    settle_runs H decode canon key now rs is (env, True, [], spend, True, lg) =
      Inr (env1, t, ab, spend1, b, lg1) \<and>
    ((lg' = lg1 \<and> \<not> ph6) \<or> (\<exists>env2 spend2 lg2.
      settle_absent H decode canon key now rs ab (env1, spend1, lg1) = Inr (env2, spend2, lg2) \<and>
      close_reservations lg2 spend2 rs now = Inr lg')))"
proof -
  obtain rs where rs: "turn_reservations lg key usageQuotaKinds = Inr rs \<or> (lg' = lg \<and> \<not> ph6)"
    using assms by (auto simp: settleGovernanceTurnQuotaLocked_def split: sum.splits if_splits)
  show ?thesis
  proof (cases "lg' = lg \<and> \<not> ph6")
    case False
    with rs assms obtain goal source runs spend where
      g: "turn_reservations lg key usageQuotaKinds = Inr rs" "rs \<noteq> []" "tw_Goal w = Inr goal"
        "source_run w goal = Inr (Some source)" "tw_TurnRuns w = Inr runs"
        "QuotaRepo_ListSpendByTurn lg key = Inr spend" and p6: "tw_Phase6 w = Inl ErrNotFound"
      by (auto simp: settleGovernanceTurnQuotaLocked_def
          split: sum.splits if_splits list.splits option.splits)
    note simps = settleGovernanceTurnQuotaLocked_def g p6
    note hide = close_reservations.simps settle_absent.simps settle_runs.simps
    let ?run = "settle_runs H decode canon key now rs (ordered_runs source runs)
        (env, True, [], spend, True, lg)"
    obtain env1 t ab spend1 b lg1 where run: "?run = Inr (env1, t, ab, spend1, b, lg1)"
      using assms g(2)
      by (cases ?run) (auto simp: simps simp del: hide split: list.splits)
    have "(lg' = lg1 \<and> \<not> ph6) \<or> (\<exists>env2 spend2 lg2.
      settle_absent H decode canon key now rs ab (env1, spend1, lg1) = Inr (env2, spend2, lg2) \<and>
      close_reservations lg2 spend2 rs now = Inr lg')"
    proof (cases "(\<not> t \<or> \<not> b) \<or> (length ab > 0 \<and> \<not> allow) \<or> closable w key = Inr False")
      case True
      then show ?thesis using assms g(2) run
        by (auto simp: simps simp del: hide split: list.splits if_splits)
    next
      case False
      then have "closable w key = Inr True"
        using assms g(2) run
        by (cases "closable w key") (auto simp: simps simp del: hide split: list.splits)
      then show ?thesis
        using assms g(2) run False
        by (cases "settle_absent H decode canon key now rs ab (env1, spend1, lg1)")
          (auto simp: simps simp del: hide split: list.splits sum.splits)
    qed
    with g run show ?thesis by blast
  qed blast
qed



section \<open>The sweep succeeds when its inputs are in order\<close>

lemma reservation_rows_unique:
  assumes "reservations_ok rs" and "x \<in> set rs" and "r \<in> set rs" and "qr_Key x = qr_Key r"
  shows "x = r"
  using assms inj_onD [of qr_Key "set rs" x r] by (simp add: reservations_ok_def distinct_map)

lemma affected_one:
  assumes "reservations_ok (lg_Reservations lg)" and "r \<in> set (lg_Reservations lg)"
    and "qr_Key c = qr_Key r" and "v = qr_Version r"
  shows "affected lg c v = 1"
proof -
  have "filter (\<lambda>row. qr_Key row = qr_Key c \<and> qr_Version row = v) (lg_Reservations lg) =
      filter (\<lambda>row. row = r) (lg_Reservations lg)"
    by (rule filter_cong) (use assms reservation_rows_unique in auto)
  also have "length \<dots> = 1"
    using assms(1,2) by (simp add: reservations_ok_def distinct_map distinct_length_filter Int_absorb1)
  finally show ?thesis by (simp add: affected_def)
qed

lemma close_reservation_accepted:
  assumes "sweep_ok P key lg spend" and "r \<in> set (lg_Reservations lg)" and "qk_TurnKey (qr_Key r) = key"
    and "qr_Version r < maxInt64" and "now \<noteq> 0"
  shows "\<exists>lg'. close_reservation lg spend r now = Inr lg' \<and>
    (\<forall>x\<in>set (lg_Reservations lg). x \<noteq> r \<longrightarrow> x \<in> set (lg_Reservations lg'))"
proof (cases "qr_Status r = QuotaReservationReserved")
  case False
  then show ?thesis by (simp add: close_reservation_def)
next
  case True
  note f = reservation_facts [OF assms(1-3)]
  have ok: "reservations_ok (lg_Reservations lg)"
    using assms(1) by (simp add: sweep_ok_def ledger_ok_def)
  then have valid: "QuotaReservation_Validate (Some r) = None"
    using assms(2) by (simp add: reservations_ok_def)
  then have v: "1 \<le> qr_Version r" "\<not> IsZero (qr_CreatedAt r)"
    by (simp_all add: QuotaReservation_Validate.simps(2))
  define target where "target = (if spent_on lg (qr_Key r) > 0 then QuotaReservationCommitted
    else QuotaReservationReleased)"
  define c where "c = r\<lparr>qr_CommittedAmount := spent_on lg (qr_Key r),
    qr_ReleasedAmount := qr_ReservedAmount r - spent_on lg (qr_Key r), qr_Status := target,
    qr_Version := inc64 (qr_Version r), qr_UpdatedAt := now\<rparr>"
  have w: "wrap64 (qr_ReservedAmount r - spent_on lg (qr_Key r)) =
      qr_ReservedAmount r - spent_on lg (qr_Key r)" "inc64 (qr_Version r) = qr_Version r + 1"
      "wrap64 (maxInt64 - (qr_ReservedAmount r - spent_on lg (qr_Key r))) =
        maxInt64 - (qr_ReservedAmount r - spent_on lg (qr_Key r))"
      "wrap64 (qr_ReservedAmount r) = qr_ReservedAmount r"
    using f(4-6) v(1) assms(4) by (auto simp: wrap64_fits inc64_ge1)
  have "QuotaReservation_Validate (Some c) = None"
    using valid v w f(4-6) assms(4,5)
    by (auto simp: c_def QuotaReservation_Validate.simps(2) target_def IsZero_def
        QuotaReservationStatus_IsTerminal_def)
  moreover have "QuotaReservationStatus_CanTransitionTo (qr_Status r) target"
    using True by (simp add: QuotaReservationStatus_CanTransitionTo_def target_def)
  moreover have "QuotaRepo_Get lg (qr_Key r) = Inr r"
    using QuotaRepo_Get_Inr [OF ok] assms(2) by simp
  moreover have "affected lg c (qr_Version r) = 1"
    by (rule affected_one [OF ok assms(2)]) (simp_all add: c_def)
  ultimately have "\<exists>lg'. QuotaRepo_transition lg (Some c) (qr_Version r) target now = Inr lg'"
    using v assms(4,5)
    by (simp add: QuotaRepo_transition.simps(2) c_def sameReservationIntent_def IsZero_def
        QuotaReservationKey_Equal_def TurnKey_Equal_def)
  then obtain lg' where lg': "QuotaRepo_transition lg (Some c) (qr_Version r) target now = Inr lg'" ..
  have "close_reservation lg spend r now = Inr lg'"
    using lg' True w(1) f(3)
    by (auto simp: close_reservation_def Let_def QuotaReservationStatus_CanTransitionTo_def
        QuotaRepo_Commit_def QuotaRepo_Release_def c_def target_def)
  moreover have "x \<in> set (lg_Reservations lg')" if "x \<in> set (lg_Reservations lg)" "x \<noteq> r" for x
  proof -
    from transition_Inr [OF lg' ok] obtain z y where z: "z \<in> set (lg_Reservations lg)"
        "qr_Key z = qr_Key c"
        "lg' = lg\<lparr>lg_Reservations := map (\<lambda>r. if r = z then y else r) (lg_Reservations lg)\<rparr>" by blast
    then have "z = r" using reservation_rows_unique [OF ok z(1) assms(2)] by (simp add: c_def)
    then show ?thesis using that z(3) by force
  qed
  ultimately show ?thesis by blast
qed

lemma close_reservations_accepted:
  assumes "sweep_ok P key lg spend" and "now \<noteq> 0" and "distinct rs"
    and "\<forall>r\<in>set rs. r \<in> set (lg_Reservations lg) \<and> qk_TurnKey (qr_Key r) = key \<and> qr_Version r < maxInt64"
  shows "\<exists>lg'. close_reservations lg spend rs now = Inr lg'"
  using assms
proof (induction rs arbitrary: lg)
  case (Cons r rs)
  obtain lg1 where one: "close_reservation lg spend r now = Inr lg1"
      "\<forall>x\<in>set (lg_Reservations lg). x \<noteq> r \<longrightarrow> x \<in> set (lg_Reservations lg1)"
    using close_reservation_accepted [OF Cons.prems(1) _ _ _ Cons.prems(2), of r] Cons.prems(4) by auto
  have "sweep_ok P key lg1 spend"
    using close_reservation_sweep [OF Cons.prems(1) _ one(1)] Cons.prems(4) by auto
  moreover have "\<forall>x\<in>set rs. x \<in> set (lg_Reservations lg1) \<and> qk_TurnKey (qr_Key x) = key \<and>
      qr_Version x < maxInt64"
    using one(2) Cons.prems(3,4) by auto
  ultimately show ?case using Cons.IH [of lg1] Cons.prems(2,3) one(1) by simp
qed simp

lemma GetSpend_total:
  assumes "spends_ok (lg_Spends lg)" and "QuotaSpendKey_Validate k = None"
  shows "(\<exists>e. QuotaRepo_GetSpend lg k = Inr e) \<or> QuotaRepo_GetSpend lg k = Inl ErrNotFound"
  using assms
  by (auto simp: QuotaRepo_GetSpend_def scanSpend_def spends_ok_def dest: find_key_Some split: option.split)

text \<open>A run that can be settled against every row of the turn is settled by one pass.\<close>

definition row_ready :: "priceSnapshotDigestPayload hasher \<Rightarrow> (goval \<Rightarrow> PriceSnapshotRef option) \<Rightarrow>
    LedgerEnv \<Rightarrow> TurnKey \<Rightarrow> string list \<Rightarrow> QuotaReservation \<Rightarrow> bool" where
  "row_ready H decode env key is r \<longleftrightarrow> qr_Status r = QuotaReservationReserved \<and> qr_Version r < maxInt64 \<and>
     (\<forall>i\<in>set is. \<exists>run. settleable H decode env key i run (qk_Kind (qr_Key r)))"

definition turn_row :: "TurnKey \<Rightarrow> QuotaReservation \<Rightarrow> bool" where
  "turn_row key r \<longleftrightarrow> qk_TurnKey (qr_Key r) = key \<and> qk_Kind (qr_Key r) \<in> set usageQuotaKinds"

lemma settle_run_accepted:
  assumes "sweep_ok P key lg spend" and "now \<noteq> 0" and "set rs \<subseteq> set (lg_Reservations lg)"
    and "\<forall>r\<in>set rs. turn_row key r \<and> qr_Status r = QuotaReservationReserved \<and>
      settleable H decode env key i run (qk_Kind (qr_Key r))"
  shows "\<exists>spend' lg'. settle_run H decode env key i run now rs (spend, b, lg) = Inr (spend', b, lg')"
  using assms
proof (induction rs arbitrary: spend lg)
  case (Cons r rs)
  let ?k = "\<lparr>sk_TurnKey = key, sk_Kind = qk_Kind (qr_Key r), sk_RunID = i\<rparr>"
  have r: "r \<in> set (lg_Reservations lg)" "qk_TurnKey (qr_Key r) = key"
      "qk_Kind (qr_Key r) \<in> set usageQuotaKinds" "qr_Status r = QuotaReservationReserved"
      "settleable H decode env key i run (qk_Kind (qr_Key r))"
    using Cons.prems(3,4) by (auto simp: turn_row_def)
  have "QuotaSpendKey_Validate ?k = None"
    using reservation_facts(1) [OF Cons.prems(1) r(1,2)] usage_kind_cases [OF r(3)] r(5)
    by (simp add: QuotaSpendKey_Validate_def settleable_def)
  then have "(\<exists>e. QuotaRepo_GetSpend lg ?k = Inr e) \<or> QuotaRepo_GetSpend lg ?k = Inl ErrNotFound"
    using Cons.prems(1) by (intro GetSpend_total) (simp_all add: sweep_ok_def ledger_ok_def)
  then show ?case
  proof (elim disjE exE)
    fix e assume "QuotaRepo_GetSpend lg ?k = Inr e"
    then show ?thesis using Cons.IH [OF Cons.prems(1,2)] Cons.prems(3,4) by simp
  next
    assume none: "QuotaRepo_GetSpend lg ?k = Inl ErrNotFound"
    obtain s1 lg1 where step: "appendTurnRunSpendLocked H decode env lg key i run r spend now = Inr (s1, True, lg1)"
      using settle_entry_accepted [OF Cons.prems(1) r(1,2,4,3,5) Cons.prems(2) none] by blast
    from appendTurnRunSpend_sweep [OF Cons.prems(1) step]
    have "sweep_ok P key lg1 s1" "lg_Reservations lg1 = lg_Reservations lg" by (simp_all add: only_spends_def)
    then show ?thesis using Cons.IH [of lg1 s1] Cons.prems(2-4) none step by simp
  qed
qed simp

lemma settle_runs_accepted:
  assumes "sweep_ok P key lg spend" and "now \<noteq> 0" and "set rs \<subseteq> set (lg_Reservations lg)"
    and "\<forall>r\<in>set rs. turn_row key r \<and> row_ready H decode env key is r" and "rs \<noteq> []"
    and "\<forall>i\<in>set is. canon env i False = Inr (False, env)"
  shows "\<exists>spend' lg'. settle_runs H decode canon key now rs is (env, True, ab, spend, True, lg) =
    Inr (env, True, ab, spend', True, lg')"
  using assms
proof (induction "is" arbitrary: spend lg)
  case (Cons i "is")
  obtain r0 where "r0 \<in> set rs" using assms(5) by (cases rs) auto
  then obtain run where run: "map_of (le_Runs env) i = Some run" "sr_Status run = SpendRunTerminal"
      "sr_CanonicalUsage run \<noteq> None"
    using Cons.prems(4) by (fastforce simp: row_ready_def settleable_def runInScope_def split: option.splits)
  have ready: "\<forall>r\<in>set rs. turn_row key r \<and> qr_Status r = QuotaReservationReserved \<and>
      settleable H decode env key i run (qk_Kind (qr_Key r))"
    using Cons.prems(4) run(1) by (fastforce simp: row_ready_def settleable_def)
  from settle_run_accepted [OF Cons.prems(1-3) ready, of True] obtain s1 lg1 where
    step: "settle_run H decode env key i run now rs (spend, True, lg) = Inr (s1, True, lg1)" by blast
  have "sweep_ok P key lg1 s1" "lg_Reservations lg1 = lg_Reservations lg"
    using settle_run_sweep [OF step Cons.prems(1)] by (simp_all add: only_spends_def)
  moreover have "\<forall>r\<in>set rs. turn_row key r \<and> row_ready H decode env key is r"
    using Cons.prems(4) by (simp add: row_ready_def)
  ultimately have "\<exists>spend' lg'. settle_runs H decode canon key now rs is (env, True, ab, s1, True, lg1) =
      Inr (env, True, ab, spend', True, lg')"
    using Cons.IH [of lg1 s1] Cons.prems(2,3,5,6) by simp
  then show ?case using run step Cons.prems(6) by auto
qed simp



lemma turn_reservations_total:
  assumes "reservations_ok (lg_Reservations lg)" and "TurnKey_Validate key = None"
    and "set ks \<subseteq> set usageQuotaKinds"
  shows "\<exists>rs. turn_reservations lg key ks = Inr rs"
  using assms(3)
proof (induction ks)
  case (Cons k ks)
  let ?k = "\<lparr>qk_TurnKey = key, qk_Kind = k\<rparr>"
  have "QuotaReservationKey_Validate ?k = None"
    using assms(2) Cons.prems usage_kind_cases(1) [of k] by (simp add: QuotaReservationKey_Validate_def)
  then have "QuotaRepo_Get lg ?k = Inl ErrNotFound \<or> (\<exists>r. QuotaRepo_Get lg ?k = Inr r)"
    using assms(1) by (auto simp: QuotaRepo_Get_def scanReservation_def reservations_ok_def
        dest: find_key_Some split: option.split)
  with Cons show ?case by auto
qed simp

lemma turn_reservations_distinct:
  assumes "turn_reservations lg key ks = Inr rs" and "reservations_ok (lg_Reservations lg)" and "distinct ks"
  shows "distinct rs"
  using assms(1,3)
proof (induction ks arbitrary: rs)
  case (Cons k ks)
  show ?case
  proof (cases "QuotaRepo_Get lg \<lparr>qk_TurnKey = key, qk_Kind = k\<rparr>")
    case (Inl e)
    then show ?thesis using Cons by (auto split: if_splits)
  next
    case (Inr x)
    then obtain rs' where rs': "turn_reservations lg key ks = Inr rs'" "rs = x # rs'"
      using Cons.prems(1) by (cases "turn_reservations lg key ks") auto
    have "qk_Kind (qr_Key x) = k" using QuotaRepo_Get_Inr [OF assms(2)] Inr by auto
    then have "x \<notin> set rs'" using turn_reservations_Inr [OF rs'(1) assms(2)] Cons.prems(2) by auto
    then show ?thesis using Cons.IH [OF rs'(1)] Cons.prems(2) rs'(2) by simp
  qed
qed simp

lemma usageQuotaKinds_distinct: "distinct usageQuotaKinds"
  by (simp add: usageQuotaKinds_def)

lemma ListSpendByTurn_total:
  assumes "spends_ok (lg_Spends lg)" and "TurnKey_Validate key = None"
  shows "\<exists>spend. QuotaRepo_ListSpendByTurn lg key = Inr spend"
proof -
  define rows where "rows = sort_key (\<lambda>s. QuotaKind_text (sk_Kind (se_Key s)))
    (sort_key (\<lambda>s. sk_RunID (se_Key s)) (filter (\<lambda>s. sk_TurnKey (se_Key s) = key) (lg_Spends lg)))"
  have "set rows \<subseteq> set (lg_Spends lg)" by (auto simp: rows_def)
  moreover have eq: "QuotaRepo_ListSpendByTurn lg key =
      (case first_error (map (\<lambda>s. QuotaSpendEntry_Validate (Some s)) rows) of
         Some e \<Rightarrow> Inl e | None \<Rightarrow> Inr rows)"
    using assms(2) by (simp only: QuotaRepo_ListSpendByTurn_def Let_def rows_def option.case)
  ultimately have "first_error (map (\<lambda>s. QuotaSpendEntry_Validate (Some s)) rows) = None"
    using assms(1) by (auto simp: spends_ok_def)
  then show ?thesis unfolding eq by (simp only: option.case) blast
qed

text \<open>All rows of the turn are rows of the final table, closed when the sweep closed them.\<close>

lemma sweep_closes_turn:
  assumes "turn_reservations lg key usageQuotaKinds = Inr rs" and "reservations_ok (lg_Reservations lg)"
    and "lg_Reservations lg2 = lg_Reservations lg" and "only_closes lg2 lg3"
    and "reservations_ok (lg_Reservations lg3)"
    and "\<forall>r\<in>set rs. qr_Status r = QuotaReservationReserved \<longrightarrow>
      (\<exists>y\<in>set (lg_Reservations lg3). qr_Key y = qr_Key r \<and> QuotaReservationStatus_IsTerminal (qr_Status y))"
  shows "\<forall>y\<in>set (lg_Reservations lg3). turn_row key y \<longrightarrow> QuotaReservationStatus_IsTerminal (qr_Status y)"
proof (intro ballI impI)
  fix y assume y: "y \<in> set (lg_Reservations lg3)" "turn_row key y"
  from y(1) assms(4) obtain x where x: "x \<in> set (lg_Reservations lg2)" "row_closes x y"
    unfolding only_closes_def by (metis in_set_conv_nth list_all2_conv_all_nth)
  then have key: "qr_Key y = qr_Key x" by (auto simp: row_closes_def)
  have "x \<in> set rs"
    using turn_reservations_Inr [OF assms(1,2)] x(1) y(2) key by (simp add: assms(3) turn_row_def)
  show "QuotaReservationStatus_IsTerminal (qr_Status y)"
  proof (cases "qr_Status x = QuotaReservationReserved")
    case True
    with assms(6) \<open>x \<in> set rs\<close> obtain z where "z \<in> set (lg_Reservations lg3)" "qr_Key z = qr_Key x"
        "QuotaReservationStatus_IsTerminal (qr_Status z)" by blast
    then show ?thesis using reservation_rows_unique [OF assms(5), of z y] y(1) key by simp
  next
    case False
    then have "x = y" using x(2) by (auto simp: row_closes_def)
    moreover have "QuotaReservationStatus_Valid (qr_Status y)"
      using assms(5) y(1) by (auto simp: reservations_ok_def QuotaReservation_Validate.simps(2))
    ultimately show ?thesis using False
      by (cases "qr_Status y") (simp_all add: QuotaReservationStatus_IsTerminal_def)
  qed
qed

lemma list_all2_row_closes_refl: "list_all2 row_closes rs rs"
  by (simp add: list_all2_refl row_closes_refl)

lemma settle_sweep_outcome:
  assumes "settleGovernanceTurnQuotaLocked H decode canon w env lg key allow now = Inr (env', lg', ph6)"
    and "ledger_ok lg" "ledger_in64 lg" "settled_exact P lg"
  shows "ledger_ok lg' \<and> settled_exact P lg' \<and> (\<exists>es. lg_Spends lg' = lg_Spends lg @ es) \<and>
    list_all2 row_closes (lg_Reservations lg) (lg_Reservations lg') \<and>
    (lg_Reservations lg' = lg_Reservations lg \<and> \<not> ph6 \<or>
     (\<forall>r\<in>set (lg_Reservations lg'). turn_row key r \<longrightarrow> QuotaReservationStatus_IsTerminal (qr_Status r)))"
  using settle_sweep_cases [OF assms(1)]
proof (elim disjE exE conjE)
  assume "lg' = lg" "\<not> ph6"
  then show ?thesis using assms(2,4) list_all2_row_closes_refl by auto
next
  fix rs spend "is" t ab env1 spend1 b lg1
  assume rs: "turn_reservations lg key usageQuotaKinds = Inr rs"
    and snap: "QuotaRepo_ListSpendByTurn lg key = Inr spend"
    and run: "settle_runs H decode canon key now rs is (env, True, [], spend, True, lg) =
      Inr (env1, t, ab, spend1, b, lg1)"
  have "sweep_ok P key lg spend"
    using assms(2-4) ListSpendByTurn_snapshot [OF snap] by (simp add: sweep_ok_def)
  from settle_runs_sweep [OF run this] have one: "sweep_ok P key lg1 spend1" "only_spends lg lg1" by auto
  {
    assume "lg' = lg1" "\<not> ph6"
    then show ?thesis using one list_all2_row_closes_refl by (auto simp: sweep_ok_def only_spends_def)
  next
    fix env2 spend2 lg2
    assume absent: "settle_absent H decode canon key now rs ab (env1, spend1, lg1) = Inr (env2, spend2, lg2)"
      and close: "close_reservations lg2 spend2 rs now = Inr lg'"
    from settle_absent_sweep [OF absent one(1)] one(2)
    have two: "sweep_ok P key lg2 spend2" "only_spends lg lg2" by (auto intro: only_spends_trans)
    have ok: "reservations_ok (lg_Reservations lg)" using assms(2) by (simp add: ledger_ok_def)
    have "\<forall>r\<in>set rs. qk_TurnKey (qr_Key r) = key"
      using turn_reservations_Inr [OF rs ok] by blast
    from close_reservations_sweep [OF close two(1) this]
    have three: "sweep_ok P key lg' spend2" "only_closes lg2 lg'"
        "\<forall>r\<in>set rs. qr_Status r = QuotaReservationReserved \<longrightarrow>
          (\<exists>y\<in>set (lg_Reservations lg'). qr_Key y = qr_Key r \<and> QuotaReservationStatus_IsTerminal (qr_Status y))"
      by auto
    have same: "lg_Reservations lg2 = lg_Reservations lg" using two(2) by (simp add: only_spends_def)
    have "reservations_ok (lg_Reservations lg')"
      using three(1) by (simp add: sweep_ok_def ledger_ok_def)
    from sweep_closes_turn [OF rs ok same three(2) this three(3)]
    show ?thesis using three(1,2) two(2) same by (auto simp: sweep_ok_def only_closes_def only_spends_def)
  }
qed



lemma settlement_runs_through:
  assumes "ledger_ok lg" "ledger_in64 lg" "settled_exact P lg" "now \<noteq> 0"
    and "tw_Phase6 w = Inl ErrNotFound" "tw_Goal w = Inr goal" "source_run w goal = Inr (Some source)"
    and "tw_TurnRuns w = Inr runs" "closable w key = Inr True"
    and "r0 \<in> set (lg_Reservations lg)" "turn_row key r0"
    and "\<forall>r\<in>set (lg_Reservations lg). turn_row key r \<longrightarrow>
      row_ready H decode env key (ordered_runs source runs) r"
    and "\<forall>i\<in>set (ordered_runs source runs). canon env i False = Inr (False, env)"
  shows "\<exists>lg' ph6. settleGovernanceTurnQuotaLocked H decode canon w env lg key allow now = Inr (env, lg', ph6) \<and>
    ph6 = (case tw_Phase5 w of Inr _ \<Rightarrow> True | Inl _ \<Rightarrow> False) \<and>
    (\<forall>r\<in>set (lg_Reservations lg'). turn_row key r \<longrightarrow> QuotaReservationStatus_IsTerminal (qr_Status r))"
proof -
  have ok: "reservations_ok (lg_Reservations lg)" "spends_ok (lg_Spends lg)"
    using assms(1) by (simp_all add: ledger_ok_def)
  have key: "TurnKey_Validate key = None"
    using reservation_key_valid assms(10,11) ok(1)
    by (fastforce simp: reservations_ok_def turn_row_def QuotaReservationKey_Validate_def)
  obtain rs where rs: "turn_reservations lg key usageQuotaKinds = Inr rs"
    using turn_reservations_total [OF ok(1) key] by blast
  note mem = turn_reservations_Inr [OF rs ok(1)]
  have rows: "set rs \<subseteq> set (lg_Reservations lg)" "rs \<noteq> []"
      "\<forall>r\<in>set rs. turn_row key r \<and> row_ready H decode env key (ordered_runs source runs) r"
    using mem assms(10-12) by (auto simp: turn_row_def)
  obtain spend where spend: "QuotaRepo_ListSpendByTurn lg key = Inr spend"
    using ListSpendByTurn_total [OF ok(2) key] by blast
  have sweep: "sweep_ok P key lg spend"
    using assms(1-3) ListSpendByTurn_snapshot [OF spend] by (simp add: sweep_ok_def)
  obtain spend1 lg1 where run: "settle_runs H decode canon key now rs (ordered_runs source runs)
      (env, True, [], spend, True, lg) = Inr (env, True, [], spend1, True, lg1)"
    using settle_runs_accepted [where canon = canon, OF sweep assms(4) rows(1,3,2) assms(13)] by blast
  have one: "sweep_ok P key lg1 spend1" "lg_Reservations lg1 = lg_Reservations lg"
    using settle_runs_sweep [OF run sweep] by (simp_all add: only_spends_def)
  obtain lg' where close: "close_reservations lg1 spend1 rs now = Inr lg'"
    using close_reservations_accepted [OF one(1) assms(4) turn_reservations_distinct [OF rs ok(1) usageQuotaKinds_distinct]]
      rows(1,3) one(2) by (auto simp: turn_row_def row_ready_def)
  have turn: "\<forall>r\<in>set rs. qk_TurnKey (qr_Key r) = key" using mem by blast
  from close_reservations_sweep [OF close one(1) turn]
  have three: "only_closes lg1 lg'" "reservations_ok (lg_Reservations lg')"
      "\<forall>r\<in>set rs. qr_Status r = QuotaReservationReserved \<longrightarrow>
        (\<exists>y\<in>set (lg_Reservations lg'). qr_Key y = qr_Key r \<and> QuotaReservationStatus_IsTerminal (qr_Status y))"
    by (auto simp: sweep_ok_def ledger_ok_def)
  have "settleGovernanceTurnQuotaLocked H decode canon w env lg key allow now =
      Inr (env, lg', (case tw_Phase5 w of Inr _ \<Rightarrow> True | Inl _ \<Rightarrow> False))"
    using assms(5-9) rs rows(2) spend run close
    by (cases rs) (simp_all add: settleGovernanceTurnQuotaLocked_def settle_absent.simps(1)
        del: close_reservations.simps settle_runs.simps)
  moreover note sweep_closes_turn [OF rs ok(1) one(2) three]
  ultimately show ?thesis by blast
qed

section \<open>A sample turn\<close>

definition sample_key :: TurnKey where
  "sample_key = \<lparr>tk_GoalID = ''goal_1'', tk_TodoID = ''todo_1'', tk_TurnSeq = 1\<rparr>"

definition sample_usage :: CanonicalUsageV1 where
  "sample_usage = \<lparr>cu_SchemaVersion = ''usage-v1'', cu_RunID = ''run_1'', cu_Basis = ''per_run'',
     cu_Counters = sample_counters, cu_CostMicroUSD = None, cu_PriceDigest = '''',
     cu_ResolvedKinds = [QuotaOutputTokens], cu_UnresolvedKinds = [], cu_UnresolvedReason = '''',
     cu_Provenance = \<lparr>pv_AdapterID = ''claude'', pv_Protocol = ''acp'',
       pv_ProtocolVersion = ''1'', pv_Source = ''provider'', pv_ReportedBasis = ''per_run'',
       pv_AgentID = ''agent_1'', pv_SessionRef = '''', pv_Mapping = ''v1'', pv_AnchorBefore = None,
       pv_AnchorAfter = None, pv_AnchorGeneration = 0, pv_AnchorSequence = 0, pv_AnchorObservedAt = 0\<rparr>, cu_Digest = canonical_digest 1\<rparr>"

definition sample_run :: SpendRun where
  "sample_run = \<lparr>sr_WorkspaceID = ''ws_1'', sr_WorkItemID = ''wi_1'', sr_Status = SpendRunTerminal,
     sr_CanonicalUsage = Some sample_usage, sr_CanonicalUsageDigest = canonical_digest 1, sr_Input = []\<rparr>"

definition sample_env :: LedgerEnv where
  "sample_env = \<lparr>le_Goals = [(''goal_1'', ''wi_1'', ''ws_1'')], le_Items = [(''wi_1'', None, True)],
     le_Runs = [(''run_1'', sample_run)]\<rparr>"

definition sample_reservation :: QuotaReservation where
  "sample_reservation = \<lparr>qr_Key = \<lparr>qk_TurnKey = sample_key, qk_Kind = QuotaOutputTokens\<rparr>,
     qr_Status = QuotaReservationReserved, qr_ReservedAmount = 100, qr_CommittedAmount = 0,
     qr_ReleasedAmount = 0, qr_PolicyLimit = 1000, qr_PolicyEnforcement = QuotaEnforcementAudit,
     qr_PolicyDigest = canonical_digest 2, qr_Version = 1, qr_CreatedAt = 1, qr_UpdatedAt = 1\<rparr>"

definition sample_ledger :: Ledger where
  "sample_ledger = \<lparr>lg_Reservations = [sample_reservation], lg_Spends = []\<rparr>"

definition sample_world :: TurnWorld where
  "sample_world = \<lparr>tw_Phase6 = Inl ErrNotFound, tw_Goal = Inr sample_goal, tw_Phase1 = Inr ''run_1'',
     tw_HeaderSource = Inl ErrNotFound, tw_TurnRuns = Inr [''run_1''], tw_Phase5 = Inr (),
     tw_Todo = Inl ErrNotFound, tw_Plan = Inr None, tw_Coordinator = Inl ErrNotFound,
     tw_RetryKey = (\<lambda>_. Inl ErrNotFound)\<rparr>"

definition sample_canon :: canonicalizer where
  "sample_canon env i absent = Inr (False, env)"

lemma sample_reservation_valid: "QuotaReservation_Validate (Some sample_reservation) = None"
  by (simp add: QuotaReservation_Validate.simps(2) sample_reservation_def sample_key_def IsZero_def
      QuotaReservationKey_Validate_def TurnKey_Validate_def text_eval prefix_defs
      QuotaReservationStatus_IsTerminal_def QuotaEnforcement_Valid_def maxInt64_def wrap64_def)

lemma sample_ledger_ok: "ledger_ok sample_ledger" "ledger_in64 sample_ledger" "settled_exact P sample_ledger"
  using sample_reservation_valid
  by (simp_all add: ledger_ok_def reservations_ok_def spends_ok_def covered_def ledger_in64_def
      settled_exact_def sample_ledger_def spent_on_def)
    (simp_all add: sample_reservation_def maxInt64_def QuotaReservationStatus_IsTerminal_def)

lemma sample_settleable:
  "settleable H decode sample_env sample_key ''run_1'' sample_run QuotaOutputTokens"
  by (simp add: settleable_def sample_env_def sample_run_def sample_usage_def sample_key_def
      runInScope_def subtree_def subtree_step_def text_eval prefix_defs sample_counters_def maxInt64_def)

lemma sample_row:
  "turn_row sample_key sample_reservation"
  "row_ready H decode sample_env sample_key [''run_1''] sample_reservation"
  using sample_settleable
  by (auto simp: turn_row_def row_ready_def sample_reservation_def usageQuotaKinds_def maxInt64_def)

lemma sample_world_facts:
  "tw_Phase6 sample_world = Inl ErrNotFound" "tw_Goal sample_world = Inr sample_goal"
  "source_run sample_world sample_goal = Inr (Some ''run_1'')" "tw_TurnRuns sample_world = Inr [''run_1'']"
  "closable sample_world sample_key = Inr True" "ordered_runs ''run_1'' [''run_1''] = [''run_1'']"
  "tw_Phase5 sample_world = Inr ()"
  by (simp_all add: sample_world_def source_run_def closable_def ordered_runs_def)

lemma sample_settlement:
  "\<exists>lg'. settleGovernanceTurnQuotaLocked H decode sample_canon sample_world sample_env sample_ledger
     sample_key False 9 = Inr (sample_env, lg', True)"
  using settlement_runs_through [OF sample_ledger_ok, of 9 sample_world sample_goal "''run_1''" "[''run_1'']"
      sample_key sample_reservation H decode sample_env sample_canon False]
    sample_row sample_world_facts
  by (auto simp: sample_canon_def sample_ledger_def)

section \<open>Properties\<close>

lemma new_row_was_open:
  assumes "list_all2 row_closes rs rs'" and "r' \<in> set rs'" and "r' \<notin> set rs"
  obtains r where "r \<in> set rs" "qr_Key r = qr_Key r'" "qr_Status r = QuotaReservationReserved"
proof -
  obtain n where n: "n < length rs'" "rs' ! n = r'" using assms(2) by (auto simp: in_set_conv_nth)
  then have "row_closes (rs ! n) r'" "rs ! n \<in> set rs" using assms(1) by (auto simp: list_all2_conv_all_nth)
  then show ?thesis using that [of "rs ! n"] assms(3) by (auto simp: row_closes_def)
qed

lemma open_keys_exact:
  assumes "ledger_ok lg"
  shows "settled_exact (\<lambda>k. \<exists>r\<in>set (lg_Reservations lg). qr_Key r = k \<and> qr_Status r = QuotaReservationReserved) lg"
  unfolding settled_exact_def
proof (intro ballI impI, elim bexE conjE)
  fix r r0
  assume r: "r \<in> set (lg_Reservations lg)" "QuotaReservationStatus_IsTerminal (qr_Status r)"
    and r0: "r0 \<in> set (lg_Reservations lg)" "qr_Key r0 = qr_Key r" "qr_Status r0 = QuotaReservationReserved"
  have "r0 = r" using inj_onD [of qr_Key "set (lg_Reservations lg)" r0 r] r(1) r0(1,2) assms
    by (simp add: ledger_ok_def reservations_ok_def distinct_map)
  then show "qr_CommittedAmount r = spent_on lg (qr_Key r) \<and> qr_ReleasedAmount r = qr_ReservedAmount r - spent_on lg (qr_Key r)"
    using r(2) r0(3) by (simp add: QuotaReservationStatus_IsTerminal_def)
qed

text \<open>
  C7. One settlement sweep of a turn on a valid ledger with amounts within int64, whatever it returns: the ledger stays valid, no spend
  row is changed or removed, no reservation changes except from reserved to a terminal status with
  the same key and amount, every reservation that the sweep settled commits exactly what was spent on it
  and releases the rest, reservations settled before stay as exact as they were, and
  the turn closes all at once: either no reservation moved and phase 6 is not due, or every usage
  reservation of the turn is terminal.
\<close>

theorem settlement_sweep_safe:
  assumes "settleGovernanceTurnQuotaLocked H decode canon w env lg key allow now = Inr (env', lg', ph6)"
    and "ledger_ok lg" "ledger_in64 lg"
  shows "ledger_ok lg' \<and> (\<exists>es. lg_Spends lg' = lg_Spends lg @ es) \<and>
    list_all2 row_closes (lg_Reservations lg) (lg_Reservations lg') \<and>
    (\<forall>r\<in>set (lg_Reservations lg'). r \<notin> set (lg_Reservations lg) \<longrightarrow> QuotaReservationStatus_IsTerminal (qr_Status r) \<and>
      qr_CommittedAmount r = spent_on lg' (qr_Key r) \<and> qr_ReleasedAmount r = qr_ReservedAmount r - spent_on lg' (qr_Key r)) \<and>
    (\<forall>P. settled_exact P lg \<longrightarrow> settled_exact P lg') \<and>
    (lg_Reservations lg' = lg_Reservations lg \<and> \<not> ph6 \<or>
     (\<forall>r\<in>set (lg_Reservations lg'). turn_row key r \<longrightarrow> QuotaReservationStatus_IsTerminal (qr_Status r)))"
proof -
  note out = settle_sweep_outcome [OF assms]
  let ?open = "\<lambda>k. \<exists>r\<in>set (lg_Reservations lg). qr_Key r = k \<and> qr_Status r = QuotaReservationReserved"
  have all: "list_all2 row_closes (lg_Reservations lg) (lg_Reservations lg')" and ex: "settled_exact ?open lg'"
    using out [OF open_keys_exact [OF assms(2)]] by blast+
  have new: "QuotaReservationStatus_IsTerminal (qr_Status r) \<and>
      qr_CommittedAmount r = spent_on lg' (qr_Key r) \<and> qr_ReleasedAmount r = qr_ReservedAmount r - spent_on lg' (qr_Key r)"
    if r: "r \<in> set (lg_Reservations lg')" "r \<notin> set (lg_Reservations lg)" for r
  proof -
    obtain n where n: "n < length (lg_Reservations lg')" "lg_Reservations lg' ! n = r" using r(1) by (auto simp: in_set_conv_nth)
    then have "row_closes (lg_Reservations lg ! n) r" "lg_Reservations lg ! n \<in> set (lg_Reservations lg)"
      using all by (auto simp: list_all2_conv_all_nth)
    then have t: "QuotaReservationStatus_IsTerminal (qr_Status r)" using r(2) by (auto simp: row_closes_def)
    have "?open (qr_Key r)" using new_row_was_open [OF all r] by metis
    then show ?thesis using ex r(1) t by (simp add: settled_exact_def)
  qed
  show ?thesis using out [OF open_keys_exact [OF assms(2)]] out new by blast
qed

theorem settlement_sweep_safe_witness:
  "\<exists>lg'. settleGovernanceTurnQuotaLocked sample_hash (\<lambda>_. None) sample_canon sample_world sample_env
      sample_ledger sample_key False 9 = Inr (sample_env, lg', True) \<and> ledger_ok lg' \<and>
    list_all (\<lambda>r. QuotaReservationStatus_IsTerminal (qr_Status r))
      (filter (turn_row sample_key) (lg_Reservations lg'))"
proof -
  obtain lg' where run: "settleGovernanceTurnQuotaLocked sample_hash (\<lambda>_. None) sample_canon sample_world
      sample_env sample_ledger sample_key False 9 = Inr (sample_env, lg', True)"
    using sample_settlement by blast
  from settlement_sweep_safe [OF run sample_ledger_ok(1,2)] run show ?thesis by (auto simp: list_all_iff)
qed



end
