(* ===== verification/FileChanges.thy ===== *)
theory FileChanges
  imports GoText "HOL-Library.Sublist" "HOL-Library.AList"
begin

text \<open>
  The file-change summaries and diffs shown in a run: \<^verbatim>\<open>internal/filechanges/filechanges.go\<close>.
  Slices indexed by loops are lists with \<^term>\<open>nth\<close> and \<^term>\<open>list_update\<close>; every index is in
  range on the paths the code takes. The reference they are measured against is the longest
  common subsequence, defined as a maximum.
\<close>

section \<open>Snapshots and lines\<close>

record Snapshot =
  ss_Path :: string
  ss_BeforeContent :: "string option"
  ss_AfterContent :: string
  ss_WriteCount :: int
  ss_Binary :: bool

definition Snapshot_Before :: "Snapshot \<Rightarrow> string" where
  "Snapshot_Before s = (case ss_BeforeContent s of None \<Rightarrow> '''' | Some b \<Rightarrow> b)"

record TurnFileChanges =
  tc_TurnIndex :: int
  tc_Snapshots :: "Snapshot list"
  tc_FileState :: string

definition splitLines :: "string \<Rightarrow> string list" where
  "splitLines text =
     (let lines = splitOn (CHR 0x0A) text
      in if length lines > 0 \<and> lines ! (length lines - 1) = '''' then take (length lines - 1) lines
         else lines)"

definition SplitIntoLogicalLines :: "string option \<Rightarrow> string list" where
  "SplitIntoLogicalLines text =
     (case text of None \<Rightarrow> [] | Some t \<Rightarrow> if t = '''' then [] else splitLines t)"

section \<open>Counting added and removed lines\<close>

text \<open>The common prefix, and the common suffix of what is left.\<close>

function prefix_end :: "string list \<Rightarrow> string list \<Rightarrow> nat \<Rightarrow> nat" where
  "prefix_end oldL newL lo =
     (if lo < length oldL \<and> lo < length newL \<and> oldL ! lo = newL ! lo
      then prefix_end oldL newL (Suc lo) else lo)"
  by pat_completeness auto
termination by (relation "measure (\<lambda>(oldL, newL, lo). length oldL - lo)") auto

function suffix_start :: "string list \<Rightarrow> string list \<Rightarrow> int \<Rightarrow> int \<Rightarrow> int \<Rightarrow> int \<times> int" where
  "suffix_start oldL newL lo oi ni =
     (if lo \<le> oi \<and> lo \<le> ni \<and> oldL ! nat oi = newL ! nat ni
      then suffix_start oldL newL lo (oi - 1) (ni - 1) else (oi, ni))"
  by pat_completeness auto
termination by (relation "measure (\<lambda>(oldL, newL, lo, oi, ni). nat (oi - lo + 1))") auto

declare prefix_end.simps [simp del] suffix_start.simps [simp del]

text \<open>One row of the table in place: \<open>prev\<close> is the entry above and to the left.\<close>

definition lcs_cell :: "string \<Rightarrow> string list \<Rightarrow> nat list \<times> nat \<Rightarrow> nat \<Rightarrow> nat list \<times> nat" where
  "lcs_cell x newMid st j =
     (let (dp, prev) = st; tmp = dp ! j
      in (if x = newMid ! (j - 1) then dp[j := prev + 1]
          else if dp ! (j - 1) > dp ! j then dp[j := dp ! (j - 1)] else dp, tmp))"

definition lcs_row :: "string list \<Rightarrow> string list \<Rightarrow> nat list \<Rightarrow> nat \<Rightarrow> nat list" where
  "lcs_row oldMid newMid dp i =
     fst (foldl (lcs_cell (oldMid ! (i - 1)) newMid) (dp, 0) [1..<length newMid + 1])"

definition lcs_table :: "string list \<Rightarrow> string list \<Rightarrow> nat list" where
  "lcs_table oldMid newMid =
     foldl (lcs_row oldMid newMid) (replicate (length newMid + 1) 0) [1..<length oldMid + 1]"

definition ComputeLineChangeStat :: "string option \<Rightarrow> string \<Rightarrow> nat \<times> nat" where
  "ComputeLineChangeStat before after =
     (let oldL = SplitIntoLogicalLines before; newL = splitLines after;
          lo = prefix_end oldL newL 0;
          (oi, ni) = suffix_start oldL newL (int lo) (int (length oldL) - 1) (int (length newL) - 1);
          oldMid = drop lo (take (nat (oi + 1)) oldL);
          newMid = drop lo (take (nat (ni + 1)) newL)
      in if length oldMid = 0 then (length newMid, 0)
         else if length newMid = 0 then (0, length oldMid)
         else if length oldMid * length newMid > 400000 then (length newMid, length oldMid)
         else let lcs = lcs_table oldMid newMid ! length newMid
              in (length newMid - lcs, length oldMid - lcs))"

section \<open>Folding the turns of a run\<close>

record folded =
  fd_before :: string
  fd_after :: string
  fd_writes :: int
  fd_turn :: int
  fd_binary :: bool

text \<open>The map from path to the fold is an association list with distinct keys.\<close>

definition fold_snapshot :: "int \<Rightarrow> (string \<times> folded) list \<Rightarrow> Snapshot \<Rightarrow> (string \<times> folded) list" where
  "fold_snapshot turn byPath snap =
     (if ss_Path snap = '''' then byPath
      else
        (let count = (if ss_WriteCount snap < 1 then 1 else ss_WriteCount snap);
             item = (case map_of byPath (ss_Path snap) of
                 None \<Rightarrow> \<lparr>fd_before = Snapshot_Before snap, fd_after = ss_AfterContent snap,
                   fd_writes = count, fd_turn = turn, fd_binary = ss_Binary snap\<rparr>
               | Some it \<Rightarrow> it\<lparr>fd_after := ss_AfterContent snap,
                   fd_writes := wrap64 (fd_writes it + count), fd_turn := turn,
                   fd_binary := fd_binary it \<or> ss_Binary snap\<rparr>)
         in AList.update (ss_Path snap) item byPath))"

definition fold_turn :: "(string \<times> folded) list \<Rightarrow> TurnFileChanges \<Rightarrow> (string \<times> folded) list" where
  "fold_turn byPath turn = foldl (fold_snapshot (tc_TurnIndex turn)) byPath (tc_Snapshots turn)"

record FileStat =
  fi_Path :: string
  fi_Added :: nat
  fi_Removed :: nat
  fi_WriteCount :: int
  fi_LastTurnIndex :: int
  fi_BeforeContent :: string
  fi_AfterContent :: string
  fi_Binary :: bool

record Summary =
  sm_FileCount :: nat
  sm_Added :: nat
  sm_Removed :: nat
  sm_Files :: "FileStat list"

definition file_stat :: "string \<Rightarrow> folded \<Rightarrow> FileStat" where
  "file_stat path item =
     (let (added, removed) = (if fd_binary item then (0, 0)
            else ComputeLineChangeStat (Some (fd_before item)) (fd_after item))
      in \<lparr>fi_Path = path, fi_Added = added, fi_Removed = removed, fi_WriteCount = fd_writes item,
          fi_LastTurnIndex = fd_turn item, fi_BeforeContent = fd_before item,
          fi_AfterContent = fd_after item, fi_Binary = fd_binary item\<rparr>)"

definition add_file :: "(string \<times> folded) list \<Rightarrow> Summary \<Rightarrow> string \<Rightarrow> Summary" where
  "add_file byPath result path =
     (let stat = file_stat path (the (map_of byPath path))
      in result\<lparr>sm_Added := sm_Added result + fi_Added stat,
                sm_Removed := sm_Removed result + fi_Removed stat,
                sm_Files := sm_Files result @ [stat]\<rparr>)"

definition BuildPerRunSummary :: "TurnFileChanges list \<Rightarrow> Summary" where
  "BuildPerRunSummary turns =
     (let byPath = foldl fold_turn [] turns; paths = sort (map fst byPath)
      in foldl (add_file byPath)
           \<lparr>sm_FileCount = length paths, sm_Added = 0, sm_Removed = 0, sm_Files = []\<rparr> paths)"

definition BuildPerTurnSummary :: "TurnFileChanges \<Rightarrow> Summary" where
  "BuildPerTurnSummary turn = BuildPerRunSummary [turn]"

section \<open>Diff operations\<close>

datatype diff_kind = Keep | Del | Add \<comment> \<open>the bytes \<^verbatim>\<open>' '\<close>, \<^verbatim>\<open>'-'\<close> and \<^verbatim>\<open>'+'\<close>\<close>

type_synonym diffOperation = "diff_kind \<times> string"

definition replacementOperations :: "string list \<Rightarrow> string list \<Rightarrow> diffOperation list" where
  "replacementOperations oldLines newLines = map (Pair Del) oldLines @ map (Pair Add) newLines"

text \<open>The matrix, row after row from the end, flattened.\<close>

definition diff_cell :: "string list \<Rightarrow> string list \<Rightarrow> nat \<Rightarrow> nat list \<Rightarrow> nat \<Rightarrow> nat list" where
  "diff_cell oldLines newLines i dp j =
     (let m = length newLines; at = i * (m + 1) + j
      in if oldLines ! i = newLines ! j then dp[at := 1 + dp ! ((i + 1) * (m + 1) + j + 1)]
         else if dp ! ((i + 1) * (m + 1) + j) \<ge> dp ! (i * (m + 1) + j + 1)
              then dp[at := dp ! ((i + 1) * (m + 1) + j)]
              else dp[at := dp ! (i * (m + 1) + j + 1)])"

definition diff_row :: "string list \<Rightarrow> string list \<Rightarrow> nat list \<Rightarrow> nat \<Rightarrow> nat list" where
  "diff_row oldLines newLines dp i =
     foldl (diff_cell oldLines newLines i) dp (rev [0..<length newLines])"

definition diff_table :: "string list \<Rightarrow> string list \<Rightarrow> nat list" where
  "diff_table oldLines newLines =
     foldl (diff_row oldLines newLines)
       (replicate ((length oldLines + 1) * (length newLines + 1)) 0) (rev [0..<length oldLines])"

function backtrace :: "string list \<Rightarrow> string list \<Rightarrow> nat list \<Rightarrow> nat \<Rightarrow> nat \<Rightarrow> diffOperation list" where
  "backtrace oldLines newLines dp i j =
     (let n = length oldLines; m = length newLines
      in if i < n \<and> j < m then
           if oldLines ! i = newLines ! j then
             (Keep, oldLines ! i) # backtrace oldLines newLines dp (i + 1) (j + 1)
           else if dp ! ((i + 1) * (m + 1) + j) \<ge> dp ! (i * (m + 1) + j + 1) then
             (Del, oldLines ! i) # backtrace oldLines newLines dp (i + 1) j
           else (Add, newLines ! j) # backtrace oldLines newLines dp i (j + 1)
         else map (Pair Del) (drop i oldLines) @ map (Pair Add) (drop j newLines))"
  by pat_completeness auto
termination
  by (relation "measure (\<lambda>(oldLines, newLines, dp, i, j). (length oldLines - i) + (length newLines - j))") auto

declare backtrace.simps [simp del]

definition diffOperations :: "string list \<Rightarrow> string list \<Rightarrow> diffOperation list" where
  "diffOperations oldLines newLines =
     (let n = length oldLines; m = length newLines
      in if n = 0 then map (Pair Add) newLines
         else if m = 0 then map (Pair Del) oldLines
         else if n * m > 400000 then replacementOperations oldLines newLines
         else backtrace oldLines newLines (diff_table oldLines newLines) 0 0)"

section \<open>Hunks\<close>

record diffHunk =
  dh_start :: nat
  dh_end :: nat
  dh_oldStart :: nat
  dh_oldCount :: nat
  dh_newStart :: nat
  dh_newCount :: nat

definition old_side :: "diffOperation list \<Rightarrow> diffOperation list" where
  "old_side ops = filter (\<lambda>op. fst op \<noteq> Add) ops"

definition new_side :: "diffOperation list \<Rightarrow> diffOperation list" where
  "new_side ops = filter (\<lambda>op. fst op \<noteq> Del) ops"

definition makeHunk :: "diffOperation list \<Rightarrow> nat \<Rightarrow> nat \<Rightarrow> diffHunk" where
  "makeHunk ops start stop =
     (let before = take start ops; body = drop start (take stop ops)
      in \<lparr>dh_start = start, dh_end = stop, dh_oldStart = length (old_side before) + 1,
          dh_oldCount = length (old_side body), dh_newStart = length (new_side before) + 1,
          dh_newCount = length (new_side body)\<rparr>)"

text \<open>The loop over the changed indices; \<open>index - 3\<close> is clipped at 0 by the code.\<close>

fun hunk_loop :: "diffOperation list \<Rightarrow> nat \<Rightarrow> nat \<Rightarrow> nat list \<Rightarrow> diffHunk list" where
  "hunk_loop ops start stop [] = [makeHunk ops start stop]"
| "hunk_loop ops start stop (index # changed) =
     (let nextStart = (if index < 3 then 0 else index - 3);
          nextEnd = (if index + 4 > length ops then length ops else index + 4)
      in if nextStart < stop then
           hunk_loop ops start (if nextEnd > stop then nextEnd else stop) changed
         else makeHunk ops start stop # hunk_loop ops nextStart nextEnd changed)"

definition diffHunks :: "diffOperation list \<Rightarrow> diffHunk list" where
  "diffHunks ops =
     (case filter (\<lambda>i. fst (ops ! i) \<noteq> Keep) [0..<length ops] of
        [] \<Rightarrow> []
      | index # changed \<Rightarrow>
          hunk_loop ops (if index < 3 then 0 else index - 3)
            (if index + 4 > length ops then length ops else index + 4) changed)"

section \<open>The unified diff as text\<close>

fun kind_byte :: "diff_kind \<Rightarrow> char" where
  "kind_byte Keep = CHR '' ''"
| "kind_byte Del = CHR ''-''"
| "kind_byte Add = CHR ''+''"

definition newline :: string where "newline = [CHR 0x0A]"

definition hunk_body :: "diffOperation list \<Rightarrow> diffHunk \<Rightarrow> diffOperation list" where
  "hunk_body ops h = drop (dh_start h) (take (dh_end h) ops)"

definition hunk_text :: "diffOperation list \<Rightarrow> diffHunk \<Rightarrow> string" where
  "hunk_text ops h =
     ''@@ -'' @ itoa (int (dh_oldStart h)) @ '','' @ itoa (int (dh_oldCount h)) @ '' +'' @
     itoa (int (dh_newStart h)) @ '','' @ itoa (int (dh_newCount h)) @ '' @@'' @ newline @
     concat (map (\<lambda>op. kind_byte (fst op) # snd op @ newline) (hunk_body ops h))"

definition UnifiedDiff :: "Snapshot \<Rightarrow> string" where
  "UnifiedDiff s =
     (if ss_Binary s then ''Binary file '' @ ss_Path s @ '' cannot be previewed''
      else
        (let oldL = splitLines (Snapshot_Before s); newL = splitLines (ss_AfterContent s)
         in if length oldL = 0 \<and> length newL = 0 then []
            else
              (let ops = diffOperations oldL newL
               in ''--- '' @ ss_Path s @ newline @ ''+++ '' @ ss_Path s @ newline @
                  concat (map (hunk_text ops) (diffHunks ops)))))"

section \<open>The longest common subsequence\<close>

fun lcs :: "'a list \<Rightarrow> 'a list \<Rightarrow> nat" where
  "lcs [] ys = 0"
| "lcs xs [] = 0"
| "lcs (x # xs) (y # ys) = (if x = y then Suc (lcs xs ys) else max (lcs xs (y # ys)) (lcs (x # xs) ys))"

lemma lcs_Nil2 [simp]: "lcs xs [] = 0"
  by (cases xs) auto

lemma subseq_Cons_tl: "subseq (z # zs) xs \<Longrightarrow> subseq zs xs"
  by (metis subseq_Cons')

lemma lcs_upper: "subseq zs xs \<Longrightarrow> subseq zs ys \<Longrightarrow> length zs \<le> lcs xs ys"
proof (induction xs ys arbitrary: zs rule: lcs.induct)
  case (3 x xs y ys)
  show ?case
  proof (cases zs)
    case (Cons z zs')
    show ?thesis
    proof (cases "x = y")
      case True
      then have "subseq zs' xs" "subseq zs' ys"
        using "3.prems" Cons by (auto split: if_splits intro: subseq_Cons_tl)
      with "3.IH"(1) [OF True] Cons True show ?thesis by auto
    next
      case False
      then have "subseq zs xs \<or> subseq zs ys"
        using "3.prems" Cons by (auto split: if_splits)
      then show ?thesis
        using "3.IH"(2,3) [OF False] "3.prems" False by (auto intro: le_max_iff_disj [THEN iffD2])
    qed
  qed simp
qed auto

lemma lcs_attained: "\<exists>zs. subseq zs xs \<and> subseq zs ys \<and> length zs = lcs xs ys"
proof (induction xs ys rule: lcs.induct)
  case (3 x xs y ys)
  show ?case
  proof (cases "x = y")
    case True
    with "3.IH"(1) obtain zs where "subseq zs xs" "subseq zs ys" "length zs = lcs xs ys" by blast
    then have "subseq (x # zs) (x # xs)" "subseq (x # zs) (y # ys)" "length (x # zs) = lcs (x # xs) (y # ys)"
      using True by auto
    then show ?thesis by blast
  next
    case False
    then show ?thesis
      using "3.IH"(2,3) by (simp add: max_def) (meson subseq_Cons_tl list_emb_Cons)
  qed
qed auto

lemma lcsI:
  assumes "subseq zs xs" and "subseq zs ys"
    and "\<And>ws. subseq ws xs \<Longrightarrow> subseq ws ys \<Longrightarrow> length ws \<le> length zs"
  shows "lcs xs ys = length zs"
  using lcs_upper [OF assms(1,2)] lcs_attained [of xs ys] assms(3) by (metis le_antisym)

lemma subseq_rev: "subseq zs xs \<Longrightarrow> subseq (rev zs) (rev xs)"
proof (induction zs xs rule: list_emb.induct)
  case (list_emb_Cons zs xs y)
  then show ?case by (auto intro: subseq_rev_drop_many)
next
  case (list_emb_Cons2 x y zs xs)
  then have "subseq (rev zs @ [x]) (rev xs @ [y])" by (intro list_emb_append_mono) auto
  then show ?case by simp
qed simp

lemma lcs_rev [simp]: "lcs (rev xs) (rev ys) = lcs xs ys"
proof -
  have "lcs xs ys \<le> lcs (rev xs) (rev ys)" for xs ys :: "'a list"
  proof -
    obtain zs where zs: "subseq zs xs" "subseq zs ys" "length zs = lcs xs ys"
      using lcs_attained by blast
    from lcs_upper [OF subseq_rev [OF zs(1)] subseq_rev [OF zs(2)]] zs(3) show ?thesis by simp
  qed
  from this [of xs ys] this [of "rev xs" "rev ys"] show ?thesis by simp
qed

lemma lcs_le: "lcs xs ys \<le> length xs" "lcs xs ys \<le> length ys"
  using lcs_attained [of xs ys] list_emb_length by metis+

lemma lcs_common_prefix: "lcs (ps @ xs) (ps @ ys) = length ps + lcs xs ys"
  by (induction ps) auto

lemma lcs_common_suffix: "lcs (xs @ ss) (ys @ ss) = lcs xs ys + length ss"
  using lcs_common_prefix [of "rev ss" "rev xs" "rev ys"]
  by (metis add.commute lcs_rev length_rev rev_append)

lemma lcs_snoc:
  "lcs (xs @ [x]) (ys @ [y]) =
     (if x = y then Suc (lcs xs ys) else max (lcs xs (ys @ [y])) (lcs (xs @ [x]) ys))"
proof -
  have "lcs (xs @ [x]) (ys @ [y]) = lcs (x # rev xs) (y # rev ys)"
    using lcs_rev [of "xs @ [x]" "ys @ [y]"] by simp
  also have "\<dots> = (if x = y then Suc (lcs xs ys) else max (lcs (rev xs) (rev (ys @ [y]))) (lcs (rev (xs @ [x])) (rev ys)))"
    by simp
  finally show ?thesis by (simp only: lcs_rev)
qed

lemma lcs_take_Suc:
  assumes "i < length xs" and "j < length ys"
  shows "lcs (take (Suc i) xs) (take (Suc j) ys) =
    (if xs ! i = ys ! j then Suc (lcs (take i xs) (take j ys))
     else max (lcs (take i xs) (take (Suc j) ys)) (lcs (take (Suc i) xs) (take j ys)))"
  using assms lcs_snoc [of "take i xs" "xs ! i" "take j ys" "ys ! j"]
  by (simp add: take_Suc_conv_app_nth)

lemma lcs_drop_Suc:
  assumes "i < length xs" and "j < length ys"
  shows "lcs (drop i xs) (drop j ys) =
    (if xs ! i = ys ! j then Suc (lcs (drop (Suc i) xs) (drop (Suc j) ys))
     else max (lcs (drop (Suc i) xs) (drop j ys)) (lcs (drop i xs) (drop (Suc j) ys)))"
  using assms by (simp add: Cons_nth_drop_Suc [symmetric])

section \<open>The in-place row computes it\<close>

text \<open>After \<open>j\<close> cells of row \<open>i + 1\<close>: the entries up to \<open>j\<close> are of the new row.\<close>

definition row_inv :: "string list \<Rightarrow> string list \<Rightarrow> nat \<Rightarrow> nat \<Rightarrow> nat list \<times> nat \<Rightarrow> bool" where
  "row_inv xs ys i j st \<longleftrightarrow> length (fst st) = length ys + 1 \<and>
     (\<forall>k\<le>length ys. fst st ! k = lcs (take (if k \<le> j then Suc i else i) xs) (take k ys)) \<and>
     snd st = lcs (take i xs) (take j ys)"

lemma row_cell:
  assumes "row_inv xs ys i j st" and "i < length xs" and "j < length ys"
  shows "row_inv xs ys i (Suc j) (lcs_cell (xs ! i) ys st (Suc j))"
proof -
  obtain dp prev where st: "st = (dp, prev)" by (cases st)
  have dp: "length dp = length ys + 1" "prev = lcs (take i xs) (take j ys)"
      "dp ! j = lcs (take (Suc i) xs) (take j ys)" "dp ! Suc j = lcs (take i xs) (take (Suc j) ys)"
    using assms(1,3) by (auto simp: row_inv_def st)
  have cell: "fst (lcs_cell (xs ! i) ys st (Suc j)) = dp[Suc j := lcs (take (Suc i) xs) (take (Suc j) ys)]"
    using lcs_take_Suc [OF assms(2,3)] dp
    by (auto simp: lcs_cell_def st Let_def max_def intro: list_update_id)
      (metis list_update_id linorder_le_less_linear order_antisym)+
  show ?thesis
    using assms dp(1,4) unfolding row_inv_def cell
    by (auto simp: st lcs_cell_def Let_def nth_list_update split: if_splits)
qed

lemma row_cells:
  assumes "row_inv xs ys i 0 st" and "i < length xs" and "j \<le> length ys"
  shows "row_inv xs ys i j (foldl (lcs_cell (xs ! i) ys) st [1..<Suc j])"
  using assms(3)
proof (induction j)
  case (Suc j)
  then show ?case using row_cell [OF _ assms(2)] by simp
qed (use assms(1) in simp)

lemma lcs_row_next:
  assumes "\<forall>k\<le>length ys. dp ! k = lcs (take i xs) (take k ys)" and "length dp = length ys + 1"
    and "i < length xs"
  shows "(\<forall>k\<le>length ys. lcs_row xs ys dp (Suc i) ! k = lcs (take (Suc i) xs) (take k ys)) \<and>
    length (lcs_row xs ys dp (Suc i)) = length ys + 1"
proof -
  have "row_inv xs ys i 0 (dp, 0)" using assms(1,2) by (simp add: row_inv_def)
  from row_cells [OF this assms(3), of "length ys"] show ?thesis
    by (simp add: lcs_row_def row_inv_def)
qed

lemma lcs_table_correct:
  "lcs_table xs ys ! length ys = lcs xs ys"
proof -
  have "(\<forall>k\<le>length ys. foldl (lcs_row xs ys) (replicate (length ys + 1) 0) [1..<Suc i] ! k =
      lcs (take i xs) (take k ys)) \<and>
    length (foldl (lcs_row xs ys) (replicate (length ys + 1) 0) [1..<Suc i]) = length ys + 1"
    if "i \<le> length xs" for i
    using that
  proof (induction i)
    case 0
    then show ?case by (simp del: replicate_Suc)
  next
    case (Suc i)
    then show ?case using lcs_row_next [of ys _ i xs] by simp
  qed
  from this [of "length xs"] show ?thesis by (simp add: lcs_table_def del: upt_Suc)
qed

section \<open>Trimming the common ends\<close>

lemma prefix_end_props:
  assumes "lo \<le> length xs" and "lo \<le> length ys" and "take lo xs = take lo ys"
  shows "prefix_end xs ys lo \<le> length xs \<and> prefix_end xs ys lo \<le> length ys \<and>
    take (prefix_end xs ys lo) xs = take (prefix_end xs ys lo) ys"
  using assms
proof (induction xs ys lo rule: prefix_end.induct)
  case (1 xs ys lo)
  show ?case
  proof (cases "lo < length xs \<and> lo < length ys \<and> xs ! lo = ys ! lo")
    case True
    then have "take (Suc lo) xs = take (Suc lo) ys"
      using "1.prems"(3) by (simp add: take_Suc_conv_app_nth)
    then show ?thesis using "1.IH" [OF True] True by (subst (1 2 3 4) prefix_end.simps) simp
  next
    case False
    then show ?thesis using "1.prems" by (subst (1 2 3 4) prefix_end.simps) auto
  qed
qed

lemma suffix_start_props:
  assumes "lo - 1 \<le> oi" "lo - 1 \<le> ni" "0 \<le> lo" "oi < int (length xs)" "ni < int (length ys)"
    and "drop (nat (oi + 1)) xs = drop (nat (ni + 1)) ys"
    and "suffix_start xs ys lo oi ni = (oi', ni')"
  shows "lo - 1 \<le> oi' \<and> lo - 1 \<le> ni' \<and> oi' < int (length xs) \<and> ni' < int (length ys) \<and>
    drop (nat (oi' + 1)) xs = drop (nat (ni' + 1)) ys"
  using assms
proof (induction xs ys lo oi ni rule: suffix_start.induct)
  case (1 xs ys lo oi ni)
  show ?case
  proof (cases "lo \<le> oi \<and> lo \<le> ni \<and> xs ! nat oi = ys ! nat ni")
    case True
    then have n: "nat (oi + 1) = Suc (nat oi)" "nat (ni + 1) = Suc (nat ni)" "nat oi < length xs" "nat ni < length ys"
      using "1.prems"(3-5) by auto
    have "drop (nat oi) xs = drop (nat ni) ys"
      using "1.prems"(6) True n by (simp add: Cons_nth_drop_Suc [symmetric])
    then show ?thesis
      using "1.IH" [OF True] "1.prems" True by (subst (asm) (2) suffix_start.simps) simp
  next
    case False
    then show ?thesis using "1.prems" by (subst (asm) suffix_start.simps) auto
  qed
qed

text \<open>The lines of both sides as common prefix, middle and common suffix.\<close>

lemma trimmed:
  assumes "prefix_end xs ys 0 = lo" and "suffix_start xs ys (int lo) (int (length xs) - 1) (int (length ys) - 1) = (oi, ni)"
  obtains ps ss where "xs = ps @ drop lo (take (nat (oi + 1)) xs) @ ss"
    and "ys = ps @ drop lo (take (nat (ni + 1)) ys) @ ss"
proof
  have lo: "lo \<le> length xs" "lo \<le> length ys" "take lo xs = take lo ys"
    using prefix_end_props [of 0 xs ys] assms(1) by auto
  have s: "int lo - 1 \<le> oi" "int lo - 1 \<le> ni" "drop (nat (oi + 1)) xs = drop (nat (ni + 1)) ys"
    using suffix_start_props [OF _ _ _ _ _ _ assms(2)] lo by auto
  have split: "zs = take lo zs @ drop lo (take k zs) @ drop k zs" if "lo \<le> k" for k and zs :: "string list"
    using that by (metis append_assoc append_take_drop_id min.absorb1 take_take)
  show "xs = take lo xs @ drop lo (take (nat (oi + 1)) xs) @ drop (nat (oi + 1)) xs"
    using s(1) by (intro split) auto
  show "ys = take lo xs @ drop lo (take (nat (ni + 1)) ys) @ drop (nat (oi + 1)) xs"
    unfolding lo(3) s(3) using s(2) by (intro split) auto
qed

lemma ComputeLineChangeStat_eq:
  fixes before after
  defines "xs \<equiv> SplitIntoLogicalLines before" and "ys \<equiv> splitLines after"
  shows "\<exists>k. ComputeLineChangeStat before after = (length ys - k, length xs - k) \<and> k \<le> lcs xs ys \<and>
    (length xs * length ys \<le> 400000 \<longrightarrow> k = lcs xs ys)"
proof -
  define lo where "lo = prefix_end xs ys 0"
  obtain oi ni where sn: "suffix_start xs ys (int lo) (int (length xs) - 1) (int (length ys) - 1) = (oi, ni)"
    by (cases "suffix_start xs ys (int lo) (int (length xs) - 1) (int (length ys) - 1)")
  define a where "a = drop lo (take (nat (oi + 1)) xs)"
  define b where "b = drop lo (take (nat (ni + 1)) ys)"
  obtain ps ss where split: "xs = ps @ a @ ss" "ys = ps @ b @ ss"
    using trimmed [OF lo_def [symmetric] sn] unfolding a_def b_def by blast
  have full: "lcs xs ys = length ps + lcs a b + length ss"
    unfolding split by (simp only: lcs_common_prefix lcs_common_suffix add.assoc)
  have len: "length xs = length ps + length a + length ss" "length ys = length ps + length b + length ss"
    unfolding split by simp_all
  have code: "ComputeLineChangeStat before after =
      (if length a = 0 then (length b, 0) else if length b = 0 then (0, length a)
       else if length a * length b > 400000 then (length b, length a)
       else (length b - lcs a b, length a - lcs a b))"
    unfolding ComputeLineChangeStat_def Let_def xs_def [symmetric] ys_def [symmetric] lo_def [symmetric] sn
    by (simp only: prod.case a_def [symmetric] b_def [symmetric] lcs_table_correct)
  show ?thesis
  proof (cases "length a * length b > 400000")
    case True
    moreover have "length a * length b \<le> length xs * length ys" unfolding len by (intro mult_le_mono) auto
    ultimately show ?thesis unfolding code full using len by (intro exI [of _ "length ps + length ss"]) auto
  next
    case False
    then show ?thesis unfolding code full using len by (intro exI [of _ "length ps + lcs a b + length ss"]) auto
  qed
qed

section \<open>The matrix and its backtrace\<close>

lemma cell_index_inject:
  fixes a a' b b' m :: nat
  assumes "b \<le> m" and "b' \<le> m"
  shows "a * (m + 1) + b = a' * (m + 1) + b' \<longleftrightarrow> a = a' \<and> b = b'"
proof
  assume eq: "a * (m + 1) + b = a' * (m + 1) + b'"
  have div: "(x * (m + 1) + y) div (m + 1) = x" if "y \<le> m" for x y
    using that div_mult_self3 [of "m + 1" x y] by (simp del: div_mult_self3 add: add.commute)
  from div [OF assms(1), of a] div [OF assms(2), of a'] eq have "a = a'" by simp
  with eq show "a = a' \<and> b = b'" by simp
qed simp

lemma cell_index_less: "(a :: nat) \<le> n \<Longrightarrow> b \<le> m \<Longrightarrow> a * (m + 1) + b < (n + 1) * (m + 1)"
proof -
  assume "a \<le> n" "b \<le> m"
  then have "a * (m + 1) \<le> n * (m + 1)" by (intro mult_le_mono1)
  then show ?thesis using \<open>b \<le> m\<close> by (simp add: algebra_simps)
qed

definition table_inv :: "string list \<Rightarrow> string list \<Rightarrow> nat \<Rightarrow> nat \<Rightarrow> nat list \<Rightarrow> bool" where
  "table_inv xs ys i j dp \<longleftrightarrow> length dp = (length xs + 1) * (length ys + 1) \<and>
     (\<forall>a\<le>length xs. \<forall>b\<le>length ys. dp ! (a * (length ys + 1) + b) =
        (if i < a \<or> a = i \<and> j \<le> b then lcs (drop a xs) (drop b ys) else 0))"

lemma table_invD:
  "table_inv xs ys i j dp \<Longrightarrow> a \<le> length xs \<Longrightarrow> b \<le> length ys \<Longrightarrow> i < a \<or> a = i \<and> j \<le> b \<Longrightarrow>
   dp ! (a * (length ys + 1) + b) = lcs (drop a xs) (drop b ys)"
  unfolding table_inv_def by simp

lemma diff_cell_value:
  assumes "table_inv xs ys i (Suc j) dp" and "i < length xs" and "j < length ys"
  shows "diff_cell xs ys i dp j = dp[i * (length ys + 1) + j := lcs (drop i xs) (drop j ys)]"
proof -
  let ?m = "length ys"
  have v: "dp ! ((i + 1) * (?m + 1) + (j + 1)) = lcs (drop (i + 1) xs) (drop (j + 1) ys)"
      "dp ! ((i + 1) * (?m + 1) + j) = lcs (drop (i + 1) xs) (drop j ys)"
      "dp ! (i * (?m + 1) + (j + 1)) = lcs (drop i xs) (drop (j + 1) ys)"
    by (rule table_invD [OF assms(1)]; use assms(2,3) in simp)+
  show ?thesis
    using lcs_drop_Suc [OF assms(2,3)] v
    by (simp add: diff_cell_def Let_def max_def add.assoc)
qed

lemma diff_cell_inv:
  assumes "table_inv xs ys i (Suc j) dp" and "i < length xs" and "j < length ys"
  shows "table_inv xs ys i j (diff_cell xs ys i dp j)"
  unfolding table_inv_def diff_cell_value [OF assms]
proof (intro conjI allI impI)
  show "length (dp[i * (length ys + 1) + j := lcs (drop i xs) (drop j ys)]) =
      (length xs + 1) * (length ys + 1)"
    using assms(1) by (simp add: table_inv_def)
  fix a b assume ab: "a \<le> length xs" "b \<le> length ys"
  have "i * (length ys + 1) + j < length dp"
    using cell_index_less [of i "length xs" j "length ys"] assms by (simp add: table_inv_def)
  moreover have "dp ! (a * (length ys + 1) + b) =
      (if i < a \<or> a = i \<and> Suc j \<le> b then lcs (drop a xs) (drop b ys) else 0)"
    using assms(1) ab by (simp add: table_inv_def)
  ultimately show "dp[i * (length ys + 1) + j := lcs (drop i xs) (drop j ys)] ! (a * (length ys + 1) + b) =
      (if i < a \<or> a = i \<and> j \<le> b then lcs (drop a xs) (drop b ys) else 0)"
    using cell_index_inject [of j "length ys" b i a] ab assms(3)
    by (auto simp: nth_list_update)
qed

lemma diff_row_inv:
  assumes "table_inv xs ys i j dp" and "i < length xs" and "j \<le> length ys"
  shows "table_inv xs ys i 0 (foldl (diff_cell xs ys i) dp (rev [0..<j]))"
  using assms
proof (induction j arbitrary: dp)
  case (Suc j)
  then show ?case using diff_cell_inv [of xs ys i j dp] by simp
qed simp

lemma table_next_row: "table_inv xs ys (Suc i) 0 dp \<Longrightarrow> table_inv xs ys i (length ys) dp"
  by (auto simp: table_inv_def)

lemma diff_rows_inv:
  assumes "table_inv xs ys i 0 dp" and "i \<le> length xs"
  shows "table_inv xs ys 0 0 (foldl (diff_row xs ys) dp (rev [0..<i]))"
  using assms
proof (induction i arbitrary: dp)
  case (Suc i)
  then have "table_inv xs ys i 0 (diff_row xs ys dp i)"
    using diff_row_inv [OF table_next_row [OF Suc.prems(1)]] by (simp add: diff_row_def)
  with Suc show ?case by simp
qed simp

lemma diff_table_inv: "table_inv xs ys 0 0 (diff_table xs ys)"
  unfolding diff_table_def
proof (rule diff_rows_inv)
  show "table_inv xs ys (length xs) 0 (replicate ((length xs + 1) * (length ys + 1)) 0)"
    unfolding table_inv_def
    using cell_index_less [of _ "length xs" _ "length ys"] by (auto simp del: mult_Suc mult_Suc_right)
qed simp

lemma old_side_simps [simp]:
  "old_side [] = []" "old_side ((Keep, x) # ops) = (Keep, x) # old_side ops"
  "old_side ((Del, x) # ops) = (Del, x) # old_side ops" "old_side ((Add, x) # ops) = old_side ops"
  "old_side (a @ b) = old_side a @ old_side b"
  "old_side (map (Pair Del) xs) = map (Pair Del) xs" "old_side (map (Pair Add) xs) = []"
  by (auto simp: old_side_def filter_map o_def)

lemma new_side_simps [simp]:
  "new_side [] = []" "new_side ((Keep, x) # ops) = (Keep, x) # new_side ops"
  "new_side ((Add, x) # ops) = (Add, x) # new_side ops" "new_side ((Del, x) # ops) = new_side ops"
  "new_side (a @ b) = new_side a @ new_side b"
  "new_side (map (Pair Add) xs) = map (Pair Add) xs" "new_side (map (Pair Del) xs) = []"
  by (auto simp: new_side_def filter_map o_def)

lemma map_snd_Pair [simp]: "map (snd \<circ> Pair k) xs = xs"
  by (simp add: o_def)

definition kept :: "diffOperation list \<Rightarrow> nat" where
  "kept ops = length (filter (\<lambda>op. fst op = Keep) ops)"

lemma kept_simps [simp]:
  "kept [] = 0" "kept ((k, x) # ops) = (if k = Keep then Suc (kept ops) else kept ops)"
  "kept (a @ b) = kept a + kept b" "kept (map (Pair Del) xs) = 0" "kept (map (Pair Add) xs) = 0"
  by (auto simp: kept_def filter_map o_def)

lemma backtrace_replays:
  "map snd (old_side (backtrace xs ys dp i j)) = drop i xs \<and>
   map snd (new_side (backtrace xs ys dp i j)) = drop j ys"
proof (induction xs ys dp i j rule: backtrace.induct)
  case (1 xs ys dp i j)
  have d: "i < length xs \<Longrightarrow> drop i xs = xs ! i # drop (i + 1) xs"
      "j < length ys \<Longrightarrow> drop j ys = ys ! j # drop (j + 1) ys"
    by (simp_all add: Cons_nth_drop_Suc)
  show ?case
    by (subst (1 2) backtrace.simps) (use 1 d in \<open>auto simp: Let_def\<close>)
qed

lemma backtrace_kept:
  assumes "table_inv xs ys 0 0 dp"
  shows "i \<le> length xs \<Longrightarrow> j \<le> length ys \<Longrightarrow> kept (backtrace xs ys dp i j) = lcs (drop i xs) (drop j ys)"
  using assms
proof (induction xs ys dp i j rule: backtrace.induct)
  case (1 xs ys dp i j)
  show ?case
  proof (cases "i < length xs \<and> j < length ys")
    case True
    have "dp ! ((i + 1) * (length ys + 1) + j) = lcs (drop (i + 1) xs) (drop j ys)"
        "dp ! (i * (length ys + 1) + (j + 1)) = lcs (drop i xs) (drop (j + 1) ys)"
      by (rule table_invD [OF "1.prems"(3)]; use True in auto)+
    then show ?thesis
      using 1 True lcs_drop_Suc [of i xs j ys]
      by (subst backtrace.simps) (auto simp: Let_def max_def add.assoc)
  next
    case False
    then show ?thesis using "1.prems" by (subst backtrace.simps) auto
  qed
qed

lemma diffOperations_replays:
  "map snd (old_side (diffOperations xs ys)) = xs \<and> map snd (new_side (diffOperations xs ys)) = ys"
  using backtrace_replays [of xs ys "diff_table xs ys" 0 0]
  by (simp add: diffOperations_def Let_def replacementOperations_def)

lemma diffOperations_kept:
  "length xs * length ys \<le> 400000 \<Longrightarrow> kept (diffOperations xs ys) = lcs xs ys"
  using backtrace_kept [OF diff_table_inv, of 0 xs 0 ys]
  by (auto simp: diffOperations_def Let_def)

section \<open>Hunks cover the changes and apply as a patch\<close>

text \<open>From position \<open>p\<close> on: hunks in order and in range, and only kept lines between them.\<close>

fun hunks_cover :: "diffOperation list \<Rightarrow> nat \<Rightarrow> diffHunk list \<Rightarrow> bool" where
  "hunks_cover ops p [] = (\<forall>i. p \<le> i \<and> i < length ops \<longrightarrow> fst (ops ! i) = Keep)"
| "hunks_cover ops p (h # hs) =
     (h = makeHunk ops (dh_start h) (dh_end h) \<and> p \<le> dh_start h \<and> dh_start h < dh_end h \<and>
      dh_end h \<le> length ops \<and> (\<forall>i. p \<le> i \<and> i < dh_start h \<longrightarrow> fst (ops ! i) = Keep) \<and>
      hunks_cover ops (dh_end h) hs)"

lemma makeHunk_range [simp]: "dh_start (makeHunk ops s e) = s" "dh_end (makeHunk ops s e) = e"
  by (simp_all add: makeHunk_def Let_def)

lemma hunk_loop_cover:
  assumes "p \<le> start" "start < stop" "stop \<le> length ops"
    and "\<forall>i. p \<le> i \<and> i < start \<longrightarrow> fst (ops ! i) = Keep"
    and "\<forall>i. start \<le> i \<and> i < length ops \<and> fst (ops ! i) \<noteq> Keep \<longrightarrow> i < stop \<or> i \<in> set changed"
    and "sorted changed" "\<forall>i\<in>set changed. i < length ops"
  shows "hunks_cover ops p (hunk_loop ops start stop changed)"
  using assms
proof (induction ops start stop changed arbitrary: p rule: hunk_loop.induct)
  case (1 ops start stop)
  then have "\<forall>i. stop \<le> i \<and> i < length ops \<longrightarrow> fst (ops ! i) = Keep"
    by (metis empty_iff leD less_le_trans list.set(1) order.strict_implies_order)
  with 1 show ?case by simp
next
  case (2 ops start stop index changed)
  define s where "s = (if index < 3 then 0 else index - 3)"
  define e where "e = (if index + 4 > length ops then length ops else index + 4)"
  have idx: "s \<le> index" "index < e" "e \<le> length ops"
    using "2.prems"(7) by (auto simp: s_def e_def)
  have rest: "\<forall>i\<in>set changed. index \<le> i" "sorted changed" "\<forall>i\<in>set changed. i < length ops"
    using "2.prems"(6,7) by auto
  note IH = "2.IH" [OF s_def e_def]
  have eq: "hunk_loop ops start stop (index # changed) =
      (if s < stop then hunk_loop ops start (if e > stop then e else stop) changed
       else makeHunk ops start stop # hunk_loop ops s e changed)"
    by (simp add: Let_def s_def e_def)
  show ?case
  proof (cases "s < stop")
    case True
    have "hunks_cover ops p (hunk_loop ops start (if e > stop then e else stop) changed)"
    proof (rule IH(1) [OF True "2.prems"(1)])
      show "\<forall>i. start \<le> i \<and> i < length ops \<and> fst (ops ! i) \<noteq> Keep \<longrightarrow>
          i < (if e > stop then e else stop) \<or> i \<in> set changed"
        using "2.prems"(5) idx by (fastforce simp: not_less)
    qed (use "2.prems" idx rest in auto)
    then show ?thesis using eq True by simp
  next
    case False
    have keep: "\<forall>i. stop \<le> i \<and> i < s \<longrightarrow> fst (ops ! i) = Keep"
    proof (intro allI impI)
      fix i assume i: "stop \<le> i \<and> i < s"
      show "fst (ops ! i) = Keep"
      proof (rule ccontr)
        assume "fst (ops ! i) \<noteq> Keep"
        moreover have "start \<le> i" "i < length ops" "\<not> i < stop" using "2.prems"(2) i idx by auto
        ultimately have "i \<in> set (index # changed)" using "2.prems"(5) by blast
        then have "index \<le> i" using rest(1) by auto
        with i idx(1) show False by simp
      qed
    qed
    have "hunks_cover ops stop (hunk_loop ops s e changed)"
    proof (rule IH(2) [OF False])
      show "\<forall>i. s \<le> i \<and> i < length ops \<and> fst (ops ! i) \<noteq> Keep \<longrightarrow> i < e \<or> i \<in> set changed"
      proof (intro allI impI)
        fix i assume i: "s \<le> i \<and> i < length ops \<and> fst (ops ! i) \<noteq> Keep"
        then have "start \<le> i" using "2.prems"(2) False by linarith
        then have "i < stop \<or> i \<in> set (index # changed)" using "2.prems"(5) i by blast
        then show "i < e \<or> i \<in> set changed" using idx False i by auto
      qed
    qed (use False idx keep rest in auto)
    with False "2.prems" show ?thesis unfolding eq by simp
  qed
qed

lemma diffHunks_cover: "hunks_cover ops 0 (diffHunks ops)"
proof (cases "filter (\<lambda>i. fst (ops ! i) \<noteq> Keep) [0..<length ops]")
  case Nil
  then show ?thesis by (auto simp: diffHunks_def filter_empty_conv)
next
  case (Cons index changed)
  let ?c = "filter (\<lambda>i. fst (ops ! i) \<noteq> Keep) [0..<length ops]"
  have set: "i \<in> set ?c \<longleftrightarrow> i < length ops \<and> fst (ops ! i) \<noteq> Keep" for i by auto
  have "sorted ?c" by (intro sorted_wrt_filter) simp
  then have sorted: "sorted changed" "\<forall>i\<in>set changed. index \<le> i" unfolding Cons by auto
  have index: "index < length ops" using set [of index] Cons by auto
  have first: "fst (ops ! i) \<noteq> Keep \<Longrightarrow> i < length ops \<Longrightarrow> i = index \<or> i \<in> set changed" for i
    using set [of i] Cons by auto
  have "hunks_cover ops 0 (hunk_loop ops (if index < 3 then 0 else index - 3)
      (if index + 4 > length ops then length ops else index + 4) changed)"
  proof (rule hunk_loop_cover)
    show "\<forall>i. 0 \<le> i \<and> i < (if index < 3 then 0 else index - 3) \<longrightarrow> fst (ops ! i) = Keep"
      using first sorted(2) index by (force split: if_splits)
    show "\<forall>i\<in>set changed. i < length ops" using set Cons by auto
    show "\<forall>i. (if index < 3 then 0 else index - 3) \<le> i \<and> i < length ops \<and> fst (ops ! i) \<noteq> Keep \<longrightarrow>
        i < (if index + 4 > length ops then length ops else index + 4) \<or> i \<in> set changed"
      using first by fastforce
  qed (use index sorted in auto)
  then show ?thesis by (simp add: diffHunks_def Cons)
qed

text \<open>
  The reading of a unified diff: go to the old line a hunk names, check the old side of its
  body there, and write its new side; what lies between hunks is copied.
\<close>

fun apply_patch :: "string list \<Rightarrow> nat \<Rightarrow> (diffHunk \<times> diffOperation list) list \<Rightarrow> string list option" where
  "apply_patch old pos [] = Some (drop pos old)"
| "apply_patch old pos ((h, body) # hs) =
     (let s = dh_oldStart h - 1
      in if pos \<le> s \<and> take (dh_oldCount h) (drop s old) = map snd (old_side body)
         then map_option (\<lambda>rest. take (s - pos) (drop pos old) @ map snd (new_side body) @ rest)
                (apply_patch old (s + dh_oldCount h) hs)
         else None)"

lemma all_kept:
  assumes "\<forall>op\<in>set ops. fst op = Keep"
  shows "old_side ops = ops" "new_side ops = ops"
  using assms by (simp_all add: old_side_def new_side_def)

lemma slice_kept:
  assumes "\<forall>i. p \<le> i \<and> i < q \<longrightarrow> fst (ops ! i) = Keep" and "q \<le> length ops"
  shows "\<forall>op\<in>set (drop p (take q ops)). fst op = Keep"
proof
  fix op assume "op \<in> set (drop p (take q ops))"
  then obtain i where "i < q - p" "op = ops ! (p + i)" using assms(2) by (auto simp: in_set_conv_nth)
  then show "fst op = Keep" using assms(1) by simp
qed

lemma apply_patch_cover:
  assumes "hunks_cover ops p hs" and "p \<le> length ops"
  shows "apply_patch (map snd (old_side ops)) (length (old_side (take p ops)))
      (map (\<lambda>h. (h, hunk_body ops h)) hs) = Some (map snd (new_side (drop p ops)))"
  using assms
proof (induction ops p hs rule: hunks_cover.induct)
  case (1 ops p)
  have "\<forall>op\<in>set (drop p ops). fst op = Keep"
    using slice_kept [of p "length ops" ops] "1.prems" by simp
  note k = all_kept [OF this]
  have "old_side ops = old_side (take p ops) @ drop p ops"
    using k(1) old_side_simps(5) [of "take p ops" "drop p ops"] by simp
  then show ?case using k(2) by simp
next
  case (2 ops p h hs)
  define s e where "s = dh_start h" and "e = dh_end h"
  have r: "p \<le> s" "s < e" "e \<le> length ops" "h = makeHunk ops s e"
      "\<forall>i. p \<le> i \<and> i < s \<longrightarrow> fst (ops ! i) = Keep" "hunks_cover ops e hs"
    using "2.prems"(1) by (simp_all add: s_def e_def)
  define gap body rest where "gap = drop p (take s ops)" and "body = drop s (take e ops)" and "rest = drop e ops"
  have "\<forall>op\<in>set gap. fst op = Keep" unfolding gap_def using r(2,3,5) by (intro slice_kept) auto
  note k = all_kept [OF this]
  have ts: "take s ops = take p ops @ gap" and te: "take e ops = take p ops @ gap @ body"
    unfolding gap_def body_def using r(1,2)
    by (metis append_take_drop_id min.absorb1 take_take, metis append_assoc append_take_drop_id min.absorb1 less_imp_le take_take)
  have ops: "ops = take p ops @ gap @ body @ rest"
    using te append_take_drop_id [of e ops] by (simp add: rest_def)
  have old: "old_side ops = old_side (take p ops) @ gap @ old_side body @ old_side rest"
    by (subst ops) (simp add: k)
  have new: "new_side (drop p ops) = gap @ new_side body @ new_side rest"
  proof -
    have "drop p ops = gap @ body @ rest" using ops "2.prems"(2) append_eq_append_conv
      by (metis append_take_drop_id)
    then show ?thesis by (simp add: k)
  qed
  have h: "dh_oldStart h - 1 = length (old_side (take p ops)) + length gap" "dh_oldCount h = length (old_side body)"
    unfolding r(4) by (simp_all add: makeHunk_def Let_def ts body_def k)
  have "apply_patch (map snd (old_side ops)) (length (old_side (take e ops)))
      (map (\<lambda>h. (h, hunk_body ops h)) hs) = Some (map snd (new_side rest))"
    using "2.IH" r(3,6) by (simp add: e_def rest_def)
  moreover have "length (old_side (take e ops)) = length (old_side (take p ops)) + length gap + length (old_side body)"
    by (simp add: te k)
  moreover have "hunk_body ops h = body" by (simp add: hunk_body_def body_def s_def e_def)
  ultimately show ?case
    using h old new by (simp add: Let_def)
qed

section \<open>The fold of a run's turns\<close>

definition run_snapshots :: "TurnFileChanges list \<Rightarrow> (int \<times> Snapshot) list" where
  "run_snapshots turns = concat (map (\<lambda>t. map (Pair (tc_TurnIndex t)) (tc_Snapshots t)) turns)"

definition snapshots_of :: "string \<Rightarrow> (int \<times> Snapshot) list \<Rightarrow> (int \<times> Snapshot) list" where
  "snapshots_of path ps = filter (\<lambda>p. ss_Path (snd p) = path) ps"

definition step_pair :: "(string \<times> folded) list \<Rightarrow> int \<times> Snapshot \<Rightarrow> (string \<times> folded) list" where
  "step_pair byPath p = fold_snapshot (fst p) byPath (snd p)"

lemma foldl_turns: "foldl fold_turn acc turns = foldl step_pair acc (run_snapshots turns)"
proof (induction turns arbitrary: acc)
  case (Cons t turns)
  have "foldl (fold_snapshot i) acc ss = foldl step_pair acc (map (Pair i) ss)" for i ss acc
    by (induction ss arbitrary: acc) (auto simp: step_pair_def)
  then show ?case using Cons by (simp add: run_snapshots_def fold_turn_def)
qed (simp add: run_snapshots_def)

text \<open>What the fold holds for a path, from its snapshots in order.\<close>

definition folds_to :: "(int \<times> Snapshot) list \<Rightarrow> folded \<Rightarrow> bool" where
  "folds_to ps f \<longleftrightarrow> ps \<noteq> [] \<and> fd_before f = Snapshot_Before (snd (hd ps)) \<and>
     fd_after f = ss_AfterContent (snd (last ps)) \<and> fd_turn f = fst (last ps) \<and>
     (fd_binary f \<longleftrightarrow> (\<exists>p\<in>set ps. ss_Binary (snd p)))"

definition path_ok :: "(string \<times> folded) list \<Rightarrow> (int \<times> Snapshot) list \<Rightarrow> string \<Rightarrow> bool" where
  "path_ok m ps path \<longleftrightarrow> (case map_of m path of
      None \<Rightarrow> path = [] \<or> snapshots_of path ps = []
    | Some f \<Rightarrow> path \<noteq> [] \<and> folds_to (snapshots_of path ps) f)"

lemma path_ok_other:
  "path_ok m ps path \<Longrightarrow> path \<noteq> [] \<longrightarrow> ss_Path (snd p) \<noteq> path \<Longrightarrow> path_ok m (ps @ [p]) path"
  by (cases "map_of m path") (auto simp: path_ok_def snapshots_of_def)

lemma fold_pairs:
  "distinct (map fst (foldl step_pair [] ps)) \<and> (\<forall>path. path_ok (foldl step_pair [] ps) ps path)"
proof (induction ps rule: rev_induct)
  case Nil
  then show ?case by (simp add: path_ok_def snapshots_of_def)
next
  case (snoc p ps)
  let ?m = "foldl step_pair [] ps"
  show ?case
  proof (cases "ss_Path (snd p) = ''''")
    case True
    then have "step_pair ?m p = ?m" by (simp add: step_pair_def fold_snapshot_def)
    then show ?thesis using snoc.IH True path_ok_other by simp
  next
    case False
    obtain f where f: "step_pair ?m p = AList.update (ss_Path (snd p)) f ?m"
        "fd_after f = ss_AfterContent (snd p)" "fd_turn f = fst p"
        "fd_before f = (case map_of ?m (ss_Path (snd p)) of None \<Rightarrow> Snapshot_Before (snd p) | Some g \<Rightarrow> fd_before g)"
        "fd_binary f = (case map_of ?m (ss_Path (snd p)) of None \<Rightarrow> ss_Binary (snd p) | Some g \<Rightarrow> fd_binary g \<or> ss_Binary (snd p))"
      using False by (cases "map_of ?m (ss_Path (snd p))") (auto simp: step_pair_def fold_snapshot_def Let_def)
    have here: "path_ok ?m ps (ss_Path (snd p))" using snoc.IH by blast
    have "folds_to (snapshots_of (ss_Path (snd p)) (ps @ [p])) f"
    proof (cases "map_of ?m (ss_Path (snd p))")
      case None
      then have "snapshots_of (ss_Path (snd p)) ps = []" using here False by (simp add: path_ok_def)
      then show ?thesis using f None by (simp add: folds_to_def snapshots_of_def)
    next
      case (Some g)
      then have "folds_to (snapshots_of (ss_Path (snd p)) ps) g" using here by (simp add: path_ok_def)
      then show ?thesis using f Some by (auto simp: folds_to_def snapshots_of_def)
    qed
    moreover have map: "map_of (foldl step_pair [] (ps @ [p])) = (map_of ?m)(ss_Path (snd p) \<mapsto> f)"
      using f(1) by (simp add: update_conv')
    moreover have "path_ok (foldl step_pair [] (ps @ [p])) (ps @ [p]) path"
      if "path \<noteq> ss_Path (snd p)" for path
    proof -
      have "path_ok ?m (ps @ [p]) path" using snoc.IH that by (intro path_ok_other) auto
      then show ?thesis unfolding path_ok_def map using that by simp
    qed
    ultimately have "path_ok (foldl step_pair [] (ps @ [p])) (ps @ [p]) path" for path
      using False by (cases "path = ss_Path (snd p)") (simp_all add: path_ok_def)
    moreover have "distinct (map fst (foldl step_pair [] (ps @ [p])))"
      using snoc.IH f(1) by (simp add: distinct_update)
    ultimately show ?thesis by blast
  qed
qed

lemma add_files:
  "sm_Files (foldl (add_file m) r paths) = sm_Files r @ map (\<lambda>p. file_stat p (the (map_of m p))) paths \<and>
   sm_FileCount (foldl (add_file m) r paths) = sm_FileCount r \<and>
   sm_Added (foldl (add_file m) r paths) = sm_Added r + sum_list (map (\<lambda>p. fi_Added (file_stat p (the (map_of m p)))) paths) \<and>
   sm_Removed (foldl (add_file m) r paths) = sm_Removed r + sum_list (map (\<lambda>p. fi_Removed (file_stat p (the (map_of m p)))) paths)"
  by (induction paths arbitrary: r) (auto simp: add_file_def Let_def)

section \<open>Properties\<close>

text \<open>
  C13. The line counts are those of a best edit: the counts always agree with the line totals,
  never exceed them, and while the table stays within its bound the number of lines treated as
  unchanged is the length of a longest common subsequence of the old and the new lines, so no
  edit adds or removes fewer lines.
\<close>

theorem line_change_optimal:
  assumes "ComputeLineChangeStat before after = (added, removed)"
    and "xs = SplitIntoLogicalLines before" and "ys = splitLines after"
  shows "added \<le> length ys \<and> removed \<le> length xs \<and> added + length xs = removed + length ys \<and>
    (\<exists>k. added = length ys - k \<and> removed = length xs - k \<and>
      (length xs * length ys \<le> 400000 \<longrightarrow>
        (\<exists>zs. subseq zs xs \<and> subseq zs ys \<and> length zs = k) \<and>
        (\<forall>zs. subseq zs xs \<longrightarrow> subseq zs ys \<longrightarrow> length zs \<le> k)))"
proof -
  obtain k where k: "added = length ys - k" "removed = length xs - k" "k \<le> lcs xs ys"
      "length xs * length ys \<le> 400000 \<longrightarrow> k = lcs xs ys"
    using ComputeLineChangeStat_eq [of before after] assms by auto
  then have "k \<le> length xs" "k \<le> length ys" using lcs_le [of xs ys] by simp_all
  with k(1,2) have "added \<le> length ys" "removed \<le> length xs" "added + length xs = removed + length ys"
    by simp_all
  moreover have "length xs * length ys \<le> 400000 \<longrightarrow>
      (\<exists>zs. subseq zs xs \<and> subseq zs ys \<and> length zs = k) \<and>
      (\<forall>zs. subseq zs xs \<longrightarrow> subseq zs ys \<longrightarrow> length zs \<le> k)"
    using k(4) lcs_attained [of xs ys] lcs_upper [where xs = xs and ys = ys] by simp
  ultimately show ?thesis using k(1,2) by blast
qed

definition sample_old :: string where "sample_old = ''a'' @ [CHR 0x0A] @ ''b'' @ [CHR 0x0A] @ ''c''"

definition sample_new :: string where "sample_new = ''a'' @ [CHR 0x0A] @ ''x'' @ [CHR 0x0A] @ ''c''"

lemma sample_lines:
  "SplitIntoLogicalLines (Some sample_old) = [''a'', ''b'', ''c'']"
  "splitLines sample_new = [''a'', ''x'', ''c'']"
  by (simp_all add: SplitIntoLogicalLines_def splitLines_def sample_old_def sample_new_def Let_def)

lemma sample_ends:
  "prefix_end [''a'', ''b'', ''c''] [''a'', ''x'', ''c''] 0 = 1"
  "suffix_start [''a'', ''b'', ''c''] [''a'', ''x'', ''c''] 1 2 2 = (1, 1)"
proof -
  have "prefix_end [''a'', ''b'', ''c''] [''a'', ''x'', ''c''] 1 = 1" by (subst prefix_end.simps) simp
  then show "prefix_end [''a'', ''b'', ''c''] [''a'', ''x'', ''c''] 0 = 1" by (subst prefix_end.simps) simp
  have "suffix_start [''a'', ''b'', ''c''] [''a'', ''x'', ''c''] 1 1 1 = (1, 1)" by (subst suffix_start.simps) simp
  then show "suffix_start [''a'', ''b'', ''c''] [''a'', ''x'', ''c''] 1 2 2 = (1, 1)"
    by (subst suffix_start.simps) simp
qed

lemma sample_change: "ComputeLineChangeStat (Some sample_old) sample_new = (1, 1)"
  unfolding ComputeLineChangeStat_def Let_def sample_lines lcs_table_correct by (simp add: sample_ends)

theorem line_change_optimal_witness:
  "ComputeLineChangeStat (Some sample_old) sample_new = (1, 1) \<and>
   (\<exists>zs. subseq zs [''a'', ''b'', ''c''] \<and> subseq zs [''a'', ''x'', ''c''] \<and> length zs = 2)"
proof -
  obtain k where k: "1 = length [''a'', ''x'', ''c''] - k"
    "\<exists>zs. subseq zs [''a'', ''b'', ''c''] \<and> subseq zs [''a'', ''x'', ''c''] \<and> length zs = k"
    using line_change_optimal [OF sample_change sample_lines [symmetric]] by (elim conjE exE) simp
  then have "k = 2" by simp
  with k sample_change show ?thesis by blast
qed



text \<open>
  C12. The hunks of a diff are a patch: they are in order, in range and without overlap, every
  changed line is in one of them, and applying them to the old file by their line numbers and
  counts, checking the old side of each, succeeds and gives the new file.
\<close>

theorem hunks_patch_roundtrip:
  "hunks_cover (diffOperations xs ys) 0 (diffHunks (diffOperations xs ys)) \<and>
   apply_patch xs 0 (map (\<lambda>h. (h, hunk_body (diffOperations xs ys) h)) (diffHunks (diffOperations xs ys))) = Some ys"
  using diffHunks_cover [of "diffOperations xs ys"]
    apply_patch_cover [OF diffHunks_cover, of "diffOperations xs ys"] diffOperations_replays [of xs ys]
  by simp

text \<open>
  The summary of a run lists every written path once, in order of the paths; for each the text
  before its first write and after its last one are compared exactly once, the turn is that of the
  last write, a file is binary if any of its writes was (and then counts no lines), and
  the totals are the sums over the files.
\<close>

theorem run_summary_folds:
  fixes turns
  defines "s \<equiv> BuildPerRunSummary turns"
  shows "map fi_Path (sm_Files s) = sorted_list_of_set (ss_Path ` snd ` set (run_snapshots turns) - {''''}) \<and>
    sm_FileCount s = length (sm_Files s) \<and>
    sm_Added s = sum_list (map fi_Added (sm_Files s)) \<and> sm_Removed s = sum_list (map fi_Removed (sm_Files s)) \<and>
    (\<forall>f\<in>set (sm_Files s). let ps = snapshots_of (fi_Path f) (run_snapshots turns) in
       ps \<noteq> [] \<and> fi_BeforeContent f = Snapshot_Before (snd (hd ps)) \<and>
       fi_AfterContent f = ss_AfterContent (snd (last ps)) \<and> fi_LastTurnIndex f = fst (last ps) \<and>
       (fi_Binary f \<longleftrightarrow> (\<exists>p\<in>set ps. ss_Binary (snd p))) \<and>
       (fi_Added f, fi_Removed f) = (if fi_Binary f then (0, 0)
         else ComputeLineChangeStat (Some (fi_BeforeContent f)) (fi_AfterContent f)))"
proof -
  define m where "m = foldl step_pair [] (run_snapshots turns)"
  let ?paths = "sort (map fst m)"
  have m: "distinct (map fst m)" "\<And>path. path_ok m (run_snapshots turns) path"
    using fold_pairs [of "run_snapshots turns"] by (simp_all add: m_def)
  have s: "s = foldl (add_file m) \<lparr>sm_FileCount = length ?paths, sm_Added = 0, sm_Removed = 0, sm_Files = []\<rparr> ?paths"
    by (simp add: s_def BuildPerRunSummary_def Let_def foldl_turns m_def)
  have files: "sm_Files s = map (\<lambda>p. file_stat p (the (map_of m p))) ?paths"
    unfolding s by (simp add: add_files)
  have path: "fi_Path (file_stat p f) = p" for p f by (simp add: file_stat_def split: prod.split)
  have "fst ` set m = ss_Path ` snd ` set (run_snapshots turns) - {[]}"
  proof (intro set_eqI iffI)
    fix p assume "p \<in> fst ` set m"
    then obtain f where "map_of m p = Some f" by (metis domIff dom_map_of_conv_image_fst option.exhaust)
    then have "p \<noteq> [] \<and> snapshots_of p (run_snapshots turns) \<noteq> []"
      using m(2) [of p] by (simp add: path_ok_def folds_to_def)
    then show "p \<in> ss_Path ` snd ` set (run_snapshots turns) - {[]}"
      by (auto simp: snapshots_of_def filter_empty_conv image_iff)
  next
    fix p assume p: "p \<in> ss_Path ` snd ` set (run_snapshots turns) - {[]}"
    then have "snapshots_of p (run_snapshots turns) \<noteq> []"
      by (force simp: snapshots_of_def filter_empty_conv)
    then have "map_of m p \<noteq> None" using m(2) [of p] p by (cases "map_of m p") (simp_all add: path_ok_def)
    then show "p \<in> fst ` set m" by (simp add: map_of_eq_None_iff)
  qed
  moreover have "sorted_list_of_set (fst ` set m) = ?paths"
    using m(1) sorted_list_of_set.idem_if_sorted_distinct [of ?paths] by simp
  ultimately have "map fi_Path (sm_Files s) = sorted_list_of_set (ss_Path ` snd ` set (run_snapshots turns) - {''''})"
    unfolding files by (simp add: o_def path)
  moreover have "sm_FileCount s = length (sm_Files s)" unfolding files by (simp add: s add_files)
  moreover have "sm_Added s = sum_list (map fi_Added (sm_Files s))" "sm_Removed s = sum_list (map fi_Removed (sm_Files s))"
    unfolding files by (simp_all add: s add_files o_def)
  moreover have "let ps = snapshots_of (fi_Path f) (run_snapshots turns) in
       ps \<noteq> [] \<and> fi_BeforeContent f = Snapshot_Before (snd (hd ps)) \<and>
       fi_AfterContent f = ss_AfterContent (snd (last ps)) \<and> fi_LastTurnIndex f = fst (last ps) \<and>
       (fi_Binary f \<longleftrightarrow> (\<exists>p\<in>set ps. ss_Binary (snd p))) \<and>
       (fi_Added f, fi_Removed f) = (if fi_Binary f then (0, 0)
         else ComputeLineChangeStat (Some (fi_BeforeContent f)) (fi_AfterContent f))"
    if "f \<in> set (sm_Files s)" for f
  proof -
    from that obtain p where p: "p \<in> fst ` set m" "f = file_stat p (the (map_of m p))"
      unfolding files by auto
    then obtain g where g: "map_of m p = Some g" by (metis domIff dom_map_of_conv_image_fst option.exhaust)
    then have "folds_to (snapshots_of p (run_snapshots turns)) g" using m(2) [of p] by (simp add: path_ok_def)
    then show ?thesis using p(2) g by (auto simp: file_stat_def folds_to_def Let_def split: prod.split)
  qed
  ultimately show ?thesis by blast
qed

definition sample_turns :: "TurnFileChanges list" where
  "sample_turns = [\<lparr>tc_TurnIndex = 3, tc_Snapshots =
     [\<lparr>ss_Path = ''z'', ss_BeforeContent = Some ''old'', ss_AfterContent = ''mid'', ss_WriteCount = 1, ss_Binary = True\<rparr>,
      \<lparr>ss_Path = ''z'', ss_BeforeContent = Some ''mid'', ss_AfterContent = ''new'', ss_WriteCount = 1, ss_Binary = False\<rparr>],
     tc_FileState = ''applied''\<rparr>]"

theorem run_summary_folds_witness:
  "map (\<lambda>f. (fi_Path f, fi_BeforeContent f, fi_AfterContent f, fi_Added f)) (sm_Files (BuildPerRunSummary sample_turns)) =
     [(''z'', ''old'', ''new'', 0)]"
proof -
  note r = run_summary_folds [of sample_turns]
  have "map fi_Path (sm_Files (BuildPerRunSummary sample_turns)) = [''z'']"
    using r by (simp add: sample_turns_def run_snapshots_def)
  then obtain f where f: "sm_Files (BuildPerRunSummary sample_turns) = [f]" "fi_Path f = ''z''" by auto
  then have "f \<in> set (sm_Files (BuildPerRunSummary sample_turns))" by simp
  with r have "let ps = snapshots_of (fi_Path f) (run_snapshots sample_turns) in
      ps \<noteq> [] \<and> fi_BeforeContent f = Snapshot_Before (snd (hd ps)) \<and>
      fi_AfterContent f = ss_AfterContent (snd (last ps)) \<and> fi_LastTurnIndex f = fst (last ps) \<and>
      (fi_Binary f \<longleftrightarrow> (\<exists>p\<in>set ps. ss_Binary (snd p))) \<and>
      (fi_Added f, fi_Removed f) = (if fi_Binary f then (0, 0)
        else ComputeLineChangeStat (Some (fi_BeforeContent f)) (fi_AfterContent f))" by blast
  with f show ?thesis
    by (auto simp: sample_turns_def run_snapshots_def snapshots_of_def Snapshot_Before_def)
qed

end
