(* ===== verification/Agents.thy ===== *)
theory Agents
  imports GoText
begin

text \<open>
  Agent profiles (\<^verbatim>\<open>internal/domain/agent.go\<close>), the heartbeat policy the scheduler projects
  from them (\<^verbatim>\<open>internal/domain/wakeup.go\<close>) and the role matrix (\<^verbatim>\<open>internal/security/rbac.go\<close>).
  Fields of a profile that no modelled code reads (skills, instructions, runtime
  preference, model, tool policy, avatar) are left out.
\<close>

section \<open>Profiles\<close>

datatype AgentAvailability = AgentEnabled | AgentDisabled | AgentAvailabilityOther string

datatype AgentPresence = PresenceIdle | PresenceBusy | PresenceDegraded | PresenceOffline | PresenceOther string

fun AgentPresence_text :: "AgentPresence \<Rightarrow> string" where
  "AgentPresence_text PresenceIdle = ''idle''"
| "AgentPresence_text PresenceBusy = ''busy''"
| "AgentPresence_text PresenceDegraded = ''degraded''"
| "AgentPresence_text PresenceOffline = ''offline''"
| "AgentPresence_text (PresenceOther s) = s"

datatype AgentProfileKind = AgentProfileKindUnset \<comment> \<open>the empty string\<close>
  | AgentProfileKindUser | AgentProfileKindTaskCoordinator | AgentProfileKindKnowledgeLibrarian
  | AgentProfileKindOther string

fun AgentProfileKind_Valid :: "AgentProfileKind \<Rightarrow> bool" where
  "AgentProfileKind_Valid (AgentProfileKindOther _) = False"
| "AgentProfileKind_Valid _ = True"

definition AgentProfileKind_IsSystem :: "AgentProfileKind \<Rightarrow> bool" where
  "AgentProfileKind_IsSystem k \<longleftrightarrow>
     k = AgentProfileKindTaskCoordinator \<or> k = AgentProfileKindKnowledgeLibrarian"

definition AgentProfileKind_IsTaskCoordinator :: "AgentProfileKind \<Rightarrow> bool" where
  "AgentProfileKind_IsTaskCoordinator k \<longleftrightarrow> k = AgentProfileKindTaskCoordinator"

definition AgentProfileKind_IsKnowledgeLibrarian :: "AgentProfileKind \<Rightarrow> bool" where
  "AgentProfileKind_IsKnowledgeLibrarian k \<longleftrightarrow> k = AgentProfileKindKnowledgeLibrarian"

definition KnowledgeLibrarianAgentIDPrefix :: string where
  "KnowledgeLibrarianAgentIDPrefix = ''agent_knowledge_librarian_''"

definition KnowledgeLibrarianAgentID :: "string \<Rightarrow> string" where
  "KnowledgeLibrarianAgentID workspaceID =
     (if workspaceID = '''' then '''' else KnowledgeLibrarianAgentIDPrefix @ workspaceID)"

record AgentProfile =
  ag_ID :: string
  ag_WorkspaceID :: string
  ag_Kind :: AgentProfileKind
  ag_Slug :: string
  ag_Name :: string
  ag_Role :: string
  ag_Availability :: AgentAvailability
  ag_Presence :: AgentPresence
  ag_Version :: int
  ag_CreatedAt :: time
  ag_UpdatedAt :: time
  ag_HeartbeatEnabled :: bool
  ag_HeartbeatIntervalSec :: int
  ag_WakeOnAssignment :: bool
  ag_WakeOnDemand :: bool
  ag_WakeOnAutomation :: bool
  ag_PromptTemplate :: string
  ag_LastHeartbeatAt :: "time option"

record HeartbeatPolicy =
  hb_Enabled :: bool
  hb_IntervalSec :: int
  hb_WakeOnAssignment :: bool
  hb_WakeOnDemand :: bool
  hb_WakeOnAutomation :: bool
  hb_PromptTemplate :: string

definition AgentProfile_Heartbeat :: "AgentProfile \<Rightarrow> HeartbeatPolicy" where
  "AgentProfile_Heartbeat a =
     \<lparr>hb_Enabled = ag_HeartbeatEnabled a, hb_IntervalSec = ag_HeartbeatIntervalSec a,
      hb_WakeOnAssignment = ag_WakeOnAssignment a, hb_WakeOnDemand = ag_WakeOnDemand a,
      hb_WakeOnAutomation = ag_WakeOnAutomation a, hb_PromptTemplate = ag_PromptTemplate a\<rparr>"

definition AgentProfile_SetAvailability :: "AgentProfile \<Rightarrow> AgentAvailability \<Rightarrow> time \<Rightarrow> AgentProfile" where
  "AgentProfile_SetAvailability a av now =
     (if ag_Availability a = av then a
      else a\<lparr>ag_Availability := av, ag_Version := inc64 (ag_Version a), ag_UpdatedAt := now\<rparr>)"

section \<open>Roles\<close>

datatype MemberRole = RoleOwner | RoleAdmin | RoleOperator | RoleApprover | RoleViewer
  | MemberRoleOther string

definition PermRead :: string where "PermRead = ''read''"
definition PermWorkItemWrite :: string where "PermWorkItemWrite = ''work_item.write''"
definition PermRunControl :: string where "PermRunControl = ''run.control''"
definition PermApproval :: string where "PermApproval = ''approval.resolve''"
definition PermAgentWrite :: string where "PermAgentWrite = ''agent.write''"
definition PermRuntimeManage :: string where "PermRuntimeManage = ''runtime.manage''"
definition PermWorkspaceAdmin :: string where "PermWorkspaceAdmin = ''workspace.admin''"

lemmas perm_defs = PermRead_def PermWorkItemWrite_def PermRunControl_def PermApproval_def
  PermAgentWrite_def PermRuntimeManage_def PermWorkspaceAdmin_def

fun rolePerms :: "MemberRole \<Rightarrow> string list option" where
  "rolePerms RoleOwner = Some [PermRead, PermWorkItemWrite, PermRunControl, PermApproval,
     PermAgentWrite, PermRuntimeManage, PermWorkspaceAdmin]"
| "rolePerms RoleAdmin = Some [PermRead, PermWorkItemWrite, PermRunControl, PermApproval,
     PermAgentWrite, PermRuntimeManage]"
| "rolePerms RoleOperator = Some [PermRead, PermWorkItemWrite, PermRunControl]"
| "rolePerms RoleApprover = Some [PermRead, PermApproval]"
| "rolePerms RoleViewer = Some [PermRead]"
| "rolePerms (MemberRoleOther _) = None"

definition Allow :: "MemberRole \<Rightarrow> string \<Rightarrow> bool" where
  "Allow role perm = (case rolePerms role of None \<Rightarrow> False | Some perms \<Rightarrow> perm \<in> set perms)"

section \<open>Properties\<close>

text \<open>
  The role matrix is a least-privilege order: nobody but the owner administers the workspace,
  agents and runtimes are managed by owner and admin only, a viewer can only read, an operator
  never resolves approvals and an approver never controls runs, unknown roles have nothing, and
  whatever a role may do the owner may do.
\<close>

theorem roles_least_privilege:
  "(Allow r PermWorkspaceAdmin \<longleftrightarrow> r = RoleOwner) \<and>
   (Allow r PermAgentWrite \<or> Allow r PermRuntimeManage \<longleftrightarrow> r \<in> {RoleOwner, RoleAdmin}) \<and>
   (Allow r PermApproval \<longleftrightarrow> r \<in> {RoleOwner, RoleAdmin, RoleApprover}) \<and>
   (Allow r PermRunControl \<longleftrightarrow> r \<in> {RoleOwner, RoleAdmin, RoleOperator}) \<and>
   (Allow RoleViewer p \<longleftrightarrow> p = PermRead) \<and> \<not> Allow (MemberRoleOther s) p \<and>
   (Allow r p \<longrightarrow> Allow RoleOwner p)"
  by (cases r) (auto simp: Allow_def perm_defs)

theorem roles_least_privilege_witness:
  "Allow RoleApprover PermApproval \<and> Allow RoleOwner PermApproval"
  using roles_least_privilege [of RoleApprover PermApproval] by (simp add: Allow_def)

end
