(* ===== verification/Delivery.thy ===== *)
theory Delivery
  imports GoText
begin

text \<open>
  The two delivery mechanisms of the event stream: the wake-up hub of the SSE endpoint
  (\<^verbatim>\<open>internal/sse/hub.go\<close>) and the transactional outbox (\<^verbatim>\<open>internal/outbox/publisher.go\<close>).
  A channel of capacity one is the flag whether it holds a token; channels are numbered in the
  order of their creation. Every method of the hub holds its mutex, so a call is one step.
\<close>

section \<open>The hub\<close>

record Hub =
  hb_subs :: "(string \<times> nat) list" \<comment> \<open>workspace and channel, the entries of the nested map\<close>
  hb_tokens :: "nat \<Rightarrow> bool"
  hb_next :: nat

definition NewHub :: Hub where
  "NewHub = \<lparr>hb_subs = [], hb_tokens = (\<lambda>_. False), hb_next = 0\<rparr>"

definition Hub_Notify :: "Hub \<Rightarrow> string \<Rightarrow> Hub" where
  "Hub_Notify h workspaceID =
     h\<lparr>hb_tokens := (\<lambda>ch. if (workspaceID, ch) \<in> set (hb_subs h) then True else hb_tokens h ch)\<rparr>"

definition Hub_Subscribe :: "Hub \<Rightarrow> string \<Rightarrow> nat \<times> Hub" where
  "Hub_Subscribe h workspaceID =
     (let ch = hb_next h
      in (ch, h\<lparr>hb_subs := hb_subs h @ [(workspaceID, ch)], hb_next := Suc ch,
                hb_tokens := (hb_tokens h)(ch := False)\<rparr>))"

definition Hub_unsub :: "Hub \<Rightarrow> string \<Rightarrow> nat \<Rightarrow> Hub" where
  "Hub_unsub h workspaceID ch = h\<lparr>hb_subs := filter (\<lambda>s. s \<noteq> (workspaceID, ch)) (hb_subs h)\<rparr>"

text \<open>The subscriber's receive: it takes the token when there is one, and blocks otherwise.\<close>

definition receive :: "Hub \<Rightarrow> nat \<Rightarrow> Hub option" where
  "receive h ch = (if hb_tokens h ch then Some (h\<lparr>hb_tokens := (hb_tokens h)(ch := False)\<rparr>) else None)"

datatype hub_op = OpSubscribe string | OpNotify string | OpUnsub string nat | OpReceive nat

fun hub_apply :: "Hub \<Rightarrow> hub_op \<Rightarrow> Hub" where
  "hub_apply h (OpSubscribe w) = snd (Hub_Subscribe h w)"
| "hub_apply h (OpNotify w) = Hub_Notify h w"
| "hub_apply h (OpUnsub w ch) = Hub_unsub h w ch"
| "hub_apply h (OpReceive ch) = (case receive h ch of None \<Rightarrow> h | Some h' \<Rightarrow> h')"

text \<open>
  The specification: a subscription owes its subscriber a wake-up once its workspace was notified,
  until the subscriber has received or the subscription is gone.
\<close>

fun owed :: "string \<Rightarrow> nat \<Rightarrow> bool \<Rightarrow> hub_op list \<Rightarrow> bool" where
  "owed w ch b [] = b"
| "owed w ch b (OpSubscribe v # ops) = owed w ch b ops"
| "owed w ch b (OpNotify v # ops) = owed w ch (b \<or> v = w) ops"
| "owed w ch b (OpUnsub v c # ops) = owed w ch b ops"
| "owed w ch b (OpReceive c # ops) = owed w ch (b \<and> c \<noteq> ch) ops"

definition hub_ok :: "Hub \<Rightarrow> bool" where
  "hub_ok h \<longleftrightarrow> (\<forall>w ch. (w, ch) \<in> set (hb_subs h) \<longrightarrow> ch < hb_next h) \<and>
     (\<forall>w v ch. (w, ch) \<in> set (hb_subs h) \<longrightarrow> (v, ch) \<in> set (hb_subs h) \<longrightarrow> v = w)"

lemma hub_ok_apply: "hub_ok h \<Longrightarrow> hub_ok (hub_apply h x)"
  by (cases x) (auto simp: hub_ok_def Hub_Subscribe_def Hub_Notify_def Hub_unsub_def receive_def Let_def
      intro: less_SucI split: option.split)

lemma subscription_kept:
  "(w, ch) \<in> set (hb_subs h) \<Longrightarrow> x \<noteq> OpUnsub w ch \<Longrightarrow> (w, ch) \<in> set (hb_subs (hub_apply h x))"
  by (cases x) (auto simp: Hub_Subscribe_def Hub_Notify_def Hub_unsub_def receive_def Let_def split: option.split)

lemma token_step:
  assumes "hub_ok h" and "(w, ch) \<in> set (hb_subs h)"
  shows "owed w ch (hb_tokens (hub_apply h x) ch) ops = owed w ch (hb_tokens h ch) (x # ops)"
proof (cases x)
  case (OpSubscribe v)
  then show ?thesis using assms by (auto simp: hub_ok_def Hub_Subscribe_def Let_def)
next
  case (OpNotify v)
  then have "hb_tokens (hub_apply h x) ch \<longleftrightarrow> hb_tokens h ch \<or> v = w"
    using assms unfolding hub_ok_def by (auto simp: Hub_Notify_def)
  then show ?thesis by (simp add: OpNotify del: hub_apply.simps)
next
  case (OpReceive c)
  then have "hb_tokens (hub_apply h x) ch \<longleftrightarrow> hb_tokens h ch \<and> c \<noteq> ch"
    by (auto simp: receive_def split: option.split)
  then show ?thesis by (simp add: OpReceive del: hub_apply.simps)
qed (simp add: Hub_unsub_def)

lemma tokens_are_owed:
  assumes "hub_ok h" and "(w, ch) \<in> set (hb_subs h)" and "OpUnsub w ch \<notin> set ops"
  shows "hb_tokens (foldl hub_apply h ops) ch = owed w ch (hb_tokens h ch) ops"
  using assms
proof (induction ops arbitrary: h)
  case (Cons x ops)
  have "hub_ok (hub_apply h x)" "(w, ch) \<in> set (hb_subs (hub_apply h x))"
    using Cons.prems hub_ok_apply subscription_kept by auto
  with Cons.IH Cons.prems token_step [OF Cons.prems(1,2)] show ?case by simp
qed simp

lemma hub_ok_run: "hub_ok h \<Longrightarrow> hub_ok (foldl hub_apply h ops)"
  by (induction ops arbitrary: h) (auto intro: hub_ok_apply)

lemma hub_ok_new: "hub_ok NewHub"
  by (simp add: hub_ok_def NewHub_def)

section \<open>The outbox\<close>

record Message =
  ms_id :: int
  ms_eventID :: string
  ms_topic :: string
  ms_payload :: string
  ms_publishedAt :: "time option"

text \<open>
  The table, what was handed to the publish hook, and which of the coming statements fail.
  The query is the first statement of a drain and each update is one.
\<close>

record Outbox =
  ox_messages :: "Message list"
  ox_delivered :: "(string \<times> string \<times> string) list"
  ox_faults :: "bool list"

definition next_fault :: "Outbox \<Rightarrow> bool \<times> Outbox" where
  "next_fault ob = (case ox_faults ob of [] \<Rightarrow> (False, ob) | b # bs \<Rightarrow> (b, ob\<lparr>ox_faults := bs\<rparr>))"

definition mark_published :: "int \<Rightarrow> time \<Rightarrow> Message \<Rightarrow> Message" where
  "mark_published i now m = (if ms_id m = i then m\<lparr>ms_publishedAt := Some now\<rparr> else m)"

definition publish :: "Message \<Rightarrow> Outbox \<Rightarrow> Outbox" where
  "publish m ob = ob\<lparr>ox_delivered := ox_delivered ob @ [(ms_eventID m, ms_topic m, ms_payload m)]\<rparr>"

fun drain_loop :: "time \<Rightarrow> Message list \<Rightarrow> Outbox \<Rightarrow> go_error option \<times> Outbox" where
  "drain_loop now [] ob = (None, ob)"
| "drain_loop now (m # ms) ob =
     (let (failed, ob1) = next_fault (publish m ob)
      in if failed then (Some (ErrOther ''database''), ob1)
         else drain_loop now ms (ob1\<lparr>ox_messages := map (mark_published (ms_id m) now) (ox_messages ob1)\<rparr>))"

definition unpublished :: "Outbox \<Rightarrow> Message list" where
  "unpublished ob = filter (\<lambda>m. ms_publishedAt m = None) (ox_messages ob)"

definition Publisher_drain :: "time \<Rightarrow> Outbox \<Rightarrow> go_error option \<times> Outbox" where
  "Publisher_drain now ob =
     (let (failed, ob1) = next_fault ob
      in if failed then (Some (ErrOther ''database''), ob1)
         else drain_loop now (take 100 (sort_key ms_id (unpublished ob1))) ob1)"

definition Backlog :: "Outbox \<Rightarrow> nat" where
  "Backlog ob = length (unpublished ob)"

lemma next_fault_same: "next_fault ob = (b, ob1) \<Longrightarrow> ox_messages ob1 = ox_messages ob \<and> ox_delivered ob1 = ox_delivered ob"
  by (auto simp: next_fault_def split: list.splits)

text \<open>Every message of the table that is marked has been handed to the hook.\<close>

definition outbox_ok :: "Outbox \<Rightarrow> bool" where
  "outbox_ok ob \<longleftrightarrow> distinct (map ms_id (ox_messages ob)) \<and>
     (\<forall>m\<in>set (ox_messages ob). ms_publishedAt m \<noteq> None \<longrightarrow>
        (ms_eventID m, ms_topic m, ms_payload m) \<in> set (ox_delivered ob))"

lemma mark_published_keys [simp]:
  "ms_id (mark_published i now m) = ms_id m" "ms_eventID (mark_published i now m) = ms_eventID m"
  "ms_topic (mark_published i now m) = ms_topic m" "ms_payload (mark_published i now m) = ms_payload m"
  by (simp_all add: mark_published_def)

lemma map_mark_ids [simp]: "map ms_id (map (mark_published i now) ms) = map ms_id ms"
  by simp

text \<open>What one pass over \<open>ms\<close> does: a prefix is delivered and marked, at most one more is delivered.\<close>

definition drained :: "time \<Rightarrow> Message list \<Rightarrow> Message list \<Rightarrow> Message list" where
  "drained now ms table = map (\<lambda>m. if ms_id m \<in> ms_id ` set ms then m\<lparr>ms_publishedAt := Some now\<rparr> else m) table"

lemma drained_Cons: "drained now ms (map (mark_published (ms_id m) now) table) = drained now (m # ms) table"
  by (auto simp: drained_def mark_published_def)

lemma drain_loop_result:
  assumes "drain_loop now ms ob = (err, ob1)"
  shows "\<exists>pre post. ms = pre @ post \<and> ox_messages ob1 = drained now pre (ox_messages ob) \<and>
    (\<exists>extra. ox_delivered ob1 = ox_delivered ob @ map (\<lambda>m. (ms_eventID m, ms_topic m, ms_payload m)) (pre @ extra) \<and>
      (err = None \<longrightarrow> post = [] \<and> extra = []) \<and> (err \<noteq> None \<longrightarrow> extra = [hd post] \<and> post \<noteq> []))"
  using assms
proof (induction ms arbitrary: ob)
  case Nil
  then show ?case by (auto simp: drained_def)
next
  case (Cons m ms)
  obtain b o1 where f: "next_fault (publish m ob) = (b, o1)" by (cases "next_fault (publish m ob)")
  then have o1: "ox_messages o1 = ox_messages ob"
      "ox_delivered o1 = ox_delivered ob @ [(ms_eventID m, ms_topic m, ms_payload m)]"
    using next_fault_same [OF f] by (simp_all add: publish_def)
  show ?case
  proof (cases b)
    case True
    then have "err \<noteq> None" "ob1 = o1" using Cons.prems f by auto
    then show ?thesis using o1
      by (intro exI [of _ "[]"] exI [of _ "m # ms"] conjI exI [of _ "[m]"]) (auto simp: drained_def)
  next
    case False
    let ?o2 = "o1\<lparr>ox_messages := map (mark_published (ms_id m) now) (ox_messages o1)\<rparr>"
    have "drain_loop now ms ?o2 = (err, ob1)" using Cons.prems f False by simp
    from Cons.IH [OF this] obtain pre post extra where r: "ms = pre @ post"
        "ox_messages ob1 = drained now pre (ox_messages ?o2)"
        "ox_delivered ob1 = ox_delivered ?o2 @ map (\<lambda>m. (ms_eventID m, ms_topic m, ms_payload m)) (pre @ extra)"
        "err = None \<longrightarrow> post = [] \<and> extra = []" "err \<noteq> None \<longrightarrow> extra = [hd post] \<and> post \<noteq> []" by blast
    then show ?thesis using o1 drained_Cons [of now pre m "ox_messages ob"]
      by (intro exI [of _ "m # pre"] exI [of _ post] conjI exI [of _ extra]) auto
  qed
qed



definition envelope :: "Message \<Rightarrow> string \<times> string \<times> string" where
  "envelope m = (ms_eventID m, ms_topic m, ms_payload m)"

lemma drained_ids: "map ms_id (drained now pre table) = map ms_id table"
  by (simp add: drained_def o_def cong: map_cong)

lemma unpublished_drained:
  "unpublished (ob\<lparr>ox_messages := drained now pre (ox_messages ob)\<rparr>) =
     filter (\<lambda>m. ms_id m \<notin> ms_id ` set pre) (unpublished ob)"
proof -
  have "filter (\<lambda>m. ms_publishedAt m = None) (drained now pre table) =
      filter (\<lambda>m. ms_id m \<notin> ms_id ` set pre) (filter (\<lambda>m. ms_publishedAt m = None) table)" for table
    by (induction table) (auto simp: drained_def)
  then show ?thesis by (simp add: unpublished_def)
qed

lemma filter_disjoint_length:
  assumes "distinct (map f us)" and "set pre \<subseteq> set us" and "distinct pre"
  shows "length (filter (\<lambda>m. f m \<notin> f ` set pre) us) = length us - length pre"
proof -
  have inj: "inj_on f (set us)" and d: "distinct us" using assms(1) by (auto simp: distinct_map)
  have "set (filter (\<lambda>m. f m \<notin> f ` set pre) us) = set us - set pre"
    using inj assms(2) by (auto dest: inj_onD)
  then have "length (filter (\<lambda>m. f m \<notin> f ` set pre) us) = card (set us - set pre)"
    using d by (metis distinct_card distinct_filter)
  also have "\<dots> = length us - length pre"
    using assms(2,3) d by (simp add: card_Diff_subset distinct_card)
  finally show ?thesis .
qed

lemma drain_cases:
  assumes "Publisher_drain now ob = (err, ob')" and "outbox_ok ob"
  defines "due \<equiv> take 100 (sort_key ms_id (unpublished ob))"
  shows "\<exists>pre post extra. due = pre @ post \<and> ox_messages ob' = drained now pre (ox_messages ob) \<and>
    ox_delivered ob' = ox_delivered ob @ map envelope (pre @ extra) \<and>
    (err = None \<longrightarrow> post = [] \<and> extra = []) \<and> length extra \<le> 1 \<and> extra = take (length extra) post"
proof -
  obtain b o1 where f: "next_fault ob = (b, o1)" by (cases "next_fault ob")
  note same = next_fault_same [OF f]
  show ?thesis
  proof (cases b)
    case True
    then have "ob' = o1" "err \<noteq> None" using assms(1) f by (auto simp: Publisher_drain_def)
    then show ?thesis using same
      by (intro exI [of _ "[]"] exI [of _ due] conjI) (auto simp: drained_def)
  next
    case False
    then have "drain_loop now due o1 = (err, ob')"
      using assms(1) f same by (simp add: Publisher_drain_def due_def unpublished_def)
    from drain_loop_result [OF this] obtain pre post extra where r: "due = pre @ post"
        "ox_messages ob' = drained now pre (ox_messages o1)"
        "ox_delivered ob' = ox_delivered o1 @ map (\<lambda>m. (ms_eventID m, ms_topic m, ms_payload m)) (pre @ extra)"
        "err = None \<longrightarrow> post = [] \<and> extra = []" "err \<noteq> None \<longrightarrow> extra = [hd post] \<and> post \<noteq> []" by blast
    have "length extra \<le> 1 \<and> extra = take (length extra) post" using r(4,5) by (cases err; cases post) auto
    moreover have "map envelope = map (\<lambda>m. (ms_eventID m, ms_topic m, ms_payload m))"
      by (simp add: envelope_def [abs_def])
    ultimately show ?thesis using r same by (intro exI [of _ pre] exI [of _ post] exI [of _ extra]) simp
  qed
qed

lemma drain_keeps_ok:
  assumes "Publisher_drain now ob = (err, ob')" and "outbox_ok ob"
  shows "outbox_ok ob'"
proof -
  from drain_cases [OF assms] obtain pre post extra where
    r: "take 100 (sort_key ms_id (unpublished ob)) = pre @ post"
      "ox_messages ob' = drained now pre (ox_messages ob)"
      "ox_delivered ob' = ox_delivered ob @ map envelope (pre @ extra)" by blast
  have ids: "distinct (map ms_id (ox_messages ob))" using assms(2) by (simp add: outbox_ok_def)
  have "set pre \<subseteq> set (take 100 (sort_key ms_id (unpublished ob)))" by (simp add: r(1))
  then have sub: "set pre \<subseteq> set (ox_messages ob)"
    using set_take_subset [of 100 "sort_key ms_id (unpublished ob)"] by (auto simp: unpublished_def)
  have "(ms_eventID m, ms_topic m, ms_payload m) \<in> set (ox_delivered ob')"
    if m: "m \<in> set (ox_messages ob')" "ms_publishedAt m \<noteq> None" for m
  proof -
    from m(1) obtain m0 where m0: "m0 \<in> set (ox_messages ob)"
        "m = (if ms_id m0 \<in> ms_id ` set pre then m0\<lparr>ms_publishedAt := Some now\<rparr> else m0)"
      unfolding r(2) drained_def by auto
    show ?thesis
    proof (cases "ms_id m0 \<in> ms_id ` set pre")
      case True
      then obtain x where "x \<in> set pre" "ms_id x = ms_id m0" by auto
      then have "x = m0" using sub ids m0(1) by (auto simp: distinct_map dest: inj_onD)
      with \<open>x \<in> set pre\<close> m0(2) True show ?thesis by (auto simp: r(3) envelope_def image_iff)
    next
      case False
      then show ?thesis using m0 m(2) assms(2) r(3) by (auto simp: outbox_ok_def)
    qed
  qed
  then show ?thesis using ids by (simp add: outbox_ok_def r(2) drained_ids)
qed

lemma unpublished_distinct: "outbox_ok ob \<Longrightarrow> distinct (map ms_id (unpublished ob))"
  by (auto simp: outbox_ok_def unpublished_def distinct_map inj_on_def)

lemma due_subset: "set (take 100 (sort_key ms_id (unpublished ob))) \<subseteq> set (unpublished ob)"
  using set_take_subset [of 100 "sort_key ms_id (unpublished ob)"] by simp

lemma due_distinct: "outbox_ok ob \<Longrightarrow> distinct (take 100 (sort_key ms_id (unpublished ob)))"
  using unpublished_distinct [of ob] by (simp add: distinct_map)

lemma drain_progress:
  assumes "Publisher_drain now ob = (None, ob')" and "outbox_ok ob"
  shows "Backlog ob' = Backlog ob - 100"
proof -
  let ?due = "take 100 (sort_key ms_id (unpublished ob))"
  from drain_cases [OF assms] have r: "ox_messages ob' = drained now ?due (ox_messages ob)" by auto
  have "unpublished ob' = filter (\<lambda>m. ms_id m \<notin> ms_id ` set ?due) (unpublished ob)"
    using unpublished_drained [of now ?due ob] r by (simp add: unpublished_def)
  then show ?thesis
    using filter_disjoint_length [OF unpublished_distinct [OF assms(2)] due_subset due_distinct [OF assms(2)]]
    by (simp add: Backlog_def min_def)
qed

section \<open>Properties\<close>

text \<open>
  C30. The hub loses no wake-up and invents none: for a subscription made in any reachable state
  and kept since, its channel holds a token exactly when its workspace was notified after the
  subscription and no receive has taken it, whatever the other subscribers do and however many
  notifications are dropped because the channel is full.
\<close>

theorem hub_refines_owed:
  assumes "h = foldl hub_apply NewHub pre" and "Hub_Subscribe h w = (ch, h')"
    and "OpUnsub w ch \<notin> set ops"
  shows "hb_tokens (foldl hub_apply h' ops) ch \<longleftrightarrow> owed w ch False ops"
proof -
  have ok: "hub_ok h" unfolding assms(1) by (rule hub_ok_run [OF hub_ok_new])
  have h': "h' = hub_apply h (OpSubscribe w)" "(w, ch) \<in> set (hb_subs h')" "\<not> hb_tokens h' ch"
    using assms(2) by (auto simp: Hub_Subscribe_def Let_def)
  have "hub_ok h'" unfolding h'(1) by (rule hub_ok_apply [OF ok])
  from tokens_are_owed [OF this h'(2) assms(3)] show ?thesis using h'(3) by simp
qed

theorem hub_refines_owed_witness:
  "hb_tokens (foldl hub_apply (snd (Hub_Subscribe NewHub ''ws'')) [OpNotify ''ws'', OpNotify ''ws'', OpReceive 0]) 0
     = False \<and>
   hb_tokens (foldl hub_apply (snd (Hub_Subscribe NewHub ''ws'')) [OpNotify ''other'', OpNotify ''ws'']) 0"
  using hub_refines_owed [of NewHub "[]" "''ws''" 0 "snd (Hub_Subscribe NewHub ''ws'')"
      "[OpNotify ''ws'', OpNotify ''ws'', OpReceive 0]"]
    hub_refines_owed [of NewHub "[]" "''ws''" 0 "snd (Hub_Subscribe NewHub ''ws'')" "[OpNotify ''other'', OpNotify ''ws'']"]
  by (simp add: Hub_Subscribe_def NewHub_def Let_def)

text \<open>
  C22. The outbox delivers at least once and in order: whatever statements fail, every message
  that is marked published was handed to the hook; one drain hands over a prefix of the waiting
  messages in id order, at most one of them without the mark (so it comes again); and
  a drain without an error shortens the backlog by 100 or empties it. A crash between hand-over and
  mark leaves the rows that a failing mark leaves; it is not a step of its own.
\<close>

theorem outbox_at_least_once:
  assumes "Publisher_drain now ob = (err, ob')" and "outbox_ok ob"
  shows "outbox_ok ob' \<and>
    (\<exists>k. ox_delivered ob' = ox_delivered ob @ map envelope (take k (sort_key ms_id (unpublished ob))) \<and>
       k \<le> 100 \<and> Backlog ob' + k \<le> Backlog ob + 1) \<and>
    (err = None \<longrightarrow> Backlog ob' = Backlog ob - 100)"
proof -
  let ?due = "take 100 (sort_key ms_id (unpublished ob))"
  from drain_cases [OF assms] obtain pre post extra where r: "?due = pre @ post"
      "ox_messages ob' = drained now pre (ox_messages ob)"
      "ox_delivered ob' = ox_delivered ob @ map envelope (pre @ extra)"
      "length extra \<le> 1" "extra = take (length extra) post" by blast
  let ?k = "length pre + length extra"
  have len: "length (pre @ post) = min (Backlog ob) 100"
    unfolding r(1) [symmetric] by (simp add: Backlog_def)
  have "length extra \<le> length post" by (subst r(5)) simp
  with len have k: "?k \<le> 100" by simp
  have "pre @ extra = take ?k (pre @ post)" using r(5) by simp
  also have "\<dots> = take ?k (sort_key ms_id (unpublished ob))"
    unfolding r(1) [symmetric] using k by (simp add: min_def)
  finally have deliv: "pre @ extra = take ?k (sort_key ms_id (unpublished ob))" .
  have "unpublished ob' = filter (\<lambda>m. ms_id m \<notin> ms_id ` set pre) (unpublished ob)"
    using unpublished_drained [of now pre ob] r(2) by (simp add: unpublished_def)
  moreover have "distinct (pre @ post)" "set (pre @ post) \<subseteq> set (unpublished ob)"
    using due_distinct [OF assms(2)] due_subset [of ob] unfolding r(1) by simp_all
  ultimately have "Backlog ob' = Backlog ob - length pre"
    using filter_disjoint_length [OF unpublished_distinct [OF assms(2)], of pre] by (simp add: Backlog_def)
  then have "Backlog ob' + ?k \<le> Backlog ob + 1" using len r(4) by simp
  then have "\<exists>k. ox_delivered ob' = ox_delivered ob @ map envelope (take k (sort_key ms_id (unpublished ob))) \<and>
      k \<le> 100 \<and> Backlog ob' + k \<le> Backlog ob + 1"
    using r(3) deliv k by (intro exI [of _ ?k]) simp
  then show ?thesis using drain_keeps_ok [OF assms] drain_progress assms by blast
qed

definition sample_outbox :: "bool list \<Rightarrow> Outbox" where
  "sample_outbox faults = \<lparr>ox_messages = [
     \<lparr>ms_id = 2, ms_eventID = ''e2'', ms_topic = ''run'', ms_payload = ''b'', ms_publishedAt = None\<rparr>,
     \<lparr>ms_id = 1, ms_eventID = ''e1'', ms_topic = ''run'', ms_payload = ''a'', ms_publishedAt = None\<rparr>],
     ox_delivered = [], ox_faults = faults\<rparr>"

theorem outbox_at_least_once_witness:
  "outbox_ok (snd (Publisher_drain 7 (sample_outbox [False, False, True]))) \<and>
   Backlog (snd (Publisher_drain 7 (sample_outbox [False, False, True]))) = 1 \<and>
   Backlog (snd (Publisher_drain 7 (sample_outbox []))) = 0"
proof -
  have ok: "outbox_ok (sample_outbox fs)" for fs by (simp add: sample_outbox_def outbox_ok_def)
  have "Backlog (sample_outbox []) = 2" by (simp add: sample_outbox_def Backlog_def unpublished_def)
  moreover have "fst (Publisher_drain 7 (sample_outbox [])) = None"
    and "Backlog (snd (Publisher_drain 7 (sample_outbox [False, False, True]))) = 1"
    by (simp_all add: sample_outbox_def Publisher_drain_def next_fault_def unpublished_def publish_def
        mark_published_def Backlog_def)
  ultimately show ?thesis
    using outbox_at_least_once [OF prod.collapse [symmetric] ok, of 7 "[False, False, True]"]
      outbox_at_least_once [OF prod.collapse [symmetric] ok, of 7 "[]"] by simp
qed

end
