(* ===== verification/Templates.thy ===== *)
theory Templates
  imports Agents
begin

text \<open>
  Wake-up prompts: \<^verbatim>\<open>internal/scheduling/template.go\<close> with the default template of
  \<^verbatim>\<open>internal/domain/wakeup.go\<close>. The templates are their UTF-8 bytes. The scanning loop is
  \<open>render_rest\<close>; it drops at least the closing braces in each round, which is its termination.
\<close>

section \<open>Scanning\<close>

text \<open>\<^verbatim>\<open>strings.Index\<close>: the first position where \<open>sub\<close> starts; None is -1.\<close>

fun Index :: "string \<Rightarrow> string \<Rightarrow> nat option" where
  "Index [] sub = (if sub = [] then Some 0 else None)"
| "Index (c # s) sub = (if HasPrefix (c # s) sub then Some 0 else map_option Suc (Index s sub))"

definition DefaultPromptTemplate :: string where
  "DefaultPromptTemplate =
     ''{{agent.name}}'' @
     [CHR 0xEF, CHR 0xBC, CHR 0x8C, CHR 0xE6, CHR 0x8C, CHR 0x89, CHR 0xE4, CHR 0xBD,
      CHR 0xA0, CHR 0xE7, CHR 0x9A, CHR 0x84, CHR 0xE8, CHR 0x81, CHR 0x8C, CHR 0xE8,
      CHR 0xB4, CHR 0xA3, CHR 0xEF, CHR 0xBC, CHR 0x88] @
     ''{{agent.role}}'' @
     [CHR 0xEF, CHR 0xBC, CHR 0x89, CHR 0xE6, CHR 0xA3, CHR 0x80, CHR 0xE6, CHR 0x9F,
      CHR 0xA5, CHR 0xE4, CHR 0xBB, CHR 0xBB, CHR 0xE5, CHR 0x8A, CHR 0xA1, CHR 0xE3,
      CHR 0x80, CHR 0x8C] @
     ''{{work_item.title}}'' @
     [CHR 0xE3, CHR 0x80, CHR 0x8D, CHR 0xE7, CHR 0x9A, CHR 0x84, CHR 0xE5, CHR 0xBD,
      CHR 0x93, CHR 0xE5, CHR 0x89, CHR 0x8D, CHR 0xE7, CHR 0x8A, CHR 0xB6, CHR 0xE6,
      CHR 0x80, CHR 0x81, CHR 0xEF, CHR 0xBC, CHR 0x8C, CHR 0xE8, CHR 0x8B, CHR 0xA5,
      CHR 0xE6, CHR 0x9C, CHR 0x89, CHR 0xE5, CHR 0x8F, CHR 0xAF, CHR 0xE6, CHR 0x8E,
      CHR 0xA8, CHR 0xE8, CHR 0xBF, CHR 0x9B, CHR 0xE7, CHR 0x9A, CHR 0x84, CHR 0xE5,
      CHR 0xB7, CHR 0xA5, CHR 0xE4, CHR 0xBD, CHR 0x9C, CHR 0xE9, CHR 0xA1, CHR 0xB9,
      CHR 0xE8, CHR 0xAF, CHR 0xB7, CHR 0xE7, CHR 0xBB, CHR 0xA7, CHR 0xE7, CHR 0xBB,
      CHR 0xAD, CHR 0xE6, CHR 0x8E, CHR 0xA8, CHR 0xE8, CHR 0xBF, CHR 0x9B, CHR 0xEF,
      CHR 0xBC, CHR 0x9B, CHR 0xE6, CHR 0xB2, CHR 0xA1, CHR 0xE6, CHR 0x9C, CHR 0x89,
      CHR 0xE5, CHR 0x88, CHR 0x99, CHR 0xE7, CHR 0xAE, CHR 0x80, CHR 0xE7, CHR 0x9F,
      CHR 0xAD, CHR 0xE6, CHR 0x8A, CHR 0xA5, CHR 0xE5, CHR 0x91, CHR 0x8A, CHR 0xE7,
      CHR 0x8E, CHR 0xB0, CHR 0xE7, CHR 0x8A, CHR 0xB6, CHR 0xE3, CHR 0x80, CHR 0x82]"

definition SettlementPromptTemplate :: string where
  "SettlementPromptTemplate =
     [CHR 0xE4, CHR 0xBB, CHR 0xBB, CHR 0xE5, CHR 0x8A, CHR 0xA1, CHR 0xE3, CHR 0x80,
      CHR 0x8C] @
     ''{{work_item.title}}'' @
     [CHR 0xE3, CHR 0x80, CHR 0x8D, CHR 0xE7, CHR 0x9A, CHR 0x84, CHR 0xE6, CHR 0xB4,
      CHR 0xBE, CHR 0xE5, CHR 0x8F, CHR 0x91, CHR 0xE6, CHR 0x89, CHR 0xB9, CHR 0xE6,
      CHR 0xAC, CHR 0xA1, CHR 0xE5, CHR 0xB7, CHR 0xB2, CHR 0xE6, CHR 0x94, CHR 0xB6,
      CHR 0xE5, CHR 0xB0, CHR 0xBE, CHR 0xEF, CHR 0xBC, CHR 0x8C, CHR 0xE8, CHR 0xAF,
      CHR 0xB7, CHR 0xE6, CHR 0xB1, CHR 0x87, CHR 0xE6, CHR 0x80, CHR 0xBB, CHR 0xE5,
      CHR 0x90, CHR 0x84, CHR 0xE6, CHR 0x88, CHR 0x90, CHR 0xE5, CHR 0x91, CHR 0x98,
      CHR 0xE7, CHR 0xBB, CHR 0x93, CHR 0xE5, CHR 0xB1, CHR 0x80, CHR 0xEF, CHR 0xBC,
      CHR 0x9A, CHR 0x0A] @
     ''{{context.settlement_lines}}'' @
     [CHR 0x0A, CHR 0xE8, CHR 0xAF, CHR 0xB7, CHR 0xE6, CHR 0xA0, CHR 0x87, CHR 0xE6,
      CHR 0xB3, CHR 0xA8, CHR 0xE5, CHR 0xA4, CHR 0xB1, CHR 0xE8, CHR 0xB4, CHR 0xA5,
      CHR 0xE9, CHR 0xA1, CHR 0xB9, CHR 0xE4, CHR 0xB8, CHR 0x8E, CHR 0xE7, CHR 0xBC,
      CHR 0xBA, CHR 0xE5, CHR 0x8F, CHR 0xA3, CHR 0xEF, CHR 0xBC, CHR 0x8C, CHR 0xE7,
      CHR 0xBB, CHR 0x99, CHR 0xE5, CHR 0x87, CHR 0xBA, CHR 0xE7, CHR 0xAE, CHR 0x80,
      CHR 0xE6, CHR 0x98, CHR 0x8E, CHR 0xE6, CHR 0xB1, CHR 0x87, CHR 0xE6, CHR 0x80,
      CHR 0xBB, CHR 0xE7, CHR 0xBB, CHR 0x93, CHR 0xE8, CHR 0xAE, CHR 0xBA, CHR 0xE4,
      CHR 0xB8, CHR 0x8E, CHR 0xE4, CHR 0xB8, CHR 0x8B, CHR 0xE4, CHR 0xB8, CHR 0x80,
      CHR 0xE6, CHR 0xAD, CHR 0xA5, CHR 0xE5, CHR 0xBB, CHR 0xBA, CHR 0xE8, CHR 0xAE,
      CHR 0xAE, CHR 0xE3, CHR 0x80, CHR 0x82]"

definition renderVar :: "string \<Rightarrow> AgentProfile option \<Rightarrow> string \<Rightarrow> gomap \<Rightarrow> string" where
  "renderVar inner agent workItemTitle wakeContext =
     (let (name, role, slug) = (case agent of None \<Rightarrow> ('''', '''', '''')
                                | Some a \<Rightarrow> (ag_Name a, ag_Role a, ag_Slug a))
      in if inner = ''agent.name'' then name
         else if inner = ''agent.role'' then role
         else if inner = ''agent.slug'' then slug
         else if inner = ''work_item.title'' then workItemTitle
         else if HasPrefix inner ''context.'' then
           let key = drop (length ''context.'') inner
           in if key = '''' then ''{{'' @ inner @ ''}}''
              else string_or_empty wakeContext key
         else ''{{'' @ inner @ ''}}'')"

lemma Index_bound: "Index s sub = Some i \<Longrightarrow> i + length sub \<le> length s"
  by (induction s arbitrary: i) (auto simp: HasPrefix_def split: if_splits dest: arg_cong [of _ _ length])

function render_rest :: "string \<Rightarrow> AgentProfile option \<Rightarrow> string \<Rightarrow> gomap \<Rightarrow> string" where
  "render_rest rest agent title wakeContext =
     (case Index rest ''{{'' of
        None \<Rightarrow> rest
      | Some op \<Rightarrow>
          take op rest @
          (case Index (drop op rest) ''}}'' of
             None \<Rightarrow> drop op rest
           | Some end_ \<Rightarrow>
               let inner = take (end_ - 2) (drop (op + 2) rest)
               in renderVar inner agent title wakeContext @
                  render_rest (drop (op + end_ + 2) rest) agent title wakeContext))"
  by pat_completeness auto
termination
  by (relation "measure (\<lambda>(rest, _). length rest)") (auto dest: Index_bound)

declare render_rest.simps [simp del]

definition RenderPrompt :: "string \<Rightarrow> AgentProfile option \<Rightarrow> string \<Rightarrow> gomap \<Rightarrow> string" where
  "RenderPrompt tmpl agent workItemTitle wakeContext =
     (let instruction = string_or_empty wakeContext ''instruction''
      in if instruction \<noteq> '''' then instruction
         else render_rest (if tmpl = '''' then DefaultPromptTemplate else tmpl) agent workItemTitle wakeContext)"

section \<open>Templates as segments\<close>

text \<open>
  The abstract syntax of a template: literal text and variables. Literal text has no opening
  brace and a variable no closing one; \<open>unparse\<close> writes them down.
\<close>

datatype segment = Lit string | Var string

fun segment_ok :: "segment \<Rightarrow> bool" where
  "segment_ok (Lit s) \<longleftrightarrow> CHR ''{'' \<notin> set s"
| "segment_ok (Var v) \<longleftrightarrow> CHR ''}'' \<notin> set v"

fun unparse :: "segment list \<Rightarrow> string" where
  "unparse [] = ''''"
| "unparse (Lit s # segs) = s @ unparse segs"
| "unparse (Var v # segs) = ''{{'' @ v @ ''}}'' @ unparse segs"

fun render_segment :: "AgentProfile option \<Rightarrow> string \<Rightarrow> gomap \<Rightarrow> segment \<Rightarrow> string" where
  "render_segment agent title wakeContext (Lit s) = s"
| "render_segment agent title wakeContext (Var v) = renderVar v agent title wakeContext"

lemma HasPrefix_Nil [simp]: "HasPrefix s []"
  by (simp add: HasPrefix_def)

lemma HasPrefix_append [simp]: "HasPrefix (p @ s) p"
  by (simp add: HasPrefix_def)

lemma Index_skip:
  assumes "sub \<noteq> []" and "hd sub \<notin> set s"
  shows "Index (s @ t) sub = map_option ((+) (length s)) (Index t sub)"
  using assms
proof (induction s)
  case Nil
  then show ?case by (cases "Index t sub") auto
next
  case (Cons c s)
  then have "\<not> HasPrefix (c # s @ t) sub" by (cases sub) (auto simp: HasPrefix_def)
  moreover have "Index (s @ t) sub = map_option ((+) (length s)) (Index t sub)" using Cons by simp
  ultimately show ?case by (cases "Index t sub") auto
qed

lemma Index_here: "Index (sub @ t) sub = Some 0"
  by (cases sub; cases t) (auto simp: HasPrefix_def)

lemma Index_absent: "sub \<noteq> [] \<Longrightarrow> hd sub \<notin> set s \<Longrightarrow> Index s sub = None"
  using Index_skip [of sub s "[]"] by simp

lemma render_rest_lit:
  assumes "CHR ''{'' \<notin> set s"
  shows "render_rest (s @ t) agent title wc = s @ render_rest t agent title wc"
proof (cases "Index t ''{{''")
  case None
  then show ?thesis using assms by (simp add: render_rest.simps Index_skip)
next
  case (Some op)
  then have "Index (s @ t) ''{{'' = Some (length s + op)" using assms by (simp add: Index_skip)
  then show ?thesis using Some
    by (simp add: render_rest.simps [of "s @ t"] render_rest.simps [of t] add.assoc add.commute [of _ "Suc _"] split: option.split)
qed

lemma render_rest_var:
  assumes "CHR ''}'' \<notin> set v"
  shows "render_rest (''{{'' @ v @ ''}}'' @ t) agent title wc =
    renderVar v agent title wc @ render_rest t agent title wc"
proof -
  have o: "Index (''{{'' @ v @ ''}}'' @ t) ''{{'' = Some 0" by (rule Index_here)
  have "Index ((''{{'' @ v) @ ''}}'' @ t) ''}}'' = Some (2 + length v)"
    using assms by (subst Index_skip) (simp_all add: Index_here [of "''}}''", simplified])
  then have e: "Index (''{{'' @ v @ ''}}'' @ t) ''}}'' = Some (2 + length v)" by simp
  show ?thesis
    unfolding render_rest.simps [of "''{{'' @ v @ ''}}'' @ t"] o option.case drop_0 e by (simp add: Let_def)
qed

lemma render_rest_unparse:
  assumes "list_all segment_ok segs"
  shows "render_rest (unparse segs @ t) agent title wc =
    concat (map (render_segment agent title wc) segs) @ render_rest t agent title wc"
  using assms
proof (induction segs rule: unparse.induct)
  case (3 v segs)
  then show ?case using render_rest_var [of v "unparse segs @ t"] by simp
qed (simp_all add: render_rest_lit)

lemma render_rest_unclosed:
  assumes "CHR ''}'' \<notin> set u"
  shows "render_rest (''{{'' @ u) agent title wc = ''{{'' @ u"
proof -
  have "Index (''{{'' @ u) ''}}'' = None" using assms by (intro Index_absent) auto
  then show ?thesis
    unfolding render_rest.simps [of "''{{'' @ u"] by (simp add: Index_here [of "''{{''", simplified])
qed

text \<open>The default template has this form.\<close>

definition default_segments :: "segment list" where
  "default_segments = [Var ''agent.name'',
     Lit ([CHR 0xEF, CHR 0xBC, CHR 0x8C, CHR 0xE6, CHR 0x8C, CHR 0x89, CHR 0xE4, CHR 0xBD,
      CHR 0xA0, CHR 0xE7, CHR 0x9A, CHR 0x84, CHR 0xE8, CHR 0x81, CHR 0x8C, CHR 0xE8,
      CHR 0xB4, CHR 0xA3, CHR 0xEF, CHR 0xBC, CHR 0x88]),
     Var ''agent.role'',
     Lit ([CHR 0xEF, CHR 0xBC, CHR 0x89, CHR 0xE6, CHR 0xA3, CHR 0x80, CHR 0xE6, CHR 0x9F,
      CHR 0xA5, CHR 0xE4, CHR 0xBB, CHR 0xBB, CHR 0xE5, CHR 0x8A, CHR 0xA1, CHR 0xE3,
      CHR 0x80, CHR 0x8C]),
     Var ''work_item.title'',
     Lit ([CHR 0xE3, CHR 0x80, CHR 0x8D, CHR 0xE7, CHR 0x9A, CHR 0x84, CHR 0xE5, CHR 0xBD,
      CHR 0x93, CHR 0xE5, CHR 0x89, CHR 0x8D, CHR 0xE7, CHR 0x8A, CHR 0xB6, CHR 0xE6,
      CHR 0x80, CHR 0x81, CHR 0xEF, CHR 0xBC, CHR 0x8C, CHR 0xE8, CHR 0x8B, CHR 0xA5,
      CHR 0xE6, CHR 0x9C, CHR 0x89, CHR 0xE5, CHR 0x8F, CHR 0xAF, CHR 0xE6, CHR 0x8E,
      CHR 0xA8, CHR 0xE8, CHR 0xBF, CHR 0x9B, CHR 0xE7, CHR 0x9A, CHR 0x84, CHR 0xE5,
      CHR 0xB7, CHR 0xA5, CHR 0xE4, CHR 0xBD, CHR 0x9C, CHR 0xE9, CHR 0xA1, CHR 0xB9,
      CHR 0xE8, CHR 0xAF, CHR 0xB7, CHR 0xE7, CHR 0xBB, CHR 0xA7, CHR 0xE7, CHR 0xBB,
      CHR 0xAD, CHR 0xE6, CHR 0x8E, CHR 0xA8, CHR 0xE8, CHR 0xBF, CHR 0x9B, CHR 0xEF,
      CHR 0xBC, CHR 0x9B, CHR 0xE6, CHR 0xB2, CHR 0xA1, CHR 0xE6, CHR 0x9C, CHR 0x89,
      CHR 0xE5, CHR 0x88, CHR 0x99, CHR 0xE7, CHR 0xAE, CHR 0x80, CHR 0xE7, CHR 0x9F,
      CHR 0xAD, CHR 0xE6, CHR 0x8A, CHR 0xA5, CHR 0xE5, CHR 0x91, CHR 0x8A, CHR 0xE7,
      CHR 0x8E, CHR 0xB0, CHR 0xE7, CHR 0x8A, CHR 0xB6, CHR 0xE3, CHR 0x80, CHR 0x82])]"

lemma default_template_segments:
  "DefaultPromptTemplate = unparse default_segments" "list_all segment_ok default_segments"
  by (simp_all add: DefaultPromptTemplate_def default_segments_def)

definition sample_agent :: AgentProfile where
  "sample_agent =
     \<lparr>ag_ID = ''agent_1'', ag_WorkspaceID = ''ws_1'', ag_Kind = AgentProfileKindUser, ag_Slug = ''ada'',
      ag_Name = ''Ada'', ag_Role = ''tester'', ag_Availability = AgentEnabled, ag_Presence = PresenceIdle, ag_Version = 1,
      ag_CreatedAt = 0, ag_UpdatedAt = 0, ag_HeartbeatEnabled = True, ag_HeartbeatIntervalSec = 0, ag_WakeOnAssignment = True,
      ag_WakeOnDemand = True, ag_WakeOnAutomation = True, ag_PromptTemplate = '''',
      ag_LastHeartbeatAt = None\<rparr>"

section \<open>Properties\<close>

text \<open>
  C33. Rendering is one pass over the template: for a template written from literal text
  (without an opening brace) and variables (with names without a closing brace), followed by an unclosed \<^verbatim>\<open>{{\<close> or by nothing, the prompt is the literals as they are
  with each variable replaced by its value, which is not scanned again; the unclosed rest stays. An
  explicit instruction overrides the template, and an empty template is the default one.
\<close>

theorem template_renders_segments:
  assumes "list_all segment_ok segs" and "(if tmpl = '''' then DefaultPromptTemplate else tmpl) = unparse segs @ rest"
    and "rest = '''' \<or> (\<exists>u. rest = ''{{'' @ u \<and> CHR ''}'' \<notin> set u)"
  shows "RenderPrompt tmpl agent title wc =
    (let instruction = string_or_empty wc ''instruction''
     in if instruction \<noteq> '''' then instruction
        else concat (map (render_segment agent title wc) segs) @ rest)"
proof -
  have "render_rest rest agent title wc = rest"
    using assms(3) render_rest_unclosed by (auto simp: render_rest.simps [of "''''"])
  then show ?thesis
    using render_rest_unparse [OF assms(1), of rest agent title wc] unfolding RenderPrompt_def Let_def assms(2) by simp
qed

theorem template_renders_segments_witness:
  "RenderPrompt ''Go: {{context.k}}, {{nope}} {{x'' None ''T'' [(''k'', VStr ''{{agent.name}}'')] =
     ''Go: {{agent.name}}, {{nope}} {{x'' \<and>
   RenderPrompt '''' (Some sample_agent) ''T'' [] = concat (map (render_segment (Some sample_agent) ''T'' []) default_segments)"
  using template_renders_segments [of "[Lit ''Go: '', Var ''context.k'', Lit '', '', Var ''nope'', Lit '' '']"
      "''Go: {{context.k}}, {{nope}} {{x''" "''{{x''" None "''T''" "[(''k'', VStr ''{{agent.name}}'')]"]
    template_renders_segments [OF default_template_segments(2), of "''''" "''''" "Some sample_agent" "''T''" "[]"]
    default_template_segments(1)
  by (simp add: renderVar_def HasPrefix_def string_or_empty_def get_string_def)

end
