(* ===== verification/SqlStore.thy ===== *)
theory SqlStore
  imports Prelude
begin

text \<open>
  A connection to the SQLite store (\<^verbatim>\<open>internal/persistence/sqlstore/store.go\<close>): every statement
  may fail, and the clock is read when it runs. Which statements fail and what the clock says is
  the environment, a function of the number of the statement; theorems quantify over it. The
  tables are the fields that the records below add.
\<close>

section \<open>Statements\<close>

record Conn =
  cn_env :: "nat \<Rightarrow> bool \<times> time"
  cn_step :: nat

definition dbError :: go_error where
  "dbError = ErrOther ''database''"

text \<open>\<^verbatim>\<open>ExecContext\<close> and \<^verbatim>\<open>QueryContext\<close>: the statement fails without an effect, or it runs.\<close>

definition exec_stmt ::
  "(time \<Rightarrow> 'a Conn_scheme \<Rightarrow> (go_error + 'r) \<times> 'a Conn_scheme) \<Rightarrow> 'a Conn_scheme \<Rightarrow> (go_error + 'r) \<times> 'a Conn_scheme"
where
  "exec_stmt f db =
     (let (failed, t) = cn_env db (cn_step db);
          db1 = db\<lparr>cn_step := Suc (cn_step db)\<rparr>
      in if failed then (Inl dbError, db1) else f t db1)"

text \<open>A query: what it reads, and the tables as they were.\<close>

definition query_stmt :: "(time \<Rightarrow> 'a Conn_scheme \<Rightarrow> go_error + 'r) \<Rightarrow> 'a Conn_scheme \<Rightarrow> (go_error + 'r) \<times> 'a Conn_scheme"
where
  "query_stmt f = exec_stmt (\<lambda>t db. (f t db, db))"

text \<open>
  \<^verbatim>\<open>Store.InTx\<close> outside a transaction: an error of the function, or a failing begin or commit,
  leaves the tables as they were. Inside a transaction the function just runs.
\<close>

definition InTx ::
  "('a Conn_scheme \<Rightarrow> (go_error + 'r) \<times> 'a Conn_scheme) \<Rightarrow> 'a Conn_scheme \<Rightarrow> (go_error + 'r) \<times> 'a Conn_scheme"
where
  "InTx fn db =
     exec_stmt (\<lambda>_ db1. (case fn db1 of
        (Inl e, db2) \<Rightarrow> (Inl e, db1\<lparr>cn_step := cn_step db2\<rparr>)
      | (Inr r, db2) \<Rightarrow>
          (let (failed, _) = cn_env db2 (cn_step db2)
           in if failed then (Inl dbError, db1\<lparr>cn_step := Suc (cn_step db2)\<rparr>)
              else (Inr r, db2\<lparr>cn_step := Suc (cn_step db2)\<rparr>)))) db"

text \<open>
  Sequencing: an error returns at once (\<^verbatim>\<open>if err != nil { return err }\<close>) with the effects so far.
\<close>

definition bindM ::
  "('db \<Rightarrow> (go_error + 'a) \<times> 'db) \<Rightarrow> ('a \<Rightarrow> 'db \<Rightarrow> (go_error + 'b) \<times> 'db) \<Rightarrow> 'db \<Rightarrow> (go_error + 'b) \<times> 'db" where
  "bindM f g db = (case f db of (Inl e, db1) \<Rightarrow> (Inl e, db1) | (Inr x, db1) \<Rightarrow> g x db1)"

definition returnM :: "'a \<Rightarrow> 'db \<Rightarrow> (go_error + 'a) \<times> 'db" where
  "returnM x db = (Inr x, db)"

definition failM :: "go_error \<Rightarrow> 'db \<Rightarrow> (go_error + 'a) \<times> 'db" where
  "failM e db = (Inl e, db)"

text \<open>\<^verbatim>\<open>timeNow()\<close> outside of a statement reads the clock without a step of the store.\<close>

definition nowM :: "'a Conn_scheme \<Rightarrow> time" where
  "nowM db = snd (cn_env db (cn_step db))"

lemma bindM_cases:
  assumes "bindM f g db = (r, db')"
  obtains e where "f db = (Inl e, db')" "r = Inl e" | x db1 where "f db = (Inr x, db1)" "g x db1 = (r, db')"
  using assms unfolding bindM_def by (cases "f db"; cases "fst (f db)") auto

lemma returnM_simps [simp]: "returnM x db = (r, db') \<longleftrightarrow> r = Inr x \<and> db' = db"
  by (auto simp: returnM_def)

lemma failM_simps [simp]: "failM e db = (r, db') \<longleftrightarrow> r = Inl e \<and> db' = db"
  by (auto simp: failM_def)

text \<open>Everything but the statement counter.\<close>

definition tables :: "'a Conn_scheme \<Rightarrow> 'a Conn_scheme" where
  "tables db = db\<lparr>cn_step := 0\<rparr>"

lemma exec_stmt_cases:
  assumes "exec_stmt f db = (r, db')"
  obtains "r = Inl dbError" "db' = db\<lparr>cn_step := Suc (cn_step db)\<rparr>"
    | t where "f t (db\<lparr>cn_step := Suc (cn_step db)\<rparr>) = (r, db')"
proof -
  obtain b t where e: "cn_env db (cn_step db) = (b, t)" by (cases "cn_env db (cn_step db)")
  show ?thesis
  proof (cases b)
    case True
    then show ?thesis using assms that(1) by (simp add: exec_stmt_def e Let_def)
  next
    case False
    then show ?thesis using assms that(2) [of t] by (simp add: exec_stmt_def e Let_def)
  qed
qed

lemma query_stmt_cases:
  assumes "query_stmt f db = (r, db')"
  obtains "r = Inl dbError" "db' = db\<lparr>cn_step := Suc (cn_step db)\<rparr>"
    | t where "r = f t (db\<lparr>cn_step := Suc (cn_step db)\<rparr>)" "db' = db\<lparr>cn_step := Suc (cn_step db)\<rparr>"
proof -
  obtain b t where e: "cn_env db (cn_step db) = (b, t)" by (cases "cn_env db (cn_step db)")
  show ?thesis
  proof (cases b)
    case True
    then show ?thesis using assms that(1) by (simp add: query_stmt_def exec_stmt_def e Let_def)
  next
    case False
    then have "query_stmt f db = (f t (db\<lparr>cn_step := Suc (cn_step db)\<rparr>), db\<lparr>cn_step := Suc (cn_step db)\<rparr>)"
      by (simp add: query_stmt_def exec_stmt_def e Let_def)
    with assms have "r = f t (db\<lparr>cn_step := Suc (cn_step db)\<rparr>)" "db' = db\<lparr>cn_step := Suc (cn_step db)\<rparr>"
      by (metis prod.inject)+
    then show ?thesis by (rule that(2))
  qed
qed

lemma InTx_cases:
  assumes "InTx fn db = (r, db')"
  obtains e n where "r = Inl e" "db' = db\<lparr>cn_step := n\<rparr>"
    | x db2 n where "r = Inr x" "fn (db\<lparr>cn_step := Suc (cn_step db)\<rparr>) = (Inr x, db2)" "db' = db2\<lparr>cn_step := n\<rparr>"
proof -
  let ?db1 = "db\<lparr>cn_step := Suc (cn_step db)\<rparr>"
  obtain r0 db2 where f: "fn ?db1 = (r0, db2)" by (cases "fn ?db1")
  obtain b t where e: "cn_env db (cn_step db) = (b, t)" by (cases "cn_env db (cn_step db)")
  obtain b2 t2 where e2: "cn_env db2 (cn_step db2) = (b2, t2)" by (cases "cn_env db2 (cn_step db2)")
  show ?thesis
    using assms that by (cases b; cases r0; cases b2) (auto simp: InTx_def exec_stmt_def e f e2)
qed

lemma tables_step [simp]: "tables (db\<lparr>cn_step := n\<rparr>) = tables db"
  by (simp add: tables_def)

lemma InTx_error_tables: "InTx fn db = (Inl e, db') \<Longrightarrow> tables db' = tables db"
  by (elim InTx_cases) auto

lemma query_tables: "query_stmt f db = (r, db') \<Longrightarrow> tables db' = tables db"
  by (elim query_stmt_cases) auto

end
