(* ===== verification/Work.thy ===== *)
theory Work
  imports GovernanceTypes
begin

text \<open>
  Work items (\<^verbatim>\<open>internal/domain/workitem.go\<close>) and runs with their approvals
  (\<^verbatim>\<open>internal/domain/run.go\<close>). A method that mutates its receiver returns the new value, and
  keeps the old one on an error. A run's usage and accounting fields belong to the usage
  theories and are left out of its record here.
\<close>

section \<open>Work items\<close>

datatype WorkItemRecordKind = RecordKindUnset \<comment> \<open>the empty string\<close>
  | RecordKindChat | RecordKindTask | RecordKindOther string

definition RecordKind_Valid :: "WorkItemRecordKind \<Rightarrow> bool" where
  "RecordKind_Valid k \<longleftrightarrow> k = RecordKindChat \<or> k = RecordKindTask"

definition RecordKind_IsTask :: "WorkItemRecordKind \<Rightarrow> bool" where
  "RecordKind_IsTask k \<longleftrightarrow> k = RecordKindTask"

definition RecordKind_IsChat :: "WorkItemRecordKind \<Rightarrow> bool" where
  "RecordKind_IsChat k \<longleftrightarrow> k = RecordKindChat"

datatype WorkItemStatus = WorkItemTodo | WorkItemInProgress | WorkItemBlocked | WorkItemCompleted
  | WorkItemCancelled | WorkItemStatusOther string

fun WorkItemStatus_text :: "WorkItemStatus \<Rightarrow> string" where
  "WorkItemStatus_text WorkItemTodo = ''todo''"
| "WorkItemStatus_text WorkItemInProgress = ''in_progress''"
| "WorkItemStatus_text WorkItemBlocked = ''blocked''"
| "WorkItemStatus_text WorkItemCompleted = ''completed''"
| "WorkItemStatus_text WorkItemCancelled = ''cancelled''"
| "WorkItemStatus_text (WorkItemStatusOther s) = s"

datatype WorkItemPhase = PhaseNone \<comment> \<open>the empty string\<close>
  | PhaseExecution | PhaseReview | PhaseAcceptance | PhaseOther string

fun workItemTransitions :: "WorkItemStatus \<Rightarrow> WorkItemStatus list" where
  "workItemTransitions WorkItemTodo = [WorkItemInProgress, WorkItemBlocked, WorkItemCancelled]"
| "workItemTransitions WorkItemInProgress = [WorkItemBlocked, WorkItemCompleted, WorkItemCancelled]"
| "workItemTransitions WorkItemBlocked = [WorkItemInProgress, WorkItemCancelled]"
| "workItemTransitions _ = []"

record WorkItem =
  wi_ID :: string
  wi_WorkspaceID :: string
  wi_RecordKind :: WorkItemRecordKind
  wi_ParentID :: string
  wi_Title :: string
  wi_Description :: string
  wi_Status :: WorkItemStatus
  wi_Phase :: WorkItemPhase
  wi_Priority :: Priority
  wi_DueDate :: "time option"
  wi_AgentProfileID :: string
  wi_ClientKey :: string
  wi_LockedByRunID :: string
  wi_LockedAt :: "time option"
  wi_RollingDigest :: string
  wi_AcceptanceCriteria :: "string list"
  wi_PhaseEnteredAt :: "time option"
  wi_Version :: int
  wi_CreatedAt :: time
  wi_UpdatedAt :: time

definition WorkItem_HoldsLock :: "WorkItem \<Rightarrow> string \<Rightarrow> bool" where
  "WorkItem_HoldsLock w runID \<longleftrightarrow> runID \<noteq> '''' \<and> wi_LockedByRunID w = runID"

definition WorkItemStatus_CanTransitionTo :: "WorkItemStatus \<Rightarrow> WorkItemStatus \<Rightarrow> bool" where
  "WorkItemStatus_CanTransitionTo s to \<longleftrightarrow> list_ex (\<lambda>ok. ok = to) (workItemTransitions s)"

definition WorkItemStatus_IsTerminal :: "WorkItemStatus \<Rightarrow> bool" where
  "WorkItemStatus_IsTerminal s \<longleftrightarrow> s = WorkItemCompleted \<or> s = WorkItemCancelled"

definition WorkItem_bump :: "WorkItem \<Rightarrow> time \<Rightarrow> WorkItem" where
  "WorkItem_bump w now = w\<lparr>wi_Version := inc64 (wi_Version w), wi_UpdatedAt := now\<rparr>"

definition not_task :: "WorkItem \<Rightarrow> bool" where
  "not_task w \<longleftrightarrow> wi_RecordKind w \<noteq> RecordKindUnset \<and> wi_RecordKind w \<noteq> RecordKindTask"

definition wi_error :: "WorkItem \<Rightarrow> string \<Rightarrow> go_error" where
  "wi_error w to = ErrTransition ''work_item'' (WorkItemStatus_text (wi_Status w)) to"

definition WorkItem_Transition :: "WorkItem \<Rightarrow> WorkItemStatus \<Rightarrow> time \<Rightarrow> go_error + WorkItem" where
  "WorkItem_Transition w to now =
     (if not_task w then Inl (wi_error w (WorkItemStatus_text to))
      else if WorkItemStatus_IsTerminal (wi_Status w) then Inl (wi_error w (WorkItemStatus_text to))
      else if \<not> WorkItemStatus_CanTransitionTo (wi_Status w) to then Inl (wi_error w (WorkItemStatus_text to))
      else if to \<noteq> WorkItemInProgress
        then Inr (WorkItem_bump (w\<lparr>wi_Status := to, wi_Phase := PhaseNone, wi_PhaseEnteredAt := None\<rparr>) now)
      else Inr (WorkItem_bump (w\<lparr>wi_Status := to, wi_Phase := PhaseExecution, wi_PhaseEnteredAt := Some now\<rparr>) now))"

definition WorkItem_EnterReview :: "WorkItem \<Rightarrow> time \<Rightarrow> go_error + WorkItem" where
  "WorkItem_EnterReview w now =
     (if not_task w then Inl (wi_error w ''review'')
      else if wi_Status w \<noteq> WorkItemInProgress then Inl (wi_error w ''review'')
      else Inr (WorkItem_bump (w\<lparr>wi_Phase := PhaseReview, wi_PhaseEnteredAt := Some now\<rparr>) now))"

definition WorkItem_EnterAcceptance :: "WorkItem \<Rightarrow> time \<Rightarrow> go_error + WorkItem" where
  "WorkItem_EnterAcceptance w now =
     (if not_task w then Inl (wi_error w ''acceptance'')
      else if wi_Status w \<noteq> WorkItemInProgress \<or> wi_Phase w \<noteq> PhaseReview then Inl (wi_error w ''acceptance'')
      else Inr (WorkItem_bump (w\<lparr>wi_Phase := PhaseAcceptance, wi_PhaseEnteredAt := Some now\<rparr>) now))"

definition WorkItem_BeginExecution :: "WorkItem \<Rightarrow> time \<Rightarrow> WorkItem" where
  "WorkItem_BeginExecution w now =
     (if not_task w then w
      else if wi_Status w \<noteq> WorkItemInProgress \<or> wi_Phase w = PhaseExecution then w
      else WorkItem_bump (w\<lparr>wi_Phase := PhaseExecution, wi_PhaseEnteredAt := Some now\<rparr>) now)"

definition WorkItem_Accept :: "WorkItem \<Rightarrow> time \<Rightarrow> go_error + WorkItem" where
  "WorkItem_Accept w now =
     (if not_task w then Inl (wi_error w ''completed'')
      else if wi_Status w \<noteq> WorkItemInProgress \<or> wi_Phase w = PhaseNone \<or> wi_Phase w = PhaseExecution
        then Inl (wi_error w ''completed'')
      else Inr (WorkItem_bump (w\<lparr>wi_Status := WorkItemCompleted, wi_Phase := PhaseNone,
                                  wi_PhaseEnteredAt := None\<rparr>) now))"

definition WorkItem_CheckVersion :: "WorkItem \<Rightarrow> int \<Rightarrow> go_error option" where
  "WorkItem_CheckVersion w expected =
     (if expected \<noteq> 0 \<and> expected \<noteq> wi_Version w then Some ErrVersionConflict else None)"

record Blocker =
  bl_ID :: string
  bl_WorkItemID :: string
  bl_Code :: string
  bl_Message :: string
  bl_Source :: string
  bl_CreatedAt :: time
  bl_ResolvedAt :: "time option"

section \<open>Runs\<close>

datatype RunStatus = RunQueued | RunStarting | RunRunning | RunWaitingApproval | RunInterrupting
  | RunCancelling | RunReconnecting | RunSucceeding | RunSucceeded | RunInterrupted | RunCancelled
  | RunLost | RunFailed | RunStatusOther string

fun RunStatus_text :: "RunStatus \<Rightarrow> string" where
  "RunStatus_text RunQueued = ''queued''"
| "RunStatus_text RunStarting = ''starting''"
| "RunStatus_text RunRunning = ''running''"
| "RunStatus_text RunWaitingApproval = ''waiting_approval''"
| "RunStatus_text RunInterrupting = ''interrupting''"
| "RunStatus_text RunCancelling = ''cancelling''"
| "RunStatus_text RunReconnecting = ''reconnecting''"
| "RunStatus_text RunSucceeding = ''succeeding''"
| "RunStatus_text RunSucceeded = ''succeeded''"
| "RunStatus_text RunInterrupted = ''interrupted''"
| "RunStatus_text RunCancelled = ''cancelled''"
| "RunStatus_text RunLost = ''lost''"
| "RunStatus_text RunFailed = ''failed''"
| "RunStatus_text (RunStatusOther s) = s"

fun runTransitions :: "RunStatus \<Rightarrow> RunStatus list" where
  "runTransitions RunQueued = [RunStarting, RunReconnecting, RunCancelled, RunFailed, RunInterrupted]"
| "runTransitions RunStarting = [RunRunning, RunReconnecting, RunInterrupting, RunCancelling,
     RunInterrupted, RunCancelled, RunSucceeding, RunFailed]"
| "runTransitions RunRunning = [RunWaitingApproval, RunInterrupting, RunCancelling, RunReconnecting,
     RunSucceeding, RunFailed]"
| "runTransitions RunWaitingApproval = [RunRunning, RunReconnecting, RunInterrupting, RunCancelling, RunFailed]"
| "runTransitions RunInterrupting = [RunReconnecting, RunInterrupted, RunFailed]"
| "runTransitions RunCancelling = [RunReconnecting, RunCancelled, RunFailed]"
| "runTransitions RunReconnecting = [RunStarting, RunRunning, RunWaitingApproval, RunInterrupting,
     RunCancelling, RunInterrupted, RunCancelled, RunSucceeding, RunSucceeded, RunLost, RunFailed]"
| "runTransitions RunSucceeding = [RunReconnecting, RunSucceeded, RunInterrupting, RunCancelling,
     RunInterrupted, RunCancelled, RunFailed]"
| "runTransitions _ = []"

record RunFailure =
  rf_Code :: string
  rf_Message :: string
  rf_Retryable :: bool

record ExecutionRun =
  rn_ID :: string
  rn_WorkspaceID :: string
  rn_WorkItemID :: string
  rn_AgentProfileID :: string
  rn_Status :: RunStatus
  rn_RuntimeLabel :: string
  rn_AdapterID :: string
  rn_Provider :: string
  rn_ContextSnapshotID :: string
  rn_SessionRef :: string
  rn_SessionBefore :: string
  rn_SessionAfter :: string
  rn_ErrorFamily :: string
  rn_ClientKey :: string
  rn_DispatchID :: string
  rn_Progress :: "goval option"
  rn_RetryOf :: string
  rn_Failure :: "RunFailure option"
  rn_Input :: gomap
  rn_Version :: int
  rn_CreatedAt :: time
  rn_UpdatedAt :: time
  rn_FinishedAt :: "time option"

fun RunStatus_IsTerminal :: "RunStatus \<Rightarrow> bool" where
  "RunStatus_IsTerminal RunSucceeded = True"
| "RunStatus_IsTerminal RunInterrupted = True"
| "RunStatus_IsTerminal RunCancelled = True"
| "RunStatus_IsTerminal RunLost = True"
| "RunStatus_IsTerminal RunFailed = True"
| "RunStatus_IsTerminal _ = False"

definition RunStatus_CanTransitionTo :: "RunStatus \<Rightarrow> RunStatus \<Rightarrow> bool" where
  "RunStatus_CanTransitionTo s to \<longleftrightarrow> list_ex (\<lambda>ok. ok = to) (runTransitions s)"

definition ExecutionRun_bump :: "ExecutionRun \<Rightarrow> time \<Rightarrow> ExecutionRun" where
  "ExecutionRun_bump r now = r\<lparr>rn_Version := inc64 (rn_Version r), rn_UpdatedAt := now\<rparr>"

definition ExecutionRun_Transition :: "ExecutionRun \<Rightarrow> RunStatus \<Rightarrow> time \<Rightarrow> go_error + ExecutionRun" where
  "ExecutionRun_Transition r to now =
     (let err = ErrTransition ''execution_run'' (RunStatus_text (rn_Status r)) (RunStatus_text to)
      in if RunStatus_IsTerminal (rn_Status r) then Inl err
         else if \<not> RunStatus_CanTransitionTo (rn_Status r) to then Inl err
         else let r' = ExecutionRun_bump (r\<lparr>rn_Status := to\<rparr>) now
              in Inr (if RunStatus_IsTerminal to then r'\<lparr>rn_FinishedAt := Some now\<rparr> else r'))"

definition ExecutionRun_MarkFailed :: "ExecutionRun \<Rightarrow> RunFailure \<Rightarrow> time \<Rightarrow> go_error + ExecutionRun" where
  "ExecutionRun_MarkFailed r f now =
     (case ExecutionRun_Transition r RunFailed now of
        Inl e \<Rightarrow> Inl e
      | Inr r' \<Rightarrow> Inr (r'\<lparr>rn_Failure := Some f\<rparr>))"

definition ExecutionRun_SetProgress :: "ExecutionRun \<Rightarrow> goval \<Rightarrow> time \<Rightarrow> ExecutionRun" where
  "ExecutionRun_SetProgress r p now = r\<lparr>rn_Progress := Some p, rn_UpdatedAt := now\<rparr>"

definition ExecutionRun_CheckVersion :: "ExecutionRun \<Rightarrow> int \<Rightarrow> go_error option" where
  "ExecutionRun_CheckVersion r expected =
     (if expected \<noteq> 0 \<and> expected \<noteq> rn_Version r then Some ErrVersionConflict else None)"

section \<open>Approvals\<close>

datatype ApprovalStatus = ApprovalPending | ApprovalApproved | ApprovalRejected | ApprovalExpired
  | ApprovalStatusOther string

fun ApprovalStatus_text :: "ApprovalStatus \<Rightarrow> string" where
  "ApprovalStatus_text ApprovalPending = ''pending''"
| "ApprovalStatus_text ApprovalApproved = ''approved''"
| "ApprovalStatus_text ApprovalRejected = ''rejected''"
| "ApprovalStatus_text ApprovalExpired = ''expired''"
| "ApprovalStatus_text (ApprovalStatusOther s) = s"

definition ApprovalKindGrantable :: "string \<Rightarrow> bool" where
  "ApprovalKindGrantable kind \<longleftrightarrow> kind = ''command'' \<or> kind = ''file_change'' \<or> kind = ''permissions''"

datatype ApprovalScope = ApprovalScopeOnce | ApprovalScopeThread | ApprovalScopeWorkspace
  | ApprovalScopeOther string

fun ApprovalScope_Valid :: "ApprovalScope \<Rightarrow> bool" where
  "ApprovalScope_Valid (ApprovalScopeOther _) = False"
| "ApprovalScope_Valid _ = True"

record ApprovalGrant =
  gr_ID :: string
  gr_WorkspaceID :: string
  gr_AgentProfileID :: string
  gr_WorkItemID :: string
  gr_Scope :: ApprovalScope
  gr_Kind :: string
  gr_Pattern :: string
  gr_CreatedAt :: time

definition ApprovalGrant_Matches :: "ApprovalGrant \<Rightarrow> string \<Rightarrow> string \<Rightarrow> bool" where
  "ApprovalGrant_Matches g kind summary \<longleftrightarrow>
     gr_Kind g = kind \<and> (gr_Pattern g = '''' \<or> HasPrefix summary (gr_Pattern g))"

record ApprovalRequest =
  ap_ID :: string
  ap_RunID :: string
  ap_WorkItemID :: string
  ap_Kind :: string
  ap_Risk :: string
  ap_Status :: ApprovalStatus
  ap_Summary :: string
  ap_RequestedBy :: gomap
  ap_SensitiveInputRef :: string
  ap_PolicySnapshotID :: string
  ap_ExpiresAt :: "time option"
  ap_ResolvedAt :: "time option"
  ap_ResolvedBy :: string
  ap_ResolveReason :: string
  ap_CreatedAt :: time

definition ApprovalRequest_Resolve ::
  "ApprovalRequest \<Rightarrow> ApprovalStatus \<Rightarrow> string \<Rightarrow> string \<Rightarrow> time \<Rightarrow> go_error + ApprovalRequest" where
  "ApprovalRequest_Resolve a decision by reason now =
     (if ap_Status a = decision then Inr a
      else if ap_Status a \<noteq> ApprovalPending
        then Inl (ErrTransition ''approval'' (ApprovalStatus_text (ap_Status a)) (ApprovalStatus_text decision))
      else if decision \<noteq> ApprovalApproved \<and> decision \<noteq> ApprovalRejected then Inl (ErrValidation '''')
      else Inr (a\<lparr>ap_Status := decision, ap_ResolvedAt := Some now, ap_ResolvedBy := by,
                  ap_ResolveReason := reason\<rparr>))"

definition ApprovalRequest_Expire :: "ApprovalRequest \<Rightarrow> string \<Rightarrow> string \<Rightarrow> time \<Rightarrow> go_error + ApprovalRequest" where
  "ApprovalRequest_Expire a by reason now =
     (if ap_Status a = ApprovalExpired then Inr a
      else if ap_Status a \<noteq> ApprovalPending
        then Inl (ErrTransition ''approval'' (ApprovalStatus_text (ap_Status a)) ''expired'')
      else Inr (a\<lparr>ap_Status := ApprovalExpired, ap_ResolvedAt := Some now, ap_ResolvedBy := by,
                  ap_ResolveReason := reason\<rparr>))"

section \<open>Artifacts\<close>

datatype ArtifactStatus = ArtifactDraft | ArtifactAccepted | ArtifactStatusOther string

record Artifact =
  at_ID :: string
  at_RunID :: string
  at_LogicalPath :: string
  at_Mime :: string
  at_Size :: int
  at_Sha256 :: string
  at_Classification :: string
  at_Status :: ArtifactStatus
  at_StorageRef :: string
  at_CreatedAt :: time

section \<open>Work item histories\<close>

datatype wi_op = WiTransition WorkItemStatus time | WiEnterReview time | WiEnterAcceptance time
  | WiBeginExecution time | WiAccept time

fun wi_apply :: "wi_op \<Rightarrow> WorkItem \<Rightarrow> go_error + WorkItem" where
  "wi_apply (WiTransition to t) w = WorkItem_Transition w to t"
| "wi_apply (WiEnterReview t) w = WorkItem_EnterReview w t"
| "wi_apply (WiEnterAcceptance t) w = WorkItem_EnterAcceptance w t"
| "wi_apply (WiBeginExecution t) w = Inr (WorkItem_BeginExecution w t)"
| "wi_apply (WiAccept t) w = WorkItem_Accept w t"

lemmas wi_op_defs = WorkItem_Transition_def WorkItem_EnterReview_def WorkItem_EnterAcceptance_def
  WorkItem_BeginExecution_def WorkItem_Accept_def WorkItem_bump_def

text \<open>The projection of a work item: a phase, with the instant it was entered, exactly in progress.\<close>

definition wi_ok :: "WorkItem \<Rightarrow> bool" where
  "wi_ok w \<longleftrightarrow>
     (wi_Phase w \<in> {PhaseExecution, PhaseReview, PhaseAcceptance} \<longleftrightarrow> wi_Status w = WorkItemInProgress) \<and>
     (wi_Status w \<noteq> WorkItemInProgress \<longrightarrow> wi_Phase w = PhaseNone) \<and>
     (wi_PhaseEnteredAt w \<noteq> None \<longleftrightarrow> wi_Status w = WorkItemInProgress)"

lemma wi_apply_ok: "wi_ok w \<Longrightarrow> wi_apply x w = Inr w' \<Longrightarrow> wi_ok w'"
  by (cases x) (auto simp: wi_ok_def wi_op_defs split: if_splits)

interpretation work_item: aggregate wi_ok "\<lambda>_ _. True" wi_apply
  by unfold_locales (rule wi_apply_ok)

lemma wi_terminal_fixed:
  "WorkItemStatus_IsTerminal (wi_Status w) \<Longrightarrow> wi_apply x w = Inr w' \<Longrightarrow> w' = w"
  by (cases x) (auto simp: wi_op_defs WorkItemStatus_IsTerminal_def split: if_splits)

lemma wi_run_terminal: "WorkItemStatus_IsTerminal (wi_Status w) \<Longrightarrow> run_ops wi_apply w xs = w"
proof (induction xs)
  case (Cons x xs)
  then have "keep w (wi_apply x w) = w" using wi_terminal_fixed by (cases "wi_apply x w") auto
  with Cons show ?case by simp
qed simp

lemma wi_chat_fixed: "not_task w \<Longrightarrow> run_ops wi_apply w xs = w"
proof (induction xs)
  case (Cons x xs)
  then have "keep w (wi_apply x w) = w" by (cases x) (auto simp: wi_op_defs)
  with Cons show ?case by simp
qed simp

lemma ok_run_True: "ok_run (\<lambda>_ _. True) f w xs"
  by (induction xs arbitrary: w) auto

section \<open>Run histories\<close>

lemma RunStatus_CanTransitionTo_iff [simp]:
  "RunStatus_CanTransitionTo s to \<longleftrightarrow> to \<in> set (runTransitions s)"
  by (auto simp: RunStatus_CanTransitionTo_def list_ex_iff)

lemma run_terminal_table: "to \<in> set (runTransitions s) \<Longrightarrow> \<not> RunStatus_IsTerminal s"
  by (cases s) auto

lemma ExecutionRun_Transition_Inr:
  "ExecutionRun_Transition r to now = Inr r' \<longleftrightarrow>
     to \<in> set (runTransitions (rn_Status r)) \<and>
     r' = r\<lparr>rn_Status := to, rn_Version := inc64 (rn_Version r), rn_UpdatedAt := now,
            rn_FinishedAt := if RunStatus_IsTerminal to then Some now else rn_FinishedAt r\<rparr>"
  using run_terminal_table [of to "rn_Status r"]
  by (auto simp: ExecutionRun_Transition_def ExecutionRun_bump_def Let_def)

lemma CheckVersion_is_check_version: "ExecutionRun_CheckVersion r v = check_version v (rn_Version r)"
  by (simp add: ExecutionRun_CheckVersion_def check_version_def)

definition run_frame :: "ExecutionRun \<Rightarrow> ExecutionRun" where
  "run_frame r = r\<lparr>rn_Status := RunQueued, rn_Version := 0, rn_UpdatedAt := 0, rn_FinishedAt := None\<rparr>"

interpretation run: versioned_lifecycle rn_Status RunStatus_IsTerminal RunStatus_CanTransitionTo
  ExecutionRun_Transition run_frame rn_Version
proof (unfold_locales, goal_cases)
  case (1 e s now e')
  then show ?case using run_terminal_table [of s "rn_Status e"] by (simp add: ExecutionRun_Transition_Inr)
next
  case (2 e s now e')
  then show ?case by (simp add: ExecutionRun_Transition_Inr run_frame_def)
next
  case (3 e s now e')
  then show ?case by (simp add: ExecutionRun_Transition_Inr)
qed

definition run_finished_ok :: "ExecutionRun \<Rightarrow> bool" where
  "run_finished_ok r \<longleftrightarrow> (rn_FinishedAt r \<noteq> None \<longleftrightarrow> RunStatus_IsTerminal (rn_Status r))"

lemma run_finished_step:
  assumes "run_finished_ok r" and "ExecutionRun_Transition r s t = Inr r'"
  shows "run_finished_ok r'"
proof -
  have s: "s \<in> set (runTransitions (rn_Status r))"
    and r': "rn_Status r' = s" "rn_FinishedAt r' = (if RunStatus_IsTerminal s then Some t else rn_FinishedAt r)"
    using assms(2) by (simp_all add: ExecutionRun_Transition_Inr)
  show ?thesis using assms(1) run_terminal_table [OF s] by (simp add: run_finished_ok_def r')
qed

lemma run_steps_finished_ok:
  "run_finished_ok r \<Longrightarrow> run_finished_ok (run_steps ExecutionRun_Transition r xs)"
proof (induction xs arbitrary: r)
  case (Cons x xs)
  obtain s t where x: "x = (s, t)" by (cases x)
  have "run_finished_ok (keep r (ExecutionRun_Transition r s t))"
    using Cons.prems run_finished_step [OF Cons.prems] by (rule keepI [where P = run_finished_ok])
  with Cons.IH x show ?case by simp
qed simp

section \<open>Approval histories\<close>

datatype ap_op = ApResolve ApprovalStatus string string time | ApExpire string string time

fun ap_apply :: "ap_op \<Rightarrow> ApprovalRequest \<Rightarrow> go_error + ApprovalRequest" where
  "ap_apply (ApResolve d b r t) a = ApprovalRequest_Resolve a d b r t"
| "ap_apply (ApExpire b r t) a = ApprovalRequest_Expire a b r t"

lemma ap_decided_fixed: "ap_Status a \<noteq> ApprovalPending \<Longrightarrow> ap_apply x a = Inr a' \<Longrightarrow> a' = a"
  by (cases x) (auto simp: ApprovalRequest_Resolve_def ApprovalRequest_Expire_def split: if_splits)

lemma ap_run_decided: "ap_Status a \<noteq> ApprovalPending \<Longrightarrow> run_ops ap_apply a xs = a"
proof (induction xs)
  case (Cons x xs)
  then have "keep a (ap_apply x a) = a" using ap_decided_fixed by (cases "ap_apply x a") auto
  with Cons show ?case by simp
qed simp

section \<open>Properties\<close>

text \<open>
  Work items: in every history of operations the item has a phase, with the instant it was
  entered, exactly while it is in progress; completed and cancelled items and chat records never
  change.
\<close>

theorem work_item_projection:
  assumes "wi_ok w"
  shows "wi_ok (run_ops wi_apply w xs) \<and>
    (WorkItemStatus_IsTerminal (wi_Status (run_ops wi_apply w xs)) \<longrightarrow>
       run_ops wi_apply (run_ops wi_apply w xs) ys = run_ops wi_apply w xs) \<and>
    (not_task w \<longrightarrow> run_ops wi_apply w xs = w)"
  using work_item.run_valid [OF assms ok_run_True] wi_run_terminal wi_chat_fixed by blast

definition sample_item :: WorkItem where
  "sample_item = \<lparr>wi_ID = ''wi_1'', wi_WorkspaceID = ''ws_1'', wi_RecordKind = RecordKindTask,
     wi_ParentID = '''', wi_Title = ''T'', wi_Description = '''', wi_Status = WorkItemTodo,
     wi_Phase = PhaseNone, wi_Priority = PriorityMedium, wi_DueDate = None, wi_AgentProfileID = ''agent_1'',
     wi_ClientKey = '''', wi_LockedByRunID = '''', wi_LockedAt = None, wi_RollingDigest = '''',
     wi_AcceptanceCriteria = [], wi_PhaseEnteredAt = None, wi_Version = 1, wi_CreatedAt = 1, wi_UpdatedAt = 1\<rparr>"

theorem work_item_projection_witness:
  "wi_Status (run_ops wi_apply sample_item [WiTransition WorkItemInProgress 2, WiEnterReview 3, WiAccept 4])
     = WorkItemCompleted \<and>
   run_ops wi_apply (run_ops wi_apply sample_item [WiTransition WorkItemInProgress 2, WiEnterReview 3, WiAccept 4])
     [WiTransition WorkItemInProgress 5] =
   run_ops wi_apply sample_item [WiTransition WorkItemInProgress 2, WiEnterReview 3, WiAccept 4]"
proof -
  have "wi_ok sample_item" by (simp add: wi_ok_def sample_item_def)
  moreover have "wi_Status (run_ops wi_apply sample_item [WiTransition WorkItemInProgress 2, WiEnterReview 3, WiAccept 4])
     = WorkItemCompleted"
    by (simp add: sample_item_def wi_op_defs not_task_def WorkItemStatus_IsTerminal_def
        WorkItemStatus_CanTransitionTo_def)
  ultimately show ?thesis
    using work_item_projection [of sample_item "[WiTransition WorkItemInProgress 2, WiEnterReview 3, WiAccept 4]"
        "[WiTransition WorkItemInProgress 5]"] by (simp add: WorkItemStatus_IsTerminal_def)
qed

text \<open>
  A work item can be completed without review: an item in progress whose phase is execution is
  refused by \<^verbatim>\<open>Accept\<close>, and the plain \<^verbatim>\<open>Transition\<close> completes it.
\<close>

theorem work_item_unreviewed_completion:
  assumes "wi_Status w = WorkItemInProgress" and "wi_Phase w = PhaseExecution" and "\<not> not_task w"
  shows "WorkItem_Accept w now = Inl (wi_error w ''completed'') \<and>
    (\<exists>w'. WorkItem_Transition w WorkItemCompleted now = Inr w' \<and> wi_Status w' = WorkItemCompleted)"
  using assms by (simp add: wi_op_defs WorkItemStatus_IsTerminal_def WorkItemStatus_CanTransitionTo_def)

theorem work_item_unreviewed_completion_witness:
  "WorkItem_Accept (sample_item\<lparr>wi_Status := WorkItemInProgress, wi_Phase := PhaseExecution\<rparr>) 5
     = Inl (ErrTransition ''work_item'' ''in_progress'' ''completed'')"
  using work_item_unreviewed_completion [of "sample_item\<lparr>wi_Status := WorkItemInProgress, wi_Phase := PhaseExecution\<rparr>" 5]
  by (simp add: sample_item_def not_task_def wi_error_def)

text \<open>
  C32. Runs: along every sequence of transitions the finish time is set exactly on a terminal status
  and a terminal run never changes; no run is stuck, since every other known status can go to failed; and
  a writer that read the run before a change is refused by the version check.
\<close>

theorem run_histories:
  assumes "run_finished_ok r" and "1 \<le> rn_Version r" and "rn_Version r + int (length xs) \<le> maxInt64"
  defines "r' \<equiv> run_steps ExecutionRun_Transition r xs"
  shows "run_finished_ok r' \<and>
    (if RunStatus_IsTerminal (rn_Status r') then run_steps ExecutionRun_Transition r' ys = r'
     else (\<exists>s. rn_Status r' = RunStatusOther s) \<or> (\<exists>x. ExecutionRun_MarkFailed r' f now = Inr x)) \<and>
    (r' = r \<or> ExecutionRun_CheckVersion r' (rn_Version r) = Some ErrVersionConflict)"
proof (intro conjI)
  show "run_finished_ok r'" unfolding r'_def by (rule run_steps_finished_ok [OF assms(1)])
  show "if RunStatus_IsTerminal (rn_Status r') then run_steps ExecutionRun_Transition r' ys = r'
     else (\<exists>s. rn_Status r' = RunStatusOther s) \<or> (\<exists>x. ExecutionRun_MarkFailed r' f now = Inr x)"
    using run.terminal_absorbing [of r' ys]
    by (cases "rn_Status r'") (auto simp: ExecutionRun_MarkFailed_def ExecutionRun_Transition_def Let_def)
  show "r' = r \<or> ExecutionRun_CheckVersion r' (rn_Version r) = Some ErrVersionConflict"
    using run.stale_version_refused [OF assms(2,3)] unfolding r'_def CheckVersion_is_check_version by blast
qed

definition sample_run :: ExecutionRun where
  "sample_run = \<lparr>rn_ID = ''run_1'', rn_WorkspaceID = ''ws_1'', rn_WorkItemID = ''wi_1'',
     rn_AgentProfileID = ''agent_1'', rn_Status = RunQueued, rn_RuntimeLabel = '''', rn_AdapterID = '''',
     rn_Provider = '''', rn_ContextSnapshotID = '''', rn_SessionRef = '''', rn_SessionBefore = '''', rn_SessionAfter = '''', rn_ErrorFamily = '''', rn_ClientKey = '''', rn_DispatchID = '''',
     rn_Progress = None, rn_RetryOf = '''', rn_Failure = None, rn_Input = [], rn_Version = 1, rn_CreatedAt = 1, rn_UpdatedAt = 1,
     rn_FinishedAt = None\<rparr>"

theorem run_histories_witness:
  "rn_FinishedAt (run_steps ExecutionRun_Transition sample_run
     [(RunStarting, 2), (RunSucceeding, 3), (RunSucceeded, 4)]) \<noteq> None \<and>
   ExecutionRun_CheckVersion (run_steps ExecutionRun_Transition sample_run
     [(RunStarting, 2), (RunSucceeding, 3), (RunSucceeded, 4)]) 1 = Some ErrVersionConflict"
proof -
  let ?xs = "[(RunStarting, 2), (RunSucceeding, 3), (RunSucceeded, 4)]"
  have s: "rn_Status (run_steps ExecutionRun_Transition sample_run ?xs) = RunSucceeded"
    by (simp add: ExecutionRun_Transition_def ExecutionRun_bump_def sample_run_def Let_def)
  have "run_finished_ok sample_run" "1 \<le> rn_Version sample_run"
      "rn_Version sample_run + int (length ?xs) \<le> maxInt64" "rn_Version sample_run = 1"
      "rn_Status sample_run = RunQueued"
    by (simp_all add: run_finished_ok_def sample_run_def maxInt64_def)
  note i = this
  from run_histories [OF i(1-3)] have t: "run_finished_ok (run_steps ExecutionRun_Transition sample_run ?xs)"
      "run_steps ExecutionRun_Transition sample_run ?xs = sample_run \<or>
       ExecutionRun_CheckVersion (run_steps ExecutionRun_Transition sample_run ?xs) (rn_Version sample_run)
         = Some ErrVersionConflict" by blast+
  have "run_steps ExecutionRun_Transition sample_run ?xs \<noteq> sample_run" using s i(5) by auto
  with t(2) i(4) have "ExecutionRun_CheckVersion (run_steps ExecutionRun_Transition sample_run ?xs) 1
      = Some ErrVersionConflict" by simp
  moreover have "rn_FinishedAt (run_steps ExecutionRun_Transition sample_run ?xs) \<noteq> None"
    using t(1) s unfolding run_finished_ok_def by simp
  ultimately show ?thesis by (rule conjI [rotated])
qed

text \<open>
  An approval is decided once: after the first accepted decision (approved, rejected or expired)
  no later call changes the decision, who took it, why or when; repeating it is accepted and
  contradicting it is refused.
\<close>

theorem approval_decided_once:
  assumes "run_ops ap_apply a xs = a'" and "ap_Status a' \<noteq> ApprovalPending"
  shows "run_ops ap_apply a' ys = a' \<and>
    ApprovalRequest_Resolve a' d by reason now =
      (if d = ap_Status a' then Inr a'
       else Inl (ErrTransition ''approval'' (ApprovalStatus_text (ap_Status a')) (ApprovalStatus_text d)))"
  using ap_run_decided [OF assms(2)] assms(2) by (auto simp: ApprovalRequest_Resolve_def)

theorem approval_decided_once_witness:
  "ApprovalRequest_Resolve
     (run_ops ap_apply \<lparr>ap_ID = ''approval_1'', ap_RunID = ''run_1'', ap_WorkItemID = ''wi_1'', ap_Kind = ''command'',
        ap_Risk = ''low'', ap_Status = ApprovalPending, ap_Summary = ''rm'', ap_RequestedBy = [], ap_SensitiveInputRef = '''', ap_PolicySnapshotID = '''', ap_ExpiresAt = None,
        ap_ResolvedAt = None, ap_ResolvedBy = '''', ap_ResolveReason = '''', ap_CreatedAt = 1\<rparr>
        [ApResolve ApprovalApproved ''alice'' ''ok'' 2]) ApprovalRejected ''bob'' ''no'' 3
   = Inl (ErrTransition ''approval'' ''approved'' ''rejected'')"
  by (subst approval_decided_once [OF refl, THEN conjunct2]) (simp_all add: ApprovalRequest_Resolve_def)

end
