(* ===== verification/SqlTime.thy ===== *)
theory SqlTime
  imports GoText "HOL-Library.Sublist"
begin

text \<open>
  Instants as the store writes them: \<^verbatim>\<open>timeParam\<close> of \<^verbatim>\<open>internal/persistence/sqlstore/store.go\<close>
  formats a time with the layout \<^verbatim>\<open>time.RFC3339Nano\<close>, and SQLite compares the columns as texts.
  The calendar is Go's (proleptic Gregorian, from year 1); instants before year 1 are not written.
  The theory determines where the order of the texts is the order of the instants.
\<close>

section \<open>The calendar\<close>

definition year_yday :: "nat \<Rightarrow> nat \<times> nat" where
  "year_yday d =
     (let n400 = d div 146097; d1 = d mod 146097;
          n100 = min 3 (d1 div 36524); d2 = d1 - 36524 * n100;
          n4 = d2 div 1461; d3 = d2 mod 1461;
          n1 = min 3 (d3 div 365)
      in (400 * n400 + 100 * n100 + 4 * n4 + n1 + 1, d3 - 365 * n1))"

definition isLeap :: "nat \<Rightarrow> bool" where
  "isLeap y \<longleftrightarrow> y mod 4 = 0 \<and> (y mod 100 \<noteq> 0 \<or> y mod 400 = 0)"

definition month_lengths :: "nat \<Rightarrow> nat list" where
  "month_lengths y = [31, if isLeap y then 29 else 28, 31, 30, 31, 30, 31, 31, 30, 31, 30, 31]"

fun month_day :: "nat list \<Rightarrow> nat \<Rightarrow> nat \<Rightarrow> nat \<times> nat" where
  "month_day [] m d = (m, d + 1)"
| "month_day (l # ls) m d = (if d < l then (m, d + 1) else month_day ls (m + 1) (d - l))"

section \<open>The text\<close>

definition pad :: "nat \<Rightarrow> nat \<Rightarrow> string" where
  "pad w n = replicate (w - length (nat_digits n)) (CHR ''0'') @ nat_digits n"

text \<open>\<^verbatim>\<open>.999999999\<close> in a layout: nine digits without the trailing zeros, nothing for zero.\<close>

definition frac_digits :: "nat \<Rightarrow> string" where
  "frac_digits f = rev (dropWhile ((=) (CHR ''0'')) (rev (pad 9 f)))"

definition frac_text :: "nat \<Rightarrow> string" where
  "frac_text f = (if frac_digits f = '''' then '''' else ''.'' @ frac_digits f)"

definition clock_text :: "nat \<Rightarrow> string" where
  "clock_text s =
     (let (y, yday) = year_yday (s div 86400); (m, d) = month_day (month_lengths y) 1 yday; c = s mod 86400
      in pad 4 y @ ''-'' @ pad 2 m @ ''-'' @ pad 2 d @ ''T'' @ pad 2 (c div 3600) @ '':'' @
         pad 2 (c mod 3600 div 60) @ '':'' @ pad 2 (c mod 60))"

definition timeParam :: "time \<Rightarrow> string" where
  "timeParam t = clock_text (nat t div 1000000000) @ frac_text (nat t mod 1000000000) @ ''Z''"

section \<open>Fixed width and order\<close>

fun fixed :: "nat \<Rightarrow> nat \<Rightarrow> string" where
  "fixed 0 n = []"
| "fixed (Suc w) n = fixed w (n div 10) @ [char_of (48 + n mod 10)]"

lemma length_fixed [simp]: "length (fixed w n) = w"
  by (induction w n rule: fixed.induct) auto

lemma fixed_zero: "fixed w 0 = replicate w (CHR ''0'')"
proof (induction w)
  case (Suc w)
  have "(char_of (48 :: nat) :: char) = CHR ''0''" by code_simp
  with Suc show ?case using replicate_append_same [of w "CHR ''0''"] by simp
qed simp

lemma pad_fixed: "n < 10 ^ Suc w \<Longrightarrow> pad (Suc w) n = fixed (Suc w) n"
proof (induction w arbitrary: n)
  case 0
  then show ?case by (simp add: pad_def nat_digits.simps [of n])
next
  case (Suc w)
  show ?case
  proof (cases "n < 10")
    case True
    then show ?thesis using fixed_zero [of "Suc w"] by (simp add: pad_def nat_digits.simps [of n])
  next
    case False
    then have "pad (Suc (Suc w)) n = pad (Suc w) (n div 10) @ [char_of (48 + n mod 10)]"
      by (simp add: pad_def nat_digits.simps [of n])
    also have "pad (Suc w) (n div 10) = fixed (Suc w) (n div 10)" by (rule Suc.IH) (use Suc.prems in simp)
    finally show ?thesis by simp
  qed
qed

lemma append_less_append:
  fixes a b x y :: string
  assumes "length a = length b"
  shows "a @ x < b @ y \<longleftrightarrow> a < b \<or> a = b \<and> x < y"
  using assms by (induction a b rule: list_induct2) auto

lemma digit_less: "i < 10 \<Longrightarrow> j < 10 \<Longrightarrow> (char_of (48 + i :: nat) :: char) < char_of (48 + j :: nat) \<longleftrightarrow> i < j"
  by (simp add: less_char_def)

lemma fixed_less: "m < 10 ^ w \<Longrightarrow> n < 10 ^ w \<Longrightarrow> fixed w m < fixed w n \<longleftrightarrow> m < n"
proof (induction w arbitrary: m n)
  case (Suc w)
  have b: "m div 10 < 10 ^ w" "n div 10 < 10 ^ w" using Suc.prems by auto
  note less = Suc.IH [OF b]
  have "fixed w (m div 10) = fixed w (n div 10) \<longleftrightarrow> m div 10 = n div 10"
    using less Suc.IH [OF b(2,1)] by (metis less_irrefl linorder_neqE_nat)
  moreover have "m < n \<longleftrightarrow> m div 10 < n div 10 \<or> m div 10 = n div 10 \<and> m mod 10 < n mod 10"
    using div_mult_mod_eq [of m 10] div_mult_mod_eq [of n 10] mod_less_divisor [of 10 m] mod_less_divisor [of 10 n] by linarith
  ultimately show ?case using less digit_less [of "m mod 10" "n mod 10"] by (simp add: append_less_append)
qed simp

lemma fixed_numeral:
  "fixed (numeral k) n = fixed (pred_numeral k) (n div 10) @ [char_of (48 + n mod 10)]"
  by (simp only: numeral_eq_Suc [of k] fixed.simps)

lemma pad_numeral:
  "n < 100 \<Longrightarrow> pad 2 n = fixed 2 n" "n < 10000 \<Longrightarrow> pad 4 n = fixed 4 n" "n < 1000000000 \<Longrightarrow> pad 9 n = fixed 9 n"
proof -
  have w: "Suc 1 = 2" "Suc 3 = 4" "Suc 8 = 9" by simp_all
  have p: "n < 10 ^ 2 \<Longrightarrow> pad 2 n = fixed 2 n" "n < 10 ^ 4 \<Longrightarrow> pad 4 n = fixed 4 n" "n < 10 ^ 9 \<Longrightarrow> pad 9 n = fixed 9 n"
    using pad_fixed [of n 1] pad_fixed [of n 3] pad_fixed [of n 8] unfolding w by blast+
  show "n < 100 \<Longrightarrow> pad 2 n = fixed 2 n" "n < 10000 \<Longrightarrow> pad 4 n = fixed 4 n" "n < 1000000000 \<Longrightarrow> pad 9 n = fixed 9 n"
    using p by simp_all
qed

lemma digit_chars:
  "char_of (48 :: nat) = CHR ''0''" "char_of (49 :: nat) = CHR ''1''" "char_of (50 :: nat) = CHR ''2''"
  "char_of (51 :: nat) = CHR ''3''" "char_of (52 :: nat) = CHR ''4''" "char_of (53 :: nat) = CHR ''5''"
  "char_of (54 :: nat) = CHR ''6''" "char_of (55 :: nat) = CHR ''7''" "char_of (56 :: nat) = CHR ''8''"
  "char_of (57 :: nat) = CHR ''9''"
  by code_simp+

lemma sample_times:
  "timeParam 0 = ''0001-01-01T00:00:00Z''"
  "timeParam (63861782400 * 1000000000 + 120) = ''2024-09-13T00:00:00.00000012Z''"
  by (simp_all add: timeParam_def clock_text_def year_yday_def month_lengths_def isLeap_def pad_numeral fixed_numeral
      frac_text_def frac_digits_def Let_def digit_chars)

section \<open>Order of the clock part\<close>

lemma div_mod_mono: "(d::nat) < e \<Longrightarrow> d div k < e div k \<or> d div k = e div k \<and> d mod k < e mod k"
proof -
  assume "d < e"
  moreover from this have "d div k \<le> e div k" by (simp add: div_le_mono)
  moreover have "d = k * (d div k) + d mod k" "e = k * (e div k) + e mod k" by simp_all
  ultimately show ?thesis by (metis add_less_cancel_left le_neq_implies_less)
qed

lemma min_div_mono:
  assumes "(d::nat) < e"
  shows "min c (d div k) < min c (e div k) \<or>
    min c (d div k) = min c (e div k) \<and> d - k * min c (d div k) < e - k * min c (e div k)"
proof -
  have "d div k \<le> e div k" using assms by (simp add: div_le_mono)
  then have le: "min c (d div k) \<le> min c (e div k)" by (simp add: min.coboundedI2)
  have "k * min c (d div k) \<le> k * (d div k)" by simp
  also have "\<dots> \<le> d" by simp
  finally have "d - k * min c (d div k) < e - k * min c (d div k)" using assms by (simp add: diff_less_mono)
  with le show ?thesis by (metis le_neq_implies_less)
qed

lemma year_yday_mono:
  assumes "d < e" and "year_yday d = (y, p)" and "year_yday e = (z, q)"
  shows "y < z \<or> y = z \<and> p < q"
proof -
  define a b c n where "a = (\<lambda>d::nat. d div 146097)" and "b = (\<lambda>d::nat. min 3 (d div 36524))"
    and "c = (\<lambda>d::nat. d div 1461)" and "n = (\<lambda>d::nat. min 3 (d div 365))"
  define d1 e1 where "d1 = d mod 146097" and "e1 = e mod 146097"
  define d2 e2 where "d2 = d1 - 36524 * b d1" and "e2 = e1 - 36524 * b e1"
  define d3 e3 where "d3 = d2 mod 1461" and "e3 = e2 mod 1461"
  have bound: "b x \<le> 3" "n x \<le> 3" for x by (simp_all add: b_def n_def)
  have cb: "c (x - 36524 * b x) \<le> 24" if "x < 146097" for x
  proof -
    have m: "x - 36524 * (x div 36524) < 36524" by (simp add: minus_mult_div_eq_mod)
    have "x - 36524 * b x \<le> 36524"
    proof (cases "x div 36524 \<le> 3")
      case True
      then show ?thesis using m by (simp only: b_def min_absorb2)
    next
      case False
      then have "b x = 3" by (simp add: b_def)
      then show ?thesis using that by simp
    qed
    then have "c (x - 36524 * b x) \<le> 36524 div 1461" unfolding c_def by (rule div_le_mono)
    then show ?thesis by simp
  qed
  have c: "c d2 \<le> 24" "c e2 \<le> 24" unfolding d2_def e2_def by (simp_all add: cb d1_def e1_def)
  have A: "a d < a e \<or> a d = a e \<and> d1 < e1" unfolding a_def d1_def e1_def by (rule div_mod_mono [OF assms(1)])
  have B: "b d1 < b e1 \<or> b d1 = b e1 \<and> d2 < e2" if "d1 < e1"
    unfolding b_def d2_def e2_def by (rule min_div_mono [OF that])
  have C: "c d2 < c e2 \<or> c d2 = c e2 \<and> d3 < e3" if "d2 < e2"
    unfolding c_def d3_def e3_def by (rule div_mod_mono [OF that])
  have D: "n d3 < n e3 \<or> n d3 = n e3 \<and> d3 - 365 * n d3 < e3 - 365 * n e3" if "d3 < e3"
    unfolding n_def by (rule min_div_mono [OF that])
  have v: "y = 400 * a d + 100 * b d1 + 4 * c d2 + n d3 + 1" "p = d3 - 365 * n d3"
    "z = 400 * a e + 100 * b e1 + 4 * c e2 + n e3 + 1" "q = e3 - 365 * n e3"
    using assms(2,3) unfolding year_yday_def Let_def a_def b_def c_def n_def d1_def e1_def d2_def e2_def d3_def e3_def
    by (simp_all only: prod.inject)
  show ?thesis
  proof (cases "a d < a e")
    case True
    then show ?thesis using bound [of d1] bound(2) [of d3] c(1) unfolding v by linarith
  next
    case False
    then have a: "a d = a e" "d1 < e1" using A by auto
    show ?thesis
    proof (cases "b d1 < b e1")
      case True
      then show ?thesis using bound(2) [of d3] c(1) unfolding v a(1) by linarith
    next
      case False
      then have b: "b d1 = b e1" "d2 < e2" using B [OF a(2)] by auto
      show ?thesis
      proof (cases "c d2 < c e2")
        case True
        then show ?thesis using bound(2) [of d3] unfolding v a(1) b(1) by linarith
      next
        case False
        then have c: "c d2 = c e2" "d3 < e3" using C [OF b(2)] by auto
        show ?thesis using D [OF c(2)] unfolding v a(1) b(1) c(1) by auto
      qed
    qed
  qed
qed

lemma yday_bound: "year_yday d = (y, p) \<Longrightarrow> p \<le> 365"
proof -
  assume "year_yday d = (y, p)"
  then obtain x where "p = x mod 1461 - 365 * min 3 (x mod 1461 div 365)"
    by (auto simp: year_yday_def Let_def)
  moreover have "x mod 1461 \<le> 1460" using mod_less_divisor [of 1461 x] by linarith
  moreover have "r - 365 * (r div 365) < 365" for r :: nat by (simp add: minus_mult_div_eq_mod)
  ultimately show ?thesis by (cases "x mod 1461 div 365 \<le> 3") (auto simp: min_def intro: less_imp_le order.strict_trans)
qed

lemma month_day_ge: "month_day ls m d = (i, j) \<Longrightarrow> m \<le> i"
  by (induction ls m d rule: month_day.induct) (auto split: if_splits)

lemma month_day_mono:
  "d < e \<Longrightarrow> month_day ls m d = (i, j) \<Longrightarrow> month_day ls m e = (k, l) \<Longrightarrow> i < k \<or> i = k \<and> j < l"
proof (induction ls arbitrary: m d e)
  case (Cons x ls)
  show ?case
  proof (cases "e < x")
    case True
    then show ?thesis using Cons.prems by auto
  next
    case e: False
    show ?thesis
    proof (cases "d < x")
      case True
      then show ?thesis using Cons.prems e month_day_ge [of ls "m + 1" "e - x" k l] by auto
    next
      case False
      then have "d - x < e - x" using Cons.prems(1) e by simp
      from Cons.IH [OF this] show ?thesis using Cons.prems(2,3) e False by auto
    qed
  qed
qed auto

lemma month_day_bound:
  "list_all (\<lambda>l. l \<le> 31) ls \<Longrightarrow> d < sum_list ls + 31 \<Longrightarrow> month_day ls m d = (i, j) \<Longrightarrow> i \<le> m + length ls \<and> j \<le> 31"
proof (induction ls arbitrary: m d)
  case (Cons x ls)
  show ?case
  proof (cases "d < x")
    case False
    then show ?thesis using Cons.IH [of "d - x" "m + 1"] Cons.prems by auto
  qed (use Cons.prems in auto)
qed auto

lemma fixed_eq: "m < 10 ^ w \<Longrightarrow> n < 10 ^ w \<Longrightarrow> fixed w m = fixed w n \<longleftrightarrow> m = n"
  by (metis fixed_less less_irrefl linorder_neqE_nat)

text \<open>The first second of the year 10000.\<close>

definition year10000 :: nat where
  "year10000 = 315537897600"

lemma date_of_second:
  assumes "s < year10000" and "year_yday (s div 86400) = (y, p)" and "month_day (month_lengths y) 1 p = (m, d)"
  shows "y < 10000" and "m < 100" and "d < 100"
proof -
  have "s div 86400 < 3652059" using assms(1) by (simp add: year10000_def)
  moreover have "year_yday 3652059 = (10000, 0)" by (simp add: year_yday_def)
  ultimately show "y < 10000" using year_yday_mono [OF _ assms(2)] by blast
  have "p < sum_list (month_lengths y) + 31" using yday_bound [OF assms(2)] by (simp add: month_lengths_def)
  moreover have "list_all (\<lambda>l. l \<le> 31) (month_lengths y)" by (simp add: month_lengths_def)
  ultimately have "m \<le> 1 + 12 \<and> d \<le> 31"
    using month_day_bound [OF _ _ assms(3)] by (simp add: month_lengths_def)
  then show "m < 100" "d < 100" by simp_all
qed

definition date_part :: "nat \<Rightarrow> nat \<Rightarrow> nat \<Rightarrow> string" where
  "date_part y m d = fixed 4 y @ ''-'' @ fixed 2 m @ ''-'' @ fixed 2 d"

definition day_part :: "nat \<Rightarrow> string" where
  "day_part c = ''T'' @ fixed 2 (c div 3600) @ '':'' @ fixed 2 (c mod 3600 div 60) @ '':'' @ fixed 2 (c mod 60)"

lemma date_part_less:
  assumes "y < 10000" "m < 100" "d < 100" "y' < 10000" "m' < 100" "d' < 100"
    and "y < y' \<or> y = y' \<and> (m < m' \<or> m = m' \<and> d < d')"
  shows "date_part y m d < date_part y' m' d'"
proof -
  have l: "fixed 4 y < fixed 4 y' \<longleftrightarrow> y < y'" "fixed 4 y = fixed 4 y' \<longleftrightarrow> y = y'"
    "fixed 2 m < fixed 2 m' \<longleftrightarrow> m < m'" "fixed 2 m = fixed 2 m' \<longleftrightarrow> m = m'" "fixed 2 d < fixed 2 d' \<longleftrightarrow> d < d'"
    using assms by (simp_all add: fixed_less fixed_eq)
  have "date_part y m d < date_part y' m' d' \<longleftrightarrow> y < y' \<or> y = y' \<and> (m < m' \<or> m = m' \<and> d < d')"
    unfolding date_part_def by (simp add: append_less_append l)
  with assms(7) show ?thesis by blast
qed

lemma day_part_less:
  assumes "c < c'" "c' < 86400"
  shows "day_part c < day_part c'"
proof -
  have b: "x div 3600 < 10 ^ 2" "x mod 3600 div 60 < 10 ^ 2" "x mod 60 < 10 ^ 2" if "x < 86400" for x :: nat
    using that by auto
  have c: "c < 86400" using assms by simp
  note l = fixed_less [OF b(1) [OF c] b(1) [OF assms(2)]] fixed_eq [OF b(1) [OF c] b(1) [OF assms(2)]]
    fixed_less [OF b(2) [OF c] b(2) [OF assms(2)]] fixed_eq [OF b(2) [OF c] b(2) [OF assms(2)]]
    fixed_less [OF b(3) [OF c] b(3) [OF assms(2)]]
  have "c mod 3600 mod 60 = c mod 60" "c' mod 3600 mod 60 = c' mod 60" by (simp_all add: mod_mod_cancel)
  then have "c div 3600 < c' div 3600 \<or> c div 3600 = c' div 3600 \<and>
      (c mod 3600 div 60 < c' mod 3600 div 60 \<or> c mod 3600 div 60 = c' mod 3600 div 60 \<and> c mod 60 < c' mod 60)"
    using div_mod_mono [OF assms(1), of 3600] div_mod_mono [of "c mod 3600" "c' mod 3600" 60] by metis
  moreover have "day_part c < day_part c' \<longleftrightarrow> c div 3600 < c' div 3600 \<or> c div 3600 = c' div 3600 \<and>
      (c mod 3600 div 60 < c' mod 3600 div 60 \<or> c mod 3600 div 60 = c' mod 3600 div 60 \<and> c mod 60 < c' mod 60)"
    unfolding day_part_def by (simp add: append_less_append l)
  ultimately show ?thesis by blast
qed

lemma clock_text_order:
  assumes "s < u" and "u < year10000"
  shows "clock_text s < clock_text u" and "length (clock_text s) = length (clock_text u)"
proof -
  obtain y p where y: "year_yday (s div 86400) = (y, p)" by (cases "year_yday (s div 86400)")
  obtain m d where m: "month_day (month_lengths y) 1 p = (m, d)" by (cases "month_day (month_lengths y) 1 p")
  obtain y' p' where y': "year_yday (u div 86400) = (y', p')" by (cases "year_yday (u div 86400)")
  obtain m' d' where m': "month_day (month_lengths y') 1 p' = (m', d')" by (cases "month_day (month_lengths y') 1 p'")
  have "s < year10000" using assms by simp
  note b = date_of_second [OF this y m] date_of_second [OF assms(2) y' m']
  define c c' where "c = s mod 86400" and "c' = u mod 86400"
  have c: "c < 86400" "c' < 86400" by (simp_all add: c_def c'_def)
  have date: "(y < y' \<or> y = y' \<and> (m < m' \<or> m = m' \<and> d < d')) \<or> y = y' \<and> m = m' \<and> d = d' \<and> c < c'"
  proof (cases "s div 86400 < u div 86400")
    case True
    then show ?thesis using year_yday_mono [OF True y y'] month_day_mono [OF _ m, of p' m' d'] m' by auto
  next
    case False
    then show ?thesis using div_mod_mono [OF assms(1), of 86400] y y' m m' by (auto simp: c_def c'_def)
  qed
  have cb: "x div 3600 < 100" "x mod 3600 div 60 < 100" "x mod 60 < 100" if "x < 86400" for x :: nat
    using that by auto
  have t: "clock_text s = date_part y m d @ day_part c" and t': "clock_text u = date_part y' m' d' @ day_part c'"
    using b cb [OF c(1)] cb [OF c(2)]
    by (simp_all add: clock_text_def y m y' m' c_def [symmetric] c'_def [symmetric] pad_numeral date_part_def day_part_def
        del: One_nat_def)
  have l: "length (date_part y m d) = length (date_part y' m' d')" by (simp add: date_part_def)
  show "clock_text s < clock_text u"
    using date date_part_less [OF b] day_part_less [OF _ c(2), of c]
    unfolding t t' append_less_append [OF l] by blast
  show "length (clock_text s) = length (clock_text u)" unfolding t t' by (simp add: date_part_def day_part_def)
qed

section \<open>Order of the fraction\<close>

definition digit :: "char \<Rightarrow> bool" where
  "digit c \<longleftrightarrow> CHR ''0'' \<le> c \<and> c \<le> CHR ''9''"

lemma fixed_digits: "c \<in> set (fixed w n) \<Longrightarrow> digit c"
proof (induction w n rule: fixed.induct)
  case (2 w n)
  have "digit (char_of (48 + i :: nat))" if "i < 10" for i
    using that by (simp add: digit_def less_eq_char_def)
  then show ?case using 2 by auto
qed simp

lemma frac_padded: "f < 1000000000 \<Longrightarrow> \<exists>k. fixed 9 f = frac_digits f @ replicate k (CHR ''0'')"
proof -
  assume "f < 1000000000"
  then have f: "pad 9 f = fixed 9 f" by (simp add: pad_numeral)
  let ?z = "takeWhile ((=) (CHR ''0'')) (rev (fixed 9 f))"
  have "rev ?z = replicate (length ?z) (CHR ''0'')"
    by (intro replicate_eqI) (auto dest: set_takeWhileD)
  moreover have "fixed 9 f = frac_digits f @ rev ?z"
    unfolding frac_digits_def f by (metis rev_append rev_rev_ident takeWhile_dropWhile_id)
  ultimately show ?thesis by metis
qed

lemma zeros_least: "length s = k \<Longrightarrow> \<forall>c\<in>set s. digit c \<Longrightarrow> replicate k (CHR ''0'') \<le> s"
proof (induction s arbitrary: k)
  case (Cons c s)
  then show ?case by (cases k) (auto simp: digit_def)
qed simp

lemma nonprefix_less:
  fixes a b x y :: string
  assumes "\<not> prefix a b" and "\<not> prefix b a"
  shows "a @ x < b @ y \<longleftrightarrow> a < b"
  using assms
proof (induction a arbitrary: b)
  case (Cons c a)
  then show ?case by (cases b) auto
qed simp

lemma append_cancel_less: "a @ x < a @ y \<longleftrightarrow> x < (y :: string)"
  by (induction a) auto

lemma frac_tail_order:
  assumes "m < n" and "n < 1000000000"
  defines "tail \<equiv> \<lambda>f. frac_text f @ ''Z''"
  shows "tail m < tail n \<longleftrightarrow> \<not> prefix (frac_digits m) (frac_digits n)" and "tail m \<noteq> tail n"
proof -
  let ?a = "frac_digits m" and ?b = "frac_digits n"
  obtain i where a: "fixed 9 m = ?a @ replicate i (CHR ''0'')" using frac_padded [of m] assms by auto
  obtain j where b: "fixed 9 n = ?b @ replicate j (CHR ''0'')" using frac_padded [of n] assms by auto
  have less: "fixed 9 m < fixed 9 n" using assms by (simp add: fixed_less)
  have dig: "\<forall>c\<in>set ?a. digit c" "\<forall>c\<in>set ?b. digit c"
    using fixed_digits [of _ 9 m] fixed_digits [of _ 9 n] unfolding a b by auto
  have len: "length ?a + i = 9" "length ?b + j = 9"
    using arg_cong [OF a, of length] arg_cong [OF b, of length] by simp_all
  have nb: "?b \<noteq> []" using less zeros_least [of "fixed 9 m" 9] fixed_digits [of _ 9 m] b len(2) by (auto simp: not_less [symmetric])
  have "(tail m < tail n \<longleftrightarrow> \<not> prefix ?a ?b) \<and> tail m \<noteq> tail n"
  proof (cases "prefix ?a ?b")
    case True
    then obtain z where z: "?b = ?a @ z" by (auto simp: prefix_def)
    have "z \<noteq> []"
    proof
      assume "z = []"
      with z len have "fixed 9 m = fixed 9 n" unfolding a b by simp
      with less show False by simp
    qed
    then obtain c z' where c: "z = c # z'" by (cases z) auto
    then have "c < CHR ''Z''" using dig(2) z by (auto simp: digit_def less_eq_char_def less_char_def)
    then have "tail n < tail m"
      unfolding tail_def frac_text_def using nb z c by (auto simp: append_cancel_less)
    then show ?thesis using True by auto
  next
    case False
    have "\<not> prefix ?b ?a"
    proof
      assume "prefix ?b ?a"
      then obtain z where z: "?a = ?b @ z" by (auto simp: prefix_def)
      have "length (z @ replicate i (CHR ''0'')) = j" using len z by simp
      moreover have "\<forall>c\<in>set (z @ replicate i (CHR ''0'')). digit c" using dig z by (auto simp: digit_def)
      ultimately have "replicate j (CHR ''0'') \<le> z @ replicate i (CHR ''0'')" by (rule zeros_least)
      then have "\<not> fixed 9 m < fixed 9 n" unfolding a b z by (simp add: append_cancel_less not_less)
      with less show False by simp
    qed
    note np = False this
    have "?a < ?b" using less unfolding a b nonprefix_less [OF np] .
    moreover have "?a \<noteq> []" using False by auto
    ultimately have "tail m < tail n"
      unfolding tail_def frac_text_def using nb nonprefix_less [OF np] by simp
    then show ?thesis using False by auto
  qed
  then show "tail m < tail n \<longleftrightarrow> \<not> prefix ?a ?b" "tail m \<noteq> tail n" by auto
qed

section \<open>Order of the texts\<close>

text \<open>The instants whose text has a four-digit year.\<close>

definition storable :: "time \<Rightarrow> bool" where
  "storable t \<longleftrightarrow> 0 \<le> t \<and> t < 315537897600 * 1000000000"

lemma timeParam_less:
  assumes "storable t" and "storable u" and "t < u"
  shows "timeParam t < timeParam u \<longleftrightarrow>
    t div 1000000000 < u div 1000000000 \<or>
    \<not> prefix (frac_digits (nat t mod 1000000000)) (frac_digits (nat u mod 1000000000))"
    and "timeParam t \<noteq> timeParam u"
proof -
  let ?s = "\<lambda>t. nat t div 1000000000" and ?f = "\<lambda>t. nat t mod 1000000000"
  have "nat t < nat u" using assms by (auto simp: storable_def)
  from div_mod_mono [OF this, of 1000000000]
  have cmp: "?s t < ?s u \<or> ?s t = ?s u \<and> ?f t < ?f u" .
  have sec: "t div 1000000000 < u div 1000000000 \<longleftrightarrow> ?s t < ?s u"
  proof -
    have "nat t div 1000000000 = nat (t div 1000000000)" "nat u div 1000000000 = nat (u div 1000000000)"
      using assms by (simp_all add: storable_def nat_div_distrib)
    moreover have "0 \<le> t div 1000000000" using assms by (simp add: storable_def)
    ultimately show ?thesis by (auto intro: le_less_trans)
  qed
  have u: "?s u < year10000" using assms(2) by (auto simp: storable_def year10000_def)
  have "(timeParam t < timeParam u \<longleftrightarrow> ?s t < ?s u \<or> \<not> prefix (frac_digits (?f t)) (frac_digits (?f u))) \<and>
    timeParam t \<noteq> timeParam u"
  proof (cases "?s t < ?s u")
    case True
    note o = clock_text_order [OF True u]
    show ?thesis using True o(1) unfolding timeParam_def append_less_append [OF o(2)] append_eq_append_conv [OF disjI1 [OF o(2)]]
      by auto
  next
    case False
    then have "?s t = ?s u" "?f t < ?f u" using cmp by auto
    then show ?thesis using False frac_tail_order [of "?f t" "?f u"]
      unfolding timeParam_def by (simp add: append_cancel_less)
  qed
  then show "timeParam t < timeParam u \<longleftrightarrow> t div 1000000000 < u div 1000000000 \<or>
      \<not> prefix (frac_digits (?f t)) (frac_digits (?f u))" "timeParam t \<noteq> timeParam u"
    unfolding sec by auto
qed

lemma timeParam_inj [simp]: "storable t \<Longrightarrow> storable u \<Longrightarrow> timeParam t = timeParam u \<longleftrightarrow> t = u"
  using timeParam_less(2) [of t u] timeParam_less(2) [of u t] by (metis linorder_neqE_linordered_idom)

lemma timeParam_second_less:
  assumes "storable t" and "storable u" and "t div 1000000000 < u div 1000000000"
  shows "timeParam t < timeParam u"
proof -
  have "t < u" using assms(3) by (meson not_less zdiv_mono1 zero_less_numeral)
  with timeParam_less(1) assms show ?thesis by blast
qed

lemma timeParam_le_second: "storable t \<Longrightarrow> storable u \<Longrightarrow> timeParam t \<le> timeParam u \<Longrightarrow>
    t div 1000000000 \<le> u div 1000000000"
  using timeParam_second_less [of u t] by (meson leD leI)

section \<open>Properties\<close>

text \<open>
  C34. Where the database's order of stored instants is the order of time: instants of different
  seconds compare right, so a comparison is wrong by less than a second; within a second the
  earlier instant is sorted after the later one exactly when its fraction without trailing zeros is
  a prefix of the other's, so an instant at a full second comes after the whole rest of its second.
  Equality of texts is equality of instants.
\<close>

theorem stored_time_order:
  assumes "storable t" and "storable u"
  shows "(timeParam t = timeParam u \<longleftrightarrow> t = u) \<and>
    (timeParam t \<le> timeParam u \<longrightarrow> t < u + 1000000000) \<and>
    (t + 1000000000 \<le> u \<longrightarrow> timeParam t < timeParam u) \<and>
    (t < u \<longrightarrow> (timeParam u < timeParam t \<longleftrightarrow> t div 1000000000 = u div 1000000000 \<and>
       prefix (frac_digits (nat t mod 1000000000)) (frac_digits (nat u mod 1000000000))))"
proof (intro conjI impI)
  show "timeParam t = timeParam u \<longleftrightarrow> t = u" using assms by simp
next
  assume "timeParam t \<le> timeParam u"
  then have "t div 1000000000 \<le> u div 1000000000" by (rule timeParam_le_second [OF assms])
  then show "t < u + 1000000000"
    using div_mult_mod_eq [of t 1000000000] div_mult_mod_eq [of u 1000000000]
      pos_mod_bound [of 1000000000 t] pos_mod_sign [of 1000000000 u] by linarith
next
  assume "t + 1000000000 \<le> u"
  then have "t div 1000000000 < u div 1000000000" by linarith
  then show "timeParam t < timeParam u" by (rule timeParam_second_less [OF assms])
next
  assume l: "t < u"
  have "t div 1000000000 \<le> u div 1000000000" using l by (simp add: zdiv_mono1)
  then show "timeParam u < timeParam t \<longleftrightarrow> t div 1000000000 = u div 1000000000 \<and>
       prefix (frac_digits (nat t mod 1000000000)) (frac_digits (nat u mod 1000000000))"
    using timeParam_less [OF assms l] by (auto simp: not_less less_le)
qed

theorem stored_time_order_witness:
  "timeParam (63861782400 * 1000000000 + 500000000) < timeParam (63861782400 * 1000000000)"
  using stored_time_order [of "63861782400 * 1000000000" "63861782400 * 1000000000 + 500000000"]
  by (simp add: storable_def frac_digits_def pad_numeral fixed_numeral digit_chars)

end
