(* ===== verification/Leases.thy ===== *)
theory Leases
  imports SqlStore Work SqlTime
begin

text \<open>
  Runners and their leases on runs: \<^verbatim>\<open>internal/persistence/sqlstore/runners.go\<close>. A column that is
  NULL is the empty string or None. Foreign keys are checked for runs and runners; hosts and
  capability snapshots are not modelled.
\<close>

section \<open>Tables\<close>

record Runner =
  ru_ID :: string
  ru_WorkspaceID :: string
  ru_ExecutionHostID :: string
  ru_ConnectionEpoch :: string
  ru_BootID :: string
  ru_Label :: string
  ru_RunnerVersion :: string
  ru_OS :: string
  ru_Arch :: string
  ru_Slots :: int
  ru_Status :: string
  ru_LastSeenAt :: "time option"

record RunLease =
  ls_LeaseID :: string
  ls_RunID :: string
  ls_RunnerID :: string
  ls_FencingToken :: int
  ls_RenewedUntil :: time
  ls_Released :: bool

record LeaseRow =
  lr_LeaseID :: string
  lr_RunID :: string
  lr_RunnerID :: string
  lr_FencingToken :: int
  lr_AcquiredAt :: time
  lr_RenewedUntil :: time
  lr_ReleasedAt :: "time option"

record LeaseDb = Conn +
  db_runs :: "ExecutionRun list"
  db_runners :: "Runner list"
  db_leases :: "LeaseRow list"
  db_dedup :: "(string \<times> string \<times> string \<times> int) list"

definition lease_of :: "LeaseRow \<Rightarrow> RunLease" where
  "lease_of l = \<lparr>ls_LeaseID = lr_LeaseID l, ls_RunID = lr_RunID l, ls_RunnerID = lr_RunnerID l,
     ls_FencingToken = lr_FencingToken l, ls_RenewedUntil = lr_RenewedUntil l,
     ls_Released = (lr_ReleasedAt l \<noteq> None)\<rparr>"

definition run_status :: "'a LeaseDb_scheme \<Rightarrow> string \<Rightarrow> RunStatus option" where
  "run_status db i = map_option rn_Status (List.find (\<lambda>r. rn_ID r = i) (db_runs db))"

definition terminal_run :: "'a LeaseDb_scheme \<Rightarrow> string \<Rightarrow> bool" where
  "terminal_run db i = (case run_status db i of None \<Rightarrow> False | Some s \<Rightarrow> RunStatus_IsTerminal s)"

section \<open>Runners\<close>

definition RunnerRepo_Upsert :: "Runner \<Rightarrow> 'a LeaseDb_scheme \<Rightarrow> (go_error + unit) \<times> 'a LeaseDb_scheme" where
  "RunnerRepo_Upsert rn = exec_stmt (\<lambda>t db.
     (case List.find (\<lambda>r. ru_ID r = ru_ID rn) (db_runners db) of
        None \<Rightarrow> (Inr (), db\<lparr>db_runners := db_runners db @ [rn\<lparr>ru_WorkspaceID := ''''\<rparr>]\<rparr>)
      | Some old \<Rightarrow>
          if ru_ExecutionHostID old = '''' \<or> ru_ExecutionHostID old = ru_ExecutionHostID rn
          then (Inr (), db\<lparr>db_runners := map (\<lambda>r. if ru_ID r = ru_ID rn
                  then rn\<lparr>ru_WorkspaceID := '''', ru_Label := ru_Label r\<rparr> else r) (db_runners db)\<rparr>)
          else (Inl (ErrStateConflict ''''), db)))"

definition RunnerRepo_Get :: "string \<Rightarrow> 'a LeaseDb_scheme \<Rightarrow> (go_error + Runner) \<times> 'a LeaseDb_scheme" where
  "RunnerRepo_Get i = query_stmt (\<lambda>t db.
     (case List.find (\<lambda>r. ru_ID r = i) (db_runners db) of None \<Rightarrow> Inl ErrNotFound | Some r \<Rightarrow> Inr r))"

definition RunnerRepo_SetStatus :: "string \<Rightarrow> string \<Rightarrow> time \<Rightarrow> 'a LeaseDb_scheme \<Rightarrow> (go_error + unit) \<times> 'a LeaseDb_scheme"
where
  "RunnerRepo_SetStatus i status at = exec_stmt (\<lambda>t db.
     (Inr (), db\<lparr>db_runners := map (\<lambda>r. if ru_ID r = i
        then r\<lparr>ru_Status := status, ru_LastSeenAt := Some at\<rparr> else r) (db_runners db)\<rparr>))"

section \<open>Leases\<close>

definition max_token :: "LeaseRow list \<Rightarrow> string \<Rightarrow> int" where
  "max_token rows runID = fold (\<lambda>l m. if lr_RunID l = runID then max (lr_FencingToken l) m else m) rows 0"

text \<open>
  \<^verbatim>\<open>CreateLease\<close>: the insert, in a transaction. The new lease carries its fencing token.
\<close>

definition insert_lease :: "RunLease \<Rightarrow> time \<Rightarrow> 'a LeaseDb_scheme \<Rightarrow> (go_error + RunLease) \<times> 'a LeaseDb_scheme" where
  "insert_lease l t db =
     (if list_ex (\<lambda>r. lr_LeaseID r = ls_LeaseID l) (db_leases db) then (Inl ErrIdempotencyConflict, db)
      else if \<not> list_ex (\<lambda>r. rn_ID r = ls_RunID l) (db_runs db) \<or>
              \<not> list_ex (\<lambda>r. ru_ID r = ls_RunnerID l) (db_runners db)
        then (Inl (ErrOther ''FOREIGN KEY constraint failed''), db)
      else let token = max_token (db_leases db) (ls_RunID l) + 1
           in (Inr (l\<lparr>ls_FencingToken := token\<rparr>),
               db\<lparr>db_leases := db_leases db @
                 [\<lparr>lr_LeaseID = ls_LeaseID l, lr_RunID = ls_RunID l, lr_RunnerID = ls_RunnerID l,
                   lr_FencingToken = token, lr_AcquiredAt = t, lr_RenewedUntil = ls_RenewedUntil l,
                   lr_ReleasedAt = None\<rparr>]\<rparr>))"

definition RunnerRepo_CreateLease :: "RunLease \<Rightarrow> 'a LeaseDb_scheme \<Rightarrow> (go_error + RunLease) \<times> 'a LeaseDb_scheme" where
  "RunnerRepo_CreateLease l = InTx (exec_stmt (insert_lease l))"

definition RunnerRepo_ActiveLease :: "string \<Rightarrow> 'a LeaseDb_scheme \<Rightarrow> (go_error + RunLease) \<times> 'a LeaseDb_scheme" where
  "RunnerRepo_ActiveLease runID = query_stmt (\<lambda>t db.
     (case sort_key (\<lambda>l. - lr_FencingToken l) (filter (\<lambda>l. lr_RunID l = runID) (db_leases db)) of
        [] \<Rightarrow> Inl ErrNotFound
      | l # _ \<Rightarrow> Inr (lease_of l)))"

definition RunnerRepo_GetLease :: "string \<Rightarrow> 'a LeaseDb_scheme \<Rightarrow> (go_error + RunLease) \<times> 'a LeaseDb_scheme" where
  "RunnerRepo_GetLease i = query_stmt (\<lambda>t db.
     (case List.find (\<lambda>l. lr_LeaseID l = i) (db_leases db) of None \<Rightarrow> Inl ErrNotFound | Some l \<Rightarrow> Inr (lease_of l)))"

definition active_max_token :: "LeaseRow list \<Rightarrow> string \<Rightarrow> int" where
  "active_max_token rows runID = max_token (filter (\<lambda>l. lr_ReleasedAt l = None) rows) runID"

definition RunnerRepo_ListActiveLeasesByRunner ::
  "string \<Rightarrow> 'a LeaseDb_scheme \<Rightarrow> (go_error + RunLease list) \<times> 'a LeaseDb_scheme" where
  "RunnerRepo_ListActiveLeasesByRunner runnerID = query_stmt (\<lambda>t db. Inr
     (map lease_of (sort_key lr_RunID (filter (\<lambda>l. lr_RunnerID l = runnerID \<and> lr_ReleasedAt l = None \<and>
        lr_FencingToken l = active_max_token (db_leases db) (lr_RunID l) \<and>
        (case run_status db (lr_RunID l) of None \<Rightarrow> False | Some s \<Rightarrow> \<not> RunStatus_IsTerminal s))
      (db_leases db)))))"

definition release_where :: "(LeaseRow \<Rightarrow> bool) \<Rightarrow> time \<Rightarrow> 'a LeaseDb_scheme \<Rightarrow> 'a LeaseDb_scheme" where
  "release_where P at db = db\<lparr>db_leases := map (\<lambda>l. if P l then l\<lparr>lr_ReleasedAt := Some at\<rparr> else l) (db_leases db)\<rparr>"

definition RunnerRepo_ReleaseLease :: "string \<Rightarrow> time \<Rightarrow> 'a LeaseDb_scheme \<Rightarrow> (go_error + unit) \<times> 'a LeaseDb_scheme" where
  "RunnerRepo_ReleaseLease i at = exec_stmt (\<lambda>t db. (Inr (), release_where (\<lambda>l. lr_LeaseID l = i) at db))"

definition RunnerRepo_ReleaseActiveLeasesByRunner ::
  "string \<Rightarrow> time \<Rightarrow> 'a LeaseDb_scheme \<Rightarrow> (go_error + string list) \<times> 'a LeaseDb_scheme" where
  "RunnerRepo_ReleaseActiveLeasesByRunner runnerID at db =
     (let P = (\<lambda>l. lr_RunnerID l = runnerID \<and> lr_ReleasedAt l = None)
      in case query_stmt (\<lambda>t db. Inr (sort (remdups (map lr_RunID (filter P (db_leases db)))))) db of
           (Inl e, db1) \<Rightarrow> (Inl e, db1)
         | (Inr runIDs, db1) \<Rightarrow>
             (case exec_stmt (\<lambda>t db. (Inr (), release_where P at db)) db1 of
                (Inl e, db2) \<Rightarrow> (Inl e, db2)
              | (Inr _, db2) \<Rightarrow> (Inr runIDs, db2)))"

definition RunnerRepo_ExpireLeases :: "time \<Rightarrow> 'a LeaseDb_scheme \<Rightarrow> (go_error + string list) \<times> 'a LeaseDb_scheme" where
  "RunnerRepo_ExpireLeases now db =
     (let P = (\<lambda>l. lr_ReleasedAt l = None \<and> timeParam (lr_RenewedUntil l) < timeParam now)
      in case query_stmt (\<lambda>t db. Inr (map lr_RunID (filter P (db_leases db)))) db of
           (Inl e, db1) \<Rightarrow> (Inl e, db1)
         | (Inr runIDs, db1) \<Rightarrow>
             if runIDs = [] then (Inr [], db1)
             else (case exec_stmt (\<lambda>t db. (Inr (), release_where P now db)) db1 of
                     (Inl e, db2) \<Rightarrow> (Inl e, db2)
                   | (Inr _, db2) \<Rightarrow> (Inr runIDs, db2)))"

definition RunnerRepo_RenewLeasesByRunner ::
  "string \<Rightarrow> time \<Rightarrow> 'a LeaseDb_scheme \<Rightarrow> (go_error + int) \<times> 'a LeaseDb_scheme" where
  "RunnerRepo_RenewLeasesByRunner runnerID renewUntil db =
     (case exec_stmt (\<lambda>t db. (Inr (), release_where (\<lambda>l. lr_RunnerID l = runnerID \<and> lr_ReleasedAt l = None \<and>
             terminal_run db (lr_RunID l)) t db)) db of
        (Inl e, db1) \<Rightarrow> (Inl e, db1)
      | (Inr _, db1) \<Rightarrow>
          exec_stmt (\<lambda>t db.
            (let P = (\<lambda>l. lr_RunnerID l = runnerID \<and> lr_ReleasedAt l = None \<and>
                   (case run_status db (lr_RunID l) of None \<Rightarrow> False | Some s \<Rightarrow> \<not> RunStatus_IsTerminal s))
             in (Inr (int (length (filter P (db_leases db)))),
                 db\<lparr>db_leases := map (\<lambda>l. if P l then l\<lparr>lr_RenewedUntil := renewUntil\<rparr> else l) (db_leases db)\<rparr>))) db1)"

definition RunnerRepo_RenewLeasesByRunnerIfEpoch ::
  "string \<Rightarrow> string \<Rightarrow> string \<Rightarrow> time \<Rightarrow> 'a LeaseDb_scheme \<Rightarrow> (go_error + int) \<times> 'a LeaseDb_scheme" where
  "RunnerRepo_RenewLeasesByRunnerIfEpoch runnerID epoch bootID renewUntil db =
     (case query_stmt (\<lambda>t db. (case List.find (\<lambda>r. ru_ID r = runnerID) (db_runners db) of
             None \<Rightarrow> Inl ErrNotFound | Some r \<Rightarrow> Inr (ru_ConnectionEpoch r, ru_BootID r))) db of
        (Inl e, db1) \<Rightarrow> (Inl e, db1)
      | (Inr (currentEpoch, currentBoot), db1) \<Rightarrow>
          if currentEpoch = '''' \<or> currentBoot = '''' \<or> currentEpoch \<noteq> epoch \<or> currentBoot \<noteq> bootID
          then (Inr 0, db1)
          else RunnerRepo_RenewLeasesByRunner runnerID renewUntil db1)"

definition RunnerRepo_RunnerEventDedupV2 ::
  "string \<Rightarrow> string \<Rightarrow> string \<Rightarrow> int \<Rightarrow> 'a LeaseDb_scheme \<Rightarrow> (go_error + unit) \<times> 'a LeaseDb_scheme" where
  "RunnerRepo_RunnerEventDedupV2 runID leaseID runnerID producerSeq = exec_stmt (\<lambda>t db.
     if (runID, leaseID, runnerID, producerSeq) \<in> set (db_dedup db) then (Inl ErrIdempotencyConflict, db)
     else (Inr (), db\<lparr>db_dedup := db_dedup db @ [(runID, leaseID, runnerID, producerSeq)]\<rparr>))"

section \<open>How the lease table evolves\<close>

text \<open>
  Along the table the tokens of a run increase and the lease ids are distinct; a row keeps its
  identity and stays released once released; rows are only appended.
\<close>

definition before :: "LeaseRow \<Rightarrow> LeaseRow \<Rightarrow> bool" where
  "before a b \<longleftrightarrow> lr_LeaseID a \<noteq> lr_LeaseID b \<and> (lr_RunID a = lr_RunID b \<longrightarrow> lr_FencingToken a < lr_FencingToken b)"

definition fenced :: "LeaseRow list \<Rightarrow> bool" where
  "fenced rows \<longleftrightarrow> sorted_wrt before rows \<and> (\<forall>l\<in>set rows. 1 \<le> lr_FencingToken l)"

definition row_le :: "LeaseRow \<Rightarrow> LeaseRow \<Rightarrow> bool" where
  "row_le a b \<longleftrightarrow> lr_LeaseID a = lr_LeaseID b \<and> lr_RunID a = lr_RunID b \<and> lr_RunnerID a = lr_RunnerID b \<and>
     lr_FencingToken a = lr_FencingToken b \<and> (lr_ReleasedAt a \<noteq> None \<longrightarrow> lr_ReleasedAt b \<noteq> None)"

definition table_le :: "LeaseRow list \<Rightarrow> LeaseRow list \<Rightarrow> bool" where
  "table_le old new \<longleftrightarrow> (\<exists>extra. \<exists>kept. new = kept @ extra \<and> list_all2 row_le old kept)"

lemma row_le_refl [simp]: "row_le a a"
  by (simp add: row_le_def)

lemma row_le_trans: "row_le a b \<Longrightarrow> row_le b c \<Longrightarrow> row_le a c"
  by (auto simp: row_le_def)

lemma table_le_refl [simp]: "table_le rows rows"
  unfolding table_le_def by (intro exI [of _ "[]"] exI [of _ rows]) (simp add: list.rel_refl)

lemma table_le_map: "(\<And>l. row_le l (f l)) \<Longrightarrow> table_le rows (map f rows)"
  unfolding table_le_def
  by (intro exI [of _ "[]"] exI [of _ "map f rows"]) (simp add: list_all2_conv_all_nth)

lemma table_le_snoc: "table_le rows (rows @ extra)"
  unfolding table_le_def by (intro exI [of _ extra] exI [of _ rows]) (simp add: list.rel_refl)

lemma table_le_trans:
  assumes "table_le a b" and "table_le b c"
  shows "table_le a c"
proof -
  obtain extra kept where b: "b = kept @ extra" "list_all2 row_le a kept" using assms(1) unfolding table_le_def by blast
  obtain more2 kept2 where c: "c = kept2 @ more2" "list_all2 row_le b kept2"
    using assms(2) unfolding table_le_def by blast
  from c(2) obtain k1 k2 where k: "kept2 = k1 @ k2" "list_all2 row_le kept k1"
    unfolding b(1) list_all2_append1 by blast
  have "list_all2 row_le a k1" using b(2) k(2) by (rule list_all2_trans [rotated]) (rule row_le_trans)
  then show ?thesis unfolding table_le_def c(1) k(1) by (intro exI [of _ "k2 @ more2"] exI [of _ k1]) simp
qed

lemma table_le_in: "table_le a b \<Longrightarrow> l \<in> set a \<Longrightarrow> \<exists>l'\<in>set b. row_le l l'"
proof -
  assume "table_le a b" and l: "l \<in> set a"
  then obtain extra kept where b: "b = kept @ extra" "list_all2 row_le a kept" unfolding table_le_def by blast
  from l obtain i where i: "i < length a" "a ! i = l" by (auto simp: in_set_conv_nth)
  with b(2) have "row_le l (kept ! i)" "i < length kept" by (auto simp: list_all2_conv_all_nth)
  then show ?thesis unfolding b(1) by (intro bexI [of _ "kept ! i"]) simp_all
qed

lemma fenced_map:
  assumes "\<And>l. row_le l (f l)"
  shows "fenced rows \<Longrightarrow> fenced (map f rows)"
proof -
  have eq: "before (f a) (f b) = before a b" "lr_FencingToken (f a) = lr_FencingToken a" for a b
    using assms by (auto simp: row_le_def before_def)
  show "fenced rows \<Longrightarrow> fenced (map f rows)" by (simp add: fenced_def sorted_wrt_map eq)
qed

lemma max_token_snoc:
  "max_token (rows @ [l]) r = (if lr_RunID l = r then max (lr_FencingToken l) (max_token rows r) else max_token rows r)"
  by (simp add: max_token_def)

lemma max_token_bounds: "0 \<le> max_token rows r \<and> (\<forall>l\<in>set rows. lr_RunID l = r \<longrightarrow> lr_FencingToken l \<le> max_token rows r)"
proof (induction rows rule: rev_induct)
  case Nil
  then show ?case by (simp add: max_token_def)
next
  case (snoc l rows)
  then show ?case by (auto simp: max_token_snoc max_def)
qed

lemma fenced_snoc:
  assumes "fenced rows" and "lr_LeaseID l \<notin> lr_LeaseID ` set rows"
    and "lr_FencingToken l = max_token rows (lr_RunID l) + 1"
  shows "fenced (rows @ [l])"
proof -
  note b = max_token_bounds [of rows "lr_RunID l"]
  have "before x l" if "x \<in> set rows" for x 
  proof -
    have "lr_LeaseID x \<in> lr_LeaseID ` set rows" using that by (rule imageI)
    with assms(2) have "lr_LeaseID x \<noteq> lr_LeaseID l" by metis
    moreover have "lr_FencingToken x < lr_FencingToken l" if "lr_RunID x = lr_RunID l"
      using b assms(3) that \<open>x \<in> set rows\<close> by auto
    ultimately show ?thesis by (simp add: before_def)
  qed
  then show ?thesis using assms(1,3) b by (simp add: fenced_def sorted_wrt_append)
qed

section \<open>The repository keeps it so\<close>

text \<open>Any of the calls on leases and runners; other code may change the runs at any time.\<close>

datatype lease_op = OpCreate RunLease | OpRelease string time | OpReleaseByRunner string time | OpExpire time
  | OpRenew string time | OpRenewIfEpoch string string string time | OpUpsert Runner
  | OpSetStatus string string time | OpDedup string string string int | OpRuns "ExecutionRun list"

fun lease_apply :: "LeaseDb \<Rightarrow> lease_op \<Rightarrow> LeaseDb" where
  "lease_apply db (OpCreate l) = snd (RunnerRepo_CreateLease l db)"
| "lease_apply db (OpRelease i t) = snd (RunnerRepo_ReleaseLease i t db)"
| "lease_apply db (OpReleaseByRunner r t) = snd (RunnerRepo_ReleaseActiveLeasesByRunner r t db)"
| "lease_apply db (OpExpire t) = snd (RunnerRepo_ExpireLeases t db)"
| "lease_apply db (OpRenew r t) = snd (RunnerRepo_RenewLeasesByRunner r t db)"
| "lease_apply db (OpRenewIfEpoch r e b t) = snd (RunnerRepo_RenewLeasesByRunnerIfEpoch r e b t db)"
| "lease_apply db (OpUpsert r) = snd (RunnerRepo_Upsert r db)"
| "lease_apply db (OpSetStatus r s t) = snd (RunnerRepo_SetStatus r s t db)"
| "lease_apply db (OpDedup a b c n) = snd (RunnerRepo_RunnerEventDedupV2 a b c n db)"
| "lease_apply db (OpRuns rs) = db\<lparr>db_runs := rs\<rparr>"

definition keeps ::
  "(LeaseRow list \<Rightarrow> bool) \<Rightarrow> (LeaseRow list \<Rightarrow> LeaseRow list \<Rightarrow> bool) \<Rightarrow>
   ('a LeaseDb_scheme \<Rightarrow> 'r \<times> 'a LeaseDb_scheme) \<Rightarrow> bool" where
  "keeps I R f \<longleftrightarrow> (\<forall>db. I (db_leases db) \<longrightarrow> I (db_leases (snd (f db))) \<and> R (db_leases db) (db_leases (snd (f db))))"

lemma keepsI: "(\<And>db. I (db_leases db) \<Longrightarrow> I (db_leases (snd (f db))) \<and> R (db_leases db) (db_leases (snd (f db))))
    \<Longrightarrow> keeps I R f"
  by (simp add: keeps_def)

lemma keepsD: "keeps I R f \<Longrightarrow> I (db_leases db) \<Longrightarrow>
    I (db_leases (snd (f db))) \<and> R (db_leases db) (db_leases (snd (f db)))"
  by (simp add: keeps_def)

lemma keeps_exec:
  assumes "\<And>t db. I (db_leases db) \<Longrightarrow> I (db_leases (snd (f t db))) \<and> R (db_leases db) (db_leases (snd (f t db)))"
    and "\<And>x. R x x"
  shows "keeps I R (exec_stmt f)"
proof (rule keepsI)
  fix db :: "'a LeaseDb_scheme"
  assume "I (db_leases db)"
  then show "I (db_leases (snd (exec_stmt f db))) \<and> R (db_leases db) (db_leases (snd (exec_stmt f db)))"
    using assms(1) [of "db\<lparr>cn_step := Suc (cn_step db)\<rparr>"] assms(2)
    by (cases "cn_env db (cn_step db)") (simp add: exec_stmt_def Let_def)
qed

text \<open>An invariant of the lease table with a preorder between its states: sequencing keeps both.\<close>

locale lease_frame =
  fixes I :: "LeaseRow list \<Rightarrow> bool" and R :: "LeaseRow list \<Rightarrow> LeaseRow list \<Rightarrow> bool"
  assumes R_refl: "R x x" and R_trans: "R x y \<Longrightarrow> R y z \<Longrightarrow> R x z"
begin

lemma keeps_query: "keeps I R (query_stmt f)"
  unfolding query_stmt_def by (rule keeps_exec) (simp_all add: R_refl)

lemma keeps_return: "keeps I R (\<lambda>db. (x, db))"
  by (rule keepsI) (simp add: R_refl)

lemma keeps_bind:
  assumes "keeps I R f" and "\<And>x. keeps I R (g x)"
  shows "keeps I R (\<lambda>db. case f db of (Inl e, db1) \<Rightarrow> (Inl e, db1) | (Inr x, db1) \<Rightarrow> g x db1)"
proof (rule keepsI)
  fix db :: "'a LeaseDb_scheme"
  assume ok: "I (db_leases db)"
  obtain r db1 where f: "f db = (r, db1)" by (cases "f db")
  have 1: "I (db_leases db1)" "R (db_leases db) (db_leases db1)"
    using keepsD [OF assms(1) ok] f by simp_all
  show "I (db_leases (snd (case f db of (Inl e, db1) \<Rightarrow> (Inl e, db1) | (Inr x, db1) \<Rightarrow> g x db1))) \<and>
    R (db_leases db) (db_leases (snd (case f db of (Inl e, db1) \<Rightarrow> (Inl e, db1) | (Inr x, db1) \<Rightarrow> g x db1)))"
    using 1 keepsD [OF assms(2) 1(1)] R_trans [OF 1(2)] by (cases r) (auto simp: f)
qed

lemma keeps_InTx:
  assumes "keeps I R f"
  shows "keeps I R (InTx f)"
proof (rule keepsI)
  fix db :: "'a LeaseDb_scheme"
  assume ok: "I (db_leases db)"
  obtain r db' where e: "InTx f db = (r, db')" by (cases "InTx f db")
  then show "I (db_leases (snd (InTx f db))) \<and> R (db_leases db) (db_leases (snd (InTx f db)))"
  proof (cases rule: InTx_cases)
    case 1
    then show ?thesis using ok e by (simp add: R_refl)
  next
    case (2 x db2 n)
    then show ?thesis using keepsD [OF assms, of "db\<lparr>cn_step := Suc (cn_step db)\<rparr>"] ok e by simp
  qed
qed

end

interpretation fencing: lease_frame fenced table_le
  by unfold_locales (auto intro: table_le_trans)

lemma grows_release: "(\<And>t. keeps fenced table_le (exec_stmt (\<lambda>t' db. (Inr (), release_where (P t' db) (at t') db))))"
  unfolding release_where_def by (rule keeps_exec) (auto intro!: fenced_map table_le_map simp: row_le_def)

lemma grows_create: "keeps fenced table_le (RunnerRepo_CreateLease l)"
  unfolding RunnerRepo_CreateLease_def
  by (intro fencing.keeps_InTx keeps_exec)
    (auto simp: insert_lease_def Let_def table_le_snoc list_ex_iff intro!: fenced_snoc)

lemma grows_ops:
  "keeps fenced table_le (RunnerRepo_ReleaseLease i at)" "keeps fenced table_le (RunnerRepo_ReleaseActiveLeasesByRunner r at)"
  "keeps fenced table_le (RunnerRepo_ExpireLeases at)" "keeps fenced table_le (RunnerRepo_RenewLeasesByRunner r u)"
  "keeps fenced table_le (RunnerRepo_Upsert rn)" "keeps fenced table_le (RunnerRepo_SetStatus i s at)" "keeps fenced table_le (RunnerRepo_RunnerEventDedupV2 a b c n)"
proof -
  show "keeps fenced table_le (RunnerRepo_ReleaseLease i at)" unfolding RunnerRepo_ReleaseLease_def by (rule grows_release)
  show "keeps fenced table_le (RunnerRepo_ReleaseActiveLeasesByRunner r at)"
    unfolding RunnerRepo_ReleaseActiveLeasesByRunner_def Let_def
    by (rule fencing.keeps_bind [OF fencing.keeps_query]) (rule fencing.keeps_bind [OF grows_release], rule fencing.keeps_return)
  show "keeps fenced table_le (RunnerRepo_SetStatus i s at)" "keeps fenced table_le (RunnerRepo_RunnerEventDedupV2 a b c n)" "keeps fenced table_le (RunnerRepo_Upsert rn)"
    unfolding RunnerRepo_SetStatus_def RunnerRepo_RunnerEventDedupV2_def RunnerRepo_Upsert_def
    by (rule keeps_exec; simp split: option.split)+
  show "keeps fenced table_le (RunnerRepo_RenewLeasesByRunner r u)"
    unfolding RunnerRepo_RenewLeasesByRunner_def
  proof (rule fencing.keeps_bind [OF grows_release])
    show "keeps fenced table_le (exec_stmt (\<lambda>t db. let P = \<lambda>l. lr_RunnerID l = r \<and> lr_ReleasedAt l = None \<and>
          (case run_status db (lr_RunID l) of None \<Rightarrow> False | Some s \<Rightarrow> \<not> RunStatus_IsTerminal s)
        in (Inr (int (length (filter P (db_leases db)))),
            db\<lparr>db_leases := map (\<lambda>l. if P l then l\<lparr>lr_RenewedUntil := u\<rparr> else l) (db_leases db)\<rparr>)))"
      by (rule keeps_exec) (auto simp: Let_def row_le_def intro!: fenced_map table_le_map)
  qed
  show "keeps fenced table_le (RunnerRepo_ExpireLeases at)"
    unfolding RunnerRepo_ExpireLeases_def Let_def
  proof (rule fencing.keeps_bind [OF fencing.keeps_query])
    fix ids :: "string list"
    have g: "keeps fenced table_le (\<lambda>db1. case exec_stmt (\<lambda>t db. (Inr (), release_where (\<lambda>l. lr_ReleasedAt l = None \<and>
        timeParam (lr_RenewedUntil l) < timeParam at) at db)) db1 of
        (Inl e, db2) \<Rightarrow> (Inl e, db2) | (Inr _, db2) \<Rightarrow> (Inr ids, db2))"
      by (rule fencing.keeps_bind [OF grows_release]) (rule fencing.keeps_return)
    show "keeps fenced table_le (\<lambda>db1. if ids = [] then (Inr [], db1)
      else case exec_stmt (\<lambda>t db. (Inr (), release_where (\<lambda>l. lr_ReleasedAt l = None \<and>
        timeParam (lr_RenewedUntil l) < timeParam at) at db)) db1 of
        (Inl e, db2) \<Rightarrow> (Inl e, db2) | (Inr _, db2) \<Rightarrow> (Inr ids, db2))"
      using g by (cases "ids = []") (simp_all add: fencing.keeps_return)
  qed
qed

lemma grows_renew_epoch: "keeps fenced table_le (RunnerRepo_RenewLeasesByRunnerIfEpoch r e b u)"
  unfolding RunnerRepo_RenewLeasesByRunnerIfEpoch_def
proof (rule fencing.keeps_bind [OF fencing.keeps_query])
  fix x :: "string \<times> string"
  show "keeps fenced table_le (\<lambda>db1. case x of (currentEpoch, currentBoot) \<Rightarrow>
      if currentEpoch = '''' \<or> currentBoot = '''' \<or> currentEpoch \<noteq> e \<or> currentBoot \<noteq> b
      then (Inr 0, db1) else RunnerRepo_RenewLeasesByRunner r u db1)"
    by (cases x; cases "fst x = '''' \<or> snd x = '''' \<or> fst x \<noteq> e \<or> snd x \<noteq> b") (auto simp: fencing.keeps_return grows_ops)
qed

lemmas grow_rules = keepsD [OF grows_create] keepsD [OF grows_ops(1)] keepsD [OF grows_ops(2)]
  keepsD [OF grows_ops(3)] keepsD [OF grows_ops(4)] keepsD [OF grows_ops(5)] keepsD [OF grows_ops(6)]
  keepsD [OF grows_ops(7)] keepsD [OF grows_renew_epoch]

lemma lease_apply_grows:
  "fenced (db_leases db) \<Longrightarrow> fenced (db_leases (lease_apply db x)) \<and> table_le (db_leases db) (db_leases (lease_apply db x))"
  by (cases x) (simp_all add: grow_rules)

lemma lease_run_grows:
  "fenced (db_leases db) \<Longrightarrow> fenced (db_leases (foldl lease_apply db xs)) \<and>
    table_le (db_leases db) (db_leases (foldl lease_apply db xs))"
proof (induction xs arbitrary: db)
  case (Cons x xs)
  then show ?case using lease_apply_grows [of db x] table_le_trans by (metis foldl_Cons)
qed simp

lemma active_lease_row:
  assumes "RunnerRepo_ActiveLease run db = (Inr l, db')"
  shows "\<exists>row\<in>set (db_leases db). l = lease_of row \<and> lr_RunID row = run \<and>
    (\<forall>r\<in>set (db_leases db). lr_RunID r = run \<longrightarrow> lr_FencingToken r \<le> lr_FencingToken row)"
proof -
  let ?rows = "filter (\<lambda>l. lr_RunID l = run) (db_leases db)"
  let ?q = "sort_key (\<lambda>l. - lr_FencingToken l) ?rows"
  have "(case ?q of [] \<Rightarrow> Inl ErrNotFound | l # _ \<Rightarrow> Inr (lease_of l)) = (Inr l :: go_error + RunLease)"
    using assms unfolding RunnerRepo_ActiveLease_def by (elim query_stmt_cases) (auto simp: dbError_def)
  then obtain row rest where q: "?q = row # rest" "l = lease_of row" by (cases ?q) auto
  have "set ?q = set ?rows" by simp
  then have row: "row \<in> set ?rows" unfolding q(1) by auto
  have "sorted (map (\<lambda>l. - lr_FencingToken l) ?q)" by simp
  then have "\<forall>r\<in>set rest. lr_FencingToken r \<le> lr_FencingToken row" unfolding q(1) by auto
  then have "\<forall>r\<in>set ?q. lr_FencingToken r \<le> lr_FencingToken row" unfolding q(1) by auto
  then show ?thesis using q(2) row unfolding \<open>set ?q = set ?rows\<close> by auto
qed

lemma expire_result:
  assumes "RunnerRepo_ExpireLeases now db = (Inr ids, db')"
  defines "P \<equiv> \<lambda>l. lr_ReleasedAt l = None \<and> timeParam (lr_RenewedUntil l) < timeParam now"
  shows "ids = map lr_RunID (filter P (db_leases db)) \<and>
    db_leases db' = map (\<lambda>l. if P l then l\<lparr>lr_ReleasedAt := Some now\<rparr> else l) (db_leases db)"
proof -
  obtain r1 db1 where q: "query_stmt (\<lambda>t db. Inr (map lr_RunID (filter P (db_leases db)))) db = (r1, db1)"
    by (cases "query_stmt (\<lambda>t db. Inr (map lr_RunID (filter P (db_leases db))) :: go_error + string list) db")
  have r1: "r1 = Inr (map lr_RunID (filter P (db_leases db)))" "db_leases db1 = db_leases db"
    using q assms(1) unfolding RunnerRepo_ExpireLeases_def Let_def P_def [symmetric]
    by (auto elim!: query_stmt_cases simp: dbError_def)
  show ?thesis
  proof (cases "filter P (db_leases db) = []")
    case True
    then have "ids = []" "db' = db1"
      using assms(1) unfolding RunnerRepo_ExpireLeases_def Let_def P_def [symmetric] q r1(1) by simp_all
    moreover from True have "map (\<lambda>l. if P l then l\<lparr>lr_ReleasedAt := Some now\<rparr> else l) (db_leases db) = db_leases db"
      by (intro map_idI) (auto simp: filter_empty_conv)
    ultimately show ?thesis using r1 True by simp
  next
    case False
    obtain r2 db2 where e: "exec_stmt (\<lambda>t db. (Inr () :: go_error + unit, release_where P now db)) db1 = (r2, db2)"
      by (cases "exec_stmt (\<lambda>t db. (Inr () :: go_error + unit, release_where P now db)) db1")
    have "(case r2 of Inl x \<Rightarrow> (Inl x, db2) | Inr _ \<Rightarrow> (Inr (map lr_RunID (filter P (db_leases db))), db2)) = (Inr ids, db')"
      using assms(1) False unfolding RunnerRepo_ExpireLeases_def Let_def P_def [symmetric] q r1(1) by (simp add: e)
    then have "r2 = Inr ()" "ids = map lr_RunID (filter P (db_leases db))" "db' = db2"
      by (auto split: sum.splits)
    with e show ?thesis using r1(2)
      by (auto elim!: exec_stmt_cases simp: dbError_def release_where_def)
  qed
qed

text \<open>A renewal touches only unreleased leases of its runner.\<close>

definition renewed_by :: "string \<Rightarrow> LeaseRow list \<Rightarrow> LeaseRow list \<Rightarrow> bool" where
  "renewed_by r = list_all2 (\<lambda>a b. a = b \<or> lr_RunnerID a = r \<and> lr_ReleasedAt a = None)"

lemma renewed_by_map: "(\<And>l. l = f l \<or> lr_RunnerID l = r \<and> lr_ReleasedAt l = None) \<Longrightarrow> renewed_by r rows (map f rows)"
  by (simp add: renewed_by_def list_all2_conv_all_nth)

interpretation renewing: lease_frame "\<lambda>_. True" "renewed_by r" for r
proof
  show "renewed_by r x x" for x by (simp add: renewed_by_def list.rel_refl)
  show "renewed_by r x z" if "renewed_by r x y" "renewed_by r y z" for x y z
    using that unfolding renewed_by_def by (rule list_all2_trans [rotated]) auto
qed

lemma renew_rows: "renewed_by r (db_leases db) (db_leases (snd (RunnerRepo_RenewLeasesByRunner r u db)))"
proof -
  have "keeps (\<lambda>_. True) (renewed_by r) (RunnerRepo_RenewLeasesByRunner r u)"
    unfolding RunnerRepo_RenewLeasesByRunner_def
  proof (rule renewing.keeps_bind)
    show "keeps (\<lambda>_. True) (renewed_by r) (exec_stmt (\<lambda>t db. (Inr (), release_where (\<lambda>l. lr_RunnerID l = r \<and>
        lr_ReleasedAt l = None \<and> terminal_run db (lr_RunID l)) t db)))"
      by (rule keeps_exec) (auto simp: release_where_def renewing.R_refl intro!: renewed_by_map split: if_splits)
    show "keeps (\<lambda>_. True) (renewed_by r) (exec_stmt (\<lambda>t db. let P = \<lambda>l. lr_RunnerID l = r \<and> lr_ReleasedAt l = None \<and>
          (case run_status db (lr_RunID l) of None \<Rightarrow> False | Some s \<Rightarrow> \<not> RunStatus_IsTerminal s)
        in (Inr (int (length (filter P (db_leases db)))),
            db\<lparr>db_leases := map (\<lambda>l. if P l then l\<lparr>lr_RenewedUntil := u\<rparr> else l) (db_leases db)\<rparr>)))" for x :: unit
      by (rule keeps_exec) (auto simp: Let_def renewing.R_refl intro!: renewed_by_map split: if_splits)
  qed
  from keepsD [OF this] show ?thesis by simp
qed

lemma renew_epoch_cases:
  assumes "RunnerRepo_RenewLeasesByRunnerIfEpoch r e b u db = (res, db')"
  shows "db_leases db' = db_leases db \<or>
    renewed_by r (db_leases db) (db_leases db') \<and>
    (\<exists>rn. List.find (\<lambda>x. ru_ID x = r) (db_runners db) = Some rn \<and> ru_ConnectionEpoch rn = e \<and> ru_BootID rn = b \<and> e \<noteq> '''' \<and> b \<noteq> '''')"
proof -
  let ?f = "\<lambda>t db. case List.find (\<lambda>r'. ru_ID r' = r) (db_runners db) of None \<Rightarrow> Inl ErrNotFound
      | Some r \<Rightarrow> Inr (ru_ConnectionEpoch r, ru_BootID r)"
  obtain q db1 where q: "query_stmt ?f db = (q, db1)" by (cases "query_stmt ?f db")
  have same: "db_leases db1 = db_leases db" "db_runners db1 = db_runners db"
    using q by (auto elim!: query_stmt_cases)
  show ?thesis
  proof (cases q)
    case (Inl x)
    then show ?thesis using assms q same unfolding RunnerRepo_RenewLeasesByRunnerIfEpoch_def by simp
  next
    case (Inr p)
    obtain ce cb where p: "p = (ce, cb)" by (cases p)
    show ?thesis
    proof (cases "ce = '''' \<or> cb = '''' \<or> ce \<noteq> e \<or> cb \<noteq> b")
      case True
      then have "db' = db1" using assms q Inr p unfolding RunnerRepo_RenewLeasesByRunnerIfEpoch_def by auto
      then show ?thesis using same by simp
    next
      case False
      then have "RunnerRepo_RenewLeasesByRunner r u db1 = (res, db')"
        using assms q Inr p unfolding RunnerRepo_RenewLeasesByRunnerIfEpoch_def by (auto split: if_splits)
      moreover have "\<exists>rn. List.find (\<lambda>x. ru_ID x = r) (db_runners db) = Some rn \<and> ru_ConnectionEpoch rn = ce \<and> ru_BootID rn = cb"
        using q Inr p by (auto elim!: query_stmt_cases simp: dbError_def split: option.splits)
      ultimately show ?thesis using renew_rows [of r db1 u] False same(1) by auto
    qed
  qed
qed

section \<open>Samples\<close>

definition sample_runner :: Runner where
  "sample_runner = \<lparr>ru_ID = ''r1'', ru_WorkspaceID = '''', ru_ExecutionHostID = ''h1'', ru_ConnectionEpoch = ''e1'',
     ru_BootID = ''b1'', ru_Label = '''', ru_RunnerVersion = '''', ru_OS = '''', ru_Arch = '''', ru_Slots = 1,
     ru_Status = ''connected'', ru_LastSeenAt = None\<rparr>"

definition sample_lease :: "string \<Rightarrow> int \<Rightarrow> time \<Rightarrow> LeaseRow" where
  "sample_lease i token until = \<lparr>lr_LeaseID = i, lr_RunID = ''run_1'', lr_RunnerID = ''r1'', lr_FencingToken = token,
     lr_AcquiredAt = 1, lr_RenewedUntil = until, lr_ReleasedAt = None\<rparr>"

definition sample_lease_db :: LeaseDb where
  "sample_lease_db = \<lparr>cn_env = (\<lambda>n. (n = 1, 50)), cn_step = 0, db_runs = [sample_run], db_runners = [sample_runner],
     db_leases = [sample_lease ''l1'' 1 10, sample_lease ''l2'' 2 5000000000], db_dedup = []\<rparr>"

lemma sample_fenced: "fenced (db_leases sample_lease_db)"
  by (simp add: fenced_def before_def sample_lease_db_def sample_lease_def)

section \<open>Properties\<close>

text \<open>
  C10. Fencing: along every history of calls, with any statements failing and any change of the
  runs in between, the fencing tokens of a run strictly increase in the order of the leases, lease
  ids stay unique, no lease is removed or changes its identity, and none is ever un-released.
\<close>

theorem lease_fencing:
  assumes "fenced (db_leases db)"
  shows "fenced (db_leases (foldl lease_apply db xs)) \<and>
    table_le (db_leases db) (db_leases (foldl lease_apply db xs))"
  by (rule lease_run_grows [OF assms])

theorem lease_fencing_witness:
  "fenced (db_leases (foldl lease_apply sample_lease_db [OpRelease ''l2'' 3, OpCreate (lease_of (sample_lease ''l3'' 0 9))]))"
  using lease_fencing [OF sample_fenced] by blast

text \<open>
  A superseded lease never comes back: once a run has a lease with a higher fencing token, no
  later lookup of the run's active lease returns one with the lower token.
\<close>

theorem superseded_lease_stays_superseded:
  assumes "fenced (db_leases db)" and "newer \<in> set (db_leases db)"
    and "RunnerRepo_ActiveLease (lr_RunID newer) (foldl lease_apply db xs) = (Inr l, db')"
  shows "lr_FencingToken newer \<le> ls_FencingToken l"
proof -
  obtain n where n: "n \<in> set (db_leases (foldl lease_apply db xs))" "row_le newer n"
    using table_le_in [OF lease_run_grows [OF assms(1), THEN conjunct2] assms(2)] by blast
  then have "lr_RunID n = lr_RunID newer" "lr_FencingToken n = lr_FencingToken newer" by (auto simp: row_le_def)
  with active_lease_row [OF assms(3)] n(1) show ?thesis by (auto simp: lease_of_def)
qed

theorem superseded_lease_stays_superseded_witness:
  "2 \<le> ls_FencingToken (sum.projr (fst (RunnerRepo_ActiveLease ''run_1'' sample_lease_db)))"
proof -
  have a: "RunnerRepo_ActiveLease ''run_1'' sample_lease_db =
      (Inr (lease_of (sample_lease ''l2'' 2 5000000000)), sample_lease_db\<lparr>cn_step := 1\<rparr>)"
    by (simp add: RunnerRepo_ActiveLease_def query_stmt_def exec_stmt_def sample_lease_db_def sample_lease_def Let_def)
  have "sample_lease ''l2'' 2 5000000000 \<in> set (db_leases sample_lease_db)" by (simp add: sample_lease_db_def)
  from superseded_lease_stays_superseded [OF sample_fenced this, of "[]"] a show ?thesis
    by (simp add: sample_lease_def)
qed

text \<open>
  Expiry: the sweep releases an unreleased lease at most a second before its term is over, and
  after it every unreleased lease has less than a second of overdue time; it reports the runs of
  exactly the leases it released.
\<close>

theorem lease_expiry_bounds:
  assumes "RunnerRepo_ExpireLeases now db = (Inr ids, db')" and "storable now"
    and "\<forall>l\<in>set (db_leases db). storable (lr_RenewedUntil l)"
  shows "(\<forall>l\<in>set (db_leases db'). lr_ReleasedAt l = None \<longrightarrow> now < lr_RenewedUntil l + 1000000000) \<and>
    list_all2 (\<lambda>a b. a = b \<or> lr_ReleasedAt a = None \<and> lr_RenewedUntil a < now + 1000000000 \<and>
      b = a\<lparr>lr_ReleasedAt := Some now\<rparr> \<and> lr_RunID a \<in> set ids) (db_leases db) (db_leases db')"
proof -
  let ?P = "\<lambda>l. lr_ReleasedAt l = None \<and> timeParam (lr_RenewedUntil l) < timeParam now"
  note r = expire_result [OF assms(1)]
  have late: "now < lr_RenewedUntil l + 1000000000"
    if "l \<in> set (db_leases db)" "\<not> timeParam (lr_RenewedUntil l) < timeParam now" for l
  proof -
    have s: "storable (lr_RenewedUntil l)" using assms(3) that(1) by blast
    from timeParam_le_second [OF assms(2) s] that(2) have "now div 1000000000 \<le> lr_RenewedUntil l div 1000000000" by simp
    then show ?thesis
      using div_mult_mod_eq [of now 1000000000] div_mult_mod_eq [of "lr_RenewedUntil l" 1000000000]
        pos_mod_bound [of 1000000000 now] pos_mod_sign [of 1000000000 "lr_RenewedUntil l"] by linarith
  qed
  have early: "lr_RenewedUntil l < now + 1000000000"
    if "l \<in> set (db_leases db)" "timeParam (lr_RenewedUntil l) < timeParam now" for l
  proof -
    have s: "storable (lr_RenewedUntil l)" using assms(3) that(1) by blast
    from timeParam_le_second [OF s assms(2)] that(2) have "lr_RenewedUntil l div 1000000000 \<le> now div 1000000000" by simp
    then show ?thesis
      using div_mult_mod_eq [of now 1000000000] div_mult_mod_eq [of "lr_RenewedUntil l" 1000000000]
        pos_mod_bound [of 1000000000 "lr_RenewedUntil l"] pos_mod_sign [of 1000000000 now] by linarith
  qed
  show ?thesis
  proof (intro conjI ballI impI)
    fix l assume "l \<in> set (db_leases db')" "lr_ReleasedAt l = None"
    then show "now < lr_RenewedUntil l + 1000000000" using r late by (auto split: if_splits)
  next
    show "list_all2 (\<lambda>a b. a = b \<or> lr_ReleasedAt a = None \<and> lr_RenewedUntil a < now + 1000000000 \<and>
      b = a\<lparr>lr_ReleasedAt := Some now\<rparr> \<and> lr_RunID a \<in> set ids) (db_leases db) (db_leases db')"
      using r early by (auto simp: list_all2_conv_all_nth)
  qed
qed

theorem lease_expiry_bounds_witness:
  "list_all (\<lambda>l. lr_ReleasedAt l \<noteq> None \<or> 2000000000 < lr_RenewedUntil l + 1000000000)
     (db_leases (snd (RunnerRepo_ExpireLeases 2000000000 (sample_lease_db\<lparr>cn_step := 2\<rparr>))))"
proof -
  let ?db = "sample_lease_db\<lparr>cn_step := 2\<rparr>"
  have "\<exists>ids db'. RunnerRepo_ExpireLeases 2000000000 ?db = (Inr ids, db')"
    by (simp add: RunnerRepo_ExpireLeases_def query_stmt_def exec_stmt_def sample_lease_db_def Let_def)
  then obtain ids db' where e: "RunnerRepo_ExpireLeases 2000000000 ?db = (Inr ids, db')" by blast
  have "storable 2000000000" "\<forall>l\<in>set (db_leases ?db). storable (lr_RenewedUntil l)"
    by (simp_all add: storable_def sample_lease_db_def sample_lease_def)
  from lease_expiry_bounds [OF e this] show ?thesis unfolding e list_all_iff by auto
qed

text \<open>
  Only the runner's current connection renews: a renewal with another epoch or boot id changes
  no lease, and a renewal never touches a lease of another runner or one already released.
\<close>

theorem renewal_current_epoch:
  assumes "RunnerRepo_RenewLeasesByRunnerIfEpoch r e b u db = (res, db')"
    and "List.find (\<lambda>x. ru_ID x = r) (db_runners db) = Some rn"
  shows "(ru_ConnectionEpoch rn \<noteq> e \<or> ru_BootID rn \<noteq> b \<longrightarrow> db_leases db' = db_leases db) \<and>
    list_all2 (\<lambda>x y. x = y \<or> lr_RunnerID x = r \<and> lr_ReleasedAt x = None) (db_leases db) (db_leases db')"
  using renew_epoch_cases [OF assms(1)] assms(2) unfolding renewed_by_def
  by (auto simp: list.rel_refl)

theorem renewal_current_epoch_witness:
  "db_leases (snd (RunnerRepo_RenewLeasesByRunnerIfEpoch ''r1'' ''old'' ''b1'' 99 sample_lease_db)) = db_leases sample_lease_db"
proof -
  have "List.find (\<lambda>x. ru_ID x = ''r1'') (db_runners sample_lease_db) = Some sample_runner"
    by (simp add: sample_lease_db_def sample_runner_def)
  from renewal_current_epoch [OF prod.collapse [symmetric] this] show ?thesis by (simp add: sample_runner_def)
qed

text \<open>\<^verbatim>\<open>ActiveLease\<close> returns the lease with the highest token also when it is released.\<close>

lemma active_lease_may_be_released:
  "\<exists>l db'. RunnerRepo_ActiveLease ''run_1'' (lease_apply sample_lease_db (OpRelease ''l2'' 3)\<lparr>cn_step := 2\<rparr>) = (Inr l, db') \<and> ls_Released l"
  by (simp add: RunnerRepo_ActiveLease_def RunnerRepo_ReleaseLease_def release_where_def query_stmt_def exec_stmt_def
      sample_lease_db_def sample_lease_def lease_of_def Let_def)

end
