(* ===== verification/EventLog.thy ===== *)
theory EventLog
  imports Leases Delivery
begin

text \<open>
  The event log: \<^verbatim>\<open>internal/domain/events.go\<close>, the event repository in
  \<^verbatim>\<open>internal/persistence/sqlstore/events.go\<close> and \<^verbatim>\<open>emit\<close> of \<^verbatim>\<open>internal/application/service.go\<close>.
  The JSON of a stream payload is produced and read by a codec parameter; the random event id is
  an argument. Nothing sets the actor or the correlation id of an event, so they are left out.
\<close>

section \<open>Event names\<close>

definition eventNameWhitelist :: "string list" where
  "eventNameWhitelist = [
    ''dashboard.metrics.updated'', ''activity.appended'', ''system.health_changed'',
     ''agent_profile.created'', ''agent_profile.updated'', ''agent_availability.changed'',
     ''agent_presence.updated'', ''work_item.created'', ''work_item.updated'', ''work_item.moved'',
     ''work_item.assigned'', ''work_item.blocked'', ''work_item.unblocked'',
     ''work_item.completed'', ''work_item.locked'', ''work_item.lock_preempted'',
     ''dispatch.created'', ''dispatch.updated'', ''decision.created'', ''coordinator.queued'',
     ''coordinator.started'', ''coordinator.message_received'', ''coordinator.plan_updated'',
     ''coordinator.attempt_updated'', ''coordinator.retry_scheduled'',
     ''coordinator.recovery_started'', ''coordinator.blocked'', ''coordinator.completed'',
     ''coordinator.state_changed'', ''goal.created'', ''goal.state_changed'', ''todo.created'',
     ''todo.state_changed'', ''todo.claim_changed'', ''turn.receipt_appended'',
     ''handoff.created'', ''handoff.state_changed'', ''goal.evidence_added'',
     ''validation.result_recorded'', ''projection.updated'', ''projection.repair_state_changed'',
     ''quota.reservation_changed'', ''quota.spend_recorded'', ''delivery_brief.snapshot_created'',
     ''quota.gap_reconciled'', ''run.created'', ''run.started'', ''run.status_changed'',
     ''run.progress_updated'', ''run.plan_updated'', ''run.completed'', ''run.failed'',
     ''run.cancelled'', ''run.lost'', ''session.decision'', ''session.compacted'',
     ''plan.submitted'', ''plan.step_executed'', ''plan.waiting'', ''plan.finished'',
     ''plan.failed'', ''message.delta'', ''message.completed'', ''tool.started'',
     ''tool.progress'', ''tool.completed'', ''tool.failed'', ''subagent.updated'',
     ''file_changes.reverted'', ''approval.requested'', ''approval.resolved'',
     ''approval.expired'', ''question.requested'', ''question.answered'', ''question.resolved'',
     ''question.dismissed'', ''question.expired'', ''artifact.created'', ''artifact.updated'',
     ''usage.updated'', ''runtime.health_changed'', ''run.recovery_started'',
     ''run.recovery_completed'', ''run.recovery_failed'', ''run.phase_entered'',
     ''run.phase_closed'', ''run.log_chunk'', ''run.decision'', ''execution_host.updated'',
     ''workspace_location.created'', ''workspace_location.updated'',
     ''workspace_location.unavailable'', ''work_item.development_context_updated'',
     ''task_comment.created'']"

definition IsKnownEventName :: "string \<Rightarrow> bool" where
  "IsKnownEventName name \<longleftrightarrow> name \<in> set eventNameWhitelist"

definition internalEventNames :: "string list" where
  "internalEventNames = [
    ''run.phase_entered'', ''run.phase_closed'', ''run.log_chunk'', ''run.decision'']"

definition IsInternalEventName :: "string \<Rightarrow> bool" where
  "IsInternalEventName name \<longleftrightarrow> name \<in> set internalEventNames"

definition InternalEventNames :: "string list" where
  "InternalEventNames = sort internalEventNames"

section \<open>Events and tables\<close>

record CanonicalEvent =
  ce_EventID :: string
  ce_WorkspaceID :: string
  ce_StreamSeq :: int
  ce_AggregateType :: string
  ce_AggregateID :: string
  ce_AggregateVersion :: int
  ce_RunSeq :: int
  ce_AgentID :: string
  ce_Type :: string
  ce_OccurredAt :: time
  ce_Data :: gomap

definition NewCanonicalEvent ::
  "string \<Rightarrow> time \<Rightarrow> string \<Rightarrow> string \<Rightarrow> string \<Rightarrow> string \<Rightarrow> int \<Rightarrow> gomap \<Rightarrow> go_error + CanonicalEvent" where
  "NewCanonicalEvent newID now workspaceID eventType aggType aggID aggVersion data =
     (if \<not> IsKnownEventName eventType then Inl (ErrTransition ''event'' eventType ''whitelist'')
      else Inr \<lparr>ce_EventID = newID, ce_WorkspaceID = workspaceID, ce_StreamSeq = 0, ce_AggregateType = aggType,
        ce_AggregateID = aggID, ce_AggregateVersion = aggVersion, ce_RunSeq = 0, ce_AgentID = '''',
        ce_Type = eventType, ce_OccurredAt = now, ce_Data = data\<rparr>)"

record StreamPayload =
  sp_RunSeq :: int
  sp_AgentID :: string
  sp_AggregateVersion :: int
  sp_Data :: gomap

text \<open>\<^verbatim>\<open>encoding/json\<close> on stream payloads; None is an error.\<close>

record Codec =
  cd_Marshal :: "StreamPayload \<Rightarrow> string option"
  cd_Unmarshal :: "string \<Rightarrow> StreamPayload option"

record RunEventRecord =
  er_RunID :: string
  er_AgentID :: string
  er_EventType :: string
  er_Payload :: gomap

record RunEventRow =
  re_RunID :: string
  re_AgentID :: string
  re_RunSeq :: int
  re_EventType :: string
  re_Payload :: gomap
  re_OccurredAt :: time

record StreamRow =
  sr_WorkspaceID :: string
  sr_StreamSeq :: int
  sr_EventID :: string
  sr_EventType :: string
  sr_AggregateType :: string
  sr_AggregateID :: string
  sr_AggregateVersion :: int
  sr_Payload :: string
  sr_OccurredAt :: time

record ActivityRow =
  ay_WorkspaceID :: string
  ay_WorkItemID :: string
  ay_Kind :: string
  ay_Message :: string
  ay_OccurredAt :: time

record EventDb = LeaseDb +
  db_runEvents :: "RunEventRow list"
  db_stream :: "StreamRow list"
  db_outbox :: "Message list"
  db_activities :: "ActivityRow list"

section \<open>Appending\<close>

definition next_run_seq :: "RunEventRow list \<Rightarrow> string \<Rightarrow> int" where
  "next_run_seq rows runID = fold (\<lambda>r m. if re_RunID r = runID then max (re_RunSeq r) m else m) rows 0 + 1"

definition latest_seq :: "StreamRow list \<Rightarrow> string \<Rightarrow> int" where
  "latest_seq rows ws = fold (\<lambda>r m. if sr_WorkspaceID r = ws then max (sr_StreamSeq r) m else m) rows 0"

definition insert_run_event :: "CanonicalEvent \<Rightarrow> RunEventRecord \<Rightarrow> 'a EventDb_scheme \<Rightarrow> (go_error + int) \<times> 'a EventDb_scheme" where
  "insert_run_event ev re = exec_stmt (\<lambda>t db.
     if \<not> list_ex (\<lambda>r. rn_ID r = er_RunID re) (db_runs db)
     then (Inl (ErrOther ''FOREIGN KEY constraint failed''), db)
     else let sq = next_run_seq (db_runEvents db) (er_RunID re)
          in (Inr sq, db\<lparr>db_runEvents := db_runEvents db @
               [\<lparr>re_RunID = er_RunID re, re_AgentID = er_AgentID re, re_RunSeq = sq, re_EventType = er_EventType re,
                 re_Payload = er_Payload re, re_OccurredAt = ce_OccurredAt ev\<rparr>]\<rparr>))"

definition insert_stream :: "CanonicalEvent \<Rightarrow> string \<Rightarrow> 'a EventDb_scheme \<Rightarrow> (go_error + int) \<times> 'a EventDb_scheme" where
  "insert_stream ev payload = exec_stmt (\<lambda>t db.
     if list_ex (\<lambda>r. sr_EventID r = ce_EventID ev) (db_stream db) then (Inl ErrIdempotencyConflict, db)
     else let sq = latest_seq (db_stream db) (ce_WorkspaceID ev) + 1
          in (Inr sq, db\<lparr>db_stream := db_stream db @
               [\<lparr>sr_WorkspaceID = ce_WorkspaceID ev, sr_StreamSeq = sq, sr_EventID = ce_EventID ev,
                 sr_EventType = ce_Type ev, sr_AggregateType = ce_AggregateType ev,
                 sr_AggregateID = ce_AggregateID ev, sr_AggregateVersion = ce_AggregateVersion ev,
                 sr_Payload = payload, sr_OccurredAt = ce_OccurredAt ev\<rparr>]\<rparr>))"

definition insert_outbox :: "CanonicalEvent \<Rightarrow> string \<Rightarrow> 'a EventDb_scheme \<Rightarrow> (go_error + unit) \<times> 'a EventDb_scheme" where
  "insert_outbox ev payload = exec_stmt (\<lambda>t db. (Inr (), db\<lparr>db_outbox := db_outbox db @
     [\<lparr>ms_id = fold (\<lambda>m n. max (ms_id m) n) (db_outbox db) 0 + 1, ms_eventID = ce_EventID ev,
       ms_topic = ce_WorkspaceID ev, ms_payload = payload, ms_publishedAt = None\<rparr>]\<rparr>))"

definition EventRepo_Append ::
  "Codec \<Rightarrow> CanonicalEvent \<Rightarrow> RunEventRecord option \<Rightarrow> 'a EventDb_scheme \<Rightarrow> (go_error + CanonicalEvent) \<times> 'a EventDb_scheme" where
  "EventRepo_Append cd ev runEvent =
     (if \<not> IsKnownEventName (ce_Type ev) then failM (ErrValidation '''')
      else if IsInternalEventName (ce_Type ev) \<and> runEvent = None then failM (ErrValidation '''')
      else bindM (case runEvent of None \<Rightarrow> returnM ev
                  | Some re \<Rightarrow> bindM (insert_run_event ev re) (\<lambda>sq. returnM (ev\<lparr>ce_RunSeq := sq\<rparr>)))
        (\<lambda>ev. if IsInternalEventName (ce_Type ev) then returnM ev
          else (case cd_Marshal cd \<lparr>sp_RunSeq = ce_RunSeq ev, sp_AgentID = ce_AgentID ev,
                  sp_AggregateVersion = ce_AggregateVersion ev, sp_Data = ce_Data ev\<rparr> of
                  None \<Rightarrow> failM (ErrOther ''json'')
                | Some payload \<Rightarrow>
                    bindM (insert_stream ev payload) (\<lambda>sq.
                    bindM (insert_outbox ev payload) (\<lambda>_. returnM (ev\<lparr>ce_StreamSeq := sq\<rparr>))))))"

definition withoutAgentID :: "gomap \<Rightarrow> gomap" where
  "withoutAgentID data = filter (\<lambda>kv. fst kv \<noteq> ''agent_id'') data"

text \<open>\<^verbatim>\<open>emit\<close>, which its callers run inside a transaction.\<close>

definition Service_emit ::
  "Codec \<Rightarrow> string \<Rightarrow> string \<Rightarrow> string \<Rightarrow> string \<Rightarrow> string \<Rightarrow> int \<Rightarrow> RunEventRecord option \<Rightarrow> gomap \<Rightarrow>
   'a EventDb_scheme \<Rightarrow> (go_error + unit) \<times> 'a EventDb_scheme" where
  "Service_emit cd newID workspaceID evType aggType aggID aggVersion runEvent data db =
     (let agent = (\<lambda>re. if er_AgentID re \<noteq> '''' then er_AgentID re
                        else if string_or_empty data ''agent_id'' \<noteq> '''' then string_or_empty data ''agent_id''
                        else ''main'');
          data' = (if runEvent = None then data else withoutAgentID data);
          runEvent' = map_option (\<lambda>re. re\<lparr>er_AgentID := agent re, er_Payload := data'\<rparr>) runEvent
      in case NewCanonicalEvent newID (nowM db) workspaceID evType aggType aggID aggVersion data' of
           Inl e \<Rightarrow> failM e db
         | Inr ev \<Rightarrow> bindM (EventRepo_Append cd
               (case runEvent' of None \<Rightarrow> ev | Some re \<Rightarrow> ev\<lparr>ce_AgentID := er_AgentID re\<rparr>) runEvent')
             (\<lambda>_. returnM ()) db)"

definition EventRepo_AppendActivityFor ::
  "string \<Rightarrow> string \<Rightarrow> string \<Rightarrow> string \<Rightarrow> 'a EventDb_scheme \<Rightarrow> (go_error + unit) \<times> 'a EventDb_scheme" where
  "EventRepo_AppendActivityFor workspaceID workItemID kind message = exec_stmt (\<lambda>t db.
     (Inr (), db\<lparr>db_activities := db_activities db @ [\<lparr>ay_WorkspaceID = workspaceID, ay_WorkItemID = workItemID,
        ay_Kind = kind, ay_Message = message, ay_OccurredAt = t\<rparr>]\<rparr>))"

definition EventRepo_AppendActivity ::
  "string \<Rightarrow> string \<Rightarrow> string \<Rightarrow> 'a EventDb_scheme \<Rightarrow> (go_error + unit) \<times> 'a EventDb_scheme" where
  "EventRepo_AppendActivity workspaceID kind message = EventRepo_AppendActivityFor workspaceID '''' kind message"

section \<open>Reading\<close>

datatype since_error = SinceCursorExpired | SinceFailed go_error

definition event_of_row :: "StreamRow \<Rightarrow> StreamPayload \<Rightarrow> CanonicalEvent" where
  "event_of_row r p = \<lparr>ce_EventID = sr_EventID r, ce_WorkspaceID = sr_WorkspaceID r, ce_StreamSeq = sr_StreamSeq r,
     ce_AggregateType = sr_AggregateType r, ce_AggregateID = sr_AggregateID r,
     ce_AggregateVersion = sr_AggregateVersion r, ce_RunSeq = sp_RunSeq p,
     ce_AgentID = (if sp_RunSeq p > 0 \<and> sp_AgentID p = '''' then ''main'' else sp_AgentID p),
     ce_Type = sr_EventType r, ce_OccurredAt = sr_OccurredAt r, ce_Data = sp_Data p\<rparr>"

fun scan_stream :: "Codec \<Rightarrow> StreamRow list \<Rightarrow> (since_error + CanonicalEvent list)" where
  "scan_stream cd [] = Inr []"
| "scan_stream cd (r # rows) =
     (case cd_Unmarshal cd (sr_Payload r) of
        None \<Rightarrow> Inl (SinceFailed (ErrOther ''json''))
      | Some p \<Rightarrow> (case scan_stream cd rows of Inl e \<Rightarrow> Inl e | Inr evs \<Rightarrow> Inr (event_of_row r p # evs)))"

definition min_seq :: "StreamRow list \<Rightarrow> string \<Rightarrow> int" where
  "min_seq rows ws =
     (case filter (\<lambda>r. sr_WorkspaceID r = ws) rows of
        [] \<Rightarrow> 0
      | r # rs \<Rightarrow> fold (\<lambda>x m. min (sr_StreamSeq x) m) rs (sr_StreamSeq r))"

definition EventRepo_Since ::
  "Codec \<Rightarrow> string \<Rightarrow> int \<Rightarrow> int \<Rightarrow> 'a EventDb_scheme \<Rightarrow> (since_error + CanonicalEvent list) \<times> 'a EventDb_scheme" where
  "EventRepo_Since cd workspaceID afterSeq limit db =
     (let lim = (if limit \<le> 0 \<or> limit > 1000 then 500 else limit)
      in case query_stmt (\<lambda>t db. Inr (min_seq (db_stream db) workspaceID)) db of
           (Inl e, db1) \<Rightarrow> (Inl (SinceFailed e), db1)
         | (Inr minSeq, db1) \<Rightarrow>
             if afterSeq > 0 \<and> minSeq > 0 \<and> afterSeq + 1 < minSeq then (Inl SinceCursorExpired, db1)
             else (case query_stmt (\<lambda>t db. Inr (take (nat lim) (sort_key sr_StreamSeq
                      (filter (\<lambda>r. sr_WorkspaceID r = workspaceID \<and> sr_StreamSeq r > afterSeq) (db_stream db))))) db1 of
                     (Inl e, db2) \<Rightarrow> (Inl (SinceFailed e), db2)
                   | (Inr rows, db2) \<Rightarrow> (scan_stream cd rows, db2)))"

definition EventRepo_LatestSeq :: "string \<Rightarrow> 'a EventDb_scheme \<Rightarrow> (go_error + int) \<times> 'a EventDb_scheme" where
  "EventRepo_LatestSeq workspaceID = query_stmt (\<lambda>t db. Inr (latest_seq (db_stream db) workspaceID))"

definition EventRepo_ListActivities ::
  "string \<Rightarrow> int \<Rightarrow> 'a EventDb_scheme \<Rightarrow> (go_error + ActivityRow list) \<times> 'a EventDb_scheme" where
  "EventRepo_ListActivities workspaceID limit =
     (let lim = (if limit \<le> 0 \<or> limit > 200 then 30 else limit)
      in query_stmt (\<lambda>t db. Inr (take (nat lim) (rev (sort_key (\<lambda>a. timeParam (ay_OccurredAt a))
           (filter (\<lambda>a. ay_WorkspaceID a = workspaceID) (db_activities db)))))))"

definition listRunEvents :: "string \<Rightarrow> bool \<Rightarrow> 'a EventDb_scheme \<Rightarrow> (go_error + RunEventRow list) \<times> 'a EventDb_scheme" where
  "listRunEvents runID includeInternal = query_stmt (\<lambda>t db. Inr
     (map (\<lambda>r. r\<lparr>re_AgentID := (if re_AgentID r = '''' then ''main'' else re_AgentID r)\<rparr>)
       (sort_key re_RunSeq (filter (\<lambda>r. re_RunID r = runID \<and>
          (includeInternal \<or> re_EventType r \<notin> set InternalEventNames)) (db_runEvents db)))))"

definition EventRepo_ListRunEvents :: "string \<Rightarrow> 'a EventDb_scheme \<Rightarrow> (go_error + RunEventRow list) \<times> 'a EventDb_scheme" where
  "EventRepo_ListRunEvents runID = listRunEvents runID False"

definition EventRepo_ListRunEventsIncludeInternal ::
  "string \<Rightarrow> 'a EventDb_scheme \<Rightarrow> (go_error + RunEventRow list) \<times> 'a EventDb_scheme" where
  "EventRepo_ListRunEventsIncludeInternal runID = listRunEvents runID True"

section \<open>Gapless sequences\<close>

lemma fold_max_upto: "0 \<le> k \<Longrightarrow> fold max [1..k] (0::int) = k"
proof (induction k rule: int_ge_induct)
  case (step k)
  then have "[1..k + 1] = [1..k] @ [k + 1]" by (simp add: upto_rec2)
  with step show ?case by simp
qed simp

lemma fold_seq_filter:
  "fold (\<lambda>r m. if P r then max (f r) m else m) rows a = fold max (map f (filter P rows)) (a :: int)"
  by (induction rows arbitrary: a) auto

definition gapless :: "('r \<Rightarrow> bool) \<Rightarrow> ('r \<Rightarrow> int) \<Rightarrow> 'r list \<Rightarrow> bool" where
  "gapless P f rows \<longleftrightarrow> map f (filter P rows) = [1..int (length (filter P rows))]"

lemma gapless_latest:
  "gapless P f rows \<Longrightarrow> fold (\<lambda>r m. if P r then max (f r) m else m) rows 0 = int (length (filter P rows))"
  unfolding fold_seq_filter gapless_def using fold_max_upto [of "int (length (filter P rows))"] by simp

lemma gapless_snoc:
  assumes "gapless P f rows" and "P r \<Longrightarrow> f r = int (length (filter P rows)) + 1"
  shows "gapless P f (rows @ [r])"
proof (cases "P r")
  case True
  then have "[1..int (length (filter P (rows @ [r])))] = [1..int (length (filter P rows))] @ [f r]"
    using assms(2) upto_rec2 [of 1 "int (length (filter P rows)) + 1"] by (simp add: add.commute)
  then show ?thesis using assms(1) True by (simp add: gapless_def)
next
  case False
  then show ?thesis using assms(1) by (simp add: gapless_def)
qed

section \<open>The log\<close>

text \<open>
  The stream of every workspace and the events of every run are numbered 1, 2, 3, ...; the events
  of the stream have known public names and distinct ids; the outbox has, in the same order, a
  message with the payload of every event.
\<close>

definition log_ok :: "'a EventDb_scheme \<Rightarrow> bool" where
  "log_ok db \<longleftrightarrow>
     (\<forall>ws. gapless (\<lambda>r. sr_WorkspaceID r = ws) sr_StreamSeq (db_stream db)) \<and>
     (\<forall>i. gapless (\<lambda>r. re_RunID r = i) re_RunSeq (db_runEvents db)) \<and>
     distinct (map sr_EventID (db_stream db)) \<and>
     list_all (\<lambda>r. IsKnownEventName (sr_EventType r) \<and> \<not> IsInternalEventName (sr_EventType r)) (db_stream db) \<and>
     map (\<lambda>m. (ms_eventID m, ms_topic m, ms_payload m)) (db_outbox db) =
       map (\<lambda>r. (sr_EventID r, sr_WorkspaceID r, sr_Payload r)) (db_stream db)"

definition run_log_ok :: "'a EventDb_scheme \<Rightarrow> bool" where
  "run_log_ok db \<longleftrightarrow> (\<forall>i. gapless (\<lambda>r. re_RunID r = i) re_RunSeq (db_runEvents db))"

lemma insert_run_event_effect:
  assumes "insert_run_event ev re db = (Inr sq, db')" and "log_ok db"
  shows "log_ok db' \<and> db_stream db' = db_stream db \<and> db_outbox db' = db_outbox db"
  using assms(1) unfolding insert_run_event_def
proof (cases rule: exec_stmt_cases)
  case (2 t)
  let ?row = "\<lparr>re_RunID = er_RunID re, re_AgentID = er_AgentID re, re_RunSeq = next_run_seq (db_runEvents db) (er_RunID re),
    re_EventType = er_EventType re, re_Payload = er_Payload re, re_OccurredAt = ce_OccurredAt ev\<rparr>"
  from 2 have db': "db_runEvents db' = db_runEvents db @ [?row]" "db_stream db' = db_stream db" "db_outbox db' = db_outbox db"
    by (auto simp: Let_def split: if_splits)
  have "gapless (\<lambda>r. re_RunID r = i) re_RunSeq (db_runEvents db @ [?row])" for i
  proof (rule gapless_snoc)
    show g: "gapless (\<lambda>r. re_RunID r = i) re_RunSeq (db_runEvents db)" using assms(2) by (simp add: log_ok_def)
    assume "re_RunID ?row = i"
    then show "re_RunSeq ?row = int (length (filter (\<lambda>r. re_RunID r = i) (db_runEvents db))) + 1"
      using gapless_latest [OF g] by (auto simp: next_run_seq_def)
  qed
  then show ?thesis using assms(2) db' by (simp add: log_ok_def)
qed (simp add: dbError_def)

lemma insert_stream_effect:
  assumes "insert_stream ev payload db = (Inr sq, db')" and "log_ok db"
    and "IsKnownEventName (ce_Type ev)" and "\<not> IsInternalEventName (ce_Type ev)"
  shows "\<exists>r. db_stream db' = db_stream db @ [r] \<and> sr_EventID r = ce_EventID ev \<and> sr_WorkspaceID r = ce_WorkspaceID ev \<and>
    sr_Payload r = payload \<and> sr_EventType r = ce_Type ev \<and> sr_EventID r \<notin> sr_EventID ` set (db_stream db) \<and>
    (\<forall>ws. gapless (\<lambda>r. sr_WorkspaceID r = ws) sr_StreamSeq (db_stream db')) \<and>
    db_runEvents db' = db_runEvents db \<and> db_outbox db' = db_outbox db"
  using assms(1) unfolding insert_stream_def
proof (cases rule: exec_stmt_cases)
  case (2 t)
  let ?row = "\<lparr>sr_WorkspaceID = ce_WorkspaceID ev, sr_StreamSeq = latest_seq (db_stream db) (ce_WorkspaceID ev) + 1,
    sr_EventID = ce_EventID ev, sr_EventType = ce_Type ev, sr_AggregateType = ce_AggregateType ev,
    sr_AggregateID = ce_AggregateID ev, sr_AggregateVersion = ce_AggregateVersion ev,
    sr_Payload = payload, sr_OccurredAt = ce_OccurredAt ev\<rparr>"
  from 2 have db': "db_stream db' = db_stream db @ [?row]" "ce_EventID ev \<notin> sr_EventID ` set (db_stream db)"
      "db_runEvents db' = db_runEvents db" "db_outbox db' = db_outbox db"
    by (auto simp: Let_def list_ex_iff split: if_splits)
  have "gapless (\<lambda>r. sr_WorkspaceID r = ws) sr_StreamSeq (db_stream db @ [?row])" for ws
  proof (rule gapless_snoc)
    show g: "gapless (\<lambda>r. sr_WorkspaceID r = ws) sr_StreamSeq (db_stream db)" using assms(2) by (simp add: log_ok_def)
    assume "sr_WorkspaceID ?row = ws"
    then show "sr_StreamSeq ?row = int (length (filter (\<lambda>r. sr_WorkspaceID r = ws) (db_stream db))) + 1"
      using gapless_latest [OF g] by (auto simp: latest_seq_def)
  qed
  then show ?thesis using db' by (intro exI [of _ ?row]) simp
qed (simp add: dbError_def)

lemma insert_outbox_effect:
  assumes "insert_outbox ev payload db = (Inr u, db')"
  shows "\<exists>m. db_outbox db' = db_outbox db @ [m] \<and> ms_eventID m = ce_EventID ev \<and> ms_topic m = ce_WorkspaceID ev \<and>
    ms_payload m = payload \<and> db_stream db' = db_stream db \<and> db_runEvents db' = db_runEvents db"
  using assms unfolding insert_outbox_def by (cases rule: exec_stmt_cases) (auto simp: dbError_def)

lemma append_ok:
  assumes "EventRepo_Append cd ev runEvent db = (Inr ev', db')" and "log_ok db"
  shows "log_ok db'"
proof -
  have known: "IsKnownEventName (ce_Type ev)" and inner: "\<not> (IsInternalEventName (ce_Type ev) \<and> runEvent = None)"
    using assms(1) by (auto simp: EventRepo_Append_def split: if_splits)
  obtain ev1 db1 where 1: "(case runEvent of None \<Rightarrow> returnM ev
      | Some re \<Rightarrow> bindM (insert_run_event ev re) (\<lambda>sq. returnM (ev\<lparr>ce_RunSeq := sq\<rparr>))) db = (Inr ev1, db1)"
    and rest: "(if IsInternalEventName (ce_Type ev1) then returnM ev1
          else (case cd_Marshal cd \<lparr>sp_RunSeq = ce_RunSeq ev1, sp_AgentID = ce_AgentID ev1,
                  sp_AggregateVersion = ce_AggregateVersion ev1, sp_Data = ce_Data ev1\<rparr> of
                  None \<Rightarrow> failM (ErrOther ''json'')
                | Some payload \<Rightarrow>
                    bindM (insert_stream ev1 payload) (\<lambda>sq.
                    bindM (insert_outbox ev1 payload) (\<lambda>_. returnM (ev1\<lparr>ce_StreamSeq := sq\<rparr>))))) db1 = (Inr ev', db')"
    using assms(1) known inner unfolding EventRepo_Append_def by (auto elim: bindM_cases)
  have log1: "log_ok db1" and same: "ce_Type ev1 = ce_Type ev" "ce_EventID ev1 = ce_EventID ev" "ce_WorkspaceID ev1 = ce_WorkspaceID ev"
    using 1 insert_run_event_effect [OF _ assms(2)] assms(2)
    by (cases runEvent; fastforce elim: bindM_cases)+
  show ?thesis
  proof (cases "IsInternalEventName (ce_Type ev1)")
    case True
    then show ?thesis using rest log1 by simp
  next
    case False
    then obtain payload db2 sq u where 2: "insert_stream ev1 payload db1 = (Inr sq, db2)"
        "insert_outbox ev1 payload db2 = (Inr u, db')"
      using rest by (auto split: option.splits elim!: bindM_cases)
    obtain r where r: "db_stream db2 = db_stream db1 @ [r]" "sr_EventID r = ce_EventID ev1" "sr_WorkspaceID r = ce_WorkspaceID ev1"
        "sr_Payload r = payload" "sr_EventType r = ce_Type ev1" "sr_EventID r \<notin> sr_EventID ` set (db_stream db1)"
        "\<forall>ws. gapless (\<lambda>r. sr_WorkspaceID r = ws) sr_StreamSeq (db_stream db2)"
        "db_runEvents db2 = db_runEvents db1" "db_outbox db2 = db_outbox db1"
      using insert_stream_effect [OF 2(1) log1] known False same(1) by auto
    obtain m where m: "db_outbox db' = db_outbox db2 @ [m]" "ms_eventID m = ce_EventID ev1" "ms_topic m = ce_WorkspaceID ev1"
        "ms_payload m = payload" "db_stream db' = db_stream db2" "db_runEvents db' = db_runEvents db2"
      using insert_outbox_effect [OF 2(2)] by auto
    show ?thesis using log1 r m known False same(1) unfolding log_ok_def by simp
  qed
qed

lemma append_tx_ok:
  assumes "log_ok db"
  shows "log_ok (snd (InTx (EventRepo_Append cd ev runEvent) db))"
proof -
  obtain r db' where e: "InTx (EventRepo_Append cd ev runEvent) db = (r, db')" by (cases "InTx (EventRepo_Append cd ev runEvent) db")
  then show ?thesis
  proof (cases rule: InTx_cases)
    case 1
    then show ?thesis using assms e by (simp add: log_ok_def)
  next
    case (2 x db2 n)
    have "log_ok (db\<lparr>cn_step := Suc (cn_step db)\<rparr>)" using assms by (simp add: log_ok_def)
    from append_ok [OF 2(2) this] show ?thesis using e 2(3) by (simp add: log_ok_def)
  qed
qed

section \<open>Pages\<close>

lemma filter_upto:
  assumes "0 \<le> a"
  shows "filter (\<lambda>x. x > a) [1..k] = [a + 1..k :: int]"
proof (cases "a \<le> k")
  case True
  have "filter (\<lambda>x. x > a) [1..k] = filter (\<lambda>x. x > a) ([1..a] @ [a + 1..k])"
    using upto_split2 [of 1 a k] True assms by (cases "a = 0") auto
  then show ?thesis by (simp add: filter_empty_conv filter_id_conv)
next
  case False
  then show ?thesis by (auto simp: filter_empty_conv)
qed

lemma take_upto: "take n [a + 1..k] = [a + 1..min k (a + int n)]"
proof (cases "a + int n \<le> k")
  case True
  then have "[a + 1..k] = [a + 1..a + int n] @ [a + int n + 1..k]" using upto_split2 [of "a + 1" "a + int n" k]
    by (cases "n = 0") auto
  then show ?thesis using True by simp
qed simp

lemma sorted_gapless_page:
  assumes "gapless (\<lambda>r. sr_WorkspaceID r = ws) sr_StreamSeq rows" and "0 \<le> after"
  shows "map sr_StreamSeq (take n (sort_key sr_StreamSeq (filter (\<lambda>r. sr_WorkspaceID r = ws \<and> sr_StreamSeq r > after) rows))) =
    [after + 1..min (latest_seq rows ws) (after + int n)]"
proof -
  let ?k = "int (length (filter (\<lambda>r. sr_WorkspaceID r = ws) rows))"
  have k: "latest_seq rows ws = ?k" unfolding latest_seq_def by (rule gapless_latest [OF assms(1)])
  have "map sr_StreamSeq (filter (\<lambda>r. sr_WorkspaceID r = ws \<and> sr_StreamSeq r > after) rows) =
      filter (\<lambda>x. x > after) (map sr_StreamSeq (filter (\<lambda>r. sr_WorkspaceID r = ws) rows))"
    by (induction rows) auto
  also have "\<dots> = filter (\<lambda>x. x > after) [1..?k]" using assms(1) by (simp add: gapless_def)
  also have "\<dots> = [after + 1..?k]"
    by (rule filter_upto [OF assms(2)])
  finally have m: "map sr_StreamSeq (filter (\<lambda>r. sr_WorkspaceID r = ws \<and> sr_StreamSeq r > after) rows) = [after + 1..?k]" .
  have "sort_key sr_StreamSeq xs = xs" if "map sr_StreamSeq xs = [after + 1..?k]" for xs
    using that by (intro sort_key_id_if_sorted) simp
  from this [OF m] have "map sr_StreamSeq (take n (sort_key sr_StreamSeq (filter (\<lambda>r. sr_WorkspaceID r = ws \<and> sr_StreamSeq r > after) rows))) =
      take n [after + 1..?k]" using m by (simp only: take_map [symmetric])
  also have "\<dots> = [after + 1..min ?k (after + int n)]" by (rule take_upto)
  finally show ?thesis unfolding k .
qed

lemma scan_stream_seqs: "scan_stream cd rows = Inr evs \<Longrightarrow> map ce_StreamSeq evs = map sr_StreamSeq rows"
  by (induction rows arbitrary: evs) (auto simp: event_of_row_def split: option.splits sum.splits)

lemma fold_min_le: "fold (\<lambda>x m. min (f x) m) xs (a::int) \<le> a \<and> (\<forall>x\<in>set xs. fold (\<lambda>x m. min (f x) m) xs a \<le> f x)"
proof (induction xs arbitrary: a)
  case (Cons x xs)
  then show ?case by (simp add: min_le_iff_disj) (meson min.boundedE order_trans)
qed simp

lemma gapless_min_seq:
  assumes "gapless (\<lambda>r. sr_WorkspaceID r = ws) sr_StreamSeq rows"
  shows "min_seq rows ws \<le> 1"
proof (cases "filter (\<lambda>r. sr_WorkspaceID r = ws) rows")
  case Nil
  then show ?thesis by (simp add: min_seq_def)
next
  case (Cons r rs)
  then have "sr_StreamSeq r # map sr_StreamSeq rs = [1..1 + int (length rs)]"
    using assms by (simp add: gapless_def add.commute)
  then have "sr_StreamSeq r = 1" by (simp add: upto_rec1)
  then show ?thesis using Cons fold_min_le [where f = sr_StreamSeq and xs = rs and a = 1] by (simp add: min_seq_def)
qed

text \<open>What a call of \<^verbatim>\<open>Since\<close> returns over a gapless stream.\<close>

lemma since_page:
  assumes "EventRepo_Since cd ws after limit db = (r, db')"
    and "gapless (\<lambda>r. sr_WorkspaceID r = ws) sr_StreamSeq (db_stream db)" and "0 \<le> after"
  shows "r \<noteq> Inl SinceCursorExpired \<and>
    (\<forall>evs. r = Inr evs \<longrightarrow> map ce_StreamSeq evs =
       [after + 1..min (latest_seq (db_stream db) ws) (after + (if limit \<le> 0 \<or> limit > 1000 then 500 else limit))]) \<and>
    db_stream db' = db_stream db"
proof -
  let ?lim = "if limit \<le> 0 \<or> limit > 1000 then 500 else limit"
  obtain r1 db1 where 1: "query_stmt (\<lambda>t db. Inr (min_seq (db_stream db) ws)) db = (r1, db1)"
    by (cases "query_stmt (\<lambda>t db. Inr (min_seq (db_stream db) ws) :: go_error + int) db")
  have s1: "db_stream db1 = db_stream db" and r1: "\<forall>m. r1 = Inr m \<longrightarrow> m \<le> 1"
    using 1 gapless_min_seq [OF assms(2)] by (auto elim!: query_stmt_cases)
  let ?q = "query_stmt (\<lambda>t db. Inr (take (nat ?lim) (sort_key sr_StreamSeq
      (filter (\<lambda>r. sr_WorkspaceID r = ws \<and> sr_StreamSeq r > after) (db_stream db)))) :: go_error + StreamRow list)"
  show ?thesis
  proof (cases r1)
    case (Inl e)
    then show ?thesis using assms(1) 1 s1 by (auto simp: EventRepo_Since_def Let_def)
  next
    case (Inr m)
    then have "\<not> after + 1 < m" using r1 assms(3) by auto
    then have e: "EventRepo_Since cd ws after limit db = (case ?q db1 of
        (Inl e, db2) \<Rightarrow> (Inl (SinceFailed e), db2) | (Inr rows, db2) \<Rightarrow> (scan_stream cd rows, db2))"
      using 1 Inr by (simp add: EventRepo_Since_def Let_def)
    obtain r2 db2 where 2: "?q db1 = (r2, db2)" by (cases "?q db1")
    have s2: "db_stream db2 = db_stream db1"
      and r2: "\<forall>rows. r2 = Inr rows \<longrightarrow> rows = take (nat ?lim) (sort_key sr_StreamSeq
        (filter (\<lambda>r. sr_WorkspaceID r = ws \<and> sr_StreamSeq r > after) (db_stream db)))"
      using 2 s1 by (auto elim!: query_stmt_cases simp: dbError_def)
    show ?thesis
    proof (cases r2)
      case (Inl e)
      then show ?thesis using assms(1) s1 s2 unfolding e 2 by auto
    next
      case (Inr rows)
      then have r: "r = scan_stream cd rows" "db' = db2" using assms(1) unfolding e 2 by auto
      have "map sr_StreamSeq rows = [after + 1..min (latest_seq (db_stream db) ws) (after + ?lim)]"
        using r2 Inr sorted_gapless_page [OF assms(2,3), of "nat ?lim"] by auto
      moreover have "scan_stream cd rows \<noteq> Inl SinceCursorExpired"
        by (induction rows) (auto split: option.splits sum.splits)
      ultimately show ?thesis using r s1 s2 scan_stream_seqs by auto
    qed
  qed
qed

section \<open>Properties\<close>

text \<open>
  C9. The log is consistent: along every sequence of appends, each in a transaction and with any
  statements failing, the stream of every workspace and the events of every run stay numbered
  without gaps from 1, event ids stay unique, internal and unknown events never enter the stream,
  and the outbox holds a message for exactly the events of the stream, in their order.
\<close>

theorem event_log_consistent:
  assumes "log_ok db"
  shows "log_ok (fold (\<lambda>(ev, re) db. snd (InTx (EventRepo_Append cd ev re) db)) appends db)"
  using assms
proof (induction appends arbitrary: db)
  case (Cons x xs)
  obtain ev re where x: "x = (ev, re)" by (cases x)
  show ?case using Cons.IH [OF append_tx_ok [OF Cons.prems, of cd ev re]] x by simp
qed simp

definition sample_codec :: Codec where
  "sample_codec = \<lparr>cd_Marshal = (\<lambda>p. Some ''{}''), cd_Unmarshal = (\<lambda>s.
     Some \<lparr>sp_RunSeq = 0, sp_AgentID = '''', sp_AggregateVersion = 0, sp_Data = []\<rparr>)\<rparr>"

definition sample_event :: "string \<Rightarrow> CanonicalEvent" where
  "sample_event i = \<lparr>ce_EventID = i, ce_WorkspaceID = ''ws_1'', ce_StreamSeq = 0, ce_AggregateType = ''workspace'',
     ce_AggregateID = ''ws_1'', ce_AggregateVersion = 0, ce_RunSeq = 0, ce_AgentID = '''',
     ce_Type = ''activity.appended'', ce_OccurredAt = 5, ce_Data = []\<rparr>"

definition sample_event_db :: EventDb where
  "sample_event_db = \<lparr>cn_env = (\<lambda>n. (n = 3, 50)), cn_step = 0, db_runs = [], db_runners = [], db_leases = [],
     db_dedup = [], db_runEvents = [], db_stream = [], db_outbox = [], db_activities = []\<rparr>"

lemma sample_log_ok: "log_ok sample_event_db"
  by (simp add: log_ok_def gapless_def sample_event_db_def)

theorem event_log_consistent_witness:
  "log_ok (fold (\<lambda>(ev, re) db. snd (InTx (EventRepo_Append sample_codec ev re) db))
     [(sample_event ''evt_1'', None), (sample_event ''evt_2'', None)] sample_event_db)"
  by (rule event_log_consistent [OF sample_log_ok])

text \<open>
  A consumer that follows the stream with its last sequence number misses nothing and sees
  nothing twice: over a consistent log a page after cursor \<open>after\<close> holds exactly the next numbers in
  order, up to the limit (1000 at most, 500 by default), and the cursor is never expired.
\<close>

theorem since_returns_next_page:
  assumes "log_ok db" and "0 \<le> after" and "EventRepo_Since cd ws after limit db = (r, db')"
  shows "r \<noteq> Inl SinceCursorExpired \<and>
    (\<forall>evs. r = Inr evs \<longrightarrow> map ce_StreamSeq evs =
       [after + 1..min (latest_seq (db_stream db) ws) (after + (if limit \<le> 0 \<or> limit > 1000 then 500 else limit))]) \<and>
    db_stream db' = db_stream db"
proof -
  have "gapless (\<lambda>r. sr_WorkspaceID r = ws) sr_StreamSeq (db_stream db)" using assms(1) by (simp add: log_ok_def)
  from since_page [OF assms(3) this assms(2)] show ?thesis .
qed

theorem since_returns_next_page_witness:
  "map ce_StreamSeq (sum.projr (fst (EventRepo_Since sample_codec ''ws_1'' 0 10
     (snd (InTx (EventRepo_Append sample_codec (sample_event ''evt_1'') None) (sample_event_db\<lparr>cn_step := 10\<rparr>)))))) = [1]"
proof -
  let ?start = "sample_event_db\<lparr>cn_step := 10\<rparr>"
  let ?db = "snd (InTx (EventRepo_Append sample_codec (sample_event ''evt_1'') None) ?start)"
  have "log_ok ?start" using sample_log_ok by (simp add: log_ok_def)
  from append_tx_ok [OF this] have ok: "log_ok ?db" .
  have k: "IsKnownEventName ''activity.appended''" "\<not> IsInternalEventName ''activity.appended''"
    by (simp_all add: IsKnownEventName_def eventNameWhitelist_def IsInternalEventName_def internalEventNames_def)
  have db: "db_stream ?db = [\<lparr>sr_WorkspaceID = ''ws_1'', sr_StreamSeq = 1, sr_EventID = ''evt_1'',
      sr_EventType = ''activity.appended'', sr_AggregateType = ''workspace'', sr_AggregateID = ''ws_1'',
      sr_AggregateVersion = 0, sr_Payload = ''{}'', sr_OccurredAt = 5\<rparr>]" "cn_env ?db = (\<lambda>n. (n = 3, 50))" "3 < cn_step ?db"
    by (simp_all add: InTx_def exec_stmt_def EventRepo_Append_def bindM_def returnM_def insert_stream_def insert_outbox_def
        latest_seq_def k sample_event_def sample_event_db_def sample_codec_def Let_def)
  obtain evs db' where s: "EventRepo_Since sample_codec ''ws_1'' 0 10 ?db = (Inr evs, db')"
    using db by (auto simp: EventRepo_Since_def query_stmt_def exec_stmt_def min_seq_def sample_codec_def Let_def)
  have "map ce_StreamSeq evs = [1..min (latest_seq (db_stream ?db) ''ws_1'') 10]"
    using since_returns_next_page [OF ok _ s] by simp
  moreover have "latest_seq (db_stream ?db) ''ws_1'' = 1" unfolding db by (simp add: latest_seq_def)
  ultimately show ?thesis unfolding s by simp
qed

end
