(* ===== verification/Wakeups.thy ===== *)
theory Wakeups
  imports EventLog Templates "HOL-Library.AList"
begin

text \<open>
  Wake-up requests (\<^verbatim>\<open>internal/domain/wakeup.go\<close>), their repository
  (\<^verbatim>\<open>internal/persistence/sqlstore/wakeups.go\<close>, migration 0005) and the enqueue helper
  (\<^verbatim>\<open>internal/scheduling/coalesce.go\<close>). Instants are compared as the texts that the database
  holds; the JSON of a context is written and read by a codec parameter. The foreign key of a
  request to its workspace is not modelled.
\<close>

section \<open>Requests\<close>

datatype WakeupSource = WakeupSourceTimer | WakeupSourceAssignment | WakeupSourceOnDemand
  | WakeupSourceAutomation | WakeupSourceOther string

fun ValidWakeupSource :: "WakeupSource \<Rightarrow> bool" where
  "ValidWakeupSource (WakeupSourceOther _) = False"
| "ValidWakeupSource _ = True"

datatype WakeupStatus = WakeupStatusQueued | WakeupStatusCoalesced | WakeupStatusConsumed

record WakeupRequest =
  wk_ID :: string
  wk_WorkspaceID :: string
  wk_AgentProfileID :: string
  wk_Source :: WakeupSource
  wk_TaskKey :: string
  wk_Context :: gomap
  wk_Status :: WakeupStatus
  wk_WakeAt :: time
  wk_CreatedAt :: time
  wk_UpdatedAt :: time

text \<open>\<^verbatim>\<open>encoding/json\<close> on maps; None is an error.\<close>

record MapCodec =
  mc_Marshal :: "gomap \<Rightarrow> string option"
  mc_Unmarshal :: "string \<Rightarrow> gomap option"

definition WakeupRequest_ContextJSON :: "MapCodec \<Rightarrow> gomap \<Rightarrow> string" where
  "WakeupRequest_ContextJSON mc c =
     (if c = [] then ''{}''
      else case mc_Marshal mc c of None \<Rightarrow> ''{}'' | Some b \<Rightarrow> if b = '''' then ''{}'' else b)"

definition WakeupRequest_Instruction :: "WakeupRequest \<Rightarrow> string" where
  "WakeupRequest_Instruction w = string_or_empty (wk_Context w) ''instruction''"

section \<open>The repository\<close>

record WakeupRow =
  wr_ID :: string
  wr_WorkspaceID :: string
  wr_AgentProfileID :: string
  wr_Source :: WakeupSource
  wr_TaskKey :: string
  wr_Context :: string
  wr_Status :: WakeupStatus
  wr_WakeAt :: time
  wr_CreatedAt :: time
  wr_UpdatedAt :: time

record SchedDb = EventDb +
  db_items :: "WorkItem list"
  db_agents :: "AgentProfile list"
  db_wakeups :: "WakeupRow list"

definition scan_wakeup :: "MapCodec \<Rightarrow> WakeupRow \<Rightarrow> WakeupRequest" where
  "scan_wakeup mc r =
     \<lparr>wk_ID = wr_ID r, wk_WorkspaceID = wr_WorkspaceID r, wk_AgentProfileID = wr_AgentProfileID r,
      wk_Source = wr_Source r, wk_TaskKey = wr_TaskKey r,
      wk_Context = (case mc_Unmarshal mc (wr_Context r) of None \<Rightarrow> [] | Some c \<Rightarrow> c),
      wk_Status = wr_Status r, wk_WakeAt = wr_WakeAt r, wk_CreatedAt = wr_CreatedAt r,
      wk_UpdatedAt = wr_UpdatedAt r\<rparr>"

definition WakeupRepo_EnqueueWakeup ::
  "MapCodec \<Rightarrow> WakeupRequest \<Rightarrow> 'a SchedDb_scheme \<Rightarrow> (go_error + unit) \<times> 'a SchedDb_scheme" where
  "WakeupRepo_EnqueueWakeup mc w = exec_stmt (\<lambda>_ db.
     if \<not> ValidWakeupSource (wk_Source w) then (Inl (ErrOther ''CHECK constraint failed''), db)
     else if list_ex (\<lambda>r. wr_ID r = wk_ID w) (db_wakeups db) then (Inl ErrIdempotencyConflict, db)
     else (Inr (), db\<lparr>db_wakeups := db_wakeups db @
       [\<lparr>wr_ID = wk_ID w, wr_WorkspaceID = wk_WorkspaceID w, wr_AgentProfileID = wk_AgentProfileID w,
         wr_Source = wk_Source w, wr_TaskKey = wk_TaskKey w,
         wr_Context = WakeupRequest_ContextJSON mc (wk_Context w), wr_Status = wk_Status w,
         wr_WakeAt = wk_WakeAt w, wr_CreatedAt = wk_CreatedAt w, wr_UpdatedAt = wk_UpdatedAt w\<rparr>]\<rparr>))"

definition WakeupRepo_DueTimers ::
  "MapCodec \<Rightarrow> time \<Rightarrow> nat \<Rightarrow> 'a SchedDb_scheme \<Rightarrow> (go_error + WakeupRequest list) \<times> 'a SchedDb_scheme" where
  "WakeupRepo_DueTimers mc now limit = query_stmt (\<lambda>_ db.
     Inr (map (scan_wakeup mc) (take limit (sort_key (\<lambda>r. timeParam (wr_WakeAt r))
       (filter (\<lambda>r. wr_Status r = WakeupStatusQueued \<and> timeParam (wr_WakeAt r) \<le> timeParam now) (db_wakeups db))))))"

text \<open>The conditional update: it reports \<^verbatim>\<open>ErrWakeupNotQueued\<close> when no row was in the old status.\<close>

definition move_status ::
  "string \<Rightarrow> WakeupStatus \<Rightarrow> WakeupStatus \<Rightarrow> 'a SchedDb_scheme \<Rightarrow> (go_error + unit) \<times> 'a SchedDb_scheme" where
  "move_status i old new = exec_stmt (\<lambda>t db.
     (if list_ex (\<lambda>r. wr_ID r = i \<and> wr_Status r = old) (db_wakeups db) then Inr () else Inl ErrWakeupNotQueued,
      db\<lparr>db_wakeups := map (\<lambda>r. if wr_ID r = i \<and> wr_Status r = old
          then r\<lparr>wr_Status := new, wr_UpdatedAt := t\<rparr> else r) (db_wakeups db)\<rparr>))"

definition WakeupRepo_MarkWakeupStatus ::
  "string \<Rightarrow> WakeupStatus \<Rightarrow> 'a SchedDb_scheme \<Rightarrow> (go_error + unit) \<times> 'a SchedDb_scheme" where
  "WakeupRepo_MarkWakeupStatus i status = move_status i WakeupStatusQueued status"

definition WakeupRepo_RequeueWakeup :: "string \<Rightarrow> 'a SchedDb_scheme \<Rightarrow> (go_error + unit) \<times> 'a SchedDb_scheme" where
  "WakeupRepo_RequeueWakeup i = move_status i WakeupStatusConsumed WakeupStatusQueued"

definition WakeupRepo_SetWakeupContext ::
  "MapCodec \<Rightarrow> string \<Rightarrow> gomap \<Rightarrow> 'a SchedDb_scheme \<Rightarrow> (go_error + unit) \<times> 'a SchedDb_scheme" where
  "WakeupRepo_SetWakeupContext mc i c = exec_stmt (\<lambda>t db. (Inr (),
     db\<lparr>db_wakeups := map (\<lambda>r. if wr_ID r = i
       then r\<lparr>wr_Context := WakeupRequest_ContextJSON mc c, wr_UpdatedAt := t\<rparr> else r) (db_wakeups db)\<rparr>))"

definition WakeupRepo_HasQueuedTimer ::
  "string \<Rightarrow> string \<Rightarrow> 'a SchedDb_scheme \<Rightarrow> (go_error + bool) \<times> 'a SchedDb_scheme" where
  "WakeupRepo_HasQueuedTimer agentProfileID taskKey = query_stmt (\<lambda>_ db.
     Inr (list_ex (\<lambda>r. wr_AgentProfileID r = agentProfileID \<and> wr_TaskKey r = taskKey \<and>
       wr_Source r = WakeupSourceTimer \<and> wr_Status r = WakeupStatusQueued) (db_wakeups db)))"

definition WakeupRepo_ListHeartbeatAgents ::
  "'a SchedDb_scheme \<Rightarrow> (go_error + AgentProfile list) \<times> 'a SchedDb_scheme" where
  "WakeupRepo_ListHeartbeatAgents = query_stmt (\<lambda>_ db.
     Inr (sort_key (\<lambda>a. timeParam (ag_CreatedAt a))
       (filter (\<lambda>a. ag_Availability a = AgentEnabled \<and> ag_HeartbeatEnabled a \<and> ag_Kind a = AgentProfileKindUser)
         (db_agents db))))"

record TaskRef =
  tr_Key :: string
  tr_Title :: string

definition WakeupRepo_AssignedTasks ::
  "string \<Rightarrow> 'a SchedDb_scheme \<Rightarrow> (go_error + TaskRef list) \<times> 'a SchedDb_scheme" where
  "WakeupRepo_AssignedTasks agentProfileID = query_stmt (\<lambda>_ db.
     Inr (map (\<lambda>w. \<lparr>tr_Key = wi_ID w, tr_Title = wi_Title w\<rparr>) (sort_key (\<lambda>w. timeParam (wi_CreatedAt w))
       (filter (\<lambda>w. wi_AgentProfileID w = agentProfileID \<and> wi_RecordKind w = RecordKindTask \<and>
          wi_Status w \<in> {WorkItemTodo, WorkItemInProgress, WorkItemBlocked}) (db_items db)))))"

definition WakeupRepo_RecentByAgentTask ::
  "MapCodec \<Rightarrow> string \<Rightarrow> string \<Rightarrow> time \<Rightarrow> 'a SchedDb_scheme \<Rightarrow> (go_error + WakeupRequest list) \<times> 'a SchedDb_scheme" where
  "WakeupRepo_RecentByAgentTask mc agentProfileID taskKey since = query_stmt (\<lambda>_ db.
     Inr (map (scan_wakeup mc) (rev (sort_key (\<lambda>r. timeParam (wr_CreatedAt r))
       (filter (\<lambda>r. wr_AgentProfileID r = agentProfileID \<and> wr_TaskKey r = taskKey \<and>
          timeParam since \<le> timeParam (wr_CreatedAt r)) (db_wakeups db))))))"

definition may_claim :: "string \<Rightarrow> time \<Rightarrow> AgentProfile \<Rightarrow> bool" where
  "may_claim agentProfileID deadline a \<longleftrightarrow> ag_ID a = agentProfileID \<and>
     (case ag_LastHeartbeatAt a of None \<Rightarrow> True | Some t \<Rightarrow> timeParam t \<le> timeParam deadline)"

definition WakeupRepo_ClaimHeartbeat ::
  "string \<Rightarrow> int \<Rightarrow> time \<Rightarrow> 'a SchedDb_scheme \<Rightarrow> (go_error + bool) \<times> 'a SchedDb_scheme" where
  "WakeupRepo_ClaimHeartbeat agentProfileID minInterval now = exec_stmt (\<lambda>_ db.
     (Inr (list_ex (may_claim agentProfileID (now - minInterval)) (db_agents db)),
      db\<lparr>db_agents := map (\<lambda>a. if may_claim agentProfileID (now - minInterval) a
        then a\<lparr>ag_LastHeartbeatAt := Some now\<rparr> else a) (db_agents db)\<rparr>))"

definition WakeupRepo_ReleaseHeartbeatClaim ::
  "string \<Rightarrow> time \<Rightarrow> 'a SchedDb_scheme \<Rightarrow> (go_error + unit) \<times> 'a SchedDb_scheme" where
  "WakeupRepo_ReleaseHeartbeatClaim agentProfileID claimedAt = exec_stmt (\<lambda>_ db. (Inr (),
     db\<lparr>db_agents := map (\<lambda>a. if ag_ID a = agentProfileID \<and>
         map_option timeParam (ag_LastHeartbeatAt a) = Some (timeParam claimedAt)
       then a\<lparr>ag_LastHeartbeatAt := None\<rparr> else a) (db_agents db)\<rparr>))"

text \<open>The newest run by creation time, then by id.\<close>

definition newer_run :: "ExecutionRun \<Rightarrow> ExecutionRun \<Rightarrow> bool" where
  "newer_run r b \<longleftrightarrow> timeParam (rn_CreatedAt b) < timeParam (rn_CreatedAt r) \<or>
     timeParam (rn_CreatedAt b) = timeParam (rn_CreatedAt r) \<and> rn_ID b < rn_ID r"

fun newest_run :: "ExecutionRun list \<Rightarrow> ExecutionRun option" where
  "newest_run [] = None"
| "newest_run (r # rs) = (case newest_run rs of None \<Rightarrow> Some r | Some b \<Rightarrow> Some (if newer_run r b then r else b))"

definition lease_alive :: "LeaseRow list \<Rightarrow> time \<Rightarrow> string \<Rightarrow> bool" where
  "lease_alive leases t i \<longleftrightarrow>
     list_ex (\<lambda>l. lr_RunID l = i \<and> lr_ReleasedAt l = None \<and> timeParam t < timeParam (lr_RenewedUntil l)) leases \<or>
     \<not> list_ex (\<lambda>l. lr_RunID l = i) leases"

definition active_runs :: "'a SchedDb_scheme \<Rightarrow> string \<Rightarrow> string \<Rightarrow> ExecutionRun list" where
  "active_runs db agentProfileID taskKey =
     filter (\<lambda>r. rn_AgentProfileID r = agentProfileID \<and> rn_WorkItemID r = taskKey \<and>
         list_ex (\<lambda>w. wi_ID w = taskKey \<and> wi_RecordKind w = RecordKindTask) (db_items db) \<and>
         \<not> RunStatus_IsTerminal (rn_Status r)) (db_runs db)"

definition WakeupRepo_ActiveRunKeyForAgentTask ::
  "string \<Rightarrow> string \<Rightarrow> 'a SchedDb_scheme \<Rightarrow> (go_error + string \<times> bool) \<times> 'a SchedDb_scheme" where
  "WakeupRepo_ActiveRunKeyForAgentTask agentProfileID taskKey = query_stmt (\<lambda>t db.
     case newest_run (active_runs db agentProfileID taskKey) of
       None \<Rightarrow> Inr ('''', False)
     | Some r \<Rightarrow> Inr (rn_ID r, lease_alive (db_leases db) t (rn_ID r)))"

definition WakeupRepo_GetAgentProfile ::
  "string \<Rightarrow> 'a SchedDb_scheme \<Rightarrow> (go_error + AgentProfile) \<times> 'a SchedDb_scheme" where
  "WakeupRepo_GetAgentProfile i = query_stmt (\<lambda>_ db.
     case List.find (\<lambda>a. ag_ID a = i) (db_agents db) of None \<Rightarrow> Inl ErrNotFound | Some a \<Rightarrow> Inr a)"

end
