(* ===== verification/Scheduler.thy ===== *)
theory Scheduler
  imports Wakeups
begin

text \<open>
  The wake-up scheduler: \<^verbatim>\<open>internal/scheduling/loop.go\<close> and the enqueue helper of
  \<^verbatim>\<open>internal/scheduling/coalesce.go\<close>. As in the code, the store, the run starter, its optional
  preflight, the input forwarder and the lock sweeper are interfaces: records of functions over a
  state. Random ids and the clock are readings of that state. Logging is left out.
\<close>

section \<open>Interfaces\<close>

record 's SchedStore =
  st_EnqueueWakeup :: "WakeupRequest \<Rightarrow> 's \<Rightarrow> (go_error + unit) \<times> 's"
  st_DueTimers :: "time \<Rightarrow> nat \<Rightarrow> 's \<Rightarrow> (go_error + WakeupRequest list) \<times> 's"
  st_MarkWakeupStatus :: "string \<Rightarrow> WakeupStatus \<Rightarrow> 's \<Rightarrow> (go_error + unit) \<times> 's"
  st_RequeueWakeup :: "string \<Rightarrow> 's \<Rightarrow> (go_error + unit) \<times> 's"
  st_SetWakeupContext :: "string \<Rightarrow> gomap \<Rightarrow> 's \<Rightarrow> (go_error + unit) \<times> 's"
  st_ClaimHeartbeat :: "string \<Rightarrow> int \<Rightarrow> time \<Rightarrow> 's \<Rightarrow> (go_error + bool) \<times> 's"
  st_ReleaseHeartbeatClaim :: "string \<Rightarrow> time \<Rightarrow> 's \<Rightarrow> (go_error + unit) \<times> 's"
  st_ActiveRunKeyForAgentTask :: "string \<Rightarrow> string \<Rightarrow> 's \<Rightarrow> (go_error + string \<times> bool) \<times> 's"
  st_GetAgentProfile :: "string \<Rightarrow> 's \<Rightarrow> (go_error + AgentProfile) \<times> 's"
  st_ListHeartbeatAgents :: "'s \<Rightarrow> (go_error + AgentProfile list) \<times> 's"
  st_AssignedTasks :: "string \<Rightarrow> 's \<Rightarrow> (go_error + TaskRef list) \<times> 's"
  st_HasQueuedTimer :: "string \<Rightarrow> string \<Rightarrow> 's \<Rightarrow> (go_error + bool) \<times> 's"

definition ErrWakeupNoop :: go_error where
  "ErrWakeupNoop = ErrOther ''wakeup: intentional no-op''"

definition ErrWakeupDeferred :: go_error where
  "ErrWakeupDeferred = ErrOther ''wakeup: deferred''"

record 's Scheduler =
  sc_Store :: "'s SchedStore"
  sc_CreateRun :: "string \<Rightarrow> string \<Rightarrow> string \<Rightarrow> string \<Rightarrow> gomap \<Rightarrow> 's \<Rightarrow> (go_error + string) \<times> 's"
  sc_Preflight :: "(string \<Rightarrow> string \<Rightarrow> string \<Rightarrow> 's \<Rightarrow> (go_error + unit) \<times> 's) option"
  sc_Interval :: int
  sc_HeartbeatDefault :: int
  sc_ForwardInput :: "(string \<Rightarrow> string \<Rightarrow> 's \<Rightarrow> (go_error + unit) \<times> 's) option"
  sc_StaleLocks :: "(time \<Rightarrow> 's \<Rightarrow> (go_error + nat) \<times> 's) option"
  sc_NewID :: "'s \<Rightarrow> string"
  sc_Now :: "'s \<Rightarrow> time"

datatype Outcome = OutcomeConsumed | OutcomeCoalesced | OutcomeQueued

type_synonym consumed = "Outcome \<times> go_error option"

definition DefaultTickInterval :: int where "DefaultTickInterval = 30000000000"
definition dueTimersLimit :: nat where "dueTimersLimit = 50"
definition maxWakeupAge :: int where "maxWakeupAge = 3600000000000"
definition staleLockAge :: int where "staleLockAge = 1800000000000"
definition staleLockSweepInterval :: int where "staleLockSweepInterval = 300000000000"
definition DefaultHeartbeatIntervalSec :: int where "DefaultHeartbeatIntervalSec = 1800"

definition tickInterval :: "'s Scheduler \<Rightarrow> int" where
  "tickInterval S = (if sc_Interval S > 0 then sc_Interval S else DefaultTickInterval)"

definition heartbeatInterval :: "'s Scheduler \<Rightarrow> int \<Rightarrow> int" where
  "heartbeatInterval S profileSec =
     (if profileSec > 0 then wrap64 (profileSec * 1000000000)
      else let d = (if sc_HeartbeatDefault S \<le> 0 then DefaultHeartbeatIntervalSec else sc_HeartbeatDefault S)
           in wrap64 (d * 1000000000))"

section \<open>Consuming one request\<close>

definition isSettlementWakeup :: "WakeupRequest \<Rightarrow> bool" where
  "isSettlementWakeup w \<longleftrightarrow> wk_Source w = WakeupSourceAutomation \<and>
     TrimSpace (string_or_empty (wk_Context w) ''settle_dispatch_id'') \<noteq> ''''"

definition isCoordinatorPlanAutomation :: "WakeupRequest \<Rightarrow> AgentProfile \<Rightarrow> bool" where
  "isCoordinatorPlanAutomation w profile \<longleftrightarrow>
     wk_Source w = WakeupSourceAutomation \<and> AgentProfileKind_IsSystem (ag_Kind profile) \<and>
     (case get_string (wk_Context w) ''plan_id'' of None \<Rightarrow> False | Some planID \<Rightarrow> TrimSpace planID \<noteq> '''') \<and>
     string_or_empty (wk_Context w) ''trigger'' \<in> {''defer_wake_at'', ''children_quiet''}"

definition workItemTitle :: "WakeupRequest \<Rightarrow> string" where
  "workItemTitle w = (case get_string (wk_Context w) ''work_item_title'' of
     Some title \<Rightarrow> if title \<noteq> '''' then title else wk_TaskKey w | None \<Rightarrow> wk_TaskKey w)"

definition coalesce :: "'s Scheduler \<Rightarrow> WakeupRequest \<Rightarrow> 's \<Rightarrow> consumed \<times> 's" where
  "coalesce S w s =
     (case st_MarkWakeupStatus (sc_Store S) (wk_ID w) WakeupStatusCoalesced s of
        (Inl e, s1) \<Rightarrow> (if e = ErrWakeupNotQueued then (OutcomeConsumed, None) else (OutcomeQueued, Some e), s1)
      | (Inr _, s1) \<Rightarrow> ((OutcomeCoalesced, None), s1))"

definition retryOrExpire :: "'s Scheduler \<Rightarrow> WakeupRequest \<Rightarrow> time \<Rightarrow> bool \<Rightarrow> 's \<Rightarrow> consumed \<times> 's" where
  "retryOrExpire S w now coordinatorAutomation s =
     (if isSettlementWakeup w \<or> coordinatorAutomation then ((OutcomeQueued, None), s)
      else if wk_WakeAt w < now - maxWakeupAge then coalesce S w s
      else ((OutcomeQueued, None), s))"

definition forwardOrAudit :: "'s Scheduler \<Rightarrow> WakeupRequest \<Rightarrow> string \<Rightarrow> 's \<Rightarrow> 's" where
  "forwardOrAudit S w runID s =
     (let instruction = TrimSpace (WakeupRequest_Instruction w);
          audit = (\<lambda>s. snd (st_SetWakeupContext (sc_Store S) (wk_ID w)
            (AList.update ''coalesced_instruction'' (VStr instruction) (wk_Context w)) s))
      in if instruction = '''' then s
         else case sc_ForwardInput S of
           None \<Rightarrow> audit s
         | Some forward \<Rightarrow> (case forward runID instruction s of (Inl e, s1) \<Rightarrow> audit s1 | (Inr _, s1) \<Rightarrow> s1))"

text \<open>
  The steps of \<^verbatim>\<open>ConsumeOne\<close>: each returns from the function (on the left) or goes on. The gate
  yields whether a heartbeat was claimed.
\<close>

definition thenM :: "('s \<Rightarrow> ('r + 'a) \<times> 's) \<Rightarrow> ('a \<Rightarrow> 's \<Rightarrow> 'r \<times> 's) \<Rightarrow> 's \<Rightarrow> 'r \<times> 's" where
  "thenM f g s = (case f s of (Inl r, s1) \<Rightarrow> (r, s1) | (Inr x, s1) \<Rightarrow> g x s1)"

definition leave :: "('s \<Rightarrow> 'r \<times> 's) \<Rightarrow> 's \<Rightarrow> ('r + 'a) \<times> 's" where
  "leave f s = (case f s of (r, s1) \<Rightarrow> (Inl r, s1))"

definition preflight_step :: "'s Scheduler \<Rightarrow> WakeupRequest \<Rightarrow> bool \<Rightarrow> time \<Rightarrow> 's \<Rightarrow> (consumed + unit) \<times> 's" where
  "preflight_step S w coordinatorAutomation now s =
     (case sc_Preflight S of
        None \<Rightarrow> (Inr (), s)
      | Some preflight \<Rightarrow>
          (case preflight (wk_WorkspaceID w) (wk_AgentProfileID w) (wk_TaskKey w) s of
             (Inr _, s1) \<Rightarrow> (Inr (), s1)
           | (Inl e, s1) \<Rightarrow>
               if e = ErrWakeupDeferred then (Inl (OutcomeQueued, None), s1)
               else if e = ErrWakeupNoop then
                 (case st_MarkWakeupStatus (sc_Store S) (wk_ID w) WakeupStatusConsumed s1 of
                    (Inl me, s2) \<Rightarrow> (Inl (if me \<noteq> ErrWakeupNotQueued then (OutcomeQueued, Some me)
                                         else (OutcomeConsumed, None)), s2)
                  | (Inr _, s2) \<Rightarrow> (Inl (OutcomeConsumed, None), s2))
               else leave (retryOrExpire S w now coordinatorAutomation) s1))"

definition claim_step ::
  "'s Scheduler \<Rightarrow> WakeupRequest \<Rightarrow> HeartbeatPolicy \<Rightarrow> bool \<Rightarrow> time \<Rightarrow> 's \<Rightarrow> (consumed + bool) \<times> 's" where
  "claim_step S w policy coordinatorAutomation now s =
     (if \<not> hb_Enabled policy then leave (coalesce S w) s
      else case st_ClaimHeartbeat (sc_Store S) (wk_AgentProfileID w) (heartbeatInterval S (hb_IntervalSec policy)) now s of
        (Inl e, s1) \<Rightarrow> leave (retryOrExpire S w now coordinatorAutomation) s1
      | (Inr claimed, s1) \<Rightarrow> if \<not> claimed then leave (coalesce S w) s1 else (Inr True, s1))"

definition gate_step ::
  "'s Scheduler \<Rightarrow> WakeupRequest \<Rightarrow> HeartbeatPolicy \<Rightarrow> bool \<Rightarrow> time \<Rightarrow> 's \<Rightarrow> (consumed + bool) \<times> 's" where
  "gate_step S w policy coordinatorAutomation now s =
     (case wk_Source w of
        WakeupSourceTimer \<Rightarrow> claim_step S w policy coordinatorAutomation now s
      | WakeupSourceAutomation \<Rightarrow>
          if isSettlementWakeup w \<or> coordinatorAutomation then (Inr False, s)
          else claim_step S w policy coordinatorAutomation now s
      | WakeupSourceAssignment \<Rightarrow> if \<not> hb_WakeOnAssignment policy then leave (coalesce S w) s else (Inr False, s)
      | WakeupSourceOnDemand \<Rightarrow> if \<not> hb_WakeOnDemand policy then leave (coalesce S w) s else (Inr False, s)
      | WakeupSourceOther _ \<Rightarrow> (Inr False, s))"

definition releaseClaim :: "'s Scheduler \<Rightarrow> WakeupRequest \<Rightarrow> bool \<Rightarrow> time \<Rightarrow> 's \<Rightarrow> 's" where
  "releaseClaim S w claimed now s =
     (if claimed then snd (st_ReleaseHeartbeatClaim (sc_Store S) (wk_AgentProfileID w) now s) else s)"

definition active_step ::
  "'s Scheduler \<Rightarrow> WakeupRequest \<Rightarrow> bool \<Rightarrow> bool \<Rightarrow> time \<Rightarrow> 's \<Rightarrow> (consumed + unit) \<times> 's" where
  "active_step S w coordinatorAutomation claimed now s =
     (case st_ActiveRunKeyForAgentTask (sc_Store S) (wk_AgentProfileID w) (wk_TaskKey w) s of
        (Inl e, s1) \<Rightarrow> leave (retryOrExpire S w now coordinatorAutomation) (releaseClaim S w claimed now s1)
      | (Inr (runID, alive), s1) \<Rightarrow>
          if \<not> alive then (Inr (), s1)
          else if isSettlementWakeup w \<or> coordinatorAutomation then (Inl (OutcomeQueued, None), s1)
          else leave (coalesce S w) (forwardOrAudit S w runID s1))"

definition take_step ::
  "'s Scheduler \<Rightarrow> WakeupRequest \<Rightarrow> bool \<Rightarrow> bool \<Rightarrow> time \<Rightarrow> 's \<Rightarrow> (consumed + unit) \<times> 's" where
  "take_step S w coordinatorAutomation claimed now s =
     (case st_MarkWakeupStatus (sc_Store S) (wk_ID w) WakeupStatusConsumed s of
        (Inr _, s1) \<Rightarrow> (Inr (), s1)
      | (Inl e, s1) \<Rightarrow>
          (let s2 = releaseClaim S w claimed now s1
           in if e = ErrWakeupNotQueued then (Inl (OutcomeConsumed, None), s2)
              else leave (retryOrExpire S w now coordinatorAutomation) s2))"

definition start_step ::
  "'s Scheduler \<Rightarrow> WakeupRequest \<Rightarrow> AgentProfile \<Rightarrow> bool \<Rightarrow> bool \<Rightarrow> time \<Rightarrow> 's \<Rightarrow> consumed \<times> 's" where
  "start_step S w profile coordinatorAutomation claimed now s =
     (case sc_CreateRun S (wk_WorkspaceID w) (wk_AgentProfileID w) (wk_TaskKey w)
             (RenderPrompt (hb_PromptTemplate (AgentProfile_Heartbeat profile)) (Some profile) (workItemTitle w) (wk_Context w))
             (wk_Context w) s of
        (Inr _, s1) \<Rightarrow> ((OutcomeConsumed, None), s1)
      | (Inl e, s1) \<Rightarrow>
          if e = ErrWakeupNoop then ((OutcomeConsumed, None), releaseClaim S w claimed now s1)
          else (case st_RequeueWakeup (sc_Store S) (wk_ID w) s1 of
             (rq, s2) \<Rightarrow>
               if e = ErrWakeupDeferred then
                 (case rq of Inl re \<Rightarrow> ((OutcomeQueued, Some re), s2)
                  | Inr _ \<Rightarrow> ((OutcomeQueued, None), releaseClaim S w claimed now s2))
               else retryOrExpire S w now coordinatorAutomation (releaseClaim S w claimed now s2)))"

definition ConsumeOne :: "'s Scheduler \<Rightarrow> WakeupRequest \<Rightarrow> time \<Rightarrow> 's \<Rightarrow> consumed \<times> 's" where
  "ConsumeOne S w now s =
     (case st_GetAgentProfile (sc_Store S) (wk_AgentProfileID w) s of
        (Inl e, s1) \<Rightarrow> retryOrExpire S w now False s1
      | (Inr profile, s1) \<Rightarrow>
          (let coordinatorAutomation = isCoordinatorPlanAutomation w profile
           in thenM (preflight_step S w coordinatorAutomation now) (\<lambda>_.
              thenM (gate_step S w (AgentProfile_Heartbeat profile) coordinatorAutomation now) (\<lambda>claimed.
              thenM (active_step S w coordinatorAutomation claimed now) (\<lambda>_.
              thenM (take_step S w coordinatorAutomation claimed now) (\<lambda>_.
              start_step S w profile coordinatorAutomation claimed now)))) s1))"

section \<open>Producing timers and the tick\<close>

definition EnqueueWakeup ::
  "('s \<Rightarrow> string) \<Rightarrow> ('s \<Rightarrow> time) \<Rightarrow> (WakeupRequest \<Rightarrow> 's \<Rightarrow> (go_error + unit) \<times> 's) \<Rightarrow> WakeupSource \<Rightarrow>
   string \<Rightarrow> string \<Rightarrow> string \<Rightarrow> gomap \<Rightarrow> time \<Rightarrow> 's \<Rightarrow> (go_error + WakeupRequest) \<times> 's" where
  "EnqueueWakeup newID clock store source workspaceID agentProfileID taskKey wakeContext wakeAt s =
     (if \<not> ValidWakeupSource source then (Inl (ErrOther ''invalid wakeup source''), s)
      else if taskKey = '''' then (Inl (ErrOther ''taskKey required''), s)
      else let now = clock s;
               w = \<lparr>wk_ID = newID s, wk_WorkspaceID = workspaceID, wk_AgentProfileID = agentProfileID,
                    wk_Source = source, wk_TaskKey = taskKey, wk_Context = wakeContext,
                    wk_Status = WakeupStatusQueued, wk_WakeAt = (if IsZero wakeAt then now else wakeAt),
                    wk_CreatedAt = now, wk_UpdatedAt = now\<rparr>
           in case store w s of (Inl e, s1) \<Rightarrow> (Inl e, s1) | (Inr _, s1) \<Rightarrow> (Inr w, s1))"

definition produce_task :: "'s Scheduler \<Rightarrow> AgentProfile \<Rightarrow> time \<Rightarrow> TaskRef \<Rightarrow> 's \<Rightarrow> 's" where
  "produce_task S agent now task s =
     (case st_HasQueuedTimer (sc_Store S) (ag_ID agent) (tr_Key task) s of
        (Inl e, s1) \<Rightarrow> s1
      | (Inr queued, s1) \<Rightarrow>
          if queued then s1
          else snd (EnqueueWakeup (sc_NewID S) (sc_Now S) (st_EnqueueWakeup (sc_Store S)) WakeupSourceTimer
                 (ag_WorkspaceID agent) (ag_ID agent) (tr_Key task) [(''work_item_title'', VStr (tr_Title task))] now s1))"

definition produce_agent :: "'s Scheduler \<Rightarrow> time \<Rightarrow> AgentProfile \<Rightarrow> 's \<Rightarrow> 's" where
  "produce_agent S now agent s =
     (if (case ag_LastHeartbeatAt agent of None \<Rightarrow> False
          | Some t \<Rightarrow> now - t < heartbeatInterval S (ag_HeartbeatIntervalSec agent)) then s
      else case st_AssignedTasks (sc_Store S) (ag_ID agent) s of
        (Inl e, s1) \<Rightarrow> s1
      | (Inr tasks, s1) \<Rightarrow> fold (produce_task S agent now) tasks s1)"

definition ProduceTimers :: "'s Scheduler \<Rightarrow> time \<Rightarrow> 's \<Rightarrow> 's" where
  "ProduceTimers S now s =
     (case st_ListHeartbeatAgents (sc_Store S) s of
        (Inl e, s1) \<Rightarrow> s1
      | (Inr agents, s1) \<Rightarrow> fold (produce_agent S now) agents s1)"

text \<open>The time of the last sweep is the scheduler's own state.\<close>

definition sweepStaleLocks :: "'s Scheduler \<Rightarrow> time \<Rightarrow> time \<times> 's \<Rightarrow> time \<times> 's" where
  "sweepStaleLocks S now st =
     (case sc_StaleLocks S of
        None \<Rightarrow> st
      | Some release \<Rightarrow>
          (let (lastLockSweep, s) = st
           in if \<not> IsZero lastLockSweep \<and> now - lastLockSweep < staleLockSweepInterval then st
              else (now, snd (release (now - staleLockAge) s))))"

definition Tick :: "'s Scheduler \<Rightarrow> time \<Rightarrow> time \<times> 's \<Rightarrow> time \<times> 's" where
  "Tick S now st =
     (let (sweep, s) = sweepStaleLocks S now st;
          s1 = ProduceTimers S now s
      in case st_DueTimers (sc_Store S) now dueTimersLimit s1 of
           (Inl e, s2) \<Rightarrow> (sweep, s2)
         | (Inr wakeups, s2) \<Rightarrow> (sweep, fold (\<lambda>w s. snd (ConsumeOne S w now s)) wakeups s2))"

section \<open>The contract of the store\<close>

text \<open>
  What the scheduler relies on, in terms of a view of the table: the requests with their source,
  agent, task and status. \<open>calm\<close> says that no statement fails from here on.
\<close>

type_synonym wake_view = "(string \<times> (WakeupSource \<times> string \<times> string) \<times> WakeupStatus) list"

definition move :: "string \<Rightarrow> WakeupStatus \<Rightarrow> WakeupStatus \<Rightarrow> wake_view \<Rightarrow> wake_view" where
  "move i old new v = map (\<lambda>(j, c, st). (j, c, if j = i \<and> st = old then new else st)) v"

definition has_status :: "string \<Rightarrow> WakeupStatus \<Rightarrow> wake_view \<Rightarrow> bool" where
  "has_status i st v \<longleftrightarrow> list_ex (\<lambda>(j, c, s). j = i \<and> s = st) v"

definition queued_timer :: "string \<times> (WakeupSource \<times> string \<times> string) \<times> WakeupStatus \<Rightarrow> bool" where
  "queued_timer x \<longleftrightarrow> fst (fst (snd x)) = WakeupSourceTimer \<and> snd (snd x) = WakeupStatusQueued"

definition view_ok :: "wake_view \<Rightarrow> bool" where
  "view_ok v \<longleftrightarrow> distinct (map fst v)"

definition quiet :: "('s \<Rightarrow> wake_view) \<Rightarrow> ('s \<Rightarrow> bool) \<Rightarrow> ('s \<Rightarrow> 'r \<times> 's) \<Rightarrow> bool" where
  "quiet view calm f \<longleftrightarrow> (\<forall>s. view (snd (f s)) = view s \<and> (calm s \<longrightarrow> calm (snd (f s))))"

definition moves :: "('s \<Rightarrow> wake_view) \<Rightarrow> ('s \<Rightarrow> bool) \<Rightarrow> string \<Rightarrow> WakeupStatus \<Rightarrow> WakeupStatus \<Rightarrow>
    ('s \<Rightarrow> (go_error + unit) \<times> 's) \<Rightarrow> bool" where
  "moves view calm i old new f \<longleftrightarrow> (\<forall>s. (calm s \<longrightarrow> calm (snd (f s))) \<and>
     (case fst (f s) of
        Inr _ \<Rightarrow> has_status i old (view s) \<and> view (snd (f s)) = move i old new (view s)
      | Inl e \<Rightarrow> view (snd (f s)) = view s \<and> (e = ErrWakeupNotQueued \<longrightarrow> \<not> has_status i old (view s)) \<and>
          (calm s \<longrightarrow> e = ErrWakeupNotQueued)))"

text \<open>A run starter may add requests of its own, but no timers, and leaves those there are.\<close>

definition adds_only :: "wake_view \<Rightarrow> wake_view \<Rightarrow> bool" where
  "adds_only v v' \<longleftrightarrow> take (length v) v' = v \<and> filter queued_timer (drop (length v) v') = [] \<and> (view_ok v \<longrightarrow> view_ok v')"

definition starter_ok :: "('s \<Rightarrow> wake_view) \<Rightarrow> ('s \<Rightarrow> bool) \<Rightarrow> 's Scheduler \<Rightarrow> bool" where
  "starter_ok view calm S \<longleftrightarrow>
     (\<forall>ws a k ins c s. adds_only (view s) (view (snd (sc_CreateRun S ws a k ins c s))) \<and>
        (calm s \<longrightarrow> calm (snd (sc_CreateRun S ws a k ins c s)))) \<and>
     (case sc_Preflight S of None \<Rightarrow> True | Some p \<Rightarrow> (\<forall>ws a k. quiet view calm (p ws a k))) \<and>
     (case sc_ForwardInput S of None \<Rightarrow> True | Some f \<Rightarrow> (\<forall>r i. quiet view calm (f r i))) \<and>
     (case sc_StaleLocks S of None \<Rightarrow> True | Some f \<Rightarrow> (\<forall>t. quiet view calm (f t)))"

locale wakeup_store =
  fixes St :: "'s SchedStore" and view :: "'s \<Rightarrow> wake_view" and calm :: "'s \<Rightarrow> bool"
  assumes mark: "moves view calm i WakeupStatusQueued st (st_MarkWakeupStatus St i st)"
    and requeue: "moves view calm i WakeupStatusConsumed WakeupStatusQueued (st_RequeueWakeup St i)"
    and set_context: "quiet view calm (st_SetWakeupContext St i c)"
    and claim: "quiet view calm (st_ClaimHeartbeat St a d t)"
    and release: "quiet view calm (st_ReleaseHeartbeatClaim St a t)"
    and active: "quiet view calm (st_ActiveRunKeyForAgentTask St a k)"
    and profile: "quiet view calm (st_GetAgentProfile St a)"
    and agents: "quiet view calm (st_ListHeartbeatAgents St)"
    and tasks: "quiet view calm (st_AssignedTasks St a)"
    and due: "quiet view calm (st_DueTimers St t n)"
    and has_timer: "quiet view calm (st_HasQueuedTimer St a k)"
    and has_timer_result: "fst (st_HasQueuedTimer St a k s) = Inr b \<Longrightarrow>
      b = list_ex (\<lambda>x. queued_timer x \<and> snd (fst (snd x)) = (a, k)) (view s)"
    and enqueue: "(case fst (st_EnqueueWakeup St w s) of
        Inl _ \<Rightarrow> view (snd (st_EnqueueWakeup St w s)) = view s
      | Inr _ \<Rightarrow> wk_ID w \<notin> set (map fst (view s)) \<and>
          view (snd (st_EnqueueWakeup St w s)) = view s @
            [(wk_ID w, (wk_Source w, wk_AgentProfileID w, wk_TaskKey w), wk_Status w)])"

section \<open>One request\<close>

lemma quietD: "quiet view calm f \<Longrightarrow> f s = (r, s') \<Longrightarrow> view s' = view s \<and> (calm s \<longrightarrow> calm s')"
  unfolding quiet_def by (metis snd_conv)

lemma movesD_ok: "moves view calm i old new f \<Longrightarrow> f s = (Inr u, s') \<Longrightarrow>
    has_status i old (view s) \<and> view s' = move i old new (view s) \<and> (calm s \<longrightarrow> calm s')"
  unfolding moves_def by (drule spec [of _ s]) simp

lemma movesD_error: "moves view calm i old new f \<Longrightarrow> f s = (Inl e, s') \<Longrightarrow>
    view s' = view s \<and> (e = ErrWakeupNotQueued \<longrightarrow> \<not> has_status i old (view s)) \<and>
    (calm s \<longrightarrow> e = ErrWakeupNotQueued) \<and> (calm s \<longrightarrow> calm s')"
  unfolding moves_def by (drule spec [of _ s]) simp

lemma move_same [simp]: "move i a a v = v"
  unfolding move_def by (rule map_idI) auto

lemma keys_move [simp]: "map fst (move i a b v) = map fst v"
  unfolding move_def by (simp add: comp_def case_prod_beta)

lemma view_ok_move [simp]: "view_ok (move i a b v) = view_ok v"
  unfolding view_ok_def by simp

lemma has_status_unique:
  "view_ok v \<Longrightarrow> has_status i a v \<Longrightarrow> has_status i b v \<Longrightarrow> a = b"
  unfolding view_ok_def has_status_def list_ex_iff distinct_map inj_on_def by force

lemma has_status_move: "has_status i a v \<Longrightarrow> has_status i b (move i a b v)"
  unfolding has_status_def move_def by (force simp: list_ex_iff)

lemma move_other: "\<not> has_status i a v \<Longrightarrow> move i a b v = v"
  unfolding move_def by (rule map_idI) (auto simp: has_status_def list_ex_iff)

lemma move_move:
  assumes "view_ok v" and "has_status i a v" and "a \<noteq> b"
  shows "move i b c (move i a b v) = move i a c v"
proof -
  have "(j, d, if j = i \<and> (if j = i \<and> st = a then b else st) = b then c else (if j = i \<and> st = a then b else st))
      = (j, d, if j = i \<and> st = a then c else st)" if "(j, d, st) \<in> set v" for j d st
  proof -
    have "\<not> (j = i \<and> st = b)"
      using has_status_unique [OF assms(1,2), of b] assms(3) that unfolding has_status_def list_ex_iff by force
    then show ?thesis by auto
  qed
  then show ?thesis unfolding move_def by (simp add: case_prod_beta comp_def) (metis (no_types, lifting) prod.collapse)
qed

text \<open>
  The effect of a call on request \<open>i\<close>: nothing unless it is queued; then it gets the status that
  the outcome tells, when nothing fails, and requests that are required are not coalesced.
\<close>

definition fate :: "string \<Rightarrow> bool \<Rightarrow> bool \<Rightarrow> wake_view \<Rightarrow> Outcome \<Rightarrow> wake_view \<Rightarrow> bool" where
  "fate i required quiet_env v out v' \<longleftrightarrow>
     (if has_status i WakeupStatusQueued v
      then \<exists>st. adds_only (move i WakeupStatusQueued st v) v' \<and>
         (out = OutcomeCoalesced \<longrightarrow> st = WakeupStatusCoalesced) \<and>
         (out = OutcomeConsumed \<longrightarrow> st = WakeupStatusConsumed) \<and>
         (required \<longrightarrow> st \<noteq> WakeupStatusCoalesced) \<and>
         (out = OutcomeQueued \<longrightarrow> st = WakeupStatusQueued \<or> \<not> quiet_env \<and> st = WakeupStatusConsumed)
      else v' = v \<and> out \<noteq> OutcomeCoalesced)"

lemma adds_only_refl [simp]: "adds_only v v"
  by (simp add: adds_only_def)

lemma fateI:
  assumes "has_status i WakeupStatusQueued v" and "v' = move i WakeupStatusQueued st v"
    and "out = OutcomeCoalesced \<Longrightarrow> st = WakeupStatusCoalesced" and "out = OutcomeConsumed \<Longrightarrow> st = WakeupStatusConsumed"
    and "required \<Longrightarrow> st \<noteq> WakeupStatusCoalesced"
    and "out = OutcomeQueued \<Longrightarrow> st = WakeupStatusQueued \<or> \<not> quiet_env \<and> st = WakeupStatusConsumed"
  shows "fate i required quiet_env v out v'"
  unfolding fate_def using assms by (simp, intro exI [of _ st]) simp

lemma fate_queued [simp]: "fate i required c v OutcomeQueued v"
  unfolding fate_def by (auto intro!: exI [of _ WakeupStatusQueued])

lemma fate_none: "\<not> has_status i WakeupStatusQueued v \<Longrightarrow> out \<noteq> OutcomeCoalesced \<Longrightarrow> fate i required c v out v"
  unfolding fate_def by auto

context wakeup_store
begin

lemma coalesce_fate:
  assumes "sc_Store S = St" and "coalesce S w s = ((out, e), s')"
  shows "fate (wk_ID w) False (calm s) (view s) out (view s') \<and> (calm s \<longrightarrow> calm s')"
proof (cases "st_MarkWakeupStatus St (wk_ID w) WakeupStatusCoalesced s")
  case (Pair r s1)
  show ?thesis
  proof (cases r)
    case (Inl x)
    with movesD_error [OF mark Pair [unfolded Inl]] assms Pair show ?thesis
      by (auto simp: coalesce_def split: if_splits intro!: fate_none)
  next
    case (Inr x)
    with movesD_ok [OF mark Pair [unfolded Inr]] assms Pair show ?thesis
      by (auto simp: coalesce_def intro!: fateI [where st = WakeupStatusCoalesced])
  qed
qed

lemma retry_fate:
  assumes "sc_Store S = St" and "retryOrExpire S w now c s = ((out, e), s')"
  shows "fate (wk_ID w) (isSettlementWakeup w \<or> c) (calm s) (view s) out (view s') \<and> (calm s \<longrightarrow> calm s')"
  using assms coalesce_fate [OF assms(1)] unfolding retryOrExpire_def by (auto split: if_splits)

lemma release_quiet: "sc_Store S = St \<Longrightarrow> quiet view calm (\<lambda>s. ((), releaseClaim S w claimed now s))"
  using release unfolding releaseClaim_def quiet_def by simp

end

text \<open>What a step leaves: a fate when it returns, the same requests when it goes on.\<close>

definition step_post :: "('s \<Rightarrow> wake_view) \<Rightarrow> ('s \<Rightarrow> bool) \<Rightarrow> string \<Rightarrow> bool \<Rightarrow> 's \<Rightarrow> (consumed + 'a) \<times> 's \<Rightarrow> bool" where
  "step_post view calm i required s res \<longleftrightarrow> (calm s \<longrightarrow> calm (snd res)) \<and>
     (\<forall>r. fst res = Inl r \<longrightarrow> fate i required (calm s) (view s) (fst r) (view (snd res))) \<and>
     (\<forall>x. fst res = Inr x \<longrightarrow> view (snd res) = view s)"

definition step_ok :: "('s \<Rightarrow> wake_view) \<Rightarrow> ('s \<Rightarrow> bool) \<Rightarrow> string \<Rightarrow> bool \<Rightarrow> ('s \<Rightarrow> (consumed + 'a) \<times> 's) \<Rightarrow> bool" where
  "step_ok view calm i required f \<longleftrightarrow> (\<forall>s. view_ok (view s) \<longrightarrow> step_post view calm i required s (f s))"

definition final_ok :: "('s \<Rightarrow> wake_view) \<Rightarrow> ('s \<Rightarrow> bool) \<Rightarrow> string \<Rightarrow> bool \<Rightarrow> ('s \<Rightarrow> consumed \<times> 's) \<Rightarrow> bool" where
  "final_ok view calm i required f \<longleftrightarrow> (\<forall>s. view_ok (view s) \<longrightarrow> (calm s \<longrightarrow> calm (snd (f s))) \<and>
     fate i required (calm s) (view s) (fst (fst (f s))) (view (snd (f s))))"

lemma final_okD: "final_ok view calm i required f \<Longrightarrow> view_ok (view s) \<Longrightarrow>
    (calm s \<longrightarrow> calm (snd (f s))) \<and> fate i required (calm s) (view s) (fst (fst (f s))) (view (snd (f s)))"
  unfolding final_ok_def by blast

lemma fate_calm: "fate i r (calm s1) v out v' \<Longrightarrow> (calm s \<longrightarrow> calm s1) \<Longrightarrow> fate i r (calm s) v out v'"
  unfolding fate_def by (cases "has_status i WakeupStatusQueued v"; simp; blast)

lemma thenM_final_ok:
  assumes f: "step_ok view calm i required f" and g: "\<And>x. final_ok view calm i required (g x)"
  shows "final_ok view calm i required (thenM f g)"
  unfolding final_ok_def
proof (intro allI impI)
  fix s assume ok: "view_ok (view s)"
  obtain r s1 where fs: "f s = (r, s1)" by (cases "f s")
  have a: "step_post view calm i required s (r, s1)" using f fs ok unfolding step_ok_def by metis
  show "(calm s \<longrightarrow> calm (snd (thenM f g s))) \<and>
      fate i required (calm s) (view s) (fst (fst (thenM f g s))) (view (snd (thenM f g s)))"
  proof (cases r)
    case (Inl x)
    then show ?thesis using a by (simp add: thenM_def fs step_post_def)
  next
    case (Inr x)
    have b: "(calm s1 \<longrightarrow> calm (snd (g x s1))) \<and> fate i required (calm s1) (view s1) (fst (fst (g x s1))) (view (snd (g x s1)))"
      by (rule final_okD [OF g]) (use a Inr ok in \<open>simp add: step_post_def\<close>)
    have c: "calm s \<longrightarrow> calm s1" "view s1 = view s" using a Inr by (simp_all add: step_post_def)
    show ?thesis using b c fate_calm [of i required calm s1 "view s" _ _ s] Inr by (simp add: thenM_def fs)
  qed
qed

lemma leave_step_ok: "final_ok view calm i required f \<Longrightarrow> step_ok view calm i required (leave f)"
  unfolding final_ok_def step_ok_def leave_def step_post_def by (simp add: case_prod_beta)

lemma fate_weaken: "fate i r c v out v' \<Longrightarrow> (r' \<Longrightarrow> r) \<Longrightarrow> fate i r' c v out v'"
  unfolding fate_def by (cases "has_status i WakeupStatusQueued v"; simp; blast)

lemma final_ok_weaken: "final_ok view calm i r f \<Longrightarrow> (r' \<Longrightarrow> r) \<Longrightarrow> final_ok view calm i r' f"
  unfolding final_ok_def using fate_weaken [of i r _ _ _ _ r'] by blast

text \<open>Calls that change no request, before a step.\<close>

lemma final_after:
  assumes "view s1 = view s" and "calm s \<longrightarrow> calm s1" and "view_ok (view s)" and "final_ok view calm i required g"
  shows "(calm s \<longrightarrow> calm (snd (g s1))) \<and> fate i required (calm s) (view s) (fst (fst (g s1))) (view (snd (g s1)))"
proof -
  have "(calm s1 \<longrightarrow> calm (snd (g s1))) \<and> fate i required (calm s1) (view s1) (fst (fst (g s1))) (view (snd (g s1)))"
    by (rule final_okD [OF assms(4)]) (simp add: assms(1,3))
  then show ?thesis using assms(1,2) fate_calm [of i required calm s1 "view s" _ _ s] by auto
qed

lemma leave_after:
  assumes "view s1 = view s \<and> (calm s \<longrightarrow> calm s1)" and "view_ok (view s)" and "final_ok view calm i required g"
  shows "step_post view calm i required s (leave g s1)"
  using final_after [of view s1 s calm i required g] assms by (simp add: leave_def case_prod_beta step_post_def)

context wakeup_store
begin

lemma coalesce_final: "sc_Store S = St \<Longrightarrow> \<not> required \<Longrightarrow> final_ok view calm (wk_ID w) required (coalesce S w)"
  unfolding final_ok_def using coalesce_fate by (metis prod.collapse)

lemma retry_final:
  assumes "sc_Store S = St" and "required \<Longrightarrow> isSettlementWakeup w \<or> c"
  shows "final_ok view calm (wk_ID w) required (retryOrExpire S w now c)"
proof -
  have "final_ok view calm (wk_ID w) (isSettlementWakeup w \<or> c) (retryOrExpire S w now c)"
    unfolding final_ok_def using retry_fate [OF assms(1)] by (metis prod.collapse)
  then show ?thesis by (rule final_ok_weaken) (rule assms(2))
qed

lemma preflight_ok:
  assumes S: "sc_Store S = St" "starter_ok view calm S" and req: "required \<Longrightarrow> isSettlementWakeup w \<or> c"
  shows "step_ok view calm (wk_ID w) required (preflight_step S w c now)"
proof (cases "sc_Preflight S")
  case None
  then show ?thesis by (simp add: step_ok_def step_post_def preflight_step_def)
next
  case (Some p)
  have q: "quiet view calm (p ws a k)" for ws a k using S(2) Some unfolding starter_ok_def by simp
  have "step_post view calm (wk_ID w) required s (preflight_step S w c now s)" if ok: "view_ok (view s)" for s
  proof (cases "p (wk_WorkspaceID w) (wk_AgentProfileID w) (wk_TaskKey w) s")
    case (Pair r s1)
    have qs: "view s1 = view s" "calm s \<Longrightarrow> calm s1" using quietD [OF q Pair] by auto
    show ?thesis
    proof (cases r)
      case (Inr u)
      then show ?thesis using Some Pair qs by (simp add: preflight_step_def step_post_def)
    next
      case (Inl e)
      consider "e = ErrWakeupDeferred" | "e \<noteq> ErrWakeupDeferred" "e = ErrWakeupNoop" | "e \<noteq> ErrWakeupDeferred" "e \<noteq> ErrWakeupNoop"
        by blast
      then show ?thesis
      proof cases
        case 1
        then show ?thesis using Some Pair Inl qs by (simp add: preflight_step_def step_post_def)
      next
        case 2
        obtain m s2 where m: "st_MarkWakeupStatus St (wk_ID w) WakeupStatusConsumed s1 = (m, s2)"
          by (cases "st_MarkWakeupStatus St (wk_ID w) WakeupStatusConsumed s1")
        show ?thesis
        proof (cases m)
          case m': (Inl me)
          have "view s2 = view s1 \<and> (me = ErrWakeupNotQueued \<longrightarrow> \<not> has_status (wk_ID w) WakeupStatusQueued (view s1)) \<and>
              (calm s1 \<longrightarrow> me = ErrWakeupNotQueued) \<and> (calm s1 \<longrightarrow> calm s2)"
            by (rule movesD_error [OF mark m [unfolded m']])
          then show ?thesis using Some Pair Inl 2 m m' qs S(1)
            by (cases "me = ErrWakeupNotQueued") (auto simp: preflight_step_def step_post_def intro!: fate_none)
        next
          case m': (Inr u)
          have "has_status (wk_ID w) WakeupStatusQueued (view s1) \<and>
              view s2 = move (wk_ID w) WakeupStatusQueued WakeupStatusConsumed (view s1) \<and> (calm s1 \<longrightarrow> calm s2)"
            by (rule movesD_ok [OF mark m [unfolded m']])
          then show ?thesis using Some Pair Inl 2 m m' qs S(1)
            by (auto simp: preflight_step_def step_post_def intro!: fateI [where st = WakeupStatusConsumed])
        qed
      next
        case 3
        then have "preflight_step S w c now s = leave (retryOrExpire S w now c) s1"
          using Some Pair Inl by (simp add: preflight_step_def)
        then show ?thesis using leave_after [OF quietD [OF q Pair] ok retry_final [OF S(1) req]] by simp
      qed
    qed
  qed
  then show ?thesis unfolding step_ok_def by blast
qed

lemma claim_ok:
  assumes S: "sc_Store S = St" and req: "required \<Longrightarrow> isSettlementWakeup w \<or> c" "\<not> required"
  shows "step_ok view calm (wk_ID w) required (claim_step S w p c now)"
proof -
  have "step_post view calm (wk_ID w) required s (claim_step S w p c now s)" if ok: "view_ok (view s)" for s
  proof (cases "hb_Enabled p")
    case False
    then have "claim_step S w p c now s = leave (coalesce S w) s" by (simp add: claim_step_def)
    then show ?thesis using leave_step_ok [OF coalesce_final [OF S req(2)]] ok unfolding step_ok_def by metis
  next
    case True
    obtain r s1 where r: "st_ClaimHeartbeat St (wk_AgentProfileID w) (heartbeatInterval S (hb_IntervalSec p)) now s = (r, s1)"
      by (cases "st_ClaimHeartbeat St (wk_AgentProfileID w) (heartbeatInterval S (hb_IntervalSec p)) now s")
    note qs = quietD [OF claim r]
    show ?thesis
    proof (cases r)
      case (Inl e)
      then have "claim_step S w p c now s = leave (retryOrExpire S w now c) s1" using True r S by (simp add: claim_step_def)
      then show ?thesis using leave_after [OF quietD [OF claim r] ok retry_final [OF S req(1)]] by simp
    next
      case (Inr b)
      show ?thesis
      proof (cases b)
        case True
        then show ?thesis using \<open>hb_Enabled p\<close> r S qs Inr by (simp add: claim_step_def step_post_def)
      next
        case False
        then have "claim_step S w p c now s = leave (coalesce S w) s1" using \<open>hb_Enabled p\<close> r S Inr by (simp add: claim_step_def)
        then show ?thesis using leave_after [OF quietD [OF claim r] ok coalesce_final [OF S req(2)]] by simp
      qed
    qed
  qed
  then show ?thesis unfolding step_ok_def by blast
qed

lemma gate_ok:
  assumes S: "sc_Store S = St" and req: "required \<Longrightarrow> isSettlementWakeup w \<or> c"
    and aut: "c \<Longrightarrow> wk_Source w = WakeupSourceAutomation"
  shows "step_ok view calm (wk_ID w) required (gate_step S w p c now)"
proof (cases "isSettlementWakeup w \<or> c")
  case True
  then have "wk_Source w = WakeupSourceAutomation" using aut unfolding isSettlementWakeup_def by blast
  then show ?thesis using True by (simp add: step_ok_def step_post_def gate_step_def)
next
  case False
  then have nr: "\<not> required" using req by blast
  note k = claim_ok [OF S req nr, of p now] and l = leave_step_ok [OF coalesce_final [OF S nr, of w], where 'b = bool]
  show ?thesis
  proof (cases "wk_Source w")
    case WakeupSourceTimer
    then have "gate_step S w p c now = claim_step S w p c now" by (simp add: gate_step_def fun_eq_iff)
    then show ?thesis using k by simp
  next
    case WakeupSourceAutomation
    then have "gate_step S w p c now = claim_step S w p c now" using False by (simp add: gate_step_def fun_eq_iff)
    then show ?thesis using k by simp
  next
    case WakeupSourceAssignment
    then show ?thesis using l by (cases "hb_WakeOnAssignment p") (simp_all add: step_ok_def step_post_def gate_step_def)
  next
    case WakeupSourceOnDemand
    then show ?thesis using l by (cases "hb_WakeOnDemand p") (simp_all add: step_ok_def step_post_def gate_step_def)
  next
    case (WakeupSourceOther x)
    then show ?thesis by (simp add: step_ok_def step_post_def gate_step_def)
  qed
qed

end

lemma adds_only_iff:
  "adds_only v v' \<longleftrightarrow> (\<exists>new. v' = v @ new \<and> filter queued_timer new = [] \<and> (view_ok v \<longrightarrow> view_ok v'))"
  unfolding adds_only_def by (metis append_eq_conv_conj append_take_drop_id)

lemma adds_only_trans: "adds_only u v \<Longrightarrow> adds_only v w \<Longrightarrow> adds_only u w"
  unfolding adds_only_iff
proof (elim exE conjE)
  fix n m assume "v = u @ n" "w = v @ m" "filter queued_timer n = []" "filter queued_timer m = []"
    "view_ok u \<longrightarrow> view_ok v" "view_ok v \<longrightarrow> view_ok w"
  then show "\<exists>new. w = u @ new \<and> filter queued_timer new = [] \<and> (view_ok u \<longrightarrow> view_ok w)"
    by (intro exI [of _ "n @ m"]) simp
qed

lemma move_append [simp]: "move i a b (u @ v) = move i a b u @ move i a b v"
  by (simp add: move_def)

lemma adds_only_move:
  assumes "adds_only v v'" and "view_ok v" and "has_status i a v"
  shows "adds_only (move i a b v) (move i a b v')"
proof -
  obtain new where n: "v' = v @ new" "filter queued_timer new = []" "view_ok v'"
    using assms(1,2) unfolding adds_only_iff by blast
  have "i \<in> set (map fst v)" using assms(3) unfolding has_status_def list_ex_iff by force
  then have "i \<notin> set (map fst new)" using n(1,3) unfolding view_ok_def by auto
  then have "move i a b new = new" unfolding move_def by (intro map_idI) force
  moreover have "view_ok (move i a b v @ new)" using n(1,3) unfolding view_ok_def by simp
  ultimately show ?thesis using n unfolding adds_only_iff by auto
qed

lemma adds_only_status: "adds_only v v' \<Longrightarrow> has_status i a v \<Longrightarrow> has_status i a v'"
  unfolding adds_only_iff has_status_def by auto

lemma adds_only_view_ok: "adds_only v v' \<Longrightarrow> view_ok v \<Longrightarrow> view_ok v'"
  unfolding adds_only_def by blast

context wakeup_store
begin

lemma forward_quiet:
  assumes "sc_Store S = St" and "starter_ok view calm S"
  shows "view (forwardOrAudit S w r s) = view s \<and> (calm s \<longrightarrow> calm (forwardOrAudit S w r s))"
proof -
  have a: "view (snd (st_SetWakeupContext St i c s)) = view s \<and> (calm s \<longrightarrow> calm (snd (st_SetWakeupContext St i c s)))" for i c s
    using set_context unfolding quiet_def by simp
  show ?thesis
  proof (cases "sc_ForwardInput S")
    case None
    then show ?thesis using a assms(1) by (simp add: forwardOrAudit_def Let_def)
  next
    case (Some f)
    obtain x s1 where f: "f r (TrimSpace (WakeupRequest_Instruction w)) s = (x, s1)"
      by (cases "f r (TrimSpace (WakeupRequest_Instruction w)) s")
    have "view s1 = view s \<and> (calm s \<longrightarrow> calm s1)"
      using quietD [of view calm "f r (TrimSpace (WakeupRequest_Instruction w))" s x s1] f assms(2) Some
      unfolding starter_ok_def by simp
    then show ?thesis using Some f a assms(1) by (cases x) (simp_all add: forwardOrAudit_def Let_def)
  qed
qed

lemma releaseClaim_quiet:
  "sc_Store S = St \<Longrightarrow> view (releaseClaim S w c now s) = view s \<and> (calm s \<longrightarrow> calm (releaseClaim S w c now s))"
  using release unfolding releaseClaim_def quiet_def by simp

lemma active_ok:
  assumes S: "sc_Store S = St" "starter_ok view calm S" and req: "required \<Longrightarrow> isSettlementWakeup w \<or> c"
  shows "step_ok view calm (wk_ID w) required (active_step S w c claimed now)"
proof -
  have "step_post view calm (wk_ID w) required s (active_step S w c claimed now s)" if ok: "view_ok (view s)" for s
  proof (cases "st_ActiveRunKeyForAgentTask St (wk_AgentProfileID w) (wk_TaskKey w) s")
    case (Pair r s1)
    note q = quietD [OF active Pair]
    show ?thesis
    proof (cases r)
      case (Inl e)
      then have "active_step S w c claimed now s = leave (retryOrExpire S w now c) (releaseClaim S w claimed now s1)"
        using Pair S(1) by (simp add: active_step_def)
      moreover have "view (releaseClaim S w claimed now s1) = view s \<and> (calm s \<longrightarrow> calm (releaseClaim S w claimed now s1))"
        using releaseClaim_quiet [OF S(1)] q by auto
      ultimately show ?thesis using leave_after [OF _ ok retry_final [OF S(1) req]] by simp
    next
      case (Inr x)
      obtain runID alive where x: "x = (runID, alive)" by (cases x)
      consider "\<not> alive" | "alive" "isSettlementWakeup w \<or> c" | "alive" "\<not> (isSettlementWakeup w \<or> c)" by blast
      then show ?thesis
      proof cases
        case 3
        then have "active_step S w c claimed now s = leave (coalesce S w) (forwardOrAudit S w runID s1)"
          using Pair S(1) Inr x by (simp add: active_step_def)
        moreover have "view (forwardOrAudit S w runID s1) = view s \<and> (calm s \<longrightarrow> calm (forwardOrAudit S w runID s1))"
          using forward_quiet [OF S] q by auto
        moreover have "\<not> required" using req 3 by blast
        ultimately show ?thesis using leave_after [OF _ ok coalesce_final [OF S(1), of required w]] by simp
      qed (use Pair S(1) Inr x q in \<open>simp_all add: active_step_def step_post_def\<close>)
    qed
  qed
  then show ?thesis unfolding step_ok_def by blast
qed

text \<open>The last two steps: from the moment the request is taken.\<close>

lemma start_fate:
  assumes S: "sc_Store S = St" "starter_ok view calm S" and req: "required \<Longrightarrow> isSettlementWakeup w \<or> c"
    and v: "view_ok v" "has_status (wk_ID w) WakeupStatusQueued v"
    and s: "view s = move (wk_ID w) WakeupStatusQueued WakeupStatusConsumed v"
    and st: "start_step S w p c claimed now s = ((out, err), s')"
  shows "fate (wk_ID w) required (calm s) v out (view s') \<and> (calm s \<longrightarrow> calm s')"
proof -
  let ?i = "wk_ID w"
  obtain r s1 where r: "sc_CreateRun S (wk_WorkspaceID w) (wk_AgentProfileID w) (wk_TaskKey w)
      (RenderPrompt (hb_PromptTemplate (AgentProfile_Heartbeat p)) (Some p) (workItemTitle w) (wk_Context w)) (wk_Context w) s = (r, s1)"
    by (metis surj_pair)
  have a1: "adds_only (view s) (view s1)" and c1: "calm s \<longrightarrow> calm s1"
    using S(2) r unfolding starter_ok_def by (metis snd_conv)+
  have ok1: "view_ok (view s1)" using adds_only_view_ok [OF a1] v(1) s by simp
  have con: "has_status ?i WakeupStatusConsumed (view s)" using has_status_move [OF v(2)] s by simp
  have con1: "has_status ?i WakeupStatusConsumed (view s1)" using adds_only_status [OF a1 con] .
  have consumed: "fate ?i required (calm s) v out' u"
    if "adds_only (move ?i WakeupStatusQueued WakeupStatusConsumed v) u" "out' = OutcomeConsumed \<or> out' = OutcomeQueued \<and> \<not> calm s" for out' u
    using that v(2) unfolding fate_def by (auto intro!: exI [of _ WakeupStatusConsumed])
  show ?thesis
  proof (cases r)
    case (Inr x)
    then show ?thesis using st r a1 c1 consumed [of "view s1" out] s by (simp add: start_step_def)
  next
    case (Inl e)
    show ?thesis
    proof (cases "e = ErrWakeupNoop")
      case True
      then have "out = OutcomeConsumed" "s' = releaseClaim S w claimed now s1" using st r Inl by (auto simp: start_step_def)
      then show ?thesis using a1 c1 consumed [of "view s'" out] s releaseClaim_quiet [OF S(1)] by simp
    next
      case noop: False
      obtain rq s2 where rq: "st_RequeueWakeup St ?i s1 = (rq, s2)" by (cases "st_RequeueWakeup St ?i s1")
      let ?s3 = "releaseClaim S w claimed now s2"
      have q3: "view ?s3 = view s2" "calm s2 \<longrightarrow> calm ?s3" using releaseClaim_quiet [OF S(1)] by auto
      have out: "(out, s') = (OutcomeQueued, if \<exists>u. rq = Inr u then ?s3 else s2) \<and> e = ErrWakeupDeferred \<or>
          retryOrExpire S w now c ?s3 = ((out, err), s')"
        using st r Inl noop rq S(1) by (auto simp: start_step_def split: sum.splits if_splits)
      show ?thesis
      proof (cases rq)
        case rl: (Inl re)
        have m: "view s2 = view s1" "calm s1 \<longrightarrow> calm s2" and nc: "\<not> calm s"
          using movesD_error [OF requeue rq [unfolded rl]] con1 c1 by auto
        have nq: "\<not> has_status ?i WakeupStatusQueued (view s1)"
          using has_status_unique [OF ok1 con1] by blast
        have "view s' = view s1" "out = OutcomeConsumed \<or> out = OutcomeQueued" if "retryOrExpire S w now c ?s3 = ((out, err), s')"
          using retry_fate [OF S(1) that] q3(1) m(1) nq unfolding fate_def by (cases out; simp)+
        moreover have "view s' = view s1" "out = OutcomeQueued" if "(out, s') = (OutcomeQueued, if \<exists>u. rq = Inr u then ?s3 else s2)"
          using that rl m by auto
        ultimately have "view s' = view s1" "out = OutcomeConsumed \<or> out = OutcomeQueued" using out by blast+
        then show ?thesis using consumed [of "view s'" out] a1 s nc by simp
      next
        case (Inr u)
        have m: "view s2 = move ?i WakeupStatusConsumed WakeupStatusQueued (view s1)" "calm s1 \<longrightarrow> calm s2"
          using movesD_ok [OF requeue rq [unfolded Inr]] by auto
        have bk: "adds_only v (view s2)"
        proof -
          have "adds_only (move ?i WakeupStatusConsumed WakeupStatusQueued (view s)) (view s2)"
            unfolding m(1) by (rule adds_only_move [OF a1 _ con]) (simp add: s v(1))
          then show ?thesis using s move_move [OF v(1,2), of WakeupStatusConsumed WakeupStatusQueued] by simp
        qed
        have ok2: "view_ok (view s2)" using adds_only_view_ok [OF bk v(1)] .
        have hq: "has_status ?i WakeupStatusQueued (view s2)" using adds_only_status [OF bk v(2)] .
        from out show ?thesis
        proof
          assume "(out, s') = (OutcomeQueued, if \<exists>u. rq = Inr u then ?s3 else s2) \<and> e = ErrWakeupDeferred"
          then have "out = OutcomeQueued" "view s' = view s2" "calm s \<longrightarrow> calm s'" using Inr q3 c1 m by auto
          then show ?thesis using bk v(2) unfolding fate_def by (auto intro!: exI [of _ WakeupStatusQueued])
        next
          assume "retryOrExpire S w now c ?s3 = ((out, err), s')"
          from retry_fate [OF S(1) this] have f: "fate ?i (isSettlementWakeup w \<or> c) (calm ?s3) (view s2) out (view s')" "calm ?s3 \<longrightarrow> calm s'"
            using q3(1) by simp_all
          from f(1) hq obtain st where st: "adds_only (move ?i WakeupStatusQueued st (view s2)) (view s')"
              "out = OutcomeCoalesced \<longrightarrow> st = WakeupStatusCoalesced" "out = OutcomeConsumed \<longrightarrow> st = WakeupStatusConsumed"
              "isSettlementWakeup w \<or> c \<longrightarrow> st \<noteq> WakeupStatusCoalesced" "out = OutcomeQueued \<longrightarrow> st = WakeupStatusQueued \<or> \<not> calm ?s3 \<and> st = WakeupStatusConsumed"
            unfolding fate_def by auto
          have "adds_only (move ?i WakeupStatusQueued st v) (view s')"
            using adds_only_trans [OF adds_only_move [OF bk v] st(1)] .
          moreover have "calm s \<longrightarrow> calm ?s3" using c1 m(2) q3(2) by blast
          ultimately show ?thesis using st req v(2) f(2) unfolding fate_def by (intro conjI) (simp, blast, blast)
        qed
      qed
    qed
  qed
qed

lemma take_start_final:
  assumes S: "sc_Store S = St" "starter_ok view calm S" and req: "required \<Longrightarrow> isSettlementWakeup w \<or> c"
  shows "final_ok view calm (wk_ID w) required (thenM (take_step S w c claimed now) (\<lambda>_. start_step S w p c claimed now))"
  unfolding final_ok_def
proof (intro allI impI)
  fix s assume ok: "view_ok (view s)"
  let ?f = "thenM (take_step S w c claimed now) (\<lambda>_. start_step S w p c claimed now)"
  obtain r s1 where r: "st_MarkWakeupStatus St (wk_ID w) WakeupStatusConsumed s = (r, s1)"
    by (cases "st_MarkWakeupStatus St (wk_ID w) WakeupStatusConsumed s")
  show "(calm s \<longrightarrow> calm (snd (?f s))) \<and> fate (wk_ID w) required (calm s) (view s) (fst (fst (?f s))) (view (snd (?f s)))"
  proof (cases r)
    case (Inr u)
    have m: "has_status (wk_ID w) WakeupStatusQueued (view s)"
        "view s1 = move (wk_ID w) WakeupStatusQueued WakeupStatusConsumed (view s)" "calm s \<longrightarrow> calm s1"
      using movesD_ok [OF mark r [unfolded Inr]] by auto
    obtain out err s' where st: "start_step S w p c claimed now s1 = ((out, err), s')" by (metis surj_pair)
    have "?f s = ((out, err), s')" using r Inr S(1) st by (simp add: thenM_def take_step_def)
    then show ?thesis
      using start_fate [OF S req ok m(1,2) st] m(3) fate_calm [of _ _ calm s1 _ _ _ s] by auto
  next
    case (Inl e)
    let ?s2 = "releaseClaim S w claimed now s1"
    have m: "view s1 = view s" "e = ErrWakeupNotQueued \<longrightarrow> \<not> has_status (wk_ID w) WakeupStatusQueued (view s)" "calm s \<longrightarrow> calm s1"
      using movesD_error [OF mark r [unfolded Inl]] by auto
    have q2: "view ?s2 = view s" "calm s \<longrightarrow> calm ?s2" using releaseClaim_quiet [OF S(1)] m by auto
    show ?thesis
    proof (cases "e = ErrWakeupNotQueued")
      case True
      then have "?f s = ((OutcomeConsumed, None), ?s2)" using r Inl S(1) by (simp add: thenM_def take_step_def Let_def)
      then show ?thesis using q2 m(2) True by (auto intro!: fate_none)
    next
      case False
      then have "?f s = retryOrExpire S w now c ?s2"
        using r Inl S(1) by (simp add: thenM_def take_step_def Let_def leave_def case_prod_beta)
      then show ?thesis using final_after [OF q2 ok retry_final [OF S(1) req]] by simp
    qed
  qed
qed

end

text \<open>The queued timers of a view, each named by its agent and task.\<close>

definition timers_ok :: "wake_view \<Rightarrow> bool" where
  "timers_ok v \<longleftrightarrow> distinct (map (\<lambda>x. snd (fst (snd x))) (filter queued_timer v))"

lemma distinct_filter_map:
  assumes "distinct (map f (filter P xs))" and "\<And>x. f (g x) = f x" and "\<And>x. P (g x) \<Longrightarrow> P x"
  shows "distinct (map f (filter P (map g xs)))"
  using assms(1)
proof (induction xs)
  case (Cons x xs)
  have sub: "f ` set (filter P (map g xs)) \<subseteq> f ` set (filter P xs)" using assms(2,3) by force
  show ?case
  proof (cases "P (g x)")
    case True
    then have "P x" by (rule assms(3))
    then have "f x \<notin> f ` set (filter P xs)" "distinct (map f (filter P xs))" using Cons.prems by auto
    then have "f (g x) \<notin> f ` set (filter P (map g xs))" using sub assms(2) by auto
    then show ?thesis using True Cons.IH \<open>distinct (map f (filter P xs))\<close> by simp
  next
    case False
    have "distinct (map f (filter P xs))" using Cons.prems by (auto split: if_splits)
    then show ?thesis using False Cons.IH by simp
  qed
qed simp

lemma timers_ok_move: "timers_ok v \<Longrightarrow> timers_ok (move i WakeupStatusQueued st v)"
  unfolding timers_ok_def move_def
  by (rule distinct_filter_map) (auto simp: queued_timer_def split: if_splits)

lemma timers_ok_adds: "adds_only v v' \<Longrightarrow> timers_ok v \<Longrightarrow> timers_ok v'"
  unfolding adds_only_iff timers_ok_def by auto

lemma fate_view_ok: "fate i r c v out v' \<Longrightarrow> view_ok v \<Longrightarrow> view_ok v'"
  unfolding fate_def by (auto split: if_splits dest: adds_only_view_ok)

lemma fate_timers_ok: "fate i r c v out v' \<Longrightarrow> timers_ok v \<Longrightarrow> timers_ok v'"
  unfolding fate_def by (auto split: if_splits dest: timers_ok_adds timers_ok_move)

definition required_wakeup :: "'s SchedStore \<Rightarrow> WakeupRequest \<Rightarrow> 's \<Rightarrow> bool" where
  "required_wakeup St w s \<longleftrightarrow> isSettlementWakeup w \<or>
     (\<exists>p. fst (st_GetAgentProfile St (wk_AgentProfileID w) s) = Inr p \<and> isCoordinatorPlanAutomation w p)"

context wakeup_store
begin

lemma consume_fate:
  assumes S: "sc_Store S = St" "starter_ok view calm S" and ok: "view_ok (view s)"
    and c: "ConsumeOne S w now s = ((out, err), s')"
  shows "fate (wk_ID w) (required_wakeup St w s) (calm s) (view s) out (view s') \<and> (calm s \<longrightarrow> calm s')"
proof (cases "st_GetAgentProfile St (wk_AgentProfileID w) s")
  case (Pair r s1)
  note q = quietD [OF profile Pair]
  show ?thesis
  proof (cases r)
    case (Inl e)
    have req: "required_wakeup St w s \<longleftrightarrow> isSettlementWakeup w" using Pair Inl by (simp add: required_wakeup_def)
    have "retryOrExpire S w now False s1 = ((out, err), s')" using c Pair Inl S(1) by (simp add: ConsumeOne_def)
    with final_after [OF _ _ ok retry_final [OF S(1), of "isSettlementWakeup w" w False now], of s1] q req
    show ?thesis by simp
  next
    case (Inr p)
    let ?c = "isCoordinatorPlanAutomation w p"
    have req: "required_wakeup St w s \<longleftrightarrow> isSettlementWakeup w \<or> ?c" using Pair Inr by (simp add: required_wakeup_def)
    have aut: "?c \<Longrightarrow> wk_Source w = WakeupSourceAutomation" by (simp add: isCoordinatorPlanAutomation_def)
    let ?f = "thenM (preflight_step S w ?c now) (\<lambda>_.
              thenM (gate_step S w (AgentProfile_Heartbeat p) ?c now) (\<lambda>claimed.
              thenM (active_step S w ?c claimed now) (\<lambda>_.
              thenM (take_step S w ?c claimed now) (\<lambda>_.
              start_step S w p ?c claimed now))))"
    have "final_ok view calm (wk_ID w) (isSettlementWakeup w \<or> ?c) ?f"
      by (intro thenM_final_ok preflight_ok gate_ok active_ok take_start_final S aut)
    from final_after [OF _ _ ok this, of s1] q c Pair Inr S(1) req show ?thesis
      by (simp add: ConsumeOne_def Let_def)
  qed
qed

text \<open>Nothing is started for a request that is not queued: another starter would make no difference.\<close>

lemma steps_ignore_starter:
  "preflight_step (S\<lparr>sc_CreateRun := f\<rparr>) w c now s = preflight_step S w c now s"
  "gate_step (S\<lparr>sc_CreateRun := f\<rparr>) w pol c now s = gate_step S w pol c now s"
  "active_step (S\<lparr>sc_CreateRun := f\<rparr>) w c claimed now s = active_step S w c claimed now s"
  "take_step (S\<lparr>sc_CreateRun := f\<rparr>) w c claimed now s = take_step S w c claimed now s"
  "retryOrExpire (S\<lparr>sc_CreateRun := f\<rparr>) w now c s = retryOrExpire S w now c s"
proof -
  have a: "coalesce (S\<lparr>sc_CreateRun := f\<rparr>) w = coalesce S w" by (simp add: coalesce_def fun_eq_iff)
  have b: "retryOrExpire (S\<lparr>sc_CreateRun := f\<rparr>) w now c = retryOrExpire S w now c" for c
    by (simp add: retryOrExpire_def fun_eq_iff a cong: option.case_cong sum.case_cong prod.case_cong if_cong)
  have h: "heartbeatInterval (S\<lparr>sc_CreateRun := f\<rparr>) = heartbeatInterval S" by (simp add: heartbeatInterval_def fun_eq_iff)
  have r: "releaseClaim (S\<lparr>sc_CreateRun := f\<rparr>) = releaseClaim S" by (simp add: releaseClaim_def fun_eq_iff)
  have fw: "forwardOrAudit (S\<lparr>sc_CreateRun := f\<rparr>) = forwardOrAudit S" by (simp add: forwardOrAudit_def fun_eq_iff Let_def)
  show "preflight_step (S\<lparr>sc_CreateRun := f\<rparr>) w c now s = preflight_step S w c now s" by (simp add: preflight_step_def b cong: option.case_cong sum.case_cong prod.case_cong if_cong)
  have k: "claim_step (S\<lparr>sc_CreateRun := f\<rparr>) w pol c now s = claim_step S w pol c now s" for c by (simp add: claim_step_def a b h cong: option.case_cong sum.case_cong prod.case_cong if_cong)
  show "gate_step (S\<lparr>sc_CreateRun := f\<rparr>) w pol c now s = gate_step S w pol c now s" by (simp add: gate_step_def k a cong: WakeupSource.case_cong option.case_cong sum.case_cong prod.case_cong if_cong)
  show "active_step (S\<lparr>sc_CreateRun := f\<rparr>) w c claimed now s = active_step S w c claimed now s"
    by (simp add: active_step_def a b r fw cong: option.case_cong sum.case_cong prod.case_cong if_cong)
  show "take_step (S\<lparr>sc_CreateRun := f\<rparr>) w c claimed now s = take_step S w c claimed now s" by (simp add: take_step_def b r cong: option.case_cong sum.case_cong prod.case_cong if_cong)
  show "retryOrExpire (S\<lparr>sc_CreateRun := f\<rparr>) w now c s = retryOrExpire S w now c s" by (simp add: b)
qed

lemma step_view: "step_ok view calm i required f \<Longrightarrow> view_ok (view s) \<Longrightarrow> f s = (Inr x, s') \<Longrightarrow> view s' = view s"
  unfolding step_ok_def step_post_def by (metis fst_conv snd_conv)

lemma thenM_cong:
  assumes "\<And>x s'. f s = (Inr x, s') \<Longrightarrow> g x s' = h x s'"
  shows "thenM f g s = thenM f h s"
  using assms unfolding thenM_def by (auto split: prod.split sum.split)

lemma consume_no_start:
  assumes S: "sc_Store S = St" "starter_ok view calm S" and ok: "view_ok (view s)"
    and n: "\<not> has_status (wk_ID w) WakeupStatusQueued (view s)"
  shows "ConsumeOne (S\<lparr>sc_CreateRun := f\<rparr>) w now s = ConsumeOne S w now s"
proof (cases "st_GetAgentProfile St (wk_AgentProfileID w) s")
  case (Pair r s1)
  note q = quietD [OF profile Pair]
  show ?thesis
  proof (cases r)
    case (Inl e)
    then show ?thesis using Pair S(1) by (simp add: ConsumeOne_def steps_ignore_starter)
  next
    case (Inr p)
    let ?c = "isCoordinatorPlanAutomation w p" and ?p = "AgentProfile_Heartbeat p"
    have aut: "?c \<Longrightarrow> wk_Source w = WakeupSourceAutomation" by (simp add: isCoordinatorPlanAutomation_def)
    have last: "thenM (take_step S w ?c cl now) (\<lambda>_. start_step (S\<lparr>sc_CreateRun := f\<rparr>) w p ?c cl now) s4 =
        thenM (take_step S w ?c cl now) (\<lambda>_. start_step S w p ?c cl now) s4" if "view s4 = view s" for cl s4
    proof (rule thenM_cong)
      fix x s5 assume "take_step S w ?c cl now s4 = (Inr x, s5)"
      then have "\<exists>u. st_MarkWakeupStatus St (wk_ID w) WakeupStatusConsumed s4 = (Inr u, s5)"
        using S(1) by (auto simp: take_step_def Let_def leave_def split: prod.splits sum.splits if_splits)
      then show "start_step (S\<lparr>sc_CreateRun := f\<rparr>) w p ?c cl now s5 = start_step S w p ?c cl now s5"
        using movesD_ok [OF mark] n that by metis
    qed
    have "thenM (preflight_step S w ?c now) (\<lambda>_. thenM (gate_step S w ?p ?c now) (\<lambda>cl. thenM (active_step S w ?c cl now)
          (\<lambda>_. thenM (take_step S w ?c cl now) (\<lambda>_. start_step (S\<lparr>sc_CreateRun := f\<rparr>) w p ?c cl now)))) s1 =
        thenM (preflight_step S w ?c now) (\<lambda>_. thenM (gate_step S w ?p ?c now) (\<lambda>cl. thenM (active_step S w ?c cl now)
          (\<lambda>_. thenM (take_step S w ?c cl now) (\<lambda>_. start_step S w p ?c cl now)))) s1"
    proof (rule thenM_cong, rule thenM_cong, rule thenM_cong)
      fix s2 cl s3 s4 u1 u2
      assume 1: "preflight_step S w ?c now s1 = (Inr u1, s2)" and 2: "gate_step S w ?p ?c now s2 = (Inr cl, s3)"
        and 3: "active_step S w ?c cl now s3 = (Inr u2, s4)"
      have "view s2 = view s1" by (rule step_view [OF preflight_ok [OF S, of False] _ 1]) (use q ok in simp_all)
      moreover from this have "view s3 = view s2" by (intro step_view [OF gate_ok [OF S(1), of False] _ 2]) (use q ok aut in simp_all)
      moreover from calculation have "view s4 = view s3" by (intro step_view [OF active_ok [OF S, of False] _ 3]) (use q ok in simp_all)
      ultimately show "thenM (take_step S w ?c cl now) (\<lambda>_. start_step (S\<lparr>sc_CreateRun := f\<rparr>) w p ?c cl now) s4 =
          thenM (take_step S w ?c cl now) (\<lambda>_. start_step S w p ?c cl now) s4"
        using last q by simp
    qed
    moreover have "preflight_step (S\<lparr>sc_CreateRun := f\<rparr>) w ?c now = preflight_step S w ?c now"
        "gate_step (S\<lparr>sc_CreateRun := f\<rparr>) w ?p ?c now = gate_step S w ?p ?c now"
        "active_step (S\<lparr>sc_CreateRun := f\<rparr>) w ?c = active_step S w ?c"
        "take_step (S\<lparr>sc_CreateRun := f\<rparr>) w ?c = take_step S w ?c"
      by (simp_all add: fun_eq_iff steps_ignore_starter)
    ultimately show ?thesis using Pair Inr S(1) by (simp add: ConsumeOne_def Let_def)
  qed
qed

section \<open>Ticks\<close>

definition tick_inv :: "'s \<Rightarrow> bool" where
  "tick_inv s \<longleftrightarrow> view_ok (view s) \<and> timers_ok (view s)"

lemma consume_tick_inv:
  "sc_Store S = St \<Longrightarrow> starter_ok view calm S \<Longrightarrow> tick_inv s \<Longrightarrow> tick_inv (snd (ConsumeOne S w now s))"
  using consume_fate [of S s w now] fate_view_ok fate_timers_ok unfolding tick_inv_def
  by (cases "ConsumeOne S w now s") (metis prod.collapse snd_conv)

lemma produce_task_inv:
  assumes S: "sc_Store S = St" and s: "tick_inv s"
  shows "tick_inv (produce_task S agent now task s)"
proof -
  obtain r s1 where r: "st_HasQueuedTimer St (ag_ID agent) (tr_Key task) s = (r, s1)"
    by (cases "st_HasQueuedTimer St (ag_ID agent) (tr_Key task) s")
  have q: "view s1 = view s" using quietD [OF has_timer r] by simp
  show ?thesis
  proof (cases r)
    case (Inl e)
    then show ?thesis using r q S s by (simp add: produce_task_def tick_inv_def)
  next
    case (Inr b)
    have b: "b = list_ex (\<lambda>x. queued_timer x \<and> snd (fst (snd x)) = (ag_ID agent, tr_Key task)) (view s)"
      using has_timer_result [of "ag_ID agent" "tr_Key task" s b] r Inr by simp
    show ?thesis
    proof (cases b)
      case True
      then show ?thesis using r Inr q S s by (simp add: produce_task_def tick_inv_def)
    next
      case False
      let ?w = "\<lparr>wk_ID = sc_NewID S s1, wk_WorkspaceID = ag_WorkspaceID agent, wk_AgentProfileID = ag_ID agent,
                    wk_Source = WakeupSourceTimer, wk_TaskKey = tr_Key task,
                    wk_Context = [(''work_item_title'', VStr (tr_Title task))],
                    wk_Status = WakeupStatusQueued, wk_WakeAt = (if IsZero now then sc_Now S s1 else now),
                    wk_CreatedAt = sc_Now S s1, wk_UpdatedAt = sc_Now S s1\<rparr>"
      have "produce_task S agent now task s = s1 \<or> produce_task S agent now task s = snd (st_EnqueueWakeup St ?w s1)"
        using r Inr False S by (simp add: produce_task_def EnqueueWakeup_def Let_def split: prod.split sum.split)
      moreover have "tick_inv (snd (st_EnqueueWakeup St ?w s1))"
      proof (cases "fst (st_EnqueueWakeup St ?w s1)")
        case (Inl e)
        then show ?thesis using enqueue [of ?w s1] q s by (simp add: tick_inv_def)
      next
        case (Inr u)
        let ?x = "(sc_NewID S s1, (WakeupSourceTimer, ag_ID agent, tr_Key task), WakeupStatusQueued)"
        have e: "sc_NewID S s1 \<notin> set (map fst (view s))" "view (snd (st_EnqueueWakeup St ?w s1)) = view s @ [?x]"
          using enqueue [of ?w s1] Inr q by simp_all
        have v: "view_ok (view s @ [?x])" using s e(1) unfolding tick_inv_def view_ok_def by simp
        have "(ag_ID agent, tr_Key task) \<notin> (\<lambda>x. snd (fst (snd x))) ` set (filter queued_timer (view s))"
          using b False unfolding list_ex_iff by auto
        moreover have "queued_timer ?x" by (simp add: queued_timer_def)
        ultimately have "timers_ok (view s @ [?x])" using s unfolding tick_inv_def timers_ok_def by simp
        then show ?thesis using e(2) v unfolding tick_inv_def by metis
      qed
      moreover have "tick_inv s1" using s q by (simp add: tick_inv_def)
      ultimately show ?thesis by metis
    qed
  qed
qed

lemma fold_inv: "(\<And>x s. P s \<Longrightarrow> P (f x s)) \<Longrightarrow> P s \<Longrightarrow> P (fold f xs s)"
  by (induction xs arbitrary: s) auto

lemma produce_agent_inv:
  assumes S: "sc_Store S = St" and s: "tick_inv s"
  shows "tick_inv (produce_agent S now agent s)"
proof -
  obtain r s1 where r: "st_AssignedTasks St (ag_ID agent) s = (r, s1)" by (cases "st_AssignedTasks St (ag_ID agent) s")
  have "tick_inv s1" using quietD [OF tasks r] s by (simp add: tick_inv_def)
  have "tick_inv (fold (produce_task S agent now) ts s1)" for ts by (rule fold_inv [of tick_inv "produce_task S agent now", OF produce_task_inv [OF S] \<open>tick_inv s1\<close>])
  then show ?thesis using r S s \<open>tick_inv s1\<close> by (cases r) (auto simp: produce_agent_def)
qed

lemma tick_inv_Tick:
  assumes S: "sc_Store S = St" "starter_ok view calm S" and s: "tick_inv s"
  shows "tick_inv (snd (Tick S now (sweep, s)))"
proof -
  obtain sw s0 where t: "sweepStaleLocks S now (sweep, s) = (sw, s0)" by (metis surj_pair)
  have 0: "tick_inv s0"
  proof (cases "sc_StaleLocks S")
    case None then show ?thesis using t s by (simp add: sweepStaleLocks_def)
  next
    case (Some f)
    then have "view (snd (f x s)) = view s" for x using S(2) unfolding starter_ok_def quiet_def by simp
    then show ?thesis using t s Some by (auto simp: sweepStaleLocks_def tick_inv_def split: if_splits)
  qed
  obtain r s1 where r: "st_ListHeartbeatAgents St s0 = (r, s1)" by (cases "st_ListHeartbeatAgents St s0")
  have 1: "tick_inv s1" using quietD [OF agents r] 0 by (simp add: tick_inv_def)
  have 2: "tick_inv (ProduceTimers S now s0)"
    using r S(1) 1 fold_inv [of tick_inv "produce_agent S now"] produce_agent_inv [OF S(1)]
    by (cases r) (simp_all add: ProduceTimers_def)
  obtain d s2 where d: "st_DueTimers St now dueTimersLimit (ProduceTimers S now s0) = (d, s2)"
    by (cases "st_DueTimers St now dueTimersLimit (ProduceTimers S now s0)")
  have 3: "tick_inv s2" using quietD [OF due d] 2 by (simp add: tick_inv_def)
  have 4: "tick_inv (fold (\<lambda>w s. snd (ConsumeOne S w now s)) ws s2)" for ws
    by (rule fold_inv [of tick_inv]) (use consume_tick_inv [OF S] 3 in auto)
  show ?thesis using t d S(1) 3 4 by (cases d) (simp_all add: Tick_def)
qed

end

section \<open>The SQLite store keeps the contract\<close>

definition WakeupRepo_Store :: "MapCodec \<Rightarrow> 'a SchedDb_scheme SchedStore" where
  "WakeupRepo_Store mc = \<lparr>st_EnqueueWakeup = WakeupRepo_EnqueueWakeup mc, st_DueTimers = WakeupRepo_DueTimers mc,
     st_MarkWakeupStatus = WakeupRepo_MarkWakeupStatus, st_RequeueWakeup = WakeupRepo_RequeueWakeup,
     st_SetWakeupContext = WakeupRepo_SetWakeupContext mc, st_ClaimHeartbeat = WakeupRepo_ClaimHeartbeat,
     st_ReleaseHeartbeatClaim = WakeupRepo_ReleaseHeartbeatClaim,
     st_ActiveRunKeyForAgentTask = WakeupRepo_ActiveRunKeyForAgentTask, st_GetAgentProfile = WakeupRepo_GetAgentProfile,
     st_ListHeartbeatAgents = WakeupRepo_ListHeartbeatAgents, st_AssignedTasks = WakeupRepo_AssignedTasks,
     st_HasQueuedTimer = WakeupRepo_HasQueuedTimer\<rparr>"

definition wake_entry :: "WakeupRow \<Rightarrow> string \<times> (WakeupSource \<times> string \<times> string) \<times> WakeupStatus" where
  "wake_entry r = (wr_ID r, (wr_Source r, wr_AgentProfileID r, wr_TaskKey r), wr_Status r)"

definition wakeups_of :: "'a SchedDb_scheme \<Rightarrow> wake_view" where
  "wakeups_of db = map wake_entry (db_wakeups db)"

definition calm_db :: "'a Conn_scheme \<Rightarrow> bool" where
  "calm_db db \<longleftrightarrow> (\<forall>n. \<not> fst (cn_env db n))"

lemma query_quiet: "quiet wakeups_of calm_db (query_stmt f)"
  unfolding quiet_def
proof
  fix s
  show "wakeups_of (snd (query_stmt f s)) = wakeups_of s \<and> (calm_db s \<longrightarrow> calm_db (snd (query_stmt f s)))"
    by (rule query_stmt_cases [of f s "fst (query_stmt f s)" "snd (query_stmt f s)"])
      (auto simp: wakeups_of_def calm_db_def)
qed

lemma exec_quiet:
  assumes "\<And>t db. wakeups_of (snd (f t db)) = wakeups_of db" and "\<And>t db. cn_env (snd (f t db)) = cn_env db"
  shows "quiet wakeups_of calm_db (exec_stmt f)"
  unfolding quiet_def
proof
  fix s
  show "wakeups_of (snd (exec_stmt f s)) = wakeups_of s \<and> (calm_db s \<longrightarrow> calm_db (snd (exec_stmt f s)))"
  proof (rule exec_stmt_cases [of f s "fst (exec_stmt f s)" "snd (exec_stmt f s)"])
    show "exec_stmt f s = (fst (exec_stmt f s), snd (exec_stmt f s))" by simp
  next
    assume "snd (exec_stmt f s) = s\<lparr>cn_step := Suc (cn_step s)\<rparr>"
    then show ?thesis by (simp add: wakeups_of_def calm_db_def)
  next
    fix t assume "f t (s\<lparr>cn_step := Suc (cn_step s)\<rparr>) = (fst (exec_stmt f s), snd (exec_stmt f s))"
    then have "snd (exec_stmt f s) = snd (f t (s\<lparr>cn_step := Suc (cn_step s)\<rparr>))" by simp
    then show ?thesis using assms [of t "s\<lparr>cn_step := Suc (cn_step s)\<rparr>"] by (simp add: wakeups_of_def calm_db_def)
  qed
qed

lemma exec_calm:
  assumes "calm_db s"
  obtains t where "exec_stmt f s = f t (s\<lparr>cn_step := Suc (cn_step s)\<rparr>)"
  using assms that unfolding calm_db_def exec_stmt_def
  by (cases "cn_env s (cn_step s)") (auto simp: Let_def dest: spec [of _ "cn_step s"])

lemma exec_stmt_eq:
  "exec_stmt f s = (if fst (cn_env s (cn_step s)) then (Inl dbError, s\<lparr>cn_step := Suc (cn_step s)\<rparr>)
     else f (snd (cn_env s (cn_step s))) (s\<lparr>cn_step := Suc (cn_step s)\<rparr>))"
  by (simp add: exec_stmt_def case_prod_beta Let_def)

lemma move_rows:
  "map wake_entry (map (\<lambda>r. if wr_ID r = i \<and> wr_Status r = old then r\<lparr>wr_Status := new, wr_UpdatedAt := t\<rparr> else r) rows) =
   move i old new (map wake_entry rows)"
  unfolding move_def map_map by (rule map_cong) (auto simp: wake_entry_def)

lemma move_status_moves: "moves wakeups_of calm_db i old new (move_status i old new)"
  unfolding moves_def
proof (intro allI conjI)
  fix s :: "'a SchedDb_scheme"
  obtain r s' where m: "move_status i old new s = (r, s')" by (cases "move_status i old new s")
  have hs: "list_ex (\<lambda>r. wr_ID r = i \<and> wr_Status r = old) (db_wakeups s) = has_status i old (wakeups_of s)"
    by (simp add: has_status_def wakeups_of_def wake_entry_def list_ex_iff)
  have "(r = Inl dbError \<and> \<not> calm_db s \<and> wakeups_of s' = wakeups_of s) \<or>
      (r = (if has_status i old (wakeups_of s) then Inr () else Inl ErrWakeupNotQueued) \<and>
       wakeups_of s' = move i old new (wakeups_of s))"
  proof (cases "fst (cn_env s (cn_step s))")
    case True
    then have "r = Inl dbError" "s' = s\<lparr>cn_step := Suc (cn_step s)\<rparr>" using m by (simp_all add: move_status_def exec_stmt_eq)
    then show ?thesis using True by (auto simp: calm_db_def wakeups_of_def)
  next
    case False
    then have d: "r = (if has_status i old (wakeups_of s) then Inr () else Inl ErrWakeupNotQueued)"
        "db_wakeups s' = map (\<lambda>r. if wr_ID r = i \<and> wr_Status r = old
           then r\<lparr>wr_Status := new, wr_UpdatedAt := snd (cn_env s (cn_step s))\<rparr> else r) (db_wakeups s)"
      using m hs by (auto simp: move_status_def exec_stmt_eq)
    have "wakeups_of s' = move i old new (wakeups_of s)" unfolding wakeups_of_def d(2) by (rule move_rows)
    then show ?thesis using d(1) by blast
  qed
  moreover have "dbError \<noteq> ErrWakeupNotQueued" by (simp add: dbError_def)
  moreover have "\<not> has_status i old (wakeups_of s) \<Longrightarrow> move i old new (wakeups_of s) = wakeups_of s" by (rule move_other)
  ultimately show "case fst (move_status i old new s) of
      Inl e \<Rightarrow> wakeups_of (snd (move_status i old new s)) = wakeups_of s \<and>
        (e = ErrWakeupNotQueued \<longrightarrow> \<not> has_status i old (wakeups_of s)) \<and> (calm_db s \<longrightarrow> e = ErrWakeupNotQueued)
    | Inr _ \<Rightarrow> has_status i old (wakeups_of s) \<and> wakeups_of (snd (move_status i old new s)) = move i old new (wakeups_of s)"
    unfolding m by (auto split: if_splits)
  have "cn_env s' = cn_env s"
    using m unfolding move_status_def by (elim exec_stmt_cases) auto
  then show "calm_db s \<longrightarrow> calm_db (snd (move_status i old new s))" by (simp add: m calm_db_def)
qed

interpretation wakeups: wakeup_store "WakeupRepo_Store mc" wakeups_of calm_db for mc
proof
  fix i st show "moves wakeups_of calm_db i WakeupStatusQueued st (st_MarkWakeupStatus (WakeupRepo_Store mc) i st)"
    by (simp add: WakeupRepo_Store_def WakeupRepo_MarkWakeupStatus_def move_status_moves)
next
  fix i show "moves wakeups_of calm_db i WakeupStatusConsumed WakeupStatusQueued (st_RequeueWakeup (WakeupRepo_Store mc) i)"
    by (simp add: WakeupRepo_Store_def WakeupRepo_RequeueWakeup_def move_status_moves)
next
  fix i c show "quiet wakeups_of calm_db (st_SetWakeupContext (WakeupRepo_Store mc) i c)"
    by (simp add: WakeupRepo_Store_def WakeupRepo_SetWakeupContext_def, rule exec_quiet)
      (auto simp: wakeups_of_def wake_entry_def)
next
  fix a d t show "quiet wakeups_of calm_db (st_ClaimHeartbeat (WakeupRepo_Store mc) a d t)"
    by (simp add: WakeupRepo_Store_def WakeupRepo_ClaimHeartbeat_def, rule exec_quiet) (auto simp: wakeups_of_def)
next
  fix a t show "quiet wakeups_of calm_db (st_ReleaseHeartbeatClaim (WakeupRepo_Store mc) a t)"
    by (simp add: WakeupRepo_Store_def WakeupRepo_ReleaseHeartbeatClaim_def, rule exec_quiet) (auto simp: wakeups_of_def)
next
  fix a k show "quiet wakeups_of calm_db (st_ActiveRunKeyForAgentTask (WakeupRepo_Store mc) a k)"
    by (simp add: WakeupRepo_Store_def WakeupRepo_ActiveRunKeyForAgentTask_def query_quiet)
next
  fix a show "quiet wakeups_of calm_db (st_GetAgentProfile (WakeupRepo_Store mc) a)"
    by (simp add: WakeupRepo_Store_def WakeupRepo_GetAgentProfile_def query_quiet)
next
  show "quiet wakeups_of calm_db (st_ListHeartbeatAgents (WakeupRepo_Store mc))"
    by (simp add: WakeupRepo_Store_def WakeupRepo_ListHeartbeatAgents_def query_quiet)
next
  fix a show "quiet wakeups_of calm_db (st_AssignedTasks (WakeupRepo_Store mc) a)"
    by (simp add: WakeupRepo_Store_def WakeupRepo_AssignedTasks_def query_quiet)
next
  fix t n show "quiet wakeups_of calm_db (st_DueTimers (WakeupRepo_Store mc) t n)"
    by (simp add: WakeupRepo_Store_def WakeupRepo_DueTimers_def query_quiet)
next
  fix a k show "quiet wakeups_of calm_db (st_HasQueuedTimer (WakeupRepo_Store mc) a k)"
    by (simp add: WakeupRepo_Store_def WakeupRepo_HasQueuedTimer_def query_quiet)
next
  fix a k b and s :: "'a SchedDb_scheme"
  assume "fst (st_HasQueuedTimer (WakeupRepo_Store mc) a k s) = Inr b"
  then show "b = list_ex (\<lambda>x. queued_timer x \<and> snd (fst (snd x)) = (a, k)) (wakeups_of s)"
    by (auto simp: WakeupRepo_Store_def WakeupRepo_HasQueuedTimer_def query_stmt_def exec_stmt_eq wakeups_of_def wake_entry_def
        queued_timer_def list_ex_iff case_prod_beta split: if_splits)
next
  fix w and s :: "'a SchedDb_scheme"
  obtain r s' where e: "WakeupRepo_EnqueueWakeup mc w s = (r, s')" by (cases "WakeupRepo_EnqueueWakeup mc w s")
  then show "case fst (st_EnqueueWakeup (WakeupRepo_Store mc) w s) of
      Inl _ \<Rightarrow> wakeups_of (snd (st_EnqueueWakeup (WakeupRepo_Store mc) w s)) = wakeups_of s
    | Inr _ \<Rightarrow> wk_ID w \<notin> set (map fst (wakeups_of s)) \<and>
        wakeups_of (snd (st_EnqueueWakeup (WakeupRepo_Store mc) w s)) =
          wakeups_of s @ [(wk_ID w, (wk_Source w, wk_AgentProfileID w, wk_TaskKey w), wk_Status w)]"
    by (auto simp: WakeupRepo_Store_def WakeupRepo_EnqueueWakeup_def exec_stmt_eq wakeups_of_def wake_entry_def
        list_ex_iff case_prod_beta comp_def split: if_splits) blast
qed

section \<open>Properties\<close>


text \<open>A starter that refuses, on a store whose fourth statement fails.\<close>

definition sample_wakeup_row :: WakeupRow where
  "sample_wakeup_row = \<lparr>wr_ID = ''w'', wr_WorkspaceID = ''s'', wr_AgentProfileID = ''agent_1'', wr_Source = WakeupSourceAutomation,
     wr_TaskKey = ''t'', wr_Context = ''c'', wr_Status = WakeupStatusQueued, wr_WakeAt = 0, wr_CreatedAt = 0, wr_UpdatedAt = 0\<rparr>"

definition sample_map_codec :: MapCodec where
  "sample_map_codec = \<lparr>mc_Marshal = (\<lambda>_. Some ''c''), mc_Unmarshal = (\<lambda>_. Some [(''settle_dispatch_id'', VStr ''d'')])\<rparr>"

definition sample_sched_db :: "(nat \<Rightarrow> bool \<times> time) \<Rightarrow> SchedDb" where
  "sample_sched_db env = \<lparr>cn_env = env, cn_step = 0, db_runs = [], db_runners = [], db_leases = [], db_dedup = [],
     db_runEvents = [], db_stream = [], db_outbox = [], db_activities = [], db_items = [], db_agents = [sample_agent],
     db_wakeups = [sample_wakeup_row]\<rparr>"

definition sample_scheduler :: "(go_error + string) \<Rightarrow> SchedDb Scheduler" where
  "sample_scheduler r = \<lparr>sc_Store = WakeupRepo_Store sample_map_codec, sc_CreateRun = (\<lambda>_ _ _ _ _ s. (r, s)),
     sc_Preflight = None, sc_Interval = 0, sc_HeartbeatDefault = 0, sc_ForwardInput = None, sc_StaleLocks = None,
     sc_NewID = (\<lambda>_. ''n''), sc_Now = (\<lambda>_. 0)\<rparr>"

definition sample_wakeup :: WakeupRequest where
  "sample_wakeup = scan_wakeup sample_map_codec sample_wakeup_row"

lemma sample_starter_ok: "starter_ok wakeups_of calm_db (sample_scheduler r)"
  by (simp add: starter_ok_def sample_scheduler_def)

lemmas sample_consume =
  ConsumeOne_def WakeupRepo_Store_def WakeupRepo_GetAgentProfile_def query_stmt_def exec_stmt_eq Let_def
  thenM_def preflight_step_def gate_step_def active_step_def take_step_def start_step_def releaseClaim_def
  WakeupRepo_ActiveRunKeyForAgentTask_def WakeupRepo_MarkWakeupStatus_def WakeupRepo_RequeueWakeup_def move_status_def
  retryOrExpire_def sample_scheduler_def sample_sched_db_def sample_wakeup_row_def sample_wakeup_def scan_wakeup_def

lemma sample_is_settlement: "isSettlementWakeup sample_wakeup"
  by (simp add: isSettlementWakeup_def sample_wakeup_def scan_wakeup_def sample_map_codec_def sample_wakeup_row_def
      string_or_empty_def get_string_def) code_simp

text \<open>
  When a run cannot be started and the request cannot be put back either, a settlement wake-up is
  lost: the call reports it as queued without an error, but its row stays consumed.
\<close>

lemma settlement_wakeup_lost:
  "fst (ConsumeOne (sample_scheduler (Inl (ErrOther ''no runner''))) sample_wakeup 0
      (sample_sched_db (\<lambda>n. (n = 3, 0)))) = (OutcomeQueued, None) \<and>
   has_status ''w'' WakeupStatusConsumed (wakeups_of (snd (ConsumeOne (sample_scheduler (Inl (ErrOther ''no runner'')))
      sample_wakeup 0 (sample_sched_db (\<lambda>n. (n = 3, 0))))))"
  using sample_is_settlement
  by (simp add: sample_consume sample_agent_def active_runs_def isCoordinatorPlanAutomation_def AgentProfileKind_IsSystem_def
      ErrWakeupNoop_def ErrWakeupDeferred_def wakeups_of_def wake_entry_def has_status_def)



text \<open>A starter that adds the run it starts.\<close>

definition sample_starting :: "SchedDb Scheduler" where
  "sample_starting = (sample_scheduler (Inr ''r''))\<lparr>sc_CreateRun := (\<lambda>_ _ task _ _ s.
     (Inr ''r'', s\<lparr>db_runs := db_runs s @ [sample_run\<lparr>rn_ID := ''r'', rn_WorkItemID := task\<rparr>]\<rparr>))\<rparr>"


text \<open>
  C37. However many ticks run, whatever they find and whichever statements fail, request ids stay
  unique and no task of an agent ever has two timers in the queue.
\<close>

theorem ticks_single_timer:
  assumes "sc_Store S = WakeupRepo_Store mc" and "starter_ok wakeups_of calm_db S"
    and "view_ok (wakeups_of db)" and "timers_ok (wakeups_of db)"
  shows "view_ok (wakeups_of (snd (fold (Tick S) nows (sweep, db)))) \<and>
    timers_ok (wakeups_of (snd (fold (Tick S) nows (sweep, db))))"
proof -
  have "wakeups.tick_inv (snd (fold (Tick S) nows st))" if "wakeups.tick_inv (snd st)" for st
    using that
  proof (induction nows arbitrary: st)
    case (Cons now nows)
    have "wakeups.tick_inv (snd (Tick S now st))"
      using wakeups.tick_inv_Tick [OF assms(1,2) Cons.prems, of now "fst st"] by simp
    then show ?case using Cons.IH by simp
  qed simp
  from this [of "(sweep, db)"] show ?thesis using assms(3,4) by (simp add: wakeups.tick_inv_def)
qed

text \<open>An agent with a heartbeat and a task of its own; the due requests cannot be read, twice.\<close>

definition sample_timer_db :: SchedDb where
  "sample_timer_db = (sample_sched_db (\<lambda>n. (n = 4 \<or> n = 8, 0)))\<lparr>db_wakeups := [],
     db_items := [sample_item\<lparr>wi_AgentProfileID := ''agent_1'', wi_RecordKind := RecordKindTask, wi_Status := WorkItemTodo\<rparr>]\<rparr>"

theorem ticks_single_timer_witness:
  "let db = snd (fold (Tick (sample_scheduler (Inr ''r''))) [0, 30000000000] (0, sample_timer_db))
   in wakeups_of db = [(''n'', (WakeupSourceTimer, ''agent_1'', ''wi_1''), WakeupStatusQueued)] \<and> timers_ok (wakeups_of db)"
proof -
  let ?db = "snd (fold (Tick (sample_scheduler (Inr ''r''))) [0, 30000000000] (0, sample_timer_db))"
  have a: "sc_Store (sample_scheduler (Inr ''r'')) = WakeupRepo_Store sample_map_codec" by (simp add: sample_scheduler_def)
  have b: "view_ok (wakeups_of sample_timer_db)" "timers_ok (wakeups_of sample_timer_db)"
    by (simp_all add: view_ok_def timers_ok_def wakeups_of_def sample_timer_db_def)
  have "wakeups_of ?db = [(''n'', (WakeupSourceTimer, ''agent_1'', ''wi_1''), WakeupStatusQueued)]"
    by (simp add: Tick_def sweepStaleLocks_def ProduceTimers_def produce_agent_def produce_task_def EnqueueWakeup_def
        WakeupRepo_Store_def WakeupRepo_ListHeartbeatAgents_def WakeupRepo_AssignedTasks_def WakeupRepo_HasQueuedTimer_def
        WakeupRepo_EnqueueWakeup_def WakeupRepo_DueTimers_def query_stmt_def exec_stmt_eq sample_scheduler_def sample_timer_db_def
        sample_sched_db_def sample_agent_def sample_item_def Let_def wakeups_of_def wake_entry_def IsZero_def)
  moreover have "timers_ok (wakeups_of ?db)" using ticks_single_timer [OF a sample_starter_ok b] by blast
  ultimately show ?thesis by (simp only: Let_def simp_thms)
qed

text \<open>
  A plan wake-up of the system coordinator whose profile cannot be loaded is coalesced once it is
  older than an hour, although such wake-ups are required.
\<close>

lemma coordinator_wakeup_coalesced:
  assumes "sc_Store S = WakeupRepo_Store mc" and "fst (cn_env db (cn_step db))" and "\<not> fst (cn_env db (Suc (cn_step db)))"
    and "\<not> isSettlementWakeup w" and "wk_WakeAt w < now - maxWakeupAge"
    and "has_status (wk_ID w) WakeupStatusQueued (wakeups_of db)"
  shows "fst (ConsumeOne S w now db) = (OutcomeCoalesced, None)"
  using assms
  by (simp add: ConsumeOne_def WakeupRepo_Store_def WakeupRepo_GetAgentProfile_def query_stmt_def exec_stmt_eq retryOrExpire_def
      coalesce_def WakeupRepo_MarkWakeupStatus_def move_status_def has_status_def wakeups_of_def wake_entry_def list_ex_iff)

end
