(* ===== verification/Questions.thy ===== *)
theory Questions
  imports Work Lifecycle
begin

text \<open>
  Native questions (\<^verbatim>\<open>internal/domain/question.go\<close>): one interaction in which a run asks the user
  to choose among options. A Go map is an association list in the order of its iteration, which
  the theorems leave open. A slice that may be nil is an option where the code can tell a nil
  slice from an empty one (\<^verbatim>\<open>reflect.DeepEqual\<close>). Messages of errors are their constant parts.
\<close>

section \<open>Data\<close>

datatype QuestionStatus = QuestionStatusUnset \<comment> \<open>the empty string\<close>
  | QuestionPending | QuestionAnswered | QuestionDismissed | QuestionExpired | QuestionStatusOther string

fun QuestionStatus_text :: "QuestionStatus \<Rightarrow> string" where
  "QuestionStatus_text QuestionStatusUnset = ''''"
| "QuestionStatus_text QuestionPending = ''pending''"
| "QuestionStatus_text QuestionAnswered = ''answered''"
| "QuestionStatus_text QuestionDismissed = ''dismissed''"
| "QuestionStatus_text QuestionExpired = ''expired''"
| "QuestionStatus_text (QuestionStatusOther s) = s"

record QuestionOption =
  qo_ID :: string
  qo_Label :: string
  qo_Description :: string

record QuestionItem =
  qi_ID :: string
  qi_Question :: string
  qi_Header :: string
  qi_Body :: string
  qi_Options :: "QuestionOption list"
  qi_MultiSelect :: bool
  qi_AllowOther :: bool
  qi_OtherLabel :: string
  qi_OtherDescription :: string

record QuestionAnswer =
  qa_Kind :: string
  qa_OptionID :: string
  qa_OptionIDs :: "string list option"
  qa_Text :: string
  qa_OtherText :: string

record QuestionResponse =
  qs_Answers :: "(string \<times> QuestionAnswer) list"
  qs_Method :: string
  qs_Note :: string

record QuestionRequest =
  qn_ID :: string
  qn_RunID :: string
  qn_WorkItemID :: string
  qn_SessionRef :: string
  qn_ProviderID :: string
  qn_AgentID :: string
  qn_TurnID :: int
  qn_ToolCallID :: string
  qn_Questions :: "QuestionItem list"
  qn_Status :: QuestionStatus
  qn_Response :: "QuestionResponse option"
  qn_ProviderAnswers :: "gomap option"
  qn_CreatedAt :: time
  qn_ResolvedAt :: "time option"

section \<open>Answers\<close>

definition option_ids :: "QuestionAnswer \<Rightarrow> string list" where
  "option_ids a = (case qa_OptionIDs a of None \<Rightarrow> [] | Some ids \<Rightarrow> ids)"

definition QuestionAnswer_Validate :: "QuestionAnswer \<Rightarrow> go_error option" where
  "QuestionAnswer_Validate a =
     (if qa_Kind a = ''single'' then
        require (TrimSpace (qa_OptionID a) \<noteq> '''') (ErrOther ''single answer requires option_id'')
      else if qa_Kind a = ''multi'' then
        require (option_ids a \<noteq> []) (ErrOther ''multi answer requires option_ids'')
      else if qa_Kind a = ''other'' then
        require (qa_Text a \<noteq> '''') (ErrOther ''other answer requires text'')
      else if qa_Kind a = ''multi_with_other'' then
        require (qa_OtherText a \<noteq> '''') (ErrOther ''multi_with_other answer requires other_text'')
      else if qa_Kind a = ''skipped'' then None
      else Some (ErrOther ''unsupported answer kind''))"

text \<open>\<^verbatim>\<open>reflect.DeepEqual\<close> on the two maps: the same keys with deeply equal answers.\<close>

definition QuestionResponse_Equal :: "QuestionResponse \<Rightarrow> QuestionResponse \<Rightarrow> bool" where
  "QuestionResponse_Equal r s \<longleftrightarrow>
     list_all (\<lambda>k. map_of (qs_Answers r) k = map_of (qs_Answers s) k) (map fst (qs_Answers r) @ map fst (qs_Answers s))"

definition check_answer :: "QuestionItem \<Rightarrow> QuestionAnswer \<Rightarrow> go_error option" where
  "check_answer item a =
     first_error
       ([QuestionAnswer_Validate a,
         require (\<not> (qa_Kind a = ''single'' \<and> qi_MultiSelect item)) (ErrOther ''question is multi-select''),
         require (\<not> ((qa_Kind a = ''multi'' \<or> qa_Kind a = ''multi_with_other'') \<and> \<not> qi_MultiSelect item))
           (ErrOther ''question is single-select''),
         require (qa_OptionID a = '''' \<or> qa_OptionID a \<in> set (map qo_ID (qi_Options item)))
           (ErrOther ''question references unknown option'')]
        @ map (\<lambda>i. require (i \<in> set (map qo_ID (qi_Options item))) (ErrOther ''question references unknown option''))
            (option_ids a)
        @ [require (\<not> ((qa_Kind a = ''other'' \<or> qa_Kind a = ''multi_with_other'') \<and> \<not> qi_AllowOther item))
            (ErrOther ''question does not allow other text'')])"

text \<open>The map of questions by id: a later question with the same id wins.\<close>

definition allowed :: "QuestionRequest \<Rightarrow> string \<Rightarrow> QuestionItem option" where
  "allowed q = map_of (rev (map (\<lambda>i. (qi_ID i, i)) (qn_Questions q)))"

definition QuestionResponse_Validate :: "QuestionResponse \<Rightarrow> QuestionRequest option \<Rightarrow> go_error option" where
  "QuestionResponse_Validate r request =
     first_error
       ([require (qs_Answers r \<noteq> []) (ErrOther ''answers is required''),
         require (qs_Method r = '''' \<or> qs_Method r \<in> {''enter'', ''space'', ''number_key'', ''click''})
           (ErrOther ''invalid answer method'')]
        @ (case request of
             None \<Rightarrow> []
           | Some q \<Rightarrow> map (\<lambda>(i, a). case allowed q i of
                 None \<Rightarrow> Some (ErrOther ''answer references unknown question'')
               | Some item \<Rightarrow> check_answer item a) (qs_Answers r)))"

section \<open>Requests\<close>

definition valid_option :: "QuestionOption \<Rightarrow> bool" where
  "valid_option x \<longleftrightarrow> TrimSpace (qo_ID x) \<noteq> '''' \<and> TrimSpace (qo_Label x) \<noteq> ''''"

definition valid_item :: "QuestionItem \<Rightarrow> bool" where
  "valid_item i \<longleftrightarrow>
     TrimSpace (qi_ID i) \<noteq> '''' \<and> TrimSpace (qi_Question i) \<noteq> '''' \<and>
     2 \<le> length (qi_Options i) \<and> length (qi_Options i) \<le> 4 \<and>
     list_all valid_option (qi_Options i) \<and> distinct (map qo_ID (qi_Options i))"

definition QuestionRequest_Validate :: "QuestionRequest \<Rightarrow> go_error + QuestionRequest" where
  "QuestionRequest_Validate q =
     (if TrimSpace (qn_ID q) = '''' \<or> TrimSpace (qn_RunID q) = '''' \<or> TrimSpace (qn_WorkItemID q) = '''' \<or>
         TrimSpace (qn_SessionRef q) = '''' \<or> TrimSpace (qn_ProviderID q) = '''' \<or>
         qn_Questions q = [] \<or> length (qn_Questions q) > 4 then Inl (ErrValidation '''')
      else if \<not> (list_all valid_item (qn_Questions q) \<and> distinct (map qi_ID (qn_Questions q)))
        then Inl (ErrValidation '''')
      else let q = (if qn_Status q = QuestionStatusUnset then q\<lparr>qn_Status := QuestionPending\<rparr> else q)
           in if qn_Status q \<notin> {QuestionPending, QuestionAnswered, QuestionDismissed, QuestionExpired}
              then Inl (ErrValidation '''') else Inr q)"

definition q_error :: "QuestionRequest \<Rightarrow> QuestionStatus \<Rightarrow> go_error" where
  "q_error q to = ErrTransition ''question'' (QuestionStatus_text (qn_Status q)) (QuestionStatus_text to)"

definition QuestionRequest_Resolve :: "QuestionRequest \<Rightarrow> QuestionResponse \<Rightarrow> time \<Rightarrow> go_error + QuestionRequest" where
  "QuestionRequest_Resolve q response now =
     (if qn_Status q = QuestionAnswered then Inr q
      else if qn_Status q \<noteq> QuestionPending then Inl (q_error q QuestionAnswered)
      else guarded (QuestionResponse_Validate response (Some q))
        (q\<lparr>qn_Status := QuestionAnswered, qn_Response := Some response, qn_ResolvedAt := Some now\<rparr>))"

definition QuestionRequest_PrepareResponse :: "QuestionRequest \<Rightarrow> QuestionResponse \<Rightarrow> go_error + QuestionRequest" where
  "QuestionRequest_PrepareResponse q response =
     (if qn_Status q \<noteq> QuestionPending then Inl (q_error q QuestionAnswered)
      else case QuestionResponse_Validate response (Some q) of
        Some e \<Rightarrow> Inl e
      | None \<Rightarrow> (case qn_Response q of
          Some r \<Rightarrow> if QuestionResponse_Equal r response then Inr q
                    else Inl (ErrStateConflict ''another response is already being delivered'')
        | None \<Rightarrow> Inr (q\<lparr>qn_Response := Some response\<rparr>)))"

definition QuestionRequest_CompleteResponse :: "QuestionRequest \<Rightarrow> time \<Rightarrow> go_error + QuestionRequest" where
  "QuestionRequest_CompleteResponse q now =
     (if qn_Status q = QuestionAnswered then Inr q
      else if qn_Status q \<noteq> QuestionPending \<or> qn_Response q = None then Inl (q_error q QuestionAnswered)
      else Inr (q\<lparr>qn_Status := QuestionAnswered, qn_ResolvedAt := Some now\<rparr>))"

definition QuestionRequest_MarkProviderAnswered ::
  "QuestionRequest \<Rightarrow> time \<Rightarrow> gomap option \<Rightarrow> go_error + QuestionRequest" where
  "QuestionRequest_MarkProviderAnswered q now answers =
     (if qn_Status q = QuestionAnswered then Inr (q\<lparr>qn_ProviderAnswers := answers\<rparr>)
      else if qn_Status q \<noteq> QuestionPending then Inl (q_error q QuestionAnswered)
      else Inr (q\<lparr>qn_Status := QuestionAnswered, qn_ProviderAnswers := answers, qn_ResolvedAt := Some now\<rparr>))"

definition QuestionRequest_ClearPreparedResponse :: "QuestionRequest \<Rightarrow> QuestionRequest" where
  "QuestionRequest_ClearPreparedResponse q =
     (if qn_Status q = QuestionPending then q\<lparr>qn_Response := None\<rparr> else q)"

definition option_label :: "QuestionItem \<Rightarrow> string \<Rightarrow> string" where
  "option_label item i =
     (case List.find (\<lambda>x. qo_ID x = i) (qi_Options item) of None \<Rightarrow> i | Some x \<Rightarrow> qo_Label x)"

text \<open>The native answer expected for a typed one; None is an answer of an unknown kind.\<close>

definition expected_answer :: "QuestionItem \<Rightarrow> QuestionAnswer \<Rightarrow> string option" where
  "expected_answer item a =
     (let labels = joinWith '', '' (map (option_label item) (option_ids a))
      in if qa_Kind a = ''single'' then Some (option_label item (qa_OptionID a))
         else if qa_Kind a = ''multi'' then Some labels
         else if qa_Kind a = ''other'' then Some (qa_Text a)
         else if qa_Kind a = ''multi_with_other'' then
           Some ((if labels \<noteq> '''' then labels @ '', '' else labels) @ qa_OtherText a)
         else None)"

text \<open>\<^verbatim>\<open>fmt.Sprint\<close> on a value is an argument.\<close>

definition QuestionRequest_MatchesProviderAnswers ::
  "(goval \<Rightarrow> string) \<Rightarrow> QuestionRequest \<Rightarrow> gomap \<Rightarrow> bool" where
  "QuestionRequest_MatchesProviderAnswers sprint q answers =
     (case qn_Response q of
        None \<Rightarrow> True
      | Some r \<Rightarrow> list_all (\<lambda>(i, a). case allowed q i of
            None \<Rightarrow> False
          | Some item \<Rightarrow> qa_Kind a = ''skipped'' \<or>
              (case (map_of answers (qi_Question item), expected_answer item a) of
                 (Some v, Some want) \<Rightarrow> sprint v = want
               | _ \<Rightarrow> False)) (qs_Answers r))"

definition QuestionRequest_Dismiss :: "QuestionRequest \<Rightarrow> time \<Rightarrow> go_error + QuestionRequest" where
  "QuestionRequest_Dismiss q now =
     (if qn_Status q = QuestionDismissed then Inr q
      else if qn_Status q \<noteq> QuestionPending then Inl (q_error q QuestionDismissed)
      else Inr (q\<lparr>qn_Status := QuestionDismissed, qn_Response := None, qn_ResolvedAt := Some now\<rparr>))"

definition QuestionRequest_Expire :: "QuestionRequest \<Rightarrow> time \<Rightarrow> go_error + QuestionRequest" where
  "QuestionRequest_Expire q now =
     (if qn_Status q = QuestionExpired then Inr q
      else if qn_Status q \<noteq> QuestionPending then Inl (q_error q QuestionExpired)
      else Inr (q\<lparr>qn_Status := QuestionExpired, qn_ResolvedAt := Some now\<rparr>))"

section \<open>Histories\<close>

datatype q_op = QResolve QuestionResponse time | QPrepare QuestionResponse | QComplete time
  | QMarkProvider time "gomap option" | QClear | QDismiss time | QExpire time

fun q_apply :: "q_op \<Rightarrow> QuestionRequest \<Rightarrow> go_error + QuestionRequest" where
  "q_apply (QResolve r t) q = QuestionRequest_Resolve q r t"
| "q_apply (QPrepare r) q = QuestionRequest_PrepareResponse q r"
| "q_apply (QComplete t) q = QuestionRequest_CompleteResponse q t"
| "q_apply (QMarkProvider t a) q = QuestionRequest_MarkProviderAnswered q t a"
| "q_apply QClear q = Inr (QuestionRequest_ClearPreparedResponse q)"
| "q_apply (QDismiss t) q = QuestionRequest_Dismiss q t"
| "q_apply (QExpire t) q = QuestionRequest_Expire q t"

lemmas q_op_defs = QuestionRequest_Resolve_def QuestionRequest_PrepareResponse_def
  QuestionRequest_CompleteResponse_def QuestionRequest_MarkProviderAnswered_def
  QuestionRequest_ClearPreparedResponse_def QuestionRequest_Dismiss_def QuestionRequest_Expire_def

definition q_static :: "QuestionRequest \<Rightarrow> QuestionRequest" where
  "q_static q = q\<lparr>qn_Status := QuestionPending, qn_Response := None, qn_ProviderAnswers := None, qn_ResolvedAt := None\<rparr>"

lemma Validate_question_cong:
  "qn_Questions q = qn_Questions q' \<Longrightarrow> QuestionResponse_Validate r (Some q) = QuestionResponse_Validate r (Some q')"
  by (simp add: QuestionResponse_Validate_def allowed_def)

text \<open>
  A stored question: a valid request, resolved exactly when it is no longer pending, whose
  response (prepared or delivered) answers questions it asks with options it offers.
\<close>

definition q_ok :: "QuestionRequest \<Rightarrow> bool" where
  "q_ok q \<longleftrightarrow> QuestionRequest_Validate q = Inr q \<and>
     (qn_ResolvedAt q = None \<longleftrightarrow> qn_Status q = QuestionPending) \<and>
     (\<forall>r. qn_Response q = Some r \<longrightarrow> QuestionResponse_Validate r (Some q) = None)"

lemma set_status_eq: "q\<lparr>qn_Status := s\<rparr> = q \<Longrightarrow> qn_Status q = s"
  by (drule arg_cong [of _ _ qn_Status]) simp

lemma Validate_request:
  "QuestionRequest_Validate q = Inr q \<longleftrightarrow>
     TrimSpace (qn_ID q) \<noteq> '''' \<and> TrimSpace (qn_RunID q) \<noteq> '''' \<and> TrimSpace (qn_WorkItemID q) \<noteq> '''' \<and>
     TrimSpace (qn_SessionRef q) \<noteq> '''' \<and> TrimSpace (qn_ProviderID q) \<noteq> '''' \<and>
     qn_Questions q \<noteq> [] \<and> length (qn_Questions q) \<le> 4 \<and>
     list_all valid_item (qn_Questions q) \<and> distinct (map qi_ID (qn_Questions q)) \<and>
     qn_Status q \<in> {QuestionPending, QuestionAnswered, QuestionDismissed, QuestionExpired}"
  by (auto simp: QuestionRequest_Validate_def Let_def not_less split: if_splits dest: set_status_eq)

lemma q_apply_ok:
  assumes "q_ok q" and "q_apply x q = Inr q'"
  shows "q_ok q'"
proof -
  have "qn_Questions q' = qn_Questions q"
    using assms(2) by (cases x) (auto simp: q_op_defs split: if_splits option.splits)
  note eq = Validate_question_cong [OF this]
  show ?thesis
    using assms unfolding q_ok_def eq Validate_request
    by (cases x) (auto simp: q_op_defs split: if_splits option.splits)
qed

interpretation question: aggregate q_ok "\<lambda>_ _. True" q_apply
  by unfold_locales (rule q_apply_ok)

lemma q_apply_static: "q_apply x q = Inr q' \<Longrightarrow> q_static q' = q_static q"
  by (cases x) (auto simp: q_op_defs q_static_def split: if_splits option.splits)

lemma q_apply_settled:
  "qn_Status q \<noteq> QuestionPending \<Longrightarrow> q_apply x q = Inr q' \<Longrightarrow>
     q' = q\<lparr>qn_ProviderAnswers := qn_ProviderAnswers q'\<rparr> \<and>
     (qn_Status q \<noteq> QuestionAnswered \<longrightarrow> q' = q)"
  by (cases x) (auto simp: q_op_defs split: if_splits option.splits)

end
