(* ===== verification/RunStore.thy ===== *)
theory RunStore
  imports Questions Wakeups
begin

text \<open>
  The repositories that the run service works on: work items
  (\<^verbatim>\<open>internal/persistence/sqlstore/workitems.go\<close>), runs (\<^verbatim>\<open>runs.go\<close>), agents (\<^verbatim>\<open>agents.go\<close>)
  and native questions (\<^verbatim>\<open>questions.go\<close>). A row is the value the repository reads back from it.
  The usage snapshots of a run, which the repository validates, are not part of the run here.
  Values that a foreign key or a CHECK refuses are not written by the modelled code, apart from
  the ones named below.
\<close>

record SearchEntry =
  se_WorkItemID :: string
  se_Kind :: string
  se_SourceID :: string
  se_Title :: string
  se_Body :: string

record AuditRow =
  au_WorkspaceID :: string
  au_Actor :: gomap
  au_Action :: string
  au_Target :: string
  au_Detail :: gomap
  au_OccurredAt :: time

record RunDb = SchedDb +
  db_blockers :: "Blocker list"
  db_questions :: "QuestionRequest list"
  db_approvals :: "ApprovalRequest list"
  db_grants :: "ApprovalGrant list"
  db_artifacts :: "Artifact list"
  db_search :: "SearchEntry list"
  db_audit :: "AuditRow list"

definition fkError :: go_error where
  "fkError = ErrOther ''FOREIGN KEY constraint failed''"

definition known_run :: "'a LeaseDb_scheme \<Rightarrow> string \<Rightarrow> bool" where
  "known_run db i \<longleftrightarrow> list_ex (\<lambda>r. rn_ID r = i) (db_runs db)"

definition known_item :: "'a SchedDb_scheme \<Rightarrow> string \<Rightarrow> bool" where
  "known_item db i \<longleftrightarrow> list_ex (\<lambda>w. wi_ID w = i) (db_items db)"

section \<open>Work items\<close>

text \<open>A due date is stored as a day.\<close>

definition due_day :: "time \<Rightarrow> time" where
  "due_day t = t - t mod 86400000000000"

definition WorkItemRepo_Get :: "string \<Rightarrow> 'a SchedDb_scheme \<Rightarrow> (go_error + WorkItem) \<times> 'a SchedDb_scheme" where
  "WorkItemRepo_Get i = query_stmt (\<lambda>_ db.
     case List.find (\<lambda>w. wi_ID w = i) (db_items db) of None \<Rightarrow> Inl ErrNotFound | Some w \<Rightarrow> Inr w)"

text \<open>
  Creation: the primary key and the client key of a workspace are unique, the parent must exist
  and be of the same kind (triggers of \<^verbatim>\<open>migrations/0019_record_kind.sql\<close>).
\<close>

definition client_key_taken :: "('r \<Rightarrow> string) \<Rightarrow> ('r \<Rightarrow> string) \<Rightarrow> 'r \<Rightarrow> 'r list \<Rightarrow> bool" where
  "client_key_taken ws key r rows \<longleftrightarrow> key r \<noteq> '''' \<and> list_ex (\<lambda>x. ws x = ws r \<and> key x = key r) rows"

definition WorkItemRepo_Create :: "WorkItem \<Rightarrow> 'a SchedDb_scheme \<Rightarrow> (go_error + unit) \<times> 'a SchedDb_scheme" where
  "WorkItemRepo_Create w =
     (let kind = (if wi_RecordKind w = RecordKindUnset then RecordKindTask else wi_RecordKind w)
      in if \<not> RecordKind_Valid kind then failM (ErrValidation '''')
         else exec_stmt (\<lambda>_ db.
           if list_ex (\<lambda>p. wi_ID p = wi_ParentID w \<and> wi_ParentID w \<noteq> '''' \<and> wi_RecordKind p \<noteq> kind) (db_items db)
             then (Inl (ErrOther ''work_items parent and child record_kind must match''), db)
           else if list_ex (\<lambda>x. wi_ID x = wi_ID w) (db_items db) \<or> client_key_taken wi_WorkspaceID wi_ClientKey w (db_items db)
             then (Inl ErrIdempotencyConflict, db)
           else if wi_ParentID w \<noteq> '''' \<and> \<not> known_item db (wi_ParentID w) then (Inl fkError, db)
           else (Inr (), db\<lparr>db_items := db_items db @
                  [w\<lparr>wi_RecordKind := kind, wi_DueDate := map_option due_day (wi_DueDate w)\<rparr>]\<rparr>)))"

definition written_item :: "WorkItem \<Rightarrow> time \<Rightarrow> WorkItem \<Rightarrow> WorkItem" where
  "written_item w t row = row\<lparr>wi_Title := wi_Title w, wi_Description := wi_Description w,
     wi_Status := wi_Status w, wi_Phase := wi_Phase w, wi_Priority := wi_Priority w,
     wi_DueDate := map_option due_day (wi_DueDate w), wi_AgentProfileID := wi_AgentProfileID w,
     wi_LockedByRunID := wi_LockedByRunID w, wi_LockedAt := wi_LockedAt w,
     wi_RollingDigest := wi_RollingDigest w, wi_AcceptanceCriteria := wi_AcceptanceCriteria w,
     wi_PhaseEnteredAt := wi_PhaseEnteredAt w, wi_Version := wi_Version row + 1, wi_UpdatedAt := t\<rparr>"

definition WorkItemRepo_Update ::
  "WorkItem \<Rightarrow> int \<Rightarrow> 'a SchedDb_scheme \<Rightarrow> (go_error + unit) \<times> 'a SchedDb_scheme" where
  "WorkItemRepo_Update w expectedVersion = exec_stmt (\<lambda>t db.
     let hit = (\<lambda>row. wi_ID row = wi_ID w \<and> wi_Version row = expectedVersion)
     in (if list_ex hit (db_items db) then Inr () else Inl ErrVersionConflict,
         db\<lparr>db_items := map (\<lambda>row. if hit row then written_item w t row else row) (db_items db)\<rparr>))"

definition WorkItemRepo_TouchUpdatedAt ::
  "string \<Rightarrow> time \<Rightarrow> 'a SchedDb_scheme \<Rightarrow> (go_error + unit) \<times> 'a SchedDb_scheme" where
  "WorkItemRepo_TouchUpdatedAt i at = exec_stmt (\<lambda>_ db.
     (if list_ex (\<lambda>row. wi_ID row = i) (db_items db) then Inr () else Inl ErrNotFound,
      db\<lparr>db_items := map (\<lambda>row. if wi_ID row = i then row\<lparr>wi_UpdatedAt := at\<rparr> else row) (db_items db)\<rparr>))"

definition WorkItemRepo_UpdateRollingDigest ::
  "string \<Rightarrow> string \<Rightarrow> int \<Rightarrow> 'a SchedDb_scheme \<Rightarrow> (go_error + unit) \<times> 'a SchedDb_scheme" where
  "WorkItemRepo_UpdateRollingDigest i digest expectedVersion = exec_stmt (\<lambda>_ db.
     let hit = (\<lambda>row. wi_ID row = i \<and> wi_Version row = expectedVersion)
     in (if list_ex hit (db_items db) then Inr () else Inl ErrVersionConflict,
         db\<lparr>db_items := map (\<lambda>row. if hit row
           then row\<lparr>wi_RollingDigest := digest, wi_Version := wi_Version row + 1\<rparr> else row) (db_items db)\<rparr>))"

definition WorkItemRepo_ListByParent ::
  "string \<Rightarrow> 'a SchedDb_scheme \<Rightarrow> (go_error + WorkItem list) \<times> 'a SchedDb_scheme" where
  "WorkItemRepo_ListByParent parentID = query_stmt (\<lambda>_ db.
     Inr (sort_key (\<lambda>w. timeParam (wi_CreatedAt w)) (sort_key wi_ID
       (filter (\<lambda>w. wi_ParentID w = parentID \<and> parentID \<noteq> '''') (db_items db)))))"

text \<open>A lock is released when it is old enough and its run exists and is terminal.\<close>

definition stale_lock :: "'a SchedDb_scheme \<Rightarrow> time \<Rightarrow> WorkItem \<Rightarrow> bool" where
  "stale_lock db olderThan w \<longleftrightarrow>
     (case wi_LockedAt w of None \<Rightarrow> False | Some t \<Rightarrow> timeParam t < timeParam olderThan) \<and>
     list_ex (\<lambda>r. rn_ID r = wi_LockedByRunID w \<and> wi_LockedByRunID w \<noteq> '''' \<and> RunStatus_IsTerminal (rn_Status r)) (db_runs db)"

definition WorkItemRepo_ReleaseStaleLocks ::
  "time \<Rightarrow> 'a SchedDb_scheme \<Rightarrow> (go_error + nat) \<times> 'a SchedDb_scheme" where
  "WorkItemRepo_ReleaseStaleLocks olderThan = exec_stmt (\<lambda>_ db.
     (Inr (length (filter (stale_lock db olderThan) (db_items db))),
      db\<lparr>db_items := map (\<lambda>w. if stale_lock db olderThan w
        then w\<lparr>wi_LockedByRunID := '''', wi_LockedAt := None\<rparr> else w) (db_items db)\<rparr>))"

definition WorkItemRepo_LatestRunID :: "string \<Rightarrow> 'a LeaseDb_scheme \<Rightarrow> (go_error + string \<times> nat) \<times> 'a LeaseDb_scheme" where
  "WorkItemRepo_LatestRunID workItemID = query_stmt (\<lambda>_ db.
     let runs = filter (\<lambda>r. rn_WorkItemID r = workItemID) (db_runs db)
     in Inr (case rev (sort_key (\<lambda>r. timeParam (rn_CreatedAt r)) (rev runs)) of [] \<Rightarrow> '''' | r # _ \<Rightarrow> rn_ID r, length runs))"

definition WorkItemRepo_ActiveBlocker :: "string \<Rightarrow> 'a RunDb_scheme \<Rightarrow> (go_error + Blocker) \<times> 'a RunDb_scheme" where
  "WorkItemRepo_ActiveBlocker workItemID = query_stmt (\<lambda>_ db.
     case rev (sort_key (\<lambda>b. timeParam (bl_CreatedAt b)) (rev (filter (\<lambda>b. bl_WorkItemID b = workItemID \<and> bl_ResolvedAt b = None) (db_blockers db)))) of
       [] \<Rightarrow> Inl ErrNotFound | b # _ \<Rightarrow> Inr b)"

definition WorkItemRepo_CreateBlocker :: "Blocker \<Rightarrow> 'a RunDb_scheme \<Rightarrow> (go_error + unit) \<times> 'a RunDb_scheme" where
  "WorkItemRepo_CreateBlocker b = exec_stmt (\<lambda>_ db.
     if list_ex (\<lambda>x. bl_ID x = bl_ID b) (db_blockers db) then (Inl ErrIdempotencyConflict, db)
     else if \<not> known_item db (bl_WorkItemID b) then (Inl fkError, db)
     else (Inr (), db\<lparr>db_blockers := db_blockers db @ [b\<lparr>bl_ResolvedAt := None\<rparr>]\<rparr>))"

definition WorkItemRepo_ResolveBlockers :: "string \<Rightarrow> time \<Rightarrow> 'a RunDb_scheme \<Rightarrow> (go_error + unit) \<times> 'a RunDb_scheme" where
  "WorkItemRepo_ResolveBlockers workItemID at = exec_stmt (\<lambda>_ db. (Inr (),
     db\<lparr>db_blockers := map (\<lambda>b. if bl_WorkItemID b = workItemID \<and> bl_ResolvedAt b = None
       then b\<lparr>bl_ResolvedAt := Some at\<rparr> else b) (db_blockers db)\<rparr>))"

section \<open>Runs and agents\<close>

definition RunRepo_Get :: "string \<Rightarrow> 'a LeaseDb_scheme \<Rightarrow> (go_error + ExecutionRun) \<times> 'a LeaseDb_scheme" where
  "RunRepo_Get i = query_stmt (\<lambda>_ db.
     case List.find (\<lambda>r. rn_ID r = i) (db_runs db) of None \<Rightarrow> Inl ErrNotFound | Some r \<Rightarrow> Inr r)"

text \<open>The foreign keys to items and runs; those to agents and dispatches always hold in the callers.\<close>

definition RunRepo_Create :: "ExecutionRun \<Rightarrow> 'a SchedDb_scheme \<Rightarrow> (go_error + unit) \<times> 'a SchedDb_scheme" where
  "RunRepo_Create r = exec_stmt (\<lambda>_ db.
     if list_ex (\<lambda>x. rn_ID x = rn_ID r) (db_runs db) \<or> client_key_taken rn_WorkspaceID rn_ClientKey r (db_runs db)
       then (Inl ErrIdempotencyConflict, db)
     else if \<not> known_item db (rn_WorkItemID r) \<or> (rn_RetryOf r \<noteq> '''' \<and> \<not> known_run db (rn_RetryOf r)) then (Inl fkError, db)
     else (Inr (), db\<lparr>db_runs := db_runs db @ [r]\<rparr>))"

definition written_run :: "ExecutionRun \<Rightarrow> time \<Rightarrow> ExecutionRun \<Rightarrow> ExecutionRun" where
  "written_run r t row = row\<lparr>rn_Status := rn_Status r, rn_Progress := rn_Progress r,
     rn_SessionRef := rn_SessionRef r, rn_SessionBefore := rn_SessionBefore r,
     rn_SessionAfter := rn_SessionAfter r, rn_ErrorFamily := rn_ErrorFamily r,
     rn_Failure := rn_Failure r, rn_Version := rn_Version row + 1, rn_UpdatedAt := t,
     rn_FinishedAt := rn_FinishedAt r\<rparr>"

definition RunRepo_Update ::
  "ExecutionRun \<Rightarrow> int \<Rightarrow> 'a LeaseDb_scheme \<Rightarrow> (go_error + unit) \<times> 'a LeaseDb_scheme" where
  "RunRepo_Update r expectedVersion = exec_stmt (\<lambda>t db.
     let hit = (\<lambda>row. rn_ID row = rn_ID r \<and> rn_Version row = expectedVersion)
     in (if list_ex hit (db_runs db) then Inr () else Inl ErrVersionConflict,
         db\<lparr>db_runs := map (\<lambda>row. if hit row then written_run r t row else row) (db_runs db)\<rparr>))"

definition RunRepo_SetContextSnapshot ::
  "string \<Rightarrow> string \<Rightarrow> 'a LeaseDb_scheme \<Rightarrow> (go_error + unit) \<times> 'a LeaseDb_scheme" where
  "RunRepo_SetContextSnapshot runID snapshotID = exec_stmt (\<lambda>_ db.
     let hit = (\<lambda>row. rn_ID row = runID \<and> rn_ContextSnapshotID row = '''')
     in (if list_ex hit (db_runs db) then Inr () else Inl (ErrStateConflict ''''),
         db\<lparr>db_runs := map (\<lambda>row. if hit row then row\<lparr>rn_ContextSnapshotID := snapshotID\<rparr> else row) (db_runs db)\<rparr>))"

definition RunRepo_ListByWorkItem ::
  "string \<Rightarrow> 'a LeaseDb_scheme \<Rightarrow> (go_error + ExecutionRun list) \<times> 'a LeaseDb_scheme" where
  "RunRepo_ListByWorkItem workItemID = query_stmt (\<lambda>_ db.
     Inr (sort_key (\<lambda>r. timeParam (rn_CreatedAt r)) (filter (\<lambda>r. rn_WorkItemID r = workItemID) (db_runs db))))"

definition RunRepo_ListByDispatch ::
  "string \<Rightarrow> 'a LeaseDb_scheme \<Rightarrow> (go_error + ExecutionRun list) \<times> 'a LeaseDb_scheme" where
  "RunRepo_ListByDispatch dispatchID = query_stmt (\<lambda>_ db.
     Inr (sort_key (\<lambda>r. timeParam (rn_CreatedAt r))
       (filter (\<lambda>r. rn_DispatchID r = dispatchID \<and> dispatchID \<noteq> '''') (db_runs db))))"

definition RunRepo_ActiveByAgent ::
  "string \<Rightarrow> 'a LeaseDb_scheme \<Rightarrow> (go_error + ExecutionRun list) \<times> 'a LeaseDb_scheme" where
  "RunRepo_ActiveByAgent agentProfileID = query_stmt (\<lambda>_ db.
     Inr (sort_key (\<lambda>r. timeParam (rn_CreatedAt r)) (filter (\<lambda>r. rn_AgentProfileID r = agentProfileID \<and>
       agentProfileID \<noteq> '''' \<and> \<not> RunStatus_IsTerminal (rn_Status r)) (db_runs db))))"

definition RunRepo_LeaselessActive :: "'a LeaseDb_scheme \<Rightarrow> (go_error + ExecutionRun list) \<times> 'a LeaseDb_scheme" where
  "RunRepo_LeaselessActive = query_stmt (\<lambda>_ db.
     Inr (sort_key (\<lambda>r. timeParam (rn_CreatedAt r)) (filter (\<lambda>r. \<not> RunStatus_IsTerminal (rn_Status r) \<and>
       \<not> list_ex (\<lambda>l. lr_RunID l = rn_ID r) (db_leases db)) (db_runs db))))"

definition RunRepo_ActiveCount :: "string \<Rightarrow> 'a SchedDb_scheme \<Rightarrow> (go_error + nat) \<times> 'a SchedDb_scheme" where
  "RunRepo_ActiveCount workspaceID = query_stmt (\<lambda>_ db.
     Inr (length (filter (\<lambda>r. rn_WorkspaceID r = workspaceID \<and> \<not> RunStatus_IsTerminal (rn_Status r) \<and>
       list_ex (\<lambda>w. wi_ID w = rn_WorkItemID r \<and> wi_RecordKind w = RecordKindTask) (db_items db)) (db_runs db))))"

definition AgentRepo_SetPresence ::
  "string \<Rightarrow> AgentPresence \<Rightarrow> 'a SchedDb_scheme \<Rightarrow> (go_error + unit) \<times> 'a SchedDb_scheme" where
  "AgentRepo_SetPresence i presence = exec_stmt (\<lambda>t db. (Inr (),
     db\<lparr>db_agents := map (\<lambda>a. if ag_ID a = i then a\<lparr>ag_Presence := presence, ag_UpdatedAt := t\<rparr> else a) (db_agents db)\<rparr>))"

section \<open>Questions\<close>

text \<open>
  The response column holds JSON whose empty fields are omitted (\<^verbatim>\<open>omitempty\<close>): an empty list of
  options comes back as nil. The other fields come back as they were; so do the provider's
  answers, which are JSON to begin with.
\<close>

definition stored_answer :: "QuestionAnswer \<Rightarrow> QuestionAnswer" where
  "stored_answer a = a\<lparr>qa_OptionIDs := (if option_ids a = [] then None else qa_OptionIDs a)\<rparr>"

definition stored_response :: "QuestionResponse \<Rightarrow> QuestionResponse" where
  "stored_response r = r\<lparr>qs_Answers := map (\<lambda>(i, a). (i, stored_answer a)) (qs_Answers r)\<rparr>"

definition QuestionRepo_Create ::
  "QuestionRequest \<Rightarrow> 'a RunDb_scheme \<Rightarrow> (go_error + unit) \<times> 'a RunDb_scheme" where
  "QuestionRepo_Create q =
     (case QuestionRequest_Validate q of
        Inl e \<Rightarrow> failM e
      | Inr q \<Rightarrow> exec_stmt (\<lambda>_ db.
          if list_ex (\<lambda>x. qn_ID x = qn_ID q \<or>
               (qn_RunID x = qn_RunID q \<and> qn_SessionRef x = qn_SessionRef q \<and> qn_ProviderID x = qn_ProviderID q))
               (db_questions db) then (Inl ErrIdempotencyConflict, db)
          else if \<not> known_run db (qn_RunID q) \<or> \<not> known_item db (qn_WorkItemID q)
            then (Inl fkError, db)
          else (Inr (), db\<lparr>db_questions := db_questions db @
                 [q\<lparr>qn_Response := map_option stored_response (qn_Response q)\<rparr>]\<rparr>)))"

definition QuestionRepo_Get ::
  "string \<Rightarrow> 'a RunDb_scheme \<Rightarrow> (go_error + QuestionRequest) \<times> 'a RunDb_scheme" where
  "QuestionRepo_Get i = query_stmt (\<lambda>_ db.
     case List.find (\<lambda>q. qn_ID q = i) (db_questions db) of None \<Rightarrow> Inl ErrNotFound | Some q \<Rightarrow> Inr q)"

definition QuestionRepo_GetByProviderKey ::
  "string \<Rightarrow> string \<Rightarrow> string \<Rightarrow> 'a RunDb_scheme \<Rightarrow> (go_error + QuestionRequest) \<times> 'a RunDb_scheme" where
  "QuestionRepo_GetByProviderKey runID sessionRef providerID = query_stmt (\<lambda>_ db.
     case List.find (\<lambda>q. qn_RunID q = runID \<and> qn_SessionRef q = sessionRef \<and> qn_ProviderID q = providerID) (db_questions db) of
       None \<Rightarrow> Inl ErrNotFound | Some q \<Rightarrow> Inr q)"

definition by_creation :: "QuestionRequest list \<Rightarrow> QuestionRequest list" where
  "by_creation = sort_key (\<lambda>q. timeParam (qn_CreatedAt q))"

definition QuestionRepo_ListPending ::
  "string \<Rightarrow> 'a RunDb_scheme \<Rightarrow> (go_error + QuestionRequest list) \<times> 'a RunDb_scheme" where
  "QuestionRepo_ListPending runID = query_stmt (\<lambda>_ db.
     Inr (by_creation (filter (\<lambda>q. qn_RunID q = runID \<and> qn_Status q = QuestionPending \<and>
       list_ex (\<lambda>r. rn_ID r = qn_RunID q \<and> \<not> RunStatus_IsTerminal (rn_Status r)) (db_runs db)) (db_questions db))))"

definition QuestionRepo_ListPendingByRun ::
  "string \<Rightarrow> 'a RunDb_scheme \<Rightarrow> (go_error + QuestionRequest list) \<times> 'a RunDb_scheme" where
  "QuestionRepo_ListPendingByRun runID = query_stmt (\<lambda>_ db.
     Inr (by_creation (filter (\<lambda>q. qn_RunID q = runID \<and> qn_Status q = QuestionPending) (db_questions db))))"

definition QuestionRepo_ListStalePending ::
  "'a RunDb_scheme \<Rightarrow> (go_error + QuestionRequest list) \<times> 'a RunDb_scheme" where
  "QuestionRepo_ListStalePending = query_stmt (\<lambda>_ db.
     Inr (sort_key qn_RunID (by_creation (filter (\<lambda>q. qn_Status q = QuestionPending \<and>
       list_ex (\<lambda>r. rn_ID r = qn_RunID q \<and> RunStatus_IsTerminal (rn_Status r)) (db_runs db)) (db_questions db)))))"

definition QuestionRepo_ExpirePendingByRun ::
  "string \<Rightarrow> time \<Rightarrow> 'a RunDb_scheme \<Rightarrow> (go_error + nat) \<times> 'a RunDb_scheme" where
  "QuestionRepo_ExpirePendingByRun runID now = exec_stmt (\<lambda>_ db.
     let hit = (\<lambda>q. qn_RunID q = runID \<and> qn_Status q = QuestionPending)
     in (Inr (length (filter hit (db_questions db))),
         db\<lparr>db_questions := map (\<lambda>q. if hit q
           then q\<lparr>qn_Status := QuestionExpired, qn_ResolvedAt := Some now\<rparr> else q) (db_questions db)\<rparr>))"

definition QuestionRepo_Update ::
  "QuestionRequest \<Rightarrow> 'a RunDb_scheme \<Rightarrow> (go_error + unit) \<times> 'a RunDb_scheme" where
  "QuestionRepo_Update q =
     (if qn_ID q = '''' then failM (ErrOther ''question id required'')
      else exec_stmt (\<lambda>_ db.
        (if list_ex (\<lambda>x. qn_ID x = qn_ID q) (db_questions db) then Inr () else Inl (ErrOther ''sql: no rows in result set''),
         db\<lparr>db_questions := map (\<lambda>x. if qn_ID x = qn_ID q
           then x\<lparr>qn_Status := qn_Status q, qn_Response := map_option stored_response (qn_Response q),
                  qn_ProviderAnswers := qn_ProviderAnswers q, qn_ResolvedAt := qn_ResolvedAt q\<rparr> else x) (db_questions db)\<rparr>)))"

section \<open>Approvals, grants, artifacts, audit\<close>

text \<open>A plan's gate approval has no run: its run id is empty, and NULL in the row.\<close>

definition RunRepo_CreateApproval :: "ApprovalRequest \<Rightarrow> 'a RunDb_scheme \<Rightarrow> (go_error + unit) \<times> 'a RunDb_scheme" where
  "RunRepo_CreateApproval a = exec_stmt (\<lambda>_ db.
     if list_ex (\<lambda>x. ap_ID x = ap_ID a) (db_approvals db) then (Inl ErrIdempotencyConflict, db)
     else if ap_Risk a \<notin> {''low'', ''medium'', ''high''} then (Inl (ErrOther ''CHECK constraint failed''), db)
     else if (ap_RunID a \<noteq> '''' \<and> \<not> known_run db (ap_RunID a)) \<or> \<not> known_item db (ap_WorkItemID a) then (Inl fkError, db)
     else (Inr (), db\<lparr>db_approvals := db_approvals db @
            [a\<lparr>ap_ResolvedAt := None, ap_ResolvedBy := '''', ap_ResolveReason := ''''\<rparr>]\<rparr>))"

definition RunRepo_GetApproval :: "string \<Rightarrow> 'a RunDb_scheme \<Rightarrow> (go_error + ApprovalRequest) \<times> 'a RunDb_scheme" where
  "RunRepo_GetApproval i = query_stmt (\<lambda>_ db.
     case List.find (\<lambda>a. ap_ID a = i) (db_approvals db) of None \<Rightarrow> Inl ErrNotFound | Some a \<Rightarrow> Inr a)"

definition RunRepo_ListApprovals :: "string \<Rightarrow> 'a RunDb_scheme \<Rightarrow> (go_error + ApprovalRequest list) \<times> 'a RunDb_scheme" where
  "RunRepo_ListApprovals runID = query_stmt (\<lambda>_ db.
     Inr (sort_key (\<lambda>a. timeParam (ap_CreatedAt a)) (filter (\<lambda>a. ap_RunID a = runID \<and> runID \<noteq> '''') (db_approvals db))))"

definition RunRepo_ListPendingPlanDispatchApprovals ::
  "string \<Rightarrow> 'a RunDb_scheme \<Rightarrow> (go_error + ApprovalRequest list) \<times> 'a RunDb_scheme" where
  "RunRepo_ListPendingPlanDispatchApprovals workItemID = query_stmt (\<lambda>_ db.
     Inr (sort_key (\<lambda>a. timeParam (ap_CreatedAt a)) (filter (\<lambda>a. ap_WorkItemID a = workItemID \<and> ap_RunID a = '''' \<and>
       ap_Kind a = ''plan_dispatch'' \<and> ap_Status a = ApprovalPending) (db_approvals db))))"

definition RunRepo_UpdateApproval :: "ApprovalRequest \<Rightarrow> 'a RunDb_scheme \<Rightarrow> (go_error + unit) \<times> 'a RunDb_scheme" where
  "RunRepo_UpdateApproval a = exec_stmt (\<lambda>_ db. (Inr (),
     db\<lparr>db_approvals := map (\<lambda>x. if ap_ID x = ap_ID a
       then x\<lparr>ap_Status := ap_Status a, ap_ResolvedAt := ap_ResolvedAt a, ap_ResolvedBy := ap_ResolvedBy a,
              ap_ResolveReason := ap_ResolveReason a\<rparr> else x) (db_approvals db)\<rparr>))"

definition ApprovalGrantRepo_Create :: "ApprovalGrant \<Rightarrow> 'a RunDb_scheme \<Rightarrow> (go_error + unit) \<times> 'a RunDb_scheme" where
  "ApprovalGrantRepo_Create g = exec_stmt (\<lambda>_ db.
     if list_ex (\<lambda>x. gr_ID x = gr_ID g) (db_grants db) then (Inl ErrIdempotencyConflict, db)
     else if gr_Scope g \<notin> {ApprovalScopeThread, ApprovalScopeWorkspace} \<or> \<not> ApprovalKindGrantable (gr_Kind g)
       then (Inl (ErrOther ''CHECK constraint failed''), db)
     else if \<not> list_ex (\<lambda>x. ag_ID x = gr_AgentProfileID g) (db_agents db) \<or>
             (gr_WorkItemID g \<noteq> '''' \<and> \<not> known_item db (gr_WorkItemID g)) then (Inl fkError, db)
     else (Inr (), db\<lparr>db_grants := db_grants db @ [g]\<rparr>))"

definition ApprovalGrantRepo_Matching ::
  "string \<Rightarrow> string \<Rightarrow> string \<Rightarrow> string \<Rightarrow> string \<Rightarrow> 'a RunDb_scheme \<Rightarrow> (go_error + ApprovalGrant option) \<times> 'a RunDb_scheme" where
  "ApprovalGrantRepo_Matching workspaceID agentProfileID workItemID kind summary = query_stmt (\<lambda>_ db.
     Inr (List.find (\<lambda>g. ApprovalGrant_Matches g kind summary)
       (rev (sort_key (\<lambda>g. timeParam (gr_CreatedAt g)) (rev (filter (\<lambda>g. gr_WorkspaceID g = workspaceID \<and>
          gr_AgentProfileID g = agentProfileID \<and> gr_Kind g = kind \<and>
          (gr_Scope g = ApprovalScopeWorkspace \<or>
           gr_Scope g = ApprovalScopeThread \<and> gr_WorkItemID g = workItemID \<and> workItemID \<noteq> '''')) (db_grants db)))))))"

definition RunRepo_CreateArtifact :: "Artifact \<Rightarrow> 'a RunDb_scheme \<Rightarrow> (go_error + unit) \<times> 'a RunDb_scheme" where
  "RunRepo_CreateArtifact art = exec_stmt (\<lambda>_ db.
     if list_ex (\<lambda>x. at_ID x = at_ID art) (db_artifacts db) then (Inl ErrIdempotencyConflict, db)
     else if \<not> known_run db (at_RunID art) then (Inl fkError, db)
     else (Inr (), db\<lparr>db_artifacts := db_artifacts db @ [art]\<rparr>))"

definition RunRepo_GetArtifact :: "string \<Rightarrow> 'a RunDb_scheme \<Rightarrow> (go_error + Artifact) \<times> 'a RunDb_scheme" where
  "RunRepo_GetArtifact i = query_stmt (\<lambda>_ db.
     case List.find (\<lambda>a. at_ID a = i) (db_artifacts db) of None \<Rightarrow> Inl ErrNotFound | Some a \<Rightarrow> Inr a)"

definition RunRepo_UpdateArtifactStatus ::
  "string \<Rightarrow> ArtifactStatus \<Rightarrow> 'a RunDb_scheme \<Rightarrow> (go_error + unit) \<times> 'a RunDb_scheme" where
  "RunRepo_UpdateArtifactStatus i status =
     (if status \<noteq> ArtifactDraft \<and> status \<noteq> ArtifactAccepted then failM (ErrValidation '''')
      else exec_stmt (\<lambda>_ db.
        (if list_ex (\<lambda>a. at_ID a = i) (db_artifacts db) then Inr () else Inl ErrNotFound,
         db\<lparr>db_artifacts := map (\<lambda>a. if at_ID a = i then a\<lparr>at_Status := status\<rparr> else a) (db_artifacts db)\<rparr>)))"

definition RunRepo_ListArtifacts :: "string \<Rightarrow> 'a RunDb_scheme \<Rightarrow> (go_error + Artifact list) \<times> 'a RunDb_scheme" where
  "RunRepo_ListArtifacts runID = query_stmt (\<lambda>_ db.
     Inr (sort_key (\<lambda>a. timeParam (at_CreatedAt a)) (filter (\<lambda>a. at_RunID a = runID) (db_artifacts db))))"

text \<open>\<^verbatim>\<open>IndexEntry\<close>, run inside the transaction of its callers: delete and insert.\<close>

definition SearchRepo_IndexEntry :: "SearchEntry \<Rightarrow> 'a RunDb_scheme \<Rightarrow> (go_error + unit) \<times> 'a RunDb_scheme" where
  "SearchRepo_IndexEntry e =
     bindM (exec_stmt (\<lambda>_ db. (Inr (), db\<lparr>db_search := filter (\<lambda>x. \<not> (se_Kind x = se_Kind e \<and> se_SourceID x = se_SourceID e)) (db_search db)\<rparr>)))
       (\<lambda>_. exec_stmt (\<lambda>_ db. (Inr (), db\<lparr>db_search := db_search db @ [e]\<rparr>)))"

definition AuditRepo_Append ::
  "string \<Rightarrow> gomap \<Rightarrow> string \<Rightarrow> string \<Rightarrow> gomap \<Rightarrow> 'a RunDb_scheme \<Rightarrow> (go_error + unit) \<times> 'a RunDb_scheme" where
  "AuditRepo_Append workspaceID actor action target detail = exec_stmt (\<lambda>t db. (Inr (),
     db\<lparr>db_audit := db_audit db @ [\<lparr>au_WorkspaceID = workspaceID, au_Actor = actor, au_Action = action,
       au_Target = target, au_Detail = detail, au_OccurredAt = t\<rparr>]\<rparr>))"

end
