(* ===== verification/Runs.thy ===== *)
theory Runs
  imports RunStore
begin

text \<open>
  The run service (\<^verbatim>\<open>internal/application\<close>): the execution lock of a task (\<^verbatim>\<open>tasklock.go\<close>),
  the transition of a run with everything it drags along, progress and run events, artifacts,
  questions and approvals (\<^verbatim>\<open>runs.go\<close>). Every operation is the body of its transaction. The
  renewal of a delegated coordinator's claim and the checks of a goal belong to the governance
  services and are parameters; so are random ids, as readings of the state. Notifications and
  forwarding to the runtime, which follow the commit, are not modelled.
\<close>

section \<open>The service\<close>

record 'db RunService =
  rs_Codec :: Codec
  rs_NewID :: "'db \<Rightarrow> string"
  rs_RenewDelegated :: "ExecutionRun \<Rightarrow> 'db \<Rightarrow> (go_error + unit) \<times> 'db"

definition checkM :: "go_error option \<Rightarrow> 'db \<Rightarrow> (go_error + unit) \<times> 'db" where
  "checkM c db = (case c of None \<Rightarrow> (Inr (), db) | Some e \<Rightarrow> (Inl e, db))"

text \<open>Reading the clock, or another part of the state, on the way.\<close>

definition readM :: "('db \<Rightarrow> 'a) \<Rightarrow> ('a \<Rightarrow> 'db \<Rightarrow> 'r \<times> 'db) \<Rightarrow> 'db \<Rightarrow> 'r \<times> 'db" where
  "readM f g db = g (f db) db"

text \<open>An error that is logged and otherwise ignored.\<close>

definition tryM :: "('db \<Rightarrow> (go_error + 'a) \<times> 'db) \<Rightarrow> 'db \<Rightarrow> (go_error + 'a option) \<times> 'db" where
  "tryM f db = (case f db of (Inl e, db1) \<Rightarrow> (Inr None, db1) | (Inr x, db1) \<Rightarrow> (Inr (Some x), db1))"

type_synonym 'a RunS = "'a RunDb_scheme RunService"

definition emit ::
  "'a RunS \<Rightarrow> string \<Rightarrow> string \<Rightarrow> string \<Rightarrow> string \<Rightarrow> int \<Rightarrow> RunEventRecord option \<Rightarrow> gomap \<Rightarrow>
   'a RunDb_scheme \<Rightarrow> (go_error + unit) \<times> 'a RunDb_scheme" where
  "emit S ws evType aggType aggID v runEvent data db =
     Service_emit (rs_Codec S) (rs_NewID S db) ws evType aggType aggID v runEvent data db"

section \<open>Record kinds\<close>

fun RecordKind_text :: "WorkItemRecordKind \<Rightarrow> string" where
  "RecordKind_text RecordKindUnset = ''''"
| "RecordKind_text RecordKindChat = ''chat''"
| "RecordKind_text RecordKindTask = ''task''"
| "RecordKind_text (RecordKindOther s) = s"

definition workItemRecordKind :: "WorkItem \<Rightarrow> WorkItemRecordKind" where
  "workItemRecordKind w = (if wi_RecordKind w = RecordKindUnset then RecordKindTask else wi_RecordKind w)"

definition requireValidWorkItemRecordKind :: "WorkItem \<Rightarrow> go_error option" where
  "requireValidWorkItemRecordKind w = require (RecordKind_Valid (workItemRecordKind w)) (ErrValidation '''')"

definition isTaskWorkItem :: "WorkItem \<Rightarrow> bool" where
  "isTaskWorkItem w \<longleftrightarrow> workItemRecordKind w = RecordKindTask"

definition requireTaskWorkItem :: "WorkItem \<Rightarrow> go_error option" where
  "requireTaskWorkItem w =
     first_error [requireValidWorkItemRecordKind w, require (isTaskWorkItem w) (ErrValidation '''')]"

definition defaultWorkItemRecordKind :: "WorkItemRecordKind \<Rightarrow> go_error + WorkItemRecordKind" where
  "defaultWorkItemRecordKind k =
     (if k = RecordKindUnset then Inr RecordKindTask
      else if \<not> RecordKind_Valid k then Inl (ErrValidation '''') else Inr k)"

definition kind_value :: "WorkItem \<Rightarrow> goval" where
  "kind_value w = VStr (RecordKind_text (workItemRecordKind w))"

definition withWorkItemRecordKind :: "gomap \<Rightarrow> WorkItem \<Rightarrow> gomap" where
  "withWorkItemRecordKind data w = AList.update ''record_kind'' (kind_value w) data"

section \<open>Coordinator runs\<close>

definition coordinatorContextOf :: "ExecutionRun \<Rightarrow> gomap" where
  "coordinatorContextOf r = (case map_of (rn_Input r) ''task_coordinator'' of Some (VMap m) \<Rightarrow> m | _ \<Rightarrow> [])"

definition isSystemCoordinatorRun :: "ExecutionRun \<Rightarrow> bool" where
  "isSystemCoordinatorRun r \<longleftrightarrow>
     string_or_empty (coordinatorContextOf r) ''role'' = ''coordinator'' \<and>
     get_bool (coordinatorContextOf r) ''delegated'' \<noteq> Some True \<and> rn_AgentProfileID r \<noteq> ''''"

definition isDelegatedCoordinatorRun :: "ExecutionRun \<Rightarrow> bool" where
  "isDelegatedCoordinatorRun r \<longleftrightarrow>
     string_or_empty (coordinatorContextOf r) ''role'' = ''coordinator'' \<and>
     get_bool (coordinatorContextOf r) ''delegated'' = Some True \<and>
     TrimSpace (string_or_empty (coordinatorContextOf r) ''handoff_id'') \<noteq> '''' \<and>
     rn_AgentProfileID r \<noteq> '''' \<and>
     string_or_empty (coordinatorContextOf r) ''handoff_target_agent_id'' = rn_AgentProfileID r"

definition isGovernedCoordinatorRun :: "ExecutionRun \<Rightarrow> bool" where
  "isGovernedCoordinatorRun r \<longleftrightarrow> isSystemCoordinatorRun r \<or> isDelegatedCoordinatorRun r"

definition delegatedCoordinatorContext :: "gomap \<Rightarrow> bool" where
  "delegatedCoordinatorContext c \<longleftrightarrow>
     get_bool c ''delegated'' = Some True \<and> TrimSpace (string_or_empty c ''handoff_id'') \<noteq> '''' \<and>
     TrimSpace (string_or_empty c ''handoff_target_agent_id'') \<noteq> ''''"

definition coordinatorRunDefersReview :: "ExecutionRun \<Rightarrow> bool" where
  "coordinatorRunDefersReview r \<longleftrightarrow>
     isGovernedCoordinatorRun r \<and> string_or_empty (coordinatorContextOf r) ''action'' \<noteq> ''evaluation''"

definition pendingSelfHealSourceID :: "ExecutionRun \<Rightarrow> string option" where
  "pendingSelfHealSourceID r =
     (if rn_Status r \<noteq> RunQueued \<and> rn_Status r \<noteq> RunStarting then None
      else let sourceID = string_or_empty (rn_Input r) ''auto_heal_of''
           in if sourceID = '''' \<or> rn_ClientKey r \<noteq> ''session-heal:'' @ sourceID \<or> rn_RetryOf r \<noteq> sourceID
              then None else Some sourceID)"

section \<open>The execution lock of a task\<close>

definition activityFor ::
  "'a RunS \<Rightarrow> string \<Rightarrow> string \<Rightarrow> string \<Rightarrow> string \<Rightarrow> 'a RunDb_scheme \<Rightarrow> (go_error + unit) \<times> 'a RunDb_scheme" where
  "activityFor S ws workItemID kind message =
     bindM (EventRepo_AppendActivityFor ws workItemID kind message) (\<lambda>_.
     (let data = [(''kind'', VStr kind), (''message'', VStr message)]
      in bindM (if workItemID = '''' then returnM data
                else bindM (tryM (WorkItemRepo_Get workItemID)) (\<lambda>wi.
                  returnM (case wi of None \<Rightarrow> data @ [(''work_item_id'', VStr workItemID)]
                           | Some w \<Rightarrow> data @ [(''work_item_id'', VStr workItemID), (''record_kind'', kind_value w)])))
           (\<lambda>data. emit S ws ''activity.appended'' ''workspace'' ws 0 None data)))"

definition is_locked :: "go_error \<Rightarrow> bool" where
  "is_locked e = (case e of ErrWorkItemLocked _ \<Rightarrow> True | _ \<Rightarrow> False)"

text \<open>The run that the lock is taken from (empty when it was free), or the refusal.\<close>

definition lock_owner :: "WorkItem \<Rightarrow> 'a RunDb_scheme \<Rightarrow> (go_error + string) \<times> 'a RunDb_scheme" where
  "lock_owner w db =
     (if wi_LockedByRunID w = '''' then (Inr '''', db)
      else case RunRepo_Get (wi_LockedByRunID w) db of
        (Inl e, db1) \<Rightarrow> (if e \<noteq> ErrNotFound then Inl e else Inr (wi_LockedByRunID w), db1)
      | (Inr owner, db1) \<Rightarrow>
          (if \<not> RunStatus_IsTerminal (rn_Status owner) then Inl (ErrWorkItemLocked (wi_LockedByRunID w))
           else Inr (wi_LockedByRunID w), db1))"

definition preempt_message :: "string \<Rightarrow> string \<Rightarrow> string \<Rightarrow> string" where
  "preempt_message title runID preemptFrom =
     [CHR 0xE4, CHR 0xBB, CHR 0xBB, CHR 0xE5, CHR 0x8A, CHR 0xA1, CHR 0xE3, CHR 0x80, CHR 0x8C] @ title @ [CHR 0xE3, CHR 0x80, CHR 0x8D, CHR 0xE6, CHR 0x89, CHR 0xA7, CHR 0xE8, CHR 0xA1, CHR 0x8C, CHR 0xE9, CHR 0x94, CHR 0x81, CHR 0xE5, CHR 0xB7, CHR 0xB2, CHR 0xE8, CHR 0xA2, CHR 0xAB] @ '' run '' @ runID @
     '' '' @ [CHR 0xE6, CHR 0x8A, CHR 0xA2, CHR 0xE5, CHR 0x8D, CHR 0xA0, CHR 0xEF, CHR 0xBC, CHR 0x88, CHR 0xE5, CHR 0x8E, CHR 0x9F] @ '' run '' @ preemptFrom @ '' '' @ [CHR 0xE5, CHR 0xB7, CHR 0xB2, CHR 0xE7, CHR 0xBB, CHR 0x88, CHR 0xE6, CHR 0x80, CHR 0x81, CHR 0xEF, CHR 0xBC, CHR 0x89]"

definition lock_event :: "'a RunS \<Rightarrow> ExecutionRun \<Rightarrow> WorkItem \<Rightarrow> string \<Rightarrow> 'a RunDb_scheme \<Rightarrow> (go_error + unit) \<times> 'a RunDb_scheme"
where
  "lock_event S r w preemptFrom =
     (if preemptFrom \<noteq> '''' then
        bindM (emit S (wi_WorkspaceID w) ''work_item.lock_preempted'' ''work_item'' (wi_ID w) (wi_Version w) None
            [(''run_id'', VStr (rn_ID r)), (''preempted_from'', VStr preemptFrom), (''record_kind'', kind_value w)])
          (\<lambda>_. activityFor S (wi_WorkspaceID w) (wi_ID w) ''work_item.lock_preempted''
            (preempt_message (wi_Title w) (rn_ID r) preemptFrom))
      else emit S (wi_WorkspaceID w) ''work_item.locked'' ''work_item'' (wi_ID w) (wi_Version w) None
            [(''run_id'', VStr (rn_ID r)), (''record_kind'', kind_value w)])"

definition take_lock :: "'a RunS \<Rightarrow> ExecutionRun \<Rightarrow> WorkItem \<Rightarrow> string \<Rightarrow> 'a RunDb_scheme \<Rightarrow> (go_error + unit) \<times> 'a RunDb_scheme"
where
  "take_lock S r w preemptFrom = readM nowM (\<lambda>now.
     let w' = w\<lparr>wi_LockedByRunID := rn_ID r, wi_LockedAt := Some now, wi_Version := inc64 (wi_Version w), wi_UpdatedAt := now\<rparr>
     in bindM (WorkItemRepo_Update w' (wi_Version w)) (\<lambda>_. lock_event S r w' preemptFrom))"

definition acquireTaskLock :: "'a RunS \<Rightarrow> ExecutionRun \<Rightarrow> 'a RunDb_scheme \<Rightarrow> (go_error + unit) \<times> 'a RunDb_scheme" where
  "acquireTaskLock S r =
     bindM (WorkItemRepo_Get (rn_WorkItemID r)) (\<lambda>w.
     bindM (checkM (requireValidWorkItemRecordKind w)) (\<lambda>_.
     if \<not> isTaskWorkItem w then returnM ()
     else if WorkItem_HoldsLock w (rn_ID r) then returnM ()
     else bindM (lock_owner w) (take_lock S r w)))"

definition releaseTaskLock :: "ExecutionRun \<Rightarrow> 'a RunDb_scheme \<Rightarrow> (go_error + unit) \<times> 'a RunDb_scheme" where
  "releaseTaskLock r =
     bindM (WorkItemRepo_Get (rn_WorkItemID r)) (\<lambda>w.
     bindM (checkM (requireValidWorkItemRecordKind w)) (\<lambda>_.
     if \<not> isTaskWorkItem w then returnM ()
     else if \<not> WorkItem_HoldsLock w (rn_ID r) then returnM ()
     else readM nowM (\<lambda>now. WorkItemRepo_Update
       (w\<lparr>wi_LockedByRunID := '''', wi_LockedAt := None, wi_Version := inc64 (wi_Version w), wi_UpdatedAt := now\<rparr>)
       (wi_Version w))))"

section \<open>The transition of a run\<close>

text \<open>The failure of a run is read from the event data.\<close>

definition with_failure :: "gomap \<Rightarrow> ExecutionRun \<Rightarrow> ExecutionRun" where
  "with_failure data r =
     (let f = \<lparr>rf_Code = string_or_empty data ''code'', rf_Message = string_or_empty data ''message'',
               rf_Retryable = (get_bool data ''retryable'' = Some True)\<rparr>;
          r1 = (case get_string data ''family'' of None \<Rightarrow> r | Some fam \<Rightarrow> r\<lparr>rn_ErrorFamily := fam\<rparr>)
      in if rf_Code f \<noteq> '''' \<or> rf_Message f \<noteq> '''' then r1\<lparr>rn_Failure := Some f\<rparr> else r1)"

fun status_event :: "RunStatus \<Rightarrow> string" where
  "status_event RunSucceeded = ''run.completed''"
| "status_event RunFailed = ''run.failed''"
| "status_event RunCancelled = ''run.cancelled''"
| "status_event RunLost = ''run.lost''"
| "status_event _ = ''run.status_changed''"

fun emit_expired :: "'a RunS \<Rightarrow> ExecutionRun \<Rightarrow> WorkItem \<Rightarrow> QuestionRequest list \<Rightarrow> 'a RunDb_scheme \<Rightarrow> (go_error + unit) \<times> 'a RunDb_scheme"
where
  "emit_expired S r w [] = returnM ()"
| "emit_expired S r w (q # qs) =
     (let data = [(''run_id'', VStr (rn_ID r)), (''work_item_id'', VStr (rn_WorkItemID r)), (''question_id'', VStr (qn_ID q)),
          (''provider_question_id'', VStr (qn_ProviderID q)), (''session_ref'', VStr (qn_SessionRef q)),
          (''agent_id'', VStr (qn_AgentID q)), (''status'', VStr ''expired''), (''reason'', VStr ''run_terminal''),
          (''record_kind'', kind_value w)]
      in bindM (emit S (rn_WorkspaceID r) ''question.expired'' ''execution_run'' (rn_ID r) (rn_Version r)
            (Some \<lparr>er_RunID = rn_ID r, er_AgentID = '''', er_EventType = ''question.expired'', er_Payload = data\<rparr>) data)
          (\<lambda>_. emit_expired S r w qs))"

definition expireRunPendingQuestions ::
  "'a RunS \<Rightarrow> ExecutionRun \<Rightarrow> WorkItem \<Rightarrow> 'a RunDb_scheme \<Rightarrow> (go_error + nat) \<times> 'a RunDb_scheme" where
  "expireRunPendingQuestions S r w =
     bindM (QuestionRepo_ListPendingByRun (rn_ID r)) (\<lambda>pending.
     if pending = [] then returnM 0
     else readM nowM (\<lambda>now.
       bindM (QuestionRepo_ExpirePendingByRun (rn_ID r) now) (\<lambda>_.
       bindM (emit_expired S r w pending) (\<lambda>_. returnM (length pending)))))"

definition projectAgentPresence ::
  "'a RunS \<Rightarrow> ExecutionRun \<Rightarrow> AgentPresence \<Rightarrow> 'a RunDb_scheme \<Rightarrow> (go_error + unit) \<times> 'a RunDb_scheme" where
  "projectAgentPresence S r presence =
     bindM (tryM (WakeupRepo_GetAgentProfile (rn_AgentProfileID r))) (\<lambda>agent.
     (case agent of
        None \<Rightarrow> returnM ()
      | Some a \<Rightarrow>
          if ag_Presence a = presence then returnM ()
          else bindM (tryM (AgentRepo_SetPresence (rn_AgentProfileID r) presence)) (\<lambda>set.
            if set = None then returnM ()
            else emit S (rn_WorkspaceID r) ''agent_presence.updated'' ''agent_profile'' (rn_AgentProfileID r) (ag_Version a) None
              [(''agent_id'', VStr (rn_AgentProfileID r)), (''presence'', VStr (AgentPresence_text presence)),
               (''run_id'', VStr (rn_ID r))])))"

text \<open>A run that succeeds moves its item into review (an item that cannot is left alone).\<close>

definition project_review :: "'a RunS \<Rightarrow> ExecutionRun \<Rightarrow> 'a RunDb_scheme \<Rightarrow> (go_error + unit) \<times> 'a RunDb_scheme" where
  "project_review S r =
     bindM (WorkItemRepo_Get (rn_WorkItemID r)) (\<lambda>w.
     if wi_Status w = WorkItemInProgress \<and> wi_Phase w \<noteq> PhaseReview then
       readM nowM (\<lambda>now. case WorkItem_EnterReview w now of
           Inl e \<Rightarrow> returnM ()
         | Inr w' \<Rightarrow> bindM (WorkItemRepo_Update w' (wrap64 (wi_Version w' - 1))) (\<lambda>_.
             emit S (wi_WorkspaceID w') ''work_item.updated'' ''work_item'' (wi_ID w') (wi_Version w') None
               [(''phase'', VStr ''review''), (''record_kind'', kind_value w')]))
     else returnM ())"

definition renews_delegated :: "RunStatus \<Rightarrow> bool" where
  "renews_delegated to \<longleftrightarrow>
     to \<in> {RunStarting, RunRunning, RunWaitingApproval, RunReconnecting, RunSucceeding, RunSucceeded} \<or> RunStatus_IsTerminal to"

definition run_started :: "RunStatus \<Rightarrow> RunStatus \<Rightarrow> bool" where
  "run_started from to \<longleftrightarrow> to = RunRunning \<and> (from = RunQueued \<or> from = RunStarting)"

text \<open>
  After the checks: the new status is written and published, the lock of a terminal run is
  released, its questions expire, and presence and review follow.
\<close>

definition after_update ::
  "'a RunS \<Rightarrow> WorkItem \<Rightarrow> RunStatus \<Rightarrow> ExecutionRun \<Rightarrow> RunStatus \<Rightarrow> gomap \<Rightarrow> 'a RunDb_scheme \<Rightarrow> (go_error + unit) \<times> 'a RunDb_scheme" where
  "after_update S w from r to data =
     bindM (emit S (rn_WorkspaceID r) (status_event to) ''execution_run'' (rn_ID r) (rn_Version r)
         (Some \<lparr>er_RunID = rn_ID r, er_AgentID = '''', er_EventType = status_event to, er_Payload = withWorkItemRecordKind data w\<rparr>)
         [(''from'', VStr (RunStatus_text from)), (''status'', VStr (RunStatus_text to)), (''record_kind'', kind_value w)]) (\<lambda>_.
     bindM (if isTaskWorkItem w \<and> RunStatus_IsTerminal to then releaseTaskLock r else returnM ()) (\<lambda>_.
     bindM (if RunStatus_IsTerminal to then expireRunPendingQuestions S r w else returnM 0) (\<lambda>_.
     bindM (if run_started from to then
         emit S (rn_WorkspaceID r) ''run.started'' ''execution_run'' (rn_ID r) (rn_Version r)
           (Some \<lparr>er_RunID = rn_ID r, er_AgentID = '''', er_EventType = ''run.started'', er_Payload = [(''record_kind'', kind_value w)]\<rparr>)
           [(''record_kind'', kind_value w)]
       else returnM ()) (\<lambda>_.
     bindM (if rn_AgentProfileID r = '''' then returnM ()
            else if to = RunRunning then projectAgentPresence S r PresenceBusy
            else if RunStatus_IsTerminal to then projectAgentPresence S r PresenceIdle
            else returnM ()) (\<lambda>_.
     if isTaskWorkItem w \<and> to = RunSucceeded \<and> \<not> coordinatorRunDefersReview r then project_review S r else returnM ())))))"

definition move_run ::
  "'a RunS \<Rightarrow> WorkItem \<Rightarrow> ExecutionRun \<Rightarrow> RunStatus \<Rightarrow> gomap \<Rightarrow> 'a RunDb_scheme \<Rightarrow> (go_error + unit) \<times> 'a RunDb_scheme" where
  "move_run S w r to data =
     bindM (if isDelegatedCoordinatorRun r \<and> isTaskWorkItem w \<and> renews_delegated to
            then rs_RenewDelegated S r else returnM ()) (\<lambda>_.
     readM nowM (\<lambda>now. case ExecutionRun_Transition r to now of
         Inl e \<Rightarrow> failM e
       | Inr r1 \<Rightarrow>
           (let r2 = (if to = RunFailed then with_failure data r1 else r1)
            in bindM (RunRepo_Update r2 (rn_Version r)) (\<lambda>_. after_update S w (rn_Status r) r2 to data))))"

text \<open>
  \<open>refuse\<close> is what happens when the lock is held: \<^verbatim>\<open>transitionRunLocked\<close> fails the run, by a
  call of itself that does not ask for the lock again.
\<close>

definition transition_step ::
  "'a RunS \<Rightarrow> (go_error \<Rightarrow> 'a RunDb_scheme \<Rightarrow> (go_error + unit) \<times> 'a RunDb_scheme) \<Rightarrow> ExecutionRun \<Rightarrow> RunStatus \<Rightarrow> gomap \<Rightarrow>
   'a RunDb_scheme \<Rightarrow> (go_error + unit) \<times> 'a RunDb_scheme" where
  "transition_step S refuse r to data =
     bindM (WorkItemRepo_Get (rn_WorkItemID r)) (\<lambda>w.
     bindM (checkM (requireValidWorkItemRecordKind w)) (\<lambda>_.
     if rn_Status r = RunStarting \<and> to = RunStarting \<and> pendingSelfHealSourceID r \<noteq> None then returnM ()
     else if isTaskWorkItem w \<and> run_started (rn_Status r) to then
       (\<lambda>db. case acquireTaskLock S r db of
          (Inl e, db1) \<Rightarrow> if is_locked e then refuse e db1 else (Inl e, db1)
        | (Inr _, db1) \<Rightarrow> move_run S w r to data db1)
     else move_run S w r to data))"

definition lock_message :: "go_error \<Rightarrow> string" where
  "lock_message e = (case e of ErrWorkItemLocked i \<Rightarrow> ''work item locked by active run: '' @ i | _ \<Rightarrow> '''')"

definition transitionRunLocked ::
  "'a RunS \<Rightarrow> ExecutionRun \<Rightarrow> RunStatus \<Rightarrow> gomap \<Rightarrow> 'a RunDb_scheme \<Rightarrow> (go_error + unit) \<times> 'a RunDb_scheme" where
  "transitionRunLocked S r to data =
     transition_step S (\<lambda>e. transition_step S failM r RunFailed
       [(''code'', VStr ''work_item_locked''), (''message'', VStr (lock_message e)), (''retryable'', VBool True)]) r to data"

definition RecordRunStatus ::
  "'a RunS \<Rightarrow> string \<Rightarrow> RunStatus \<Rightarrow> gomap \<Rightarrow> 'a RunDb_scheme \<Rightarrow> (go_error + unit) \<times> 'a RunDb_scheme" where
  "RecordRunStatus S runID to data = InTx (bindM (RunRepo_Get runID) (\<lambda>r. transitionRunLocked S r to data))"

datatype control = Interrupt | Cancel

definition control_target :: "control \<Rightarrow> RunStatus \<Rightarrow> RunStatus" where
  "control_target action status =
     (if status \<in> {RunQueued, RunStarting, RunReconnecting, RunSucceeding}
      then (if action = Cancel then RunCancelled else RunInterrupted)
      else (if action = Cancel then RunCancelling else RunInterrupting))"

definition ControlRun ::
  "'a RunS \<Rightarrow> string \<Rightarrow> string \<Rightarrow> 'a RunDb_scheme \<Rightarrow> (go_error + unit) \<times> 'a RunDb_scheme" where
  "ControlRun S runID action =
     (if action \<noteq> ''interrupt'' \<and> action \<noteq> ''cancel'' then failM (ErrValidation ''unknown action'')
      else InTx (bindM (RunRepo_Get runID) (\<lambda>r.
        transitionRunLocked S r (control_target (if action = ''cancel'' then Cancel else Interrupt) (rn_Status r)) [])))"

definition claimSelfHealDispatchLocked ::
  "'a RunS \<Rightarrow> ExecutionRun \<Rightarrow> 'a RunDb_scheme \<Rightarrow> (go_error + unit) \<times> 'a RunDb_scheme" where
  "claimSelfHealDispatchLocked S r =
     (if pendingSelfHealSourceID r = None then failM (ErrStateConflict ''invalid pending session-heal Run'')
      else if rn_Status r = RunStarting then returnM ()
      else transitionRunLocked S r RunStarting [(''recovery'', VStr ''session_heal_dispatch_claimed'')])"

section \<open>Progress, events, artifacts\<close>

definition with_run ::
  "string \<Rightarrow> (ExecutionRun \<Rightarrow> WorkItem \<Rightarrow> 'a RunDb_scheme \<Rightarrow> (go_error + 'r) \<times> 'a RunDb_scheme) \<Rightarrow>
   'a RunDb_scheme \<Rightarrow> (go_error + 'r) \<times> 'a RunDb_scheme" where
  "with_run runID f =
     bindM (RunRepo_Get runID) (\<lambda>r. bindM (WorkItemRepo_Get (rn_WorkItemID r)) (\<lambda>w.
     bindM (checkM (requireValidWorkItemRecordKind w)) (\<lambda>_. f r w)))"

definition renew_delegated :: "'a RunS \<Rightarrow> ExecutionRun \<Rightarrow> 'a RunDb_scheme \<Rightarrow> (go_error + unit) \<times> 'a RunDb_scheme" where
  "renew_delegated S r = (if isDelegatedCoordinatorRun r then rs_RenewDelegated S r else returnM ())"

definition emit_run ::
  "'a RunS \<Rightarrow> ExecutionRun \<Rightarrow> string \<Rightarrow> int \<Rightarrow> gomap \<Rightarrow> 'a RunDb_scheme \<Rightarrow> (go_error + unit) \<times> 'a RunDb_scheme" where
  "emit_run S r evType v data =
     emit S (rn_WorkspaceID r) evType ''execution_run'' (rn_ID r) v
       (Some \<lparr>er_RunID = rn_ID r, er_AgentID = '''', er_EventType = evType, er_Payload = data\<rparr>) data"

definition recordRunProgressTx ::
  "'a RunS \<Rightarrow> string \<Rightarrow> goval \<Rightarrow> 'a RunDb_scheme \<Rightarrow> (go_error + string) \<times> 'a RunDb_scheme" where
  "recordRunProgressTx S runID progress =
     with_run runID (\<lambda>r w.
       if RunStatus_IsTerminal (rn_Status r) then returnM (rn_WorkspaceID r)
       else bindM (renew_delegated S r) (\<lambda>_. readM nowM (\<lambda>now.
         let r' = ExecutionRun_SetProgress r progress now
         in bindM (RunRepo_Update r' (rn_Version r')) (\<lambda>_.
            bindM (emit_run S r' ''run.progress_updated'' (wrap64 (rn_Version r' + 1))
              [(''progress'', progress), (''record_kind'', kind_value w)]) (\<lambda>_. returnM (rn_WorkspaceID r))))))"

text \<open>
  The native answer of a provider settles its question; an event without the keys of a question,
  or of an unknown one, is only recorded.
\<close>

definition reconcileQuestionProviderEvent ::
  "ExecutionRun \<Rightarrow> string \<Rightarrow> gomap \<Rightarrow> 'a RunDb_scheme \<Rightarrow> (go_error + unit) \<times> 'a RunDb_scheme" where
  "reconcileQuestionProviderEvent r evType data =
     (if evType \<noteq> ''question.answered'' \<and> evType \<noteq> ''question.dismissed'' then returnM ()
      else let providerID = string_or_empty data ''provider_question_id''; sessionRef = string_or_empty data ''session_ref''
      in if providerID = '''' \<or> sessionRef = '''' then returnM ()
         else (\<lambda>db. case QuestionRepo_GetByProviderKey (rn_ID r) sessionRef providerID db of
             (Inl e, db1) \<Rightarrow> (if e = ErrNotFound then Inr () else Inl e, db1)
           | (Inr q, db1) \<Rightarrow>
               (case (if evType = ''question.answered''
                      then QuestionRequest_MarkProviderAnswered q (nowM db1)
                             (case map_of data ''answers'' of Some (VMap m) \<Rightarrow> Some m | _ \<Rightarrow> None)
                      else QuestionRequest_Dismiss q (nowM db1)) of
                  Inl e \<Rightarrow> (Inl e, db1)
                | Inr q' \<Rightarrow> QuestionRepo_Update q' db1)))"

text \<open>
  \<^verbatim>\<open>int64(v)\<close> of a float truncates; outside of the range the value is the one amd64 gives.
\<close>

definition float_int64 :: "int \<Rightarrow> int \<Rightarrow> int" where
  "float_int64 m e =
     (let v = (if 0 \<le> e then m * 2 ^ nat e else sgn m * (\<bar>m\<bar> div 2 ^ nat (- e)))
      in if in64 v then v else - 9223372036854775808)"

fun size_value :: "goval option \<Rightarrow> int" where
  "size_value (Some (VFloat m e)) = float_int64 m e"
| "size_value (Some VFloatNonFinite) = - 9223372036854775808"
| "size_value (Some (VInt64 i)) = i"
| "size_value (Some (VInt i)) = i"
| "size_value _ = 0"

definition indexArtifact :: "ExecutionRun \<Rightarrow> Artifact \<Rightarrow> 'a RunDb_scheme \<Rightarrow> (go_error + unit) \<times> 'a RunDb_scheme" where
  "indexArtifact r art =
     bindM (tryM (WorkItemRepo_Get (rn_WorkItemID r))) (\<lambda>wi.
     (case wi of
        None \<Rightarrow> returnM ()
      | Some w \<Rightarrow>
          if \<not> isTaskWorkItem w then returnM ()
          else bindM (tryM (SearchRepo_IndexEntry \<lparr>se_WorkItemID = rn_WorkItemID r, se_Kind = ''artifact'',
                 se_SourceID = at_ID art, se_Title = at_LogicalPath art, se_Body = ''''\<rparr>)) (\<lambda>_. returnM ())))"

definition projectArtifactEvent ::
  "'a RunS \<Rightarrow> ExecutionRun \<Rightarrow> gomap \<Rightarrow> 'a RunDb_scheme \<Rightarrow> (go_error + unit) \<times> 'a RunDb_scheme" where
  "projectArtifactEvent S r data =
     (let path = string_or_empty data ''logical_path''; sha = string_or_empty data ''sha256''
      in if TrimSpace path = '''' \<or> TrimSpace sha = '''' then returnM ()
         else readM (\<lambda>db. (rs_NewID S db, nowM db)) (\<lambda>(i, now).
           let art = \<lparr>at_ID = i, at_RunID = rn_ID r, at_LogicalPath = path, at_Mime = string_or_empty data ''mime'',
                 at_Size = size_value (map_of data ''size''), at_Sha256 = sha, at_Classification = '''',
                 at_Status = ArtifactDraft, at_StorageRef = '''', at_CreatedAt = now\<rparr>
           in bindM (tryM (RunRepo_CreateArtifact art)) (\<lambda>c. if c = None then returnM () else indexArtifact r art)))"

definition recordRunEventTx ::
  "'a RunS \<Rightarrow> string \<Rightarrow> string \<Rightarrow> gomap \<Rightarrow> 'a RunDb_scheme \<Rightarrow> (go_error + string) \<times> 'a RunDb_scheme" where
  "recordRunEventTx S runID evType data =
     with_run runID (\<lambda>r w.
       bindM (renew_delegated S r) (\<lambda>_.
       let eventData = withWorkItemRecordKind data w
       in bindM (reconcileQuestionProviderEvent r evType eventData) (\<lambda>_.
          bindM (if evType = ''artifact.created'' then projectArtifactEvent S r eventData else returnM ()) (\<lambda>_.
          bindM (emit_run S r evType (rn_Version r) eventData) (\<lambda>_.
          bindM (if evType = ''message.delta'' \<and> map_of eventData ''role'' = Some (VStr ''user'') \<and> \<not> isTaskWorkItem w
                 then readM nowM (\<lambda>now. WorkItemRepo_TouchUpdatedAt (wi_ID w) now) else returnM ()) (\<lambda>_.
          returnM (rn_WorkspaceID r)))))))"

definition recordArtifactTx ::
  "'a RunS \<Rightarrow> string \<Rightarrow> Artifact \<Rightarrow> 'a RunDb_scheme \<Rightarrow> (go_error + string) \<times> 'a RunDb_scheme" where
  "recordArtifactTx S runID art =
     with_run runID (\<lambda>r w. readM (\<lambda>db. (rs_NewID S db, nowM db)) (\<lambda>(i, now).
       let art = art\<lparr>at_ID := i, at_RunID := rn_ID r, at_Status := ArtifactDraft, at_CreatedAt := now\<rparr>;
           data = withWorkItemRecordKind [(''logical_path'', VStr (at_LogicalPath art)), (''size'', VInt64 (at_Size art))] w
       in bindM (RunRepo_CreateArtifact art) (\<lambda>_.
          bindM (indexArtifact r art) (\<lambda>_.
          bindM (emit S (rn_WorkspaceID r) ''artifact.created'' ''artifact'' (at_ID art) 1
             (Some \<lparr>er_RunID = rn_ID r, er_AgentID = '''', er_EventType = ''artifact.created'', er_Payload = data\<rparr>) data)
            (\<lambda>_. returnM (rn_WorkspaceID r))))))"

definition RecordRunProgress :: "'a RunS \<Rightarrow> string \<Rightarrow> goval \<Rightarrow> 'a RunDb_scheme \<Rightarrow> (go_error + string) \<times> 'a RunDb_scheme" where
  "RecordRunProgress S runID progress = InTx (recordRunProgressTx S runID progress)"

definition RecordRunEvent :: "'a RunS \<Rightarrow> string \<Rightarrow> string \<Rightarrow> gomap \<Rightarrow> 'a RunDb_scheme \<Rightarrow> (go_error + string) \<times> 'a RunDb_scheme" where
  "RecordRunEvent S runID evType data = InTx (recordRunEventTx S runID evType data)"

definition RecordArtifact :: "'a RunS \<Rightarrow> string \<Rightarrow> Artifact \<Rightarrow> 'a RunDb_scheme \<Rightarrow> (go_error + string) \<times> 'a RunDb_scheme" where
  "RecordArtifact S runID art =
     (if at_Sha256 art = '''' \<or> at_LogicalPath art = '''' then failM (ErrValidation '''')
      else InTx (recordArtifactTx S runID art))"

section \<open>Questions\<close>

text \<open>The JSON forms of questions and responses in event payloads.\<close>

definition omitted :: "string \<Rightarrow> string \<Rightarrow> gomap" where
  "omitted k v = (if v = '''' then [] else [(k, VStr v)])"

definition option_value :: "QuestionOption \<Rightarrow> goval" where
  "option_value x = VMap ([(''id'', VStr (qo_ID x)), (''label'', VStr (qo_Label x))] @ omitted ''description'' (qo_Description x))"

definition item_value :: "QuestionItem \<Rightarrow> goval" where
  "item_value i = VMap ([(''id'', VStr (qi_ID i)), (''question'', VStr (qi_Question i))] @ omitted ''header'' (qi_Header i) @
     omitted ''body'' (qi_Body i) @ [(''options'', VList (map option_value (qi_Options i)))] @
     (if qi_MultiSelect i then [(''multi_select'', VBool True)] else []) @
     (if qi_AllowOther i then [(''allow_other'', VBool True)] else []) @
     omitted ''other_label'' (qi_OtherLabel i) @ omitted ''other_description'' (qi_OtherDescription i))"

definition answer_value :: "QuestionAnswer \<Rightarrow> goval" where
  "answer_value a = VMap ([(''kind'', VStr (qa_Kind a))] @ omitted ''option_id'' (qa_OptionID a) @
     (if option_ids a = [] then [] else [(''option_ids'', VList (map VStr (option_ids a)))]) @
     omitted ''text'' (qa_Text a) @ omitted ''other_text'' (qa_OtherText a))"

definition response_value :: "QuestionResponse \<Rightarrow> goval" where
  "response_value r = VMap ([(''answers'', VMap (map (\<lambda>(i, a). (i, answer_value a)) (qs_Answers r)))] @
     omitted ''method'' (qs_Method r) @ omitted ''note'' (qs_Note r))"

text \<open>A replay of the provider's request finds the question that is there.\<close>

definition RequestQuestion ::
  "'a RunS \<Rightarrow> string \<Rightarrow> QuestionRequest \<Rightarrow> 'a RunDb_scheme \<Rightarrow> (go_error + QuestionRequest) \<times> 'a RunDb_scheme" where
  "RequestQuestion S runID request = InTx
     (bindM (RunRepo_Get runID) (\<lambda>r.
      if RunStatus_IsTerminal (rn_Status r) then failM (ErrStateConflict ''run is terminal'')
      else bindM (WorkItemRepo_Get (rn_WorkItemID r)) (\<lambda>w.
      bindM (checkM (requireValidWorkItemRecordKind w)) (\<lambda>_ db.
      case QuestionRepo_GetByProviderKey (rn_ID r) (qn_SessionRef request) (qn_ProviderID request) db of
        (Inr existing, db1) \<Rightarrow> (Inr existing, db1)
      | (Inl e, db1) \<Rightarrow>
          if e \<noteq> ErrNotFound then (Inl e, db1)
          else let agent = TrimSpace (qn_AgentID request);
                   q = request\<lparr>qn_ID := rs_NewID S db1, qn_RunID := rn_ID r, qn_WorkItemID := rn_WorkItemID r,
                     qn_AgentID := (if agent = '''' then ''main'' else agent), qn_Status := QuestionPending,
                     qn_CreatedAt := (if IsZero (qn_CreatedAt request) then nowM db1 else qn_CreatedAt request)\<rparr>
               in (case QuestionRequest_Validate q of
                     Inl e \<Rightarrow> (Inl e, db1)
                   | Inr q \<Rightarrow> bindM (QuestionRepo_Create q) (\<lambda>_.
                       bindM (emit_run S r ''question.requested'' (rn_Version r)
                         [(''run_id'', VStr (rn_ID r)), (''work_item_id'', VStr (rn_WorkItemID r)), (''question_id'', VStr (qn_ID q)),
                          (''provider_question_id'', VStr (qn_ProviderID q)), (''session_ref'', VStr (qn_SessionRef q)),
                          (''agent_id'', VStr (qn_AgentID q)), (''turn_id'', VInt64 (qn_TurnID q)),
                          (''tool_call_id'', VStr (qn_ToolCallID q)), (''questions'', VList (map item_value (qn_Questions q))),
                          (''status'', VStr (QuestionStatus_text (qn_Status q))), (''record_kind'', kind_value w)])
                         (\<lambda>_. returnM q)) db1)))))"

definition Questions :: "string \<Rightarrow> 'a RunDb_scheme \<Rightarrow> (go_error + QuestionRequest list) \<times> 'a RunDb_scheme" where
  "Questions runID = QuestionRepo_ListPending runID"

text \<open>
  Answering takes three steps: the answer is recorded, then delivered to the runtime, then
  confirmed. The outcome of a delivery says whether the provider may have accepted it.
\<close>

datatype delivery = Delivered | DeliveryUnknown go_error | DeliveryFailed go_error

definition prepare_answer ::
  "(goval \<Rightarrow> string) \<Rightarrow> string \<Rightarrow> string \<Rightarrow> QuestionResponse \<Rightarrow> 'a RunDb_scheme \<Rightarrow> (go_error + QuestionRequest) \<times> 'a RunDb_scheme"
where
  "prepare_answer sprint runID questionID response = InTx
     (bindM (QuestionRepo_Get questionID) (\<lambda>q.
      if qn_RunID q \<noteq> runID then failM ErrNotFound
      else if qn_Status q = QuestionAnswered then
        (if (case qn_Response q of None \<Rightarrow> False | Some r \<Rightarrow> QuestionResponse_Equal r response) \<and>
            (case qn_ProviderAnswers q of None \<Rightarrow> True | Some a \<Rightarrow> QuestionRequest_MatchesProviderAnswers sprint q a)
         then returnM q else failM (ErrStateConflict ''question already has a different answer''))
      else bindM (RunRepo_Get (qn_RunID q)) (\<lambda>r.
        if RunStatus_IsTerminal (rn_Status r) then failM (ErrStateConflict ''run is terminal'')
        else (case QuestionRequest_PrepareResponse q response of
            Inl e \<Rightarrow> failM e
          | Inr q' \<Rightarrow> bindM (QuestionRepo_Update q') (\<lambda>_. returnM q')))))"

definition clear_answer :: "string \<Rightarrow> QuestionResponse \<Rightarrow> 'a RunDb_scheme \<Rightarrow> (go_error + unit) \<times> 'a RunDb_scheme" where
  "clear_answer questionID response = InTx
     (bindM (QuestionRepo_Get questionID) (\<lambda>q.
      QuestionRepo_Update
        (if qn_Status q = QuestionPending \<and> (case qn_Response q of None \<Rightarrow> False | Some r \<Rightarrow> QuestionResponse_Equal r response)
         then QuestionRequest_ClearPreparedResponse q else q)))"

definition confirm_answer ::
  "'a RunS \<Rightarrow> string \<Rightarrow> QuestionResponse \<Rightarrow> string \<Rightarrow> 'a RunDb_scheme \<Rightarrow> (go_error + QuestionRequest) \<times> 'a RunDb_scheme" where
  "confirm_answer S questionID response who = InTx
     (bindM (QuestionRepo_Get questionID) (\<lambda>q.
      if qn_Status q = QuestionAnswered then returnM q
      else if (case qn_Response q of None \<Rightarrow> True | Some r \<Rightarrow> \<not> QuestionResponse_Equal r response)
        then failM (ErrStateConflict ''prepared response changed during delivery'')
      else readM nowM (\<lambda>now. case QuestionRequest_CompleteResponse q now of
          Inl e \<Rightarrow> failM e
        | Inr q' \<Rightarrow> bindM (QuestionRepo_Update q') (\<lambda>_.
            bindM (RunRepo_Get (qn_RunID q')) (\<lambda>r. bindM (WorkItemRepo_Get (rn_WorkItemID r)) (\<lambda>w.
            bindM (emit_run S r ''question.resolved'' (rn_Version r)
              [(''run_id'', VStr (rn_ID r)), (''work_item_id'', VStr (rn_WorkItemID r)), (''question_id'', VStr (qn_ID q')),
               (''provider_question_id'', VStr (qn_ProviderID q')), (''status'', VStr (QuestionStatus_text (qn_Status q'))),
               (''response'', response_value response), (''resolved_by'', VStr who), (''record_kind'', kind_value w)])
              (\<lambda>_. returnM q')))))))"

definition ResolveQuestion ::
  "'a RunS \<Rightarrow> (goval \<Rightarrow> string) \<Rightarrow> (string \<Rightarrow> string \<Rightarrow> QuestionResponse \<Rightarrow> 'a RunDb_scheme \<Rightarrow> delivery \<times> 'a RunDb_scheme) option \<Rightarrow>
   string \<Rightarrow> string \<Rightarrow> QuestionResponse \<Rightarrow> string \<Rightarrow> 'a RunDb_scheme \<Rightarrow> (go_error + QuestionRequest) \<times> 'a RunDb_scheme" where
  "ResolveQuestion S sprint forwarder runID questionID response who =
     bindM (prepare_answer sprint runID questionID response) (\<lambda>q.
     if qn_Status q = QuestionAnswered then returnM q
     else (case forwarder of
         None \<Rightarrow> failM (ErrOther ''required capability unavailable'')
       | Some forward \<Rightarrow> (\<lambda>db. case forward (qn_RunID q) (qn_ID q) response db of
             (Delivered, db1) \<Rightarrow> confirm_answer S (qn_ID q) response who db1
           | (DeliveryUnknown e, db1) \<Rightarrow> (Inl e, db1)
           | (DeliveryFailed e, db1) \<Rightarrow> (Inl e, snd (clear_answer (qn_ID q) response db1)))))"

definition DismissQuestion ::
  "'a RunS \<Rightarrow> string \<Rightarrow> string \<Rightarrow> string \<Rightarrow> 'a RunDb_scheme \<Rightarrow> (go_error + QuestionRequest) \<times> 'a RunDb_scheme" where
  "DismissQuestion S runID questionID who = InTx
     (bindM (QuestionRepo_Get questionID) (\<lambda>q.
      if qn_RunID q \<noteq> runID then failM ErrNotFound
      else bindM (RunRepo_Get (qn_RunID q)) (\<lambda>run.
      if RunStatus_IsTerminal (rn_Status run) then failM (ErrStateConflict ''run is terminal'')
      else if qn_Status q = QuestionDismissed then returnM q
      else if qn_Status q \<noteq> QuestionPending then failM (ErrStateConflict ''question is settled'')
      else readM nowM (\<lambda>now. case QuestionRequest_Dismiss q now of
          Inl e \<Rightarrow> failM e
        | Inr q' \<Rightarrow> bindM (QuestionRepo_Update q') (\<lambda>_.
            bindM (RunRepo_Get (qn_RunID q')) (\<lambda>r. bindM (WorkItemRepo_Get (rn_WorkItemID r)) (\<lambda>w.
            bindM (emit_run S r ''question.dismissed'' (rn_Version r)
              [(''run_id'', VStr (rn_ID r)), (''work_item_id'', VStr (rn_WorkItemID r)), (''question_id'', VStr (qn_ID q')),
               (''status'', VStr (QuestionStatus_text (qn_Status q'))), (''dismissed_by'', VStr who), (''record_kind'', kind_value w)])
              (\<lambda>_. returnM q'))))))))"

section \<open>Approvals\<close>

definition requestApprovalTx ::
  "'a RunS \<Rightarrow> string \<Rightarrow> string \<Rightarrow> string \<Rightarrow> string \<Rightarrow> string \<Rightarrow>
   'a RunDb_scheme \<Rightarrow> (go_error + ApprovalRequest \<times> ApprovalGrant option) \<times> 'a RunDb_scheme" where
  "requestApprovalTx S runID kind risk summary runnerApprovalID =
     with_run runID (\<lambda>r w.
       bindM (ApprovalGrantRepo_Matching (rn_WorkspaceID r) (rn_AgentProfileID r) (rn_WorkItemID r) kind summary) (\<lambda>grant.
       readM (\<lambda>db. (rs_NewID S db, nowM db)) (\<lambda>(i, now).
       let a = \<lparr>ap_ID = i, ap_RunID = rn_ID r, ap_WorkItemID = rn_WorkItemID r, ap_Kind = kind, ap_Risk = risk,
             ap_Status = ApprovalPending, ap_Summary = summary,
             ap_RequestedBy = [(''kind'', VStr ''runtime''), (''id'', VStr (rn_RuntimeLabel r))] @
               (if runnerApprovalID \<noteq> '''' then [(''runner_approval_id'', VStr runnerApprovalID)] else []),
             ap_SensitiveInputRef = '''', ap_PolicySnapshotID = '''', ap_ExpiresAt = None, ap_ResolvedAt = None,
             ap_ResolvedBy = '''', ap_ResolveReason = '''', ap_CreatedAt = now\<rparr>
       in bindM (RunRepo_CreateApproval a) (\<lambda>_.
          bindM (transitionRunLocked S r RunWaitingApproval [(''approval_id'', VStr (ap_ID a))]) (\<lambda>_.
          bindM (emit S (rn_WorkspaceID r) ''approval.requested'' ''approval'' (ap_ID a) 1
             (Some \<lparr>er_RunID = rn_ID r, er_AgentID = '''', er_EventType = ''approval.requested'', er_Payload = [(''record_kind'', kind_value w)]\<rparr>)
             [(''kind'', VStr kind), (''risk'', VStr risk), (''summary'', VStr summary), (''record_kind'', kind_value w)]) (\<lambda>_.
          returnM (a, grant)))))))"

definition RequestApproval ::
  "'a RunS \<Rightarrow> string \<Rightarrow> string \<Rightarrow> string \<Rightarrow> string \<Rightarrow>
   'a RunDb_scheme \<Rightarrow> (go_error + ApprovalRequest \<times> ApprovalGrant option) \<times> 'a RunDb_scheme" where
  "RequestApproval S runID kind risk summary = InTx (requestApprovalTx S runID kind risk summary '''')"

text \<open>
  What the decision of an approval needs from the plan executor and the Goals: the gate that a
  stopped Goal closes, the continuation of a plan, and the plan of an approval.
\<close>

record 'db ApprovalEnv =
  ae_GoalGate :: "ExecutionRun \<Rightarrow> 'db \<Rightarrow> (go_error + unit) \<times> 'db"
  ae_ResolvePlan :: "ApprovalRequest \<Rightarrow> bool \<Rightarrow> string \<Rightarrow> 'db \<Rightarrow> (go_error + string \<times> string) \<times> 'db"
  ae_PlanOf :: "ApprovalRequest \<Rightarrow> 'db \<Rightarrow> (go_error + string) \<times> 'db"

definition audit :: "string \<Rightarrow> string \<Rightarrow> string \<Rightarrow> gomap \<Rightarrow> 'a RunDb_scheme \<Rightarrow> (go_error + unit) \<times> 'a RunDb_scheme" where
  "audit ws action target detail =
     bindM (tryM (AuditRepo_Append ws [(''kind'', VStr ''user''), (''id'', VStr ''user_demo'')] action target detail)) (\<lambda>_. returnM ())"

definition resolve_message :: "string \<Rightarrow> string \<Rightarrow> string \<Rightarrow> string" where
  "resolve_message i decision reason =
     [CHR 0xE5, CHR 0xAE, CHR 0xA1, CHR 0xE6, CHR 0x89, CHR 0xB9] @ '' '' @ i @ [CHR 0xEF, CHR 0xBC, CHR 0x9A] @ decision @
     (if reason \<noteq> '''' then [CHR 0xEF, CHR 0xBC, CHR 0x88] @ reason @ [CHR 0xEF, CHR 0xBC, CHR 0x89] else '''')"

definition grant_for :: "ExecutionRun \<Rightarrow> ApprovalRequest \<Rightarrow> ApprovalScope \<Rightarrow> string \<Rightarrow> time \<Rightarrow> ApprovalGrant" where
  "grant_for r a scope i now =
     \<lparr>gr_ID = i, gr_WorkspaceID = rn_WorkspaceID r, gr_AgentProfileID = rn_AgentProfileID r,
      gr_WorkItemID = (if scope = ApprovalScopeThread then ap_WorkItemID a else ''''), gr_Scope = scope,
      gr_Kind = ap_Kind a, gr_Pattern = ap_Summary a, gr_CreatedAt = now\<rparr>"

fun scope_text :: "ApprovalScope \<Rightarrow> string" where
  "scope_text ApprovalScopeOnce = ''once''"
| "scope_text ApprovalScopeThread = ''thread''"
| "scope_text ApprovalScopeWorkspace = ''workspace''"
| "scope_text (ApprovalScopeOther s) = s"

definition audit_detail :: "ApprovalRequest \<Rightarrow> ApprovalStatus \<Rightarrow> string \<Rightarrow> string \<Rightarrow> gomap" where
  "audit_detail a decision who reason =
     [(''decision'', VStr (ApprovalStatus_text decision)), (''approver'', VStr who), (''reason'', VStr reason), (''risk'', VStr (ap_Risk a))]"

definition resolve_plan_approval ::
  "'a RunS \<Rightarrow> 'a RunDb_scheme ApprovalEnv \<Rightarrow> ApprovalRequest \<Rightarrow> bool \<Rightarrow> ApprovalStatus \<Rightarrow> string \<Rightarrow> string \<Rightarrow>
   'a RunDb_scheme \<Rightarrow> (go_error + unit) \<times> 'a RunDb_scheme" where
  "resolve_plan_approval S E a approved decision who reason =
     bindM (ae_ResolvePlan E a approved reason) (\<lambda>(ws, item).
     bindM (emit S ws ''approval.resolved'' ''approval'' (ap_ID a) 1 None
        [(''decision'', VStr (ApprovalStatus_text decision)), (''resolved_by'', VStr who), (''record_kind'', VStr ''task'')]) (\<lambda>_.
     bindM (audit ws ''approval.resolved'' (ap_ID a) (audit_detail a decision who reason)) (\<lambda>_.
     activityFor S ws item ''approval.resolved'' (resolve_message (ap_ID a) (ApprovalStatus_text decision) ''''))))"

definition resolve_run_approval ::
  "'a RunS \<Rightarrow> ApprovalRequest \<Rightarrow> bool \<Rightarrow> ApprovalStatus \<Rightarrow> string \<Rightarrow> string \<Rightarrow> ApprovalScope \<Rightarrow>
   'a RunDb_scheme \<Rightarrow> (go_error + unit) \<times> 'a RunDb_scheme" where
  "resolve_run_approval S a approved decision who reason scope =
     with_run (ap_RunID a) (\<lambda>r w.
       bindM (if approved then transitionRunLocked S r RunRunning [(''approval_id'', VStr (ap_ID a)), (''decision'', VStr ''approved'')]
              else if rn_Status r = RunWaitingApproval
                then transitionRunLocked S r RunCancelling [(''approval_id'', VStr (ap_ID a)), (''decision'', VStr ''rejected'')]
              else returnM ()) (\<lambda>_.
       bindM (emit S (rn_WorkspaceID r) ''approval.resolved'' ''approval'' (ap_ID a) 1
          (Some \<lparr>er_RunID = rn_ID r, er_AgentID = '''', er_EventType = ''approval.resolved'', er_Payload = [(''record_kind'', kind_value w)]\<rparr>)
          [(''decision'', VStr (ApprovalStatus_text decision)), (''resolved_by'', VStr who), (''record_kind'', kind_value w)]) (\<lambda>_.
       bindM (if approved \<and> scope \<noteq> ApprovalScopeOnce then
           readM (\<lambda>db. (rs_NewID S db, nowM db)) (\<lambda>(i, now). let g = grant_for r a scope i now in
             bindM (ApprovalGrantRepo_Create g) (\<lambda>_.
             audit (rn_WorkspaceID r) ''approval.grant_created'' (gr_ID g)
               [(''approval_id'', VStr (ap_ID a)), (''scope'', VStr (scope_text scope)), (''kind'', VStr (gr_Kind g)), (''pattern'', VStr (gr_Pattern g))]))
         else returnM ()) (\<lambda>_.
       bindM (audit (rn_WorkspaceID r) ''approval.resolved'' (ap_ID a) (audit_detail a decision who reason)) (\<lambda>_.
       activityFor S (rn_WorkspaceID r) (rn_WorkItemID r) ''approval.resolved''
         (resolve_message (ap_ID a) (ApprovalStatus_text decision) reason))))))"

text \<open>The transaction of \<^verbatim>\<open>ResolveApproval\<close>: the approval, and whether this call decided it.\<close>

definition ResolveApproval ::
  "'a RunS \<Rightarrow> 'a RunDb_scheme ApprovalEnv \<Rightarrow> string \<Rightarrow> bool \<Rightarrow> string \<Rightarrow> string \<Rightarrow> ApprovalScope \<Rightarrow>
   'a RunDb_scheme \<Rightarrow> (go_error + ApprovalRequest \<times> bool) \<times> 'a RunDb_scheme" where
  "ResolveApproval S E approvalID approved who reason scope =
     (if \<not> ApprovalScope_Valid scope then failM (ErrValidation '''')
      else let decision = (if approved then ApprovalApproved else ApprovalRejected)
      in InTx (bindM (RunRepo_GetApproval approvalID) (\<lambda>a.
        if scope \<noteq> ApprovalScopeOnce \<and> \<not> ApprovalKindGrantable (ap_Kind a) then failM (ErrValidation '''')
        else if ap_Status a = decision then
          bindM (if ap_Kind a = ''plan_dispatch'' \<and> \<not> approved then bindM (ae_PlanOf E a) (\<lambda>_. returnM ()) else returnM ())
            (\<lambda>_. returnM (a, False))
        else bindM (if approved \<and> ap_Kind a \<noteq> ''plan_dispatch'' \<and> ap_RunID a \<noteq> ''''
                    then bindM (RunRepo_Get (ap_RunID a)) (ae_GoalGate E) else returnM ()) (\<lambda>_.
        readM nowM (\<lambda>now. case ApprovalRequest_Resolve a decision who reason now of
            Inl e \<Rightarrow> failM e
          | Inr a' \<Rightarrow> bindM (RunRepo_UpdateApproval a') (\<lambda>_.
              bindM (if ap_Kind a' = ''plan_dispatch'' then resolve_plan_approval S E a' approved decision who reason
                     else resolve_run_approval S a' approved decision who reason scope) (\<lambda>_. returnM (a', True))))))))"

end
