(* ===== verification/Effects.thy ===== *)
theory Effects
  imports Runs
begin

text \<open>
  A calculus for what an operation may do to a part of the state: a locale over a reflexive and
  transitive relation that ignores the statement counter, its rules for the combinators of a
  transaction, and the instance for operations that leave the questions alone.
\<close>

section \<open>What an operation may do\<close>

text \<open>
  \<open>within P R f\<close>: from a state with \<open>P\<close>, whatever the outcome, \<open>f\<close> moves along \<open>R\<close>. A relation that is
  reflexive and transitive and ignores the statement counter goes through the combinators.
\<close>

definition within :: "('db \<Rightarrow> bool) \<Rightarrow> ('db \<Rightarrow> 'db \<Rightarrow> bool) \<Rightarrow> ('db \<Rightarrow> 'r \<times> 'db) \<Rightarrow> bool" where
  "within P R f \<longleftrightarrow> (\<forall>db. P db \<longrightarrow> R db (snd (f db)))"

abbreviation always :: "'db \<Rightarrow> bool" where
  "always \<equiv> \<lambda>_. True"

lemma withinD: "within P R f \<Longrightarrow> P db \<Longrightarrow> R db (snd (f db))"
  by (simp add: within_def)

lemma within_mono: "within P R f \<Longrightarrow> (\<And>db. Q db \<Longrightarrow> P db) \<Longrightarrow> (\<And>db db'. R db db' \<Longrightarrow> S db db') \<Longrightarrow> within Q S f"
  by (simp add: within_def)

lemma within_any: "within always R f \<Longrightarrow> within P R f"
  by (simp add: within_def)

locale effect =
  fixes R :: "'a Conn_scheme \<Rightarrow> 'a Conn_scheme \<Rightarrow> bool"
  assumes refl: "R db db"
    and trans: "R db db1 \<Longrightarrow> R db1 db2 \<Longrightarrow> R db db2"
    and count: "R db (db\<lparr>cn_step := n\<rparr>)"
begin

lemma return: "within P R (returnM x)"
  by (simp add: within_def returnM_def refl)

lemma fail: "within P R (failM e)"
  by (simp add: within_def failM_def refl)

lemma check: "within P R (checkM c)"
  by (simp add: within_def checkM_def refl split: option.splits)

lemma exec:
  assumes "\<And>t n. P db \<Longrightarrow> R (db\<lparr>cn_step := n\<rparr>) (snd (f t (db\<lparr>cn_step := n\<rparr>)))"
  shows "P db \<longrightarrow> R db (snd (exec_stmt f db))"
proof
  assume P: "P db"
  obtain r db' where e: "exec_stmt f db = (r, db')" by (cases "exec_stmt f db")
  then show "R db (snd (exec_stmt f db))"
  proof (cases rule: exec_stmt_cases)
    case (2 t)
    then show ?thesis using trans [OF count assms [OF P, of "Suc (cn_step db)" t]] e by simp
  qed (simp add: e count)
qed

lemma exec_within: "(\<And>t db. R db (snd (f t db))) \<Longrightarrow> within P R (exec_stmt f)"
  unfolding within_def using exec by blast

lemma query: "within P R (query_stmt f)"
  unfolding query_stmt_def by (rule exec_within) (simp add: refl)

lemma bind:
  assumes "within P R f" and "\<And>x. within always R (g x)"
  shows "within P R (bindM f g)"
  unfolding within_def
proof (intro allI impI)
  fix db
  assume P: "P db"
  obtain r db1 where f: "f db = (r, db1)" by (cases "f db")
  have 1: "R db db1" using withinD [OF assms(1) P] by (simp add: f)
  then show "R db (snd (bindM f g db))"
    using trans [OF 1 withinD [OF assms(2)]] by (cases r) (simp_all add: bindM_def f)
qed

lemma read: "(\<And>x. within P R (g x)) \<Longrightarrow> within P R (readM f g)"
  by (simp add: within_def readM_def)

lemma tried: "within P R f \<Longrightarrow> within P R (tryM f)"
  unfolding within_def tryM_def by (auto split: prod.splits sum.splits)

lemma cond: "within P R f \<Longrightarrow> within P R g \<Longrightarrow> within P R (if b then f else g)"
  by simp

lemma opt: "within P R f \<Longrightarrow> (\<And>x. within P R (g x)) \<Longrightarrow> within P R (case y of None \<Rightarrow> f | Some x \<Rightarrow> g x)"
  by (cases y) auto

lemma alt: "(\<And>e. within P R (f e)) \<Longrightarrow> (\<And>x. within P R (g x)) \<Longrightarrow> within P R (case y of Inl e \<Rightarrow> f e | Inr x \<Rightarrow> g x)"
  by (cases y) auto

lemma run_after:
  assumes "within P R f" and "\<And>x db. R db (snd (h x db))"
  shows "within P R (\<lambda>db. case f db of (x, db1) \<Rightarrow> h x db1)"
  unfolding within_def
proof (intro allI impI)
  fix db
  assume P: "P db"
  obtain x db1 where f: "f db = (x, db1)" by (cases "f db")
  have "R db db1" using withinD [OF assms(1) P] by (simp add: f)
  then have "R db (snd (h x db1))" using assms(2) by (rule trans)
  then show "R db (snd (case f db of (x, db1) \<Rightarrow> h x db1))" by (simp add: f)
qed

lemma tx:
  assumes "within always R f"
  shows "within P R (InTx f)"
  unfolding within_def
proof (intro allI impI)
  fix db
  obtain r db' where e: "InTx f db = (r, db')" by (cases "InTx f db")
  then show "R db (snd (InTx f db))"
  proof (cases rule: InTx_cases)
    case (2 x db2 n)
    have "R (db\<lparr>cn_step := Suc (cn_step db)\<rparr>) db2" using withinD [OF assms, of "db\<lparr>cn_step := Suc (cn_step db)\<rparr>"] 2(2) by simp
    then have "R db db2" by (rule trans [OF count])
    then have "R db (db2\<lparr>cn_step := n\<rparr>)" using count by (rule trans)
    then show ?thesis using 2(3) by (simp add: e)
  qed (simp add: e count)
qed

lemmas rules = return fail check query bind read tried cond opt alt

end

section \<open>Operations that leave the questions alone\<close>

definition same_questions :: "'a RunDb_scheme \<Rightarrow> 'a RunDb_scheme \<Rightarrow> bool" where
  "same_questions db db' \<longleftrightarrow> db_questions db' = db_questions db"

interpretation sq: effect same_questions
  by unfold_locales (simp_all add: same_questions_def)

named_theorems asks_nothing

declare sq.rules [asks_nothing]

lemma sq_log [asks_nothing]:
  fixes ev :: CanonicalEvent
  shows "within always same_questions (insert_run_event ev re)" "within always same_questions (insert_stream ev p)"
    "within always same_questions (insert_outbox ev p)" "within always same_questions (EventRepo_AppendActivityFor ws wi k m)"
  unfolding insert_run_event_def insert_stream_def insert_outbox_def EventRepo_AppendActivityFor_def
  by (rule sq.exec_within; simp add: same_questions_def Let_def)+

lemma sq_append [asks_nothing]: "within always same_questions (EventRepo_Append cd ev re)"
  unfolding EventRepo_Append_def by (intro asks_nothing)

lemma sq_emit [asks_nothing]: "within always same_questions (emit S ws ty at ai v re data)"
  unfolding within_def
proof (intro allI impI)
  fix db :: "'a RunDb_scheme"
  have s: "within always same_questions (bindM (EventRepo_Append cd ev' re') (\<lambda>_. returnM ()))" for cd ev' re'
    by (intro asks_nothing)
  show "same_questions db (snd (emit S ws ty at ai v re data db))"
  proof (cases "NewCanonicalEvent (rs_NewID S db) (nowM db) ws ty at ai v (if re = None then data else withoutAgentID data)")
    case (Inl e)
    then show ?thesis by (simp add: emit_def Service_emit_def failM_def sq.refl)
  next
    case (Inr ev)
    show ?thesis by (simp only: emit_def Service_emit_def Let_def Inr sum.case) (rule withinD [OF s TrueI])
  qed
qed

lemma sq_gets [asks_nothing]:
  "within always same_questions (WorkItemRepo_Get i)" "within always same_questions (RunRepo_Get i)"
  "within always same_questions (WakeupRepo_GetAgentProfile i)" "within always same_questions (QuestionRepo_ListPendingByRun i)"
  "within always same_questions (QuestionRepo_Get i)" "within always same_questions (QuestionRepo_GetByProviderKey i s p)"
  "within always same_questions (RunRepo_GetApproval i)" "within always same_questions (ApprovalGrantRepo_Matching ws ag wi k su)"
  unfolding WorkItemRepo_Get_def RunRepo_Get_def WakeupRepo_GetAgentProfile_def QuestionRepo_ListPendingByRun_def
    QuestionRepo_Get_def QuestionRepo_GetByProviderKey_def RunRepo_GetApproval_def ApprovalGrantRepo_Matching_def
  by (rule sq.query)+

lemma sq_writes [asks_nothing]:
  "within always same_questions (WorkItemRepo_Update w v)" "within always same_questions (RunRepo_Update r v)"
  "within always same_questions (WorkItemRepo_TouchUpdatedAt i t)" "within always same_questions (AgentRepo_SetPresence i pr)"
  "within always same_questions (RunRepo_CreateApproval a)" "within always same_questions (RunRepo_UpdateApproval a)"
  "within always same_questions (ApprovalGrantRepo_Create g)" "within always same_questions (RunRepo_CreateArtifact art)"
  "within always same_questions (AuditRepo_Append ws ac an ta de)" "within always same_questions (WorkItemRepo_ReleaseStaleLocks t)"
  "within always same_questions (RunRepo_Create r)"
  unfolding WorkItemRepo_Update_def RunRepo_Update_def WorkItemRepo_TouchUpdatedAt_def AgentRepo_SetPresence_def
    RunRepo_CreateApproval_def RunRepo_UpdateApproval_def ApprovalGrantRepo_Create_def RunRepo_CreateArtifact_def
    AuditRepo_Append_def WorkItemRepo_ReleaseStaleLocks_def RunRepo_Create_def
  by (rule sq.exec_within; simp add: same_questions_def Let_def)+

lemma sq_create_item [asks_nothing]: "within always same_questions (WorkItemRepo_Create w)"
  unfolding WorkItemRepo_Create_def Let_def
  by (intro sq.cond sq.fail sq.exec_within) (simp add: same_questions_def)

lemma sq_index [asks_nothing]: "within always same_questions (SearchRepo_IndexEntry e)"
  unfolding SearchRepo_IndexEntry_def by (intro sq.bind sq.exec_within) (simp_all add: same_questions_def)

end
