(* ===== verification/QuestionRows.thy ===== *)
theory QuestionRows
  imports Effects
begin

text \<open>
  The table of native questions (\<^verbatim>\<open>internal/persistence/sqlstore/questions.go\<close>) under the operations of
  the run service: the invariant of its rows, the relation by which a row may move, and one lemma for
  each operation that writes questions.
\<close>

section \<open>The table of questions\<close>

definition stored_ok :: "QuestionRequest \<Rightarrow> bool" where
  "stored_ok q \<longleftrightarrow> q_ok q \<and> map_option stored_response (qn_Response q) = qn_Response q"

definition provider_key :: "QuestionRequest \<Rightarrow> string \<times> string \<times> string" where
  "provider_key q = (qn_RunID q, qn_SessionRef q, qn_ProviderID q)"

definition questions_ok :: "QuestionRequest list \<Rightarrow> bool" where
  "questions_ok qs \<longleftrightarrow> list_all stored_ok qs \<and> distinct (map qn_ID qs) \<and> distinct (map provider_key qs)"

text \<open>What was asked stays as it was asked; a question that is settled keeps its outcome.\<close>

definition q_later :: "QuestionRequest \<Rightarrow> QuestionRequest \<Rightarrow> bool" where
  "q_later q q' \<longleftrightarrow> q_static q' = q_static q \<and>
     (qn_Status q \<noteq> QuestionPending \<longrightarrow>
       qn_Status q' = qn_Status q \<and> qn_Response q' = qn_Response q \<and> qn_ResolvedAt q' = qn_ResolvedAt q)"

definition q_step :: "'a RunDb_scheme \<Rightarrow> 'a RunDb_scheme \<Rightarrow> bool" where
  "q_step db db' \<longleftrightarrow> (questions_ok (db_questions db) \<longrightarrow>
     questions_ok (db_questions db') \<and> (\<forall>q \<in> set (db_questions db). \<exists>q' \<in> set (db_questions db'). q_later q q'))"

lemma q_later_refl: "q_later q q"
  by (simp add: q_later_def)

lemma q_later_trans: "q_later q r \<Longrightarrow> q_later r s \<Longrightarrow> q_later q s"
  by (simp add: q_later_def)

lemma q_step_trans: "q_step db db1 \<Longrightarrow> q_step db1 db2 \<Longrightarrow> q_step db db2"
  unfolding q_step_def by (meson q_later_trans)

interpretation qs: effect q_step
proof unfold_locales
  show "q_step db db" for db :: "'a RunDb_scheme" using q_later_refl by (auto simp: q_step_def)
  show "q_step db db1 \<Longrightarrow> q_step db1 db2 \<Longrightarrow> q_step db db2" for db db1 db2 :: "'a RunDb_scheme" by (rule q_step_trans)
  show "q_step db (db\<lparr>cn_step := n\<rparr>)" for db :: "'a RunDb_scheme" and n using q_later_refl by (auto simp: q_step_def)
qed

lemma same_step: "same_questions db db' \<Longrightarrow> q_step db db'"
  using q_later_refl by (auto simp: q_step_def same_questions_def)

lemma asks_nothing_step: "within always same_questions f \<Longrightarrow> within P q_step f"
  unfolding within_def using same_step by blast

text \<open>After a part that leaves the questions alone, the rows are those of before.\<close>

lemma q_pre:
  assumes f: "within always same_questions f" and g: "\<And>x. within (\<lambda>db. q \<in> set (db_questions db)) q_step (g x)"
  shows "within (\<lambda>db. q \<in> set (db_questions db)) q_step (bindM f g)"
  unfolding within_def
proof (intro allI impI)
  fix db :: "'a RunDb_scheme"
  assume q: "q \<in> set (db_questions db)"
  obtain r db1 where e: "f db = (r, db1)" by (cases "f db")
  have s: "same_questions db db1" using withinD [OF f TrueI, of db] by (simp add: e)
  then have q1: "q \<in> set (db_questions db1)" using q by (simp add: same_questions_def)
  show "q_step db (snd (bindM f g db))"
    using q_step_trans [OF same_step [OF s] withinD [OF g q1]] same_step [OF s]
    by (cases r) (simp_all add: bindM_def e)
qed

lemma q_find:
  assumes g: "\<And>x. within (\<lambda>db. x \<in> set (db_questions db)) q_step (g x)"
  shows "within P q_step (bindM (QuestionRepo_Get i) g)"
  unfolding within_def
proof (intro allI impI)
  fix db :: "'a RunDb_scheme"
  obtain r db1 where e: "QuestionRepo_Get i db = (r, db1)" by (cases "QuestionRepo_Get i db")
  have s: "same_questions db db1" using withinD [OF sq_gets(5) TrueI, of db i] by (simp add: e)
  show "q_step db (snd (bindM (QuestionRepo_Get i) g db))"
  proof (cases r)
    case (Inr q)
    have "q \<in> set (db_questions db1)" using e Inr unfolding QuestionRepo_Get_def
      by (cases rule: query_stmt_cases) (auto simp: find_Some_iff split: option.splits)
    then show ?thesis using q_step_trans [OF same_step [OF s] withinD [OF g]] by (simp add: bindM_def e Inr)
  qed (simp add: bindM_def e same_step [OF s])
qed

section \<open>Writing a question\<close>

lemma stored_ids [simp]: "option_ids (stored_answer a) = option_ids a"
  by (simp add: stored_answer_def option_ids_def split: option.splits)

lemma stored_fields [simp]: "qa_Kind (stored_answer a) = qa_Kind a" "qa_OptionID (stored_answer a) = qa_OptionID a"
  "qa_Text (stored_answer a) = qa_Text a" "qa_OtherText (stored_answer a) = qa_OtherText a"
  by (simp_all add: stored_answer_def)

lemma stored_twice [simp]: "stored_answer (stored_answer a) = stored_answer a"
  by (simp add: stored_answer_def option_ids_def split: option.splits)

lemma stored_response_twice [simp]: "stored_response (stored_response r) = stored_response r"
  by (simp add: stored_response_def comp_def case_prod_beta)

lemma stored_check: "check_answer item (stored_answer a) = check_answer item a"
  by (simp add: check_answer_def QuestionAnswer_Validate_def)

lemma stored_validate: "QuestionResponse_Validate (stored_response r) (Some q) = QuestionResponse_Validate r (Some q)"
proof -
  have "(\<lambda>(i, a). case allowed q i of None \<Rightarrow> Some (ErrOther ''answer references unknown question'') | Some item \<Rightarrow> check_answer item a)
      \<circ> (\<lambda>(i, a). (i, stored_answer a)) =
    (\<lambda>(i, a). case allowed q i of None \<Rightarrow> Some (ErrOther ''answer references unknown question'') | Some item \<Rightarrow> check_answer item a)"
    by (auto simp: fun_eq_iff stored_check split: option.splits)
  then show ?thesis by (simp add: QuestionResponse_Validate_def stored_response_def)
qed

text \<open>The row that an update of question \<open>q'\<close> leaves in the place of \<open>x\<close>.\<close>

definition written_question :: "QuestionRequest \<Rightarrow> QuestionRequest \<Rightarrow> QuestionRequest" where
  "written_question q' x = x\<lparr>qn_Status := qn_Status q', qn_Response := map_option stored_response (qn_Response q'),
     qn_ProviderAnswers := qn_ProviderAnswers q', qn_ResolvedAt := qn_ResolvedAt q'\<rparr>"

definition q_moves :: "QuestionRequest \<Rightarrow> QuestionRequest \<Rightarrow> bool" where
  "q_moves q q' \<longleftrightarrow> q' = q \<or> (\<exists>x. q_apply x q = Inr q')"

lemma static_fields: "q_static q' = q_static q \<Longrightarrow> qn_Questions q' = qn_Questions q \<and> qn_ID q' = qn_ID q \<and> qn_RunID q' = qn_RunID q \<and>
    qn_WorkItemID q' = qn_WorkItemID q \<and> qn_SessionRef q' = qn_SessionRef q \<and> qn_ProviderID q' = qn_ProviderID q"
  by (drule arg_cong [where f = "\<lambda>q. (qn_Questions q, qn_ID q, qn_RunID q, qn_WorkItemID q, qn_SessionRef q, qn_ProviderID q)"])
    (simp add: q_static_def)

lemma written_static: "q_static (written_question q' x) = q_static x"
  by (simp add: written_question_def q_static_def)

lemma moves_static: "q_moves q q' \<Longrightarrow> q_static q' = q_static q"
  unfolding q_moves_def using q_apply_static by blast

lemma written_fine:
  assumes q: "stored_ok q" and m: "q_moves q q'"
  shows "stored_ok (written_question q' q) \<and> q_later q (written_question q' q)"
proof -
  have q': "q_ok q'" using q m q_apply_ok by (auto simp: stored_ok_def q_moves_def)
  have st: "q_static q' = q_static q" by (rule moves_static [OF m])
  note eq = static_fields [OF st]
  let ?w = "written_question q' q"
  have fields: "qn_Questions ?w = qn_Questions q" "qn_ID ?w = qn_ID q" "qn_RunID ?w = qn_RunID q" "qn_WorkItemID ?w = qn_WorkItemID q"
    "qn_SessionRef ?w = qn_SessionRef q" "qn_ProviderID ?w = qn_ProviderID q" "qn_Status ?w = qn_Status q'"
    "qn_ResolvedAt ?w = qn_ResolvedAt q'" "qn_Response ?w = map_option stored_response (qn_Response q')"
    by (simp_all add: written_question_def)
  have "QuestionRequest_Validate ?w = Inr ?w"
    using q' eq unfolding q_ok_def Validate_request by (simp add: fields)
  moreover have "QuestionResponse_Validate r (Some ?w) = None" if w: "qn_Response ?w = Some r" for r
  proof -
    obtain r0 where r0: "qn_Response q' = Some r0" "r = stored_response r0" using w by (auto simp: fields)
    have "QuestionResponse_Validate r0 (Some q') = None" using q' r0 by (simp add: q_ok_def)
    then show ?thesis using Validate_question_cong [of ?w q'] eq fields(1) by (simp add: r0 stored_validate)
  qed
  ultimately have "q_ok ?w" using q' by (simp add: q_ok_def fields)
  moreover have "map_option stored_response (qn_Response ?w) = qn_Response ?w"
    by (simp add: fields option.map_comp comp_def)
  moreover have "q_later q ?w"
  proof (cases "qn_Status q = QuestionPending")
    case False
    have "\<exists>p. q' = q\<lparr>qn_ProviderAnswers := p\<rparr>"
    proof (cases "q' = q")
      case True
      then show ?thesis by (intro exI [of _ "qn_ProviderAnswers q"]) simp
    next
      case ne: False
      then obtain x where "q_apply x q = Inr q'" using m by (auto simp: q_moves_def)
      from q_apply_settled [OF False this] show ?thesis by blast
    qed
    then obtain p where p: "q' = q\<lparr>qn_ProviderAnswers := p\<rparr>" by blast
    have "qn_Status q' = qn_Status q \<and> qn_Response q' = qn_Response q \<and> qn_ResolvedAt q' = qn_ResolvedAt q" by (simp add: p)
    then show ?thesis using q by (simp add: q_later_def written_static fields stored_ok_def)
  qed (simp add: q_later_def written_static)
  ultimately show ?thesis by (simp add: stored_ok_def)
qed

lemma rewritten_rows:
  assumes qs: "questions_ok qs" and g: "\<And>x. x \<in> set qs \<Longrightarrow> stored_ok (g x) \<and> q_later x (g x)"
  shows "questions_ok (map g qs) \<and> (\<forall>q \<in> set qs. \<exists>q' \<in> set (map g qs). q_later q q')"
proof -
  have st: "q_static (g x) = q_static x" if "x \<in> set qs" for x using g [OF that] by (simp add: q_later_def)
  have ids: "qn_ID (g x) = qn_ID x" "provider_key (g x) = provider_key x" if "x \<in> set qs" for x
    using static_fields [OF st [OF that]] by (simp_all add: provider_key_def)
  have "map qn_ID (map g qs) = map qn_ID qs" "map provider_key (map g qs) = map provider_key qs"
    using ids by simp_all
  then have "distinct (map qn_ID (map g qs))" "distinct (map provider_key (map g qs))" using qs by (simp_all only: questions_ok_def)
  moreover have "list_all stored_ok (map g qs)" using g by (simp add: list_all_iff)
  ultimately have "questions_ok (map g qs)" by (simp add: questions_ok_def)
  then show ?thesis using g by auto
qed

lemma rewrite_step:
  fixes db :: "'a RunDb_scheme"
  assumes "\<And>x. questions_ok (db_questions db) \<Longrightarrow> x \<in> set (db_questions db) \<Longrightarrow> stored_ok (g x) \<and> q_later x (g x)"
  shows "q_step db (db\<lparr>db_questions := map g (db_questions db)\<rparr>)"
proof -
  have e: "db_questions (db\<lparr>db_questions := map g (db_questions db)\<rparr>) = map g (db_questions db)" by simp
  show ?thesis unfolding q_step_def e using rewritten_rows assms by blast
qed

lemma update_written:
  "QuestionRepo_Update q' = (if qn_ID q' = '''' then failM (ErrOther ''question id required'')
    else exec_stmt (\<lambda>_ db. (if list_ex (\<lambda>x. qn_ID x = qn_ID q') (db_questions db) then Inr () else Inl (ErrOther ''sql: no rows in result set''),
      db\<lparr>db_questions := map (\<lambda>x. if qn_ID x = qn_ID q' then written_question q' x else x) (db_questions db)\<rparr>)))"
  by (simp add: QuestionRepo_Update_def written_question_def cong: if_cong)

lemma update_step:
  assumes m: "q_moves q q'"
  shows "within (\<lambda>db. q \<in> set (db_questions db)) q_step (QuestionRepo_Update q')"
proof -
  have id: "qn_ID q' = qn_ID q" using static_fields [OF moves_static [OF m]] by simp
  have rows: "q_step db (db\<lparr>db_questions := map (\<lambda>x. if qn_ID x = qn_ID q' then written_question q' x else x) (db_questions db)\<rparr>)"
    if q: "q \<in> set (db_questions db)" for db :: "'a RunDb_scheme"
  proof -
    have "stored_ok (if qn_ID x = qn_ID q' then written_question q' x else x) \<and> q_later x (if qn_ID x = qn_ID q' then written_question q' x else x)"
      if ok: "questions_ok (db_questions db)" and x: "x \<in> set (db_questions db)" for x
    proof (cases "qn_ID x = qn_ID q'")
      case True
      then have "x = q" using ok q x id by (auto simp: questions_ok_def distinct_map dest: inj_onD)
      moreover have "stored_ok q" using ok q by (simp add: questions_ok_def list_all_iff)
      ultimately show ?thesis using written_fine [OF _ m] True by simp
    next
      case False
      then show ?thesis using ok x q_later_refl by (simp add: questions_ok_def list_all_iff)
    qed
    then show ?thesis by (rule rewrite_step)
  qed
  show ?thesis
    unfolding within_def update_written
  proof (intro allI impI)
    fix db :: "'a RunDb_scheme"
    assume q: "q \<in> set (db_questions db)"
    let ?f = "\<lambda>(_::time) db. (if list_ex (\<lambda>x. qn_ID x = qn_ID q') (db_questions db) then Inr () else Inl (ErrOther ''sql: no rows in result set''),
      db\<lparr>db_questions := map (\<lambda>x. if qn_ID x = qn_ID q' then written_question q' x else x) (db_questions db)\<rparr>)"
    have "q_step (db\<lparr>cn_step := n\<rparr>) (snd (?f t (db\<lparr>cn_step := n\<rparr>)))" for t n
      using rows [of "db\<lparr>cn_step := n\<rparr>"] q by simp
    then have "q_step db (snd (exec_stmt ?f db))" using qs.exec [of "\<lambda>db. q \<in> set (db_questions db)" db ?f] q by blast
    then show "q_step db (snd ((if qn_ID q' = '''' then failM (ErrOther ''question id required'') else exec_stmt ?f) db))"
      by (simp add: failM_def qs.refl)
  qed
qed

lemma expire_step: "within P q_step (QuestionRepo_ExpirePendingByRun i now)"
  unfolding QuestionRepo_ExpirePendingByRun_def Let_def
proof (rule qs.exec_within)
  fix t and db :: "'a RunDb_scheme"
  let ?g = "\<lambda>q. if qn_RunID q = i \<and> qn_Status q = QuestionPending then q\<lparr>qn_Status := QuestionExpired, qn_ResolvedAt := Some now\<rparr> else q"
  have "stored_ok (?g x) \<and> q_later x (?g x)" if "stored_ok x" for x
  proof (cases "qn_RunID x = i \<and> qn_Status x = QuestionPending")
    case True
    then have m: "q_moves x (?g x)" by (auto simp: q_moves_def QuestionRequest_Expire_def intro!: exI [of _ "QExpire now"])
    have "written_question (?g x) x = ?g x" using True that by (simp add: written_question_def stored_ok_def)
    then show ?thesis using written_fine [OF that m] by simp
  qed (use that q_later_refl in auto)
  then have "q_step db (db\<lparr>db_questions := map ?g (db_questions db)\<rparr>)"
    by (intro rewrite_step) (simp add: questions_ok_def list_all_iff)
  then show "q_step db (snd (Inr (length (filter (\<lambda>q. qn_RunID q = i \<and> qn_Status q = QuestionPending) (db_questions db))),
      db\<lparr>db_questions := map ?g (db_questions db)\<rparr>))"
    by (simp only: snd_conv)
qed

text \<open>A request as a runtime makes it: nothing of an outcome is set.\<close>

definition fresh_request :: "QuestionRequest \<Rightarrow> bool" where
  "fresh_request q \<longleftrightarrow> qn_Response q = None \<and> qn_ResolvedAt q = None"

lemma create_step:
  assumes q: "fresh_request q" "qn_Status q = QuestionPending"
  shows "within P q_step (QuestionRepo_Create q)"
proof (cases "QuestionRequest_Validate q")
  case (Inl e)
  then show ?thesis by (simp add: QuestionRepo_Create_def qs.fail)
next
  case (Inr q0)
  then have eq: "q0 = q" using q(2) by (auto simp: QuestionRequest_Validate_def Let_def split: if_splits)
  have stored: "stored_ok q" using Inr q by (simp add: eq stored_ok_def q_ok_def fresh_request_def)
  have "q_step db (snd (if list_ex (\<lambda>x. qn_ID x = qn_ID q \<or>
               (qn_RunID x = qn_RunID q \<and> qn_SessionRef x = qn_SessionRef q \<and> qn_ProviderID x = qn_ProviderID q))
               (db_questions db) then (Inl ErrIdempotencyConflict, db)
          else if \<not> known_run db (qn_RunID q) \<or> \<not> known_item db (qn_WorkItemID q)
            then (Inl fkError, db)
          else (Inr (), db\<lparr>db_questions := db_questions db @ [q\<lparr>qn_Response := map_option stored_response (qn_Response q)\<rparr>]\<rparr>)))"
    for db :: "'a RunDb_scheme"
  proof (cases "list_ex (\<lambda>x. qn_ID x = qn_ID q \<or>
       (qn_RunID x = qn_RunID q \<and> qn_SessionRef x = qn_SessionRef q \<and> qn_ProviderID x = qn_ProviderID q)) (db_questions db)")
    case False
    then have new: "qn_ID q \<notin> qn_ID ` set (db_questions db)" "provider_key q \<notin> provider_key ` set (db_questions db)"
      by (auto simp: list_ex_iff provider_key_def)
    have row: "q\<lparr>qn_Response := map_option stored_response (qn_Response q)\<rparr> = q" using q(1) by (simp add: fresh_request_def)
    have "q_step db (db\<lparr>db_questions := db_questions db @ [q]\<rparr>)"
      using new stored q_later_refl by (auto simp: q_step_def questions_ok_def)
    then show ?thesis using False unfolding row by (simp add: qs.refl)
  qed (simp add: qs.refl)
  then show ?thesis
    unfolding QuestionRepo_Create_def Inr eq sum.case by (intro qs.exec_within)
qed

section \<open>The operations on the table of questions\<close>

lemma sq_owner [asks_nothing]: "within always same_questions (lock_owner w)"
  unfolding within_def
proof (intro allI impI)
  fix db :: "'a RunDb_scheme"
  obtain g db1 where g: "RunRepo_Get (wi_LockedByRunID w) db = (g, db1)" by (cases "RunRepo_Get (wi_LockedByRunID w) db")
  have "same_questions db db1" using withinD [OF sq_gets(2) TrueI, of db "wi_LockedByRunID w"] by (simp add: g)
  then show "same_questions db (snd (lock_owner w db))"
    by (cases "wi_LockedByRunID w = ''''"; cases g) (simp_all add: lock_owner_def g sq.refl)
qed

lemma sq_lock [asks_nothing]:
  "within always same_questions (activityFor S ws wi k m)" "within always same_questions (lock_event S r w p)"
  "within always same_questions (projectAgentPresence S r pr)" "within always same_questions (project_review S r)"
  unfolding activityFor_def lock_event_def projectAgentPresence_def project_review_def Let_def by (intro asks_nothing)+

lemma sq_take [asks_nothing]: "within always same_questions (take_lock S r w p)" "within always same_questions (releaseTaskLock r)"
  unfolding take_lock_def releaseTaskLock_def Let_def by (intro asks_nothing)+

lemma sq_acquire [asks_nothing]: "within always same_questions (acquireTaskLock S r)"
  unfolding acquireTaskLock_def by (intro asks_nothing)

lemma sq_parts [asks_nothing]:
  "within always same_questions (emit_run S r ty v data)" "within always same_questions (indexArtifact r art)"
  "within always same_questions (audit ws ac ta de)"
  unfolding emit_run_def indexArtifact_def audit_def by (intro asks_nothing)+

lemma sq_artifact [asks_nothing]:
  "within always same_questions (projectArtifactEvent S r data)" "within always same_questions (emit_expired S r w pending)"
proof -
  show "within always same_questions (projectArtifactEvent S r data)"
    unfolding projectArtifactEvent_def Let_def case_prod_beta by (intro asks_nothing)
  show "within always same_questions (emit_expired S r w pending)"
    by (induction pending) (simp_all add: Let_def asks_nothing)
qed

lemma expire_questions_step: "within P q_step (expireRunPendingQuestions S r w)"
  unfolding expireRunPendingQuestions_def
  by (intro qs.rules asks_nothing_step [OF sq_gets(4)] expire_step asks_nothing_step [OF sq_artifact(2)])

lemma after_update_step: "within P q_step (after_update S w from r to data)"
  unfolding after_update_def
  by (intro qs.rules asks_nothing_step [OF sq_emit] asks_nothing_step [OF sq_take(2)] expire_questions_step
      asks_nothing_step [OF sq_lock(3)] asks_nothing_step [OF sq_lock(4)])

lemma move_run_q:
  assumes ren: "\<And>r. within always q_step (rs_RenewDelegated S r)"
  shows "within P q_step (move_run S w r to data)"
  unfolding move_run_def Let_def
  by (intro qs.rules within_any [OF ren] asks_nothing_step [OF sq_writes(2)] after_update_step)

lemma transition_step_q:
  assumes ren: "\<And>r. within always q_step (rs_RenewDelegated S r)" and refuse: "\<And>e. within always q_step (refuse e)"
  shows "within P q_step (transition_step S refuse r to data)"
proof -
  have "within P q_step (\<lambda>db. case acquireTaskLock S r db of
          (Inl e, db1) \<Rightarrow> if is_locked e then refuse e db1 else (Inl e, db1)
        | (Inr _, db1) \<Rightarrow> move_run S w r to data db1)" for w P
  proof (rule qs.run_after [OF asks_nothing_step [OF sq_acquire]])
    fix x :: "go_error + unit" and db1 :: "'a RunDb_scheme"
    show "q_step db1 (snd (case x of Inl e \<Rightarrow> if is_locked e then refuse e db1 else (Inl e, db1) | Inr u \<Rightarrow> move_run S w r to data db1))"
      using withinD [OF refuse TrueI] withinD [OF move_run_q [OF ren] TrueI] by (cases x) (simp_all add: qs.refl)
  qed
  then show ?thesis unfolding transition_step_def
    by (intro qs.rules asks_nothing_step [OF sq_gets(1)] move_run_q [OF ren])
qed

lemma transition_q:
  assumes ren: "\<And>r. within always q_step (rs_RenewDelegated S r)"
  shows "within P q_step (transitionRunLocked S r to data)"
  unfolding transitionRunLocked_def by (intro transition_step_q [OF ren] qs.fail)

lemma with_run_q: "(\<And>r w. within always q_step (f r w)) \<Longrightarrow> within P q_step (with_run i f)"
  unfolding with_run_def by (intro qs.rules asks_nothing_step [OF sq_gets(1)] asks_nothing_step [OF sq_gets(2)])

lemma reconcile_step: "within P q_step (reconcileQuestionProviderEvent r ty data)"
proof -
  have "within P q_step (\<lambda>db. case QuestionRepo_GetByProviderKey (rn_ID r) s p db of
             (Inl e, db1) \<Rightarrow> (if e = ErrNotFound then Inr () else Inl e, db1)
           | (Inr q, db1) \<Rightarrow>
               (case (if ty = ''question.answered''
                      then QuestionRequest_MarkProviderAnswered q (nowM db1)
                             (case map_of data ''answers'' of Some (VMap m) \<Rightarrow> Some m | _ \<Rightarrow> None)
                      else QuestionRequest_Dismiss q (nowM db1)) of
                  Inl e \<Rightarrow> (Inl e, db1)
                | Inr q' \<Rightarrow> QuestionRepo_Update q' db1))" for s p
    unfolding within_def
  proof (intro allI impI)
    fix db :: "'a RunDb_scheme"
    obtain g db1 where g: "QuestionRepo_GetByProviderKey (rn_ID r) s p db = (g, db1)"
      by (cases "QuestionRepo_GetByProviderKey (rn_ID r) s p db")
    have s: "same_questions db db1" using withinD [OF sq_gets(6) TrueI, of db "rn_ID r" s p] by (simp add: g)
    let ?m = "\<lambda>q. if ty = ''question.answered''
                      then QuestionRequest_MarkProviderAnswered q (nowM db1)
                             (case map_of data ''answers'' of Some (VMap m) \<Rightarrow> Some m | _ \<Rightarrow> None)
                      else QuestionRequest_Dismiss q (nowM db1)"
    have "q_step db (snd (case g of Inl e \<Rightarrow> (if e = ErrNotFound then Inr () else Inl e, db1)
        | Inr q \<Rightarrow> (case ?m q of Inl e \<Rightarrow> (Inl e, db1) | Inr q' \<Rightarrow> QuestionRepo_Update q' db1)))"
    proof (cases g)
      case (Inr q)
      have q: "q \<in> set (db_questions db1)" using g Inr unfolding QuestionRepo_GetByProviderKey_def
        by (cases rule: query_stmt_cases) (auto simp: find_Some_iff split: option.splits)
      show ?thesis
      proof (cases "?m q")
        case (Inr q')
        then have "q_moves q q'" unfolding q_moves_def
          by (metis q_apply.simps(4,6))
        then have "q_step db1 (snd (QuestionRepo_Update q' db1))" using q by (rule withinD [OF update_step])
        then show ?thesis using q_step_trans [OF same_step [OF s]] \<open>g = Inr q\<close> Inr by simp
      qed (use \<open>g = Inr q\<close> same_step [OF s] in simp)
    qed (simp add: same_step [OF s])
    then show "q_step db (snd (case QuestionRepo_GetByProviderKey (rn_ID r) s p db of
             (Inl e, db1) \<Rightarrow> (if e = ErrNotFound then Inr () else Inl e, db1)
           | (Inr q, db1) \<Rightarrow>
               (case (if ty = ''question.answered''
                      then QuestionRequest_MarkProviderAnswered q (nowM db1)
                             (case map_of data ''answers'' of Some (VMap m) \<Rightarrow> Some m | _ \<Rightarrow> None)
                      else QuestionRequest_Dismiss q (nowM db1)) of
                  Inl e \<Rightarrow> (Inl e, db1)
                | Inr q' \<Rightarrow> QuestionRepo_Update q' db1)))"
      unfolding g by (simp only: prod.case)
  qed
  then show ?thesis unfolding reconcileQuestionProviderEvent_def Let_def by (simp add: qs.return)
qed

lemma record_step:
  assumes ren: "\<And>r. within always q_step (rs_RenewDelegated S r)"
  shows "within P q_step (RecordRunProgress S i p)" "within P q_step (RecordRunEvent S i ty data)"
    "within P q_step (RecordArtifact S i art)" "within P q_step (RequestApproval S i k ri su)"
    "within P q_step (RecordRunStatus S i to data)" "within P q_step (ControlRun S i action)"
proof -
  have rd: "within always q_step (renew_delegated S r)" for r unfolding renew_delegated_def by (intro qs.rules ren)
  show "within P q_step (RecordRunProgress S i p)"
    unfolding RecordRunProgress_def recordRunProgressTx_def Let_def
    by (intro qs.tx with_run_q qs.rules rd asks_nothing_step [OF sq_writes(2)] asks_nothing_step [OF sq_parts(1)])
  show "within P q_step (RecordRunEvent S i ty data)"
    unfolding RecordRunEvent_def recordRunEventTx_def Let_def
    by (intro qs.tx with_run_q qs.rules rd reconcile_step asks_nothing_step [OF sq_artifact(1)] asks_nothing_step [OF sq_parts(1)]
        asks_nothing_step [OF sq_writes(3)])
  show "within P q_step (RecordArtifact S i art)"
    unfolding RecordArtifact_def recordArtifactTx_def Let_def case_prod_beta
    by (intro qs.tx with_run_q qs.rules asks_nothing_step [OF sq_writes(8)] asks_nothing_step [OF sq_parts(2)]
        asks_nothing_step [OF sq_emit])
  show "within P q_step (RequestApproval S i k ri su)"
    unfolding RequestApproval_def requestApprovalTx_def Let_def case_prod_beta
    by (intro qs.tx with_run_q qs.rules asks_nothing_step [OF sq_gets(8)] asks_nothing_step [OF sq_writes(5)] transition_q ren
        asks_nothing_step [OF sq_emit])
  show "within P q_step (RecordRunStatus S i to data)"
    unfolding RecordRunStatus_def by (intro qs.tx qs.rules asks_nothing_step [OF sq_gets(2)] transition_q ren)
  show "within P q_step (ControlRun S i action)"
    unfolding ControlRun_def by (intro qs.cond qs.fail qs.tx qs.bind asks_nothing_step [OF sq_gets(2)] transition_q ren)
qed

lemma request_step:
  assumes fresh: "fresh_request request"
  shows "within P q_step (RequestQuestion S i request)"
  unfolding RequestQuestion_def
proof (intro qs.tx qs.rules asks_nothing_step [OF sq_gets(2)] asks_nothing_step [OF sq_gets(1)]
    qs.run_after [OF asks_nothing_step [OF sq_gets(6)]])
  fix r :: ExecutionRun and w :: WorkItem and y :: unit and x :: "go_error + QuestionRequest" and db :: "'a RunDb_scheme"
  let ?q = "request\<lparr>qn_ID := rs_NewID S db, qn_RunID := rn_ID r, qn_WorkItemID := rn_WorkItemID r,
      qn_AgentID := (if TrimSpace (qn_AgentID request) = '''' then ''main'' else TrimSpace (qn_AgentID request)),
      qn_Status := QuestionPending, qn_CreatedAt := (if IsZero (qn_CreatedAt request) then nowM db else qn_CreatedAt request)\<rparr>"
  have created: "q_step db (snd (bindM (QuestionRepo_Create q) (\<lambda>_. bindM (emit_run S r ty v d) (\<lambda>_. returnM q)) db))"
    if "QuestionRequest_Validate ?q = Inr q" for q ty v d
  proof -
    have q: "q = ?q" using that by (auto simp: QuestionRequest_Validate_def Let_def split: if_splits)
    have "within always q_step (bindM (QuestionRepo_Create q) (\<lambda>_. bindM (emit_run S r ty v d) (\<lambda>_. returnM q)))"
      by (intro qs.rules create_step asks_nothing_step [OF sq_parts(1)]) (use fresh q in \<open>simp_all add: fresh_request_def\<close>)
    then show ?thesis by (rule withinD) simp
  qed
  show "q_step db (snd (case x of
       Inl e \<Rightarrow> if e \<noteq> ErrNotFound then (Inl e, db)
          else let agent = TrimSpace (qn_AgentID request);
                   q = request\<lparr>qn_ID := rs_NewID S db, qn_RunID := rn_ID r, qn_WorkItemID := rn_WorkItemID r,
                     qn_AgentID := (if agent = '''' then ''main'' else agent), qn_Status := QuestionPending,
                     qn_CreatedAt := (if IsZero (qn_CreatedAt request) then nowM db else qn_CreatedAt request)\<rparr>
               in (case QuestionRequest_Validate q of
                     Inl e \<Rightarrow> (Inl e, db)
                   | Inr q \<Rightarrow> bindM (QuestionRepo_Create q) (\<lambda>_.
                       bindM (emit_run S r ''question.requested'' (rn_Version r)
                         [(''run_id'', VStr (rn_ID r)), (''work_item_id'', VStr (rn_WorkItemID r)), (''question_id'', VStr (qn_ID q)),
                          (''provider_question_id'', VStr (qn_ProviderID q)), (''session_ref'', VStr (qn_SessionRef q)),
                          (''agent_id'', VStr (qn_AgentID q)), (''turn_id'', VInt64 (qn_TurnID q)),
                          (''tool_call_id'', VStr (qn_ToolCallID q)), (''questions'', VList (map item_value (qn_Questions q))),
                          (''status'', VStr (QuestionStatus_text (qn_Status q))), (''record_kind'', kind_value w)])
                         (\<lambda>_. returnM q)) db)
       | Inr existing \<Rightarrow> (Inr existing, db)))"
    using created unfolding Let_def by (cases x) (auto simp: qs.refl split: sum.splits)
qed

lemma prepare_step: "within P q_step (prepare_answer sp i j resp)"
  unfolding prepare_answer_def
proof (intro qs.tx q_find qs.cond qs.return qs.fail q_pre sq_gets(2))
  fix q r
  show "within (\<lambda>db. q \<in> set (db_questions db)) q_step (case QuestionRequest_PrepareResponse q resp of
      Inl e \<Rightarrow> failM e | Inr q' \<Rightarrow> bindM (QuestionRepo_Update q') (\<lambda>_. returnM q'))"
  proof (cases "QuestionRequest_PrepareResponse q resp")
    case (Inr q')
    then have "q_moves q q'" by (auto simp: q_moves_def intro!: exI [of _ "QPrepare resp"])
    then show ?thesis using Inr by (simp add: qs.bind [OF update_step] qs.return)
  qed (simp add: qs.fail)
qed

lemma clear_step: "within P q_step (clear_answer j resp)"
  unfolding clear_answer_def
proof (intro qs.tx q_find update_step)
  show "q_moves q (if qn_Status q = QuestionPending \<and> (case qn_Response q of None \<Rightarrow> False | Some r \<Rightarrow> QuestionResponse_Equal r resp)
         then QuestionRequest_ClearPreparedResponse q else q)" for q
    by (auto simp: q_moves_def intro!: exI [of _ QClear])
qed

lemma confirm_step: "within P q_step (confirm_answer S j resp who)"
  unfolding confirm_answer_def
proof (intro qs.tx q_find qs.cond qs.return qs.fail qs.read)
  fix q now
  have m: "q_moves q q'" if "QuestionRequest_CompleteResponse q now = Inr q'" for q'
    using that by (auto simp: q_moves_def intro!: exI [of _ "QComplete now"])
  show "within (\<lambda>db. q \<in> set (db_questions db)) q_step (case QuestionRequest_CompleteResponse q now of
      Inl e \<Rightarrow> failM e
    | Inr q' \<Rightarrow> bindM (QuestionRepo_Update q') (\<lambda>_.
        bindM (RunRepo_Get (qn_RunID q')) (\<lambda>r. bindM (WorkItemRepo_Get (rn_WorkItemID r)) (\<lambda>w.
        bindM (emit_run S r ''question.resolved'' (rn_Version r)
          [(''run_id'', VStr (rn_ID r)), (''work_item_id'', VStr (rn_WorkItemID r)), (''question_id'', VStr (qn_ID q')),
           (''provider_question_id'', VStr (qn_ProviderID q')), (''status'', VStr (QuestionStatus_text (qn_Status q'))),
           (''response'', response_value resp), (''resolved_by'', VStr who), (''record_kind'', kind_value w)])
          (\<lambda>_. returnM q')))))"
  proof (cases "QuestionRequest_CompleteResponse q now")
    case (Inr q')
    show ?thesis unfolding Inr sum.case
      by (rule qs.bind [OF update_step [OF m [OF Inr]]]) (intro asks_nothing_step asks_nothing)
  qed (simp add: qs.fail)
qed

lemma dismiss_step: "within P q_step (DismissQuestion S i j who)"
  unfolding DismissQuestion_def
proof (intro qs.tx q_find qs.cond qs.return qs.fail qs.read q_pre sq_gets(2))
  fix q run now
  have m: "q_moves q q'" if "QuestionRequest_Dismiss q now = Inr q'" for q'
    using that by (auto simp: q_moves_def intro!: exI [of _ "QDismiss now"])
  show "within (\<lambda>db. q \<in> set (db_questions db)) q_step (case QuestionRequest_Dismiss q now of
      Inl e \<Rightarrow> failM e
    | Inr q' \<Rightarrow> bindM (QuestionRepo_Update q') (\<lambda>_.
        bindM (RunRepo_Get (qn_RunID q')) (\<lambda>r. bindM (WorkItemRepo_Get (rn_WorkItemID r)) (\<lambda>w.
        bindM (emit_run S r ''question.dismissed'' (rn_Version r)
          [(''run_id'', VStr (rn_ID r)), (''work_item_id'', VStr (rn_WorkItemID r)), (''question_id'', VStr (qn_ID q')),
           (''status'', VStr (QuestionStatus_text (qn_Status q'))), (''dismissed_by'', VStr who), (''record_kind'', kind_value w)])
          (\<lambda>_. returnM q')))))"
  proof (cases "QuestionRequest_Dismiss q now")
    case (Inr q')
    show ?thesis unfolding Inr sum.case
      by (rule qs.bind [OF update_step [OF m [OF Inr]]]) (intro asks_nothing_step asks_nothing)
  qed (simp add: qs.fail)
qed

end
