(* ===== verification/TaskLocks.thy ===== *)
theory TaskLocks
  imports Runs
begin

text \<open>
  What the transactions of the run service (theory Runs) do to runs and execution locks, as steps of
  a small protocol: \<open>task_step\<close> is the abstract specification, \<open>steps\<close> says that a computation
  refines a sequence of its steps, and one lemma for each repository call and service operation
  shows it. A statement that fails rolls its transaction back, which is no step.
\<close>

section \<open>What a transaction does to runs and locks\<close>

text \<open>
  The part of the state that matters for the execution lock: of every run its item and status, of
  every item whether it is a task and which run holds its lock.
\<close>

type_synonym task_view = "(string \<rightharpoonup> string \<times> RunStatus) \<times> (string \<rightharpoonup> bool \<times> string)"

definition runs_map :: "'a SchedDb_scheme \<Rightarrow> string \<rightharpoonup> string \<times> RunStatus" where
  "runs_map db = map_of (map (\<lambda>r. (rn_ID r, (rn_WorkItemID r, rn_Status r))) (db_runs db))"

definition locks_map :: "'a SchedDb_scheme \<Rightarrow> string \<rightharpoonup> bool \<times> string" where
  "locks_map db = map_of (map (\<lambda>w. (wi_ID w, (isTaskWorkItem w, wi_LockedByRunID w))) (db_items db))"

definition task_view_of :: "'a SchedDb_scheme \<Rightarrow> task_view" where
  "task_view_of db = (runs_map db, locks_map db)"

definition ids_ok :: "'a SchedDb_scheme \<Rightarrow> bool" where
  "ids_ok db \<longleftrightarrow> distinct (map rn_ID (db_runs db)) \<and> distinct (map wi_ID (db_items db)) \<and> '''' \<notin> rn_ID ` set (db_runs db)"

subsection \<open>Parts that touch neither\<close>

definition still :: "'a SchedDb_scheme \<Rightarrow> 'a SchedDb_scheme \<Rightarrow> bool" where
  "still db db' \<longleftrightarrow> db_runs db' = db_runs db \<and> db_items db' = db_items db"

definition silent :: "('a SchedDb_scheme \<Rightarrow> 'r \<times> 'a SchedDb_scheme) \<Rightarrow> bool" where
  "silent f \<longleftrightarrow> (\<forall>db. still db (snd (f db)))"

named_theorems silent

lemma still_refl [simp]: "still db db"
  by (simp add: still_def)

lemma still_trans [trans]: "still db db1 \<Longrightarrow> still db1 db2 \<Longrightarrow> still db db2"
  by (simp add: still_def)

lemma still_step [simp]: "still (db\<lparr>cn_step := n\<rparr>) db' \<longleftrightarrow> still db db'" "still db (db'\<lparr>cn_step := n\<rparr>) \<longleftrightarrow> still db db'"
  by (simp_all add: still_def)

lemma silentD: "silent f \<Longrightarrow> f db = (r, db') \<Longrightarrow> still db db'"
  unfolding silent_def by (metis snd_conv)

lemma silent_snd: "silent f \<Longrightarrow> still db (snd (f db))"
  by (simp add: silent_def)

lemma silentI: "(\<And>db. still db (snd (f db))) \<Longrightarrow> silent f"
  by (simp add: silent_def)

lemma silent_return [silent]: "silent (returnM x)"
  by (simp add: silent_def returnM_def)

lemma silent_fail [silent]: "silent (failM e)"
  by (simp add: silent_def failM_def)

lemma silent_check [silent]: "silent (checkM c)"
  by (simp add: silent_def checkM_def split: option.splits)

lemma silent_bind [silent]:
  assumes "silent f" and "\<And>x. silent (g x)"
  shows "silent (bindM f g)"
proof -
  have "still db (snd (bindM f g db))" for db
  proof -
    obtain r db1 where f: "f db = (r, db1)" by (cases "f db")
    have 1: "still db db1" using assms(1) f by (rule silentD)
    have 2: "still db1 (snd (g x db1))" for x using assms(2) unfolding silent_def by blast
    show ?thesis using still_trans [OF 1 2] 1 by (cases r) (auto simp: bindM_def f)
  qed
  then show ?thesis by (simp add: silent_def)
qed

lemma silent_read [silent]: "(\<And>x. silent (g x)) \<Longrightarrow> silent (readM f g)"
  by (simp add: silent_def readM_def)

lemma silent_try [silent]: "silent f \<Longrightarrow> silent (tryM f)"
  by (auto simp: silent_def tryM_def split: prod.splits sum.splits) (metis snd_conv)+

lemma silent_query [silent]: "silent (query_stmt f)"
  by (simp add: silent_def query_stmt_def exec_stmt_def Let_def split: prod.splits)

lemma silent_exec: "(\<And>t db. still db (snd (f t db))) \<Longrightarrow> silent (exec_stmt f)"
  unfolding silent_def exec_stmt_def by (auto simp: Let_def split: prod.splits) (metis snd_conv still_step(1))

lemma silent_if [silent]: "silent f \<Longrightarrow> silent g \<Longrightarrow> silent (if b then f else g)"
  by simp

lemma silent_option [silent]: "silent f \<Longrightarrow> (\<And>x. silent (g x)) \<Longrightarrow> silent (case y of None \<Rightarrow> f | Some x \<Rightarrow> g x)"
  by (cases y) auto

lemma silent_event_inserts [silent]:
  fixes ev :: CanonicalEvent
  shows "silent (insert_run_event ev re)" "silent (insert_stream ev p)" "silent (insert_outbox ev p)"
  unfolding insert_run_event_def insert_stream_def insert_outbox_def
  by (rule silent_exec; simp add: still_def Let_def)+

lemma silent_append [silent]: "silent (EventRepo_Append cd ev re)"
  unfolding EventRepo_Append_def by (intro silent)

lemma silent_emit [silent]: "silent (emit S ws ty at ai v re data)"
proof -
  have "still db (snd (emit S ws ty at ai v re data db))" for db
  proof (cases "NewCanonicalEvent (rs_NewID S db) (nowM db) ws ty at ai v (if re = None then data else withoutAgentID data)")
    case (Inl e)
    then show ?thesis by (simp add: emit_def Service_emit_def failM_def)
  next
    case (Inr ev)
    have s: "still db (snd (bindM (EventRepo_Append cd ev' re') (\<lambda>_. returnM ()) db))" for cd ev' re'
      by (rule silent_snd) (intro silent)
    show ?thesis by (simp only: emit_def Service_emit_def Let_def Inr sum.case) (rule s)
  qed
  then show ?thesis by (simp add: silent_def)
qed

lemma silent_activity_row [silent]: "silent (EventRepo_AppendActivityFor ws wi k m)"
  unfolding EventRepo_AppendActivityFor_def by (rule silent_exec) (simp add: still_def)

lemma silent_get [silent]: "silent (WorkItemRepo_Get i)" "silent (RunRepo_Get i)" "silent (WakeupRepo_GetAgentProfile i)"
  "silent (QuestionRepo_ListPendingByRun i)"
  unfolding WorkItemRepo_Get_def RunRepo_Get_def WakeupRepo_GetAgentProfile_def QuestionRepo_ListPendingByRun_def
  by (rule silent_query)+

lemma silent_activityFor [silent]: "silent (activityFor S ws wi k m)"
  unfolding activityFor_def Let_def by (intro silent)

lemma silent_lock_event [silent]: "silent (lock_event S r w p)"
  unfolding lock_event_def by (intro silent)

lemma silent_expire [silent]: "silent (QuestionRepo_ExpirePendingByRun i now)"
  unfolding QuestionRepo_ExpirePendingByRun_def by (rule silent_exec) (simp add: still_def Let_def)

lemma silent_emit_expired [silent]: "silent (emit_expired S r w qs)"
  by (induction qs) (auto simp: Let_def intro!: silent)

lemma silent_expire_questions [silent]: "silent (expireRunPendingQuestions S r w)"
  unfolding expireRunPendingQuestions_def by (intro silent)

lemma silent_set_presence [silent]: "silent (AgentRepo_SetPresence i p)"
  unfolding AgentRepo_SetPresence_def by (rule silent_exec) (simp add: still_def)

lemma silent_presence [silent]: "silent (projectAgentPresence S r p)"
  unfolding projectAgentPresence_def by (intro silent)

lemma silent_lock_owner [silent]: "silent (lock_owner w)"
proof (rule silentI)
  fix db :: "'a RunDb_scheme"
  show "still db (snd (lock_owner w db))"
  proof (cases "wi_LockedByRunID w = ''''")
    case False
    obtain r db1 where g: "RunRepo_Get (wi_LockedByRunID w) db = (r, db1)" by (cases "RunRepo_Get (wi_LockedByRunID w) db")
    have "still db (snd (RunRepo_Get (wi_LockedByRunID w) db))" by (rule silent_snd) (rule silent)
    then have "still db db1" by (simp add: g)
    then show ?thesis using False by (cases r) (simp_all add: lock_owner_def g)
  qed (simp add: lock_owner_def)
qed

subsection \<open>Reads and writes\<close>

lemma view_still: "still db db' \<Longrightarrow> task_view_of db' = task_view_of db" "still db db' \<Longrightarrow> ids_ok db' \<longleftrightarrow> ids_ok db"
  by (simp_all add: still_def task_view_of_def runs_map_def locks_map_def ids_ok_def)

lemma find_by_id: "distinct (map f xs) \<Longrightarrow> x \<in> set xs \<Longrightarrow> List.find (\<lambda>y. f y = f x) xs = Some x"
  by (induction xs) (auto simp: rev_image_eqI)

lemma item_get:
  assumes "WorkItemRepo_Get i db = (Inr w, db')"
  shows "w \<in> set (db_items db)" "wi_ID w = i"
proof -
  obtain t where "(case List.find (\<lambda>w. wi_ID w = i) (db_items db) of None \<Rightarrow> Inl ErrNotFound | Some w \<Rightarrow> Inr w) = Inr w"
    using assms unfolding WorkItemRepo_Get_def by (cases rule: query_stmt_cases) auto
  then show "w \<in> set (db_items db)" "wi_ID w = i" by (auto simp: find_Some_iff split: option.splits)
qed

lemma run_get:
  assumes "RunRepo_Get i db = (Inr r, db')"
  shows "r \<in> set (db_runs db)" "rn_ID r = i"
proof -
  obtain t where "(case List.find (\<lambda>r. rn_ID r = i) (db_runs db) of None \<Rightarrow> Inl ErrNotFound | Some r \<Rightarrow> Inr r) = Inr r"
    using assms unfolding RunRepo_Get_def by (cases rule: query_stmt_cases) auto
  then show "r \<in> set (db_runs db)" "rn_ID r = i" by (auto simp: find_Some_iff split: option.splits)
qed

lemma run_missing:
  assumes "RunRepo_Get i db = (Inl ErrNotFound, db')"
  shows "runs_map db i = None"
  using assms unfolding RunRepo_Get_def
  by (cases rule: query_stmt_cases) (auto simp: dbError_def find_None_iff runs_map_def map_of_eq_None_iff split: option.splits)

lemma runs_map_in: "ids_ok db \<Longrightarrow> r \<in> set (db_runs db) \<Longrightarrow> runs_map db (rn_ID r) = Some (rn_WorkItemID r, rn_Status r)"
  unfolding runs_map_def ids_ok_def by (intro map_of_is_SomeI) (auto simp: comp_def image_image intro!: rev_image_eqI)

lemma locks_map_in: "ids_ok db \<Longrightarrow> w \<in> set (db_items db) \<Longrightarrow> locks_map db (wi_ID w) = Some (isTaskWorkItem w, wi_LockedByRunID w)"
  unfolding locks_map_def ids_ok_def by (intro map_of_is_SomeI) (auto simp: comp_def image_image intro!: rev_image_eqI)

lemma locks_map_Some: "locks_map db i = Some x \<Longrightarrow> \<exists>w \<in> set (db_items db). wi_ID w = i \<and> x = (isTaskWorkItem w, wi_LockedByRunID w)"
  unfolding locks_map_def by (drule map_of_SomeD) auto

lemma map_of_update_row:
  assumes "distinct (map key xs)" and "x \<in> set xs" and "h x"
    and "\<And>y. y \<in> set xs \<Longrightarrow> h y \<Longrightarrow> key y = key x" and "\<And>y. key (g y) = key y"
  shows "map_of (map (\<lambda>y. (key y, v y)) (map (\<lambda>y. if h y then g y else y) xs)) =
    (map_of (map (\<lambda>y. (key y, v y)) xs))(key x \<mapsto> v (g x))"
  using assms
proof (induction xs)
  case (Cons a xs)
  show ?case
  proof (cases "h a")
    case True
    then have k: "key a = key x" using Cons.prems(4) by simp
    have "x \<notin> set xs"
    proof
      assume "x \<in> set xs"
      then have "key x \<in> set (map key xs)" by simp
      with Cons.prems(1) k show False by simp
    qed
    then have ax: "a = x" using Cons.prems(2) by simp
    have "\<not> h y" if "y \<in> set xs" for y
    proof
      assume "h y"
      then have "key y = key a" using Cons.prems(4) that k by simp
      then have "key a \<in> set (map key xs)" using that by (metis image_eqI set_map)
      with Cons.prems(1) show False by simp
    qed
    then have "map (\<lambda>y. if h y then g y else y) xs = xs" by (simp add: map_idI)
    then show ?thesis using True ax Cons.prems(5) by (auto simp: fun_eq_iff)
  next
    case False
    then have "x \<in> set xs" "a \<noteq> x" using Cons.prems(2,3) by auto
    then have ne: "key a \<noteq> key x" using Cons.prems(1) by (metis distinct.simps(2) image_eqI list.map(2) set_map)
    have IH: "map_of (map (\<lambda>y. (key y, v y)) (map (\<lambda>y. if h y then g y else y) xs)) =
      (map_of (map (\<lambda>y. (key y, v y)) xs))(key x \<mapsto> v (g x))"
    proof (rule Cons.IH [OF _ \<open>x \<in> set xs\<close> Cons.prems(3) _ Cons.prems(5)])
      show "distinct (map key xs)" using Cons.prems(1) by simp
      show "key y = key x" if "y \<in> set xs" "h y" for y using that by (intro Cons.prems(4)) simp_all
    qed
    show ?thesis by (simp only: list.map if_not_P [OF False] map_of.simps fst_conv snd_conv IH fun_upd_twist [OF ne [symmetric]])
  qed
qed simp

lemma map_update_row_key: "(\<And>y. key (g y) = key y) \<Longrightarrow> map key (map (\<lambda>y. if h y then g y else y) xs) = map key xs"
  by simp

lemma item_update:
  assumes u: "WorkItemRepo_Update w' v db = (Inr x, db')" and ok: "ids_ok db"
    and w: "w \<in> set (db_items db)" "wi_ID w' = wi_ID w"
  shows "locks_map db' = (locks_map db)(wi_ID w \<mapsto> (isTaskWorkItem w, wi_LockedByRunID w'))"
    and "db_runs db' = db_runs db" and "ids_ok db'"
    and "w = row \<Longrightarrow> wi_Version row = v"
proof -
  let ?hit = "\<lambda>row. wi_ID row = wi_ID w' \<and> wi_Version row = v"
  obtain b t where env: "cn_env db (cn_step db) = (b, t)" by (cases "cn_env db (cn_step db)")
  have e: "(if list_ex ?hit (db_items db) then Inr () else Inl ErrVersionConflict,
      db\<lparr>cn_step := Suc (cn_step db), db_items := map (\<lambda>row. if ?hit row then written_item w' t row else row) (db_items db)\<rparr>)
      = (Inr x, db')"
    using u by (simp add: WorkItemRepo_Update_def exec_stmt_def Let_def env split: if_splits)
  then have d: "list_ex ?hit (db_items db)"
    and it: "db_items db' = map (\<lambda>row. if ?hit row then written_item w' t row else row) (db_items db)"
    and rn: "db_runs db' = db_runs db"
    by (auto split: if_splits)
  have dist: "distinct (map wi_ID (db_items db))" using ok by (simp add: ids_ok_def)
  obtain y where y: "y \<in> set (db_items db)" "?hit y" using d by (auto simp: list_ex_iff)
  have "y = w" using dist y w by (metis distinct_map inj_on_eq_iff)
  then have h: "?hit w" using y by simp
  then show "w = row \<Longrightarrow> wi_Version row = v" by simp
  show "db_runs db' = db_runs db" by (rule rn)
  have k: "wi_ID (written_item w' t row) = wi_ID row" for row by (simp add: written_item_def)
  have "map_of (map (\<lambda>w. (wi_ID w, (isTaskWorkItem w, wi_LockedByRunID w))) (db_items db')) =
    (map_of (map (\<lambda>w. (wi_ID w, (isTaskWorkItem w, wi_LockedByRunID w))) (db_items db)))
      (wi_ID w \<mapsto> (isTaskWorkItem (written_item w' t w), wi_LockedByRunID (written_item w' t w)))"
    unfolding it 
  proof (rule map_of_update_row [where h = ?hit and g = "written_item w' t" and key = wi_ID and x = w
        and v = "\<lambda>w. (isTaskWorkItem w, wi_LockedByRunID w)", OF dist w(1) h _ k])
    show "wi_ID y = wi_ID w" if "?hit y" for y using that w(2) by simp
  qed
  moreover have "isTaskWorkItem (written_item w' t w) = isTaskWorkItem w" "wi_LockedByRunID (written_item w' t w) = wi_LockedByRunID w'"
    by (simp_all add: written_item_def isTaskWorkItem_def workItemRecordKind_def)
  ultimately show "locks_map db' = (locks_map db)(wi_ID w \<mapsto> (isTaskWorkItem w, wi_LockedByRunID w'))"
    by (simp add: locks_map_def)
  have "map wi_ID (db_items db') = map wi_ID (db_items db)" unfolding it by (rule map_update_row_key) (rule k)
  then show "ids_ok db'" using ok by (simp add: ids_ok_def rn)
qed

lemma run_update:
  assumes u: "RunRepo_Update r' v db = (Inr x, db')" and ok: "ids_ok db"
    and r: "r \<in> set (db_runs db)" "rn_ID r' = rn_ID r"
  shows "runs_map db' = (runs_map db)(rn_ID r \<mapsto> (rn_WorkItemID r, rn_Status r'))"
    and "db_items db' = db_items db" and "ids_ok db'" and "\<exists>t. written_run r' t r \<in> set (db_runs db')"
proof -
  let ?hit = "\<lambda>row. rn_ID row = rn_ID r' \<and> rn_Version row = v"
  obtain b t where env: "cn_env db (cn_step db) = (b, t)" by (cases "cn_env db (cn_step db)")
  have e: "(if list_ex ?hit (db_runs db) then Inr () else Inl ErrVersionConflict,
      db\<lparr>cn_step := Suc (cn_step db), db_runs := map (\<lambda>row. if ?hit row then written_run r' t row else row) (db_runs db)\<rparr>)
      = (Inr x, db')"
    using u by (simp add: RunRepo_Update_def exec_stmt_def Let_def env split: if_splits)
  then have d: "list_ex ?hit (db_runs db)"
    and rn: "db_runs db' = map (\<lambda>row. if ?hit row then written_run r' t row else row) (db_runs db)"
    and it: "db_items db' = db_items db"
    by (auto split: if_splits)
  have dist: "distinct (map rn_ID (db_runs db))" using ok by (simp add: ids_ok_def)
  obtain y where y: "y \<in> set (db_runs db)" "?hit y" using d by (auto simp: list_ex_iff)
  have "y = r" using dist y r by (metis distinct_map inj_on_eq_iff)
  then have h: "?hit r" using y by simp
  show "db_items db' = db_items db" by (rule it)
  have "(if ?hit r then written_run r' t r else r) \<in> set (db_runs db')" using r(1) by (simp only: rn set_map image_iff) blast
  then show "\<exists>t. written_run r' t r \<in> set (db_runs db')" by (simp only: if_P [OF h]) blast
  have k: "rn_ID (written_run r' t row) = rn_ID row" for row by (simp add: written_run_def)
  have "map_of (map (\<lambda>r. (rn_ID r, (rn_WorkItemID r, rn_Status r))) (db_runs db')) =
    (map_of (map (\<lambda>r. (rn_ID r, (rn_WorkItemID r, rn_Status r))) (db_runs db)))
      (rn_ID r \<mapsto> (rn_WorkItemID (written_run r' t r), rn_Status (written_run r' t r)))"
    unfolding rn 
  proof (rule map_of_update_row [where h = ?hit and g = "written_run r' t" and key = rn_ID and x = r
        and v = "\<lambda>r. (rn_WorkItemID r, rn_Status r)", OF dist r(1) h _ k])
    show "rn_ID y = rn_ID r" if "?hit y" for y using that r(2) by simp
  qed
  then show "runs_map db' = (runs_map db)(rn_ID r \<mapsto> (rn_WorkItemID r, rn_Status r'))"
    by (simp add: runs_map_def written_run_def)
  have "map rn_ID (db_runs db') = map rn_ID (db_runs db)" unfolding rn by (rule map_update_row_key) (rule k)
  moreover from this have "rn_ID ` set (db_runs db') = rn_ID ` set (db_runs db)" by (metis set_map)
  ultimately show "ids_ok db'" using ok by (simp add: ids_ok_def it)
qed

subsection \<open>Errors that are not about the lock\<close>

definition plain :: "('db \<Rightarrow> (go_error + 'a) \<times> 'db) \<Rightarrow> bool" where
  "plain f \<longleftrightarrow> (\<forall>db e db'. f db = (Inl e, db') \<longrightarrow> \<not> is_locked e)"

named_theorems plain

lemma plainD: "plain f \<Longrightarrow> f db = (Inl e, db') \<Longrightarrow> \<not> is_locked e"
  by (auto simp: plain_def)

lemma plain_return [plain]: "plain (returnM x)"
  by (simp add: plain_def returnM_def)

lemma plain_fail: "\<not> is_locked e \<Longrightarrow> plain (failM e)"
  by (simp add: plain_def failM_def)

lemma plain_check: "(\<And>e. c = Some e \<Longrightarrow> \<not> is_locked e) \<Longrightarrow> plain (checkM c)"
  by (auto simp: plain_def checkM_def split: option.splits)

lemma plain_kind [plain]: "plain (checkM (requireValidWorkItemRecordKind w))"
  by (rule plain_check) (auto simp: requireValidWorkItemRecordKind_def require_def is_locked_def split: if_splits)

lemma plain_bind [plain]: "plain f \<Longrightarrow> (\<And>x. plain (g x)) \<Longrightarrow> plain (bindM f g)"
  unfolding plain_def by (metis bindM_cases sum.inject(1))

lemma plain_read [plain]: "(\<And>x. plain (g x)) \<Longrightarrow> plain (readM f g)"
  by (simp add: plain_def readM_def)

lemma plain_try [plain]: "plain (tryM f)"
  by (auto simp: plain_def tryM_def split: prod.splits sum.splits)

lemma plain_if [plain]: "plain f \<Longrightarrow> plain g \<Longrightarrow> plain (if b then f else g)"
  by simp

lemma plain_option [plain]: "plain f \<Longrightarrow> (\<And>x. plain (g x)) \<Longrightarrow> plain (case y of None \<Rightarrow> f | Some x \<Rightarrow> g x)"
  by (cases y) auto

lemma not_locked [simp]: "\<not> is_locked dbError" "\<not> is_locked ErrNotFound" "\<not> is_locked ErrVersionConflict"
  "\<not> is_locked (ErrOther s)" "\<not> is_locked ErrIdempotencyConflict" "\<not> is_locked (ErrValidation s)" "\<not> is_locked (ErrTransition a b c)"
  by (simp_all add: is_locked_def dbError_def)

lemma plain_exec: "(\<And>t db e. fst (f t db) = Inl e \<Longrightarrow> \<not> is_locked e) \<Longrightarrow> plain (exec_stmt f)"
  unfolding plain_def by (metis exec_stmt_cases fst_conv not_locked(1) sum.inject(1))

lemma plain_statements [plain]:
  fixes ev :: CanonicalEvent
  shows "plain (insert_run_event ev re)" "plain (insert_stream ev p)" "plain (insert_outbox ev p)"
    "plain (EventRepo_AppendActivityFor ws wi k m)" "plain (WorkItemRepo_Update w v)" "plain (WorkItemRepo_Get i)"
  unfolding insert_run_event_def insert_stream_def insert_outbox_def EventRepo_AppendActivityFor_def
    WorkItemRepo_Update_def WorkItemRepo_Get_def query_stmt_def
  by (rule plain_exec; auto simp: Let_def split: if_splits option.splits)+

lemma plain_append [plain]: "plain (EventRepo_Append cd ev re)"
  unfolding EventRepo_Append_def by (intro plain plain_fail) simp_all

lemma plainI: "(\<And>db e db'. f db = (Inl e, db') \<Longrightarrow> \<not> is_locked e) \<Longrightarrow> plain f"
  by (auto simp: plain_def)

lemma plain_emit [plain]: "plain (emit S ws ty at ai v re data)"
proof (rule plainI)
  fix db :: "'a RunDb_scheme" and e db'
  assume a: "emit S ws ty at ai v re data db = (Inl e, db')"
  show "\<not> is_locked e"
  proof (cases "NewCanonicalEvent (rs_NewID S db) (nowM db) ws ty at ai v (if re = None then data else withoutAgentID data)")
    case (Inl e1)
    then have "\<not> is_locked e1" by (auto simp: NewCanonicalEvent_def split: if_splits)
    then show ?thesis using a by (simp add: emit_def Service_emit_def Inl failM_def)
  next
    case (Inr ev)
    have s: "plain (bindM (EventRepo_Append cd ev' re') (\<lambda>_. returnM ()))" for cd ev' re' by (intro plain)
    show ?thesis using a unfolding emit_def Service_emit_def Let_def Inr sum.case by (rule plainD [OF s])
  qed
qed

lemma plain_activityFor [plain]: "plain (activityFor S ws wi k m)"
  unfolding activityFor_def Let_def by (intro plain)

lemma plain_take_lock [plain]: "plain (take_lock S r w p)"
  unfolding take_lock_def lock_event_def Let_def by (intro plain)

subsection \<open>The lock\<close>

definition ended :: "(string \<rightharpoonup> string \<times> RunStatus) \<Rightarrow> string \<Rightarrow> bool" where
  "ended R i \<longleftrightarrow> (case R i of None \<Rightarrow> False | Some (w, s) \<Rightarrow> RunStatus_IsTerminal s)"

text \<open>Nobody holds the lock, or a run that is gone or terminal.\<close>

definition free_lock :: "(string \<rightharpoonup> string \<times> RunStatus) \<Rightarrow> string \<Rightarrow> bool" where
  "free_lock R i \<longleftrightarrow> i = '''' \<or> R i = None \<or> ended R i"

definition release_lock :: "string \<Rightarrow> string \<Rightarrow> (string \<rightharpoonup> bool \<times> string) \<Rightarrow> (string \<rightharpoonup> bool \<times> string)" where
  "release_lock w i L = (if L w = Some (True, i) then L(w \<mapsto> (True, '''')) else L)"

lemma lock_owner_free:
  assumes "lock_owner w db = (Inr p, db')" and "ids_ok db"
  shows "free_lock (runs_map db) (wi_LockedByRunID w)"
proof (cases "wi_LockedByRunID w = ''''")
  case False
  obtain g db1 where g: "RunRepo_Get (wi_LockedByRunID w) db = (g, db1)" by (cases "RunRepo_Get (wi_LockedByRunID w) db")
  show ?thesis
  proof (cases g)
    case (Inl e)
    then have "e = ErrNotFound" using assms(1) False by (auto simp: lock_owner_def g split: if_splits)
    then show ?thesis using run_missing g Inl by (auto simp: free_lock_def)
  next
    case (Inr r)
    then have "RunStatus_IsTerminal (rn_Status r)" using assms(1) False by (auto simp: lock_owner_def g split: if_splits)
    moreover have "runs_map db (wi_LockedByRunID w) = Some (rn_WorkItemID r, rn_Status r)"
      using runs_map_in [OF assms(2)] run_get [of _ db r db1] g Inr by metis
    ultimately show ?thesis by (simp add: free_lock_def ended_def)
  qed
qed (simp add: free_lock_def)

lemma lock_owner_live:
  assumes "lock_owner w db = (Inl (ErrWorkItemLocked i), db')" and "ids_ok db"
  shows "i = wi_LockedByRunID w \<and> \<not> free_lock (runs_map db) i"
proof -
  have ne: "wi_LockedByRunID w \<noteq> ''''" using assms(1) by (auto simp: lock_owner_def)
  obtain g db1 where g: "RunRepo_Get (wi_LockedByRunID w) db = (g, db1)" by (cases "RunRepo_Get (wi_LockedByRunID w) db")
  have pl: "\<not> is_locked e" if "g = Inl e" for e
    using g that unfolding RunRepo_Get_def by (auto elim!: query_stmt_cases split: option.splits)
  show ?thesis
  proof (cases g)
    case (Inl e)
    then show ?thesis using assms(1) ne pl [OF Inl] by (auto simp: lock_owner_def is_locked_def g split: if_splits)
  next
    case (Inr r)
    then have "\<not> RunStatus_IsTerminal (rn_Status r)" "i = wi_LockedByRunID w"
      using assms(1) ne by (auto simp: lock_owner_def g split: if_splits)
    moreover have "runs_map db (wi_LockedByRunID w) = Some (rn_WorkItemID r, rn_Status r)"
      using runs_map_in [OF assms(2)] run_get [of _ db r db1] g Inr by metis
    ultimately show ?thesis using ne by (simp add: free_lock_def ended_def)
  qed
qed

lemma bindM_ok:
  assumes "bindM f g db = (Inr x, db')"
  obtains y db1 where "f db = (Inr y, db1)" "g y db1 = (Inr x, db')"
  using assms by (cases rule: bindM_cases) auto

lemma stillD: "still db db' \<Longrightarrow> runs_map db' = runs_map db \<and> locks_map db' = locks_map db \<and> ids_ok db' = ids_ok db"
  by (simp add: still_def runs_map_def locks_map_def ids_ok_def)

lemma check_bind: "bindM (checkM c) (\<lambda>_. g) db = (Inr u, db') \<Longrightarrow> c = None \<and> g db = (Inr u, db')"
  by (cases c) (simp_all add: bindM_def checkM_def)

lemma get_item_row:
  assumes g: "WorkItemRepo_Get i db = (Inr w, db')" and ok: "ids_ok db"
  shows "still db db'" "w \<in> set (db_items db')" "wi_ID w = i" "ids_ok db'"
    "locks_map db i = Some (isTaskWorkItem w, wi_LockedByRunID w)"
proof -
  have "still db (snd (WorkItemRepo_Get i db))" by (rule silent_snd) (rule silent)
  then show s: "still db db'" by (simp only: g snd_conv)
  show "w \<in> set (db_items db')" using item_get(1) [OF g] s by (simp only: still_def)
  show i: "wi_ID w = i" by (rule item_get(2) [OF g])
  show "ids_ok db'" using stillD [OF s] ok by simp
  show "locks_map db i = Some (isTaskWorkItem w, wi_LockedByRunID w)"
    using locks_map_in [OF ok item_get(1) [OF g]] by (simp only: i)
qed

lemma acquire_effect:
  assumes a: "acquireTaskLock S r db = (Inr u, db')" and ok: "ids_ok db"
  shows "\<exists>t i. locks_map db (rn_WorkItemID r) = Some (t, i) \<and> runs_map db' = runs_map db \<and> ids_ok db' \<and>
    db_runs db' = db_runs db \<and>
    (if t \<and> i \<noteq> rn_ID r \<or> t \<and> rn_ID r = ''''
     then free_lock (runs_map db) i \<and> locks_map db' = (locks_map db)(rn_WorkItemID r \<mapsto> (True, rn_ID r))
     else locks_map db' = locks_map db)"
proof -
  obtain w db1 where g: "WorkItemRepo_Get (rn_WorkItemID r) db = (Inr w, db1)"
    and rest: "bindM (checkM (requireValidWorkItemRecordKind w)) (\<lambda>_.
       if \<not> isTaskWorkItem w then returnM ()
       else if WorkItem_HoldsLock w (rn_ID r) then returnM ()
       else bindM (lock_owner w) (take_lock S r w)) db1 = (Inr u, db')"
    using a unfolding acquireTaskLock_def by (rule bindM_ok)
  note row = get_item_row [OF g ok]
  from rest have b: "(if \<not> isTaskWorkItem w then returnM () else if WorkItem_HoldsLock w (rn_ID r) then returnM ()
       else bindM (lock_owner w) (take_lock S r w)) db1 = (Inr u, db')"
    by (rule check_bind [THEN conjunct2])
  have same: "runs_map db1 = runs_map db" "locks_map db1 = locks_map db" "db_runs db1 = db_runs db"
    using stillD [OF row(1)] row(1) by (simp_all add: still_def)
  show ?thesis
  proof (cases "isTaskWorkItem w \<and> \<not> WorkItem_HoldsLock w (rn_ID r)")
    case False
    then have "db' = db1" using b by (auto split: if_splits)
    then show ?thesis using False row(4,5) same by (auto simp: WorkItem_HoldsLock_def)
  next
    case True
    then have "bindM (lock_owner w) (take_lock S r w) db1 = (Inr u, db')" using b by simp
    then obtain p db2 where lo: "lock_owner w db1 = (Inr p, db2)" and tl: "take_lock S r w p db2 = (Inr u, db')"
      by (rule bindM_ok)
    have free: "free_lock (runs_map db) (wi_LockedByRunID w)" using lock_owner_free [OF lo row(4)] same by simp
    have "still db1 (snd (lock_owner w db1))" by (rule silent_snd) (rule silent)
    then have s2: "still db1 db2" by (simp only: lo snd_conv)
    let ?w' = "w\<lparr>wi_LockedByRunID := rn_ID r, wi_LockedAt := Some (nowM db2), wi_Version := inc64 (wi_Version w), wi_UpdatedAt := nowM db2\<rparr>"
    obtain y db3 where up: "WorkItemRepo_Update ?w' (wi_Version w) db2 = (Inr y, db3)"
      and em: "lock_event S r ?w' p db3 = (Inr u, db')"
      using tl unfolding take_lock_def readM_def Let_def by (rule bindM_ok)
    have s3: "still db3 db'" by (rule silentD [OF silent_lock_event em])
    have w2: "w \<in> set (db_items db2)" "ids_ok db2" using row(2,4) s2 stillD [OF s2] by (simp_all add: still_def)
    have "wi_ID ?w' = wi_ID w" by simp
    note eff = item_update [OF up w2(2,1) this]
    have "isTaskWorkItem w" using True by simp
    then have "locks_map db' = (locks_map db)(rn_WorkItemID r \<mapsto> (True, rn_ID r))"
      using eff(1) stillD [OF s2] stillD [OF s3] same row(3) by simp
    moreover have r: "db_runs db' = db_runs db" "ids_ok db'"
      using eff(2,3) s2 s3 stillD [OF s3] same(3) by (simp_all add: still_def)
    moreover from r(1) have "runs_map db' = runs_map db" by (simp add: runs_map_def)
    ultimately show ?thesis using True row(5) free by (auto simp: WorkItem_HoldsLock_def)
  qed
qed

lemma release_effect:
  assumes a: "releaseTaskLock r db = (Inr u, db')" and ok: "ids_ok db" and r: "rn_ID r \<noteq> ''''"
  shows "db_runs db' = db_runs db \<and> ids_ok db' \<and> locks_map db' = release_lock (rn_WorkItemID r) (rn_ID r) (locks_map db)"
proof -
  obtain w db1 where g: "WorkItemRepo_Get (rn_WorkItemID r) db = (Inr w, db1)"
    and rest: "bindM (checkM (requireValidWorkItemRecordKind w)) (\<lambda>_.
       if \<not> isTaskWorkItem w then returnM ()
       else if \<not> WorkItem_HoldsLock w (rn_ID r) then returnM ()
       else readM nowM (\<lambda>now. WorkItemRepo_Update
         (w\<lparr>wi_LockedByRunID := '''', wi_LockedAt := None, wi_Version := inc64 (wi_Version w), wi_UpdatedAt := now\<rparr>)
         (wi_Version w))) db1 = (Inr u, db')"
    using a unfolding releaseTaskLock_def by (rule bindM_ok)
  note row = get_item_row [OF g ok]
  have same: "runs_map db1 = runs_map db" "locks_map db1 = locks_map db" "db_runs db1 = db_runs db"
    using stillD [OF row(1)] row(1) by (simp_all add: still_def)
  note b = check_bind [OF rest, THEN conjunct2]
  show ?thesis
  proof (cases "isTaskWorkItem w \<and> WorkItem_HoldsLock w (rn_ID r)")
    case False
    then have "db' = db1" using b by (auto split: if_splits)
    moreover have "release_lock (rn_WorkItemID r) (rn_ID r) (locks_map db) = locks_map db"
      using False row(5) r by (auto simp: release_lock_def WorkItem_HoldsLock_def)
    ultimately show ?thesis using row(4) same by simp
  next
    case True
    let ?w' = "w\<lparr>wi_LockedByRunID := '''', wi_LockedAt := None, wi_Version := inc64 (wi_Version w), wi_UpdatedAt := nowM db1\<rparr>"
    have up: "WorkItemRepo_Update ?w' (wi_Version w) db1 = (Inr u, db')"
      using b True by (simp add: readM_def)
    have "wi_ID ?w' = wi_ID w" by simp
    note eff = item_update [OF up row(4,2) this]
    have "release_lock (rn_WorkItemID r) (rn_ID r) (locks_map db) = (locks_map db)(rn_WorkItemID r \<mapsto> (True, ''''))"
      using True row(5) by (auto simp: release_lock_def WorkItem_HoldsLock_def)
    then show ?thesis using eff(1-3) same True row(3) by simp
  qed
qed

lemma review_lock: "WorkItem_EnterReview w now = Inr w' \<Longrightarrow> wi_ID w' = wi_ID w \<and> wi_LockedByRunID w' = wi_LockedByRunID w"
  by (auto simp: WorkItem_EnterReview_def WorkItem_bump_def split: if_splits)

lemma review_effect:
  assumes a: "project_review S r db = (Inr u, db')" and ok: "ids_ok db"
  shows "db_runs db' = db_runs db \<and> ids_ok db' \<and> locks_map db' = locks_map db"
proof -
  obtain w db1 where g: "WorkItemRepo_Get (rn_WorkItemID r) db = (Inr w, db1)"
    and rest: "(if wi_Status w = WorkItemInProgress \<and> wi_Phase w \<noteq> PhaseReview then
       readM nowM (\<lambda>now. case WorkItem_EnterReview w now of
           Inl e \<Rightarrow> returnM ()
         | Inr w' \<Rightarrow> bindM (WorkItemRepo_Update w' (wrap64 (wi_Version w' - 1))) (\<lambda>_.
             emit S (wi_WorkspaceID w') ''work_item.updated'' ''work_item'' (wi_ID w') (wi_Version w') None
               [(''phase'', VStr ''review''), (''record_kind'', kind_value w')]))
     else returnM ()) db1 = (Inr u, db')"
    using a unfolding project_review_def by (rule bindM_ok)
  note row = get_item_row [OF g ok]
  have same: "runs_map db1 = runs_map db" "locks_map db1 = locks_map db" "db_runs db1 = db_runs db"
    using stillD [OF row(1)] row(1) by (simp_all add: still_def)
  show ?thesis
  proof (cases "wi_Status w = WorkItemInProgress \<and> wi_Phase w \<noteq> PhaseReview")
    case False
    then have "db' = db1" using rest by (simp split: if_splits)
    then show ?thesis using same row(4) by simp
  next
    case True
    show ?thesis
    proof (cases "WorkItem_EnterReview w (nowM db1)")
      case (Inl e)
      then have "db' = db1" using rest True by (simp add: readM_def)
      then show ?thesis using same row(4) by simp
    next
      case (Inr w')
      then have "bindM (WorkItemRepo_Update w' (wrap64 (wi_Version w' - 1))) (\<lambda>_.
             emit S (wi_WorkspaceID w') ''work_item.updated'' ''work_item'' (wi_ID w') (wi_Version w') None
               [(''phase'', VStr ''review''), (''record_kind'', kind_value w')]) db1 = (Inr u, db')"
        using rest True by (simp add: readM_def)
      then obtain y db2 where up: "WorkItemRepo_Update w' (wrap64 (wi_Version w' - 1)) db1 = (Inr y, db2)"
        and em: "emit S (wi_WorkspaceID w') ''work_item.updated'' ''work_item'' (wi_ID w') (wi_Version w') None
               [(''phase'', VStr ''review''), (''record_kind'', kind_value w')] db2 = (Inr u, db')"
        by (rule bindM_ok)
      have s: "still db2 db'" by (rule silentD [OF silent_emit em])
      note eff = item_update [OF up row(4,2) review_lock [OF Inr, THEN conjunct1]]
      have "locks_map db2 = locks_map db"
        using eff(1) row(3,5) same review_lock [OF Inr] by (auto simp: fun_eq_iff)
      then show ?thesis using eff(2,3) s stillD [OF s] same by (simp add: still_def)
    qed
  qed
qed

lemma after_update_effect:
  assumes a: "after_update S w from r to data db = (Inr u, db')" and ok: "ids_ok db" and r: "rn_ID r \<noteq> ''''"
  shows "db_runs db' = db_runs db \<and> ids_ok db' \<and>
    locks_map db' = (if isTaskWorkItem w \<and> RunStatus_IsTerminal to
      then release_lock (rn_WorkItemID r) (rn_ID r) (locks_map db) else locks_map db)"
proof -
  let ?ev = "emit S (rn_WorkspaceID r) (status_event to) ''execution_run'' (rn_ID r) (rn_Version r)
         (Some \<lparr>er_RunID = rn_ID r, er_AgentID = '''', er_EventType = status_event to, er_Payload = withWorkItemRecordKind data w\<rparr>)
         [(''from'', VStr (RunStatus_text from)), (''status'', VStr (RunStatus_text to)), (''record_kind'', kind_value w)]"
  let ?rel = "if isTaskWorkItem w \<and> RunStatus_IsTerminal to then releaseTaskLock r else returnM ()"
  let ?exp = "if RunStatus_IsTerminal to then expireRunPendingQuestions S r w else returnM 0"
  let ?st = "if run_started from to then
         emit S (rn_WorkspaceID r) ''run.started'' ''execution_run'' (rn_ID r) (rn_Version r)
           (Some \<lparr>er_RunID = rn_ID r, er_AgentID = '''', er_EventType = ''run.started'', er_Payload = [(''record_kind'', kind_value w)]\<rparr>)
           [(''record_kind'', kind_value w)]
       else returnM ()"
  let ?pr = "if rn_AgentProfileID r = '''' then returnM ()
            else if to = RunRunning then projectAgentPresence S r PresenceBusy
            else if RunStatus_IsTerminal to then projectAgentPresence S r PresenceIdle
            else returnM ()"
  let ?rev = "if isTaskWorkItem w \<and> to = RunSucceeded \<and> \<not> coordinatorRunDefersReview r then project_review S r else returnM ()"
  obtain y1 db1 where 1: "?ev db = (Inr y1, db1)"
    and r1: "bindM ?rel (\<lambda>_. bindM ?exp (\<lambda>_. bindM ?st (\<lambda>_. bindM ?pr (\<lambda>_. ?rev)))) db1 = (Inr u, db')"
    using a unfolding after_update_def by (rule bindM_ok)
  obtain y2 db2 where 2: "?rel db1 = (Inr y2, db2)"
    and r2: "bindM ?exp (\<lambda>_. bindM ?st (\<lambda>_. bindM ?pr (\<lambda>_. ?rev))) db2 = (Inr u, db')"
    using r1 by (rule bindM_ok)
  obtain y3 db3 where 3: "?exp db2 = (Inr y3, db3)"
    and r3: "bindM ?st (\<lambda>_. bindM ?pr (\<lambda>_. ?rev)) db3 = (Inr u, db')"
    using r2 by (rule bindM_ok)
  obtain y4 db4 where 4: "?st db3 = (Inr y4, db4)" and r4: "bindM ?pr (\<lambda>_. ?rev) db4 = (Inr u, db')"
    using r3 by (rule bindM_ok)
  obtain y5 db5 where 5: "?pr db4 = (Inr y5, db5)" and r5: "?rev db5 = (Inr u, db')"
    using r4 by (rule bindM_ok)
  have s1: "still db db1" by (rule silentD [OF silent_emit 1])
  have ok1: "ids_ok db1" using stillD [OF s1] ok by simp
  have e2: "db_runs db2 = db_runs db1 \<and> ids_ok db2 \<and> locks_map db2 = (if isTaskWorkItem w \<and> RunStatus_IsTerminal to
      then release_lock (rn_WorkItemID r) (rn_ID r) (locks_map db1) else locks_map db1)"
    using 2 release_effect [OF _ ok1 r] ok1 by (auto split: if_splits)
  have "still db2 (snd (?exp db2))" by (rule silent_snd) (intro silent)
  then have s3: "still db2 db3" by (simp only: 3 snd_conv)
  have "still db3 (snd (?st db3))" by (rule silent_snd) (intro silent)
  then have s4: "still db3 db4" by (simp only: 4 snd_conv)
  have "still db4 (snd (?pr db4))" by (rule silent_snd) (intro silent)
  then have s5: "still db4 db5" by (simp only: 5 snd_conv)
  have s: "still db2 db5" using s3 s4 s5 by (simp add: still_def)
  have ok5: "ids_ok db5" using stillD [OF s] e2 by simp
  have e6: "db_runs db' = db_runs db5 \<and> ids_ok db' \<and> locks_map db' = locks_map db5"
    using r5 review_effect [OF _ ok5] ok5 by (auto split: if_splits)
  have "db_runs db' = db_runs db" using s1 e2 s e6 by (simp add: still_def)
  then show ?thesis using stillD [OF s1] e2 stillD [OF s] e6 by simp
qed

lemma Transition_ok:
  assumes "ExecutionRun_Transition r to now = Inr r'"
  shows "RunStatus_CanTransitionTo (rn_Status r) to \<and> \<not> RunStatus_IsTerminal (rn_Status r) \<and> rn_Status r' = to \<and>
    rn_ID r' = rn_ID r \<and> rn_WorkItemID r' = rn_WorkItemID r"
  using assms by (auto simp: ExecutionRun_Transition_def ExecutionRun_bump_def Let_def split: if_splits)

lemma with_failure_same [simp]:
  "rn_Status (with_failure data r) = rn_Status r" "rn_ID (with_failure data r) = rn_ID r"
  "rn_WorkItemID (with_failure data r) = rn_WorkItemID r"
  by (simp_all add: with_failure_def Let_def split: option.splits)

lemma move_run_effect:
  assumes a: "move_run S w r to data db = (Inr u, db')" and ok: "ids_ok db"
    and r: "r \<in> set (db_runs db)" and ren: "\<And>r. silent (rs_RenewDelegated S r)"
  shows "RunStatus_CanTransitionTo (rn_Status r) to \<and> \<not> RunStatus_IsTerminal (rn_Status r) \<and>
    runs_map db' = (runs_map db)(rn_ID r \<mapsto> (rn_WorkItemID r, to)) \<and> ids_ok db' \<and>
    locks_map db' = (if isTaskWorkItem w \<and> RunStatus_IsTerminal to
      then release_lock (rn_WorkItemID r) (rn_ID r) (locks_map db) else locks_map db) \<and>
    (to = RunFailed \<and> string_or_empty data ''code'' \<noteq> '''' \<longrightarrow>
      (\<exists>row \<in> set (db_runs db'). rn_ID row = rn_ID r \<and> rn_Failure row = Some \<lparr>rf_Code = string_or_empty data ''code'',
         rf_Message = string_or_empty data ''message'', rf_Retryable = (get_bool data ''retryable'' = Some True)\<rparr>))"
proof -
  let ?ren = "if isDelegatedCoordinatorRun r \<and> isTaskWorkItem w \<and> renews_delegated to then rs_RenewDelegated S r else returnM ()"
  obtain y db1 where 1: "?ren db = (Inr y, db1)" and rest: "readM nowM (\<lambda>now. case ExecutionRun_Transition r to now of
         Inl e \<Rightarrow> failM e
       | Inr r1 \<Rightarrow>
           (let r2 = (if to = RunFailed then with_failure data r1 else r1)
            in bindM (RunRepo_Update r2 (rn_Version r)) (\<lambda>_. after_update S w (rn_Status r) r2 to data))) db1 = (Inr u, db')"
    using a unfolding move_run_def by (rule bindM_ok)
  have "still db (snd (?ren db))" by (rule silent_snd) (intro silent ren)
  then have s1: "still db db1" by (simp only: 1 snd_conv)
  obtain r1 where t: "ExecutionRun_Transition r to (nowM db1) = Inr r1"
    using rest by (auto simp: readM_def split: sum.splits)
  let ?r2 = "if to = RunFailed then with_failure data r1 else r1"
  have "bindM (RunRepo_Update ?r2 (rn_Version r)) (\<lambda>_. after_update S w (rn_Status r) ?r2 to data) db1 = (Inr u, db')"
    using rest by (simp add: readM_def t Let_def)
  then obtain z db2 where up: "RunRepo_Update ?r2 (rn_Version r) db1 = (Inr z, db2)"
    and au: "after_update S w (rn_Status r) ?r2 to data db2 = (Inr u, db')" by (rule bindM_ok)
  note tr = Transition_ok [OF t]
  have in1: "r \<in> set (db_runs db1)" "ids_ok db1" using r s1 stillD [OF s1] ok by (simp_all add: still_def)
  have ne: "rn_ID r \<noteq> ''''" using ok r unfolding ids_ok_def by (metis imageI)
  have id2: "rn_ID ?r2 = rn_ID r" "rn_WorkItemID ?r2 = rn_WorkItemID r" "rn_Status ?r2 = to" using tr by simp_all
  note eff = run_update [OF up in1(2,1) id2(1)]
  have l2: "locks_map db2 = locks_map db1" using eff(2) by (simp add: locks_map_def)
  have "rn_ID ?r2 \<noteq> ''''" using id2(1) ne by simp
  note ae = after_update_effect [OF au eff(3) this]
  have "\<exists>row \<in> set (db_runs db'). rn_ID row = rn_ID r \<and> rn_Failure row = Some \<lparr>rf_Code = string_or_empty data ''code'',
         rf_Message = string_or_empty data ''message'', rf_Retryable = (get_bool data ''retryable'' = Some True)\<rparr>"
    if "to = RunFailed" "string_or_empty data ''code'' \<noteq> ''''"
  proof -
    obtain t where "written_run ?r2 t r \<in> set (db_runs db2)" using eff(4) by blast
    then have "written_run ?r2 t r \<in> set (db_runs db')" using ae by simp
    moreover have "rn_ID (written_run ?r2 t r) = rn_ID r" by (simp add: written_run_def)
    moreover have "rn_Failure (written_run ?r2 t r) = Some \<lparr>rf_Code = string_or_empty data ''code'',
         rf_Message = string_or_empty data ''message'', rf_Retryable = (get_bool data ''retryable'' = Some True)\<rparr>"
      using that by (simp add: written_run_def with_failure_def Let_def split: option.splits)
    ultimately show ?thesis by blast
  qed
  then show ?thesis using ae eff(1) l2 stillD [OF s1] tr id2 by (simp add: runs_map_def)
qed

section \<open>The lock protocol\<close>

text \<open>
  The specification: a run moves along its table; it starts to run on a task only with the lock
  of the task, which it takes when nobody alive holds it; it gives the lock back with its end; and
  a sweep may take locks from runs that have ended. Runs are created queued, items without a lock.
\<close>

inductive task_step :: "task_view \<Rightarrow> task_view \<Rightarrow> bool" where
  start: "R i = Some (w, s) \<Longrightarrow> RunStatus_CanTransitionTo s RunRunning \<Longrightarrow> run_started s RunRunning \<Longrightarrow>
    L w = Some (True, h) \<Longrightarrow> free_lock R h \<or> h = i \<Longrightarrow>
    task_step (R, L) (R(i \<mapsto> (w, RunRunning)), L(w \<mapsto> (True, i)))"
| move: "R i = Some (w, s) \<Longrightarrow> RunStatus_CanTransitionTo s to \<Longrightarrow> \<not> RunStatus_IsTerminal to \<Longrightarrow>
    \<not> run_started s to \<or> (\<forall>h. L w \<noteq> Some (True, h)) \<Longrightarrow> task_step (R, L) (R(i \<mapsto> (w, to)), L)"
| finish: "R i = Some (w, s) \<Longrightarrow> RunStatus_CanTransitionTo s to \<Longrightarrow> RunStatus_IsTerminal to \<Longrightarrow>
    task_step (R, L) (R(i \<mapsto> (w, to)), release_lock w i L)"
| sweep: "\<forall>w. L w = None \<longrightarrow> L' w = None \<Longrightarrow>
    \<forall>w t h. L w = Some (t, h) \<longrightarrow> L' w = Some (t, h) \<or> ended R h \<and> L' w = Some (t, '''') \<Longrightarrow>
    task_step (R, L) (R, L')"
| create: "R i = None \<Longrightarrow> i \<noteq> '''' \<Longrightarrow> task_step (R, L) (R(i \<mapsto> (w, RunQueued)), L)"
| add: "L w = None \<Longrightarrow> task_step (R, L) (R, L(w \<mapsto> (t, '''')))"

inductive_cases task_step_cases: "task_step (R, L) (R', L')"

lemma acquire_refused:
  assumes a: "acquireTaskLock S r db = (Inl e, db')" and e: "is_locked e" and ok: "ids_ok db"
  shows "still db db' \<and> (\<exists>i. e = ErrWorkItemLocked i \<and> locks_map db (rn_WorkItemID r) = Some (True, i) \<and>
    i \<noteq> rn_ID r \<and> \<not> free_lock (runs_map db) i)"
  using a unfolding acquireTaskLock_def
proof (rule bindM_cases)
  fix e'
  assume "WorkItemRepo_Get (rn_WorkItemID r) db = (Inl e', db')" "Inl e = Inl e'"
  then have "WorkItemRepo_Get (rn_WorkItemID r) db = (Inl e, db')" by simp
  then have "\<not> is_locked e" by (rule plainD [rotated]) (rule plain)
  with e show ?thesis by simp
next
  fix w db1
  assume g: "WorkItemRepo_Get (rn_WorkItemID r) db = (Inr w, db1)"
    and rest: "bindM (checkM (requireValidWorkItemRecordKind w)) (\<lambda>_.
       if \<not> isTaskWorkItem w then returnM ()
       else if WorkItem_HoldsLock w (rn_ID r) then returnM ()
       else bindM (lock_owner w) (take_lock S r w)) db1 = (Inl e, db')"
  note row = get_item_row [OF g ok]
  have valid: "requireValidWorkItemRecordKind w = None"
  proof (rule ccontr)
    assume "requireValidWorkItemRecordKind w \<noteq> None"
    then obtain x where x: "requireValidWorkItemRecordKind w = Some x" by blast
    then have "e = x" using rest by (simp add: bindM_def checkM_def)
    moreover have "\<not> is_locked x" using x by (auto simp: requireValidWorkItemRecordKind_def require_def split: if_splits)
    ultimately show False using e by simp
  qed
  then have b: "(if \<not> isTaskWorkItem w then returnM () else if WorkItem_HoldsLock w (rn_ID r) then returnM ()
       else bindM (lock_owner w) (take_lock S r w)) db1 = (Inl e, db')"
    using rest by (simp add: bindM_def checkM_def)
  then have task: "isTaskWorkItem w" "\<not> WorkItem_HoldsLock w (rn_ID r)" by (auto split: if_splits)
  then have "bindM (lock_owner w) (take_lock S r w) db1 = (Inl e, db')" using b by simp
  then show ?thesis
  proof (rule bindM_cases)
    fix e'
    assume lo: "lock_owner w db1 = (Inl e', db')" and "Inl e = Inl e'"
    then obtain i where i: "e = ErrWorkItemLocked i" "lock_owner w db1 = (Inl (ErrWorkItemLocked i), db')"
      using e by (auto simp: is_locked_def split: go_error.splits)
    have own: "i = wi_LockedByRunID w \<and> \<not> free_lock (runs_map db1) i" by (rule lock_owner_live [OF i(2) row(4)])
    have "still db1 (snd (lock_owner w db1))" by (rule silent_snd) (rule silent)
    then have "still db1 db'" by (simp only: lo snd_conv)
    then have "still db db'" using row(1) by (rule still_trans [rotated])
    moreover have "i \<noteq> ''''" using own by (auto simp: free_lock_def)
    moreover have "runs_map db1 = runs_map db" using stillD [OF row(1)] by simp
    ultimately show ?thesis using own task row(5) i(1) by (auto simp: WorkItem_HoldsLock_def)
  next
    fix p db2
    assume "take_lock S r w p db2 = (Inl e, db')"
    then have "\<not> is_locked e" by (rule plainD [OF plain_take_lock])
    with e show ?thesis by simp
  qed
qed

lemma release_chat: "L w = Some (False, h) \<Longrightarrow> release_lock w i L = L"
  by (simp add: release_lock_def)

lemma move_run_step:
  assumes a: "move_run S w r to data db = (Inr u, db')" and ok: "ids_ok db" and r: "r \<in> set (db_runs db)"
    and ren: "\<And>r. silent (rs_RenewDelegated S r)"
    and w: "locks_map db (rn_WorkItemID r) = Some (isTaskWorkItem w, h)"
    and st: "\<not> (isTaskWorkItem w \<and> run_started (rn_Status r) to)"
  shows "ids_ok db' \<and> task_step (task_view_of db) (task_view_of db')"
proof -
  note eff = move_run_effect [OF a ok r ren]
  have ri: "runs_map db (rn_ID r) = Some (rn_WorkItemID r, rn_Status r)" by (rule runs_map_in [OF ok r])
  show ?thesis
  proof (cases "RunStatus_IsTerminal to")
    case True
    then have "locks_map db' = release_lock (rn_WorkItemID r) (rn_ID r) (locks_map db)"
      using eff w release_chat by (cases "isTaskWorkItem w") auto
    then show ?thesis using eff True task_step.finish [where R = "runs_map db" and L = "locks_map db", OF ri, of to] by (simp add: task_view_of_def)
  next
    case False
    have "\<not> run_started (rn_Status r) to \<or> (\<forall>h. locks_map db (rn_WorkItemID r) \<noteq> Some (True, h))"
      using w st by auto
    from task_step.move [where R = "runs_map db" and L = "locks_map db", OF ri _ False this] eff False show ?thesis by (simp add: task_view_of_def)
  qed
qed

text \<open>A run that failed with a code in the event data has that failure in its row.\<close>

definition failed_with :: "'a SchedDb_scheme \<Rightarrow> ExecutionRun \<Rightarrow> RunStatus \<Rightarrow> gomap \<Rightarrow> bool" where
  "failed_with db r to data \<longleftrightarrow> (to = RunFailed \<and> string_or_empty data ''code'' \<noteq> '''' \<longrightarrow>
      (\<exists>row \<in> set (db_runs db). rn_ID row = rn_ID r \<and> rn_Failure row = Some \<lparr>rf_Code = string_or_empty data ''code'',
         rf_Message = string_or_empty data ''message'', rf_Retryable = (get_bool data ''retryable'' = Some True)\<rparr>))"

lemma transition_step_cases:
  assumes a: "transition_step S refuse r to data db = (Inr u, db')" and ok: "ids_ok db" and r: "r \<in> set (db_runs db)"
    and ren: "\<And>r. silent (rs_RenewDelegated S r)"
  obtains "still db db'" "to = RunStarting"
    | "ids_ok db'" "task_step (task_view_of db) (task_view_of db')" "runs_map db' (rn_ID r) = Some (rn_WorkItemID r, to)"
        "run_started (rn_Status r) to \<longrightarrow> (\<forall>h. locks_map db (rn_WorkItemID r) \<noteq> Some (True, h)) \<or>
           locks_map db' (rn_WorkItemID r) = Some (True, rn_ID r)"
        "failed_with db' r to data"
    | i db1 where "run_started (rn_Status r) to" "locks_map db (rn_WorkItemID r) = Some (True, i)" "i \<noteq> rn_ID r"
        "\<not> free_lock (runs_map db) i" "still db db1" "refuse (ErrWorkItemLocked i) db1 = (Inr u, db')"
proof -
  obtain w db1 where g: "WorkItemRepo_Get (rn_WorkItemID r) db = (Inr w, db1)"
    and rest: "bindM (checkM (requireValidWorkItemRecordKind w)) (\<lambda>_.
     if rn_Status r = RunStarting \<and> to = RunStarting \<and> pendingSelfHealSourceID r \<noteq> None then returnM ()
     else if isTaskWorkItem w \<and> run_started (rn_Status r) to then
       (\<lambda>db. case acquireTaskLock S r db of
          (Inl e, db1) \<Rightarrow> if is_locked e then refuse e db1 else (Inl e, db1)
        | (Inr _, db1) \<Rightarrow> move_run S w r to data db1)
     else move_run S w r to data) db1 = (Inr u, db')"
    using a unfolding transition_step_def by (rule bindM_ok)
  note row = get_item_row [OF g ok]
  note b = check_bind [OF rest, THEN conjunct2]
  have same: "runs_map db1 = runs_map db" "locks_map db1 = locks_map db" "task_view_of db1 = task_view_of db"
    using stillD [OF row(1)] by (simp_all add: task_view_of_def)
  have r1: "r \<in> set (db_runs db1)" using r row(1) by (simp add: still_def)
  have w1: "locks_map db1 (rn_WorkItemID r) = Some (isTaskWorkItem w, wi_LockedByRunID w)" using row(5) same by simp
  have ri: "runs_map db (rn_ID r) = Some (rn_WorkItemID r, rn_Status r)" by (rule runs_map_in [OF ok r])
  consider (heal) "rn_Status r = RunStarting \<and> to = RunStarting \<and> pendingSelfHealSourceID r \<noteq> None"
    | (start) "isTaskWorkItem w \<and> run_started (rn_Status r) to"
    | (move) "\<not> (isTaskWorkItem w \<and> run_started (rn_Status r) to)" "move_run S w r to data db1 = (Inr u, db')"
    using b by (auto split: if_splits)
  then show thesis
  proof cases
    case heal
    then have "db' = db1" using b by simp
    then show thesis using that(1) row(1) heal by simp
  next
    case move
    note st = move_run_step [OF move(2) row(4) r1 ren w1 move(1)] and eff = move_run_effect [OF move(2) row(4) r1 ren]
    show thesis
    proof (rule that(2))
      show "ids_ok db'" "task_step (task_view_of db) (task_view_of db')" using st same by simp_all
      show "runs_map db' (rn_ID r) = Some (rn_WorkItemID r, to)" using eff by simp
      show "run_started (rn_Status r) to \<longrightarrow> (\<forall>h. locks_map db (rn_WorkItemID r) \<noteq> Some (True, h)) \<or>
           locks_map db' (rn_WorkItemID r) = Some (True, rn_ID r)" using move(1) row(5) by auto
      show "failed_with db' r to data" using eff by (simp add: failed_with_def)
    qed
  next
    case start
    then have ne: "\<not> (rn_Status r = RunStarting \<and> to = RunStarting \<and> pendingSelfHealSourceID r \<noteq> None)"
      by (auto simp: run_started_def)
    have run: "to = RunRunning" using start by (simp add: run_started_def)
    have c: "(case acquireTaskLock S r db1 of
          (Inl e, db1) \<Rightarrow> if is_locked e then refuse e db1 else (Inl e, db1)
        | (Inr _, db1) \<Rightarrow> move_run S w r to data db1) = (Inr u, db')"
      using b start ne by (simp split: if_splits)
    show thesis
    proof (cases "acquireTaskLock S r db1")
      case (Pair x db2)
      show thesis
      proof (cases x)
        case (Inl e)
        then have e: "is_locked e" "refuse e db2 = (Inr u, db')" using c Pair by (auto split: if_splits)
        from acquire_refused [OF _ e(1) row(4), of S r db2] Pair Inl obtain i where
          i: "still db1 db2" "e = ErrWorkItemLocked i" "locks_map db1 (rn_WorkItemID r) = Some (True, i)"
            "i \<noteq> rn_ID r" "\<not> free_lock (runs_map db1) i" by auto
        show thesis
        proof (rule that(3))
          show "still db db2" using row(1) i(1) by (rule still_trans)
          show "refuse (ErrWorkItemLocked i) db2 = (Inr u, db')" using e(2) i(2) by simp
        qed (use start i same in auto)
      next
        case (Inr y)
        then have mv: "move_run S w r to data db2 = (Inr u, db')" using c Pair by simp
        have aq: "acquireTaskLock S r db1 = (Inr y, db2)" using Pair Inr by simp
        from acquire_effect [OF aq row(4)] w1 start obtain
          eff: "runs_map db2 = runs_map db1" "ids_ok db2" "db_runs db2 = db_runs db1"
            "if wi_LockedByRunID w \<noteq> rn_ID r \<or> rn_ID r = ''''
             then free_lock (runs_map db1) (wi_LockedByRunID w) \<and> locks_map db2 = (locks_map db1)(rn_WorkItemID r \<mapsto> (True, rn_ID r))
             else locks_map db2 = locks_map db1" by auto
        have l: "locks_map db (rn_WorkItemID r) = Some (True, wi_LockedByRunID w)" using row(5) start by simp
        have fr: "free_lock (runs_map db) (wi_LockedByRunID w) \<or> wi_LockedByRunID w = rn_ID r"
          using eff(4) same(1) by (simp split: if_splits)
        have lk: "locks_map db2 = (locks_map db)(rn_WorkItemID r \<mapsto> (True, rn_ID r))"
        proof (cases "wi_LockedByRunID w \<noteq> rn_ID r \<or> rn_ID r = ''''")
          case True
          then show ?thesis using eff(4) same(2) by simp
        next
          case False
          then show ?thesis using eff(4) same(2) l by (simp add: fun_upd_idem)
        qed
        have r2: "r \<in> set (db_runs db2)" using r1 eff(3) by simp
        note me = move_run_effect [OF mv eff(2) r2 ren]
        have nt: "\<not> RunStatus_IsTerminal to" by (simp add: run)
        show thesis
        proof (rule that(2))
          show "ids_ok db'" using me by simp
          show "runs_map db' (rn_ID r) = Some (rn_WorkItemID r, to)" using me by simp
          have cr: "RunStatus_CanTransitionTo (rn_Status r) RunRunning" "run_started (rn_Status r) RunRunning"
            using me run start by simp_all
          have "task_view_of db' = ((runs_map db)(rn_ID r \<mapsto> (rn_WorkItemID r, RunRunning)),
              (locks_map db)(rn_WorkItemID r \<mapsto> (True, rn_ID r)))"
            using me nt lk eff(1) same run by (simp add: task_view_of_def)
          then show "task_step (task_view_of db) (task_view_of db')"
            using task_step.start [where R = "runs_map db" and L = "locks_map db", OF ri cr l fr] by (simp add: task_view_of_def)
          show "run_started (rn_Status r) to \<longrightarrow> (\<forall>h. locks_map db (rn_WorkItemID r) \<noteq> Some (True, h)) \<or>
             locks_map db' (rn_WorkItemID r) = Some (True, rn_ID r)" using me nt lk by simp
          show "failed_with db' r to data" by (simp add: failed_with_def run)
        qed
      qed
    qed
  qed
qed

text \<open>The failure of a run that did not get the lock: it may be tried again.\<close>

definition lock_failure :: "string \<Rightarrow> RunFailure" where
  "lock_failure i = \<lparr>rf_Code = ''work_item_locked'', rf_Message = ''work item locked by active run: '' @ i, rf_Retryable = True\<rparr>"

lemma transition_cases:
  assumes a: "transitionRunLocked S r to data db = (Inr u, db')" and ok: "ids_ok db" and r: "r \<in> set (db_runs db)"
    and ren: "\<And>r. silent (rs_RenewDelegated S r)"
  obtains (same) "still db db'" "to = RunStarting"
    | (moved) "ids_ok db'" "task_step (task_view_of db) (task_view_of db')" "runs_map db' (rn_ID r) = Some (rn_WorkItemID r, to)"
        "run_started (rn_Status r) to \<longrightarrow> (\<forall>h. locks_map db (rn_WorkItemID r) \<noteq> Some (True, h)) \<or>
           locks_map db' (rn_WorkItemID r) = Some (True, rn_ID r)"
    | (refused) i row where "run_started (rn_Status r) to" "locks_map db (rn_WorkItemID r) = Some (True, i)" "i \<noteq> rn_ID r"
        "\<not> free_lock (runs_map db) i" "ids_ok db'" "task_step (task_view_of db) (task_view_of db')"
        "runs_map db' (rn_ID r) = Some (rn_WorkItemID r, RunFailed)"
        "row \<in> set (db_runs db')" "rn_ID row = rn_ID r" "rn_Failure row = Some (lock_failure i)"
  using a unfolding transitionRunLocked_def
proof (rule transition_step_cases [OF _ ok r ren])
  assume "still db db'" "to = RunStarting"
  then show thesis by (rule same)
next
  assume "ids_ok db'" "task_step (task_view_of db) (task_view_of db')" "runs_map db' (rn_ID r) = Some (rn_WorkItemID r, to)"
    "run_started (rn_Status r) to \<longrightarrow> (\<forall>h. locks_map db (rn_WorkItemID r) \<noteq> Some (True, h)) \<or>
       locks_map db' (rn_WorkItemID r) = Some (True, rn_ID r)"
  then show thesis by (rule moved)
next
  fix i db1
  assume st: "run_started (rn_Status r) to" "locks_map db (rn_WorkItemID r) = Some (True, i)" "i \<noteq> rn_ID r"
    "\<not> free_lock (runs_map db) i" and s1: "still db db1"
    and f: "transition_step S failM r RunFailed [(''code'', VStr ''work_item_locked''),
       (''message'', VStr (lock_message (ErrWorkItemLocked i))), (''retryable'', VBool True)] db1 = (Inr u, db')"
  have ok1: "ids_ok db1" "task_view_of db1 = task_view_of db" using stillD [OF s1] ok by (simp_all add: task_view_of_def)
  have r1: "r \<in> set (db_runs db1)" using r s1 by (simp add: still_def)
  show thesis
  proof (rule transition_step_cases [OF f ok1(1) r1 ren])
    assume g: "ids_ok db'" "task_step (task_view_of db1) (task_view_of db')" "runs_map db' (rn_ID r) = Some (rn_WorkItemID r, RunFailed)"
      and fw: "failed_with db' r RunFailed [(''code'', VStr ''work_item_locked''),
        (''message'', VStr (lock_message (ErrWorkItemLocked i))), (''retryable'', VBool True)]"
    obtain row where row: "row \<in> set (db_runs db')" "rn_ID row = rn_ID r" "rn_Failure row = Some (lock_failure i)"
      using fw by (auto simp: failed_with_def lock_failure_def lock_message_def string_or_empty_def get_string_def get_bool_def)
    show thesis using refused [OF st g(1) _ g(3) row] g(2) ok1(2) by simp
  qed (simp_all add: run_started_def)
qed

section \<open>Transactions that follow the protocol\<close>

text \<open>
  \<open>lawful A f\<close>: a successful \<open>f\<close> only makes steps of the protocol, when the runs of \<open>A\<close> are rows
  of the state it starts in.
\<close>

definition steps :: "'a SchedDb_scheme \<Rightarrow> 'a SchedDb_scheme \<Rightarrow> bool" where
  "steps db db' \<longleftrightarrow> ids_ok db' \<and> task_step\<^sup>*\<^sup>* (task_view_of db) (task_view_of db')"

definition lawful :: "ExecutionRun set \<Rightarrow> ('a SchedDb_scheme \<Rightarrow> (go_error + 'r) \<times> 'a SchedDb_scheme) \<Rightarrow> bool" where
  "lawful A f \<longleftrightarrow> (\<forall>db x db'. ids_ok db \<longrightarrow> A \<subseteq> set (db_runs db) \<longrightarrow> f db = (Inr x, db') \<longrightarrow> steps db db')"

named_theorems lawful

lemma lawfulI: "(\<And>db x db'. ids_ok db \<Longrightarrow> A \<subseteq> set (db_runs db) \<Longrightarrow> f db = (Inr x, db') \<Longrightarrow> steps db db') \<Longrightarrow> lawful A f"
  by (simp add: lawful_def)

lemma lawfulD: "lawful A f \<Longrightarrow> ids_ok db \<Longrightarrow> A \<subseteq> set (db_runs db) \<Longrightarrow> f db = (Inr x, db') \<Longrightarrow> steps db db'"
  by (simp add: lawful_def)

lemma steps_refl: "ids_ok db \<Longrightarrow> steps db db"
  by (simp add: steps_def)

lemma steps_trans: "steps db db1 \<Longrightarrow> steps db1 db2 \<Longrightarrow> steps db db2"
  unfolding steps_def by auto

lemma still_view: "still db db' \<Longrightarrow> task_view_of db' = task_view_of db \<and> ids_ok db' = ids_ok db"
  by (simp add: still_def task_view_of_def runs_map_def locks_map_def ids_ok_def)

lemma still_steps: "ids_ok db \<Longrightarrow> still db db' \<Longrightarrow> steps db db'"
  using still_view [of db db'] by (simp add: steps_def)

lemma steps_cong: "still db0 db \<Longrightarrow> still db1 db' \<Longrightarrow> steps db0 db1 \<Longrightarrow> steps db db'"
  using still_view [of db0 db] still_view [of db1 db'] by (simp add: steps_def)

lemma one_step: "ids_ok db' \<Longrightarrow> task_step (task_view_of db) (task_view_of db') \<Longrightarrow> steps db db'"
  by (simp add: steps_def)

lemma lawful_silent: "silent f \<Longrightarrow> lawful A f"
  unfolding lawful_def by (metis silentD still_steps)

lemma lawful_mono: "lawful A f \<Longrightarrow> A \<subseteq> B \<Longrightarrow> lawful B f"
  unfolding lawful_def by (meson subset_trans)

lemma lawful_bind:
  assumes "lawful A f" and "\<And>x. lawful {} (g x)"
  shows "lawful A (bindM f g)"
proof (rule lawfulI)
  fix db x db'
  assume ok: "ids_ok db" and A: "A \<subseteq> set (db_runs db)" and a: "bindM f g db = (Inr x, db')"
  obtain y db1 where f: "f db = (Inr y, db1)" and g: "g y db1 = (Inr x, db')" using a by (rule bindM_ok)
  have s: "steps db db1" by (rule lawfulD [OF assms(1) ok A f])
  then have "ids_ok db1" by (simp add: steps_def)
  then have "steps db1 db'" by (rule lawfulD [OF assms(2) _ _ g]) simp
  with s show "steps db db'" by (rule steps_trans)
qed

lemma lawful_pre:
  assumes "silent f" and "\<And>x. lawful A (g x)"
  shows "lawful A (bindM f g)"
proof (rule lawfulI)
  fix db x db'
  assume ok: "ids_ok db" and A: "A \<subseteq> set (db_runs db)" and a: "bindM f g db = (Inr x, db')"
  obtain y db1 where f: "f db = (Inr y, db1)" and g: "g y db1 = (Inr x, db')" using a by (rule bindM_ok)
  have s: "still db db1" using assms(1) f by (rule silentD)
  then have "ids_ok db1" "A \<subseteq> set (db_runs db1)" using ok A still_view [OF s] by (simp_all add: still_def)
  then have "steps db1 db'" by (rule lawfulD [OF assms(2) _ _ g])
  with still_steps [OF ok s] show "steps db db'" by (rule steps_trans)
qed

lemma lawful_get:
  assumes "\<And>r. lawful {r} (g r)"
  shows "lawful A (bindM (RunRepo_Get i) g)"
proof (rule lawfulI)
  fix db x db'
  assume ok: "ids_ok db" and a: "bindM (RunRepo_Get i) g db = (Inr x, db')"
  obtain r db1 where f: "RunRepo_Get i db = (Inr r, db1)" and g: "g r db1 = (Inr x, db')" using a by (rule bindM_ok)
  have "still db (snd (RunRepo_Get i db))" by (rule silent_snd) (rule silent)
  then have s: "still db db1" by (simp only: f snd_conv)
  have "ids_ok db1" "{r} \<subseteq> set (db_runs db1)"
    using ok still_view [OF s] run_get(1) [OF f] s by (simp_all add: still_def)
  then have "steps db1 db'" by (rule lawfulD [OF assms _ _ g])
  with still_steps [OF ok s] show "steps db db'" by (rule steps_trans)
qed

lemma lawful_read: "(\<And>x. lawful A (g x)) \<Longrightarrow> lawful A (readM f g)"
  by (simp add: lawful_def readM_def)

lemma lawful_if: "lawful A f \<Longrightarrow> lawful A g \<Longrightarrow> lawful A (if b then f else g)"
  by simp

lemma lawful_sum: "(\<And>e. lawful A (f e)) \<Longrightarrow> (\<And>x. lawful A (g x)) \<Longrightarrow> lawful A (case y of Inl e \<Rightarrow> f e | Inr x \<Rightarrow> g x)"
  by (cases y) auto

lemma transition_lawful:
  assumes ren: "\<And>r. silent (rs_RenewDelegated S r)"
  shows "lawful {r} (transitionRunLocked S r to data)"
proof (rule lawfulI)
  fix db x db'
  assume ok: "ids_ok db" and r: "{r} \<subseteq> set (db_runs db)" and a: "transitionRunLocked S r to data db = (Inr x, db')"
  then have "r \<in> set (db_runs db)" by simp
  from a ok this ren show "steps db db'"
    by (cases rule: transition_cases) (auto intro: one_step still_steps [OF ok])
qed

text \<open>A transaction has the effects of its body or none, whatever its outcome.\<close>

definition protocol :: "('a SchedDb_scheme \<Rightarrow> 'r \<times> 'a SchedDb_scheme) \<Rightarrow> bool" where
  "protocol f \<longleftrightarrow> (\<forall>db. ids_ok db \<longrightarrow> steps db (snd (f db)))"

lemma protocolD: "protocol f \<Longrightarrow> ids_ok db \<Longrightarrow> f db = (x, db') \<Longrightarrow> steps db db'"
  unfolding protocol_def by (metis snd_conv)

lemma InTx_protocol:
  fixes f :: "'a SchedDb_scheme \<Rightarrow> (go_error + 'r) \<times> 'a SchedDb_scheme"
  assumes "lawful {} f"
  shows "protocol (InTx f)"
  unfolding protocol_def
proof (intro allI impI)
  fix db :: "'a SchedDb_scheme"
  assume ok: "ids_ok db"
  obtain r db' where e: "InTx f db = (r, db')" by (cases "InTx f db")
  then have "steps db db'"
  proof (cases rule: InTx_cases)
    case (1 e n)
    then show ?thesis using still_steps [OF ok, of "db\<lparr>cn_step := n\<rparr>"] by simp
  next
    case (2 x db2 n)
    have "ids_ok (db\<lparr>cn_step := Suc (cn_step db)\<rparr>)" using ok by (simp add: ids_ok_def)
    then have "steps (db\<lparr>cn_step := Suc (cn_step db)\<rparr>) db2" by (rule lawfulD [OF assms _ _ 2(2)]) simp
    then show ?thesis using 2(3) by (intro steps_cong [of "db\<lparr>cn_step := Suc (cn_step db)\<rparr>" db db2]) simp_all
  qed
  then show "steps db (snd (InTx f db))" by (simp add: e)
qed

lemma silent_protocol: "silent f \<Longrightarrow> protocol f"
  unfolding protocol_def silent_def by (blast intro: still_steps)

section \<open>The operations\<close>

lemma map_of_twin:
  "map_of (map (\<lambda>x. (k x, a x)) xs) i = Some y \<Longrightarrow>
   \<exists>x \<in> set xs. k x = i \<and> y = a x \<and> map_of (map (\<lambda>x. (k x, b x)) xs) i = Some (b x)"
  by (induction xs) (auto split: if_splits)

lemma map_of_twin_None: "map_of (map (\<lambda>x. (k x, a x)) xs) i = None \<Longrightarrow> map_of (map (\<lambda>x. (k x, b x)) xs) i = None"
  by (simp add: map_of_eq_None_iff image_image)

lemma stale_ended:
  assumes "stale_lock db t w" and "ids_ok db"
  shows "ended (runs_map db) (wi_LockedByRunID w)"
proof -
  obtain r where r: "r \<in> set (db_runs db)" "rn_ID r = wi_LockedByRunID w" "RunStatus_IsTerminal (rn_Status r)"
    using assms(1) by (auto simp: stale_lock_def list_ex_iff)
  then show ?thesis using runs_map_in [OF assms(2) r(1)] by (simp add: ended_def)
qed

lemma sweep_lawful: "lawful A (WorkItemRepo_ReleaseStaleLocks t)"
proof (rule lawfulI)
  fix db :: "'a SchedDb_scheme" and x db'
  assume ok: "ids_ok db" and a: "WorkItemRepo_ReleaseStaleLocks t db = (Inr x, db')"
  let ?g = "\<lambda>w. if stale_lock db t w then w\<lparr>wi_LockedByRunID := '''', wi_LockedAt := None\<rparr> else w"
  have st: "stale_lock (db\<lparr>cn_step := n\<rparr>) t w = stale_lock db t w" for n w by (simp add: stale_lock_def)
  have it: "db_items db' = map ?g (db_items db)" and rn: "db_runs db' = db_runs db"
    using a unfolding WorkItemRepo_ReleaseStaleLocks_def
    by (auto elim!: exec_stmt_cases simp: st cong: map_cong if_cong)
  have task: "isTaskWorkItem (?g w) = isTaskWorkItem w" "wi_ID (?g w) = wi_ID w" for w
    by (simp_all add: isTaskWorkItem_def workItemRecordKind_def)
  let ?v = "\<lambda>w. (isTaskWorkItem w, wi_LockedByRunID w)"
  have L': "locks_map db' = map_of (map (\<lambda>w. (wi_ID w, ?v (?g w))) (db_items db))"
    unfolding locks_map_def it using task(2) by (simp add: comp_def del: if_image_distrib)
  have 1: "locks_map db i = None \<Longrightarrow> locks_map db' i = None" for i
    unfolding L' unfolding locks_map_def by (rule map_of_twin_None)
  have 2: "locks_map db' i = Some (b, h) \<or> ended (runs_map db) h \<and> locks_map db' i = Some (b, '''')"
    if "locks_map db i = Some (b, h)" for i b h
  proof -
    from map_of_twin [OF that [unfolded locks_map_def], of "\<lambda>w. ?v (?g w)"] obtain w where
      w: "w \<in> set (db_items db)" "(b, h) = ?v w" "locks_map db' i = Some (?v (?g w))" unfolding L' by blast
    then show ?thesis using stale_ended [OF _ ok, of t w] task(1) [of w] by (cases "stale_lock db t w") simp_all
  qed
  have "map wi_ID (db_items db') = map wi_ID (db_items db)" unfolding it using task(2) by (simp del: if_image_distrib)
  then have ok': "ids_ok db'" using ok rn by (simp add: ids_ok_def)
  have "task_step (runs_map db, locks_map db) (runs_map db, locks_map db')"
    using 1 2 by (intro task_step.sweep) blast+
  moreover have "runs_map db' = runs_map db" by (simp add: runs_map_def rn)
  ultimately have "task_step (task_view_of db) (task_view_of db')" by (simp add: task_view_of_def)
  with ok' show "steps db db'" by (rule one_step)
qed

lemma create_run_lawful:
  assumes q: "rn_Status r = RunQueued" and i: "rn_ID r \<noteq> ''''"
  shows "lawful A (RunRepo_Create r)"
proof (rule lawfulI)
  fix db :: "'a SchedDb_scheme" and x db'
  assume ok: "ids_ok db" and a: "RunRepo_Create r db = (Inr x, db')"
  have e: "\<not> list_ex (\<lambda>x. rn_ID x = rn_ID r) (db_runs db)" "db_runs db' = db_runs db @ [r]" "db_items db' = db_items db"
    using a unfolding RunRepo_Create_def by (auto elim!: exec_stmt_cases split: if_splits)
  then have new: "rn_ID r \<notin> rn_ID ` set (db_runs db)" by (auto simp: list_ex_iff)
  then have none: "runs_map db (rn_ID r) = None" by (simp add: runs_map_def map_of_eq_None_iff image_image)
  have "runs_map db' = (runs_map db)(rn_ID r \<mapsto> (rn_WorkItemID r, RunQueued))"
    using none q by (auto simp: runs_map_def e fun_eq_iff map_add_def split: option.splits)
  moreover have "locks_map db' = locks_map db" by (simp add: locks_map_def e)
  moreover have "ids_ok db'" using ok new i by (auto simp: ids_ok_def e)
  ultimately show "steps db db'"
    using task_step.create [where R = "runs_map db" and L = "locks_map db", OF none i] by (intro one_step) (simp_all add: task_view_of_def)
qed

lemma create_item_lawful:
  assumes q: "wi_LockedByRunID w = ''''"
  shows "lawful A (WorkItemRepo_Create w)"
proof (rule lawfulI)
  fix db :: "'a SchedDb_scheme" and x db'
  assume ok: "ids_ok db" and a: "WorkItemRepo_Create w db = (Inr x, db')"
  define row where "row = w\<lparr>wi_RecordKind := (if wi_RecordKind w = RecordKindUnset then RecordKindTask else wi_RecordKind w),
    wi_DueDate := map_option due_day (wi_DueDate w)\<rparr>"
  have e: "\<not> list_ex (\<lambda>x. wi_ID x = wi_ID w) (db_items db)" "db_items db' = db_items db @ [row]" "db_runs db' = db_runs db"
    using a unfolding WorkItemRepo_Create_def Let_def row_def
    by (auto elim!: exec_stmt_cases split: if_splits)
  then have new: "wi_ID w \<notin> wi_ID ` set (db_items db)" by (auto simp: list_ex_iff)
  then have none: "locks_map db (wi_ID w) = None" by (simp add: locks_map_def map_of_eq_None_iff image_image)
  have rw: "wi_ID row = wi_ID w" "wi_LockedByRunID row = ''''" using q by (simp_all add: row_def)
  have "locks_map db' = (locks_map db)(wi_ID w \<mapsto> (isTaskWorkItem row, ''''))"
    using none rw by (auto simp: locks_map_def e fun_eq_iff map_add_def split: option.splits)
  moreover have "runs_map db' = runs_map db" by (simp add: runs_map_def e)
  moreover have "ids_ok db'" using ok new rw by (auto simp: ids_ok_def e)
  ultimately show "steps db db'"
    using task_step.add [where R = "runs_map db" and L = "locks_map db", OF none] by (intro one_step) (simp_all add: task_view_of_def)
qed

lemma silent_rows [silent]:
  "silent (QuestionRepo_Get i)" "silent (QuestionRepo_GetByProviderKey i s p)" "silent (RunRepo_GetApproval i)"
  "silent (ApprovalGrantRepo_Matching ws ag wi k su)"
  unfolding QuestionRepo_Get_def QuestionRepo_GetByProviderKey_def RunRepo_GetApproval_def ApprovalGrantRepo_Matching_def
  by (rule silent_query)+

lemma silent_writes [silent]:
  "silent (RunRepo_CreateApproval a)" "silent (RunRepo_UpdateApproval a)" "silent (ApprovalGrantRepo_Create g)"
  "silent (RunRepo_CreateArtifact art)" "silent (AuditRepo_Append ws ac an ta de)"
  unfolding RunRepo_CreateApproval_def RunRepo_UpdateApproval_def ApprovalGrantRepo_Create_def
    RunRepo_CreateArtifact_def AuditRepo_Append_def
  by (rule silent_exec; simp add: still_def)+

lemma silent_search [silent]: "silent (SearchRepo_IndexEntry e)"
  unfolding SearchRepo_IndexEntry_def by (intro silent silent_exec) (simp_all add: still_def)

lemma silent_question_update [silent]: "silent (QuestionRepo_Update q)"
  unfolding QuestionRepo_Update_def by (intro silent silent_exec) (simp_all add: still_def)

lemma silent_question_create [silent]: "silent (QuestionRepo_Create q)"
  unfolding QuestionRepo_Create_def
  by (cases "QuestionRequest_Validate q") (auto intro!: silent silent_exec simp: still_def)

lemma silent_sum [silent]: "(\<And>e. silent (f e)) \<Longrightarrow> (\<And>x. silent (g x)) \<Longrightarrow> silent (case y of Inl e \<Rightarrow> f e | Inr x \<Rightarrow> g x)"
  by (cases y) auto

lemma silent_after:
  assumes "silent f" and "\<And>x db. still db (snd (h x db))"
  shows "silent (\<lambda>db. case f db of (x, db1) \<Rightarrow> h x db1)"
  unfolding silent_def
proof
  fix db
  obtain x db1 where f: "f db = (x, db1)" by (cases "f db")
  have "still db db1" using assms(1) f by (rule silentD)
  then have "still db (snd (h x db1))" using assms(2) by (rule still_trans)
  then show "still db (snd (case f db of (x, db1) \<Rightarrow> h x db1))" by (simp add: f)
qed

lemma silent_reconcile [silent]: "silent (reconcileQuestionProviderEvent r ty data)"
  unfolding reconcileQuestionProviderEvent_def Let_def
proof (intro silent silent_after)
  fix x :: "go_error + QuestionRequest" and db :: "'a RunDb_scheme"
  show "still db (snd (case x of Inl e \<Rightarrow> (if e = ErrNotFound then Inr () else Inl e, db)
       | Inr q \<Rightarrow> (case (if ty = ''question.answered''
                      then QuestionRequest_MarkProviderAnswered q (nowM db)
                             (case map_of data ''answers'' of Some (VMap m) \<Rightarrow> Some m | _ \<Rightarrow> None)
                      else QuestionRequest_Dismiss q (nowM db)) of
                  Inl e \<Rightarrow> (Inl e, db)
                | Inr q' \<Rightarrow> QuestionRepo_Update q' db)))"
    by (auto split: sum.splits intro: silent_snd silent_question_update)
qed

lemma silent_unfold_run [silent]: "silent (emit_run S r ty v data)" "silent (indexArtifact r art)" "silent (audit ws ac ta de)"
  unfolding emit_run_def indexArtifact_def audit_def by (intro silent)+

lemma silent_artifact_event [silent]: "silent (projectArtifactEvent S r data)"
  unfolding projectArtifactEvent_def Let_def case_prod_beta by (intro silent)

lemma lawful_run_row:
  assumes "rn_ID r' = rn_ID r" and "rn_Status r' = rn_Status r"
  shows "lawful {r} (RunRepo_Update r' v)"
proof (rule lawfulI)
  fix db :: "'a SchedDb_scheme" and x db'
  assume ok: "ids_ok db" and r: "{r} \<subseteq> set (db_runs db)" and a: "RunRepo_Update r' v db = (Inr x, db')"
  from r have r: "r \<in> set (db_runs db)" by simp
  note eff = run_update [OF a ok r assms(1)]
  have "runs_map db' = runs_map db" using eff(1) runs_map_in [OF ok r] assms(2) by (simp add: fun_upd_idem)
  then show "steps db db'" using eff(2,3) by (simp add: steps_def task_view_of_def locks_map_def)
qed

lemma lawful_touch: "lawful A (WorkItemRepo_TouchUpdatedAt i t)"
proof (rule lawfulI)
  fix db :: "'a SchedDb_scheme" and x db'
  assume ok: "ids_ok db" and a: "WorkItemRepo_TouchUpdatedAt i t db = (Inr x, db')"
  let ?g = "\<lambda>w. if wi_ID w = i then w\<lparr>wi_UpdatedAt := t\<rparr> else w"
  have e: "db_items db' = map ?g (db_items db)" "db_runs db' = db_runs db"
    using a unfolding WorkItemRepo_TouchUpdatedAt_def by (auto elim!: exec_stmt_cases)
  have g: "wi_ID (?g w) = wi_ID w" "isTaskWorkItem (?g w) = isTaskWorkItem w" "wi_LockedByRunID (?g w) = wi_LockedByRunID w" for w
    by (simp_all add: isTaskWorkItem_def workItemRecordKind_def)
  have "map (\<lambda>w. (wi_ID w, (isTaskWorkItem w, wi_LockedByRunID w))) (db_items db') =
    map (\<lambda>w. (wi_ID w, (isTaskWorkItem w, wi_LockedByRunID w))) (db_items db)"
    unfolding e map_map comp_def g ..
  moreover have "map wi_ID (db_items db') = map wi_ID (db_items db)" unfolding e map_map comp_def g ..
  ultimately show "steps db db'" using ok e(2) by (simp add: steps_def task_view_of_def locks_map_def runs_map_def ids_ok_def)
qed

lemma lawful_with_run:
  assumes "\<And>r w. lawful {r} (f r w)"
  shows "lawful A (with_run i f)"
  unfolding with_run_def by (intro lawful_get lawful_pre silent assms)

lemma silent_renew [silent]: "(\<And>r. silent (rs_RenewDelegated S r)) \<Longrightarrow> silent (renew_delegated S r)"
  unfolding renew_delegated_def by (intro silent)

lemma progress_row: "rn_ID (ExecutionRun_SetProgress r p t) = rn_ID r \<and> rn_Status (ExecutionRun_SetProgress r p t) = rn_Status r"
  by (simp add: ExecutionRun_SetProgress_def ExecutionRun_bump_def)

lemma progress_lawful:
  assumes ren: "\<And>r. silent (rs_RenewDelegated S r)"
  shows "lawful A (recordRunProgressTx S i p)"
  unfolding recordRunProgressTx_def Let_def
  by (intro lawful_with_run lawful_if lawful_silent [OF silent_return] lawful_pre [OF silent_renew [OF ren]] lawful_read
      lawful_bind [OF lawful_run_row] lawful_silent silent progress_row [THEN conjunct1] progress_row [THEN conjunct2])

lemma event_lawful:
  assumes ren: "\<And>r. silent (rs_RenewDelegated S r)"
  shows "lawful A (recordRunEventTx S i ty data)"
  unfolding recordRunEventTx_def Let_def
  by (intro lawful_with_run lawful_pre [OF silent_renew [OF ren]] lawful_pre [OF silent_reconcile] lawful_pre [OF silent_if]
      silent_artifact_event silent_return lawful_pre [OF silent_unfold_run(1)] lawful_bind lawful_if lawful_read lawful_touch
      lawful_silent)

lemma artifact_lawful: "lawful A (recordArtifactTx S i art)"
  unfolding recordArtifactTx_def Let_def case_prod_beta
  by (intro lawful_with_run lawful_silent silent)

lemma silent_request [silent]:
  "silent (bindM (RunRepo_Get i) (\<lambda>r. if RunStatus_IsTerminal (rn_Status r) then failM e else bindM (WorkItemRepo_Get (rn_WorkItemID r)) (f r)))"
  if "\<And>r w. silent (f r w)"
  by (intro silent that)

lemma request_lawful: "protocol (RequestQuestion S i q)"
  unfolding RequestQuestion_def
proof (intro InTx_protocol lawful_silent silent silent_after)
  fix r w y x and db :: "'a RunDb_scheme"
  show "still db (snd (case x of
       Inl e \<Rightarrow> if e \<noteq> ErrNotFound then (Inl e, db)
          else let agent = TrimSpace (qn_AgentID q);
                   q = q\<lparr>qn_ID := rs_NewID S db, qn_RunID := rn_ID r, qn_WorkItemID := rn_WorkItemID r,
                     qn_AgentID := (if agent = '''' then ''main'' else agent), qn_Status := QuestionPending,
                     qn_CreatedAt := (if IsZero (qn_CreatedAt q) then nowM db else qn_CreatedAt q)\<rparr>
               in (case QuestionRequest_Validate q of
                     Inl e \<Rightarrow> (Inl e, db)
                   | Inr q \<Rightarrow> bindM (QuestionRepo_Create q) (\<lambda>_.
                       bindM (emit_run S r ''question.requested'' (rn_Version r)
                         [(''run_id'', VStr (rn_ID r)), (''work_item_id'', VStr (rn_WorkItemID r)), (''question_id'', VStr (qn_ID q)),
                          (''provider_question_id'', VStr (qn_ProviderID q)), (''session_ref'', VStr (qn_SessionRef q)),
                          (''agent_id'', VStr (qn_AgentID q)), (''turn_id'', VInt64 (qn_TurnID q)),
                          (''tool_call_id'', VStr (qn_ToolCallID q)), (''questions'', VList (map item_value (qn_Questions q))),
                          (''status'', VStr (QuestionStatus_text (qn_Status q))), (''record_kind'', kind_value w)])
                         (\<lambda>_. returnM q)) db)
       | Inr existing \<Rightarrow> (Inr existing, db)))"
    unfolding Let_def by (cases x) (auto split: sum.splits intro!: silent_snd silent)
qed

lemma answer_lawful:
  "protocol (prepare_answer sp i j resp)" "protocol (clear_answer j resp)" "protocol (confirm_answer S j resp who)"
  "protocol (DismissQuestion S i j who)"
  unfolding prepare_answer_def clear_answer_def confirm_answer_def DismissQuestion_def
  by (intro InTx_protocol lawful_silent silent)+

lemma approval_lawful:
  assumes ren: "\<And>r. silent (rs_RenewDelegated S r)"
  shows "lawful A (requestApprovalTx S i k ri su ra)"
  unfolding requestApprovalTx_def Let_def case_prod_beta
  by (intro lawful_with_run lawful_read lawful_pre [OF silent_rows(4)] lawful_pre [OF silent_writes(1)]
      lawful_bind [OF transition_lawful [OF ren]] lawful_silent silent)

text \<open>
  The parts of the environment: renewing a claim, the gate of a Goal and the lookup of a plan
  leave runs and locks alone; continuing a plan follows the protocol, and so does whatever else
  happens while an answer is forwarded to the runtime.
\<close>

definition env_ok ::
  "'a RunS \<Rightarrow> 'a RunDb_scheme ApprovalEnv \<Rightarrow>
   (string \<Rightarrow> string \<Rightarrow> QuestionResponse \<Rightarrow> 'a RunDb_scheme \<Rightarrow> delivery \<times> 'a RunDb_scheme) option \<Rightarrow> bool" where
  "env_ok S E forwarder \<longleftrightarrow>
     (\<forall>r. silent (rs_RenewDelegated S r)) \<and> (\<forall>r. silent (ae_GoalGate E r)) \<and> (\<forall>a. silent (ae_PlanOf E a)) \<and>
     (\<forall>a approved reason. lawful {} (ae_ResolvePlan E a approved reason)) \<and>
     (\<forall>f i j resp. forwarder = Some f \<longrightarrow> protocol (f i j resp))"

lemma resolve_plan_lawful:
  assumes "env_ok S E fw"
  shows "lawful A (resolve_plan_approval S E a approved decision who reason)"
proof -
  have "lawful A (ae_ResolvePlan E a approved reason)"
    by (rule lawful_mono [of "{}"]) (use assms in \<open>auto simp: env_ok_def\<close>)
  then show ?thesis unfolding resolve_plan_approval_def case_prod_beta
    by (rule lawful_bind) (intro lawful_silent silent)
qed

lemma resolve_run_lawful:
  assumes "env_ok S E fw"
  shows "lawful A (resolve_run_approval S a approved decision who reason scope)"
proof -
  have ren: "silent (rs_RenewDelegated S r)" for r using assms by (simp add: env_ok_def)
  show ?thesis unfolding resolve_run_approval_def case_prod_beta Let_def
    by (intro lawful_with_run lawful_bind lawful_if transition_lawful [OF ren] lawful_silent silent)
qed

lemma resolve_lawful:
  assumes "env_ok S E fw"
  shows "protocol (ResolveApproval S E i approved who reason scope)"
proof -
  have gate: "silent (ae_GoalGate E r)" "silent (ae_PlanOf E a)" for r a using assms by (simp_all add: env_ok_def)
  have body: "lawful {} (bindM (RunRepo_UpdateApproval a') (\<lambda>_.
      bindM (if ap_Kind a' = ''plan_dispatch'' then resolve_plan_approval S E a' approved d who reason
             else resolve_run_approval S a' approved d who reason scope) (\<lambda>_. returnM (a', True))))" for a' d
    by (intro lawful_pre [OF silent_writes(2)] lawful_bind lawful_if resolve_plan_lawful [OF assms] resolve_run_lawful [OF assms]
        lawful_silent [OF silent_return])
  have "lawful {} (bindM (RunRepo_GetApproval i) (\<lambda>a.
        if scope \<noteq> ApprovalScopeOnce \<and> \<not> ApprovalKindGrantable (ap_Kind a) then failM (ErrValidation '''')
        else if ap_Status a = d then
          bindM (if ap_Kind a = ''plan_dispatch'' \<and> \<not> approved then bindM (ae_PlanOf E a) (\<lambda>_. returnM ()) else returnM ())
            (\<lambda>_. returnM (a, False))
        else bindM (if approved \<and> ap_Kind a \<noteq> ''plan_dispatch'' \<and> ap_RunID a \<noteq> ''''
                    then bindM (RunRepo_Get (ap_RunID a)) (ae_GoalGate E) else returnM ()) (\<lambda>_.
        readM nowM (\<lambda>now. case ApprovalRequest_Resolve a d who reason now of
            Inl e \<Rightarrow> failM e
          | Inr a' \<Rightarrow> bindM (RunRepo_UpdateApproval a') (\<lambda>_.
              bindM (if ap_Kind a' = ''plan_dispatch'' then resolve_plan_approval S E a' approved d who reason
                     else resolve_run_approval S a' approved d who reason scope) (\<lambda>_. returnM (a', True)))))))" for d
    by (intro lawful_pre [OF silent_rows(3)] lawful_if lawful_sum lawful_read body lawful_silent [OF silent_fail]
        lawful_silent [OF silent_bind] lawful_pre [OF silent_if] silent_bind silent_return silent_get(2) gate silent_if)
  then show ?thesis unfolding ResolveApproval_def Let_def
    by (cases "ApprovalScope_Valid scope") (simp_all only: if_True if_False not_True_eq_False not_False_eq_True
        InTx_protocol silent_protocol [OF silent_fail])
qed

end
