(* ===== verification/RunHistories.thy ===== *)
theory RunHistories
  imports TaskLocks
begin

text \<open>
  Histories of the run service: any sequence of its operations, of sweeps of the scheduler and of new
  rows, with any statement failing. How a run gets the execution lock of a task
  (\<^verbatim>\<open>internal/application/tasklock.go\<close>) is read off the protocol of theory TaskLocks; the end of the
  theory shows the way around the lock that the status table leaves open, and the witnesses. The sweeps
  of the start join these histories in theory SystemHistories.
\<close>

section \<open>Histories\<close>

text \<open>
  Everything that moves runs or locks: status reports and controls, progress, events and artifacts
  of the runtime, questions and approvals, the sweep of the scheduler, and new runs and items. A
  runner, a user and the scheduler call these in any order; each call is one transaction (the
  answer of a question takes three).
\<close>

datatype task_op =
    OpStatus string RunStatus gomap
  | OpControl string string
  | OpProgress string goval
  | OpEvent string string gomap
  | OpArtifact string Artifact
  | OpAsk string QuestionRequest
  | OpAnswer string string QuestionResponse string
  | OpDismiss string string string
  | OpRequestApproval string string string string
  | OpResolveApproval string bool string string ApprovalScope
  | OpSweep time
  | OpCreateRun ExecutionRun
  | OpCreateItem WorkItem

type_synonym 'a forwarder = "(string \<Rightarrow> string \<Rightarrow> QuestionResponse \<Rightarrow> 'a RunDb_scheme \<Rightarrow> delivery \<times> 'a RunDb_scheme) option"

fun do_op ::
  "'a RunS \<Rightarrow> 'a RunDb_scheme ApprovalEnv \<Rightarrow> (goval \<Rightarrow> string) \<Rightarrow> 'a forwarder \<Rightarrow> task_op \<Rightarrow> 'a RunDb_scheme \<Rightarrow> 'a RunDb_scheme" where
  "do_op S E sp fw (OpStatus i to data) db = snd (RecordRunStatus S i to data db)"
| "do_op S E sp fw (OpControl i action) db = snd (ControlRun S i action db)"
| "do_op S E sp fw (OpProgress i p) db = snd (RecordRunProgress S i p db)"
| "do_op S E sp fw (OpEvent i ty data) db = snd (RecordRunEvent S i ty data db)"
| "do_op S E sp fw (OpArtifact i art) db = snd (RecordArtifact S i art db)"
| "do_op S E sp fw (OpAsk i q) db = snd (RequestQuestion S i q db)"
| "do_op S E sp fw (OpAnswer i j resp who) db = snd (ResolveQuestion S sp fw i j resp who db)"
| "do_op S E sp fw (OpDismiss i j who) db = snd (DismissQuestion S i j who db)"
| "do_op S E sp fw (OpRequestApproval i k ri su) db = snd (RequestApproval S i k ri su db)"
| "do_op S E sp fw (OpResolveApproval i approved who reason scope) db = snd (ResolveApproval S E i approved who reason scope db)"
| "do_op S E sp fw (OpSweep t) db = snd (WorkItemRepo_ReleaseStaleLocks t db)"
| "do_op S E sp fw (OpCreateRun r) db = snd (InTx (RunRepo_Create r) db)"
| "do_op S E sp fw (OpCreateItem w) db = snd (InTx (WorkItemRepo_Create w) db)"

text \<open>New runs are queued and have an id, new items are not locked.\<close>

fun op_ok :: "task_op \<Rightarrow> bool" where
  "op_ok (OpCreateRun r) \<longleftrightarrow> rn_Status r = RunQueued \<and> rn_ID r \<noteq> ''''"
| "op_ok (OpCreateItem w) \<longleftrightarrow> wi_LockedByRunID w = ''''"
| "op_ok _ \<longleftrightarrow> True"

definition task_history ::
  "'a RunS \<Rightarrow> 'a RunDb_scheme ApprovalEnv \<Rightarrow> (goval \<Rightarrow> string) \<Rightarrow> 'a forwarder \<Rightarrow> task_op list \<Rightarrow> 'a RunDb_scheme \<Rightarrow> 'a RunDb_scheme"
where
  "task_history S E sp fw ops db = foldl (\<lambda>db op. do_op S E sp fw op db) db ops"

lemma protocol_snd: "protocol f \<Longrightarrow> ids_ok db \<Longrightarrow> steps db (snd (f db))"
  by (simp add: protocol_def)

lemma status_protocol:
  assumes ren: "\<And>r. silent (rs_RenewDelegated S r)"
  shows "protocol (RecordRunStatus S i to data)" "protocol (ControlRun S i action)"
proof -
  show "protocol (RecordRunStatus S i to data)"
    unfolding RecordRunStatus_def by (intro InTx_protocol lawful_get transition_lawful ren)
  have "protocol (InTx (bindM (RunRepo_Get i) (\<lambda>r. transitionRunLocked S r (f r) [])))" for f
    by (intro InTx_protocol lawful_get transition_lawful ren)
  then show "protocol (ControlRun S i action)"
    unfolding ControlRun_def by (cases "action \<noteq> ''interrupt'' \<and> action \<noteq> ''cancel''") (simp_all add: silent_protocol silent_fail)
qed

lemma record_protocol:
  assumes ren: "\<And>r. silent (rs_RenewDelegated S r)"
  shows "protocol (RecordRunProgress S i p)" "protocol (RecordRunEvent S i ty data)" "protocol (RecordArtifact S i art)"
    "protocol (RequestApproval S i k ri su)"
proof -
  show "protocol (RecordRunProgress S i p)" "protocol (RecordRunEvent S i ty data)" "protocol (RequestApproval S i k ri su)"
    unfolding RecordRunProgress_def RecordRunEvent_def RequestApproval_def
    by (intro InTx_protocol progress_lawful event_lawful approval_lawful ren)+
  have "protocol (InTx (recordArtifactTx S i art))" by (intro InTx_protocol artifact_lawful)
  then show "protocol (RecordArtifact S i art)"
    unfolding RecordArtifact_def by (cases "at_Sha256 art = '''' \<or> at_LogicalPath art = ''''") (simp_all add: silent_protocol silent_fail)
qed

lemma resolve_question_protocol:
  assumes "env_ok S E fw"
  shows "protocol (ResolveQuestion S sp fw i j resp who)"
  unfolding protocol_def
proof (intro allI impI)
  fix db :: "'a RunDb_scheme"
  assume ok: "ids_ok db"
  obtain x db1 where p: "prepare_answer sp i j resp db = (x, db1)" by (cases "prepare_answer sp i j resp db")
  have s1: "steps db db1" by (rule protocolD [OF answer_lawful(1) ok p])
  show "steps db (snd (ResolveQuestion S sp fw i j resp who db))"
  proof (cases "\<exists>e. x = Inl e \<or> fw = None \<or> (\<exists>q. x = Inr q \<and> qn_Status q = QuestionAnswered)")
    case True
    then show ?thesis using s1 by (cases x) (auto simp: ResolveQuestion_def bindM_def p returnM_def failM_def)
  next
    case False
    then obtain q f where q: "x = Inr q" "qn_Status q \<noteq> QuestionAnswered" "fw = Some f" by (cases x) auto
    obtain d db2 where d: "f (qn_RunID q) (qn_ID q) resp db1 = (d, db2)" by (cases "f (qn_RunID q) (qn_ID q) resp db1")
    have f: "protocol (f (qn_RunID q) (qn_ID q) resp)" using assms q(3) by (simp add: env_ok_def)
    have "ids_ok db1" using s1 by (simp add: steps_def)
    then have "steps db1 db2" by (rule protocolD [OF f _ d])
    with s1 have s2: "steps db db2" by (rule steps_trans)
    then have ok2: "ids_ok db2" by (simp add: steps_def)
    have "steps db (snd (case d of Delivered \<Rightarrow> confirm_answer S (qn_ID q) resp who db2
        | DeliveryUnknown e \<Rightarrow> (Inl e, db2) | DeliveryFailed e \<Rightarrow> (Inl e, snd (clear_answer (qn_ID q) resp db2))))"
      using s2 steps_trans [OF s2 protocol_snd [OF answer_lawful(3) ok2]] steps_trans [OF s2 protocol_snd [OF answer_lawful(2) ok2]]
      by (cases d) simp_all
    moreover have "ResolveQuestion S sp fw i j resp who db = (case d of Delivered \<Rightarrow> confirm_answer S (qn_ID q) resp who db2
        | DeliveryUnknown e \<Rightarrow> (Inl e, db2) | DeliveryFailed e \<Rightarrow> (Inl e, snd (clear_answer (qn_ID q) resp db2)))"
      using q d by (simp add: ResolveQuestion_def bindM_def p)
    ultimately show ?thesis by simp
  qed
qed

lemma op_steps:
  assumes env: "env_ok S E fw" and ok: "ids_ok db" and op: "op_ok p"
  shows "steps db (do_op S E sp fw p db)"
proof -
  have ren: "silent (rs_RenewDelegated S r)" for r using env by (simp add: env_ok_def)
  note all = status_protocol [OF ren] record_protocol [OF ren] request_lawful answer_lawful(4)
    resolve_question_protocol [OF env] resolve_lawful [OF env] InTx_protocol [OF create_run_lawful] InTx_protocol [OF create_item_lawful]
  show ?thesis
  proof (cases p)
    case (OpSweep t)
    obtain r db' where r: "WorkItemRepo_ReleaseStaleLocks t db = (r, db')" by (cases "WorkItemRepo_ReleaseStaleLocks t db")
    have "steps db db'"
    proof (cases r)
      case (Inl e)
      then have "still db db'" using r unfolding WorkItemRepo_ReleaseStaleLocks_def by (auto elim!: exec_stmt_cases)
      with ok show ?thesis by (rule still_steps)
    next
      case (Inr n)
      then show ?thesis using lawfulD [OF sweep_lawful [of "{}"] ok _ r [unfolded Inr]] by simp
    qed
    then show ?thesis by (simp add: OpSweep r)
  qed (use op in \<open>auto intro!: protocol_snd [OF _ ok] all\<close>)
qed

lemma ops_steps:
  assumes env: "env_ok S E fw"
  shows "ids_ok db \<Longrightarrow> list_all op_ok ops \<Longrightarrow> steps db (task_history S E sp fw ops db)"
proof (induction ops arbitrary: db)
  case (Cons p ops)
  have s: "steps db (do_op S E sp fw p db)" using Cons.prems by (intro op_steps env) simp_all
  then have "ids_ok (do_op S E sp fw p db)" by (simp add: steps_def)
  then have "steps (do_op S E sp fw p db) (task_history S E sp fw ops (do_op S E sp fw p db))"
    by (rule Cons.IH) (use Cons.prems in simp)
  with s show ?case unfolding task_history_def by (simp add: steps_trans)
qed (simp add: task_history_def steps_refl)

section \<open>What the protocol keeps\<close>

text \<open>Every lock is on a task, and held by a run of that task that has not ended.\<close>

definition lock_inv :: "task_view \<Rightarrow> bool" where
  "lock_inv v \<longleftrightarrow> (\<forall>w t h. snd v w = Some (t, h) \<longrightarrow> h \<noteq> '''' \<longrightarrow> t \<and> (\<exists>s. fst v h = Some (w, s) \<and> \<not> RunStatus_IsTerminal s))"

lemma lock_invD: "lock_inv (R, L) \<Longrightarrow> L w = Some (t, h) \<Longrightarrow> h \<noteq> '''' \<Longrightarrow> t \<and> (\<exists>s. R h = Some (w, s) \<and> \<not> RunStatus_IsTerminal s)"
  unfolding lock_inv_def by (metis fst_conv snd_conv)

lemma lock_invI:
  "(\<And>w t h. L w = Some (t, h) \<Longrightarrow> h \<noteq> '''' \<Longrightarrow> t \<and> (\<exists>s. R h = Some (w, s) \<and> \<not> RunStatus_IsTerminal s)) \<Longrightarrow> lock_inv (R, L)"
  unfolding lock_inv_def by (metis fst_conv snd_conv)

lemma lock_inv_step:
  assumes "task_step v v'" and "lock_inv v"
  shows "lock_inv v'"
  using assms
proof (induction rule: task_step.induct)
  case (start R i w s L h)
  show ?case
  proof (rule lock_invI)
    fix w' t h'
    assume l: "(L(w \<mapsto> (True, i))) w' = Some (t, h')" and h': "h' \<noteq> ''''"
    show "t \<and> (\<exists>s. (R(i \<mapsto> (w, RunRunning))) h' = Some (w', s) \<and> \<not> RunStatus_IsTerminal s)"
      using l h' start.hyps(1) lock_invD [OF start.prems, of w' t h'] by (auto split: if_splits)
  qed
next
  case (move R i w s to L)
  then show ?case using lock_invD [OF move.prems] by (intro lock_invI) (fastforce split: if_splits)
next
  case (finish R i w s to L)
  show ?case
  proof (rule lock_invI)
    fix w' t h'
    assume l: "release_lock w i L w' = Some (t, h')" and h': "h' \<noteq> ''''"
    then have L: "L w' = Some (t, h')" by (auto simp: release_lock_def split: if_splits)
    have hi: "h' \<noteq> i"
    proof
      assume e: "h' = i"
      then have "t" "w' = w" using lock_invD [OF finish.prems L h'] finish.hyps(1) by auto
      then show False using l L e h' by (simp add: release_lock_def)
    qed
    then show "t \<and> (\<exists>s. (R(i \<mapsto> (w, to))) h' = Some (w', s) \<and> \<not> RunStatus_IsTerminal s)"
      using lock_invD [OF finish.prems L h'] by simp
  qed
next
  case (sweep L L' R)
  show ?case
  proof (rule lock_invI)
    fix w t h
    assume l: "L' w = Some (t, h)" and h: "h \<noteq> ''''"
    then obtain t' h' where L: "L w = Some (t', h')" using sweep.hyps(1) by (cases "L w") auto
    then have "L' w = Some (t', h')" using sweep.hyps(2) l h by fastforce
    then show "t \<and> (\<exists>s. R h = Some (w, s) \<and> \<not> RunStatus_IsTerminal s)" using lock_invD [OF sweep.prems L] l h by simp
  qed
next
  case (create R i L w)
  then show ?case using lock_invD [OF create.prems] by (intro lock_invI) fastforce
next
  case (add L w R t)
  then show ?case using lock_invD [OF add.prems] by (intro lock_invI) (auto split: if_splits)
qed

lemma lock_inv_steps: "task_step\<^sup>*\<^sup>* v v' \<Longrightarrow> lock_inv v \<Longrightarrow> lock_inv v'"
  by (induction rule: rtranclp_induct) (auto intro: lock_inv_step)

text \<open>The table of a run has no way out of a terminal status.\<close>

lemma terminal_stays: "RunStatus_IsTerminal s \<Longrightarrow> runTransitions s = []"
  by (cases s) simp_all

lemma ended_step: "task_step v v' \<Longrightarrow> ended (fst v) i \<Longrightarrow> ended (fst v') i"
  by (induction rule: task_step.induct) (auto simp: ended_def terminal_stays RunStatus_CanTransitionTo_def split: option.splits)

section \<open>The properties of the lock\<close>

lemma start_outcome:
  assumes a: "RecordRunStatus S j RunRunning data db = (Inr u, db')" and ok: "ids_ok db"
    and ren: "\<And>r. silent (rs_RenewDelegated S r)"
    and j: "runs_map db j = Some (w, s)" and st: "run_started s RunRunning" and L: "locks_map db w = Some (True, i)"
  shows "ids_ok db' \<and> (if free_lock (runs_map db) i \<or> i = j then locks_map db' w = Some (True, j) \<and> runs_map db' j = Some (w, RunRunning)
    else runs_map db' j = Some (w, RunFailed) \<and> locks_map db' w = Some (True, i) \<and>
      (\<exists>row \<in> set (db_runs db'). rn_ID row = j \<and> rn_Failure row = Some (lock_failure i)))"
proof -
  obtain db2 n where b: "bindM (RunRepo_Get j) (\<lambda>r. transitionRunLocked S r RunRunning data) (db\<lparr>cn_step := Suc (cn_step db)\<rparr>) = (Inr u, db2)"
    and d: "db' = db2\<lparr>cn_step := n\<rparr>"
    using a unfolding RecordRunStatus_def by (cases rule: InTx_cases) auto
  let ?db = "db\<lparr>cn_step := Suc (cn_step db)\<rparr>"
  obtain r db1 where g: "RunRepo_Get j ?db = (Inr r, db1)" and t: "transitionRunLocked S r RunRunning data db1 = (Inr u, db2)"
    using b by (rule bindM_ok)
  have "still ?db (snd (RunRepo_Get j ?db))" by (rule silent_snd) (rule silent)
  then have s: "still db db1" by (simp add: g)
  note same = stillD [OF s]
  have ok1: "ids_ok db1" using same ok by simp
  have r: "r \<in> set (db_runs db1)" "rn_ID r = j" using run_get [OF g] s by (simp_all add: still_def)
  have row: "rn_WorkItemID r = w" "rn_Status r = s" using runs_map_in [OF ok1 r(1)] same j r(2) by auto
  have L1: "locks_map db1 w = Some (True, i)" using L same by simp
  have d': "ids_ok db' = ids_ok db2" "locks_map db' = locks_map db2" "runs_map db' = runs_map db2"
    by (simp_all add: d ids_ok_def locks_map_def runs_map_def)
  have "j \<noteq> ''''" using ok1 r by (metis ids_ok_def imageI)
  from t ok1 r(1) ren show ?thesis
  proof (cases rule: transition_cases)
    case same
    then show ?thesis by simp
  next
    case moved
    have j: "locks_map db2 w = Some (True, j)" "runs_map db2 j = Some (w, RunRunning)"
      using moved(3,4) row r(2) L1 st by auto
    have "free_lock (runs_map db) i \<or> i = j"
      using moved(2) unfolding task_view_of_def
    proof (cases rule: task_step.cases)
      case (start j' w' s' h)
      then show ?thesis using j L1 same by (auto split: if_splits)
    next
      case sweep
      then have "locks_map db2 w = Some (True, i) \<or> locks_map db2 w = Some (True, '''')" using L1 by blast
      then show ?thesis using j \<open>j \<noteq> ''''\<close> by auto
    qed (use j L1 \<open>j \<noteq> ''''\<close> in \<open>auto simp: release_lock_def split: if_splits\<close>)
    then show ?thesis using j moved(1) d' by simp
  next
    case (refused i' row')
    have i': "i' = i" "i \<noteq> j" "\<not> free_lock (runs_map db1) i" using refused(2-4) L1 row r(2) by auto
    have "locks_map db2 w = Some (True, i)"
      using refused(6) unfolding task_view_of_def
    proof (cases rule: task_step.cases)
      case (start j' w' s' h)
      then show ?thesis using refused(7) r(2) row L1 i' by (auto split: if_splits)
    next
      case (finish j' w' s' to)
      have "j' = j" using finish refused(7) r(2) row(1) j same st by (auto simp: run_started_def split: if_splits)
      then show ?thesis using finish L1 i' by (auto simp: release_lock_def)
    next
      case sweep
      then show ?thesis using L1 i' by (auto simp: free_lock_def)
    qed (use L1 in \<open>auto split: if_splits\<close>)
    moreover have "\<exists>row \<in> set (db_runs db'). rn_ID row = j \<and> rn_Failure row = Some (lock_failure i)"
      using refused(8-10) i'(1) r(2) by (auto simp: d)
    ultimately show ?thesis using i' same refused(5,7) d' r(2) row by simp
  qed
qed

text \<open>
  C18. Whatever is called in whatever order, and whatever fails on the way, runs and locks only move
  by steps of the protocol: a run follows its table, it starts to run on a task only with the
  task's lock, taken when nobody alive holds it, and gives the lock back when it ends.
\<close>

theorem histories_follow_lock_protocol:
  assumes "env_ok S E fw" and "ids_ok db" and "list_all op_ok ops"
  shows "task_step\<^sup>*\<^sup>* (task_view_of db) (task_view_of (task_history S E sp fw ops db)) \<and>
    ids_ok (task_history S E sp fw ops db)"
  using ops_steps [OF assms] by (simp add: steps_def)


text \<open>For evaluation: the text of a time is looked at last.\<close>

declare by_creation_def [code del] stale_lock_def [code del]

lemma by_creation_code [code]: "by_creation qs = (if qs = [] then [] else sort_key (\<lambda>q. timeParam (qn_CreatedAt q)) qs)"
  by (simp add: by_creation_def)

lemma stale_lock_code [code]:
  "stale_lock db olderThan w =
     (if list_ex (\<lambda>r. rn_ID r = wi_LockedByRunID w \<and> wi_LockedByRunID w \<noteq> '''' \<and> RunStatus_IsTerminal (rn_Status r)) (db_runs db)
      then (case wi_LockedAt w of None \<Rightarrow> False | Some t \<Rightarrow> timeParam t < timeParam olderThan) else False)"
  by (simp add: stale_lock_def)

definition sample_tasks :: RunDb where
  "sample_tasks = \<lparr>cn_env = (\<lambda>n. (False, int n)), cn_step = 0,
     db_runs = [sample_run\<lparr>rn_Status := RunStarting\<rparr>, sample_run\<lparr>rn_ID := ''run_2'', rn_Status := RunStarting\<rparr>], db_runners = [], db_leases = [],
     db_dedup = [], db_runEvents = [], db_stream = [], db_outbox = [], db_activities = [],
     db_items = [sample_item\<lparr>wi_Status := WorkItemInProgress\<rparr>], db_agents = [], db_wakeups = [],
     db_blockers = [], db_questions = [], db_approvals = [], db_grants = [], db_artifacts = [], db_search = [], db_audit = []\<rparr>"

definition sample_service :: "RunDb RunService" where
  "sample_service = \<lparr>rs_Codec = sample_codec, rs_NewID = (\<lambda>db. CHR ''e'' # replicate (cn_step db) CHR ''x''),
     rs_RenewDelegated = (\<lambda>_. returnM ())\<rparr>"

definition sample_approvals :: "RunDb ApprovalEnv" where
  "sample_approvals = \<lparr>ae_GoalGate = (\<lambda>_. returnM ()), ae_ResolvePlan = (\<lambda>_ _ _. returnM (''ws_1'', ''wi_1'')), ae_PlanOf = (\<lambda>_. returnM ''p'')\<rparr>"

lemma sample_env: "env_ok sample_service sample_approvals None"
  by (simp add: env_ok_def sample_service_def sample_approvals_def silent_return lawful_silent)

lemma sample_ids: "ids_ok sample_tasks"
  by (simp add: ids_ok_def sample_tasks_def sample_run_def)

lemma sample_lock_inv: "lock_inv (task_view_of sample_tasks)"
  by (simp add: lock_inv_def task_view_of_def locks_map_def sample_tasks_def sample_item_def)

theorem histories_follow_lock_protocol_witness:
  "let ops = [OpStatus ''run_1'' RunRunning [], OpCreateRun (sample_run\<lparr>rn_ID := ''run_3''\<rparr>), OpControl ''run_1'' ''cancel'', OpSweep 9]
   in task_step\<^sup>*\<^sup>* (task_view_of sample_tasks) (task_view_of (task_history sample_service sample_approvals (\<lambda>_. '''') None ops sample_tasks))"
  using histories_follow_lock_protocol [OF sample_env sample_ids, of "[OpStatus ''run_1'' RunRunning [],
      OpCreateRun (sample_run\<lparr>rn_ID := ''run_3''\<rparr>), OpControl ''run_1'' ''cancel'', OpSweep 9]" "\<lambda>_. ''''"]
  by (simp add: sample_run_def)


text \<open>
  The lock is only asked for on the way from queued or starting to running: a starting run that
  reports reconnecting first is running afterwards without it, next to the run that holds it.
\<close>

lemma reconnecting_bypasses_lock:
  "(let db = task_history sample_service sample_approvals (\<lambda>_. '''') None
      [OpStatus ''run_1'' RunRunning [], OpStatus ''run_2'' RunReconnecting [], OpStatus ''run_2'' RunRunning []] sample_tasks
    in (runs_map db ''run_1'', runs_map db ''run_2'', locks_map db ''wi_1'')) =
   (Some (''wi_1'', RunRunning), Some (''wi_1'', RunRunning), Some (True, ''run_1''))"
  by code_simp

end
