(* ===== verification/QuestionHistories.thy ===== *)
theory QuestionHistories
  imports QuestionRows RunHistories
begin

text \<open>
  Native questions over histories of the run service, and the delivery of an answer
  (\<^verbatim>\<open>ResolveQuestion\<close> of \<^verbatim>\<open>internal/application/runs.go\<close>): prepared in one transaction, handed to the
  runtime outside any, confirmed or withdrawn in another, with anything happening in between.
\<close>

section \<open>Questions over histories\<close>

text \<open>
  What the environment may do to questions: nothing but moves of the same kind. In particular
  anything may happen to the questions while an answer is being delivered.
\<close>

definition env_asks :: "'a RunS \<Rightarrow> 'a RunDb_scheme ApprovalEnv \<Rightarrow> 'a forwarder \<Rightarrow> bool" where
  "env_asks S E forwarder \<longleftrightarrow>
     (\<forall>r. within always q_step (rs_RenewDelegated S r)) \<and> (\<forall>r. within always q_step (ae_GoalGate E r)) \<and>
     (\<forall>a. within always q_step (ae_PlanOf E a)) \<and>
     (\<forall>a approved reason. within always q_step (ae_ResolvePlan E a approved reason)) \<and>
     (\<forall>f i j resp. forwarder = Some f \<longrightarrow> within always q_step (f i j resp))"

fun op_asks :: "task_op \<Rightarrow> bool" where
  "op_asks (OpAsk i q) \<longleftrightarrow> fresh_request q"
| "op_asks _ \<longleftrightarrow> True"

lemma resolve_question_step:
  assumes "\<And>f i j resp. fw = Some f \<Longrightarrow> within always q_step (f i j resp)"
  shows "within P q_step (ResolveQuestion S sp fw i j resp who)"
  unfolding ResolveQuestion_def
proof (intro qs.bind prepare_step qs.cond qs.return)
  fix q
  show "within always q_step (case fw of
         None \<Rightarrow> failM (ErrOther ''required capability unavailable'')
       | Some forward \<Rightarrow> (\<lambda>db. case forward (qn_RunID q) (qn_ID q) resp db of
             (Delivered, db1) \<Rightarrow> confirm_answer S (qn_ID q) resp who db1
           | (DeliveryUnknown e, db1) \<Rightarrow> (Inl e, db1)
           | (DeliveryFailed e, db1) \<Rightarrow> (Inl e, snd (clear_answer (qn_ID q) resp db1))))"
  proof (cases fw)
    case (Some f)
    show ?thesis unfolding Some option.case
    proof (rule qs.run_after [OF assms [OF Some]])
      fix x and db :: "'a RunDb_scheme"
      show "q_step db (snd (case x of Delivered \<Rightarrow> confirm_answer S (qn_ID q) resp who db | DeliveryUnknown e \<Rightarrow> (Inl e, db)
          | DeliveryFailed e \<Rightarrow> (Inl e, snd (clear_answer (qn_ID q) resp db))))"
        using withinD [OF confirm_step TrueI] withinD [OF clear_step TrueI] by (cases x) (simp_all add: qs.refl)
    qed
  qed (simp add: qs.fail)
qed

lemma resolve_approval_step:
  assumes "env_asks S E fw"
  shows "within P q_step (ResolveApproval S E i approved who reason scope)"
proof -
  have e: "within Q q_step (rs_RenewDelegated S r)" "within Q q_step (ae_GoalGate E r)" "within Q q_step (ae_PlanOf E a)"
    "within Q q_step (ae_ResolvePlan E a b s)" for Q r a b s
    using assms by (simp_all add: env_asks_def within_any)
  show ?thesis unfolding ResolveApproval_def resolve_plan_approval_def resolve_run_approval_def Let_def case_prod_beta
    by (intro qs.cond qs.fail qs.tx qs.bind qs.return qs.read qs.alt asks_nothing_step [OF sq_gets(7)] asks_nothing_step [OF sq_gets(2)]
        asks_nothing_step [OF sq_writes(6)] asks_nothing_step [OF sq_writes(7)] asks_nothing_step [OF sq_emit]
        asks_nothing_step [OF sq_parts(3)] asks_nothing_step [OF sq_lock(1)] with_run_q transition_q e)
qed

lemma op_q_step:
  assumes env: "env_asks S E fw" and op: "op_asks p"
  shows "q_step db (do_op S E sp fw p db)"
proof -
  have ren: "within always q_step (rs_RenewDelegated S r)" for r using env by (simp add: env_asks_def)
  have fw: "fw = Some f \<Longrightarrow> within always q_step (f i j resp)" for f i j resp using env by (simp add: env_asks_def)
  have rq: "within always q_step (ResolveQuestion S sp fw i j resp who)" for i j resp who
    by (rule resolve_question_step) (rule fw)
  have each: "within always q_step (RecordRunProgress S i p)" "within always q_step (RecordRunEvent S i ty data)"
    "within always q_step (RecordArtifact S i art)" "within always q_step (RequestApproval S i k ri su)"
    "within always q_step (RecordRunStatus S i to data)" "within always q_step (ControlRun S i action)"
    "within always q_step (ResolveQuestion S sp fw i j resp who)" "within always q_step (DismissQuestion S i j who)"
    "within always q_step (ResolveApproval S E i approved who reason scope)"
    "within always q_step (WorkItemRepo_ReleaseStaleLocks t :: 'a RunDb_scheme \<Rightarrow> _)"
    "within always q_step (InTx (RunRepo_Create r) :: 'a RunDb_scheme \<Rightarrow> _)"
    "within always q_step (InTx (WorkItemRepo_Create w) :: 'a RunDb_scheme \<Rightarrow> _)"
    for i p ty data art k ri su to action j resp who approved reason scope t r w
    by (rule record_step [OF ren] rq dismiss_step resolve_approval_step [OF env]
        asks_nothing_step [OF sq_writes(10)] qs.tx [OF asks_nothing_step [OF sq_writes(11)]] qs.tx [OF asks_nothing_step [OF sq_create_item]])+
  show ?thesis
    by (cases p) (use op in \<open>simp_all add: withinD [OF each(1)] withinD [OF each(2)] withinD [OF each(3)] withinD [OF each(4)]
      withinD [OF each(5)] withinD [OF each(6)] withinD [OF each(7)] withinD [OF each(8)] withinD [OF each(9)]
      withinD [OF each(10)] withinD [OF each(11)] withinD [OF each(12)] withinD [OF request_step]\<close>)
qed

lemma ops_q_step:
  assumes env: "env_asks S E fw"
  shows "list_all op_asks ops \<Longrightarrow> q_step db (task_history S E sp fw ops db)"
proof (induction ops arbitrary: db)
  case (Cons p ops)
  have "q_step db (do_op S E sp fw p db)" using Cons.prems by (intro op_q_step env) simp
  moreover have "q_step (do_op S E sp fw p db) (task_history S E sp fw ops (do_op S E sp fw p db))"
    using Cons.prems by (intro Cons.IH) simp
  ultimately show ?case unfolding task_history_def by (auto intro: q_step_trans)
qed (simp add: task_history_def qs.refl)

text \<open>
  C20. Stored questions are well typed over any history of the service, whatever fails and whatever
  happens during deliveries: every response, prepared or given, answers questions that were asked
  with options that were offered and of the arity allowed; a run asks a provider's question once;
  what was asked never changes, and a settled question keeps its status, response and time.
\<close>

theorem questions_well_typed:
  assumes "env_asks S E fw" and "list_all op_asks ops" and "questions_ok (db_questions db)"
    and "db' = task_history S E sp fw ops db"
  shows "(\<forall>q \<in> set (db_questions db'). QuestionRequest_Validate q = Inr q \<and>
      (\<forall>r. qn_Response q = Some r \<longrightarrow> QuestionResponse_Validate r (Some q) = None)) \<and>
    distinct (map provider_key (db_questions db')) \<and>
    (\<forall>q \<in> set (db_questions db). \<exists>q' \<in> set (db_questions db'). q_static q' = q_static q \<and>
      (qn_Status q \<noteq> QuestionPending \<longrightarrow>
        qn_Status q' = qn_Status q \<and> qn_Response q' = qn_Response q \<and> qn_ResolvedAt q' = qn_ResolvedAt q))"
proof -
  have "questions_ok (db_questions db') \<and> (\<forall>q \<in> set (db_questions db). \<exists>q' \<in> set (db_questions db'). q_later q q')"
    using ops_q_step [OF assms(1,2), of db sp] assms(3,4) by (simp add: q_step_def)
  then show ?thesis unfolding questions_ok_def list_all_iff stored_ok_def q_ok_def q_later_def by blast
qed

section \<open>Delivering an answer\<close>

definition qrow :: "'a RunDb_scheme \<Rightarrow> string \<Rightarrow> QuestionRequest option" where
  "qrow db j = List.find (\<lambda>q. qn_ID q = j) (db_questions db)"

lemma qrow_same: "same_questions db db' \<Longrightarrow> qrow db' j = qrow db j"
  by (simp add: qrow_def same_questions_def)

lemma find_map_key: "(\<And>x. k (g x) = k x) \<Longrightarrow> List.find (\<lambda>y. k y = j) (map g xs) = map_option g (List.find (\<lambda>y. k y = j) xs)"
  by (induction xs) auto

lemma get_row:
  assumes "QuestionRepo_Get j db = (Inr q, db1)"
  shows "qrow db j = Some q \<and> qn_ID q = j \<and> same_questions db db1"
proof -
  have "same_questions db db1" using withinD [OF sq_gets(5) TrueI, of db j] by (simp add: assms)
  moreover have "qrow db j = Some q" using assms unfolding QuestionRepo_Get_def qrow_def
    by (cases rule: query_stmt_cases) (auto split: option.splits)
  ultimately show ?thesis by (auto simp: qrow_def find_Some_iff)
qed

lemma update_row:
  assumes "QuestionRepo_Update q' db = (Inr u, db')" and "qrow db (qn_ID q') = Some x"
  shows "qrow db' (qn_ID q') = Some (written_question q' x)"
proof -
  have id: "qn_ID x = qn_ID q'" using assms(2) by (auto simp: qrow_def find_Some_iff)
  have "db_questions db' = map (\<lambda>x. if qn_ID x = qn_ID q' then written_question q' x else x) (db_questions db)"
    using assms(1) unfolding update_written by (auto elim!: exec_stmt_cases split: if_splits)
  moreover have "qn_ID (if qn_ID x = qn_ID q' then written_question q' x else x) = qn_ID x" for x
    by (simp add: written_question_def)
  ultimately show ?thesis using assms(2) id by (simp add: qrow_def find_map_key)
qed

text \<open>A transaction that fails leaves the row.\<close>

lemma tx_row_error: "InTx f db = (Inl e, db') \<Longrightarrow> qrow db' j = qrow db j"
  by (elim InTx_cases) (auto simp: qrow_def)

lemma tx_row_ok:
  fixes db :: "'a RunDb_scheme"
  assumes "InTx f db = (Inr x, db')"
  obtains db1 db2 :: "'a RunDb_scheme" where "f db1 = (Inr x, db2)" "\<forall>j. qrow db1 j = qrow db j" "\<forall>j. qrow db' j = qrow db2 j"
proof -
  from assms obtain db2 n where "f (db\<lparr>cn_step := Suc (cn_step db)\<rparr>) = (Inr x, db2)" "db' = db2\<lparr>cn_step := n\<rparr>"
    by (cases rule: InTx_cases) auto
  then show thesis by (intro that [of "db\<lparr>cn_step := Suc (cn_step db)\<rparr>" db2]) (simp_all add: qrow_def)
qed

lemma prepared_row:
  fixes db :: "'a RunDb_scheme"
  assumes a: "prepare_answer sp i j resp db = (Inr q1, db')" and q: "qrow db j = Some q" and p: "qn_Status q = QuestionPending"
    and st: "map_option stored_response (qn_Response q) = qn_Response q"
  shows "qn_Status q1 = QuestionPending \<and> qn_ID q1 = j \<and> (\<exists>q' r. qrow db' j = Some q' \<and> q_static q' = q_static q \<and>
    qn_Status q' = QuestionPending \<and> qn_Response q' = Some r \<and> stored_response r = r \<and> (r = stored_response resp \<or> qn_Response q = Some r))"
proof -
  obtain db1 db2 :: "'a RunDb_scheme" where b: "bindM (QuestionRepo_Get j) (\<lambda>q.
      if qn_RunID q \<noteq> i then failM ErrNotFound
      else if qn_Status q = QuestionAnswered then
        (if (case qn_Response q of None \<Rightarrow> False | Some r \<Rightarrow> QuestionResponse_Equal r resp) \<and>
            (case qn_ProviderAnswers q of None \<Rightarrow> True | Some a \<Rightarrow> QuestionRequest_MatchesProviderAnswers sp q a)
         then returnM q else failM (ErrStateConflict ''question already has a different answer''))
      else bindM (RunRepo_Get (qn_RunID q)) (\<lambda>r.
        if RunStatus_IsTerminal (rn_Status r) then failM (ErrStateConflict ''run is terminal'')
        else (case QuestionRequest_PrepareResponse q resp of
            Inl e \<Rightarrow> failM e
          | Inr q' \<Rightarrow> bindM (QuestionRepo_Update q') (\<lambda>_. returnM q')))) db1 = (Inr q1, db2)"
    and rows: "\<forall>j. qrow db1 j = qrow db j" "\<forall>j. qrow db' j = qrow db2 j"
    using a unfolding prepare_answer_def by (rule tx_row_ok)
  obtain q0 db3 where g: "QuestionRepo_Get j db1 = (Inr q0, db3)" and rest: "(if qn_RunID q0 \<noteq> i then failM ErrNotFound
      else if qn_Status q0 = QuestionAnswered then
        (if (case qn_Response q0 of None \<Rightarrow> False | Some r \<Rightarrow> QuestionResponse_Equal r resp) \<and>
            (case qn_ProviderAnswers q0 of None \<Rightarrow> True | Some a \<Rightarrow> QuestionRequest_MatchesProviderAnswers sp q0 a)
         then returnM q0 else failM (ErrStateConflict ''question already has a different answer''))
      else bindM (RunRepo_Get (qn_RunID q0)) (\<lambda>r.
        if RunStatus_IsTerminal (rn_Status r) then failM (ErrStateConflict ''run is terminal'')
        else (case QuestionRequest_PrepareResponse q0 resp of
            Inl e \<Rightarrow> failM e
          | Inr q' \<Rightarrow> bindM (QuestionRepo_Update q') (\<lambda>_. returnM q')))) db3 = (Inr q1, db2)"
    using b by (rule bindM_ok)
  have q0: "q0 = q" "qn_ID q = j" "qrow db3 j = Some q" using get_row [OF g] rows(1) q qrow_same [of db1 db3 j] by auto
  then have "bindM (RunRepo_Get (qn_RunID q)) (\<lambda>r.
        if RunStatus_IsTerminal (rn_Status r) then failM (ErrStateConflict ''run is terminal'')
        else (case QuestionRequest_PrepareResponse q resp of
            Inl e \<Rightarrow> failM e
          | Inr q' \<Rightarrow> bindM (QuestionRepo_Update q') (\<lambda>_. returnM q'))) db3 = (Inr q1, db2)"
    using rest [unfolded q0(1)] p by (simp split: if_splits)
  then obtain r db4 where gr: "RunRepo_Get (qn_RunID q) db3 = (Inr r, db4)"
    and up: "(if RunStatus_IsTerminal (rn_Status r) then failM (ErrStateConflict ''run is terminal'')
        else (case QuestionRequest_PrepareResponse q resp of
            Inl e \<Rightarrow> failM e
          | Inr q' \<Rightarrow> bindM (QuestionRepo_Update q') (\<lambda>_. returnM q'))) db4 = (Inr q1, db2)"
    by (rule bindM_ok)
  have "same_questions db3 db4" using withinD [OF sq_gets(2) TrueI, of db3 "qn_RunID q"] by (simp add: gr)
  then have r4: "qrow db4 j = Some q" using q0(3) qrow_same [of db3 db4 j] by simp
  obtain q2 where pr: "QuestionRequest_PrepareResponse q resp = Inr q2"
    and u2: "bindM (QuestionRepo_Update q2) (\<lambda>_. returnM q2) db4 = (Inr q1, db2)"
    using up by (auto split: if_splits sum.splits)
  obtain y db5 where u: "QuestionRepo_Update q2 db4 = (Inr y, db5)" and e: "returnM q2 db5 = (Inr q1, db2)" using u2 by (rule bindM_ok)
  have q1: "q1 = q2" "db2 = db5" using e by simp_all
  have q2: "q2 = q \<and> qn_Response q \<noteq> None \<or> q2 = q\<lparr>qn_Response := Some resp\<rparr>"
    using pr by (auto simp: QuestionRequest_PrepareResponse_def split: if_splits option.splits)
  have id2: "qn_ID q2 = j" "qn_Status q2 = QuestionPending" using q2 q0(2) p by auto
  have row: "qrow db5 j = Some (written_question q2 q)" using update_row [OF u] r4 id2 by simp
  have "\<exists>r. qn_Response (written_question q2 q) = Some r \<and> stored_response r = r \<and> (r = stored_response resp \<or> qn_Response q = Some r)"
    using q2 st by (auto simp: written_question_def)
  then show ?thesis using row id2 q1 rows(2) written_static [of q2 q] by (auto simp: written_question_def)
qed

lemma confirmed_row:
  fixes db :: "'a RunDb_scheme"
  assumes a: "confirm_answer S j resp who db = (Inr q1, db')" and q: "qrow db j = Some q" and p: "qn_Status q \<noteq> QuestionAnswered"
  shows "\<exists>q' r. qrow db' j = Some q' \<and> q_static q' = q_static q \<and> qn_Status q' = QuestionAnswered \<and>
    qn_Response q = Some r \<and> qn_Response q' = Some (stored_response r) \<and> QuestionResponse_Equal r resp"
proof -
  let ?tail = "\<lambda>q'. bindM (RunRepo_Get (qn_RunID q')) (\<lambda>r. bindM (WorkItemRepo_Get (rn_WorkItemID r)) (\<lambda>w.
            bindM (emit_run S r ''question.resolved'' (rn_Version r)
              [(''run_id'', VStr (rn_ID r)), (''work_item_id'', VStr (rn_WorkItemID r)), (''question_id'', VStr (qn_ID q')),
               (''provider_question_id'', VStr (qn_ProviderID q')), (''status'', VStr (QuestionStatus_text (qn_Status q'))),
               (''response'', response_value resp), (''resolved_by'', VStr who), (''record_kind'', kind_value w)])
              (\<lambda>_. returnM q')))"
  obtain db1 db2 :: "'a RunDb_scheme" where b: "bindM (QuestionRepo_Get j) (\<lambda>q.
      if qn_Status q = QuestionAnswered then returnM q
      else if (case qn_Response q of None \<Rightarrow> True | Some r \<Rightarrow> \<not> QuestionResponse_Equal r resp)
        then failM (ErrStateConflict ''prepared response changed during delivery'')
      else readM nowM (\<lambda>now. case QuestionRequest_CompleteResponse q now of
          Inl e \<Rightarrow> failM e
        | Inr q' \<Rightarrow> bindM (QuestionRepo_Update q') (\<lambda>_. ?tail q'))) db1 = (Inr q1, db2)"
    and rows: "\<forall>j. qrow db1 j = qrow db j" "\<forall>j. qrow db' j = qrow db2 j"
    using a unfolding confirm_answer_def by (rule tx_row_ok)
  obtain q0 db3 where g: "QuestionRepo_Get j db1 = (Inr q0, db3)" and rest: "(if qn_Status q0 = QuestionAnswered then returnM q0
      else if (case qn_Response q0 of None \<Rightarrow> True | Some r \<Rightarrow> \<not> QuestionResponse_Equal r resp)
        then failM (ErrStateConflict ''prepared response changed during delivery'')
      else readM nowM (\<lambda>now. case QuestionRequest_CompleteResponse q0 now of
          Inl e \<Rightarrow> failM e
        | Inr q' \<Rightarrow> bindM (QuestionRepo_Update q') (\<lambda>_. ?tail q'))) db3 = (Inr q1, db2)"
    using b by (rule bindM_ok)
  have q0: "q0 = q" "qn_ID q = j" "qrow db3 j = Some q" using get_row [OF g] rows(1) q qrow_same [of db1 db3 j] by auto
  then obtain r q2 where r: "qn_Response q = Some r" "QuestionResponse_Equal r resp"
    and cr: "QuestionRequest_CompleteResponse q (nowM db3) = Inr q2"
    and u2: "bindM (QuestionRepo_Update q2) (\<lambda>_. ?tail q2) db3 = (Inr q1, db2)"
    using rest [unfolded q0(1)] p by (auto simp: readM_def split: if_splits sum.splits option.splits)
  obtain y db5 where u: "QuestionRepo_Update q2 db3 = (Inr y, db5)" and e: "?tail q2 db5 = (Inr q1, db2)" using u2 by (rule bindM_ok)
  have q2: "q2 = q\<lparr>qn_Status := QuestionAnswered, qn_ResolvedAt := Some (nowM db3)\<rparr>"
    using cr p r by (auto simp: QuestionRequest_CompleteResponse_def split: if_splits)
  have id2: "qn_ID q2 = j" using q2 q0(2) by simp
  have row: "qrow db5 j = Some (written_question q2 q)" using update_row [OF u] q0(3) id2 by simp
  have "within always same_questions (?tail q2)" by (intro asks_nothing)
  from withinD [OF this TrueI, of db5] have "same_questions db5 db2" by (simp only: e snd_conv)
  then have "qrow db' j = Some (written_question q2 q)" using row rows(2) qrow_same [of db5 db2 j] by simp
  then show ?thesis using r q2 written_static [of q2 q] by (auto simp: written_question_def)
qed

lemma cleared_row:
  fixes db :: "'a RunDb_scheme"
  assumes q: "qrow db j = Some q" and p: "qn_Status q = QuestionPending" and st: "map_option stored_response (qn_Response q) = qn_Response q"
  shows "\<exists>q'. qrow (snd (clear_answer j resp db)) j = Some q' \<and> q_static q' = q_static q \<and> qn_Status q' = QuestionPending \<and>
    qn_Response q' \<in> {qn_Response q, None}"
proof -
  obtain x db' where e: "clear_answer j resp db = (x, db')" by (cases "clear_answer j resp db")
  show ?thesis
  proof (cases x)
    case (Inl er)
    then have "qrow db' j = qrow db j" using e unfolding clear_answer_def by (intro tx_row_error) simp
    then show ?thesis using q p by (simp add: e)
  next
    case (Inr u)
    let ?c = "\<lambda>q. if qn_Status q = QuestionPending \<and> (case qn_Response q of None \<Rightarrow> False | Some r \<Rightarrow> QuestionResponse_Equal r resp)
         then QuestionRequest_ClearPreparedResponse q else q"
    obtain db1 db2 :: "'a RunDb_scheme" where b: "bindM (QuestionRepo_Get j) (\<lambda>q. QuestionRepo_Update (?c q)) db1 = (Inr u, db2)"
      and rows: "\<forall>j. qrow db1 j = qrow db j" "\<forall>j. qrow db' j = qrow db2 j"
      using e [unfolded Inr] unfolding clear_answer_def by (rule tx_row_ok)
    obtain q0 db3 where g: "QuestionRepo_Get j db1 = (Inr q0, db3)" and up: "QuestionRepo_Update (?c q0) db3 = (Inr u, db2)"
      using b by (rule bindM_ok)
    have q0: "q0 = q" "qn_ID q = j" "qrow db3 j = Some q" using get_row [OF g] rows(1) q qrow_same [of db1 db3 j] by auto
    have id: "qn_ID (?c q) = j" using q0(2) by (simp add: QuestionRequest_ClearPreparedResponse_def)
    have "qrow db2 j = Some (written_question (?c q) q)" using update_row [OF up [unfolded q0(1)]] q0(3) id by simp
    moreover have "qn_Status (written_question (?c q) q) = QuestionPending" "qn_Response (written_question (?c q) q) \<in> {qn_Response q, None}"
      using p st by (auto simp: written_question_def QuestionRequest_ClearPreparedResponse_def)
    ultimately show ?thesis using rows(2) written_static [of "?c q" q] by (simp add: e)
  qed
qed

lemma row_in: "qrow db j = Some q \<Longrightarrow> q \<in> set (db_questions db) \<and> qn_ID q = j"
  by (auto simp: qrow_def find_Some_iff)

lemma in_row: "questions_ok (db_questions db) \<Longrightarrow> q \<in> set (db_questions db) \<Longrightarrow> qrow db (qn_ID q) = Some q"
  using find_by_id [of qn_ID "db_questions db" q] by (simp add: qrow_def questions_ok_def)

lemma ok_row: "questions_ok (db_questions db) \<Longrightarrow> qrow db j = Some q \<Longrightarrow> map_option stored_response (qn_Response q) = qn_Response q"
  using row_in [of db j q] by (simp add: questions_ok_def list_all_iff stored_ok_def)

lemma step_row:
  assumes "q_step db db'" and "questions_ok (db_questions db)" and "qrow db j = Some q"
  obtains q' where "questions_ok (db_questions db')" "qrow db' j = Some q'" "q_later q q'"
proof -
  obtain q' where q': "questions_ok (db_questions db')" "q' \<in> set (db_questions db')" "q_later q q'"
    using assms row_in [OF assms(3)] unfolding q_step_def by blast
  have "qn_ID q' = j" using q'(3) static_fields row_in [OF assms(3)] unfolding q_later_def by metis
  then show thesis using that q' in_row [OF q'(1,2)] by simp
qed

subsection \<open>One delivery at a time\<close>

text \<open>
  \<^verbatim>\<open>deliverQuestionSingleflight\<close> keeps the response that is being delivered for a question: the call
  that finds none leads the delivery and removes the entry when it comes back, a call with an equal
  response waits for the leader and gets its error, a call with another response is refused. What
  follows, \<^verbatim>\<open>ResolveQuestion\<close>, is the way of a leading call.
\<close>

datatype delivery_part = Leads | Waits | Refused go_error

definition enter_delivery :: "string \<Rightarrow> QuestionResponse \<Rightarrow> (string \<rightharpoonup> QuestionResponse) \<Rightarrow> delivery_part \<times> (string \<rightharpoonup> QuestionResponse)" where
  "enter_delivery j resp m =
     (case m j of
        Some current \<Rightarrow>
          (if \<not> QuestionResponse_Equal current resp then Refused (ErrStateConflict ''another response is already being delivered'')
           else Waits, m)
      | None \<Rightarrow> (Leads, m(j \<mapsto> resp)))"

definition leave_delivery :: "string \<Rightarrow> (string \<rightharpoonup> QuestionResponse) \<Rightarrow> (string \<rightharpoonup> QuestionResponse)" where
  "leave_delivery j m = m(j := None)"

datatype delivery_event = Enters string QuestionResponse | Leaves string

fun delivery_map :: "(string \<rightharpoonup> QuestionResponse) \<Rightarrow> delivery_event \<Rightarrow> (string \<rightharpoonup> QuestionResponse)" where
  "delivery_map m (Enters j resp) = snd (enter_delivery j resp m)"
| "delivery_map m (Leaves j) = leave_delivery j m"

text \<open>Until the leader of a question leaves, no other call leads it, and only equal responses wait.\<close>

lemma single_delivery:
  assumes "fst (enter_delivery j resp m) = Leads" and "Leaves j \<notin> set evs"
    and "part = fst (enter_delivery j resp' (foldl delivery_map (snd (enter_delivery j resp m)) evs))"
  shows "part \<noteq> Leads \<and> (part = Waits \<longrightarrow> QuestionResponse_Equal resp resp')"
proof -
  have "foldl delivery_map m' evs j = Some resp" if "m' j = Some resp" for m'
    using that assms(2)
  proof (induction evs arbitrary: m')
    case (Cons ev evs)
    have "delivery_map m' ev j = Some resp"
      using Cons.prems by (cases ev) (auto simp: enter_delivery_def leave_delivery_def split: option.splits)
    then show ?case using Cons by simp
  qed simp
  moreover have "snd (enter_delivery j resp m) j = Some resp"
    using assms(1) by (auto simp: enter_delivery_def split: option.splits if_splits)
  ultimately show ?thesis using assms(3) by (auto simp: enter_delivery_def split: if_splits)
qed

text \<open>The state in which the delivery of a prepared answer comes back, if there is one.\<close>

definition delivered_at ::
  "(goval \<Rightarrow> string) \<Rightarrow> 'a forwarder \<Rightarrow> string \<Rightarrow> string \<Rightarrow> QuestionResponse \<Rightarrow> 'a RunDb_scheme \<Rightarrow> 'a RunDb_scheme option" where
  "delivered_at sp fw i j resp db =
     (case prepare_answer sp i j resp db of
        (Inl _, _) \<Rightarrow> None
      | (Inr q, db1) \<Rightarrow> map_option (\<lambda>f. snd (f (qn_RunID q) (qn_ID q) resp db1)) fw)"

lemma after_delivery:
  assumes ok: "questions_ok (db_questions db)" and r: "qrow db j = Some q" and st: "q_static q = q_static q0"
  shows "case (case d of Delivered \<Rightarrow> confirm_answer S j resp who db | DeliveryUnknown e \<Rightarrow> (Inl e, db)
        | DeliveryFailed e \<Rightarrow> (Inl e, snd (clear_answer j resp db))) of (res, db') \<Rightarrow>
    \<exists>q' \<in> set (db_questions db'). q_static q' = q_static q0 \<and>
      (case res of
         Inr _ \<Rightarrow> qn_Status q' = QuestionAnswered \<and>
           (qn_Status q = QuestionAnswered \<or> (\<exists>r. qn_Response q' = Some r \<and> QuestionResponse_Equal r resp))
       | Inl _ \<Rightarrow> qn_Status q' = qn_Status q \<and> qn_Response q' \<in> {qn_Response q, None})"
proof (cases d)
  case Delivered
  obtain y db3 where c: "confirm_answer S j resp who db = (y, db3)" by (cases "confirm_answer S j resp who db")
  show ?thesis
  proof (cases y)
    case (Inl e)
    then have "qrow db3 j = Some q" using c tx_row_error [of _ db e db3 j] r unfolding confirm_answer_def by simp
    then show ?thesis using row_in st by (auto simp: Delivered c Inl)
  next
    case (Inr a)
    show ?thesis
    proof (cases "qn_Status q = QuestionAnswered")
      case True
      have "q_step db db3" using withinD [OF confirm_step [of always S j resp who] TrueI, of db] by (simp add: c)
      then obtain q' where "qrow db3 j = Some q'" "q_later q q'" using ok r by (rule step_row)
      then show ?thesis using True st row_in [of db3 j q'] by (auto simp: Delivered c Inr q_later_def)
    next
      case False
      from confirmed_row [OF c [unfolded Inr] r False] obtain q' r' where
        q': "qrow db3 j = Some q'" "q_static q' = q_static q" "qn_Status q' = QuestionAnswered"
        "qn_Response q = Some r'" "qn_Response q' = Some (stored_response r')" "QuestionResponse_Equal r' resp"
        by blast
      have "stored_response r' = r'" using ok_row [OF ok r] q'(4) by simp
      then show ?thesis using q' st row_in [OF q'(1)] by (auto simp: Delivered c Inr intro!: bexI [of _ q'])
    qed
  qed
next
  case (DeliveryUnknown e)
  then show ?thesis using row_in [OF r] st by auto
next
  case (DeliveryFailed e)
  show ?thesis
  proof (cases "qn_Status q = QuestionPending")
    case True
    from cleared_row [OF r True ok_row [OF ok r]] obtain q' where "qrow (snd (clear_answer j resp db)) j = Some q'"
      "q_static q' = q_static q" "qn_Status q' = QuestionPending" "qn_Response q' \<in> {qn_Response q, None}" by blast
    then show ?thesis using True st row_in [of "snd (clear_answer j resp db)" j q'] by (auto simp: DeliveryFailed)
  next
    case False
    have "q_step db (snd (clear_answer j resp db))" by (rule withinD [OF clear_step TrueI])
    then obtain q' where "qrow (snd (clear_answer j resp db)) j = Some q'" "q_later q q'" using ok r by (rule step_row)
    then show ?thesis using False st row_in [of "snd (clear_answer j resp db)" j q'] by (auto simp: DeliveryFailed q_later_def)
  qed
qed

text \<open>
  C4. An answer that \<^verbatim>\<open>ResolveQuestion\<close> reports as given is the answer that is stored: the row is
  answered, and its response equals the one that was delivered unless the question had been answered
  already when the delivery came back. A call that fails settles nothing: the question is pending,
  or was settled by something else while the answer was being delivered. Anything that respects
  questions may happen during the delivery. If nothing happens to the questions meanwhile, then after
  a failure - refused, undeliverable, unconfirmed or by the store - the question is pending, and its
  prepared response is the earlier one, none, or the one of this call.
\<close>

theorem answer_given_is_stored:
  fixes db :: "'a RunDb_scheme"
  assumes ok: "questions_ok (db_questions db)" and q: "q \<in> set (db_questions db)" "qn_Status q = QuestionPending"
    and fw: "\<forall>f i j resp. fw = Some f \<longrightarrow> within always q_step (f i j resp)"
  shows "let (res, db') = ResolveQuestion S sp fw i (qn_ID q) resp who db;
      met = (\<lambda>P. \<exists>d x. delivered_at sp fw i (qn_ID q) resp db = Some d \<and> x \<in> set (db_questions d) \<and> qn_ID x = qn_ID q \<and> P (qn_Status x))
    in \<exists>q' \<in> set (db_questions db'). q_static q' = q_static q \<and>
      (case res of
         Inr _ \<Rightarrow> qn_Status q' = QuestionAnswered \<and>
           (met (\<lambda>s. s = QuestionAnswered) \<or> (\<exists>r. qn_Response q' = Some r \<and> QuestionResponse_Equal r resp))
       | Inl _ \<Rightarrow> (qn_Status q' = QuestionPending \<or> met (\<lambda>s. s = qn_Status q')) \<and>
           ((\<forall>f i j resp. fw = Some f \<longrightarrow> within always same_questions (f i j resp)) \<longrightarrow>
             qn_Status q' = QuestionPending \<and> qn_Response q' \<in> {qn_Response q, None, Some (stored_response resp)}))"
proof -
  let ?j = "qn_ID q"
  have st: "map_option stored_response (qn_Response q) = qn_Response q" using ok q(1) by (simp add: questions_ok_def list_all_iff stored_ok_def)
  have row: "qrow db ?j = Some q" by (rule in_row [OF ok q(1)])
  obtain x db1 where p: "prepare_answer sp i ?j resp db = (x, db1)" by (cases "prepare_answer sp i ?j resp db")
  show ?thesis
  proof (cases x)
    case (Inl e)
    then have "qrow db1 ?j = Some q" using p tx_row_error [of _ db e db1 ?j] row unfolding prepare_answer_def by simp
    then show ?thesis using row_in q(2) by (auto simp: ResolveQuestion_def bindM_def p Inl)
  next
    case (Inr q1)
    from prepared_row [OF p [unfolded Inr] row q(2) st] obtain q' r where
      q1: "qn_Status q1 = QuestionPending" "qn_ID q1 = ?j" and r1: "qrow db1 ?j = Some q'" and sq: "q_static q' = q_static q"
      and p': "qn_Status q' = QuestionPending" "qn_Response q' = Some r" "stored_response r = r" "r = stored_response resp \<or> qn_Response q = Some r"
      by blast
    show ?thesis
    proof (cases fw)
      case None
      then have "ResolveQuestion S sp fw i ?j resp who db = (Inl (ErrOther ''required capability unavailable''), db1)"
        using q1 by (simp add: ResolveQuestion_def bindM_def p Inr failM_def)
      then show ?thesis using row_in [OF r1] sq p' by (auto simp: Let_def intro!: bexI [of _ q'])
    next
      case (Some f)
      obtain d db2 where d: "f (qn_RunID q1) ?j resp db1 = (d, db2)" by (cases "f (qn_RunID q1) ?j resp db1")
      have "q_step db db1" using withinD [OF prepare_step [of always sp i ?j resp] TrueI, of db] by (simp add: p)
      then have ok1: "questions_ok (db_questions db1)" using ok by (simp add: q_step_def)
      have "q_step db1 db2" using withinD [OF fw [rule_format, OF Some] TrueI, of db1 "qn_RunID q1" ?j resp] by (simp add: d)
      then obtain q2 where ok2: "questions_ok (db_questions db2)" and r2: "qrow db2 ?j = Some q2" and l2: "q_later q' q2"
        using ok1 r1 by (rule step_row)
      have at: "delivered_at sp fw i ?j resp db = Some db2" using q1 d Some by (simp add: delivered_at_def p Inr)
      have quiet: "q2 = q'" if "\<forall>f i j resp. fw = Some f \<longrightarrow> within always same_questions (f i j resp)"
      proof -
        have "same_questions db1 db2" using withinD [OF that [rule_format, OF Some] TrueI, of db1 "qn_RunID q1" ?j resp] by (simp add: d)
        then show ?thesis using r1 r2 qrow_same [of db1 db2 ?j] by simp
      qed
      have res: "ResolveQuestion S sp fw i ?j resp who db = (case d of Delivered \<Rightarrow> confirm_answer S ?j resp who db2
          | DeliveryUnknown e \<Rightarrow> (Inl e, db2) | DeliveryFailed e \<Rightarrow> (Inl e, snd (clear_answer ?j resp db2)))"
        using q1 d Some by (simp add: ResolveQuestion_def bindM_def p Inr cong: delivery.case_cong)
      obtain y db3 where y: "ResolveQuestion S sp fw i ?j resp who db = (y, db3)" by (cases "ResolveQuestion S sp fw i ?j resp who db")
      have st2: "q_static q2 = q_static q" using l2 sq by (simp add: q_later_def)
      from after_delivery [OF ok2 r2 st2, where d = d and S = S and resp = resp and who = who] obtain q3 where q3: "q3 \<in> set (db_questions db3)" "q_static q3 = q_static q"
        "case y of Inr _ \<Rightarrow> qn_Status q3 = QuestionAnswered \<and>
           (qn_Status q2 = QuestionAnswered \<or> (\<exists>r. qn_Response q3 = Some r \<and> QuestionResponse_Equal r resp))
         | Inl _ \<Rightarrow> qn_Status q3 = qn_Status q2 \<and> qn_Response q3 \<in> {qn_Response q2, None}"
        unfolding res [symmetric] y by auto
      show ?thesis
        unfolding y Let_def prod.case at using q3 row_in [OF r2] quiet p' by (intro bexI [OF _ q3(1)]) (auto split: sum.splits)
    qed
  qed
qed

definition sample_question :: QuestionRequest where
  "sample_question = \<lparr>qn_ID = '''', qn_RunID = '''', qn_WorkItemID = '''', qn_SessionRef = ''s'', qn_ProviderID = ''p'', qn_AgentID = '''',
     qn_TurnID = 0, qn_ToolCallID = '''', qn_Questions = [\<lparr>qi_ID = ''q'', qi_Question = ''Q'', qi_Header = '''', qi_Body = '''',
       qi_Options = [\<lparr>qo_ID = ''a'', qo_Label = ''A'', qo_Description = ''''\<rparr>, \<lparr>qo_ID = ''b'', qo_Label = ''B'', qo_Description = ''''\<rparr>],
       qi_MultiSelect = False, qi_AllowOther = False, qi_OtherLabel = '''', qi_OtherDescription = ''''\<rparr>],
     qn_Status = QuestionStatusUnset, qn_Response = None, qn_ProviderAnswers = None, qn_CreatedAt = 1, qn_ResolvedAt = None\<rparr>"

definition sample_answer :: "string list option \<Rightarrow> QuestionResponse" where
  "sample_answer ids = \<lparr>qs_Answers = [(''q'', \<lparr>qa_Kind = ''single'', qa_OptionID = ''a'', qa_OptionIDs = ids, qa_Text = '''', qa_OtherText = ''''\<rparr>)],
     qs_Method = '''', qs_Note = ''''\<rparr>"

definition sample_forward :: "unit forwarder" where
  "sample_forward = Some (\<lambda>_ _ _ db. (Delivered, db))"

definition sample_asked :: RunDb where
  "sample_asked = snd (RequestQuestion sample_service ''run_1'' sample_question sample_tasks)"

definition sample_asked_id :: string where "sample_asked_id = ''exxxx''"

lemma sample_asked_row: "map qn_ID (db_questions sample_asked) = [sample_asked_id]"
  by code_simp

lemma sample_env_asks: "env_asks sample_service sample_approvals sample_forward"
  by (auto simp: env_asks_def sample_service_def sample_approvals_def sample_forward_def returnM_def within_def qs.refl)

theorem questions_well_typed_witness:
  "let db = task_history sample_service sample_approvals (\<lambda>_. '''') sample_forward
      [OpAsk ''run_1'' sample_question, OpAnswer ''run_1'' sample_asked_id (sample_answer None) ''u''] sample_tasks
   in map qn_Status (db_questions db) = [QuestionAnswered] \<and>
     (\<forall>q \<in> set (db_questions db). \<forall>r. qn_Response q = Some r \<longrightarrow> QuestionResponse_Validate r (Some q) = None)"
proof -
  let ?ops = "[OpAsk ''run_1'' sample_question, OpAnswer ''run_1'' sample_asked_id (sample_answer None) ''u'']"
  let ?db = "task_history sample_service sample_approvals (\<lambda>_. '''') sample_forward ?ops sample_tasks"
  have "map qn_Status (db_questions ?db) = [QuestionAnswered]" by code_simp
  moreover have "list_all op_asks ?ops" by (simp add: fresh_request_def sample_question_def)
  moreover have "questions_ok (db_questions sample_tasks)" by (simp add: sample_tasks_def questions_ok_def)
  ultimately show ?thesis using questions_well_typed [OF sample_env_asks _ _ refl, of ?ops sample_tasks "\<lambda>_. ''''"] by (simp only: Let_def) blast
qed

theorem answer_given_is_stored_witness:
  "let db = snd (ResolveQuestion sample_service (\<lambda>_. '''') sample_forward ''run_1'' sample_asked_id (sample_answer None) ''u'' sample_asked)
   in \<exists>q \<in> set (db_questions db). qn_Status q = QuestionAnswered \<and>
     (\<exists>r. qn_Response q = Some r \<and> QuestionResponse_Equal r (sample_answer None))"
proof -
  have fresh: "fresh_request sample_question" by (simp add: fresh_request_def sample_question_def)
  have "q_step sample_tasks sample_asked" unfolding sample_asked_def by (rule withinD [OF request_step [OF fresh] TrueI])
  then have ok: "questions_ok (db_questions sample_asked)" by (simp add: q_step_def sample_tasks_def questions_ok_def)
  obtain q where q: "db_questions sample_asked = [q]" "qn_ID q = sample_asked_id" using sample_asked_row by auto
  have "map qn_Status (db_questions sample_asked) = [QuestionPending]" by code_simp
  then have pending: "q \<in> set (db_questions sample_asked)" "qn_Status q = QuestionPending" using q by simp_all
  have fw: "\<forall>f i j resp. sample_forward = Some f \<longrightarrow> within always q_step (f i j resp)"
    by (auto simp: sample_forward_def within_def qs.refl)
  have open_row: "\<forall>d x. delivered_at (\<lambda>_. '''') sample_forward ''run_1'' sample_asked_id (sample_answer None) sample_asked = Some d \<longrightarrow>
      x \<in> set (db_questions d) \<longrightarrow> qn_Status x \<noteq> QuestionAnswered"
  proof -
    have "(case delivered_at (\<lambda>_. '''') sample_forward ''run_1'' sample_asked_id (sample_answer None) sample_asked of
        None \<Rightarrow> False | Some d \<Rightarrow> list_all (\<lambda>x. qn_Status x \<noteq> QuestionAnswered) (db_questions d)) = True" by code_simp
    then show ?thesis by (auto simp: list_all_iff)
  qed
  have res: "\<exists>a. fst (ResolveQuestion sample_service (\<lambda>_. '''') sample_forward ''run_1'' sample_asked_id (sample_answer None) ''u'' sample_asked) = Inr a"
  proof -
    have "(case fst (ResolveQuestion sample_service (\<lambda>_. '''') sample_forward ''run_1'' sample_asked_id (sample_answer None) ''u'' sample_asked) of
        Inl _ \<Rightarrow> False | Inr _ \<Rightarrow> True) = True" by code_simp
    then show ?thesis by (simp split: sum.splits)
  qed
  obtain a db' where r: "ResolveQuestion sample_service (\<lambda>_. '''') sample_forward ''run_1'' sample_asked_id (sample_answer None) ''u'' sample_asked = (Inr a, db')"
    using res by (cases "ResolveQuestion sample_service (\<lambda>_. '''') sample_forward ''run_1'' sample_asked_id (sample_answer None) ''u'' sample_asked") auto
  show ?thesis using answer_given_is_stored [OF ok pending fw, of sample_service "\<lambda>_. ''''" "''run_1''" "sample_answer None" "''u''"]
    unfolding q(2) r Let_def prod.case sum.case snd_conv using open_row by blast
qed

text \<open>
  An answer that comes with an explicit empty list of options is never confirmed: the store keeps
  the list as absent, so that the prepared response differs from the one that was delivered, and a
  second attempt conflicts with the first.
\<close>

lemma empty_option_list_unconfirmed:
  "let first = ResolveQuestion sample_service (\<lambda>_. '''') sample_forward ''run_1'' sample_asked_id (sample_answer (Some [])) ''u'' sample_asked
   in (fst first, fst (ResolveQuestion sample_service (\<lambda>_. '''') sample_forward ''run_1'' sample_asked_id (sample_answer (Some [])) ''u'' (snd first))) =
     (Inl (ErrStateConflict ''prepared response changed during delivery''),
      Inl (ErrStateConflict ''another response is already being delivered''))"
  by code_simp

end
