(* ===== verification/Reconcile.thy ===== *)
theory Reconcile
  imports QuestionHistories
begin

text \<open>
  Reconciliation when the control plane starts: \<^verbatim>\<open>internal/application/reconcile.go\<close>,
  \<^verbatim>\<open>run_reconcile.go\<close> and \<^verbatim>\<open>question_reconcile.go\<close>, with the payloads of
  \<^verbatim>\<open>internal/observability/journal.go\<close> they write, and the order in which
  \<^verbatim>\<open>cmd/control-plane/main.go\<close> calls them. A run that has no lease and has not ended belongs to a
  process that is gone; it is taken to an end. Notifications are not modelled. A function that
  returns a count and the first error returns both here.
\<close>

section \<open>The way to lost\<close>

definition allRunStatuses :: "RunStatus list" where
  "allRunStatuses = [RunQueued, RunStarting, RunRunning, RunWaitingApproval, RunInterrupting, RunCancelling,
     RunReconnecting, RunSucceeding, RunSucceeded, RunInterrupted, RunCancelled, RunLost, RunFailed]"

definition lost_next :: "RunStatus \<Rightarrow> RunStatus list \<Rightarrow> RunStatus list" where
  "lost_next s seen = filter (\<lambda>next. \<not> (next \<in> set seen \<or> RunStatus_IsTerminal next \<and> next \<noteq> RunLost) \<and>
     RunStatus_CanTransitionTo s next) allRunStatuses"

lemma length_filter_part:
  "length (filter (\<lambda>x. x \<notin> set (filter P xs) \<and> Q x) xs) + length (filter (\<lambda>x. P x \<and> Q x) xs) = length (filter Q xs)"
proof -
  have "filter (\<lambda>x. x \<notin> set (filter P xs) \<and> Q x) xs = filter (\<lambda>x. \<not> P x \<and> Q x) xs" by (rule filter_cong) auto
  moreover have "length (filter (\<lambda>x. \<not> P x \<and> Q x) ys) + length (filter (\<lambda>x. P x \<and> Q x) ys) = length (filter Q ys)" for ys
    by (induction ys) auto
  ultimately show ?thesis by simp
qed

text \<open>The breadth-first search; every status enters the queue at most once.\<close>

function lost_search :: "(RunStatus \<times> RunStatus list) list \<Rightarrow> RunStatus list \<Rightarrow> RunStatus list option" where
  "lost_search [] seen = None"
| "lost_search ((s, path) # queue) seen =
     (if s = RunLost then Some path
      else if RunStatus_IsTerminal s then lost_search queue seen
      else lost_search (queue @ map (\<lambda>next. (next, path @ [next])) (lost_next s seen)) (lost_next s seen @ seen))"
  by pat_completeness auto

termination
proof (relation "measure (\<lambda>(queue, seen). length queue + 2 * length (filter (\<lambda>s. s \<notin> set seen) allRunStatuses))", goal_cases)
  case (3 s path queue seen)
  let ?ns = "lost_next s seen"
  have "length (filter (\<lambda>x. x \<notin> set ?ns \<and> x \<notin> set seen) allRunStatuses) +
      length (filter (\<lambda>x. (\<not> (x \<in> set seen \<or> RunStatus_IsTerminal x \<and> x \<noteq> RunLost) \<and> RunStatus_CanTransitionTo s x) \<and> x \<notin> set seen) allRunStatuses) =
      length (filter (\<lambda>x. x \<notin> set seen) allRunStatuses)"
    unfolding lost_next_def by (rule length_filter_part)
  moreover have "filter (\<lambda>x. (\<not> (x \<in> set seen \<or> RunStatus_IsTerminal x \<and> x \<noteq> RunLost) \<and> RunStatus_CanTransitionTo s x) \<and> x \<notin> set seen) allRunStatuses = ?ns"
    unfolding lost_next_def by (rule filter_cong) auto
  moreover have "filter (\<lambda>x. x \<notin> set (?ns @ seen)) allRunStatuses = filter (\<lambda>x. x \<notin> set ?ns \<and> x \<notin> set seen) allRunStatuses"
    by (rule filter_cong) auto
  ultimately show ?case by simp
qed simp_all

definition lostPath :: "RunStatus \<Rightarrow> RunStatus list option" where
  "lostPath s = lost_search [(s, [])] [s]"

definition in_flight :: "RunStatus \<Rightarrow> bool" where
  "in_flight s \<longleftrightarrow> s \<in> {RunStarting, RunRunning, RunWaitingApproval, RunInterrupting, RunCancelling, RunReconnecting, RunSucceeding}"

text \<open>Every status that is not terminal has a way to lost, and it goes through reconnecting.\<close>

lemma lostPath_table:
  "lostPath s = (case s of RunLost \<Rightarrow> Some [] | RunReconnecting \<Rightarrow> Some [RunLost] | RunStatusOther _ \<Rightarrow> None
     | _ \<Rightarrow> if RunStatus_IsTerminal s then None else Some [RunReconnecting, RunLost])"
  by (cases s) (simp_all add: lostPath_def lost_next_def allRunStatuses_def RunStatus_CanTransitionTo_def)

section \<open>Journal payloads\<close>

definition IsRunPhase :: "string \<Rightarrow> bool" where
  "IsRunPhase phase \<longleftrightarrow> phase \<in> set [''dispatch'', ''spawn'', ''handshake'', ''first_event'', ''streaming'', ''settle'', ''post'']"

record PhaseFailure =
  pf_Code :: string
  pf_Message :: string
  pf_Family :: string
  pf_Retryable :: bool

definition overlay :: "gomap \<Rightarrow> gomap \<Rightarrow> gomap" where
  "overlay detail data = fold (\<lambda>(k, v). AList.update k v) detail data"

definition PhaseEnteredPayload :: "string \<Rightarrow> int \<Rightarrow> gomap \<Rightarrow> gomap option" where
  "PhaseEnteredPayload phase attempt detail =
     (if \<not> IsRunPhase phase then None
      else Some (overlay detail [(''phase'', VStr phase), (''attempt'', VInt attempt)]))"

definition PhaseClosedPayload :: "string \<Rightarrow> string \<Rightarrow> PhaseFailure option \<Rightarrow> int \<Rightarrow> gomap \<Rightarrow> gomap option" where
  "PhaseClosedPayload phase outcome failure durationMS detail =
     (if \<not> IsRunPhase phase then None
      else Some (overlay detail ([(''phase'', VStr phase), (''outcome'', VStr outcome), (''duration_ms'', VInt64 durationMS)] @
        (case failure of None \<Rightarrow> []
         | Some f \<Rightarrow> [(''failure'', VMap [(''code'', VStr (pf_Code f)), (''message'', VStr (pf_Message f)),
             (''family'', VStr (pf_Family f)), (''retryable'', VBool (pf_Retryable f))])]))))"

definition DecisionPayload :: "string \<Rightarrow> string \<Rightarrow> gomap \<Rightarrow> string \<Rightarrow> gomap" where
  "DecisionPayload kind reason inputs linkRunID =
     (let data = overlay inputs [(''kind'', VStr kind), (''reason'', VStr reason)]
      in if linkRunID \<noteq> '''' then AList.update ''link_run_id'' (VStr linkRunID) data else data)"

text \<open>The last phase that was entered and not closed.\<close>

definition phase_step :: "RunEventRow \<Rightarrow> (string \<times> time) list \<times> string list \<Rightarrow> (string \<times> time) list \<times> string list" where
  "phase_step ev = (\<lambda>(opened, order).
     let name = string_or_empty (re_Payload ev) ''phase''
     in if re_EventType ev = ''run.phase_entered'' then
          (if name = '''' then (opened, order)
           else (AList.update name (re_OccurredAt ev) opened, if map_of opened name = None then order @ [name] else order))
        else if re_EventType ev = ''run.phase_closed'' then (AList.delete name opened, order)
        else (opened, order))"

definition unclosedJournalPhase :: "RunEventRow list \<Rightarrow> (string \<times> time) option" where
  "unclosedJournalPhase events =
     (let (opened, order) = fold phase_step events ([], [])
      in case List.find (\<lambda>name. map_of opened name \<noteq> None) (rev order) of
           None \<Rightarrow> None
         | Some name \<Rightarrow> Some (name, the (map_of opened name)))"

text \<open>\<^verbatim>\<open>time.Since\<close> saturates, \<^verbatim>\<open>Milliseconds\<close> truncates.\<close>

definition since_ms :: "time \<Rightarrow> time \<Rightarrow> int" where
  "since_ms t now = (let d = max (- maxInt64 - 1) (min maxInt64 (now - t)) in if 0 \<le> d then d div 1000000 else - ((- d) div 1000000))"

section \<open>What reconciliation uses of other parts\<close>

text \<open>
  The start of the process, the text of an error, the runs this process has dispatched (its memory),
  whether a Goal pauses the self-heal of a run, the context snapshot of a run, and the hooks that
  follow the end of a run: parameters.
\<close>

record 'db ReconcileEnv =
  rc_BootAt :: time
  rc_ErrText :: "go_error \<Rightarrow> string"
  rc_Dispatched :: "'db \<Rightarrow> string \<Rightarrow> bool"
  rc_Paused :: "ExecutionRun \<Rightarrow> 'db \<Rightarrow> (go_error + bool) \<times> 'db"
  rc_Snapshot :: "string \<Rightarrow> 'db \<Rightarrow> (go_error + unit) \<times> 'db"
  rc_Hooks :: "ExecutionRun \<Rightarrow> 'db \<Rightarrow> (go_error + unit) \<times> 'db"

section \<open>Ending an orphan in one transaction\<close>

fun walk :: "ExecutionRun \<Rightarrow> RunStatus list \<Rightarrow> time \<Rightarrow> go_error + ExecutionRun" where
  "walk r [] now = Inr r"
| "walk r (s # path) now = (case ExecutionRun_Transition r s now of Inl e \<Rightarrow> Inl e | Inr r' \<Rightarrow> walk r' path now)"

definition orphan_failure :: RunFailure where
  "orphan_failure = \<lparr>rf_Code = ''orphaned_after_restart'',
     rf_Message = [CHR 0xE6, CHR 0x8E, CHR 0xA7, CHR 0xE5, CHR 0x88, CHR 0xB6, CHR 0xE5, CHR 0xB9, CHR 0xB3, CHR 0xE9, CHR 0x9D, CHR 0xA2, CHR 0xE9, CHR 0x87, CHR 0x8D, CHR 0xE5, CHR 0x90, CHR 0xAF, CHR 0xE5, CHR 0xAF, CHR 0xB9, CHR 0xE8, CHR 0xB4, CHR 0xA6, CHR 0xEF, CHR 0xBC, CHR 0x9A, CHR 0xE6, CHR 0x97, CHR 0xA0, CHR 0xE7, CHR 0xA7, CHR 0x9F, CHR 0xE7, CHR 0xBA, CHR 0xA6, CHR 0xE9, CHR 0x9D, CHR 0x9E, CHR 0xE7, CHR 0xBB, CHR 0x88, CHR 0xE6, CHR 0x80, CHR 0x81] @ '' run '' @ [CHR 0xE5, CHR 0x88, CHR 0xA4, CHR 0xE5, CHR 0xAE, CHR 0x9A, CHR 0xE5, CHR 0xA4, CHR 0xB1, CHR 0xE8, CHR 0xB4, CHR 0xA5, CHR 0xEF, CHR 0xBC, CHR 0x88, CHR 0xE5, CHR 0x8F, CHR 0xAF, CHR 0xE9, CHR 0x87, CHR 0x8D, CHR 0xE8, CHR 0xAF, CHR 0x95, CHR 0xEF, CHR 0xBC, CHR 0x89], rf_Retryable = True\<rparr>"

definition orphan_end :: "ExecutionRun \<Rightarrow> time \<Rightarrow> go_error + RunStatus \<times> ExecutionRun" where
  "orphan_end r now =
     (case lostPath (rn_Status r) of
        Some path \<Rightarrow> map_sum id (Pair RunLost) (walk r path now)
      | None \<Rightarrow> map_sum id (Pair RunFailed) (ExecutionRun_MarkFailed r orphan_failure now))"

definition orphan_data :: "RunStatus \<Rightarrow> gomap" where
  "orphan_data target =
     (if target = RunLost then [(''reason'', VStr ''startup_reconcile''),
         (''message'', VStr ([CHR 0xE6, CHR 0x8E, CHR 0xA7, CHR 0xE5, CHR 0x88, CHR 0xB6, CHR 0xE5, CHR 0xB9, CHR 0xB3, CHR 0xE9, CHR 0x9D, CHR 0xA2, CHR 0xE9, CHR 0x87, CHR 0x8D, CHR 0xE5, CHR 0x90, CHR 0xAF, CHR 0xE5, CHR 0xAF, CHR 0xB9, CHR 0xE8, CHR 0xB4, CHR 0xA6, CHR 0xEF, CHR 0xBC, CHR 0x9A, CHR 0xE6, CHR 0x97, CHR 0xA0, CHR 0xE7, CHR 0xA7, CHR 0x9F, CHR 0xE7, CHR 0xBA, CHR 0xA6, CHR 0xE9, CHR 0x9D, CHR 0x9E, CHR 0xE7, CHR 0xBB, CHR 0x88, CHR 0xE6, CHR 0x80, CHR 0x81] @ '' run '' @ [CHR 0xE5, CHR 0x88, CHR 0xA4, CHR 0xE5, CHR 0xAE, CHR 0x9A] @ '' lost'' @ [CHR 0xEF, CHR 0xBC, CHR 0x88, CHR 0xE5, CHR 0x8F, CHR 0xAF] @ '' resume '' @ [CHR 0xE9, CHR 0x87, CHR 0x8D, CHR 0xE5, CHR 0xBB, CHR 0xBA, CHR 0xEF, CHR 0xBC, CHR 0x89]))]
      else [(''code'', VStr (rf_Code orphan_failure)), (''message'', VStr (rf_Message orphan_failure)), (''retryable'', VBool True)])"

text \<open>
  What both kinds of reconciliation write: the row, the event of its end, the presence of the agent
  (best effort) and an activity. Neither the lock of the task nor open questions are touched.
\<close>

definition announce_end ::
  "'a RunS \<Rightarrow> ExecutionRun \<Rightarrow> WorkItem \<Rightarrow> string \<Rightarrow> RunStatus \<Rightarrow> gomap \<Rightarrow> string \<Rightarrow> 'a RunDb_scheme \<Rightarrow> (go_error + unit) \<times> 'a RunDb_scheme"
where
  "announce_end S r w evType target data message =
     bindM (emit S (rn_WorkspaceID r) evType ''execution_run'' (rn_ID r) (inc64 (rn_Version r))
         (Some \<lparr>er_RunID = rn_ID r, er_AgentID = '''', er_EventType = evType, er_Payload = data @ [(''record_kind'', kind_value w)]\<rparr>)
         [(''from'', VStr (RunStatus_text (rn_Status r))), (''status'', VStr (RunStatus_text target)), (''record_kind'', kind_value w)]) (\<lambda>_.
     bindM (if rn_AgentProfileID r = '''' then returnM ()
            else bindM (tryM (AgentRepo_SetPresence (rn_AgentProfileID r) PresenceIdle)) (\<lambda>_. returnM ())) (\<lambda>_.
     activityFor S (rn_WorkspaceID r) (rn_WorkItemID r) ''run.reconciled'' message))"

definition write_end ::
  "'a RunS \<Rightarrow> ExecutionRun \<Rightarrow> WorkItem \<Rightarrow> ExecutionRun \<Rightarrow> string \<Rightarrow> RunStatus \<Rightarrow> gomap \<Rightarrow> string \<Rightarrow>
   'a RunDb_scheme \<Rightarrow> (go_error + unit) \<times> 'a RunDb_scheme" where
  "write_end S r w r1 evType target data message =
     bindM (RunRepo_Update r1 (rn_Version r)) (\<lambda>_. announce_end S r w evType target data message)"

definition markOrphanTerminal :: "'a RunS \<Rightarrow> string \<Rightarrow> 'a RunDb_scheme \<Rightarrow> (go_error + unit) \<times> 'a RunDb_scheme" where
  "markOrphanTerminal S runID = InTx (with_run runID (\<lambda>r w.
     if RunStatus_IsTerminal (rn_Status r) then returnM ()
     else readM nowM (\<lambda>now. case orphan_end r now of
         Inl e \<Rightarrow> failM e
       | Inr (target, r1) \<Rightarrow> write_end S r w r1 (if target = RunLost then ''run.lost'' else ''run.failed'') target (orphan_data target)
           ([CHR 0xE5, CHR 0x90, CHR 0xAF, CHR 0xE5, CHR 0x8A, CHR 0xA8, CHR 0xE5, CHR 0xAF, CHR 0xB9, CHR 0xE8, CHR 0xB4, CHR 0xA6, CHR 0xEF, CHR 0xBC, CHR 0x9A] @ ''run '' @ rn_ID r @ '' '' @ [CHR 0xE7, CHR 0x94, CHR 0xB1] @ '' '' @ RunStatus_text (rn_Status r) @ '' '' @ [CHR 0xE6, CHR 0x94, CHR 0xB6, CHR 0xE6, CHR 0x95, CHR 0x9B, CHR 0xE5, CHR 0x88, CHR 0xB0] @ '' '' @
            RunStatus_text target @ [CHR 0xEF, CHR 0xBC, CHR 0x88, CHR 0xE8, CHR 0xBF, CHR 0x9B, CHR 0xE7, CHR 0xA8, CHR 0x8B, CHR 0xE9, CHR 0x87, CHR 0x8D, CHR 0xE5, CHR 0x90, CHR 0xAF, CHR 0xE5, CHR 0xAD, CHR 0xA4, CHR 0xE5, CHR 0x84, CHR 0xBF, CHR 0xEF, CHR 0xBC, CHR 0x89]))))"

definition legacy_failure :: RunFailure where
  "legacy_failure = \<lparr>rf_Code = ''execution_context_missing'',
     rf_Message = [CHR 0xE5, CHR 0x90, CHR 0xAF, CHR 0xE5, CHR 0x8A, CHR 0xA8, CHR 0xE5, CHR 0xAF, CHR 0xB9, CHR 0xE8, CHR 0xB4, CHR 0xA6, CHR 0xEF, CHR 0xBC, CHR 0x9A] @ ''0021 '' @ [CHR 0xE5, CHR 0x89, CHR 0x8D, CHR 0xE9, CHR 0x81, CHR 0x97, CHR 0xE7, CHR 0x95, CHR 0x99] @ '' Run '' @ [CHR 0xE6, CHR 0x97, CHR 0xA0, CHR 0xE6, CHR 0x89, CHR 0xA7, CHR 0xE8, CHR 0xA1, CHR 0x8C, CHR 0xE4, CHR 0xB8, CHR 0x8A, CHR 0xE4, CHR 0xB8, CHR 0x8B, CHR 0xE6, CHR 0x96, CHR 0x87, CHR 0xE5, CHR 0xBF, CHR 0xAB, CHR 0xE7, CHR 0x85, CHR 0xA7, CHR 0xEF, CHR 0xBC, CHR 0x8C, CHR 0xE4, CHR 0xB8, CHR 0x8D, CHR 0xE5, CHR 0x8F, CHR 0xAF, CHR 0xE5, CHR 0x88, CHR 0x86, CHR 0xE6, CHR 0xB4, CHR 0xBE, CHR 0xEF, CHR 0xBC, CHR 0x88] @ ''Coordinator '' @ [CHR 0xE4, CHR 0xBB, CHR 0xA5, CHR 0xE6, CHR 0x96, CHR 0xB0] @ '' Run '' @ [CHR 0xE6, CHR 0x81, CHR 0xA2, CHR 0xE5, CHR 0xA4, CHR 0x8D, CHR 0xEF, CHR 0xBC, CHR 0x89], rf_Retryable = True\<rparr>"

definition markLegacyContextMissingTerminal ::
  "'a RunS \<Rightarrow> string \<Rightarrow> 'a RunDb_scheme \<Rightarrow> (go_error + unit) \<times> 'a RunDb_scheme" where
  "markLegacyContextMissingTerminal S runID = InTx (with_run runID (\<lambda>r w.
     if RunStatus_IsTerminal (rn_Status r) then returnM ()
     else readM nowM (\<lambda>now. case ExecutionRun_MarkFailed r legacy_failure now of
         Inl e \<Rightarrow> failM e
       | Inr r1 \<Rightarrow> write_end S r w r1 ''run.failed'' RunFailed [(''code'', VStr (rf_Code legacy_failure)), (''retryable'', VBool True)]
           ([CHR 0xE5, CHR 0x90, CHR 0xAF, CHR 0xE5, CHR 0x8A, CHR 0xA8, CHR 0xE5, CHR 0xAF, CHR 0xB9, CHR 0xE8, CHR 0xB4, CHR 0xA6, CHR 0xEF, CHR 0xBC, CHR 0x9A, CHR 0xE9, CHR 0x81, CHR 0x97, CHR 0xE7, CHR 0x95, CHR 0x99] @ '' run '' @ rn_ID r @ [CHR 0xEF, CHR 0xBC, CHR 0x88] @ RunStatus_text (rn_Status r) @
            [CHR 0xEF, CHR 0xBC, CHR 0x8C, CHR 0xE6, CHR 0x97, CHR 0xA0, CHR 0xE4, CHR 0xB8, CHR 0x8A, CHR 0xE4, CHR 0xB8, CHR 0x8B, CHR 0xE6, CHR 0x96, CHR 0x87, CHR 0xE5, CHR 0xBF, CHR 0xAB, CHR 0xE7, CHR 0x85, CHR 0xA7, CHR 0xEF, CHR 0xBC, CHR 0x89, CHR 0xE6, CHR 0x94, CHR 0xB6, CHR 0xE6, CHR 0x95, CHR 0x9B, CHR 0xE4, CHR 0xB8, CHR 0xBA] @ '' failed(execution_context_missing)''))))"

section \<open>The sweeps\<close>

text \<open>A sweep counts what it ended, goes on after an error and returns the first.\<close>

definition tally :: "nat \<times> go_error option \<Rightarrow> nat \<times> go_error list \<Rightarrow> nat \<times> go_error option" where
  "tally = (\<lambda>(n, first) (k, errors). (n + k, case first of Some e \<Rightarrow> Some e | None \<Rightarrow> (case errors of [] \<Rightarrow> None | e # _ \<Rightarrow> Some e)))"

fun for_each ::
  "('x \<Rightarrow> 'db \<Rightarrow> (nat \<times> go_error list) \<times> 'db) \<Rightarrow> 'x list \<Rightarrow> nat \<times> go_error option \<Rightarrow> 'db \<Rightarrow> (nat \<times> go_error option) \<times> 'db" where
  "for_each f [] acc db = (acc, db)"
| "for_each f (x # xs) acc db = (case f x db of (out, db1) \<Rightarrow> for_each f xs (tally acc out) db1)"

definition sweep ::
  "('db \<Rightarrow> (go_error + 'x list) \<times> 'db) \<Rightarrow> ('x \<Rightarrow> 'db \<Rightarrow> (nat \<times> go_error list) \<times> 'db) \<Rightarrow> 'db \<Rightarrow> (nat \<times> go_error option) \<times> 'db" where
  "sweep listed f db = (case listed db of (Inl e, db1) \<Rightarrow> ((0, Some e), db1) | (Inr xs, db1) \<Rightarrow> for_each f xs (0, None) db1)"

definition replay_hooks :: "'a RunDb_scheme ReconcileEnv \<Rightarrow> string \<Rightarrow> 'a RunDb_scheme \<Rightarrow> 'a RunDb_scheme" where
  "replay_hooks C runID db = snd (bindM (RunRepo_Get runID) (rc_Hooks C) db)"

definition mark_with ::
  "'a RunDb_scheme ReconcileEnv \<Rightarrow> (string \<Rightarrow> 'a RunDb_scheme \<Rightarrow> (go_error + unit) \<times> 'a RunDb_scheme) \<Rightarrow> string \<Rightarrow> go_error list \<Rightarrow>
   'a RunDb_scheme \<Rightarrow> (nat \<times> go_error list) \<times> 'a RunDb_scheme" where
  "mark_with C mark runID errors db = (case mark runID db of
       (Inl e, db1) \<Rightarrow> ((0, errors @ [e]), db1)
     | (Inr _, db1) \<Rightarrow> ((1, errors), replay_hooks C runID db1))"

definition orphan_step ::
  "'a RunS \<Rightarrow> 'a RunDb_scheme ReconcileEnv \<Rightarrow> ExecutionRun \<Rightarrow> 'a RunDb_scheme \<Rightarrow> (nat \<times> go_error list) \<times> 'a RunDb_scheme" where
  "orphan_step S C r db =
     (if pendingSelfHealSourceID r = None then mark_with C (markOrphanTerminal S) (rn_ID r) [] db
      else if rc_Dispatched C db (rn_ID r) then ((0, []), db)
      else case rc_Paused C r db of
          (Inr paused, db1) \<Rightarrow> if paused then ((0, []), db1) else mark_with C (markOrphanTerminal S) (rn_ID r) [] db1
        | (Inl e, db1) \<Rightarrow> mark_with C (markOrphanTerminal S) (rn_ID r) [e] db1)"

definition ReconcileOrphanRuns ::
  "'a RunS \<Rightarrow> 'a RunDb_scheme ReconcileEnv \<Rightarrow> 'a RunDb_scheme \<Rightarrow> (nat \<times> go_error option) \<times> 'a RunDb_scheme" where
  "ReconcileOrphanRuns S C = sweep RunRepo_LeaselessActive (orphan_step S C)"

definition legacy_step ::
  "'a RunS \<Rightarrow> 'a RunDb_scheme ReconcileEnv \<Rightarrow> ExecutionRun \<Rightarrow> 'a RunDb_scheme \<Rightarrow> (nat \<times> go_error list) \<times> 'a RunDb_scheme" where
  "legacy_step S C r db = (case rc_Snapshot C (rn_ID r) db of
       (Inr _, db1) \<Rightarrow> ((0, []), db1)
     | (Inl e, db1) \<Rightarrow> if e \<noteq> ErrNotFound then ((0, [e]), db1)
                      else mark_with C (markLegacyContextMissingTerminal S) (rn_ID r) [] db1)"

definition ReconcileLegacyContextRuns ::
  "'a RunS \<Rightarrow> 'a RunDb_scheme ReconcileEnv \<Rightarrow> 'a RunDb_scheme \<Rightarrow> (nat \<times> go_error option) \<times> 'a RunDb_scheme" where
  "ReconcileLegacyContextRuns S C = sweep RunRepo_LeaselessActive (legacy_step S C)"

subsection \<open>Runs of the process that died\<close>

definition restart_code :: string where "restart_code = ''control_plane_restart''"

definition emitRecoveryEvent :: "'a RunS \<Rightarrow> string \<Rightarrow> string \<Rightarrow> gomap \<Rightarrow> 'a RunDb_scheme \<Rightarrow> (go_error + unit) \<times> 'a RunDb_scheme" where
  "emitRecoveryEvent S runID evType data = bindM (tryM (RecordRunEvent S runID evType data)) (\<lambda>_. returnM ())"

definition closeUnclosedPhaseForSweep ::
  "'a RunS \<Rightarrow> string \<Rightarrow> gomap \<Rightarrow> 'a RunDb_scheme \<Rightarrow> (go_error + unit) \<times> 'a RunDb_scheme" where
  "closeUnclosedPhaseForSweep S runID evidence =
     bindM (tryM (EventRepo_ListRunEventsIncludeInternal runID)) (\<lambda>events.
     case events of None \<Rightarrow> returnM ()
     | Some evs \<Rightarrow> (case unclosedJournalPhase evs of None \<Rightarrow> returnM ()
       | Some (phase, enteredAt) \<Rightarrow> readM nowM (\<lambda>now.
           case PhaseClosedPayload phase ''failed''
               (Some \<lparr>pf_Code = restart_code, pf_Message = [CHR 0xE6, CHR 0x8E, CHR 0xA7, CHR 0xE5, CHR 0x88, CHR 0xB6, CHR 0xE9, CHR 0x9D, CHR 0xA2, CHR 0xE9, CHR 0x87, CHR 0x8D, CHR 0xE5, CHR 0x90, CHR 0xAF, CHR 0xEF, CHR 0xBC, CHR 0x9A, CHR 0xE8, CHR 0xBF, CHR 0x9B, CHR 0xE7, CHR 0xA8, CHR 0x8B, CHR 0xE6, CHR 0xAD, CHR 0xBB, CHR 0xE4, CHR 0xBA, CHR 0xA1, CHR 0xE6, CHR 0x97, CHR 0xB6, CHR 0xE5, CHR 0x9C, CHR 0xA8, CHR 0xE9, CHR 0xA3, CHR 0x9E, CHR 0xE7, CHR 0x9B, CHR 0xB8, CHR 0xE4, CHR 0xBD, CHR 0x8D, CHR 0xE5, CHR 0xBC, CHR 0xBA, CHR 0xE5, CHR 0x88, CHR 0xB6, CHR 0xE9, CHR 0x97, CHR 0xAD, CHR 0xE5, CHR 0x90, CHR 0x88], pf_Family = '''', pf_Retryable = True\<rparr>)
               (if IsZero enteredAt then 0 else since_ms enteredAt now) evidence of
             None \<Rightarrow> returnM ()
           | Some data \<Rightarrow> emitRecoveryEvent S runID ''run.phase_closed'' data)))"

fun report_path :: "'a RunS \<Rightarrow> string \<Rightarrow> RunStatus list \<Rightarrow> 'a RunDb_scheme \<Rightarrow> (go_error + RunStatus) \<times> 'a RunDb_scheme" where
  "report_path S runID [] = returnM RunLost"
| "report_path S runID (s # path) =
     bindM (RecordRunStatus S runID s (if s = RunLost then [(''reason'', VStr restart_code)] else [])) (\<lambda>_. report_path S runID path)"

definition walkOrphanToTerminal :: "'a RunS \<Rightarrow> string \<Rightarrow> RunStatus \<Rightarrow> 'a RunDb_scheme \<Rightarrow> (go_error + RunStatus) \<times> 'a RunDb_scheme" where
  "walkOrphanToTerminal S runID from =
     (case lostPath from of
        Some path \<Rightarrow> report_path S runID path
      | None \<Rightarrow> bindM (RecordRunStatus S runID RunFailed [(''code'', VStr restart_code), (''retryable'', VBool True),
            (''message'', VStr ([CHR 0xE6, CHR 0x8E, CHR 0xA7, CHR 0xE5, CHR 0x88, CHR 0xB6, CHR 0xE9, CHR 0x9D, CHR 0xA2, CHR 0xE9, CHR 0x87, CHR 0x8D, CHR 0xE5, CHR 0x90, CHR 0xAF, CHR 0xE5, CHR 0xAF, CHR 0xB9, CHR 0xE8, CHR 0xB4, CHR 0xA6, CHR 0xEF, CHR 0xBC, CHR 0x9A, CHR 0xE6, CHR 0x97, CHR 0xA0, CHR 0xE7, CHR 0xA7, CHR 0x9F, CHR 0xE7, CHR 0xBA, CHR 0xA6, CHR 0xE5, CHR 0x9C, CHR 0xA8, CHR 0xE9, CHR 0xA3, CHR 0x9E] @ '' run '' @ [CHR 0xE5, CHR 0x88, CHR 0xA4, CHR 0xE5, CHR 0xAE, CHR 0x9A, CHR 0xE5, CHR 0xA4, CHR 0xB1, CHR 0xE8, CHR 0xB4, CHR 0xA5, CHR 0xEF, CHR 0xBC, CHR 0x88, CHR 0xE5, CHR 0x8F, CHR 0xAF, CHR 0xE9, CHR 0x87, CHR 0x8D, CHR 0xE8, CHR 0xAF, CHR 0x95, CHR 0xEF, CHR 0xBC, CHR 0x89]))]) (\<lambda>_. returnM RunFailed))"

definition report_unrecovered ::
  "'a RunS \<Rightarrow> 'a RunDb_scheme ReconcileEnv \<Rightarrow> string \<Rightarrow> RunStatus \<Rightarrow> go_error \<Rightarrow> 'a RunDb_scheme \<Rightarrow> (go_error + unit) \<times> 'a RunDb_scheme"
where
  "report_unrecovered S C runID from e = emitRecoveryEvent S runID ''run.recovery_failed''
     [(''code'', VStr restart_code), (''retryable'', VBool True), (''message'', VStr ([CHR 0xE6, CHR 0x8E, CHR 0xA7, CHR 0xE5, CHR 0x88, CHR 0xB6, CHR 0xE9, CHR 0x9D, CHR 0xA2, CHR 0xE9, CHR 0x87, CHR 0x8D, CHR 0xE5, CHR 0x90, CHR 0xAF, CHR 0xE5, CHR 0xAF, CHR 0xB9, CHR 0xE8, CHR 0xB4, CHR 0xA6, CHR 0xE6, CHR 0x94, CHR 0xB6, CHR 0xE5, CHR 0x8F, CHR 0xA3, CHR 0xE5, CHR 0xA4, CHR 0xB1, CHR 0xE8, CHR 0xB4, CHR 0xA5] @ '': '' @ rc_ErrText C e)),
      (''previous_status'', VStr (RunStatus_text from))]"

definition report_recovered ::
  "'a RunS \<Rightarrow> string \<Rightarrow> RunStatus \<Rightarrow> RunStatus \<Rightarrow> 'a RunDb_scheme \<Rightarrow> (go_error + unit) \<times> 'a RunDb_scheme" where
  "report_recovered S runID from terminal =
     bindM (emitRecoveryEvent S runID ''run.recovery_completed''
       [(''code'', VStr restart_code), (''previous_status'', VStr (RunStatus_text from)), (''terminal_status'', VStr (RunStatus_text terminal))])
     (\<lambda>_. emitRecoveryEvent S runID ''run.decision'' (DecisionPayload ''recovery_sweep''
       ([CHR 0xE6, CHR 0x8E, CHR 0xA7, CHR 0xE5, CHR 0x88, CHR 0xB6, CHR 0xE9, CHR 0x9D, CHR 0xA2, CHR 0xE9, CHR 0x87, CHR 0x8D, CHR 0xE5, CHR 0x90, CHR 0xAF, CHR 0xEF, CHR 0xBC, CHR 0x9A, CHR 0xE6, CHR 0x97, CHR 0xA0] @ '' lease '' @ [CHR 0xE5, CHR 0x9C, CHR 0xA8, CHR 0xE9, CHR 0xA3, CHR 0x9E] @ '' run '' @ [CHR 0xE5, CHR 0x90, CHR 0x88, CHR 0xE6, CHR 0x88, CHR 0x90, CHR 0xE6, CHR 0x94, CHR 0xB6, CHR 0xE5, CHR 0x8F, CHR 0xA3, CHR 0xEF, CHR 0xBC, CHR 0x88, CHR 0xE5, CHR 0x8F, CHR 0xAF, CHR 0xE9, CHR 0x87, CHR 0x8D, CHR 0xE9, CHR 0xA9, CHR 0xB1, CHR 0xEF, CHR 0xBC, CHR 0x89])
       [(''previous_status'', VStr (RunStatus_text from)), (''terminal_status'', VStr (RunStatus_text terminal)), (''code'', VStr restart_code)] ''''))"

definition close_orphan ::
  "'a RunS \<Rightarrow> 'a RunDb_scheme ReconcileEnv \<Rightarrow> string \<Rightarrow> RunStatus \<Rightarrow> 'a RunDb_scheme \<Rightarrow> (go_error + unit) \<times> 'a RunDb_scheme" where
  "close_orphan S C runID from db =
     (case walkOrphanToTerminal S runID from db of
        (Inl e, db1) \<Rightarrow> (Inl e, snd (report_unrecovered S C runID from e db1))
      | (Inr terminal, db1) \<Rightarrow> report_recovered S runID from terminal db1)"

definition sweepOrphanedLocalRun ::
  "'a RunS \<Rightarrow> 'a RunDb_scheme ReconcileEnv \<Rightarrow> string \<Rightarrow> 'a RunDb_scheme \<Rightarrow> (go_error + unit) \<times> 'a RunDb_scheme" where
  "sweepOrphanedLocalRun S C runID =
     bindM (RunRepo_Get runID) (\<lambda>r.
     if RunStatus_IsTerminal (rn_Status r) then returnM ()
     else bindM (closeUnclosedPhaseForSweep S runID [(''code'', VStr restart_code), (''boot_at'', VStr (timeParam (rc_BootAt C)))])
            (\<lambda>_. close_orphan S C runID (rn_Status r)))"

definition local_step ::
  "'a RunS \<Rightarrow> 'a RunDb_scheme ReconcileEnv \<Rightarrow> ExecutionRun \<Rightarrow> 'a RunDb_scheme \<Rightarrow> (nat \<times> go_error list) \<times> 'a RunDb_scheme" where
  "local_step S C r db =
     (if \<not> in_flight (rn_Status r) then ((0, []), db)
      else case sweepOrphanedLocalRun S C (rn_ID r) db of (Inl e, db1) \<Rightarrow> ((0, [e]), db1) | (Inr _, db1) \<Rightarrow> ((1, []), db1))"

definition ReconcileOrphanedLocalRuns ::
  "'a RunS \<Rightarrow> 'a RunDb_scheme ReconcileEnv \<Rightarrow> 'a RunDb_scheme \<Rightarrow> (nat \<times> go_error option) \<times> 'a RunDb_scheme" where
  "ReconcileOrphanedLocalRuns S C = sweep RunRepo_LeaselessActive (local_step S C)"

subsection \<open>Questions of runs that have ended\<close>

fun first_runs :: "string list \<Rightarrow> QuestionRequest list \<Rightarrow> string list" where
  "first_runs seen [] = []"
| "first_runs seen (q # qs) = (if qn_RunID q \<in> set seen then first_runs seen qs else qn_RunID q # first_runs (qn_RunID q # seen) qs)"

definition stale_step :: "'a RunS \<Rightarrow> string \<Rightarrow> 'a RunDb_scheme \<Rightarrow> (nat \<times> go_error list) \<times> 'a RunDb_scheme" where
  "stale_step S runID db =
     (case InTx (bindM (RunRepo_Get runID) (\<lambda>r.
        if \<not> RunStatus_IsTerminal (rn_Status r) then returnM 0
        else bindM (WorkItemRepo_Get (rn_WorkItemID r)) (\<lambda>w. expireRunPendingQuestions S r w))) db of
       (Inl e, db1) \<Rightarrow> ((0, [e]), db1)
     | (Inr n, db1) \<Rightarrow> ((n, []), db1))"

definition ReconcileStaleQuestions :: "'a RunS \<Rightarrow> 'a RunDb_scheme \<Rightarrow> (nat \<times> go_error option) \<times> 'a RunDb_scheme" where
  "ReconcileStaleQuestions S =
     sweep (bindM QuestionRepo_ListStalePending (\<lambda>stale. returnM (first_runs [] stale))) (stale_step S)"

text \<open>
  The order at the start; results are only logged. The recovery of pending self-heals, which
  dispatches runs, is a parameter.
\<close>

definition startup_reconcile ::
  "'a RunS \<Rightarrow> 'a RunDb_scheme ReconcileEnv \<Rightarrow> ('a RunDb_scheme \<Rightarrow> 'a RunDb_scheme) \<Rightarrow> 'a RunDb_scheme \<Rightarrow>
   (nat \<times> go_error option) list \<times> 'a RunDb_scheme" where
  "startup_reconcile S C recover db =
     (let (r1, db1) = ReconcileLegacyContextRuns S C db;
          (r2, db2) = ReconcileOrphanedLocalRuns S C (recover db1);
          (r3, db3) = ReconcileOrphanRuns S C db2;
          (r4, db4) = ReconcileStaleQuestions S db3
      in ([r1, r2, r3, r4], db4))"

section \<open>What sweeps keep\<close>

text \<open>
  Loops over rows, for any relation that operations may be \<open>within\<close>: the whole loop stays within it,
  and when it reports no error, every row was handled without one at some state on the way.
\<close>

context effect
begin

lemma for_each_within:
  assumes f: "\<forall>x. within always R (f x)"
  shows "R db (snd (for_each f xs acc db))"
proof (induction xs arbitrary: acc db)
  case (Cons x xs)
  obtain out db1 where e: "f x db = (out, db1)" by (cases "f x db")
  have "R db (snd (f x db))" by (rule withinD [OF f [rule_format] TrueI])
  then have "R db db1" by (simp add: e)
  moreover have "R db1 (snd (for_each f xs (tally acc out) db1))" by (rule Cons.IH)
  ultimately show ?case using trans by (simp add: e)
qed (simp add: refl)

lemma for_each_first: "snd (fst (for_each f xs acc db)) = None \<Longrightarrow> snd acc = None"
proof (induction xs arbitrary: acc db)
  case (Cons x xs)
  obtain out db1 where e: "f x db = (out, db1)" by (cases "f x db")
  have "snd (tally acc out) = None" using Cons by (simp add: e)
  then show ?case by (simp add: tally_def split: prod.splits option.splits)
qed simp

lemma for_each_clean:
  assumes f: "\<forall>x. within always R (f x)" and "for_each f xs acc db = (out, db')" and "snd out = None" and "x \<in> set xs"
  shows "\<exists>d k d'. R db d \<and> f x d = ((k, []), d') \<and> R d' db'"
  using assms(2-4)
proof (induction xs arbitrary: acc db)
  case (Cons y zs)
  obtain k es db1 where e: "f y db = ((k, es), db1)" by (metis surj_pair)
  have rest: "for_each f zs (tally acc (k, es)) db1 = (out, db')" using Cons.prems(1) by (simp add: e)
  have "snd (tally acc (k, es)) = None" using for_each_first [of f zs "tally acc (k, es)" db1] rest Cons.prems(2) by simp
  then have es: "es = []" by (simp add: tally_def split: prod.splits option.splits list.splits)
  have "R db (snd (f y db))" by (rule withinD [OF f [rule_format] TrueI])
  then have 1: "R db db1" by (simp add: e)
  show ?case
  proof (cases "x = y")
    case True
    have "R db1 db'" using for_each_within [OF f, of db1 zs "tally acc (k, es)"] rest by simp
    then have "R db db \<and> f x db = ((k, []), db1) \<and> R db1 db'" using e es True by (simp add: refl)
    then show ?thesis by (intro exI)
  next
    case False
    then have "x \<in> set zs" using Cons.prems(3) by simp
    from Cons.IH [OF rest Cons.prems(2) this] obtain d k' d' where d: "R db1 d" "f x d = ((k', []), d')" "R d' db'" by (elim exE conjE)
    then have "R db d \<and> f x d = ((k', []), d') \<and> R d' db'" using trans [OF 1 d(1)] by simp
    then show ?thesis by (intro exI)
  qed
qed simp

lemma sweep_within:
  assumes "within always R listed" and f: "\<forall>x. within always R (f x)"
  shows "within P R (sweep listed f)"
  unfolding within_def
proof (intro allI impI)
  fix db
  obtain r db1 where e: "listed db = (r, db1)" by (cases "listed db")
  have 1: "R db db1" using withinD [OF assms(1) TrueI, of db] by (simp add: e)
  show "R db (snd (sweep listed f db))"
    using 1 trans [OF 1 for_each_within [OF f]] by (cases r) (simp_all add: e sweep_def)
qed

lemma sweep_clean:
  assumes "within always R listed" and f: "\<forall>x. within always R (f x)" and "sweep listed f db = ((n, None), db')"
  obtains xs db1 where "listed db = (Inr xs, db1)" "R db db1"
    "\<forall>x \<in> set xs. \<exists>d k d'. R db1 d \<and> f x d = ((k, []), d') \<and> R d' db'"
proof -
  obtain r db1 where e: "listed db = (r, db1)" by (cases "listed db")
  then obtain xs where r: "r = Inr xs" using assms(3) by (cases r) (auto simp: sweep_def)
  have "R db db1" using withinD [OF assms(1) TrueI, of db] by (simp add: e)
  moreover have l: "for_each f xs (0, None) db1 = ((n, None), db')" using assms(3) by (simp add: sweep_def e r)
  moreover have "\<forall>x \<in> set xs. \<exists>d k d'. R db1 d \<and> f x d = ((k, []), d') \<and> R d' db'"
    using for_each_clean [OF f l] by simp
  ultimately show thesis using that [of xs db1] e r by simp
qed

end

text \<open>What has ended stays ended.\<close>

definition keeps_ended :: "'a SchedDb_scheme \<Rightarrow> 'a SchedDb_scheme \<Rightarrow> bool" where
  "keeps_ended db db' \<longleftrightarrow> (ids_ok db \<longrightarrow> ids_ok db' \<and> (\<forall>i. ended (runs_map db) i \<longrightarrow> ended (runs_map db') i))"

interpretation ke: effect keeps_ended
proof
  fix db :: "'a SchedDb_scheme" and n
  show "keeps_ended db (db\<lparr>cn_step := n\<rparr>)" by (simp add: keeps_ended_def ids_ok_def runs_map_def)
qed (simp_all add: keeps_ended_def)

lemma ended_steps: "task_step\<^sup>*\<^sup>* v v' \<Longrightarrow> ended (fst v) i \<Longrightarrow> ended (fst v') i"
  by (induction rule: rtranclp_induct) (auto intro: ended_step)

lemma steps_keep: "(ids_ok db \<Longrightarrow> steps db db') \<Longrightarrow> keeps_ended db db'"
  using ended_steps [of "task_view_of db" "task_view_of db'"] unfolding keeps_ended_def steps_def
  by (auto simp: task_view_of_def)

lemma still_keeps: "still db db' \<Longrightarrow> keeps_ended db db'"
  using stillD [of db db'] by (simp add: keeps_ended_def)

lemma silent_keeps: "silent f \<Longrightarrow> within P keeps_ended f"
  unfolding within_def silent_def by (blast intro: still_keeps)

lemma protocol_keeps: "protocol f \<Longrightarrow> within P keeps_ended f"
  unfolding within_def protocol_def by (blast intro: steps_keep)

lemma silent_leaseless [silent]: "silent RunRepo_LeaselessActive"
  unfolding RunRepo_LeaselessActive_def by (rule silent_query)

lemma silent_run_events [silent]: "silent (EventRepo_ListRunEventsIncludeInternal i)"
  unfolding EventRepo_ListRunEventsIncludeInternal_def listRunEvents_def by (rule silent_query)

section \<open>The transaction that ends an orphan\<close>

lemma with_run_ok:
  assumes "with_run i f db = (Inr u, db')"
  obtains r w db1 where "still db db1" "r \<in> set (db_runs db1)" "rn_ID r = i" "f r w db1 = (Inr u, db')"
proof -
  obtain r d1 where r: "RunRepo_Get i db = (Inr r, d1)"
    and 1: "bindM (WorkItemRepo_Get (rn_WorkItemID r)) (\<lambda>w. bindM (checkM (requireValidWorkItemRecordKind w)) (\<lambda>_. f r w)) d1 = (Inr u, db')"
    using assms unfolding with_run_def by (rule bindM_ok)
  obtain w d2 where w: "WorkItemRepo_Get (rn_WorkItemID r) d1 = (Inr w, d2)"
    and 2: "bindM (checkM (requireValidWorkItemRecordKind w)) (\<lambda>_. f r w) d2 = (Inr u, db')"
    using 1 by (rule bindM_ok)
  have s: "still db d1" "still d1 d2" using silentD [OF silent_get(2) r] silentD [OF silent_get(1) w] by simp_all
  then have s': "still db d2" by (rule still_trans)
  have "r \<in> set (db_runs d2)" "rn_ID r = i" using run_get [OF r] s s' by (simp_all add: still_def)
  then show thesis using that [OF s'] check_bind [OF 2] by blast
qed

lemma silent_announce [silent]: "silent (announce_end S r w ev target data msg)"
  unfolding announce_end_def by (intro silent)

lemma write_end_effect:
  assumes a: "write_end S r w r1 ev target data msg db = (Inr u, db')" and ok: "ids_ok db" and r: "r \<in> set (db_runs db)"
    and r1: "rn_ID r1 = rn_ID r"
  shows "ids_ok db' \<and> runs_map db' = (runs_map db)(rn_ID r \<mapsto> (rn_WorkItemID r, rn_Status r1)) \<and> locks_map db' = locks_map db"
proof -
  obtain x db1 where u: "RunRepo_Update r1 (rn_Version r) db = (Inr x, db1)"
    and rest: "announce_end S r w ev target data msg db1 = (Inr u, db')"
    using a unfolding write_end_def by (rule bindM_ok)
  note up = run_update [OF u ok r r1]
  have "still db1 db'" using silent_announce rest by (rule silentD)
  from stillD [OF this] up show ?thesis by (simp add: locks_map_def)
qed

lemma walk_effect: "walk r path now = Inr r' \<Longrightarrow> path \<noteq> [] \<Longrightarrow> rn_ID r' = rn_ID r \<and> rn_Status r' = last path"
proof (induction path arbitrary: r)
  case (Cons s path)
  then obtain r1 where t: "ExecutionRun_Transition r s now = Inr r1" and w: "walk r1 path now = Inr r'"
    by (auto split: sum.splits)
  have r1: "rn_ID r1 = rn_ID r" "rn_Status r1 = s" using t by (simp_all add: ExecutionRun_Transition_Inr)
  show ?case
  proof (cases "path = []")
    case True
    then show ?thesis using w r1 by simp
  next
    case False
    then show ?thesis using Cons.IH [OF w] r1 by simp
  qed
qed simp

lemma mark_failed_effect: "ExecutionRun_MarkFailed r f now = Inr r' \<Longrightarrow> rn_ID r' = rn_ID r \<and> rn_Status r' = RunFailed"
  by (auto simp: ExecutionRun_MarkFailed_def ExecutionRun_Transition_Inr split: sum.splits)

lemma orphan_end_effect:
  assumes "orphan_end r now = Inr (target, r')" and "\<not> RunStatus_IsTerminal (rn_Status r)"
  shows "rn_ID r' = rn_ID r \<and> rn_Status r' = target \<and> RunStatus_IsTerminal target"
proof (cases "lostPath (rn_Status r)")
  case None
  then show ?thesis using assms(1) mark_failed_effect [of r orphan_failure now r']
    by (cases "ExecutionRun_MarkFailed r orphan_failure now") (auto simp: orphan_end_def)
next
  case (Some path)
  have p: "path \<noteq> [] \<and> last path = RunLost"
    using Some assms(2) unfolding lostPath_table by (cases "rn_Status r") auto
  show ?thesis using assms(1) Some walk_effect [of r path now r'] p
    by (cases "walk r path now") (auto simp: orphan_end_def)
qed

text \<open>A mark ends the run, if it does anything to runs, and leaves every lock where it is.\<close>

definition abandons :: "string \<Rightarrow> 'a SchedDb_scheme \<Rightarrow> 'a SchedDb_scheme \<Rightarrow> bool" where
  "abandons i db db' \<longleftrightarrow> ids_ok db' \<and> locks_map db' = locks_map db \<and>
     (runs_map db' = runs_map db \<or> (\<exists>w s to. runs_map db i = Some (w, s) \<and> \<not> RunStatus_IsTerminal s \<and>
        RunStatus_IsTerminal to \<and> runs_map db' = (runs_map db)(i \<mapsto> (w, to))))"

lemma mark_tx_effect:
  assumes a: "InTx (with_run i (\<lambda>r w. if RunStatus_IsTerminal (rn_Status r) then returnM () else readM nowM (g r w))) db = (x, db')"
    and g: "\<And>r w now d u d'. g r w now d = (Inr u, d') \<Longrightarrow> ids_ok d \<Longrightarrow> r \<in> set (db_runs d) \<Longrightarrow> \<not> RunStatus_IsTerminal (rn_Status r) \<Longrightarrow>
      ids_ok d' \<and> locks_map d' = locks_map d \<and> (\<exists>s. RunStatus_IsTerminal s \<and> runs_map d' = (runs_map d)(rn_ID r \<mapsto> (rn_WorkItemID r, s)))"
    and ok: "ids_ok db"
  shows "keeps_ended db db' \<and> abandons i db db' \<and> (\<forall>u. x = Inr u \<longrightarrow> ended (runs_map db') i)"
  using a
proof (cases rule: InTx_cases)
  case (1 e n)
  then show ?thesis using ke.count [of db n] ok by (simp add: abandons_def ids_ok_def runs_map_def locks_map_def)
next
  case (2 u db2 n)
  let ?db = "db\<lparr>cn_step := Suc (cn_step db)\<rparr>"
  obtain r w db1 where s: "still ?db db1" and r: "r \<in> set (db_runs db1)" "rn_ID r = i"
    and b: "(if RunStatus_IsTerminal (rn_Status r) then returnM () else readM nowM (g r w)) db1 = (Inr u, db2)"
    using 2(2) by (rule with_run_ok)
  have s': "still db db1" using s by simp
  note same = stillD [OF s']
  have ok1: "ids_ok db1" using same ok by simp
  have row: "runs_map db1 i = Some (rn_WorkItemID r, rn_Status r)" using runs_map_in [OF ok1 r(1)] r(2) by simp
  have eq: "ids_ok db' = ids_ok db2" "runs_map db' = runs_map db2" "locks_map db' = locks_map db2"
    using 2(3) by (simp_all add: ids_ok_def runs_map_def locks_map_def)
  show ?thesis
  proof (cases "RunStatus_IsTerminal (rn_Status r)")
    case True
    then have "db2 = db1" using b by simp
    then show ?thesis using eq same ok row True 2(1) by (auto simp: keeps_ended_def ended_def abandons_def)
  next
    case False
    then have "g r w (nowM db1) db1 = (Inr u, db2)" using b by (simp add: readM_def)
    from g [OF this ok1 r(1) False] obtain s where "ids_ok db2" "locks_map db2 = locks_map db1" "RunStatus_IsTerminal s"
      "runs_map db2 = (runs_map db1)(rn_ID r \<mapsto> (rn_WorkItemID r, s))" by blast
    then show ?thesis using eq same ok r(2) row False by (auto simp: keeps_ended_def ended_def abandons_def)
  qed
qed

lemma mark_effect:
  assumes "ids_ok db"
  shows "markOrphanTerminal S i db = (x, db') \<Longrightarrow>
      keeps_ended db db' \<and> abandons i db db' \<and> (\<forall>u. x = Inr u \<longrightarrow> ended (runs_map db') i)"
    and "markLegacyContextMissingTerminal S i db = (x, db') \<Longrightarrow>
      keeps_ended db db' \<and> abandons i db db' \<and> (\<forall>u. x = Inr u \<longrightarrow> ended (runs_map db') i)"
proof -
  assume a: "markOrphanTerminal S i db = (x, db')"
  show "keeps_ended db db' \<and> abandons i db db' \<and> (\<forall>u. x = Inr u \<longrightarrow> ended (runs_map db') i)"
    using a unfolding markOrphanTerminal_def
  proof (rule mark_tx_effect [OF _ _ assms], goal_cases)
    case (1 r w now d u d')
    obtain target r1 where e: "orphan_end r now = Inr (target, r1)"
      using 1(1) by (cases "orphan_end r now") (simp only: sum.case failM_simps, blast, metis surj_pair)
    note end_of = orphan_end_effect [OF e 1(4)]
    then show ?case using write_end_effect [OF 1(1) [unfolded e sum.case prod.case] 1(2,3)] by auto
  qed
next
  assume a: "markLegacyContextMissingTerminal S i db = (x, db')"
  show "keeps_ended db db' \<and> abandons i db db' \<and> (\<forall>u. x = Inr u \<longrightarrow> ended (runs_map db') i)"
    using a unfolding markLegacyContextMissingTerminal_def
  proof (rule mark_tx_effect [OF _ _ assms], goal_cases)
    case (1 r w now d u d')
    obtain r1 where e: "ExecutionRun_MarkFailed r legacy_failure now = Inr r1"
      using 1(1) by (cases "ExecutionRun_MarkFailed r legacy_failure now") (simp only: sum.case failM_simps, blast, blast)
    show ?case using write_end_effect [OF 1(1) [unfolded e sum.case prod.case] 1(2,3)] mark_failed_effect [OF e] by (auto intro!: exI [of _ RunFailed])
  qed
qed

section \<open>Nothing is left behind\<close>

text \<open>What the parameters promise: no run that has ended comes back.\<close>

definition reconcile_env :: "'a RunDb_scheme ReconcileEnv \<Rightarrow> bool" where
  "reconcile_env C \<longleftrightarrow> (\<forall>r. within always keeps_ended (rc_Paused C r)) \<and> (\<forall>i. within always keeps_ended (rc_Snapshot C i)) \<and>
     (\<forall>r. within always keeps_ended (rc_Hooks C r))"

lemma replay_keeps: "reconcile_env C \<Longrightarrow> keeps_ended db (replay_hooks C i db)"
  unfolding replay_hooks_def
  by (rule withinD [OF ke.bind [OF silent_keeps [OF silent_get(2)]] TrueI]) (simp add: reconcile_env_def)

lemma mark_with_keeps:
  assumes "reconcile_env C" and "within always keeps_ended (mark i)"
  shows "within P keeps_ended (mark_with C mark i es)"
  unfolding within_def
proof (intro allI impI)
  fix db :: "'a RunDb_scheme"
  obtain x db1 where m: "mark i db = (x, db1)" by (cases "mark i db")
  have 1: "keeps_ended db db1" using withinD [OF assms(2) TrueI, of db] by (simp add: m)
  show "keeps_ended db (snd (mark_with C mark i es db))"
    using 1 ke.trans [OF 1 replay_keeps [OF assms(1)]] by (cases x) (simp_all add: mark_with_def m)
qed

lemma mark_keeps:
  "within P keeps_ended (markOrphanTerminal S i)" "within P keeps_ended (markLegacyContextMissingTerminal S i)"
proof -
  have "keeps_ended db (snd (markOrphanTerminal S i db)) \<and> keeps_ended db (snd (markLegacyContextMissingTerminal S i db))"
    for db :: "'a RunDb_scheme"
  proof (cases "ids_ok db")
    case True
    show ?thesis using mark_effect [OF True surjective_pairing] by simp
  qed (simp add: keeps_ended_def)
  then show "within P keeps_ended (markOrphanTerminal S i)" "within P keeps_ended (markLegacyContextMissingTerminal S i)"
    by (simp_all add: within_def)
qed

lemma orphan_step_keeps:
  assumes env: "reconcile_env C"
  shows "within P keeps_ended (orphan_step S C r)"
proof -
  have p: "within always keeps_ended (rc_Paused C r)" using env by (simp add: reconcile_env_def)
  note m = mark_with_keeps [OF env mark_keeps(1)]
  have "keeps_ended db (snd (orphan_step S C r db))" for db
  proof -
    obtain x db1 where x: "rc_Paused C r db = (x, db1)" by (cases "rc_Paused C r db")
    have 1: "keeps_ended db db1" using withinD [OF p TrueI, of db] by (simp add: x)
    have "keeps_ended d (snd (mark_with C (markOrphanTerminal S) i es d))" for d i es by (rule withinD [OF m TrueI])
    then show ?thesis using 1 ke.trans [OF 1] by (cases x) (simp_all add: orphan_step_def x ke.refl)
  qed
  then show ?thesis by (simp add: within_def)
qed

lemma orphan_step_ends:
  assumes env: "reconcile_env C" and ok: "ids_ok db" and step: "orphan_step S C r db = ((k, []), db')"
  shows "ended (runs_map db') (rn_ID r) \<or> pendingSelfHealSourceID r \<noteq> None \<and>
    (rc_Dispatched C db (rn_ID r) \<or> (\<exists>db1. rc_Paused C r db = (Inr True, db1)))"
proof -
  have marked: "ended (runs_map db') (rn_ID r)"
    if "mark_with C (markOrphanTerminal S) (rn_ID r) es d = ((k, []), db')" and "ids_ok d" for es d
  proof -
    note with_mark = that(1)
    obtain x d1 where m: "markOrphanTerminal S (rn_ID r) d = (x, d1)" by (cases "markOrphanTerminal S (rn_ID r) d")
    obtain u where x: "x = Inr u" using with_mark by (cases x) (auto simp: mark_with_def m)
    have "keeps_ended d d1" "ended (runs_map d1) (rn_ID r)" using mark_effect(1) [OF that(2) m] x by simp_all
    moreover have "keeps_ended d1 db'" using that(1) replay_keeps [OF env, of d1 "rn_ID r"] by (simp add: mark_with_def m x)
    ultimately show ?thesis using that(2) unfolding keeps_ended_def by blast
  qed
  obtain p d1 where p: "rc_Paused C r db = (p, d1)" by (cases "rc_Paused C r db")
  have "keeps_ended db d1" using env withinD [of always keeps_ended "rc_Paused C r" db] by (simp add: reconcile_env_def p)
  then have ok1: "ids_ok d1" using ok by (simp add: keeps_ended_def)
  show ?thesis
  proof (cases "pendingSelfHealSourceID r = None")
    case True
    then show ?thesis using marked [OF _ ok] step by (simp add: orphan_step_def)
  next
    case pending: False
    show ?thesis
    proof (cases "rc_Dispatched C db (rn_ID r)")
      case False
      show ?thesis
      proof (cases p)
        case (Inl e)
        then show ?thesis using marked [OF _ ok1] step pending False by (simp add: orphan_step_def p)
      next
        case (Inr b)
        then show ?thesis using marked [OF _ ok1, of "[]"] step pending False p by (cases b) (simp_all add: orphan_step_def)
      qed
    qed (use pending in simp)
  qed
qed

text \<open>A run that no lease covers and that has not ended.\<close>

definition orphaned :: "'a LeaseDb_scheme \<Rightarrow> ExecutionRun \<Rightarrow> bool" where
  "orphaned db r \<longleftrightarrow> r \<in> set (db_runs db) \<and> \<not> RunStatus_IsTerminal (rn_Status r) \<and> (\<forall>l \<in> set (db_leases db). lr_RunID l \<noteq> rn_ID r)"

lemma leaseless_lists:
  assumes "RunRepo_LeaselessActive db = (Inr xs, db')"
  shows "set xs = {r. orphaned db r}" and "still db db'"
proof -
  show "still db db'" by (rule silentD [OF silent_leaseless assms])
  show "set xs = {r. orphaned db r}"
    using assms unfolding RunRepo_LeaselessActive_def by (elim query_stmt_cases) (auto simp: orphaned_def list_ex_iff)
qed

text \<open>
  C39. Restart leaves no orphan: when the reconciliation of orphans reports no error, every run that
  had no lease and had not ended has ended afterwards, unless it is a self-heal that this process
  has dispatched or that its Goal pauses.
\<close>

theorem restart_leaves_no_orphan:
  assumes env: "reconcile_env C" and ok: "ids_ok db" and run: "ReconcileOrphanRuns S C db = ((n, None), db')"
    and r: "orphaned db r"
  shows "ended (runs_map db') (rn_ID r) \<or> pendingSelfHealSourceID r \<noteq> None \<and>
    (\<exists>d. rc_Dispatched C d (rn_ID r) \<or> fst (rc_Paused C r d) = Inr True)"
proof -
  have f: "\<forall>x. within always keeps_ended (orphan_step S C x)" by (intro allI orphan_step_keeps env)
  obtain xs db1 where l: "RunRepo_LeaselessActive db = (Inr xs, db1)" and k: "keeps_ended db db1"
    and each: "\<forall>x \<in> set xs. \<exists>d k d'. keeps_ended db1 d \<and> orphan_step S C x d = ((k, []), d') \<and> keeps_ended d' db'"
    using run unfolding ReconcileOrphanRuns_def by (rule ke.sweep_clean [OF silent_keeps [OF silent_leaseless] f])
  have "r \<in> set xs" using leaseless_lists(1) [OF l] r by simp
  then obtain d k d' where d: "keeps_ended db1 d" "orphan_step S C r d = ((k, []), d')" "keeps_ended d' db'"
    using each by blast
  have "ids_ok db1" using k ok by (simp add: keeps_ended_def)
  then have okd: "ids_ok d" using d(1) by (simp add: keeps_ended_def)
  have "keeps_ended d d'" using withinD [OF f [rule_format, of r] TrueI, of d] d(2) by simp
  then have "ids_ok d'" using okd by (simp add: keeps_ended_def)
  then have fin: "ended (runs_map d') (rn_ID r) \<Longrightarrow> ended (runs_map db') (rn_ID r)"
    using d(3) by (simp add: keeps_ended_def)
  show ?thesis using orphan_step_ends [OF env okd d(2)] fin by (metis fst_conv)
qed

section \<open>The sweep of local runs follows the protocol\<close>

lemma protocol_bind:
  assumes "protocol f" and "\<And>x. protocol (g x)"
  shows "protocol (bindM f g)"
  unfolding protocol_def
proof (intro allI impI)
  fix db :: "'a SchedDb_scheme"
  assume ok: "ids_ok db"
  obtain r db1 where f: "f db = (r, db1)" by (cases "f db")
  have s: "steps db db1" by (rule protocolD [OF assms(1) ok f])
  then have "steps db1 (snd (g x db1))" for x by (intro protocol_snd assms(2)) (simp add: steps_def)
  then show "steps db (snd (bindM f g db))" using s steps_trans [OF s] by (cases r) (simp_all add: bindM_def f)
qed

lemma protocol_try: "protocol f \<Longrightarrow> protocol (tryM f)"
  unfolding protocol_def tryM_def by (auto split: prod.splits sum.splits)

lemma protocol_read: "(\<And>x. protocol (g x)) \<Longrightarrow> protocol (readM f g)"
  by (simp add: protocol_def readM_def)

lemma protocol_opt: "protocol f \<Longrightarrow> (\<And>x. protocol (g x)) \<Longrightarrow> protocol (case y of None \<Rightarrow> f | Some x \<Rightarrow> g x)"
  by (cases y) auto

lemma protocol_return: "protocol (returnM x)"
  by (intro silent_protocol silent)

lemma recovery_protocol:
  assumes ren: "\<And>r. silent (rs_RenewDelegated S r)"
  shows "protocol (emitRecoveryEvent S i ty data)" "protocol (closeUnclosedPhaseForSweep S i evidence)"
proof -
  show e: "protocol (emitRecoveryEvent S i ty data)" for ty data
    unfolding emitRecoveryEvent_def by (intro protocol_bind protocol_try protocol_return record_protocol(2) ren)
  show "protocol (closeUnclosedPhaseForSweep S i evidence)"
    unfolding closeUnclosedPhaseForSweep_def case_prod_beta
    by (intro protocol_bind protocol_try protocol_opt protocol_return protocol_read e silent_protocol [OF silent_run_events])
qed

lemma report_path_protocol:
  assumes ren: "\<And>r. silent (rs_RenewDelegated S r)"
  shows "protocol (report_path S i path)"
  by (induction path) (auto intro: protocol_bind status_protocol(1) [OF ren] protocol_return)

lemma walk_protocol:
  assumes ren: "\<And>r. silent (rs_RenewDelegated S r)"
  shows "protocol (walkOrphanToTerminal S i from)"
  unfolding walkOrphanToTerminal_def by (intro protocol_opt protocol_bind protocol_return report_path_protocol status_protocol ren)

lemma report_protocol:
  assumes ren: "\<And>r. silent (rs_RenewDelegated S r)"
  shows "protocol (report_unrecovered S C i from e)" "protocol (report_recovered S i from terminal)"
  unfolding report_unrecovered_def report_recovered_def by (intro protocol_bind recovery_protocol ren)+

lemma close_orphan_protocol:
  assumes ren: "\<And>r. silent (rs_RenewDelegated S r)"
  shows "protocol (close_orphan S C i from)"
  unfolding protocol_def
proof (intro allI impI)
  fix db :: "'a RunDb_scheme"
  assume ok: "ids_ok db"
  obtain x db1 where w: "walkOrphanToTerminal S i from db = (x, db1)" by (cases "walkOrphanToTerminal S i from db")
  have s: "steps db db1" by (rule protocolD [OF walk_protocol [OF ren] ok w])
  then have ok1: "ids_ok db1" by (simp add: steps_def)
  show "steps db (snd (close_orphan S C i from db))"
    using steps_trans [OF s protocol_snd [OF report_protocol(1) [OF ren] ok1]]
      steps_trans [OF s protocol_snd [OF report_protocol(2) [OF ren] ok1]]
    by (cases x) (simp_all add: close_orphan_def w)
qed

lemma sweep_run_protocol:
  assumes ren: "\<And>r. silent (rs_RenewDelegated S r)"
  shows "protocol (sweepOrphanedLocalRun S C i)"
proof -
  have "protocol (if RunStatus_IsTerminal (rn_Status r) then returnM ()
      else bindM (closeUnclosedPhaseForSweep S i ev) (\<lambda>_. close_orphan S C i (rn_Status r)))" for r ev
    by (cases "RunStatus_IsTerminal (rn_Status r)") (simp_all add: protocol_return protocol_bind recovery_protocol close_orphan_protocol ren)
  then show ?thesis unfolding sweepOrphanedLocalRun_def by (intro protocol_bind silent_protocol [OF silent_get(2)])
qed

subsection \<open>Every run of the dead process ends\<close>

lemma status_ends:
  assumes a: "RecordRunStatus S i to data db = (Inr u, db')" and to: "RunStatus_IsTerminal to" and ok: "ids_ok db"
    and ren: "\<And>r. silent (rs_RenewDelegated S r)"
  shows "ended (runs_map db') i"
proof -
  obtain db2 n where b: "bindM (RunRepo_Get i) (\<lambda>r. transitionRunLocked S r to data) (db\<lparr>cn_step := Suc (cn_step db)\<rparr>) = (Inr u, db2)"
    and d: "db' = db2\<lparr>cn_step := n\<rparr>"
    using a unfolding RecordRunStatus_def by (cases rule: InTx_cases) auto
  obtain r db1 where g: "RunRepo_Get i (db\<lparr>cn_step := Suc (cn_step db)\<rparr>) = (Inr r, db1)" and t: "transitionRunLocked S r to data db1 = (Inr u, db2)"
    using b by (rule bindM_ok)
  have s: "still db db1" using silentD [OF silent_get(2) g] by simp
  have ok1: "ids_ok db1" using stillD [OF s] ok by simp
  have r: "r \<in> set (db_runs db1)" "rn_ID r = i" using run_get [OF g] s by (simp_all add: still_def)
  have "ended (runs_map db2) i"
    using t ok1 r(1) ren by (cases rule: transition_cases) (use to r(2) in \<open>auto simp: ended_def\<close>)
  then show ?thesis by (simp add: d runs_map_def)
qed

lemma report_path_ends:
  assumes ren: "\<And>r. silent (rs_RenewDelegated S r)"
  shows "report_path S i path db = (Inr t, db') \<Longrightarrow> path \<noteq> [] \<Longrightarrow> last path = RunLost \<Longrightarrow> ids_ok db \<Longrightarrow> ended (runs_map db') i"
proof (induction path arbitrary: db)
  case (Cons s path)
  obtain u db1 where a: "RecordRunStatus S i s (if s = RunLost then [(''reason'', VStr restart_code)] else []) db = (Inr u, db1)"
    and rest: "report_path S i path db1 = (Inr t, db')"
    using Cons.prems(1) unfolding report_path.simps by (rule bindM_ok)
  have "steps db db1" by (rule protocolD [OF status_protocol(1) [OF ren] Cons.prems(4) a])
  then have ok1: "ids_ok db1" by (simp add: steps_def)
  show ?case
  proof (cases "path = []")
    case True
    then show ?thesis using rest status_ends [OF a _ Cons.prems(4) ren] Cons.prems(3) by simp
  next
    case False
    then show ?thesis using Cons.IH [OF rest _ _ ok1] Cons.prems(3) by simp
  qed
qed simp

lemma walk_ends:
  assumes ren: "\<And>r. silent (rs_RenewDelegated S r)" and a: "walkOrphanToTerminal S i from db = (Inr t, db')"
    and "from": "\<not> RunStatus_IsTerminal from" and ok: "ids_ok db"
  shows "ended (runs_map db') i"
proof (cases "lostPath from")
  case None
  let ?data = "[(''code'', VStr restart_code), (''retryable'', VBool True), (''message'', VStr ([CHR 0xE6, CHR 0x8E, CHR 0xA7, CHR 0xE5, CHR 0x88, CHR 0xB6, CHR 0xE9, CHR 0x9D, CHR 0xA2, CHR 0xE9, CHR 0x87, CHR 0x8D, CHR 0xE5, CHR 0x90, CHR 0xAF, CHR 0xE5, CHR 0xAF, CHR 0xB9, CHR 0xE8, CHR 0xB4, CHR 0xA6, CHR 0xEF, CHR 0xBC, CHR 0x9A, CHR 0xE6, CHR 0x97, CHR 0xA0, CHR 0xE7, CHR 0xA7, CHR 0x9F, CHR 0xE7, CHR 0xBA, CHR 0xA6, CHR 0xE5, CHR 0x9C, CHR 0xA8, CHR 0xE9, CHR 0xA3, CHR 0x9E] @ '' run '' @ [CHR 0xE5, CHR 0x88, CHR 0xA4, CHR 0xE5, CHR 0xAE, CHR 0x9A, CHR 0xE5, CHR 0xA4, CHR 0xB1, CHR 0xE8, CHR 0xB4, CHR 0xA5, CHR 0xEF, CHR 0xBC, CHR 0x88, CHR 0xE5, CHR 0x8F, CHR 0xAF, CHR 0xE9, CHR 0x87, CHR 0x8D, CHR 0xE8, CHR 0xAF, CHR 0x95, CHR 0xEF, CHR 0xBC, CHR 0x89]))]"
  obtain u db1 where 1: "RecordRunStatus S i RunFailed ?data db = (Inr u, db1)" and "returnM RunFailed db1 = (Inr t, db')"
    using a unfolding walkOrphanToTerminal_def None option.case by (rule bindM_ok)
  then show ?thesis using status_ends [OF 1 _ ok ren] by simp
next
  case (Some path)
  have "path \<noteq> [] \<and> last path = RunLost" using Some "from" unfolding lostPath_table by (cases "from") auto
  then show ?thesis using report_path_ends [OF ren _ _ _ ok] a Some by (simp add: walkOrphanToTerminal_def)
qed

lemma close_orphan_ends:
  assumes ren: "\<And>r. silent (rs_RenewDelegated S r)" and a: "close_orphan S C i from db = (Inr u, db')"
    and "from": "\<not> RunStatus_IsTerminal from" and ok: "ids_ok db"
  shows "ended (runs_map db') i"
proof -
  obtain x db1 where x: "walkOrphanToTerminal S i from db = (x, db1)" by (cases "walkOrphanToTerminal S i from db")
  have "steps db db1" by (rule protocolD [OF walk_protocol [OF ren] ok x])
  then have ok1: "ids_ok db1" by (simp add: steps_def)
  obtain t where t: "x = Inr t" using a by (cases x) (simp_all add: close_orphan_def x)
  have fin: "ended (runs_map db1) i" by (rule walk_ends [OF ren x [unfolded t] "from" ok])
  have "report_recovered S i from t db1 = (Inr u, db')" using a by (simp add: close_orphan_def x t)
  then have "steps db1 db'" by (rule protocolD [OF report_protocol(2) [OF ren] ok1])
  then show ?thesis using fin steps_keep [of db1 db'] ok1 unfolding keeps_ended_def by blast
qed

lemma sweep_run_ends:
  assumes ren: "\<And>r. silent (rs_RenewDelegated S r)" and a: "sweepOrphanedLocalRun S C i db = (Inr u, db')" and ok: "ids_ok db"
  shows "ended (runs_map db') i"
proof -
  let ?ev = "[(''code'', VStr restart_code), (''boot_at'', VStr (timeParam (rc_BootAt C)))]"
  obtain r db1 where g: "RunRepo_Get i db = (Inr r, db1)"
    and b: "(if RunStatus_IsTerminal (rn_Status r) then returnM ()
      else bindM (closeUnclosedPhaseForSweep S i ?ev) (\<lambda>_. close_orphan S C i (rn_Status r))) db1 = (Inr u, db')"
    using a unfolding sweepOrphanedLocalRun_def by (rule bindM_ok)
  have s: "still db db1" by (rule silentD [OF silent_get(2) g])
  have ok1: "ids_ok db1" using stillD [OF s] ok by simp
  have r: "r \<in> set (db_runs db1)" "rn_ID r = i" using run_get [OF g] s by (simp_all add: still_def)
  show ?thesis
  proof (cases "RunStatus_IsTerminal (rn_Status r)")
    case True
    then have "db' = db1" using b by simp
    then show ?thesis using runs_map_in [OF ok1 r(1)] r(2) True by (simp add: ended_def)
  next
    case False
    obtain db2 c where c: "closeUnclosedPhaseForSweep S i ?ev db1 = (Inr c, db2)"
      and w: "close_orphan S C i (rn_Status r) db2 = (Inr u, db')"
      using b unfolding if_not_P [OF False] by (rule bindM_ok)
    have "steps db1 db2" by (rule protocolD [OF recovery_protocol(2) [OF ren] ok1 c])
    then have "ids_ok db2" by (simp add: steps_def)
    then show ?thesis by (rule close_orphan_ends [OF ren w False])
  qed
qed

definition lawful_moves :: "'a SchedDb_scheme \<Rightarrow> 'a SchedDb_scheme \<Rightarrow> bool" where
  "lawful_moves db db' \<longleftrightarrow> (ids_ok db \<longrightarrow> steps db db')"

interpretation lm: effect lawful_moves
proof
  fix db db1 db2 :: "'a SchedDb_scheme" and n
  show "lawful_moves db db" by (simp add: lawful_moves_def steps_refl)
  show "lawful_moves db db2" if "lawful_moves db db1" "lawful_moves db1 db2"
    using that steps_trans [of db db1 db2] by (auto simp: lawful_moves_def steps_def)
  show "lawful_moves db (db\<lparr>cn_step := n\<rparr>)" by (simp add: lawful_moves_def still_steps)
qed

lemma protocol_moves: "protocol f \<Longrightarrow> within P lawful_moves f"
  unfolding within_def lawful_moves_def protocol_def by blast

lemma local_step_moves:
  assumes ren: "\<And>r. silent (rs_RenewDelegated S r)"
  shows "within P lawful_moves (local_step S C r)"
proof -
  have p: "lawful_moves db (snd (sweepOrphanedLocalRun S C (rn_ID r) db))" for db
    by (rule withinD [OF protocol_moves [OF sweep_run_protocol [OF ren]] TrueI])
  have "lawful_moves db (snd (local_step S C r db))" for db
    using p [of db] by (cases "sweepOrphanedLocalRun S C (rn_ID r) db"; cases "fst (sweepOrphanedLocalRun S C (rn_ID r) db)")
      (simp_all add: local_step_def lm.refl)
  then show ?thesis by (simp add: within_def)
qed

lemma local_sweep_steps:
  assumes ren: "\<And>r. silent (rs_RenewDelegated S r)"
  shows "\<forall>x. within always lawful_moves (local_step S C x)" "within always lawful_moves RunRepo_LeaselessActive"
  by (intro allI local_step_moves ren) (intro protocol_moves silent_protocol silent)

lemma sweep_ends_in_flight:
  assumes ren: "\<And>r. silent (rs_RenewDelegated S r)" and ok: "ids_ok db"
    and run: "ReconcileOrphanedLocalRuns S C db = ((n, None), db')" and r: "orphaned db r" "in_flight (rn_Status r)"
  shows "ended (runs_map db') (rn_ID r)"
proof -
  note f = local_sweep_steps(1) [OF ren, of C]
  obtain xs db1 where ls: "RunRepo_LeaselessActive db = (Inr xs, db1)" and k: "lawful_moves db db1"
    and each: "\<forall>x \<in> set xs. \<exists>d k d'. lawful_moves db1 d \<and> local_step S C x d = ((k, []), d') \<and> lawful_moves d' db'"
    using run unfolding ReconcileOrphanedLocalRuns_def by (rule lm.sweep_clean [OF local_sweep_steps(2) [OF ren] f])
  have "r \<in> set xs" using leaseless_lists(1) [OF ls] r(1) by simp
  then obtain d k d' where d: "lawful_moves db1 d" "local_step S C r d = ((k, []), d')" "lawful_moves d' db'"
    using each by blast
  have okd: "ids_ok d" using k d(1) ok by (simp add: lawful_moves_def steps_def)
  have "lawful_moves d d'" using withinD [OF f [rule_format, of r] TrueI, of d] d(2) by simp
  then have okd': "ids_ok d'" using okd by (simp add: lawful_moves_def steps_def)
  obtain x d1 where x: "sweepOrphanedLocalRun S C (rn_ID r) d = (x, d1)" by (cases "sweepOrphanedLocalRun S C (rn_ID r) d")
  obtain u where "x = Inr u" "d1 = d'" using d(2) r(2) by (cases x) (simp_all add: local_step_def x)
  then have "ended (runs_map d') (rn_ID r)" using sweep_run_ends [OF ren _ okd] x by simp
  then show ?thesis using d(3) okd' steps_keep [of d' db'] unfolding keeps_ended_def lawful_moves_def by blast
qed


section \<open>Questions of runs that have ended\<close>

definition expired :: "time \<Rightarrow> QuestionRequest \<Rightarrow> QuestionRequest" where
  "expired t q = q\<lparr>qn_Status := QuestionExpired, qn_ResolvedAt := Some t\<rparr>"

definition question_fate :: "'a SchedDb_scheme \<Rightarrow> QuestionRequest \<Rightarrow> QuestionRequest \<Rightarrow> bool" where
  "question_fate db q q' \<longleftrightarrow> q' = q \<or> (\<exists>t. qn_Status q = QuestionPending \<and> ended (runs_map db) (qn_RunID q) \<and> q' = expired t q)"

definition expires_only :: "'a RunDb_scheme \<Rightarrow> 'a RunDb_scheme \<Rightarrow> bool" where
  "expires_only db db' \<longleftrightarrow> (ids_ok db \<longrightarrow> still db db' \<and> list_all2 (question_fate db) (db_questions db) (db_questions db'))"

lemma fate_refl: "question_fate db q q"
  by (simp add: question_fate_def)

interpretation eo: effect expires_only
proof
  fix db db1 db2 :: "'a RunDb_scheme" and n
  show "expires_only db db" by (simp add: expires_only_def list.rel_refl fate_refl)
  show "expires_only db (db\<lparr>cn_step := n\<rparr>)" by (simp add: expires_only_def list.rel_refl fate_refl)
  show "expires_only db db2" if 1: "expires_only db db1" and 2: "expires_only db1 db2"
    unfolding expires_only_def
  proof
    assume "ids_ok db"
    then have a: "still db db1" "list_all2 (question_fate db) (db_questions db) (db_questions db1)"
      using 1 by (simp_all add: expires_only_def)
    then have "ids_ok db1" using \<open>ids_ok db\<close> stillD [OF a(1)] by simp
    then have b: "still db1 db2" "list_all2 (question_fate db1) (db_questions db1) (db_questions db2)"
      using 2 by (simp_all add: expires_only_def)
    have "runs_map db1 = runs_map db" using stillD [OF a(1)] by simp
    then have "question_fate db1 = question_fate db" by (intro ext) (simp add: question_fate_def)
    then have b': "list_all2 (question_fate db) (db_questions db1) (db_questions db2)" using b(2) by simp
    have "question_fate db x z" if "question_fate db x y" "question_fate db y z" for x y z
    proof (cases "y = x")
      case False
      then have "qn_Status y = QuestionExpired" using that(1) by (auto simp: question_fate_def expired_def)
      then show ?thesis using that by (simp add: question_fate_def)
    qed (use that in simp)
    then have "list_all2 (question_fate db) (db_questions db) (db_questions db2)"
      by (rule list_all2_trans [of "question_fate db" "question_fate db" "question_fate db", OF _ a(2) b'])
    then show "still db db2 \<and> list_all2 (question_fate db) (db_questions db) (db_questions db2)"
      using still_trans [OF a(1) b(1)] by simp
  qed
qed

lemma expire_effect:
  assumes "expireRunPendingQuestions S r w db = (Inr n, db')"
  shows "still db db' \<and> (\<exists>t. db_questions db' =
    map (\<lambda>q. if qn_RunID q = rn_ID r \<and> qn_Status q = QuestionPending then expired t q else q) (db_questions db))"
proof -
  let ?hit = "\<lambda>q. qn_RunID q = rn_ID r \<and> qn_Status q = QuestionPending"
  obtain pending db1 where p: "QuestionRepo_ListPendingByRun (rn_ID r) db = (Inr pending, db1)"
    and rest: "(if pending = [] then returnM 0 else readM nowM (\<lambda>now. bindM (QuestionRepo_ExpirePendingByRun (rn_ID r) now) (\<lambda>_.
       bindM (emit_expired S r w pending) (\<lambda>_. returnM (length pending))))) db1 = (Inr n, db')"
    using assms unfolding expireRunPendingQuestions_def by (rule bindM_ok)
  have pe: "pending = by_creation (filter ?hit (db_questions db))" and d1: "db1 = db\<lparr>cn_step := Suc (cn_step db)\<rparr>"
    using p unfolding QuestionRepo_ListPendingByRun_def by (auto elim!: query_stmt_cases)
  show ?thesis
  proof (cases "pending = []")
    case True
    have "set pending = set (filter ?hit (db_questions db))" unfolding pe by_creation_def by (rule set_sort)
    then have "\<not> ?hit q" if "q \<in> set (db_questions db)" for q using True that by auto
    then have "map (\<lambda>q. if ?hit q then expired t q else q) (db_questions db) = db_questions db" for t
      by (intro map_idI if_not_P)
    then show ?thesis using rest True by (simp add: d1)
  next
    case False
    then have "bindM (QuestionRepo_ExpirePendingByRun (rn_ID r) (nowM db1)) (\<lambda>_.
       bindM (emit_expired S r w pending) (\<lambda>_. returnM (length pending))) db1 = (Inr n, db')"
      using rest by (simp add: readM_def)
    then obtain m db2 where x: "QuestionRepo_ExpirePendingByRun (rn_ID r) (nowM db1) db1 = (Inr m, db2)"
      and e: "bindM (emit_expired S r w pending) (\<lambda>_. returnM (length pending)) db2 = (Inr n, db')"
      by (rule bindM_ok)
    have q2: "db_questions db2 = map (\<lambda>q. if ?hit q then expired (nowM db1) q else q) (db_questions db)" and s2: "still db db2"
      using x unfolding QuestionRepo_ExpirePendingByRun_def
      by (auto elim!: exec_stmt_cases simp: Let_def d1 expired_def still_def)
    obtain u db3 where em: "emit_expired S r w pending db2 = (Inr u, db3)" and "returnM (length pending) db3 = (Inr n, db')"
      using e by (rule bindM_ok)
    then have d3: "db' = db3" by simp
    have "still db2 db3" by (rule silentD [OF silent_emit_expired em])
    then have "still db db'" using s2 d3 still_trans by blast
    moreover have "db_questions db' = db_questions db2"
      using withinD [OF sq_artifact(2) [of S r w pending] TrueI, of db2] em d3 by (simp add: same_questions_def)
    ultimately show ?thesis using q2 by auto
  qed
qed

lemma stale_step_effect:
  assumes step: "stale_step S i db = ((k, es), db')" and ok: "ids_ok db"
  shows "expires_only db db' \<and>
    (es = [] \<and> ended (runs_map db) i \<longrightarrow> (\<forall>q \<in> set (db_questions db'). qn_RunID q = i \<longrightarrow> qn_Status q \<noteq> QuestionPending))"
proof -
  let ?body = "bindM (RunRepo_Get i) (\<lambda>r. if \<not> RunStatus_IsTerminal (rn_Status r) then returnM 0
        else bindM (WorkItemRepo_Get (rn_WorkItemID r)) (\<lambda>w. expireRunPendingQuestions S r w))"
  obtain x where x: "InTx ?body db = (x, db')" "(case x of Inl e \<Rightarrow> (0, [e]) | Inr n \<Rightarrow> (n, [])) = (k, es)"
    using step unfolding stale_step_def by (cases "InTx ?body db"; cases "fst (InTx ?body db)") auto
  show ?thesis using x(1)
  proof (cases rule: InTx_cases)
    case (1 e n)
    then show ?thesis using x(2) eo.count [of db n] by auto
  next
    case (2 n db2 m)
    let ?db = "db\<lparr>cn_step := Suc (cn_step db)\<rparr>"
    obtain r db1 where g: "RunRepo_Get i ?db = (Inr r, db1)"
      and b: "(if \<not> RunStatus_IsTerminal (rn_Status r) then returnM 0
        else bindM (WorkItemRepo_Get (rn_WorkItemID r)) (\<lambda>w. expireRunPendingQuestions S r w)) db1 = (Inr n, db2)"
      using 2(2) by (rule bindM_ok)
    have s: "still db db1" using silentD [OF silent_get(2) g] by simp
    have q1: "db_questions db1 = db_questions db" using withinD [OF sq_gets(2) [of i] TrueI, of ?db] g by (simp add: same_questions_def)
    have ok1: "ids_ok db1" using stillD [OF s] ok by simp
    have r: "r \<in> set (db_runs db1)" "rn_ID r = i" using run_get [OF g] s by (simp_all add: still_def)
    have row: "runs_map db i = Some (rn_WorkItemID r, rn_Status r)" using runs_map_in [OF ok1 r(1)] stillD [OF s] r(2) by simp
    have eq: "db_questions db' = db_questions db2" "still db db' \<longleftrightarrow> still db db2" using 2(3) by simp_all
    show ?thesis
    proof (cases "RunStatus_IsTerminal (rn_Status r)")
      case False
      then have "db2 = db1" using b by simp
      then show ?thesis using eq s q1 row False by (simp add: expires_only_def list.rel_refl fate_refl ended_def)
    next
      case True
      then have "bindM (WorkItemRepo_Get (rn_WorkItemID r)) (\<lambda>w. expireRunPendingQuestions S r w) db1 = (Inr n, db2)" using b by simp
      then obtain w db3 where w: "WorkItemRepo_Get (rn_WorkItemID r) db1 = (Inr w, db3)"
        and e: "expireRunPendingQuestions S r w db3 = (Inr n, db2)" by (rule bindM_ok)
      have s3: "still db1 db3" by (rule silentD [OF silent_get(1) w])
      have q3: "db_questions db3 = db_questions db"
        using withinD [OF sq_gets(1) [of "rn_WorkItemID r"] TrueI, of db1] w q1 by (simp add: same_questions_def)
      obtain t where t: "still db3 db2"
        "db_questions db2 = map (\<lambda>q. if qn_RunID q = i \<and> qn_Status q = QuestionPending then expired t q else q) (db_questions db)"
        using expire_effect [OF e] r(2) q3 by auto
      have fin: "ended (runs_map db) i" using row True by (simp add: ended_def)
      have a: "still db db'" using eq(2) still_trans [OF still_trans [OF s s3] t(1)] by simp
      have b: "list_all2 (question_fate db) (db_questions db) (db_questions db')"
        unfolding eq t(2) list_all2_map2
      proof (rule list.rel_refl_strong)
        fix q
        show "question_fate db q (if qn_RunID q = i \<and> qn_Status q = QuestionPending then expired t q else q)"
          using fin by (cases "qn_RunID q = i \<and> qn_Status q = QuestionPending") (force simp: question_fate_def)+
      qed
      have c: "qn_Status q \<noteq> QuestionPending" if mem: "q \<in> set (db_questions db')" and runID: "qn_RunID q = i" for q
      proof -
        obtain q0 where q0: "q = (if qn_RunID q0 = i \<and> qn_Status q0 = QuestionPending then expired t q0 else q0)"
          using mem unfolding eq t(2) set_map by (elim imageE)
        show ?thesis
        proof (cases "qn_RunID q0 = i \<and> qn_Status q0 = QuestionPending")
          case True
          show ?thesis unfolding q0 if_P [OF True] by (simp add: expired_def)
        next
          case False
          then have "q = q0" using q0 by (simp only: if_False)
          then show ?thesis using False runID by blast
        qed
      qed
      show ?thesis unfolding expires_only_def using a b c by blast
    qed
  qed
qed

lemma stale_step_within: "within P expires_only (stale_step S i)"
  unfolding within_def
proof (intro allI impI)
  fix db :: "'a RunDb_scheme"
  obtain k es db' where e: "stale_step S i db = ((k, es), db')" by (metis surj_pair)
  then show "expires_only db (snd (stale_step S i db))"
    using stale_step_effect [OF e] by (cases "ids_ok db") (simp_all add: expires_only_def)
qed

lemma first_runs_set: "set (first_runs seen qs) = qn_RunID ` set qs - set seen"
  by (induction qs arbitrary: seen) auto

lemma stale_listed:
  assumes "bindM QuestionRepo_ListStalePending (\<lambda>stale. returnM (first_runs [] stale)) db = (Inr xs, db1)"
    and "q \<in> set (db_questions db)" and "qn_Status q = QuestionPending" and "ended (runs_map db) (qn_RunID q)"
  shows "qn_RunID q \<in> set xs"
proof -
  obtain stale d where l: "QuestionRepo_ListStalePending db = (Inr stale, d)" and "returnM (first_runs [] stale) d = (Inr xs, db1)"
    using assms(1) by (rule bindM_ok)
  then have xs: "xs = first_runs [] stale" by simp
  have "set stale = {q \<in> set (db_questions db). qn_Status q = QuestionPending \<and>
       list_ex (\<lambda>r. rn_ID r = qn_RunID q \<and> RunStatus_IsTerminal (rn_Status r)) (db_runs db)}"
    using l unfolding QuestionRepo_ListStalePending_def by (auto elim!: query_stmt_cases simp: by_creation_def)
  moreover have "list_ex (\<lambda>r. rn_ID r = qn_RunID q \<and> RunStatus_IsTerminal (rn_Status r)) (db_runs db)"
    using assms(4) unfolding ended_def runs_map_def list_ex_iff by (force split: option.splits dest!: map_of_SomeD)
  ultimately have "q \<in> set stale" using assms(2,3) by simp
  then show ?thesis unfolding xs first_runs_set by simp
qed

text \<open>
  C40. The reconciliation of stale questions expires pending questions of runs that have ended and
  nothing else, whatever fails; when it reports no error, no question of a run that has ended is
  pending any more.
\<close>

theorem stale_questions_expired:
  assumes ok: "ids_ok db" and run: "ReconcileStaleQuestions S db = ((n, e), db')"
  shows "db_runs db' = db_runs db \<and> db_items db' = db_items db \<and>
    list_all2 (question_fate db) (db_questions db) (db_questions db') \<and>
    (e = None \<longrightarrow> (\<forall>q \<in> set (db_questions db'). qn_Status q = QuestionPending \<longrightarrow> \<not> ended (runs_map db') (qn_RunID q)))"
proof -
  let ?l = "bindM QuestionRepo_ListStalePending (\<lambda>stale. returnM (first_runs [] stale))"
  have f: "\<forall>i. within always expires_only (stale_step S i)" by (intro allI stale_step_within)
  have l: "within always expires_only ?l"
    unfolding QuestionRepo_ListStalePending_def by (intro eo.bind eo.query eo.return)
  have "expires_only db db'" using withinD [OF eo.sweep_within [OF l f] TrueI, of db] run by (simp add: ReconcileStaleQuestions_def)
  then have s: "still db db'" and fates: "list_all2 (question_fate db) (db_questions db) (db_questions db')"
    using ok by (simp_all add: expires_only_def)
  have clean: "\<not> ended (runs_map db') (qn_RunID q)"
    if e: "e = None" and q: "q \<in> set (db_questions db')" "qn_Status q = QuestionPending" for q
  proof
    assume "ended (runs_map db') (qn_RunID q)"
    then have fin: "ended (runs_map db) (qn_RunID q)" using stillD [OF s] by simp
    have old: "q \<in> set qs" if "list_all2 (question_fate d) qs (db_questions db')" for d and qs
    proof -
      have "\<exists>q0 \<in> set qs. question_fate d q0 q"
        using that q(1) by (induction rule: list_all2_induct) auto
      then obtain q0 where "q0 \<in> set qs" "question_fate d q0 q" by (elim bexE)
      then show ?thesis using q(2) by (auto simp: question_fate_def expired_def)
    qed
    obtain xs db1 where ls: "?l db = (Inr xs, db1)" and k: "expires_only db db1"
      and each: "\<forall>x \<in> set xs. \<exists>d k d'. expires_only db1 d \<and> stale_step S x d = ((k, []), d') \<and> expires_only d' db'"
      using run unfolding ReconcileStaleQuestions_def e by (rule eo.sweep_clean [OF l f])
    have "qn_RunID q \<in> set xs" by (rule stale_listed [OF ls old [OF fates] q(2) fin])
    then obtain d k d' where d: "expires_only db1 d" "stale_step S (qn_RunID q) d = ((k, []), d')" "expires_only d' db'"
      using each by blast
    have "expires_only db d" using k d(1) by (rule eo.trans)
    then have sd: "still db d" using ok by (simp add: expires_only_def)
    then have okd: "ids_ok d" and find: "ended (runs_map d) (qn_RunID q)" using stillD [OF sd] ok fin by simp_all
    note eff = stale_step_effect [OF d(2) okd]
    have "still d d'" using eff okd by (simp add: expires_only_def)
    then have "ids_ok d'" using stillD [of d d'] okd by simp
    then have "list_all2 (question_fate d') (db_questions d') (db_questions db')" using d(3) by (simp add: expires_only_def)
    then have "q \<in> set (db_questions d')" by (rule old)
    then show False using eff find q(2) by simp
  qed
  show ?thesis using s fates clean by (simp add: still_def)
qed

section \<open>A self-heal dispatched at the start\<close>

text \<open>
  \<^verbatim>\<open>RecoverPendingSelfHealRuns\<close> claims a self-heal (its run goes to starting) and dispatches it. The
  sweep of orphans leaves such a run alone; the sweep of local runs, which comes first, does not
  look whether it was dispatched, and ends it.
\<close>

lemma dispatched_self_heal_swept:
  assumes ren: "\<And>r. silent (rs_RenewDelegated S r)" and ok: "ids_ok db"
    and r: "orphaned db r" "rn_Status r = RunStarting" "pendingSelfHealSourceID r = Some source" "rc_Dispatched C db (rn_ID r)"
  shows "snd (orphan_step S C r db) = db"
    and "ReconcileOrphanedLocalRuns S C db = ((n, None), db') \<Longrightarrow> ended (runs_map db') (rn_ID r)"
  using r sweep_ends_in_flight [OF ren ok _ r(1)] by (simp_all add: orphan_step_def in_flight_def)

section \<open>Witnesses\<close>

text \<open>For evaluation: a list of one row is in order, and the zero instant has this text.\<close>

lemma sort_short: "(if tl xs = [] then xs else sort_key f xs) = sort_key f xs"
  by (cases xs) simp_all

declare by_creation_def [code del] by_creation_code [code del] RunRepo_LeaselessActive_def [code del] timeParam_def [code del]

lemma by_creation_short_code [code]: "by_creation qs = (if tl qs = [] then qs else sort_key (\<lambda>q. timeParam (qn_CreatedAt q)) qs)"
  by (simp only: by_creation_def sort_short)

lemma leaseless_short_code [code]:
  "RunRepo_LeaselessActive = query_stmt (\<lambda>_ db. Inr
     (let rows = filter (\<lambda>r. \<not> RunStatus_IsTerminal (rn_Status r) \<and> \<not> list_ex (\<lambda>l. lr_RunID l = rn_ID r) (db_leases db)) (db_runs db)
      in if tl rows = [] then rows else sort_key (\<lambda>r. timeParam (rn_CreatedAt r)) rows))"
  by (simp only: RunRepo_LeaselessActive_def sort_short Let_def)

lemma timeParam_zero_code [code]:
  "timeParam t = (if t = 0 then ''0001-01-01T00:00:00Z''
     else clock_text (nat t div 1000000000) @ frac_text (nat t mod 1000000000) @ ''Z'')"
  using sample_times(1) by (simp add: timeParam_def)

definition sample_reconcile :: "RunDb ReconcileEnv" where
  "sample_reconcile = \<lparr>rc_BootAt = 0, rc_ErrText = (\<lambda>_. ''error''), rc_Dispatched = (\<lambda>_ _. False), rc_Paused = (\<lambda>_. returnM False),
     rc_Snapshot = (\<lambda>_. failM ErrNotFound), rc_Hooks = (\<lambda>_. returnM ())\<rparr>"

definition sample_orphan :: RunDb where
  "sample_orphan = sample_tasks\<lparr>db_runs := [sample_run\<lparr>rn_Status := RunRunning\<rparr>],
     db_items := [sample_item\<lparr>wi_Status := WorkItemInProgress, wi_LockedByRunID := ''run_1'', wi_LockedAt := Some 0\<rparr>]\<rparr>"

lemma sample_reconcile_env: "reconcile_env sample_reconcile"
  by (simp add: reconcile_env_def sample_reconcile_def ke.return ke.fail)

lemma sample_orphan_ids: "ids_ok sample_orphan"
  by (simp add: ids_ok_def sample_orphan_def sample_tasks_def sample_run_def)

lemma sample_orphaned: "orphaned sample_orphan (sample_run\<lparr>rn_Status := RunRunning\<rparr>)"
  by (simp add: orphaned_def sample_orphan_def sample_tasks_def)

theorem restart_leaves_no_orphan_witness:
  "fst (ReconcileOrphanRuns sample_service sample_reconcile sample_orphan) = (1, None) \<and>
   ended (runs_map (snd (ReconcileOrphanRuns sample_service sample_reconcile sample_orphan))) ''run_1''"
proof -
  have r: "fst (ReconcileOrphanRuns sample_service sample_reconcile sample_orphan) = (1, None)" by code_simp
  have "pendingSelfHealSourceID (sample_run\<lparr>rn_Status := RunRunning\<rparr>) = None" by code_simp
  then show ?thesis
    using r restart_leaves_no_orphan [OF sample_reconcile_env sample_orphan_ids _ sample_orphaned, of sample_service 1
        "snd (ReconcileOrphanRuns sample_service sample_reconcile sample_orphan)"]
    by (simp add: prod_eq_iff sample_run_def)
qed


definition sample_stale :: RunDb where
  "sample_stale = sample_asked\<lparr>db_runs := [sample_run\<lparr>rn_Status := RunLost\<rparr>]\<rparr>"

theorem stale_questions_expired_witness:
  "let (res, db') = ReconcileStaleQuestions sample_service sample_stale
   in res = (1, None) \<and> map qn_Status (db_questions db') = [QuestionExpired] \<and>
     (\<forall>q \<in> set (db_questions db'). qn_Status q = QuestionPending \<longrightarrow> \<not> ended (runs_map db') (qn_RunID q))"
proof -
  let ?x = "ReconcileStaleQuestions sample_service sample_stale"
  have r: "fst ?x = (1, None)" "map qn_Status (db_questions (snd ?x)) = [QuestionExpired]" by code_simp+
  have ok: "ids_ok sample_stale" by code_simp
  show ?thesis
    using r stale_questions_expired [OF ok, of sample_service 1 None "snd ?x"] by (simp add: prod_eq_iff case_prod_beta Let_def)
qed

section \<open>The log budget\<close>

text \<open>What is left of the bytes of raw output a run may store.\<close>

definition LogChunkBudgetBytes :: int where "LogChunkBudgetBytes = 64 * 1024"

definition LogBudget_Take :: "int \<Rightarrow> string \<Rightarrow> (string \<times> bool \<times> bool) \<times> int" where
  "LogBudget_Take remaining chunk =
     (if remaining \<le> 0 then (('''', False, False), remaining)
      else if int (length chunk) \<le> remaining then ((chunk, False, True), remaining - int (length chunk))
      else ((take (nat remaining) chunk, True, True), 0))"

definition LogChunkPayload :: "string \<Rightarrow> string \<Rightarrow> bool \<Rightarrow> gomap" where
  "LogChunkPayload stream chunk truncated = [(''stream'', VStr stream), (''chunk'', VStr chunk), (''truncated'', VBool truncated)]"

definition LogLine ::
  "(string \<Rightarrow> gomap \<Rightarrow> 'db \<Rightarrow> (go_error + unit) \<times> 'db) \<Rightarrow> string \<Rightarrow> int \<Rightarrow> string \<Rightarrow> 'db \<Rightarrow> (go_error + unit) \<times> int \<times> 'db" where
  "LogLine record stream budget line db =
     (let ((stored, truncated, ok), budget') = LogBudget_Take budget line
      in if \<not> ok then (Inr (), budget', db)
         else case record ''run.log_chunk'' (LogChunkPayload stream stored truncated) db of (r, db') \<Rightarrow> (r, budget', db'))"

fun taken :: "int \<Rightarrow> string list \<Rightarrow> string" where
  "taken b [] = ''''"
| "taken b (c # cs) = (case LogBudget_Take b c of ((stored, _), b') \<Rightarrow> stored @ taken b' cs)"

text \<open>Whatever the chunks, exactly the first bytes of the output are stored.\<close>

lemma log_budget_prefix: "taken b cs = take (nat b) (concat cs)"
proof (induction cs arbitrary: b)
  case (Cons c cs)
  consider "b \<le> 0" | "0 < b" "int (length c) \<le> b" | "0 < b" "b < int (length c)" by linarith
  then show ?case
  proof cases
    case 2
    then have "nat b = length c + nat (b - int (length c))" by simp
    then show ?thesis using 2 Cons.IH by (simp add: LogBudget_Take_def)
  qed (simp_all add: LogBudget_Take_def Cons.IH)
qed simp

end
