(* ===== verification/SystemHistories.thy ===== *)
theory SystemHistories
  imports Reconcile
begin

text \<open>
  Histories of the whole control plane: the operations of theory RunHistories with the four sweeps of
  its start (theory Reconcile) among them. Two of these sweeps, the one of orphans and the one of runs
  without a context snapshot, end runs in a way of their own, without giving back the lock of the
  task; so the protocol gets one more step, and what holds of locks over every history is said here.
\<close>

section \<open>The protocol with abandoned runs\<close>

text \<open>A run that a sweep of the start marks as ended keeps its lock.\<close>

inductive system_step :: "task_view \<Rightarrow> task_view \<Rightarrow> bool" where
  lawful: "task_step v v' \<Longrightarrow> system_step v v'"
| abandon: "R i = Some (w, s) \<Longrightarrow> \<not> RunStatus_IsTerminal s \<Longrightarrow> RunStatus_IsTerminal to \<Longrightarrow>
    system_step (R, L) (R(i \<mapsto> (w, to)), L)"

lemma lawful_steps: "task_step\<^sup>*\<^sup>* v v' \<Longrightarrow> system_step\<^sup>*\<^sup>* v v'"
  by (induction rule: rtranclp_induct) (auto intro: rtranclp.rtrancl_into_rtrancl system_step.lawful)

lemma ended_system_step: "system_step v v' \<Longrightarrow> ended (fst v) i \<Longrightarrow> ended (fst v') i"
proof (induction rule: system_step.induct)
  case (lawful v v')
  then show ?case by (rule ended_step)
qed (auto simp: ended_def)

text \<open>Every lock is on a task and held by a run of that task, which may have ended.\<close>

definition lock_owned :: "task_view \<Rightarrow> bool" where
  "lock_owned v \<longleftrightarrow> (\<forall>w t h. snd v w = Some (t, h) \<longrightarrow> h \<noteq> '''' \<longrightarrow> t \<and> (\<exists>s. fst v h = Some (w, s)))"

lemma lock_ownedI: "(\<And>w t h. L w = Some (t, h) \<Longrightarrow> h \<noteq> '''' \<Longrightarrow> t \<and> (\<exists>s. R h = Some (w, s))) \<Longrightarrow> lock_owned (R, L)"
  unfolding lock_owned_def by (metis fst_conv snd_conv)

lemma lock_ownedD: "lock_owned (R, L) \<Longrightarrow> L w = Some (t, h) \<Longrightarrow> h \<noteq> '''' \<Longrightarrow> t \<and> (\<exists>s. R h = Some (w, s))"
  unfolding lock_owned_def by (metis fst_conv snd_conv)

lemma lock_inv_owned: "lock_inv v \<Longrightarrow> lock_owned v"
  unfolding lock_inv_def lock_owned_def by meson

lemma owned_moved: "lock_owned (R, L) \<Longrightarrow> R i = Some (w, s) \<Longrightarrow> lock_owned (R(i \<mapsto> (w, to)), L)"
  by (rule lock_ownedI) (fastforce dest: lock_ownedD)

lemma lock_owned_task_step:
  assumes "task_step v v'" and "lock_owned v"
  shows "lock_owned v'"
  using assms
proof (induction rule: task_step.induct)
  case (start R i w s L h)
  then show ?case using lock_ownedD [OF start.prems] by (intro lock_ownedI) (fastforce split: if_splits)
next
  case (move R i w s to L)
  then show ?case by (blast intro: owned_moved)
next
  case (finish R i w s to L)
  have o: "lock_owned (R(i \<mapsto> (w, to)), L)" using finish by (blast intro: owned_moved)
  show ?case
  proof (rule lock_ownedI)
    fix w' t h'
    assume l: "release_lock w i L w' = Some (t, h')" and h': "h' \<noteq> ''''"
    then have "L w' = Some (t, h')" by (auto simp: release_lock_def split: if_splits)
    from lock_ownedD [OF o this h'] show "t \<and> (\<exists>s. (R(i \<mapsto> (w, to))) h' = Some (w', s))" .
  qed
next
  case (sweep L L' R)
  show ?case
  proof (rule lock_ownedI)
    fix w t h
    assume l: "L' w = Some (t, h)" and h: "h \<noteq> ''''"
    then obtain t' h' where L: "L w = Some (t', h')" using sweep.hyps(1) by (cases "L w") auto
    then have "L' w = Some (t', h')" using sweep.hyps(2) l h by fastforce
    then show "t \<and> (\<exists>s. R h = Some (w, s))" using lock_ownedD [OF sweep.prems L] l h by simp
  qed
next
  case (create R i L w)
  then show ?case using lock_ownedD [OF create.prems] by (intro lock_ownedI) fastforce
next
  case (add L w R t)
  then show ?case using lock_ownedD [OF add.prems] by (intro lock_ownedI) (auto split: if_splits)
qed

lemma lock_owned_step: "system_step v v' \<Longrightarrow> lock_owned v \<Longrightarrow> lock_owned v'"
  by (induction rule: system_step.induct) (auto intro: lock_owned_task_step owned_moved)

lemma lock_owned_steps: "system_step\<^sup>*\<^sup>* v v' \<Longrightarrow> lock_owned v \<Longrightarrow> lock_owned v'"
  by (induction rule: rtranclp_induct) (auto intro: lock_owned_step)

text \<open>A lock stays with its holder as long as that has not ended.\<close>

lemma lock_kept_task_step:
  assumes "task_step v v'" and "lock_owned v" and "snd v w = Some (True, i)" and "i \<noteq> ''''" and "\<not> ended (fst v') i"
  shows "snd v' w = Some (True, i)"
  using assms
proof (induction rule: task_step.induct)
  case (start R j w' s L h)
  show ?case
  proof (cases "w' = w \<and> j \<noteq> i")
    case True
    then have "h = i" using start by simp
    moreover have "\<not> free_lock R i"
      using lock_ownedD [OF start.prems(1), of w True i] start.prems True by (auto simp: free_lock_def ended_def)
    ultimately show ?thesis using start.hyps True by simp
  qed (use start in auto)
next
  case (finish R j w' s to L)
  then have "j \<noteq> i" by (auto simp: ended_def)
  then show ?case using finish.prems by (auto simp: release_lock_def)
next
  case (sweep L L' R)
  have "\<not> ended R i" using sweep.prems by simp
  then show ?case using sweep.hyps(2) sweep.prems(2) by auto
qed auto

lemma lock_kept_step:
  assumes "system_step v v'" and "lock_owned v" and "snd v w = Some (True, i)" and "i \<noteq> ''''" and "\<not> ended (fst v') i"
  shows "snd v' w = Some (True, i)"
  using assms(1)
proof cases
  case lawful
  then show ?thesis using lock_kept_task_step assms by blast
qed (use assms in auto)

lemma lock_kept_steps:
  assumes "system_step\<^sup>*\<^sup>* v v'" and "lock_owned v" and "snd v w = Some (True, i)" and "i \<noteq> ''''" and "\<not> ended (fst v') i"
  shows "snd v' w = Some (True, i)"
  using assms
proof (induction rule: rtranclp_induct)
  case (step y z)
  have "\<not> ended (fst y) i" using ended_system_step [OF step.hyps(2)] step.prems(4) by blast
  then have "snd y w = Some (True, i)" using step.IH step.prems by simp
  then show ?case using lock_kept_step [OF step.hyps(2) lock_owned_steps [OF step.hyps(1) step.prems(1)]] step.prems by simp
qed simp

section \<open>Histories\<close>

text \<open>The sweeps may come at any time and in any order; the start of the program runs them first.\<close>

datatype sys_op = SysTask task_op | SysLegacyRuns | SysLocalRuns | SysOrphanRuns | SysStaleQuestions

fun do_sys ::
  "'a RunS \<Rightarrow> 'a RunDb_scheme ReconcileEnv \<Rightarrow> 'a RunDb_scheme ApprovalEnv \<Rightarrow> (goval \<Rightarrow> string) \<Rightarrow> 'a forwarder \<Rightarrow>
   sys_op \<Rightarrow> 'a RunDb_scheme \<Rightarrow> 'a RunDb_scheme" where
  "do_sys S C E sp fw (SysTask p) db = do_op S E sp fw p db"
| "do_sys S C E sp fw SysLegacyRuns db = snd (ReconcileLegacyContextRuns S C db)"
| "do_sys S C E sp fw SysLocalRuns db = snd (ReconcileOrphanedLocalRuns S C db)"
| "do_sys S C E sp fw SysOrphanRuns db = snd (ReconcileOrphanRuns S C db)"
| "do_sys S C E sp fw SysStaleQuestions db = snd (ReconcileStaleQuestions S db)"

fun sys_ok :: "sys_op \<Rightarrow> bool" where
  "sys_ok (SysTask p) \<longleftrightarrow> op_ok p"
| "sys_ok _ \<longleftrightarrow> True"

definition system_history ::
  "'a RunS \<Rightarrow> 'a RunDb_scheme ReconcileEnv \<Rightarrow> 'a RunDb_scheme ApprovalEnv \<Rightarrow> (goval \<Rightarrow> string) \<Rightarrow> 'a forwarder \<Rightarrow>
   sys_op list \<Rightarrow> 'a RunDb_scheme \<Rightarrow> 'a RunDb_scheme" where
  "system_history S C E sp fw ops db = foldl (\<lambda>db p. do_sys S C E sp fw p db) db ops"

text \<open>The start of the program is such a history, whatever recovered self-heals do in its middle.\<close>

lemma startup_is_history:
  "snd (startup_reconcile S C (task_history S E sp fw ops) db) =
     system_history S C E sp fw ([SysLegacyRuns] @ map SysTask ops @ [SysLocalRuns, SysOrphanRuns, SysStaleQuestions]) db"
proof -
  have "foldl (\<lambda>db p. do_sys S C E sp fw p db) d (map SysTask ops) = task_history S E sp fw ops d" for d
    unfolding task_history_def by (induction ops arbitrary: d) simp_all
  then show ?thesis by (simp add: startup_reconcile_def system_history_def Let_def split_def)
qed

context effect
begin

lemma history: "\<forall>p \<in> set ps. \<forall>db. R db (f p db) \<Longrightarrow> R db (foldl (\<lambda>db p. f p db) db ps)"
proof (induction ps arbitrary: db)
  case (Cons p ps)
  have "R db (f p db)" using Cons.prems by simp
  moreover have "R (f p db) (foldl (\<lambda>db p. f p db) (f p db) ps)" using Cons.prems by (intro Cons.IH) simp
  ultimately show ?case using trans by simp
qed (simp add: refl)

end

section \<open>Histories follow the protocol\<close>

definition sys_moves :: "'a SchedDb_scheme \<Rightarrow> 'a SchedDb_scheme \<Rightarrow> bool" where
  "sys_moves db db' \<longleftrightarrow> (ids_ok db \<longrightarrow> ids_ok db' \<and> system_step\<^sup>*\<^sup>* (task_view_of db) (task_view_of db'))"

lemma lawful_sys: "lawful_moves db db' \<Longrightarrow> sys_moves db db'"
  unfolding lawful_moves_def sys_moves_def steps_def by (blast intro: lawful_steps)

interpretation sm: effect sys_moves
proof
  fix db db1 db2 :: "'a SchedDb_scheme" and n
  show "sys_moves db db" by (rule lawful_sys) (rule lm.refl)
  show "sys_moves db db2" if "sys_moves db db1" "sys_moves db1 db2"
    using that rtranclp_trans [of system_step "task_view_of db" "task_view_of db1"] unfolding sys_moves_def by blast
  show "sys_moves db (db\<lparr>cn_step := n\<rparr>)" by (rule lawful_sys) (rule lm.count)
qed

lemma abandons_sys: "abandons i db db' \<Longrightarrow> sys_moves db db'"
  unfolding sys_moves_def abandons_def task_view_of_def
  by (elim conjE disjE exE) (simp_all add: r_into_rtranclp system_step.abandon)

text \<open>What follows the end of a run, and what the sweeps ask other parts, moves runs and locks by the protocol only.\<close>

definition startup_env :: "'a RunDb_scheme ReconcileEnv \<Rightarrow> bool" where
  "startup_env C \<longleftrightarrow> (\<forall>r. within always lawful_moves (rc_Paused C r)) \<and> (\<forall>i. within always lawful_moves (rc_Snapshot C i)) \<and>
     (\<forall>r. within always lawful_moves (rc_Hooks C r))"

lemma within_lawful: "within always lawful_moves f \<Longrightarrow> within P sys_moves f"
  unfolding within_def using lawful_sys by blast

lemma silent_sys: "silent f \<Longrightarrow> within P sys_moves f"
  by (rule within_lawful) (intro protocol_moves silent_protocol)

lemma mark_sys: "within P sys_moves (markOrphanTerminal S i)" "within P sys_moves (markLegacyContextMissingTerminal S i)"
proof -
  have "sys_moves db (snd (markOrphanTerminal S i db)) \<and> sys_moves db (snd (markLegacyContextMissingTerminal S i db))"
    for db :: "'a RunDb_scheme"
  proof (cases "ids_ok db")
    case True
    show ?thesis using mark_effect [OF True surjective_pairing] by (blast intro: abandons_sys)
  qed (simp add: sys_moves_def)
  then show "within P sys_moves (markOrphanTerminal S i)" "within P sys_moves (markLegacyContextMissingTerminal S i)"
    by (simp_all add: within_def)
qed

lemma mark_with_sys:
  assumes env: "startup_env C" and mark: "within always sys_moves (mark i)"
  shows "sys_moves db (snd (mark_with C mark i es db))"
proof -
  obtain x db1 where m: "mark i db = (x, db1)" by (cases "mark i db")
  have 1: "sys_moves db db1" using withinD [OF mark TrueI, of db] by (simp add: m)
  have h: "within always sys_moves (rc_Hooks C r)" for r using env by (simp add: startup_env_def within_lawful)
  have "sys_moves db1 (replay_hooks C i db1)"
    unfolding replay_hooks_def by (rule withinD [OF sm.bind [OF silent_sys [OF silent_get(2)] h] TrueI])
  then show ?thesis using 1 sm.trans [OF 1] by (cases x) (simp_all add: mark_with_def m)
qed

lemma orphan_step_sys:
  assumes env: "startup_env C"
  shows "sys_moves db (snd (orphan_step S C r db))"
proof -
  obtain x db1 where x: "rc_Paused C r db = (x, db1)" by (cases "rc_Paused C r db")
  have "within always sys_moves (rc_Paused C r)" using env by (simp add: startup_env_def within_lawful)
  then have 1: "sys_moves db db1" using withinD [where P = always and R = sys_moves and f = "rc_Paused C r" and db = db] by (simp add: x)
  have m: "sys_moves d (snd (mark_with C (markOrphanTerminal S) i es d))" for d i es by (rule mark_with_sys [OF env mark_sys(1)])
  show ?thesis using m 1 sm.trans [OF 1 m] by (cases x) (simp_all add: orphan_step_def x sm.refl)
qed

lemma legacy_step_sys:
  assumes env: "startup_env C"
  shows "sys_moves db (snd (legacy_step S C r db))"
proof -
  obtain x db1 where x: "rc_Snapshot C (rn_ID r) db = (x, db1)" by (cases "rc_Snapshot C (rn_ID r) db")
  have "within always sys_moves (rc_Snapshot C (rn_ID r))" using env by (simp add: startup_env_def within_lawful)
  then have 1: "sys_moves db db1" using withinD [where P = always and R = sys_moves and f = "rc_Snapshot C (rn_ID r)" and db = db] by (simp add: x)
  have m: "sys_moves d (snd (mark_with C (markLegacyContextMissingTerminal S) i es d))" for d i es
    by (rule mark_with_sys [OF env mark_sys(2)])
  show ?thesis using m 1 sm.trans [OF 1 m] by (cases x) (simp_all add: legacy_step_def x sm.refl)
qed

lemma marking_sweeps_sys:
  assumes env: "startup_env C"
  shows "sys_moves db (snd (ReconcileOrphanRuns S C db))" "sys_moves db (snd (ReconcileLegacyContextRuns S C db))"
proof -
  have o: "\<forall>x. within always sys_moves (orphan_step S C x)" by (simp add: within_def orphan_step_sys [OF env])
  have l: "\<forall>x. within always sys_moves (legacy_step S C x)" by (simp add: within_def legacy_step_sys [OF env])
  note listed = silent_sys [OF silent_leaseless]
  show "sys_moves db (snd (ReconcileOrphanRuns S C db))"
    unfolding ReconcileOrphanRuns_def by (rule withinD [OF sm.sweep_within [OF listed o] TrueI])
  show "sys_moves db (snd (ReconcileLegacyContextRuns S C db))"
    unfolding ReconcileLegacyContextRuns_def by (rule withinD [OF sm.sweep_within [OF listed l] TrueI])
qed

lemma stale_sweep_still:
  assumes "ids_ok db"
  shows "still db (snd (ReconcileStaleQuestions S db))"
proof -
  have f: "\<forall>i. within always expires_only (stale_step S i)" by (intro allI stale_step_within)
  have l: "within always expires_only (bindM QuestionRepo_ListStalePending (\<lambda>stale. returnM (first_runs [] stale)) :: 'a RunDb_scheme \<Rightarrow> _)"
    unfolding QuestionRepo_ListStalePending_def by (intro eo.bind eo.query eo.return)
  have "expires_only db (snd (ReconcileStaleQuestions S db))"
    unfolding ReconcileStaleQuestions_def by (rule withinD [OF eo.sweep_within [OF l f] TrueI])
  then show ?thesis using assms by (simp add: expires_only_def)
qed

text \<open>Everything but these two sweeps follows the protocol of theory TaskLocks.\<close>

lemma other_ops_lawful:
  assumes env: "env_ok S E fw" and op: "sys_ok p" "p \<noteq> SysLegacyRuns" "p \<noteq> SysOrphanRuns"
  shows "lawful_moves db (do_sys S C E sp fw p db)"
proof (cases p)
  case (SysTask q)
  then show ?thesis using op_steps [OF env] op by (simp add: lawful_moves_def)
next
  case SysLocalRuns
  have ren: "\<And>r. silent (rs_RenewDelegated S r)" using env by (simp add: env_ok_def)
  show ?thesis
    using withinD [OF lm.sweep_within [OF local_sweep_steps(2) [OF ren] local_sweep_steps(1) [OF ren, of C]] TrueI, of db]
    by (simp add: SysLocalRuns ReconcileOrphanedLocalRuns_def)
next
  case SysStaleQuestions
  then show ?thesis using stale_sweep_still still_steps unfolding lawful_moves_def by fastforce
qed (use op in simp_all)

lemma system_moves:
  assumes env: "env_ok S E fw" "startup_env C" and ops: "list_all sys_ok ops"
  shows "sys_moves db (system_history S C E sp fw ops db)"
  unfolding system_history_def
proof (rule sm.history, intro ballI allI)
  fix p and d :: "'a RunDb_scheme"
  assume "p \<in> set ops"
  then have ok: "sys_ok p" using ops by (simp add: list_all_iff)
  show "sys_moves d (do_sys S C E sp fw p d)"
    using marking_sweeps_sys [OF env(2)] lawful_sys [OF other_ops_lawful [OF env(1) ok]]
    by (cases "p = SysLegacyRuns \<or> p = SysOrphanRuns") auto
qed

lemma unmarked_moves:
  assumes env: "env_ok S E fw" and ops: "list_all sys_ok ops" "SysLegacyRuns \<notin> set ops" "SysOrphanRuns \<notin> set ops"
  shows "lawful_moves db (system_history S C E sp fw ops db)"
  unfolding system_history_def
  by (rule lm.history, intro ballI allI other_ops_lawful env) (use ops in \<open>auto simp: list_all_iff\<close>)

section \<open>Locks over histories\<close>

text \<open>What the sweep of stale locks takes, and what it leaves.\<close>

lemma stale_count: "stale_lock (db\<lparr>cn_step := n\<rparr>) t = stale_lock (db :: 'a SchedDb_scheme) t"
  by (intro ext) (simp add: stale_lock_def)

lemma stale_sweep_cases:
  assumes "WorkItemRepo_ReleaseStaleLocks t db = (r, db')"
  obtains "r = Inl dbError" "db_items db' = db_items db" "db_runs db' = db_runs db"
  | "r = Inr (length (filter (stale_lock db t) (db_items db)))" "db_runs db' = db_runs db"
    "db_items db' = map (\<lambda>w. if stale_lock db t w then w\<lparr>wi_LockedByRunID := '''', wi_LockedAt := None\<rparr> else w) (db_items db)"
proof -
  from assms show ?thesis
    unfolding WorkItemRepo_ReleaseStaleLocks_def
  proof (cases rule: exec_stmt_cases)
    case (2 n)
    then show ?thesis using that(2) by (auto simp: stale_count)
  qed (use that(1) in simp)
qed

lemma stale_sweep_locks:
  fixes db :: "'a RunDb_scheme"
  assumes sweep: "WorkItemRepo_ReleaseStaleLocks t db = (r, db')" and ok: "ids_ok db" and owned: "lock_owned (task_view_of db)"
  shows "\<forall>w i. locks_map db w = Some (True, i) \<and> i \<noteq> '''' \<and> \<not> ended (runs_map db) i \<longrightarrow> locks_map db' w = Some (True, i)"
    and "\<forall>n it. r = Inr n \<and> it \<in> set (db_items db') \<and> ended (runs_map db') (wi_LockedByRunID it) \<longrightarrow>
       (case wi_LockedAt it of None \<Rightarrow> True | Some at \<Rightarrow> timeParam t \<le> timeParam at)"
proof -
  have runs: "runs_map db' = runs_map db" using sweep by (cases rule: stale_sweep_cases) (simp_all add: runs_map_def)
  have kept: "locks_map db' w = Some (True, i)" if l: "locks_map db w = Some (True, i)" "i \<noteq> ''''" "\<not> ended (runs_map db) i" for w i
    using sweep
  proof (cases rule: stale_sweep_cases)
    case 1
    then show ?thesis using l(1) by (simp add: locks_map_def)
  next
    case 2
    then have "steps db db'" using lawfulD [OF sweep_lawful [of "{}"] ok _ sweep [unfolded 2(1)]] by simp
    then have "system_step\<^sup>*\<^sup>* (task_view_of db) (task_view_of db')" by (simp add: steps_def lawful_steps)
    from lock_kept_steps [OF this owned, of w i] show ?thesis using l runs by (simp add: task_view_of_def)
  qed
  then show "\<forall>w i. locks_map db w = Some (True, i) \<and> i \<noteq> '''' \<and> \<not> ended (runs_map db) i \<longrightarrow> locks_map db' w = Some (True, i)"
    by simp
  show "\<forall>n it. r = Inr n \<and> it \<in> set (db_items db') \<and> ended (runs_map db') (wi_LockedByRunID it) \<longrightarrow>
       (case wi_LockedAt it of None \<Rightarrow> True | Some at \<Rightarrow> timeParam t \<le> timeParam at)"
  proof (intro allI impI, elim conjE)
    fix n it
    assume n: "r = Inr n" and it: "it \<in> set (db_items db')" and fin: "ended (runs_map db') (wi_LockedByRunID it)"
    from sweep n have items: "db_items db' = map (\<lambda>w. if stale_lock db t w then w\<lparr>wi_LockedByRunID := '''', wi_LockedAt := None\<rparr> else w) (db_items db)"
      by (cases rule: stale_sweep_cases) simp_all
    obtain row where row: "row \<in> set (db_runs db)" "rn_ID row = wi_LockedByRunID it" "RunStatus_IsTerminal (rn_Status row)"
      using fin unfolding runs by (auto simp: ended_def runs_map_def dest!: map_of_SomeD split: option.splits)
    then have "wi_LockedByRunID it \<noteq> ''''" using ok unfolding ids_ok_def by (metis imageI)
    then have "\<not> stale_lock db t it" using it items by (auto split: if_splits)
    then show "case wi_LockedAt it of None \<Rightarrow> True | Some at \<Rightarrow> timeParam t \<le> timeParam at"
      using row \<open>wi_LockedByRunID it \<noteq> ''''\<close> by (auto simp: stale_lock_def list_ex_iff split: option.splits)
  qed
qed

lemma stale_sweep_idle:
  fixes db :: "'a RunDb_scheme"
  assumes sweep: "WorkItemRepo_ReleaseStaleLocks t db = (r, db')" and ok: "ids_ok db" and inv: "lock_inv (task_view_of db)"
  shows "r \<in> {Inl dbError, Inr 0} \<and> db_items db' = db_items db"
proof -
  have none: "\<not> stale_lock db t w" if "w \<in> set (db_items db)" for w
  proof
    assume st: "stale_lock db t w"
    then have "wi_LockedByRunID w \<noteq> ''''" by (auto simp: stale_lock_def list_ex_iff)
    then have "\<not> ended (runs_map db) (wi_LockedByRunID w)"
      using locks_map_in [OF ok that] lock_invD [of "runs_map db" "locks_map db"] inv
      by (fastforce simp: task_view_of_def ended_def)
    then show False using stale_ended [OF st ok] by simp
  qed
  from sweep show ?thesis
    by (cases rule: stale_sweep_cases) (use none in \<open>simp_all add: filter_empty_conv map_idI\<close>)
qed

text \<open>
  C3. Every lock has an owner: if every lock is on a task and held by a run of that task, it is so
  after any history of the run service and the sweeps of the start. The sweep of stale locks never
  takes a lock from a run that has not ended; when it succeeds, every lock that a run that has ended
  still holds is younger than the limit of the sweep. Only the two sweeps of the start that mark runs
  as ended leave such locks: after a history without them, from locks held by runs that have not
  ended, no lock is held by a run that has, and the sweep finds nothing.
\<close>

theorem locks_held_by_live_runs:
  assumes env: "env_ok S E fw" "startup_env C" and ok: "ids_ok db" and ops: "list_all sys_ok ops"
    and owned: "lock_owned (task_view_of db)" and db1: "db1 = system_history S C E sp fw ops db"
    and sweep: "WorkItemRepo_ReleaseStaleLocks t db1 = (r, db2)"
  shows "(\<forall>w task h. locks_map db1 w = Some (task, h) \<and> h \<noteq> '''' \<longrightarrow> task \<and> (\<exists>s. runs_map db1 h = Some (w, s))) \<and>
    (\<forall>w i. locks_map db1 w = Some (True, i) \<and> i \<noteq> '''' \<and> \<not> ended (runs_map db1) i \<longrightarrow> locks_map db2 w = Some (True, i)) \<and>
    (\<forall>n it. r = Inr n \<and> it \<in> set (db_items db2) \<and> ended (runs_map db2) (wi_LockedByRunID it) \<longrightarrow>
       (case wi_LockedAt it of None \<Rightarrow> True | Some at \<Rightarrow> timeParam t \<le> timeParam at)) \<and>
    (SysLegacyRuns \<notin> set ops \<and> SysOrphanRuns \<notin> set ops \<and> lock_inv (task_view_of db) \<longrightarrow>
       lock_inv (task_view_of db1) \<and> r \<in> {Inl dbError, Inr 0} \<and> db_items db2 = db_items db1)"
proof -
  have m: "ids_ok db1" "system_step\<^sup>*\<^sup>* (task_view_of db) (task_view_of db1)"
    using system_moves [OF env ops, of db sp] ok by (simp_all add: sys_moves_def db1)
  have o: "lock_owned (task_view_of db1)" by (rule lock_owned_steps [OF m(2) owned])
  have live: "lock_inv (task_view_of db1)"
    if "SysLegacyRuns \<notin> set ops" "SysOrphanRuns \<notin> set ops" "lock_inv (task_view_of db)"
    using unmarked_moves [OF env(1) ops that(1,2), of db C sp] ok lock_inv_steps [OF _ that(3)]
    by (simp add: lawful_moves_def steps_def db1)
  have "\<forall>w task h. locks_map db1 w = Some (task, h) \<and> h \<noteq> '''' \<longrightarrow> task \<and> (\<exists>s. runs_map db1 h = Some (w, s))"
    using o unfolding lock_owned_def task_view_of_def fst_conv snd_conv by blast
  then show ?thesis using stale_sweep_locks [OF sweep m(1) o] stale_sweep_idle [OF sweep m(1)] live by blast
qed

text \<open>
  C1. The lock of a task excludes other starts: a run of a task that is reported running while it is queued or
  starting, and is running then, holds the task's lock until it has ended, whatever the run service
  and the sweeps of the start do meanwhile; another run of the task that is reported running while
  it is queued or starting, before the first has ended, is failed with the code work_item_locked,
  retryable, and the lock stays where it is. A run that comes to running another way, through
  reconnecting, is not asked for the lock (reconnecting_bypasses_lock in theory RunHistories).
\<close>

theorem started_run_excludes_others:
  assumes env: "env_ok S E fw" "startup_env C" and ok: "ids_ok db" and owned: "lock_owned (task_view_of db)"
    and i: "runs_map db i = Some (w, s)" "run_started s RunRunning" "locks_map db w = Some (True, h)"
    and start: "RecordRunStatus S i RunRunning data db = (Inr u, db1)" and run: "runs_map db1 i = Some (w, RunRunning)"
    and ops: "list_all sys_ok ops" and db2: "db2 = system_history S C E sp fw ops db1" and live: "\<not> ended (runs_map db2) i"
    and j: "runs_map db2 j = Some (w, s')" "run_started s' RunRunning" "j \<noteq> i"
    and second: "RecordRunStatus S j RunRunning data' db2 = (Inr u', db3)"
  shows "locks_map db2 w = Some (True, i) \<and> locks_map db3 w = Some (True, i) \<and> runs_map db3 j = Some (w, RunFailed) \<and>
    (\<exists>row \<in> set (db_runs db3). rn_ID row = j \<and> rn_Failure row = Some (lock_failure i))"
proof -
  have ren: "silent (rs_RenewDelegated S r)" for r using env by (simp add: env_ok_def)
  note first = start_outcome [OF start ok ren i]
  have ok1: "ids_ok db1" using first by simp
  have l1: "locks_map db1 w = Some (True, i)" using first run by (auto split: if_splits)
  have "i \<in> rn_ID ` set (db_runs db1)" using run by (force simp: runs_map_def dest!: map_of_SomeD)
  then have ne: "i \<noteq> ''''" using ok1 unfolding ids_ok_def by blast
  have "steps db db1" by (rule protocolD [OF status_protocol(1) [OF ren] ok start])
  then have o1: "lock_owned (task_view_of db1)" using lock_owned_steps [OF lawful_steps owned] by (simp add: steps_def)
  have s2: "ids_ok db2" "system_step\<^sup>*\<^sup>* (task_view_of db1) (task_view_of db2)"
    using system_moves [OF env ops, of db1 sp] ok1 by (simp_all add: sys_moves_def db2)
  have l2: "locks_map db2 w = Some (True, i)"
    using lock_kept_steps [OF s2(2) o1, of w i] l1 ne live by (simp add: task_view_of_def)
  have "\<not> free_lock (runs_map db2) i"
    using lock_ownedD [of "runs_map db2" "locks_map db2" w True i] lock_owned_steps [OF s2(2) o1] l2 ne live
    by (auto simp: task_view_of_def free_lock_def)
  then show ?thesis using start_outcome [OF second s2(1) ren j(1,2) l2] j(3) l2 by auto
qed

section \<open>Witnesses\<close>

lemma sample_startup_env: "startup_env sample_reconcile"
  by (simp add: startup_env_def sample_reconcile_def lm.return lm.fail)

theorem locks_held_by_live_runs_witness:
  "let db = system_history sample_service sample_reconcile sample_approvals (\<lambda>_. '''') None [SysOrphanRuns, SysStaleQuestions] sample_orphan
   in ended (runs_map db) ''run_1'' \<and> locks_map db ''wi_1'' = Some (True, ''run_1'') \<and>
     (\<forall>w task h. locks_map db w = Some (task, h) \<and> h \<noteq> '''' \<longrightarrow> task \<and> (\<exists>s. runs_map db h = Some (w, s)))"
proof -
  let ?db = "system_history sample_service sample_reconcile sample_approvals (\<lambda>_. '''') None [SysOrphanRuns, SysStaleQuestions] sample_orphan"
  have e: "ended (runs_map ?db) ''run_1'' \<and> locks_map ?db ''wi_1'' = Some (True, ''run_1'')" by code_simp
  have o: "lock_owned (task_view_of sample_orphan)"
    by (simp add: lock_owned_def task_view_of_def locks_map_def runs_map_def sample_orphan_def sample_tasks_def sample_item_def
        sample_run_def isTaskWorkItem_def workItemRecordKind_def)
  obtain r db2 where sweep: "WorkItemRepo_ReleaseStaleLocks 9 ?db = (r, db2)" by (metis surj_pair)
  have ops: "list_all sys_ok [SysOrphanRuns, SysStaleQuestions]" by simp
  from locks_held_by_live_runs [OF sample_env sample_startup_env sample_orphan_ids ops o refl sweep] e
  show ?thesis unfolding Let_def by blast
qed

definition sample_started :: RunDb where
  "sample_started = snd (RecordRunStatus sample_service ''run_1'' RunRunning [] sample_tasks)"

definition sample_later :: RunDb where
  "sample_later = system_history sample_service sample_reconcile sample_approvals (\<lambda>_. '''') None
     [SysTask (OpProgress ''run_1'' (VInt 5)), SysStaleQuestions, SysTask (OpSweep 99), SysTask (OpStatus ''run_1'' RunReconnecting [])] sample_started"

theorem started_run_excludes_others_witness:
  "let db3 = snd (RecordRunStatus sample_service ''run_2'' RunRunning [] sample_later)
   in runs_map sample_later ''run_1'' = Some (''wi_1'', RunReconnecting) \<and> locks_map db3 ''wi_1'' = Some (True, ''run_1'') \<and>
     runs_map db3 ''run_2'' = Some (''wi_1'', RunFailed)"
proof -
  have st: "RecordRunStatus sample_service ''run_1'' RunRunning [] sample_tasks = (Inr (), sample_started)"
    by (rule prod_eqI) (simp_all add: sample_started_def, code_simp)
  have sd: "RecordRunStatus sample_service ''run_2'' RunRunning [] sample_later =
    (Inr (), snd (RecordRunStatus sample_service ''run_2'' RunRunning [] sample_later))"
    by (rule prod_eqI) (simp_all, code_simp)
  have later: "(let db = sample_later in (runs_map db ''run_1'', runs_map db ''run_2'')) =
      (Some (''wi_1'', RunReconnecting), Some (''wi_1'', RunStarting))" by code_simp
  have facts: "runs_map sample_tasks ''run_1'' = Some (''wi_1'', RunStarting)" "run_started RunStarting RunRunning"
      "locks_map sample_tasks ''wi_1'' = Some (True, '''')" "runs_map sample_started ''run_1'' = Some (''wi_1'', RunRunning)"
    by code_simp+
  have live: "\<not> ended (runs_map sample_later) ''run_1''" "runs_map sample_later ''run_2'' = Some (''wi_1'', RunStarting)"
      "runs_map sample_later ''run_1'' = Some (''wi_1'', RunReconnecting)"
    using later by (simp_all add: ended_def Let_def)
  have ops: "list_all sys_ok [SysTask (OpProgress ''run_1'' (VInt 5)), SysStaleQuestions, SysTask (OpSweep 99),
      SysTask (OpStatus ''run_1'' RunReconnecting [])]" by simp
  show ?thesis using started_run_excludes_others [OF sample_env sample_startup_env sample_ids lock_inv_owned [OF sample_lock_inv] facts(1-3)
      st facts(4) ops sample_later_def live(1,2) facts(2) _ sd] live(3) by (simp add: Let_def)
qed

end
