(* ===== verification/Idempotency.thy ===== *)
theory Idempotency
  imports SqlStore SqlTime
begin

text \<open>
  Idempotency keys: the claim-first protocol of \<^verbatim>\<open>IdempotencyRepo\<close> in
  \<^verbatim>\<open>internal/persistence/sqlstore/events.go\<close> with the constraints of migration 0037. A row
  without a status is a claim in progress, owned by whoever has its token. The random tokens
  that \<^verbatim>\<open>NewID\<close> draws are arguments.
\<close>

record IdempotencyRow =
  ik_WorkspaceID :: string
  ik_Key :: string
  ik_RequestHash :: string
  ik_ResultRef :: "string option"
  ik_StatusCode :: "int option"
  ik_ClaimToken :: "string option"
  ik_ClaimExpiresAt :: "time option"
  ik_CreatedAt :: time

record IdempotencyRecord =
  ir_RequestHash :: string
  ir_StatusCode :: int
  ir_ResultBody :: string

record IdemDb = Conn +
  db_idem :: "IdempotencyRow list"

definition idempotencyClaimLease :: int where
  "idempotencyClaimLease = 900000000000"

definition ErrIdempotencyClaimLost :: go_error where
  "ErrIdempotencyClaimLost = ErrOther ''idempotency claim lost''"

definition row_at :: "string \<Rightarrow> string \<Rightarrow> IdempotencyRow \<Rightarrow> bool" where
  "row_at ws key r \<longleftrightarrow> ik_WorkspaceID r = ws \<and> ik_Key r = key"

definition record_of :: "IdempotencyRow \<Rightarrow> IdempotencyRecord" where
  "record_of r = \<lparr>ir_RequestHash = ik_RequestHash r,
     ir_StatusCode = (case ik_StatusCode r of None \<Rightarrow> 0 | Some s \<Rightarrow> s),
     ir_ResultBody = (case ik_ResultRef r of None \<Rightarrow> '''' | Some b \<Rightarrow> b)\<rparr>"

definition IdempotencyRepo_fetch ::
  "string \<Rightarrow> string \<Rightarrow> 'a IdemDb_scheme \<Rightarrow> (go_error + IdempotencyRecord option) \<times> 'a IdemDb_scheme" where
  "IdempotencyRepo_fetch ws key = query_stmt (\<lambda>t db. Inr (map_option record_of (List.find (row_at ws key) (db_idem db))))"

definition IdempotencyRepo_Check ::
  "string \<Rightarrow> string \<Rightarrow> 'a IdemDb_scheme \<Rightarrow> (go_error + IdempotencyRecord option) \<times> 'a IdemDb_scheme" where
  "IdempotencyRepo_Check = IdempotencyRepo_fetch"

definition IdempotencyRepo_Record ::
  "string \<Rightarrow> string \<Rightarrow> IdempotencyRecord \<Rightarrow> 'a IdemDb_scheme \<Rightarrow> (go_error + unit) \<times> 'a IdemDb_scheme" where
  "IdempotencyRepo_Record ws key rec =
     (if ir_StatusCode rec < 100 \<or> ir_StatusCode rec > 599 then failM (ErrValidation '''')
      else exec_stmt (\<lambda>t db. (Inr (),
        if list_ex (row_at ws key) (db_idem db) then db
        else db\<lparr>db_idem := db_idem db @ [\<lparr>ik_WorkspaceID = ws, ik_Key = key, ik_RequestHash = ir_RequestHash rec,
          ik_ResultRef = Some (ir_ResultBody rec), ik_StatusCode = Some (ir_StatusCode rec), ik_ClaimToken = None,
          ik_ClaimExpiresAt = None, ik_CreatedAt = t\<rparr>]\<rparr>)))"

text \<open>The insert of a claim: nothing happens when the key has a row; an active token is unique.\<close>

definition insert_claim :: "string \<Rightarrow> string \<Rightarrow> string \<Rightarrow> string \<Rightarrow> time \<Rightarrow> 'a IdemDb_scheme \<Rightarrow> (go_error + bool) \<times> 'a IdemDb_scheme" where
  "insert_claim ws key hash token now = exec_stmt (\<lambda>t db.
     if token = '''' then (Inl (ErrOther ''in-progress idempotency claim requires token and expiry''), db)
     else if list_ex (row_at ws key) (db_idem db) then (Inr False, db)
     else if list_ex (\<lambda>r. ik_ClaimToken r = Some token) (db_idem db) then (Inl ErrIdempotencyConflict, db)
     else (Inr True, db\<lparr>db_idem := db_idem db @ [\<lparr>ik_WorkspaceID = ws, ik_Key = key, ik_RequestHash = hash,
        ik_ResultRef = None, ik_StatusCode = None, ik_ClaimToken = Some token,
        ik_ClaimExpiresAt = Some (now + idempotencyClaimLease), ik_CreatedAt = now\<rparr>]\<rparr>))"

definition stale_claim :: "string \<Rightarrow> string \<Rightarrow> string \<Rightarrow> time \<Rightarrow> IdempotencyRow \<Rightarrow> bool" where
  "stale_claim ws key hash now r \<longleftrightarrow> row_at ws key r \<and> ik_RequestHash r = hash \<and> ik_StatusCode r = None \<and>
     (case ik_ClaimExpiresAt r of None \<Rightarrow> False | Some e \<Rightarrow> timeParam e < timeParam now)"

definition delete_where :: "(IdempotencyRow \<Rightarrow> bool) \<Rightarrow> 'a IdemDb_scheme \<Rightarrow> (go_error + nat) \<times> 'a IdemDb_scheme" where
  "delete_where P = exec_stmt (\<lambda>t db. (Inr (length (filter P (db_idem db))),
     db\<lparr>db_idem := filter (\<lambda>r. \<not> P r) (db_idem db)\<rparr>))"

text \<open>The two attempts of \<^verbatim>\<open>Claim\<close>, each with the token it drew.\<close>

fun claim_attempts ::
  "string list \<Rightarrow> string \<Rightarrow> string \<Rightarrow> string \<Rightarrow> 'a IdemDb_scheme \<Rightarrow>
   (go_error + bool \<times> IdempotencyRecord option \<times> string) \<times> 'a IdemDb_scheme" where
  "claim_attempts [] ws key hash db = (Inl ErrIdempotencyConflict, db)"
| "claim_attempts (token # tokens) ws key hash db =
     (let now = nowM db
      in bindM (insert_claim ws key hash token now) (\<lambda>inserted db.
           if inserted then (Inr (True, None, token), db)
           else bindM (IdempotencyRepo_fetch ws key) (\<lambda>r db.
             (case r of
                None \<Rightarrow> claim_attempts tokens ws key hash db
              | Some rec \<Rightarrow>
                  if ir_StatusCode rec = 0 \<and> ir_RequestHash rec = hash
                  then bindM (delete_where (stale_claim ws key hash now)) (\<lambda>n db.
                         if n > 0 then claim_attempts tokens ws key hash db
                         else (Inr (False, Some rec, ''''), db)) db
                  else (Inr (False, Some rec, ''''), db))) db) db)"

definition IdempotencyRepo_Claim ::
  "string \<Rightarrow> string \<Rightarrow> string \<Rightarrow> string \<Rightarrow> string \<Rightarrow> 'a IdemDb_scheme \<Rightarrow>
   (go_error + bool \<times> IdempotencyRecord option \<times> string) \<times> 'a IdemDb_scheme" where
  "IdempotencyRepo_Claim token1 token2 = claim_attempts [token1, token2]"

definition owned_row :: "string \<Rightarrow> string \<Rightarrow> string \<Rightarrow> string \<Rightarrow> IdempotencyRow \<Rightarrow> bool" where
  "owned_row ws key hash token r \<longleftrightarrow>
     row_at ws key r \<and> ik_RequestHash r = hash \<and> ik_ClaimToken r = Some token \<and> ik_StatusCode r = None"

definition update_owned ::
  "string \<Rightarrow> string \<Rightarrow> string \<Rightarrow> string \<Rightarrow> (IdempotencyRow \<Rightarrow> IdempotencyRow) \<Rightarrow>
   'a IdemDb_scheme \<Rightarrow> (go_error + unit) \<times> 'a IdemDb_scheme" where
  "update_owned ws key hash token f = exec_stmt (\<lambda>t db.
     (if length (filter (owned_row ws key hash token) (db_idem db)) \<noteq> 1 then Inl ErrIdempotencyClaimLost else Inr (),
      db\<lparr>db_idem := map (\<lambda>r. if owned_row ws key hash token r then f r else r) (db_idem db)\<rparr>))"

definition IdempotencyRepo_Complete ::
  "string \<Rightarrow> string \<Rightarrow> string \<Rightarrow> string \<Rightarrow> int \<Rightarrow> string \<Rightarrow> 'a IdemDb_scheme \<Rightarrow> (go_error + unit) \<times> 'a IdemDb_scheme" where
  "IdempotencyRepo_Complete ws key hash token statusCode resultBody =
     (if token = '''' \<or> hash = '''' then failM ErrIdempotencyClaimLost
      else if statusCode < 100 \<or> statusCode > 599 then failM (ErrValidation '''')
      else update_owned ws key hash token (\<lambda>r. r\<lparr>ik_ResultRef := Some resultBody, ik_StatusCode := Some statusCode,
             ik_ClaimToken := None, ik_ClaimExpiresAt := None\<rparr>))"

definition IdempotencyRepo_Renew ::
  "string \<Rightarrow> string \<Rightarrow> string \<Rightarrow> string \<Rightarrow> 'a IdemDb_scheme \<Rightarrow> (go_error + unit) \<times> 'a IdemDb_scheme" where
  "IdempotencyRepo_Renew ws key hash token db =
     (if token = '''' \<or> hash = '''' then failM ErrIdempotencyClaimLost db
      else let now = nowM db
           in update_owned ws key hash token (\<lambda>r. r\<lparr>ik_ClaimExpiresAt := Some (now + idempotencyClaimLease)\<rparr>) db)"

definition IdempotencyRepo_Release ::
  "string \<Rightarrow> string \<Rightarrow> string \<Rightarrow> string \<Rightarrow> 'a IdemDb_scheme \<Rightarrow> (go_error + unit) \<times> 'a IdemDb_scheme" where
  "IdempotencyRepo_Release ws key hash token =
     (if token = '''' \<or> hash = '''' then failM ErrIdempotencyClaimLost
      else bindM (delete_where (owned_row ws key hash token))
             (\<lambda>n. if n \<noteq> 1 then failM ErrIdempotencyClaimLost else returnM ()))"

section \<open>Histories\<close>

datatype idem_op = IdClaim string string string string string
  | IdComplete string string string string int string | IdRenew string string string string
  | IdRelease string string string string | IdRecord string string IdempotencyRecord

fun idem_apply :: "IdemDb \<Rightarrow> idem_op \<Rightarrow> IdemDb" where
  "idem_apply db (IdClaim t1 t2 ws key h) = snd (IdempotencyRepo_Claim t1 t2 ws key h db)"
| "idem_apply db (IdComplete ws key h t s b) = snd (IdempotencyRepo_Complete ws key h t s b db)"
| "idem_apply db (IdRenew ws key h t) = snd (IdempotencyRepo_Renew ws key h t db)"
| "idem_apply db (IdRelease ws key h t) = snd (IdempotencyRepo_Release ws key h t db)"
| "idem_apply db (IdRecord ws key r) = snd (IdempotencyRepo_Record ws key r db)"

fun draws :: "idem_op \<Rightarrow> string set" where
  "draws (IdClaim t1 t2 _ _ _) = {t1, t2}"
| "draws _ = {}"

text \<open>One row per key; a row is completed, without a token, or claimed, with a token.\<close>

definition idem_ok :: "IdempotencyRow list \<Rightarrow> bool" where
  "idem_ok rows \<longleftrightarrow> distinct (map (\<lambda>r. (ik_WorkspaceID r, ik_Key r)) rows) \<and>
     (\<forall>r\<in>set rows. ik_StatusCode r = None \<longleftrightarrow> ik_ClaimToken r \<noteq> None)"

text \<open>
  What one statement may do to the table: completed rows stay, and tokens are only taken away,
  except for the token of an insert.
\<close>

definition idem_le :: "string set \<Rightarrow> IdempotencyRow list \<Rightarrow> IdempotencyRow list \<Rightarrow> bool" where
  "idem_le new old rows \<longleftrightarrow>
     {r \<in> set old. ik_StatusCode r \<noteq> None} \<subseteq> set rows \<and>
     (\<forall>q\<in>set rows. \<forall>t. ik_ClaimToken q = Some t \<longrightarrow> t \<in> new \<or>
        (\<exists>r\<in>set old. ik_ClaimToken r = Some t \<and> ik_WorkspaceID r = ik_WorkspaceID q \<and> ik_Key r = ik_Key q \<and>
           ik_RequestHash r = ik_RequestHash q))"

lemma idem_le_refl [simp]: "idem_le new rows rows"
  unfolding idem_le_def by blast

lemma idem_le_completed: "idem_le new a b \<Longrightarrow> r \<in> set a \<Longrightarrow> ik_StatusCode r \<noteq> None \<Longrightarrow> r \<in> set b"
  unfolding idem_le_def by blast

lemma idem_le_token:
  assumes "idem_le new a b" and "q \<in> set b" and "ik_ClaimToken q = Some t" and "t \<notin> new"
  obtains r where "r \<in> set a" "ik_ClaimToken r = Some t" "ik_WorkspaceID r = ik_WorkspaceID q" "ik_Key r = ik_Key q"
    "ik_RequestHash r = ik_RequestHash q"
  using assms unfolding idem_le_def by blast

lemma idem_le_trans:
  assumes ab: "idem_le new a b" and bc: "idem_le new b c"
  shows "idem_le new a c"
  unfolding idem_le_def
proof (intro conjI ballI allI impI)
  show "{r \<in> set a. ik_StatusCode r \<noteq> None} \<subseteq> set c"
  proof
    fix r assume "r \<in> {r \<in> set a. ik_StatusCode r \<noteq> None}"
    then show "r \<in> set c" using idem_le_completed [OF bc idem_le_completed [OF ab]] by blast
  qed
  fix q t assume q: "q \<in> set c" "ik_ClaimToken q = Some t"
  show "t \<in> new \<or> (\<exists>r\<in>set a. ik_ClaimToken r = Some t \<and> ik_WorkspaceID r = ik_WorkspaceID q \<and> ik_Key r = ik_Key q \<and>
      ik_RequestHash r = ik_RequestHash q)"
  proof (cases "t \<in> new")
    case False
    obtain r where r: "r \<in> set b" "ik_ClaimToken r = Some t" "ik_WorkspaceID r = ik_WorkspaceID q" "ik_Key r = ik_Key q"
        "ik_RequestHash r = ik_RequestHash q"
      using idem_le_token [OF bc q False] by blast
    obtain p where "p \<in> set a" "ik_ClaimToken p = Some t" "ik_WorkspaceID p = ik_WorkspaceID r" "ik_Key p = ik_Key r"
        "ik_RequestHash p = ik_RequestHash r"
      using idem_le_token [OF ab r(1,2) False] by blast
    then show ?thesis using r by auto
  qed simp
qed

lemma idem_le_mono: "idem_le new a b \<Longrightarrow> new \<subseteq> new' \<Longrightarrow> idem_le new' a b"
  unfolding idem_le_def by (meson subsetD)

text \<open>The effect of each statement, and of each operation, on the table.\<close>

definition idem_step :: "string set \<Rightarrow> 'a IdemDb_scheme \<Rightarrow> 'a IdemDb_scheme \<Rightarrow> bool" where
  "idem_step new db db' \<longleftrightarrow> idem_le new (db_idem db) (db_idem db') \<and> (idem_ok (db_idem db) \<longrightarrow> idem_ok (db_idem db'))"

lemma idem_step_refl: "db_idem db' = db_idem db \<Longrightarrow> idem_step new db db'"
  by (simp add: idem_step_def)

lemma idem_step_trans: "idem_step new a b \<Longrightarrow> idem_step new b c \<Longrightarrow> idem_step new a c"
  unfolding idem_step_def using idem_le_trans by blast

lemma idem_ok_filter: "idem_ok rows \<Longrightarrow> idem_ok (filter P rows)"
  unfolding idem_ok_def by (auto intro: distinct_map_filter)

lemma idem_ok_snoc:
  assumes "idem_ok rows" and "\<not> list_ex (row_at ws key) rows" and "ik_WorkspaceID r = ws" and "ik_Key r = key"
    and "ik_StatusCode r = None \<longleftrightarrow> ik_ClaimToken r \<noteq> None"
  shows "idem_ok (rows @ [r])"
  using assms unfolding idem_ok_def by (auto simp: list_ex_iff row_at_def)

lemma idem_ok_map:
  assumes "idem_ok rows" and "\<And>r. ik_WorkspaceID (g r) = ik_WorkspaceID r" and "\<And>r. ik_Key (g r) = ik_Key r"
    and "\<And>r. (ik_StatusCode r = None \<longleftrightarrow> ik_ClaimToken r \<noteq> None) \<Longrightarrow> (ik_StatusCode (g r) = None \<longleftrightarrow> ik_ClaimToken (g r) \<noteq> None)"
  shows "idem_ok (map g rows)"
proof -
  have k: "map (\<lambda>r. (ik_WorkspaceID r, ik_Key r)) (map g rows) = map (\<lambda>r. (ik_WorkspaceID r, ik_Key r)) rows"
    using assms(2,3) by simp
  have "\<forall>q\<in>set (map g rows). ik_StatusCode q = None \<longleftrightarrow> ik_ClaimToken q \<noteq> None"
  proof
    fix q assume "q \<in> set (map g rows)"
    then obtain r where "r \<in> set rows" "q = g r" by auto
    moreover from this have "ik_StatusCode r = None \<longleftrightarrow> ik_ClaimToken r \<noteq> None" using assms(1) unfolding idem_ok_def by blast
    ultimately show "ik_StatusCode q = None \<longleftrightarrow> ik_ClaimToken q \<noteq> None" using assms(4) [of r] by metis
  qed
  then show ?thesis using assms(1) k unfolding idem_ok_def by metis
qed

lemma idem_le_snoc: "(\<And>t. ik_ClaimToken r = Some t \<Longrightarrow> t \<in> new) \<Longrightarrow> idem_le new rows (rows @ [r])"
  unfolding idem_le_def by auto

lemma idem_le_filter:
  assumes "\<And>r. P r \<Longrightarrow> ik_StatusCode r = None"
  shows "idem_le new rows (filter (\<lambda>r. \<not> P r) rows)"
  unfolding idem_le_def using assms by auto

lemma idem_step_tables: "idem_step new (db\<lparr>cn_step := n\<rparr>) db' \<Longrightarrow> idem_step new db db'"
  by (simp add: idem_step_def)

lemma fetch_step: "IdempotencyRepo_fetch ws key db = (r, db') \<Longrightarrow> db_idem db' = db_idem db"
  unfolding IdempotencyRepo_fetch_def by (elim query_stmt_cases) auto

lemma insert_claim_step:
  assumes "insert_claim ws key hash token now db = (r, db')"
  shows "idem_step {token} db db'"
  using assms unfolding insert_claim_def
proof (elim exec_stmt_cases)
  fix t
  let ?db1 = "db\<lparr>cn_step := Suc (cn_step db)\<rparr>"
  assume h: "(if token = '''' then (Inl (ErrOther ''in-progress idempotency claim requires token and expiry''), ?db1)
     else if list_ex (row_at ws key) (db_idem ?db1) then (Inr False, ?db1)
     else if list_ex (\<lambda>r. ik_ClaimToken r = Some token) (db_idem ?db1) then (Inl ErrIdempotencyConflict, ?db1)
     else (Inr True, ?db1\<lparr>db_idem := db_idem ?db1 @ [\<lparr>ik_WorkspaceID = ws, ik_Key = key, ik_RequestHash = hash,
        ik_ResultRef = None, ik_StatusCode = None, ik_ClaimToken = Some token,
        ik_ClaimExpiresAt = Some (now + idempotencyClaimLease), ik_CreatedAt = now\<rparr>]\<rparr>)) = (r, db')"
  show "idem_step {token} db db'"
  proof (cases "token = '''' \<or> list_ex (row_at ws key) (db_idem db) \<or> list_ex (\<lambda>r. ik_ClaimToken r = Some token) (db_idem db)")
    case True
    then have "db_idem db' = db_idem db" using h by (auto split: if_splits)
    then show ?thesis by (rule idem_step_refl)
  next
    case False
    then obtain q where q: "db_idem db' = db_idem db @ [q]" "ik_WorkspaceID q = ws" "ik_Key q = key" "ik_StatusCode q = None"
        "ik_ClaimToken q = Some token"
      using h by auto
    show ?thesis unfolding idem_step_def q(1)
      using idem_le_snoc [of q "{token}"] idem_ok_snoc [of "db_idem db" ws key q] q False by simp
  qed
qed (simp add: idem_step_refl)

lemma delete_where_step:
  assumes "delete_where P db = (r, db')" and "\<And>r. P r \<Longrightarrow> ik_StatusCode r = None"
  shows "idem_step {} db db'"
  using assms(1) unfolding delete_where_def
  by (elim exec_stmt_cases) (auto simp: idem_step_def idem_le_filter [of P] idem_ok_filter assms(2))

lemma update_owned_step:
  assumes "update_owned ws key hash token f db = (r, db')"
    and "\<And>r. ik_WorkspaceID (f r) = ik_WorkspaceID r" "\<And>r. ik_Key (f r) = ik_Key r" "\<And>r. ik_RequestHash (f r) = ik_RequestHash r"
    and "\<And>r. ik_ClaimToken (f r) \<noteq> None \<Longrightarrow> ik_ClaimToken (f r) = ik_ClaimToken r"
    and "\<And>r. (ik_StatusCode r = None \<longleftrightarrow> ik_ClaimToken r \<noteq> None) \<Longrightarrow> (ik_StatusCode (f r) = None \<longleftrightarrow> ik_ClaimToken (f r) \<noteq> None)"
  shows "idem_step {} db db'"
proof -
  let ?g = "\<lambda>r. if owned_row ws key hash token r then f r else r"
  have le: "idem_le {} rows (map ?g rows)" for rows
    unfolding idem_le_def
  proof (intro conjI subsetI ballI allI impI disjI2)
    fix r assume "r \<in> {r \<in> set rows. ik_StatusCode r \<noteq> None}"
    then have "r \<in> set rows" "?g r = r" by (auto simp: owned_row_def)
    then show "r \<in> set (map ?g rows)" using image_eqI [of r ?g r "set rows"] by simp
  next
    fix q t assume q: "q \<in> set (map ?g rows)" "ik_ClaimToken q = Some t"
    then obtain r where r: "r \<in> set rows" "q = ?g r" by auto
    then show "\<exists>r\<in>set rows. ik_ClaimToken r = Some t \<and> ik_WorkspaceID r = ik_WorkspaceID q \<and> ik_Key r = ik_Key q \<and>
        ik_RequestHash r = ik_RequestHash q"
      using q(2) assms(2-5) [of r] by (intro bexI [of _ r]) (auto split: if_splits)
  qed
  have ok: "idem_ok rows \<Longrightarrow> idem_ok (map ?g rows)" for rows
    by (rule idem_ok_map) (use assms(2,3,6) in auto)
  have "db_idem db' = db_idem db \<or> db_idem db' = map ?g (db_idem db)"
    using assms(1) unfolding update_owned_def by (elim exec_stmt_cases) auto
  then show ?thesis
  proof
    assume "db_idem db' = db_idem db"
    then show ?thesis by (rule idem_step_refl)
  next
    assume e: "db_idem db' = map ?g (db_idem db)"
    show ?thesis unfolding idem_step_def e using le [of "db_idem db"] ok [of "db_idem db"] by blast
  qed
qed

lemma claim_attempts_step:
  fixes db :: "'a IdemDb_scheme"
  assumes "claim_attempts tokens ws key hash db = (r, db')"
  shows "idem_step (set tokens) db db'"
  using assms
proof (induction tokens arbitrary: db r db')
  case Nil
  then show ?case by (simp add: idem_step_refl)
next
  case (Cons token tokens)
  have mono: "idem_step new a b \<Longrightarrow> new \<subseteq> set (token # tokens) \<Longrightarrow> idem_step (set (token # tokens)) a b" for new and a b :: "'a IdemDb_scheme"
    unfolding idem_step_def using idem_le_mono by blast
  have IH: "idem_step (set (token # tokens)) a b" if "claim_attempts tokens ws key hash a = (r', b)" for a r' and b :: "'a IdemDb_scheme"
    by (rule mono [OF Cons.IH [OF that]]) auto
  obtain i db1 where i: "insert_claim ws key hash token (nowM db) db = (i, db1)" by (cases "insert_claim ws key hash token (nowM db) db")
  have s1: "idem_step (set (token # tokens)) db db1" by (rule mono [OF insert_claim_step [OF i]]) simp
  obtain f db2 where f: "IdempotencyRepo_fetch ws key db1 = (f, db2)" by (cases "IdempotencyRepo_fetch ws key db1")
  have s2: "idem_step (set (token # tokens)) db db2" using s1 fetch_step [OF f] by (simp add: idem_step_def)
  obtain d db3 where d: "delete_where (stale_claim ws key hash (nowM db)) db2 = (d, db3)"
    by (cases "delete_where (stale_claim ws key hash (nowM db)) db2")
  have s3: "idem_step (set (token # tokens)) db db3"
    using idem_step_trans [OF s2 mono [OF delete_where_step [OF d]]] by (simp add: stale_claim_def)
  note e = Cons.prems [unfolded claim_attempts.simps Let_def bindM_def i f, simplified]
  show ?case
  proof (cases i)
    case (Inl a) with e s1 show ?thesis by simp
  next
    case ii: (Inr inserted)
    show ?thesis
    proof (cases inserted)
      case True with ii e s1 show ?thesis by simp
    next
      case False
      show ?thesis
      proof (cases f)
        case (Inl a) with ii False e f s2 show ?thesis by simp
      next
        case ff: (Inr fr)
        show ?thesis
        proof (cases fr)
          case None
          then have "claim_attempts tokens ws key hash db2 = (r, db')" using ii False ff e f by simp
          then show ?thesis using idem_step_trans [OF s2 IH] by simp
        next
          case (Some rec)
          have "db' = db2 \<or> db' = db3 \<or> claim_attempts tokens ws key hash db3 = (r, db')"
            using ii False ff Some e f d by (auto split: if_splits sum.splits)
          then show ?thesis using s2 s3 idem_step_trans [OF s3 IH] by blast
        qed
      qed
    qed
  qed
qed

lemma update_owned_fails:
  assumes "\<And>r. r \<in> set (db_idem db) \<Longrightarrow> \<not> owned_row ws key hash token r"
    and "update_owned ws key hash token f db = (r, db')"
  shows "(\<exists>e. r = Inl e) \<and> db_idem db' = db_idem db"
proof -
  have "map (\<lambda>r. if owned_row ws key hash token r then f r else r) (db_idem db) = db_idem db"
    by (rule map_idI) (simp add: assms(1))
  moreover have "filter (owned_row ws key hash token) (db_idem db) = []" using assms(1) by (simp add: filter_empty_conv)
  ultimately show ?thesis using assms(2) unfolding update_owned_def by (elim exec_stmt_cases) auto
qed

lemma delete_where_none:
  assumes "\<And>r. r \<in> set (db_idem db) \<Longrightarrow> \<not> P r" and "delete_where P db = (r, db')"
  shows "db_idem db' = db_idem db \<and> (r = Inl dbError \<or> r = Inr 0)"
proof -
  have "filter P (db_idem db) = []" "filter (\<lambda>r. \<not> P r) (db_idem db) = db_idem db" using assms(1) by (simp_all add: filter_empty_conv)
  then show ?thesis using assms(2) unfolding delete_where_def by (elim exec_stmt_cases) auto
qed

lemma Complete_step: "IdempotencyRepo_Complete ws key h t s b db = (r, db') \<Longrightarrow> idem_step {} db db'"
  unfolding IdempotencyRepo_Complete_def
  by (auto simp: idem_step_refl split: if_splits elim!: update_owned_step)

lemma Renew_step: "IdempotencyRepo_Renew ws key h t db = (r, db') \<Longrightarrow> idem_step {} db db'"
  unfolding IdempotencyRepo_Renew_def Let_def
  by (auto simp: idem_step_refl split: if_splits elim!: update_owned_step)

lemma Release_step: "IdempotencyRepo_Release ws key h t db = (r, db') \<Longrightarrow> idem_step {} db db'"
  unfolding IdempotencyRepo_Release_def
  by (auto simp: idem_step_refl owned_row_def split: if_splits elim!: bindM_cases delete_where_step)

lemma Record_step:
  assumes "IdempotencyRepo_Record ws key rec db = (r, db')"
  shows "idem_step {} db db'"
proof -
  have "db_idem db' = db_idem db \<or> (\<exists>q. db_idem db' = db_idem db @ [q] \<and> \<not> list_ex (row_at ws key) (db_idem db) \<and>
      ik_WorkspaceID q = ws \<and> ik_Key q = key \<and> ik_StatusCode q \<noteq> None \<and> ik_ClaimToken q = None)"
    using assms unfolding IdempotencyRepo_Record_def
    by (auto split: if_splits elim!: exec_stmt_cases)
  then show ?thesis
  proof (elim disjE exE conjE)
    fix q assume q: "db_idem db' = db_idem db @ [q]" "\<not> list_ex (row_at ws key) (db_idem db)"
      "ik_WorkspaceID q = ws" "ik_Key q = key" "ik_StatusCode q \<noteq> None" "ik_ClaimToken q = None"
    show ?thesis unfolding idem_step_def q(1)
      using idem_le_snoc [of q "{}"] idem_ok_snoc [OF _ q(2-4)] q(5,6) by simp
  qed (rule idem_step_refl)
qed

lemma Claim_step: "IdempotencyRepo_Claim t1 t2 ws key h db = (r, db') \<Longrightarrow> idem_step {t1, t2} db db'"
  unfolding IdempotencyRepo_Claim_def using claim_attempts_step [of "[t1, t2]"] by simp

lemma idem_apply_step: "idem_step (draws op) db (idem_apply db op)"
  using Claim_step [OF prod.collapse [symmetric]] Complete_step [OF prod.collapse [symmetric]]
    Renew_step [OF prod.collapse [symmetric]] Release_step [OF prod.collapse [symmetric]] Record_step [OF prod.collapse [symmetric]]
  by (cases op) simp_all

lemma idem_history_step:
  assumes "\<And>op. op \<in> set ops \<Longrightarrow> draws op \<subseteq> new"
  shows "idem_step new db (foldl idem_apply db ops)"
  using assms
proof (induction ops arbitrary: db)
  case Nil
  then show ?case by (simp add: idem_step_refl)
next
  case (Cons op ops)
  have "idem_step new db (idem_apply db op)"
    using idem_apply_step [of op db] Cons.prems [of op] idem_le_mono unfolding idem_step_def by auto
  moreover have "idem_step new (idem_apply db op) (foldl idem_apply (idem_apply db op) ops)"
    using Cons.prems by (intro Cons.IH) simp
  ultimately show ?case using idem_step_trans by simp
qed

lemma idem_ok_unique:
  "idem_ok rows \<Longrightarrow> r \<in> set rows \<Longrightarrow> q \<in> set rows \<Longrightarrow> row_at ws key r \<Longrightarrow> row_at ws key q \<Longrightarrow> r = q"
  unfolding idem_ok_def row_at_def distinct_map inj_on_def by auto

lemma find_row:
  assumes "idem_ok rows" and "r \<in> set rows" and "row_at ws key r"
  shows "List.find (row_at ws key) rows = Some r"
proof -
  have "List.find (row_at ws key) rows \<noteq> None" using assms(2,3) by (auto simp: find_None_iff)
  then obtain q where q: "List.find (row_at ws key) rows = Some q" by auto
  then have "q \<in> set rows" "row_at ws key q" by (auto simp: find_Some_iff)
  then show ?thesis using idem_ok_unique [OF assms(1,2)] assms(3) q by blast
qed

text \<open>A completed key replays its result.\<close>

lemma claim_completed:
  assumes ok: "idem_ok (db_idem db)" and r: "r \<in> set (db_idem db)" "row_at ws key r" "ik_StatusCode r = Some code"
    and code: "100 \<le> code"
  shows "(\<exists>e. fst (claim_attempts (tk # tks) ws key h db) = Inl e) \<or>
    fst (claim_attempts (tk # tks) ws key h db) = Inr (False, Some (record_of r), '''')"
proof -
  have ex: "list_ex (row_at ws key) (db_idem db)" using r(1,2) by (auto simp: list_ex_iff)
  obtain i db1 where i: "insert_claim ws key h tk (nowM db) db = (i, db1)" by (cases "insert_claim ws key h tk (nowM db) db")
  have ii: "(\<exists>e. i = Inl e) \<or> i = Inr False" and d1: "db_idem db1 = db_idem db"
    using i ex unfolding insert_claim_def by (auto elim!: exec_stmt_cases split: if_splits)
  obtain f db2 where f: "IdempotencyRepo_fetch ws key db1 = (f, db2)" by (cases "IdempotencyRepo_fetch ws key db1")
  have ff: "(\<exists>e. f = Inl e) \<or> f = Inr (Some (record_of r))"
    using f d1 find_row [OF ok r(1,2)] unfolding IdempotencyRepo_fetch_def by (auto elim!: query_stmt_cases)
  have "ir_StatusCode (record_of r) \<noteq> 0" using r(3) code by (simp add: record_of_def)
  then show ?thesis using ii ff by (auto simp: Let_def bindM_def i f)
qed

lemma update_owned_exact:
  assumes "update_owned ws key hash token f db = (Inr (), db')"
  obtains r where "r \<in> set (db_idem db)" "owned_row ws key hash token r" "f r \<in> set (db_idem db')"
proof -
  have l: "length (filter (owned_row ws key hash token) (db_idem db)) = 1"
    and m: "db_idem db' = map (\<lambda>r. if owned_row ws key hash token r then f r else r) (db_idem db)"
    using assms unfolding update_owned_def by (auto elim!: exec_stmt_cases split: if_splits)
  then obtain r where "r \<in> set (filter (owned_row ws key hash token) (db_idem db))"
    by (cases "filter (owned_row ws key hash token) (db_idem db)") auto
  then have "r \<in> set (db_idem db)" "owned_row ws key hash token r" by auto
  then show ?thesis using that [of r] m by (force simp: image_iff)
qed

text \<open>
  C14. A completed request is replayed, never executed again: once \<^verbatim>\<open>Complete\<close> has stored the
  response of a key, every later \<^verbatim>\<open>Claim\<close> of that key, whatever happened in between (claims that
  find other claims stale, renewals, releases by requests that lost their claim, failing
  statements), either fails or answers with exactly that response and grants nothing.
\<close>

theorem idem_completed_replays:
  assumes "idem_ok (db_idem db)"
    and "IdempotencyRepo_Complete ws key h t code body db = (Inr (), db')"
    and "IdempotencyRepo_Claim t1 t2 ws key h' (foldl idem_apply db' ops) = (res, db'')"
  shows "(\<exists>e. res = Inl e) \<or>
    res = Inr (False, Some \<lparr>ir_RequestHash = h, ir_StatusCode = code, ir_ResultBody = body\<rparr>, '''')"
proof -
  have g: "100 \<le> code" and u: "update_owned ws key h t (\<lambda>r. r\<lparr>ik_ResultRef := Some body, ik_StatusCode := Some code,
             ik_ClaimToken := None, ik_ClaimExpiresAt := None\<rparr>) db = (Inr (), db')"
    using assms(2) unfolding IdempotencyRepo_Complete_def by (auto split: if_splits)
  obtain r where r: "owned_row ws key h t r" and in': "r\<lparr>ik_ResultRef := Some body, ik_StatusCode := Some code,
             ik_ClaimToken := None, ik_ClaimExpiresAt := None\<rparr> \<in> set (db_idem db')" (is "?r \<in> _")
    using update_owned_exact [OF u] by metis
  let ?db = "foldl idem_apply db' ops"
  have h: "idem_step UNIV db' ?db" by (rule idem_history_step) simp
  have ok: "idem_ok (db_idem ?db)"
    using h Complete_step [OF assms(2)] assms(1) unfolding idem_step_def by blast
  have mem: "?r \<in> set (db_idem ?db)"
    using h unfolding idem_step_def by (elim conjE idem_le_completed) (use in' in simp_all)
  have "row_at ws key ?r" "ik_StatusCode ?r = Some code" using r by (auto simp: owned_row_def row_at_def)
  from claim_completed [OF ok mem this g, of t1 "[t2]" h']
  have "(\<exists>e. res = Inl e) \<or> res = Inr (False, Some (record_of ?r), '''')"
    using assms(3) unfolding IdempotencyRepo_Claim_def by simp
  moreover have "record_of ?r = \<lparr>ir_RequestHash = h, ir_StatusCode = code, ir_ResultBody = body\<rparr>"
    using r by (simp add: record_of_def owned_row_def)
  ultimately show ?thesis by simp
qed

definition sample_idem :: IdemDb where
  "sample_idem = \<lparr>cn_env = (\<lambda>n. (n = 1, int n)), cn_step = 0, db_idem =
     [\<lparr>ik_WorkspaceID = ''w'', ik_Key = ''k'', ik_RequestHash = ''h'', ik_ResultRef = None, ik_StatusCode = None,
       ik_ClaimToken = Some ''t'', ik_ClaimExpiresAt = Some 5, ik_CreatedAt = 0\<rparr>]\<rparr>"

theorem idem_completed_replays_witness:
  "fst (IdempotencyRepo_Complete ''w'' ''k'' ''h'' ''t'' 200 ''ok'' sample_idem) = Inr () \<and>
   ((\<exists>e. fst (IdempotencyRepo_Claim ''a'' ''b'' ''w'' ''k'' ''h''
        (foldl idem_apply (snd (IdempotencyRepo_Complete ''w'' ''k'' ''h'' ''t'' 200 ''ok'' sample_idem)) [IdRelease ''w'' ''k'' ''h'' ''t''])) = Inl e) \<or>
    fst (IdempotencyRepo_Claim ''a'' ''b'' ''w'' ''k'' ''h''
        (foldl idem_apply (snd (IdempotencyRepo_Complete ''w'' ''k'' ''h'' ''t'' 200 ''ok'' sample_idem)) [IdRelease ''w'' ''k'' ''h'' ''t'']))
      = Inr (False, Some \<lparr>ir_RequestHash = ''h'', ir_StatusCode = 200, ir_ResultBody = ''ok''\<rparr>, ''''))"
proof -
  have ok: "idem_ok (db_idem sample_idem)" by (simp add: sample_idem_def idem_ok_def)
  have c: "fst (IdempotencyRepo_Complete ''w'' ''k'' ''h'' ''t'' 200 ''ok'' sample_idem) = Inr ()"
    by (simp add: sample_idem_def IdempotencyRepo_Complete_def update_owned_def exec_stmt_def owned_row_def row_at_def)
  have p: "x = (fst x, snd x)" for x :: "(go_error + 'r) \<times> IdemDb" by simp
  from idem_completed_replays [OF ok, of "''w''" "''k''" "''h''" "''t''" 200 "''ok''"]
  show ?thesis using c p by (metis (no_types, lifting) prod.collapse)
qed

lemma insert_claim_granted:
  "insert_claim ws key hash token now db = (Inr True, db') \<Longrightarrow>
   \<exists>q\<in>set (db_idem db'). row_at ws key q \<and> ik_ClaimToken q = Some token"
  unfolding insert_claim_def by (auto simp: row_at_def elim!: exec_stmt_cases split: if_splits)

lemma claim_granted:
  fixes db :: "'a IdemDb_scheme"
  assumes "claim_attempts tokens ws key h db = (Inr (True, w, t), db')"
  shows "\<exists>q\<in>set (db_idem db'). row_at ws key q \<and> ik_ClaimToken q = Some t"
  using assms
proof (induction tokens arbitrary: db)
  case (Cons token tokens)
  have "insert_claim ws key h token (nowM db) db = (Inr True, db') \<and> token = t \<or>
      (\<exists>a :: 'a IdemDb_scheme. claim_attempts tokens ws key h a = (Inr (True, w, t), db'))"
    using Cons.prems by (auto simp: Let_def elim!: bindM_cases split: if_splits option.splits)
  then show ?case using Cons.IH insert_claim_granted by blast
qed simp

text \<open>
  C29. A request that lost its claim is fenced off: when \<^verbatim>\<open>Claim\<close> has granted the key to a request,
  a token drawn before (of a request whose claim was found stale, or was released) completes,
  renews and releases nothing any more, over any later history in which that token is not drawn
  again.
\<close>

theorem idem_claim_fence:
  assumes "idem_ok (db_idem db)"
    and "IdempotencyRepo_Claim t1 t2 ws key h db = (Inr (True, None, t), db')"
    and "s \<noteq> t" and "s \<notin> \<Union> (set (map draws ops))"
  shows "(\<exists>e. fst (IdempotencyRepo_Complete ws key h' s code body (foldl idem_apply db' ops)) = Inl e) \<and>
     (\<exists>e. fst (IdempotencyRepo_Renew ws key h' s (foldl idem_apply db' ops)) = Inl e) \<and>
     (\<exists>e. fst (IdempotencyRepo_Release ws key h' s (foldl idem_apply db' ops)) = Inl e) \<and>
     db_idem (snd (IdempotencyRepo_Complete ws key h' s code body (foldl idem_apply db' ops))) = db_idem (foldl idem_apply db' ops) \<and>
     db_idem (snd (IdempotencyRepo_Renew ws key h' s (foldl idem_apply db' ops))) = db_idem (foldl idem_apply db' ops) \<and>
     db_idem (snd (IdempotencyRepo_Release ws key h' s (foldl idem_apply db' ops))) = db_idem (foldl idem_apply db' ops)"
proof -
  let ?db = "foldl idem_apply db' ops"
  obtain q where q: "q \<in> set (db_idem db')" "row_at ws key q" "ik_ClaimToken q = Some t"
    using claim_granted assms(2) unfolding IdempotencyRepo_Claim_def by metis
  have ok: "idem_ok (db_idem db')" using Claim_step [OF assms(2)] assms(1) unfolding idem_step_def by blast
  have h: "idem_step (\<Union> (set (map draws ops))) db' ?db" by (rule idem_history_step) auto
  have none: "\<not> owned_row ws key h' s r" if r: "r \<in> set (db_idem ?db)" for r
  proof
    assume o: "owned_row ws key h' s r"
    then have "ik_ClaimToken r = Some s" "row_at ws key r" by (auto simp: owned_row_def)
    moreover obtain p where "p \<in> set (db_idem db')" "ik_ClaimToken p = Some s" "ik_WorkspaceID p = ik_WorkspaceID r" "ik_Key p = ik_Key r"
      using h idem_le_token [OF _ r _ assms(4)] calculation(1) unfolding idem_step_def by metis
    ultimately have "p = q" using idem_ok_unique [OF ok _ q(1) _ q(2)] by (simp add: row_at_def)
    then show False using \<open>ik_ClaimToken p = Some s\<close> q(3) assms(3) by simp
  qed
  have dn: "db_idem (snd (delete_where (owned_row ws key h' s) ?db)) = db_idem ?db \<and>
      (fst (delete_where (owned_row ws key h' s) ?db) = Inl dbError \<or> fst (delete_where (owned_row ws key h' s) ?db) = Inr 0)"
    by (rule delete_where_none [OF _ prod.collapse [symmetric]]) (simp add: none)
  have up: "(\<exists>e. fst (update_owned ws key h' s f ?db) = Inl e) \<and> db_idem (snd (update_owned ws key h' s f ?db)) = db_idem ?db" for f
    by (rule update_owned_fails [OF _ prod.collapse [symmetric]]) (simp add: none)
  show ?thesis
    unfolding IdempotencyRepo_Complete_def IdempotencyRepo_Renew_def IdempotencyRepo_Release_def Let_def
    using up dn by (simp add: bindM_def failM_def split: prod.splits sum.splits) auto
qed

definition reclaim_idem :: IdemDb where
  "reclaim_idem = \<lparr>cn_env = (\<lambda>n. (False, 10000000000)), cn_step = 0, db_idem =
     [\<lparr>ik_WorkspaceID = ''w'', ik_Key = ''k'', ik_RequestHash = ''h'', ik_ResultRef = None, ik_StatusCode = None,
       ik_ClaimToken = Some ''s'', ik_ClaimExpiresAt = Some (5000000000), ik_CreatedAt = 0\<rparr>]\<rparr>"


lemma reclaim_claimed:
  "IdempotencyRepo_Claim ''a'' ''b'' ''w'' ''k'' ''h'' reclaim_idem = (Inr (True, None, ''b''),
     reclaim_idem\<lparr>cn_step := 4, db_idem := [\<lparr>ik_WorkspaceID = ''w'', ik_Key = ''k'', ik_RequestHash = ''h'',
       ik_ResultRef = None, ik_StatusCode = None, ik_ClaimToken = Some ''b'',
       ik_ClaimExpiresAt = Some (10000000000 + idempotencyClaimLease), ik_CreatedAt = 10000000000\<rparr>]\<rparr>)"
proof -
  have "timeParam 5000000000 < timeParam 10000000000" by (rule timeParam_second_less) (simp_all add: storable_def)
  then show ?thesis
    by (simp add: reclaim_idem_def IdempotencyRepo_Claim_def bindM_def Let_def nowM_def insert_claim_def exec_stmt_def row_at_def
        IdempotencyRepo_fetch_def query_stmt_def delete_where_def stale_claim_def record_of_def)
qed

theorem idem_claim_fence_witness:
  "\<exists>e. fst (IdempotencyRepo_Complete ''w'' ''k'' ''h'' ''s'' 200 ''late'' (foldl idem_apply
     (snd (IdempotencyRepo_Claim ''a'' ''b'' ''w'' ''k'' ''h'' reclaim_idem)) [IdRenew ''w'' ''k'' ''h'' ''b''])) = Inl e"
proof -
  have "idem_ok (db_idem reclaim_idem)" by (simp add: reclaim_idem_def idem_ok_def)
  from idem_claim_fence [OF this reclaim_claimed, of "''s''" "[IdRenew ''w'' ''k'' ''h'' ''b'']" "''h''" 200 "''late''"]
  show ?thesis by (simp add: reclaim_claimed)
qed

end
