(* ===== verification/TaskSessions.thy ===== *)
theory TaskSessions
  imports Usage RunStore
begin

text \<open>
  The rows of provider sessions and the usage columns of runs, of the packages \<^verbatim>\<open>domain\<close>
  (\<^verbatim>\<open>task_session.go\<close>) and \<^verbatim>\<open>persistence/sqlstore\<close> (\<^verbatim>\<open>tasksessions.go\<close>, the usage part of
  \<^verbatim>\<open>runs.go\<close>, the triggers of migration 0028): the session repository with its claims and its
  compare-and-swap updates, and the reading and writing of a run with its usage.
\<close>

section \<open>Sessions and usage columns\<close>

record TaskSession =
  ts_ID :: string
  ts_WorkspaceID :: string
  ts_AgentProfileID :: string
  ts_AdapterID :: string
  ts_TaskKey :: string
  ts_ParentAnchorID :: string
  ts_SessionParams :: gomap
  ts_DisplayID :: string
  ts_RunsCount :: int
  ts_InputTokensCum :: int
  ts_SegmentSeq :: int
  ts_ContextSnapshotID :: string
  ts_ContextGeneration :: int
  ts_LastRunID :: string
  ts_AnchorRunSequence :: int
  ts_ProviderUsageAnchor :: "ProviderUsageAnchorV1 option"
  ts_ProviderUsageAnchorSeq :: int
  ts_CreatedAt :: time
  ts_UpdatedAt :: time

definition TaskSession_SessionRef :: "TaskSession \<Rightarrow> string" where
  "TaskSession_SessionRef t = string_or_empty (ts_SessionParams t) ''__ref''"

definition TaskSession_Fingerprint :: "TaskSession \<Rightarrow> string" where
  "TaskSession_Fingerprint t = string_or_empty (ts_SessionParams t) ''__fingerprint''"

text \<open>Of an execution context snapshot, what the session code reads; it is immutable.\<close>

record ContextSnapshot =
  sn_ID :: string
  sn_RunID :: string
  sn_ContextGeneration :: int
  sn_SnapshotDigest :: string

text \<open>
  The usage columns of a run. They are kept beside the row of the run, because the statements
  of the run service write back what they read there; \<open>no_usage\<close> is what a new row has.
\<close>

record RunUsage =
  us_In :: int
  us_Out :: int
  us_Cached :: int
  us_Basis :: string
  us_Report :: "ProviderUsageReportV1 option"
  us_ReportDigest :: string
  us_ReportSeq :: int
  us_Canonical :: "CanonicalUsageV1 option"
  us_CanonicalDigest :: string

definition no_usage :: RunUsage where
  "no_usage = \<lparr>us_In = 0, us_Out = 0, us_Cached = 0, us_Basis = '''', us_Report = None, us_ReportDigest = '''',
     us_ReportSeq = 0, us_Canonical = None, us_CanonicalDigest = ''''\<rparr>"

record UsageDb = RunDb +
  db_sessions :: "TaskSession list"
  db_snapshots :: "ContextSnapshot list"
  db_usage :: "string \<Rightarrow> RunUsage"

section \<open>The session repository\<close>

definition validateProviderUsageAnchorState :: "TaskSession \<Rightarrow> go_error option" where
  "validateProviderUsageAnchorState t =
     (case ts_ProviderUsageAnchor t of
        None \<Rightarrow> require (ts_ProviderUsageAnchorSeq t = 0) (ErrValidation ''provider usage anchor requires paired sequence'')
      | Some a \<Rightarrow>
          first_error [require (ts_ProviderUsageAnchorSeq t \<ge> 1) (ErrValidation ''provider usage anchor sequence must be >= 1''),
            ProviderUsageAnchor_Validate (Some a)])"

definition same_session :: "string \<Rightarrow> string \<Rightarrow> string \<Rightarrow> string \<Rightarrow> TaskSession \<Rightarrow> bool" where
  "same_session ws ag ad tk t \<longleftrightarrow>
     ts_WorkspaceID t = ws \<and> ts_AgentProfileID t = ag \<and> ts_AdapterID t = ad \<and> ts_TaskKey t = tk"

definition session_of :: "TaskSession \<Rightarrow> TaskSession \<Rightarrow> bool" where
  "session_of t = same_session (ts_WorkspaceID t) (ts_AgentProfileID t) (ts_AdapterID t) (ts_TaskKey t)"

text \<open>The scan of a row checks the anchor again.\<close>

definition scan_session :: "TaskSession \<Rightarrow> go_error + TaskSession" where
  "scan_session t = guarded (validateProviderUsageAnchorState t) t"

definition TaskSessionRepo_Get ::
  "string \<Rightarrow> string \<Rightarrow> string \<Rightarrow> string \<Rightarrow> 'a UsageDb_scheme \<Rightarrow> (go_error + TaskSession) \<times> 'a UsageDb_scheme" where
  "TaskSessionRepo_Get ws ag ad tk = query_stmt (\<lambda>_ db.
     case List.find (same_session ws ag ad tk) (db_sessions db) of None \<Rightarrow> Inl ErrNotFound | Some t \<Rightarrow> scan_session t)"

text \<open>The trigger \<^verbatim>\<open>task_sessions_provider_usage_anchor_update\<close>: the sequence follows the anchor.\<close>

definition anchor_follows :: "TaskSession \<Rightarrow> TaskSession \<Rightarrow> bool" where
  "anchor_follows old new \<longleftrightarrow>
     (case ts_ProviderUsageAnchor old of
        None \<Rightarrow> ts_ProviderUsageAnchorSeq old = 0 \<and>
          (case ts_ProviderUsageAnchor new of None \<Rightarrow> ts_ProviderUsageAnchorSeq new = 0 | Some _ \<Rightarrow> ts_ProviderUsageAnchorSeq new = 1)
      | Some a \<Rightarrow>
          ts_ProviderUsageAnchor new = Some a \<and> ts_ProviderUsageAnchorSeq new = ts_ProviderUsageAnchorSeq old \<or>
          ts_ProviderUsageAnchor new \<noteq> None \<and> ts_ProviderUsageAnchorSeq new = ts_ProviderUsageAnchorSeq old + 1)"

definition session_refs_known :: "TaskSession \<Rightarrow> 'a UsageDb_scheme \<Rightarrow> bool" where
  "session_refs_known t db \<longleftrightarrow>
     (ts_LastRunID t \<noteq> '''' \<longrightarrow> known_run db (ts_LastRunID t)) \<and>
     (ts_ContextSnapshotID t \<noteq> '''' \<longrightarrow> list_ex (\<lambda>s. sn_ID s = ts_ContextSnapshotID t) (db_snapshots db))"

definition anchorError :: go_error where
  "anchorError = ErrOther ''task session provider usage anchor sequence must advance monotonically''"

text \<open>
  An update of the rows that \<open>hit\<close>, with the trigger if the statement sets the anchor columns; the
  result is the number of rows.
\<close>

definition update_sessions ::
  "bool \<Rightarrow> (TaskSession \<Rightarrow> bool) \<Rightarrow> (TaskSession \<Rightarrow> TaskSession) \<Rightarrow> 'a UsageDb_scheme \<Rightarrow> (go_error + nat) \<times> 'a UsageDb_scheme" where
  "update_sessions anchors hit f db =
     (if anchors \<and> list_ex (\<lambda>t. hit t \<and> \<not> anchor_follows t (f t)) (db_sessions db) then (Inl anchorError, db)
      else (Inr (length (filter hit (db_sessions db))),
        db\<lparr>db_sessions := map (\<lambda>t. if hit t then f t else t) (db_sessions db)\<rparr>))"

text \<open>\<^verbatim>\<open>segmentSeq\<close>: a new row starts with segment one.\<close>

definition segmentSeq :: "TaskSession \<Rightarrow> int" where
  "segmentSeq t = (if ts_SegmentSeq t < 1 then 1 else ts_SegmentSeq t)"

definition insert_session :: "TaskSession \<Rightarrow> 'a UsageDb_scheme \<Rightarrow> (go_error + nat) \<times> 'a UsageDb_scheme" where
  "insert_session t db =
     (if list_ex (\<lambda>x. ts_ID x = ts_ID t) (db_sessions db) then (Inl ErrIdempotencyConflict, db)
      else if \<not> session_refs_known t db then (Inl fkError, db)
      else (Inr 1, db\<lparr>db_sessions := db_sessions db @ [t\<lparr>ts_SegmentSeq := segmentSeq t\<rparr>]\<rparr>))"

text \<open>An insert with a conflict clause on the key of the table: what it does to the row that is there.\<close>

definition upsert_session ::
  "TaskSession \<Rightarrow> bool \<Rightarrow> (TaskSession \<Rightarrow> TaskSession) \<Rightarrow> 'a UsageDb_scheme \<Rightarrow> (go_error + nat) \<times> 'a UsageDb_scheme" where
  "upsert_session t anchors f db =
     (if list_ex (session_of t) (db_sessions db) then update_sessions anchors (session_of t) f db else insert_session t db)"

definition claimed_row :: "TaskSession \<Rightarrow> TaskSession \<Rightarrow> TaskSession" where
  "claimed_row t row = row\<lparr>ts_ContextSnapshotID := ts_ContextSnapshotID t, ts_ContextGeneration := ts_ContextGeneration t,
     ts_LastRunID := ts_LastRunID t, ts_AnchorRunSequence := ts_AnchorRunSequence row + 1, ts_UpdatedAt := ts_UpdatedAt t\<rparr>"

definition TaskSessionRepo_ClaimAnchor :: "TaskSession \<Rightarrow> 'a UsageDb_scheme \<Rightarrow> (go_error + TaskSession) \<times> 'a UsageDb_scheme" where
  "TaskSessionRepo_ClaimAnchor t =
     (case validateProviderUsageAnchorState t of
        Some e \<Rightarrow> failM e
      | None \<Rightarrow> exec_stmt (\<lambda>_ db.
          if list_ex (session_of t) (db_sessions db) \<and> \<not> session_refs_known t db then (Inl fkError, db)
          else case upsert_session t False (claimed_row t) db of
            (Inl e, db1) \<Rightarrow> (Inl e, db1)
          | (Inr _, db1) \<Rightarrow>
              (case List.find (session_of t) (db_sessions db1) of
                 None \<Rightarrow> Inl ErrNotFound | Some row \<Rightarrow> scan_session row, db1)))"

definition TaskSessionRepo_InsertIfAbsent :: "TaskSession \<Rightarrow> 'a UsageDb_scheme \<Rightarrow> (go_error + bool) \<times> 'a UsageDb_scheme" where
  "TaskSessionRepo_InsertIfAbsent t =
     (case validateProviderUsageAnchorState t of
        Some e \<Rightarrow> failM e
      | None \<Rightarrow> exec_stmt (\<lambda>_ db.
          if list_ex (session_of t) (db_sessions db) then (Inr False, db)
          else case insert_session t db of (Inl e, db1) \<Rightarrow> (Inl e, db1) | (Inr n, db1) \<Rightarrow> (Inr (n = 1), db1)))"

text \<open>The anchor columns of an update: a session without an anchor leaves them.\<close>

definition with_anchor :: "TaskSession \<Rightarrow> TaskSession \<Rightarrow> TaskSession" where
  "with_anchor t row =
     (case ts_ProviderUsageAnchor t of
        None \<Rightarrow> row
      | Some a \<Rightarrow> row\<lparr>ts_ProviderUsageAnchor := Some a, ts_ProviderUsageAnchorSeq := ts_ProviderUsageAnchorSeq t\<rparr>)"

definition with_material :: "TaskSession \<Rightarrow> TaskSession \<Rightarrow> TaskSession" where
  "with_material t row = with_anchor t (row\<lparr>ts_ParentAnchorID := ts_ParentAnchorID t, ts_SessionParams := ts_SessionParams t,
     ts_DisplayID := ts_DisplayID t, ts_UpdatedAt := ts_UpdatedAt t\<rparr>)"

definition continued_row :: "TaskSession \<Rightarrow> TaskSession \<Rightarrow> TaskSession" where
  "continued_row t row = (with_material t row)\<lparr>ts_RunsCount := ts_RunsCount row + ts_RunsCount t,
     ts_InputTokensCum := ts_InputTokensCum row + ts_InputTokensCum t\<rparr>"

definition rotated_row :: "TaskSession \<Rightarrow> TaskSession \<Rightarrow> TaskSession" where
  "rotated_row t row = (with_material t row)\<lparr>ts_RunsCount := ts_RunsCount t, ts_InputTokensCum := ts_InputTokensCum t,
     ts_SegmentSeq := ts_SegmentSeq row + 1, ts_CreatedAt := ts_CreatedAt t\<rparr>"

definition write_session ::
  "TaskSession \<Rightarrow> ('a UsageDb_scheme \<Rightarrow> (go_error + nat) \<times> 'a UsageDb_scheme) \<Rightarrow> 'a UsageDb_scheme \<Rightarrow> (go_error + nat) \<times> 'a UsageDb_scheme" where
  "write_session t stmt =
     (case validateProviderUsageAnchorState t of Some e \<Rightarrow> failM e | None \<Rightarrow> exec_stmt (\<lambda>_. stmt))"

definition TaskSessionRepo_Upsert :: "TaskSession \<Rightarrow> 'a UsageDb_scheme \<Rightarrow> (go_error + unit) \<times> 'a UsageDb_scheme" where
  "TaskSessionRepo_Upsert t = bindM (write_session t (upsert_session t True (continued_row t))) (\<lambda>_. returnM ())"

definition TaskSessionRepo_StartGeneration :: "TaskSession \<Rightarrow> 'a UsageDb_scheme \<Rightarrow> (go_error + unit) \<times> 'a UsageDb_scheme" where
  "TaskSessionRepo_StartGeneration t = bindM (write_session t (upsert_session t True (rotated_row t))) (\<lambda>_. returnM ())"

text \<open>An owner is compared in SQL: without one, the column is NULL and equals nothing.\<close>

definition owned_by :: "TaskSession \<Rightarrow> string \<Rightarrow> int \<Rightarrow> TaskSession \<Rightarrow> bool" where
  "owned_by t runID sequence row \<longleftrightarrow>
     session_of t row \<and> ts_LastRunID row \<noteq> '''' \<and> ts_LastRunID row = runID \<and> ts_AnchorRunSequence row = sequence"

definition TaskSessionRepo_UpdateIfAnchorOwner ::
  "TaskSession \<Rightarrow> string \<Rightarrow> int \<Rightarrow> 'a UsageDb_scheme \<Rightarrow> (go_error + bool) \<times> 'a UsageDb_scheme" where
  "TaskSessionRepo_UpdateIfAnchorOwner t runID sequence =
     bindM (write_session t (update_sessions True (owned_by t runID sequence) (continued_row t))) (\<lambda>n. returnM (n = 1))"

definition TaskSessionRepo_StartGenerationIfAnchorOwner ::
  "TaskSession \<Rightarrow> string \<Rightarrow> int \<Rightarrow> 'a UsageDb_scheme \<Rightarrow> (go_error + bool) \<times> 'a UsageDb_scheme" where
  "TaskSessionRepo_StartGenerationIfAnchorOwner t runID sequence =
     bindM (write_session t (update_sessions True (owned_by t runID sequence) (rotated_row t))) (\<lambda>n. returnM (n = 1))"

text \<open>The baseline of the provider moves by compare and swap, under the owner of the session.\<close>

definition cas_arguments :: "int \<Rightarrow> string \<Rightarrow> int \<Rightarrow> go_error option" where
  "cas_arguments expectedSeq ownerRunID ownerRunSequence = first_error
     [require (0 \<le> expectedSeq \<and> expectedSeq < maxInt64 \<and> ownerRunID \<noteq> '''' \<and> 1 \<le> ownerRunSequence)
        (ErrValidation ''provider usage anchor CAS requires an anchor, owner Run and positive owner sequence''),
      require (HasPrefix ownerRunID PrefixRun \<and> TrimSpace ownerRunID = ownerRunID)
        (ErrValidation ''provider usage anchor CAS owner Run id is invalid'')]"

definition TaskSessionRepo_UpdateProviderUsageAnchorCAS ::
  "string \<Rightarrow> string \<Rightarrow> string \<Rightarrow> string \<Rightarrow> ProviderUsageAnchorV1 \<Rightarrow> int \<Rightarrow> string \<Rightarrow> int \<Rightarrow>
   'a UsageDb_scheme \<Rightarrow> (go_error + bool) \<times> 'a UsageDb_scheme" where
  "TaskSessionRepo_UpdateProviderUsageAnchorCAS ws ag ad tk anchor expectedSeq ownerRunID ownerRunSequence =
     (case first_error [cas_arguments expectedSeq ownerRunID ownerRunSequence, ProviderUsageAnchor_Validate (Some anchor)] of
        Some e \<Rightarrow> failM e
      | None \<Rightarrow> bindM (exec_stmt (\<lambda>now. update_sessions True
          (\<lambda>row. same_session ws ag ad tk row \<and> ts_ProviderUsageAnchorSeq row = expectedSeq \<and>
             ts_LastRunID row = ownerRunID \<and> ts_AnchorRunSequence row = ownerRunSequence)
          (\<lambda>row. row\<lparr>ts_ProviderUsageAnchor := Some anchor, ts_ProviderUsageAnchorSeq := expectedSeq + 1, ts_UpdatedAt := now\<rparr>)))
          (\<lambda>n. returnM (n = 1)))"

definition TaskSessionRepo_AddInputTokens ::
  "string \<Rightarrow> string \<Rightarrow> string \<Rightarrow> string \<Rightarrow> int \<Rightarrow> 'a UsageDb_scheme \<Rightarrow> (go_error + unit) \<times> 'a UsageDb_scheme" where
  "TaskSessionRepo_AddInputTokens ws ag ad tk tokens =
     (if tokens < 0 then failM (ErrValidation ''task session input token delta must be non-negative'')
      else bindM (exec_stmt (\<lambda>now. update_sessions False
          (\<lambda>row. same_session ws ag ad tk row \<and> ts_InputTokensCum row \<le> maxInt64 - tokens)
          (\<lambda>row. row\<lparr>ts_InputTokensCum := ts_InputTokensCum row + tokens, ts_UpdatedAt := now\<rparr>)))
        (\<lambda>n. if n \<noteq> 1 then failM (ErrValidation ''task session input token accumulation overflow or session missing'')
             else returnM ()))"

fun scan_sessions :: "TaskSession list \<Rightarrow> go_error + TaskSession list" where
  "scan_sessions [] = Inr []"
| "scan_sessions (t # ts) = (case scan_session t of Inl e \<Rightarrow> Inl e
     | Inr t \<Rightarrow> (case scan_sessions ts of Inl e \<Rightarrow> Inl e | Inr ts \<Rightarrow> Inr (t # ts)))"

definition TaskSessionRepo_ListByAgent ::
  "string \<Rightarrow> string \<Rightarrow> 'a UsageDb_scheme \<Rightarrow> (go_error + TaskSession list) \<times> 'a UsageDb_scheme" where
  "TaskSessionRepo_ListByAgent ws ag = query_stmt (\<lambda>_ db.
     scan_sessions (sort_key (\<lambda>t. timeParam (ts_UpdatedAt t))
       (filter (\<lambda>t. ts_WorkspaceID t = ws \<and> ts_AgentProfileID t = ag) (db_sessions db))))"

definition ContextSnapshotRepo_GetByRun :: "string \<Rightarrow> 'a UsageDb_scheme \<Rightarrow> (go_error + ContextSnapshot) \<times> 'a UsageDb_scheme" where
  "ContextSnapshotRepo_GetByRun runID = query_stmt (\<lambda>_ db.
     case List.find (\<lambda>s. sn_RunID s = runID) (db_snapshots db) of None \<Rightarrow> Inl ErrNotFound | Some s \<Rightarrow> Inr s)"

section \<open>The usage columns of a run\<close>

definition validateRunUsageSnapshots ::
  "providerUsageReportDigestPayload hasher \<Rightarrow> canonicalUsageDigestPayload hasher \<Rightarrow> string \<Rightarrow> RunUsage \<Rightarrow> go_error option" where
  "validateRunUsageSnapshots HP HU runID u = first_error
     ((case us_Report u of
        None \<Rightarrow> [require (us_ReportDigest u = '''' \<and> us_ReportSeq u = 0)
          (ErrValidation ''provider usage report requires paired digest and sequence'')]
      | Some rep \<Rightarrow>
          [require (ur_RunID rep = runID) (ErrValidation ''provider usage report run_id differs from Run''),
           require (1 \<le> us_ReportSeq u \<and> us_ReportDigest u \<noteq> '''')
             (ErrValidation ''provider usage report requires digest and positive sequence''),
           require (us_ReportDigest u = ur_Digest rep) (ErrValidation ''provider usage report digest mismatch''),
           ProviderUsageReport_VerifyDigest HP (Some rep)]) @
      (case us_Canonical u of
        None \<Rightarrow> [require (us_CanonicalDigest u = '''') (ErrValidation ''canonical usage requires paired digest'')]
      | Some c \<Rightarrow>
          [require (cu_RunID c = runID) (ErrValidation ''canonical usage run_id differs from Run''),
           require (us_CanonicalDigest u \<noteq> '''' \<and> us_CanonicalDigest u = cu_Digest c)
             (ErrValidation ''canonical usage digest mismatch''),
           CanonicalUsage_VerifyDigest HU (Some c)]))"

text \<open>The triggers of migration 0028: a canonical usage is never rewritten, a report advances its sequence.\<close>

definition canonical_kept :: "RunUsage \<Rightarrow> RunUsage \<Rightarrow> bool" where
  "canonical_kept old new \<longleftrightarrow> us_Canonical old \<noteq> None \<longrightarrow>
     us_Canonical new = us_Canonical old \<and> us_CanonicalDigest new = us_CanonicalDigest old"

definition report_follows :: "RunUsage \<Rightarrow> RunUsage \<Rightarrow> bool" where
  "report_follows old new \<longleftrightarrow>
     (case us_Report old of
        None \<Rightarrow> us_ReportSeq old = 0 \<and> (if us_Report new = None then us_ReportSeq new = 0 else us_ReportSeq new = 1)
      | Some rep \<Rightarrow>
          us_Report new = Some rep \<and> us_ReportDigest new = us_ReportDigest old \<and> us_ReportSeq new = us_ReportSeq old \<or>
          us_Report new \<noteq> None \<and> us_ReportSeq new = us_ReportSeq old + 1 \<and> us_Canonical old = None)"

text \<open>Reading and writing a run together with its usage columns.\<close>

definition RunRepo_GetWithUsage ::
  "providerUsageReportDigestPayload hasher \<Rightarrow> canonicalUsageDigestPayload hasher \<Rightarrow> string \<Rightarrow>
   'a UsageDb_scheme \<Rightarrow> (go_error + ExecutionRun \<times> RunUsage) \<times> 'a UsageDb_scheme" where
  "RunRepo_GetWithUsage HP HU i = query_stmt (\<lambda>_ db.
     case List.find (\<lambda>r. rn_ID r = i) (db_runs db) of
       None \<Rightarrow> Inl ErrNotFound
     | Some r \<Rightarrow> guarded (validateRunUsageSnapshots HP HU i (db_usage db i)) (r, db_usage db i))"

definition RunRepo_UpdateWithUsage ::
  "providerUsageReportDigestPayload hasher \<Rightarrow> canonicalUsageDigestPayload hasher \<Rightarrow> ExecutionRun \<Rightarrow> RunUsage \<Rightarrow> int \<Rightarrow>
   'a UsageDb_scheme \<Rightarrow> (go_error + unit) \<times> 'a UsageDb_scheme" where
  "RunRepo_UpdateWithUsage HP HU r u expectedVersion =
     (case validateRunUsageSnapshots HP HU (rn_ID r) u of
        Some e \<Rightarrow> failM e
      | None \<Rightarrow> exec_stmt (\<lambda>t db.
          let hit = (\<lambda>row. rn_ID row = rn_ID r \<and> rn_Version row = expectedVersion); old = db_usage db (rn_ID r)
          in if \<not> list_ex hit (db_runs db) then (Inl ErrVersionConflict, db)
             else if \<not> canonical_kept old u then (Inl (ErrOther ''execution run canonical usage is immutable after first write''), db)
             else if \<not> report_follows old u then (Inl (ErrOther ''execution run provider usage report sequence or canonicalization state is invalid''), db)
             else (Inr (), db\<lparr>db_runs := map (\<lambda>row. if hit row then written_run r t row else row) (db_runs db),
                    db_usage := (db_usage db)(rn_ID r := u)\<rparr>)))"

end
