(* ===== verification/Sessions.thy ===== *)
theory Sessions
  imports TaskSessions Runs
begin

text \<open>
  The session service, of the package \<^verbatim>\<open>application\<close>: who owns the session of a task and which
  reports pass its gate (\<^verbatim>\<open>execution_context.go\<close>, \<^verbatim>\<open>sessions.go\<close>), the usage reports of a run
  (\<^verbatim>\<open>sessions.go\<close>), the settlement of the usage of a run that ended (\<^verbatim>\<open>canonical_usage_hook.go\<close>),
  and the choice between resuming, rotating and starting a session (\<^verbatim>\<open>sessions.go\<close>, \<^verbatim>\<open>conversation.go\<close>).
\<close>

section \<open>What the session service depends on\<close>

text \<open>
  The hashes of reports, canonical usages, prices and fingerprints, and the JSON forms of a price
  in a run's input and of a report in an event.
\<close>

record UsageEnv =
  ue_Report :: "providerUsageReportDigestPayload hasher"
  ue_Usage :: "canonicalUsageDigestPayload hasher"
  ue_Price :: "priceSnapshotDigestPayload hasher"
  ue_Sha256 :: "string \<Rightarrow> 256 word"
  ue_DecodePrice :: "goval \<Rightarrow> PriceSnapshotRef option"
  ue_DecodeReport :: "goval \<Rightarrow> ProviderUsageReportV1 option"

definition SessionFingerprint :: "UsageEnv \<Rightarrow> string \<Rightarrow> ContextSnapshot \<Rightarrow> string" where
  "SessionFingerprint E configDigest snap =
     hex_encode (ue_Sha256 E (''session-fingerprint/v1'' @ [CHR 0x0A] @ configDigest @ [CHR 0x0A] @ sn_SnapshotDigest snap))"

text \<open>\<^verbatim>\<open>runtime.Usage\<close> and \<^verbatim>\<open>runtime.SessionUpdate\<close>.\<close>

record Usage =
  rt_InputTokens :: int
  rt_OutputTokens :: int
  rt_CachedTokens :: int
  rt_Basis :: string
  rt_ProviderReport :: "ProviderUsageReportV1 option"

record SessionUpdate =
  su_Ref :: string
  su_Params :: gomap
  su_DisplayID :: string
  su_Clear :: bool
  su_ClearReason :: string

section \<open>The owner of a session\<close>

text \<open>The session of the parent task, if there is one (errors count as none).\<close>

definition anchorParent :: "string \<Rightarrow> string \<Rightarrow> string \<Rightarrow> string \<Rightarrow> 'a UsageDb_scheme \<Rightarrow> (go_error + string) \<times> 'a UsageDb_scheme" where
  "anchorParent ws ag ad tk =
     (if ad = '''' then returnM ''''
      else bindM (tryM (WorkItemRepo_Get tk)) (\<lambda>wi.
        (case wi of
           None \<Rightarrow> returnM ''''
         | Some w \<Rightarrow>
             if wi_ParentID w = '''' then returnM ''''
             else bindM (tryM (TaskSessionRepo_Get ws ag ad (wi_ParentID w))) (\<lambda>parent.
               returnM (case parent of None \<Rightarrow> '''' | Some p \<Rightarrow> ts_ID p)))))"

type_synonym 'a SessionS = "'a UsageDb_ext RunS"

text \<open>A session as its writers build it, with a new id and the time of the clock.\<close>

definition new_session :: "string \<Rightarrow> time \<Rightarrow> string \<Rightarrow> string \<Rightarrow> string \<Rightarrow> string \<Rightarrow> string \<Rightarrow> gomap \<Rightarrow> TaskSession" where
  "new_session i now ws ag ad tk parent params =
     \<lparr>ts_ID = i, ts_WorkspaceID = ws, ts_AgentProfileID = ag, ts_AdapterID = ad, ts_TaskKey = tk,
      ts_ParentAnchorID = parent, ts_SessionParams = params, ts_DisplayID = '''', ts_RunsCount = 0, ts_InputTokensCum = 0,
      ts_SegmentSeq = 0, ts_ContextSnapshotID = '''', ts_ContextGeneration = 0, ts_LastRunID = '''', ts_AnchorRunSequence = 0,
      ts_ProviderUsageAnchor = None, ts_ProviderUsageAnchorSeq = 0, ts_CreatedAt = now, ts_UpdatedAt = now\<rparr>"

definition build_session ::
  "'a SessionS \<Rightarrow> string \<Rightarrow> string \<Rightarrow> string \<Rightarrow> string \<Rightarrow> gomap \<Rightarrow> 'a UsageDb_scheme \<Rightarrow> (go_error + TaskSession) \<times> 'a UsageDb_scheme"
where
  "build_session S ws ag ad tk params = readM (\<lambda>db. (rs_NewID S db, nowM db)) (\<lambda>(i, now).
     bindM (anchorParent ws ag ad tk) (\<lambda>parent. returnM (new_session i now ws ag ad tk parent params)))"

text \<open>A new run takes the session over, in the transaction that creates it.\<close>

definition claimTaskSessionAnchor ::
  "'a SessionS \<Rightarrow> ExecutionRun \<Rightarrow> ContextSnapshot \<Rightarrow> 'a UsageDb_scheme \<Rightarrow> (go_error + unit) \<times> 'a UsageDb_scheme" where
  "claimTaskSessionAnchor S r snap =
     (if rn_AdapterID r = '''' then returnM ()
      else bindM (build_session S (rn_WorkspaceID r) (rn_AgentProfileID r) (rn_AdapterID r) (rn_WorkItemID r) []) (\<lambda>t.
        bindM (TaskSessionRepo_ClaimAnchor
          (t\<lparr>ts_ContextSnapshotID := sn_ID snap, ts_ContextGeneration := sn_ContextGeneration snap,
             ts_LastRunID := rn_ID r, ts_AnchorRunSequence := 1\<rparr>)) (\<lambda>_. returnM ())))"

text \<open>
  The gate of a session report: the session exists, is of the context generation of the run's
  snapshot, and no other run owns it.
\<close>

datatype gate = Closed | Open "TaskSession option" "ContextSnapshot option"

definition gate_of :: "ExecutionRun \<Rightarrow> TaskSession \<Rightarrow> ContextSnapshot \<Rightarrow> gate" where
  "gate_of r t snap =
     (if ts_ContextGeneration t \<noteq> sn_ContextGeneration snap \<or> ts_LastRunID t \<noteq> '''' \<and> ts_LastRunID t \<noteq> rn_ID r then Closed
      else Open (Some t) (Some snap))"

definition taskSessionAnchorGate :: "ExecutionRun \<Rightarrow> 'a UsageDb_scheme \<Rightarrow> (go_error + gate) \<times> 'a UsageDb_scheme" where
  "taskSessionAnchorGate r db =
     (if rn_AdapterID r = '''' then (Inr (Open None None), db)
      else case ContextSnapshotRepo_GetByRun (rn_ID r) db of
        (Inl e, db1) \<Rightarrow> (if e = ErrNotFound then Inr Closed else Inl e, db1)
      | (Inr snap, db1) \<Rightarrow>
          (case TaskSessionRepo_Get (rn_WorkspaceID r) (rn_AgentProfileID r) (rn_AdapterID r) (rn_WorkItemID r) db1 of
             (Inl e, db2) \<Rightarrow> (if e = ErrNotFound then Inr Closed else Inl e, db2)
           | (Inr t, db2) \<Rightarrow> (Inr (gate_of r t snap), db2)))"

section \<open>Clearing a session\<close>

definition cleared_params :: "string \<Rightarrow> gomap" where
  "cleared_params reason = (if reason \<noteq> '''' then [(''__cleared_reason'', VStr reason)] else [])"

definition writeAnchorTombstoneForOwner ::
  "TaskSession \<Rightarrow> string \<Rightarrow> 'a UsageDb_scheme \<Rightarrow> (go_error + bool) \<times> 'a UsageDb_scheme" where
  "writeAnchorTombstoneForOwner owner reason = readM nowM (\<lambda>now.
     TaskSessionRepo_UpdateIfAnchorOwner
       \<lparr>ts_ID = '''', ts_WorkspaceID = ts_WorkspaceID owner, ts_AgentProfileID = ts_AgentProfileID owner,
        ts_AdapterID = ts_AdapterID owner, ts_TaskKey = ts_TaskKey owner, ts_ParentAnchorID = ts_ParentAnchorID owner,
        ts_SessionParams = cleared_params reason, ts_DisplayID = ts_DisplayID owner, ts_RunsCount = 0, ts_InputTokensCum = 0,
        ts_SegmentSeq = 0, ts_ContextSnapshotID = '''', ts_ContextGeneration = 0, ts_LastRunID = '''', ts_AnchorRunSequence = 0,
        ts_ProviderUsageAnchor = None, ts_ProviderUsageAnchorSeq = 0, ts_CreatedAt = ts_CreatedAt owner, ts_UpdatedAt = now\<rparr>
       (ts_LastRunID owner) (ts_AnchorRunSequence owner))"

definition writeAnchorTombstoneForRun ::
  "'a SessionS \<Rightarrow> string \<Rightarrow> string \<Rightarrow> string \<Rightarrow> string \<Rightarrow> string \<Rightarrow> string \<Rightarrow> 'a UsageDb_scheme \<Rightarrow> (go_error + unit) \<times> 'a UsageDb_scheme" where
  "writeAnchorTombstoneForRun S ws ag ad tk expectedRunID reason =
     (if ad = '''' then returnM ()
      else bindM (build_session S ws ag ad tk (cleared_params reason)) (\<lambda>anchor db.
        case TaskSessionRepo_Get ws ag ad tk db of
          (Inl e, db1) \<Rightarrow>
            if e = ErrNotFound then bindM (TaskSessionRepo_InsertIfAbsent anchor) (\<lambda>_. returnM ()) db1 else (Inl e, db1)
        | (Inr t, db1) \<Rightarrow>
            if expectedRunID \<noteq> '''' \<and> ts_LastRunID t \<noteq> expectedRunID then (Inr (), db1)
            else bindM (writeAnchorTombstoneForOwner t reason) (\<lambda>_. returnM ()) db1))"

definition reset_message :: "string \<Rightarrow> string \<Rightarrow> string" where
  "reset_message tk ad = [CHR 0xE5, CHR 0xB7, CHR 0xB2, CHR 0xE9, CHR 0x87, CHR 0x8D, CHR 0xE7, CHR 0xBD, CHR 0xAE, CHR 0xE4, CHR 0xBC, CHR 0x9A, CHR 0xE8, CHR 0xAF, CHR 0x9D, CHR 0xE9, CHR 0x94, CHR 0x9A, CHR 0xE7, CHR 0x82, CHR 0xB9, CHR 0xEF, CHR 0xBC, CHR 0x88] @ ''task '' @ tk @ '' / adapter '' @ ad @ [CHR 0xEF, CHR 0xBC, CHR 0x89]"

definition ResetTaskSession ::
  "'a SessionS \<Rightarrow> string \<Rightarrow> string \<Rightarrow> string \<Rightarrow> string \<Rightarrow> 'a UsageDb_scheme \<Rightarrow> (go_error + unit) \<times> 'a UsageDb_scheme" where
  "ResetTaskSession S ws ag ad tk =
     bindM (WorkItemRepo_Get tk) (\<lambda>w.
     if wi_WorkspaceID w \<noteq> ws then failM ErrNotFound
     else bindM (checkM (requireTaskWorkItem w)) (\<lambda>_.
       InTx (bindM (writeAnchorTombstoneForRun S ws ag ad tk '''' ''manual_reset'') (\<lambda>_.
         activityFor S ws (wi_ID w) ''task_session.reset'' (reset_message tk ad)))))"

section \<open>Reporting a session\<close>

definition conversationOf :: "ExecutionRun \<Rightarrow> gomap" where
  "conversationOf r = (case map_of (rn_Input r) ''conversation'' of Some (VMap m) \<Rightarrow> m | _ \<Rightarrow> [])"

text \<open>\<open>set_all\<close> is \<^verbatim>\<open>for k, v := range update.Params { params[k] = v }\<close>.\<close>

definition set_all :: "gomap \<Rightarrow> gomap \<Rightarrow> gomap" where
  "set_all kvs m = fold (\<lambda>(k, v). AList.update k v) kvs m"

definition session_params :: "UsageEnv \<Rightarrow> ExecutionRun \<Rightarrow> ContextSnapshot option \<Rightarrow> SessionUpdate \<Rightarrow> gomap" where
  "session_params E r snap update =
     (let digest = string_or_empty (conversationOf r) ''config_digest'';
          fingerprint = (case snap of None \<Rightarrow> digest | Some s \<Rightarrow> SessionFingerprint E digest s)
      in set_all (su_Params update)
        ([(''__ref'', VStr (su_Ref update)), (''__from_run_id'', VStr (rn_ID r))] @
         (if fingerprint \<noteq> '''' then [(''__fingerprint'', VStr fingerprint)] else [])))"

definition carryAnchorOwnership :: "TaskSession \<Rightarrow> TaskSession option \<Rightarrow> ContextSnapshot option \<Rightarrow> TaskSession" where
  "carryAnchorOwnership anchor owner snap =
     (let a1 = (case owner of None \<Rightarrow> anchor
                | Some t \<Rightarrow> anchor\<lparr>ts_ContextSnapshotID := ts_ContextSnapshotID t, ts_ContextGeneration := ts_ContextGeneration t,
                    ts_LastRunID := ts_LastRunID t, ts_AnchorRunSequence := ts_AnchorRunSequence t\<rparr>)
      in (case snap of None \<Rightarrow> a1
          | Some s \<Rightarrow> a1\<lparr>ts_ContextSnapshotID := sn_ID s, ts_ContextGeneration := sn_ContextGeneration s\<rparr>))"

text \<open>The session row of a report; the first report of a rotated run starts a new generation.\<close>

definition report_session ::
  "'a SessionS \<Rightarrow> UsageEnv \<Rightarrow> ExecutionRun \<Rightarrow> TaskSession \<Rightarrow> ContextSnapshot option \<Rightarrow> SessionUpdate \<Rightarrow>
   'a UsageDb_scheme \<Rightarrow> (go_error + bool) \<times> 'a UsageDb_scheme" where
  "report_session S E r t snap update =
     (let delta = (if rn_SessionRef r \<noteq> su_Ref update then 1 else 0);
          rotated = (get_bool (conversationOf r) ''session_rotation'' = Some True)
      in bindM (build_session S (rn_WorkspaceID r) (rn_AgentProfileID r) (rn_AdapterID r) (rn_WorkItemID r) (session_params E r snap update)) (\<lambda>anchor.
         let a = carryAnchorOwnership (anchor\<lparr>ts_DisplayID := su_DisplayID update\<rparr>) (Some t) snap
         in if rotated \<and> delta = 1
            then TaskSessionRepo_StartGenerationIfAnchorOwner (a\<lparr>ts_RunsCount := 1\<rparr>) (ts_LastRunID t) (ts_AnchorRunSequence t)
            else TaskSessionRepo_UpdateIfAnchorOwner (a\<lparr>ts_RunsCount := delta\<rparr>) (ts_LastRunID t) (ts_AnchorRunSequence t)))"

definition write_session_ref :: "ExecutionRun \<Rightarrow> SessionUpdate \<Rightarrow> 'a UsageDb_scheme \<Rightarrow> (go_error + string) \<times> 'a UsageDb_scheme" where
  "write_session_ref r update =
     (if rn_SessionRef r = su_Ref update \<and> rn_SessionAfter r = su_Ref update then returnM (rn_WorkspaceID r)
      else if RunStatus_IsTerminal (rn_Status r) then failM (ErrValidation ''terminal run cannot change session ref'')
      else bindM (RunRepo_Update (r\<lparr>rn_SessionRef := su_Ref update, rn_SessionAfter := su_Ref update\<rparr>) (rn_Version r))
        (\<lambda>_. returnM (rn_WorkspaceID r)))"

text \<open>Without an adapter there is no session to clear or to write, only the reference of the run.\<close>

definition recordRunSessionUpdateTx ::
  "'a SessionS \<Rightarrow> UsageEnv \<Rightarrow> string \<Rightarrow> SessionUpdate \<Rightarrow> 'a UsageDb_scheme \<Rightarrow> (go_error + string) \<times> 'a UsageDb_scheme" where
  "recordRunSessionUpdateTx S E runID update =
     with_run runID (\<lambda>r w.
       bindM (taskSessionAnchorGate r) (\<lambda>g. case g of
         Closed \<Rightarrow> returnM (rn_WorkspaceID r)
       | Open owner snap \<Rightarrow>
           if su_Clear update then
             (case owner of
                None \<Rightarrow> returnM (rn_WorkspaceID r)
              | Some t \<Rightarrow> bindM (writeAnchorTombstoneForOwner t (su_ClearReason update)) (\<lambda>_. returnM (rn_WorkspaceID r)))
           else if su_Ref update = '''' then failM (ErrValidation ''session ref required'')
           else (case owner of
                   None \<Rightarrow> write_session_ref r update
                 | Some t \<Rightarrow> bindM (report_session S E r t snap update) (\<lambda>updated.
                     if \<not> updated then returnM (rn_WorkspaceID r) else write_session_ref r update))))"

definition RecordRunSessionUpdate ::
  "'a SessionS \<Rightarrow> UsageEnv \<Rightarrow> string \<Rightarrow> SessionUpdate \<Rightarrow> 'a UsageDb_scheme \<Rightarrow> (go_error + string) \<times> 'a UsageDb_scheme" where
  "RecordRunSessionUpdate S E runID update = InTx (recordRunSessionUpdateTx S E runID update)"

section \<open>Canonical usage of a run that ended\<close>

text \<open>\<^verbatim>\<open>governanceInt64\<close>: a whole number, however the JSON round trip left it.\<close>

definition governanceInt64 :: "goval option \<Rightarrow> int option" where
  "governanceInt64 v = (case v of
     Some (VInt64 i) \<Rightarrow> Some i
   | Some (VInt i) \<Rightarrow> Some i
   | Some (VFloat m e) \<Rightarrow> (if 0 \<le> e \<or> 2 ^ nat (- e) dvd m then Some (float_int64 m e) else None)
   | _ \<Rightarrow> None)"

definition runGovernanceTurnKey :: "ExecutionRun \<Rightarrow> TurnKey option" where
  "runGovernanceTurnKey r =
     (case map_of (rn_Input r) ''governance'' of
        Some (VMap g) \<Rightarrow>
          (case governanceInt64 (map_of g ''turn_seq'') of
             None \<Rightarrow> None
           | Some turnSeq \<Rightarrow>
               if string_or_empty g ''goal_id'' = '''' \<or> string_or_empty g ''todo_id'' = '''' then None
               else Some \<lparr>tk_GoalID = string_or_empty g ''goal_id'', tk_TodoID = string_or_empty g ''todo_id'', tk_TurnSeq = turnSeq\<rparr>)
      | _ \<Rightarrow> None)"

definition providerUsageSession :: "ExecutionRun \<Rightarrow> 'a UsageDb_scheme \<Rightarrow> (go_error + TaskSession option) \<times> 'a UsageDb_scheme" where
  "providerUsageSession r db =
     (case TaskSessionRepo_Get (rn_WorkspaceID r) (rn_AgentProfileID r) (rn_AdapterID r) (rn_WorkItemID r) db of
        (Inl e, db1) \<Rightarrow> (if e = ErrNotFound then Inr None else Inl e, db1)
      | (Inr t, db1) \<Rightarrow> (Inr (Some t), db1))"

definition or_unknown :: "string \<Rightarrow> string" where
  "or_unknown s = (if s = '''' then ''unknown'' else s)"

definition absentCanonicalUsage :: "ExecutionRun \<Rightarrow> CanonicalUsageV1" where
  "absentCanonicalUsage r =
     \<lparr>cu_SchemaVersion = CanonicalUsageSchemaVersionV1, cu_RunID = rn_ID r, cu_Basis = UsageBasisPerRun,
      cu_Counters = no_counters, cu_CostMicroUSD = None, cu_PriceDigest = '''', cu_ResolvedKinds = [],
      cu_UnresolvedKinds = [QuotaCacheReadTokens, QuotaCacheWriteTokens, QuotaInputTokensTotal, QuotaInputUncachedTokens, QuotaOutputTokens],
      cu_UnresolvedReason = ''provider did not report usage for this run'',
      cu_Provenance = \<lparr>pv_AdapterID = or_unknown (rn_AdapterID r), pv_Protocol = ''none'', pv_ProtocolVersion = ''none'',
        pv_Source = ''control_plane'', pv_ReportedBasis = UsageBasisPerRun, pv_AgentID = or_unknown (rn_AgentProfileID r),
        pv_SessionRef = '''', pv_Mapping = ''absent'', pv_AnchorBefore = None, pv_AnchorAfter = None, pv_AnchorGeneration = 0,
        pv_AnchorSequence = 0, pv_AnchorObservedAt = 0\<rparr>,
      cu_Digest = ''''\<rparr>"

definition appendUsageKindSorted :: "QuotaKind list \<Rightarrow> QuotaKind \<Rightarrow> QuotaKind list" where
  "appendUsageKindSorted kinds kind = sort_kinds (kinds @ [kind])"

definition appendUsageKindUniqueSorted :: "QuotaKind list \<Rightarrow> QuotaKind \<Rightarrow> QuotaKind list" where
  "appendUsageKindUniqueSorted kinds kind = (if containsQuotaKind kinds kind then kinds else appendUsageKindSorted kinds kind)"

definition joinUnresolvedReasons :: "string \<Rightarrow> string \<Rightarrow> string" where
  "joinUnresolvedReasons existing addition = (if existing = '''' then addition else existing @ ''; '' @ addition)"

fun CostUnresolvedReason_text :: "CostUnresolvedReason \<Rightarrow> string" where
  "CostUnresolvedReason_text CostUnresolvedPriceUnavailable = ''price_unavailable''"
| "CostUnresolvedReason_text CostUnresolvedMissingCounter = ''missing_counter''"
| "CostUnresolvedReason_text CostUnresolvedCacheSplit = ''cache_split_unavailable''"
| "CostUnresolvedReason_text CostUnresolvedCounterContradiction = ''counter_contradiction''"

definition CostUnresolvedError_Error :: "CostUnresolvedReason \<Rightarrow> string \<Rightarrow> string" where
  "CostUnresolvedError_Error reason message =
     (if message = '''' then ''cost usage unresolved: '' @ CostUnresolvedReason_text reason
      else ''cost usage unresolved ('' @ CostUnresolvedReason_text reason @ ''): '' @ message)"

text \<open>
  The cost is added to the counters when the run carries a price; what cannot be priced is a gap
  with its reason, and an overflow is an error.
\<close>

definition cost_gap :: "CanonicalUsageV1 \<Rightarrow> string \<Rightarrow> CanonicalUsageV1" where
  "cost_gap c reason = c\<lparr>cu_UnresolvedKinds := appendUsageKindUniqueSorted (cu_UnresolvedKinds c) QuotaCostMicroUSD,
     cu_UnresolvedReason := joinUnresolvedReasons (cu_UnresolvedReason c) (''cost_microusd: '' @ reason)\<rparr>"

definition stampCanonicalCostLocked ::
  "UsageEnv \<Rightarrow> ExecutionRun \<Rightarrow> CanonicalUsageV1 \<Rightarrow> bool \<Rightarrow> go_error + CanonicalUsageV1" where
  "stampCanonicalCostLocked E r c governed =
     (case PriceSnapshotFromRunInput (ue_Price E) (ue_DecodePrice E) (rn_Input r) of
        Inl e \<Rightarrow> Inl e
      | Inr None \<Rightarrow> Inr (if governed then cost_gap c ''price snapshot unavailable'' else c)
      | Inr (Some price) \<Rightarrow>
          (case ComputeCostMicroUSD (ue_Price E) (cu_Counters c) (Some price) of
             Inr cost \<Rightarrow> Inr (c\<lparr>cu_CostMicroUSD := Some cost, cu_PriceDigest := pr_Digest price,
               cu_ResolvedKinds := appendUsageKindSorted (cu_ResolvedKinds c) QuotaCostMicroUSD\<rparr>)
           | Inl (CostUnresolvedError reason message) \<Rightarrow>
               Inr (cost_gap (c\<lparr>cu_PriceDigest := pr_Digest price\<rparr>) (CostUnresolvedError_Error reason message))
           | Inl e \<Rightarrow> Inl (cost_error_unwrap e)))"

definition usage_request :: "ExecutionRun \<Rightarrow> ProviderUsageReportV1 \<Rightarrow> TaskSession option \<Rightarrow> time \<Rightarrow> CanonicalUsageRequestV1" where
  "usage_request r rep session now =
     \<lparr>rq_Report = Some rep, rq_Anchor = (case session of None \<Rightarrow> None | Some t \<Rightarrow> ts_ProviderUsageAnchor t),
      rq_RunID = rn_ID r, rq_AgentID = rn_AgentProfileID r, rq_AdapterID = pv_AdapterID (ur_Provenance rep), rq_SessionRef = '''',
      rq_ContextGeneration = (case session of None \<Rightarrow> 0 | Some t \<Rightarrow> ts_ContextGeneration t),
      rq_SegmentSeq = (case session of None \<Rightarrow> 1 | Some t \<Rightarrow> max 1 (ts_SegmentSeq t)),
      rq_AnchorOwnershipKnown = True,
      rq_AnchorOwnerRunID = (case session of None \<Rightarrow> '''' | Some t \<Rightarrow> ts_LastRunID t),
      rq_AnchorOwnerSequence = (case session of None \<Rightarrow> 0 | Some t \<Rightarrow> ts_AnchorRunSequence t),
      rq_FreshProviderSession = (rn_SessionBefore r = ''''), rq_ObservedAt = now\<rparr>"

text \<open>The canonical usage of a run with its cost, sealed, and the next baseline of its session.\<close>

definition canonical_of ::
  "UsageEnv \<Rightarrow> ExecutionRun \<Rightarrow> RunUsage \<Rightarrow> TaskSession option \<Rightarrow> bool \<Rightarrow> time \<Rightarrow>
   go_error + (CanonicalUsageV1 \<times> ProviderUsageAnchorV1 option) option" where
  "canonical_of E r u session allowAbsentEvidence now =
     (case (case us_Report u of
              Some rep \<Rightarrow> (case CanonicalizeProviderUsageV1 (ue_Report E) (ue_Usage E) (usage_request r rep session now) of
                Inl e \<Rightarrow> Inl e | Inr res \<Rightarrow> Inr (Some (rs_Canonical res, rs_NextAnchor res)))
            | None \<Rightarrow> Inr (if allowAbsentEvidence then Some (absentCanonicalUsage r, None) else None)) of
        Inl e \<Rightarrow> Inl e
      | Inr None \<Rightarrow> Inr None
      | Inr (Some (c, next)) \<Rightarrow>
          (case stampCanonicalCostLocked E r c (runGovernanceTurnKey r \<noteq> None) of
             Inl e \<Rightarrow> Inl e
           | Inr c \<Rightarrow> (case CanonicalUsage_Seal (ue_Usage E) c of Inl e \<Rightarrow> Inl e | Inr c \<Rightarrow> Inr (Some (c, next)))))"

definition advance_baseline ::
  "ExecutionRun \<Rightarrow> TaskSession option \<Rightarrow> ProviderUsageAnchorV1 option \<Rightarrow> 'a UsageDb_scheme \<Rightarrow> (go_error + bool) \<times> 'a UsageDb_scheme"
where
  "advance_baseline r session next =
     (case (next, session) of
        (Some a, Some t) \<Rightarrow>
          bindM (TaskSessionRepo_UpdateProviderUsageAnchorCAS (ts_WorkspaceID t) (ts_AgentProfileID t) (ts_AdapterID t) (ts_TaskKey t)
              a (ts_ProviderUsageAnchorSeq t) (rn_ID r) (ts_AnchorRunSequence t))
            (\<lambda>advanced. if advanced then returnM True else failM ErrVersionConflict)
      | _ \<Rightarrow> returnM True)"

definition canonicalizeRunUsageLocked ::
  "UsageEnv \<Rightarrow> string \<Rightarrow> bool \<Rightarrow> 'a UsageDb_scheme \<Rightarrow> (go_error + bool) \<times> 'a UsageDb_scheme" where
  "canonicalizeRunUsageLocked E runID allowAbsentEvidence =
     bindM (RunRepo_GetWithUsage (ue_Report E) (ue_Usage E) runID) (\<lambda>(r, u).
     if \<not> RunStatus_IsTerminal (rn_Status r) then returnM False
     else if us_Canonical u \<noteq> None then returnM True
     else bindM (if us_Report u = None then returnM None else providerUsageSession r) (\<lambda>session. readM nowM (\<lambda>now.
       case canonical_of E r u session allowAbsentEvidence now of
         Inl e \<Rightarrow> failM e
       | Inr None \<Rightarrow> returnM False
       | Inr (Some (c, next)) \<Rightarrow>
           bindM (RunRepo_UpdateWithUsage (ue_Report E) (ue_Usage E) r (u\<lparr>us_Canonical := Some c, us_CanonicalDigest := cu_Digest c\<rparr>) (rn_Version r))
             (\<lambda>_. advance_baseline r session next))))"

text \<open>The hook after the end of a run; its error is only logged.\<close>

definition maybeCanonicalizeRunUsage :: "UsageEnv \<Rightarrow> ExecutionRun \<Rightarrow> 'a UsageDb_scheme \<Rightarrow> (go_error + bool) \<times> 'a UsageDb_scheme" where
  "maybeCanonicalizeRunUsage E r =
     (if \<not> RunStatus_IsTerminal (rn_Status r) then returnM False else InTx (canonicalizeRunUsageLocked E (rn_ID r) False))"

section \<open>Reporting usage\<close>

definition validateRuntimeUsage :: "Usage \<Rightarrow> go_error option" where
  "validateRuntimeUsage usage = first_error
     [require (0 \<le> rt_InputTokens usage \<and> 0 \<le> rt_OutputTokens usage \<and> 0 \<le> rt_CachedTokens usage)
        (ErrValidation ''runtime usage counters must be non-negative''),
      require (rt_Basis usage = UsageBasisPerRun \<or> rt_Basis usage = UsageBasisSessionCumulative)
        (ErrValidation ''runtime usage basis is invalid''),
      (case rt_ProviderReport usage of None \<Rightarrow> None
       | Some rep \<Rightarrow> require (rt_Basis usage = ur_Basis rep) (ErrValidation ''runtime usage basis differs from provider report''))]"

text \<open>The report of a provider is bound to its run; a new one takes the next sequence number.\<close>

definition bindProviderUsageReport :: "UsageEnv \<Rightarrow> ExecutionRun \<Rightarrow> RunUsage \<Rightarrow> ProviderUsageReportV1 \<Rightarrow> go_error + RunUsage" where
  "bindProviderUsageReport E r u rep =
     (case first_error
        [wrapV ''provider usage report digest'' (ProviderUsageReport_VerifyDigest (ue_Report E) (Some rep)),
         require (ur_RunID rep = rn_ID r) (ErrValidation ''provider usage report run identity mismatch''),
         require (rn_AgentProfileID r = '''' \<or> pv_AgentID (ur_Provenance rep) = rn_AgentProfileID r)
           (ErrValidation ''provider usage report agent identity mismatch''),
         require (rn_AdapterID r = '''' \<or> pv_AdapterID (ur_Provenance rep) = rn_AdapterID r)
           (ErrValidation ''provider usage report adapter identity mismatch'')] of
        Some e \<Rightarrow> Inl e
      | None \<Rightarrow> Inr
          (if us_Canonical u \<noteq> None then u
           else case us_Report u of
             None \<Rightarrow> u\<lparr>us_Report := Some rep, us_ReportDigest := ur_Digest rep, us_ReportSeq := 1\<rparr>
           | Some old \<Rightarrow>
               if ur_Digest old = ur_Digest rep then u
               else u\<lparr>us_Report := Some rep, us_ReportDigest := ur_Digest rep, us_ReportSeq := inc64 (us_ReportSeq u)\<rparr>))"

text \<open>The checks of a report against what the run has reported before.\<close>

definition usage_monotone :: "RunUsage \<Rightarrow> Usage \<Rightarrow> go_error option" where
  "usage_monotone u usage = first_error
     [require (us_Basis u = '''' \<or> us_Basis u = rt_Basis usage) (ErrValidation ''usage basis cannot change within run''),
      require (\<not> (us_Basis u = UsageBasisPerRun \<and>
         (rt_InputTokens usage < us_In u \<or> rt_OutputTokens usage < us_Out u \<or> rt_CachedTokens usage < us_Cached u)))
        (ErrValidation ''per-run usage counters cannot regress for run'')]"

definition with_usage :: "RunUsage \<Rightarrow> Usage \<Rightarrow> RunUsage" where
  "with_usage u usage = u\<lparr>us_In := rt_InputTokens usage, us_Out := rt_OutputTokens usage,
     us_Cached := rt_CachedTokens usage, us_Basis := rt_Basis usage\<rparr>"

text \<open>What a report adds to the input tokens of the session: the growth since the last one.\<close>

definition token_delta :: "RunUsage \<Rightarrow> Usage \<Rightarrow> int" where
  "token_delta u usage = wrap64 (rt_InputTokens usage - (if us_Basis u = UsageBasisPerRun then us_In u else 0))"

definition recordRunUsageTx ::
  "'a SessionS \<Rightarrow> UsageEnv \<Rightarrow> string \<Rightarrow> Usage \<Rightarrow> 'a UsageDb_scheme \<Rightarrow> (go_error + string) \<times> 'a UsageDb_scheme" where
  "recordRunUsageTx S E runID usage =
     bindM (checkM (validateRuntimeUsage usage)) (\<lambda>_.
     bindM (RunRepo_GetWithUsage (ue_Report E) (ue_Usage E) runID) (\<lambda>(r, u).
     bindM (WorkItemRepo_Get (rn_WorkItemID r)) (\<lambda>w.
     bindM (checkM (requireValidWorkItemRecordKind w)) (\<lambda>_.
     bindM (checkM (usage_monotone u usage)) (\<lambda>_.
     case (case rt_ProviderReport usage of
             None \<Rightarrow> Inr (with_usage u usage) | Some rep \<Rightarrow> bindProviderUsageReport E r (with_usage u usage) rep) of
       Inl e \<Rightarrow> failM e
     | Inr u' \<Rightarrow>
         bindM (RunRepo_UpdateWithUsage (ue_Report E) (ue_Usage E) r u' (rn_Version r)) (\<lambda>_.
         bindM (emit_run S r ''usage.updated'' (wrap64 (rn_Version r + 1))
           [(''usage_in'', VInt64 (rt_InputTokens usage)), (''usage_out'', VInt64 (rt_OutputTokens usage)),
            (''usage_cached'', VInt64 (rt_CachedTokens usage)), (''usage_basis'', VStr (rt_Basis usage)),
            (''record_kind'', Runs.kind_value w)]) (\<lambda>_.
         bindM (if rn_AdapterID r \<noteq> '''' \<and> rt_Basis usage = UsageBasisPerRun \<and> token_delta u usage > 0
                then TaskSessionRepo_AddInputTokens (rn_WorkspaceID r) (rn_AgentProfileID r) (rn_AdapterID r) (rn_WorkItemID r) (token_delta u usage)
                else returnM ()) (\<lambda>_.
         bindM (if RunStatus_IsTerminal (rn_Status r) \<and> us_Canonical u' = None
                then bindM (canonicalizeRunUsageLocked E runID False) (\<lambda>_. returnM ()) else returnM ()) (\<lambda>_.
         returnM (rn_WorkspaceID r))))))))))"

definition RecordRunUsage ::
  "'a SessionS \<Rightarrow> UsageEnv \<Rightarrow> string \<Rightarrow> Usage \<Rightarrow> 'a UsageDb_scheme \<Rightarrow> (go_error + string) \<times> 'a UsageDb_scheme" where
  "RecordRunUsage S E runID usage = InTx (recordRunUsageTx S E runID usage)"

section \<open>Resuming a session\<close>

definition RotationMaxRuns :: int where "RotationMaxRuns = 40"
definition RotationMaxInputTokens :: int where "RotationMaxInputTokens = 1000000"
definition RotationMaxAge :: int where "RotationMaxAge = 259200000000000"

definition shouldRotateSession :: "TaskSession \<Rightarrow> time \<Rightarrow> bool" where
  "shouldRotateSession t now \<longleftrightarrow> ts_RunsCount t \<ge> RotationMaxRuns \<or> ts_InputTokensCum t \<ge> RotationMaxInputTokens \<or>
     \<not> IsZero (ts_CreatedAt t) \<and> now - ts_CreatedAt t \<ge> RotationMaxAge"

datatype resumeOutcome = resumeOutcomeNone | resumeOutcomeHit | resumeOutcomeRotate | resumeOutcomeDrift | resumeOutcomeTombstone

definition resumablePreviousRun :: "ExecutionRun list \<Rightarrow> string \<Rightarrow> string \<Rightarrow> string \<Rightarrow> ExecutionRun option" where
  "resumablePreviousRun runs adapterID runtimeLabel configDigest =
     (case rev runs of
        [] \<Rightarrow> None
      | previous # _ \<Rightarrow>
          if rn_Status previous \<noteq> RunSucceeded \<or> TrimSpace (rn_SessionRef previous) = '''' then None
          else if adapterID \<noteq> '''' \<and> rn_AdapterID previous \<noteq> '''' \<and> rn_AdapterID previous \<noteq> adapterID then None
          else if rn_RuntimeLabel previous \<noteq> runtimeLabel then None
          else let previousDigest = string_or_empty (conversationOf previous) ''config_digest''
               in if previousDigest = '''' \<or> previousDigest \<noteq> configDigest then None else Some previous)"

text \<open>What the stored session says: the reference, the run it came from, and the outcome.\<close>

definition resume_stored :: "TaskSession \<Rightarrow> string \<Rightarrow> time \<Rightarrow> string \<times> string \<times> resumeOutcome" where
  "resume_stored t fingerprint now =
     (let ref = TaskSession_SessionRef t
      in if ref \<noteq> '''' \<and> TaskSession_Fingerprint t = fingerprint then
           (if shouldRotateSession t now then ('''', '''', resumeOutcomeRotate)
            else (ref, string_or_empty (ts_SessionParams t) ''__from_run_id'', resumeOutcomeHit))
         else if ref = '''' then ('''', '''', resumeOutcomeTombstone)
         else ('''', '''', resumeOutcomeDrift))"

text \<open>Without a stored session, the last run's reference is taken over and written as one.\<close>

definition seed_session ::
  "'a SessionS \<Rightarrow> WorkItem \<Rightarrow> string \<Rightarrow> string \<Rightarrow> string \<Rightarrow> ExecutionRun option \<Rightarrow> 'a UsageDb_scheme \<Rightarrow>
   (go_error + string \<times> string \<times> resumeOutcome) \<times> 'a UsageDb_scheme" where
  "seed_session S w agentProfileID adapterID fingerprint previous =
     (case previous of
        None \<Rightarrow> returnM ('''', '''', resumeOutcomeNone)
      | Some p \<Rightarrow>
          bindM (build_session S (wi_WorkspaceID w) agentProfileID adapterID (wi_ID w)
              [(''__ref'', VStr (rn_SessionRef p)), (''__fingerprint'', VStr fingerprint)]) (\<lambda>t.
          bindM (tryM (TaskSessionRepo_Upsert t)) (\<lambda>_. returnM (rn_SessionRef p, rn_ID p, resumeOutcomeHit))))"

definition resolveResume ::
  "'a SessionS \<Rightarrow> WorkItem \<Rightarrow> string \<Rightarrow> string \<Rightarrow> string \<Rightarrow> string \<Rightarrow> string \<Rightarrow> ExecutionRun list \<Rightarrow>
   'a UsageDb_scheme \<Rightarrow> (go_error + string \<times> string \<times> resumeOutcome) \<times> 'a UsageDb_scheme" where
  "resolveResume S w agentProfileID adapterID runtimeLabel fingerprint configDigest previousRuns =
     (if adapterID = '''' then returnM ('''', '''', resumeOutcomeNone)
      else bindM (tryM (TaskSessionRepo_Get (wi_WorkspaceID w) agentProfileID adapterID (wi_ID w))) (\<lambda>stored.
        (case stored of
           Some t \<Rightarrow> readM nowM (\<lambda>now. returnM (resume_stored t fingerprint now))
         | None \<Rightarrow> seed_session S w agentProfileID adapterID fingerprint
             (resumablePreviousRun previousRuns adapterID runtimeLabel configDigest))))"

section \<open>The sessions of an agent\<close>

fun visible_sessions :: "string \<Rightarrow> TaskSession list \<Rightarrow> 'a UsageDb_scheme \<Rightarrow> (go_error + TaskSession list) \<times> 'a UsageDb_scheme" where
  "visible_sessions ws [] = returnM []"
| "visible_sessions ws (t # ts) = (\<lambda>db. case WorkItemRepo_Get (ts_TaskKey t) db of
     (Inl e, db1) \<Rightarrow> if e = ErrNotFound then visible_sessions ws ts db1 else (Inl e, db1)
   | (Inr w, db1) \<Rightarrow>
       if wi_WorkspaceID w \<noteq> ws \<or> \<not> isTaskWorkItem w then visible_sessions ws ts db1
       else bindM (visible_sessions ws ts) (\<lambda>rest. returnM (t # rest)) db1)"

definition TaskSessionsByAgent :: "string \<Rightarrow> string \<Rightarrow> 'a UsageDb_scheme \<Rightarrow> (go_error + TaskSession list) \<times> 'a UsageDb_scheme" where
  "TaskSessionsByAgent ws agentProfileID = bindM (TaskSessionRepo_ListByAgent ws agentProfileID) (visible_sessions ws)"

end
