(* ===== verification/RunnerEvents.thy ===== *)
theory RunnerEvents
  imports Sessions
begin

text \<open>
  What a runner may report, of \<^verbatim>\<open>application/runner_events.go\<close>: the parsing of the data of a frame, the
  check of its lease, fencing token and number, what each kind of frame does to its run, the handling
  of poison frames, and the answers of a runner to an offered run.
\<close>

section \<open>The values of a frame\<close>

text \<open>
  \<^verbatim>\<open>float64(n)\<close> of an integer rounds to 53 bits, to even in the middle; a \<open>dyadic\<close> \<open>(m, e)\<close> stands for \<open>m * 2 ^ e\<close>.
\<close>

type_synonym dyadic = "int \<times> int"

definition excess_bits :: "int \<Rightarrow> nat" where
  "excess_bits n = length (takeWhile (\<lambda>k. 9007199254740992 \<le> \<bar>n\<bar> div 2 ^ k) [0..<12])"

definition round_even :: "int \<Rightarrow> nat \<Rightarrow> int" where
  "round_even n k = (if k = 0 then n else
     let q = n div 2 ^ k; rest = n mod 2 ^ k; half = 2 ^ (k - 1)
     in if rest > half \<or> rest = half \<and> odd q then q + 1 else q)"

definition float64_of :: "int \<Rightarrow> dyadic" where
  "float64_of n = (sgn n * round_even \<bar>n\<bar> (excess_bits n), int (excess_bits n))"

definition dyadic_le :: "dyadic \<Rightarrow> int \<Rightarrow> bool" where
  "dyadic_le x n \<longleftrightarrow> (case x of (m, e) \<Rightarrow> if 0 \<le> e then m * 2 ^ nat e \<le> n else m \<le> n * 2 ^ nat (- e))"

definition dyadic_ge :: "dyadic \<Rightarrow> int \<Rightarrow> bool" where
  "dyadic_ge x n \<longleftrightarrow> (case x of (m, e) \<Rightarrow> if 0 \<le> e then n \<le> m * 2 ^ nat e else n * 2 ^ nat (- e) \<le> m)"

definition dyadic_whole :: "dyadic \<Rightarrow> bool" where
  "dyadic_whole x \<longleftrightarrow> (case x of (m, e) \<Rightarrow> 0 \<le> e \<or> 2 ^ nat (- e) dvd m)"

fun runnerFloat :: "goval option \<Rightarrow> dyadic option" where
  "runnerFloat (Some (VFloat m e)) = Some (m, e)"
| "runnerFloat (Some (VInt n)) = Some (float64_of n)"
| "runnerFloat (Some (VInt64 n)) = Some (float64_of n)"
| "runnerFloat _ = None"

definition runnerNonNegativeInt :: "gomap \<Rightarrow> string \<Rightarrow> int option" where
  "runnerNonNegativeInt data key =
     (case runnerFloat (map_of data key) of
        None \<Rightarrow> None
      | Some v \<Rightarrow>
          if \<not> dyadic_ge v 0 \<or> \<not> dyadic_whole v \<or> dyadic_ge v 9223372036854775808 then None
          else Some (float_int64 (fst v) (snd v)))"

definition hex_char :: "char \<Rightarrow> bool" where
  "hex_char c \<longleftrightarrow> c \<in> set ''0123456789abcdefABCDEF''"

definition runnerSHA256 :: "string \<Rightarrow> bool" where
  "runnerSHA256 v \<longleftrightarrow> length v = 64 \<and> list_all hex_char v"

text \<open>A field that is there must have its type.\<close>

definition str_field :: "gomap \<Rightarrow> string \<Rightarrow> string option" where
  "str_field data k = (case map_of data k of None \<Rightarrow> Some '''' | Some (VStr s) \<Rightarrow> Some s | _ \<Rightarrow> None)"

definition bool_field :: "gomap \<Rightarrow> string \<Rightarrow> bool option" where
  "bool_field data k = (case map_of data k of None \<Rightarrow> Some False | Some (VBool b) \<Rightarrow> Some b | _ \<Rightarrow> None)"

definition map_field :: "gomap \<Rightarrow> string \<Rightarrow> gomap option" where
  "map_field data k = (case map_of data k of None \<Rightarrow> Some [] | Some (VMap m) \<Rightarrow> Some m | _ \<Rightarrow> None)"

definition parseRunnerSession :: "gomap \<Rightarrow> SessionUpdate option" where
  "parseRunnerSession data =
     (case (str_field data ''ref'', str_field data ''display_id'', bool_field data ''clear'', str_field data ''clear_reason'', map_field data ''params'') of
        (Some ref, Some displayID, Some clear, Some reason, Some params) \<Rightarrow>
          if \<not> clear \<and> ref = '''' then None
          else Some \<lparr>su_Ref = ref, su_Params = params, su_DisplayID = displayID, su_Clear = clear, su_ClearReason = reason\<rparr>
      | _ \<Rightarrow> None)"

text \<open>The usage of a frame, with its report if it has one and the report verifies.\<close>

definition frame_report :: "UsageEnv \<Rightarrow> gomap \<Rightarrow> ProviderUsageReportV1 option option" where
  "frame_report E data =
     (case map_of data ''provider_report'' of
        None \<Rightarrow> Some None
      | Some raw \<Rightarrow>
          (case ue_DecodeReport E raw of
             None \<Rightarrow> None
           | Some rep \<Rightarrow> if ProviderUsageReport_VerifyDigest (ue_Report E) (Some rep) = None then Some (Some rep) else None))"

definition parse_usage :: "UsageEnv \<Rightarrow> gomap \<Rightarrow> Usage option" where
  "parse_usage E data =
     (case (runnerNonNegativeInt data ''input_tokens'', runnerNonNegativeInt data ''output_tokens'',
            runnerNonNegativeInt data ''cached_tokens'', get_string data ''basis'') of
        (Some i, Some out, Some c, Some basis) \<Rightarrow>
          if basis \<noteq> UsageBasisPerRun \<and> basis \<noteq> UsageBasisSessionCumulative then None
          else (case frame_report E data of None \<Rightarrow> None
            | Some rep \<Rightarrow> Some \<lparr>rt_InputTokens = i, rt_OutputTokens = out, rt_CachedTokens = c, rt_Basis = basis, rt_ProviderReport = rep\<rparr>)
      | _ \<Rightarrow> None)"

text \<open>An approval: its kind, risk, summary and the id the runner gave it.\<close>

definition parse_approval :: "gomap \<Rightarrow> (string \<times> string \<times> string \<times> string) option" where
  "parse_approval data =
     (case (get_string data ''kind'', get_string data ''risk'', get_string data ''summary'') of
        (Some kind, Some risk, Some summary) \<Rightarrow>
          if kind = '''' \<or> risk \<notin> {''low'', ''medium'', ''high''} \<or> string_or_empty data ''approval_id'' = '''' then None
          else Some (kind, risk, summary, string_or_empty data ''approval_id'')
      | _ \<Rightarrow> None)"

definition blank_artifact :: Artifact where
  "blank_artifact = \<lparr>at_ID = '''', at_RunID = '''', at_LogicalPath = '''', at_Mime = '''', at_Size = 0, at_Sha256 = '''',
     at_Classification = '''', at_Status = ArtifactStatusOther '''', at_StorageRef = '''', at_CreatedAt = 0\<rparr>"

definition parse_artifact :: "gomap \<Rightarrow> Artifact option" where
  "parse_artifact data =
     (case (get_string data ''sha256'', get_string data ''logical_path'', runnerNonNegativeInt data ''size'', get_string data ''mime'') of
        (Some sha, Some path, Some sz, Some mime) \<Rightarrow>
          if \<not> runnerSHA256 sha \<or> path = '''' then None
          else Some (blank_artifact\<lparr>at_Sha256 := sha, at_LogicalPath := path, at_Size := sz, at_Mime := mime\<rparr>)
      | _ \<Rightarrow> None)"

definition RunStatus_of :: "string \<Rightarrow> RunStatus" where
  "RunStatus_of s =
     (case List.find (\<lambda>x. RunStatus_text x = s)
        [RunQueued, RunStarting, RunRunning, RunWaitingApproval, RunInterrupting, RunCancelling, RunReconnecting, RunSucceeding,
         RunSucceeded, RunInterrupted, RunCancelled, RunLost, RunFailed] of Some x \<Rightarrow> x | None \<Rightarrow> RunStatusOther s)"

section \<open>Frames of a runner\<close>

record RunnerEventInput =
  rv_RunID :: string
  rv_LeaseID :: string
  rv_RunnerID :: string
  rv_FencingToken :: int
  rv_EventID :: string
  rv_ProducerSeq :: int
  rv_Kind :: string
  rv_Data :: gomap

datatype RunnerEventOutcome = RunnerEventApplied | RunnerEventDuplicate | RunnerEventStale

record RunnerEventAck =
  rk_RunID :: string
  rk_LeaseID :: string
  rk_RunnerID :: string
  rk_FencingToken :: int
  rk_AckedProducerSeq :: int
  rk_EventID :: string
  rk_Outcome :: RunnerEventOutcome

definition ack_of :: "RunnerEventInput \<Rightarrow> RunnerEventOutcome \<Rightarrow> RunnerEventAck" where
  "ack_of inp outcome = \<lparr>rk_RunID = rv_RunID inp, rk_LeaseID = rv_LeaseID inp, rk_RunnerID = rv_RunnerID inp,
     rk_FencingToken = rv_FencingToken inp, rk_AckedProducerSeq = rv_ProducerSeq inp, rk_EventID = rv_EventID inp,
     rk_Outcome = outcome\<rparr>"

definition errDuplicateRunnerEvent :: go_error where
  "errDuplicateRunnerEvent = ErrOther ''runner event duplicate''"

definition activeLeaseMatches :: "RunLease \<Rightarrow> string \<Rightarrow> string \<Rightarrow> int \<Rightarrow> bool" where
  "activeLeaseMatches l leaseID runnerID fencing \<longleftrightarrow>
     \<not> ls_Released l \<and> ls_LeaseID l = leaseID \<and> ls_RunnerID l = runnerID \<and> ls_FencingToken l = fencing"

definition LateTerminalObservationKind :: "string \<Rightarrow> bool" where
  "LateTerminalObservationKind kind \<longleftrightarrow> kind \<in> {''usage.updated'', ''run.phase_entered'', ''run.phase_closed''}"

text \<open>A late observation: the frame names a released lease exactly, and its run has ended.\<close>

definition releasedLeaseObservationAllowed :: "RunnerEventInput \<Rightarrow> 'a UsageDb_scheme \<Rightarrow> (go_error + bool) \<times> 'a UsageDb_scheme" where
  "releasedLeaseObservationAllowed inp db =
     (case RunnerRepo_GetLease (rv_LeaseID inp) db of
        (Inl e, db1) \<Rightarrow> (if e = ErrNotFound then Inr False else Inl e, db1)
      | (Inr l, db1) \<Rightarrow>
          if \<not> ls_Released l \<or> ls_RunID l \<noteq> rv_RunID inp \<or> ls_RunnerID l \<noteq> rv_RunnerID inp \<or> ls_FencingToken l \<noteq> rv_FencingToken inp
          then (Inr False, db1)
          else bindM (RunRepo_Get (rv_RunID inp)) (\<lambda>r. returnM (RunStatus_IsTerminal (rn_Status r))) db1)"

text \<open>The check of the lease: whether the frame counts.\<close>

definition frame_admitted :: "RunnerEventInput \<Rightarrow> 'a UsageDb_scheme \<Rightarrow> (go_error + bool) \<times> 'a UsageDb_scheme" where
  "frame_admitted inp =
     bindM (RunnerRepo_ActiveLease (rv_RunID inp)) (\<lambda>l.
     if activeLeaseMatches l (rv_LeaseID inp) (rv_RunnerID inp) (rv_FencingToken inp) then returnM True
     else if \<not> LateTerminalObservationKind (rv_Kind inp) then returnM False
     else releasedLeaseObservationAllowed inp)"

definition dedup_frame :: "RunnerEventInput \<Rightarrow> 'a UsageDb_scheme \<Rightarrow> (go_error + unit) \<times> 'a UsageDb_scheme" where
  "dedup_frame inp db =
     (case RunnerRepo_RunnerEventDedupV2 (rv_RunID inp) (rv_LeaseID inp) (rv_RunnerID inp) (rv_ProducerSeq inp) db of
        (Inl e, db1) \<Rightarrow> (Inl (if e = ErrIdempotencyConflict then errDuplicateRunnerEvent else e), db1)
      | (Inr _, db1) \<Rightarrow> (Inr (), db1))"

section \<open>What a frame does\<close>

text \<open>
  A frame is poison when it can never be applied; otherwise it says whether it ended the run, and
  the approval it asked for.
\<close>

datatype effect_of_frame = Poison | Done bool "(ApprovalRequest \<times> ApprovalGrant option) option"

definition is_transition_error :: "go_error \<Rightarrow> bool" where
  "is_transition_error e = (case e of ErrTransition _ _ _ \<Rightarrow> True | _ \<Rightarrow> False)"

definition apply_status ::
  "'a SessionS \<Rightarrow> ExecutionRun \<Rightarrow> gomap \<Rightarrow> 'a UsageDb_scheme \<Rightarrow> (go_error + effect_of_frame) \<times> 'a UsageDb_scheme" where
  "apply_status S r data =
     (let statusName = string_or_empty data ''status''; to = RunStatus_of statusName
      in if statusName = '''' then returnM Poison
         else (\<lambda>db. case transitionRunLocked S r to data db of
           (Inl e, db1) \<Rightarrow> (if is_transition_error e then Inr Poison else Inl e, db1)
         | (Inr _, db1) \<Rightarrow> (Inr (Done (RunStatus_IsTerminal to) None), db1)))"

definition apply_progress ::
  "'a SessionS \<Rightarrow> string \<Rightarrow> gomap \<Rightarrow> 'a UsageDb_scheme \<Rightarrow> (go_error + effect_of_frame) \<times> 'a UsageDb_scheme" where
  "apply_progress S runID data =
     (case runnerFloat (map_of data ''progress'') of
        None \<Rightarrow> returnM Poison
      | Some (m, e) \<Rightarrow>
          if \<not> dyadic_ge (m, e) 0 \<or> \<not> dyadic_le (m, e) 1 then returnM Poison
          else bindM (recordRunProgressTx S runID (VFloat m e)) (\<lambda>_. returnM (Done False None)))"

definition apply_kind ::
  "'a SessionS \<Rightarrow> UsageEnv \<Rightarrow> RunnerEventInput \<Rightarrow> ExecutionRun \<Rightarrow> 'a UsageDb_scheme \<Rightarrow> (go_error + effect_of_frame) \<times> 'a UsageDb_scheme"
where
  "apply_kind S E inp r =
     (let data = rv_Data inp; runID = rv_RunID inp
      in if rv_Kind inp = ''run.status_changed'' then apply_status S r data
         else if rv_Kind inp = ''run.progress_updated'' then apply_progress S runID data
         else if rv_Kind inp = ''run.session'' then
           (case parseRunnerSession data of
              None \<Rightarrow> returnM Poison
            | Some update \<Rightarrow> bindM (recordRunSessionUpdateTx S E runID update) (\<lambda>_. returnM (Done False None)))
         else if rv_Kind inp = ''usage.updated'' then
           (case parse_usage E data of
              None \<Rightarrow> returnM Poison
            | Some usage \<Rightarrow> bindM (recordRunUsageTx S E runID usage) (\<lambda>_. returnM (Done False None)))
         else if rv_Kind inp = ''approval.requested'' then
           (case parse_approval data of
              None \<Rightarrow> returnM Poison
            | Some (kind, risk, summary, approvalID) \<Rightarrow>
                bindM (requestApprovalTx S runID kind risk summary approvalID) (\<lambda>a. returnM (Done False (Some a))))
         else if rv_Kind inp = ''artifact.manifest'' then
           (case parse_artifact data of
              None \<Rightarrow> returnM Poison
            | Some art \<Rightarrow> bindM (recordArtifactTx S runID art) (\<lambda>_. returnM (Done False None)))
         else if \<not> IsKnownEventName (rv_Kind inp) then returnM Poison
         else bindM (recordRunEventTx S runID (rv_Kind inp) data) (\<lambda>_. returnM (Done False None)))"

text \<open>The message of the failure keeps its constant part.\<close>

definition invalid_data :: gomap where
  "invalid_data =
     [(''code'', VStr ''runner_event_invalid''), (''retryable'', VBool False),
      (''message'', VStr ([CHR 0xE9, CHR 0x9D, CHR 0x9E, CHR 0xE6, CHR 0xB3, CHR 0x95] @ '' Runner '' @ [CHR 0xE4, CHR 0xBA, CHR 0x8B, CHR 0xE4, CHR 0xBB, CHR 0xB6])), (''family'', VStr ''internal'')]"

text \<open>A poison frame fails its run, unless it has ended, and leaves an audit row.\<close>

definition poison_run :: "'a SessionS \<Rightarrow> RunnerEventInput \<Rightarrow> 'a UsageDb_scheme \<Rightarrow> (go_error + unit) \<times> 'a UsageDb_scheme" where
  "poison_run S inp =
     bindM (RunRepo_Get (rv_RunID inp)) (\<lambda>r.
     bindM (if RunStatus_IsTerminal (rn_Status r) then returnM () else transitionRunLocked S r RunFailed invalid_data) (\<lambda>_.
     audit (rn_WorkspaceID r) ''runner.event_invalid'' (rv_RunID inp)
       [(''kind'', VStr (rv_Kind inp)), (''event_id'', VStr (rv_EventID inp)), (''producer_seq'', VInt64 (rv_ProducerSeq inp)),
        (''lease_id'', VStr (rv_LeaseID inp)), (''runner_id'', VStr (rv_RunnerID inp))]))"

definition release_now :: "string \<Rightarrow> 'a UsageDb_scheme \<Rightarrow> (go_error + unit) \<times> 'a UsageDb_scheme" where
  "release_now leaseID = readM nowM (\<lambda>now. RunnerRepo_ReleaseLease leaseID now)"

text \<open>What follows the commit gets whether the run counts as ended, and the approval.\<close>

type_synonym followup = "RunnerEventOutcome \<times> bool \<times> (ApprovalRequest \<times> ApprovalGrant option) option"

definition finish_frame ::
  "'a SessionS \<Rightarrow> RunnerEventInput \<Rightarrow> effect_of_frame \<Rightarrow> 'a UsageDb_scheme \<Rightarrow> (go_error + followup) \<times> 'a UsageDb_scheme" where
  "finish_frame S inp eff =
     (case eff of
        Poison \<Rightarrow> bindM (poison_run S inp) (\<lambda>_. bindM (release_now (rv_LeaseID inp)) (\<lambda>_. returnM (RunnerEventApplied, True, None)))
      | Done ended approval \<Rightarrow>
          bindM (if ended then release_now (rv_LeaseID inp) else returnM ()) (\<lambda>_. returnM (RunnerEventApplied, ended, approval)))"

definition apply_admitted ::
  "'a SessionS \<Rightarrow> UsageEnv \<Rightarrow> RunnerEventInput \<Rightarrow> 'a UsageDb_scheme \<Rightarrow> (go_error + followup) \<times> 'a UsageDb_scheme" where
  "apply_admitted S E inp =
     bindM (dedup_frame inp) (\<lambda>_. with_run (rv_RunID inp) (\<lambda>r w. bindM (apply_kind S E inp r) (finish_frame S inp)))"

definition apply_frame ::
  "'a SessionS \<Rightarrow> UsageEnv \<Rightarrow> RunnerEventInput \<Rightarrow> 'a UsageDb_scheme \<Rightarrow> (go_error + followup) \<times> 'a UsageDb_scheme" where
  "apply_frame S E inp =
     bindM (frame_admitted inp) (\<lambda>admitted.
       if admitted then apply_admitted S E inp else returnM (RunnerEventStale, False, None))"

definition ApplyRunnerEvent ::
  "'a SessionS \<Rightarrow> UsageEnv \<Rightarrow> RunnerEventInput \<Rightarrow>
   'a UsageDb_scheme \<Rightarrow> (go_error + RunnerEventAck \<times> bool \<times> (ApprovalRequest \<times> ApprovalGrant option) option) \<times> 'a UsageDb_scheme" where
  "ApplyRunnerEvent S E inp db =
     (case InTx (apply_frame S E inp) db of
        (Inl e, db1) \<Rightarrow> (if e = errDuplicateRunnerEvent then Inr (ack_of inp RunnerEventDuplicate, False, None) else Inl e, db1)
      | (Inr (outcome, ended, approval), db1) \<Rightarrow> (Inr (ack_of inp outcome, ended, approval), db1))"

section \<open>Accepting and rejecting a run\<close>

record RunnerAcceptInput =
  rc_RunID :: string
  rc_LeaseID :: string
  rc_RunnerID :: string
  rc_FencingToken :: int
  rc_SnapshotDigest :: string

record RunnerRejectInput =
  rj_RunID :: string
  rj_LeaseID :: string
  rj_RunnerID :: string
  rj_FencingToken :: int
  rj_ReasonCode :: string
  rj_ReasonFamily :: string
  rj_ReasonMessage :: string

definition ErrWorkspaceContextMismatch :: go_error where
  "ErrWorkspaceContextMismatch = ErrOther ''workspace_context_mismatch''"

definition ApplyRunnerAccept :: "RunnerAcceptInput \<Rightarrow> 'a UsageDb_scheme \<Rightarrow> (go_error + unit) \<times> 'a UsageDb_scheme" where
  "ApplyRunnerAccept inp = InTx
     (bindM (RunnerRepo_ActiveLease (rc_RunID inp)) (\<lambda>l.
      if \<not> activeLeaseMatches l (rc_LeaseID inp) (rc_RunnerID inp) (rc_FencingToken inp) then returnM ()
      else bindM (RunRepo_Get (rc_RunID inp)) (\<lambda>r.
      if RunStatus_IsTerminal (rn_Status r) then returnM ()
      else bindM (ContextSnapshotRepo_GetByRun (rc_RunID inp)) (\<lambda>snap.
      if rc_SnapshotDigest inp \<noteq> '''' \<and> rc_SnapshotDigest inp \<noteq> sn_SnapshotDigest snap then
        bindM (audit (rn_WorkspaceID r) ''runner.accept_digest_mismatch'' (rc_RunID inp)
          [(''offered'', VStr (rc_SnapshotDigest inp)), (''snapshot'', VStr (sn_SnapshotDigest snap)),
           (''runner_id'', VStr (rc_RunnerID inp)), (''lease_id'', VStr (rc_LeaseID inp))]) (\<lambda>_. failM ErrWorkspaceContextMismatch)
      else audit (rn_WorkspaceID r) ''runner.accepted'' (rc_RunID inp)
          [(''runner_id'', VStr (rc_RunnerID inp)), (''lease_id'', VStr (rc_LeaseID inp)),
           (''fencing_token'', VInt64 (rc_FencingToken inp)), (''snapshot_id'', VStr (sn_ID snap)),
           (''digest'', VStr (sn_SnapshotDigest snap))]))))"

definition reject_data :: "RunnerRejectInput \<Rightarrow> gomap" where
  "reject_data inp =
     [(''code'', VStr (rj_ReasonCode inp)), (''message'', VStr (rj_ReasonMessage inp)), (''retryable'', VBool True),
      (''family'', VStr (if rj_ReasonFamily inp = '''' then rj_ReasonCode inp else rj_ReasonFamily inp))]"

text \<open>Whether the rejection failed the run; one that comes too late only releases the lease.\<close>

definition reject_run :: "'a SessionS \<Rightarrow> RunnerRejectInput \<Rightarrow> ExecutionRun \<Rightarrow> 'a UsageDb_scheme \<Rightarrow> (go_error + bool) \<times> 'a UsageDb_scheme"
where
  "reject_run S inp r db =
     (case transitionRunLocked S r RunFailed (reject_data inp) db of
        (Inl e, db1) \<Rightarrow> (if is_transition_error e then Inr False else Inl e, db1)
      | (Inr _, db1) \<Rightarrow> (Inr True, db1))"

definition ApplyRunnerReject :: "'a SessionS \<Rightarrow> RunnerRejectInput \<Rightarrow> 'a UsageDb_scheme \<Rightarrow> (go_error + bool) \<times> 'a UsageDb_scheme" where
  "ApplyRunnerReject S inp = InTx
     (bindM (RunnerRepo_ActiveLease (rj_RunID inp)) (\<lambda>l.
      if \<not> activeLeaseMatches l (rj_LeaseID inp) (rj_RunnerID inp) (rj_FencingToken inp) then returnM False
      else bindM (RunRepo_Get (rj_RunID inp)) (\<lambda>r.
      if RunStatus_IsTerminal (rn_Status r) then returnM False
      else bindM (release_now (rj_LeaseID inp)) (\<lambda>_. reject_run S inp r))))"

end
