(* ===== verification/FrameEffects.thy ===== *)
theory FrameEffects
  imports RunnerEvents QuestionHistories
begin

text \<open>
  What sessions, usage and frames may change: the operations of the run service leave their tables
  alone, and three locales give the effects of the session service, of claims and of frames from a few
  laws; the instance here is about leases and the log of seen frames.
\<close>

section \<open>What the run service leaves alone\<close>

text \<open>
  The operations of theory Runs never write leases, the log of seen frames, sessions, snapshots or
  usage columns; the facts of the calculus of theory Effects are collected in \<open>untouched\<close>.
\<close>

definition untouched :: "'a UsageDb_scheme \<Rightarrow> 'a UsageDb_scheme \<Rightarrow> bool" where
  "untouched db db' \<longleftrightarrow> db_leases db' = db_leases db \<and> db_dedup db' = db_dedup db \<and> db_sessions db' = db_sessions db \<and>
     db_snapshots db' = db_snapshots db \<and> db_usage db' = db_usage db"

interpretation un: effect untouched
  by unfold_locales (simp_all add: untouched_def)

named_theorems untouched

declare un.rules [untouched]

lemma un_log [untouched]:
  fixes ev :: CanonicalEvent
  shows "within always untouched (insert_run_event ev re)" "within always untouched (insert_stream ev p)"
    "within always untouched (insert_outbox ev p)" "within always untouched (EventRepo_AppendActivityFor ws wi k m)"
  unfolding insert_run_event_def insert_stream_def insert_outbox_def EventRepo_AppendActivityFor_def
  by (rule un.exec_within; simp add: untouched_def Let_def)+

lemma un_append [untouched]: "within always untouched (EventRepo_Append cd ev re)"
  unfolding EventRepo_Append_def by (intro untouched)

lemma un_emit [untouched]: "within always untouched (emit S ws ty at ai v re data)"
  unfolding within_def
proof (intro allI impI)
  fix db :: "'a UsageDb_scheme"
  have s: "within always untouched (bindM (EventRepo_Append cd ev' re') (\<lambda>_. returnM ()))" for cd ev' re'
    by (intro untouched)
  show "untouched db (snd (emit S ws ty at ai v re data db))"
  proof (cases "NewCanonicalEvent (rs_NewID S db) (nowM db) ws ty at ai v (if re = None then data else withoutAgentID data)")
    case (Inl e)
    then show ?thesis by (simp add: emit_def Service_emit_def failM_def un.refl)
  next
    case (Inr ev)
    show ?thesis by (simp only: emit_def Service_emit_def Let_def Inr sum.case) (rule withinD [OF s TrueI])
  qed
qed

lemma un_gets [untouched]:
  "within always untouched (WorkItemRepo_Get i)" "within always untouched (RunRepo_Get i)"
  "within always untouched (WakeupRepo_GetAgentProfile i)" "within always untouched (QuestionRepo_ListPendingByRun i)"
  "within always untouched (QuestionRepo_Get i)" "within always untouched (QuestionRepo_GetByProviderKey i s p)"
  "within always untouched (RunRepo_GetApproval i)" "within always untouched (ApprovalGrantRepo_Matching ws ag wi k su)"
  "within always untouched (RunnerRepo_ActiveLease i)" "within always untouched (RunnerRepo_GetLease i)"
  "within always untouched (TaskSessionRepo_Get ws ag ad tk)" "within always untouched (ContextSnapshotRepo_GetByRun i)"
  "within always untouched (RunRepo_GetWithUsage HP HU i)"
  unfolding WorkItemRepo_Get_def RunRepo_Get_def WakeupRepo_GetAgentProfile_def QuestionRepo_ListPendingByRun_def
    QuestionRepo_Get_def QuestionRepo_GetByProviderKey_def RunRepo_GetApproval_def ApprovalGrantRepo_Matching_def
    RunnerRepo_ActiveLease_def RunnerRepo_GetLease_def TaskSessionRepo_Get_def ContextSnapshotRepo_GetByRun_def RunRepo_GetWithUsage_def
  by (rule un.query)+

lemma un_writes [untouched]:
  "within always untouched (WorkItemRepo_Update w v)" "within always untouched (RunRepo_Update r v)"
  "within always untouched (WorkItemRepo_TouchUpdatedAt i t)" "within always untouched (AgentRepo_SetPresence i pr)"
  "within always untouched (RunRepo_CreateApproval a)" "within always untouched (RunRepo_UpdateApproval a)"
  "within always untouched (ApprovalGrantRepo_Create g)" "within always untouched (RunRepo_CreateArtifact art)"
  "within always untouched (AuditRepo_Append ws ac an ta de)" "within always untouched (WorkItemRepo_ReleaseStaleLocks t)"
  "within always untouched (RunRepo_Create r)" "within always untouched (QuestionRepo_ExpirePendingByRun i t)"
  unfolding WorkItemRepo_Update_def RunRepo_Update_def WorkItemRepo_TouchUpdatedAt_def AgentRepo_SetPresence_def
    RunRepo_CreateApproval_def RunRepo_UpdateApproval_def ApprovalGrantRepo_Create_def RunRepo_CreateArtifact_def
    AuditRepo_Append_def WorkItemRepo_ReleaseStaleLocks_def RunRepo_Create_def QuestionRepo_ExpirePendingByRun_def
  by (rule un.exec_within; simp add: untouched_def Let_def)+

lemma un_create [untouched]: "within always untouched (WorkItemRepo_Create w)" "within always untouched (QuestionRepo_Update q)"
  unfolding WorkItemRepo_Create_def QuestionRepo_Update_def Let_def
  by (intro un.cond un.fail un.exec_within; simp add: untouched_def)+

lemma un_create_question [untouched]: "within always untouched (QuestionRepo_Create q)"
  unfolding QuestionRepo_Create_def Let_def
  by (intro un.cond un.fail un.exec_within un.alt; simp add: untouched_def)

lemma un_index [untouched]: "within always untouched (SearchRepo_IndexEntry e)"
  unfolding SearchRepo_IndexEntry_def by (intro un.bind un.exec_within) (simp_all add: untouched_def)

lemma un_owner [untouched]: "within always untouched (lock_owner w)"
  unfolding within_def
proof (intro allI impI)
  fix db :: "'a UsageDb_scheme"
  obtain g db1 where g: "RunRepo_Get (wi_LockedByRunID w) db = (g, db1)" by (cases "RunRepo_Get (wi_LockedByRunID w) db")
  have "untouched db db1" using withinD [OF un_gets(2) TrueI, of db "wi_LockedByRunID w"] by (simp add: g)
  then show "untouched db (snd (lock_owner w db))"
    by (cases "wi_LockedByRunID w = ''''"; cases g) (simp_all add: lock_owner_def g un.refl)
qed

lemma un_lock [untouched]:
  "within always untouched (activityFor S ws wi k m)" "within always untouched (lock_event S r w p)"
  "within always untouched (projectAgentPresence S r pr)" "within always untouched (project_review S r)"
  unfolding activityFor_def lock_event_def projectAgentPresence_def project_review_def Let_def by (intro untouched)+

lemma un_take [untouched]: "within always untouched (take_lock S r w p)" "within always untouched (releaseTaskLock r)"
  unfolding take_lock_def releaseTaskLock_def Let_def by (intro untouched)+

lemma un_acquire [untouched]: "within always untouched (acquireTaskLock S r)"
  unfolding acquireTaskLock_def by (intro untouched)

lemma un_parts [untouched]:
  "within always untouched (emit_run S r ty v data)" "within always untouched (indexArtifact r art)"
  "within always untouched (audit ws ac ta de)"
  unfolding emit_run_def indexArtifact_def audit_def by (intro untouched)+

lemma un_artifact [untouched]:
  "within always untouched (projectArtifactEvent S r data)" "within always untouched (emit_expired S r w pending)"
proof -
  show "within always untouched (projectArtifactEvent S r data)"
    unfolding projectArtifactEvent_def Let_def case_prod_beta by (intro untouched)
  show "within always untouched (emit_expired S r w pending)"
    by (induction pending) (simp_all add: Let_def untouched)
qed

lemma un_expire [untouched]: "within always untouched (expireRunPendingQuestions S r w)"
  unfolding expireRunPendingQuestions_def by (intro untouched)

lemma un_after_update [untouched]: "within always untouched (after_update S w from r to data)"
  unfolding after_update_def by (intro untouched)

lemma un_with_run [untouched]: "(\<And>r w. within always untouched (f r w)) \<Longrightarrow> within always untouched (with_run i f)"
  unfolding with_run_def by (intro untouched)

lemma un_question_event [untouched]:
  "within always (untouched :: 'a UsageDb_scheme \<Rightarrow> 'a UsageDb_scheme \<Rightarrow> bool) (reconcileQuestionProviderEvent r ty data)"
proof -
  have "within always untouched (\<lambda>db. case QuestionRepo_GetByProviderKey (rn_ID r) s p db of (x, db1) \<Rightarrow>
        (case x of Inl e \<Rightarrow> (if e = ErrNotFound then Inr () else Inl e, db1)
         | Inr q \<Rightarrow> (case m q db1 of Inl e \<Rightarrow> (Inl e, db1) | Inr q' \<Rightarrow> QuestionRepo_Update q' db1)))"
    for s p and m :: "QuestionRequest \<Rightarrow> 'a UsageDb_scheme \<Rightarrow> go_error + QuestionRequest"
  proof (rule un.run_after [OF un_gets(6)])
    fix x :: "go_error + QuestionRequest" and db1 :: "'a UsageDb_scheme"
    show "untouched db1 (snd (case x of Inl e \<Rightarrow> (if e = ErrNotFound then Inr () else Inl e, db1)
         | Inr q \<Rightarrow> (case m q db1 of Inl e \<Rightarrow> (Inl e, db1) | Inr q' \<Rightarrow> QuestionRepo_Update q' db1)))"
      using withinD [OF un_create(2) TrueI] by (auto simp: un.refl split: sum.splits)
  qed
  note 1 = this [where m = "\<lambda>q db1. if ty = ''question.answered''
       then QuestionRequest_MarkProviderAnswered q (nowM db1) (case map_of data ''answers'' of Some (VMap m) \<Rightarrow> Some m | _ \<Rightarrow> None)
       else QuestionRequest_Dismiss q (nowM db1)"]
  show ?thesis unfolding reconcileQuestionProviderEvent_def Let_def
    by (intro un.cond un.return 1)
qed

definition renews_alone :: "'a SessionS \<Rightarrow> bool" where
  "renews_alone S \<longleftrightarrow> (\<forall>r. within always untouched (rs_RenewDelegated S r))"

lemma un_ren: "renews_alone S \<Longrightarrow> within always untouched (rs_RenewDelegated S r)"
  by (simp add: renews_alone_def)

lemma un_move:
  assumes "renews_alone S"
  shows "within always untouched (move_run S w r to data)"
  unfolding move_run_def Let_def by (intro untouched un_ren [OF assms])

lemma un_transition_step:
  assumes ren: "renews_alone S" and refuse: "\<And>e. within always untouched (refuse e)"
  shows "within always untouched (transition_step S refuse r to data)"
proof -
  have "within always untouched (\<lambda>db. case acquireTaskLock S r db of
          (Inl e, db1) \<Rightarrow> if is_locked e then refuse e db1 else (Inl e, db1)
        | (Inr _, db1) \<Rightarrow> move_run S w r to data db1)" for w
  proof (rule un.run_after [OF un_acquire])
    fix x :: "go_error + unit" and db1 :: "'a UsageDb_scheme"
    show "untouched db1 (snd (case x of Inl e \<Rightarrow> if is_locked e then refuse e db1 else (Inl e, db1) | Inr u \<Rightarrow> move_run S w r to data db1))"
      using withinD [OF refuse TrueI] withinD [OF un_move [OF ren] TrueI] by (cases x) (simp_all add: un.refl)
  qed
  then show ?thesis unfolding transition_step_def by (intro untouched un_move [OF ren])
qed

lemma un_transition:
  assumes "renews_alone S"
  shows "within always untouched (transitionRunLocked S r to data)"
  unfolding transitionRunLocked_def by (intro un_transition_step [OF assms] un.fail)

lemma un_records:
  assumes ren: "renews_alone S"
  shows "within always untouched (recordRunProgressTx S i p)" "within always untouched (recordRunEventTx S i ty data)"
    "within always untouched (recordArtifactTx S i art)" "within always untouched (requestApprovalTx S i k ri su ai)"
proof -
  have rd: "within always untouched (renew_delegated S r)" for r unfolding renew_delegated_def by (intro untouched un_ren [OF ren])
  show "within always untouched (recordRunProgressTx S i p)" "within always untouched (recordRunEventTx S i ty data)"
    "within always untouched (recordArtifactTx S i art)" "within always untouched (requestApprovalTx S i k ri su ai)"
    unfolding recordRunProgressTx_def recordRunEventTx_def recordArtifactTx_def requestApprovalTx_def Let_def case_prod_beta
    by (intro untouched rd un_transition [OF ren])+
qed

lemma un_services:
  assumes ren: "renews_alone S"
  shows "within always untouched (RecordRunStatus S i to data)" "within always untouched (ControlRun S i action)"
    "within always untouched (RecordRunProgress S i p)" "within always untouched (RecordRunEvent S i ty data)"
    "within always untouched (RecordArtifact S i art)" "within always untouched (RequestApproval S i k ri su)"
  unfolding RecordRunStatus_def ControlRun_def RecordRunProgress_def RecordRunEvent_def RecordArtifact_def RequestApproval_def
  by (intro un.tx untouched un_records [OF ren] un_transition [OF ren])+

lemma un_ask: "within always untouched (RequestQuestion S i request)"
  unfolding RequestQuestion_def
proof (intro un.tx untouched un.run_after [OF un_gets(6)])
  fix r :: ExecutionRun and w :: WorkItem and x :: "go_error + QuestionRequest" and db :: "'a UsageDb_scheme"
  have created: "untouched db (snd (bindM (QuestionRepo_Create q) (\<lambda>_. bindM (emit_run S r ty v d) (\<lambda>_. returnM q)) db))" for q ty v d
  proof -
    have "within always untouched (bindM (QuestionRepo_Create q) (\<lambda>_. bindM (emit_run S r ty v d) (\<lambda>_. returnM q)))"
      by (intro untouched)
    then show ?thesis by (rule withinD) simp
  qed
  show "untouched db (snd (case x of
       Inl e \<Rightarrow> if e \<noteq> ErrNotFound then (Inl e, db)
          else let agent = TrimSpace (qn_AgentID request);
                   q = request\<lparr>qn_ID := rs_NewID S db, qn_RunID := rn_ID r, qn_WorkItemID := rn_WorkItemID r,
                     qn_AgentID := (if agent = '''' then ''main'' else agent), qn_Status := QuestionPending,
                     qn_CreatedAt := (if IsZero (qn_CreatedAt request) then nowM db else qn_CreatedAt request)\<rparr>
               in (case QuestionRequest_Validate q of
                     Inl e \<Rightarrow> (Inl e, db)
                   | Inr q \<Rightarrow> bindM (QuestionRepo_Create q) (\<lambda>_.
                       bindM (emit_run S r ''question.requested'' (rn_Version r)
                         [(''run_id'', VStr (rn_ID r)), (''work_item_id'', VStr (rn_WorkItemID r)), (''question_id'', VStr (qn_ID q)),
                          (''provider_question_id'', VStr (qn_ProviderID q)), (''session_ref'', VStr (qn_SessionRef q)),
                          (''agent_id'', VStr (qn_AgentID q)), (''turn_id'', VInt64 (qn_TurnID q)),
                          (''tool_call_id'', VStr (qn_ToolCallID q)), (''questions'', VList (map item_value (qn_Questions q))),
                          (''status'', VStr (QuestionStatus_text (qn_Status q))), (''record_kind'', Runs.kind_value w)])
                         (\<lambda>_. returnM q)) db)
       | Inr existing \<Rightarrow> (Inr existing, db)))"
    using created unfolding Let_def by (cases x) (auto simp: un.refl split: sum.splits)
qed

lemma un_answers:
  "within always untouched (prepare_answer sp i j resp)" "within always untouched (clear_answer j resp)"
  "within always untouched (confirm_answer S j resp who)" "within always untouched (DismissQuestion S i j who)"
  unfolding prepare_answer_def clear_answer_def confirm_answer_def DismissQuestion_def
  by (intro un.tx untouched)+

section \<open>What sessions, usage and frames may change\<close>

text \<open>
  An effect that writing sessions and usage columns has, and everything that leaves those tables, the
  leases and the seen frames alone: the operations on sessions and usage then have it too. Sessions
  are rewritten under their key and owner, or opened; usage columns obey their checks and triggers.
\<close>

definition same_owner :: "TaskSession \<Rightarrow> TaskSession \<Rightarrow> bool" where
  "same_owner t t' \<longleftrightarrow> session_of t t' \<and> ts_ID t' = ts_ID t \<and> ts_LastRunID t' = ts_LastRunID t \<and>
     ts_AnchorRunSequence t' = ts_AnchorRunSequence t \<and> ts_ContextSnapshotID t' = ts_ContextSnapshotID t \<and>
     ts_ContextGeneration t' = ts_ContextGeneration t"

lemma owner_rows [simp]:
  "same_owner row (continued_row t row)" "same_owner row (rotated_row t row)"
  "same_owner row (row\<lparr>ts_InputTokensCum := n, ts_UpdatedAt := now\<rparr>)"
  "same_owner row (row\<lparr>ts_ProviderUsageAnchor := a, ts_ProviderUsageAnchorSeq := n, ts_UpdatedAt := now\<rparr>)"
  by (simp_all add: same_owner_def session_of_def same_session_def continued_row_def rotated_row_def with_material_def
      with_anchor_def split: option.splits)

text \<open>
  What the operations of theory RunHistories depend on: the renewal of delegated runs and the checks of
  Goals and plans leave all this alone; the resolution of a plan, which creates runs, and what happens
  while an answer is delivered may do whatever has the effect at hand.
\<close>

definition env_within ::
  "('a UsageDb_scheme \<Rightarrow> 'a UsageDb_scheme \<Rightarrow> bool) \<Rightarrow> 'a SessionS \<Rightarrow> 'a UsageDb_scheme ApprovalEnv \<Rightarrow> 'a UsageDb_ext forwarder \<Rightarrow> bool" where
  "env_within R S A fw \<longleftrightarrow> renews_alone S \<and> (\<forall>r. within always untouched (ae_GoalGate A r)) \<and>
     (\<forall>a. within always untouched (ae_PlanOf A a)) \<and> (\<forall>a b s. within always R (ae_ResolvePlan A a b s)) \<and>
     (\<forall>f i j resp. fw = Some f \<longrightarrow> within always R (f i j resp))"

locale session_effect = effect R for R :: "'a UsageDb_scheme \<Rightarrow> 'a UsageDb_scheme \<Rightarrow> bool" +
  fixes E :: UsageEnv
  assumes alone: "untouched db db' \<Longrightarrow> R db db'"
    and rewritten: "(\<And>t. hit t \<Longrightarrow> same_owner t (f t)) \<Longrightarrow>
      R db (db\<lparr>db_sessions := map (\<lambda>t. if hit t then f t else t) (db_sessions db)\<rparr>)"
    and opened: "\<not> list_ex (session_of t) (db_sessions db) \<Longrightarrow>
      R db (db\<lparr>db_sessions := db_sessions db @ [t\<lparr>ts_SegmentSeq := n\<rparr>]\<rparr>)"
    and usage: "validateRunUsageSnapshots (ue_Report E) (ue_Usage E) i u = None \<Longrightarrow> canonical_kept (db_usage db i) u \<Longrightarrow>
      report_follows (db_usage db i) u \<Longrightarrow> R db (db\<lparr>db_runs := rs, db_usage := (db_usage db)(i := u)\<rparr>)"
begin

lemma kept: "within always untouched f \<Longrightarrow> within P R f"
  unfolding within_def by (simp add: alone)

lemma resolve_question:
  assumes "env_within R S A fw"
  shows "within always R (ResolveQuestion S sp fw i j resp who)"
  unfolding ResolveQuestion_def
proof (intro bind kept [OF un_answers(1)] cond return)
  fix q :: QuestionRequest
  show "within always R (case fw of
         None \<Rightarrow> failM (ErrOther ''required capability unavailable'')
       | Some forward \<Rightarrow> (\<lambda>db. case forward (qn_RunID q) (qn_ID q) resp db of
             (Delivered, db1) \<Rightarrow> confirm_answer S (qn_ID q) resp who db1
           | (DeliveryUnknown e, db1) \<Rightarrow> (Inl e, db1)
           | (DeliveryFailed e, db1) \<Rightarrow> (Inl e, snd (clear_answer (qn_ID q) resp db1))))"
  proof (cases fw)
    case (Some f)
    have f: "within always R (f i j resp)" for i j using assms Some by (simp add: env_within_def)
    show ?thesis unfolding Some option.case
    proof (rule run_after [OF f])
      fix x :: delivery and db1 :: "'a UsageDb_scheme"
      show "R db1 (snd (case x of Delivered \<Rightarrow> confirm_answer S (qn_ID q) resp who db1 | DeliveryUnknown e \<Rightarrow> (Inl e, db1)
          | DeliveryFailed e \<Rightarrow> (Inl e, snd (clear_answer (qn_ID q) resp db1))))"
        using withinD [OF kept [OF un_answers(3)] TrueI] withinD [OF kept [OF un_answers(2)] TrueI] by (cases x) (simp_all add: refl)
    qed
  qed (simp add: fail)
qed

lemma resolve_approval:
  assumes env: "env_within R S A fw"
  shows "within always R (ResolveApproval S A i approved who reason scope)"
proof -
  have e: "within always untouched (ae_GoalGate A r)" "within always untouched (ae_PlanOf A a)" "within always R (ae_ResolvePlan A a b s)" for r a b s
    using env by (simp_all add: env_within_def)
  have "within always untouched (resolve_run_approval S a approved d who reason scope)" for a d
    using env unfolding env_within_def resolve_run_approval_def Let_def case_prod_beta by (intro untouched un_transition) simp_all
  then have run: "within always R (resolve_run_approval S a approved d who reason scope)" for a d by (rule kept)
  have plan: "within always R (resolve_plan_approval S A a approved d who reason)" for a d
    unfolding resolve_plan_approval_def case_prod_beta by (intro bind e(3)) ((rule kept, intro untouched)+)
  have g: "within always untouched (RunRepo_GetApproval i)" "within always untouched (RunRepo_UpdateApproval a)" for i a
    by (intro untouched)+
  have before: "within always R (if ap_Kind a = ''plan_dispatch'' \<and> \<not> approved then bindM (ae_PlanOf A a) (\<lambda>_. returnM ()) else returnM ())"
    "within always R (if approved \<and> ap_Kind a \<noteq> ''plan_dispatch'' \<and> ap_RunID a \<noteq> '''' then bindM (RunRepo_Get (ap_RunID a)) (ae_GoalGate A) else returnM ())" for a
    by (intro kept un.cond un.bind un.return e(1,2) un_gets(2))+
  show ?thesis unfolding ResolveApproval_def Let_def
    by (intro tx bind cond return fail read alt run plan before kept [OF g(1)] kept [OF g(2)])
qed

lemma service_op:
  assumes env: "env_within R S A fw"
  shows "R db (do_op S A sp fw p db)"
proof -
  have ren: "renews_alone S" using env by (simp add: env_within_def)
  have each: "within always untouched (InTx (RunRepo_Create r) :: 'a UsageDb_scheme \<Rightarrow> _)"
    "within always untouched (InTx (WorkItemRepo_Create w) :: 'a UsageDb_scheme \<Rightarrow> _)" for r w
    by (intro un.tx untouched)+
  show ?thesis
    by (cases p) (simp_all add: withinD [OF kept [OF un_services(1) [OF ren]]] withinD [OF kept [OF un_services(2) [OF ren]]]
      withinD [OF kept [OF un_services(3) [OF ren]]] withinD [OF kept [OF un_services(4) [OF ren]]]
      withinD [OF kept [OF un_services(5) [OF ren]]] withinD [OF kept [OF un_services(6) [OF ren]]] withinD [OF kept [OF un_ask]]
      withinD [OF resolve_question [OF env]] withinD [OF kept [OF un_answers(4)]] withinD [OF resolve_approval [OF env]]
      withinD [OF kept [OF un_writes(10)]] withinD [OF kept [OF each(1)]] withinD [OF kept [OF each(2)]])
qed

lemma update_rows: "(\<And>t. hit t \<Longrightarrow> same_owner t (f t)) \<Longrightarrow> R db (snd (update_sessions b hit f db))"
  unfolding update_sessions_def by (simp add: refl rewritten)

lemma insert_row: "\<not> list_ex (session_of t) (db_sessions db) \<Longrightarrow> R db (snd (insert_session t db))"
  unfolding insert_session_def by (simp add: refl opened)

lemma upsert_row: "(\<And>row. session_of t row \<Longrightarrow> same_owner row (f row)) \<Longrightarrow> R db (snd (upsert_session t b f db))"
  unfolding upsert_session_def by (simp add: update_rows insert_row)

lemma written: "(\<And>db. R db (snd (stmt db))) \<Longrightarrow> within P R (write_session t stmt)"
  unfolding write_session_def by (cases "validateProviderUsageAnchorState t") (auto intro: fail within_any [OF exec_within])

lemma insert_absent: "within P R (TaskSessionRepo_InsertIfAbsent t)"
proof -
  have "R db (snd (if list_ex (session_of t) (db_sessions db) then (Inr False, db)
      else case insert_session t db of (Inl e, db1) \<Rightarrow> (Inl e, db1) | (Inr n, db1) \<Rightarrow> (Inr (n = 1), db1)))" for db
    using insert_row [of t db] by (auto simp: refl split: prod.splits sum.splits)
  then show ?thesis unfolding TaskSessionRepo_InsertIfAbsent_def
    by (cases "validateProviderUsageAnchorState t") (auto intro: fail within_any [OF exec_within])
qed

lemma owner_writes:
  "within P R (TaskSessionRepo_UpdateIfAnchorOwner t i n)" "within P R (TaskSessionRepo_StartGenerationIfAnchorOwner t i n)"
  "within P R (TaskSessionRepo_Upsert t)" "within P R (TaskSessionRepo_StartGeneration t)"
  unfolding TaskSessionRepo_UpdateIfAnchorOwner_def TaskSessionRepo_StartGenerationIfAnchorOwner_def
    TaskSessionRepo_Upsert_def TaskSessionRepo_StartGeneration_def
  by (intro bind written update_rows upsert_row return owner_rows)+

lemma token_writes:
  "within P R (TaskSessionRepo_AddInputTokens ws ag ad tk n)"
  "within P R (TaskSessionRepo_UpdateProviderUsageAnchorCAS ws ag ad tk a m i k)"
proof -
  have e: "within P R (exec_stmt (\<lambda>now. update_sessions b (hit now) (f now)))"
    if "\<And>now t. same_owner t (f now t)" for P b hit f
    by (rule within_any [OF exec_within]) (rule update_rows, rule that)
  show "within P R (TaskSessionRepo_AddInputTokens ws ag ad tk n)"
    unfolding TaskSessionRepo_AddInputTokens_def by (intro cond fail bind e return owner_rows)
  show "within P R (TaskSessionRepo_UpdateProviderUsageAnchorCAS ws ag ad tk a m i k)"
    unfolding TaskSessionRepo_UpdateProviderUsageAnchorCAS_def
    by (cases "first_error [cas_arguments m i k, ProviderUsageAnchor_Validate (Some a)]") (auto intro!: fail bind e return owner_rows)
qed

lemma update_usage: "within P R (RunRepo_UpdateWithUsage (ue_Report E) (ue_Usage E) r u v)"
  unfolding RunRepo_UpdateWithUsage_def
  by (cases "validateRunUsageSnapshots (ue_Report E) (ue_Usage E) (rn_ID r) u")
    (auto intro!: fail within_any [OF exec_within] simp: Let_def refl usage)

lemmas writes = insert_absent owner_writes token_writes update_usage

lemma parent: "within P R (anchorParent ws ag ad tk)"
  unfolding anchorParent_def by (rule kept) (intro untouched)

lemma built: "within P R (build_session S ws ag ad tk params)"
  unfolding build_session_def case_prod_beta by (intro rules parent)

lemma gated: "within P R (taskSessionAnchorGate r)"
proof (rule kept)
  have i: "within always (untouched :: 'a UsageDb_scheme \<Rightarrow> _) (\<lambda>db. case TaskSessionRepo_Get ws ag ad tk db of (y, db2) \<Rightarrow>
      (case y of Inl e \<Rightarrow> (if e = ErrNotFound then Inr Closed else Inl e, db2) | Inr t \<Rightarrow> (Inr (gate_of r t snap), db2)))" for ws ag ad tk snap
    by (rule un.run_after [OF un_gets(11)]) (auto simp: un.refl split: sum.splits)
  have "within always (untouched :: 'a UsageDb_scheme \<Rightarrow> _) (\<lambda>db. case ContextSnapshotRepo_GetByRun (rn_ID r) db of (x, db1) \<Rightarrow>
      (case x of Inl e \<Rightarrow> (if e = ErrNotFound then Inr Closed else Inl e, db1)
       | Inr snap \<Rightarrow> (case TaskSessionRepo_Get (rn_WorkspaceID r) (rn_AgentProfileID r) (rn_AdapterID r) (rn_WorkItemID r) db1 of (y, db2) \<Rightarrow>
         (case y of Inl e \<Rightarrow> (if e = ErrNotFound then Inr Closed else Inl e, db2) | Inr t \<Rightarrow> (Inr (gate_of r t snap), db2)))))"
    by (rule un.run_after [OF un_gets(12)]) (use withinD [OF i TrueI] in \<open>auto simp: un.refl split: sum.splits\<close>)
  then show "within always (untouched :: 'a UsageDb_scheme \<Rightarrow> _) (taskSessionAnchorGate r)"
    unfolding taskSessionAnchorGate_def within_def by (simp add: un.refl)
qed

lemma cleared: "within P R (writeAnchorTombstoneForOwner t reason)"
  unfolding writeAnchorTombstoneForOwner_def by (intro rules writes)

lemma cleared_run: "within P R (writeAnchorTombstoneForRun S ws ag ad tk i reason)"
proof -
  have "within always R (\<lambda>db. case TaskSessionRepo_Get ws ag ad tk db of (x, db1) \<Rightarrow>
      (case x of Inl e \<Rightarrow> if e = ErrNotFound then bindM (TaskSessionRepo_InsertIfAbsent anchor) (\<lambda>_. returnM ()) db1 else (Inl e, db1)
       | Inr t \<Rightarrow> if i \<noteq> '''' \<and> ts_LastRunID t \<noteq> i then (Inr (), db1)
            else bindM (writeAnchorTombstoneForOwner t reason) (\<lambda>_. returnM ()) db1))" for anchor
  proof (rule run_after [OF kept [OF un_gets(11)]])
    fix x :: "go_error + TaskSession" and db1 :: "'a UsageDb_scheme"
    have 1: "within always R (bindM (TaskSessionRepo_InsertIfAbsent anchor) (\<lambda>_. returnM ()))"
      "within always R (bindM (writeAnchorTombstoneForOwner t reason) (\<lambda>_. returnM ()))" for t
      by (intro rules writes cleared)+
    show "R db1 (snd (case x of Inl e \<Rightarrow> if e = ErrNotFound then bindM (TaskSessionRepo_InsertIfAbsent anchor) (\<lambda>_. returnM ()) db1 else (Inl e, db1)
       | Inr t \<Rightarrow> if i \<noteq> '''' \<and> ts_LastRunID t \<noteq> i then (Inr (), db1)
            else bindM (writeAnchorTombstoneForOwner t reason) (\<lambda>_. returnM ()) db1))"
      using withinD [OF 1(1) TrueI] withinD [OF 1(2) TrueI] by (cases x) (simp_all add: refl)
  qed
  then show ?thesis unfolding writeAnchorTombstoneForRun_def by (intro rules built)
qed

lemma reset: "within P R (ResetTaskSession S ws ag ad tk)"
  unfolding ResetTaskSession_def by (intro rules tx cleared_run kept untouched)

lemma reported: "within P R (report_session S E r t snap update)"
  unfolding report_session_def Let_def by (intro rules built writes)

lemma session_ref: "within P R (write_session_ref r update)"
  unfolding write_session_ref_def by (intro rules kept untouched)

lemma session_report: "within P R (recordRunSessionUpdateTx S E i update)"
  unfolding recordRunSessionUpdateTx_def with_run_def
proof (intro bind kept [OF un_gets(1)] kept [OF un_gets(2)] check gated)
  fix r g
  show "within always R (case g of Closed \<Rightarrow> returnM (rn_WorkspaceID r)
       | Open owner snap \<Rightarrow>
           if su_Clear update then
             (case owner of None \<Rightarrow> returnM (rn_WorkspaceID r)
              | Some t \<Rightarrow> bindM (writeAnchorTombstoneForOwner t (su_ClearReason update)) (\<lambda>_. returnM (rn_WorkspaceID r)))
           else if su_Ref update = '''' then failM (ErrValidation ''session ref required'')
           else (case owner of None \<Rightarrow> write_session_ref r update
                 | Some t \<Rightarrow> bindM (report_session S E r t snap update) (\<lambda>updated.
                     if \<not> updated then returnM (rn_WorkspaceID r) else write_session_ref r update)))"
    by (cases g) (simp_all add: return, intro impI conjI cond opt bind return fail cleared reported session_ref)
qed

lemma baseline: "within P R (advance_baseline r session next)"
  unfolding advance_baseline_def by (cases "(next, session)"; cases "next"; cases session) (auto intro!: rules writes)

lemma canonicalized: "within P R (canonicalizeRunUsageLocked E i b)"
proof -
  have s: "within always R (providerUsageSession r)" for r
    unfolding providerUsageSession_def
    by (rule run_after [OF kept [OF un_gets(11)]]) (auto simp: refl split: sum.splits)
  have c: "within always R (case canonical_of E r u session b now of
         Inl e \<Rightarrow> failM e
       | Inr None \<Rightarrow> returnM False
       | Inr (Some (c, next)) \<Rightarrow> bindM (RunRepo_UpdateWithUsage (ue_Report E) (ue_Usage E) r
            (u\<lparr>us_Canonical := Some c, us_CanonicalDigest := cu_Digest c\<rparr>) (rn_Version r)) (\<lambda>_. advance_baseline r session next))" for r u session now
    by (auto intro!: rules writes baseline split: sum.splits option.splits)
  have pair: "within always R (case ru of (r, u) \<Rightarrow> g r u)" if "\<And>r u. within always R (g r u)" for ru and g :: "ExecutionRun \<Rightarrow> RunUsage \<Rightarrow> 'a UsageDb_scheme \<Rightarrow> (go_error + bool) \<times> 'a UsageDb_scheme"
    using that by (cases ru) simp
  show ?thesis unfolding canonicalizeRunUsageLocked_def
    by (intro bind kept [OF un_gets(13)] pair cond return read s c)
qed

lemma usage_report: "within P R (recordRunUsageTx S E i usage)"
proof -
  have body: "within always R (case (case rt_ProviderReport usage of
             None \<Rightarrow> Inr (with_usage u usage) | Some rep \<Rightarrow> bindProviderUsageReport E r (with_usage u usage) rep) of
       Inl e \<Rightarrow> failM e
     | Inr u' \<Rightarrow>
         bindM (RunRepo_UpdateWithUsage (ue_Report E) (ue_Usage E) r u' (rn_Version r)) (\<lambda>_.
         bindM (emit_run S r ''usage.updated'' (wrap64 (rn_Version r + 1)) data) (\<lambda>_.
         bindM (if c then TaskSessionRepo_AddInputTokens ws ag ad tk n else returnM ()) (\<lambda>_.
         bindM (if RunStatus_IsTerminal (rn_Status r) \<and> us_Canonical u' = None
                then bindM (canonicalizeRunUsageLocked E i False) (\<lambda>_. returnM ()) else returnM ()) (\<lambda>_.
         returnM (rn_WorkspaceID r))))))" for u r data c ws ag ad tk n
    by (intro alt rules writes canonicalized kept [OF un_parts(1)])
  have pair: "within always R (case ru of (r, u) \<Rightarrow> g r u)" if "\<And>r u. within always R (g r u)" for ru and g :: "ExecutionRun \<Rightarrow> RunUsage \<Rightarrow> 'a UsageDb_scheme \<Rightarrow> (go_error + string) \<times> 'a UsageDb_scheme"
    using that by (cases ru) simp
  show ?thesis unfolding recordRunUsageTx_def
    by (intro bind check kept [OF un_gets(13)] pair kept [OF un_gets(1)]) (rule body)
qed

end

text \<open>A new run takes the session over: the one write that changes its owner.\<close>

locale claim_effect = session_effect +
  assumes claims: "R db (db\<lparr>db_sessions := map (\<lambda>row. if session_of t row then claimed_row t row else row) (db_sessions db)\<rparr>)"
begin

lemma claim: "within P R (TaskSessionRepo_ClaimAnchor t)"
proof -
  have u: "R db (snd (upsert_session t False (claimed_row t) db))" for db
    unfolding upsert_session_def update_sessions_def by (simp add: refl insert_row claims)
  have "R db (snd (if list_ex (session_of t) (db_sessions db) \<and> \<not> session_refs_known t db then (Inl fkError, db)
      else case upsert_session t False (claimed_row t) db of (Inl e, db1) \<Rightarrow> (Inl e, db1)
      | (Inr _, db1) \<Rightarrow> (case List.find (session_of t) (db_sessions db1) of None \<Rightarrow> Inl ErrNotFound | Some row \<Rightarrow> scan_session row, db1)))" for db
    using u [of db] by (auto simp: refl split: prod.splits sum.splits)
  then show ?thesis unfolding TaskSessionRepo_ClaimAnchor_def
    by (cases "validateProviderUsageAnchorState t") (auto intro: fail within_any [OF exec_within])
qed

lemma claimed: "within P R (claimTaskSessionAnchor S r snap)"
  unfolding claimTaskSessionAnchor_def by (intro rules built claim)

end

section \<open>What a frame may change\<close>

locale frame_effect = session_effect R E for R :: "'a UsageDb_scheme \<Rightarrow> 'a UsageDb_scheme \<Rightarrow> bool" and E :: UsageEnv +
  assumes seen: "R db (db\<lparr>db_dedup := db_dedup db @ [k]\<rparr>)"
    and released: "R db (release_where (\<lambda>l. lr_LeaseID l = i) at db)"
begin

lemma case_result: "(\<And>e. within P R (f e)) \<Longrightarrow> (\<And>x. within P R (g x)) \<Longrightarrow> within P R (case y of Inl e \<Rightarrow> f e | Inr x \<Rightarrow> g x)"
  by (rule alt)

lemma admitted: "within P R (frame_admitted inp)"
proof -
  have "within always R (releasedLeaseObservationAllowed inp)"
    unfolding releasedLeaseObservationAllowed_def
  proof (rule run_after [OF kept [OF un_gets(10)]])
    fix x :: "go_error + RunLease" and db1 :: "'a UsageDb_scheme"
    have 1: "within always R (bindM (RunRepo_Get (rv_RunID inp)) (\<lambda>r. returnM (RunStatus_IsTerminal (rn_Status r))))"
      by (intro rules kept untouched)
    show "R db1 (snd (case x of Inl e \<Rightarrow> (if e = ErrNotFound then Inr False else Inl e, db1)
        | Inr l \<Rightarrow> if \<not> ls_Released l \<or> ls_RunID l \<noteq> rv_RunID inp \<or> ls_RunnerID l \<noteq> rv_RunnerID inp \<or> ls_FencingToken l \<noteq> rv_FencingToken inp
          then (Inr False, db1)
          else bindM (RunRepo_Get (rv_RunID inp)) (\<lambda>r. returnM (RunStatus_IsTerminal (rn_Status r))) db1))"
      using withinD [OF 1 TrueI] by (cases x) (simp_all add: refl)
  qed
  then show ?thesis unfolding frame_admitted_def by (intro bind kept [OF un_gets(9)] cond return)
qed

lemma dedup: "within P R (dedup_frame inp)"
proof -
  have "within always R (RunnerRepo_RunnerEventDedupV2 a b c n)" for a b c n
    unfolding RunnerRepo_RunnerEventDedupV2_def by (rule exec_within) (simp add: refl seen)
  then show ?thesis unfolding dedup_frame_def within_def
    by (auto split: prod.splits sum.splits) (metis snd_conv)+
qed

lemma release: "within P R (release_now i)"
proof -
  have "within always R (RunnerRepo_ReleaseLease i at)" for at
    unfolding RunnerRepo_ReleaseLease_def by (rule exec_within) (simp add: released)
  then show ?thesis unfolding release_now_def by (intro within_any [OF read])
qed

lemma moved:
  assumes ren: "renews_alone S"
  shows "within P R (apply_status S r data)" "within P R (reject_run S inp r)" "within P R (poison_run S inp')"
proof -
  show "within P R (apply_status S r data)"
    unfolding apply_status_def Let_def
    by (intro within_any [OF cond] return run_after [OF kept [OF un_transition [OF ren]]]) (auto simp: refl split: sum.splits)
  have "within always R (reject_run S inp r)" unfolding reject_run_def
    by (rule run_after [OF kept [OF un_transition [OF ren]]]) (auto simp: refl split: sum.splits)
  then show "within P R (reject_run S inp r)" by (rule within_any)
  show "within P R (poison_run S inp')"
    unfolding poison_run_def by (intro bind cond return kept [OF un_gets(2)] kept [OF un_transition [OF ren]] kept [OF un_parts(3)])
qed

lemma kind_applied:
  assumes ren: "renews_alone S"
  shows "within P R (apply_kind S E inp r)"
proof -
  have p: "within always R (apply_progress S i data)" for i data
    unfolding apply_progress_def
    by (auto intro!: bind return kept [OF un_records(1) [OF ren]] split: option.splits)
  have o: "(\<And>x. within always R (g x)) \<Longrightarrow> within always R (case y of None \<Rightarrow> returnM Poison | Some x \<Rightarrow> g x)" for y g
    by (rule opt) (rule return)
  have a: "within always R (case x of (kind, risk, summary, approvalID) \<Rightarrow>
      bindM (requestApprovalTx S i kind risk summary approvalID) (\<lambda>a. returnM (Done False (Some a))))" for x i
    by (cases x) (auto intro!: bind return kept [OF un_records(4) [OF ren]])
  show ?thesis unfolding apply_kind_def Let_def
    by (intro within_any [OF cond] moved [OF ren] p o a bind return session_report usage_report
        kept [OF un_records(2) [OF ren]] kept [OF un_records(3) [OF ren]])
qed

lemma frame_applied:
  assumes ren: "renews_alone S"
  shows "within P R (ApplyRunnerEvent S E inp)"
proof -
  have "within always R (finish_frame S inp eff)" for eff
    unfolding finish_frame_def by (cases eff) (auto intro!: bind cond return release moved [OF ren])
  then have "within always R (apply_frame S E inp)"
    unfolding apply_frame_def apply_admitted_def with_run_def
    by (intro bind cond return check admitted dedup kind_applied [OF ren] kept [OF un_gets(1)] kept [OF un_gets(2)])
  then have "within always R (InTx (apply_frame S E inp))" by (rule tx)
  then show ?thesis unfolding within_def ApplyRunnerEvent_def by (auto split: prod.splits sum.splits) (metis snd_conv)+
qed

lemma frame_answered:
  assumes ren: "renews_alone S"
  shows "within P R (ApplyRunnerAccept inp)" "within P R (ApplyRunnerReject S inp')"
  unfolding ApplyRunnerAccept_def ApplyRunnerReject_def
  by (intro tx bind cond return fail kept [OF un_gets(9)] kept [OF un_gets(2)] kept [OF un_gets(12)] kept [OF un_parts(3)]
      release moved [OF ren])+

end

section \<open>Seen frames and leases\<close>

definition fences_kept :: "'a UsageDb_scheme \<Rightarrow> 'a UsageDb_scheme \<Rightarrow> bool" where
  "fences_kept db db' \<longleftrightarrow> set (db_dedup db) \<subseteq> set (db_dedup db') \<and>
     (fenced (db_leases db) \<longrightarrow> fenced (db_leases db') \<and> table_le (db_leases db) (db_leases db'))"

lemma released_rows: "table_le rows (map (\<lambda>l. if P l then l\<lparr>lr_ReleasedAt := Some t\<rparr> else l) rows)"
  "fenced rows \<Longrightarrow> fenced (map (\<lambda>l. if P l then l\<lparr>lr_ReleasedAt := Some t\<rparr> else l) rows)"
  by (auto intro!: table_le_map fenced_map simp: row_le_def)

interpretation fe: effect fences_kept
proof (unfold_locales, goal_cases)
  case (2 db db1 db2)
  then show ?case unfolding fences_kept_def by (blast intro: table_le_trans)
qed (auto simp: fences_kept_def)

interpretation fe: frame_effect fences_kept E for E
  by unfold_locales (auto simp: fences_kept_def untouched_def release_where_def released_rows)

interpretation fe: claim_effect fences_kept E for E
  by unfold_locales (simp add: fences_kept_def)

end
