(* ===== verification/FrameHistories.thy ===== *)
theory FrameHistories
  imports FrameEffects
begin

text \<open>
  Histories of frames, of reports in process, of sweeps of leases and of the operations of the run
  service: a frame counts once, a superseded runner is refused, and settled usage never changes.
\<close>

section \<open>Histories of frames\<close>

text \<open>
  Everything that writes leases, seen frames, sessions, usage and runs: frames of runners, sessions
  and usage reported in process, the hook that settles the usage of a run, resets, claims of new
  runs, the grants, renewals and sweeps of leases, new snapshots, and the operations of the run service.
\<close>

datatype frame_op =
    FrEvent RunnerEventInput
  | FrAccept RunnerAcceptInput
  | FrReject RunnerRejectInput
  | FrSession string SessionUpdate
  | FrUsage string Usage
  | FrCanonicalize ExecutionRun
  | FrReset string string string string
  | FrClaim ExecutionRun ContextSnapshot
  | FrGrant RunLease
  | FrReleaseBy string time
  | FrExpire time
  | FrRenew string time
  | FrRenewIfEpoch string string string time
  | FrSnapshots "ContextSnapshot list"
  | FrService task_op

record 'a FrameEnv =
  fv_Service :: "'a SessionS"
  fv_Usage :: UsageEnv
  fv_Approvals :: "'a UsageDb_scheme ApprovalEnv"
  fv_Sprint :: "goval \<Rightarrow> string"
  fv_Forward :: "'a UsageDb_ext forwarder"

fun do_frame :: "'a FrameEnv \<Rightarrow> frame_op \<Rightarrow> 'a UsageDb_scheme \<Rightarrow> 'a UsageDb_scheme" where
  "do_frame V (FrEvent inp) db = snd (ApplyRunnerEvent (fv_Service V) (fv_Usage V) inp db)"
| "do_frame V (FrAccept inp) db = snd (ApplyRunnerAccept inp db)"
| "do_frame V (FrReject inp) db = snd (ApplyRunnerReject (fv_Service V) inp db)"
| "do_frame V (FrSession i update) db = snd (RecordRunSessionUpdate (fv_Service V) (fv_Usage V) i update db)"
| "do_frame V (FrUsage i usage) db = snd (RecordRunUsage (fv_Service V) (fv_Usage V) i usage db)"
| "do_frame V (FrCanonicalize r) db = snd (maybeCanonicalizeRunUsage (fv_Usage V) r db)"
| "do_frame V (FrReset ws ag ad tk) db = snd (ResetTaskSession (fv_Service V) ws ag ad tk db)"
| "do_frame V (FrClaim r snap) db = snd (InTx (claimTaskSessionAnchor (fv_Service V) r snap) db)"
| "do_frame V (FrGrant l) db = snd (RunnerRepo_CreateLease l db)"
| "do_frame V (FrReleaseBy r t) db = snd (RunnerRepo_ReleaseActiveLeasesByRunner r t db)"
| "do_frame V (FrExpire t) db = snd (RunnerRepo_ExpireLeases t db)"
| "do_frame V (FrRenew r t) db = snd (RunnerRepo_RenewLeasesByRunner r t db)"
| "do_frame V (FrRenewIfEpoch r e b t) db = snd (RunnerRepo_RenewLeasesByRunnerIfEpoch r e b t db)"
| "do_frame V (FrSnapshots xs) db = db\<lparr>db_snapshots := db_snapshots db @ xs\<rparr>"
| "do_frame V (FrService p) db = do_op (fv_Service V) (fv_Approvals V) (fv_Sprint V) (fv_Forward V) p db"

definition frame_history :: "'a FrameEnv \<Rightarrow> frame_op list \<Rightarrow> 'a UsageDb_scheme \<Rightarrow> 'a UsageDb_scheme" where
  "frame_history V ops db = foldl (\<lambda>db p. do_frame V p db) db ops"

lemma frame_history_simps [simp]:
  "frame_history V [] db = db" "frame_history V (p # ops) db = frame_history V ops (do_frame V p db)"
  by (simp_all add: frame_history_def)

text \<open>What the environment of a history leaves alone, and what it may do.\<close>

definition frames_within :: "('a UsageDb_scheme \<Rightarrow> 'a UsageDb_scheme \<Rightarrow> bool) \<Rightarrow> 'a FrameEnv \<Rightarrow> bool" where
  "frames_within R V \<longleftrightarrow> env_within R (fv_Service V) (fv_Approvals V) (fv_Forward V)"

lemma frames_renew: "frames_within R V \<Longrightarrow> renews_alone (fv_Service V)"
  by (simp add: frames_within_def env_within_def)

text \<open>A relation that every operation stays within holds between the ends of a history.\<close>

lemma history_within:
  assumes "\<And>db. R db db" and "\<And>a b c. R a b \<Longrightarrow> R b c \<Longrightarrow> R a c" and "\<And>p db. R db (do_frame V p db)"
  shows "R db (frame_history V ops db)"
proof (induction ops arbitrary: db)
  case (Cons p ops)
  show ?case using assms(2) [OF assms(3) Cons.IH] by simp
qed (simp add: assms(1))

lemma lease_ops_keep_seen:
  fixes db :: "'a LeaseDb_scheme"
  shows "db_dedup (snd (RunnerRepo_CreateLease l db)) = db_dedup db"
    "db_dedup (snd (RunnerRepo_ReleaseActiveLeasesByRunner r t db)) = db_dedup db"
    "db_dedup (snd (RunnerRepo_ExpireLeases t db)) = db_dedup db"
    "db_dedup (snd (RunnerRepo_RenewLeasesByRunner r t db)) = db_dedup db"
    "db_dedup (snd (RunnerRepo_RenewLeasesByRunnerIfEpoch r e b t db)) = db_dedup db"
proof -
  show "db_dedup (snd (RunnerRepo_CreateLease l db)) = db_dedup db"
    unfolding RunnerRepo_CreateLease_def InTx_def exec_stmt_def insert_lease_def by (auto simp: Let_def split: prod.splits)
  show "db_dedup (snd (RunnerRepo_ReleaseActiveLeasesByRunner r t db)) = db_dedup db"
    "db_dedup (snd (RunnerRepo_ExpireLeases t db)) = db_dedup db"
    unfolding RunnerRepo_ReleaseActiveLeasesByRunner_def RunnerRepo_ExpireLeases_def query_stmt_def exec_stmt_def release_where_def
    by (auto simp: Let_def split: prod.splits)
  have renew: "db_dedup (snd (RunnerRepo_RenewLeasesByRunner r t db)) = db_dedup db" for db :: "'a LeaseDb_scheme"
    unfolding RunnerRepo_RenewLeasesByRunner_def exec_stmt_def release_where_def by (auto simp: Let_def split: prod.splits)
  then show "db_dedup (snd (RunnerRepo_RenewLeasesByRunner r t db)) = db_dedup db" .
  obtain x db1 where q: "query_stmt (\<lambda>t db. (case List.find (\<lambda>x. ru_ID x = r) (db_runners db) of
      None \<Rightarrow> Inl ErrNotFound | Some r \<Rightarrow> Inr (ru_ConnectionEpoch r, ru_BootID r))) db = (x, db1)" 
    by (cases "query_stmt (\<lambda>t db. (case List.find (\<lambda>x. ru_ID x = r) (db_runners db) of
      None \<Rightarrow> Inl ErrNotFound | Some r \<Rightarrow> Inr (ru_ConnectionEpoch r, ru_BootID r))) db")
  then have "db_dedup db1 = db_dedup db" by (cases rule: query_stmt_cases) auto
  then show "db_dedup (snd (RunnerRepo_RenewLeasesByRunnerIfEpoch r e b t db)) = db_dedup db"
    unfolding RunnerRepo_RenewLeasesByRunnerIfEpoch_def q by (auto simp: renew split: sum.splits)
qed

lemma frame_fences:
  assumes env: "frames_within fences_kept V"
  shows "fences_kept db (do_frame V p db)"
proof -
  note ren = frames_renew [OF env]
  have r: "within always fences_kept (RecordRunSessionUpdate S E i update)" "within always fences_kept (RecordRunUsage S E i usage)"
    "within always fences_kept (maybeCanonicalizeRunUsage E r)" "within always fences_kept (InTx (claimTaskSessionAnchor S r snap))"
    for S E i update usage r snap
    unfolding RecordRunSessionUpdate_def RecordRunUsage_def maybeCanonicalizeRunUsage_def
    by (intro fe.tx fe.cond fe.return fe.session_report fe.usage_report fe.canonicalized fe.claimed)+
  have g: "fences_kept db (snd (f db))" if "keeps fenced table_le f" "db_dedup (snd (f db)) = db_dedup db"
    for f :: "'a UsageDb_scheme \<Rightarrow> 'r \<times> 'a UsageDb_scheme" and db
    using that keepsD [OF that(1)] by (simp add: fences_kept_def)
  show ?thesis
  proof (cases p)
    case (FrService q)
    then show ?thesis using env by (simp add: frames_within_def fe.service_op)
  qed (simp_all add: withinD [OF fe.frame_applied [OF ren]] withinD [OF fe.frame_answered(1) [OF ren]]
      withinD [OF fe.frame_answered(2) [OF ren]] withinD [OF r(1)] withinD [OF r(2)] withinD [OF r(3)] withinD [OF r(4)]
      withinD [OF fe.reset] g [OF grows_create lease_ops_keep_seen(1)] g [OF grows_ops(2) lease_ops_keep_seen(2)]
      g [OF grows_ops(3) lease_ops_keep_seen(3)] g [OF grows_ops(4) lease_ops_keep_seen(4)] g [OF grows_renew_epoch lease_ops_keep_seen(5)],
      simp add: fences_kept_def)
qed

lemma history_fences: "frames_within fences_kept V \<Longrightarrow> fences_kept db (frame_history V ops db)"
  by (rule history_within [where R = fences_kept, OF fe.refl fe.trans frame_fences])

section \<open>Which frames count\<close>

definition same_tables :: "'a Conn_scheme \<Rightarrow> 'a Conn_scheme \<Rightarrow> bool" where
  "same_tables db db' \<longleftrightarrow> tables db' = tables db"

interpretation tb: effect same_tables
  by unfold_locales (simp_all add: same_tables_def)

lemma tables_fields:
  fixes db :: "'a UsageDb_scheme"
  assumes "tables db' = tables db"
  shows "db_leases db' = db_leases db" "db_dedup db' = db_dedup db" "db_runs db' = db_runs db"
proof -
  have "db_leases (tables db') = db_leases (tables db)" "db_dedup (tables db') = db_dedup (tables db)"
    "db_runs (tables db') = db_runs (tables db)" using assms by simp_all
  then show "db_leases db' = db_leases db" "db_dedup db' = db_dedup db" "db_runs db' = db_runs db"
    by (simp_all add: tables_def)
qed

lemma admitted_reads:
  fixes db db1 :: "'a UsageDb_scheme"
  shows "frame_admitted inp db = (x, db1) \<Longrightarrow> tables db1 = tables db"
proof -
  let ?same = "same_tables :: 'a UsageDb_scheme \<Rightarrow> 'a UsageDb_scheme \<Rightarrow> bool"
  have q: "within always ?same (RunnerRepo_ActiveLease i)" "within always ?same (RunnerRepo_GetLease i)"
    "within always ?same (RunRepo_Get i)" for i
    unfolding RunnerRepo_ActiveLease_def RunnerRepo_GetLease_def RunRepo_Get_def by (rule tb.query)+
  have l: "within always ?same (releasedLeaseObservationAllowed inp)" for inp :: RunnerEventInput
    unfolding releasedLeaseObservationAllowed_def
  proof (rule tb.run_after [OF q(2)])
    fix x :: "go_error + RunLease" and db1 :: "'a UsageDb_scheme"
    have 1: "within always ?same (bindM (RunRepo_Get (rv_RunID inp)) (\<lambda>r. returnM (RunStatus_IsTerminal (rn_Status r))))"
      by (intro tb.rules q)
    show "?same db1 (snd (case x of Inl e \<Rightarrow> (if e = ErrNotFound then Inr False else Inl e, db1)
        | Inr l \<Rightarrow> if \<not> ls_Released l \<or> ls_RunID l \<noteq> rv_RunID inp \<or> ls_RunnerID l \<noteq> rv_RunnerID inp \<or> ls_FencingToken l \<noteq> rv_FencingToken inp
          then (Inr False, db1)
          else bindM (RunRepo_Get (rv_RunID inp)) (\<lambda>r. returnM (RunStatus_IsTerminal (rn_Status r))) db1))"
      using withinD [OF 1 TrueI] by (cases x) (simp_all add: tb.refl)
  qed
  have "within always ?same (frame_admitted inp)"
    unfolding frame_admitted_def by (intro tb.rules q l)
  then show "frame_admitted inp db = (x, db1) \<Longrightarrow> tables db1 = tables db"
    unfolding within_def same_tables_def by (metis snd_conv)
qed

lemma within_result: "within always R f \<Longrightarrow> f db = (x, db') \<Longrightarrow> R db db'"
  using withinD [of always R f db] by simp

definition frame_key :: "RunnerEventInput \<Rightarrow> string \<times> string \<times> string \<times> int" where
  "frame_key inp = (rv_RunID inp, rv_LeaseID inp, rv_RunnerID inp, rv_ProducerSeq inp)"

lemma dedup_result:
  assumes "dedup_frame inp db = (Inr u, db1)"
  shows "frame_key inp \<notin> set (db_dedup db) \<and> frame_key inp \<in> set (db_dedup db1)"
proof -
  obtain x d where d: "RunnerRepo_RunnerEventDedupV2 (rv_RunID inp) (rv_LeaseID inp) (rv_RunnerID inp) (rv_ProducerSeq inp) db = (x, d)"
    by (cases "RunnerRepo_RunnerEventDedupV2 (rv_RunID inp) (rv_LeaseID inp) (rv_RunnerID inp) (rv_ProducerSeq inp) db")
  then have x: "x = Inr ()" "d = db1" using assms by (auto simp: dedup_frame_def split: sum.splits)
  from d show ?thesis unfolding x RunnerRepo_RunnerEventDedupV2_def
    by (cases rule: exec_stmt_cases) (auto simp: frame_key_def split: if_splits)
qed

lemma finish_applied: "finish_frame S inp eff db = (Inr (outcome, f), db1) \<Longrightarrow> outcome = RunnerEventApplied"
  unfolding finish_frame_def by (cases eff) (auto elim!: bindM_cases)

text \<open>A frame that was applied was admitted and new; all others leave the tables as they were.\<close>

lemma frame_cases:
  assumes "ApplyRunnerEvent S E inp db = (res, db')"
  obtains "tables db' = tables db" "\<And>ack x. res = Inr (ack, x) \<Longrightarrow> rk_Outcome ack \<noteq> RunnerEventApplied"
  | db0 db1 db2 db3 ended approval n where "db0 = db\<lparr>cn_step := Suc (cn_step db)\<rparr>"
      "frame_admitted inp db0 = (Inr True, db1)" "dedup_frame inp db1 = (Inr (), db2)"
      "with_run (rv_RunID inp) (\<lambda>r w. bindM (apply_kind S E inp r) (finish_frame S inp)) db2 = (Inr (RunnerEventApplied, ended, approval), db3)"
      "db' = db3\<lparr>cn_step := n\<rparr>" "res = Inr (ack_of inp RunnerEventApplied, ended, approval)"
proof -
  obtain x d where t: "InTx (apply_frame S E inp) db = (x, d)" by (cases "InTx (apply_frame S E inp) db")
  from t show ?thesis
  proof (cases rule: InTx_cases)
    case (1 e n)
    then show ?thesis using assms that(1) by (auto simp: ApplyRunnerEvent_def t ack_of_def split: if_splits)
  next
    case (2 f db3 n)
    obtain outcome ended approval where f: "f = (outcome, ended, approval)" by (cases f)
    let ?d0 = "db\<lparr>cn_step := Suc (cn_step db)\<rparr>"
    have "apply_frame S E inp ?d0 = (Inr (outcome, ended, approval), db3)" using 2(2) f by simp
    then obtain adm db1 where a: "frame_admitted inp ?d0 = (Inr adm, db1)"
      and rest: "(if adm then apply_admitted S E inp else returnM (RunnerEventStale, False, None)) db1 = (Inr (outcome, ended, approval), db3)"
      unfolding apply_frame_def by (auto elim!: bindM_cases)
    have res: "res = Inr (ack_of inp outcome, ended, approval)" "db' = db3\<lparr>cn_step := n\<rparr>"
      using assms 2(1,3) f by (simp_all add: ApplyRunnerEvent_def t)
    show ?thesis
    proof (cases adm)
      case True
      then have "apply_admitted S E inp db1 = (Inr (outcome, ended, approval), db3)" using rest by simp
      then obtain db2 where d: "dedup_frame inp db1 = (Inr (), db2)"
        and w: "with_run (rv_RunID inp) (\<lambda>r w. bindM (apply_kind S E inp r) (finish_frame S inp)) db2 = (Inr (outcome, ended, approval), db3)"
        unfolding apply_admitted_def by (auto elim!: bindM_cases)
      from w have "outcome = RunnerEventApplied" unfolding with_run_def by (auto elim!: bindM_cases dest: finish_applied)
      then show ?thesis using that(2) [OF refl _ d _ res(2)] a True w res(1) by simp
    next
      case False
      then have "outcome = RunnerEventStale" "db3 = db1" using rest by simp_all
      then show ?thesis using that(1) res admitted_reads [OF a] by (simp add: ack_of_def)
    qed
  qed
qed

lemma admitted_lease:
  assumes "frame_admitted inp db = (Inr True, db1)"
  shows "(\<exists>row \<in> set (db_leases db). lr_RunID row = rv_RunID inp \<and> lr_LeaseID row = rv_LeaseID inp \<and> lr_FencingToken row = rv_FencingToken inp \<and>
        lr_ReleasedAt row = None \<and> (\<forall>l \<in> set (db_leases db). lr_RunID l = rv_RunID inp \<longrightarrow> lr_FencingToken l \<le> rv_FencingToken inp)) \<or>
    LateTerminalObservationKind (rv_Kind inp) \<and> (\<exists>r \<in> set (db_runs db). rn_ID r = rv_RunID inp \<and> RunStatus_IsTerminal (rn_Status r))"
proof -
  obtain l d where l: "RunnerRepo_ActiveLease (rv_RunID inp) db = (Inr l, d)"
    and rest: "(if activeLeaseMatches l (rv_LeaseID inp) (rv_RunnerID inp) (rv_FencingToken inp) then returnM True
     else if \<not> LateTerminalObservationKind (rv_Kind inp) then returnM False else releasedLeaseObservationAllowed inp) d = (Inr True, db1)"
    using assms unfolding frame_admitted_def by (auto elim!: bindM_cases)
  show ?thesis
  proof (cases "activeLeaseMatches l (rv_LeaseID inp) (rv_RunnerID inp) (rv_FencingToken inp)")
    case True
    then show ?thesis using active_lease_row [OF l] by (fastforce simp: activeLeaseMatches_def lease_of_def)
  next
    case False
    then have k: "LateTerminalObservationKind (rv_Kind inp)" and rl: "releasedLeaseObservationAllowed inp d = (Inr True, db1)"
      using rest by (auto split: if_splits)
    have dr: "db_runs d = db_runs db" using l unfolding RunnerRepo_ActiveLease_def by (cases rule: query_stmt_cases) auto
    obtain g d1 where g: "RunnerRepo_GetLease (rv_LeaseID inp) d = (g, d1)" by (cases "RunnerRepo_GetLease (rv_LeaseID inp) d")
    have d1: "db_runs d1 = db_runs d" using g unfolding RunnerRepo_GetLease_def by (cases rule: query_stmt_cases) auto
    obtain r where "RunRepo_Get (rv_RunID inp) d1 = (Inr r, db1)" "RunStatus_IsTerminal (rn_Status r)"
      using rl unfolding releasedLeaseObservationAllowed_def g by (auto elim!: bindM_cases split: sum.splits if_splits)
    then show ?thesis using k run_get [of "rv_RunID inp" d1 r db1] d1 dr by auto
  qed
qed

text \<open>
  C5. Exactly once: after a frame was applied, no frame with the same run, lease, runner and number is
  applied again, whatever happens in between; it changes nothing.
\<close>

theorem runner_frame_once:
  assumes env: "frames_within fences_kept V" and key: "frame_key again = frame_key inp"
    and first: "ApplyRunnerEvent (fv_Service V) (fv_Usage V) inp db = (Inr (ack, x), db1)" "rk_Outcome ack = RunnerEventApplied"
    and later: "ApplyRunnerEvent (fv_Service V) (fv_Usage V) again (frame_history V ops db1) = (res, db2)"
  shows "tables db2 = tables (frame_history V ops db1) \<and> (\<forall>ack' y. res = Inr (ack', y) \<longrightarrow> rk_Outcome ack' \<noteq> RunnerEventApplied)"
proof -
  note ren = frames_renew [OF env]
  have "frame_key inp \<in> set (db_dedup db1)" using first(1)
  proof (cases rule: frame_cases)
    case 1
    then show ?thesis using first(2) by blast
  next
    case (2 d0 d1 d2 d3 ended approval n)
    have fin: "within always fences_kept (finish_frame (fv_Service V) inp eff)" for eff
      unfolding finish_frame_def by (cases eff) (auto intro!: fe.bind fe.cond fe.return fe.release fe.moved [OF ren])
    have w: "within always fences_kept (with_run (rv_RunID inp) (\<lambda>r w. bindM (apply_kind (fv_Service V) (fv_Usage V) inp r) (finish_frame (fv_Service V) inp)))"
      unfolding with_run_def
      by (intro fe.bind fe.check fe.kept [OF un_gets(1)] fe.kept [OF un_gets(2)] fe.kind_applied [OF ren] fin)
    have "fences_kept d2 d3" by (rule within_result [OF w 2(4)])
    then show ?thesis using dedup_result [OF 2(3)] 2(5) by (auto simp: fences_kept_def)
  qed
  moreover have "fences_kept db1 (frame_history V ops db1)" by (rule history_fences [OF env])
  ultimately have seen: "frame_key again \<in> set (db_dedup (frame_history V ops db1))" using key by (auto simp: fences_kept_def)
  from later show ?thesis
  proof (cases rule: frame_cases)
    case (2 d0 d1 d2 d3 ended approval n)
    have "db_dedup d1 = db_dedup d0" using tables_fields(2) [OF admitted_reads [OF 2(2)]] .
    then show ?thesis using dedup_result [OF 2(3)] seen 2(1) by simp
  qed blast
qed

text \<open>
  C15. Fencing end to end: once a run has a lease with a higher token, a frame with a lower one is never
  applied, whatever happens; only a late observation of a run that has ended may still be recorded.
\<close>

theorem superseded_frames_refused:
  assumes env: "frames_within fences_kept V" and ok: "fenced (db_leases db)"
    and newer: "l \<in> set (db_leases db)" "lr_RunID l = rv_RunID inp" "rv_FencingToken inp < lr_FencingToken l"
    and later: "ApplyRunnerEvent S E inp (frame_history V ops db) = (res, db2)"
  shows "tables db2 = tables (frame_history V ops db) \<or>
    LateTerminalObservationKind (rv_Kind inp) \<and>
      (\<exists>r \<in> set (db_runs (frame_history V ops db)). rn_ID r = rv_RunID inp \<and> RunStatus_IsTerminal (rn_Status r))"
  using later
proof (cases rule: frame_cases)
  case (2 d0 d1 d2 d3 ended approval n)
  have "table_le (db_leases db) (db_leases (frame_history V ops db))"
    using history_fences [OF env, of db ops] ok by (simp add: fences_kept_def)
  then obtain l' where "l' \<in> set (db_leases (frame_history V ops db))" "row_le l l'" using table_le_in newer(1) by blast
  then have "l' \<in> set (db_leases d0)" "lr_RunID l' = rv_RunID inp" "rv_FencingToken inp < lr_FencingToken l'"
    using newer 2(1) by (auto simp: row_le_def)
  then show ?thesis using admitted_lease [OF 2(2)] 2(1) by fastforce
qed blast

section \<open>Samples\<close>

definition sample_usage_env :: UsageEnv where
  "sample_usage_env = \<lparr>ue_Report = sample_hash, ue_Usage = sample_hash, ue_Price = sample_hash, ue_Sha256 = (\<lambda>_. 0),
     ue_DecodePrice = (\<lambda>_. None), ue_DecodeReport = (\<lambda>_. None)\<rparr>"

definition sample_session_service :: "UsageDb RunService" where
  "sample_session_service = \<lparr>rs_Codec = sample_codec, rs_NewID = (\<lambda>db. CHR ''e'' # replicate (cn_step db) CHR ''x''),
     rs_RenewDelegated = (\<lambda>_. returnM ())\<rparr>"

definition sample_frames :: UsageDb where
  "sample_frames = \<lparr>cn_env = (\<lambda>n. (False, int n)), cn_step = 0,
     db_runs = [sample_run\<lparr>rn_Status := RunRunning\<rparr>], db_runners = [sample_runner],
     db_leases = [sample_lease ''l1'' 1 10, sample_lease ''l2'' 2 5000000000],
     db_dedup = [], db_runEvents = [], db_stream = [], db_outbox = [], db_activities = [],
     db_items = [sample_item\<lparr>wi_Status := WorkItemInProgress\<rparr>], db_agents = [], db_wakeups = [],
     db_blockers = [], db_questions = [], db_approvals = [], db_grants = [], db_artifacts = [], db_search = [], db_audit = [],
     db_sessions = [], db_snapshots = [], db_usage = (\<lambda>_. no_usage)\<rparr>"

definition sample_frame_env :: "unit FrameEnv" where
  "sample_frame_env = \<lparr>fv_Service = sample_session_service, fv_Usage = sample_usage_env,
     fv_Approvals = \<lparr>ae_GoalGate = (\<lambda>_. returnM ()), ae_ResolvePlan = (\<lambda>_ _ _. returnM (''ws_1'', ''wi_1'')), ae_PlanOf = (\<lambda>_. returnM ''p'')\<rparr>,
     fv_Sprint = (\<lambda>_. ''''), fv_Forward = None\<rparr>"

lemma sample_frames_within: "(\<And>db. R db db) \<Longrightarrow> frames_within R sample_frame_env"
  by (simp add: frames_within_def env_within_def renews_alone_def within_def returnM_def un.refl sample_frame_env_def sample_session_service_def)

definition sample_frame :: "string \<Rightarrow> int \<Rightarrow> RunnerEventInput" where
  "sample_frame lease token = \<lparr>rv_RunID = ''run_1'', rv_LeaseID = lease, rv_RunnerID = ''r1'', rv_FencingToken = token,
     rv_EventID = ''e'', rv_ProducerSeq = 7, rv_Kind = ''run.progress_updated'', rv_Data = [(''progress'', VFloat 1 (-1))]\<rparr>"

theorem runner_frame_once_witness:
  "let db1 = snd (ApplyRunnerEvent sample_session_service sample_usage_env (sample_frame ''l2'' 2) sample_frames);
       db2 = frame_history sample_frame_env [FrExpire 99] db1
   in tables (snd (ApplyRunnerEvent sample_session_service sample_usage_env (sample_frame ''l2'' 2) db2)) = tables db2"
proof -
  let ?call = "ApplyRunnerEvent (fv_Service sample_frame_env) (fv_Usage sample_frame_env) (sample_frame ''l2'' 2)"
  have e: "fv_Service sample_frame_env = sample_session_service" "fv_Usage sample_frame_env = sample_usage_env"
    by (simp_all add: sample_frame_env_def)
  have r: "(case fst (ApplyRunnerEvent sample_session_service sample_usage_env (sample_frame ''l2'' 2) sample_frames) of
      Inr (ack, _) \<Rightarrow> rk_Outcome ack = RunnerEventApplied | Inl _ \<Rightarrow> False)" by code_simp
  then obtain ack x where a: "fst (?call sample_frames) = Inr (ack, x)" "rk_Outcome ack = RunnerEventApplied"
    unfolding e by (auto split: sum.splits)
  have call: "?call sample_frames = (Inr (ack, x), snd (?call sample_frames))" using a(1) by (simp add: prod_eq_iff)
  show ?thesis
    using runner_frame_once [OF sample_frames_within [OF fe.refl] refl call a(2) surjective_pairing, of "[FrExpire 99]"]
    by (simp only: e Let_def)
qed

theorem superseded_frames_refused_witness:
  "let db = frame_history sample_frame_env [FrExpire 99] sample_frames
   in tables (snd (ApplyRunnerEvent sample_session_service sample_usage_env (sample_frame ''l1'' 1) db)) = tables db"
proof -
  have f: "fenced (db_leases sample_frames)" using sample_fenced by (simp add: sample_frames_def sample_lease_db_def)
  have l: "sample_lease ''l2'' 2 5000000000 \<in> set (db_leases sample_frames)"
    "lr_RunID (sample_lease ''l2'' 2 5000000000) = rv_RunID (sample_frame ''l1'' 1)"
    "rv_FencingToken (sample_frame ''l1'' 1) < lr_FencingToken (sample_lease ''l2'' 2 5000000000)"
    by (simp_all add: sample_frames_def sample_lease_def sample_frame_def)
  have k: "\<not> LateTerminalObservationKind (rv_Kind (sample_frame ''l1'' 1))"
    by (simp add: LateTerminalObservationKind_def sample_frame_def)
  show ?thesis
    using superseded_frames_refused [OF sample_frames_within [OF fe.refl] f l surjective_pairing, of sample_session_service sample_usage_env "[FrExpire 99]"] k
    by (simp only: Let_def) blast
qed

section \<open>Effects of whole histories\<close>

text \<open>
  An effect of frames that writing leases and taking snapshots has too is one of every step of a
  history; only the claim of a session is left to its user.
\<close>

locale history_effect = frame_effect R E for R :: "'a UsageDb_scheme \<Rightarrow> 'a UsageDb_scheme \<Rightarrow> bool" and E :: UsageEnv +
  assumes leases: "R db (db\<lparr>db_leases := ls\<rparr>)"
    and snapshots: "R db (db\<lparr>db_snapshots := xs\<rparr>)"
begin

lemma rows_released: "R db (release_where P t db)"
  unfolding release_where_def by (rule leases)

lemma lease_ops:
  "within always R (RunnerRepo_CreateLease l)" "within always R (RunnerRepo_ReleaseActiveLeasesByRunner r t)"
  "within always R (RunnerRepo_ExpireLeases t)" "within always R (RunnerRepo_RenewLeasesByRunner r t)"
proof -
  have e: "R db db2" if "exec_stmt f db = (x, db2)" "\<And>t db. R db (snd (f t db))" for f x db and db2 :: "'a UsageDb_scheme"
    proof -
    have "within always R (exec_stmt f)" by (rule exec_within) (rule that(2))
    then show ?thesis using withinD [where P = always and R = R and db = db and f = "exec_stmt f"] by (simp add: that(1))
  qed
  have q: "R db db2" if "query_stmt f db = (x, db2)" for f x db and db2 :: "'a UsageDb_scheme"
    using withinD [where P = always and R = R and db = db and f = "query_stmt f", OF query TrueI] by (simp add: that)
  show "within always R (RunnerRepo_CreateLease l)"
    unfolding RunnerRepo_CreateLease_def by (intro tx exec_within) (simp add: insert_lease_def Let_def refl leases)
  show "within always R (RunnerRepo_ReleaseActiveLeasesByRunner r t)" "within always R (RunnerRepo_ExpireLeases t)"
    unfolding within_def RunnerRepo_ReleaseActiveLeasesByRunner_def RunnerRepo_ExpireLeases_def Let_def
    by (auto split: prod.splits sum.splits dest!: q intro: trans [OF _ e] simp: rows_released)
  show "within always R (RunnerRepo_RenewLeasesByRunner r t)"
    unfolding within_def RunnerRepo_RenewLeasesByRunner_def Let_def
  proof (intro allI impI, goal_cases)
    case (1 db)
    have w: "R db2 (snd (exec_stmt (\<lambda>ta db. (Inr (g db), db\<lparr>db_leases := f db\<rparr>)) db2))" for g f and db2 :: "'a UsageDb_scheme"
      by (rule withinD [where P = always, OF exec_within TrueI]) (simp add: leases)
    show ?case by (auto split: prod.splits sum.splits intro: trans [OF e w] e simp: rows_released)
  qed
qed

lemma renew_epoch: "within always R (RunnerRepo_RenewLeasesByRunnerIfEpoch r e b t)"
proof -
  have q: "R db db2" if "query_stmt f db = (x, db2)" for f x db and db2 :: "'a UsageDb_scheme"
    using withinD [where P = always and R = R and db = db and f = "query_stmt f", OF query TrueI] by (simp add: that)
  show ?thesis unfolding within_def RunnerRepo_RenewLeasesByRunnerIfEpoch_def
    by (auto split: prod.splits sum.splits dest!: q intro: trans [OF _ withinD [OF lease_ops(4) TrueI]])
qed

lemma step:
  assumes env: "frames_within R V" "fv_Usage V = E"
    and claims: "\<And>r snap. p = FrClaim r snap \<Longrightarrow> within always R (claimTaskSessionAnchor (fv_Service V) r snap)"
  shows "R db (do_frame V p db)"
proof -
  note ren = frames_renew [OF env(1)]
  have r: "within always R (RecordRunSessionUpdate S E i update)" "within always R (RecordRunUsage S E i usage)"
    "within always R (maybeCanonicalizeRunUsage E r)" for S i update usage r
    unfolding RecordRunSessionUpdate_def RecordRunUsage_def maybeCanonicalizeRunUsage_def
    by (intro tx cond return session_report usage_report canonicalized)+
  show ?thesis
  proof (cases p)
    case (FrService q)
    then show ?thesis using env(1) by (simp add: frames_within_def service_op)
  next
    case (FrClaim r snap)
    then show ?thesis using withinD [where P = always, OF tx [OF claims] TrueI] by simp
  qed (simp_all add: env(2) withinD [OF frame_applied [OF ren]] withinD [OF frame_answered(1) [OF ren]]
      withinD [OF frame_answered(2) [OF ren]] withinD [OF r(1)] withinD [OF r(2)] withinD [OF r(3)]
      withinD [OF reset] withinD [OF lease_ops(1)] withinD [OF lease_ops(2)] withinD [OF lease_ops(3)]
      withinD [OF lease_ops(4)] withinD [OF renew_epoch] snapshots)
qed

lemma history:
  assumes env: "frames_within R V" "fv_Usage V = E"
    and claims: "\<And>r snap. FrClaim r snap \<in> set ops \<Longrightarrow> within always R (claimTaskSessionAnchor (fv_Service V) r snap)"
  shows "R db (frame_history V ops db)"
  using claims
proof (induction ops arbitrary: db)
  case (Cons p ops)
  have "R db (do_frame V p db)" by (rule step [OF env]) (auto intro: Cons.prems)
  moreover have "R (do_frame V p db) (frame_history V ops (do_frame V p db))" by (rule Cons.IH) (auto intro: Cons.prems)
  ultimately show ?case by (simp add: trans [of db "do_frame V p db"])
qed (simp add: refl)

end

section \<open>Usage that was settled\<close>

text \<open>What the checks and the triggers of the usage columns keep.\<close>

definition usage_valid :: "UsageEnv \<Rightarrow> string \<Rightarrow> RunUsage \<Rightarrow> bool" where
  "usage_valid E i u \<longleftrightarrow> validateRunUsageSnapshots (ue_Report E) (ue_Usage E) i u = None"

definition usage_grows :: "RunUsage \<Rightarrow> RunUsage \<Rightarrow> bool" where
  "usage_grows u u' \<longleftrightarrow> canonical_kept u u' \<and> us_ReportSeq u \<le> us_ReportSeq u' \<and> (us_Report u \<noteq> None \<longrightarrow> us_Report u' \<noteq> None) \<and>
     (us_Report u \<noteq> None \<and> us_Canonical u \<noteq> None \<longrightarrow> us_Report u' = us_Report u \<and> us_ReportSeq u' = us_ReportSeq u)"

definition usage_settled :: "UsageEnv \<Rightarrow> 'a UsageDb_scheme \<Rightarrow> 'a UsageDb_scheme \<Rightarrow> bool" where
  "usage_settled E db db' \<longleftrightarrow> (\<forall>i. usage_grows (db_usage db i) (db_usage db' i) \<and>
     (usage_valid E i (db_usage db i) \<longrightarrow> usage_valid E i (db_usage db' i)))"

lemma usage_grows_refl [simp]: "usage_grows u u"
  by (simp add: usage_grows_def canonical_kept_def)

lemma usage_grows_trans: "usage_grows a b \<Longrightarrow> usage_grows b c \<Longrightarrow> usage_grows a c"
  by (auto simp: usage_grows_def canonical_kept_def)

lemma usage_write: "canonical_kept u u' \<Longrightarrow> report_follows u u' \<Longrightarrow> usage_grows u u'"
  by (auto simp: usage_grows_def canonical_kept_def report_follows_def split: option.splits if_splits)

interpretation us: effect "usage_settled E" for E
  by unfold_locales (auto simp: usage_settled_def intro: usage_grows_trans)

interpretation us: history_effect "usage_settled E" E for E
  by unfold_locales (auto simp: usage_settled_def untouched_def release_where_def usage_valid_def intro: usage_write)

interpretation us: claim_effect "usage_settled E" E for E
  by unfold_locales (simp add: usage_settled_def)

text \<open>
  C17. Once the usage of a run is settled it never changes, whatever is reported, claimed, reset or
  swept afterwards: neither the canonical usage nor its digest nor the report it was made from; the
  numbers of the reports never go back, and columns that pass their checks keep passing them.
\<close>

theorem canonical_usage_settled:
  assumes env: "frames_within (usage_settled (fv_Usage V)) V"
  shows "let u = db_usage db i; u' = db_usage (frame_history V ops db) i in
     (\<forall>c. us_Canonical u = Some c \<longrightarrow> us_Canonical u' = Some c \<and> us_CanonicalDigest u' = us_CanonicalDigest u \<and>
       (us_Report u \<noteq> None \<longrightarrow> us_Report u' = us_Report u \<and> us_ReportSeq u' = us_ReportSeq u)) \<and>
     us_ReportSeq u \<le> us_ReportSeq u' \<and>
     (validateRunUsageSnapshots (ue_Report (fv_Usage V)) (ue_Usage (fv_Usage V)) i u = None \<longrightarrow>
        validateRunUsageSnapshots (ue_Report (fv_Usage V)) (ue_Usage (fv_Usage V)) i u' = None)"
proof -
  have "usage_settled (fv_Usage V) db (frame_history V ops db)"
    by (rule us.history [OF env refl us.claimed])
  then show ?thesis unfolding usage_settled_def usage_grows_def canonical_kept_def usage_valid_def Let_def
    by (metis option.distinct(1))
qed

definition sample_usage :: "int \<Rightarrow> Usage" where
  "sample_usage n = \<lparr>rt_InputTokens = n, rt_OutputTokens = 0, rt_CachedTokens = 0, rt_Basis = UsageBasisPerRun, rt_ProviderReport = None\<rparr>"

definition sample_settled :: UsageDb where
  "sample_settled = sample_frames\<lparr>db_runs := [sample_run\<lparr>rn_Status := RunSucceeded\<rparr>],
     db_usage := (\<lambda>_. no_usage\<lparr>us_Canonical := Some (absentCanonicalUsage sample_run)\<rparr>)\<rparr>"

theorem canonical_usage_settled_witness:
  "us_Canonical (db_usage (frame_history sample_frame_env
     [FrUsage ''run_1'' (sample_usage 5), FrCanonicalize (sample_run\<lparr>rn_Status := RunSucceeded\<rparr>)] sample_settled) ''run_1'') =
   Some (absentCanonicalUsage sample_run)"
  using canonical_usage_settled [OF sample_frames_within [OF us.refl], of sample_settled "''run_1''"
      "[FrUsage ''run_1'' (sample_usage 5), FrCanonicalize (sample_run\<lparr>rn_Status := RunSucceeded\<rparr>)]"]
  by (simp add: sample_settled_def Let_def del: frame_history_simps)

end
