(* ===== verification/SessionHistories.thy ===== *)
theory SessionHistories
  imports FrameHistories
begin

text \<open>
  Who owns a session over a history, and the account of its input tokens: reports of superseded runs
  change nothing, and the tokens of a session are the tokens of its runs, counted once.
\<close>

section \<open>Who owns a session\<close>

type_synonym session_key = "string \<times> string \<times> string \<times> string"

definition run_session :: "ExecutionRun \<Rightarrow> session_key" where
  "run_session r = (rn_WorkspaceID r, rn_AgentProfileID r, rn_AdapterID r, rn_WorkItemID r)"

definition key_of :: "TaskSession \<Rightarrow> session_key" where
  "key_of t = (ts_WorkspaceID t, ts_AgentProfileID t, ts_AdapterID t, ts_TaskKey t)"

definition session_at :: "session_key \<Rightarrow> 'a UsageDb_scheme \<Rightarrow> TaskSession option" where
  "session_at k db = List.find (\<lambda>t. key_of t = k) (db_sessions db)"

lemma session_of_key: "session_of t row \<longleftrightarrow> key_of row = key_of t"
  by (auto simp: session_of_def same_session_def key_of_def)

lemma same_session_key: "same_session ws ag ad tk t \<longleftrightarrow> key_of t = (ws, ag, ad, tk)"
  by (auto simp: same_session_def key_of_def)

lemma same_owner_key: "same_owner t t' \<Longrightarrow> key_of t' = key_of t"
  by (simp add: same_owner_def session_of_key)

text \<open>The session keeps its owner, and a session that is there stays there.\<close>

definition owner_kept :: "session_key \<Rightarrow> 'a UsageDb_scheme \<Rightarrow> 'a UsageDb_scheme \<Rightarrow> bool" where
  "owner_kept k db db' \<longleftrightarrow> (\<forall>t. session_at k db = Some t \<longrightarrow> (\<exists>t'. session_at k db' = Some t' \<and> same_owner t t'))"

lemma find_map_same:
  assumes "\<And>t. t \<in> set ts \<Longrightarrow> key_of (f t) = key_of t"
  shows "List.find (\<lambda>t. key_of t = k) (map f ts) = map_option f (List.find (\<lambda>t. key_of t = k) ts)"
  using assms by (induction ts) auto

lemma find_append: "List.find P (xs @ ys) = (case List.find P xs of None \<Rightarrow> List.find P ys | Some x \<Rightarrow> Some x)"
  by (induction xs) auto

lemma same_owner_refl [simp]: "same_owner t t"
  by (simp add: same_owner_def session_of_key)

lemma same_owner_trans: "same_owner a b \<Longrightarrow> same_owner b c \<Longrightarrow> same_owner a c"
  by (auto simp: same_owner_def session_of_key)

lemma session_found: "List.find (\<lambda>t. key_of t = k) ts = Some t \<Longrightarrow> key_of t = k"
  by (auto simp: find_Some_iff)

interpretation ow: effect "owner_kept k" for k
proof (unfold_locales, goal_cases)
  case (2 db db1 db2)
  then show ?case unfolding owner_kept_def by (metis same_owner_trans)
qed (simp_all add: owner_kept_def session_at_def)

lemma rewritten_owner:
  assumes "\<And>t. hit t \<Longrightarrow> same_owner t (f t)"
  shows "owner_kept k db (db\<lparr>db_sessions := map (\<lambda>t. if hit t then f t else t) (db_sessions db)\<rparr>)"
proof -
  have "List.find (\<lambda>t. key_of t = k) (map (\<lambda>t. if hit t then f t else t) (db_sessions db)) =
      map_option (\<lambda>t. if hit t then f t else t) (List.find (\<lambda>t. key_of t = k) (db_sessions db))"
    by (rule find_map_same) (auto dest: assms same_owner_key)
  then show ?thesis using assms by (auto simp: owner_kept_def session_at_def)
qed

interpretation ow: history_effect "owner_kept k" E for k E
proof (unfold_locales, goal_cases)
  case (2 hit f db)
  then show ?case by (rule rewritten_owner)
qed (auto simp: owner_kept_def session_at_def untouched_def release_where_def find_append split: option.splits)

text \<open>The claim of another session leaves this one alone.\<close>

lemma bindM_assoc: "bindM (bindM f g) h = bindM f (\<lambda>x. bindM (g x) h)"
  by (rule ext) (simp add: bindM_def split: prod.splits sum.splits)

lemma readM_bind: "bindM (readM f g) h = readM f (\<lambda>x. bindM (g x) h)"
  by (rule ext) (simp add: bindM_def readM_def)

lemma returnM_bind: "bindM (returnM x) h = h x"
  by (rule ext) (simp add: bindM_def returnM_def)

lemma build_then:
  "bindM (build_session S ws ag ad tk ps) g =
     readM (\<lambda>db. (rs_NewID S db, nowM db)) (\<lambda>(i, now). bindM (anchorParent ws ag ad tk) (\<lambda>parent. g (new_session i now ws ag ad tk parent ps)))"
  unfolding build_session_def by (simp add: readM_bind bindM_assoc returnM_bind split_def)

lemma claimed_other_row:
  assumes "key_of t \<noteq> k"
  shows "owner_kept k db (db\<lparr>db_sessions := map (\<lambda>row. if session_of t row then claimed_row t row else row) (db_sessions db)\<rparr>)"
proof -
  have "List.find (\<lambda>t. key_of t = k) (map (\<lambda>row. if session_of t row then claimed_row t row else row) (db_sessions db)) =
      map_option (\<lambda>row. if session_of t row then claimed_row t row else row) (List.find (\<lambda>t. key_of t = k) (db_sessions db))"
    by (rule find_map_same) (simp add: claimed_row_def key_of_def)
  then show ?thesis using assms by (auto simp: owner_kept_def session_at_def session_of_key dest: session_found)
qed

lemma claim_other:
  assumes "key_of t \<noteq> k"
  shows "within always (owner_kept k) (TaskSessionRepo_ClaimAnchor t)"
proof -
  have u: "owner_kept k db (snd (upsert_session t False (claimed_row t) db))" for db :: "'a UsageDb_scheme"
    unfolding upsert_session_def update_sessions_def by (simp add: ow.refl ow.insert_row claimed_other_row [OF assms])
  have "owner_kept k db (snd (if list_ex (session_of t) (db_sessions db) \<and> \<not> session_refs_known t db then (Inl fkError, db)
      else case upsert_session t False (claimed_row t) db of (Inl e, db1) \<Rightarrow> (Inl e, db1)
      | (Inr _, db1) \<Rightarrow> (case List.find (session_of t) (db_sessions db1) of None \<Rightarrow> Inl ErrNotFound | Some row \<Rightarrow> scan_session row, db1)))"
    for db :: "'a UsageDb_scheme"
    using u [of db] by (auto simp: ow.refl split: prod.splits sum.splits)
  then show ?thesis unfolding TaskSessionRepo_ClaimAnchor_def
    by (cases "validateProviderUsageAnchorState t") (auto intro: ow.fail within_any [OF ow.exec_within])
qed

lemma claimed_other:
  assumes "run_session r \<noteq> k"
  shows "within always (owner_kept k) (claimTaskSessionAnchor S r snap)"
  unfolding claimTaskSessionAnchor_def build_then
proof (intro ow.cond ow.return ow.read)
  fix x :: "string \<times> time"
  show "within always (owner_kept k) (case x of (i, now) \<Rightarrow> bindM (anchorParent (rn_WorkspaceID r) (rn_AgentProfileID r) (rn_AdapterID r) (rn_WorkItemID r)) (\<lambda>parent.
      bindM (TaskSessionRepo_ClaimAnchor ((new_session i now (rn_WorkspaceID r) (rn_AgentProfileID r) (rn_AdapterID r) (rn_WorkItemID r) parent [])
        \<lparr>ts_ContextSnapshotID := sn_ID snap, ts_ContextGeneration := sn_ContextGeneration snap, ts_LastRunID := rn_ID r, ts_AnchorRunSequence := 1\<rparr>))
        (\<lambda>_. returnM ())))"
    by (cases x) (use assms in \<open>auto intro!: ow.bind ow.parent claim_other ow.return simp: key_of_def new_session_def run_session_def\<close>)
qed

text \<open>After the claim of a run the session is there and is the run's.\<close>

lemma claim_owner:
  assumes "TaskSessionRepo_ClaimAnchor t db = (Inr row, db')"
  shows "\<exists>row'. session_at (key_of t) db' = Some row' \<and> ts_LastRunID row' = ts_LastRunID t"
proof -
  have v: "validateProviderUsageAnchorState t = None" using assms unfolding TaskSessionRepo_ClaimAnchor_def by (auto split: option.splits)
  obtain d where "(if list_ex (session_of t) (db_sessions d) \<and> \<not> session_refs_known t d then (Inl fkError, d)
      else case upsert_session t False (claimed_row t) d of (Inl e, db1) \<Rightarrow> (Inl e, db1)
      | (Inr _, db1) \<Rightarrow> (case List.find (session_of t) (db_sessions db1) of None \<Rightarrow> Inl ErrNotFound | Some row \<Rightarrow> scan_session row, db1)) = (Inr row, db')"
    using assms unfolding TaskSessionRepo_ClaimAnchor_def v option.case
  proof (cases rule: exec_stmt_cases)
    case (2 now)
    show ?thesis by (rule that [OF 2])
  qed simp
  then obtain n where u: "upsert_session t False (claimed_row t) d = (Inr n, db')"
    by (auto split: if_splits prod.splits sum.splits)
  show ?thesis
  proof (cases "list_ex (session_of t) (db_sessions d)")
    case True
    then obtain row0 where f: "List.find (\<lambda>x. key_of x = key_of t) (db_sessions d) = Some row0"
      by (cases "List.find (\<lambda>x. key_of x = key_of t) (db_sessions d)") (auto simp: find_None_iff list_ex_iff session_of_key)
    have "List.find (\<lambda>x. key_of x = key_of t) (map (\<lambda>row. if session_of t row then claimed_row t row else row) (db_sessions d)) =
        map_option (\<lambda>row. if session_of t row then claimed_row t row else row) (List.find (\<lambda>x. key_of x = key_of t) (db_sessions d))"
      by (rule find_map_same) (simp add: claimed_row_def key_of_def)
    moreover have "session_of t row0" using session_found [OF f] by (simp add: session_of_key)
    ultimately show ?thesis using True u f
      by (auto simp: upsert_session_def update_sessions_def session_at_def claimed_row_def)
  next
    case False
    then have "List.find (\<lambda>x. key_of x = key_of t) (db_sessions d) = None" by (auto simp: find_None_iff list_ex_iff session_of_key)
    then show ?thesis using False u
      by (auto simp: upsert_session_def insert_session_def session_at_def find_append key_of_def split: if_splits)
  qed
qed

lemma claimed_owner:
  assumes "InTx (claimTaskSessionAnchor S r snap) db = (Inr (), db')" and "rn_AdapterID r \<noteq> ''''"
  shows "\<exists>t. session_at (run_session r) db' = Some t \<and> ts_LastRunID t = rn_ID r"
  using assms(1)
proof (cases rule: InTx_cases)
  case (2 x db2 n)
  let ?t = "\<lambda>i now parent. (new_session i now (rn_WorkspaceID r) (rn_AgentProfileID r) (rn_AdapterID r) (rn_WorkItemID r) parent [])
        \<lparr>ts_ContextSnapshotID := sn_ID snap, ts_ContextGeneration := sn_ContextGeneration snap, ts_LastRunID := rn_ID r, ts_AnchorRunSequence := 1\<rparr>"
  from 2(2) assms(2) obtain i now parent d row where "TaskSessionRepo_ClaimAnchor (?t i now parent) d = (Inr row, db2)"
    unfolding claimTaskSessionAnchor_def build_then readM_def by (auto elim!: bindM_cases)
  from claim_owner [OF this] show ?thesis
    unfolding 2(3) by (simp add: key_of_def new_session_def run_session_def session_at_def)
qed simp

section \<open>Reports of superseded runs\<close>

lemma query_counts: "query_stmt f db = (x, db1) \<Longrightarrow> db1 = db\<lparr>cn_step := Suc (cn_step db)\<rparr>"
  by (cases rule: query_stmt_cases) auto

lemma get_reads:
  "RunRepo_Get i db = (x, db1) \<Longrightarrow> db1 = db\<lparr>cn_step := Suc (cn_step db)\<rparr>"
  "WorkItemRepo_Get i db = (y, db1) \<Longrightarrow> db1 = db\<lparr>cn_step := Suc (cn_step db)\<rparr>"
  "ContextSnapshotRepo_GetByRun i d = (z, d1) \<Longrightarrow> d1 = d\<lparr>cn_step := Suc (cn_step d)\<rparr>"
  "TaskSessionRepo_Get ws ag ad tk d = (s, d1) \<Longrightarrow> d1 = d\<lparr>cn_step := Suc (cn_step d)\<rparr>"
  unfolding RunRepo_Get_def WorkItemRepo_Get_def ContextSnapshotRepo_GetByRun_def TaskSessionRepo_Get_def
  by (rule query_counts, assumption)+

lemma session_get:
  assumes "TaskSessionRepo_Get ws ag ad tk db = (Inr t, db1)"
  shows "session_at (ws, ag, ad, tk) db = Some t"
proof -
  have "(case List.find (same_session ws ag ad tk) (db_sessions db) of None \<Rightarrow> Inl ErrNotFound | Some t \<Rightarrow> scan_session t) = Inr t"
    using assms unfolding TaskSessionRepo_Get_def by (cases rule: query_stmt_cases) auto
  then show ?thesis unfolding session_at_def
    by (auto simp: same_session_key [abs_def] scan_session_def guarded_def split: option.splits if_splits)
qed

lemma gate_closed:
  assumes gate: "taskSessionAnchorGate r db = (Inr g, db')"
    and owner: "session_at (run_session r) db = Some t" "ts_LastRunID t \<noteq> ''''" "ts_LastRunID t \<noteq> rn_ID r" "rn_AdapterID r \<noteq> ''''"
  shows "g = Closed \<and> tables db' = tables db"
proof -
  obtain x db1 where x: "ContextSnapshotRepo_GetByRun (rn_ID r) db = (x, db1)" by (cases "ContextSnapshotRepo_GetByRun (rn_ID r) db")
  obtain y db2 where y: "TaskSessionRepo_Get (rn_WorkspaceID r) (rn_AgentProfileID r) (rn_AdapterID r) (rn_WorkItemID r) db1 = (y, db2)"
    by (cases "TaskSessionRepo_Get (rn_WorkspaceID r) (rn_AgentProfileID r) (rn_AdapterID r) (rn_WorkItemID r) db1")
  have d: "db1 = db\<lparr>cn_step := Suc (cn_step db)\<rparr>" "db2 = db1\<lparr>cn_step := Suc (cn_step db1)\<rparr>"
    using get_reads(3) [OF x] get_reads(4) [OF y] .
  have "t' = t" if "y = Inr t'" for t'
    using session_get [OF y [unfolded that]] owner(1) d(1) by (simp add: run_session_def session_at_def)
  then show ?thesis using gate owner(2-4) unfolding taskSessionAnchorGate_def x y prod.case
    by (auto simp: y gate_of_def d tables_def split: sum.splits if_splits)
qed

lemma report_closed:
  assumes rep: "RecordRunSessionUpdate S E i update db = (res, db')"
    and runs: "\<And>r. r \<in> set (db_runs db) \<Longrightarrow> rn_ID r = i \<Longrightarrow> run_session r = k" and adapter: "fst (snd (snd k)) \<noteq> ''''"
    and owner: "session_at k db = Some t" "ts_LastRunID t \<noteq> ''''" "ts_LastRunID t \<noteq> i"
  shows "tables db' = tables db"
proof -
  let ?tx = "recordRunSessionUpdateTx S E i update"
  have "InTx ?tx db = (res, db')" using rep unfolding RecordRunSessionUpdate_def .
  then show ?thesis
  proof (cases rule: InTx_cases)
    case (2 x db2 n)
    let ?d0 = "db\<lparr>cn_step := Suc (cn_step db)\<rparr>"
    from 2(2) obtain r d1 w d2 g d3 where r: "RunRepo_Get i ?d0 = (Inr r, d1)" and w: "WorkItemRepo_Get (rn_WorkItemID r) d1 = (Inr w, d2)"
      and g: "taskSessionAnchorGate r d2 = (Inr g, d3)"
      and rest: "(case g of Closed \<Rightarrow> returnM (rn_WorkspaceID r) | Open owner snap \<Rightarrow>
           if su_Clear update then (case owner of None \<Rightarrow> returnM (rn_WorkspaceID r)
              | Some t \<Rightarrow> bindM (writeAnchorTombstoneForOwner t (su_ClearReason update)) (\<lambda>_. returnM (rn_WorkspaceID r)))
           else if su_Ref update = '''' then failM (ErrValidation ''session ref required'')
           else (case owner of None \<Rightarrow> write_session_ref r update
                 | Some t \<Rightarrow> bindM (report_session S E r t snap update) (\<lambda>updated.
                     if \<not> updated then returnM (rn_WorkspaceID r) else write_session_ref r update))) d3 = (Inr x, db2)"
      unfolding recordRunSessionUpdateTx_def with_run_def checkM_def
      by (elim bindM_cases) (auto split: option.splits)
    have d2: "d1 = ?d0\<lparr>cn_step := Suc (Suc (cn_step db))\<rparr>" "d2 = d1\<lparr>cn_step := Suc (Suc (Suc (cn_step db)))\<rparr>"
      using get_reads(1) [OF r] get_reads(2) [OF w] by simp_all
    have "run_session r = k" "rn_ID r = i" using runs [of r] run_get [OF r] by simp_all
    then have "g = Closed" "tables d3 = tables d2"
      using gate_closed [OF g, of t] owner adapter by (auto simp: session_at_def d2 run_session_def)
    then have "tables db2 = tables d2" using rest by simp
    then show ?thesis unfolding 2(3) by (simp add: d2 tables_def)
  qed (simp add: tables_def)
qed

text \<open>
  C16. Ownership of sessions: after a run has claimed the session of its workspace, agent, adapter and
  task, no session report of another run with the same four can change anything, whatever happens in
  between, until the session is claimed again. Runs of the task by another agent or adapter have
  sessions of their own; the resolution of a plan may do anything but claim this session.
\<close>

theorem superseded_session_reports:
  assumes env: "frames_within (owner_kept (run_session r)) V"
    and claim: "InTx (claimTaskSessionAnchor (fv_Service V) r snap) db = (Inr (), db1)" "rn_AdapterID r \<noteq> ''''" "rn_ID r \<noteq> ''''"
    and ops: "\<And>r' snap'. FrClaim r' snap' \<in> set ops \<Longrightarrow> run_session r' \<noteq> run_session r"
    and late: "i \<noteq> rn_ID r" "\<And>r'. r' \<in> set (db_runs (frame_history V ops db1)) \<Longrightarrow> rn_ID r' = i \<Longrightarrow> run_session r' = run_session r"
    and report: "RecordRunSessionUpdate S E i update (frame_history V ops db1) = (res, db2)"
  shows "tables db2 = tables (frame_history V ops db1)"
proof -
  obtain t where t: "session_at (run_session r) db1 = Some t" "ts_LastRunID t = rn_ID r" using claimed_owner [OF claim(1,2)] by blast
  have "owner_kept (run_session r) db1 (frame_history V ops db1)"
    by (rule ow.history [OF env refl]) (rule claimed_other, rule ops)
  then obtain t' where t': "session_at (run_session r) (frame_history V ops db1) = Some t'" "ts_LastRunID t' = rn_ID r"
    using t by (auto simp: owner_kept_def same_owner_def)
  have k: "fst (snd (snd (run_session r))) \<noteq> ''''" using claim(2) by (simp add: run_session_def)
  show ?thesis using t'(2) claim(3) late(1)
    by (intro report_closed [OF report late(2) k t'(1)]) auto
qed

definition sample_runs :: "ExecutionRun list" where
  "sample_runs = [sample_run\<lparr>rn_Status := RunRunning, rn_AdapterID := ''codex''\<rparr>,
     sample_run\<lparr>rn_ID := ''run_2'', rn_Status := RunRunning, rn_AdapterID := ''codex''\<rparr>]"

definition sample_snapshot :: "string \<Rightarrow> ContextSnapshot" where
  "sample_snapshot i = \<lparr>sn_ID = CHR ''s'' # i, sn_RunID = i, sn_ContextGeneration = 1, sn_SnapshotDigest = ''d''\<rparr>"

definition sample_sessions :: UsageDb where
  "sample_sessions = sample_frames\<lparr>db_runs := sample_runs, db_snapshots := [sample_snapshot ''run_1'', sample_snapshot ''run_2'']\<rparr>"

definition sample_update :: SessionUpdate where
  "sample_update = \<lparr>su_Ref = ''ref'', su_Params = [], su_DisplayID = ''d'', su_Clear = False, su_ClearReason = ''''\<rparr>"

definition sample_claimed :: UsageDb where
  "sample_claimed = frame_history sample_frame_env [FrReleaseBy ''r1'' 5]
     (snd (InTx (claimTaskSessionAnchor sample_session_service (sample_runs ! 1) (sample_snapshot ''run_2'')) sample_sessions))"

theorem superseded_session_reports_witness:
  "tables (snd (RecordRunSessionUpdate sample_session_service sample_usage_env ''run_1'' sample_update sample_claimed)) = tables sample_claimed \<and>
   map (\<lambda>r. rn_SessionRef r) (db_runs (snd (RecordRunSessionUpdate sample_session_service sample_usage_env ''run_2'' sample_update sample_claimed))) =
     ['''', ''ref'']"
proof
  let ?claim = "InTx (claimTaskSessionAnchor (fv_Service sample_frame_env) (sample_runs ! 1) (sample_snapshot ''run_2'')) sample_sessions"
  have e: "fv_Service sample_frame_env = sample_session_service" by (simp add: sample_frame_env_def)
  have "fst (InTx (claimTaskSessionAnchor sample_session_service (sample_runs ! 1) (sample_snapshot ''run_2'')) sample_sessions) = Inr ()"
    by code_simp
  then have c: "?claim = (Inr (), snd ?claim)" by (simp add: e prod_eq_iff)
  have h: "sample_claimed = frame_history sample_frame_env [FrReleaseBy ''r1'' 5] (snd ?claim)" by (simp add: sample_claimed_def e)
  have r: "map (\<lambda>r. (rn_ID r, run_session r)) (db_runs sample_claimed) = map (\<lambda>r. (rn_ID r, run_session r)) sample_runs" by code_simp
  have k: "run_session r' = run_session (sample_runs ! 1)" if "r' \<in> set (db_runs sample_claimed)" for r'
  proof -
    have "(rn_ID r', run_session r') \<in> set (map (\<lambda>r. (rn_ID r, run_session r)) sample_runs)" using that unfolding r [symmetric] by auto
    then show ?thesis by (auto simp: sample_runs_def run_session_def)
  qed
  have s: "rn_AdapterID (sample_runs ! 1) \<noteq> ''''" "rn_ID (sample_runs ! 1) \<noteq> ''''" "''run_1'' \<noteq> rn_ID (sample_runs ! 1)"
    by (simp_all add: sample_runs_def)
  show "tables (snd (RecordRunSessionUpdate sample_session_service sample_usage_env ''run_1'' sample_update sample_claimed)) = tables sample_claimed"
    using superseded_session_reports [OF sample_frames_within [OF ow.refl] c s(1,2) _ s(3) _ surjective_pairing, of "[FrReleaseBy ''r1'' 5]"] k
    unfolding h by simp
  show "map (\<lambda>r. rn_SessionRef r) (db_runs (snd (RecordRunSessionUpdate sample_session_service sample_usage_env ''run_2'' sample_update sample_claimed))) =
     ['''', ''ref'']" by code_simp
qed

section \<open>Input tokens are counted once\<close>

text \<open>
  What the last report of a run contributes to its session, and the sum over the runs of a session. Only
  reports per run count: a report of the sum over a session leaves the tokens of the session alone.
\<close>

definition counted :: "RunUsage \<Rightarrow> int" where
  "counted u = (if us_Basis u = UsageBasisPerRun then us_In u else 0)"

definition run_keys :: "'a UsageDb_scheme \<Rightarrow> (string \<times> session_key) list" where
  "run_keys db = map (\<lambda>r. (rn_ID r, run_session r)) (db_runs db)"

definition session_total :: "session_key \<Rightarrow> 'a UsageDb_scheme \<Rightarrow> int" where
  "session_total k db = (\<Sum>p \<leftarrow> run_keys db. if snd p = k then counted (db_usage db (fst p)) else 0)"

text \<open>One row for every run and session, and no negative counters.\<close>

definition books_ok :: "'a UsageDb_scheme \<Rightarrow> bool" where
  "books_ok db \<longleftrightarrow> distinct (map fst (run_keys db)) \<and> distinct (map key_of (db_sessions db)) \<and> (\<forall>r \<in> set (db_runs db). 0 \<le> us_In (db_usage db (rn_ID r)))"

text \<open>What a settlement and the log leave alone: the counted tokens on both sides.\<close>

definition same_books :: "'a UsageDb_scheme \<Rightarrow> 'a UsageDb_scheme \<Rightarrow> bool" where
  "same_books db db' \<longleftrightarrow> run_keys db' = run_keys db \<and>
     map (\<lambda>t. (key_of t, ts_InputTokensCum t)) (db_sessions db') = map (\<lambda>t. (key_of t, ts_InputTokensCum t)) (db_sessions db) \<and>
     (\<forall>i. us_In (db_usage db' i) = us_In (db_usage db i) \<and> us_Basis (db_usage db' i) = us_Basis (db_usage db i))"

interpretation sb: effect same_books
  by unfold_locales (simp_all add: same_books_def run_keys_def)

definition only_log :: "'a UsageDb_scheme \<Rightarrow> 'a UsageDb_scheme \<Rightarrow> bool" where
  "only_log db db' \<longleftrightarrow> db_runs db' = db_runs db \<and> db_sessions db' = db_sessions db \<and> db_usage db' = db_usage db"

interpretation ol: effect only_log
  by unfold_locales (simp_all add: only_log_def)

lemma only_log_append: "within always only_log (EventRepo_Append cd ev re)"
proof -
  have "within always only_log (insert_run_event ev re)" "within always only_log (insert_stream ev p)"
    "within always only_log (insert_outbox ev p)" "within always only_log (EventRepo_AppendActivityFor ws wi k m)"
    for ev :: CanonicalEvent and re p ws wi k m
    unfolding insert_run_event_def insert_stream_def insert_outbox_def EventRepo_AppendActivityFor_def
    by (rule ol.exec_within; simp add: only_log_def Let_def)+
  then show ?thesis unfolding EventRepo_Append_def by (intro ol.rules)
qed

lemma only_log_emit: "within always only_log (emit S ws ty at ai v re data)"
  unfolding within_def
proof (intro allI impI)
  fix db :: "'a UsageDb_scheme"
  have s: "within always only_log (bindM (EventRepo_Append cd ev' re') (\<lambda>_. returnM ()))" for cd ev' re'
    by (intro ol.rules only_log_append)
  show "only_log db (snd (emit S ws ty at ai v re data db))"
  proof (cases "NewCanonicalEvent (rs_NewID S db) (nowM db) ws ty at ai v (if re = None then data else withoutAgentID data)")
    case (Inl e)
    then show ?thesis by (simp add: emit_def Service_emit_def failM_def ol.refl)
  next
    case (Inr ev)
    show ?thesis by (simp only: emit_def Service_emit_def Let_def Inr sum.case) (rule withinD [OF s TrueI])
  qed
qed

lemma written_key: "rn_ID (written_run r t row) = rn_ID row" "run_session (written_run r t row) = run_session row"
  by (simp_all add: written_run_def run_session_def)

text \<open>The writes, by what they return.\<close>

lemma get_usage:
  assumes "RunRepo_GetWithUsage HP HU i db = (Inr (r, u), db')"
  shows "db' = db\<lparr>cn_step := Suc (cn_step db)\<rparr>" "u = db_usage db i" "rn_ID r = i" "r \<in> set (db_runs db)"
proof -
  show "db' = db\<lparr>cn_step := Suc (cn_step db)\<rparr>" using assms unfolding RunRepo_GetWithUsage_def by (rule query_counts)
  have "(case List.find (\<lambda>r. rn_ID r = i) (db_runs db) of None \<Rightarrow> Inl ErrNotFound
      | Some r \<Rightarrow> guarded (validateRunUsageSnapshots HP HU i (db_usage db i)) (r, db_usage db i)) = Inr (r, u)"
    using assms unfolding RunRepo_GetWithUsage_def
    by (cases rule: query_stmt_cases; cases "List.find (\<lambda>r. rn_ID r = i) (db_runs db)") auto
  then show "u = db_usage db i" "rn_ID r = i" "r \<in> set (db_runs db)"
    by (auto split: option.splits simp: find_Some_iff)
qed

lemma usage_written:
  fixes db db' :: "'a UsageDb_scheme"
  assumes "RunRepo_UpdateWithUsage HP HU r u v db = (Inr x, db')"
  shows "run_keys db' = run_keys db" "db_sessions db' = db_sessions db" "db_usage db' = (db_usage db)(rn_ID r := u)"
proof -
  obtain t where "(let hit = (\<lambda>row. rn_ID row = rn_ID r \<and> rn_Version row = v); d = db\<lparr>cn_step := Suc (cn_step db)\<rparr>; old = db_usage d (rn_ID r)
          in if \<not> list_ex hit (db_runs d) then (Inl ErrVersionConflict, d)
             else if \<not> canonical_kept old u then (Inl (ErrOther ''execution run canonical usage is immutable after first write''), d)
             else if \<not> report_follows old u then (Inl (ErrOther ''execution run provider usage report sequence or canonicalization state is invalid''), d)
             else (Inr (), d\<lparr>db_runs := map (\<lambda>row. if hit row then written_run r t row else row) (db_runs d),
                    db_usage := (db_usage d)(rn_ID r := u)\<rparr>)) = (Inr x, db')"
    using assms unfolding RunRepo_UpdateWithUsage_def Let_def by (auto split: option.splits elim!: exec_stmt_cases)
  then show "run_keys db' = run_keys db" "db_sessions db' = db_sessions db" "db_usage db' = (db_usage db)(rn_ID r := u)"
    by (auto simp: Let_def run_keys_def written_key split: if_splits)
qed

lemma baseline_books: "within always (same_books :: 'a UsageDb_scheme \<Rightarrow> _) (advance_baseline r session next)"
proof -
  have k: "key_of (t\<lparr>ts_ProviderUsageAnchor := a, ts_ProviderUsageAnchorSeq := n, ts_UpdatedAt := now\<rparr>) = key_of t" for t a n now
    by (simp add: key_of_def)
  have upd: "same_books db (db\<lparr>db_sessions := map (\<lambda>t. if hit t then t\<lparr>ts_ProviderUsageAnchor := a, ts_ProviderUsageAnchorSeq := n, ts_UpdatedAt := now\<rparr> else t)
      (db_sessions db)\<rparr>)" for db :: "'a UsageDb_scheme" and hit a n now
    by (simp add: same_books_def run_keys_def k cong: map_cong if_cong)
  have "within always (same_books :: 'a UsageDb_scheme \<Rightarrow> _) (TaskSessionRepo_UpdateProviderUsageAnchorCAS ws ag ad tk a m i n)" for ws ag ad tk a m i n
    unfolding TaskSessionRepo_UpdateProviderUsageAnchorCAS_def update_sessions_def
    by (auto intro!: sb.bind sb.fail sb.return sb.exec_within upd split: option.splits simp: sb.refl)
  then show ?thesis unfolding advance_baseline_def
    by (cases "(next, session)"; cases "next"; cases session) (auto intro!: sb.bind sb.cond sb.return sb.fail)
qed

lemma settle_books:
  assumes "canonicalizeRunUsageLocked E i b db = (Inr x, db')"
  shows "same_books db db'"
proof -
  from assms obtain r u d1 where g: "RunRepo_GetWithUsage (ue_Report E) (ue_Usage E) i db = (Inr (r, u), d1)"
    and rest: "(if \<not> RunStatus_IsTerminal (rn_Status r) then returnM False
     else if us_Canonical u \<noteq> None then returnM True
     else bindM (if us_Report u = None then returnM None else providerUsageSession r) (\<lambda>session. readM nowM (\<lambda>now.
       case canonical_of E r u session b now of
         Inl e \<Rightarrow> failM e
       | Inr None \<Rightarrow> returnM False
       | Inr (Some (c, next)) \<Rightarrow>
           bindM (RunRepo_UpdateWithUsage (ue_Report E) (ue_Usage E) r (u\<lparr>us_Canonical := Some c, us_CanonicalDigest := cu_Digest c\<rparr>) (rn_Version r))
             (\<lambda>_. advance_baseline r session next)))) d1 = (Inr x, db')"
    unfolding canonicalizeRunUsageLocked_def by (elim bindM_cases) auto
  note gu = get_usage [OF g]
  have 1: "same_books db d1" unfolding gu(1) by (rule sb.count)
  show ?thesis
  proof (cases "\<not> RunStatus_IsTerminal (rn_Status r) \<or> us_Canonical u \<noteq> None")
    case True
    then show ?thesis using rest 1 by (auto split: if_splits)
  next
    case False
    then obtain session d2 where s: "(if us_Report u = None then returnM None else providerUsageSession r) d1 = (Inr session, d2)"
      and tail: "(case canonical_of E r u session b (nowM d2) of Inl e \<Rightarrow> failM e | Inr None \<Rightarrow> returnM False
       | Inr (Some (c, next)) \<Rightarrow>
           bindM (RunRepo_UpdateWithUsage (ue_Report E) (ue_Usage E) r (u\<lparr>us_Canonical := Some c, us_CanonicalDigest := cu_Digest c\<rparr>) (rn_Version r))
             (\<lambda>_. advance_baseline r session next)) d2 = (Inr x, db')"
      using rest unfolding readM_def by (auto elim!: bindM_cases)
    have "\<exists>n. d2 = d1\<lparr>cn_step := n\<rparr>"
    proof (cases "us_Report u = None")
      case True
      then show ?thesis using s by (auto intro: exI [of _ "cn_step d1"])
    next
      case F: False
      obtain y d where y: "TaskSessionRepo_Get (rn_WorkspaceID r) (rn_AgentProfileID r) (rn_AdapterID r) (rn_WorkItemID r) d1 = (y, d)"
        by (cases "TaskSessionRepo_Get (rn_WorkspaceID r) (rn_AgentProfileID r) (rn_AdapterID r) (rn_WorkItemID r) d1")
      show ?thesis using s F get_reads(4) [OF y] unfolding providerUsageSession_def
        by (auto simp: y split: sum.splits if_splits)
    qed
    then obtain n where d2: "d2 = d1\<lparr>cn_step := n\<rparr>" ..
    then have 2: "same_books db d2" using 1 sb.trans sb.count by blast
    show ?thesis
    proof (cases "canonical_of E r u session b (nowM d2)")
      case (Inl e)
      then show ?thesis using tail by simp
    next
      case (Inr res)
      show ?thesis
      proof (cases res)
        case None
        then show ?thesis using tail Inr 2 by simp
      next
        case (Some cn)
        obtain c "next" where cn: "cn = (c, next)" by (cases cn)
        obtain y d3 where w: "RunRepo_UpdateWithUsage (ue_Report E) (ue_Usage E) r (u\<lparr>us_Canonical := Some c, us_CanonicalDigest := cu_Digest c\<rparr>)
            (rn_Version r) d2 = (Inr y, d3)" and a: "advance_baseline r session next d3 = (Inr x, db')"
          using tail unfolding Inr Some cn by (auto elim!: bindM_cases)
        have "same_books d2 d3"
          using usage_written [OF w] gu by (simp add: same_books_def d2)
        moreover have "same_books d3 db'" by (rule within_result [OF baseline_books a])
        ultimately show ?thesis using 2 sb.trans by blast
      qed
    qed
  qed
qed

section \<open>The balance of a session\<close>

lemma books_ok_keys: "books_ok db \<longleftrightarrow> distinct (map fst (run_keys db)) \<and> distinct (map key_of (db_sessions db)) \<and>
    (\<forall>p \<in> set (run_keys db). 0 \<le> us_In (db_usage db (fst p)))"
  by (simp add: books_ok_def run_keys_def)

text \<open>What a session has counted moves with the total of its runs.\<close>

definition balanced :: "'a UsageDb_scheme \<Rightarrow> 'a UsageDb_scheme \<Rightarrow> bool" where
  "balanced db db' \<longleftrightarrow> books_ok db' \<and> run_keys db' = run_keys db \<and>
     (\<forall>k t. session_at k db = Some t \<longrightarrow> fst (snd (snd k)) \<noteq> '''' \<longrightarrow>
        (\<exists>t'. session_at k db' = Some t' \<and> ts_InputTokensCum t' - session_total k db' = ts_InputTokensCum t - session_total k db))"

lemma balancedD:
  assumes "balanced db db'" and "session_at k db = Some t" and "fst (snd (snd k)) \<noteq> ''''"
  obtains t' where "session_at k db' = Some t'"
    "ts_InputTokensCum t' - session_total k db' = ts_InputTokensCum t - session_total k db"
  using assms unfolding balanced_def by blast

lemma balanced_trans:
  assumes "balanced a b" and "balanced b c"
  shows "balanced a c"
  unfolding balanced_def
proof (intro conjI allI impI)
  show "books_ok c" "run_keys c = run_keys a" using assms by (simp_all add: balanced_def)
  fix k t
  assume k: "session_at k a = Some t" "fst (snd (snd k)) \<noteq> ''''"
  obtain t1 where t1: "session_at k b = Some t1" "ts_InputTokensCum t1 - session_total k b = ts_InputTokensCum t - session_total k a"
    by (rule balancedD [OF assms(1) k])
  obtain t2 where "session_at k c = Some t2" "ts_InputTokensCum t2 - session_total k c = ts_InputTokensCum t1 - session_total k b"
    by (rule balancedD [OF assms(2) t1(1) k(2)])
  then show "\<exists>t'. session_at k c = Some t' \<and> ts_InputTokensCum t' - session_total k c = ts_InputTokensCum t - session_total k a"
    using t1(2) by simp
qed

lemma find_pairs:
  "map (\<lambda>t. (key_of t, f t)) ts' = map (\<lambda>t. (key_of t, f t)) ts \<Longrightarrow>
    map_option f (List.find (\<lambda>t. key_of t = k) ts') = map_option f (List.find (\<lambda>t. key_of t = k) ts)"
proof (induction ts arbitrary: ts')
  case (Cons t ts)
  obtain t2 ts2 where e: "ts' = t2 # ts2" "key_of t2 = key_of t" "f t2 = f t"
    and m: "map (\<lambda>t. (key_of t, f t)) ts2 = map (\<lambda>t. (key_of t, f t)) ts"
    using Cons.prems by (cases ts') simp_all
  show ?case using Cons.IH [OF m] e by (cases "key_of t = k") simp_all
qed simp

lemma same_books_balanced:
  assumes "same_books db db'" and "books_ok db"
  shows "balanced db db'"
proof -
  have c: "counted (db_usage db' i) = counted (db_usage db i)" for i using assms(1) by (simp add: same_books_def counted_def)
  have t: "session_total k db' = session_total k db" for k using assms(1) by (simp add: session_total_def c same_books_def cong: if_cong)
  have m: "map (\<lambda>t. (key_of t, ts_InputTokensCum t)) (db_sessions db') = map (\<lambda>t. (key_of t, ts_InputTokensCum t)) (db_sessions db)"
    using assms(1) by (simp add: same_books_def)
  have "map key_of (db_sessions db') = map key_of (db_sessions db)" using arg_cong [OF m, of "map fst"] by (simp add: comp_def)
  then have "books_ok db'" using assms unfolding books_ok_keys by (simp add: same_books_def)
  moreover have "map_option ts_InputTokensCum (session_at k db') = map_option ts_InputTokensCum (session_at k db)" for k
    unfolding session_at_def by (rule find_pairs [OF m])
  moreover have "run_keys db' = run_keys db" using assms(1) by (simp add: same_books_def)
  ultimately show ?thesis unfolding balanced_def t by (metis map_option_eq_Some)
qed

text \<open>Writing the usage of one run moves the total of its session only.\<close>

lemma sum_update:
  assumes "distinct (map fst ks)"
  shows "(\<Sum>p \<leftarrow> ks. if snd p = k then (g(j := v)) (fst p) else (0::int)) =
    (\<Sum>p \<leftarrow> ks. if snd p = k then g (fst p) else 0) + (if (j, k) \<in> set ks then v - g j else 0)"
  using assms
proof (induction ks)
  case (Cons p ks)
  obtain i k' where p: "p = (i, k')" by (cases p)
  show ?case
  proof (cases "i = j")
    case True
    then have "\<forall>(i', k'') \<in> set ks. i' \<noteq> j" using Cons.prems p by force
    then have "(j, k) \<notin> set ks" by auto
    then show ?thesis using Cons True p by auto
  next
    case False
    then show ?thesis using Cons p by auto
  qed
qed simp

lemma total_update:
  assumes "books_ok db" and "run_keys db' = run_keys db" and "db_usage db' = (db_usage db)(j := u)"
  shows "session_total k db' = session_total k db + (if (j, k) \<in> set (run_keys db) then counted u - counted (db_usage db j) else 0)"
proof -
  have d: "distinct (map fst (run_keys db))" using assms(1) by (simp add: books_ok_def)
  have e: "counted (((db_usage db)(j := u)) i) = ((\<lambda>i. counted (db_usage db i))(j := counted u)) i" for i by simp
  show ?thesis unfolding session_total_def assms(2,3) e by (rule sum_update [OF d])
qed

text \<open>A report adds to its session what it adds to the run.\<close>

lemma report_delta:
  assumes v: "validateRuntimeUsage usage = None" and m: "usage_monotone u usage = None"
    and u: "0 \<le> us_In u" and top: "rt_InputTokens usage \<le> maxInt64"
    and u': "us_In u' = rt_InputTokens usage" "us_Basis u' = rt_Basis usage"
  shows "counted u' - counted u = (if rt_Basis usage = UsageBasisPerRun then token_delta u usage else 0)"
    "rt_Basis usage = UsageBasisPerRun \<Longrightarrow> 0 \<le> token_delta u usage" "0 \<le> us_In u'"
proof -
  have b: "0 \<le> rt_InputTokens usage" using v by (simp add: validateRuntimeUsage_def)
  have ne: "UsageBasisPerRun \<noteq> ''''" by (simp add: UsageBasisPerRun_def)
  have c: "0 \<le> rt_InputTokens usage - counted u" if "rt_Basis usage = UsageBasisPerRun"
    using m u b that by (auto simp: usage_monotone_def counted_def)
  have "in64 (rt_InputTokens usage - counted u)" if "rt_Basis usage = UsageBasisPerRun"
    using c [OF that] u top by (auto simp: in64_def maxInt64_def counted_def)
  then have d: "token_delta u usage = rt_InputTokens usage - counted u" if "rt_Basis usage = UsageBasisPerRun"
    using that unfolding token_delta_def counted_def [symmetric] by simp
  show "counted u' - counted u = (if rt_Basis usage = UsageBasisPerRun then token_delta u usage else 0)"
    using d m ne u' by (auto simp: counted_def usage_monotone_def)
  show "rt_Basis usage = UsageBasisPerRun \<Longrightarrow> 0 \<le> token_delta u usage" using c d by simp
  show "0 \<le> us_In u'" using b u' by simp
qed

lemma bound_counters:
  assumes "bindProviderUsageReport E r u rep = Inr u'"
  shows "us_In u' = us_In u" "us_Basis u' = us_Basis u"
  using assms unfolding bindProviderUsageReport_def by (auto split: option.splits if_splits)

text \<open>The tokens go to the one session of the key.\<close>

lemma add_tokens:
  assumes add: "TaskSessionRepo_AddInputTokens ws ag ad tk n db = (Inr x, db')" and ok: "distinct (map key_of (db_sessions db))"
  shows "run_keys db' = run_keys db" "db_usage db' = db_usage db" "map key_of (db_sessions db') = map key_of (db_sessions db)"
    "session_at k db = Some t \<Longrightarrow> \<exists>t'. session_at k db' = Some t' \<and>
       ts_InputTokensCum t' = ts_InputTokensCum t + (if k = (ws, ag, ad, tk) then n else 0)"
proof -
  let ?hit = "\<lambda>row. same_session ws ag ad tk row \<and> ts_InputTokensCum row \<le> maxInt64 - n"
  let ?f = "\<lambda>now row. if ?hit row then row\<lparr>ts_InputTokensCum := ts_InputTokensCum row + n, ts_UpdatedAt := now\<rparr> else row"
  let ?upd = "\<lambda>now. update_sessions False ?hit (\<lambda>row. row\<lparr>ts_InputTokensCum := ts_InputTokensCum row + n, ts_UpdatedAt := now\<rparr>)"
  have "\<not> n < 0" using add unfolding TaskSessionRepo_AddInputTokens_def by (cases "n < 0") simp_all
  then have "bindM (exec_stmt ?upd) (\<lambda>n. if n \<noteq> 1 then failM (ErrValidation ''task session input token accumulation overflow or session missing'')
      else returnM ()) db = (Inr x, db')" using add unfolding TaskSessionRepo_AddInputTokens_def by simp
  then obtain m where x: "exec_stmt ?upd db = (Inr m, db')" and m: "m = 1"
    by (cases rule: bindM_cases) (simp_all split: if_splits)
  from x obtain now where "?upd now (db\<lparr>cn_step := Suc (cn_step db)\<rparr>) = (Inr m, db')"
  proof (cases rule: exec_stmt_cases)
    case (2 now)
    show ?thesis by (rule that [OF 2])
  qed simp
  then have one: "length (filter ?hit (db_sessions db)) = 1"
    and db': "db' = db\<lparr>cn_step := Suc (cn_step db), db_sessions := map (?f now) (db_sessions db)\<rparr>"
    unfolding update_sessions_def m by simp_all
  show "run_keys db' = run_keys db" "db_usage db' = db_usage db" unfolding db' by (simp_all add: run_keys_def)
  have kf: "key_of (?f now row) = key_of row" for row by (simp add: key_of_def)
  then show "map key_of (db_sessions db') = map key_of (db_sessions db)" unfolding db' by (simp add: comp_def)
  assume t: "session_at k db = Some t"
  then have k: "key_of t = k" "t \<in> set (db_sessions db)" unfolding session_at_def by (auto dest: session_found simp: find_Some_iff)
  have at: "session_at k db' = Some (?f now t)"
    using find_map_same [where f = "?f now" and k = k and ts = "db_sessions db", OF kf] t unfolding db' session_at_def by simp
  have "?hit t" if "k = (ws, ag, ad, tk)"
  proof -
    have "filter ?hit (db_sessions db) \<noteq> []" using one by (metis list.size(3) zero_neq_one)
    then obtain row where row: "row \<in> set (db_sessions db)" "?hit row" unfolding filter_empty_conv by blast
    then have "key_of row = key_of t" using that k by (simp add: same_session_key)
    then have "row = t" using ok row(1) k(2) by (simp add: distinct_map inj_on_def)
    then show ?thesis using row(2) by simp
  qed
  then show "\<exists>t'. session_at k db' = Some t' \<and> ts_InputTokensCum t' = ts_InputTokensCum t + (if k = (ws, ag, ad, tk) then n else 0)"
    using at k by (auto simp: same_session_key)
qed

lemma books_ok_write:
  assumes "books_ok db" and "run_keys db' = run_keys db" "map key_of (db_sessions db') = map key_of (db_sessions db)"
    and "db_usage db' = (db_usage db)(j := u)" "0 \<le> us_In u"
  shows "books_ok db'"
  using assms by (simp add: books_ok_keys)

lemma run_key_unique:
  assumes "books_ok db" and "r \<in> set (db_runs db)"
  shows "(rn_ID r, k) \<in> set (run_keys db) \<longleftrightarrow> k = run_session r"
proof -
  have "(rn_ID r, run_session r) \<in> set (run_keys db)" using assms(2) by (auto simp: run_keys_def)
  then show ?thesis using assms(1) eq_key_imp_eq_value [of "run_keys db" "rn_ID r"] unfolding books_ok_def by blast
qed

text \<open>The two writes of a report, of the columns of the run and of the session, keep the balance together.\<close>

lemma writes_balanced:
  assumes ok: "books_ok db" and r: "r \<in> set (db_runs db)" and u: "u = db_usage db (rn_ID r)"
    and v: "validateRuntimeUsage usage = None" and m: "usage_monotone u usage = None" and top: "rt_InputTokens usage \<le> maxInt64"
    and u': "us_In u' = rt_InputTokens usage" "us_Basis u' = rt_Basis usage"
    and d1: "run_keys d1 = run_keys db" "db_sessions d1 = db_sessions db" "db_usage d1 = (db_usage db)(rn_ID r := u')"
    and d2: "only_log d1 d2"
    and add: "(if rn_AdapterID r \<noteq> '''' \<and> rt_Basis usage = UsageBasisPerRun \<and> token_delta u usage > 0
       then TaskSessionRepo_AddInputTokens (rn_WorkspaceID r) (rn_AgentProfileID r) (rn_AdapterID r) (rn_WorkItemID r) (token_delta u usage)
       else returnM ()) d2 = (Inr x, d3)"
  shows "balanced db d3"
proof -
  have u0: "0 \<le> us_In u" using ok u r by (simp add: books_ok_def)
  note delta = report_delta [OF v m u0 top u']
  have d12: "run_keys d2 = run_keys db" "db_sessions d2 = db_sessions db" "db_usage d2 = (db_usage db)(rn_ID r := u')"
    using d1 d2 by (simp_all add: only_log_def run_keys_def)
  let ?n = "if rn_AdapterID r \<noteq> '''' \<and> rt_Basis usage = UsageBasisPerRun \<and> token_delta u usage > 0 then token_delta u usage else 0"
  have dist: "distinct (map key_of (db_sessions d2))" using ok d12(2) by (simp add: books_ok_def)
  have d3: "run_keys d3 = run_keys db" "db_usage d3 = (db_usage db)(rn_ID r := u')" "map key_of (db_sessions d3) = map key_of (db_sessions db)"
    "session_at k db = Some t \<Longrightarrow> \<exists>t'. session_at k d3 = Some t' \<and> ts_InputTokensCum t' = ts_InputTokensCum t + (if k = run_session r then ?n else 0)" for k t
  proof -
    have s: "session_at k d2 = session_at k db" for k using d12(2) by (simp add: session_at_def)
    show "run_keys d3 = run_keys db" "db_usage d3 = (db_usage db)(rn_ID r := u')" "map key_of (db_sessions d3) = map key_of (db_sessions db)"
      using add add_tokens(1-3) [OF _ dist] d12 by (auto split: if_splits)
    show "session_at k db = Some t \<Longrightarrow> \<exists>t'. session_at k d3 = Some t' \<and> ts_InputTokensCum t' = ts_InputTokensCum t + (if k = run_session r then ?n else 0)" for k t
      using add add_tokens(4) [OF _ dist, of "rn_WorkspaceID r" "rn_AgentProfileID r" "rn_AdapterID r" "rn_WorkItemID r" "token_delta u usage" x d3 k t] s [of k]
      by (auto simp: run_session_def split: if_splits)
  qed
  have grow: "session_total k d3 = session_total k db + (if k = run_session r then counted u' - counted u else 0)" for k
    using total_update [OF ok d3(1,2), of k] run_key_unique [OF ok r, of k] by (simp add: u)
  have n: "counted u' - counted u = ?n" if "rn_AdapterID r \<noteq> ''''" using delta that by auto
  show ?thesis unfolding balanced_def
  proof (intro conjI allI impI)
    show "books_ok d3" by (rule books_ok_write [OF ok d3(1,3,2) delta(3)])
    show "run_keys d3 = run_keys db" by (rule d3)
    fix k t
    assume t: "session_at k db = Some t" and k: "fst (snd (snd k)) \<noteq> ''''"
    then have a: "rn_AdapterID r \<noteq> ''''" if "k = run_session r" using that by (simp add: run_session_def)
    obtain t' where t': "session_at k d3 = Some t'" "ts_InputTokensCum t' = ts_InputTokensCum t + (if k = run_session r then ?n else 0)"
      using d3(4) [OF t] by blast
    have "(if k = run_session r then ?n else 0) = (if k = run_session r then counted u' - counted u else 0)"
      using n [OF a] by (cases "k = run_session r") simp_all
    then have "ts_InputTokensCum t' - session_total k d3 = ts_InputTokensCum t - session_total k db"
      unfolding t'(2) grow by simp
    then show "\<exists>t'. session_at k d3 = Some t' \<and> ts_InputTokensCum t' - session_total k d3 = ts_InputTokensCum t - session_total k db"
      using t'(1) by blast
  qed
qed

lemma report_balanced:
  assumes ok: "books_ok db" and top: "rt_InputTokens usage \<le> maxInt64"
  shows "balanced db (snd (RecordRunUsage S E i usage db))"
proof -
  obtain res db' where e: "RecordRunUsage S E i usage db = (res, db')" by (cases "RecordRunUsage S E i usage db")
  have count: "balanced db (db\<lparr>cn_step := n\<rparr>)" for n by (rule same_books_balanced [OF sb.count ok])
  from e have "balanced db db'" unfolding RecordRunUsage_def
  proof (cases rule: InTx_cases)
    case (2 y db2 n)
    let ?d0 = "db\<lparr>cn_step := Suc (cn_step db)\<rparr>"
    from 2(2) obtain r u d1 w d2 where v: "validateRuntimeUsage usage = None"
      and g: "RunRepo_GetWithUsage (ue_Report E) (ue_Usage E) i ?d0 = (Inr (r, u), d1)"
      and w: "WorkItemRepo_Get (rn_WorkItemID r) d1 = (Inr w, d2)" and m: "usage_monotone u usage = None"
      and rest: "(case (case rt_ProviderReport usage of
             None \<Rightarrow> Inr (with_usage u usage) | Some rep \<Rightarrow> bindProviderUsageReport E r (with_usage u usage) rep) of
       Inl e \<Rightarrow> failM e
     | Inr u' \<Rightarrow>
         bindM (RunRepo_UpdateWithUsage (ue_Report E) (ue_Usage E) r u' (rn_Version r)) (\<lambda>_.
         bindM (emit_run S r ''usage.updated'' (wrap64 (rn_Version r + 1))
           [(''usage_in'', VInt64 (rt_InputTokens usage)), (''usage_out'', VInt64 (rt_OutputTokens usage)),
            (''usage_cached'', VInt64 (rt_CachedTokens usage)), (''usage_basis'', VStr (rt_Basis usage)),
            (''record_kind'', Runs.kind_value w)]) (\<lambda>_.
         bindM (if rn_AdapterID r \<noteq> '''' \<and> rt_Basis usage = UsageBasisPerRun \<and> token_delta u usage > 0
                then TaskSessionRepo_AddInputTokens (rn_WorkspaceID r) (rn_AgentProfileID r) (rn_AdapterID r) (rn_WorkItemID r) (token_delta u usage)
                else returnM ()) (\<lambda>_.
         bindM (if RunStatus_IsTerminal (rn_Status r) \<and> us_Canonical u' = None
                then bindM (canonicalizeRunUsageLocked E i False) (\<lambda>_. returnM ()) else returnM ()) (\<lambda>_.
         returnM (rn_WorkspaceID r)))))) d2 = (Inr y, db2)"
      unfolding recordRunUsageTx_def checkM_def by (elim bindM_cases) (auto split: option.splits elim!: bindM_cases)
    note gu = get_usage [OF g]
    have d2: "d2 = db\<lparr>cn_step := Suc (Suc (Suc (cn_step db)))\<rparr>" using gu(1) get_reads(2) [OF w] by simp
    then have ok2: "books_ok d2" and r: "r \<in> set (db_runs d2)" and u: "u = db_usage d2 (rn_ID r)"
      using ok gu by (simp_all add: books_ok_def run_keys_def)
    obtain u' where u': "(case rt_ProviderReport usage of
             None \<Rightarrow> Inr (with_usage u usage) | Some rep \<Rightarrow> bindProviderUsageReport E r (with_usage u usage) rep) = Inr u'"
      using rest by (cases "case rt_ProviderReport usage of
             None \<Rightarrow> Inr (with_usage u usage) | Some rep \<Rightarrow> bindProviderUsageReport E r (with_usage u usage) rep") simp_all
    have c: "us_In u' = rt_InputTokens usage" "us_Basis u' = rt_Basis usage"
      using u' bound_counters by (auto simp: with_usage_def split: option.splits)
    obtain x3 d3 x4 d4 x5 d5 x6 where s3: "RunRepo_UpdateWithUsage (ue_Report E) (ue_Usage E) r u' (rn_Version r) d2 = (Inr x3, d3)"
      and s4: "emit_run S r ''usage.updated'' (wrap64 (rn_Version r + 1))
           [(''usage_in'', VInt64 (rt_InputTokens usage)), (''usage_out'', VInt64 (rt_OutputTokens usage)),
            (''usage_cached'', VInt64 (rt_CachedTokens usage)), (''usage_basis'', VStr (rt_Basis usage)),
            (''record_kind'', Runs.kind_value w)] d3 = (Inr x4, d4)"
      and s5: "(if rn_AdapterID r \<noteq> '''' \<and> rt_Basis usage = UsageBasisPerRun \<and> token_delta u usage > 0
                then TaskSessionRepo_AddInputTokens (rn_WorkspaceID r) (rn_AgentProfileID r) (rn_AdapterID r) (rn_WorkItemID r) (token_delta u usage)
                else returnM ()) d4 = (Inr x5, d5)"
      and s6: "(if RunStatus_IsTerminal (rn_Status r) \<and> us_Canonical u' = None
                then bindM (canonicalizeRunUsageLocked E i False) (\<lambda>_. returnM ()) else returnM ()) d5 = (Inr x6, db2)"
      using rest unfolding u' by (simp only: sum.case) (elim bindM_cases; simp)
    have "only_log d3 d4" using s4 unfolding emit_run_def by (rule within_result [OF only_log_emit])
    then have b5: "balanced d2 d5" by (rule writes_balanced [OF ok2 r u v m top c usage_written [OF s3] _ s5])
    have "same_books d5 db2" using s6 settle_books by (auto split: if_splits elim!: bindM_cases simp: sb.refl)
    then have "balanced d5 db2" by (rule same_books_balanced) (use b5 in \<open>simp add: balanced_def\<close>)
    then have 1: "balanced d2 db2" by (rule balanced_trans [OF b5])
    then have "balanced d2 db'" unfolding 2(3)
      by (rule balanced_trans) (rule same_books_balanced [OF sb.count], use 1 in \<open>simp add: balanced_def\<close>)
    then show ?thesis using count balanced_trans unfolding d2 by blast
  qed (simp add: count)
  then show ?thesis by (simp add: e)
qed

text \<open>
  C6. Input tokens are counted once: whatever sequence of usage reports arrives, of whatever runs of
  a session and with any of them refused or failing, the tokens of the session grow by exactly what
  the input tokens of the last reports of its runs have grown by, where a run counts whose reports
  are per run; a run that reports the sum over its session adds nothing (and no run changes from one
  basis to the other). Run ids and session keys are unique, counters in the store are not negative,
  reported ones fit int64, and the session is one of an adapter.
\<close>

theorem session_tokens_balance:
  assumes "books_ok db" and "\<And>i usage. (i, usage) \<in> set reports \<Longrightarrow> rt_InputTokens usage \<le> maxInt64"
    and "session_at k db = Some t" and "fst (snd (snd k)) \<noteq> ''''"
  shows "let db' = foldl (\<lambda>db (i, usage). snd (RecordRunUsage S E i usage db)) db reports
    in \<exists>t'. session_at k db' = Some t' \<and> ts_InputTokensCum t' - ts_InputTokensCum t = session_total k db' - session_total k db"
proof -
  have "balanced db (foldl (\<lambda>db (i, usage). snd (RecordRunUsage S E i usage db)) db reports)"
    using assms(1,2)
  proof (induction reports arbitrary: db)
    case Nil
    then show ?case by (simp add: same_books_balanced [OF sb.refl])
  next
    case (Cons p reports)
    obtain i usage where p: "p = (i, usage)" by (cases p)
    have 1: "balanced db (snd (RecordRunUsage S E i usage db))" by (rule report_balanced [OF Cons.prems(1)]) (rule Cons.prems(2) [of i], simp add: p)
    have "balanced (snd (RecordRunUsage S E i usage db))
        (foldl (\<lambda>db (i, usage). snd (RecordRunUsage S E i usage db)) (snd (RecordRunUsage S E i usage db)) reports)"
      by (rule Cons.IH) (use 1 Cons.prems(2) in \<open>auto simp: balanced_def\<close>)
    then show ?case by (simp add: p balanced_trans [OF 1])
  qed
  then show ?thesis using balancedD [OF _ assms(3,4)] by (fastforce simp: Let_def algebra_simps)
qed

definition sample_reports :: "(string \<times> Usage) list" where
  "sample_reports = [(''run_1'', sample_usage 5), (''run_2'', sample_usage 3), (''run_1'', sample_usage 2), (''run_1'', sample_usage 9)]"

theorem session_tokens_balance_witness:
  "let db' = foldl (\<lambda>db (i, usage). snd (RecordRunUsage sample_session_service sample_usage_env i usage db)) sample_claimed sample_reports
   in \<exists>t'. session_at (run_session (sample_runs ! 1)) db' = Some t' \<and> ts_InputTokensCum t' = 12"
proof -
  let ?k = "run_session (sample_runs ! 1)"
  let ?db' = "foldl (\<lambda>db (i, usage). snd (RecordRunUsage sample_session_service sample_usage_env i usage db)) sample_claimed sample_reports"
  have k: "map fst (run_keys sample_claimed) = [''run_1'', ''run_2'']" "map key_of (db_sessions sample_claimed) = [?k]"
    "map ts_InputTokensCum (db_sessions sample_claimed) = [0]" by code_simp+
  have s: "(session_total ?k sample_claimed, session_total ?k ?db') = (0, 12)" by code_simp
  have "list_all (\<lambda>r. 0 \<le> us_In (db_usage sample_claimed (rn_ID r))) (db_runs sample_claimed)" by code_simp
  then have ok: "books_ok sample_claimed" unfolding books_ok_def k by (simp add: list_all_iff)
  obtain t where t: "session_at ?k sample_claimed = Some t" "ts_InputTokensCum t = 0"
    using k(2,3) unfolding session_at_def by (cases "db_sessions sample_claimed") auto
  have top: "rt_InputTokens usage \<le> maxInt64" if "(i, usage) \<in> set sample_reports" for i usage
    using that by (auto simp: sample_reports_def sample_usage_def maxInt64_def)
  have a: "fst (snd (snd ?k)) \<noteq> ''''" by (simp add: run_session_def sample_runs_def)
  show ?thesis using session_tokens_balance [where reports = sample_reports and S = sample_session_service and E = sample_usage_env, OF ok top t(1) a] s t(2)
    by (simp add: Let_def)
qed

section \<open>Where the code and its comments part\<close>

definition sample_locked :: UsageDb where
  "sample_locked = sample_sessions\<lparr>
     db_runs := [sample_run\<lparr>rn_Status := RunStarting\<rparr>, sample_run\<lparr>rn_ID := ''run_2'', rn_Status := RunRunning\<rparr>],
     db_items := [sample_item\<lparr>wi_Status := WorkItemInProgress, wi_LockedByRunID := ''run_2'', wi_LockedAt := Some 1\<rparr>]\<rparr>"

definition frame_of :: "string \<Rightarrow> int \<Rightarrow> gomap \<Rightarrow> RunnerEventInput" where
  "frame_of kind n data = (sample_frame ''l2'' 2)\<lparr>rv_Kind := kind, rv_ProducerSeq := n, rv_Data := data\<rparr>"

text \<open>A run that is reported running and failed for the lock of its task keeps its lease: the release looks
  at the reported status, which is not a terminal one.\<close>

lemma lock_failure_keeps_lease:
  "(let db = snd (ApplyRunnerEvent sample_session_service sample_usage_env
      (frame_of ''run.status_changed'' 1 [(''status'', VStr ''running'')]) sample_locked)
    in (map rn_Status (db_runs db), map lr_ReleasedAt (db_leases db))) = ([RunFailed, RunRunning], [None, None])"
  by code_simp

text \<open>A usage frame that can never be applied is neither acknowledged nor closed as poison.\<close>

lemma regressing_usage_unanswered:
  "(let S = sample_session_service; E = sample_usage_env;
        frame = (\<lambda>n k. frame_of ''usage.updated'' n [(''input_tokens'', VInt k), (''output_tokens'', VInt 0), (''cached_tokens'', VInt 0),
          (''basis'', VStr ''per_run'')]);
        db = snd (ApplyRunnerEvent S E (frame 1 5) sample_frames); (res, db') = ApplyRunnerEvent S E (frame 2 4) db
    in (case res of Inl (ErrValidation _) \<Rightarrow> True | _ \<Rightarrow> False, map rn_Status (db_runs db'), map (snd \<circ> snd \<circ> snd) (db_dedup db'))) =
   (True, [RunRunning], [1])"
  by code_simp

text \<open>The audit row of an accept with the wrong digest is rolled back with its transaction.\<close>

lemma mismatch_audit_lost:
  "(let (res, db') = ApplyRunnerAccept \<lparr>rc_RunID = ''run_1'', rc_LeaseID = ''l2'', rc_RunnerID = ''r1'', rc_FencingToken = 2,
      rc_SnapshotDigest = ''x''\<rparr> sample_sessions
    in (res = Inl ErrWorkspaceContextMismatch, length (db_audit db'))) = (True, 0)"
  by code_simp

end
