(* ===== verification/Spec2Isabelle.thy ===== *)
theory Spec2Isabelle
  imports Settlement Goals Todos Plans Usage FileChanges Agents Delivery Templates Scheduler SystemHistories Idempotency SessionHistories
begin

text \<open>
  Verification of the control plane of agent-team-workbench
  (\<^verbatim>\<open>src/agent-team-workbench\<close>; every path below is relative to it).

  \<^bold>\<open>The program.\<close> A control plane keeps work items (tasks), the runs of agents on them, and the governance
  documents around a Goal (Todos, plans, turn decisions, quota reservations) in one SQLite database.
  Runner processes execute the runs under a lease and report events and usage; a scheduler turns
  timers, comments, assignments and finished work into wake-up requests and consumes them into
  queued runs; a run that starts on a task takes the execution lock on the work item row, which
  refuses other runs that start; every change appends to an event log in the same transaction, and an outbox publisher and
  a hub carry the log to the clients. At the start three sweeps bring what a crash left behind back
  into order.

  \<^bold>\<open>Theories and what they model.\<close>
  \<^item> Prelude: Go errors as values, 64-bit integers with their wrap-around (\<open>wrap64\<close>, \<open>inc64\<close>),
    instants. GoText: strings as byte lists, with \<open>strings\<close>, \<open>utf8\<close> and \<open>path\<close> as far as they are used.
  \<^item> Lifecycle: the locales of the contracts that the aggregates share (status machine, version lock);
    Digest: the sealing of documents by a digest over their canonical form.
  \<^item> GovernanceTypes, Goals, Todos, Plans, Agents, Work, Questions, Pricing, Usage: the aggregates and
    value types of \<^verbatim>\<open>internal/domain\<close> (governance.go, plan.go, agent.go, role.go, workitem.go, run.go,
    approval.go, question.go, quota.go, usage.go, canonical_usage.go, task_session.go) and the
    canonicalization of usage in \<^verbatim>\<open>internal/application/canonical_usage.go\<close>.
  \<^item> SqlStore, SqlTime: a connection, transactions and stored times
    (\<^verbatim>\<open>internal/persistence/sqlstore/store.go\<close>). Ledger, Leases, EventLog, Idempotency, Wakeups, RunStore:
    the repositories of that directory over their tables (quota.go, runners.go, events.go,
    idempotency.go, wakeups.go, workitems.go, runs.go, agents.go, approvals.go, questions.go,
    artifacts.go), a table being a list of rows in insertion order.
  \<^item> Settlement: the quota settlement of a turn (\<^verbatim>\<open>internal/application/quota_settlement.go\<close>).
  \<^item> Scheduler, Templates: the wake-up scheduler and its prompts (\<^verbatim>\<open>internal/scheduling\<close>).
  \<^item> Runs: the run service (\<^verbatim>\<open>internal/application/runs.go\<close>, tasklock.go, runprojection.go,
    service.go): locked transitions, progress, control, approvals, questions, artifacts.
    TaskLocks, RunHistories: its refinement of a small protocol of runs and locks, and its histories.
    Effects, QuestionRows, QuestionHistories: what each operation leaves alone, and the life of
    questions over histories and through a delivery.
  \<^item> Reconcile: the sweeps at the start (\<^verbatim>\<open>reconcile.go\<close>, run_reconcile.go, question_reconcile.go of
    \<^verbatim>\<open>internal/application\<close>, the order of the calls in \<^verbatim>\<open>cmd/control-plane/main.go\<close>) and the run
    journal (\<^verbatim>\<open>internal/observability/journal.go\<close>). SystemHistories: histories of the run service with
    these sweeps among its calls, and the task locks over them.
  \<^item> TaskSessions, Sessions: the provider sessions of tasks and the usage of runs
    (\<^verbatim>\<open>internal/persistence/sqlstore/tasksessions.go\<close>, the usage columns of runs.go with the triggers of
    migration 0028; sessions.go, execution_context.go, canonical_usage_hook.go of \<^verbatim>\<open>internal/application\<close>).
    RunnerEvents: the frames of runners (\<^verbatim>\<open>internal/application/runner_events.go\<close>).
    FrameEffects, FrameHistories, SessionHistories: their effects, and histories of frames together with
    the run service, the leases and the hooks.
  \<^item> Delivery: the hub (\<^verbatim>\<open>internal/sse/hub.go\<close>) and the outbox publisher
    (\<^verbatim>\<open>internal/outbox/publisher.go\<close>). FileChanges: line counts, diffs and run summaries
    (\<^verbatim>\<open>internal/filechanges\<close>).

  \<^bold>\<open>How state and operations correspond.\<close> A struct is a record, its fields prefixed; an enumeration of
  strings is a datatype whose last constructor carries any other string (and an Unset or None
  constructor for the empty one); a nil pointer or a NULL column is None. A method on a repository
  takes and returns the state of the database, a record that starts with the connection. An
  operation of a repository is a computation \<open>db \<Rightarrow> 'a go_result \<times> db\<close>: statements run in the
  order of the code, each may fail, and \<open>InTx\<close> restores the rows if its body returns an error or if
  the commit fails. The field \<open>cn_env\<close> of the connection says of the n-th statement whether it fails and
  what the clock reads then; no theorem constrains it unless it says so, so every theorem about
  a history covers every pattern of failing statements. A loop that goes on after an error and
  reports the first one returns its count together with an optional error. Messages of errors keep
  their constant part only. An int64 is an \<open>int\<close> with its wrap-around written where Go computes;
  \<open>version + 1\<close> computed by SQL on a version column is plain, and payloads are Go values (\<open>goval\<close>).

  \<^bold>\<open>What the groups of lemmas show.\<close>
  \<^item> Tables and aggregates: every operation keeps the invariants (valid documents, versions that only grow,
    terminal statuses that never change, unique keys), with all branches of its errors.
  \<^item> Ledger and settlement: never overspent, append only, the settlement closes a ready turn.
  \<^item> Leases: fencing tokens of a run strictly increase and a superseded lease stays superseded.
  \<^item> Run service: \<open>task_step\<close> of TaskLocks is the abstract specification; every operation, failing
    anywhere, is a sequence of its steps, and from the protocol alone follow the properties of the lock: it stays with a run that started with it
    until that run has ended, and it is never held by a run that has, but for the two sweeps of the start
    that end runs without giving it back (\<open>system_step\<close> of SystemHistories). The lock is asked for only on
    the way from queued or starting to running; \<open>reconnecting_bypasses_lock\<close> is the way around it.
  \<^item> Questions: answers are validated before they are prepared, and one that is reported as given
    is the one that is stored unless the question was answered while it was being delivered; the locale \<open>effect\<close> of Effects carries what operations may do to a part of the state.
  \<^item> Runner frames: applied once, refused once a newer lease exists, whatever happens in between. A
    session belongs to the run that claimed it last; its input tokens are those of its runs, counted
    once; the settled usage of a run never changes. Four locales (\<open>session_effect\<close>, \<open>claim_effect\<close>,
    \<open>frame_effect\<close>, \<open>history_effect\<close>) give each of these from a few laws about single writes.
  \<^item> Usage and cost: exact arithmetic without overflow, growth of water marks, rounding half up.
  \<^item> Scheduler: single timers, what each outcome means, delivery of settlement wake-ups.
  \<^item> Diffs: round trip, optimality against the longest common subsequence.

  \<^bold>\<open>Bounds and fuel.\<close> The subtree walk of work items uses as fuel the number of rows, and a walk
  without repetition visits no row twice; the diff is computed exactly up to 400000 cells and
  falls back to a replacement of everything beyond, as in the code; a drain publishes at most 100
  messages; a tick takes at most 50 due timers; the search for a lost run terminates by the
  number of its pending rows. All other recursions are structural or carry a measure.

  \<^bold>\<open>Parameters.\<close> What is not under src/ or reads the world is an argument: SHA-256 (\<open>hasher\<close>),
  JSON codecs (\<open>UsageEnv\<close> for reports and prices), random ids (readings of the state), the clock, the runner of a forwarded answer or
  input, the policy calls behind an approval (\<open>ApprovalEnv\<close>), and the parts of the service around the
  reconciliation (\<open>ReconcileEnv\<close>). Hypotheses about them say what they leave alone: in histories of frames the
  resolution of a plan and whatever happens while an answer is delivered may write every table as long
  as they have the effect in question (leases and seen frames kept, settled usage kept, this session
  not claimed; \<open>env_within\<close>); in histories of the run service they move runs and locks by the protocol only
  (\<open>env_ok\<close>, \<open>startup_env\<close>); the starter of the scheduler, which is \<^verbatim>\<open>internal/application/wakeup.go\<close>, adds
  no timers and changes no request (\<open>starter_ok\<close>: only \<^verbatim>\<open>internal/scheduling/loop.go\<close> enqueues timers).
  Each property that has such a hypothesis has a witness with a concrete instance.

  \<^bold>\<open>Not modelled.\<close> The coordinator engine, the plan executor and the governance projections, which
  assemble prompts and contexts from JSON; the adapters of the model CLIs and the gateway (network
  protocols, supervision of processes, the checks of a frame against its connection); self-healing and
  the assembly of runs; HTTP, MCP and the commands (decoding and wiring); the
  knowledge library; configuration and the registry of hosts (files). Logging, notifications after a
  commit, and the goroutines around the modelled calls are left out: each call is modelled as the
  transaction it runs, and interleavings of calls as sequences of them, since SQLite serializes writers.
  What happens while an answer travels to its provider is an arbitrary step; that one call at a time
  delivers the answer to a question is shown of the map of deliveries by itself (\<open>single_delivery\<close> of
  QuestionHistories). A crash of the process is not a step: a transaction that a crash cuts off is one whose
  commit fails, and a drain of the outbox that a crash cuts off between the hand-over and the mark of a
  message leaves the rows that a failing mark leaves.
\<close>

end
